(* ===== verification/GW_Prelude.thy ===== *)
theory GW_Prelude
  imports Main "HOL-Library.Word" "HOL-Library.Sublist"
begin

text \<open>
  Shared vocabulary of the development: the machine types of the C++ sources, the views the
  sources take of a byte range, and the facts on words and lists that several components use.
\<close>

unbundle bit_operations_syntax

section \<open>Types\<close>

text \<open>
  \<open>char\<close> and \<open>std::byte\<close> are bytes, \<open>char16_t\<close> and \<open>char32_t\<close> words of 16 and 32 bits.
  A \<open>std::size_t\<close> is a \<open>nat\<close>; where the sources ask whether it overflows, it is read as a
  word of 64 bits. A \<open>std::string_view\<close> or \<open>std::span\<close> is the list of its elements.
\<close>

type_synonym byte = "8 word"
type_synonym char16 = "16 word"
type_synonym char32 = "32 word"
type_synonym size64 = "64 word"

definition size_max :: nat where
  "size_max = 2 ^ 64 - 1"

text \<open>\<open>view.substr(offset)\<close> and \<open>view.substr(offset, count)\<close> for an offset within the view.\<close>

abbreviation substr_from :: "'a list \<Rightarrow> nat \<Rightarrow> 'a list" where
  "substr_from text offset \<equiv> drop offset text"

abbreviation substr :: "'a list \<Rightarrow> nat \<Rightarrow> nat \<Rightarrow> 'a list" where
  "substr text offset count \<equiv> take count (drop offset text)"

section \<open>Collections of facts\<close>

named_theorems word_nat \<open>words and bit operations read as natural numbers\<close>
named_theorems result_defs \<open>constructors of result records\<close>

section \<open>Words as natural numbers\<close>

lemma unat_le_iff_nat [word_nat]: "(a :: 'a::len word) \<le> b \<longleftrightarrow> unat a \<le> unat b"
  by (simp add: word_le_nat_alt)

lemma unat_less_iff_nat [word_nat]: "(a :: 'a::len word) < b \<longleftrightarrow> unat a < unat b"
  by (simp add: word_less_nat_alt)

lemma unat_eq_iff_nat: "(a :: 'a::len word) = b \<longleftrightarrow> unat a = unat b"
  by (simp add: word_unat_eq_iff)

lemma unat_byte_less [simp]: "unat (b :: byte) < 256"
  using unsigned_less [of b] by simp

lemma unat_drop_bit [word_nat]: "unat (drop_bit n (w :: 'a::len word)) = unat w div 2 ^ n"
  by (simp only: unat_drop_bit_eq drop_bit_eq_div [of n "unat w"])

lemma unat_and_mask [word_nat]: "unat (w AND mask n :: 'a::len word) = unat w mod 2 ^ n"
  by (metis take_bit_eq_mask unsigned_take_bit_eq take_bit_eq_mod)

lemma nat_or_add: "b < 2 ^ k \<Longrightarrow> 2 ^ k dvd a \<Longrightarrow> (a :: nat) OR b = a + b"
proof -
  assume b: "b < 2 ^ k" and a: "2 ^ k dvd a"
  have "a AND b = 0"
  proof (rule bit_eqI)
    fix n
    show "bit (a AND b) n = bit 0 n"
    proof (cases "n < k")
      case True
      from a obtain c where "a = push_bit k c"
        by (metis dvdE mult.commute push_bit_eq_mult)
      with True show ?thesis by (simp add: bit_simps)
    next
      case False
      from b have "take_bit k b = b" by (simp add: take_bit_nat_eq_self)
      with False show ?thesis by (metis bit_and_iff bit_take_bit_iff bit_0_eq bot_apply bot_bool_def)
    qed
  qed
  then show ?thesis by (simp add: disjunctive_add_eq_or [symmetric])
qed


lemma mod_offset:
  assumes "k dvd a" "a \<le> n" "n < a + k"
  shows "n mod k = n - (a :: nat)"
proof -
  from assms obtain c r where "a = k * c" and r: "n = a + r" by (metis dvdE le_Suc_ex)
  then have "n mod k = r mod k" by simp
  with r assms(3) show ?thesis by simp
qed

lemma unat_push_bit_le:
  assumes "unat w * 2 ^ n < 2 ^ LENGTH('a)"
  shows "unat (push_bit n (w :: 'a::len word)) = unat w * 2 ^ n"
proof -
  have "unat (push_bit n w) = take_bit LENGTH('a) (push_bit n (unat w))"
    by (rule unsigned_push_bit_eq)
  also have "\<dots> = unat w * 2 ^ n"
    unfolding push_bit_eq_mult using assms by (rule take_bit_nat_eq_self)
  finally show ?thesis .
qed

lemma unat_or_add: "unat b < 2 ^ k \<Longrightarrow> 2 ^ k dvd unat a \<Longrightarrow> unat ((a::'a::len word) OR b) = unat a + unat b"
  by (simp add: unsigned_or_eq nat_or_add)

lemma unat_push_or:
  assumes "unat y < 2 ^ n" and "(unat x + 1) * 2 ^ n \<le> 2 ^ LENGTH('a)"
  shows "unat (push_bit n x OR y :: 'a::len word) = unat x * 2 ^ n + unat y"
proof -
  from assms(2) have "unat x * 2 ^ n < 2 ^ LENGTH('a)"
    by (rule less_le_trans [rotated]) simp
  then have "unat (push_bit n x) = unat x * 2 ^ n" by (rule unat_push_bit_le)
  with assms(1) show ?thesis by (simp add: unat_or_add [where k = n])
qed

lemma map_unat_eq_Cons: "map unat xs = v # vs \<longleftrightarrow> (\<exists>b bs. xs = b # bs \<and> unat b = v \<and> map unat bs = vs)"
  by (cases xs) auto

lemma unat_list_eq: "map unat xs = map unat ys \<Longrightarrow> xs = (ys :: 'a::len word list)"
  by (erule map_injective) (simp add: inj_def word_unat_eq_iff)

section \<open>Short lists\<close>

lemma replicate_small [simp]:
  "replicate 2 x = [x, x]" "replicate 3 x = [x, x, x]" "replicate 4 x = [x, x, x, x]"
  by (simp_all add: numeral_eq_Suc)

lemma list_update_small [simp]:
  "(a # xs)[1 := y] = a # xs[0 := y]"
  "(a # xs)[2 := y] = a # xs[1 := y]"
  "(a # xs)[3 := y] = a # xs[2 := y]"
  by (simp_all add: numeral_eq_Suc)

lemma nth_small [simp]:
  "(a # xs) ! 1 = xs ! 0" "(a # xs) ! 2 = xs ! 1" "(a # xs) ! 3 = xs ! 2"
  by (simp_all add: numeral_eq_Suc)

lemma drop_small [simp]: "drop 1 (a # xs) = xs" "drop 2 (a # xs) = drop 1 xs" "drop 3 (a # xs) = drop 2 xs" "drop 4 (a # xs) = drop 3 xs"
  by (simp_all add: numeral_eq_Suc)

lemma take_small [simp]: "take 1 (a # xs) = [a]" "take 2 (a # xs) = a # take 1 xs" "take 3 (a # xs) = a # take 2 xs" "take 4 (a # xs) = a # take 3 xs"
  by (simp_all add: numeral_eq_Suc)

lemma list_ge_2: "2 \<le> length xs \<Longrightarrow> \<exists>a b ys. xs = a # b # ys"
  by (cases xs; cases "tl xs") auto

lemma list_ge_3: "3 \<le> length xs \<Longrightarrow> \<exists>a b c ys. xs = a # b # c # ys"
  by (cases xs; cases "tl xs"; cases "tl (tl xs)") auto

lemma list_ge_4: "4 \<le> length xs \<Longrightarrow> \<exists>a b c d ys. xs = a # b # c # d # ys"
  by (cases xs; cases "tl xs"; cases "tl (tl xs)"; cases "tl (tl (tl xs))") auto

lemma strict_prefix_Cons_iff:
  "strict_prefix xs (a # ys) \<longleftrightarrow> xs = [] \<or> (\<exists>zs. xs = a # zs \<and> strict_prefix zs ys)"
  by (cases xs) auto

end
