(* ===== verification/Base_Arithmetic.thy ===== *)
theory Base_Arithmetic
  imports GW_Prelude
begin

text \<open>
  The checked-arithmetic predicates of \<^verbatim>\<open>foundation/base/checked_arithmetic.h\<close>, for an unsigned type of
  any width, and their meaning on the numbers the words stand for.
\<close>

definition wouldAddOverflow :: "'a::len word \<Rightarrow> 'a word \<Rightarrow> bool" where
  "wouldAddOverflow left right \<longleftrightarrow> right > - 1 - left"

definition wouldMultiplyOverflow :: "'a::len word \<Rightarrow> 'a word \<Rightarrow> bool" where
  "wouldMultiplyOverflow left right \<longleftrightarrow> left \<noteq> 0 \<and> right > (- 1) div left"

lemma unat_max_word: "unat (- 1 :: 'a::len word) = 2 ^ LENGTH('a) - 1"
  by (simp add: unsigned_minus_1_eq_mask mask_eq_exp_minus_1)

lemma wouldAddOverflow_nat:
  "wouldAddOverflow left right \<longleftrightarrow> unat left + unat right \<ge> 2 ^ LENGTH('a)" for left right :: "'a::len word"
proof -
  have "unat (- 1 - left) = 2 ^ LENGTH('a) - 1 - unat left"
    by (simp add: unat_sub unat_max_word)
  moreover have "unat left < 2 ^ LENGTH('a)" by (rule unsigned_less)
  ultimately show ?thesis unfolding wouldAddOverflow_def word_less_nat_alt by linarith
qed

lemma wouldMultiplyOverflow_nat:
  "wouldMultiplyOverflow left right \<longleftrightarrow> unat left * unat right \<ge> 2 ^ LENGTH('a)" for left right :: "'a::len word"
proof (cases "left = 0")
  case False
  then have pos: "0 < unat left" by (simp add: unat_gt_0)
  have "unat right > (2 ^ LENGTH('a) - 1) div unat left \<longleftrightarrow> 2 ^ LENGTH('a) - 1 < unat right * unat left"
    using pos by (simp add: div_less_iff_less_mult)
  also have "\<dots> \<longleftrightarrow> unat left * unat right \<ge> 2 ^ LENGTH('a)"
    using zero_less_power [of "2::nat" "LENGTH('a)"] unfolding mult.commute [of "unat right"] by linarith
  finally show ?thesis using False
    by (simp add: wouldMultiplyOverflow_def word_less_nat_alt unat_div unat_max_word)
qed (simp add: wouldMultiplyOverflow_def)

text \<open>\<open>wouldAddOverflow\<close> and \<open>wouldMultiplyOverflow\<close> at \<open>std::size_t\<close>.\<close>

lemma wouldAddOverflow_size:
  "a \<le> size_max \<Longrightarrow> b \<le> size_max \<Longrightarrow>
    wouldAddOverflow (of_nat a :: size64) (of_nat b) \<longleftrightarrow> a + b > size_max"
  by (auto simp: wouldAddOverflow_nat size_max_def unat_of_nat)

lemma wouldMultiplyOverflow_size:
  "a \<le> size_max \<Longrightarrow> b \<le> size_max \<Longrightarrow>
    wouldMultiplyOverflow (of_nat a :: size64) (of_nat b) \<longleftrightarrow> a * b > size_max"
  by (auto simp: wouldMultiplyOverflow_nat size_max_def unat_of_nat)

text \<open>at every unsigned width the two predicates are exact: they hold when, and only when, the result does not fit.\<close>

theorem overflow_predicates_exact:
  "(wouldAddOverflow left right \<longleftrightarrow> unat left + unat right \<ge> 2 ^ LENGTH('a)) \<and>
   (wouldMultiplyOverflow left right \<longleftrightarrow> unat left * unat right \<ge> 2 ^ LENGTH('a))" for left right :: "'a::len word"
  by (simp add: wouldAddOverflow_nat wouldMultiplyOverflow_nat)

end
