(* ===== verification/Unicode_Encoding.thy ===== *)
theory Unicode_Encoding
  imports GW_Prelude
begin

text \<open>
  The non-allocating scalar codecs of \<^verbatim>\<open>foundation/unicode/internal/encoding.h\<close> and the passive
  types of \<^verbatim>\<open>foundation/unicode/unicode.h\<close>: strict UTF-8 and UTF-16 decoding of one scalar, encoded
  lengths, unchecked encoding into a caller's buffer, and decoding of the scalar before an offset.
\<close>

unbundle bit_operations_syntax

section \<open>Outcomes and results\<close>

datatype DecodeOutcome = Decoded | Incomplete | InvalidEncoding

datatype EncodeOutcome = Encoded | InvalidScalar

text \<open>\<open>Types::Utf8::DecodeResult\<close>; the default value of the source is \<open>incomplete8\<close>.\<close>

record Utf8_DecodeResult =
  scalar8 :: char32
  bytesConsumed :: nat
  outcome8 :: DecodeOutcome

record Utf16_DecodeResult =
  scalar16 :: char32
  codeUnitsConsumed :: nat
  outcome16 :: DecodeOutcome

abbreviation decoded8 :: "char32 \<Rightarrow> nat \<Rightarrow> Utf8_DecodeResult" where
  "decoded8 s n \<equiv> \<lparr>scalar8 = s, bytesConsumed = n, outcome8 = Decoded\<rparr>"

abbreviation incomplete8 :: Utf8_DecodeResult where
  "incomplete8 \<equiv> \<lparr>scalar8 = 0, bytesConsumed = 0, outcome8 = Incomplete\<rparr>"

abbreviation invalid8 :: Utf8_DecodeResult where
  "invalid8 \<equiv> \<lparr>scalar8 = 0, bytesConsumed = 0, outcome8 = InvalidEncoding\<rparr>"

abbreviation decoded16 :: "char32 \<Rightarrow> nat \<Rightarrow> Utf16_DecodeResult" where
  "decoded16 s n \<equiv> \<lparr>scalar16 = s, codeUnitsConsumed = n, outcome16 = Decoded\<rparr>"

abbreviation incomplete16 :: Utf16_DecodeResult where
  "incomplete16 \<equiv> \<lparr>scalar16 = 0, codeUnitsConsumed = 0, outcome16 = Incomplete\<rparr>"

abbreviation invalid16 :: Utf16_DecodeResult where
  "invalid16 \<equiv> \<lparr>scalar16 = 0, codeUnitsConsumed = 0, outcome16 = InvalidEncoding\<rparr>"

section \<open>Scalar values and surrogates\<close>

definition kMaximumScalarValue :: char32 where
  "kMaximumScalarValue = 0x10FFFF"

definition isScalarValue :: "char32 \<Rightarrow> bool" where
  "isScalarValue value \<longleftrightarrow>
     value \<le> kMaximumScalarValue \<and> (value < 0xD800 \<or> value > 0xDFFF)"

definition isHighSurrogate :: "char16 \<Rightarrow> bool" where
  "isHighSurrogate codeUnit \<longleftrightarrow> codeUnit \<ge> 0xD800 \<and> codeUnit \<le> 0xDBFF"

definition isLowSurrogate :: "char16 \<Rightarrow> bool" where
  "isLowSurrogate codeUnit \<longleftrightarrow> codeUnit \<ge> 0xDC00 \<and> codeUnit \<le> 0xDFFF"

definition isSurrogate :: "char16 \<Rightarrow> bool" where
  "isSurrogate codeUnit \<longleftrightarrow> isHighSurrogate codeUnit \<or> isLowSurrogate codeUnit"

section \<open>UTF-8\<close>

definition isContinuationByte :: "byte \<Rightarrow> bool" where
  "isContinuationByte value \<longleftrightarrow> value AND 0xC0 = 0x80"

text \<open>
  The operands of the shifts are promoted to \<open>unsigned int\<close> first, so the scalar is assembled on
  words of 32 bits.
\<close>

definition decodeUtf8Scalar :: "byte list \<Rightarrow> Utf8_DecodeResult" where
  "decodeUtf8Scalar bytes =
    (if bytes = [] then incomplete8
     else let first = bytes ! 0 in
       if first \<le> 0x7F then decoded8 (ucast first) 1
       else if first < 0xC2 then invalid8
       else if first \<le> 0xDF then
         (if length bytes < 2 then incomplete8
          else let second = bytes ! 1 in
            if second AND 0xC0 \<noteq> 0x80 then invalid8
            else decoded8
              (push_bit 6 (ucast first AND 0x1F) OR (ucast second AND 0x3F)) 2)
       else if first \<le> 0xEF then
         (if length bytes < 2 then incomplete8
          else let second = bytes ! 1;
                   secondIsValid =
                     (if first = 0xE0 then second \<ge> 0xA0 \<and> second \<le> 0xBF
                      else if first = 0xED then second \<ge> 0x80 \<and> second \<le> 0x9F
                      else second AND 0xC0 = 0x80) in
            if \<not> secondIsValid then invalid8
            else if length bytes < 3 then incomplete8
            else let third = bytes ! 2 in
              if third AND 0xC0 \<noteq> 0x80 then invalid8
              else decoded8
                (push_bit 12 (ucast first AND 0x0F) OR push_bit 6 (ucast second AND 0x3F)
                   OR (ucast third AND 0x3F)) 3)
       else if first \<le> 0xF4 then
         (if length bytes < 2 then incomplete8
          else let second = bytes ! 1;
                   secondIsValid =
                     (if first = 0xF0 then second \<ge> 0x90 \<and> second \<le> 0xBF
                      else if first = 0xF4 then second \<ge> 0x80 \<and> second \<le> 0x8F
                      else second AND 0xC0 = 0x80) in
            if \<not> secondIsValid then invalid8
            else if length bytes < 3 then incomplete8
            else let third = bytes ! 2 in
              if third AND 0xC0 \<noteq> 0x80 then invalid8
              else if length bytes < 4 then incomplete8
              else let fourth = bytes ! 3 in
                if fourth AND 0xC0 \<noteq> 0x80 then invalid8
                else decoded8
                  (push_bit 18 (ucast first AND 0x07) OR push_bit 12 (ucast second AND 0x3F)
                     OR push_bit 6 (ucast third AND 0x3F) OR (ucast fourth AND 0x3F)) 4)
       else invalid8)"

definition utf8EncodedLength :: "char32 \<Rightarrow> nat" where
  "utf8EncodedLength scalar =
    (if scalar \<le> 0x7F then 1
     else if scalar \<le> 0x7FF then 2
     else if scalar \<le> 0xFFFF then 3
     else 4)"

text \<open>
  The destination span is returned updated. A write through \<open>destination[i]\<close> needs
  \<open>i\<close> below the span's size, which is the precondition the source documents.
\<close>

definition encodeUtf8Unchecked :: "char32 \<Rightarrow> byte list \<Rightarrow> byte list" where
  "encodeUtf8Unchecked value destination =
    (if value \<le> 0x7F then
       destination[0 := ucast value]
     else if value \<le> 0x7FF then
       destination[0 := ucast (0xC0 OR drop_bit 6 value),
                   1 := ucast (0x80 OR (value AND 0x3F))]
     else if value \<le> 0xFFFF then
       destination[0 := ucast (0xE0 OR drop_bit 12 value),
                   1 := ucast (0x80 OR (drop_bit 6 value AND 0x3F)),
                   2 := ucast (0x80 OR (value AND 0x3F))]
     else
       destination[0 := ucast (0xF0 OR drop_bit 18 value),
                   1 := ucast (0x80 OR (drop_bit 12 value AND 0x3F)),
                   2 := ucast (0x80 OR (drop_bit 6 value AND 0x3F)),
                   3 := ucast (0x80 OR (value AND 0x3F))])"

section \<open>UTF-16\<close>

definition decodeUtf16Scalar :: "char16 list \<Rightarrow> Utf16_DecodeResult" where
  "decodeUtf16Scalar codeUnits =
    (if codeUnits = [] then incomplete16
     else let first = codeUnits ! 0 in
       if \<not> isSurrogate first then decoded16 (ucast first) 1
       else if isLowSurrogate first then invalid16
       else if length codeUnits < 2 then incomplete16
       else let second = codeUnits ! 1 in
         if \<not> isLowSurrogate second then invalid16
         else let high = ucast first - 0xD800;
                  low = ucast second - 0xDC00 in
           decoded16 (0x10000 + push_bit 10 high + low) 2)"

definition utf16EncodedLength :: "char32 \<Rightarrow> nat" where
  "utf16EncodedLength scalar = (if scalar \<le> 0xFFFF then 1 else 2)"

definition encodeUtf16Unchecked :: "char32 \<Rightarrow> char16 list \<Rightarrow> char16 list" where
  "encodeUtf16Unchecked value destination =
    (if value \<le> 0xFFFF then destination[0 := ucast value]
     else let supplementary = value - 0x10000 in
       destination[0 := ucast (0xD800 + drop_bit 10 supplementary),
                   1 := ucast (0xDC00 + (supplementary AND 0x3FF))])"

section \<open>The scalar before an offset\<close>

record PreviousUtf8ScalarResult =
  previous_decoded :: Utf8_DecodeResult
  startOffset :: nat

text \<open>\<open>while (startOffset > 0 && isContinuationByte(text[startOffset])) --startOffset;\<close>\<close>

fun scanToLead :: "byte list \<Rightarrow> nat \<Rightarrow> nat" where
  "scanToLead text 0 = 0"
| "scanToLead text (Suc offset) =
     (if isContinuationByte (text ! Suc offset) then scanToLead text offset else Suc offset)"

definition decodePreviousUtf8Scalar :: "byte list \<Rightarrow> nat \<Rightarrow> PreviousUtf8ScalarResult" where
  "decodePreviousUtf8Scalar text byteOffset =
    (if byteOffset = 0 \<or> byteOffset > length text
     then \<lparr>previous_decoded = incomplete8, startOffset = 0\<rparr>
     else let start = scanToLead text (byteOffset - 1);
              encodedLength = byteOffset - start;
              decoded = decodeUtf8Scalar (substr text start encodedLength) in
       if outcome8 decoded \<noteq> Decoded \<or> bytesConsumed decoded \<noteq> encodedLength
       then \<lparr>previous_decoded = invalid8, startOffset = byteOffset\<rparr>
       else \<lparr>previous_decoded = decoded, startOffset = start\<rparr>)"


section \<open>Bit fields of a UTF-8 sequence\<close>

lemma and_C0_eq: "(b :: byte) AND 0xC0 = push_bit 6 (take_bit 2 (drop_bit 6 b))"
proof -
  have "push_bit 6 (take_bit 2 (drop_bit 6 b)) = b AND (mask (2 + 6) AND NOT (mask 6))"
    by (simp only: slice_eq_mask and.assoc)
  also have "mask (2 + 6) AND NOT (mask 6) = push_bit 6 (mask 2 :: byte)"
    by (simp only: push_bit_mask_eq)
  also have "\<dots> = 0xC0" by (simp add: mask_eq_exp_minus_1)
  finally show ?thesis by simp
qed

lemma isContinuationByte_iff: "isContinuationByte b \<longleftrightarrow> 128 \<le> unat b \<and> unat b < 192"
proof -
  have b: "unat b div 64 < 4" by (rule less_mult_imp_div_less) simp
  have t: "unat (take_bit 2 (drop_bit 6 b)) = unat b div 64"
    unfolding take_bit_eq_mask unat_and_mask unat_drop_bit using b by simp
  have "unat (b AND 0xC0) = unat b div 64 * 64"
    unfolding and_C0_eq by (subst unat_push_bit_le) (use b t in simp_all)
  then have iff: "isContinuationByte b \<longleftrightarrow> unat b div 64 = 2"
    by (simp add: isContinuationByte_def unat_eq_iff_nat [of _ "0x80"])
  have "unat b div 64 = 2" if "128 \<le> unat b" "unat b < 192"
    using that by (intro div_nat_eqI) auto
  moreover have "128 \<le> unat b \<and> unat b < 192" if "unat b div 64 = 2"
    using div_mult_mod_eq [of "unat b" 64] mod_less_divisor [of 64 "unat b", OF zero_less_numeral] that by simp
  ultimately show ?thesis using iff by auto
qed

lemma masks32: "(0x07::char32) = mask 3" "(0x0F::char32) = mask 4" "(0x1F::char32) = mask 5" "(0x3F::char32) = mask 6"
   "(0x3FF::char32) = mask 10"
  by (simp_all add: mask_eq_exp_minus_1)

lemma unat_and_07: "unat ((w::char32) AND 0x07) = unat w mod 8" by (simp add: masks32 unat_and_mask)

lemma unat_and_0F: "unat ((w::char32) AND 0x0F) = unat w mod 16" by (simp add: masks32 unat_and_mask)

lemma unat_and_1F: "unat ((w::char32) AND 0x1F) = unat w mod 32" by (simp add: masks32 unat_and_mask)

lemma unat_and_3F: "unat ((w::char32) AND 0x3F) = unat w mod 64" by (simp add: masks32 unat_and_mask)

lemma unat_and_3FF: "unat ((w::char32) AND 0x3FF) = unat w mod 1024" by (simp add: masks32 unat_and_mask)

lemma unat_ucast_byte: "unat (ucast (b :: byte) :: char32) = unat b"
proof -
  have "unat b < 2 ^ 32" by (rule less_trans [OF unat_byte_less]) simp
  then show ?thesis by (simp add: unsigned_ucast_eq take_bit_nat_eq_self)
qed

lemma cont_bits: "128 \<le> unat (s::byte) \<Longrightarrow> unat s < 192 \<Longrightarrow> unat (ucast s AND 0x3F :: char32) = unat s - 128"
  by (simp add: unat_and_3F unat_ucast_byte mod_offset [of 64 128])

lemma lead2_bits: "192 \<le> unat (s::byte) \<Longrightarrow> unat s < 224 \<Longrightarrow> unat (ucast s AND 0x1F :: char32) = unat s - 192"
  by (simp add: unat_and_1F unat_ucast_byte mod_offset [of 32 192])

lemma lead3_bits: "224 \<le> unat (s::byte) \<Longrightarrow> unat s < 240 \<Longrightarrow> unat (ucast s AND 0x0F :: char32) = unat s - 224"
  by (simp add: unat_and_0F unat_ucast_byte mod_offset [of 16 224])

lemma lead4_bits: "240 \<le> unat (s::byte) \<Longrightarrow> unat s < 248 \<Longrightarrow> unat (ucast s AND 0x07 :: char32) = unat s - 240"
  by (simp add: unat_and_07 unat_ucast_byte mod_offset [of 8 240])

lemma scalar2:
  assumes "128 \<le> unat (s::byte)" "unat s < 192" "192 \<le> unat f" "unat (f::byte) < 224"
  shows "unat (push_bit 6 (ucast f AND 0x1F) OR (ucast s AND 0x3F) :: char32) = (unat f - 192) * 64 + (unat s - 128)"
  using assms by (subst unat_push_or) (simp_all add: cont_bits lead2_bits)

lemma scalar3:
  assumes "128 \<le> unat (s::byte)" "unat s < 192" "128 \<le> unat (t::byte)" "unat t < 192" "224 \<le> unat f" "unat (f::byte) < 240"
  shows "unat (push_bit 12 (ucast f AND 0x0F) OR push_bit 6 (ucast s AND 0x3F) OR (ucast t AND 0x3F) :: char32)
    = (unat f - 224) * 4096 + (unat s - 128) * 64 + (unat t - 128)"
proof -
  have st: "unat (push_bit 6 (ucast s AND 0x3F) OR (ucast t AND 0x3F) :: char32) = (unat s - 128) * 64 + (unat t - 128)"
    using assms by (subst unat_push_or) (simp_all add: cont_bits)
  show ?thesis unfolding or.assoc
    using assms by (subst unat_push_or) (simp_all only: st lead3_bits, simp_all)
qed

lemma scalar4:
  assumes "128 \<le> unat (s::byte)" "unat s < 192" "128 \<le> unat (t::byte)" "unat t < 192"
    "128 \<le> unat (u::byte)" "unat u < 192" "240 \<le> unat f" "unat (f::byte) < 248"
  shows "unat (push_bit 18 (ucast f AND 0x07) OR push_bit 12 (ucast s AND 0x3F)
      OR push_bit 6 (ucast t AND 0x3F) OR (ucast u AND 0x3F) :: char32)
    = (unat f - 240) * 262144 + (unat s - 128) * 4096 + (unat t - 128) * 64 + (unat u - 128)"
proof -
  have tu: "unat (push_bit 6 (ucast t AND 0x3F) OR (ucast u AND 0x3F) :: char32) = (unat t - 128) * 64 + (unat u - 128)"
    using assms by (subst unat_push_or) (simp_all add: cont_bits)
  have stu: "unat (push_bit 12 (ucast s AND 0x3F) OR (push_bit 6 (ucast t AND 0x3F) OR (ucast u AND 0x3F)) :: char32)
    = (unat s - 128) * 4096 + ((unat t - 128) * 64 + (unat u - 128))"
    using assms by (subst unat_push_or) (simp_all only: tu cont_bits, simp_all)
  show ?thesis unfolding or.assoc
    using assms by (subst unat_push_or) (simp_all only: stu lead4_bits, simp_all)
qed

lemma unat_ucast_to_byte: "unat (ucast (w :: char32) :: byte) = unat w mod 256"
  by (simp add: unsigned_ucast_eq take_bit_eq_mod)

lemma cont_byte: "unat (ucast (0x80 OR (w AND 0x3F) :: char32) :: byte) = 128 + unat w mod 64"
  by (simp only: unat_ucast_to_byte, subst unat_or_add [where k = 6]) (simp_all add: unat_and_3F)

lemma lead2_byte: "unat v < 2048 \<Longrightarrow> unat (ucast (0xC0 OR drop_bit 6 v :: char32) :: byte) = 192 + unat v div 64"
  by (simp only: unat_ucast_to_byte, subst unat_or_add [where k = 6]) (simp_all only: unat_drop_bit, simp_all)

lemma lead3_byte: "unat v < 65536 \<Longrightarrow> unat (ucast (0xE0 OR drop_bit 12 v :: char32) :: byte) = 224 + unat v div 4096"
  by (simp only: unat_ucast_to_byte, subst unat_or_add [where k = 5]) (simp_all only: unat_drop_bit, simp_all)

lemma lead4_byte: "unat v < 0x200000 \<Longrightarrow> unat (ucast (0xF0 OR drop_bit 18 v :: char32) :: byte) = 240 + unat v div 262144"
  by (simp only: unat_ucast_to_byte, subst unat_or_add [where k = 4]) (simp_all only: unat_drop_bit, simp_all)

lemmas continuation_nat = isContinuationByte_iff [unfolded isContinuationByte_def]

lemmas decode8_nat = decodeUtf8Scalar_def Let_def unat_le_iff_nat unat_less_iff_nat continuation_nat

section \<open>The encoding of a scalar\<close>

text \<open>What the unchecked encoder leaves in a destination of exactly the encoded length.\<close>

definition utf8_encoding :: "char32 \<Rightarrow> byte list" where
  "utf8_encoding c = encodeUtf8Unchecked c (replicate (utf8EncodedLength c) 0)"

lemma encodeUtf8Unchecked_eq:
  assumes "utf8EncodedLength c \<le> length dest"
  shows "encodeUtf8Unchecked c dest = utf8_encoding c @ drop (utf8EncodedLength c) dest"
proof -
  consider "utf8EncodedLength c = 1" "c \<le> 0x7F" | "utf8EncodedLength c = 2" "\<not> c \<le> 0x7F" "c \<le> 0x7FF"
    | "utf8EncodedLength c = 3" "\<not> c \<le> 0x7F" "\<not> c \<le> 0x7FF" "c \<le> 0xFFFF"
    | "utf8EncodedLength c = 4" "\<not> c \<le> 0x7F" "\<not> c \<le> 0x7FF" "\<not> c \<le> 0xFFFF"
    by (auto simp: utf8EncodedLength_def)
  then show ?thesis
    using assms
    by cases (auto simp: utf8_encoding_def encodeUtf8Unchecked_def dest!: list_ge_2 list_ge_3 list_ge_4 simp: Suc_le_length_iff)
qed

lemma utf8_encoding_cases:
  assumes "isScalarValue c"
  obtains (one) "unat c < 128" "map unat (utf8_encoding c) = [unat c]"
  | (two) "128 \<le> unat c" "unat c < 2048" "map unat (utf8_encoding c) = [192 + unat c div 64, 128 + unat c mod 64]"
  | (three) "2048 \<le> unat c" "unat c < 65536" "unat c < 0xD800 \<or> unat c > 0xDFFF" 
     "map unat (utf8_encoding c) = [224 + unat c div 4096, 128 + unat c div 64 mod 64, 128 + unat c mod 64]"
  | (four) "65536 \<le> unat c" "unat c < 0x110000" 
     "map unat (utf8_encoding c) = [240 + unat c div 262144, 128 + unat c div 4096 mod 64, 128 + unat c div 64 mod 64, 128 + unat c mod 64]"
proof -
  have c: "unat c < 0x110000" "unat c < 0xD800 \<or> unat c > 0xDFFF"
    using assms by (auto simp: isScalarValue_def kMaximumScalarValue_def word_nat)
  consider "unat c < 128" | "128 \<le> unat c" "unat c < 2048" | "2048 \<le> unat c" "unat c < 65536" | "65536 \<le> unat c"
    by linarith
  then show thesis
  proof cases
    case 1 then show ?thesis
      by (intro one) (simp_all add: utf8_encoding_def encodeUtf8Unchecked_def utf8EncodedLength_def word_nat unat_ucast_to_byte)
  next
    case 2 then show ?thesis
      by (intro two) (simp_all add: utf8_encoding_def encodeUtf8Unchecked_def utf8EncodedLength_def unat_le_iff_nat lead2_byte cont_byte)
  next
    case 3 then show ?thesis using c
      by (intro three) (simp_all add: utf8_encoding_def encodeUtf8Unchecked_def utf8EncodedLength_def unat_le_iff_nat lead3_byte cont_byte unat_drop_bit)
  next
    case 4 then show ?thesis using c
      by (intro four) (simp_all add: utf8_encoding_def encodeUtf8Unchecked_def utf8EncodedLength_def unat_le_iff_nat lead4_byte cont_byte
       unat_drop_bit)
  qed
qed

text \<open>Ranges of a scalar in terms of its groups of six bits.\<close>

lemma range3_low: "x < 64 \<Longrightarrow> y < 64 \<Longrightarrow> 2048 \<le> p * 4096 + x * 64 + y \<longleftrightarrow> (p = 0 \<longrightarrow> 32 \<le> (x::nat))"
  by (cases p) auto
lemma range3_surrogate: "x < 64 \<Longrightarrow> y < 64 \<Longrightarrow>
   p * 4096 + x * 64 + y < 0xD800 \<or> p * 4096 + x * 64 + y > 0xDFFF \<longleftrightarrow> (p = 13 \<longrightarrow> (x::nat) \<le> 31)"
  by (cases "p < 13"; cases "p = 13") auto
lemma range3_high: "x < 64 \<Longrightarrow> y < 64 \<Longrightarrow> p * 4096 + x * 64 + y < 65536 \<longleftrightarrow> p < (16::nat)"
  by auto
lemma range4_low: "x < 64 \<Longrightarrow> y < 64 \<Longrightarrow> z < 64 \<Longrightarrow> 65536 \<le> p * 262144 + x * 4096 + y * 64 + z \<longleftrightarrow> (p = 0 \<longrightarrow> 16 \<le> (x::nat))"
  by (cases p) auto
lemma range4_high: "x < 64 \<Longrightarrow> y < 64 \<Longrightarrow> z < 64 \<Longrightarrow> p * 262144 + x * 4096 + y * 64 + z < 0x110000 \<longleftrightarrow> p < 4 \<or> p = 4 \<and> (x::nat) \<le> 15"
  by (cases "p < 4"; cases "p = 4") auto
lemma recompose2: "(n :: nat) div 64 * 64 + n mod 64 = n"
  by simp

lemma recompose3: "(n :: nat) div 4096 * 4096 + n div 64 mod 64 * 64 + n mod 64 = n"
proof -
  have "n div 4096 * 4096 + n div 64 mod 64 * 64 = n div 64 * 64"
    using div_mult_mod_eq [of "n div 64" 64] by (simp add: div_mult2_eq [symmetric])
  then show ?thesis by simp
qed

lemma recompose4: "(n :: nat) div 262144 * 262144 + n div 4096 mod 64 * 4096 + n div 64 mod 64 * 64 + n mod 64 = n"
proof -
  have "n div 262144 * 262144 + n div 4096 mod 64 * 4096 = n div 4096 * 4096"
    using div_mult_mod_eq [of "n div 4096" 64] by (simp add: div_mult2_eq [symmetric])
  then show ?thesis using recompose3 [of n] by simp
qed

lemma groups3:
  assumes "2048 \<le> (n :: nat)" "n < 65536" "n < 0xD800 \<or> n > 0xDFFF"
  shows "n div 4096 < 16" "n div 4096 = 0 \<longrightarrow> 32 \<le> n div 64 mod 64"
    "n div 4096 = 13 \<longrightarrow> n div 64 mod 64 \<le> 31"
  using assms
    range3_low [of "n div 64 mod 64" "n mod 64" "n div 4096", unfolded recompose3]
    range3_surrogate [of "n div 64 mod 64" "n mod 64" "n div 4096", unfolded recompose3]
    range3_high [of "n div 64 mod 64" "n mod 64" "n div 4096", unfolded recompose3]
  by simp_all

lemma groups4:
  assumes "65536 \<le> (n :: nat)" "n < 0x110000"
  shows "n div 262144 < 5" "n div 262144 = 0 \<longrightarrow> 16 \<le> n div 4096 mod 64"
    "n div 262144 = 4 \<longrightarrow> n div 4096 mod 64 \<le> 15"
  using assms
    range4_low [of "n div 4096 mod 64" "n div 64 mod 64" "n mod 64" "n div 262144", unfolded recompose4]
    range4_high [of "n div 4096 mod 64" "n div 64 mod 64" "n mod 64" "n div 262144", unfolded recompose4]
  by auto

lemma group_le: "(n :: nat) mod 64 \<le> 63"
  using mod_less_divisor [of 64 n] by simp

lemma decode8_encoding:
  assumes "isScalarValue c"
  shows "decodeUtf8Scalar (utf8_encoding c @ rest) = decoded8 c (utf8EncodedLength c)"
  using assms
proof (cases rule: utf8_encoding_cases)
  case one
  then obtain b where b: "utf8_encoding c = [b]" "unat b = unat c" by (auto simp: map_unat_eq_Cons)
  with one show ?thesis
    by (simp add: decodeUtf8Scalar_def utf8EncodedLength_def word_nat unat_eq_iff_nat [of "ucast b"] unat_ucast_byte)
next
  case two
  then obtain b d where b: "utf8_encoding c = [b, d]" "unat b = 192 + unat c div 64" "unat d = 128 + unat c mod 64"
    by (auto simp: map_unat_eq_Cons)
  have "push_bit 6 (ucast b AND 0x1F) OR (ucast d AND 0x3F) = c"
    unfolding unat_eq_iff_nat using two b by (subst scalar2) auto
  with two b show ?thesis
    by (auto simp add: decodeUtf8Scalar_def utf8EncodedLength_def unat_le_iff_nat unat_less_iff_nat continuation_nat)
next
  case three
  then obtain b d e where b: "utf8_encoding c = [b, d, e]" "unat b = 224 + unat c div 4096" "unat d = 128 + unat c div 64 mod 64"
      "unat e = 128 + unat c mod 64"
    by (auto simp: map_unat_eq_Cons)
  have "push_bit 12 (ucast b AND 0x0F) OR push_bit 6 (ucast d AND 0x3F) OR (ucast e AND 0x3F) = c"
    unfolding unat_eq_iff_nat using three b by (subst scalar3) (auto simp: recompose3)
  moreover have "224 \<le> unat b" "unat b < 240" "128 \<le> unat d" "unat d \<le> 191" "128 \<le> unat e" "unat e \<le> 191"
      "unat b = 224 \<Longrightarrow> 160 \<le> unat d" "unat b = 237 \<Longrightarrow> unat d \<le> 159"
    using groups3 [OF three(1-3)] by (simp_all add: b group_le)
  ultimately show ?thesis using three(1,2) b(1)
    by (simp add: decode8_nat unat_eq_iff_nat [of b "0xE0"] unat_eq_iff_nat [of b "0xED"]
        utf8EncodedLength_def del: push_bit_and)
next
  case four
  then obtain b d e f where b: "utf8_encoding c = [b, d, e, f]" "unat b = 240 + unat c div 262144" "unat d = 128 + unat c div 4096 mod 64"
      "unat e = 128 + unat c div 64 mod 64" "unat f = 128 + unat c mod 64"
    by (auto simp: map_unat_eq_Cons)
  have "push_bit 18 (ucast b AND 0x07) OR push_bit 12 (ucast d AND 0x3F) OR push_bit 6 (ucast e AND 0x3F) OR (ucast f AND 0x3F) = c"
    unfolding unat_eq_iff_nat using four b by (subst scalar4) (auto simp: recompose4)
  moreover have "240 \<le> unat b" "unat b < 245" "128 \<le> unat d" "unat d \<le> 191" "128 \<le> unat e" "unat e \<le> 191"
      "128 \<le> unat f" "unat f \<le> 191" "unat b = 240 \<Longrightarrow> 144 \<le> unat d" "unat b = 244 \<Longrightarrow> unat d \<le> 143"
    using groups4 [OF four(1,2)] by (simp_all add: b group_le)
  ultimately show ?thesis using four(1,2) b(1)
    by (simp add: decode8_nat unat_eq_iff_nat [of b "0xF0"] unat_eq_iff_nat [of b "0xF4"]
        utf8EncodedLength_def del: push_bit_and)
qed

text \<open>Every decoded result comes from one of the four shapes of a well-formed sequence.\<close>

lemma decode8_Decoded_cases:
  assumes "outcome8 (decodeUtf8Scalar bytes) = Decoded"
  obtains (one) b r where "bytes = b # r" "unat b < 128" "decodeUtf8Scalar bytes = decoded8 (ucast b) 1" "unat (ucast b :: char32) = unat b"
  | (two) b d r s where "bytes = b # d # r" "194 \<le> unat b" "unat b < 224" "128 \<le> unat d" "unat d < 192"
      "decodeUtf8Scalar bytes = decoded8 s 2" "unat s = (unat b - 192) * 64 + (unat d - 128)"
  | (three) b d e r s where "bytes = b # d # e # r" "224 \<le> unat b" "unat b < 240" "128 \<le> unat d" "unat d < 192" "128 \<le> unat e" "unat e < 192"
      "unat b = 224 \<longrightarrow> 160 \<le> unat d" "unat b = 237 \<longrightarrow> unat d \<le> 159"
      "decodeUtf8Scalar bytes = decoded8 s 3" "unat s = (unat b - 224) * 4096 + (unat d - 128) * 64 + (unat e - 128)"
  | (four) b d e f r s where "bytes = b # d # e # f # r" "240 \<le> unat b" "unat b < 245" "128 \<le> unat d" "unat d < 192"
      "128 \<le> unat e" "unat e < 192" "128 \<le> unat f" "unat f < 192"
      "unat b = 240 \<longrightarrow> 144 \<le> unat d" "unat b = 244 \<longrightarrow> unat d \<le> 143"
      "decodeUtf8Scalar bytes = decoded8 s 4" "unat s = (unat b - 240) * 262144 + (unat d - 128) * 4096 + (unat e - 128) * 64 + (unat f - 128)"
proof -
  from assms have ne: "bytes \<noteq> []" by (auto simp: decodeUtf8Scalar_def)
  then obtain b r where br: "bytes = b # r" by (cases bytes) auto
  consider "unat b < 128" | "128 \<le> unat b" "unat b < 194" | "194 \<le> unat b" "unat b < 224" | "224 \<le> unat b" "unat b < 240"
    | "240 \<le> unat b" "unat b < 245" | "245 \<le> unat b" by linarith
  then show thesis
  proof cases
    case 1 with br show ?thesis by (intro one [of b r]) (simp_all add: decodeUtf8Scalar_def unat_le_iff_nat unat_ucast_byte)
  next
    case 2 with br assms show ?thesis by (simp add: decodeUtf8Scalar_def unat_le_iff_nat unat_less_iff_nat)
  next
    case 3
    with br assms obtain d r' where r: "r = d # r'" and d: "128 \<le> unat d" "unat d < 192"
      by (cases r) (auto simp: decodeUtf8Scalar_def unat_le_iff_nat unat_less_iff_nat continuation_nat split: if_splits)
    have "decodeUtf8Scalar bytes = decoded8 (push_bit 6 (ucast b AND 0x1F) OR (ucast d AND 0x3F)) 2"
      using br r 3 d
      by (auto simp add: decodeUtf8Scalar_def unat_le_iff_nat unat_less_iff_nat unat_eq_iff_nat [of b] continuation_nat simp del: push_bit_and)
    then show ?thesis
      by (rule two [OF br [unfolded r] 3 d]) (rule scalar2, use 3 d in auto)
  next
    case 4
    with br assms obtain d e r' where r: "r = d # e # r'" and d: "128 \<le> unat d" "unat d < 192" "128 \<le> unat e" "unat e < 192"
       "unat b = 224 \<longrightarrow> 160 \<le> unat d" "unat b = 237 \<longrightarrow> unat d \<le> 159"
      by (cases r; cases "tl r") (auto simp: decodeUtf8Scalar_def Let_def unat_le_iff_nat unat_less_iff_nat unat_eq_iff_nat [of b] continuation_nat split: if_splits)
    have "decodeUtf8Scalar bytes = decoded8 (push_bit 12 (ucast b AND 0x0F) OR push_bit 6 (ucast d AND 0x3F) OR (ucast e AND 0x3F)) 3"
      using br r 4 d
      by (auto simp add: decodeUtf8Scalar_def unat_le_iff_nat unat_less_iff_nat unat_eq_iff_nat [of b] continuation_nat simp del: push_bit_and)
    then show ?thesis
      by (rule three [OF br [unfolded r] 4 d]) (rule scalar3, use 4 d in auto)
  next
    case 5
    with br assms obtain d e f r' where r: "r = d # e # f # r'" and d: "128 \<le> unat d" "unat d < 192" "128 \<le> unat e" "unat e < 192" "128 \<le> unat f" "unat f < 192"
       "unat b = 240 \<longrightarrow> 144 \<le> unat d" "unat b = 244 \<longrightarrow> unat d \<le> 143"
      by (cases r; cases "tl r"; cases "tl (tl r)") (auto simp: decodeUtf8Scalar_def Let_def unat_le_iff_nat unat_less_iff_nat unat_eq_iff_nat [of b] continuation_nat split: if_splits)
    have "decodeUtf8Scalar bytes = decoded8 (push_bit 18 (ucast b AND 0x07) OR push_bit 12 (ucast d AND 0x3F) OR push_bit 6 (ucast e AND 0x3F) OR (ucast f AND 0x3F)) 4"
      using br r 5 d
      by (auto simp add: decodeUtf8Scalar_def unat_le_iff_nat unat_less_iff_nat unat_eq_iff_nat [of b] continuation_nat simp del: push_bit_and)
    then show ?thesis
      by (rule four [OF br [unfolded r] 5 d]) (rule scalar4, use 5 d in auto)
  next
    case 6 with br assms show ?thesis by (simp add: decodeUtf8Scalar_def unat_le_iff_nat unat_less_iff_nat)
  qed
qed

lemma digits2: "x < 64 \<Longrightarrow> (p * 64 + x) div 64 = p \<and> (p * 64 + x) mod 64 = (x::nat)"
  by simp

lemma digits3:
  "x < 64 \<Longrightarrow> y < 64 \<Longrightarrow> (p * 4096 + x * 64 + y) div 4096 = p \<and>
    (p * 4096 + x * 64 + y) div 64 mod 64 = x \<and> (p * 4096 + x * 64 + y) mod 64 = (y::nat)"
  using digits2 [of x p] digits2 [of y "p * 64 + x"]
  by (simp add: div_mult2_eq [of _ 64 64, simplified] algebra_simps)

lemma digits4:
  "x < 64 \<Longrightarrow> y < 64 \<Longrightarrow> z < 64 \<Longrightarrow> (p * 262144 + x * 4096 + y * 64 + z) div 262144 = p \<and>
    (p * 262144 + x * 4096 + y * 64 + z) div 4096 mod 64 = x \<and>
    (p * 262144 + x * 4096 + y * 64 + z) div 64 mod 64 = y \<and>
    (p * 262144 + x * 4096 + y * 64 + z) mod 64 = (z::nat)"
  using digits3 [of x y p] digits2 [of z "p * 4096 + x * 64 + y"]
  by (simp add: div_mult2_eq [of _ 64 64, simplified] div_mult2_eq [of _ 64 4096, simplified] algebra_simps)

lemma decode8_sound:
  assumes "outcome8 (decodeUtf8Scalar bytes) = Decoded"
  shows "isScalarValue (scalar8 (decodeUtf8Scalar bytes))"
    and "bytesConsumed (decodeUtf8Scalar bytes) = utf8EncodedLength (scalar8 (decodeUtf8Scalar bytes))"
    and "bytesConsumed (decodeUtf8Scalar bytes) \<le> length bytes"
    and "take (bytesConsumed (decodeUtf8Scalar bytes)) bytes = utf8_encoding (scalar8 (decodeUtf8Scalar bytes))"
proof -
  let ?s = "scalar8 (decodeUtf8Scalar bytes)" and ?n = "bytesConsumed (decodeUtf8Scalar bytes)"
  have "isScalarValue ?s \<and> ?n = utf8EncodedLength ?s \<and> ?n \<le> length bytes \<and>
    map unat (take ?n bytes) = map unat (utf8_encoding ?s)"
    using assms
  proof (cases rule: decode8_Decoded_cases)
    case one
    then have s: "isScalarValue ?s" by (auto simp: isScalarValue_def kMaximumScalarValue_def unat_le_iff_nat unat_less_iff_nat)
    show ?thesis using one s by (cases rule: utf8_encoding_cases [OF s]) (auto simp: utf8EncodedLength_def unat_le_iff_nat)
  next
    case (two b d r s)
    then have "192 \<le> unat b" by simp
    with two obtain p x where px: "unat b = 192 + p" "unat d = 128 + x" by (metis le_Suc_ex)
    with two have s: "isScalarValue ?s" by (auto simp: isScalarValue_def kMaximumScalarValue_def unat_le_iff_nat unat_less_iff_nat)
    show ?thesis using two px s digits2 [of x p]
      by (cases rule: utf8_encoding_cases [OF s]) (auto simp: utf8EncodedLength_def unat_le_iff_nat)
  next
    case (three b d e r s)
    then obtain p x y where px: "unat b = 224 + p" "unat d = 128 + x" "unat e = 128 + y" by (metis le_Suc_ex)
    have x: "x < 64" "y < 64" using three px by simp_all
    have "p * 4096 + x * 64 + y < 0xD800 \<or> p * 4096 + x * 64 + y > 0xDFFF" "2048 \<le> p * 4096 + x * 64 + y"
        "p * 4096 + x * 64 + y < 65536"
      using three(2-9) px by (simp_all add: range3_surrogate [OF x] range3_low [OF x] range3_high [OF x])
    with three px have s: "isScalarValue ?s"
      by (auto simp: isScalarValue_def kMaximumScalarValue_def unat_le_iff_nat unat_less_iff_nat)
    show ?thesis using three px s digits3 [of x y p]
      by (cases rule: utf8_encoding_cases [OF s]) (auto simp: utf8EncodedLength_def unat_le_iff_nat)
  next
    case (four b d e f r s)
    then obtain p x y z where px: "unat b = 240 + p" "unat d = 128 + x" "unat e = 128 + y" "unat f = 128 + z" by (metis le_Suc_ex)
    have x: "x < 64" "y < 64" "z < 64" using four px by simp_all
    have "65536 \<le> p * 262144 + x * 4096 + y * 64 + z" "p * 262144 + x * 4096 + y * 64 + z < 0x110000"
      using four(2-11) px by (auto simp add: range4_low [OF x] range4_high [OF x])
    with four px have s: "isScalarValue ?s"
      by (auto simp: isScalarValue_def kMaximumScalarValue_def unat_le_iff_nat unat_less_iff_nat)
    show ?thesis using four px s digits4 [of x y z p]
      by (cases rule: utf8_encoding_cases [OF s]) (auto simp: utf8EncodedLength_def unat_le_iff_nat)
  qed
  then show "isScalarValue ?s" "?n = utf8EncodedLength ?s" "?n \<le> length bytes" "take ?n bytes = utf8_encoding ?s"
    by (auto dest: unat_list_eq)
qed

definition utf8_completion :: "byte list \<Rightarrow> byte list" where
  "utf8_completion bytes =
    (if bytes = [] then [0]
     else let b = bytes ! 0;
              second = (if b = 0xE0 then 0xA0 else if b = 0xF0 then 0x90 else 0x80);
              whole = (if b \<le> 0xDF then [second] else if b \<le> 0xEF then [second, 0x80] else [second, 0x80, 0x80])
       in drop (length bytes - 1) whole)"

lemma decode8_Incomplete_completion:
  assumes "outcome8 (decodeUtf8Scalar bytes) = Incomplete"
  shows "outcome8 (decodeUtf8Scalar (bytes @ utf8_completion bytes)) = Decoded"
    and "bytesConsumed (decodeUtf8Scalar (bytes @ utf8_completion bytes)) = length (bytes @ utf8_completion bytes)"
    and "utf8_completion bytes \<noteq> []"
proof -
  consider "bytes = []" | b where "bytes = [b]" | b d where "bytes = [b, d]" | b d e r where "bytes = b # d # e # r"
    by (metis list.exhaust)
  then have "outcome8 (decodeUtf8Scalar (bytes @ utf8_completion bytes)) = Decoded \<and> 
      bytesConsumed (decodeUtf8Scalar (bytes @ utf8_completion bytes)) = length (bytes @ utf8_completion bytes) \<and> utf8_completion bytes \<noteq> []"
  proof cases
    case 1 then show ?thesis by (simp add: utf8_completion_def decode8_nat)
  next
    case (2 b) with assms show ?thesis
      by (auto simp: utf8_completion_def decode8_nat unat_eq_iff_nat [of b] split: if_splits)
  next
    case (3 b d) with assms show ?thesis
      by (auto simp: utf8_completion_def decode8_nat unat_eq_iff_nat [of b] split: if_splits)
  next
    case (4 b d e r) with assms show ?thesis
      by (cases r) (auto simp: utf8_completion_def decode8_nat unat_eq_iff_nat [of b] split: if_splits)
  qed
  then show "outcome8 (decodeUtf8Scalar (bytes @ utf8_completion bytes)) = Decoded" 
     "bytesConsumed (decodeUtf8Scalar (bytes @ utf8_completion bytes)) = length (bytes @ utf8_completion bytes)"
     "utf8_completion bytes \<noteq> []" by auto
qed
lemma length_utf8_encoding [simp]: "isScalarValue c \<Longrightarrow> length (utf8_encoding c) = utf8EncodedLength c"
  by (simp add: utf8_encoding_def encodeUtf8Unchecked_def)

lemma decode8_strict_prefix:
  assumes c: "isScalarValue c" and pre: "strict_prefix bytes (utf8_encoding c)"
  shows "outcome8 (decodeUtf8Scalar bytes) = Incomplete"
proof -
  have dec: "decodeUtf8Scalar (utf8_encoding c) = decoded8 c (length (utf8_encoding c))"
    using decode8_encoding [OF c, of "[]"] c by simp
  then have len: "length (utf8_encoding c) = bytesConsumed (decodeUtf8Scalar (utf8_encoding c))" by simp
  from dec have "outcome8 (decodeUtf8Scalar (utf8_encoding c)) = Decoded" by simp
  then show ?thesis
  proof (cases rule: decode8_Decoded_cases)
    case (one b r)
    from len one(3) have "length (utf8_encoding c) = 1" by simp
    with one(1) have "utf8_encoding c = [b]" by simp
    with pre have "bytes = []" by (simp add: strict_prefix_Cons_iff)
    then show ?thesis by (simp add: decodeUtf8Scalar_def)
  next
    case (two b d r s)
    from len two(6) have "length (utf8_encoding c) = 2" by simp
    with two(1) have "utf8_encoding c = [b, d]" by simp
    with pre have pre: "bytes = [] \<or> bytes = [b]" by (auto simp: strict_prefix_Cons_iff)
    have "outcome8 (decodeUtf8Scalar [b]) = Incomplete" using two(2,3) by (simp add: decode8_nat)
    with pre show ?thesis by (auto simp: decodeUtf8Scalar_def [of "[]"])
  next
    case (three b d e r s)
    from len three(10) have "length (utf8_encoding c) = 3" by simp
    with three(1) have "utf8_encoding c = [b, d, e]" by simp
    with pre have pre: "bytes = [] \<or> bytes = [b] \<or> bytes = [b, d]" by (auto simp: strict_prefix_Cons_iff)
    have "outcome8 (decodeUtf8Scalar [b]) = Incomplete" "outcome8 (decodeUtf8Scalar [b, d]) = Incomplete"
      using three(2-9) by (simp_all add: decode8_nat unat_eq_iff_nat [of b "0xE0"] unat_eq_iff_nat [of b "0xED"])
    with pre show ?thesis by (auto simp: decodeUtf8Scalar_def [of "[]"])
  next
    case (four b d e f r s)
    from len four(12) have "length (utf8_encoding c) = 4" by simp
    with four(1) have "utf8_encoding c = [b, d, e, f]" by simp
    with pre have pre: "bytes = [] \<or> bytes = [b] \<or> bytes = [b, d] \<or> bytes = [b, d, e]" by (auto simp: strict_prefix_Cons_iff)
    have "outcome8 (decodeUtf8Scalar [b]) = Incomplete" "outcome8 (decodeUtf8Scalar [b, d]) = Incomplete" "outcome8 (decodeUtf8Scalar [b, d, e]) = Incomplete"
      using four(2-11) by (simp_all add: decode8_nat unat_eq_iff_nat [of b "0xF0"] unat_eq_iff_nat [of b "0xF4"])
    with pre show ?thesis by (auto simp: decodeUtf8Scalar_def [of "[]"])
  qed
qed

lemma decode8_Incomplete_iff:
  "outcome8 (decodeUtf8Scalar bytes) = Incomplete \<longleftrightarrow>
    (\<exists>c. isScalarValue c \<and> strict_prefix bytes (utf8_encoding c))"
proof
  assume inc: "outcome8 (decodeUtf8Scalar bytes) = Incomplete"
  let ?whole = "bytes @ utf8_completion bytes"
  note comp = decode8_Incomplete_completion [OF inc]
  from decode8_sound(1,4) [OF comp(1)] comp(2)
  have "isScalarValue (scalar8 (decodeUtf8Scalar ?whole)) \<and> ?whole = utf8_encoding (scalar8 (decodeUtf8Scalar ?whole))"
    by simp
  then show "\<exists>c. isScalarValue c \<and> strict_prefix bytes (utf8_encoding c)"
    using comp(3) by (metis strict_prefixI' neq_Nil_conv)
qed (auto intro: decode8_strict_prefix)

end
