(* ===== verification/Unicode_Codec.thy ===== *)
theory Unicode_Codec
  imports Unicode_Encoding
begin

text \<open>
  The laws of the UTF-16 codec, the contract \<open>scalar_codec\<close> that both codecs satisfy, the facts that
  follow from the contract alone (a range decomposes uniquely into encoded scalars and a tail that
  does not decode), and the interpretations on the two codecs of the sources.
\<close>

unbundle bit_operations_syntax

section \<open>UTF-16 laws\<close>

lemma unat_char16_less: "unat (u :: char16) < 65536"
  using unsigned_less [of u] by simp

lemma unat_ucast_char16: "unat (ucast (u :: char16) :: char32) = unat u"
proof -
  have "unat u < 2 ^ 32" by (rule less_trans [OF unat_char16_less]) simp
  then show ?thesis by (simp add: unsigned_ucast_eq take_bit_nat_eq_self)
qed

lemma unat_ucast_to_char16: "unat (ucast (w :: char32) :: char16) = unat w mod 65536"
  by (simp add: unsigned_ucast_eq take_bit_eq_mod)

lemmas surrogate_nat = isSurrogate_def isHighSurrogate_def isLowSurrogate_def unat_le_iff_nat unat_less_iff_nat

definition utf16_encoding :: "char32 \<Rightarrow> char16 list" where
  "utf16_encoding c = encodeUtf16Unchecked c (replicate (utf16EncodedLength c) 0)"

lemma encodeUtf16Unchecked_eq:
  assumes "utf16EncodedLength c \<le> length dest"
  shows "encodeUtf16Unchecked c dest = utf16_encoding c @ drop (utf16EncodedLength c) dest"
  using assms
  by (auto simp: utf16_encoding_def encodeUtf16Unchecked_def utf16EncodedLength_def Let_def Suc_le_length_iff
      dest!: list_ge_2 split: if_splits)

lemma length_utf16_encoding [simp]: "length (utf16_encoding c) = utf16EncodedLength c"
  by (simp add: utf16_encoding_def encodeUtf16Unchecked_def Let_def)

lemma unat_word_sub: "b \<le> a \<Longrightarrow> unat (a - b :: 'a::len word) = unat a - unat b"
  by (simp add: unat_sub)

lemma surrogate_bytes:
  assumes "65536 \<le> unat c" "unat c < 0x110000"
  shows "unat (ucast (0xD800 + drop_bit 10 (c - 0x10000) :: char32) :: char16) = 0xD800 + (unat c - 65536) div 1024"
    and "unat (ucast (0xDC00 + ((c - 0x10000) AND 0x3FF) :: char32) :: char16) = 0xDC00 + (unat c - 65536) mod 1024"
proof -
  have s: "unat (c - 0x10000) = unat c - 65536" using assms by (subst unat_word_sub) (simp_all add: unat_le_iff_nat)
  have q: "(unat c - 65536) div 1024 < 1024" using assms by (intro less_mult_imp_div_less) simp
  have "unat (0xD800 + drop_bit 10 (c - 0x10000)) = 0xD800 + (unat c - 65536) div 1024"
    using q by (subst unat_add_lem [THEN iffD1]) (simp_all only: unat_drop_bit s, simp_all)
  then show "unat (ucast (0xD800 + drop_bit 10 (c - 0x10000) :: char32) :: char16) = 0xD800 + (unat c - 65536) div 1024"
    using q by (simp only: unat_ucast_to_char16) simp
  have m: "(unat c - 65536) mod 1024 < 1024" by simp
  have "unat (0xDC00 + ((c - 0x10000) AND 0x3FF)) = 0xDC00 + (unat c - 65536) mod 1024"
    using m by (subst unat_add_lem [THEN iffD1]) (simp_all only: unat_and_3FF s, simp_all)
  then show "unat (ucast (0xDC00 + ((c - 0x10000) AND 0x3FF) :: char32) :: char16) = 0xDC00 + (unat c - 65536) mod 1024"
    using m by (simp only: unat_ucast_to_char16) simp
qed

lemma utf16_encoding_cases:
  assumes "isScalarValue c"
  obtains (one) "unat c < 65536" "unat c < 0xD800 \<or> unat c > 0xDFFF" "map unat (utf16_encoding c) = [unat c]"
  | (two) "65536 \<le> unat c" "unat c < 0x110000"
      "map unat (utf16_encoding c) = [0xD800 + (unat c - 65536) div 1024, 0xDC00 + (unat c - 65536) mod 1024]"
proof (cases "unat c < 65536")
  case True
  with assms show ?thesis
    by (intro one) (auto simp: isScalarValue_def kMaximumScalarValue_def unat_le_iff_nat unat_less_iff_nat
      utf16_encoding_def encodeUtf16Unchecked_def utf16EncodedLength_def unat_ucast_to_char16)
next
  case False
  with assms have c: "65536 \<le> unat c" "unat c < 0x110000"
    by (auto simp: isScalarValue_def kMaximumScalarValue_def unat_le_iff_nat)
  then show ?thesis
    by (intro two) (simp_all add: utf16_encoding_def encodeUtf16Unchecked_def utf16EncodedLength_def
      unat_le_iff_nat Let_def surrogate_bytes [OF c])
qed

lemma scalar_pair:
  assumes "0xD800 \<le> unat (h :: char16)" "unat h \<le> 0xDBFF" "0xDC00 \<le> unat (l :: char16)" "unat l \<le> 0xDFFF"
  shows "unat (0x10000 + push_bit 10 (ucast h - 0xD800) + (ucast l - 0xDC00) :: char32)
    = 65536 + (unat h - 0xD800) * 1024 + (unat l - 0xDC00)"
proof -
  have h: "unat (ucast h - 0xD800 :: char32) = unat h - 0xD800"
    using assms by (subst unat_word_sub) (simp_all add: unat_le_iff_nat unat_ucast_char16)
  have l: "unat (ucast l - 0xDC00 :: char32) = unat l - 0xDC00"
    using assms by (subst unat_word_sub) (simp_all add: unat_le_iff_nat unat_ucast_char16)
  have ph: "unat (push_bit 10 (ucast h - 0xD800) :: char32) = (unat h - 0xD800) * 1024"
    using assms by (subst unat_push_bit_le) (simp_all only: h, simp_all)
  have "unat (0x10000 + push_bit 10 (ucast h - 0xD800) :: char32) = 65536 + (unat h - 0xD800) * 1024"
    using assms by (subst unat_add_lem [THEN iffD1]) (simp_all only: ph, simp_all)
  then show ?thesis
    using assms by (subst unat_add_lem [THEN iffD1]) (simp_all only: l, simp_all)
qed

lemma decode16_encoding:
  assumes "isScalarValue c"
  shows "decodeUtf16Scalar (utf16_encoding c @ rest) = decoded16 c (utf16EncodedLength c)"
  using assms
proof (cases rule: utf16_encoding_cases)
  case one
  then obtain u where u: "utf16_encoding c = [u]" "unat u = unat c" by (auto simp: map_unat_eq_Cons)
  then have "ucast u = c" by (simp add: unat_eq_iff_nat unat_ucast_char16)
  with one u show ?thesis
    by (auto simp: decodeUtf16Scalar_def utf16EncodedLength_def surrogate_nat)
next
  case two
  then obtain h l where u: "utf16_encoding c = [h, l]" "unat h = 0xD800 + (unat c - 65536) div 1024"
    "unat l = 0xDC00 + (unat c - 65536) mod 1024" by (auto simp: map_unat_eq_Cons)
  have q: "(unat c - 65536) div 1024 < 1024" using two by (intro less_mult_imp_div_less) simp
  have r: "(unat c - 65536) mod 1024 < 1024" by simp
  have "0x10000 + push_bit 10 (ucast h - 0xD800) + (ucast l - 0xDC00) = c"
    unfolding unat_eq_iff_nat using u q r two by (subst scalar_pair) simp_all
  moreover have "0xD800 \<le> unat h" "unat h \<le> 0xDBFF" "0xDC00 \<le> unat l" "unat l \<le> 0xDFFF"
    unfolding u using q r by linarith+
  ultimately show ?thesis using u(1) two(1)
    by (simp add: decodeUtf16Scalar_def utf16EncodedLength_def surrogate_nat Let_def)
qed

lemma decode16_Decoded_cases:
  assumes "outcome16 (decodeUtf16Scalar us) = Decoded"
  obtains (one) u r where "us = u # r" "unat u < 0xD800 \<or> unat u > 0xDFFF" "decodeUtf16Scalar us = decoded16 (ucast u) 1"
      "unat (ucast u :: char32) = unat u"
  | (two) h l r s where "us = h # l # r" "0xD800 \<le> unat h" "unat h \<le> 0xDBFF" "0xDC00 \<le> unat l" "unat l \<le> 0xDFFF"
      "decodeUtf16Scalar us = decoded16 s 2" "unat s = 65536 + (unat h - 0xD800) * 1024 + (unat l - 0xDC00)"
proof -
  from assms obtain u r where ur: "us = u # r" by (cases us) (auto simp: decodeUtf16Scalar_def)
  show thesis
  proof (cases "isSurrogate u")
    case False
    with ur show ?thesis
      by (intro one [of u r]) (auto simp: decodeUtf16Scalar_def surrogate_nat unat_ucast_char16)
  next
    case True
    with ur assms obtain l r' where r: "r = l # r'" and u: "0xD800 \<le> unat u" "unat u \<le> 0xDBFF"
        "0xDC00 \<le> unat l" "unat l \<le> 0xDFFF"
      by (cases r) (auto simp: decodeUtf16Scalar_def surrogate_nat Let_def split: if_splits)
    have "decodeUtf16Scalar us = decoded16 (0x10000 + push_bit 10 (ucast u - 0xD800) + (ucast l - 0xDC00)) 2"
      using u by (simp add: ur r decodeUtf16Scalar_def surrogate_nat Let_def)
    then show ?thesis by (rule two [OF ur [unfolded r] u]) (rule scalar_pair [OF u])
  qed
qed

lemma decode16_sound:
  assumes "outcome16 (decodeUtf16Scalar us) = Decoded"
  shows "isScalarValue (scalar16 (decodeUtf16Scalar us))"
    and "codeUnitsConsumed (decodeUtf16Scalar us) = utf16EncodedLength (scalar16 (decodeUtf16Scalar us))"
    and "codeUnitsConsumed (decodeUtf16Scalar us) \<le> length us"
    and "take (codeUnitsConsumed (decodeUtf16Scalar us)) us = utf16_encoding (scalar16 (decodeUtf16Scalar us))"
proof -
  let ?s = "scalar16 (decodeUtf16Scalar us)" and ?n = "codeUnitsConsumed (decodeUtf16Scalar us)"
  have "isScalarValue ?s \<and> ?n = utf16EncodedLength ?s \<and> ?n \<le> length us \<and>
    map unat (take ?n us) = map unat (utf16_encoding ?s)"
    using assms
  proof (cases rule: decode16_Decoded_cases)
    case (one u r)
    have u: "unat u \<le> 65535" using unat_char16_less [of u] by simp
    with one have s: "isScalarValue ?s"
      by (auto simp: isScalarValue_def kMaximumScalarValue_def unat_le_iff_nat unat_less_iff_nat)
    show ?thesis using one s u
      by (cases rule: utf16_encoding_cases [OF s]) (auto simp: utf16EncodedLength_def unat_le_iff_nat)
  next
    case (two h l r s)
    then obtain p x where px: "unat h = 0xD800 + p" "unat l = 0xDC00 + x" by (metis le_Suc_ex)
    with two have sv: "unat s = 65536 + p * 1024 + x" "p < 1024" "x < 1024" by simp_all
    then have s: "isScalarValue ?s"
      using two by (simp add: isScalarValue_def kMaximumScalarValue_def unat_le_iff_nat unat_less_iff_nat)
    show ?thesis using two(1,6) px s sv
      by (cases rule: utf16_encoding_cases [OF s]) (auto simp: utf16EncodedLength_def unat_le_iff_nat)
  qed
  then show "isScalarValue ?s" "?n = utf16EncodedLength ?s" "?n \<le> length us" "take ?n us = utf16_encoding ?s"
    by (auto dest: unat_list_eq)
qed

lemma decode16_Incomplete_iff:
  "outcome16 (decodeUtf16Scalar us) = Incomplete \<longleftrightarrow> (\<exists>c. isScalarValue c \<and> strict_prefix us (utf16_encoding c))"
proof
  assume inc: "outcome16 (decodeUtf16Scalar us) = Incomplete"
  then consider "us = []" | h where "us = [h]" "isHighSurrogate h"
    by (cases us; cases "tl us") (auto simp: decodeUtf16Scalar_def Let_def isSurrogate_def split: if_splits)
  then show "\<exists>c. isScalarValue c \<and> strict_prefix us (utf16_encoding c)"
  proof cases
    case 1
    have "isScalarValue 0" "utf16_encoding 0 \<noteq> []"
      by (simp_all add: isScalarValue_def kMaximumScalarValue_def utf16_encoding_def encodeUtf16Unchecked_def
        utf16EncodedLength_def)
    with 1 show ?thesis by (metis strict_prefix_simps(2) neq_Nil_conv)
  next
    case (2 h)
    then have dec: "outcome16 (decodeUtf16Scalar [h, 0xDC00]) = Decoded" "codeUnitsConsumed (decodeUtf16Scalar [h, 0xDC00]) = 2"
      by (auto simp: decodeUtf16Scalar_def surrogate_nat Let_def)
    from decode16_sound(1,4) [OF dec(1)] dec(2) 2(1) show ?thesis
      by (metis strict_prefixI' append_Cons append_Nil take_small(2) One_nat_def take_Suc_Cons take0)
  qed
next
  assume "\<exists>c. isScalarValue c \<and> strict_prefix us (utf16_encoding c)"
  then obtain c where c: "isScalarValue c" "strict_prefix us (utf16_encoding c)" by blast
  from c(1) show "outcome16 (decodeUtf16Scalar us) = Incomplete"
  proof (cases rule: utf16_encoding_cases)
    case one
    with c(2) have "us = []" by (auto simp: map_unat_eq_Cons strict_prefix_Cons_iff)
    then show ?thesis by (simp add: decodeUtf16Scalar_def)
  next
    case two
    then obtain h l where u: "utf16_encoding c = [h, l]" "unat h = 0xD800 + (unat c - 65536) div 1024"
      by (auto simp: map_unat_eq_Cons)
    have "(unat c - 65536) div 1024 < 1024" using two by (intro less_mult_imp_div_less) simp
    with u(2) have "0xD800 \<le> unat h" "unat h \<le> 0xDBFF" by linarith+
    moreover have "us = [] \<or> us = [h]" using c(2) u(1) by (auto simp: strict_prefix_Cons_iff)
    ultimately show ?thesis by (auto simp: decodeUtf16Scalar_def surrogate_nat)
  qed
qed

section \<open>The contract of a scalar codec\<close>

text \<open>
  What the callers of both codecs rely on: \<open>outc\<close>, \<open>scal\<close> and \<open>used\<close> are the fields of the decode
  result for a range of code units, \<open>enc\<close> is the encoding of one scalar.
\<close>

locale scalar_codec =
  fixes outc :: "'u list \<Rightarrow> DecodeOutcome"
    and scal :: "'u list \<Rightarrow> char32"
    and used :: "'u list \<Rightarrow> nat"
    and enc :: "char32 \<Rightarrow> 'u list"
  assumes decode_enc:
    "isScalarValue c \<Longrightarrow> outc (enc c @ rest) = Decoded \<and> scal (enc c @ rest) = c \<and> used (enc c @ rest) = length (enc c)"
    and decode_sound:
    "outc us = Decoded \<Longrightarrow> isScalarValue (scal us) \<and> used us = length (enc (scal us)) \<and> take (used us) us = enc (scal us)"
    and incomplete_iff:
    "outc us = Incomplete \<longleftrightarrow> (\<exists>c. isScalarValue c \<and> strict_prefix us (enc c))"
begin

lemma outc_Nil: "outc [] = Incomplete"
proof -
  have ok: "isScalarValue 0" "isScalarValue 1" by (simp_all add: isScalarValue_def kMaximumScalarValue_def)
  have "enc 0 \<noteq> [] \<or> enc 1 \<noteq> []"
    using decode_enc [OF ok(1), of "[]"] decode_enc [OF ok(2), of "[]"] by auto
  with ok show ?thesis by (auto simp: incomplete_iff strict_prefix_def)
qed

lemma enc_nonempty: "isScalarValue c \<Longrightarrow> enc c \<noteq> []"
  using decode_enc [of c "[]"] outc_Nil by auto

lemma decode_split:
  assumes "outc us = Decoded"
  shows "us = enc (scal us) @ drop (used us) us" and "0 < used us" and "used us \<le> length us"
proof -
  from decode_sound [OF assms] have *: "isScalarValue (scal us)" "used us = length (enc (scal us))" "take (used us) us = enc (scal us)"
    by auto
  then show "us = enc (scal us) @ drop (used us) us" by (metis append_take_drop_id)
  from * enc_nonempty show "0 < used us" by simp
  from * show "used us \<le> length us" by (metis length_take min.absorb_iff2 min.commute)
qed

text \<open>
  A range is a sequence of encoded scalars followed by a tail that does not decode. Every property
  of a forward scan is an induction along that sequence.
\<close>

lemma text_induct [case_names stop step]:
  assumes stop: "\<And>us. outc us \<noteq> Decoded \<Longrightarrow> P us"
    and step: "\<And>c us. isScalarValue c \<Longrightarrow> P us \<Longrightarrow> P (enc c @ us)"
  shows "P us"
proof (induction us rule: length_induct)
  case (1 us)
  show ?case
  proof (cases "outc us = Decoded")
    case True
    then have "length (drop (used us) us) < length us"
      using decode_split(2,3) [OF True] by simp
    with 1 have "P (drop (used us) us)" by blast
    with step decode_sound [OF True] have "P (enc (scal us) @ drop (used us) us)" by blast
    then show ?thesis using decode_split(1) [OF True] by simp
  qed (rule stop)
qed

definition decomposes :: "'u list \<Rightarrow> char32 list \<Rightarrow> 'u list \<Rightarrow> bool" where
  "decomposes us ss rest \<longleftrightarrow>
     list_all isScalarValue ss \<and> us = concat (map enc ss) @ rest \<and> outc rest \<noteq> Decoded"

lemma decomposes_exists: "\<exists>ss rest. decomposes us ss rest"
proof (induction us rule: text_induct)
  case (stop us)
  then show ?case by (intro exI [of _ "[]"] exI [of _ us]) (simp add: decomposes_def)
next
  case (step c us)
  then obtain ss rest where "decomposes us ss rest" by blast
  with step show ?case by (intro exI [of _ "c # ss"] exI [of _ rest]) (simp add: decomposes_def)
qed

lemma decomposes_unique:
  "decomposes us ss rest \<Longrightarrow> decomposes us ss' rest' \<Longrightarrow> ss = ss' \<and> rest = rest'"
proof (induction ss arbitrary: us ss')
  case Nil
  show ?case
  proof (cases ss')
    case (Cons c cs)
    with Nil decode_enc show ?thesis by (auto simp: decomposes_def)
  qed (use Nil in \<open>simp add: decomposes_def\<close>)
next
  case (Cons c ss)
  then have c: "isScalarValue c" "outc us = Decoded" "scal us = c"
    using decode_enc [of c "concat (map enc ss) @ rest"] by (auto simp: decomposes_def)
  with Cons.prems(2) obtain d ds where ss': "ss' = d # ds" "isScalarValue d"
    by (cases ss') (auto simp: decomposes_def)
  with Cons.prems(2) decode_enc [of d "concat (map enc ds) @ rest'"] c(3) have "d = c"
    by (auto simp: decomposes_def)
  with Cons ss' show ?case
    using Cons.IH [of "concat (map enc ss) @ rest" ds] by (auto simp: decomposes_def)
qed

lemma encodings_decompose: "list_all isScalarValue ss \<Longrightarrow> decomposes (concat (map enc ss)) ss []"
  by (simp add: decomposes_def outc_Nil)

lemma encodings_inject:
  "list_all isScalarValue ss \<Longrightarrow> list_all isScalarValue ss' \<Longrightarrow>
    concat (map enc ss) = concat (map enc ss') \<Longrightarrow> ss = ss'"
  using decomposes_unique encodings_decompose by metis

text \<open>A range is malformed exactly when no scalar's encoding extends it or starts it.\<close>

lemma invalid_iff:
  "outc us = InvalidEncoding \<longleftrightarrow>
    (\<forall>c. isScalarValue c \<longrightarrow> \<not> prefix (enc c) us \<and> \<not> prefix us (enc c))"
proof -
  have "outc us = Decoded \<longleftrightarrow> (\<exists>c. isScalarValue c \<and> prefix (enc c) us)"
    using decode_sound [of us] decode_enc by (metis prefix_def take_is_prefix)
  then show ?thesis
    using incomplete_iff [of us] by (metis DecodeOutcome.exhaust DecodeOutcome.distinct prefix_order.le_less prefix_order.refl)
qed

end

lemma decode8_take:
  "outcome8 (decodeUtf8Scalar us) = Decoded \<Longrightarrow>
    take (utf8EncodedLength (scalar8 (decodeUtf8Scalar us))) us = utf8_encoding (scalar8 (decodeUtf8Scalar us))"
  using decode8_sound(2,4) by metis

lemma decode16_take:
  "outcome16 (decodeUtf16Scalar us) = Decoded \<Longrightarrow>
    take (utf16EncodedLength (scalar16 (decodeUtf16Scalar us))) us = utf16_encoding (scalar16 (decodeUtf16Scalar us))"
  using decode16_sound(2,4) by metis

interpretation utf8: scalar_codec
  "\<lambda>us. outcome8 (decodeUtf8Scalar us)" "\<lambda>us. scalar8 (decodeUtf8Scalar us)"
  "\<lambda>us. bytesConsumed (decodeUtf8Scalar us)" utf8_encoding
  by unfold_locales
    (simp_all add: decode8_encoding decode8_sound(1,2) decode8_take decode8_Incomplete_iff)

interpretation utf16: scalar_codec
  "\<lambda>us. outcome16 (decodeUtf16Scalar us)" "\<lambda>us. scalar16 (decodeUtf16Scalar us)"
  "\<lambda>us. codeUnitsConsumed (decodeUtf16Scalar us)" utf16_encoding
  by unfold_locales
    (simp_all add: decode16_encoding decode16_sound(1,2) decode16_take decode16_Incomplete_iff)

end
