(* ===== verification/Unicode_Text.thy ===== *)
theory Unicode_Text
  imports Unicode_Codec
begin

text \<open>
  Whole-range operations of \<^verbatim>\<open>foundation/unicode/core/utf8.cpp\<close> and \<^verbatim>\<open>utf16.cpp\<close>: scalar encoding with
  validation, range validation, and code-point boundary traversal.
\<close>

section \<open>Results\<close>

datatype ValidationOutcome = V_Valid | V_Incomplete | V_InvalidEncoding

datatype BoundaryOutcome = Found | AtBeginning | AtEnd | InvalidOffset | B_InvalidEncoding

record Utf8_EncodeResult =
  encoded_bytes :: "byte list"
  byteCount :: nat
  encodeOutcome8 :: EncodeOutcome

record Utf16_EncodeResult =
  encoded_codeUnits :: "char16 list"
  codeUnitCount :: nat
  encodeOutcome16 :: EncodeOutcome

record Utf8_ValidationResult =
  validPrefixBytes :: nat
  validationOutcome8 :: ValidationOutcome

record Utf16_ValidationResult =
  validPrefixCodeUnits :: nat
  validationOutcome16 :: ValidationOutcome

record BoundaryResult =
  byteOffset :: nat
  boundaryOutcome :: BoundaryOutcome

abbreviation boundary :: "nat \<Rightarrow> BoundaryOutcome \<Rightarrow> BoundaryResult" where
  "boundary offset result \<equiv> \<lparr>byteOffset = offset, boundaryOutcome = result\<rparr>"

section \<open>UTF-8\<close>

definition Utf8_decodeScalar :: "byte list \<Rightarrow> Utf8_DecodeResult" where
  "Utf8_decodeScalar bytes = decodeUtf8Scalar bytes"

definition Utf8_encodeScalar :: "char32 \<Rightarrow> Utf8_EncodeResult" where
  "Utf8_encodeScalar scalar =
    (if \<not> isScalarValue scalar
     then \<lparr>encoded_bytes = [0, 0, 0, 0], byteCount = 0, encodeOutcome8 = InvalidScalar\<rparr>
     else \<lparr>encoded_bytes = encodeUtf8Unchecked scalar [0, 0, 0, 0],
           byteCount = utf8EncodedLength scalar, encodeOutcome8 = Encoded\<rparr>)"

function Utf8_validate_from :: "byte list \<Rightarrow> nat \<Rightarrow> Utf8_ValidationResult" where
  "Utf8_validate_from text offset =
    (if offset < length text then
       let decoded = decodeUtf8Scalar (substr_from text offset) in
       if outcome8 decoded = Incomplete
       then \<lparr>validPrefixBytes = offset, validationOutcome8 = V_Incomplete\<rparr>
       else if outcome8 decoded = InvalidEncoding
       then \<lparr>validPrefixBytes = offset, validationOutcome8 = V_InvalidEncoding\<rparr>
       else Utf8_validate_from text (offset + bytesConsumed decoded)
     else \<lparr>validPrefixBytes = offset, validationOutcome8 = V_Valid\<rparr>)"
  by pat_completeness auto
termination
proof (relation "measure (\<lambda>(text, offset). length text - offset)", goal_cases)
  case (2 t i d)
  then have "outcome8 (decodeUtf8Scalar (drop i t)) = Decoded"
    by (cases "outcome8 d") simp_all
  then have "0 < bytesConsumed d" using 2 utf8.decode_split(2) by simp
  with 2 show ?case by simp
qed simp

declare Utf8_validate_from.simps [simp del]

definition Utf8_validate :: "byte list \<Rightarrow> Utf8_ValidationResult" where
  "Utf8_validate text = Utf8_validate_from text 0"

definition nextCodePointBoundary :: "byte list \<Rightarrow> nat \<Rightarrow> BoundaryResult" where
  "nextCodePointBoundary text offset =
    (if offset > length text then boundary offset InvalidOffset
     else if offset < length text \<and> isContinuationByte (text ! offset) then boundary offset InvalidOffset
     else if offset > 0 \<and>
       outcome8 (previous_decoded (decodePreviousUtf8Scalar text offset)) \<noteq> Decoded
     then boundary offset B_InvalidEncoding
     else if offset = length text then boundary offset AtEnd
     else let decoded = decodeUtf8Scalar (substr_from text offset) in
       if outcome8 decoded \<noteq> Decoded then boundary offset B_InvalidEncoding
       else boundary (offset + bytesConsumed decoded) Found)"

definition previousCodePointBoundary :: "byte list \<Rightarrow> nat \<Rightarrow> BoundaryResult" where
  "previousCodePointBoundary text offset =
    (if offset > length text then boundary offset InvalidOffset
     else if offset < length text \<and> isContinuationByte (text ! offset) then boundary offset InvalidOffset
     else if offset = 0 then boundary 0 AtBeginning
     else let previous = decodePreviousUtf8Scalar text offset in
       if outcome8 (previous_decoded previous) \<noteq> Decoded then boundary offset B_InvalidEncoding
       else boundary (startOffset previous) Found)"

section \<open>UTF-16\<close>

definition Utf16_decodeScalar :: "char16 list \<Rightarrow> Utf16_DecodeResult" where
  "Utf16_decodeScalar codeUnits = decodeUtf16Scalar codeUnits"

definition Utf16_encodeScalar :: "char32 \<Rightarrow> Utf16_EncodeResult" where
  "Utf16_encodeScalar scalar =
    (if \<not> isScalarValue scalar
     then \<lparr>encoded_codeUnits = [0, 0], codeUnitCount = 0, encodeOutcome16 = InvalidScalar\<rparr>
     else \<lparr>encoded_codeUnits = encodeUtf16Unchecked scalar [0, 0],
           codeUnitCount = utf16EncodedLength scalar, encodeOutcome16 = Encoded\<rparr>)"

function Utf16_validate_from :: "char16 list \<Rightarrow> nat \<Rightarrow> Utf16_ValidationResult" where
  "Utf16_validate_from text offset =
    (if offset < length text then
       let decoded = decodeUtf16Scalar (substr_from text offset) in
       if outcome16 decoded = Incomplete
       then \<lparr>validPrefixCodeUnits = offset, validationOutcome16 = V_Incomplete\<rparr>
       else if outcome16 decoded = InvalidEncoding
       then \<lparr>validPrefixCodeUnits = offset, validationOutcome16 = V_InvalidEncoding\<rparr>
       else Utf16_validate_from text (offset + codeUnitsConsumed decoded)
     else \<lparr>validPrefixCodeUnits = offset, validationOutcome16 = V_Valid\<rparr>)"
  by pat_completeness auto
termination
proof (relation "measure (\<lambda>(text, offset). length text - offset)", goal_cases)
  case (2 t i d)
  then have "outcome16 (decodeUtf16Scalar (drop i t)) = Decoded"
    by (cases "outcome16 d") simp_all
  then have "0 < codeUnitsConsumed d" using 2 utf16.decode_split(2) by simp
  with 2 show ?case by simp
qed simp

declare Utf16_validate_from.simps [simp del]

definition Utf16_validate :: "char16 list \<Rightarrow> Utf16_ValidationResult" where
  "Utf16_validate text = Utf16_validate_from text 0"

section \<open>Validation\<close>

abbreviation utf8_text :: "char32 list \<Rightarrow> byte list" where
  "utf8_text ss \<equiv> concat (map utf8_encoding ss)"

abbreviation utf16_text :: "char32 list \<Rightarrow> char16 list" where
  "utf16_text ss \<equiv> concat (map utf16_encoding ss)"

definition valid_utf8 :: "byte list \<Rightarrow> bool" where
  "valid_utf8 text \<longleftrightarrow> (\<exists>ss. list_all isScalarValue ss \<and> text = utf8_text ss)"

definition valid_utf16 :: "char16 list \<Rightarrow> bool" where
  "valid_utf16 text \<longleftrightarrow> (\<exists>ss. list_all isScalarValue ss \<and> text = utf16_text ss)"

fun tail_outcome :: "'u list \<Rightarrow> DecodeOutcome \<Rightarrow> ValidationOutcome" where
  "tail_outcome [] _ = V_Valid"
| "tail_outcome _ InvalidEncoding = V_InvalidEncoding"
| "tail_outcome _ _ = V_Incomplete"

text \<open>
  Both validators are the same scan over their codec. The scan's equation is the interface; the
  result is the length of the decoded sequence and the verdict on what follows it.
\<close>

locale range_validator = scalar_codec +
  fixes scan :: "'a list \<Rightarrow> nat \<Rightarrow> nat \<times> ValidationOutcome"
  assumes scan_eq: "scan t i =
    (if i < length t then
       (case outc (drop i t) of
          Incomplete \<Rightarrow> (i, V_Incomplete)
        | InvalidEncoding \<Rightarrow> (i, V_InvalidEncoding)
        | Decoded \<Rightarrow> scan t (i + used (drop i t)))
     else (i, V_Valid))"
begin

lemma scan_decomposes:
  assumes "decomposes us ss rest"
  shows "scan (pre @ us) (length pre) =
    (length pre + length (concat (map enc ss)), tail_outcome rest (outc rest))"
  using assms
proof (induction ss arbitrary: pre us)
  case Nil
  then show ?case
    by (subst scan_eq) (cases rest; cases "outc rest"; auto simp: decomposes_def)
next
  case (Cons c ss)
  let ?us = "concat (map enc ss) @ rest"
  from Cons.prems have c: "isScalarValue c" and us: "us = enc c @ ?us" and tail: "decomposes ?us ss rest"
    by (auto simp: decomposes_def)
  then have "us \<noteq> []" using enc_nonempty by simp
  then have "scan (pre @ us) (length pre) = scan (pre @ us) (length pre + length (enc c))"
    using decode_enc [OF c, of ?us] us by (subst scan_eq) simp
  also have "\<dots> = scan ((pre @ enc c) @ ?us) (length (pre @ enc c))" by (simp add: us)
  finally show ?case using Cons.IH [OF tail, of "pre @ enc c"] by simp
qed

lemma scan_valid_iff:
  "snd (scan t 0) = V_Valid \<longleftrightarrow> (\<exists>ss. list_all isScalarValue ss \<and> t = concat (map enc ss))"
proof -
  obtain ss rest where d: "decomposes t ss rest" using decomposes_exists by blast
  then have scan: "scan t 0 = (length (concat (map enc ss)), tail_outcome rest (outc rest))"
    using scan_decomposes [of t ss rest "[]"] by simp
  have "tail_outcome rest (outc rest) = V_Valid \<longleftrightarrow> rest = []"
    by (cases rest; cases "outc rest") auto
  moreover have "rest = [] \<longleftrightarrow> (\<exists>ss. list_all isScalarValue ss \<and> t = concat (map enc ss))"
    using d decomposes_unique [OF d] encodings_decompose by (auto simp: decomposes_def)
  ultimately show ?thesis using scan by simp
qed

text \<open>The reported prefix is the longest one that is itself well-formed.\<close>

lemma scan_prefix_longest:
  assumes "scan t 0 = (n, v)"
  shows "\<exists>ss. list_all isScalarValue ss \<and> take n t = concat (map enc ss)" and "n \<le> length t"
    and "list_all isScalarValue qs \<Longrightarrow> prefix (concat (map enc qs)) t \<Longrightarrow> length (concat (map enc qs)) \<le> n"
proof -
  obtain ss rest where d: "decomposes t ss rest" using decomposes_exists by blast
  then have n: "n = length (concat (map enc ss))"
    using scan_decomposes [of t ss rest "[]"] assms by simp
  from d n show "\<exists>ss. list_all isScalarValue ss \<and> take n t = concat (map enc ss)" "n \<le> length t"
    by (auto simp: decomposes_def)
  assume qs: "list_all isScalarValue qs" "prefix (concat (map enc qs)) t"
  then obtain us where us: "t = concat (map enc qs) @ us" by (auto elim: prefixE)
  obtain ss' rest' where "decomposes us ss' rest'" using decomposes_exists by blast
  with qs(1) us have "decomposes t (qs @ ss') rest'" by (simp add: decomposes_def)
  with d have "ss = qs @ ss'" using decomposes_unique by blast
  with n show "length (concat (map enc qs)) \<le> n" by simp
qed

end

interpretation utf8v: range_validator
  "\<lambda>us. outcome8 (decodeUtf8Scalar us)" "\<lambda>us. scalar8 (decodeUtf8Scalar us)"
  "\<lambda>us. bytesConsumed (decodeUtf8Scalar us)" utf8_encoding
  "\<lambda>t i. (validPrefixBytes (Utf8_validate_from t i), validationOutcome8 (Utf8_validate_from t i))"
  by unfold_locales (subst (1 2) Utf8_validate_from.simps, simp add: Let_def split: DecodeOutcome.split)

interpretation utf16v: range_validator
  "\<lambda>us. outcome16 (decodeUtf16Scalar us)" "\<lambda>us. scalar16 (decodeUtf16Scalar us)"
  "\<lambda>us. codeUnitsConsumed (decodeUtf16Scalar us)" utf16_encoding
  "\<lambda>t i. (validPrefixCodeUnits (Utf16_validate_from t i), validationOutcome16 (Utf16_validate_from t i))"
  by unfold_locales (subst (1 2) Utf16_validate_from.simps, simp add: Let_def split: DecodeOutcome.split)

lemma Utf8_validate_iff: "validationOutcome8 (Utf8_validate t) = V_Valid \<longleftrightarrow> valid_utf8 t"
  using utf8v.scan_valid_iff [of t] by (simp add: Utf8_validate_def valid_utf8_def)

lemma Utf16_validate_iff: "validationOutcome16 (Utf16_validate t) = V_Valid \<longleftrightarrow> valid_utf16 t"
  using utf16v.scan_valid_iff [of t] by (simp add: Utf16_validate_def valid_utf16_def)

section \<open>Code-point boundaries\<close>

lemma utf8_encoding_shape:
  assumes "isScalarValue c"
  obtains lead conts where "utf8_encoding c = lead # conts" "\<not> isContinuationByte lead" "list_all isContinuationByte conts"
  using assms
proof (cases rule: utf8_encoding_cases)
  case one
  then show ?thesis using that by (auto simp: map_unat_eq_Cons isContinuationByte_iff)
next
  case two
  then show ?thesis using that by (auto simp: map_unat_eq_Cons isContinuationByte_iff)
next
  case three
  then show ?thesis using that by (auto simp: map_unat_eq_Cons isContinuationByte_iff)
next
  case four
  then show ?thesis using that by (auto simp: map_unat_eq_Cons isContinuationByte_iff)
qed

lemma scanToLead_stops:
  "j \<le> i \<Longrightarrow> (\<And>k. j < k \<Longrightarrow> k \<le> i \<Longrightarrow> isContinuationByte (t ! k)) \<Longrightarrow>
    j = 0 \<or> \<not> isContinuationByte (t ! j) \<Longrightarrow> scanToLead t i = j"
proof (induction i)
  case (Suc i)
  show ?case
  proof (cases "j = Suc i")
    case False
    with Suc show ?thesis by simp
  qed (use Suc.prems(3) in auto)
qed simp

lemma scanToLead_le: "scanToLead t i \<le> i"
  by (induction i) auto

lemma decodePrevious_at:
  assumes c: "isScalarValue c"
  shows "decodePreviousUtf8Scalar (pre @ utf8_encoding c @ post) (length pre + utf8EncodedLength c)
    = \<lparr>previous_decoded = decoded8 c (utf8EncodedLength c), startOffset = length pre\<rparr>"
proof -
  let ?t = "pre @ utf8_encoding c @ post"
  obtain lead conts where enc: "utf8_encoding c = lead # conts" "\<not> isContinuationByte lead" "list_all isContinuationByte conts"
    using utf8_encoding_shape [OF c] .
  have len: "utf8EncodedLength c = Suc (length conts)" using enc(1) length_utf8_encoding [OF c] by simp
  have cont: "isContinuationByte (?t ! k)" if k: "length pre < k" "k \<le> length pre + length conts" for k
  proof -
    obtain m where "k = length pre + Suc m" using less_imp_Suc_add [OF k(1)] by auto
    with k enc show ?thesis by (simp add: nth_append list_all_length)
  qed
  have "scanToLead ?t (length pre + length conts) = length pre"
    using enc(2) by (intro scanToLead_stops cont) (simp_all add: enc(1))
  then show ?thesis
    using decode8_encoding [OF c, of "[]"] len c by (simp add: decodePreviousUtf8Scalar_def)
qed

lemma decodePrevious_Decoded:
  assumes "outcome8 (previous_decoded (decodePreviousUtf8Scalar t i)) = Decoded"
  obtains pre c where "isScalarValue c" "i \<le> length t" "take i t = pre @ utf8_encoding c"
    "decodePreviousUtf8Scalar t i = \<lparr>previous_decoded = decoded8 c (utf8EncodedLength c), startOffset = length pre\<rparr>"
proof -
  let ?start = "scanToLead t (i - 1)"
  let ?d = "decodeUtf8Scalar (substr t ?start (i - ?start))"
  have i: "i \<noteq> 0" "i \<le> length t" using assms by (auto simp: decodePreviousUtf8Scalar_def split: if_splits)
  have le: "?start \<le> i" using scanToLead_le [of t "i - 1"] by simp
  have dec: "outcome8 ?d = Decoded" "bytesConsumed ?d = i - ?start"
    and eq: "decodePreviousUtf8Scalar t i = \<lparr>previous_decoded = ?d, startOffset = ?start\<rparr>"
    using assms i by (auto simp: decodePreviousUtf8Scalar_def Let_def split: if_splits)
  note sound = decode8_sound [OF dec(1)]
  have d: "?d = decoded8 (scalar8 ?d) (utf8EncodedLength (scalar8 ?d))"
    using dec(1) sound(2) by (cases ?d) simp
  have "take i t = take ?start t @ substr t ?start (i - ?start)"
    using le by (metis take_add le_add_diff_inverse)
  also have "substr t ?start (i - ?start) = utf8_encoding (scalar8 ?d)"
    using sound(4) dec(2) by simp
  finally have "take i t = take ?start t @ utf8_encoding (scalar8 ?d)" .
  moreover have "length (take ?start t) = ?start" using le i by simp
  ultimately show ?thesis using that sound(1) i eq d by metis
qed

definition cp_offset :: "char32 list \<Rightarrow> nat \<Rightarrow> nat" where
  "cp_offset ss i = length (utf8_text (take i ss))"

lemma cp_split:
  assumes "i < length ss" "list_all isScalarValue ss"
  shows "utf8_text ss =
      utf8_text (take i ss) @ utf8_encoding (ss ! i) @ utf8_text (drop (Suc i) ss)"
    and "cp_offset ss (Suc i) = cp_offset ss i + utf8EncodedLength (ss ! i)"
    and "isScalarValue (ss ! i)"
proof -
  show "utf8_text ss =
      utf8_text (take i ss) @ utf8_encoding (ss ! i) @ utf8_text (drop (Suc i) ss)"
    using id_take_nth_drop [OF assms(1)] by (metis concat.simps(2) concat_append list.simps(9) map_append)
  show ok: "isScalarValue (ss ! i)" using assms by (simp add: list_all_length)
  then show "cp_offset ss (Suc i) = cp_offset ss i + utf8EncodedLength (ss ! i)"
    using assms(1) by (simp add: cp_offset_def take_Suc_conv_app_nth)
qed

lemma cp_lead:
  assumes "i < length ss" "list_all isScalarValue ss"
  shows "cp_offset ss i < length (utf8_text ss)"
    and "\<not> isContinuationByte (utf8_text ss ! cp_offset ss i)"
proof -
  from utf8_encoding_shape [OF cp_split(3) [OF assms]]
  obtain lead conts where "utf8_encoding (ss ! i) = lead # conts" "\<not> isContinuationByte lead" by blast
  then show "cp_offset ss i < length (utf8_text ss)"
    "\<not> isContinuationByte (utf8_text ss ! cp_offset ss i)"
    unfolding cp_split(1) [OF assms] by (simp_all add: cp_offset_def nth_append)
qed

lemma cp_offset_last [simp]: "cp_offset ss (length ss) = length (utf8_text ss)"
  by (simp add: cp_offset_def)

lemma cp_offset_0 [simp]: "cp_offset ss 0 = 0"
  by (simp add: cp_offset_def)

lemma cp_offset_le: "cp_offset ss i \<le> length (utf8_text ss)"
  unfolding cp_offset_def
  by (metis append_take_drop_id concat_append le_add1 length_append map_append)

lemma take_cp_offset: "take (cp_offset ss i) (utf8_text ss) = utf8_text (take i ss)"
  unfolding cp_offset_def
  by (metis append_eq_conv_conj append_take_drop_id concat_append map_append)

lemma drop_cp_offset: "drop (cp_offset ss i) (utf8_text ss) = utf8_text (drop i ss)"
  unfolding cp_offset_def
  by (metis append_eq_conv_conj append_take_drop_id concat_append map_append)

lemma cp_offset_not_continuation:
  assumes "i \<le> length ss" "list_all isScalarValue ss"
  shows "\<not> (cp_offset ss i < length (utf8_text ss) \<and>
    isContinuationByte (utf8_text ss ! cp_offset ss i))"
  using cp_lead [of i ss] assms by (cases "i = length ss") auto

lemma decodePrevious_cp:
  assumes "i < length ss" "list_all isScalarValue ss"
  shows "decodePreviousUtf8Scalar (utf8_text ss) (cp_offset ss (Suc i))
    = \<lparr>previous_decoded = decoded8 (ss ! i) (utf8EncodedLength (ss ! i)), startOffset = cp_offset ss i\<rparr>"
  unfolding cp_split(1,2) [OF assms]
  using decodePrevious_at [OF cp_split(3) [OF assms], of "utf8_text (take i ss)"]
  by (simp add: cp_offset_def)

lemma decode_cp:
  assumes "i < length ss" "list_all isScalarValue ss"
  shows "decodeUtf8Scalar (drop (cp_offset ss i) (utf8_text ss))
    = decoded8 (ss ! i) (utf8EncodedLength (ss ! i))"
  using decode8_encoding [OF cp_split(3) [OF assms]]
  unfolding cp_split(1) [OF assms] by (simp add: cp_offset_def)

lemma nextCodePointBoundary_cp:
  assumes "i \<le> length ss" "list_all isScalarValue ss"
  shows "nextCodePointBoundary (utf8_text ss) (cp_offset ss i) =
    (if i = length ss then boundary (cp_offset ss i) AtEnd else boundary (cp_offset ss (Suc i)) Found)"
proof -
  have prev: "outcome8 (previous_decoded (decodePreviousUtf8Scalar (utf8_text ss) (cp_offset ss i))) = Decoded"
    if "0 < cp_offset ss i"
    using that assms decodePrevious_cp [of "i - 1" ss] by (cases i) auto
  show ?thesis
  proof (cases "i = length ss")
    case True
    with prev show ?thesis by (auto simp: nextCodePointBoundary_def)
  next
    case False
    with assms have i: "i < length ss" by simp
    show ?thesis
      using prev False cp_lead [OF i assms(2)] decode_cp [OF i assms(2)] cp_split(2) [OF i assms(2)]
      by (auto simp: nextCodePointBoundary_def Let_def)
  qed
qed

lemma previousCodePointBoundary_cp:
  assumes "i \<le> length ss" "list_all isScalarValue ss"
  shows "previousCodePointBoundary (utf8_text ss) (cp_offset ss i) =
    (if i = 0 then boundary 0 AtBeginning else boundary (cp_offset ss (i - 1)) Found)"
proof (cases i)
  case 0
  with cp_offset_not_continuation [OF assms] show ?thesis by (simp add: previousCodePointBoundary_def)
next
  case (Suc k)
  with assms have k: "k < length ss" by simp
  have "0 < cp_offset ss (Suc k)"
    using cp_split(2) [OF k assms(2)] utf8.enc_nonempty [OF cp_split(3) [OF k assms(2)]] cp_split(3) [OF k assms(2)]
    by (metis add_gr_0 length_greater_0_conv length_utf8_encoding)
  then show ?thesis
    using Suc cp_offset_not_continuation [OF assms] cp_offset_le [of ss i] decodePrevious_cp [OF k assms(2)]
    by (auto simp: previousCodePointBoundary_def Let_def)
qed

lemma inside_code_point:
  assumes "list_all isScalarValue ss" "off < length (utf8_text ss)" "\<forall>i \<le> length ss. off \<noteq> cp_offset ss i"
  shows "isContinuationByte (utf8_text ss ! off)"
  using assms
proof (induction ss arbitrary: off)
  case (Cons c ss)
  then have "isScalarValue c" by simp
  then obtain lead conts where enc: "utf8_encoding c = lead # conts" "list_all isContinuationByte conts"
    by (rule utf8_encoding_shape)
  have off0: "off \<noteq> 0" using Cons.prems(3) by (metis cp_offset_0 le0)
  show ?case
  proof (cases "off < length (utf8_encoding c)")
    case True
    with off0 enc show ?thesis by (cases off) (auto simp: nth_append list_all_length)
  next
    case False
    have "off - length (utf8_encoding c) \<noteq> cp_offset ss i" if "i \<le> length ss" for i
      using that False Cons.prems(3) by (force simp: cp_offset_def dest: spec [of _ "Suc i"])
    with Cons False show ?thesis by (simp add: nth_append)
  qed
qed simp

lemma cp_offset_less:
  assumes "list_all isScalarValue ss" "j \<le> length ss" "i < j"
  shows "cp_offset ss i < cp_offset ss j"
  using assms(3,2)
proof (induction j)
  case (Suc j)
  then have j: "j < length ss" by simp
  have "0 < utf8EncodedLength (ss ! j)" by (simp add: utf8EncodedLength_def)
  then have "cp_offset ss j < cp_offset ss (Suc j)" using cp_split(2) [OF j assms(1)] by simp
  moreover have "i < j \<Longrightarrow> cp_offset ss i < cp_offset ss j" using Suc by simp
  ultimately show ?case using Suc.prems(1) by (cases "i = j") auto
qed simp

lemma cp_offset_less_iff:
  "list_all isScalarValue ss \<Longrightarrow> i \<le> length ss \<Longrightarrow> j \<le> length ss \<Longrightarrow> cp_offset ss i < cp_offset ss j \<longleftrightarrow> i < j"
  using cp_offset_less [of ss j i] cp_offset_less [of ss i j] by (metis linorder_less_linear order_less_asym order_less_irrefl)

lemma cp_offset_eq_iff:
  "list_all isScalarValue ss \<Longrightarrow> i \<le> length ss \<Longrightarrow> j \<le> length ss \<Longrightarrow> cp_offset ss i = cp_offset ss j \<longleftrightarrow> i = j"
  using cp_offset_less_iff [of ss i j] cp_offset_less_iff [of ss j i] by (auto simp: linorder_neq_iff [of i j])

lemma valid_utf8_Nil [simp]: "valid_utf8 []"
  by (auto simp: valid_utf8_def intro: exI [of _ "[]"])

lemma valid_utf8_append: "valid_utf8 a \<Longrightarrow> valid_utf8 b \<Longrightarrow> valid_utf8 (a @ b)"
  unfolding valid_utf8_def by (metis concat_append list_all_append map_append)

lemma valid_utf8_ascii:
  assumes "list_all (\<lambda>b. unat b < 128) t"
  shows "valid_utf8 t"
  using assms
proof (induction t)
  case (Cons b t)
  let ?c = "ucast b :: char32"
  have u: "unat ?c = unat b" by (rule unat_ucast_byte)
  have sc: "isScalarValue ?c"
    using Cons.prems u by (simp add: isScalarValue_def kMaximumScalarValue_def unat_le_iff_nat unat_less_iff_nat)
  then have "utf8_encoding ?c = [b]"
    by (cases rule: utf8_encoding_cases) (use Cons.prems u in \<open>auto simp: map_unat_eq_Cons unat_eq_iff_nat\<close>)
  with sc have "valid_utf8 [b]" unfolding valid_utf8_def by (intro exI [of _ "[?c]"]) simp
  with Cons show ?case using valid_utf8_append [of "[b]" t] by simp
qed (simp add: valid_utf8_def exI [of _ "[]"])

lemma encodeScalar_bytes:
  "isScalarValue c \<Longrightarrow> take (byteCount (Utf8_encodeScalar c)) (encoded_bytes (Utf8_encodeScalar c)) = utf8_encoding c"
  using encodeUtf8Unchecked_eq [of c "[0, 0, 0, 0]"] by (simp add: Utf8_encodeScalar_def utf8EncodedLength_def split: if_splits)

lemma valid_utf8_encoding: "isScalarValue c \<Longrightarrow> valid_utf8 (utf8_encoding c)"
  unfolding valid_utf8_def by (rule exI [of _ "[c]"]) simp

section \<open>Properties\<close>

text \<open>
  Encoding a scalar and decoding the bytes it wrote, whatever follows them, gives the scalar back and consumes exactly those bytes;
  a value that is no scalar is refused.
\<close>

theorem Utf8_encode_decode:
  "if isScalarValue c
   then encodeOutcome8 (Utf8_encodeScalar c) = Encoded \<and>
     Utf8_decodeScalar (take (byteCount (Utf8_encodeScalar c)) (encoded_bytes (Utf8_encodeScalar c)) @ rest)
       = decoded8 c (byteCount (Utf8_encodeScalar c))
   else encodeOutcome8 (Utf8_encodeScalar c) = InvalidScalar \<and> byteCount (Utf8_encodeScalar c) = 0"
proof -
  have "utf8EncodedLength c \<le> 4" by (simp add: utf8EncodedLength_def)
  then have "take (utf8EncodedLength c) (encodeUtf8Unchecked c [0, 0, 0, 0]) = utf8_encoding c" if "isScalarValue c"
    using that encodeUtf8Unchecked_eq [of c "[0, 0, 0, 0]"] by simp
  then show ?thesis using decode8_encoding [of c rest] by (simp add: Utf8_encodeScalar_def Utf8_decodeScalar_def)
qed

text \<open>
  The strict decoder's three answers are exact: it decodes when some scalar's encoding starts the range, calls it incomplete when
  the range can still grow into one, and invalid when neither holds.
\<close>

theorem Utf8_decode_classifies:
  "outcome8 (Utf8_decodeScalar us) =
    (if \<exists>c. isScalarValue c \<and> prefix (utf8_encoding c) us then Decoded
     else if \<exists>c. isScalarValue c \<and> strict_prefix us (utf8_encoding c) then Incomplete else InvalidEncoding)"
proof (cases "outcome8 (decodeUtf8Scalar us)")
  case Decoded
  then have "\<exists>c. isScalarValue c \<and> prefix (utf8_encoding c) us"
    using utf8.decode_split(1) [OF Decoded] utf8.decode_sound [OF Decoded] by (metis prefixI)
  with Decoded show ?thesis by (simp add: Utf8_decodeScalar_def)
next
  case Incomplete
  then have "\<not> (\<exists>c. isScalarValue c \<and> prefix (utf8_encoding c) us)"
    using utf8.decode_enc by (metis DecodeOutcome.distinct(1) prefixE)
  with Incomplete utf8.incomplete_iff [of us] show ?thesis by (simp add: Utf8_decodeScalar_def)
next
  case InvalidEncoding
  then show ?thesis
    using utf8.invalid_iff [of us] by (auto simp: Utf8_decodeScalar_def strict_prefix_def)
qed

text \<open>The UTF-16 codec satisfies the same laws: exact round trip and exact classification.\<close>

theorem Utf16_codec:
  "(if isScalarValue c
    then encodeOutcome16 (Utf16_encodeScalar c) = Encoded \<and>
      Utf16_decodeScalar (take (codeUnitCount (Utf16_encodeScalar c)) (encoded_codeUnits (Utf16_encodeScalar c)) @ rest)
        = decoded16 c (codeUnitCount (Utf16_encodeScalar c))
    else encodeOutcome16 (Utf16_encodeScalar c) = InvalidScalar \<and> codeUnitCount (Utf16_encodeScalar c) = 0) \<and>
   (outcome16 (Utf16_decodeScalar us) = Incomplete \<longleftrightarrow> (\<exists>c. isScalarValue c \<and> strict_prefix us (utf16_encoding c))) \<and>
   (outcome16 (Utf16_decodeScalar us) = InvalidEncoding \<longleftrightarrow>
     \<not> (\<exists>c. isScalarValue c \<and> (prefix (utf16_encoding c) us \<or> prefix us (utf16_encoding c))))"
proof -
  have "utf16EncodedLength c \<le> 2" by (simp add: utf16EncodedLength_def)
  then have "take (utf16EncodedLength c) (encodeUtf16Unchecked c [0, 0]) = utf16_encoding c"
    using encodeUtf16Unchecked_eq [of c "[0, 0]"] by simp
  then have "if isScalarValue c
    then encodeOutcome16 (Utf16_encodeScalar c) = Encoded \<and>
      Utf16_decodeScalar (take (codeUnitCount (Utf16_encodeScalar c)) (encoded_codeUnits (Utf16_encodeScalar c)) @ rest)
        = decoded16 c (codeUnitCount (Utf16_encodeScalar c))
    else encodeOutcome16 (Utf16_encodeScalar c) = InvalidScalar \<and> codeUnitCount (Utf16_encodeScalar c) = 0"
    using decode16_encoding [of c rest] by (simp add: Utf16_encodeScalar_def Utf16_decodeScalar_def)
  then show ?thesis
    using utf16.incomplete_iff [of us] utf16.invalid_iff [of us] by (auto simp: Utf16_decodeScalar_def)
qed

text \<open>
  C13: UTF-8 validation accepts exactly the concatenations of scalar encodings, and the prefix it reports is well-formed and the longest
  such prefix; the verdict on a malformed text says whether the text could still be completed.
\<close>

theorem Utf8_validate_correct:
  "(validationOutcome8 (Utf8_validate t) = V_Valid \<longleftrightarrow> valid_utf8 t) \<and>
   valid_utf8 (take (validPrefixBytes (Utf8_validate t)) t) \<and> validPrefixBytes (Utf8_validate t) \<le> length t \<and>
   (\<forall>u. prefix u t \<and> valid_utf8 u \<longrightarrow> length u \<le> validPrefixBytes (Utf8_validate t)) \<and>
   (validationOutcome8 (Utf8_validate t) = V_Incomplete \<longrightarrow> (\<exists>u. u \<noteq> [] \<and> valid_utf8 (t @ u)))"
proof -
  let ?r = "Utf8_validate_from t 0"
  note longest = utf8v.scan_prefix_longest [of t "validPrefixBytes ?r" "validationOutcome8 ?r"]
  have "\<exists>u. u \<noteq> [] \<and> valid_utf8 (t @ u)" if inc: "validationOutcome8 ?r = V_Incomplete"
  proof -
    obtain ss rest where d: "utf8.decomposes t ss rest" using utf8.decomposes_exists by blast
    then have "validationOutcome8 ?r = tail_outcome rest (outcome8 (decodeUtf8Scalar rest))"
      using utf8v.scan_decomposes [of t ss rest "[]"] by simp
    with inc d have "outcome8 (decodeUtf8Scalar rest) = Incomplete"
      by (cases rest; cases "outcome8 (decodeUtf8Scalar rest)") (auto simp: utf8.decomposes_def)
    then obtain c where c: "isScalarValue c" "strict_prefix rest (utf8_encoding c)" using utf8.incomplete_iff [of rest] by blast
    from c(2) obtain z zs where "utf8_encoding c = rest @ z # zs" by (rule strict_prefixE')
    with c obtain u where "isScalarValue c" "utf8_encoding c = rest @ u" "u \<noteq> []" by blast
    with d have "list_all isScalarValue (ss @ [c])" "t @ u = utf8_text (ss @ [c])" by (auto simp: utf8.decomposes_def)
    with \<open>u \<noteq> []\<close> show ?thesis unfolding valid_utf8_def by blast
  qed
  moreover have "valid_utf8 (take (validPrefixBytes ?r) t)" using longest(1) [OF refl] by (simp add: valid_utf8_def)
  moreover have "validPrefixBytes ?r \<le> length t" using longest(2) [OF refl] .
  moreover have "length u \<le> validPrefixBytes ?r" if u: "prefix u t" "valid_utf8 u" for u
  proof -
    from u(2) obtain qs where "list_all isScalarValue qs" "u = utf8_text qs" by (auto simp: valid_utf8_def)
    with u(1) longest(3) [OF refl, of qs] show ?thesis by simp
  qed
  ultimately show ?thesis unfolding Utf8_validate_iff unfolding Utf8_validate_def by blast
qed

theorem Utf8_validate_correct_witness:
  "\<exists>u. u \<noteq> [] \<and> valid_utf8 ([0x41, 0xF0, 0x9F] @ u)"
proof -
  have "validationOutcome8 (Utf8_validate [0x41, 0xF0, 0x9F]) = V_Incomplete" by code_simp
  then show ?thesis using Utf8_validate_correct [of "[0x41, 0xF0, 0x9F]"] by blast
qed

text \<open>
  On well-formed text the code-point traversals step along the offsets of the scalars, in both directions, and refuse an offset
  inside a code point or outside the text.
\<close>

theorem code_point_traversal:
  assumes "list_all isScalarValue ss"
  shows "(\<forall>i \<le> length ss. nextCodePointBoundary (utf8_text ss) (cp_offset ss i) =
      (if i = length ss then boundary (cp_offset ss i) AtEnd else boundary (cp_offset ss (Suc i)) Found)) \<and>
    (\<forall>i \<le> length ss. previousCodePointBoundary (utf8_text ss) (cp_offset ss i) =
      (if i = 0 then boundary 0 AtBeginning else boundary (cp_offset ss (i - 1)) Found)) \<and>
    (\<forall>off. (\<forall>i \<le> length ss. off \<noteq> cp_offset ss i) \<longrightarrow>
      nextCodePointBoundary (utf8_text ss) off = boundary off InvalidOffset \<and>
      previousCodePointBoundary (utf8_text ss) off = boundary off InvalidOffset)"
proof -
  have "nextCodePointBoundary (utf8_text ss) off = boundary off InvalidOffset \<and>
      previousCodePointBoundary (utf8_text ss) off = boundary off InvalidOffset" if off: "\<forall>i \<le> length ss. off \<noteq> cp_offset ss i" for off
  proof -
    have "off \<noteq> length (utf8_text ss)" using off by (metis cp_offset_last order_refl)
    then consider "length (utf8_text ss) < off" | "off < length (utf8_text ss)" "isContinuationByte (utf8_text ss ! off)"
      using inside_code_point [OF assms _ off] by linarith
    then show ?thesis by cases (simp_all add: nextCodePointBoundary_def previousCodePointBoundary_def)
  qed
  with nextCodePointBoundary_cp [OF _ assms] previousCodePointBoundary_cp [OF _ assms] show ?thesis by blast
qed

theorem code_point_traversal_witness:
  "nextCodePointBoundary (utf8_text [0x41, 0x1F600]) (cp_offset [0x41, 0x1F600] 1) = boundary (cp_offset [0x41, 0x1F600] 2) Found"
proof -
  have "list_all isScalarValue [0x41, 0x1F600]" by code_simp
  from code_point_traversal [OF this] have "nextCodePointBoundary (utf8_text [0x41, 0x1F600]) (cp_offset [0x41, 0x1F600] 1) =
      (if 1 = length [0x41, 0x1F600 :: char32] then boundary (cp_offset [0x41, 0x1F600] 1) AtEnd
       else boundary (cp_offset [0x41, 0x1F600] (Suc 1)) Found)" by (metis One_nat_def Suc_le_mono le0 list.size(4) list.size(3) add_Suc_right Nat.add_0_right)
  then show ?thesis by (simp add: numeral_2_eq_2)
qed

end
