(* ===== verification/Unicode_Conversion.thy ===== *)
theory Unicode_Conversion
  imports Base_Arithmetic Unicode_Text
begin

text \<open>
  The non-allocating conversions of \<^verbatim>\<open>foundation/unicode/core/conversion.cpp\<close>. A span is a base address with
  the elements it views, because the converters compare address ranges before they write; a conversion
  returns its result together with the destination's contents afterwards.
\<close>

section \<open>Spans and results\<close>

record 'a span =
  span_data :: nat
  span_elems :: "'a list"

record byte_range =
  range_begin :: nat
  range_size :: nat

definition as_bytes :: "nat \<Rightarrow> 'a span \<Rightarrow> byte_range" where
  "as_bytes elementSize s = \<lparr>range_begin = span_data s, range_size = elementSize * length (span_elems s)\<rparr>"

definition memoryRangesOverlap :: "byte_range \<Rightarrow> byte_range \<Rightarrow> bool" where
  "memoryRangesOverlap first second =
    (if range_size first = 0 \<or> range_size second = 0 then False
     else let firstEnd = range_begin first + range_size first;
              secondEnd = range_begin second + range_size second
       in range_begin first < secondEnd \<and> range_begin second < firstEnd)"

datatype MeasureOutcome = Measured | M_Incomplete | M_InvalidEncoding | M_SizeLimitExceeded

datatype ConversionOutcome = Converted | C_Incomplete | C_InvalidEncoding | DestinationTooSmall | OverlappingRanges

record ToUtf16MeasureResult =
  sourceBytesProcessed :: nat
  requiredCodeUnits :: nat
  measureOutcome8 :: MeasureOutcome

record ToUtf16Result =
  sourceBytesConsumed :: nat
  codeUnitsWritten :: nat
  conversionOutcome8 :: ConversionOutcome

record ToUtf8MeasureResult =
  sourceCodeUnitsProcessed :: nat
  requiredBytes :: nat
  measureOutcome16 :: MeasureOutcome

record ToUtf8Result =
  sourceCodeUnitsConsumed :: nat
  bytesWritten :: nat
  conversionOutcome16 :: ConversionOutcome

definition measureOutcome :: "DecodeOutcome \<Rightarrow> MeasureOutcome" where
  "measureOutcome result = (if result = Incomplete then M_Incomplete else M_InvalidEncoding)"

definition conversionOutcome :: "DecodeOutcome \<Rightarrow> ConversionOutcome" where
  "conversionOutcome result = (if result = Incomplete then C_Incomplete else C_InvalidEncoding)"

section \<open>UTF-8 to UTF-16\<close>

function measureToUtf16_from :: "byte list \<Rightarrow> nat \<Rightarrow> nat \<Rightarrow> ToUtf16MeasureResult" where
  "measureToUtf16_from source processed required =
    (if processed < length source then
       let decoded = decodeUtf8Scalar (substr_from source processed) in
       if outcome8 decoded \<noteq> Decoded
       then \<lparr>sourceBytesProcessed = processed, requiredCodeUnits = required, measureOutcome8 = measureOutcome (outcome8 decoded)\<rparr>
       else let scalarCodeUnits = utf16EncodedLength (scalar8 decoded) in
         if wouldAddOverflow (of_nat required :: size64) (of_nat scalarCodeUnits)
         then \<lparr>sourceBytesProcessed = processed, requiredCodeUnits = required, measureOutcome8 = M_SizeLimitExceeded\<rparr>
         else measureToUtf16_from source (processed + bytesConsumed decoded) (required + scalarCodeUnits)
     else \<lparr>sourceBytesProcessed = processed, requiredCodeUnits = required, measureOutcome8 = Measured\<rparr>)"
  by pat_completeness auto
termination
  by (relation "measure (\<lambda>(source, processed, _). length source - processed)")
    (use utf8.decode_split(2) in \<open>fastforce+\<close>)

definition measureToUtf16 :: "byte list \<Rightarrow> ToUtf16MeasureResult" where
  "measureToUtf16 source = measureToUtf16_from source 0 0"

function convertToUtf16_from :: "byte list \<Rightarrow> nat \<Rightarrow> nat \<Rightarrow> char16 list \<Rightarrow> ToUtf16Result \<times> char16 list" where
  "convertToUtf16_from source consumed written destination =
    (if consumed < length source then
       let decoded = decodeUtf8Scalar (substr_from source consumed) in
       if outcome8 decoded \<noteq> Decoded
       then (\<lparr>sourceBytesConsumed = consumed, codeUnitsWritten = written,
              conversionOutcome8 = conversionOutcome (outcome8 decoded)\<rparr>, destination)
       else let scalarCodeUnits = utf16EncodedLength (scalar8 decoded) in
         if scalarCodeUnits > length destination - written
         then (\<lparr>sourceBytesConsumed = consumed, codeUnitsWritten = written,
                conversionOutcome8 = DestinationTooSmall\<rparr>, destination)
         else convertToUtf16_from source (consumed + bytesConsumed decoded) (written + scalarCodeUnits)
           (take written destination @ encodeUtf16Unchecked (scalar8 decoded) (drop written destination))
     else (\<lparr>sourceBytesConsumed = consumed, codeUnitsWritten = written, conversionOutcome8 = Converted\<rparr>, destination))"
  by pat_completeness auto
termination
  by (relation "measure (\<lambda>(source, consumed, _). length source - consumed)")
    (use utf8.decode_split(2) in \<open>fastforce+\<close>)

definition convertToUtf16 :: "byte span \<Rightarrow> char16 span \<Rightarrow> ToUtf16Result \<times> char16 list" where
  "convertToUtf16 source destination =
    (if memoryRangesOverlap (as_bytes 1 source) (as_bytes 2 destination)
     then (\<lparr>sourceBytesConsumed = 0, codeUnitsWritten = 0, conversionOutcome8 = OverlappingRanges\<rparr>, span_elems destination)
     else convertToUtf16_from (span_elems source) 0 0 (span_elems destination))"

section \<open>UTF-16 to UTF-8\<close>

function measureToUtf8_from :: "char16 list \<Rightarrow> nat \<Rightarrow> nat \<Rightarrow> ToUtf8MeasureResult" where
  "measureToUtf8_from source processed required =
    (if processed < length source then
       let decoded = decodeUtf16Scalar (substr_from source processed) in
       if outcome16 decoded \<noteq> Decoded
       then \<lparr>sourceCodeUnitsProcessed = processed, requiredBytes = required, measureOutcome16 = measureOutcome (outcome16 decoded)\<rparr>
       else let scalarBytes = utf8EncodedLength (scalar16 decoded) in
         if wouldAddOverflow (of_nat required :: size64) (of_nat scalarBytes)
         then \<lparr>sourceCodeUnitsProcessed = processed, requiredBytes = required, measureOutcome16 = M_SizeLimitExceeded\<rparr>
         else measureToUtf8_from source (processed + codeUnitsConsumed decoded) (required + scalarBytes)
     else \<lparr>sourceCodeUnitsProcessed = processed, requiredBytes = required, measureOutcome16 = Measured\<rparr>)"
  by pat_completeness auto
termination
  by (relation "measure (\<lambda>(source, processed, _). length source - processed)")
    (use utf16.decode_split(2) in \<open>fastforce+\<close>)

definition measureToUtf8 :: "char16 list \<Rightarrow> ToUtf8MeasureResult" where
  "measureToUtf8 source = measureToUtf8_from source 0 0"

function convertToUtf8_from :: "char16 list \<Rightarrow> nat \<Rightarrow> nat \<Rightarrow> byte list \<Rightarrow> ToUtf8Result \<times> byte list" where
  "convertToUtf8_from source consumed written destination =
    (if consumed < length source then
       let decoded = decodeUtf16Scalar (substr_from source consumed) in
       if outcome16 decoded \<noteq> Decoded
       then (\<lparr>sourceCodeUnitsConsumed = consumed, bytesWritten = written,
              conversionOutcome16 = conversionOutcome (outcome16 decoded)\<rparr>, destination)
       else let scalarBytes = utf8EncodedLength (scalar16 decoded) in
         if scalarBytes > length destination - written
         then (\<lparr>sourceCodeUnitsConsumed = consumed, bytesWritten = written,
                conversionOutcome16 = DestinationTooSmall\<rparr>, destination)
         else convertToUtf8_from source (consumed + codeUnitsConsumed decoded) (written + scalarBytes)
           (take written destination @ encodeUtf8Unchecked (scalar16 decoded) (drop written destination))
     else (\<lparr>sourceCodeUnitsConsumed = consumed, bytesWritten = written, conversionOutcome16 = Converted\<rparr>, destination))"
  by pat_completeness auto
termination
  by (relation "measure (\<lambda>(source, consumed, _). length source - consumed)")
    (use utf16.decode_split(2) in \<open>fastforce+\<close>)

definition convertToUtf8 :: "char16 span \<Rightarrow> byte span \<Rightarrow> ToUtf8Result \<times> byte list" where
  "convertToUtf8 source destination =
    (if memoryRangesOverlap (as_bytes 2 source) (as_bytes 1 destination)
     then (\<lparr>sourceCodeUnitsConsumed = 0, bytesWritten = 0, conversionOutcome16 = OverlappingRanges\<rparr>, span_elems destination)
     else convertToUtf8_from (span_elems source) 0 0 (span_elems destination))"

declare measureToUtf16_from.simps [simp del] convertToUtf16_from.simps [simp del]
  measureToUtf8_from.simps [simp del] convertToUtf8_from.simps [simp del]

section \<open>What a bounded scan covers\<close>

text \<open>
  Measurement and conversion both take scalars while their encodings fit a budget: \<open>size_max\<close> for a
  measurement, the destination's size for a conversion. \<open>fitting\<close> is that prefix.
\<close>

fun fitting :: "(char32 \<Rightarrow> nat) \<Rightarrow> nat \<Rightarrow> char32 list \<Rightarrow> char32 list" where
  "fitting len budget [] = []"
| "fitting len budget (c # cs) = (if len c \<le> budget then c # fitting len (budget - len c) cs else [])"

lemma fitting_prefix: "prefix (fitting len budget cs) cs"
  by (induction cs arbitrary: budget) auto

lemma fitting_total: "sum_list (map len (fitting len budget cs)) \<le> budget"
proof (induction cs arbitrary: budget)
  case (Cons c cs)
  from Cons.IH [of "budget - len c"] show ?case by auto
qed simp

lemma fitting_all_iff: "fitting len budget cs = cs \<longleftrightarrow> sum_list (map len cs) \<le> budget"
proof (induction cs arbitrary: budget)
  case (Cons c cs)
  then show ?case by (cases "len c \<le> budget") (simp_all add: le_diff_conv2 add.commute)
qed simp

lemma fitting_longest:
  "prefix ps cs \<Longrightarrow> sum_list (map len ps) \<le> budget \<Longrightarrow> prefix ps (fitting len budget cs)"
proof (induction cs arbitrary: ps budget)
  case (Cons c cs)
  then show ?case by (cases ps) (auto simp: le_diff_conv2 add.commute)
qed simp

lemma fitting_isScalarValue: "list_all isScalarValue cs \<Longrightarrow> list_all isScalarValue (fitting len budget cs)"
  by (induction cs arbitrary: budget) auto

fun measure_tail :: "'u list \<Rightarrow> DecodeOutcome \<Rightarrow> MeasureOutcome" where
  "measure_tail [] _ = Measured"
| "measure_tail _ result = measureOutcome result"

fun conversion_tail :: "'u list \<Rightarrow> DecodeOutcome \<Rightarrow> ConversionOutcome" where
  "conversion_tail [] _ = Converted"
| "conversion_tail _ result = conversionOutcome result"

locale measurer = scalar_codec +
  fixes tlen :: "char32 \<Rightarrow> nat"
    and meas :: "'a list \<Rightarrow> nat \<Rightarrow> nat \<Rightarrow> nat \<times> nat \<times> MeasureOutcome"
  assumes tlen_small: "tlen c \<le> 4"
    and meas_eq: "meas t i r =
    (if i < length t then
       (if outc (drop i t) \<noteq> Decoded then (i, r, measureOutcome (outc (drop i t)))
        else if wouldAddOverflow (of_nat r :: size64) (of_nat (tlen (scal (drop i t)))) then (i, r, M_SizeLimitExceeded)
        else meas t (i + used (drop i t)) (r + tlen (scal (drop i t))))
     else (i, r, Measured))"
begin

lemma meas_decomposes:
  assumes "decomposes us ss rest" "r \<le> size_max"
  shows "meas (pre @ us) (length pre) r =
    (let cs = fitting tlen (size_max - r) ss
     in (length pre + length (concat (map enc cs)), r + sum_list (map tlen cs),
         if cs = ss then measure_tail rest (outc rest) else M_SizeLimitExceeded))"
  using assms
proof (induction ss arbitrary: pre us r)
  case Nil
  then show ?case by (subst meas_eq) (cases rest; auto simp: decomposes_def)
next
  case (Cons c ss)
  let ?us = "concat (map enc ss) @ rest"
  from Cons.prems have c: "isScalarValue c" and us: "us = enc c @ ?us" and tail: "decomposes ?us ss rest"
    by (auto simp: decomposes_def)
  have "enc c \<noteq> []" using enc_nonempty [OF c] .
  moreover have "tlen c \<le> size_max" using tlen_small [of c] by (simp add: size_max_def)
  ultimately have step: "meas (pre @ us) (length pre) r =
      (if tlen c \<le> size_max - r then meas ((pre @ enc c) @ ?us) (length (pre @ enc c)) (r + tlen c)
       else (length pre, r, M_SizeLimitExceeded))"
    using decode_enc [OF c, of ?us] us Cons.prems(2)
    by (subst meas_eq) (simp add: wouldAddOverflow_size not_less le_diff_conv2 add.commute)
  show ?case
  proof (cases "tlen c \<le> size_max - r")
    case True
    then have "r + tlen c \<le> size_max" using Cons.prems(2) by simp
    from Cons.IH [OF tail this, of "pre @ enc c"] True step show ?thesis by (simp add: Let_def add.assoc)
  qed (simp add: step)
qed

end

locale converter = scalar_codec +
  fixes tlen :: "char32 \<Rightarrow> nat"
    and tenc :: "char32 \<Rightarrow> 'v list"
    and put :: "char32 \<Rightarrow> 'v list \<Rightarrow> 'v list"
    and conv :: "'a list \<Rightarrow> nat \<Rightarrow> nat \<Rightarrow> 'v list \<Rightarrow> (nat \<times> nat \<times> ConversionOutcome) \<times> 'v list"
  assumes tlen_enc: "isScalarValue c \<Longrightarrow> length (tenc c) = tlen c"
    and put_eq: "tlen c \<le> length d \<Longrightarrow> put c d = tenc c @ drop (tlen c) d"
    and conv_eq: "conv t i w d =
    (if i < length t then
       (if outc (drop i t) \<noteq> Decoded then ((i, w, conversionOutcome (outc (drop i t))), d)
        else if tlen (scal (drop i t)) > length d - w then ((i, w, DestinationTooSmall), d)
        else conv t (i + used (drop i t)) (w + tlen (scal (drop i t))) (take w d @ put (scal (drop i t)) (drop w d)))
     else ((i, w, Converted), d))"
begin

lemma tenc_total: "list_all isScalarValue cs \<Longrightarrow> length (concat (map tenc cs)) = sum_list (map tlen cs)"
  by (induction cs) (simp_all add: tlen_enc)

lemma conv_decomposes:
  assumes "decomposes us ss rest" "w \<le> length d"
  shows "conv (pre @ us) (length pre) w d =
    (let cs = fitting tlen (length d - w) ss; out = concat (map tenc cs)
     in ((length pre + length (concat (map enc cs)), w + length out,
          if cs = ss then conversion_tail rest (outc rest) else DestinationTooSmall),
         take w d @ out @ drop (w + length out) d))"
  using assms
proof (induction ss arbitrary: pre us w d)
  case Nil
  then show ?case by (subst conv_eq) (cases rest; auto simp: decomposes_def)
next
  case (Cons c ss)
  let ?us = "concat (map enc ss) @ rest"
  from Cons.prems have c: "isScalarValue c" and us: "us = enc c @ ?us" and tail: "decomposes ?us ss rest"
    by (auto simp: decomposes_def)
  have "enc c \<noteq> []" using enc_nonempty [OF c] .
  then have step: "conv (pre @ us) (length pre) w d =
      (if tlen c \<le> length d - w
       then conv ((pre @ enc c) @ ?us) (length (pre @ enc c)) (w + tlen c) (take w d @ put c (drop w d))
       else ((length pre, w, DestinationTooSmall), d))"
    using decode_enc [OF c, of ?us] us by (subst conv_eq) simp
  show ?case
  proof (cases "tlen c \<le> length d - w")
    case True
    then have put: "take w d @ put c (drop w d) = take w d @ tenc c @ drop (w + tlen c) d" (is "_ = ?d")
      by (simp add: put_eq add.commute)
    have len: "length ?d = length d" "w + tlen c \<le> length ?d" "length d - (w + tlen c) = length d - w - tlen c"
      using True tlen_enc [OF c] Cons.prems(2) by auto
    have view: "take (w + tlen c) ?d = take w d @ tenc c" "drop (w + tlen c + n) ?d = drop (w + tlen c + n) d" for n
      using True tlen_enc [OF c] Cons.prems(2) by (simp_all add: add.commute)
    have "conv (pre @ us) (length pre) w d = conv ((pre @ enc c) @ ?us) (length (pre @ enc c)) (w + tlen c) ?d"
      using step put True by simp
    also note Cons.IH [OF tail len(2), of "pre @ enc c"]
    finally show ?thesis
      unfolding Let_def len(1,3) view using True tlen_enc [OF c] by (simp add: add.assoc)
  qed (simp add: step)
qed

end

interpretation measure8: measurer
  "\<lambda>us. outcome8 (decodeUtf8Scalar us)" "\<lambda>us. scalar8 (decodeUtf8Scalar us)"
  "\<lambda>us. bytesConsumed (decodeUtf8Scalar us)" utf8_encoding utf16EncodedLength
  "\<lambda>t i r. (sourceBytesProcessed (measureToUtf16_from t i r), requiredCodeUnits (measureToUtf16_from t i r),
            measureOutcome8 (measureToUtf16_from t i r))"
  by unfold_locales (simp add: utf16EncodedLength_def, subst (1 2 3) measureToUtf16_from.simps, simp add: Let_def)

interpretation measure16: measurer
  "\<lambda>us. outcome16 (decodeUtf16Scalar us)" "\<lambda>us. scalar16 (decodeUtf16Scalar us)"
  "\<lambda>us. codeUnitsConsumed (decodeUtf16Scalar us)" utf16_encoding utf8EncodedLength
  "\<lambda>t i r. (sourceCodeUnitsProcessed (measureToUtf8_from t i r), requiredBytes (measureToUtf8_from t i r),
            measureOutcome16 (measureToUtf8_from t i r))"
  by unfold_locales (simp add: utf8EncodedLength_def, subst (1 2 3) measureToUtf8_from.simps, simp add: Let_def)

definition triple8 :: "ToUtf16Result \<Rightarrow> nat \<times> nat \<times> ConversionOutcome" where
  "triple8 r = (sourceBytesConsumed r, codeUnitsWritten r, conversionOutcome8 r)"

definition triple16 :: "ToUtf8Result \<Rightarrow> nat \<times> nat \<times> ConversionOutcome" where
  "triple16 r = (sourceCodeUnitsConsumed r, bytesWritten r, conversionOutcome16 r)"

interpretation convert8: converter
  "\<lambda>us. outcome8 (decodeUtf8Scalar us)" "\<lambda>us. scalar8 (decodeUtf8Scalar us)"
  "\<lambda>us. bytesConsumed (decodeUtf8Scalar us)" utf8_encoding utf16EncodedLength utf16_encoding encodeUtf16Unchecked
  "\<lambda>t i w d. apfst triple8 (convertToUtf16_from t i w d)"
  by unfold_locales
    (simp, simp add: encodeUtf16Unchecked_eq, subst convertToUtf16_from.simps, simp add: Let_def triple8_def)

interpretation convert16: converter
  "\<lambda>us. outcome16 (decodeUtf16Scalar us)" "\<lambda>us. scalar16 (decodeUtf16Scalar us)"
  "\<lambda>us. codeUnitsConsumed (decodeUtf16Scalar us)" utf16_encoding utf8EncodedLength utf8_encoding encodeUtf8Unchecked
  "\<lambda>t i w d. apfst triple16 (convertToUtf8_from t i w d)"
  by unfold_locales
    (simp, simp add: encodeUtf8Unchecked_eq, subst convertToUtf8_from.simps, simp add: Let_def triple16_def)


section \<open>Whole conversions\<close>

lemma memoryRangesOverlap_iff:
  "memoryRangesOverlap a b \<longleftrightarrow>
    (\<exists>p. range_begin a \<le> p \<and> p < range_begin a + range_size a \<and> range_begin b \<le> p \<and> p < range_begin b + range_size b)"
proof
  assume "memoryRangesOverlap a b"
  then show "\<exists>p. range_begin a \<le> p \<and> p < range_begin a + range_size a \<and> range_begin b \<le> p \<and> p < range_begin b + range_size b"
    by (intro exI [of _ "max (range_begin a) (range_begin b)"])
      (auto simp: memoryRangesOverlap_def Let_def split: if_splits)
qed (auto simp: memoryRangesOverlap_def Let_def)

lemma measureToUtf16_decomposes:
  assumes "utf8.decomposes us ss rest"
  shows "measureToUtf16 us =
    (let cs = fitting utf16EncodedLength size_max ss
     in \<lparr>sourceBytesProcessed = length (utf8_text cs), requiredCodeUnits = length (utf16_text cs),
         measureOutcome8 = if cs = ss then measure_tail rest (outcome8 (decodeUtf8Scalar rest)) else M_SizeLimitExceeded\<rparr>)"
  using measure8.meas_decomposes [OF assms, of 0 "[]"]
  by (cases "measureToUtf16_from us 0 0") (simp add: measureToUtf16_def Let_def length_concat comp_def)

lemma utf8_text_length:
  "list_all isScalarValue ss \<Longrightarrow> length (utf8_text ss) = sum_list (map utf8EncodedLength ss)"
  by (induction ss) simp_all

lemma measureToUtf8_decomposes:
  assumes "utf16.decomposes us ss rest"
  shows "measureToUtf8 us =
    (let cs = fitting utf8EncodedLength size_max ss
     in \<lparr>sourceCodeUnitsProcessed = length (utf16_text cs), requiredBytes = length (utf8_text cs),
         measureOutcome16 = if cs = ss then measure_tail rest (outcome16 (decodeUtf16Scalar rest)) else M_SizeLimitExceeded\<rparr>)"
proof -
  have "list_all isScalarValue (fitting utf8EncodedLength size_max ss)"
    using assms by (simp add: utf16.decomposes_def fitting_isScalarValue)
  then show ?thesis using measure16.meas_decomposes [OF assms, of 0 "[]"]
    by (cases "measureToUtf8_from us 0 0") (simp add: measureToUtf8_def Let_def utf8_text_length)
qed

lemma convertToUtf16_decomposes:
  assumes "utf8.decomposes (span_elems src) ss rest" "\<not> memoryRangesOverlap (as_bytes 1 src) (as_bytes 2 dst)"
  shows "convertToUtf16 src dst =
    (let cs = fitting utf16EncodedLength (length (span_elems dst)) ss; out = utf16_text cs
     in (\<lparr>sourceBytesConsumed = length (utf8_text cs), codeUnitsWritten = length out,
          conversionOutcome8 = if cs = ss then conversion_tail rest (outcome8 (decodeUtf8Scalar rest)) else DestinationTooSmall\<rparr>,
         out @ drop (length out) (span_elems dst)))"
  using convert8.conv_decomposes [OF assms(1), of 0 "span_elems dst" "[]"] assms(2)
  by (cases "convertToUtf16_from (span_elems src) 0 0 (span_elems dst)"; cases "fst (convertToUtf16_from (span_elems src) 0 0 (span_elems dst))")
    (simp add: convertToUtf16_def triple8_def Let_def)

lemma convertToUtf8_decomposes:
  assumes "utf16.decomposes (span_elems src) ss rest" "\<not> memoryRangesOverlap (as_bytes 2 src) (as_bytes 1 dst)"
  shows "convertToUtf8 src dst =
    (let cs = fitting utf8EncodedLength (length (span_elems dst)) ss; out = utf8_text cs
     in (\<lparr>sourceCodeUnitsConsumed = length (utf16_text cs), bytesWritten = length out,
          conversionOutcome16 = if cs = ss then conversion_tail rest (outcome16 (decodeUtf16Scalar rest)) else DestinationTooSmall\<rparr>,
         out @ drop (length out) (span_elems dst)))"
  using convert16.conv_decomposes [OF assms(1), of 0 "span_elems dst" "[]"] assms(2)
  by (cases "convertToUtf8_from (span_elems src) 0 0 (span_elems dst)"; cases "fst (convertToUtf8_from (span_elems src) 0 0 (span_elems dst))")
    (simp add: convertToUtf8_def triple16_def Let_def)

text \<open>A UTF-16 text never needs more code units than the UTF-8 text has bytes, so that measurement cannot exceed the size limit.\<close>

lemma utf16_not_longer: "utf16EncodedLength c \<le> utf8EncodedLength c"
  using order_trans [of c "0x7F" "0xFFFF"] order_trans [of c "0x7FF" "0xFFFF"]
  by (simp add: utf16EncodedLength_def utf8EncodedLength_def)

lemma utf16_text_not_longer:
  "list_all isScalarValue ss \<Longrightarrow> length (utf16_text ss) \<le> length (utf8_text ss)"
  by (induction ss) (auto intro: add_mono utf16_not_longer)

lemma utf16_text_length: "length (utf16_text ss) = sum_list (map utf16EncodedLength ss)"
  by (induction ss) simp_all


section \<open>Properties\<close>

text \<open>
  C14: conversion to UTF-16 writes the encodings of the longest run of leading scalars that fits the destination, leaves the
  rest of the destination alone, and reports what stopped it.
\<close>

theorem convertToUtf16_correct:
  assumes "\<not> memoryRangesOverlap (as_bytes 1 src) (as_bytes 2 dst)"
    and "list_all isScalarValue ss" "span_elems src = utf8_text ss @ rest" "outcome8 (decodeUtf8Scalar rest) \<noteq> Decoded"
    and "convertToUtf16 src dst = (r, dst')"
  shows "\<exists>cs. prefix cs ss \<and> (\<forall>ps. prefix ps ss \<and> length (utf16_text ps) \<le> length (span_elems dst) \<longrightarrow> prefix ps cs) \<and>
      sourceBytesConsumed r = length (utf8_text cs) \<and> codeUnitsWritten r = length (utf16_text cs) \<and>
      dst' = utf16_text cs @ drop (length (utf16_text cs)) (span_elems dst) \<and>
      length dst' = length (span_elems dst) \<and>
      conversionOutcome8 r =
        (if cs \<noteq> ss then DestinationTooSmall else if rest = [] then Converted
         else if outcome8 (decodeUtf8Scalar rest) = Incomplete then C_Incomplete else C_InvalidEncoding)"
proof (intro exI [of _ "fitting utf16EncodedLength (length (span_elems dst)) ss"] conjI, goal_cases)
  case 1
  show ?case by (rule fitting_prefix)
next
  case 2
  show ?case by (simp add: fitting_longest utf16_text_length)
next
  case 6
  have "length (utf16_text (fitting utf16EncodedLength (length (span_elems dst)) ss)) \<le> length (span_elems dst)"
    by (simp add: utf16_text_length fitting_total)
  with convertToUtf16_decomposes [of src ss rest dst] assms show ?case
    by (auto simp: utf8.decomposes_def Let_def)
next
  case 7
  with convertToUtf16_decomposes [of src ss rest dst] assms show ?case
    by (cases rest) (auto simp: utf8.decomposes_def Let_def conversionOutcome_def)
qed (use convertToUtf16_decomposes [of src ss rest dst] assms in \<open>auto simp: utf8.decomposes_def Let_def\<close>)

theorem convertToUtf16_correct_witness:
  "snd (convertToUtf16 \<lparr>span_data = 0, span_elems = [0x41, 0xC3]\<rparr> \<lparr>span_data = 8, span_elems = [0, 0]\<rparr>) = [0x41, 0]"
proof -
  let ?src = "\<lparr>span_data = 0, span_elems = [0x41, 0xC3]\<rparr> :: byte span" and ?dst = "\<lparr>span_data = 8, span_elems = [0, 0]\<rparr> :: char16 span"
  have no: "\<not> memoryRangesOverlap (as_bytes 1 ?src) (as_bytes 2 ?dst)" by code_simp
  have src: "list_all isScalarValue [0x41]" "span_elems ?src = utf8_text [0x41] @ [0xC3]" "outcome8 (decodeUtf8Scalar [0xC3]) \<noteq> Decoded"
    by code_simp+
  obtain cs where "prefix cs [0x41]" "prefix [0x41] [0x41] \<and> length (utf16_text [0x41]) \<le> length (span_elems ?dst) \<longrightarrow> prefix [0x41] cs"
      "snd (convertToUtf16 ?src ?dst) = utf16_text cs @ drop (length (utf16_text cs)) (span_elems ?dst)"
    using convertToUtf16_correct [OF no src prod.collapse [symmetric]] by blast
  moreover have "utf16_text [0x41] = [0x41]" "utf16EncodedLength 0x41 = 1" by code_simp+
  ultimately show ?thesis by (auto simp: prefix_Cons)
qed


text \<open>
  C15: a well-formed UTF-8 text converted to UTF-16, into a destination of the measured size, and back, into a destination of the
  size measured for that, is the text itself; both measurements and both conversions succeed.
\<close>

theorem utf8_utf16_roundtrip:
  assumes valid: "validationOutcome8 (Utf8_validate us) = V_Valid" and size: "length us \<le> size_max"
    and src: "span_elems src = us" and dst: "length (span_elems dst) = requiredCodeUnits (measureToUtf16 us)"
    and there: "\<not> memoryRangesOverlap (as_bytes 1 src) (as_bytes 2 dst)"
    and mid: "span_elems mid = snd (convertToUtf16 src dst)"
    and out: "length (span_elems out) = requiredBytes (measureToUtf8 (span_elems mid))"
    and nover: "\<not> memoryRangesOverlap (as_bytes 2 mid) (as_bytes 1 out)"
  shows "measureOutcome8 (measureToUtf16 us) = Measured \<and> conversionOutcome8 (fst (convertToUtf16 src dst)) = Converted \<and>
    measureOutcome16 (measureToUtf8 (span_elems mid)) = Measured \<and> conversionOutcome16 (fst (convertToUtf8 mid out)) = Converted \<and>
    snd (convertToUtf8 mid out) = us"
proof -
  from valid obtain ss where ss: "list_all isScalarValue ss" "us = utf8_text ss"
    by (auto simp: Utf8_validate_iff valid_utf8_def)
  have fit: "fitting utf16EncodedLength size_max ss = ss" "fitting utf8EncodedLength size_max ss = ss"
    using ss size utf16_text_not_longer [OF ss(1)] utf8_text_length [OF ss(1)]
    by (simp_all add: fitting_all_iff utf16_text_length)
  have measured: "measureToUtf16 us = \<lparr>sourceBytesProcessed = length us, requiredCodeUnits = length (utf16_text ss), measureOutcome8 = Measured\<rparr>"
    using measureToUtf16_decomposes [OF utf8.encodings_decompose [OF ss(1)]] ss(2) fit by simp
  then have "fitting utf16EncodedLength (length (span_elems dst)) ss = ss"
    using dst by (simp add: fitting_all_iff utf16_text_length)
  then have forth: "conversionOutcome8 (fst (convertToUtf16 src dst)) = Converted" "span_elems mid = utf16_text ss"
    using convertToUtf16_decomposes [of src ss "[]" dst] src ss there dst measured mid utf8.encodings_decompose [OF ss(1)]
    by (simp_all add: Let_def)
  then have measured': "measureToUtf8 (span_elems mid) =
      \<lparr>sourceCodeUnitsProcessed = length (utf16_text ss), requiredBytes = length us, measureOutcome16 = Measured\<rparr>"
    using measureToUtf8_decomposes [OF utf16.encodings_decompose [OF ss(1)]] ss(2) fit by simp
  then have "fitting utf8EncodedLength (length (span_elems out)) ss = ss"
    using out ss by (simp add: fitting_all_iff utf8_text_length)
  then show ?thesis
    using convertToUtf8_decomposes [of mid ss "[]" out] nover out measured measured' forth ss(2) utf16.encodings_decompose [OF ss(1)]
    by (simp add: Let_def)
qed

theorem utf8_utf16_roundtrip_witness:
  "snd (convertToUtf8 \<lparr>span_data = 8, span_elems = [0xD83D, 0xDE00]\<rparr> \<lparr>span_data = 16, span_elems = [0, 0, 0, 0]\<rparr>)
    = [0xF0, 0x9F, 0x98, 0x80]"
proof -
  let ?us = "[0xF0, 0x9F, 0x98, 0x80] :: byte list"
  let ?src = "\<lparr>span_data = 0, span_elems = ?us\<rparr> :: byte span" and ?dst = "\<lparr>span_data = 8, span_elems = [0, 0]\<rparr> :: char16 span"
  let ?mid = "\<lparr>span_data = 8, span_elems = [0xD83D, 0xDE00]\<rparr> :: char16 span" and ?out = "\<lparr>span_data = 16, span_elems = [0, 0, 0, 0]\<rparr> :: byte span"
  have "validationOutcome8 (Utf8_validate ?us) = V_Valid" "span_elems ?src = ?us"
    "length (span_elems ?dst) = requiredCodeUnits (measureToUtf16 ?us)" "\<not> memoryRangesOverlap (as_bytes 1 ?src) (as_bytes 2 ?dst)"
    "span_elems ?mid = snd (convertToUtf16 ?src ?dst)" "length (span_elems ?out) = requiredBytes (measureToUtf8 (span_elems ?mid))"
    "\<not> memoryRangesOverlap (as_bytes 2 ?mid) (as_bytes 1 ?out)"
    by code_simp+
  moreover have "length ?us \<le> size_max" by (simp add: size_max_def)
  ultimately show ?thesis using utf8_utf16_roundtrip [of ?us ?src ?dst ?mid ?out] by blast
qed

text \<open>the converters refuse to run, and write nothing, exactly when some byte belongs to both ranges.\<close>

theorem convertToUtf16_overlap:
  "conversionOutcome8 (fst (convertToUtf16 src dst)) = OverlappingRanges \<longleftrightarrow>
    (\<exists>p. span_data src \<le> p \<and> p < span_data src + length (span_elems src) \<and>
         span_data dst \<le> p \<and> p < span_data dst + 2 * length (span_elems dst))"
proof (cases "memoryRangesOverlap (as_bytes 1 src) (as_bytes 2 dst)")
  case True
  then show ?thesis by (auto simp: convertToUtf16_def memoryRangesOverlap_iff as_bytes_def)
next
  case False
  obtain ss rest where d: "utf8.decomposes (span_elems src) ss rest" using utf8.decomposes_exists by blast
  have "conversion_tail rest (outcome8 (decodeUtf8Scalar rest)) \<noteq> OverlappingRanges"
    by (cases rest) (simp_all add: conversionOutcome_def)
  with convertToUtf16_decomposes [OF d False] False show ?thesis
    by (auto simp: Let_def memoryRangesOverlap_iff as_bytes_def)
qed

end
