(* ===== verification/Unicode_Tables.thy ===== *)
theory Unicode_Tables
  imports GW_Prelude
begin

text \<open>
  The two-stage property trie of \<^verbatim>\<open>foundation/unicode/internal/generated/unicode_properties.h\<close> (Unicode 17.0.0).
  The arrays are written as runs \<open>(count, value)\<close> of equal consecutive elements; each numbered definition
  holds the elements of one range of source lines, and an array is the concatenation of its parts.
\<close>

definition expand :: "(nat \<times> nat) list \<Rightarrow> nat list" where
  "expand runs = concat (map (\<lambda>(count, v). replicate count v) runs)"

definition kUnicodeVersionMajor :: nat where "kUnicodeVersionMajor = 17"

definition kUnicodeVersionMinor :: nat where "kUnicodeVersionMinor = 0"

definition kUnicodeVersionPatch :: nat where "kUnicodeVersionPatch = 0"

definition kBlockShift :: nat where "kBlockShift = 7"

definition kBlockSize :: nat where "kBlockSize = 128"

definition kBlockMask :: nat where "kBlockMask = 127"

definition kHighStart :: char32 where "kHighStart = 0xE1000"

definition kBlockIndexes_0 :: "(nat \<times> nat) list" where
  "kBlockIndexes_0 = [
    (1, 0), (1, 1), (4, 0), (1, 2), (2, 0), (1, 3), (1, 0), (1, 4), (1, 5), (1, 6), (1, 7), (1, 8), (1, 9),
    (1, 10), (1, 11), (1, 12), (1, 13), (1, 14), (1, 15), (1, 16), (1, 17), (1, 18), (1, 19), (1, 20), (1, 21),
    (1, 22), (1, 23), (1, 24), (1, 25), (1, 26), (1, 27), (1, 28), (2, 0), (1, 29), (7, 0), (1, 30), (1, 31),
    (1, 32), (1, 33), (1, 34), (1, 0), (1, 35), (1, 36), (1, 37), (1, 38), (1, 39), (1, 40), (1, 0), (1, 41),
    (4, 0), (1, 42), (1, 43), (1, 44), (1, 45), (2, 0), (1, 46), (1, 47), (1, 0), (1, 48), (1, 0), (1, 49),
    (1, 50), (1, 51), (1, 52), (1, 53), (2, 0), (1, 54), (3, 0), (1, 55), (2, 0), (1, 56), (1, 57), (1, 58),
    (4, 0), (1, 59), (1, 60), (3, 0), (1, 61), (230, 0), (1, 62), (1, 63), (2, 0), (1, 64), (1, 65), (1, 66),
    (1, 67), (1, 68), (1, 69), (1, 0), (1, 70), (87, 0), (1, 71), (70, 0), (1, 72), (5, 0), (1, 73), (1, 74),
    (1, 0), (1, 75), (3, 0), (1, 76), (1, 0), (1, 77), (1, 78), (13, 0), (1, 79), (1, 80), (4, 0), (1, 81), (2, 0),
    (1, 82), (1, 83), (1, 84), (1, 85), (1, 86), (1, 87), (1, 88), (1, 89), (1, 90), (1, 91), (1, 92), (1, 93),
    (1, 94), (1, 0), (1, 95), (1, 96), (1, 97), (1, 98), (1, 0), (1, 99), (1, 0), (1, 100), (1, 101), (1, 102),
    (1, 103), (1, 104), (1, 0), (1, 105), (1, 106), (1, 107), (1, 108), (1, 0), (1, 109), (1, 110), (41, 0),
    (1, 111), (89, 0), (1, 112), (18, 0), (1, 113), (1, 114), (3, 0), (1, 115), (3, 0), (1, 116), (1, 117),
    (153, 0), (1, 118), (36, 0), (1, 119), (3, 0), (1, 120), (1, 121), (1, 122), (15, 0), (1, 123), (1, 124),
    (10, 0), (1, 125), (1, 126), (1, 114), (2, 0), (1, 127), (3, 0), (1, 128), (1, 0), (1, 129), (1, 0), (1, 130),
    (3, 0), (1, 131), (1, 132), (13, 0), (1, 133), (1, 134), (1, 135), (1, 136), (1, 137), (1, 138), (1, 139),
    (1, 140), (1, 138), (1, 141), (1, 142), (1, 143), (1, 144), (1, 145), (1, 0), (1, 146), (1, 147), (1, 148),
    (1, 149), (1, 138), (1, 150), (1, 138), (2, 0), (7, 138), (1, 151), (2616, 0)]"

definition kBlockIndexes_1 :: "(nat \<times> nat) list" where
  "kBlockIndexes_1 = [
    (3528, 0), (1, 152), (1, 153), (1, 154), (1, 155), (28, 153)]"

definition kBlockIndexes :: "nat list" where
  "kBlockIndexes = expand kBlockIndexes_0 @ expand kBlockIndexes_1"

lemmas kBlockIndexes_parts = kBlockIndexes_0_def kBlockIndexes_1_def

definition kPropertyBlocks_0 :: "(nat \<times> nat) list" where
  "kPropertyBlocks_0 = [
    (128, 0x0), (32, 0x3), (9, 0x0), (1, 0x40), (3, 0x0), (1, 0x3), (1, 0x40), (81, 0x0), (112, 0x24), (19, 0x0),
    (7, 0x24), (135, 0x0), (45, 0x24), (1, 0x0), (1, 0x24), (1, 0x0), (2, 0x24), (1, 0x0), (2, 0x24), (1, 0x0),
    (1, 0x24), (56, 0x0), (6, 0x7), (10, 0x0), (11, 0x24), (1, 0x0), (1, 0x3), (46, 0x0), (21, 0x24), (16, 0x0),
    (1, 0x24), (101, 0x0), (7, 0x24), (1, 0x7), (1, 0x0), (6, 0x24), (2, 0x0), (2, 0x24), (1, 0x0), (4, 0x24),
    (33, 0x0), (1, 0x7), (1, 0x0), (1, 0x24), (30, 0x0), (27, 0x24), (91, 0x0), (11, 0x24), (58, 0x0), (9, 0x24),
    (9, 0x0), (1, 0x24), (24, 0x0), (4, 0x24), (1, 0x0), (9, 0x24), (1, 0x0), (3, 0x24), (1, 0x0), (5, 0x24),
    (43, 0x0), (3, 0x24), (52, 0x0), (2, 0x7), (5, 0x0), (9, 0x24), (42, 0x0), (24, 0x24), (1, 0x7), (32, 0x24),
    (1, 0x8), (17, 0x0), (37, 0x10), (1, 0x24), (1, 0x8), (1, 0x24), (1, 0x0), (3, 0x8), (8, 0x24), (4, 0x8),
    (1, 0x34), (2, 0x8), (1, 0x0), (7, 0x24), (8, 0x10), (2, 0x0), (2, 0x24), (20, 0x0), (8, 0x10), (1, 0x0),
    (1, 0x24), (2, 0x8), (17, 0x0), (20, 0x10), (1, 0x0), (7, 0x10), (1, 0x0), (1, 0x10), (3, 0x0), (4, 0x10),
    (2, 0x0), (1, 0x24), (1, 0x0), (1, 0x24), (2, 0x8), (4, 0x24), (2, 0x0), (2, 0x8), (2, 0x0), (2, 0x8),
    (1, 0x34), (9, 0x0), (1, 0x24), (4, 0x0), (2, 0x10), (1, 0x0), (1, 0x10), (2, 0x0), (2, 0x24), (12, 0x0),
    (2, 0x10), (12, 0x0), (1, 0x24), (2, 0x0), (2, 0x24), (1, 0x8), (56, 0x0), (1, 0x24), (1, 0x0), (3, 0x8),
    (2, 0x24), (4, 0x0), (2, 0x24), (2, 0x0), (3, 0x24), (3, 0x0), (1, 0x24), (30, 0x0), (2, 0x24), (3, 0x0),
    (1, 0x24), (11, 0x0), (2, 0x24), (1, 0x8), (17, 0x0), (20, 0x10), (1, 0x0), (7, 0x10), (1, 0x0), (2, 0x10),
    (1, 0x0), (5, 0x10), (2, 0x0), (1, 0x24), (1, 0x0), (3, 0x8), (5, 0x24), (1, 0x0), (2, 0x24), (1, 0x8),
    (1, 0x0), (2, 0x8), (1, 0x34), (20, 0x0), (2, 0x24), (21, 0x0), (1, 0x10), (6, 0x24), (1, 0x0), (1, 0x24),
    (2, 0x8), (17, 0x0), (20, 0x10), (1, 0x0), (7, 0x10), (1, 0x0), (2, 0x10), (1, 0x0), (5, 0x10), (2, 0x0),
    (1, 0x24), (1, 0x0), (2, 0x24), (1, 0x8), (4, 0x24), (2, 0x0), (2, 0x8), (2, 0x0), (2, 0x8), (1, 0x34),
    (7, 0x0), (3, 0x24), (4, 0x0), (2, 0x10), (1, 0x0), (1, 0x10), (2, 0x0), (2, 0x24), (13, 0x0), (1, 0x10),
    (16, 0x0), (1, 0x24), (59, 0x0), (1, 0x24), (1, 0x8), (1, 0x24), (2, 0x8), (3, 0x0), (3, 0x8), (1, 0x0),
    (3, 0x8), (1, 0x24), (9, 0x0), (1, 0x24), (40, 0x0), (1, 0x24), (3, 0x8), (1, 0x24), (16, 0x0), (20, 0x10),
    (1, 0x0), (16, 0x10), (2, 0x0), (1, 0x24), (1, 0x0), (3, 0x24), (4, 0x8), (1, 0x0), (3, 0x24), (1, 0x0),
    (3, 0x24), (1, 0x34), (7, 0x0), (2, 0x24), (1, 0x0), (3, 0x10), (7, 0x0), (2, 0x24), (29, 0x0), (1, 0x24),
    (2, 0x8), (56, 0x0), (1, 0x24), (1, 0x0), (1, 0x8), (2, 0x24), (1, 0x8), (1, 0x24), (2, 0x8), (1, 0x0),
    (3, 0x24), (1, 0x0), (4, 0x24), (7, 0x0), (2, 0x24), (11, 0x0), (2, 0x24), (15, 0x0), (1, 0x8), (12, 0x0),
    (2, 0x24), (2, 0x8), (17, 0x0), (38, 0x10), (2, 0x24), (1, 0x0), (1, 0x24), (2, 0x8), (4, 0x24), (1, 0x0),
    (3, 0x8), (1, 0x0), (3, 0x8), (1, 0x34), (1, 0x7), (8, 0x0), (1, 0x24), (10, 0x0), (2, 0x24), (29, 0x0),
    (1, 0x24), (2, 0x8), (70, 0x0), (1, 0x24), (4, 0x0), (1, 0x24), (2, 0x8), (3, 0x24), (1, 0x0), (1, 0x24),
    (1, 0x0), (7, 0x8), (1, 0x24), (18, 0x0), (2, 0x8), (61, 0x0), (1, 0x24), (1, 0x0), (1, 0x8), (7, 0x24),
    (12, 0x0), (8, 0x24), (98, 0x0), (1, 0x24), (1, 0x0), (1, 0x8), (9, 0x24), (11, 0x0), (7, 0x24), (73, 0x0),
    (2, 0x24), (27, 0x0), (1, 0x24), (1, 0x0), (1, 0x24), (1, 0x0), (1, 0x24), (4, 0x0), (2, 0x8), (49, 0x0),
    (14, 0x24), (1, 0x8), (5, 0x24), (1, 0x0), (2, 0x24), (5, 0x0), (11, 0x24), (1, 0x0), (36, 0x24), (9, 0x0),
    (1, 0x24), (57, 0x0), (43, 0x10), (2, 0x0), (4, 0x24), (1, 0x8), (6, 0x24), (1, 0x0), (1, 0x34), (1, 0x24),
    (2, 0x8), (2, 0x24), (1, 0x10), (16, 0x0), (6, 0x10), (2, 0x8), (2, 0x24), (4, 0x10), (3, 0x24), (1, 0x10),
    (3, 0x0), (2, 0x10), (7, 0x0), (3, 0x10), (4, 0x24), (13, 0x10), (1, 0x24), (1, 0x0), (1, 0x8), (2, 0x24)]"

definition kPropertyBlocks_1 :: "(nat \<times> nat) list" where
  "kPropertyBlocks_1 = [
    (6, 0x0), (1, 0x24), (1, 0x10), (14, 0x0), (1, 0x24), (98, 0x0), (96, 0x9), (72, 0xa), (88, 0xb), (93, 0x0),
    (3, 0x24), (50, 0x0), (4, 0x24), (28, 0x0), (3, 0x24), (29, 0x0), (2, 0x24), (30, 0x0), (2, 0x24), (12, 0x0),
    (52, 0x10), (2, 0x24), (1, 0x8), (7, 0x24), (8, 0x8), (1, 0x24), (2, 0x8), (9, 0x24), (1, 0x34), (1, 0x24),
    (9, 0x0), (1, 0x24), (45, 0x0), (3, 0x24), (1, 0x3), (1, 0x24), (117, 0x0), (2, 0x24), (34, 0x0), (1, 0x24),
    (118, 0x0), (3, 0x24), (4, 0x8), (2, 0x24), (3, 0x8), (4, 0x0), (2, 0x8), (1, 0x24), (6, 0x8), (3, 0x24),
    (91, 0x0), (2, 0x24), (2, 0x8), (1, 0x24), (4, 0x0), (53, 0x10), (1, 0x8), (1, 0x24), (1, 0x8), (7, 0x24),
    (1, 0x0), (1, 0x34), (1, 0x0), (1, 0x24), (2, 0x0), (8, 0x24), (6, 0x8), (10, 0x24), (2, 0x0), (1, 0x24),
    (48, 0x0), (46, 0x24), (2, 0x0), (12, 0x24), (20, 0x0), (4, 0x24), (1, 0x8), (6, 0x0), (2, 0x10), (6, 0x0),
    (33, 0x10), (10, 0x24), (4, 0x8), (2, 0x24), (1, 0x34), (8, 0x10), (30, 0x0), (9, 0x24), (12, 0x0), (2, 0x24),
    (1, 0x8), (30, 0x10), (1, 0x8), (4, 0x24), (2, 0x8), (3, 0x24), (1, 0x34), (2, 0x24), (2, 0x10), (11, 0x0),
    (3, 0x10), (40, 0x0), (1, 0x24), (1, 0x8), (2, 0x24), (3, 0x8), (1, 0x24), (1, 0x8), (5, 0x24), (48, 0x0),
    (8, 0x8), (8, 0x24), (2, 0x8), (2, 0x24), (152, 0x0), (3, 0x24), (1, 0x0), (13, 0x24), (1, 0x8), (7, 0x24),
    (4, 0x0), (1, 0x24), (6, 0x0), (1, 0x24), (2, 0x0), (1, 0x8), (2, 0x24), (70, 0x0), (64, 0x24), (11, 0x0),
    (1, 0x3), (1, 0x4), (1, 0x25), (2, 0x3), (24, 0x0), (7, 0x3), (13, 0x0), (1, 0x40), (12, 0x0), (1, 0x40),
    (22, 0x0), (16, 0x3), (96, 0x0), (33, 0x24), (49, 0x0), (1, 0x40), (22, 0x0), (1, 0x40), (90, 0x0), (6, 0x40),
    (15, 0x0), (2, 0x40), (111, 0x0), (2, 0x40), (12, 0x0), (1, 0x40), (166, 0x0), (1, 0x40), (25, 0x0),
    (11, 0x40), (4, 0x0), (3, 0x40), (71, 0x0), (1, 0x40), (103, 0x0), (2, 0x40), (10, 0x0), (1, 0x40), (9, 0x0),
    (1, 0x40), (58, 0x0), (4, 0x40), (1, 0x0), (5, 0x40), (9, 0x0), (1, 0x40), (2, 0x0), (1, 0x40), (2, 0x0),
    (2, 0x40), (2, 0x0), (1, 0x40), (4, 0x0), (1, 0x40), (2, 0x0), (1, 0x40), (1, 0x0), (2, 0x40), (2, 0x0),
    (1, 0x40), (3, 0x0), (1, 0x40), (3, 0x0), (2, 0x40), (8, 0x0), (3, 0x40), (5, 0x0), (1, 0x40), (1, 0x0),
    (1, 0x40), (5, 0x0), (12, 0x40), (11, 0x0), (2, 0x40), (2, 0x0), (1, 0x40), (1, 0x0), (2, 0x40), (1, 0x0),
    (1, 0x40), (18, 0x0), (1, 0x40), (2, 0x0), (2, 0x40), (18, 0x0), (6, 0x40), (1, 0x0), (1, 0x40), (1, 0x0),
    (2, 0x40), (3, 0x0), (2, 0x40), (5, 0x0), (1, 0x40), (2, 0x0), (2, 0x40), (4, 0x0), (2, 0x40), (11, 0x0),
    (2, 0x40), (5, 0x0), (2, 0x40), (2, 0x0), (1, 0x40), (5, 0x0), (2, 0x40), (1, 0x0), (1, 0x40), (1, 0x0),
    (2, 0x40), (20, 0x0), (2, 0x40), (5, 0x0), (6, 0x40), (1, 0x0), (4, 0x40), (2, 0x0), (1, 0x40), (4, 0x0),
    (1, 0x40), (2, 0x0), (1, 0x40), (2, 0x0), (6, 0x40)]"

definition kPropertyBlocks_2 :: "(nat \<times> nat) list" where
  "kPropertyBlocks_2 = [
    (1, 0x0), (1, 0x40), (2, 0x0), (1, 0x40), (1, 0x0), (1, 0x40), (1, 0x0), (1, 0x40), (6, 0x0), (1, 0x40),
    (3, 0x0), (1, 0x40), (6, 0x0), (1, 0x40), (10, 0x0), (2, 0x40), (15, 0x0), (1, 0x40), (2, 0x0), (1, 0x40),
    (4, 0x0), (1, 0x40), (1, 0x0), (1, 0x40), (4, 0x0), (3, 0x40), (1, 0x0), (1, 0x40), (11, 0x0), (2, 0x40),
    (48, 0x0), (3, 0x40), (9, 0x0), (1, 0x40), (14, 0x0), (1, 0x40), (14, 0x0), (1, 0x40), (116, 0x0), (2, 0x40),
    (79, 0x0), (3, 0x40), (19, 0x0), (2, 0x40), (51, 0x0), (1, 0x40), (4, 0x0), (1, 0x40), (153, 0x0), (3, 0x24),
    (141, 0x0), (1, 0x24), (96, 0x0), (32, 0x24), (42, 0x0), (6, 0x24), (1, 0x40), (12, 0x0), (1, 0x40), (91, 0x0),
    (2, 0x24), (124, 0x0), (1, 0x40), (1, 0x0), (1, 0x40), (213, 0x0), (4, 0x24), (1, 0x0), (10, 0x24), (32, 0x0),
    (2, 0x24), (80, 0x0), (2, 0x24), (16, 0x0), (1, 0x24), (3, 0x0), (1, 0x24), (4, 0x0), (1, 0x24), (23, 0x0),
    (2, 0x8), (2, 0x24), (1, 0x8), (4, 0x0), (1, 0x24), (83, 0x0), (2, 0x8), (50, 0x0), (16, 0x8), (2, 0x24),
    (26, 0x0), (18, 0x24), (13, 0x0), (1, 0x24), (38, 0x0), (8, 0x24), (25, 0x0), (11, 0x24), (1, 0x8), (1, 0x24),
    (12, 0x0), (29, 0x9), (3, 0x0), (3, 0x24), (1, 0x8), (5, 0x0), (3, 0x10), (3, 0x0), (36, 0x10), (1, 0x24),
    (2, 0x8), (4, 0x24), (2, 0x8), (2, 0x24), (2, 0x8), (1, 0x34), (31, 0x0), (5, 0x10), (1, 0x24), (1, 0x0),
    (9, 0x10), (10, 0x0), (5, 0x10), (42, 0x0), (6, 0x24), (2, 0x8), (2, 0x24), (2, 0x8), (2, 0x24), (12, 0x0),
    (1, 0x24), (8, 0x0), (1, 0x24), (1, 0x8), (18, 0x0), (16, 0x10), (1, 0x0), (3, 0x10), (6, 0x0), (1, 0x10),
    (1, 0x0), (1, 0x24), (1, 0x0), (2, 0x10), (48, 0x0), (1, 0x24), (1, 0x0), (3, 0x24), (2, 0x0), (2, 0x24),
    (5, 0x0), (2, 0x24), (1, 0x0), (1, 0x24), (30, 0x0), (11, 0x10), (1, 0x8), (2, 0x24), (2, 0x8), (5, 0x0),
    (1, 0x8), (1, 0x34), (73, 0x0), (27, 0x10), (8, 0x0), (2, 0x8), (1, 0x24), (2, 0x8), (1, 0x24), (2, 0x8),
    (1, 0x0), (1, 0x8), (1, 0x24), (66, 0x0), (23, 0xa), (4, 0x0), (49, 0xb), (34, 0x0), (1, 0x24), (97, 0x0),
    (16, 0x24), (16, 0x0), (16, 0x24), (207, 0x0), (1, 0x3), (30, 0x0), (2, 0x24), (80, 0x0), (12, 0x3),
    (129, 0x0), (1, 0x24), (98, 0x0), (1, 0x24), (52, 0x0)]"

definition kPropertyBlocks_3 :: "(nat \<times> nat) list" where
  "kPropertyBlocks_3 = [
    (97, 0x0), (5, 0x24), (5, 0x0), (1, 0x10), (3, 0x24), (1, 0x0), (2, 0x24), (5, 0x0), (4, 0x24), (4, 0x10),
    (1, 0x0), (3, 0x10), (1, 0x0), (29, 0x10), (2, 0x0), (3, 0x24), (4, 0x0), (1, 0x34), (165, 0x0), (2, 0x24),
    (61, 0x0), (4, 0x24), (65, 0x0), (5, 0x24), (61, 0x0), (2, 0x24), (77, 0x0), (6, 0x24), (70, 0x0), (11, 0x24),
    (49, 0x0), (4, 0x24), (122, 0x0), (1, 0x8), (1, 0x24), (1, 0x8), (53, 0x0), (15, 0x24), (41, 0x0), (1, 0x24),
    (2, 0x0), (2, 0x24), (10, 0x0), (3, 0x24), (1, 0x8), (45, 0x0), (3, 0x8), (4, 0x24), (2, 0x8), (2, 0x24),
    (2, 0x0), (1, 0x7), (4, 0x0), (1, 0x24), (10, 0x0), (1, 0x7), (50, 0x0), (3, 0x24), (36, 0x10), (5, 0x24),
    (1, 0x8), (6, 0x24), (1, 0x34), (1, 0x24), (15, 0x0), (1, 0x10), (2, 0x8), (1, 0x10), (43, 0x0), (1, 0x24),
    (12, 0x0), (2, 0x24), (1, 0x8), (48, 0x0), (3, 0x8), (9, 0x24), (1, 0x8), (1, 0x24), (1, 0x0), (2, 0x7),
    (5, 0x0), (4, 0x24), (1, 0x0), (1, 0x8), (1, 0x24), (92, 0x0), (3, 0x8), (3, 0x24), (2, 0x8), (4, 0x24),
    (6, 0x0), (1, 0x24), (2, 0x0), (1, 0x24), (157, 0x0), (1, 0x24), (3, 0x8), (8, 0x24), (21, 0x0), (2, 0x24),
    (2, 0x8), (55, 0x0), (2, 0x24), (1, 0x0), (1, 0x24), (1, 0x8), (1, 0x24), (4, 0x8), (2, 0x0), (2, 0x8),
    (2, 0x0), (2, 0x8), (1, 0x24), (9, 0x0), (1, 0x24), (10, 0x0), (2, 0x8), (2, 0x0), (7, 0x24), (3, 0x0),
    (5, 0x24), (11, 0x0), (10, 0x10), (1, 0x0), (1, 0x10), (2, 0x0), (1, 0x10), (1, 0x0), (38, 0x10), (2, 0x0),
    (1, 0x24), (2, 0x8), (6, 0x24), (1, 0x0), (1, 0x24), (2, 0x0), (1, 0x24), (1, 0x0), (3, 0x24), (1, 0x8),
    (1, 0x0), (2, 0x8), (2, 0x24), (1, 0x34), (1, 0x7), (1, 0x24), (14, 0x0), (2, 0x24), (82, 0x0), (3, 0x8),
    (8, 0x24), (2, 0x8), (3, 0x24), (1, 0x8), (1, 0x24), (23, 0x0), (1, 0x24), (81, 0x0), (1, 0x24), (2, 0x8),
    (6, 0x24), (1, 0x8), (1, 0x24), (2, 0x8), (1, 0x24), (1, 0x8), (2, 0x24), (1, 0x8), (2, 0x24), (107, 0x0),
    (1, 0x24), (2, 0x8), (4, 0x24), (2, 0x0), (4, 0x8), (2, 0x24), (1, 0x8), (2, 0x24), (27, 0x0), (2, 0x24),
    (82, 0x0), (3, 0x8), (8, 0x24), (2, 0x8), (1, 0x24), (1, 0x8), (2, 0x24), (106, 0x0), (1, 0x24), (1, 0x8),
    (1, 0x24), (2, 0x8), (8, 0x24), (101, 0x0), (1, 0x24), (1, 0x8), (1, 0x24), (2, 0x0), (4, 0x24), (1, 0x8),
    (5, 0x24), (128, 0x0), (3, 0x8), (9, 0x24), (1, 0x8), (2, 0x24), (69, 0x0), (7, 0x10), (2, 0x0), (1, 0x10),
    (2, 0x0), (8, 0x10), (1, 0x0), (2, 0x10), (1, 0x0), (24, 0x10), (1, 0x24), (5, 0x8), (1, 0x0), (2, 0x8),
    (2, 0x0), (3, 0x24), (1, 0x34), (1, 0x7), (1, 0x8), (1, 0x7), (1, 0x8), (1, 0x24), (141, 0x0), (3, 0x8),
    (4, 0x24), (2, 0x0), (2, 0x24), (4, 0x8), (1, 0x24), (3, 0x0), (1, 0x8), (27, 0x0), (1, 0x10), (10, 0x24),
    (40, 0x10), (6, 0x24), (1, 0x8), (1, 0x0), (4, 0x24), (8, 0x0), (1, 0x34), (8, 0x0), (1, 0x10), (6, 0x24),
    (2, 0x8), (3, 0x24), (40, 0x10), (6, 0x7), (13, 0x24), (1, 0x8), (1, 0x24), (1, 0x34), (130, 0x0)]"

definition kPropertyBlocks_4 :: "(nat \<times> nat) list" where
  "kPropertyBlocks_4 = [
    (68, 0x0), (1, 0x24), (1, 0x8), (3, 0x24), (1, 0x8), (1, 0x24), (1, 0x8), (71, 0x0), (1, 0x8), (7, 0x24),
    (1, 0x0), (6, 0x24), (1, 0x8), (1, 0x24), (82, 0x0), (22, 0x24), (1, 0x0), (1, 0x8), (7, 0x24), (1, 0x8),
    (2, 0x24), (1, 0x8), (2, 0x24), (122, 0x0), (6, 0x24), (3, 0x0), (1, 0x24), (1, 0x0), (2, 0x24), (1, 0x0),
    (7, 0x24), (1, 0x7), (1, 0x24), (66, 0x0), (5, 0x8), (1, 0x0), (2, 0x24), (1, 0x0), (2, 0x8), (1, 0x24),
    (1, 0x8), (1, 0x24), (219, 0x0), (2, 0x24), (2, 0x8), (9, 0x0), (2, 0x24), (1, 0x7), (1, 0x8), (13, 0x10),
    (1, 0x0), (34, 0x10), (2, 0x8), (5, 0x24), (3, 0x0), (2, 0x8), (2, 0x24), (1, 0x34), (23, 0x0), (1, 0x24),
    (85, 0x0), (16, 0x3), (1, 0x24), (6, 0x0), (15, 0x24), (72, 0x0), (12, 0x24), (3, 0x8), (3, 0x24), (192, 0x0),
    (5, 0x24), (59, 0x0), (7, 0x24), (172, 0x0), (1, 0xa), (3, 0x0), (4, 0xa), (100, 0x0), (1, 0x24), (1, 0x0),
    (55, 0x8), (7, 0x0), (4, 0x24), (81, 0x0), (1, 0x24), (11, 0x0), (2, 0x24), (43, 0x0), (2, 0x24), (1, 0x0),
    (4, 0x3), (92, 0x0), (46, 0x24), (2, 0x0), (23, 0x24), (158, 0x0), (5, 0x24), (3, 0x0), (6, 0x24), (8, 0x3),
    (8, 0x24), (2, 0x0), (7, 0x24), (30, 0x0), (4, 0x24), (148, 0x0), (3, 0x24), (59, 0x0), (55, 0x24), (4, 0x0),
    (50, 0x24), (8, 0x0), (1, 0x24), (14, 0x0), (1, 0x24), (22, 0x0), (5, 0x24), (1, 0x0), (15, 0x24), (80, 0x0),
    (7, 0x24), (1, 0x0), (17, 0x24), (2, 0x0), (7, 0x24), (1, 0x0), (2, 0x24), (1, 0x0), (5, 0x24), (100, 0x0),
    (1, 0x24), (158, 0x0), (1, 0x24), (61, 0x0), (4, 0x24), (124, 0x0), (4, 0x24), (126, 0x0), (2, 0x24),
    (51, 0x0)]"

definition kPropertyBlocks_5 :: "(nat \<times> nat) list" where
  "kPropertyBlocks_5 = [
    (64, 0x0), (1, 0x24), (2, 0x0), (1, 0x24), (7, 0x0), (2, 0x24), (5, 0x0), (1, 0x24), (90, 0x0), (7, 0x24),
    (109, 0x0), (7, 0x24), (57, 0x0), (1, 0x40), (39, 0x0), (4, 0x40), (100, 0x0), (12, 0x40), (15, 0x0),
    (2, 0x40), (15, 0x0), (1, 0x40), (14, 0x0), (2, 0x40), (37, 0x0), (10, 0x40), (112, 0x0), (2, 0x40), (12, 0x0),
    (2, 0x40), (14, 0x0), (1, 0x40), (2, 0x0), (10, 0x40), (19, 0x0), (56, 0x40), (26, 0x6), (1, 0x0), (15, 0x40),
    (10, 0x0), (1, 0x40), (20, 0x0), (1, 0x40), (2, 0x0), (9, 0x40), (1, 0x0), (4, 0x40), (9, 0x0), (23, 0x40),
    (6, 0x0), (188, 0x40), (2, 0x0), (112, 0x40), (2, 0x0), (2, 0x40), (1, 0x0), (3, 0x40), (2, 0x0), (83, 0x40),
    (2, 0x0), (3, 0x40), (1, 0x0), (4, 0x40), (5, 0x24), (126, 0x40), (1, 0x0), (63, 0x40), (11, 0x0), (6, 0x40),
    (1, 0x0), (24, 0x40), (7, 0x0), (2, 0x40), (2, 0x0), (8, 0x40), (12, 0x0), (1, 0x40), (2, 0x0), (4, 0x40),
    (2, 0x0), (1, 0x40), (4, 0x0), (2, 0x40), (13, 0x0), (2, 0x40), (2, 0x0), (1, 0x40), (8, 0x0), (2, 0x40),
    (9, 0x0), (1, 0x40), (5, 0x0), (3, 0x40), (12, 0x0), (3, 0x40), (8, 0x0), (3, 0x40), (2, 0x0), (1, 0x40),
    (1, 0x0), (1, 0x40), (4, 0x0), (1, 0x40), (6, 0x0), (1, 0x40), (3, 0x0), (1, 0x40), (6, 0x0), (86, 0x40),
    (48, 0x0), (70, 0x40), (5, 0x0), (8, 0x40), (2, 0x0), (17, 0x40), (3, 0x0), (1, 0x40), (1, 0x0), (6, 0x40),
    (2, 0x0), (13, 0x40), (90, 0x0), (38, 0x40), (12, 0x0), (4, 0x40), (56, 0x0), (8, 0x40), (10, 0x0), (6, 0x40),
    (40, 0x0), (8, 0x40), (30, 0x0), (2, 0x40), (12, 0x0), (4, 0x40), (2, 0x0), (14, 0x40), (9, 0x0), (39, 0x40),
    (12, 0x0), (47, 0x40), (1, 0x0), (10, 0x40), (1, 0x0), (57, 0x40), (88, 0x0), (8, 0x40), (14, 0x0),
    (144, 0x40), (2, 0x0), (32, 0x3), (96, 0x24), (128, 0x3), (240, 0x24), (16, 0x3)]"

definition kPropertyBlocks :: "nat list" where
  "kPropertyBlocks = expand kPropertyBlocks_0 @ expand kPropertyBlocks_1 @ expand kPropertyBlocks_2 @ expand kPropertyBlocks_3 @ expand kPropertyBlocks_4 @ expand kPropertyBlocks_5"

lemmas kPropertyBlocks_parts = kPropertyBlocks_0_def kPropertyBlocks_1_def kPropertyBlocks_2_def kPropertyBlocks_3_def kPropertyBlocks_4_def kPropertyBlocks_5_def

section \<open>Shape of the tables\<close>

lemma length_expand: "length (expand runs) = sum_list (map fst runs)"
  by (induction runs) (auto simp: expand_def)

lemma list_all_expand: "list_all (\<lambda>(count, v). P v) runs \<Longrightarrow> list_all P (expand runs)"
  by (induction runs) (auto simp: expand_def list_all_iff)

lemma length_kBlockIndexes: "length kBlockIndexes = 7200"
  unfolding kBlockIndexes_def length_append length_expand kBlockIndexes_parts by simp

lemma length_kPropertyBlocks: "length kPropertyBlocks = 19968"
  unfolding kPropertyBlocks_def length_append length_expand kPropertyBlocks_parts by simp

lemma kBlockIndexes_range: "list_all (\<lambda>b. b \<le> 155) kBlockIndexes"
  unfolding kBlockIndexes_def list_all_append
  by (intro conjI list_all_expand) (simp_all add: kBlockIndexes_parts)

definition packed_values :: "nat list" where
  "packed_values = [0x00, 0x03, 0x04, 0x06, 0x07, 0x08, 0x09, 0x0A, 0x0B, 0x10, 0x24, 0x25, 0x34, 0x40]"

lemma kPropertyBlocks_values: "list_all (\<lambda>p. p \<in> set packed_values) kPropertyBlocks"
  unfolding kPropertyBlocks_def list_all_append
  by (intro conjI list_all_expand) (simp_all add: kPropertyBlocks_parts packed_values_def)

end
