(* ===== verification/Unicode_Properties.thy ===== *)
theory Unicode_Properties
  imports Unicode_Encoding Unicode_Tables
begin

text \<open>
  Grapheme properties of one scalar: \<^verbatim>\<open>foundation/unicode/internal/unicode_properties.h\<close> over the generated
  trie. The enums' numeric values are those of the packed table; the two values of the four-bit field
  that name no class match none of the segmentation rules, exactly as \<open>Other\<close> does, and no table entry holds them.
\<close>

datatype GraphemeBreakClass = Other | CR | LF | Control | Extend | ZWJ | RegionalIndicator | Prepend
  | SpacingMark | GB_L | GB_V | GB_T | LV | LVT

datatype IndicConjunctBreakClass = I_None | Consonant | I_Extend | Linker

record UnicodeProperties =
  graphemeBreak :: GraphemeBreakClass
  indicConjunctBreak :: IndicConjunctBreakClass
  extendedPictographic :: bool

abbreviation default_properties :: UnicodeProperties where
  "default_properties \<equiv> \<lparr>graphemeBreak = Other, indicConjunctBreak = I_None, extendedPictographic = False\<rparr>"

record Version =
  major :: nat
  minor :: nat
  patch :: nat

definition getStandardVersion :: Version where
  "getStandardVersion = \<lparr>major = kUnicodeVersionMajor, minor = kUnicodeVersionMinor, patch = kUnicodeVersionPatch\<rparr>"

definition GraphemeBreakClass_values :: "GraphemeBreakClass list" where
  "GraphemeBreakClass_values = [Other, CR, LF, Control, Extend, ZWJ, RegionalIndicator, Prepend, SpacingMark, GB_L, GB_V, GB_T, LV, LVT]"

definition GraphemeBreakClass_of :: "nat \<Rightarrow> GraphemeBreakClass" where
  "GraphemeBreakClass_of n = (if n < length GraphemeBreakClass_values then GraphemeBreakClass_values ! n else Other)"

definition IndicConjunctBreakClass_of :: "nat \<Rightarrow> IndicConjunctBreakClass" where
  "IndicConjunctBreakClass_of n = [I_None, Consonant, I_Extend, Linker] ! n"

definition asciiProperties :: "char32 \<Rightarrow> UnicodeProperties" where
  "asciiProperties codePoint =
    (if codePoint = 0x0D then default_properties\<lparr>graphemeBreak := CR\<rparr>
     else if codePoint = 0x0A then default_properties\<lparr>graphemeBreak := LF\<rparr>
     else if codePoint \<le> 0x1F \<or> codePoint = 0x7F then default_properties\<lparr>graphemeBreak := Control\<rparr>
     else default_properties)"

definition hangulSyllableProperties :: "char32 \<Rightarrow> UnicodeProperties" where
  "hangulSyllableProperties codePoint =
    (let isLv = ((codePoint - 0xAC00) mod 28 = 0)
     in default_properties\<lparr>graphemeBreak := (if isLv then LV else LVT)\<rparr>)"

definition trieOffset :: "nat \<Rightarrow> nat" where
  "trieOffset codePoint =
    (let blockIndexOffset = drop_bit kBlockShift codePoint;
         blockIndex = kBlockIndexes ! blockIndexOffset
     in push_bit kBlockShift blockIndex OR (codePoint AND kBlockMask))"

definition unpackProperties :: "nat \<Rightarrow> UnicodeProperties" where
  "unpackProperties packed =
    \<lparr>graphemeBreak = GraphemeBreakClass_of (packed AND 0x0F),
     indicConjunctBreak = IndicConjunctBreakClass_of (drop_bit 4 packed AND 0x03),
     extendedPictographic = packed AND 0x40 \<noteq> 0\<rparr>"

definition unicodeProperties :: "char32 \<Rightarrow> UnicodeProperties" where
  "unicodeProperties scalar =
    (if scalar \<le> 0x7F then asciiProperties scalar
     else if scalar \<ge> 0xAC00 \<and> scalar \<le> 0xD7A3 then hangulSyllableProperties scalar
     else if scalar \<ge> kHighStart then default_properties
     else unpackProperties (kPropertyBlocks ! trieOffset (unat scalar)))"

section \<open>The lookup stays inside its tables\<close>

lemma trieOffset_bounds:
  assumes "scalar < kHighStart"
  shows "drop_bit kBlockShift (unat scalar) < length kBlockIndexes" and "trieOffset (unat scalar) < length kPropertyBlocks"
proof -
  have "unat scalar < 0xE1000" using assms by (simp add: kHighStart_def word_less_nat_alt)
  then show index: "drop_bit kBlockShift (unat scalar) < length kBlockIndexes"
    by (simp add: length_kBlockIndexes kBlockShift_def drop_bit_eq_div)
  then have block: "kBlockIndexes ! drop_bit kBlockShift (unat scalar) \<le> 155"
    using kBlockIndexes_range by (simp add: list_all_length)
  have low: "unat scalar AND 127 < 2 ^ 7"
    using take_bit_nat_less_exp [of 7 "unat scalar"] by (simp add: take_bit_eq_mask mask_eq_exp_minus_1)
  have "trieOffset (unat scalar) = 128 * kBlockIndexes ! drop_bit kBlockShift (unat scalar) + (unat scalar AND 127)"
    using nat_or_add [OF low, of "128 * kBlockIndexes ! drop_bit kBlockShift (unat scalar)"]
    by (simp add: trieOffset_def Let_def kBlockShift_def kBlockMask_def push_bit_eq_mult mult.commute)
  with block low show "trieOffset (unat scalar) < length kPropertyBlocks"
    by (simp add: length_kPropertyBlocks)
qed

section \<open>Facts of the property data\<close>

text \<open>What segmentation relies on: the conjunct and pictographic properties determine the break class.\<close>

definition properties_ok :: "UnicodeProperties \<Rightarrow> bool" where
  "properties_ok p \<longleftrightarrow>
    (indicConjunctBreak p \<in> {I_Extend, Linker} \<longrightarrow> graphemeBreak p \<in> {Extend, ZWJ}) \<and>
    (indicConjunctBreak p = Consonant \<longrightarrow> graphemeBreak p = Other) \<and>
    (extendedPictographic p \<longrightarrow> graphemeBreak p = Other \<and> indicConjunctBreak p = I_None)"

lemma unpack_ok: "list_all (\<lambda>p. properties_ok (unpackProperties p)) packed_values"
  by (simp add: packed_values_def unpackProperties_def properties_ok_def GraphemeBreakClass_of_def
      GraphemeBreakClass_values_def IndicConjunctBreakClass_of_def drop_bit_eq_div)

lemma unicodeProperties_ok: "properties_ok (unicodeProperties scalar)"
proof -
  have "properties_ok (unpackProperties (kPropertyBlocks ! trieOffset (unat scalar)))" if "scalar < kHighStart"
  proof -
    have "kPropertyBlocks ! trieOffset (unat scalar) \<in> set packed_values"
      using kPropertyBlocks_values trieOffset_bounds(2) [OF that] by (simp add: list_all_length)
    with unpack_ok show ?thesis by (simp add: list_all_iff)
  qed
  then show ?thesis
    by (auto simp: unicodeProperties_def asciiProperties_def hangulSyllableProperties_def Let_def properties_ok_def not_le)
qed

lemma ascii_break:
  assumes "scalar \<le> 0x7F"
  shows "graphemeBreak (unicodeProperties scalar) =
      (if scalar = 0x0D then CR else if scalar = 0x0A then LF else if scalar \<le> 0x1F \<or> scalar = 0x7F then Control else Other)"
    and "indicConjunctBreak (unicodeProperties scalar) = I_None" and "\<not> extendedPictographic (unicodeProperties scalar)"
  using assms by (auto simp: unicodeProperties_def asciiProperties_def)

text \<open>Only the ASCII characters themselves have the classes CR and LF.\<close>

lemma unpack_not_newline: "list_all (\<lambda>p. graphemeBreak (unpackProperties p) \<notin> {CR, LF}) packed_values"
  by (simp add: packed_values_def unpackProperties_def GraphemeBreakClass_of_def GraphemeBreakClass_values_def)

lemma newline_break:
  "graphemeBreak (unicodeProperties scalar) = CR \<longleftrightarrow> scalar = 0x0D"
  "graphemeBreak (unicodeProperties scalar) = LF \<longleftrightarrow> scalar = 0x0A"
proof -
  have "graphemeBreak (unpackProperties (kPropertyBlocks ! trieOffset (unat scalar))) \<notin> {CR, LF}" if "scalar < kHighStart"
  proof -
    have "kPropertyBlocks ! trieOffset (unat scalar) \<in> set packed_values"
      using kPropertyBlocks_values trieOffset_bounds(2) [OF that] by (simp add: list_all_length)
    with unpack_not_newline show ?thesis by (simp add: list_all_iff)
  qed
  then show "graphemeBreak (unicodeProperties scalar) = CR \<longleftrightarrow> scalar = 0x0D"
    "graphemeBreak (unicodeProperties scalar) = LF \<longleftrightarrow> scalar = 0x0A"
    by (auto simp: unicodeProperties_def asciiProperties_def hangulSyllableProperties_def Let_def not_le)
qed

text \<open>The algorithmic Hangul classification agrees with the syllable's decomposition.\<close>

lemma hangul_index:
  assumes "n < 11172"
  shows "graphemeBreak (unicodeProperties (of_nat (0xAC00 + n))) = (if n mod 28 = 0 then LV else LVT)"
proof -
  let ?c = "of_nat (0xAC00 + n) :: char32"
  have c: "unat ?c = 0xAC00 + n" using assms by (simp add: unat_of_nat del: of_nat_add)
  have "?c - 0xAC00 = of_nat n" by simp
  then have "unat (?c - 0xAC00) = n" using assms by (simp add: unat_of_nat)
  then have "(?c - 0xAC00) mod 28 = 0 \<longleftrightarrow> n mod 28 = 0"
    by (simp add: unat_eq_iff_nat unat_mod del: of_nat_add)
  moreover have "?c \<ge> 0xAC00 \<and> ?c \<le> 0xD7A3 \<and> \<not> ?c \<le> 0x7F"
    using c assms by (simp add: word_le_nat_alt del: of_nat_add)
  ultimately show ?thesis
    by (simp add: unicodeProperties_def hangulSyllableProperties_def Let_def del: of_nat_add)
qed

lemma hangul_break:
  assumes "l < 19" "v < 21" "t < 28"
  shows "graphemeBreak (unicodeProperties (of_nat (0xAC00 + ((l * 21 + v) * 28 + t)))) = (if t = 0 then LV else LVT)"
proof -
  have "l * 21 + v \<le> 398" using assms by linarith
  then have "(l * 21 + v) * 28 \<le> 398 * 28" by (rule mult_le_mono1)
  then have "(l * 21 + v) * 28 + t < 11172" using assms(3) by linarith
  note hangul_index [OF this]
  also have "((l * 21 + v) * 28 + t) mod 28 = t"
    using assms(3) mod_mult_self3 [of "l * 21 + v" 28 t] by (simp only: mod_less)
  finally show ?thesis .
qed

section \<open>Properties\<close>

text \<open>below \<open>kHighStart\<close> both table accesses of the property lookup are inside their arrays.\<close>

theorem trie_lookup_in_bounds:
  assumes "scalar < kHighStart"
  shows "drop_bit kBlockShift (unat scalar) < length kBlockIndexes \<and> trieOffset (unat scalar) < length kPropertyBlocks"
  using trieOffset_bounds [OF assms] by simp

theorem trie_lookup_in_bounds_witness: "trieOffset (unat (0x301 :: char32)) < length kPropertyBlocks"
  using trie_lookup_in_bounds [of "0x301"] by (simp add: kHighStart_def)

text \<open>
  precomposed Hangul syllables are classified by their decomposition: LV without a trailing consonant, LVT with one.
\<close>

theorem hangul_classification:
  assumes "l < 19" "v < 21" "t < 28"
  shows "graphemeBreak (unicodeProperties (of_nat (0xAC00 + ((l * 21 + v) * 28 + t)))) = (if t = 0 then LV else LVT)"
  by (rule hangul_break [OF assms])

theorem hangul_classification_witness: "graphemeBreak (unicodeProperties (of_nat (0xAC00 + ((0 * 21 + 0) * 28 + 1)))) = LVT"
  using hangul_classification [of 0 0 1] by simp

end
