(* ===== verification/Unicode_Grapheme.thy ===== *)
theory Unicode_Grapheme
  imports Unicode_Text Unicode_Properties
begin

text \<open>
  Extended grapheme-cluster segmentation, \<^verbatim>\<open>foundation/unicode/core/grapheme.cpp\<close>: the streaming rule context,
  the ordered break rules, the ASCII fast paths, the backward search for a restart point, and the three
  forward scans. A visitor is a function on its captured state.
\<close>

section \<open>Rule context\<close>

datatype IndicSequenceState = IS_None | IS_Consonant | IS_Linked

datatype EmojiSequenceState = ES_None | ES_ExtendedPictographic | ES_ExtendedPictographicZwj

record GraphemeState =
  indic :: IndicSequenceState
  emoji :: EmojiSequenceState
  regionalIndicatorCount :: nat

definition initial_state :: GraphemeState where
  "initial_state = \<lparr>indic = IS_None, emoji = ES_None, regionalIndicatorCount = 0\<rparr>"

definition consume :: "GraphemeState \<Rightarrow> UnicodeProperties \<Rightarrow> GraphemeState" where
  "consume state properties =
    \<lparr>indic = (case indicConjunctBreak properties of
        Consonant \<Rightarrow> IS_Consonant
      | I_Extend \<Rightarrow> indic state
      | Linker \<Rightarrow> (if indic state = IS_None then IS_None else IS_Linked)
      | I_None \<Rightarrow> IS_None),
     emoji =
       (if extendedPictographic properties then ES_ExtendedPictographic
        else if graphemeBreak properties = Extend \<and> emoji state = ES_ExtendedPictographic then emoji state
        else if graphemeBreak properties = ZWJ \<and> emoji state = ES_ExtendedPictographic then ES_ExtendedPictographicZwj
        else ES_None),
     regionalIndicatorCount =
       (if graphemeBreak properties = RegionalIndicator then regionalIndicatorCount state + 1 else 0)\<rparr>"

definition isControlClass :: "GraphemeBreakClass \<Rightarrow> bool" where
  "isControlClass v \<longleftrightarrow> v = Control \<or> v = CR \<or> v = LF"

definition shouldBreak :: "UnicodeProperties \<Rightarrow> UnicodeProperties \<Rightarrow> GraphemeState \<Rightarrow> bool" where
  "shouldBreak previous current state =
    (let p = graphemeBreak previous; c = graphemeBreak current in
     if p = CR \<and> c = LF then False
     else if isControlClass p \<or> isControlClass c then True
     else if p = GB_L \<and> (c = GB_L \<or> c = GB_V \<or> c = LV \<or> c = LVT) then False
     else if (p = LV \<or> p = GB_V) \<and> (c = GB_V \<or> c = GB_T) then False
     else if (p = LVT \<or> p = GB_T) \<and> c = GB_T then False
     else if c = Extend \<or> c = ZWJ then False
     else if c = SpacingMark then False
     else if p = Prepend then False
     else if indicConjunctBreak current = Consonant \<and> indic state = IS_Linked then False
     else if extendedPictographic current \<and> emoji state = ES_ExtendedPictographicZwj then False
     else if p = RegionalIndicator \<and> c = RegionalIndicator \<and> regionalIndicatorCount state AND 1 \<noteq> 0 then False
     else True)"

section \<open>ASCII fast paths\<close>

definition nextAsciiBoundary :: "byte list \<Rightarrow> nat \<Rightarrow> BoundaryResult" where
  "nextAsciiBoundary text offset =
    (let current = text ! offset in
     if current \<ge> 0x80 then boundary offset InvalidOffset
     else let previousIsAscii = (offset = 0 \<or> text ! (offset - 1) < 0x80) in
     if \<not> previousIsAscii then boundary offset InvalidOffset
     else if current = 0x0D \<and> offset + 1 < length text \<and> text ! (offset + 1) = 0x0A then boundary (offset + 2) Found
     else let currentIsControl = (current \<le> 0x1F \<or> current = 0x7F);
              nextIsAscii = (offset + 1 = length text \<or> text ! (offset + 1) < 0x80) in
     if currentIsControl \<or> nextIsAscii then boundary (offset + 1) Found
     else boundary offset InvalidOffset)"

definition previousAsciiBoundary :: "byte list \<Rightarrow> nat \<Rightarrow> BoundaryResult" where
  "previousAsciiBoundary text offset =
    (let previousOffset = offset - 1; previous = text ! previousOffset in
     if previous \<ge> 0x80 then boundary offset InvalidOffset
     else if previous = 0x0A \<and> previousOffset > 0 \<and> text ! (previousOffset - 1) = 0x0D then boundary (previousOffset - 1) Found
     else let beforePreviousIsAscii = (previousOffset = 0 \<or> text ! (previousOffset - 1) < 0x80) in
     if beforePreviousIsAscii then boundary previousOffset Found
     else boundary offset InvalidOffset)"

section \<open>Restart points\<close>

definition isGuaranteedBreak :: "UnicodeProperties \<Rightarrow> UnicodeProperties \<Rightarrow> bool" where
  "isGuaranteedBreak previous current =
    (let p = graphemeBreak previous; c = graphemeBreak current in
     if p = CR \<and> c = LF then False
     else if isControlClass p \<or> isControlClass c then True
     else if p = GB_L \<and> (c = GB_L \<or> c = GB_V \<or> c = LV \<or> c = LVT) then False
     else if (p = LV \<or> p = GB_V) \<and> (c = GB_V \<or> c = GB_T) then False
     else if (p = LVT \<or> p = GB_T) \<and> c = GB_T then False
     else if c = Extend \<or> c = ZWJ \<or> c = SpacingMark \<or> p = Prepend then False
     else if indicConjunctBreak current = Consonant \<or> extendedPictographic current \<or>
       (p = RegionalIndicator \<and> c = RegionalIndicator) then False
     else True)"

record RestartResult =
  restartOffset :: nat
  restartValid :: bool

function findSafeRestart_from :: "byte list \<Rightarrow> nat \<Rightarrow> nat \<Rightarrow> RestartResult" where
  "findSafeRestart_from text scalarOffset currentOffset =
    (if currentOffset > 0 then
       let currentDecoded = decodeUtf8Scalar (substr_from text currentOffset) in
       if outcome8 currentDecoded \<noteq> Decoded then \<lparr>restartOffset = scalarOffset, restartValid = False\<rparr>
       else let previousDecoded = decodePreviousUtf8Scalar text currentOffset in
       if outcome8 (previous_decoded previousDecoded) \<noteq> Decoded then \<lparr>restartOffset = scalarOffset, restartValid = False\<rparr>
       else let previousProperties = unicodeProperties (scalar8 (previous_decoded previousDecoded));
                currentProperties = unicodeProperties (scalar8 currentDecoded) in
       if isGuaranteedBreak previousProperties currentProperties
       then \<lparr>restartOffset = currentOffset, restartValid = True\<rparr>
       else findSafeRestart_from text scalarOffset (startOffset previousDecoded)
     else \<lparr>restartOffset = 0, restartValid = True\<rparr>)"
  by pat_completeness auto
termination
proof (relation "measure (\<lambda>(text, scalarOffset, currentOffset). currentOffset)", goal_cases)
  case (2 t s i cd pd pp cp)
  then obtain pre c where "isScalarValue c" "i \<le> length t" "take i t = pre @ utf8_encoding c" "startOffset pd = length pre"
    using decodePrevious_Decoded [of t i] by (metis PreviousUtf8ScalarResult.select_convs(2))
  then have "i = startOffset pd + utf8EncodedLength c" by (metis length_append length_take length_utf8_encoding min.absorb2)
  moreover have "0 < utf8EncodedLength c" by (simp add: utf8EncodedLength_def)
  ultimately show ?case by simp
qed simp

definition findSafeRestart :: "byte list \<Rightarrow> nat \<Rightarrow> RestartResult" where
  "findSafeRestart text scalarOffset = findSafeRestart_from text scalarOffset scalarOffset"

section \<open>Forward scans\<close>

function visit_from :: "byte list \<Rightarrow> (nat \<Rightarrow> 's \<Rightarrow> 's) \<Rightarrow> nat \<Rightarrow> UnicodeProperties \<Rightarrow> GraphemeState \<Rightarrow> 's \<Rightarrow> bool \<times> 's" where
  "visit_from text visitor currentOffset previousProperties state captured =
    (if currentOffset < length text then
       let currentDecoded = decodeUtf8Scalar (substr_from text currentOffset) in
       if outcome8 currentDecoded \<noteq> Decoded then (False, captured)
       else let currentProperties = unicodeProperties (scalar8 currentDecoded);
                captured' = (if shouldBreak previousProperties currentProperties state
                             then visitor currentOffset captured else captured)
       in visit_from text visitor (currentOffset + bytesConsumed currentDecoded) currentProperties
            (consume state currentProperties) captured'
     else (True, visitor (length text) captured))"
  by pat_completeness auto
termination
  by (relation "measure (\<lambda>(text, visitor, currentOffset, _). length text - currentOffset)")
    (use utf8.decode_split(2) in \<open>fastforce+\<close>)

definition visitGraphemeBoundaries :: "byte list \<Rightarrow> (nat \<Rightarrow> 's \<Rightarrow> 's) \<Rightarrow> 's \<Rightarrow> bool \<times> 's" where
  "visitGraphemeBoundaries text visitor captured =
    (let captured = visitor 0 captured in
     if text = [] then (True, captured)
     else let previousDecoded = decodeUtf8Scalar text in
     if outcome8 previousDecoded \<noteq> Decoded then (False, captured)
     else let previousProperties = unicodeProperties (scalar8 previousDecoded)
       in visit_from text visitor (bytesConsumed previousDecoded) previousProperties
            (consume initial_state previousProperties) captured)"

function scanNext_from :: "byte list \<Rightarrow> nat \<Rightarrow> nat \<Rightarrow> UnicodeProperties \<Rightarrow> GraphemeState \<Rightarrow> BoundaryResult" where
  "scanNext_from text targetOffset currentOffset previousProperties state =
    (if currentOffset < length text then
       let currentDecoded = decodeUtf8Scalar (substr_from text currentOffset) in
       if outcome8 currentDecoded \<noteq> Decoded then boundary targetOffset B_InvalidEncoding
       else let currentProperties = unicodeProperties (scalar8 currentDecoded) in
       if shouldBreak previousProperties currentProperties state \<and> currentOffset > targetOffset
       then boundary currentOffset Found
       else scanNext_from text targetOffset (currentOffset + bytesConsumed currentDecoded) currentProperties
              (consume state currentProperties)
     else boundary (length text) Found)"
  by pat_completeness auto
termination
  by (relation "measure (\<lambda>(text, targetOffset, currentOffset, _). length text - currentOffset)")
    (use utf8.decode_split(2) in \<open>fastforce+\<close>)

definition scanNextFrom :: "byte list \<Rightarrow> nat \<Rightarrow> nat \<Rightarrow> BoundaryResult" where
  "scanNextFrom text restart targetOffset =
    (let previousDecoded = decodeUtf8Scalar (substr_from text restart) in
     if outcome8 previousDecoded \<noteq> Decoded then boundary targetOffset B_InvalidEncoding
     else let previousProperties = unicodeProperties (scalar8 previousDecoded)
       in scanNext_from text targetOffset (restart + bytesConsumed previousDecoded) previousProperties
            (consume initial_state previousProperties))"

function scanPrevious_from :: "byte list \<Rightarrow> nat \<Rightarrow> nat \<Rightarrow> nat \<Rightarrow> UnicodeProperties \<Rightarrow> GraphemeState \<Rightarrow> BoundaryResult" where
  "scanPrevious_from text targetOffset previousBoundary currentOffset previousProperties state =
    (if currentOffset < length text then
       let currentDecoded = decodeUtf8Scalar (substr_from text currentOffset) in
       if outcome8 currentDecoded \<noteq> Decoded then boundary targetOffset B_InvalidEncoding
       else let currentProperties = unicodeProperties (scalar8 currentDecoded);
                breaks = shouldBreak previousProperties currentProperties state in
       if breaks \<and> currentOffset \<ge> targetOffset then boundary previousBoundary Found
       else scanPrevious_from text targetOffset (if breaks then currentOffset else previousBoundary)
              (currentOffset + bytesConsumed currentDecoded) currentProperties (consume state currentProperties)
     else boundary previousBoundary Found)"
  by pat_completeness auto
termination
  by (relation "measure (\<lambda>(text, targetOffset, previousBoundary, currentOffset, _). length text - currentOffset)")
    (use utf8.decode_split(2) in \<open>fastforce+\<close>)

definition scanPreviousFrom :: "byte list \<Rightarrow> nat \<Rightarrow> nat \<Rightarrow> BoundaryResult" where
  "scanPreviousFrom text restart targetOffset =
    (let previousDecoded = decodeUtf8Scalar (substr_from text restart) in
     if outcome8 previousDecoded \<noteq> Decoded then boundary targetOffset B_InvalidEncoding
     else let previousProperties = unicodeProperties (scalar8 previousDecoded)
       in scanPrevious_from text targetOffset restart (restart + bytesConsumed previousDecoded) previousProperties
            (consume initial_state previousProperties))"

declare findSafeRestart_from.simps [simp del] visit_from.simps [simp del] scanNext_from.simps [simp del]
  scanPrevious_from.simps [simp del]

section \<open>Boundary queries\<close>

definition nextGraphemeBoundary :: "byte list \<Rightarrow> nat \<Rightarrow> BoundaryResult" where
  "nextGraphemeBoundary text offset =
    (if offset > length text then boundary offset InvalidOffset
     else if offset < length text \<and> isContinuationByte (text ! offset) then boundary offset InvalidOffset
     else if offset = length text then
       (if validationOutcome8 (Utf8_validate text) \<noteq> V_Valid then boundary offset B_InvalidEncoding
        else boundary offset AtEnd)
     else if text ! offset < 0x80 \<and> boundaryOutcome (nextAsciiBoundary text offset) = Found
     then nextAsciiBoundary text offset
     else let restart = findSafeRestart text offset in
       if \<not> restartValid restart then boundary offset B_InvalidEncoding
       else scanNextFrom text (restartOffset restart) offset)"

definition previousGraphemeBoundary :: "byte list \<Rightarrow> nat \<Rightarrow> BoundaryResult" where
  "previousGraphemeBoundary text offset =
    (if offset > length text then boundary offset InvalidOffset
     else if offset < length text \<and> isContinuationByte (text ! offset) then boundary offset InvalidOffset
     else if offset = 0 then boundary 0 AtBeginning
     else if text ! (offset - 1) < 0x80 \<and> boundaryOutcome (previousAsciiBoundary text offset) = Found
     then previousAsciiBoundary text offset
     else let previousScalar = decodePreviousUtf8Scalar text offset in
       if outcome8 (previous_decoded previousScalar) \<noteq> Decoded then boundary offset B_InvalidEncoding
       else let restart = findSafeRestart text (startOffset previousScalar) in
       if \<not> restartValid restart then boundary offset B_InvalidEncoding
       else scanPreviousFrom text (restartOffset restart) offset)"

section \<open>The rule context against the rules\<close>

text \<open>
  The rules GB9c, GB11, GB12 and GB13 speak about the whole text before the boundary. \<open>uax29_break\<close> states
  them that way, over the properties of the preceding scalars; the streaming context is shown to carry
  exactly the information they need.
\<close>

definition conjunct_before :: "UnicodeProperties list \<Rightarrow> bool" where
  "conjunct_before ps \<longleftrightarrow> (\<exists>pre c mid. ps = pre @ c # mid \<and> indicConjunctBreak c = Consonant \<and>
     (\<forall>m \<in> set mid. indicConjunctBreak m = I_Extend \<or> indicConjunctBreak m = Linker) \<and>
     (\<exists>m \<in> set mid. indicConjunctBreak m = Linker))"

definition emoji_zwj_before :: "UnicodeProperties list \<Rightarrow> bool" where
  "emoji_zwj_before ps \<longleftrightarrow> (\<exists>pre e mid z. ps = pre @ e # mid @ [z] \<and> extendedPictographic e \<and>
     (\<forall>m \<in> set mid. graphemeBreak m = Extend) \<and> graphemeBreak z = ZWJ)"

definition regional_run :: "UnicodeProperties list \<Rightarrow> nat" where
  "regional_run ps = length (takeWhile (\<lambda>p. graphemeBreak p = RegionalIndicator) (rev ps))"

definition uax29_break :: "UnicodeProperties list \<Rightarrow> UnicodeProperties \<Rightarrow> bool" where
  "uax29_break ps current \<longleftrightarrow>
    (let p = graphemeBreak (last ps); c = graphemeBreak current in
     \<not> (p = CR \<and> c = LF) \<and>
     (p \<in> {Control, CR, LF} \<or> c \<in> {Control, CR, LF} \<or>
      \<not> (p = GB_L \<and> c \<in> {GB_L, GB_V, LV, LVT} \<or> p \<in> {LV, GB_V} \<and> c \<in> {GB_V, GB_T} \<or> p \<in> {LVT, GB_T} \<and> c = GB_T \<or>
         c \<in> {Extend, ZWJ, SpacingMark} \<or> p = Prepend \<or>
         indicConjunctBreak current = Consonant \<and> conjunct_before ps \<or>
         extendedPictographic current \<and> emoji_zwj_before ps \<or>
         c = RegionalIndicator \<and> odd (regional_run ps))))"

definition context_after :: "UnicodeProperties list \<Rightarrow> GraphemeState" where
  "context_after ps = foldl consume initial_state ps"

lemma context_after_snoc [simp]: "context_after (ps @ [p]) = consume (context_after ps) p"
  by (simp add: context_after_def)

lemma context_after_Nil [simp]: "context_after [] = initial_state"
  by (simp add: context_after_def)

definition consonant_open :: "UnicodeProperties list \<Rightarrow> bool" where
  "consonant_open ps \<longleftrightarrow> (\<exists>pre c mid. ps = pre @ c # mid \<and> indicConjunctBreak c = Consonant \<and>
     (\<forall>m \<in> set mid. indicConjunctBreak m = I_Extend \<or> indicConjunctBreak m = Linker))"

definition emoji_open :: "UnicodeProperties list \<Rightarrow> bool" where
  "emoji_open ps \<longleftrightarrow> (\<exists>pre e mid. ps = pre @ e # mid \<and> extendedPictographic e \<and> (\<forall>m \<in> set mid. graphemeBreak m = Extend))"

lemma snoc_split_iff:
  "(\<exists>pre c mid. ps @ [p] = pre @ c # mid \<and> Q c mid) \<longleftrightarrow>
    Q p [] \<or> (\<exists>pre c mid. ps = pre @ c # mid \<and> Q c (mid @ [p]))"
proof
  assume "\<exists>pre c mid. ps @ [p] = pre @ c # mid \<and> Q c mid"
  then obtain pre c mid where *: "ps @ [p] = pre @ c # mid" "Q c mid" by blast
  then show "Q p [] \<or> (\<exists>pre c mid. ps = pre @ c # mid \<and> Q c (mid @ [p]))"
    by (cases mid rule: rev_cases) auto
next
  assume "Q p [] \<or> (\<exists>pre c mid. ps = pre @ c # mid \<and> Q c (mid @ [p]))"
  then show "\<exists>pre c mid. ps @ [p] = pre @ c # mid \<and> Q c mid"
    by (metis Cons_eq_append_conv append.assoc append_Cons)
qed

lemma consonant_open_snoc:
  "consonant_open (ps @ [p]) \<longleftrightarrow> indicConjunctBreak p = Consonant \<or>
    (consonant_open ps \<and> (indicConjunctBreak p = I_Extend \<or> indicConjunctBreak p = Linker))"
  unfolding consonant_open_def snoc_split_iff by auto

lemma conjunct_before_snoc:
  "conjunct_before (ps @ [p]) \<longleftrightarrow>
    (conjunct_before ps \<and> indicConjunctBreak p = I_Extend) \<or> (consonant_open ps \<and> indicConjunctBreak p = Linker)"
  unfolding conjunct_before_def consonant_open_def snoc_split_iff
  by (cases "indicConjunctBreak p"; simp; blast)

lemma conjunct_before_open: "conjunct_before ps \<Longrightarrow> consonant_open ps"
  unfolding conjunct_before_def consonant_open_def by blast

lemma emoji_open_snoc:
  "emoji_open (ps @ [p]) \<longleftrightarrow> extendedPictographic p \<or> (emoji_open ps \<and> graphemeBreak p = Extend)"
  unfolding emoji_open_def snoc_split_iff by auto

lemma not_open_Nil [simp]: "\<not> emoji_open []" "\<not> emoji_zwj_before []" "\<not> consonant_open []" "\<not> conjunct_before []"
  by (simp_all add: emoji_open_def emoji_zwj_before_def consonant_open_def conjunct_before_def)

lemma emoji_zwj_before_snoc:
  "emoji_zwj_before (ps @ [p]) \<longleftrightarrow> emoji_open ps \<and> graphemeBreak p = ZWJ"
  unfolding emoji_zwj_before_def emoji_open_def by (auto simp flip: append_assoc append_Cons)

lemma indic_context:
  "indic (context_after ps) =
    (if conjunct_before ps then IS_Linked else if consonant_open ps then IS_Consonant else IS_None)"
proof (induction ps rule: rev_induct)
  case Nil
  show ?case by (simp add: initial_state_def)
next
  case (snoc p ps)
  then show ?case
    by (cases "indicConjunctBreak p")
      (auto simp: consume_def consonant_open_snoc conjunct_before_snoc dest: conjunct_before_open)
qed

lemma emoji_context:
  assumes "list_all properties_ok ps"
  shows "emoji (context_after ps) =
    (if emoji_zwj_before ps then ES_ExtendedPictographicZwj else if emoji_open ps then ES_ExtendedPictographic else ES_None)"
  using assms
proof (induction ps rule: rev_induct)
  case Nil
  show ?case by (simp add: initial_state_def)
next
  case (snoc p ps)
  have "\<not> (emoji_zwj_before ps \<and> emoji_open ps)"
  proof (cases ps rule: rev_cases)
    case (snoc qs q)
    with snoc.prems have "extendedPictographic q \<longrightarrow> graphemeBreak q = Other" by (simp add: properties_ok_def)
    then show ?thesis unfolding snoc emoji_open_snoc emoji_zwj_before_snoc by auto
  qed simp
  moreover have "extendedPictographic p \<longrightarrow> graphemeBreak p = Other"
    using snoc.prems by (simp add: properties_ok_def)
  moreover have "emoji (context_after ps) =
      (if emoji_zwj_before ps then ES_ExtendedPictographicZwj else if emoji_open ps then ES_ExtendedPictographic else ES_None)"
    using snoc by simp
  ultimately show ?case
    unfolding context_after_snoc emoji_open_snoc emoji_zwj_before_snoc consume_def by auto
qed

lemma regional_context: "regionalIndicatorCount (context_after ps) = regional_run ps"
  by (induction ps rule: rev_induct) (simp_all add: initial_state_def regional_run_def consume_def)

lemma regional_run_last: "ps \<noteq> [] \<Longrightarrow> 0 < regional_run ps \<longleftrightarrow> graphemeBreak (last ps) = RegionalIndicator"
  by (cases ps rule: rev_cases) (simp_all add: regional_run_def)

lemma shouldBreak_uax29:
  assumes "list_all properties_ok ps" "ps \<noteq> []"
  shows "shouldBreak (last ps) current (context_after ps) \<longleftrightarrow> uax29_break ps current"
proof -
  have linked: "indic (context_after ps) = IS_Linked \<longleftrightarrow> conjunct_before ps" by (simp add: indic_context)
  have zwj: "emoji (context_after ps) = ES_ExtendedPictographicZwj \<longleftrightarrow> emoji_zwj_before ps"
    using emoji_context [OF assms(1)] by simp
  have ri: "graphemeBreak (last ps) = RegionalIndicator \<and> regionalIndicatorCount (context_after ps) AND 1 \<noteq> 0 \<longleftrightarrow> odd (regional_run ps)"
    unfolding regional_context and_one_eq odd_iff_mod_2_eq_one regional_run_last [OF assms(2), symmetric] by (metis gr0I mod_0 not_mod_2_eq_1_eq_0 zero_neq_one)
  show ?thesis
    unfolding shouldBreak_def uax29_break_def Let_def isControlClass_def linked zwj using ri by auto
qed


section \<open>Segmentation of a scalar sequence\<close>

text \<open>
  A text is a sequence of scalars \<open>ss\<close>; its candidate boundaries are the indices \<open>0, \<dots>, length ss\<close>. \<open>is_boundary\<close>
  is the complete left-to-right segmentation, which the queries reproduce without scanning from the start.
\<close>

abbreviation context_at :: "char32 list \<Rightarrow> nat \<Rightarrow> GraphemeState" where
  "context_at ss i \<equiv> context_after (map unicodeProperties (take i ss))"

definition break_at :: "char32 list \<Rightarrow> nat \<Rightarrow> bool" where
  "break_at ss i \<longleftrightarrow> shouldBreak (unicodeProperties (ss ! (i - 1))) (unicodeProperties (ss ! i)) (context_at ss i)"

definition is_boundary :: "char32 list \<Rightarrow> nat \<Rightarrow> bool" where
  "is_boundary ss i \<longleftrightarrow> i = 0 \<or> i = length ss \<or> (i < length ss \<and> break_at ss i)"

definition grapheme_boundaries :: "char32 list \<Rightarrow> nat list" where
  "grapheme_boundaries ss = map (cp_offset ss) (filter (is_boundary ss) [0..<Suc (length ss)])"

lemma context_at_Suc: "i < length ss \<Longrightarrow> context_at ss (Suc i) = consume (context_at ss i) (unicodeProperties (ss ! i))"
  by (simp add: take_Suc_conv_app_nth)

lemma break_at_uax29:
  assumes "0 < i" "i < length ss"
  shows "break_at ss i \<longleftrightarrow> uax29_break (map unicodeProperties (take i ss)) (unicodeProperties (ss ! i))"
proof -
  have ne: "ss \<noteq> []" using assms by auto
  with assms have "last (map unicodeProperties (take i ss)) = unicodeProperties (ss ! (i - 1))"
    by (simp add: last_map last_conv_nth min_def)
  with ne show ?thesis
    using shouldBreak_uax29 [of "map unicodeProperties (take i ss)"] assms unicodeProperties_ok
    by (auto simp: break_at_def list_all_iff)
qed

lemma guaranteed_cases:
  assumes "isGuaranteedBreak p c"
  shows "isControlClass (graphemeBreak p) \<or> isControlClass (graphemeBreak c) \<or>
    graphemeBreak c \<noteq> Extend \<and> graphemeBreak c \<noteq> ZWJ \<and> indicConjunctBreak c \<noteq> Consonant \<and> \<not> extendedPictographic c \<and>
    \<not> (graphemeBreak p = RegionalIndicator \<and> graphemeBreak c = RegionalIndicator)"
  using assms unfolding isGuaranteedBreak_def Let_def by argo

lemma guaranteed_breaks: "isGuaranteedBreak p c \<Longrightarrow> shouldBreak p c s"
  unfolding isGuaranteedBreak_def shouldBreak_def Let_def by argo

lemma control_plain:
  "properties_ok p \<Longrightarrow> isControlClass (graphemeBreak p) \<Longrightarrow>
    indicConjunctBreak p = I_None \<and> \<not> extendedPictographic p \<and> graphemeBreak p \<notin> {Extend, ZWJ, RegionalIndicator}"
  by (cases "indicConjunctBreak p") (auto simp: properties_ok_def isControlClass_def)

lemma consume_control:
  "properties_ok p \<Longrightarrow> isControlClass (graphemeBreak p) \<Longrightarrow> consume s p = initial_state"
  using control_plain [of p] by (simp add: consume_def initial_state_def)

text \<open>After a guaranteed break the context no longer depends on what came before it.\<close>

lemma consume_forgets:
  assumes g: "isGuaranteedBreak p c" and ok: "properties_ok p" "properties_ok c"
  shows "consume (consume s p) c = consume initial_state c"
  using guaranteed_cases [OF g]
proof (elim disjE)
  assume "isControlClass (graphemeBreak p)"
  then show ?thesis using ok by (simp add: consume_control)
next
  assume "isControlClass (graphemeBreak c)"
  then show ?thesis using ok by (simp add: consume_control)
next
  assume *: "graphemeBreak c \<noteq> Extend \<and> graphemeBreak c \<noteq> ZWJ \<and> indicConjunctBreak c \<noteq> Consonant \<and> \<not> extendedPictographic c \<and>
    \<not> (graphemeBreak p = RegionalIndicator \<and> graphemeBreak c = RegionalIndicator)"
  with ok(2) have "indicConjunctBreak c = I_None"
    by (cases "indicConjunctBreak c") (simp_all add: properties_ok_def)
  with * show ?thesis by (auto simp: consume_def initial_state_def)
qed

definition restart_point :: "char32 list \<Rightarrow> nat \<Rightarrow> bool" where
  "restart_point ss j \<longleftrightarrow> j = 0 \<or> isGuaranteedBreak (unicodeProperties (ss ! (j - 1))) (unicodeProperties (ss ! j))"

lemma restart_point_context:
  assumes "restart_point ss j" "j < length ss"
  shows "consume initial_state (unicodeProperties (ss ! j)) = context_at ss (Suc j)"
proof (cases j)
  case 0
  with assms show ?thesis by (simp add: context_at_Suc)
next
  case (Suc i)
  with assms show ?thesis
    using consume_forgets [OF _ unicodeProperties_ok unicodeProperties_ok]
    by (simp add: context_at_Suc restart_point_def)
qed

lemma restart_point_boundary: "restart_point ss j \<Longrightarrow> j < length ss \<Longrightarrow> is_boundary ss j"
  by (auto simp: restart_point_def is_boundary_def break_at_def intro: guaranteed_breaks)

section \<open>The loops on well-formed text\<close>

lemma findSafeRestart_cp:
  assumes "list_all isScalarValue ss" "j < length ss"
  shows "\<exists>m \<le> j. restart_point ss m \<and>
    findSafeRestart_from (utf8_text ss) s (cp_offset ss j) = \<lparr>restartOffset = cp_offset ss m, restartValid = True\<rparr>"
  using assms(2)
proof (induction j)
  case 0
  show ?case by (rule exI [of _ 0]) (simp add: restart_point_def findSafeRestart_from.simps)
next
  case (Suc j)
  then have j: "j < length ss" and pos: "0 < cp_offset ss (Suc j)"
    using cp_offset_less [OF assms(1), of "Suc j" 0] by simp_all
  have step: "findSafeRestart_from (utf8_text ss) s (cp_offset ss (Suc j)) =
      (if restart_point ss (Suc j) then \<lparr>restartOffset = cp_offset ss (Suc j), restartValid = True\<rparr>
       else findSafeRestart_from (utf8_text ss) s (cp_offset ss j))"
    using pos decode_cp [OF Suc.prems assms(1)] decodePrevious_cp [OF j assms(1)]
    by (subst findSafeRestart_from.simps) (simp add: restart_point_def Let_def)
  show ?case
  proof (cases "restart_point ss (Suc j)")
    case True
    with step show ?thesis by auto
  next
    case False
    with Suc.IH [OF j] step show ?thesis by (metis le_SucI)
  qed
qed

lemma scan_step:
  assumes "list_all isScalarValue ss" "k < length ss"
  shows "cp_offset ss k < length (utf8_text ss)"
    and "decodeUtf8Scalar (drop (cp_offset ss k) (utf8_text ss)) = decoded8 (ss ! k) (utf8EncodedLength (ss ! k))"
    and "cp_offset ss k + utf8EncodedLength (ss ! k) = cp_offset ss (Suc k)"
    and "0 < k \<Longrightarrow> shouldBreak (unicodeProperties (ss ! (k - 1))) (unicodeProperties (ss ! k)) (context_at ss k) = is_boundary ss k"
  using cp_lead(1) [OF assms(2,1)] decode_cp [OF assms(2,1)] cp_split(2) [OF assms(2,1)] assms(2)
  by (simp_all add: is_boundary_def break_at_def)

lemma scanNext_cp:
  assumes "list_all isScalarValue ss" "i < length ss" "0 < k" "k \<le> length ss"
  shows "\<exists>m. k \<le> m \<and> m \<le> length ss \<and> is_boundary ss m \<and> i < m \<and> (\<forall>m'. k \<le> m' \<and> m' < m \<and> is_boundary ss m' \<longrightarrow> m' \<le> i) \<and>
    scanNext_from (utf8_text ss) (cp_offset ss i) (cp_offset ss k) (unicodeProperties (ss ! (k - 1))) (context_at ss k)
      = boundary (cp_offset ss m) Found"
  using assms(3,4)
proof (induction "length ss - k" arbitrary: k)
  case 0
  then have "k = length ss" by simp
  then show ?case using assms(2) by (intro exI [of _ k]) (simp add: scanNext_from.simps is_boundary_def)
next
  case (Suc n)
  then have k: "k < length ss" by simp
  note step = scan_step [OF assms(1) k]
  have eq: "scanNext_from (utf8_text ss) (cp_offset ss i) (cp_offset ss k) (unicodeProperties (ss ! (k - 1))) (context_at ss k) =
      (if is_boundary ss k \<and> i < k then boundary (cp_offset ss k) Found
       else scanNext_from (utf8_text ss) (cp_offset ss i) (cp_offset ss (Suc k)) (unicodeProperties (ss ! (Suc k - 1))) (context_at ss (Suc k)))"
    using Suc.prems k step cp_offset_less_iff [OF assms(1), of i k] assms(2)
    by (subst scanNext_from.simps) (simp add: context_at_Suc Let_def)
  show ?case
  proof (cases "is_boundary ss k \<and> i < k")
    case True
    with eq k show ?thesis by (intro exI [of _ k]) auto
  next
    case False
    from Suc.hyps(2) have "n = length ss - Suc k" by simp
    from Suc.hyps(1) [OF this] k obtain m where m: "Suc k \<le> m" "m \<le> length ss" "is_boundary ss m" "i < m"
        "\<forall>m'. Suc k \<le> m' \<and> m' < m \<and> is_boundary ss m' \<longrightarrow> m' \<le> i"
        "scanNext_from (utf8_text ss) (cp_offset ss i) (cp_offset ss (Suc k)) (unicodeProperties (ss ! (Suc k - 1))) (context_at ss (Suc k))
          = boundary (cp_offset ss m) Found"
      by auto
    have "\<forall>m'. k \<le> m' \<and> m' < m \<and> is_boundary ss m' \<longrightarrow> m' \<le> i"
      using m(5) False by (metis Suc_leI le_neq_implies_less not_le)
    with m False eq show ?thesis by (intro exI [of _ m]) auto
  qed
qed


lemma scanPrevious_cp:
  assumes "list_all isScalarValue ss" "i \<le> length ss"
    and "0 < k" "k \<le> length ss" "is_boundary ss b" "b < i" "b < k" "\<forall>m'. m' < k \<and> m' < i \<and> is_boundary ss m' \<longrightarrow> m' \<le> b"
  shows "\<exists>m. m < i \<and> is_boundary ss m \<and> (\<forall>m'. m' < i \<and> is_boundary ss m' \<longrightarrow> m' \<le> m) \<and>
    scanPrevious_from (utf8_text ss) (cp_offset ss i) (cp_offset ss b) (cp_offset ss k) (unicodeProperties (ss ! (k - 1))) (context_at ss k)
      = boundary (cp_offset ss m) Found"
  using assms(3-)
proof (induction "length ss - k" arbitrary: k b)
  case 0
  then have "k = length ss" by simp
  then show ?case using 0 assms(2) by (intro exI [of _ b]) (auto simp: scanPrevious_from.simps)
next
  case (Suc n)
  then have k: "k < length ss" by simp
  note step = scan_step [OF assms(1) k]
  let ?b = "if is_boundary ss k then k else b"
  have eq: "scanPrevious_from (utf8_text ss) (cp_offset ss i) (cp_offset ss b) (cp_offset ss k) (unicodeProperties (ss ! (k - 1))) (context_at ss k) =
      (if is_boundary ss k \<and> i \<le> k then boundary (cp_offset ss b) Found
       else scanPrevious_from (utf8_text ss) (cp_offset ss i) (cp_offset ss ?b) (cp_offset ss (Suc k))
         (unicodeProperties (ss ! (Suc k - 1))) (context_at ss (Suc k)))"
    using Suc.prems k step cp_offset_less_iff [OF assms(1), of k i] assms(2)
    by (subst scanPrevious_from.simps) (simp add: context_at_Suc Let_def not_less flip: not_less)
  show ?case
  proof (cases "is_boundary ss k \<and> i \<le> k")
    case True
    with eq Suc.prems show ?thesis by (intro exI [of _ b]) auto
  next
    case False
    have "n = length ss - Suc k" using Suc.hyps(2) by simp
    moreover have "is_boundary ss ?b" "?b < i" "?b < Suc k" using False Suc.prems by auto
    moreover have "\<forall>m'. m' < Suc k \<and> m' < i \<and> is_boundary ss m' \<longrightarrow> m' \<le> ?b"
      using Suc.prems by (auto simp: less_Suc_eq)
    ultimately show ?thesis using Suc.hyps(1) [of "Suc k" ?b] k False eq by auto
  qed
qed

lemma visit_cp:
  assumes "list_all isScalarValue ss" "0 < k" "k \<le> length ss"
  shows "visit_from (utf8_text ss) f (cp_offset ss k) (unicodeProperties (ss ! (k - 1))) (context_at ss k) s =
    (True, fold f (map (cp_offset ss) (filter (is_boundary ss) [k..<Suc (length ss)])) s)"
  using assms(2,3)
proof (induction "length ss - k" arbitrary: k s)
  case 0
  then have "k = length ss" by simp
  then show ?case by (simp add: visit_from.simps is_boundary_def)
next
  case (Suc n)
  then have k: "k < length ss" by simp
  note step = scan_step [OF assms(1) k]
  have eq: "visit_from (utf8_text ss) f (cp_offset ss k) (unicodeProperties (ss ! (k - 1))) (context_at ss k) s =
      visit_from (utf8_text ss) f (cp_offset ss (Suc k)) (unicodeProperties (ss ! (Suc k - 1))) (context_at ss (Suc k))
        (if is_boundary ss k then f (cp_offset ss k) s else s)"
    using Suc.prems k step by (subst visit_from.simps) (simp add: context_at_Suc Let_def)
  have "[k..<Suc (length ss)] = k # [Suc k..<Suc (length ss)]" using k by (simp add: upt_conv_Cons)
  moreover have "n = length ss - Suc k" using Suc.hyps(2) by simp
  ultimately show ?case using Suc.hyps(1) [of "Suc k"] k eq by simp
qed

lemma visitGraphemeBoundaries_text:
  assumes "list_all isScalarValue ss"
  shows "visitGraphemeBoundaries (utf8_text ss) f s = (True, fold f (grapheme_boundaries ss) s)"
proof (cases ss)
  case Nil
  then show ?thesis by (simp add: visitGraphemeBoundaries_def grapheme_boundaries_def is_boundary_def)
next
  case (Cons c cs)
  then have pos: "0 < length ss" by simp
  note step = scan_step [OF assms pos]
  have upt: "[0..<Suc (length ss)] = 0 # [Suc 0..<Suc (length ss)]" by (rule upt_conv_Cons) simp
  have bounds: "grapheme_boundaries ss = 0 # map (cp_offset ss) (filter (is_boundary ss) [Suc 0..<Suc (length ss)])"
    unfolding grapheme_boundaries_def upt by (simp add: is_boundary_def)
  have ne: "utf8_text ss \<noteq> []" using step(1) by fastforce
  have first: "decodeUtf8Scalar (utf8_text ss) = decoded8 (ss ! 0) (cp_offset ss (Suc 0))"
    using step(2,3) by simp
  have "visitGraphemeBoundaries (utf8_text ss) f s =
      visit_from (utf8_text ss) f (cp_offset ss (Suc 0)) (unicodeProperties (ss ! (Suc 0 - 1))) (context_at ss (Suc 0)) (f 0 s)"
    using ne pos by (simp only: visitGraphemeBoundaries_def Let_def first context_at_Suc) simp
  also have "\<dots> = (True, fold f (map (cp_offset ss) (filter (is_boundary ss) [Suc 0..<Suc (length ss)])) (f 0 s))"
    by (rule visit_cp [OF assms _ Suc_leI [OF pos]]) simp
  finally show ?thesis unfolding bounds by (simp del: upt.simps)
qed


section \<open>ASCII scalars inside a text\<close>

lemma ascii_encoding:
  assumes "isScalarValue c"
  obtains (ascii) b where "utf8_encoding c = [b]" "b < 0x80" "c = ucast b" "c \<le> 0x7F"
  | (multi) b bs e where "utf8_encoding c = b # bs @ [e]" "\<not> b < 0x80" "\<not> e < 0x80" "\<not> c \<le> 0x7F"
  using assms
proof (cases rule: utf8_encoding_cases)
  case one
  then obtain b where b: "utf8_encoding c = [b]" "unat b = unat c" by (auto simp: map_unat_eq_Cons)
  then have "c = ucast b" by (simp add: unat_eq_iff_nat unat_ucast_byte)
  with b one show ?thesis by (intro ascii [of b]) (simp_all add: word_le_nat_alt word_less_nat_alt)
next
  case two
  then obtain b e where "utf8_encoding c = b # [] @ [e]" "unat b = 192 + unat c div 64" "unat e = 128 + unat c mod 64"
    by (auto simp: map_unat_eq_Cons)
  with two show ?thesis by (intro multi) (auto simp add: word_le_nat_alt word_less_nat_alt)
next
  case three
  then obtain b d e where "utf8_encoding c = b # [d] @ [e]" "unat b = 224 + unat c div 4096" "unat e = 128 + unat c mod 64"
    by (auto simp: map_unat_eq_Cons)
  with three show ?thesis by (intro multi) (auto simp add: word_le_nat_alt word_less_nat_alt)
next
  case four
  then obtain b d d' e where "utf8_encoding c = b # [d, d'] @ [e]" "unat b = 240 + unat c div 262144" "unat e = 128 + unat c mod 64"
    by (auto simp: map_unat_eq_Cons)
  with four show ?thesis by (intro multi) (auto simp add: word_le_nat_alt word_less_nat_alt)
qed

lemma first_byte:
  assumes "list_all isScalarValue ss" "i < length ss"
  shows "utf8_text ss ! cp_offset ss i < 0x80 \<longleftrightarrow> ss ! i \<le> 0x7F"
    and "ss ! i \<le> 0x7F \<Longrightarrow> ucast (utf8_text ss ! cp_offset ss i) = ss ! i"
    and "ss ! i \<le> 0x7F \<Longrightarrow> cp_offset ss (Suc i) = cp_offset ss i + 1"
proof -
  have at: "utf8_text ss ! cp_offset ss i = hd (utf8_encoding (ss ! i))"
    using utf8.enc_nonempty [OF cp_split(3) [OF assms(2,1)]]
    unfolding cp_split(1) [OF assms(2,1)] by (simp add: cp_offset_def nth_append hd_conv_nth)
  from cp_split(3) [OF assms(2,1)]
  show "utf8_text ss ! cp_offset ss i < 0x80 \<longleftrightarrow> ss ! i \<le> 0x7F"
    and "ss ! i \<le> 0x7F \<Longrightarrow> ucast (utf8_text ss ! cp_offset ss i) = ss ! i"
    by (cases rule: ascii_encoding; simp add: at)+
  show "ss ! i \<le> 0x7F \<Longrightarrow> cp_offset ss (Suc i) = cp_offset ss i + 1"
    using cp_split(2) [OF assms(2,1)] by (simp add: utf8EncodedLength_def)
qed

lemma last_byte:
  assumes "list_all isScalarValue ss" "i < length ss"
  shows "utf8_text ss ! (cp_offset ss (Suc i) - 1) < 0x80 \<longleftrightarrow> ss ! i \<le> 0x7F"
proof -
  have "cp_offset ss (Suc i) - 1 = cp_offset ss i + (length (utf8_encoding (ss ! i)) - 1)"
    using cp_split(2,3) [OF assms(2,1)] utf8.enc_nonempty [OF cp_split(3) [OF assms(2,1)]]
    by (simp flip: length_greater_0_conv)
  then have at: "utf8_text ss ! (cp_offset ss (Suc i) - 1) = last (utf8_encoding (ss ! i))"
    using utf8.enc_nonempty [OF cp_split(3) [OF assms(2,1)]]
    unfolding cp_split(1) [OF assms(2,1)] by (simp add: cp_offset_def nth_append last_conv_nth)
  from cp_split(3) [OF assms(2,1)] show ?thesis unfolding at by (cases rule: ascii_encoding) simp_all
qed

lemma first_byte_eq:
  assumes "list_all isScalarValue ss" "i < length ss" "w < 0x80"
  shows "utf8_text ss ! cp_offset ss i = w \<longleftrightarrow> ss ! i = ucast w"
    and "ss ! i \<le> 0x7F \<Longrightarrow> utf8_text ss ! cp_offset ss i \<le> w \<longleftrightarrow> ss ! i \<le> ucast w"
proof -
  have w: "(ucast w :: char32) \<le> 0x7F"
    using assms(3) by (simp add: word_le_nat_alt word_less_nat_alt unat_ucast_byte)
  show "utf8_text ss ! cp_offset ss i = w \<longleftrightarrow> ss ! i = ucast w"
  proof (cases "ss ! i \<le> 0x7F")
    case True
    from first_byte(2) [OF assms(1,2) True] show ?thesis
      by (metis unat_eq_iff_nat unat_ucast_byte)
  next
    case False
    with first_byte(1) [OF assms(1,2)] assms(3) w show ?thesis by auto
  qed
  show "utf8_text ss ! cp_offset ss i \<le> w \<longleftrightarrow> ss ! i \<le> ucast w" if "ss ! i \<le> 0x7F"
    using first_byte(2) [OF assms(1,2) that] by (metis word_le_nat_alt unat_ucast_byte)
qed

lemma break_ascii_pair:
  assumes "ss ! (i - 1) \<le> 0x7F" "ss ! i \<le> 0x7F"
  shows "break_at ss i \<longleftrightarrow> \<not> (ss ! (i - 1) = 0x0D \<and> ss ! i = 0x0A)"
  using ascii_break [OF assms(1)] ascii_break [OF assms(2)]
  by (simp add: break_at_def shouldBreak_def Let_def isControlClass_def)

abbreviation control_scalar :: "char32 \<Rightarrow> bool" where
  "control_scalar c \<equiv> c \<le> 0x1F \<or> c = 0x7F"

lemma control_scalar_class: "control_scalar c \<Longrightarrow> isControlClass (graphemeBreak (unicodeProperties c))"
proof -
  assume c: "control_scalar c"
  then have "c \<le> 0x7F" using order_trans [of c "0x1F" "0x7F"] by auto
  with c ascii_break(1) show ?thesis by (auto simp: isControlClass_def)
qed

lemma break_control:
  assumes "control_scalar (ss ! (i - 1)) \<or> control_scalar (ss ! i)"
  shows "break_at ss i \<longleftrightarrow> \<not> (ss ! (i - 1) = 0x0D \<and> ss ! i = 0x0A)"
proof -
  have "isControlClass (graphemeBreak (unicodeProperties (ss ! (i - 1)))) \<or> isControlClass (graphemeBreak (unicodeProperties (ss ! i)))"
    using assms control_scalar_class by blast
  then show ?thesis unfolding break_at_def shouldBreak_def Let_def newline_break by argo
qed

lemma nextAscii_cp:
  assumes ss: "list_all isScalarValue ss" and i: "i < length ss"
    and found: "boundaryOutcome (nextAsciiBoundary (utf8_text ss) (cp_offset ss i)) = Found"
  shows "\<exists>m. i < m \<and> m \<le> length ss \<and> is_boundary ss m \<and> (\<forall>m'. i < m' \<and> m' < m \<longrightarrow> \<not> is_boundary ss m') \<and>
    nextAsciiBoundary (utf8_text ss) (cp_offset ss i) = boundary (cp_offset ss m) Found"
proof -
  have ascii: "ss ! i \<le> 0x7F"
    using found first_byte(1) [OF ss i] by (auto simp: nextAsciiBoundary_def Let_def not_le split: if_splits)
  note off = first_byte(3) [OF ss i ascii]
  have size: "cp_offset ss i + 1 < length (utf8_text ss) \<longleftrightarrow> Suc i < length ss"
    "cp_offset ss i + 1 = length (utf8_text ss) \<longleftrightarrow> Suc i = length ss"
    using cp_offset_less_iff [OF ss, of "Suc i" "length ss"] cp_offset_eq_iff [OF ss, of "Suc i" "length ss"] i off by simp_all
  have after: "utf8_text ss ! (cp_offset ss i + 1) = 0x0A \<longleftrightarrow> ss ! Suc i = 0x0A"
    "utf8_text ss ! (cp_offset ss i + 1) < 0x80 \<longleftrightarrow> ss ! Suc i \<le> 0x7F" if "Suc i < length ss"
    using first_byte_eq(1) [OF ss that, of "0x0A"] first_byte(1) [OF ss that] off by simp_all
  have seven: "\<not> utf8_text ss ! cp_offset ss i \<ge> 0x80" using first_byte(1) [OF ss i] ascii by (simp add: not_le)
  let ?ascii = "cp_offset ss i = 0 \<or> utf8_text ss ! (cp_offset ss i - 1) < 0x80"
  let ?crlf = "ss ! i = 0x0D \<and> Suc i < length ss \<and> ss ! Suc i = 0x0A"
  let ?single = "control_scalar (ss ! i) \<or> Suc i = length ss \<or> ss ! Suc i \<le> 0x7F"
  have crlf: "utf8_text ss ! cp_offset ss i = 0x0D \<and> cp_offset ss i + 1 < length (utf8_text ss) \<and> utf8_text ss ! (cp_offset ss i + 1) = 0x0A \<longleftrightarrow> ?crlf"
    using size(1) after(1) first_byte_eq(1) [OF ss i, of "0x0D"] by auto
  have low: "utf8_text ss ! cp_offset ss i \<le> 0x1F \<longleftrightarrow> ss ! i \<le> 0x1F" "utf8_text ss ! cp_offset ss i = 0x7F \<longleftrightarrow> ss ! i = 0x7F"
    using first_byte_eq(2) [OF ss i, of "0x1F"] first_byte_eq(1) [OF ss i, of "0x7F"] ascii by simp_all
  have follow: "cp_offset ss i + 1 = length (utf8_text ss) \<or> utf8_text ss ! (cp_offset ss i + 1) < 0x80 \<longleftrightarrow>
      Suc i = length ss \<or> ss ! Suc i \<le> 0x7F"
  proof (cases "Suc i = length ss")
    case False
    with i have "Suc i < length ss" by simp
    from after(2) [OF this] size(2) False show ?thesis by simp
  qed (use size(2) in simp)
  have single: "(utf8_text ss ! cp_offset ss i \<le> 0x1F \<or> utf8_text ss ! cp_offset ss i = 0x7F) \<or>
      (cp_offset ss i + 1 = length (utf8_text ss) \<or> utf8_text ss ! (cp_offset ss i + 1) < 0x80) \<longleftrightarrow> ?single"
    unfolding low follow by simp
  have eq: "nextAsciiBoundary (utf8_text ss) (cp_offset ss i) =
      (if \<not> ?ascii then boundary (cp_offset ss i) InvalidOffset else if ?crlf then boundary (cp_offset ss i + 2) Found
       else if ?single then boundary (cp_offset ss i + 1) Found else boundary (cp_offset ss i) InvalidOffset)"
    unfolding nextAsciiBoundary_def Let_def crlf single using seven by (simp only: if_False)
  show ?thesis
  proof (cases ?crlf)
    case True
    then have res: "nextAsciiBoundary (utf8_text ss) (cp_offset ss i) = boundary (cp_offset ss i + 2) Found"
      using eq found by (simp split: if_splits)
    have "cp_offset ss (Suc (Suc i)) = cp_offset ss i + 2"
      using first_byte(3) [OF ss, of "Suc i"] True off by simp
    moreover have "is_boundary ss (Suc (Suc i))"
      using True break_control [of ss "Suc (Suc i)"] by (cases "Suc (Suc i) = length ss") (auto simp: is_boundary_def)
    moreover have "\<not> is_boundary ss (Suc i)"
      using True break_ascii_pair [of ss "Suc i"] by (simp add: is_boundary_def)
    ultimately show ?thesis using True res by (intro exI [of _ "Suc (Suc i)"]) (auto simp: less_Suc_eq)
  next
    case False
    have ?single and res: "nextAsciiBoundary (utf8_text ss) (cp_offset ss i) = boundary (cp_offset ss i + 1) Found"
      using eq found False by (auto split: if_splits)
    then have "is_boundary ss (Suc i)"
      using False ascii i break_control [of ss "Suc i"] break_ascii_pair [of ss "Suc i"] by (auto simp: is_boundary_def)
    with res off i show ?thesis by (intro exI [of _ "Suc i"]) auto
  qed
qed


lemma previousAscii_cp:
  assumes ss: "list_all isScalarValue ss" and i: "i < length ss"
    and found: "boundaryOutcome (previousAsciiBoundary (utf8_text ss) (cp_offset ss (Suc i))) = Found"
  shows "\<exists>m \<le> i. is_boundary ss m \<and> (\<forall>m'. m < m' \<and> m' \<le> i \<longrightarrow> \<not> is_boundary ss m') \<and>
    previousAsciiBoundary (utf8_text ss) (cp_offset ss (Suc i)) = boundary (cp_offset ss m) Found"
proof -
  have last: "\<not> utf8_text ss ! (cp_offset ss (Suc i) - 1) \<ge> 0x80"
    using found by (auto simp: previousAsciiBoundary_def Let_def split: if_splits)
  then have ascii: "ss ! i \<le> 0x7F" using last_byte [OF ss i] by (simp add: not_le)
  then have off: "cp_offset ss (Suc i) - 1 = cp_offset ss i" using first_byte(3) [OF ss i ascii] by simp
  note cur = first_byte_eq(1) [OF ss i, of "0x0A"]
  show ?thesis
  proof (cases i)
    case 0
    then have "previousAsciiBoundary (utf8_text ss) (cp_offset ss (Suc i)) = boundary (cp_offset ss 0) Found"
      unfolding previousAsciiBoundary_def Let_def off using last off by simp
    then show ?thesis by (intro exI [of _ 0]) (auto simp: 0 is_boundary_def)
  next
    case (Suc k)
    then have k: "k < length ss" and pos: "0 < cp_offset ss i"
      using i cp_offset_less [OF ss, of i 0] by simp_all
    have before: "utf8_text ss ! (cp_offset ss i - 1) = 0x0D \<longleftrightarrow> ss ! k = 0x0D" "utf8_text ss ! (cp_offset ss i - 1) < 0x80 \<longleftrightarrow> ss ! k \<le> 0x7F"
    proof -
      show le: "utf8_text ss ! (cp_offset ss i - 1) < 0x80 \<longleftrightarrow> ss ! k \<le> 0x7F" using last_byte [OF ss k] Suc by simp
      show "utf8_text ss ! (cp_offset ss i - 1) = 0x0D \<longleftrightarrow> ss ! k = 0x0D"
      proof (cases "ss ! k \<le> 0x7F")
        case True
        then show ?thesis using first_byte(3) [OF ss k True] first_byte_eq(1) [OF ss k, of "0x0D"] Suc by simp
      next
        case False
        then show ?thesis using le by auto
      qed
    qed
    have eq: "previousAsciiBoundary (utf8_text ss) (cp_offset ss (Suc i)) =
        (if ss ! i = 0x0A \<and> ss ! k = 0x0D then boundary (cp_offset ss i - 1) Found
         else if ss ! k \<le> 0x7F then boundary (cp_offset ss i) Found else boundary (cp_offset ss (Suc i)) InvalidOffset)"
      unfolding previousAsciiBoundary_def Let_def off before using last off pos cur by simp
    show ?thesis
    proof (cases "ss ! i = 0x0A \<and> ss ! k = 0x0D")
      case True
      then have "cp_offset ss i - 1 = cp_offset ss k" using first_byte(3) [OF ss k] Suc by simp
      moreover have "is_boundary ss k"
        using True k break_control [of ss k] by (auto simp: is_boundary_def)
      moreover have "\<not> is_boundary ss i"
        using True Suc i break_ascii_pair [of ss i] by (simp add: is_boundary_def)
      ultimately show ?thesis using True eq Suc by (intro exI [of _ k]) (auto simp: less_Suc_eq le_Suc_eq)
    next
      case False
      then have low: "ss ! k \<le> 0x7F" and res: "previousAsciiBoundary (utf8_text ss) (cp_offset ss (Suc i)) = boundary (cp_offset ss i) Found"
        using eq found by (auto split: if_splits)
      have "is_boundary ss i" using break_ascii_pair [of ss i] low ascii False Suc i by (auto simp: is_boundary_def)
      with res show ?thesis by (intro exI [of _ i]) auto
    qed
  qed
qed


section \<open>Queries on well-formed text\<close>

lemma nextGraphemeBoundary_cp:
  assumes ss: "list_all isScalarValue ss" and i: "i < length ss"
  shows "\<exists>m. i < m \<and> m \<le> length ss \<and> is_boundary ss m \<and> (\<forall>m'. i < m' \<and> m' < m \<longrightarrow> \<not> is_boundary ss m') \<and>
    nextGraphemeBoundary (utf8_text ss) (cp_offset ss i) = boundary (cp_offset ss m) Found"
proof -
  let ?t = "utf8_text ss" and ?o = "cp_offset ss i"
  have o: "?o < length ?t" "\<not> isContinuationByte (?t ! ?o)" using cp_lead [OF i ss] by simp_all
  show ?thesis
  proof (cases "?t ! ?o < 0x80 \<and> boundaryOutcome (nextAsciiBoundary ?t ?o) = Found")
    case True
    then have "nextGraphemeBoundary ?t ?o = nextAsciiBoundary ?t ?o" using o by (simp add: nextGraphemeBoundary_def)
    with nextAscii_cp [OF ss i] True show ?thesis by simp
  next
    case False
    obtain r where r: "r \<le> i" "restart_point ss r" "findSafeRestart ?t ?o = \<lparr>restartOffset = cp_offset ss r, restartValid = True\<rparr>"
      using findSafeRestart_cp [OF ss i] by (auto simp: findSafeRestart_def)
    with i have rl: "r < length ss" by simp
    have "nextGraphemeBoundary ?t ?o = scanNextFrom ?t (cp_offset ss r) ?o"
      using o False r(3) by (auto simp: nextGraphemeBoundary_def)
    also have "\<dots> = scanNext_from ?t ?o (cp_offset ss (Suc r)) (unicodeProperties (ss ! (Suc r - 1))) (context_at ss (Suc r))"
      using scan_step(2,3) [OF ss rl] restart_point_context [OF r(2) rl] by (simp add: scanNextFrom_def Let_def)
    finally have eq: "nextGraphemeBoundary ?t ?o = \<dots>" .
    from scanNext_cp [OF ss i, of "Suc r"] rl obtain m where m: "m \<le> length ss" "is_boundary ss m" "i < m"
        "\<forall>m'. Suc r \<le> m' \<and> m' < m \<and> is_boundary ss m' \<longrightarrow> m' \<le> i"
        "scanNext_from ?t ?o (cp_offset ss (Suc r)) (unicodeProperties (ss ! (Suc r - 1))) (context_at ss (Suc r)) = boundary (cp_offset ss m) Found"
      by auto
    have "\<forall>m'. i < m' \<and> m' < m \<longrightarrow> \<not> is_boundary ss m'"
      using m(4) r(1) by (meson Suc_leI le_less_trans not_le)
    with m eq show ?thesis by auto
  qed
qed

lemma previousGraphemeBoundary_cp:
  assumes ss: "list_all isScalarValue ss" and i: "i < length ss"
  shows "\<exists>m \<le> i. is_boundary ss m \<and> (\<forall>m'. m < m' \<and> m' \<le> i \<longrightarrow> \<not> is_boundary ss m') \<and>
    previousGraphemeBoundary (utf8_text ss) (cp_offset ss (Suc i)) = boundary (cp_offset ss m) Found"
proof -
  let ?t = "utf8_text ss" and ?o = "cp_offset ss (Suc i)"
  have o: "?o \<le> length ?t" "0 < ?o" "\<not> (?o < length ?t \<and> isContinuationByte (?t ! ?o))"
    using cp_offset_le [of ss "Suc i"] cp_offset_less [OF ss, of "Suc i" 0] cp_offset_not_continuation [of "Suc i" ss] ss i
    by simp_all
  show ?thesis
  proof (cases "?t ! (?o - 1) < 0x80 \<and> boundaryOutcome (previousAsciiBoundary ?t ?o) = Found")
    case True
    then have "previousGraphemeBoundary ?t ?o = previousAsciiBoundary ?t ?o" using o by (auto simp: previousGraphemeBoundary_def)
    with previousAscii_cp [OF ss i] True show ?thesis by simp
  next
    case False
    obtain r where r: "r \<le> i" "restart_point ss r" "findSafeRestart ?t (cp_offset ss i) = \<lparr>restartOffset = cp_offset ss r, restartValid = True\<rparr>"
      using findSafeRestart_cp [OF ss i] by (auto simp: findSafeRestart_def)
    with i have rl: "r < length ss" by simp
    have "previousGraphemeBoundary ?t ?o = scanPreviousFrom ?t (cp_offset ss r) ?o"
      using o False r(3) decodePrevious_cp [OF i ss] by (auto simp: previousGraphemeBoundary_def Let_def)
    also have "\<dots> = scanPrevious_from ?t ?o (cp_offset ss r) (cp_offset ss (Suc r)) (unicodeProperties (ss ! (Suc r - 1))) (context_at ss (Suc r))"
      using scan_step(2,3) [OF ss rl] restart_point_context [OF r(2) rl] by (simp add: scanPreviousFrom_def Let_def)
    finally have eq: "previousGraphemeBoundary ?t ?o = \<dots>" .
    have "\<exists>m. m < Suc i \<and> is_boundary ss m \<and> (\<forall>m'. m' < Suc i \<and> is_boundary ss m' \<longrightarrow> m' \<le> m) \<and>
        scanPrevious_from ?t ?o (cp_offset ss r) (cp_offset ss (Suc r)) (unicodeProperties (ss ! (Suc r - 1))) (context_at ss (Suc r))
          = boundary (cp_offset ss m) Found"
      using i r rl by (intro scanPrevious_cp [OF ss]) (auto intro: restart_point_boundary)
    then obtain m where m: "m < Suc i" "is_boundary ss m" "\<forall>m'. m' < Suc i \<and> is_boundary ss m' \<longrightarrow> m' \<le> m"
        "previousGraphemeBoundary ?t ?o = boundary (cp_offset ss m) Found"
      unfolding eq by blast
    have "\<forall>m'. m < m' \<and> m' \<le> i \<longrightarrow> \<not> is_boundary ss m'" using m(3) by (meson le_imp_less_Suc not_le)
    with m show ?thesis by (intro exI [of _ m]) auto
  qed
qed

lemma boundary_queries_elsewhere:
  assumes ss: "list_all isScalarValue ss" and off: "\<forall>i \<le> length ss. off \<noteq> cp_offset ss i"
  shows "nextGraphemeBoundary (utf8_text ss) off = boundary off InvalidOffset"
    and "previousGraphemeBoundary (utf8_text ss) off = boundary off InvalidOffset"
proof -
  have "off \<noteq> length (utf8_text ss)" using off by (metis cp_offset_last order_refl)
  then consider "length (utf8_text ss) < off" | "off < length (utf8_text ss)" "isContinuationByte (utf8_text ss ! off)"
    using inside_code_point [OF ss _ off] by linarith
  then show "nextGraphemeBoundary (utf8_text ss) off = boundary off InvalidOffset"
    and "previousGraphemeBoundary (utf8_text ss) off = boundary off InvalidOffset"
    by (cases; simp add: nextGraphemeBoundary_def previousGraphemeBoundary_def)+
qed

text \<open>The segmentation stated with the declarative rules.\<close>

definition uax29_boundaries :: "char32 list \<Rightarrow> nat list" where
  "uax29_boundaries ss = map (cp_offset ss) (filter (\<lambda>i. i = 0 \<or> i = length ss \<or>
     uax29_break (map unicodeProperties (take i ss)) (unicodeProperties (ss ! i))) [0..<Suc (length ss)])"

lemma grapheme_boundaries_uax29: "grapheme_boundaries ss = uax29_boundaries ss"
  unfolding grapheme_boundaries_def uax29_boundaries_def
  by (intro arg_cong [where f = "map _"] filter_cong) (auto simp: is_boundary_def break_at_uax29)

lemma set_uax29_boundaries: "set (uax29_boundaries ss) = {cp_offset ss m | m. m \<le> length ss \<and> is_boundary ss m}"
  unfolding grapheme_boundaries_uax29 [symmetric] grapheme_boundaries_def
  by (auto simp: less_Suc_eq_le simp del: upt.simps)

lemma sorted_uax29_boundaries:
  assumes "list_all isScalarValue ss"
  shows "sorted_wrt (<) (uax29_boundaries ss)"
proof -
  have "sorted_wrt (\<lambda>i j. i < j \<and> j \<le> length ss) [0..<Suc (length ss)]"
    by (auto simp: sorted_wrt_iff_nth_less simp del: upt.simps)
  then show ?thesis
    unfolding grapheme_boundaries_uax29 [symmetric] grapheme_boundaries_def sorted_wrt_map
    by (intro sorted_wrt_filter) (auto elim!: sorted_wrt_mono_rel [rotated] intro: cp_offset_less [OF assms])
qed


lemma visit_from_valid:
  "fst (visit_from t f i p st s) \<longleftrightarrow> validationOutcome8 (Utf8_validate_from t i) = V_Valid"
proof (induction t f i p st s rule: visit_from.induct)
  case (1 t f i p st s)
  show ?case
    using 1 by (subst visit_from.simps, subst Utf8_validate_from.simps)
      (cases "outcome8 (decodeUtf8Scalar (drop i t))"; simp add: Let_def)
qed

lemma visitGraphemeBoundaries_valid: "fst (visitGraphemeBoundaries t f s) \<longleftrightarrow> valid_utf8 t"
proof (cases "t = []")
  case True
  then show ?thesis by (auto simp: visitGraphemeBoundaries_def valid_utf8_def intro: exI [of _ "[]"])
next
  case False
  have "Utf8_validate_from t 0 = Utf8_validate_from t (bytesConsumed (decodeUtf8Scalar t))" if "outcome8 (decodeUtf8Scalar t) = Decoded"
    using that False by (subst Utf8_validate_from.simps) simp
  moreover have "validationOutcome8 (Utf8_validate_from t 0) \<noteq> V_Valid" if "outcome8 (decodeUtf8Scalar t) \<noteq> Decoded"
    using that False by (subst Utf8_validate_from.simps) (cases "outcome8 (decodeUtf8Scalar t)"; simp)
  ultimately show ?thesis
    using False by (auto simp: visit_from_valid visitGraphemeBoundaries_def Let_def Utf8_validate_def simp flip: Utf8_validate_iff)
qed

lemma nextGraphemeBoundary_query:
  assumes ss: "list_all isScalarValue ss"
  shows "if off = length (utf8_text ss) then nextGraphemeBoundary (utf8_text ss) off = boundary off AtEnd
    else if \<exists>i < length ss. off = cp_offset ss i then
      \<exists>b \<in> set (uax29_boundaries ss). off < b \<and> (\<forall>b' \<in> set (uax29_boundaries ss). off < b' \<longrightarrow> b \<le> b') \<and>
        nextGraphemeBoundary (utf8_text ss) off = boundary b Found
    else nextGraphemeBoundary (utf8_text ss) off = boundary off InvalidOffset"
proof -
  consider (last) "off = length (utf8_text ss)" | (cp) i where "i < length ss" "off = cp_offset ss i" "off \<noteq> length (utf8_text ss)"
    | (other) "\<forall>i \<le> length ss. off \<noteq> cp_offset ss i" "off \<noteq> length (utf8_text ss)"
    using cp_offset_last [of ss] by (metis le_neq_implies_less)
  then show ?thesis
  proof cases
    case last
    have "valid_utf8 (utf8_text ss)" using ss by (auto simp: valid_utf8_def)
    with last show ?thesis by (simp add: nextGraphemeBoundary_def Utf8_validate_iff)
  next
    case cp
    from nextGraphemeBoundary_cp [OF ss cp(1)] obtain m where m: "i < m" "m \<le> length ss" "is_boundary ss m"
        "\<forall>m'. i < m' \<and> m' < m \<longrightarrow> \<not> is_boundary ss m'" "nextGraphemeBoundary (utf8_text ss) off = boundary (cp_offset ss m) Found"
      using cp(2) by blast
    have least: "\<forall>b' \<in> set (uax29_boundaries ss). off < b' \<longrightarrow> cp_offset ss m \<le> b'"
    proof (intro ballI impI)
      fix b' assume "b' \<in> set (uax29_boundaries ss)" "off < b'"
      then obtain m' where m': "b' = cp_offset ss m'" "m' \<le> length ss" "is_boundary ss m'" "i < m'"
        using cp(1,2) cp_offset_less_iff [OF ss] by (auto simp: set_uax29_boundaries)
      with m(4) have "m \<le> m'" by (meson not_le)
      then show "cp_offset ss m \<le> b'" using cp_offset_less [OF ss m'(2)] m'(1) by (metis le_eq_less_or_eq)
    qed
    moreover have "cp_offset ss m \<in> set (uax29_boundaries ss)" using m(2,3) by (auto simp: set_uax29_boundaries)
    moreover have "off < cp_offset ss m" using cp_offset_less [OF ss m(2,1)] cp(2) by simp
    ultimately show ?thesis using cp m(5) by auto
  next
    case other
    then have "\<not> (\<exists>i < length ss. off = cp_offset ss i)" by auto
    with boundary_queries_elsewhere(1) [OF ss other(1)] other(2) show ?thesis by simp
  qed
qed

lemma previousGraphemeBoundary_query:
  assumes ss: "list_all isScalarValue ss"
  shows "if off = 0 then previousGraphemeBoundary (utf8_text ss) off = boundary 0 AtBeginning
    else if \<exists>i < length ss. off = cp_offset ss (Suc i) then
      \<exists>b \<in> set (uax29_boundaries ss). b < off \<and> (\<forall>b' \<in> set (uax29_boundaries ss). b' < off \<longrightarrow> b' \<le> b) \<and>
        previousGraphemeBoundary (utf8_text ss) off = boundary b Found
    else previousGraphemeBoundary (utf8_text ss) off = boundary off InvalidOffset"
proof -
  consider (first) "off = 0" | (cp) i where "i < length ss" "off = cp_offset ss (Suc i)" "off \<noteq> 0"
    | (other) "\<forall>i \<le> length ss. off \<noteq> cp_offset ss i" "off \<noteq> 0" "\<not> (\<exists>i < length ss. off = cp_offset ss (Suc i))"
    using cp_offset_0 [of ss] by (metis Suc_le_lessD not0_implies_Suc)
  then show ?thesis
  proof cases
    case first
    then show ?thesis using cp_offset_not_continuation [of 0 ss] ss by (simp add: previousGraphemeBoundary_def)
  next
    case cp
    from previousGraphemeBoundary_cp [OF ss cp(1)] obtain m where m: "m \<le> i" "is_boundary ss m"
        "\<forall>m'. m < m' \<and> m' \<le> i \<longrightarrow> \<not> is_boundary ss m'" "previousGraphemeBoundary (utf8_text ss) off = boundary (cp_offset ss m) Found"
      using cp(2) by blast
    have il: "Suc i \<le> length ss" using cp(1) by simp
    have greatest: "\<forall>b' \<in> set (uax29_boundaries ss). b' < off \<longrightarrow> b' \<le> cp_offset ss m"
    proof (intro ballI impI)
      fix b' assume "b' \<in> set (uax29_boundaries ss)" "b' < off"
      then obtain m' where m': "b' = cp_offset ss m'" "m' \<le> length ss" "is_boundary ss m'" "m' \<le> i"
        using cp(2) cp_offset_less_iff [OF ss _ il] by (auto simp: set_uax29_boundaries less_Suc_eq_le)
      with m(3) have "m' \<le> m" by (meson not_le)
      then show "b' \<le> cp_offset ss m" using cp_offset_less [OF ss, of m m'] m'(1) m(1) cp(1)
        by (metis le_eq_less_or_eq le_trans less_or_eq_imp_le)
    qed
    moreover have "cp_offset ss m \<in> set (uax29_boundaries ss)" using m(1,2) cp(1) by (auto simp: set_uax29_boundaries)
    moreover have "cp_offset ss m < off" using cp_offset_less [OF ss il, of m] m(1) cp(2) by simp
    ultimately show ?thesis using cp m(4) by auto
  next
    case other
    with boundary_queries_elsewhere(2) [OF ss other(1)] show ?thesis by simp
  qed
qed

section \<open>Properties\<close>

text \<open>
  C12: one forward pass with the streaming context visits exactly the boundaries that the UAX #29 rules give, in order, although
  GB9c, GB11, GB12 and GB13 are stated over the whole preceding text.
\<close>

theorem visitGraphemeBoundaries_uax29:
  assumes "list_all isScalarValue ss"
  shows "visitGraphemeBoundaries (utf8_text ss) f s = (True, fold f (uax29_boundaries ss) s) \<and> sorted_wrt (<) (uax29_boundaries ss)"
  using visitGraphemeBoundaries_text [OF assms] sorted_uax29_boundaries [OF assms] by (simp add: grapheme_boundaries_uax29)

theorem visitGraphemeBoundaries_uax29_witness:
  "visitGraphemeBoundaries (utf8_text [0x0D, 0x0A, 0x61]) (\<lambda>b bs. bs @ [b]) [] = (True, fold (\<lambda>b bs. bs @ [b]) (uax29_boundaries [0x0D, 0x0A, 0x61]) [])"
  using visitGraphemeBoundaries_uax29 [of "[0x0D, 0x0A, 0x61]" "\<lambda>b bs. bs @ [b]" "[]"]
  by (simp add: isScalarValue_def kMaximumScalarValue_def)

text \<open>the pass reports failure exactly on malformed text.\<close>

theorem visitGraphemeBoundaries_rejects:
  "fst (visitGraphemeBoundaries t f s) \<longleftrightarrow> validationOutcome8 (Utf8_validate t) = V_Valid"
  by (simp add: visitGraphemeBoundaries_valid Utf8_validate_iff)

text \<open>
  C1: on well-formed text the next-boundary query, which restarts from a nearby guaranteed break or takes an ASCII shortcut, returns
  the least boundary of the complete segmentation after the offset; at the end it says so, and between code points it refuses.
\<close>

theorem nextGraphemeBoundary_correct:
  assumes ss: "list_all isScalarValue ss"
  shows "if off = length (utf8_text ss) then nextGraphemeBoundary (utf8_text ss) off = boundary off AtEnd
    else if \<exists>i < length ss. off = cp_offset ss i then
      \<exists>b \<in> set (uax29_boundaries ss). off < b \<and> (\<forall>b' \<in> set (uax29_boundaries ss). off < b' \<longrightarrow> b \<le> b') \<and>
        nextGraphemeBoundary (utf8_text ss) off = boundary b Found
    else nextGraphemeBoundary (utf8_text ss) off = boundary off InvalidOffset"
  by (rule nextGraphemeBoundary_query [OF ss])

theorem nextGraphemeBoundary_correct_witness:
  "\<exists>b \<in> set (uax29_boundaries [0x0D, 0x0A, 0x61]). 0 < b \<and> nextGraphemeBoundary (utf8_text [0x0D, 0x0A, 0x61]) 0 = boundary b Found"
proof -
  have "list_all isScalarValue [0x0D, 0x0A, 0x61]" "0 \<noteq> length (utf8_text [0x0D, 0x0A, 0x61])" "0 = cp_offset [0x0D, 0x0A, 0x61] 0"
    by code_simp+
  with nextGraphemeBoundary_correct [of "[0x0D, 0x0A, 0x61]" 0] show ?thesis
    by (auto split: if_splits)
qed

text \<open>
  Likewise the previous-boundary query returns the greatest boundary of the complete segmentation before the offset.
\<close>

theorem previousGraphemeBoundary_correct:
  assumes ss: "list_all isScalarValue ss"
  shows "if off = 0 then previousGraphemeBoundary (utf8_text ss) off = boundary 0 AtBeginning
    else if \<exists>i < length ss. off = cp_offset ss (Suc i) then
      \<exists>b \<in> set (uax29_boundaries ss). b < off \<and> (\<forall>b' \<in> set (uax29_boundaries ss). b' < off \<longrightarrow> b' \<le> b) \<and>
        previousGraphemeBoundary (utf8_text ss) off = boundary b Found
    else previousGraphemeBoundary (utf8_text ss) off = boundary off InvalidOffset"
  by (rule previousGraphemeBoundary_query [OF ss])

theorem previousGraphemeBoundary_correct_witness:
  "\<exists>b \<in> set (uax29_boundaries [0x61, 0x0D, 0x0A]). b < 3 \<and> previousGraphemeBoundary (utf8_text [0x61, 0x0D, 0x0A]) 3 = boundary b Found"
proof -
  have ss: "list_all isScalarValue [0x61, 0x0D, 0x0A]" and off: "3 = cp_offset [0x61, 0x0D, 0x0A] (Suc 2)"
    by code_simp+
  from off have "\<exists>i < length [0x61, 0x0D, 0x0A :: char32]. 3 = cp_offset [0x61, 0x0D, 0x0A] (Suc i)" by (intro exI [of _ 2]) simp
  then show ?thesis using previousGraphemeBoundary_correct [OF ss, of 3] by (simp only: if_True zero_neq_numeral [symmetric] if_False) blast
qed

end
