(* ===== verification/Unicode_Grapheme_Cursor.thy ===== *)
theory Unicode_Grapheme_Cursor
  imports Unicode_Grapheme
begin

text \<open>
  \<^verbatim>\<open>GraphemeCursor\<close> of \<^verbatim>\<open>foundation/unicode/core/grapheme.cpp\<close>: an index of every grapheme boundary in storage the
  caller owns. The cursor's span is the list of offsets it views; operations return the cursor they leave.
\<close>

section \<open>Operations\<close>

datatype GraphemeIndexOutcome = Indexed | G_DestinationTooSmall | G_InvalidEncoding

record GraphemeIndexResult =
  requiredBoundaryCount :: nat
  indexOutcome :: GraphemeIndexOutcome

record GraphemeCursor =
  boundaries :: "nat list"
  currentBoundaryIndex :: nat

definition cursor_clear :: GraphemeCursor where
  "cursor_clear = \<lparr>boundaries = [], currentBoundaryIndex = 0\<rparr>"

definition recordBoundary :: "nat \<Rightarrow> nat \<times> nat list \<Rightarrow> nat \<times> nat list" where
  "recordBoundary offset captured =
    (case captured of (required, boundaryStorage) \<Rightarrow>
       (required + 1, if required < length boundaryStorage then boundaryStorage[required := offset] else boundaryStorage))"

definition cursor_reset :: "byte list \<Rightarrow> nat list \<Rightarrow> GraphemeIndexResult \<times> GraphemeCursor \<times> nat list" where
  "cursor_reset text boundaryStorage =
    (case visitGraphemeBoundaries text recordBoundary (0, boundaryStorage) of
       (ok, required, boundaryStorage) \<Rightarrow>
         if \<not> ok then (\<lparr>requiredBoundaryCount = 0, indexOutcome = G_InvalidEncoding\<rparr>, cursor_clear, boundaryStorage)
         else if required > length boundaryStorage
         then (\<lparr>requiredBoundaryCount = required, indexOutcome = G_DestinationTooSmall\<rparr>, cursor_clear, boundaryStorage)
         else (\<lparr>requiredBoundaryCount = required, indexOutcome = Indexed\<rparr>,
               \<lparr>boundaries = take required boundaryStorage, currentBoundaryIndex = 0\<rparr>, boundaryStorage))"

definition cursor_ready :: "GraphemeCursor \<Rightarrow> bool" where
  "cursor_ready cursor \<longleftrightarrow> boundaries cursor \<noteq> []"

definition cursor_byteOffset :: "GraphemeCursor \<Rightarrow> nat" where
  "cursor_byteOffset cursor = (if cursor_ready cursor then boundaries cursor ! currentBoundaryIndex cursor else 0)"

definition boundaryCount :: "GraphemeCursor \<Rightarrow> nat" where
  "boundaryCount cursor = length (boundaries cursor)"

function lower_bound_from :: "nat list \<Rightarrow> nat \<Rightarrow> nat \<Rightarrow> nat \<Rightarrow> nat" where
  "lower_bound_from xs v first count =
    (if count > 0 then
       let step = count div 2 in
       if xs ! (first + step) < v then lower_bound_from xs v (first + step + 1) (count - (step + 1))
       else lower_bound_from xs v first step
     else first)"
  by pat_completeness auto
termination by (relation "measure (\<lambda>(xs, v, first, count). count)") auto

declare lower_bound_from.simps [simp del]

definition lower_bound :: "nat list \<Rightarrow> nat \<Rightarrow> nat" where
  "lower_bound xs v = lower_bound_from xs v 0 (length xs)"

definition cursor_seek :: "GraphemeCursor \<Rightarrow> nat \<Rightarrow> BoundaryResult \<times> GraphemeCursor" where
  "cursor_seek cursor offset =
    (if \<not> cursor_ready cursor then (boundary offset InvalidOffset, cursor)
     else let found = lower_bound (boundaries cursor) offset in
       if found = length (boundaries cursor) \<or> boundaries cursor ! found \<noteq> offset
       then (boundary offset InvalidOffset, cursor)
       else (boundary offset Found, cursor\<lparr>currentBoundaryIndex := found\<rparr>))"

definition cursor_next :: "GraphemeCursor \<Rightarrow> BoundaryResult \<times> GraphemeCursor" where
  "cursor_next cursor =
    (if \<not> cursor_ready cursor then (boundary 0 InvalidOffset, cursor)
     else if currentBoundaryIndex cursor + 1 \<ge> length (boundaries cursor)
     then (boundary (cursor_byteOffset cursor) AtEnd, cursor)
     else let cursor' = cursor\<lparr>currentBoundaryIndex := currentBoundaryIndex cursor + 1\<rparr>
       in (boundary (cursor_byteOffset cursor') Found, cursor'))"

definition cursor_previous :: "GraphemeCursor \<Rightarrow> BoundaryResult \<times> GraphemeCursor" where
  "cursor_previous cursor =
    (if \<not> cursor_ready cursor then (boundary 0 InvalidOffset, cursor)
     else if currentBoundaryIndex cursor = 0 then (boundary 0 AtBeginning, cursor)
     else let cursor' = cursor\<lparr>currentBoundaryIndex := currentBoundaryIndex cursor - 1\<rparr>
       in (boundary (cursor_byteOffset cursor') Found, cursor'))"

definition discardAfterCurrent :: "GraphemeCursor \<Rightarrow> GraphemeCursor" where
  "discardAfterCurrent cursor =
    (if cursor_ready cursor then cursor\<lparr>boundaries := take (currentBoundaryIndex cursor + 1) (boundaries cursor)\<rparr>
     else cursor)"

section \<open>Indexing\<close>

lemma recordBoundary_pair [simp]:
  "recordBoundary b (n, st) = (Suc n, if n < length st then st[n := b] else st)"
  by (simp add: recordBoundary_def)

lemma fold_recordBoundary:
  "n \<le> length st \<Longrightarrow> fold recordBoundary bs (n, st) =
    (n + length bs, take n st @ take (length st - n) bs @ drop (n + length bs) st)"
proof (induction bs arbitrary: n st)
  case (Cons b bs)
  show ?case
  proof (cases "n < length st")
    case True
    then have "take (Suc n) (st[n := b]) = take n st @ [b]" "drop (Suc n + k) (st[n := b]) = drop (Suc n + k) st" for k
      by (simp_all add: take_Suc_conv_app_nth)
    with True Cons.IH [of "Suc n" "st[n := b]"] show ?thesis
      by (simp add: take_Cons' Suc_diff_Suc)
  next
    case False
    have *: "fold recordBoundary bs (m, st) = (m + length bs, st)" if "length st \<le> m" for m
      using that by (induction bs arbitrary: m) simp_all
    from False Cons.prems show ?thesis by (simp add: *)
  qed
qed simp

lemma reset_text:
  assumes "list_all isScalarValue ss"
  shows "cursor_reset (utf8_text ss) st =
    (let bs = uax29_boundaries ss; st' = take (length st) bs @ drop (length bs) st in
     if length bs \<le> length st
     then (\<lparr>requiredBoundaryCount = length bs, indexOutcome = Indexed\<rparr>, \<lparr>boundaries = bs, currentBoundaryIndex = 0\<rparr>, st')
     else (\<lparr>requiredBoundaryCount = length bs, indexOutcome = G_DestinationTooSmall\<rparr>, cursor_clear, st'))"
  using fold_recordBoundary [of 0 st "uax29_boundaries ss"]
  by (simp add: cursor_reset_def visitGraphemeBoundaries_text [OF assms] grapheme_boundaries_uax29 Let_def)

lemma reset_invalid:
  assumes "\<not> valid_utf8 t"
  shows "fst (cursor_reset t st) = \<lparr>requiredBoundaryCount = 0, indexOutcome = G_InvalidEncoding\<rparr>" "fst (snd (cursor_reset t st)) = cursor_clear"
  using visitGraphemeBoundaries_valid [of t recordBoundary "(0, st)"] assms
  by (auto simp: cursor_reset_def split: prod.split)


section \<open>The cursor as an index of a text\<close>

lemma lower_bound_from_spec:
  assumes "sorted_wrt (<) xs" "first + count \<le> length xs" "\<forall>i < first. xs ! i < v"
    and "\<forall>i. first + count \<le> i \<and> i < length xs \<longrightarrow> v \<le> xs ! i"
  shows "lower_bound_from xs v first count \<le> length xs \<and>
    (\<forall>i < lower_bound_from xs v first count. xs ! i < v) \<and>
    (\<forall>i. lower_bound_from xs v first count \<le> i \<and> i < length xs \<longrightarrow> v \<le> xs ! i)"
  using assms
proof (induction xs v first count rule: lower_bound_from.induct)
  case (1 xs v first count)
  let ?G = "\<lambda>r. r \<le> length xs \<and> (\<forall>i < r. xs ! i < v) \<and> (\<forall>i. r \<le> i \<and> i < length xs \<longrightarrow> v \<le> xs ! i)"
  show ?case
  proof (cases "count > 0")
    case False
    then have "lower_bound_from xs v first count = first" by (subst lower_bound_from.simps) simp
    with 1(3-) False show ?thesis by simp
  next
    case pos: True
    let ?step = "count div 2"
    have step: "?step < count" using pos by simp
    show ?thesis
    proof (cases "xs ! (first + ?step) < v")
      case True
      have "\<forall>i < first + ?step + 1. xs ! i < v"
      proof (intro allI impI)
        fix i assume "i < first + ?step + 1"
        then show "xs ! i < v"
          using True 1(3,4) step sorted_wrt_nth_less [OF 1(3), of i "first + ?step"]
          by (cases "i = first + ?step") auto
      qed
      moreover have "first + ?step + 1 + (count - (?step + 1)) = first + count" using step by simp
      ultimately have "?G (lower_bound_from xs v (first + ?step + 1) (count - (?step + 1)))"
        using 1(1) [OF pos refl True] 1(3,4,6) by simp
      moreover have "lower_bound_from xs v first count = lower_bound_from xs v (first + ?step + 1) (count - (?step + 1))"
        using True pos by (subst lower_bound_from.simps) (simp add: Let_def)
      ultimately show ?thesis by simp
    next
      case False
      have upper: "\<forall>i. first + ?step \<le> i \<and> i < length xs \<longrightarrow> v \<le> xs ! i"
      proof (intro allI impI)
        fix i assume "first + ?step \<le> i \<and> i < length xs"
        then show "v \<le> xs ! i"
          using False sorted_wrt_nth_less [OF 1(3), of "first + ?step" i] by (cases "i = first + ?step") auto
      qed
      have "first + ?step \<le> length xs" using 1(4) step by linarith
      from 1(2) [OF pos refl False 1(3) this 1(5) upper]
      have "?G (lower_bound_from xs v first ?step)" .
      moreover have "lower_bound_from xs v first count = lower_bound_from xs v first ?step"
        using False pos by (subst lower_bound_from.simps) (simp add: Let_def)
      ultimately show ?thesis by simp
    qed
  qed
qed

lemma lower_bound_hit:
  assumes "sorted_wrt (<) xs"
  shows "(lower_bound xs v \<noteq> length xs \<and> xs ! lower_bound xs v = v) \<longleftrightarrow> v \<in> set xs"
    and "lower_bound xs v \<le> length xs"
proof -
  from lower_bound_from_spec [OF assms, of 0 "length xs" v]
  have spec: "lower_bound xs v \<le> length xs" "\<forall>i < lower_bound xs v. xs ! i < v"
    "\<forall>i. lower_bound xs v \<le> i \<and> i < length xs \<longrightarrow> v \<le> xs ! i"
    by (auto simp: lower_bound_def)
  show "lower_bound xs v \<le> length xs" by (rule spec)
  show "(lower_bound xs v \<noteq> length xs \<and> xs ! lower_bound xs v = v) \<longleftrightarrow> v \<in> set xs"
  proof
    assume "v \<in> set xs"
    then obtain i where i: "i < length xs" "xs ! i = v" by (auto simp: in_set_conv_nth)
    with spec have le: "lower_bound xs v \<le> i" by (meson less_irrefl not_le)
    moreover have "i \<le> lower_bound xs v"
    proof (rule ccontr)
      assume "\<not> i \<le> lower_bound xs v"
      then have lt: "lower_bound xs v < i" by simp
      then have "xs ! lower_bound xs v < v" using i sorted_wrt_nth_less [OF assms, of "lower_bound xs v" i] by simp
      moreover have "v \<le> xs ! lower_bound xs v" using spec(3) lt i(1) by simp
      ultimately show False by simp
    qed
    ultimately show "lower_bound xs v \<noteq> length xs \<and> xs ! lower_bound xs v = v" using i by auto
  next
    assume "lower_bound xs v \<noteq> length xs \<and> xs ! lower_bound xs v = v"
    then show "v \<in> set xs" using spec(1) nth_mem [of "lower_bound xs v" xs] by simp
  qed
qed


text \<open>
  \<open>indexes ss cursor\<close>: the cursor holds the boundaries of the text \<open>ss\<close> and stands on one of them. It is the
  abstraction under which the cursor's moves are the stateless queries.
\<close>

definition indexes :: "char32 list \<Rightarrow> GraphemeCursor \<Rightarrow> bool" where
  "indexes ss cursor \<longleftrightarrow> list_all isScalarValue ss \<and> boundaries cursor = uax29_boundaries ss \<and>
     currentBoundaryIndex cursor < length (uax29_boundaries ss)"

lemma uax29_boundaries_ends:
  "uax29_boundaries ss \<noteq> []" "hd (uax29_boundaries ss) = 0" "last (uax29_boundaries ss) = length (utf8_text ss)"
proof -
  have upt: "[0..<Suc (length ss)] = 0 # [Suc 0..<Suc (length ss)]" by (rule upt_conv_Cons) simp
  have "uax29_boundaries ss = 0 # map (cp_offset ss) (filter (is_boundary ss) [Suc 0..<Suc (length ss)])"
    unfolding grapheme_boundaries_uax29 [symmetric] grapheme_boundaries_def upt by (simp add: is_boundary_def del: upt.simps)
  then show "uax29_boundaries ss \<noteq> []" "hd (uax29_boundaries ss) = 0" by simp_all
  have "uax29_boundaries ss = map (cp_offset ss) (filter (is_boundary ss) [0..<length ss]) @ [length (utf8_text ss)]"
    unfolding grapheme_boundaries_uax29 [symmetric] grapheme_boundaries_def by (simp add: is_boundary_def)
  then show "last (uax29_boundaries ss) = length (utf8_text ss)" by simp
qed

lemma boundary_is_cp:
  assumes "b \<in> set (uax29_boundaries ss)"
  obtains i where "i \<le> length ss" "b = cp_offset ss i"
  using assms by (auto simp: set_uax29_boundaries)

lemma sorted_nth_less_iff:
  "sorted_wrt (<) xs \<Longrightarrow> i < length xs \<Longrightarrow> j < length xs \<Longrightarrow> xs ! i < xs ! j \<longleftrightarrow> i < j" for xs :: "'a::linorder list"
  using sorted_wrt_nth_less [of "(<)" xs i j] sorted_wrt_nth_less [of "(<)" xs j i] by (cases i j rule: linorder_cases) auto

lemma sorted_next:
  fixes b :: nat
  assumes "sorted_wrt (<) xs" "Suc n < length xs" "b \<in> set xs" "xs ! n < b" "\<forall>b' \<in> set xs. xs ! n < b' \<longrightarrow> b \<le> b'"
  shows "b = xs ! Suc n"
proof -
  obtain j where j: "j < length xs" "b = xs ! j" using assms(3) by (auto simp: in_set_conv_nth)
  have "n < j" using assms(2,4) j sorted_nth_less_iff [OF assms(1), of n j] by simp
  moreover have "b \<le> xs ! Suc n" using assms(2,5) sorted_nth_less_iff [OF assms(1), of n "Suc n"] by simp
  then have "\<not> Suc n < j" using assms(2) j sorted_nth_less_iff [OF assms(1), of "Suc n" j] by simp
  ultimately show ?thesis using j by (cases "j = Suc n") auto
qed

lemma sorted_previous:
  fixes b :: nat
  assumes "sorted_wrt (<) xs" "Suc n < length xs" "b \<in> set xs" "b < xs ! Suc n" "\<forall>b' \<in> set xs. b' < xs ! Suc n \<longrightarrow> b' \<le> b"
  shows "b = xs ! n"
proof -
  obtain j where j: "j < length xs" "b = xs ! j" using assms(3) by (auto simp: in_set_conv_nth)
  have "j < Suc n" using assms(2,4) j sorted_nth_less_iff [OF assms(1), of j "Suc n"] by simp
  moreover have "xs ! n \<le> b" using assms(2,5) sorted_nth_less_iff [OF assms(1), of n "Suc n"] by simp
  then have "\<not> j < n" using assms(2) j sorted_nth_less_iff [OF assms(1), of j n] by simp
  ultimately show ?thesis using j by (cases "j = n") auto
qed

lemma cursor_offset_in:
  assumes "indexes ss c"
  shows "cursor_byteOffset c \<in> set (uax29_boundaries ss)" "cursor_byteOffset c = uax29_boundaries ss ! currentBoundaryIndex c"
  using assms uax29_boundaries_ends(1) [of ss] by (auto simp: indexes_def cursor_byteOffset_def cursor_ready_def)

lemma last_boundary_index:
  assumes "list_all isScalarValue ss" "n < length (uax29_boundaries ss)"
  shows "uax29_boundaries ss ! n = length (utf8_text ss) \<longleftrightarrow> Suc n = length (uax29_boundaries ss)"
    and "uax29_boundaries ss ! n = 0 \<longleftrightarrow> n = 0"
proof -
  let ?bs = "uax29_boundaries ss"
  note ends = uax29_boundaries_ends [of ss] and sorted = sorted_uax29_boundaries [OF assms(1)]
  have "?bs ! (length ?bs - 1) = length (utf8_text ss)" "?bs ! 0 = 0"
    using ends by (simp_all add: last_conv_nth hd_conv_nth)
  moreover have "?bs ! n = ?bs ! m \<longleftrightarrow> n = m" if "m < length ?bs" for m
    using assms(2) that sorted_nth_less_iff [OF sorted] by (metis linorder_less_linear order_less_irrefl)
  moreover have "0 < length ?bs" using ends(1) by simp
  ultimately show "?bs ! n = length (utf8_text ss) \<longleftrightarrow> Suc n = length ?bs" "?bs ! n = 0 \<longleftrightarrow> n = 0"
    using assms(2) by (metis Suc_pred diff_Suc_less diff_Suc_1 One_nat_def, metis)
qed

lemma cursor_next_query:
  assumes c: "indexes ss c"
  shows "fst (cursor_next c) = nextGraphemeBoundary (utf8_text ss) (cursor_byteOffset c)"
    and "indexes ss (snd (cursor_next c))"
    and "cursor_byteOffset (snd (cursor_next c)) = byteOffset (fst (cursor_next c))"
proof -
  let ?bs = "uax29_boundaries ss" and ?n = "currentBoundaryIndex c"
  have ss: "list_all isScalarValue ss" and bs: "boundaries c = ?bs" and n: "?n < length ?bs"
    using c by (auto simp: indexes_def)
  note off = cursor_offset_in [OF c] and ne = uax29_boundaries_ends(1) [of ss]
  show "indexes ss (snd (cursor_next c))" "cursor_byteOffset (snd (cursor_next c)) = byteOffset (fst (cursor_next c))"
    using c by (auto simp: cursor_next_def Let_def indexes_def cursor_byteOffset_def cursor_ready_def)
  show "fst (cursor_next c) = nextGraphemeBoundary (utf8_text ss) (cursor_byteOffset c)"
  proof (cases "Suc ?n = length ?bs")
    case True
    then have last: "cursor_byteOffset c = length (utf8_text ss)" using last_boundary_index(1) [OF ss n] off(2) by simp
    have "nextGraphemeBoundary (utf8_text ss) (cursor_byteOffset c) = boundary (cursor_byteOffset c) AtEnd"
      using nextGraphemeBoundary_query [OF ss, of "cursor_byteOffset c"] last by simp
    with True bs ne show ?thesis by (simp add: cursor_next_def cursor_ready_def)
  next
    case False
    with n have sn: "Suc ?n < length ?bs" by simp
    have notlast: "cursor_byteOffset c \<noteq> length (utf8_text ss)" using last_boundary_index(1) [OF ss n] off(2) False by simp
    with boundary_is_cp [OF off(1)] have "\<exists>i < length ss. cursor_byteOffset c = cp_offset ss i"
      by (metis cp_offset_last le_neq_implies_less)
    with nextGraphemeBoundary_query [OF ss, of "cursor_byteOffset c"] notlast obtain b where
      b: "b \<in> set ?bs" "cursor_byteOffset c < b" "\<forall>b' \<in> set ?bs. cursor_byteOffset c < b' \<longrightarrow> b \<le> b'"
        "nextGraphemeBoundary (utf8_text ss) (cursor_byteOffset c) = boundary b Found"
      by auto
    have "b = ?bs ! Suc ?n" using sorted_next [OF sorted_uax29_boundaries [OF ss] sn b(1)] b(2,3) off(2) by simp
    with b(4) sn bs ne show ?thesis by (simp add: cursor_next_def cursor_ready_def cursor_byteOffset_def Let_def)
  qed
qed

lemma cursor_previous_query:
  assumes c: "indexes ss c"
  shows "fst (cursor_previous c) = previousGraphemeBoundary (utf8_text ss) (cursor_byteOffset c)"
    and "indexes ss (snd (cursor_previous c))"
    and "cursor_byteOffset (snd (cursor_previous c)) = byteOffset (fst (cursor_previous c))"
proof -
  let ?bs = "uax29_boundaries ss" and ?n = "currentBoundaryIndex c"
  have ss: "list_all isScalarValue ss" and bs: "boundaries c = ?bs" and n: "?n < length ?bs"
    using c by (auto simp: indexes_def)
  note off = cursor_offset_in [OF c] and ne = uax29_boundaries_ends(1) [of ss]
  show "indexes ss (snd (cursor_previous c))" using c by (auto simp: cursor_previous_def Let_def indexes_def)
  show "cursor_byteOffset (snd (cursor_previous c)) = byteOffset (fst (cursor_previous c))"
    using bs ne off(2) last_boundary_index(2) [OF ss n] by (auto simp: cursor_previous_def Let_def cursor_ready_def)
  show "fst (cursor_previous c) = previousGraphemeBoundary (utf8_text ss) (cursor_byteOffset c)"
  proof (cases ?n)
    case 0
    then have first: "cursor_byteOffset c = 0" using last_boundary_index(2) [OF ss n] off(2) by simp
    have "previousGraphemeBoundary (utf8_text ss) (cursor_byteOffset c) = boundary 0 AtBeginning"
      using previousGraphemeBoundary_query [OF ss, of "cursor_byteOffset c"] first by simp
    with 0 bs ne show ?thesis by (simp add: cursor_previous_def cursor_ready_def)
  next
    case (Suc k)
    with n have sn: "Suc k < length ?bs" by simp
    have notfirst: "cursor_byteOffset c \<noteq> 0" using last_boundary_index(2) [OF ss n] off(2) Suc by simp
    with boundary_is_cp [OF off(1)] have "\<exists>i < length ss. cursor_byteOffset c = cp_offset ss (Suc i)"
      by (metis cp_offset_0 Suc_le_lessD not0_implies_Suc)
    with previousGraphemeBoundary_query [OF ss, of "cursor_byteOffset c"] notfirst obtain b where
      b: "b \<in> set ?bs" "b < cursor_byteOffset c" "\<forall>b' \<in> set ?bs. b' < cursor_byteOffset c \<longrightarrow> b' \<le> b"
        "previousGraphemeBoundary (utf8_text ss) (cursor_byteOffset c) = boundary b Found"
      by auto
    have "b = ?bs ! k" using sorted_previous [OF sorted_uax29_boundaries [OF ss] sn b(1)] b(2,3) off(2) Suc by simp
    with b(4) Suc bs ne show ?thesis by (simp add: cursor_previous_def cursor_ready_def cursor_byteOffset_def Let_def)
  qed
qed

lemma cursor_seek_spec:
  assumes c: "indexes ss c"
  shows "cursor_seek c off =
    (if off \<in> set (uax29_boundaries ss)
     then (boundary off Found, c\<lparr>currentBoundaryIndex := lower_bound (uax29_boundaries ss) off\<rparr>)
     else (boundary off InvalidOffset, c))"
    and "indexes ss (snd (cursor_seek c off))"
    and "off \<in> set (uax29_boundaries ss) \<Longrightarrow> cursor_byteOffset (snd (cursor_seek c off)) = off"
proof -
  have ss: "list_all isScalarValue ss" and bs: "boundaries c = uax29_boundaries ss" using c by (auto simp: indexes_def)
  note hit = lower_bound_hit [OF sorted_uax29_boundaries [OF ss], of off] and ne = uax29_boundaries_ends(1) [of ss]
  show eq: "cursor_seek c off =
    (if off \<in> set (uax29_boundaries ss)
     then (boundary off Found, c\<lparr>currentBoundaryIndex := lower_bound (uax29_boundaries ss) off\<rparr>)
     else (boundary off InvalidOffset, c))"
    using hit(1) bs ne by (auto simp: cursor_seek_def cursor_ready_def Let_def)
  show "indexes ss (snd (cursor_seek c off))" "off \<in> set (uax29_boundaries ss) \<Longrightarrow> cursor_byteOffset (snd (cursor_seek c off)) = off"
    unfolding eq using c hit ne by (auto simp: indexes_def cursor_byteOffset_def cursor_ready_def le_neq_implies_less)
qed

text \<open>Cutting a text at one of its boundaries cuts its boundary list there.\<close>

lemma uax29_boundaries_take:
  assumes "k \<le> length ss" "is_boundary ss k"
  shows "uax29_boundaries ss = uax29_boundaries (take k ss) @ map (cp_offset ss) (filter (is_boundary ss) [Suc k..<Suc (length ss)])"
proof -
  have off: "cp_offset (take k ss) i = cp_offset ss i" if "i \<le> k" for i
    using that by (simp add: cp_offset_def min_def)
  have bound: "is_boundary (take k ss) i \<longleftrightarrow> is_boundary ss i" if "i \<le> k" for i
    using that assms by (cases "i = k") (auto simp: is_boundary_def break_at_def min_def)
  have "[0..<Suc (length ss)] = [0..<Suc k] @ [Suc k..<Suc (length ss)]"
    using assms(1) upt_add_eq_append [of 0 "Suc k" "length ss - k"] by simp
  moreover have "uax29_boundaries (take k ss) = map (cp_offset ss) (filter (is_boundary ss) [0..<Suc k])"
    unfolding grapheme_boundaries_uax29 [symmetric] grapheme_boundaries_def
    using assms(1) by (auto simp: off bound min_def simp del: upt.simps intro!: map_cong filter_cong)
  ultimately show ?thesis
    unfolding grapheme_boundaries_uax29 [symmetric] grapheme_boundaries_def [of ss] by (simp del: upt.simps)
qed

lemma discardAfterCurrent_indexes:
  assumes c: "indexes ss c" and k: "k \<le> length ss" "cursor_byteOffset c = cp_offset ss k"
  shows "indexes (take k ss) (discardAfterCurrent c)" "cursor_byteOffset (discardAfterCurrent c) = cursor_byteOffset c"
    "utf8_text (take k ss) = take (cursor_byteOffset c) (utf8_text ss)"
proof -
  let ?bs = "uax29_boundaries ss" and ?cut = "uax29_boundaries (take k ss)" and ?n = "currentBoundaryIndex c"
  have ss: "list_all isScalarValue ss" "list_all isScalarValue (take k ss)" and n: "?n < length ?bs" and bs: "boundaries c = ?bs"
    using c by (auto simp: indexes_def list_all_iff dest: in_set_takeD)
  have "is_boundary ss k"
    using cursor_offset_in(1) [OF c] k cp_offset_eq_iff [OF ss(1)] by (auto simp: set_uax29_boundaries)
  note cut = uax29_boundaries_take [OF k(1) this]
  have "length (utf8_text (take k ss)) = cp_offset ss k" by (simp add: cp_offset_def)
  then have "?bs ! (length ?cut - 1) = ?bs ! ?n"
    using uax29_boundaries_ends(1,3) [of "take k ss"] cursor_offset_in(2) [OF c] k(2)
    by (subst cut) (simp add: nth_append last_conv_nth)
  moreover have "length ?cut - 1 < length ?bs" using cut uax29_boundaries_ends(1) [of "take k ss"]
    by (metis One_nat_def diff_less length_append length_greater_0_conv less_Suc_eq trans_less_add1)
  ultimately have "length ?cut - 1 = ?n"
    using n sorted_nth_less_iff [OF sorted_uax29_boundaries [OF ss(1)]] by (metis linorder_less_linear order_less_irrefl)
  then have len: "Suc ?n = length ?cut" using uax29_boundaries_ends(1) [of "take k ss"] by (cases ?cut) auto
  then have "take (Suc ?n) ?bs = ?cut" by (subst cut) simp
  moreover from this have "?cut ! ?n = ?bs ! ?n" by (metis lessI nth_take)
  ultimately show "indexes (take k ss) (discardAfterCurrent c)" "cursor_byteOffset (discardAfterCurrent c) = cursor_byteOffset c"
    using ss len bs n by (auto simp: indexes_def discardAfterCurrent_def cursor_ready_def cursor_byteOffset_def)
  have "utf8_text ss = utf8_text (take k ss) @ utf8_text (drop k ss)"
    by (metis append_take_drop_id concat_append map_append)
  then show "utf8_text (take k ss) = take (cursor_byteOffset c) (utf8_text ss)"
    using \<open>length (utf8_text (take k ss)) = cp_offset ss k\<close> k(2) by simp
qed


section \<open>Properties\<close>

text \<open>
  \<open>reset\<close> indexes a well-formed text when the storage holds all its boundaries, otherwise reports how many it needs and clears
  the cursor; malformed text clears it too. The storage keeps its size and changes in no cell beyond the boundaries.
\<close>

theorem cursor_reset_correct:
  assumes "cursor_reset t st = (r, c, st')"
  shows "if validationOutcome8 (Utf8_validate t) = V_Valid
    then \<exists>ss. t = utf8_text ss \<and> list_all isScalarValue ss \<and> requiredBoundaryCount r = length (uax29_boundaries ss) \<and>
      st' = take (length st) (uax29_boundaries ss) @ drop (length (uax29_boundaries ss)) st \<and>
      (if length (uax29_boundaries ss) \<le> length st then indexOutcome r = Indexed \<and> indexes ss c \<and> cursor_byteOffset c = 0
       else indexOutcome r = G_DestinationTooSmall \<and> c = cursor_clear)
    else indexOutcome r = G_InvalidEncoding \<and> requiredBoundaryCount r = 0 \<and> c = cursor_clear"
proof (cases "valid_utf8 t")
  case True
  then obtain ss where ss: "list_all isScalarValue ss" "t = utf8_text ss" by (auto simp: valid_utf8_def)
  have "uax29_boundaries ss ! 0 = 0" using uax29_boundaries_ends(1,2) [of ss] by (simp add: hd_conv_nth)
  with reset_text [OF ss(1), of st] assms ss uax29_boundaries_ends(1) [of ss] have
    "t = utf8_text ss \<and> list_all isScalarValue ss \<and> requiredBoundaryCount r = length (uax29_boundaries ss) \<and>
      st' = take (length st) (uax29_boundaries ss) @ drop (length (uax29_boundaries ss)) st \<and>
      (if length (uax29_boundaries ss) \<le> length st then indexOutcome r = Indexed \<and> indexes ss c \<and> cursor_byteOffset c = 0
       else indexOutcome r = G_DestinationTooSmall \<and> c = cursor_clear)"
    by (auto simp: Let_def indexes_def cursor_byteOffset_def cursor_ready_def split: if_splits)
  with True show ?thesis by (simp only: Utf8_validate_iff if_True) blast
next
  case False
  with reset_invalid [OF False, of st] assms show ?thesis by (simp add: Utf8_validate_iff)
qed

theorem cursor_reset_correct_witness:
  "indexOutcome (fst (cursor_reset [0xFF] [7, 7])) = G_InvalidEncoding \<and> fst (snd (cursor_reset [0xFF] [7, 7])) = cursor_clear"
proof -
  have "validationOutcome8 (Utf8_validate [0xFF]) \<noteq> V_Valid" by code_simp
  with cursor_reset_correct [of "[0xFF]" "[7, 7]" "fst (cursor_reset [0xFF] [7, 7])" "fst (snd (cursor_reset [0xFF] [7, 7]))"
      "snd (snd (cursor_reset [0xFF] [7, 7]))"]
  show ?thesis by simp
qed

text \<open>
  The cursor refines the stateless queries: on the index of a text, a move gives the query's answer at the cursor's offset,
  leaves the cursor on the offset it reports, and the cursor still indexes the text.
\<close>

theorem cursor_refines_queries:
  assumes "indexes ss c"
  shows "fst (cursor_next c) = nextGraphemeBoundary (utf8_text ss) (cursor_byteOffset c) \<and>
    indexes ss (snd (cursor_next c)) \<and> cursor_byteOffset (snd (cursor_next c)) = byteOffset (fst (cursor_next c)) \<and>
    fst (cursor_previous c) = previousGraphemeBoundary (utf8_text ss) (cursor_byteOffset c) \<and>
    indexes ss (snd (cursor_previous c)) \<and> cursor_byteOffset (snd (cursor_previous c)) = byteOffset (fst (cursor_previous c))"
  using cursor_next_query [OF assms] cursor_previous_query [OF assms] by blast

lemma ab_boundaries: "uax29_boundaries [0x61, 0x62] = [0, 1, 2]"
  unfolding grapheme_boundaries_uax29 [symmetric] by code_simp

lemma ab_indexed: "indexes [0x61, 0x62] \<lparr>boundaries = [0, 1, 2], currentBoundaryIndex = 1\<rparr>"
  unfolding indexes_def ab_boundaries by (simp add: isScalarValue_def kMaximumScalarValue_def)

theorem cursor_refines_queries_witness:
  "nextGraphemeBoundary (utf8_text [0x61, 0x62]) 1 = boundary 2 Found"
proof -
  have "fst (cursor_next \<lparr>boundaries = [0, 1, 2], currentBoundaryIndex = 1\<rparr>) = boundary 2 Found"
    "cursor_byteOffset \<lparr>boundaries = [0, 1, 2], currentBoundaryIndex = 1\<rparr> = 1" by code_simp+
  with cursor_refines_queries [OF ab_indexed] show ?thesis by simp
qed

text \<open>
  Seeking reaches an offset exactly when it is a boundary, and discarding after the current boundary leaves an index of the text
  cut there.
\<close>

theorem cursor_seek_discard:
  assumes c: "indexes ss c"
  shows "(boundaryOutcome (fst (cursor_seek c off)) = Found \<longleftrightarrow> off \<in> set (uax29_boundaries ss)) \<and>
    indexes ss (snd (cursor_seek c off)) \<and>
    (off \<in> set (uax29_boundaries ss) \<longrightarrow> cursor_byteOffset (snd (cursor_seek c off)) = off) \<and>
    (\<exists>k \<le> length ss. utf8_text (take k ss) = take (cursor_byteOffset c) (utf8_text ss) \<and>
       indexes (take k ss) (discardAfterCurrent c) \<and> cursor_byteOffset (discardAfterCurrent c) = cursor_byteOffset c)"
proof -
  obtain k where k: "k \<le> length ss" "cursor_byteOffset c = cp_offset ss k"
    using boundary_is_cp [OF cursor_offset_in(1) [OF c]] .
  show ?thesis
    using cursor_seek_spec [OF c, of off] discardAfterCurrent_indexes [OF c k] k(1) by (auto simp: cursor_seek_spec(1) [OF c])
qed

theorem cursor_seek_discard_witness:
  "\<exists>k \<le> length [0x61, 0x62 :: char32]. utf8_text (take k [0x61, 0x62]) = take 1 (utf8_text [0x61, 0x62]) \<and>
    indexes (take k [0x61, 0x62]) (discardAfterCurrent \<lparr>boundaries = [0, 1, 2], currentBoundaryIndex = 1\<rparr>)"
proof -
  have "cursor_byteOffset \<lparr>boundaries = [0, 1, 2], currentBoundaryIndex = 1\<rparr> = 1" by code_simp
  with cursor_seek_discard [OF ab_indexed, of 0] show ?thesis by auto
qed

end
