(* ===== verification/IO_Status.thy ===== *)
theory IO_Status
  imports GW_Prelude
begin

text \<open>
  The status vocabulary of \<^verbatim>\<open>foundation/io/status.h\<close> and its helpers in \<^verbatim>\<open>foundation/io/core/io.cpp\<close>. A value
  of the enum's underlying type that names no enumerator is \<open>OtherErrorCode\<close>.
\<close>

datatype ErrorCode =
  Success | InvalidArgument | Unsupported | NotOpen | AlreadyOpen | NotFound | AlreadyExists
  | PermissionDenied | PathTooLong | IsDirectory | NotDirectory | NotSeekable | EndOfStream | OpenFailed
  | ReadFailed | WriteFailed | FlushFailed | CloseFailed | SeekFailed | StatFailed | RemoveFailed
  | ReplaceFailed | CopyFailed | MoveFailed | ResizeFailed | LockFailed | UnlockFailed
  | DirectoryCreateFailed | DirectoryListFailed | DirectoryNotEmpty | PartialRead | PartialWrite
  | SizeLimitExceeded | OutOfMemory | ResourceBusy | StorageFull | BrokenPipe | Interrupted | EncodingFailed
  | NativeFailure | Unknown
  | OtherErrorCode nat

record Status =
  code :: ErrorCode
  nativeCode :: int
  message :: string

definition ok :: "Status \<Rightarrow> bool" where
  "ok status \<longleftrightarrow> code status = Success"

definition makeStatus :: "ErrorCode \<Rightarrow> int \<Rightarrow> string \<Rightarrow> Status" where
  "makeStatus c native text = \<lparr>code = c, nativeCode = native, message = text\<rparr>"

definition successStatus :: Status where
  "successStatus = \<lparr>code = Success, nativeCode = 0, message = []\<rparr>"

text \<open>\<open>makeStatus\<close> with the default arguments of its declaration.\<close>

abbreviation statusOf :: "ErrorCode \<Rightarrow> Status" where
  "statusOf c \<equiv> makeStatus c 0 []"

fun errorCodeName :: "ErrorCode \<Rightarrow> string" where
  "errorCodeName Success = ''Success''"
| "errorCodeName InvalidArgument = ''InvalidArgument''"
| "errorCodeName Unsupported = ''Unsupported''"
| "errorCodeName NotOpen = ''NotOpen''"
| "errorCodeName AlreadyOpen = ''AlreadyOpen''"
| "errorCodeName NotFound = ''NotFound''"
| "errorCodeName AlreadyExists = ''AlreadyExists''"
| "errorCodeName PermissionDenied = ''PermissionDenied''"
| "errorCodeName PathTooLong = ''PathTooLong''"
| "errorCodeName IsDirectory = ''IsDirectory''"
| "errorCodeName NotDirectory = ''NotDirectory''"
| "errorCodeName NotSeekable = ''NotSeekable''"
| "errorCodeName EndOfStream = ''EndOfStream''"
| "errorCodeName OpenFailed = ''OpenFailed''"
| "errorCodeName ReadFailed = ''ReadFailed''"
| "errorCodeName WriteFailed = ''WriteFailed''"
| "errorCodeName FlushFailed = ''FlushFailed''"
| "errorCodeName CloseFailed = ''CloseFailed''"
| "errorCodeName SeekFailed = ''SeekFailed''"
| "errorCodeName StatFailed = ''StatFailed''"
| "errorCodeName RemoveFailed = ''RemoveFailed''"
| "errorCodeName ReplaceFailed = ''ReplaceFailed''"
| "errorCodeName CopyFailed = ''CopyFailed''"
| "errorCodeName MoveFailed = ''MoveFailed''"
| "errorCodeName ResizeFailed = ''ResizeFailed''"
| "errorCodeName LockFailed = ''LockFailed''"
| "errorCodeName UnlockFailed = ''UnlockFailed''"
| "errorCodeName DirectoryCreateFailed = ''DirectoryCreateFailed''"
| "errorCodeName DirectoryListFailed = ''DirectoryListFailed''"
| "errorCodeName DirectoryNotEmpty = ''DirectoryNotEmpty''"
| "errorCodeName PartialRead = ''PartialRead''"
| "errorCodeName PartialWrite = ''PartialWrite''"
| "errorCodeName SizeLimitExceeded = ''SizeLimitExceeded''"
| "errorCodeName OutOfMemory = ''OutOfMemory''"
| "errorCodeName ResourceBusy = ''ResourceBusy''"
| "errorCodeName StorageFull = ''StorageFull''"
| "errorCodeName BrokenPipe = ''BrokenPipe''"
| "errorCodeName Interrupted = ''Interrupted''"
| "errorCodeName EncodingFailed = ''EncodingFailed''"
| "errorCodeName NativeFailure = ''NativeFailure''"
| "errorCodeName Unknown = ''Unknown''"
| "errorCodeName (OtherErrorCode n) = ''Unknown''"

text \<open>Exceptions a standard container may throw, and the status each \<open>catch\<close> clause of the library gives them.\<close>

datatype exception_kind = bad_alloc | length_error | other_exception

fun exceptionCode :: "exception_kind \<Rightarrow> ErrorCode" where
  "exceptionCode bad_alloc = OutOfMemory"
| "exceptionCode length_error = SizeLimitExceeded"
| "exceptionCode other_exception = Unknown"

lemma ok_makeStatus [simp]: "ok (makeStatus c native text) \<longleftrightarrow> c = Success"
  by (simp add: ok_def makeStatus_def)

lemma ok_successStatus [simp]: "ok successStatus"
  by (simp add: ok_def successStatus_def)

lemma code_makeStatus [simp]: "code (makeStatus c native text) = c"
  by (simp add: makeStatus_def)

lemma code_successStatus [simp]: "code successStatus = Success"
  by (simp add: successStatus_def)

lemma exceptionCode_failure [simp]: "exceptionCode e \<noteq> Success"
  by (cases e) simp_all

text \<open>The names the enumerators have in the header, in its order.\<close>

definition ErrorCodes :: "ErrorCode list" where
  "ErrorCodes = [Success, InvalidArgument, Unsupported, NotOpen, AlreadyOpen, NotFound, AlreadyExists, PermissionDenied, PathTooLong, IsDirectory, NotDirectory, NotSeekable, EndOfStream, OpenFailed, ReadFailed, WriteFailed, FlushFailed, CloseFailed, SeekFailed, StatFailed, RemoveFailed, ReplaceFailed, CopyFailed, MoveFailed, ResizeFailed, LockFailed, UnlockFailed, DirectoryCreateFailed, DirectoryListFailed, DirectoryNotEmpty, PartialRead, PartialWrite, SizeLimitExceeded, OutOfMemory, ResourceBusy, StorageFull, BrokenPipe, Interrupted, EncodingFailed, NativeFailure, Unknown]"

lemma ErrorCodes_complete: "c \<in> set ErrorCodes \<or> (\<exists>n. c = OtherErrorCode n)"
  by (cases c) (simp_all add: ErrorCodes_def)

lemma distinct_names: "distinct (map errorCodeName ErrorCodes)"
  unfolding ErrorCodes_def by code_simp

end
