(* ===== verification/IO_Stream.thy ===== *)
theory IO_Stream
  imports IO_Status
begin

text \<open>
  The reader and writer interfaces of \<^verbatim>\<open>foundation/io/stream.h\<close>. A virtual interface over an implementation's
  state \<open>'s\<close> is a record of its operations; a buffer passed by span is passed by value and returned with its contents
  afterwards. The base-class defaults are definitions an implementation may put into its record.
\<close>

section \<open>Results\<close>

datatype SeekOrigin = Begin | Current | End | OtherSeekOrigin nat

datatype FlushMode = FM_None | Data | DataAndMetadataBestEffort | OtherFlushMode nat

record ReadResult =
  readStatus :: Status
  bytesRead :: nat
  endOfStream :: bool

record WriteResult =
  writeStatus :: Status
  bytesWritten :: nat

record PositionResult =
  positionStatus :: Status
  position :: nat

record SizeResult =
  sizeStatus :: Status
  sizeBytes :: nat

fun isValidFlushMode :: "FlushMode \<Rightarrow> bool" where
  "isValidFlushMode FM_None = True"
| "isValidFlushMode Data = True"
| "isValidFlushMode DataAndMetadataBestEffort = True"
| "isValidFlushMode (OtherFlushMode n) = False"

section \<open>Interfaces\<close>

text \<open>A read-only span: where it starts and the bytes it shows.\<close>

record byte_view =
  view_data :: nat
  view_elems :: "byte list"

definition subview :: "nat \<Rightarrow> byte_view \<Rightarrow> byte_view" where
  "subview n bytes = \<lparr>view_data = view_data bytes + n, view_elems = drop n (view_elems bytes)\<rparr>"

record 's Reader =
  reader_isOpen :: "'s \<Rightarrow> bool"
  reader_canSeek :: "'s \<Rightarrow> bool"
  reader_read :: "'s \<Rightarrow> byte list \<Rightarrow> ReadResult \<times> byte list \<times> 's"
  reader_close :: "'s \<Rightarrow> Status \<times> 's"
  reader_position :: "'s \<Rightarrow> PositionResult"
  reader_size :: "'s \<Rightarrow> SizeResult"
  reader_seek :: "'s \<Rightarrow> int \<Rightarrow> SeekOrigin \<Rightarrow> Status \<times> 's"

record 's Writer =
  writer_isOpen :: "'s \<Rightarrow> bool"
  writer_canSeek :: "'s \<Rightarrow> bool"
  writer_write :: "'s \<Rightarrow> byte_view \<Rightarrow> WriteResult \<times> 's"
  writer_flush :: "'s \<Rightarrow> FlushMode \<Rightarrow> Status \<times> 's"
  writer_close :: "'s \<Rightarrow> Status \<times> 's"
  writer_position :: "'s \<Rightarrow> PositionResult"
  writer_seek :: "'s \<Rightarrow> int \<Rightarrow> SeekOrigin \<Rightarrow> Status \<times> 's"

section \<open>Base-class defaults\<close>

definition Reader_isOpen :: "'s \<Rightarrow> bool" where "Reader_isOpen s = True"

definition Reader_canSeek :: "'s \<Rightarrow> bool" where "Reader_canSeek s = False"

definition Reader_close :: "'s \<Rightarrow> Status \<times> 's" where "Reader_close s = (successStatus, s)"

definition Reader_position :: "'s \<Rightarrow> PositionResult" where
  "Reader_position s = \<lparr>positionStatus = statusOf NotSeekable, position = 0\<rparr>"

definition Reader_size :: "'s \<Rightarrow> SizeResult" where
  "Reader_size s = \<lparr>sizeStatus = statusOf NotSeekable, sizeBytes = 0\<rparr>"

definition Reader_seek :: "'s \<Rightarrow> int \<Rightarrow> SeekOrigin \<Rightarrow> Status \<times> 's" where
  "Reader_seek s offset origin = (statusOf NotSeekable, s)"

definition Writer_isOpen :: "'s \<Rightarrow> bool" where "Writer_isOpen s = True"

definition Writer_canSeek :: "'s \<Rightarrow> bool" where "Writer_canSeek s = False"

definition Writer_flush :: "'s \<Rightarrow> FlushMode \<Rightarrow> Status \<times> 's" where
  "Writer_flush s mode = (if \<not> isValidFlushMode mode then (statusOf InvalidArgument, s) else (successStatus, s))"

definition Writer_close :: "'s \<Rightarrow> Status \<times> 's" where "Writer_close s = (successStatus, s)"

definition Writer_position :: "'s \<Rightarrow> PositionResult" where
  "Writer_position s = \<lparr>positionStatus = statusOf NotSeekable, position = 0\<rparr>"

definition Writer_seek :: "'s \<Rightarrow> int \<Rightarrow> SeekOrigin \<Rightarrow> Status \<times> 's" where
  "Writer_seek s offset origin = (statusOf NotSeekable, s)"

section \<open>Contracts\<close>

text \<open>
  What \<open>read\<close> promises of a healthy stream: \<open>remaining s\<close> are the bytes not yet delivered. Reads may be short; a
  successful zero-byte read means an empty request or the end of the stream. The laws hold on the states \<open>inv\<close>.
\<close>

locale byte_source =
  fixes rd :: "'s Reader"
    and inv :: "'s \<Rightarrow> bool"
    and remaining :: "'s \<Rightarrow> byte list"
  assumes read_law: "inv s \<Longrightarrow> reader_read rd s dest = (r, dest', s') \<Longrightarrow>
      ok (readStatus r) \<and> bytesRead r \<le> length dest \<and> bytesRead r \<le> length (remaining s) \<and>
      dest' = take (bytesRead r) (remaining s) @ drop (bytesRead r) dest \<and>
      remaining s' = drop (bytesRead r) (remaining s) \<and> (endOfStream r \<longrightarrow> remaining s' = []) \<and>
      (dest \<noteq> [] \<and> bytesRead r = 0 \<longrightarrow> endOfStream r) \<and> inv s'"

text \<open>A source that also knows its size and position.\<close>

locale sized_source = byte_source +
  assumes size_law: "inv s \<Longrightarrow> ok (sizeStatus (reader_size rd s)) \<and> ok (positionStatus (reader_position rd s)) \<and>
      position (reader_position rd s) \<le> sizeBytes (reader_size rd s) \<and>
      sizeBytes (reader_size rd s) - position (reader_position rd s) = length (remaining s)"

text \<open>
  A source whose calls may fail at any time: only what it reports with success is right. A source with the stronger contract is one.
\<close>

locale honest_source =
  fixes rd :: "'s Reader"
    and inv :: "'s \<Rightarrow> bool"
    and remaining :: "'s \<Rightarrow> byte list"
  assumes honest_read: "inv s \<Longrightarrow> reader_read rd s dest = (r, dest', s') \<Longrightarrow> ok (readStatus r) \<Longrightarrow>
      bytesRead r \<le> length dest \<and> bytesRead r \<le> length (remaining s) \<and>
      dest' = take (bytesRead r) (remaining s) @ drop (bytesRead r) dest \<and>
      remaining s' = drop (bytesRead r) (remaining s) \<and> (endOfStream r \<longrightarrow> remaining s' = []) \<and> inv s'"
    and honest_size: "inv s \<Longrightarrow> ok (sizeStatus (reader_size rd s)) \<Longrightarrow> ok (positionStatus (reader_position rd s)) \<Longrightarrow>
      sizeBytes (reader_size rd s) - position (reader_position rd s) = length (remaining s)"

sublocale sized_source \<subseteq> honest_source
proof
  fix s dest r dest' s'
  assume "inv s" "reader_read rd s dest = (r, dest', s')"
  from read_law [OF this]
  show "bytesRead r \<le> length dest \<and> bytesRead r \<le> length (remaining s) \<and> dest' = take (bytesRead r) (remaining s) @ drop (bytesRead r) dest \<and>
      remaining s' = drop (bytesRead r) (remaining s) \<and> (endOfStream r \<longrightarrow> remaining s' = []) \<and> inv s'" by blast
next
  fix s
  assume "inv s"
  then show "sizeBytes (reader_size rd s) - position (reader_position rd s) = length (remaining s)" using size_law by blast
qed

text \<open>A sink keeps what it accepts, in order. \<open>accepts s bytes\<close> says that the sink can read the view it is handed.\<close>

locale byte_sink =
  fixes wr :: "'s Writer"
    and inv :: "'s \<Rightarrow> bool"
    and accepts :: "'s \<Rightarrow> byte_view \<Rightarrow> bool"
    and written :: "'s \<Rightarrow> byte list"
  assumes write_law: "inv s \<Longrightarrow> accepts s bytes \<Longrightarrow> writer_write wr s bytes = (r, s') \<Longrightarrow>
      bytesWritten r \<le> length (view_elems bytes) \<and> written s' = written s @ take (bytesWritten r) (view_elems bytes) \<and>
      (ok (writeStatus r) \<and> view_elems bytes \<noteq> [] \<longrightarrow> 0 < bytesWritten r) \<and> inv s' \<and>
      (ok (writeStatus r) \<and> bytesWritten r < length (view_elems bytes) \<longrightarrow> accepts s' (subview (bytesWritten r) bytes))"

end
