(* ===== verification/IO_Memory.thy ===== *)
theory IO_Memory
  imports IO_Stream Unicode_Text
begin

text \<open>
  \<^verbatim>\<open>MemoryReader\<close> and \<^verbatim>\<open>MemoryWriter\<close> of \<^verbatim>\<open>foundation/io/memory.h\<close> and \<^verbatim>\<open>core/io.cpp\<close>. The reader borrows memory and its
  destination may overlap it, so it runs over a byte store with explicit addresses. The writer owns a vector: an
  address, elements and a capacity, grown by an allocator that is a parameter.
\<close>

section \<open>Memory reader\<close>

type_synonym store = "nat \<Rightarrow> byte"

definition region :: "store \<Rightarrow> nat \<Rightarrow> nat \<Rightarrow> byte list" where
  "region m address n = map (\<lambda>k. m (address + k)) [0..<n]"

definition put_region :: "store \<Rightarrow> nat \<Rightarrow> byte list \<Rightarrow> store" where
  "put_region m address bytes = (\<lambda>p. if address \<le> p \<and> p < address + length bytes then bytes ! (p - address) else m p)"

fun ranges_copy :: "store \<Rightarrow> nat \<Rightarrow> nat \<Rightarrow> nat \<Rightarrow> store" where
  "ranges_copy m source target 0 = m"
| "ranges_copy m source target (Suc n) = ranges_copy (m(target := m source)) (source + 1) (target + 1) n"

fun ranges_copy_backward :: "store \<Rightarrow> nat \<Rightarrow> nat \<Rightarrow> nat \<Rightarrow> store" where
  "ranges_copy_backward m source target 0 = m"
| "ranges_copy_backward m source target (Suc n) = ranges_copy_backward (m(target + n := m (source + n))) source target n"

record MemoryReader =
  source_data :: nat
  source_size :: nat
  reader_pos :: nat
  reader_open :: bool

definition MemoryReader_new :: "nat \<Rightarrow> nat \<Rightarrow> MemoryReader" where
  "MemoryReader_new address n = \<lparr>source_data = address, source_size = n, reader_pos = 0, reader_open = True\<rparr>"

definition MemoryReader_isOpen :: "MemoryReader \<Rightarrow> bool" where
  "MemoryReader_isOpen reader = reader_open reader"

definition MemoryReader_canSeek :: "MemoryReader \<Rightarrow> bool" where
  "MemoryReader_canSeek reader = MemoryReader_isOpen reader"

abbreviation readResult :: "Status \<Rightarrow> nat \<Rightarrow> bool \<Rightarrow> ReadResult" where
  "readResult status count atEnd \<equiv> \<lparr>readStatus = status, bytesRead = count, endOfStream = atEnd\<rparr>"

definition MemoryReader_read :: "store \<Rightarrow> MemoryReader \<Rightarrow> nat \<Rightarrow> nat \<Rightarrow> ReadResult \<times> store \<times> MemoryReader" where
  "MemoryReader_read m reader destination destinationSize =
    (if \<not> reader_open reader then (readResult (statusOf NotOpen) 0 False, m, reader)
     else if reader_pos reader > source_size reader then (readResult (statusOf InvalidArgument) 0 False, m, reader)
     else if destinationSize = 0 then (readResult successStatus 0 (reader_pos reader \<ge> source_size reader), m, reader)
     else if reader_pos reader \<ge> source_size reader then (readResult successStatus 0 True, m, reader)
     else let available = source_size reader - reader_pos reader;
              count = min destinationSize available;
              source = source_data reader + reader_pos reader;
              m' = (if source < destination \<and> destination < source + count
                    then ranges_copy_backward m source destination count
                    else ranges_copy m source destination count);
              reader' = reader\<lparr>reader_pos := reader_pos reader + count\<rparr>
       in (readResult successStatus count (reader_pos reader' = source_size reader), m', reader'))"

definition MemoryReader_close :: "MemoryReader \<Rightarrow> Status \<times> MemoryReader" where
  "MemoryReader_close reader = (successStatus, reader\<lparr>reader_open := False\<rparr>)"

definition MemoryReader_position :: "MemoryReader \<Rightarrow> PositionResult" where
  "MemoryReader_position reader =
    (if \<not> reader_open reader then \<lparr>positionStatus = statusOf NotOpen, position = 0\<rparr>
     else \<lparr>positionStatus = successStatus, position = reader_pos reader\<rparr>)"

definition MemoryReader_size :: "MemoryReader \<Rightarrow> SizeResult" where
  "MemoryReader_size reader =
    (if \<not> reader_open reader then \<lparr>sizeStatus = statusOf NotOpen, sizeBytes = 0\<rparr>
     else \<lparr>sizeStatus = successStatus, sizeBytes = source_size reader\<rparr>)"

definition int64_max :: int where "int64_max = 2 ^ 63 - 1"

definition int64_min :: int where "int64_min = - (2 ^ 63)"

definition MemoryReader_seek :: "MemoryReader \<Rightarrow> int \<Rightarrow> SeekOrigin \<Rightarrow> Status \<times> MemoryReader" where
  "MemoryReader_seek reader offset origin =
    (if \<not> reader_open reader then (statusOf NotOpen, reader)
     else if int (source_size reader) > int64_max then (statusOf SizeLimitExceeded, reader)
     else let sourceSize = int (source_size reader) in
     if int (reader_pos reader) > sourceSize then (statusOf InvalidArgument, reader)
     else case (case origin of Begin \<Rightarrow> Some 0 | Current \<Rightarrow> Some (int (reader_pos reader)) | End \<Rightarrow> Some sourceSize
                  | OtherSeekOrigin n \<Rightarrow> None) of
         None \<Rightarrow> (statusOf InvalidArgument, reader)
       | Some base \<Rightarrow>
           if offset < - base \<or> offset > sourceSize - base then (statusOf SeekFailed, reader)
           else let target = base + offset in (successStatus, reader\<lparr>reader_pos := nat target\<rparr>))"

text \<open>
  The reader behind the \<^verbatim>\<open>Reader\<close> interface: the destination buffer is placed at the address \<open>buffer\<close> of the store the
  reader borrows from.
\<close>

definition memoryReader :: "nat \<Rightarrow> (store \<times> MemoryReader) Reader" where
  "memoryReader buffer = \<lparr>
     reader_isOpen = (\<lambda>(m, reader). MemoryReader_isOpen reader),
     reader_canSeek = (\<lambda>(m, reader). MemoryReader_canSeek reader),
     reader_read = (\<lambda>(m, reader) dest.
       case MemoryReader_read (put_region m buffer dest) reader buffer (length dest) of
         (r, m', reader') \<Rightarrow> (r, region m' buffer (length dest), (m', reader'))),
     reader_close = (\<lambda>(m, reader). case MemoryReader_close reader of (r, reader') \<Rightarrow> (r, (m, reader'))),
     reader_position = (\<lambda>(m, reader). MemoryReader_position reader),
     reader_size = (\<lambda>(m, reader). MemoryReader_size reader),
     reader_seek = (\<lambda>(m, reader) offset origin. case MemoryReader_seek reader offset origin of (r, reader') \<Rightarrow> (r, (m, reader')))\<rparr>"

section \<open>Memory writer\<close>

record byte_vector =
  vec_data :: nat
  vec_elems :: "byte list"
  vec_capacity :: nat

text \<open>\<open>released\<close> is what a read at an address of storage that has been given back delivers: any byte.\<close>

record allocator =
  max_size :: nat
  allocate :: "nat \<Rightarrow> exception_kind + nat \<times> nat"
  released :: "nat \<Rightarrow> byte"

definition vector_resize :: "allocator \<Rightarrow> byte_vector \<Rightarrow> byte list \<Rightarrow> exception_kind + byte_vector" where
  "vector_resize env v elems =
    (if length elems \<le> vec_capacity v then Inr (v\<lparr>vec_elems := elems\<rparr>)
     else case allocate env (length elems) of
         Inl e \<Rightarrow> Inl e
       | Inr (address, cap) \<Rightarrow> Inr \<lparr>vec_data = address, vec_elems = elems, vec_capacity = cap\<rparr>)"

text \<open>
  Inserting a range at the end reads the range's bytes from their addresses while the elements are put into the new storage. A byte
  that lay in the vector's own storage is gone once growing has moved the elements, which is why a vector may not be inserted into
  itself.
\<close>

definition read_input :: "allocator \<Rightarrow> byte_vector \<Rightarrow> bool \<Rightarrow> byte_view \<Rightarrow> nat \<Rightarrow> byte" where
  "read_input env v moves bytes k =
    (let address = view_data bytes + k in
     if moves \<and> vec_data v \<noteq> 0 \<and> vec_data v \<le> address \<and> address < vec_data v + length (vec_elems v) then released env address
     else view_elems bytes ! k)"

definition vector_insert_end :: "allocator \<Rightarrow> byte_vector \<Rightarrow> byte_view \<Rightarrow> exception_kind + byte_vector" where
  "vector_insert_end env v bytes =
    (let oldSize = length (vec_elems v); inputSize = length (view_elems bytes); moves = oldSize + inputSize > vec_capacity v in
     case vector_resize env v (vec_elems v @ replicate inputSize 0) of
       Inl e \<Rightarrow> Inl e
     | Inr grown \<Rightarrow> Inr (grown\<lparr>vec_elems := take oldSize (vec_elems grown) @ map (read_input env v moves bytes) [0..<inputSize]\<rparr>))"

record MemoryWriter =
  writer_bytes :: byte_vector
  writer_open :: bool

definition MemoryWriter_new :: MemoryWriter where
  "MemoryWriter_new = \<lparr>writer_bytes = \<lparr>vec_data = 0, vec_elems = [], vec_capacity = 0\<rparr>, writer_open = True\<rparr>"

definition appendAliasedBytes :: "allocator \<Rightarrow> byte_vector \<Rightarrow> nat \<Rightarrow> nat \<Rightarrow> Status \<times> byte_vector" where
  "appendAliasedBytes env destination sourceOffset sourceSize =
    (let oldSize = length (vec_elems destination) in
     if sourceOffset > oldSize \<or> sourceSize > oldSize - sourceOffset then (statusOf InvalidArgument, destination)
     else if sourceSize > max_size env - oldSize then (statusOf SizeLimitExceeded, destination)
     else case vector_resize env destination (vec_elems destination @ replicate sourceSize 0) of
         Inl e \<Rightarrow> (statusOf (exceptionCode e), destination)
       | Inr v \<Rightarrow> (successStatus, v\<lparr>vec_elems := take oldSize (vec_elems v) @ substr (vec_elems v) sourceOffset sourceSize\<rparr>))"

definition MemoryWriter_isOpen :: "MemoryWriter \<Rightarrow> bool" where
  "MemoryWriter_isOpen writer = writer_open writer"

definition MemoryWriter_canSeek :: "MemoryWriter \<Rightarrow> bool" where
  "MemoryWriter_canSeek writer = False"

abbreviation writeResult :: "Status \<Rightarrow> nat \<Rightarrow> WriteResult" where
  "writeResult status count \<equiv> \<lparr>writeStatus = status, bytesWritten = count\<rparr>"

definition MemoryWriter_write :: "allocator \<Rightarrow> MemoryWriter \<Rightarrow> byte_view \<Rightarrow> WriteResult \<times> MemoryWriter" where
  "MemoryWriter_write env writer bytes =
    (if \<not> writer_open writer then (writeResult (statusOf NotOpen) 0, writer)
     else if view_elems bytes = [] then (writeResult successStatus 0, writer)
     else let v = writer_bytes writer; oldSize = length (vec_elems v); inputSize = length (view_elems bytes) in
     if inputSize > max_size env - oldSize then (writeResult (statusOf SizeLimitExceeded) 0, writer)
     else let inputBegin = view_data bytes; ownBegin = vec_data v;
              ownEnd = (if ownBegin = 0 then 0 else ownBegin + oldSize) in
     if ownBegin \<noteq> 0 \<and> \<not> inputBegin < ownBegin \<and> inputBegin < ownEnd then
       (case appendAliasedBytes env v (inputBegin - ownBegin) inputSize of (appendStatus, v') \<Rightarrow>
          if \<not> ok appendStatus then (writeResult appendStatus 0, writer\<lparr>writer_bytes := v'\<rparr>)
          else (writeResult successStatus inputSize, writer\<lparr>writer_bytes := v'\<rparr>))
     else case vector_insert_end env v bytes of
         Inl e \<Rightarrow> (writeResult (statusOf (exceptionCode e)) 0, writer)
       | Inr v' \<Rightarrow> (writeResult successStatus inputSize, writer\<lparr>writer_bytes := v'\<rparr>))"

definition MemoryWriter_flush :: "MemoryWriter \<Rightarrow> FlushMode \<Rightarrow> Status \<times> MemoryWriter" where
  "MemoryWriter_flush writer mode =
    (if \<not> isValidFlushMode mode then (statusOf InvalidArgument, writer)
     else if \<not> writer_open writer then (statusOf NotOpen, writer)
     else (successStatus, writer))"

definition MemoryWriter_close :: "MemoryWriter \<Rightarrow> Status \<times> MemoryWriter" where
  "MemoryWriter_close writer = (successStatus, writer\<lparr>writer_open := False\<rparr>)"

definition MemoryWriter_position :: "MemoryWriter \<Rightarrow> PositionResult" where
  "MemoryWriter_position writer =
    (if \<not> writer_open writer then \<lparr>positionStatus = statusOf NotOpen, position = 0\<rparr>
     else \<lparr>positionStatus = successStatus, position = length (vec_elems (writer_bytes writer))\<rparr>)"

definition MemoryWriter_reserve :: "allocator \<Rightarrow> MemoryWriter \<Rightarrow> nat \<Rightarrow> Status \<times> MemoryWriter" where
  "MemoryWriter_reserve env writer newCapacity =
    (let v = writer_bytes writer in
     if newCapacity > max_size env then (statusOf SizeLimitExceeded, writer)
     else if newCapacity \<le> vec_capacity v then (successStatus, writer)
     else case allocate env newCapacity of
         Inl e \<Rightarrow> (statusOf (exceptionCode e), writer)
       | Inr (address, cap) \<Rightarrow> (successStatus, writer\<lparr>writer_bytes := v\<lparr>vec_data := address, vec_capacity := cap\<rparr>\<rparr>))"

definition MemoryWriter_bytes :: "MemoryWriter \<Rightarrow> byte_view" where
  "MemoryWriter_bytes writer = \<lparr>view_data = vec_data (writer_bytes writer), view_elems = vec_elems (writer_bytes writer)\<rparr>"

record CopyTextResult =
  copyStatus :: Status
  copyText :: "byte list"

definition MemoryWriter_copyText :: "nat \<Rightarrow> (nat \<Rightarrow> exception_kind option) \<Rightarrow> MemoryWriter \<Rightarrow> CopyTextResult" where
  "MemoryWriter_copyText stringMaxSize assignText writer =
    (let view = view_elems (MemoryWriter_bytes writer) in
     if view = [] then \<lparr>copyStatus = successStatus, copyText = []\<rparr>
     else if length view > stringMaxSize then \<lparr>copyStatus = statusOf SizeLimitExceeded, copyText = []\<rparr>
     else if validationOutcome8 (Utf8_validate view) \<noteq> V_Valid then \<lparr>copyStatus = statusOf EncodingFailed, copyText = []\<rparr>
     else case assignText (length view) of
         Some e \<Rightarrow> \<lparr>copyStatus = statusOf (exceptionCode e), copyText = []\<rparr>
       | None \<Rightarrow> \<lparr>copyStatus = successStatus, copyText = view\<rparr>)"

definition MemoryWriter_takeBytes :: "MemoryWriter \<Rightarrow> byte list \<times> MemoryWriter" where
  "MemoryWriter_takeBytes writer =
    (vec_elems (writer_bytes writer), writer\<lparr>writer_bytes := \<lparr>vec_data = 0, vec_elems = [], vec_capacity = 0\<rparr>\<rparr>)"

definition MemoryWriter_size :: "MemoryWriter \<Rightarrow> nat" where
  "MemoryWriter_size writer = length (vec_elems (writer_bytes writer))"

definition MemoryWriter_capacity :: "MemoryWriter \<Rightarrow> nat" where
  "MemoryWriter_capacity writer = vec_capacity (writer_bytes writer)"

definition MemoryWriter_empty :: "MemoryWriter \<Rightarrow> bool" where
  "MemoryWriter_empty writer \<longleftrightarrow> vec_elems (writer_bytes writer) = []"

definition MemoryWriter_clear :: "MemoryWriter \<Rightarrow> MemoryWriter" where
  "MemoryWriter_clear writer = writer\<lparr>writer_bytes := (writer_bytes writer)\<lparr>vec_elems := []\<rparr>\<rparr>"

text \<open>The writer behind the \<^verbatim>\<open>Writer\<close> interface; \<open>seek\<close> is the base class's.\<close>

definition memoryWriter :: "allocator \<Rightarrow> MemoryWriter Writer" where
  "memoryWriter env = \<lparr>
     writer_isOpen = MemoryWriter_isOpen,
     writer_canSeek = MemoryWriter_canSeek,
     writer_write = MemoryWriter_write env,
     writer_flush = MemoryWriter_flush,
     writer_close = MemoryWriter_close,
     writer_position = MemoryWriter_position,
     writer_seek = Writer_seek\<rparr>"

section \<open>Copying between overlapping ranges\<close>

definition moved :: "store \<Rightarrow> nat \<Rightarrow> nat \<Rightarrow> nat \<Rightarrow> store" where
  "moved m source target n = (\<lambda>p. if target \<le> p \<and> p < target + n then m (source + (p - target)) else m p)"

lemma ranges_copy_moved: "target \<le> source \<or> source + n \<le> target \<Longrightarrow> ranges_copy m source target n = moved m source target n"
proof (induction m source target n rule: ranges_copy.induct)
  case (2 m source target n)
  then have "target + 1 \<le> source + 1 \<or> source + 1 + n \<le> target + 1" by auto
  from 2(1) [OF this] have "ranges_copy m source target (Suc n) = moved (m(target := m source)) (source + 1) (target + 1) n"
    unfolding ranges_copy.simps .
  also have "\<dots> = moved m source target (Suc n)"
    using 2(2) by (auto simp: moved_def fun_eq_iff Suc_diff_Suc)
  finally show ?case .
qed (auto simp: moved_def fun_eq_iff)

lemma ranges_copy_backward_moved: "source \<le> target \<Longrightarrow> ranges_copy_backward m source target n = moved m source target n"
proof (induction m source target n rule: ranges_copy_backward.induct)
  case (2 m source target n)
  from 2(1) [OF 2(2)] have "ranges_copy_backward m source target (Suc n) = moved (m(target + n := m (source + n))) source target n"
    unfolding ranges_copy_backward.simps .
  also have "\<dots> = moved m source target (Suc n)"
    using 2(2) by (auto simp: moved_def fun_eq_iff)
  finally show ?case .
qed (auto simp: moved_def fun_eq_iff)

lemma region_moved: "region (moved m source target n) target n = region m source n"
  by (simp add: region_def moved_def)

lemma length_region [simp]: "length (region m a n) = n"
  by (simp add: region_def)

lemma region_append: "region m a (n + k) = region m a n @ region m (a + n) k"
  by (auto simp: region_def list_eq_iff_nth_eq nth_append add.assoc)

lemma region_cong: "(\<And>p. a \<le> p \<Longrightarrow> p < a + n \<Longrightarrow> m p = m' p) \<Longrightarrow> region m a n = region m' a n"
  by (simp add: region_def)

lemma region_put_same: "region (put_region m a xs) a (length xs) = xs"
  by (rule nth_equalityI) (simp_all add: region_def put_region_def)

section \<open>Memory reader\<close>

definition reader_wf :: "MemoryReader \<Rightarrow> bool" where
  "reader_wf reader \<longleftrightarrow> reader_pos reader \<le> source_size reader"

lemma MemoryReader_read_open:
  assumes "reader_open reader" "reader_wf reader"
  shows "MemoryReader_read m reader dest n =
    (let count = min n (source_size reader - reader_pos reader)
     in (readResult successStatus count (reader_pos reader + count = source_size reader),
         moved m (source_data reader + reader_pos reader) dest count, reader\<lparr>reader_pos := reader_pos reader + count\<rparr>))"
proof -
  have copy: "(if s < dest \<and> dest < s + c then ranges_copy_backward m s dest c else ranges_copy m s dest c) = moved m s dest c" for s c
    using ranges_copy_moved [of dest s c m] ranges_copy_backward_moved [of s dest m c] by auto
  have none: "moved m s dest 0 = m" for s by (auto simp: moved_def fun_eq_iff)
  have keep: "reader\<lparr>reader_pos := reader_pos reader\<rparr> = reader" by simp
  show ?thesis
    using assms unfolding MemoryReader_read_def copy
    by (auto simp: Let_def reader_wf_def none keep)
qed

lemma MemoryReader_read_wf:
  "reader_wf reader \<Longrightarrow> MemoryReader_read m reader dest n = (r, m', reader') \<Longrightarrow> reader_wf reader'"
  by (auto simp: MemoryReader_read_def Let_def reader_wf_def split: if_splits)

lemma MemoryReader_seek_spec:
  assumes "reader_open reader" "reader_wf reader" "int (source_size reader) \<le> int64_max"
  shows "MemoryReader_seek reader offset origin =
    (case origin of
       OtherSeekOrigin n \<Rightarrow> (statusOf InvalidArgument, reader)
     | _ \<Rightarrow> let target = (case origin of Begin \<Rightarrow> 0 | Current \<Rightarrow> int (reader_pos reader) | _ \<Rightarrow> int (source_size reader)) + offset
       in if 0 \<le> target \<and> target \<le> int (source_size reader) then (successStatus, reader\<lparr>reader_pos := nat target\<rparr>)
          else (statusOf SeekFailed, reader))"
  using assms by (cases origin) (auto simp: MemoryReader_seek_def Let_def reader_wf_def)

lemma MemoryReader_seek_wf:
  "reader_wf reader \<Longrightarrow> MemoryReader_seek reader offset origin = (r, reader') \<Longrightarrow> reader_wf reader'"
  by (cases origin) (auto simp: MemoryReader_seek_def Let_def reader_wf_def split: if_splits)

definition reader_remaining :: "store \<times> MemoryReader \<Rightarrow> byte list" where
  "reader_remaining = (\<lambda>(m, reader). region m (source_data reader + reader_pos reader) (source_size reader - reader_pos reader))"

definition reader_inv :: "nat \<Rightarrow> store \<times> MemoryReader \<Rightarrow> bool" where
  "reader_inv buffer = (\<lambda>(m, reader). reader_open reader \<and> reader_wf reader \<and> source_data reader + source_size reader \<le> buffer)"

lemma memoryReader_read:
  assumes inv: "reader_inv buffer (m, reader)"
    and read: "reader_read (memoryReader buffer) (m, reader) dest = (r, dest', (m', reader'))"
  defines "count \<equiv> min (length dest) (source_size reader - reader_pos reader)"
  shows "r = readResult successStatus count (reader_pos reader + count = source_size reader)"
    and "dest' = take count (reader_remaining (m, reader)) @ drop count dest"
    and "reader_remaining (m', reader') = drop count (reader_remaining (m, reader))"
    and "reader' = reader\<lparr>reader_pos := reader_pos reader + count\<rparr>"
proof -
  let ?m = "put_region m buffer dest" and ?src = "source_data reader + reader_pos reader"
  from inv have wf: "reader_open reader" "reader_wf reader" and apart: "source_data reader + source_size reader \<le> buffer"
    by (auto simp: reader_inv_def)
  have res: "r = readResult successStatus count (reader_pos reader + count = source_size reader)"
    "m' = moved ?m ?src buffer count" "reader' = reader\<lparr>reader_pos := reader_pos reader + count\<rparr>"
    "dest' = region m' buffer (length dest)"
    using read MemoryReader_read_open [OF wf, of ?m buffer "length dest"]
    by (auto simp: memoryReader_def Let_def count_def)
  show "r = readResult successStatus count (reader_pos reader + count = source_size reader)"
    "reader' = reader\<lparr>reader_pos := reader_pos reader + count\<rparr>" by (fact res)+
  have le: "count \<le> length dest" "reader_pos reader + count \<le> source_size reader"
    using wf(2) by (auto simp: count_def reader_wf_def)
  have source: "region m' a n = region m a n" if "a + n \<le> buffer" for a n
    using that unfolding res(2) by (intro region_cong) (auto simp: moved_def put_region_def)
  have left: "source_size reader - reader_pos reader = count + (source_size reader - (reader_pos reader + count))"
    using le by simp
  have split: "reader_remaining (m, reader) = region m ?src count @ region m (?src + count) (source_size reader - (reader_pos reader + count))"
    unfolding reader_remaining_def prod.case by (subst left) (rule region_append)
  show "reader_remaining (m', reader') = drop count (reader_remaining (m, reader))"
    unfolding split using res(3) source [of "?src + count"] apart le by (simp add: reader_remaining_def add.assoc)
  have tail: "region m' (buffer + count) (length dest - count) = drop count dest"
  proof -
    have "region m' (buffer + count) (length dest - count) = region ?m (buffer + count) (length dest - count)"
      unfolding res(2) by (intro region_cong) (simp add: moved_def)
    moreover have "region ?m buffer (count + (length dest - count)) = dest" using le region_put_same [of m buffer dest] by simp
    ultimately show ?thesis unfolding region_append by (metis append_eq_conv_conj length_region)
  qed
  have "region m' buffer count = region m ?src count"
  proof -
    have "region m' buffer count = region ?m ?src count" unfolding res(2) by (rule region_moved)
    also have "\<dots> = region m ?src count" using apart le by (intro region_cong) (auto simp: put_region_def)
    finally show ?thesis .
  qed
  with tail res(4) le split region_append [of m' buffer count "length dest - count"]
  show "dest' = take count (reader_remaining (m, reader)) @ drop count dest" by simp
qed

lemma memoryReader_inv:
  "reader_inv buffer s \<Longrightarrow> reader_read (memoryReader buffer) s dest = (r, dest', s') \<Longrightarrow> reader_inv buffer s'"
  using memoryReader_read [of buffer "fst s" "snd s" dest r dest' "fst s'" "snd s'"]
  by (auto simp: reader_inv_def reader_wf_def)

interpretation mem: sized_source "memoryReader buffer" "reader_inv buffer" reader_remaining for buffer
proof
  fix s dest r dest' s'
  assume inv: "reader_inv buffer s" and read: "reader_read (memoryReader buffer) s dest = (r, dest', s')"
  have *: "reader_inv buffer (fst s, snd s)" "reader_read (memoryReader buffer) (fst s, snd s) dest = (r, dest', (fst s', snd s'))"
    using inv read by simp_all
  have zero: "min (length dest) k = 0 \<longleftrightarrow> dest = [] \<or> k = 0" for k :: nat by (auto simp: min_def)
  from memoryReader_read [OF *] memoryReader_inv [OF inv read] inv
  show "ok (readStatus r) \<and> bytesRead r \<le> length dest \<and> bytesRead r \<le> length (reader_remaining s) \<and>
      dest' = take (bytesRead r) (reader_remaining s) @ drop (bytesRead r) dest \<and>
      reader_remaining s' = drop (bytesRead r) (reader_remaining s) \<and> (endOfStream r \<longrightarrow> reader_remaining s' = []) \<and>
      (dest \<noteq> [] \<and> bytesRead r = 0 \<longrightarrow> endOfStream r) \<and> reader_inv buffer s'"
    by (auto simp: reader_remaining_def reader_inv_def reader_wf_def zero split: prod.splits)
next
  fix s assume "reader_inv buffer s"
  then show "ok (sizeStatus (reader_size (memoryReader buffer) s)) \<and> ok (positionStatus (reader_position (memoryReader buffer) s)) \<and>
      position (reader_position (memoryReader buffer) s) \<le> sizeBytes (reader_size (memoryReader buffer) s) \<and>
      sizeBytes (reader_size (memoryReader buffer) s) - position (reader_position (memoryReader buffer) s) = length (reader_remaining s)"
    by (auto simp: reader_inv_def reader_wf_def memoryReader_def MemoryReader_size_def MemoryReader_position_def reader_remaining_def)
qed


section \<open>Memory writer\<close>

text \<open>A view of the writer's own elements shows those elements, and any other view lies outside them.\<close>

definition view_agrees :: "MemoryWriter \<Rightarrow> byte_view \<Rightarrow> bool" where
  "view_agrees writer bytes \<longleftrightarrow>
    (let v = writer_bytes writer in
     vec_data v \<noteq> 0 \<longrightarrow>
       (if vec_data v \<le> view_data bytes \<and> view_data bytes < vec_data v + length (vec_elems v)
        then view_elems bytes = substr (vec_elems v) (view_data bytes - vec_data v) (length (view_elems bytes))
        else view_data bytes + length (view_elems bytes) \<le> vec_data v \<or> vec_data v + length (vec_elems v) \<le> view_data bytes))"

lemma vector_resize_elems: "vector_resize env v xs = Inr v' \<Longrightarrow> vec_elems v' = xs"
  by (auto simp: vector_resize_def split: if_splits sum.splits)

lemma appendAliasedBytes_spec:
  assumes "appendAliasedBytes env v off n = (st, v')"
  shows "ok st \<Longrightarrow> off + n \<le> length (vec_elems v) \<and> vec_elems v' = vec_elems v @ substr (vec_elems v) off n"
    and "\<not> ok st \<Longrightarrow> v' = v"
proof -
  let ?grown = "vector_resize env v (vec_elems v @ replicate n 0)"
  have elems: "vec_elems w = vec_elems v @ replicate n 0" if "?grown = Inr w" for w
    using vector_resize_elems [OF that] .
  show "ok st \<Longrightarrow> off + n \<le> length (vec_elems v) \<and> vec_elems v' = vec_elems v @ substr (vec_elems v) off n"
    using assms elems by (cases ?grown) (auto simp: appendAliasedBytes_def Let_def split: if_split_asm)
  show "\<not> ok st \<Longrightarrow> v' = v"
    using assms by (cases ?grown) (auto simp: appendAliasedBytes_def Let_def split: if_split_asm)
qed

lemma vector_insert_end_elems:
  assumes "vector_insert_end env v bytes = Inr v'"
    and "vec_data v = 0 \<or> view_data bytes + length (view_elems bytes) \<le> vec_data v \<or> vec_data v + length (vec_elems v) \<le> view_data bytes"
  shows "vec_elems v' = vec_elems v @ view_elems bytes"
proof -
  have "map (read_input env v moves bytes) [0..<length (view_elems bytes)] = view_elems bytes" for moves
    using assms(2) by (intro nth_equalityI) (auto simp: read_input_def Let_def)
  with assms(1) vector_resize_elems [of env v "vec_elems v @ replicate (length (view_elems bytes)) 0"] show ?thesis
    by (auto simp: vector_insert_end_def Let_def split: sum.splits)
qed

lemma MemoryWriter_write_spec:
  assumes wrote: "MemoryWriter_write env writer bytes = (r, writer')" and view: "view_agrees writer bytes"
  shows "if ok (writeStatus r)
     then bytesWritten r = length (view_elems bytes) \<and> vec_elems (writer_bytes writer') = vec_elems (writer_bytes writer) @ view_elems bytes \<and>
       writer_open writer' = writer_open writer
     else bytesWritten r = 0 \<and> writer' = writer"
proof -
  let ?v = "writer_bytes writer"
  let ?own = "vec_data ?v \<noteq> 0 \<and> \<not> view_data bytes < vec_data ?v \<and> view_data bytes < vec_data ?v + length (vec_elems ?v)"
  show ?thesis
  proof (cases "writer_open writer \<and> view_elems bytes \<noteq> [] \<and> \<not> length (view_elems bytes) > max_size env - length (vec_elems ?v) \<and> ?own")
    case True
    obtain st v' where app: "appendAliasedBytes env ?v (view_data bytes - vec_data ?v) (length (view_elems bytes)) = (st, v')"
      by (cases "appendAliasedBytes env ?v (view_data bytes - vec_data ?v) (length (view_elems bytes))")
    from True view have "view_elems bytes = substr (vec_elems ?v) (view_data bytes - vec_data ?v) (length (view_elems bytes))"
      by (simp add: view_agrees_def Let_def)
    with wrote True app appendAliasedBytes_spec [OF app] show ?thesis
      by (auto simp: MemoryWriter_write_def Let_def split: if_splits)
  next
    case False
    have apart: "\<not> ?own \<Longrightarrow> vec_data ?v = 0 \<or> view_data bytes + length (view_elems bytes) \<le> vec_data ?v \<or>
        vec_data ?v + length (vec_elems ?v) \<le> view_data bytes"
      using view by (auto simp: view_agrees_def Let_def split: if_splits)
    show ?thesis
    proof (cases "writer_open writer \<and> view_elems bytes \<noteq> [] \<and> \<not> length (view_elems bytes) > max_size env - length (vec_elems ?v)")
      case True
      then have "\<not> ?own" using False by blast
      then show ?thesis
        using wrote True vector_insert_end_elems [OF _ apart] by (auto simp: MemoryWriter_write_def Let_def split: if_splits sum.splits)
    next
      case False
      then show ?thesis using wrote by (auto simp: MemoryWriter_write_def Let_def split: if_splits)
    qed
  qed
qed

interpretation memw: byte_sink "memoryWriter env" "\<lambda>_. True" view_agrees "\<lambda>writer. vec_elems (writer_bytes writer)" for env
proof
  fix s bytes r s'
  assume "view_agrees s bytes" "writer_write (memoryWriter env) s bytes = (r, s')"
  then show "bytesWritten r \<le> length (view_elems bytes) \<and>
      vec_elems (writer_bytes s') = vec_elems (writer_bytes s) @ take (bytesWritten r) (view_elems bytes) \<and>
      (ok (writeStatus r) \<and> view_elems bytes \<noteq> [] \<longrightarrow> 0 < bytesWritten r) \<and> True \<and>
      (ok (writeStatus r) \<and> bytesWritten r < length (view_elems bytes) \<longrightarrow> view_agrees s' (subview (bytesWritten r) bytes))"
    using MemoryWriter_write_spec [of env s bytes r s'] by (simp add: memoryWriter_def split: if_splits)
qed

section \<open>Properties\<close>

text \<open>
  Reading from memory delivers exactly the bytes at the position, as they were before the call, even when the destination overlaps
  the source; bytes outside the destination are untouched, and the position advances by the delivered count.
\<close>

theorem MemoryReader_read_overlap:
  assumes "reader_open reader" "reader_wf reader" "MemoryReader_read m reader dest n = (r, m', reader')"
  shows "ok (readStatus r) \<and> bytesRead r = min n (source_size reader - reader_pos reader) \<and>
    region m' dest (bytesRead r) = region m (source_data reader + reader_pos reader) (bytesRead r) \<and>
    (\<forall>p. p < dest \<or> dest + bytesRead r \<le> p \<longrightarrow> m' p = m p) \<and>
    reader' = reader\<lparr>reader_pos := reader_pos reader + bytesRead r\<rparr> \<and> reader_wf reader' \<and>
    (endOfStream r \<longleftrightarrow> reader_pos reader' = source_size reader)"
  using assms MemoryReader_read_wf [OF assms(2,3)]
  by (auto simp: MemoryReader_read_open Let_def region_moved) (auto simp: moved_def)

theorem MemoryReader_read_overlap_witness:
  "region (fst (snd (MemoryReader_read (\<lambda>p. of_nat p) \<lparr>source_data = 10, source_size = 4, reader_pos = 0, reader_open = True\<rparr> 12 4))) 12 4 = [10, 11, 12, 13]"
proof -
  let ?rd = "\<lparr>source_data = 10, source_size = 4, reader_pos = 0, reader_open = True\<rparr>" and ?m = "\<lambda>p. of_nat p :: byte"
  obtain r m' reader' where read: "MemoryReader_read ?m ?rd 12 4 = (r, m', reader')" by (cases "MemoryReader_read ?m ?rd 12 4") auto
  have "bytesRead r = 4 \<and> region m' 12 (bytesRead r) = region ?m 10 (bytesRead r)"
    using MemoryReader_read_overlap [OF _ _ read] by (auto simp: reader_wf_def)
  moreover have "region ?m 10 4 = [10, 11, 12, 13]" by code_simp
  ultimately show ?thesis by (auto simp: read)
qed

text \<open>
  C25: a memory write is all or nothing: it appends the whole input, whatever storage that has been given back holds and also when the
  input is a view of the writer's own elements, which the append moves when it reallocates; or it fails and leaves the writer
  unchanged. The check for its own storage is what this needs: an insertion of those elements would read released storage.
\<close>

theorem MemoryWriter_write_atomic:
  assumes "view_agrees writer bytes" "MemoryWriter_write env writer bytes = (r, writer')"
  shows "if ok (writeStatus r)
     then bytesWritten r = length (view_elems bytes) \<and> vec_elems (writer_bytes writer') = vec_elems (writer_bytes writer) @ view_elems bytes \<and>
       writer_open writer' = writer_open writer
     else bytesWritten r = 0 \<and> writer' = writer"
  by (rule MemoryWriter_write_spec [OF assms(2,1)])

theorem MemoryWriter_write_atomic_witness:
  "vec_elems (writer_bytes (snd (MemoryWriter_write \<lparr>max_size = 100, allocate = (\<lambda>n. Inr (900, n)), released = (\<lambda>p. 0xDD)\<rparr>
      \<lparr>writer_bytes = \<lparr>vec_data = 500, vec_elems = [1, 2, 3], vec_capacity = 3\<rparr>, writer_open = True\<rparr>
      \<lparr>view_data = 501, view_elems = [2, 3]\<rparr>))) = [1, 2, 3, 2, 3]"
proof -
  let ?env = "\<lparr>max_size = 100, allocate = (\<lambda>n. Inr (900, n)), released = (\<lambda>p. 0xDD)\<rparr>"
  let ?w = "\<lparr>writer_bytes = \<lparr>vec_data = 500, vec_elems = [1, 2, 3], vec_capacity = 3\<rparr>, writer_open = True\<rparr>"
  let ?b = "\<lparr>view_data = 501, view_elems = [2, 3]\<rparr>"
  have view: "view_agrees ?w ?b" by (simp add: view_agrees_def)
  have "ok (writeStatus (fst (MemoryWriter_write ?env ?w ?b)))"
    by (simp add: MemoryWriter_write_def appendAliasedBytes_def vector_resize_def)
  with MemoryWriter_write_atomic [OF view prod.collapse [symmetric], of ?env] show ?thesis by simp
qed

end
