(* ===== verification/IO_Transfer.thy ===== *)
theory IO_Transfer
  imports IO_Memory
begin

text \<open>
  The whole-stream helpers of \<^verbatim>\<open>foundation/io/core/transfer.cpp\<close> over any \<^verbatim>\<open>Reader\<close> or \<^verbatim>\<open>Writer\<close>. Every step threads the
  stream's state. Container limits and allocation outcomes are the fields of \<open>transfer_env\<close>: an allocation is
  identified by the size it asks for, and the sizes one call asks of one container only grow.
\<close>

section \<open>Environment and results\<close>

record transfer_env =
  vectorMaxSize :: nat
  vectorAlloc :: "nat \<Rightarrow> exception_kind option"
  stringMaxSize :: nat
  stringAlloc :: "nat \<Rightarrow> exception_kind option"
  scratchAlloc :: "nat \<Rightarrow> exception_kind option"
  scratchContents :: "nat \<Rightarrow> byte"

definition kNoByteLimit :: nat where "kNoByteLimit = 2 ^ 64 - 1"

definition kDefaultBufferSize :: nat where "kDefaultBufferSize = 64 * 1024"

record ReadAllBytesResult =
  allStatus :: Status
  allBytes :: "byte list"

record ReadAllTextResult =
  textStatus :: Status
  allText :: "byte list"

abbreviation bytesResult :: "Status \<Rightarrow> byte list \<Rightarrow> ReadAllBytesResult" where
  "bytesResult status bytes \<equiv> \<lparr>allStatus = status, allBytes = bytes\<rparr>"

abbreviation textResult :: "Status \<Rightarrow> byte list \<Rightarrow> ReadAllTextResult" where
  "textResult status bytes \<equiv> \<lparr>textStatus = status, allText = bytes\<rparr>"

text \<open>A callee can only change the bytes of the span it is handed.\<close>

definition call_read :: "'s Reader \<Rightarrow> 's \<Rightarrow> byte list \<Rightarrow> ReadResult \<times> byte list \<times> 's" where
  "call_read reader s dest =
    (case reader_read reader s dest of (r, dest', s') \<Rightarrow> (r, take (length dest) (dest' @ drop (length dest') dest), s'))"

lemma call_read_length: "call_read reader s dest = (r, dest', s') \<Longrightarrow> length dest' = length dest"
  by (auto simp: call_read_def split: prod.splits)

section \<open>Known sizes\<close>

definition isUnsupportedReaderCapability :: "Status \<Rightarrow> bool" where
  "isUnsupportedReaderCapability status \<longleftrightarrow> code status = NotSeekable \<or> code status = Unsupported"

record KnownReadableByteCount =
  knownStatus :: Status
  byteCount :: nat
  known :: bool

definition knownReadableByteCount :: "'s Reader \<Rightarrow> 's \<Rightarrow> KnownReadableByteCount" where
  "knownReadableByteCount reader s =
    (let sizeResult = reader_size reader s in
     if \<not> ok (sizeStatus sizeResult) then
       (if isUnsupportedReaderCapability (sizeStatus sizeResult)
        then \<lparr>knownStatus = successStatus, byteCount = 0, known = False\<rparr>
        else \<lparr>knownStatus = sizeStatus sizeResult, byteCount = 0, known = False\<rparr>)
     else let positionResult = reader_position reader s in
     if \<not> ok (positionStatus positionResult) then
       (if isUnsupportedReaderCapability (positionStatus positionResult)
        then \<lparr>knownStatus = successStatus, byteCount = 0, known = False\<rparr>
        else \<lparr>knownStatus = positionStatus positionResult, byteCount = 0, known = False\<rparr>)
     else if position positionResult > sizeBytes sizeResult
     then \<lparr>knownStatus = statusOf InvalidArgument, byteCount = 0, known = False\<rparr>
     else \<lparr>knownStatus = successStatus, byteCount = sizeBytes sizeResult - position positionResult, known = True\<rparr>)"

definition finalizeReadAllText :: "ReadAllTextResult \<Rightarrow> ReadAllTextResult" where
  "finalizeReadAllText result =
    (let validation = Utf8_validate (allText result) in
     if validationOutcome8 validation = V_Valid then result
     else let trimmed = take (validPrefixBytes validation) (allText result);
              reachedDefinitiveEnd = (ok (textStatus result) \<or> code (textStatus result) = PartialRead) in
     if validationOutcome8 validation = V_InvalidEncoding \<or> reachedDefinitiveEnd
     then textResult (statusOf EncodingFailed) trimmed
     else textResult (textStatus result) trimmed)"

function readBytes_from :: "'s Reader \<Rightarrow> 's \<Rightarrow> nat \<Rightarrow> byte list \<Rightarrow> nat \<Rightarrow> ReadAllBytesResult \<times> 's" where
  "readBytes_from reader s expectedSize bytes totalRead =
    (if totalRead < expectedSize then
       let destination = drop totalRead bytes in
       case call_read reader s destination of (r, destination', s') \<Rightarrow>
       let bytes' = take totalRead bytes @ destination' in
       if bytesRead r > length destination then (bytesResult (statusOf ReadFailed) (take totalRead bytes'), s')
       else let totalRead' = totalRead + bytesRead r in
       if \<not> ok (readStatus r) then (bytesResult (readStatus r) (take totalRead' bytes'), s')
       else if endOfStream r \<and> totalRead' < expectedSize then (bytesResult (statusOf PartialRead) (take totalRead' bytes'), s')
       else if bytesRead r = 0 then (bytesResult (statusOf ReadFailed) (take totalRead' bytes'), s')
       else readBytes_from reader s' expectedSize bytes' totalRead'
     else (bytesResult successStatus bytes, s))"
  by pat_completeness auto
termination by (relation "measure (\<lambda>(reader, s, expectedSize, bytes, totalRead). expectedSize - totalRead)") auto

definition readAllBytesKnownSize :: "transfer_env \<Rightarrow> 's Reader \<Rightarrow> 's \<Rightarrow> nat \<Rightarrow> nat \<Rightarrow> ReadAllBytesResult \<times> 's" where
  "readAllBytesKnownSize env reader s knownByteCount maxBytes =
    (if knownByteCount > maxBytes then (bytesResult (statusOf SizeLimitExceeded) [], s)
     else if knownByteCount > vectorMaxSize env then (bytesResult (statusOf SizeLimitExceeded) [], s)
     else if knownByteCount = 0 then (bytesResult successStatus [], s)
     else case vectorAlloc env knownByteCount of
         Some e \<Rightarrow> (bytesResult (statusOf (exceptionCode e)) [], s)
       | None \<Rightarrow> readBytes_from reader s knownByteCount (replicate knownByteCount 0) 0)"

function readText_from :: "'s Reader \<Rightarrow> 's \<Rightarrow> nat \<Rightarrow> byte list \<Rightarrow> nat \<Rightarrow> ReadAllTextResult \<times> 's" where
  "readText_from reader s expectedSize text totalRead =
    (if totalRead < expectedSize then
       let destination = drop totalRead text in
       case call_read reader s destination of (r, destination', s') \<Rightarrow>
       let text' = take totalRead text @ destination' in
       if bytesRead r > length destination then (textResult (statusOf ReadFailed) (take totalRead text'), s')
       else let totalRead' = totalRead + bytesRead r in
       if \<not> ok (readStatus r) then (textResult (readStatus r) (take totalRead' text'), s')
       else if endOfStream r \<and> totalRead' < expectedSize then (textResult (statusOf PartialRead) (take totalRead' text'), s')
       else if bytesRead r = 0 then (textResult (statusOf ReadFailed) (take totalRead' text'), s')
       else readText_from reader s' expectedSize text' totalRead'
     else (textResult successStatus text, s))"
  by pat_completeness auto
termination by (relation "measure (\<lambda>(reader, s, expectedSize, text, totalRead). expectedSize - totalRead)") auto

definition readAllTextKnownSize :: "transfer_env \<Rightarrow> 's Reader \<Rightarrow> 's \<Rightarrow> nat \<Rightarrow> nat \<Rightarrow> ReadAllTextResult \<times> 's" where
  "readAllTextKnownSize env reader s knownByteCount maxBytes =
    (if knownByteCount > maxBytes then (textResult (statusOf SizeLimitExceeded) [], s)
     else if knownByteCount > stringMaxSize env then (textResult (statusOf SizeLimitExceeded) [], s)
     else if knownByteCount = 0 then (textResult successStatus [], s)
     else case stringAlloc env knownByteCount of
         Some e \<Rightarrow> (textResult (statusOf (exceptionCode e)) [], s)
       | None \<Rightarrow> readText_from reader s knownByteCount (replicate knownByteCount 0) 0)"

section \<open>Streaming\<close>

definition appendBytes :: "transfer_env \<Rightarrow> byte list \<Rightarrow> byte list \<Rightarrow> Status \<times> byte list" where
  "appendBytes env destination source =
    (if source = [] then (successStatus, destination)
     else if length source > vectorMaxSize env - length destination then (statusOf SizeLimitExceeded, destination)
     else case vectorAlloc env (length destination + length source) of
         Some e \<Rightarrow> (statusOf (exceptionCode e), destination)
       | None \<Rightarrow> (successStatus, destination @ source))"

definition appendTextBytes :: "transfer_env \<Rightarrow> byte list \<Rightarrow> byte list \<Rightarrow> Status \<times> byte list" where
  "appendTextBytes env destination source =
    (if source = [] then (successStatus, destination)
     else if length source > stringMaxSize env - length destination then (statusOf SizeLimitExceeded, destination)
     else case stringAlloc env (length destination + length source) of
         Some e \<Rightarrow> (statusOf (exceptionCode e), destination)
       | None \<Rightarrow> (successStatus, destination @ source))"

definition probeForMoreData :: "'s Reader \<Rightarrow> 's \<Rightarrow> Status \<times> 's" where
  "probeForMoreData reader s =
    (case call_read reader s [0] of (r, probe, s') \<Rightarrow>
       if bytesRead r > 1 then (statusOf ReadFailed, s')
       else if bytesRead r > 0 then (statusOf SizeLimitExceeded, s')
       else if \<not> ok (readStatus r) then (readStatus r, s')
       else if endOfStream r then (successStatus, s')
       else (statusOf ReadFailed, s'))"

function streamBytes_from :: "transfer_env \<Rightarrow> 's Reader \<Rightarrow> 's \<Rightarrow> byte list \<Rightarrow> nat \<Rightarrow> byte list \<Rightarrow> nat \<Rightarrow> ReadAllBytesResult \<times> 's" where
  "streamBytes_from env reader s scratchBuffer maxBytes bytes totalRead =
    (if totalRead \<ge> maxBytes then (case probeForMoreData reader s of (status, s') \<Rightarrow> (bytesResult status bytes, s'))
     else let remainingLimit = maxBytes - totalRead; requestSize = min (length scratchBuffer) remainingLimit in
     case call_read reader s (take requestSize scratchBuffer) of (r, request, s') \<Rightarrow>
     if bytesRead r > requestSize then (bytesResult (statusOf ReadFailed) bytes, s')
     else case (if bytesRead r > 0 then appendBytes env bytes (take (bytesRead r) request) else (successStatus, bytes)) of
       (appendStatus, bytes') \<Rightarrow>
       if \<not> ok appendStatus then (bytesResult appendStatus bytes', s')
       else if \<not> ok (readStatus r) then (bytesResult (readStatus r) bytes', s')
       else if endOfStream r then (bytesResult successStatus bytes', s')
       else if bytesRead r = 0 then (bytesResult (statusOf ReadFailed) bytes', s')
       else streamBytes_from env reader s' (request @ drop requestSize scratchBuffer) maxBytes bytes' (totalRead + bytesRead r))"
  by pat_completeness auto
termination
  by (relation "measure (\<lambda>(env, reader, s, scratchBuffer, maxBytes, bytes, totalRead). maxBytes - totalRead)") auto

definition readAllBytesWithScratch :: "transfer_env \<Rightarrow> 's Reader \<Rightarrow> 's \<Rightarrow> byte list \<Rightarrow> nat \<Rightarrow> ReadAllBytesResult \<times> 's" where
  "readAllBytesWithScratch env reader s scratchBuffer maxBytes = streamBytes_from env reader s scratchBuffer maxBytes [] 0"

function streamText_from :: "transfer_env \<Rightarrow> 's Reader \<Rightarrow> 's \<Rightarrow> byte list \<Rightarrow> nat \<Rightarrow> byte list \<Rightarrow> nat \<Rightarrow> ReadAllTextResult \<times> 's" where
  "streamText_from env reader s scratchBuffer maxBytes text totalRead =
    (if totalRead \<ge> maxBytes then (case probeForMoreData reader s of (status, s') \<Rightarrow> (textResult status text, s'))
     else let remainingLimit = maxBytes - totalRead; requestSize = min (length scratchBuffer) remainingLimit in
     case call_read reader s (take requestSize scratchBuffer) of (r, request, s') \<Rightarrow>
     if bytesRead r > requestSize then (textResult (statusOf ReadFailed) text, s')
     else case (if bytesRead r > 0 then appendTextBytes env text (take (bytesRead r) request) else (successStatus, text)) of
       (appendStatus, text') \<Rightarrow>
       if \<not> ok appendStatus then (textResult appendStatus text', s')
       else if \<not> ok (readStatus r) then (textResult (readStatus r) text', s')
       else if endOfStream r then (textResult successStatus text', s')
       else if bytesRead r = 0 then (textResult (statusOf ReadFailed) text', s')
       else streamText_from env reader s' (request @ drop requestSize scratchBuffer) maxBytes text' (totalRead + bytesRead r))"
  by pat_completeness auto
termination
  by (relation "measure (\<lambda>(env, reader, s, scratchBuffer, maxBytes, text, totalRead). maxBytes - totalRead)") auto

definition readAllTextWithScratch :: "transfer_env \<Rightarrow> 's Reader \<Rightarrow> 's \<Rightarrow> byte list \<Rightarrow> nat \<Rightarrow> ReadAllTextResult \<times> 's" where
  "readAllTextWithScratch env reader s scratchBuffer maxBytes = streamText_from env reader s scratchBuffer maxBytes [] 0"

declare readBytes_from.simps [simp del] readText_from.simps [simp del] streamBytes_from.simps [simp del] streamText_from.simps [simp del]

section \<open>Public operations\<close>

definition readAllBytes :: "transfer_env \<Rightarrow> 's Reader \<Rightarrow> 's \<Rightarrow> nat \<Rightarrow> nat \<Rightarrow> ReadAllBytesResult \<times> 's" where
  "readAllBytes env reader s maxBytes bufferSize =
    (if bufferSize = 0 then (bytesResult (statusOf InvalidArgument) [], s)
     else let knownByteCount = knownReadableByteCount reader s in
     if \<not> ok (knownStatus knownByteCount) then (bytesResult (knownStatus knownByteCount) [], s)
     else if known knownByteCount then readAllBytesKnownSize env reader s (byteCount knownByteCount) maxBytes
     else if maxBytes = 0 then (case probeForMoreData reader s of (status, s') \<Rightarrow> (bytesResult status [], s'))
     else let effectiveBufferSize = min bufferSize maxBytes in
     case scratchAlloc env effectiveBufferSize of
         Some e \<Rightarrow> (bytesResult (statusOf (exceptionCode e)) [], s)
       | None \<Rightarrow> readAllBytesWithScratch env reader s (map (scratchContents env) [0..<effectiveBufferSize]) maxBytes)"

definition readAllBytes_scratch :: "transfer_env \<Rightarrow> 's Reader \<Rightarrow> 's \<Rightarrow> byte list \<Rightarrow> nat \<Rightarrow> ReadAllBytesResult \<times> 's" where
  "readAllBytes_scratch env reader s scratchBuffer maxBytes =
    (if scratchBuffer = [] then (bytesResult (statusOf InvalidArgument) [], s)
     else let knownByteCount = knownReadableByteCount reader s in
     if \<not> ok (knownStatus knownByteCount) then (bytesResult (knownStatus knownByteCount) [], s)
     else if known knownByteCount then readAllBytesKnownSize env reader s (byteCount knownByteCount) maxBytes
     else if maxBytes = 0 then (case probeForMoreData reader s of (status, s') \<Rightarrow> (bytesResult status [], s'))
     else readAllBytesWithScratch env reader s scratchBuffer maxBytes)"

definition readAllText :: "transfer_env \<Rightarrow> 's Reader \<Rightarrow> 's \<Rightarrow> nat \<Rightarrow> nat \<Rightarrow> ReadAllTextResult \<times> 's" where
  "readAllText env reader s maxBytes bufferSize =
    (if bufferSize = 0 then (textResult (statusOf InvalidArgument) [], s)
     else let knownByteCount = knownReadableByteCount reader s in
     if \<not> ok (knownStatus knownByteCount) then (textResult (knownStatus knownByteCount) [], s)
     else if known knownByteCount then apfst finalizeReadAllText (readAllTextKnownSize env reader s (byteCount knownByteCount) maxBytes)
     else if maxBytes = 0 then (case probeForMoreData reader s of (status, s') \<Rightarrow> (textResult status [], s'))
     else let effectiveBufferSize = min bufferSize maxBytes in
     case scratchAlloc env effectiveBufferSize of
         Some e \<Rightarrow> (textResult (statusOf (exceptionCode e)) [], s)
       | None \<Rightarrow> apfst finalizeReadAllText
           (readAllTextWithScratch env reader s (map (scratchContents env) [0..<effectiveBufferSize]) maxBytes))"

definition readAllText_scratch :: "transfer_env \<Rightarrow> 's Reader \<Rightarrow> 's \<Rightarrow> byte list \<Rightarrow> nat \<Rightarrow> ReadAllTextResult \<times> 's" where
  "readAllText_scratch env reader s scratchBuffer maxBytes =
    (if scratchBuffer = [] then (textResult (statusOf InvalidArgument) [], s)
     else let knownByteCount = knownReadableByteCount reader s in
     if \<not> ok (knownStatus knownByteCount) then (textResult (knownStatus knownByteCount) [], s)
     else if known knownByteCount then apfst finalizeReadAllText (readAllTextKnownSize env reader s (byteCount knownByteCount) maxBytes)
     else if maxBytes = 0 then (case probeForMoreData reader s of (status, s') \<Rightarrow> (textResult status [], s'))
     else apfst finalizeReadAllText (readAllTextWithScratch env reader s scratchBuffer maxBytes))"

function writeAllBytes_from :: "'s Writer \<Rightarrow> 's \<Rightarrow> byte_view \<Rightarrow> nat \<Rightarrow> WriteResult \<times> 's" where
  "writeAllBytes_from writer s bytes totalWritten =
    (if view_elems bytes \<noteq> [] then
       case writer_write writer s bytes of (r, s') \<Rightarrow>
       if bytesWritten r > length (view_elems bytes) then (writeResult (statusOf WriteFailed) totalWritten, s')
       else let totalWritten' = totalWritten + bytesWritten r in
       if \<not> ok (writeStatus r) then (writeResult (writeStatus r) totalWritten', s')
       else if bytesWritten r = 0 then (writeResult (statusOf WriteFailed) totalWritten', s')
       else writeAllBytes_from writer s' (subview (bytesWritten r) bytes) totalWritten'
     else (writeResult successStatus totalWritten, s))"
  by pat_completeness auto
termination
  by (relation "measure (\<lambda>(writer, s, bytes, totalWritten). length (view_elems bytes))") (auto simp: subview_def)

declare writeAllBytes_from.simps [simp del]

definition writeAllBytes :: "'s Writer \<Rightarrow> 's \<Rightarrow> byte_view \<Rightarrow> WriteResult \<times> 's" where
  "writeAllBytes writer s bytes = writeAllBytes_from writer s bytes 0"

definition writeAllText :: "'s Writer \<Rightarrow> 's \<Rightarrow> byte_view \<Rightarrow> WriteResult \<times> 's" where
  "writeAllText writer s utf8Text =
    (if validationOutcome8 (Utf8_validate (view_elems utf8Text)) \<noteq> V_Valid
     then (writeResult (statusOf EncodingFailed) 0, s)
     else writeAllBytes writer s utf8Text)"

section \<open>One iteration\<close>

lemma readBytes_step:
  assumes "n < e" "call_read rd s (drop n xs) = (r, d, s')"
  shows "readBytes_from rd s e xs n =
    (if bytesRead r > length xs - n then (bytesResult (statusOf ReadFailed) (take n (take n xs @ d)), s')
     else if \<not> ok (readStatus r) then (bytesResult (readStatus r) (take (n + bytesRead r) (take n xs @ d)), s')
     else if endOfStream r \<and> n + bytesRead r < e then (bytesResult (statusOf PartialRead) (take (n + bytesRead r) (take n xs @ d)), s')
     else if bytesRead r = 0 then (bytesResult (statusOf ReadFailed) (take (n + bytesRead r) (take n xs @ d)), s')
     else readBytes_from rd s' e (take n xs @ d) (n + bytesRead r))"
  using assms by (subst readBytes_from.simps) (simp add: Let_def)

lemma readText_step:
  assumes "n < e" "call_read rd s (drop n xs) = (r, d, s')"
  shows "readText_from rd s e xs n =
    (if bytesRead r > length xs - n then (textResult (statusOf ReadFailed) (take n (take n xs @ d)), s')
     else if \<not> ok (readStatus r) then (textResult (readStatus r) (take (n + bytesRead r) (take n xs @ d)), s')
     else if endOfStream r \<and> n + bytesRead r < e then (textResult (statusOf PartialRead) (take (n + bytesRead r) (take n xs @ d)), s')
     else if bytesRead r = 0 then (textResult (statusOf ReadFailed) (take (n + bytesRead r) (take n xs @ d)), s')
     else readText_from rd s' e (take n xs @ d) (n + bytesRead r))"
  using assms by (subst readText_from.simps) (simp add: Let_def)

abbreviation appended :: "transfer_env \<Rightarrow> byte list \<Rightarrow> ReadResult \<Rightarrow> byte list \<Rightarrow> Status \<times> byte list" where
  "appended env xs r d \<equiv> (if bytesRead r > 0 then appendBytes env xs (take (bytesRead r) d) else (successStatus, xs))"

lemma streamBytes_step:
  assumes "n < mx" "k = min (length sc) (mx - n)" "call_read rd s (take k sc) = (r, d, s')" "appended env xs r d = (st, ys)"
  shows "streamBytes_from env rd s sc mx xs n =
    (if bytesRead r > k then (bytesResult (statusOf ReadFailed) xs, s')
     else if \<not> ok st then (bytesResult st ys, s')
     else if \<not> ok (readStatus r) then (bytesResult (readStatus r) ys, s')
     else if endOfStream r then (bytesResult successStatus ys, s')
     else if bytesRead r = 0 then (bytesResult (statusOf ReadFailed) ys, s')
     else streamBytes_from env rd s' (d @ drop k sc) mx ys (n + bytesRead r))"
proof -
  from assms(1) have n: "\<not> mx \<le> n" by simp
  show ?thesis
    unfolding streamBytes_from.simps [of env rd s sc mx xs n] Let_def
      assms(2) [symmetric] assms(3) if_not_P [OF n] prod.case assms(4) ..
qed

lemma streamText_step:
  assumes "n < mx" "k = min (length sc) (mx - n)" "call_read rd s (take k sc) = (r, d, s')"
    "(if bytesRead r > 0 then appendTextBytes env xs (take (bytesRead r) d) else (successStatus, xs)) = (st, ys)"
  shows "streamText_from env rd s sc mx xs n =
    (if bytesRead r > k then (textResult (statusOf ReadFailed) xs, s')
     else if \<not> ok st then (textResult st ys, s')
     else if \<not> ok (readStatus r) then (textResult (readStatus r) ys, s')
     else if endOfStream r then (textResult successStatus ys, s')
     else if bytesRead r = 0 then (textResult (statusOf ReadFailed) ys, s')
     else streamText_from env rd s' (d @ drop k sc) mx ys (n + bytesRead r))"
proof -
  from assms(1) have n: "\<not> mx \<le> n" by simp
  show ?thesis
    unfolding streamText_from.simps [of env rd s sc mx xs n] Let_def
      assms(2) [symmetric] assms(3) if_not_P [OF n] prod.case assms(4) ..
qed

section \<open>Text transfers are byte transfers\<close>

definition text_of :: "ReadAllBytesResult \<Rightarrow> ReadAllTextResult" where
  "text_of r = textResult (allStatus r) (allBytes r)"

definition text_env :: "transfer_env \<Rightarrow> transfer_env" where
  "text_env env = env\<lparr>vectorMaxSize := stringMaxSize env, vectorAlloc := stringAlloc env\<rparr>"

lemma text_of_simps [simp]: "text_of (bytesResult st xs) = textResult st xs"
  "textStatus (text_of r) = allStatus r" "allText (text_of r) = allBytes r"
  by (simp_all add: text_of_def)

lemma readText_bytes: "readText_from rd s e xs n = apfst text_of (readBytes_from rd s e xs n)"
proof (induction "e - n" arbitrary: s xs n rule: less_induct)
  case less
  show ?case
  proof (cases "n < e")
    case True
    obtain r d s' where call: "call_read rd s (drop n xs) = (r, d, s')" by (cases "call_read rd s (drop n xs)") auto
    show ?thesis unfolding readText_step [OF True call] readBytes_step [OF True call] using less True by simp
  next
    case False
    then show ?thesis by (simp add: readText_from.simps readBytes_from.simps)
  qed
qed

lemma appendTextBytes_bytes: "appendTextBytes env xs ys = appendBytes (text_env env) xs ys"
  by (simp add: appendTextBytes_def appendBytes_def text_env_def)

lemma streamText_bytes: "streamText_from env rd s sc mx xs n = apfst text_of (streamBytes_from (text_env env) rd s sc mx xs n)"
proof (induction "mx - n" arbitrary: s sc xs n rule: less_induct)
  case less
  show ?case
  proof (cases "n < mx")
    case True
    define k where k: "k = min (length sc) (mx - n)"
    obtain r d s' where call: "call_read rd s (take k sc) = (r, d, s')" by (cases "call_read rd s (take k sc)") auto
    obtain st ys where app: "appended (text_env env) xs r d = (st, ys)" by (cases "appended (text_env env) xs r d")
    show ?thesis
      unfolding streamBytes_step [OF True k call app] streamText_step [OF True k call app [folded appendTextBytes_bytes]]
      using less True by simp
  next
    case False
    then show ?thesis by (simp add: streamText_from.simps streamBytes_from.simps split: prod.split)
  qed
qed

lemma readAllTextKnownSize_bytes: "readAllTextKnownSize env rd s k mx = apfst text_of (readAllBytesKnownSize (text_env env) rd s k mx)"
  by (simp add: readAllTextKnownSize_def readAllBytesKnownSize_def text_env_def readText_bytes split: option.split)

lemma readAllTextWithScratch_bytes:
  "readAllTextWithScratch env rd s sc mx = apfst text_of (readAllBytesWithScratch (text_env env) rd s sc mx)"
  by (simp add: readAllTextWithScratch_def readAllBytesWithScratch_def streamText_bytes)

section \<open>Any reader: sizes and encodings\<close>

lemma readBytes_from_size:
  assumes "length xs = e" "n \<le> e"
  shows "length (allBytes (fst (readBytes_from rd s e xs n))) \<le> e"
    and "ok (allStatus (fst (readBytes_from rd s e xs n))) \<Longrightarrow> length (allBytes (fst (readBytes_from rd s e xs n))) = e"
proof -
  have "length (allBytes (fst (readBytes_from rd s e xs n))) \<le> e \<and>
    (ok (allStatus (fst (readBytes_from rd s e xs n))) \<longrightarrow> length (allBytes (fst (readBytes_from rd s e xs n))) = e)"
    using assms
  proof (induction "e - n" arbitrary: s xs n rule: less_induct)
    case less
    show ?case
    proof (cases "n < e")
      case True
      obtain r d s' where call: "call_read rd s (drop n xs) = (r, d, s')" by (cases "call_read rd s (drop n xs)") auto
      then have len: "length (take n xs @ d) = e" using call_read_length [OF call] less True by simp
      show ?thesis
        unfolding readBytes_step [OF True call]
        using less(1) [of "n + bytesRead r" "take n xs @ d" s'] less(2) True len by (auto simp: not_less)
    next
      case False
      with less show ?thesis by (simp add: readBytes_from.simps)
    qed
  qed
  then show "length (allBytes (fst (readBytes_from rd s e xs n))) \<le> e"
    and "ok (allStatus (fst (readBytes_from rd s e xs n))) \<Longrightarrow> length (allBytes (fst (readBytes_from rd s e xs n))) = e"
    by auto
qed

lemma readAllBytesKnownSize_size: "length (allBytes (fst (readAllBytesKnownSize env rd s k mx))) \<le> mx"
  using readBytes_from_size(1) [of "replicate k 0" k 0 rd s]
  by (auto simp: readAllBytesKnownSize_def split: option.split)

lemma appendBytes_cases:
  "appendBytes env xs ys = (st, zs) \<Longrightarrow> ok st \<and> zs = xs @ ys \<or> \<not> ok st \<and> zs = xs"
  by (auto simp: appendBytes_def split: if_splits option.splits)

lemma streamBytes_from_size:
  "length xs \<le> n \<Longrightarrow> n \<le> mx \<Longrightarrow> length (allBytes (fst (streamBytes_from env rd s sc mx xs n))) \<le> mx"
proof (induction "mx - n" arbitrary: s sc xs n rule: less_induct)
  case less
  show ?case
  proof (cases "n < mx")
    case True
    define k where k: "k = min (length sc) (mx - n)"
    obtain r d s' where call: "call_read rd s (take k sc) = (r, d, s')" by (cases "call_read rd s (take k sc)") auto
    obtain st ys where app: "appended env xs r d = (st, ys)" by (cases "appended env xs r d")
    have ys: "length ys \<le> length xs + bytesRead r"
      using app appendBytes_cases [of env xs "take (bytesRead r) d" st ys] by (auto split: if_splits)
    have "length ys \<le> mx" if "bytesRead r \<le> k"
    proof -
      have "bytesRead r \<le> mx - n" using that k by simp
      then show ?thesis using ys less(2) True by linarith
    qed
    then show ?thesis
      unfolding streamBytes_step [OF True k call app]
      using less(1) [of "n + bytesRead r" ys s' "d @ drop k sc"] less(2,3) True ys k by (auto simp: not_less)
  next
    case False
    with less show ?thesis by (simp add: streamBytes_from.simps split: prod.split)
  qed
qed

lemma readAllBytesWithScratch_size: "length (allBytes (fst (readAllBytesWithScratch env rd s sc mx))) \<le> mx"
  unfolding readAllBytesWithScratch_def by (rule streamBytes_from_size) simp_all

lemma valid_prefix: "valid_utf8 (take (validPrefixBytes (Utf8_validate t)) t)"
  using utf8v.scan_prefix_longest(1) [of t "validPrefixBytes (Utf8_validate_from t 0)" "validationOutcome8 (Utf8_validate_from t 0)"]
  by (auto simp: valid_utf8_def Utf8_validate_def)

lemma finalizeReadAllText_valid: "valid_utf8 (allText (finalizeReadAllText r))"
  using valid_prefix [of "allText r"] by (auto simp: finalizeReadAllText_def Let_def Utf8_validate_iff)

lemma finalizeReadAllText_prefix: "prefix (allText (finalizeReadAllText r)) (allText r)"
  by (auto simp: finalizeReadAllText_def Let_def take_is_prefix)


section \<open>Healthy sources\<close>

text \<open>Allocation succeeds for every size up to \<open>n\<close>.\<close>

definition can_hold :: "transfer_env \<Rightarrow> nat \<Rightarrow> bool" where
  "can_hold env n \<longleftrightarrow> n \<le> vectorMaxSize env \<and> (\<forall>k \<le> n. vectorAlloc env k = None)"

lemma appendBytes_holds: "can_hold env n \<Longrightarrow> length xs + length ys \<le> n \<Longrightarrow> appendBytes env xs ys = (successStatus, xs @ ys)"
  by (auto simp: appendBytes_def can_hold_def)

context byte_source
begin

lemma call_law:
  assumes "inv s" "call_read rd s dest = (r, d, s')"
  shows "ok (readStatus r)" "bytesRead r \<le> length dest" "bytesRead r \<le> length (remaining s)"
    "d = take (bytesRead r) (remaining s) @ drop (bytesRead r) dest" "remaining s' = drop (bytesRead r) (remaining s)"
    "endOfStream r \<Longrightarrow> remaining s' = []" "dest \<noteq> [] \<Longrightarrow> bytesRead r = 0 \<Longrightarrow> endOfStream r" "inv s'"
proof -
  obtain r0 d' s0 where raw0: "reader_read rd s dest = (r0, d', s0)" by (rule prod_cases3)
  with assms(2) have raw: "reader_read rd s dest = (r, d', s')" and d: "d = take (length dest) (d' @ drop (length d') dest)"
    by (auto simp: call_read_def)
  from read_law [OF assms(1) raw] have law: "bytesRead r \<le> length dest" "bytesRead r \<le> length (remaining s)"
      "d' = take (bytesRead r) (remaining s) @ drop (bytesRead r) dest" by blast+
  then have "length d' = length dest" by simp
  with d have eq: "d = d'" by simp
  show "ok (readStatus r)" "bytesRead r \<le> length dest" "bytesRead r \<le> length (remaining s)"
    "d = take (bytesRead r) (remaining s) @ drop (bytesRead r) dest" "remaining s' = drop (bytesRead r) (remaining s)"
    "endOfStream r \<Longrightarrow> remaining s' = []" "dest \<noteq> [] \<Longrightarrow> bytesRead r = 0 \<Longrightarrow> endOfStream r" "inv s'"
    using read_law [OF assms(1) raw] unfolding eq by blast+
qed

lemma readBytes_remaining:
  assumes "inv s" "n \<le> e" "length xs = e" "length (remaining s) = e - n"
  shows "\<exists>s'. readBytes_from rd s e xs n = (bytesResult successStatus (take n xs @ remaining s), s') \<and> inv s' \<and> remaining s' = []"
  using assms
proof (induction "e - n" arbitrary: s xs n rule: less_induct)
  case less
  show ?case
  proof (cases "n < e")
    case False
    with less(2-) show ?thesis by (intro exI [of _ s]) (simp add: readBytes_from.simps)
  next
    case True
    obtain r d s1 where call: "call_read rd s (drop n xs) = (r, d, s1)" by (cases "call_read rd s (drop n xs)") auto
    note law = call_law [OF less(2) call]
    have dest: "drop n xs \<noteq> []" using True less(4) by simp
    have pos: "0 < bytesRead r"
    proof (rule ccontr)
      assume "\<not> 0 < bytesRead r"
      then have zero: "bytesRead r = 0" by simp
      have "remaining s = []" using law(5) law(6) [OF law(7) [OF dest zero]] zero by simp
      with less(5) True show False by simp
    qed
    have eos: "n + bytesRead r \<ge> e" if "endOfStream r" using law(5) law(6) [OF that] less(5) by simp
    have left: "length (remaining s1) = e - (n + bytesRead r)" using law(5) less(5) by simp
    have "n + bytesRead r \<le> e" "length (take n xs @ d) = e" "e - (n + bytesRead r) < e - n"
      using law(3,4) less(3,4,5) True pos by auto
    from less(1) [OF this(3) law(8) this(1,2) left]
    obtain s' where s': "readBytes_from rd s1 e (take n xs @ d) (n + bytesRead r) =
        (bytesResult successStatus (take (n + bytesRead r) (take n xs @ d) @ remaining s1), s')" "inv s'" "remaining s' = []"
      by blast
    have "take (n + bytesRead r) (take n xs @ d) @ remaining s1 = take n xs @ remaining s"
      using law(2,3,4,5) less(3,4) by simp
    with s' pos eos law(1,2) show ?thesis
      unfolding readBytes_step [OF True call] by (auto simp: not_less)
  qed
qed

lemma probe_remaining:
  assumes "inv s"
  shows "code (fst (probeForMoreData rd s)) = (if remaining s = [] then Success else SizeLimitExceeded)"
proof -
  obtain r d s' where call: "call_read rd s [0] = (r, d, s')" by (cases "call_read rd s [0]") auto
  note law = call_law [OF assms call]
  show ?thesis
  proof (cases "remaining s = []")
    case True
    with law show ?thesis by (simp add: probeForMoreData_def call)
  next
    case False
    then have "bytesRead r = 1" using law(2,5,6,7) by (cases "bytesRead r = 0") auto
    with False show ?thesis by (simp add: probeForMoreData_def call)
  qed
qed

lemma streamBytes_remaining:
  assumes "inv s" "sc \<noteq> []" "length xs = n" "n \<le> mx" "can_hold env (min mx (n + length (remaining s)))"
  shows "allBytes (fst (streamBytes_from env rd s sc mx xs n)) = xs @ take (mx - n) (remaining s) \<and>
    code (allStatus (fst (streamBytes_from env rd s sc mx xs n))) = (if n + length (remaining s) \<le> mx then Success else SizeLimitExceeded)"
  using assms
proof (induction "mx - n" arbitrary: s sc xs n rule: less_induct)
  case less
  show ?case
  proof (cases "n < mx")
    case False
    with less(5) have n: "n = mx" by simp
    obtain st s' where probe: "probeForMoreData rd s = (st, s')" by (cases "probeForMoreData rd s")
    with probe_remaining [OF less(2)] n show ?thesis by (simp add: streamBytes_from.simps)
  next
    case True
    define k where k: "k = min (length sc) (mx - n)"
    have kpos: "take k sc \<noteq> []" "length (take k sc) = k" using k True less(3) by auto
    obtain r d s1 where call: "call_read rd s (take k sc) = (r, d, s1)" by (cases "call_read rd s (take k sc)") auto
    note law = call_law [OF less(2) call]
    have rk: "bytesRead r \<le> k" "bytesRead r \<le> mx - n" using law(2) kpos k by auto
    let ?got = "take (bytesRead r) (remaining s)"
    have got: "take (bytesRead r) d = ?got" "length ?got = bytesRead r" using law(2,3,4) by simp_all
    have "length xs + length ?got \<le> min mx (n + length (remaining s))" using law(3) rk(2) less(4) True got(2) by simp
    then have app: "appended env xs r d = (successStatus, xs @ ?got)"
      using appendBytes_holds [OF less(6), of xs ?got] got by (auto simp: Suc_le_eq)
    show ?thesis
    proof (cases "endOfStream r")
      case True
      with law(5,6) have "remaining s = ?got" by (metis append_Nil2 append_take_drop_id)
      then have "length (remaining s) = bytesRead r" using got(2) by metis
      moreover have "n + bytesRead r \<le> mx" using rk(2) \<open>n < mx\<close> by linarith
      ultimately show ?thesis
        unfolding streamBytes_step [OF \<open>n < mx\<close> k call app] using rk True law(1) by simp
    next
      case False
      then have pos: "bytesRead r \<noteq> 0" using law(7) kpos(1) by blast
      have "d @ drop k sc \<noteq> []" using law(4) kpos law(2) by (metis Nil_is_append_conv call_read_length [OF call] length_0_conv)
      moreover have "can_hold env (min mx (n + bytesRead r + length (remaining s1)))" using less(6) law(3,5) by simp
      moreover have "mx - (n + bytesRead r) < mx - n" "n + bytesRead r \<le> mx" "length (xs @ ?got) = n + bytesRead r"
        using \<open>n < mx\<close> pos rk less(4) got(2) by simp_all
      ultimately have IH: "allBytes (fst (streamBytes_from env rd s1 (d @ drop k sc) mx (xs @ ?got) (n + bytesRead r))) =
          (xs @ ?got) @ take (mx - (n + bytesRead r)) (remaining s1) \<and>
        code (allStatus (fst (streamBytes_from env rd s1 (d @ drop k sc) mx (xs @ ?got) (n + bytesRead r)))) =
          (if n + bytesRead r + length (remaining s1) \<le> mx then Success else SizeLimitExceeded)"
        using less(1) [of "n + bytesRead r" s1 "d @ drop k sc" "xs @ ?got"] law(8) by blast
      have "?got @ take (mx - (n + bytesRead r)) (remaining s1) = take (mx - n) (remaining s)"
      proof -
        have "bytesRead r + (mx - (n + bytesRead r)) = mx - n" using rk(2) by simp
        then show ?thesis using law(5) take_add [of "bytesRead r" "mx - (n + bytesRead r)" "remaining s"] by simp
      qed
      moreover have "n + bytesRead r + length (remaining s1) = n + length (remaining s)" using law(3,5) by simp
      ultimately show ?thesis
        unfolding streamBytes_step [OF \<open>n < mx\<close> k call app] using IH False pos rk law(1) by simp
    qed
  qed
qed

end


section \<open>Sources that may fail\<close>

text \<open>Whatever fails on the way, a whole-stream read that reports success has delivered everything that remained.\<close>

context honest_source
begin

lemma honest_call:
  assumes "inv s" "call_read rd s dest = (r, d, s')" "ok (readStatus r)"
  shows "bytesRead r \<le> length dest" "bytesRead r \<le> length (remaining s)"
    "d = take (bytesRead r) (remaining s) @ drop (bytesRead r) dest" "remaining s' = drop (bytesRead r) (remaining s)"
    "endOfStream r \<Longrightarrow> remaining s' = []" "inv s'"
proof -
  obtain r0 d' s0 where raw0: "reader_read rd s dest = (r0, d', s0)" by (rule prod_cases3)
  with assms(2) have raw: "reader_read rd s dest = (r, d', s')" and d: "d = take (length dest) (d' @ drop (length d') dest)"
    by (auto simp: call_read_def)
  note law = honest_read [OF assms(1) raw assms(3)]
  then have "length d' = length dest" by simp
  with d have eq: "d = d'" by simp
  show "bytesRead r \<le> length dest" "bytesRead r \<le> length (remaining s)"
    "d = take (bytesRead r) (remaining s) @ drop (bytesRead r) dest" "remaining s' = drop (bytesRead r) (remaining s)"
    "endOfStream r \<Longrightarrow> remaining s' = []" "inv s'"
    using law unfolding eq by blast+
qed

lemma readBytes_honest:
  assumes "inv s" "n \<le> e" "length xs = e" "length (remaining s) = e - n"
    and "ok (allStatus (fst (readBytes_from rd s e xs n)))"
  shows "allBytes (fst (readBytes_from rd s e xs n)) = take n xs @ remaining s"
  using assms
proof (induction "e - n" arbitrary: s xs n rule: less_induct)
  case less
  show ?case
  proof (cases "n < e")
    case False
    with less(2-) show ?thesis by (simp add: readBytes_from.simps)
  next
    case True
    obtain r d s1 where call: "call_read rd s (drop n xs) = (r, d, s1)" by (rule prod_cases3)
    note step = readBytes_step [OF True call]
    from less(6) have okay: "ok (readStatus r)" and pos: "bytesRead r \<noteq> 0" unfolding step by (auto split: if_splits)
    note law = honest_call [OF less(2) call okay]
    have left: "length (remaining s1) = e - (n + bytesRead r)" using law(4) less(5) by simp
    have next_args: "e - (n + bytesRead r) < e - n" "n + bytesRead r \<le> e" "length (take n xs @ d) = e"
      using law(2,3) less(3,4,5) True pos by auto
    have run: "readBytes_from rd s e xs n = readBytes_from rd s1 e (take n xs @ d) (n + bytesRead r)"
      using less(6) unfolding step by (auto split: if_splits)
    have "allBytes (fst (readBytes_from rd s1 e (take n xs @ d) (n + bytesRead r))) = take (n + bytesRead r) (take n xs @ d) @ remaining s1"
      using less(1) [OF next_args(1) law(6) next_args(2,3) left] less(6) by (simp add: run)
    then show ?thesis unfolding run using law(1,2,3,4) less(3,4) by simp
  qed
qed

lemma probe_honest: "inv s \<Longrightarrow> probeForMoreData rd s = (st, s') \<Longrightarrow> ok st \<Longrightarrow> remaining s = []"
proof -
  assume a: "inv s" "probeForMoreData rd s = (st, s')" "ok st"
  obtain r d s1 where call: "call_read rd s [0] = (r, d, s1)" by (rule prod_cases3)
  from a have r: "bytesRead r = 0" "ok (readStatus r)" "endOfStream r" by (auto simp: probeForMoreData_def call split: if_splits)
  show "remaining s = []" using honest_call(4,5) [OF a(1) call r(2)] r by simp
qed

lemma streamBytes_honest:
  assumes "inv s" "ok (allStatus (fst (streamBytes_from env rd s sc mx xs n)))"
  shows "allBytes (fst (streamBytes_from env rd s sc mx xs n)) = xs @ remaining s"
  using assms
proof (induction "mx - n" arbitrary: s sc xs n rule: less_induct)
  case less
  show ?case
  proof (cases "n < mx")
    case False
    obtain st s' where probe: "probeForMoreData rd s = (st, s')" by (rule prod.exhaust)
    with False less(3) probe_honest [OF less(2) probe] show ?thesis by (simp add: streamBytes_from.simps)
  next
    case True
    define k where k: "k = min (length sc) (mx - n)"
    obtain r d s1 where call: "call_read rd s (take k sc) = (r, d, s1)" by (rule prod_cases3)
    obtain st ys where app: "appended env xs r d = (st, ys)" by (rule prod.exhaust)
    note step = streamBytes_step [OF True k call app]
    from less(3) have okay: "ok (readStatus r)" "ok st" unfolding step by (auto split: if_splits)
    note law = honest_call [OF less(2) call okay(1)]
    have "take (bytesRead r) d = take (bytesRead r) (remaining s)" using law(2,3) by simp
    then have ys: "ys = xs @ take (bytesRead r) (remaining s)"
      using app okay(2) by (auto simp: appendBytes_def split: if_splits option.splits)
    have all: "take (bytesRead r) (remaining s) @ remaining s1 = remaining s" using law(4) by simp
    show ?thesis
    proof (cases "endOfStream r")
      case True
      then show ?thesis using less(3) all law(5) [OF True] unfolding step by (auto simp: ys split: if_splits)
    next
      case False
      have run: "streamBytes_from env rd s sc mx xs n = streamBytes_from env rd s1 (d @ drop k sc) mx ys (n + bytesRead r)"
        and pos: "bytesRead r \<noteq> 0"
        using less(3) False unfolding step by (auto split: if_splits)
      have "mx - (n + bytesRead r) < mx - n" using True pos by simp
      from less(1) [OF this law(6)] less(3) show ?thesis unfolding run using all by (simp add: ys)
    qed
  qed
qed

lemma readAllBytes_honest:
  assumes "inv s" "readAllBytes env rd s mx buf = (result, s')" "ok (allStatus result)"
  shows "allBytes result = remaining s"
proof -
  let ?k = "knownReadableByteCount rd s"
  have count: "byteCount ?k = length (remaining s)" if "known ?k"
    using that honest_size [OF assms(1)] by (auto simp: knownReadableByteCount_def Let_def split: if_splits)
  have sized: "readAllBytesKnownSize env rd s (length (remaining s)) mx = (result, s') \<Longrightarrow> ?thesis"
    using readBytes_honest [OF assms(1), of 0 "length (remaining s)" "replicate (length (remaining s)) 0"] assms(3)
    by (auto simp: readAllBytesKnownSize_def split: if_splits option.splits)
  have streamed: "readAllBytesWithScratch env rd s sc mx = (result, s') \<Longrightarrow> ?thesis" for sc
    using streamBytes_honest [OF assms(1), of env sc mx "[]" 0] assms(3) by (simp add: readAllBytesWithScratch_def)
  have probed: "probeForMoreData rd s = (allStatus result, s') \<Longrightarrow> remaining s = []"
    using probe_honest [OF assms(1)] assms(3) by blast
  show ?thesis using assms(2,3) count sized streamed probed
    by (auto simp: readAllBytes_def Let_def split: if_splits option.splits prod.splits)
qed

end

section \<open>Sized sources\<close>

context sized_source
begin

lemma known_law: "inv s \<Longrightarrow> knownReadableByteCount rd s = \<lparr>knownStatus = successStatus, byteCount = length (remaining s), known = True\<rparr>"
  using size_law [of s] by (auto simp: knownReadableByteCount_def Let_def)

lemma readKnown_law:
  assumes "inv s" "can_hold env (length (remaining s))"
  shows "fst (readAllBytesKnownSize env rd s (length (remaining s)) mx) =
    (if length (remaining s) \<le> mx then bytesResult successStatus (remaining s) else bytesResult (statusOf SizeLimitExceeded) [])"
proof -
  let ?n = "length (remaining s)"
  obtain s' where "readBytes_from rd s ?n (replicate ?n 0) 0 = (bytesResult successStatus (remaining s), s')"
    using readBytes_remaining [of s 0 ?n "replicate ?n 0"] assms(1) by auto
  with assms(2) show ?thesis by (auto simp: readAllBytesKnownSize_def can_hold_def)
qed

lemma readAllBytes_law:
  assumes "inv s" "can_hold env (length (remaining s))" "buf \<noteq> 0"
  shows "fst (readAllBytes env rd s mx buf) =
    (if length (remaining s) \<le> mx then bytesResult successStatus (remaining s) else bytesResult (statusOf SizeLimitExceeded) [])"
  using readKnown_law [OF assms(1,2)] assms(3) by (simp add: readAllBytes_def known_law [OF assms(1)] Let_def)

lemma readAllText_law:
  assumes "inv s" "can_hold (text_env env) (length (remaining s))" "buf \<noteq> 0"
  shows "fst (readAllText env rd s mx buf) =
    (if length (remaining s) > mx then textResult (statusOf SizeLimitExceeded) []
     else if valid_utf8 (remaining s) then textResult successStatus (remaining s)
     else textResult (statusOf EncodingFailed) (take (validPrefixBytes (Utf8_validate (remaining s))) (remaining s)))"
proof -
  have "validationOutcome8 (Utf8_validate []) = V_Valid" by (simp add: Utf8_validate_iff)
  with readKnown_law [OF assms(1,2)] assms(3) show ?thesis
    by (simp add: readAllText_def known_law [OF assms(1)] Let_def readAllTextKnownSize_bytes finalizeReadAllText_def
        flip: Utf8_validate_iff)
qed

end

section \<open>Writers\<close>

lemma writeAllBytes_step:
  assumes "view_elems bytes \<noteq> []" "writer_write wr s bytes = (r, s')"
  shows "writeAllBytes_from wr s bytes n =
    (if bytesWritten r > length (view_elems bytes) then (writeResult (statusOf WriteFailed) n, s')
     else if \<not> ok (writeStatus r) then (writeResult (writeStatus r) (n + bytesWritten r), s')
     else if bytesWritten r = 0 then (writeResult (statusOf WriteFailed) (n + bytesWritten r), s')
     else writeAllBytes_from wr s' (subview (bytesWritten r) bytes) (n + bytesWritten r))"
  using assms by (subst writeAllBytes_from.simps) (simp add: Let_def)

lemma writeAllBytes_from_count:
  "bytesWritten (fst (writeAllBytes_from wr s bytes n)) \<le> n + length (view_elems bytes) \<and>
    (ok (writeStatus (fst (writeAllBytes_from wr s bytes n))) \<longrightarrow> bytesWritten (fst (writeAllBytes_from wr s bytes n)) = n + length (view_elems bytes))"
proof (induction "length (view_elems bytes)" arbitrary: s bytes n rule: less_induct)
  case less
  show ?case
  proof (cases "view_elems bytes = []")
    case True
    then show ?thesis by (simp add: writeAllBytes_from.simps)
  next
    case False
    obtain r s' where wrote: "writer_write wr s bytes = (r, s')" by (cases "writer_write wr s bytes")
    show ?thesis
      unfolding writeAllBytes_step [OF False wrote]
      using less [of "subview (bytesWritten r) bytes" s' "n + bytesWritten r"] False by (auto simp: subview_def not_less)
  qed
qed

context byte_sink
begin

lemma writeAllBytes_from_law:
  assumes "inv s" "accepts s bytes" "writeAllBytes_from wr s bytes n = (r, s')"
  shows "n \<le> bytesWritten r \<and> written s' = written s @ take (bytesWritten r - n) (view_elems bytes) \<and> inv s'"
  using assms
proof (induction "length (view_elems bytes)" arbitrary: s bytes n rule: less_induct)
  case less
  show ?case
  proof (cases "view_elems bytes = []")
    case True
    then show ?thesis using less(2-) by (auto simp: writeAllBytes_from.simps)
  next
    case False
    obtain q s1 where wrote: "writer_write wr s bytes = (q, s1)" by (cases "writer_write wr s bytes")
    note law = write_law [OF less(2,3) wrote]
    let ?k = "bytesWritten q"
    show ?thesis
    proof (cases "ok (writeStatus q)")
      case stop: False
      with law less(4) show ?thesis unfolding writeAllBytes_step [OF False wrote] by (auto simp: not_less)
    next
      case True
      with law False have k: "0 < ?k" "?k \<le> length (view_elems bytes)" by auto
      have again: "writeAllBytes_from wr s1 (subview ?k bytes) (n + ?k) = (r, s')"
        using less(4) True k unfolding writeAllBytes_step [OF False wrote] by simp
      show ?thesis
      proof (cases "?k = length (view_elems bytes)")
        case True
        then have "r = writeResult successStatus (n + ?k)" "s' = s1"
          using again by (auto simp: writeAllBytes_from.simps subview_def)
        with law True show ?thesis by simp
      next
        case False
        then have "length (view_elems (subview ?k bytes)) < length (view_elems bytes)" using k by (simp add: subview_def)
        moreover have "accepts s1 (subview ?k bytes)" "inv s1" using law True False k by auto
        ultimately have IH: "n + ?k \<le> bytesWritten r \<and>
            written s' = written s1 @ take (bytesWritten r - (n + ?k)) (view_elems (subview ?k bytes)) \<and> inv s'"
          using less(1) again by blast
        then have "bytesWritten r - n = ?k + (bytesWritten r - (n + ?k))" by simp
        then have "take (bytesWritten r - n) (view_elems bytes) = take ?k (view_elems bytes) @ take (bytesWritten r - (n + ?k)) (drop ?k (view_elems bytes))"
          by (metis take_add)
        with IH law show ?thesis by (simp add: subview_def)
      qed
    qed
  qed
qed

lemma writeAllBytes_law:
  assumes "inv s" "accepts s bytes" "writeAllBytes wr s bytes = (r, s')"
  shows "written s' = written s @ take (bytesWritten r) (view_elems bytes)" "inv s'"
  using writeAllBytes_from_law [OF assms(1,2), of 0 r s'] assms(3) by (auto simp: writeAllBytes_def)

end


section \<open>Properties\<close>

text \<open>C24: whatever the reader does, a whole-stream read never returns more bytes than its limit, in any of its four forms.\<close>

theorem readAll_bounded:
  "length (allBytes (fst (readAllBytes env rd s mx buf))) \<le> mx \<and> length (allBytes (fst (readAllBytes_scratch env rd s sc mx))) \<le> mx \<and>
   length (allText (fst (readAllText env rd s mx buf))) \<le> mx \<and> length (allText (fst (readAllText_scratch env rd s sc mx))) \<le> mx"
proof -
  define B where "B k xs \<longleftrightarrow> length xs \<le> k" for k and xs :: "byte list"
  have B: "B k []" "B k (allBytes (fst (readAllBytesKnownSize env' rd s n k)))" "B k (allBytes (fst (readAllBytesWithScratch env' rd s sc' k)))"
    for k env' n sc'
    using readAllBytesKnownSize_size readAllBytesWithScratch_size by (simp_all add: B_def)
  have final: "B k (allText (finalizeReadAllText r))" if "B k (allText r)" for k r
    using that finalizeReadAllText_prefix [of r] prefix_length_le unfolding B_def by fastforce
  show ?thesis
    unfolding B_def [symmetric]
    by (auto simp: readAllBytes_def readAllBytes_scratch_def readAllText_def readAllText_scratch_def Let_def readAllTextKnownSize_bytes
        readAllTextWithScratch_bytes B final split: option.splits prod.splits)
qed

text \<open>Whatever the reader does, the text a whole-stream text read returns is well-formed UTF-8, also when it reports a failure.\<close>

theorem readAllText_always_valid:
  "validationOutcome8 (Utf8_validate (allText (fst (readAllText env rd s mx buf)))) = V_Valid \<and>
   validationOutcome8 (Utf8_validate (allText (fst (readAllText_scratch env rd s sc mx)))) = V_Valid"
  by (auto simp: readAllText_def readAllText_scratch_def Let_def Utf8_validate_iff finalizeReadAllText_valid split: option.splits prod.splits)

text \<open>
  Reading all of a memory reader returns exactly the bytes from its position to its end, or refuses without reading when they
  exceed the limit.
\<close>

theorem readAllBytes_memory:
  assumes "reader_inv buffer (m, reader)" "can_hold env (source_size reader - reader_pos reader)" "buf \<noteq> 0"
  shows "fst (readAllBytes env (memoryReader buffer) (m, reader) mx buf) =
    (if source_size reader - reader_pos reader \<le> mx
     then bytesResult successStatus (region m (source_data reader + reader_pos reader) (source_size reader - reader_pos reader))
     else bytesResult (statusOf SizeLimitExceeded) [])"
  using mem.readAllBytes_law [of buffer "(m, reader)" env buf mx] assms by (simp add: reader_remaining_def)

theorem readAllBytes_memory_witness:
  "fst (readAllBytes \<lparr>vectorMaxSize = 10, vectorAlloc = (\<lambda>n. None), stringMaxSize = 0, stringAlloc = (\<lambda>n. None), scratchAlloc = (\<lambda>n. None),
      scratchContents = (\<lambda>n. 0)\<rparr> (memoryReader 100) (of_nat, \<lparr>source_data = 10, source_size = 5, reader_pos = 2, reader_open = True\<rparr>) 8 1)
    = bytesResult successStatus [12, 13, 14]"
proof -
  let ?env = "\<lparr>vectorMaxSize = 10, vectorAlloc = (\<lambda>n. None), stringMaxSize = 0, stringAlloc = (\<lambda>n. None), scratchAlloc = (\<lambda>n. None), scratchContents = (\<lambda>n. 0)\<rparr>"
  let ?rd = "\<lparr>source_data = 10, source_size = 5, reader_pos = 2, reader_open = True\<rparr>"
  have "region of_nat 12 3 = [12, 13, 14 :: byte]" by code_simp
  then show ?thesis
    using readAllBytes_memory [of 100 of_nat ?rd ?env 1 8] by (simp add: reader_inv_def reader_wf_def can_hold_def)
qed

text \<open>
  The streaming loop, which does not know the size and reads through a scratch buffer of any size, collects the same bytes up to
  the limit and, with a one-byte probe, tells an exact fit from an overflow.
\<close>

theorem stream_memory:
  assumes "reader_inv buffer (m, reader)" "sc \<noteq> []" "can_hold env (min mx (source_size reader - reader_pos reader))"
  shows "allBytes (fst (readAllBytesWithScratch env (memoryReader buffer) (m, reader) sc mx)) =
      take mx (region m (source_data reader + reader_pos reader) (source_size reader - reader_pos reader)) \<and>
    code (allStatus (fst (readAllBytesWithScratch env (memoryReader buffer) (m, reader) sc mx))) =
      (if source_size reader - reader_pos reader \<le> mx then Success else SizeLimitExceeded)"
  using mem.streamBytes_remaining [of buffer "(m, reader)" sc "[]" 0 mx env] assms
  by (simp add: readAllBytesWithScratch_def reader_remaining_def)

theorem stream_memory_witness:
  "code (allStatus (fst (readAllBytesWithScratch \<lparr>vectorMaxSize = 10, vectorAlloc = (\<lambda>n. None), stringMaxSize = 0, stringAlloc = (\<lambda>n. None),
      scratchAlloc = (\<lambda>n. None), scratchContents = (\<lambda>n. 0)\<rparr> (memoryReader 100)
      (of_nat, \<lparr>source_data = 10, source_size = 5, reader_pos = 2, reader_open = True\<rparr>) [0, 0] 2))) = SizeLimitExceeded"
  using stream_memory [of 100 of_nat "\<lparr>source_data = 10, source_size = 5, reader_pos = 2, reader_open = True\<rparr>" "[0, 0]"
      "\<lparr>vectorMaxSize = 10, vectorAlloc = (\<lambda>n. None), stringMaxSize = 0, stringAlloc = (\<lambda>n. None), scratchAlloc = (\<lambda>n. None), scratchContents = (\<lambda>n. 0)\<rparr>" 2]
  by (simp add: reader_inv_def reader_wf_def can_hold_def)

text \<open>
  Whatever the writer does, writing all bytes reports at most the input's size, and success means exactly that; text that is not
  well-formed UTF-8 is refused before the writer is called.
\<close>

theorem writeAll_count:
  "bytesWritten (fst (writeAllBytes wr s bytes)) \<le> length (view_elems bytes) \<and>
   (ok (writeStatus (fst (writeAllBytes wr s bytes))) \<longrightarrow> bytesWritten (fst (writeAllBytes wr s bytes)) = length (view_elems bytes)) \<and>
   (validationOutcome8 (Utf8_validate (view_elems bytes)) \<noteq> V_Valid \<longrightarrow>
     writeAllText wr s bytes = (writeResult (statusOf EncodingFailed) 0, s))"
  using writeAllBytes_from_count [of wr s bytes 0] by (simp add: writeAllBytes_def writeAllText_def)

theorem writeAll_count_witness:
  "writeAllText (memoryWriter \<lparr>max_size = 9, allocate = (\<lambda>n. Inr (50, n)), released = (\<lambda>p. 0)\<rparr>) MemoryWriter_new \<lparr>view_data = 1, view_elems = [0xFF]\<rparr>
    = (writeResult (statusOf EncodingFailed) 0, MemoryWriter_new)"
proof -
  have "validationOutcome8 (Utf8_validate (view_elems \<lparr>view_data = 1, view_elems = [0xFF]\<rparr>)) \<noteq> V_Valid" by code_simp
  then show ?thesis using writeAll_count [of _ MemoryWriter_new "\<lparr>view_data = 1, view_elems = [0xFF]\<rparr>"] by blast
qed

text \<open>
  Text written through a memory writer and read back from its storage is the same text.
\<close>

theorem text_write_read_roundtrip:
  assumes wrote: "writeAllText (memoryWriter alloc) MemoryWriter_new text = (r, writer)" "ok (writeStatus r)"
    and stored: "region m address (length (vec_elems (writer_bytes writer))) = vec_elems (writer_bytes writer)"
    and room: "address + length (view_elems text) \<le> buffer" "can_hold (text_env env) (length (view_elems text))" "length (view_elems text) \<le> mx" "buf \<noteq> 0"
  shows "fst (readAllText env (memoryReader buffer) (m, MemoryReader_new address (length (vec_elems (writer_bytes writer)))) mx buf)
    = textResult successStatus (view_elems text)"
proof -
  from wrote have valid: "valid_utf8 (view_elems text)" and all: "writeAllBytes (memoryWriter alloc) MemoryWriter_new text = (r, writer)"
    by (auto simp: writeAllText_def Utf8_validate_iff split: if_splits)
  have "bytesWritten r = length (view_elems text)"
    using writeAllBytes_from_count [of "memoryWriter alloc" MemoryWriter_new "text" 0] all wrote(2) by (simp add: writeAllBytes_def)
  moreover have "view_agrees MemoryWriter_new text" by (simp add: view_agrees_def MemoryWriter_new_def)
  ultimately have elems: "vec_elems (writer_bytes writer) = view_elems text"
    using memw.writeAllBytes_law(1) [OF _ _ all] by (simp add: MemoryWriter_new_def)
  let ?s = "(m, MemoryReader_new address (length (view_elems text)))"
  have "reader_inv buffer ?s" using room by (simp add: reader_inv_def reader_wf_def MemoryReader_new_def)
  moreover have "reader_remaining ?s = view_elems text" using stored elems by (simp add: reader_remaining_def MemoryReader_new_def)
  ultimately show ?thesis using mem.readAllText_law [of buffer ?s env buf mx] room valid elems by simp
qed

theorem text_write_read_roundtrip_witness:
  "fst (readAllText \<lparr>vectorMaxSize = 0, vectorAlloc = (\<lambda>n. None), stringMaxSize = 9, stringAlloc = (\<lambda>n. None), scratchAlloc = (\<lambda>n. None),
      scratchContents = (\<lambda>n. 0)\<rparr> (memoryReader 99) (\<lambda>p. if p = 50 then 0xC3 else 0xA9, MemoryReader_new 50 2) 8 1)
    = textResult successStatus [0xC3, 0xA9]"
proof -
  let ?alloc = "\<lparr>max_size = 9, allocate = (\<lambda>n. Inr (50, n)), released = (\<lambda>p. 0)\<rparr>" and ?text = "\<lparr>view_data = 1, view_elems = [0xC3, 0xA9]\<rparr>"
  let ?m = "\<lambda>p :: nat. if p = 50 then 0xC3 else 0xA9 :: byte"
  let ?env = "\<lparr>vectorMaxSize = 0, vectorAlloc = (\<lambda>n. None), stringMaxSize = 9, stringAlloc = (\<lambda>n. None), scratchAlloc = (\<lambda>n. None), scratchContents = (\<lambda>n. 0)\<rparr>"
  let ?w = "writeAllText (memoryWriter ?alloc) MemoryWriter_new ?text"
  have "ok (writeStatus (fst ?w))" "vec_elems (writer_bytes (snd ?w)) = [0xC3, 0xA9]" "region ?m 50 2 = [0xC3, 0xA9]"
    by code_simp+
  then show ?thesis
    using text_write_read_roundtrip [of ?alloc ?text "fst ?w" "snd ?w" ?m 50 99 ?env 8 1]
    by (simp add: can_hold_def text_env_def numeral_2_eq_2)
qed

end
