(* ===== verification/Logger_Text.thy ===== *)
theory Logger_Text
  imports Unicode_Text IO_Status
begin

text \<open>
  Retained log text: the truncation helpers of \<^verbatim>\<open>tools/logger/detail/formatting.h\<close> and
  \<^verbatim>\<open>tools/logger/core/logger_format.cpp\<close>, the owned text buffers \<open>InlineLogText\<close> and \<open>DynamicLogText\<close>
  of \<^verbatim>\<open>tools/logger/internal/logger_core.h\<close> with the contract \<open>text_store\<close> they share, and the entry
  copies of \<^verbatim>\<open>tools/logger/core/logger_queue.cpp\<close>. The allocator is a parameter: \<open>alloc n\<close> is the exception
  that growing a \<open>std::string\<close> to \<open>n\<close> bytes throws, if it throws one.
\<close>

unbundle bit_operations_syntax

section \<open>Truncation boundaries\<close>

definition truncation_suffix :: "byte list" where
  "truncation_suffix = map of_char ''... [truncated]''"

text \<open>The backward loop of \<open>completeUtf8TailBoundary\<close>, with its \<open>lead\<close> and \<open>continuationCount\<close>.\<close>

function tail_lead :: "byte list \<Rightarrow> nat \<Rightarrow> nat \<Rightarrow> nat" where
  "tail_lead text lead continuationCount =
    (if lead > 0 \<and> continuationCount < 3
     then if text ! lead AND 0xC0 \<noteq> 0x80 then lead
          else tail_lead text (lead - 1) (continuationCount + 1)
     else lead)"
  by auto
termination by (relation "measure (\<lambda>(t, l, c). l)") auto

declare tail_lead.simps [simp del]

definition completeUtf8TailBoundary :: "byte list \<Rightarrow> nat" where
  "completeUtf8TailBoundary text =
    (if text = [] then 0
     else
       let lead = tail_lead text (length text - 1) 0;
           first = text ! lead;
           available = length text - lead in
       if 0xC2 \<le> first \<and> first \<le> 0xDF then (if available < 2 then lead else length text)
       else if 0xE0 \<le> first \<and> first \<le> 0xEF then (if available < 3 then lead else length text)
       else if 0xF0 \<le> first \<and> first \<le> 0xF4 then (if available < 4 then lead else length text)
       else length text)"

text \<open>\<open>while (boundary > 0)\<close> in \<open>utf8PrefixBoundary\<close>.\<close>

primrec prefix_boundary_scan :: "byte list \<Rightarrow> nat \<Rightarrow> nat" where
  "prefix_boundary_scan text 0 = 0"
| "prefix_boundary_scan text (Suc offset) =
    (if text ! Suc offset AND 0xC0 \<noteq> 0x80 then Suc offset else prefix_boundary_scan text offset)"

definition utf8PrefixBoundary :: "byte list \<Rightarrow> nat \<Rightarrow> nat" where
  "utf8PrefixBoundary text limit =
    (if limit \<ge> length text then length text else prefix_boundary_scan text limit)"

definition appendTruncationSuffix :: "byte list \<Rightarrow> nat \<Rightarrow> byte list" where
  "appendTruncationSuffix scratch maxMessageLength =
    (if maxMessageLength = 0 then []
     else if maxMessageLength \<le> length truncation_suffix then take maxMessageLength truncation_suffix
     else scratch @ truncation_suffix)"

definition truncateScratch :: "byte list \<Rightarrow> nat \<Rightarrow> byte list" where
  "truncateScratch scratch maxMessageLength =
    appendTruncationSuffix
      (if maxMessageLength > length truncation_suffix
       then take (utf8PrefixBoundary scratch (maxMessageLength - length truncation_suffix)) scratch
       else [])
      maxMessageLength"

definition truncateScratchIfNeeded :: "byte list \<Rightarrow> nat \<Rightarrow> byte list \<times> bool" where
  "truncateScratchIfNeeded scratch maxMessageLength =
    (if length scratch \<le> maxMessageLength then (scratch, False)
     else (truncateScratch scratch maxMessageLength, True))"

text \<open>
  \<open>BoundedFormatIterator\<close> refers to the output string, the count of bytes offered and the truncation flag;
  \<open>put_byte\<close> is its assignment operator. The bytes \<open>std::format_to\<close> offers are the formatted text, in order.
\<close>

record BoundedFormatIterator =
  outputText :: "byte list"
  formatLimit :: nat
  writtenCount :: nat
  formatTruncated :: bool

definition put_byte :: "byte \<Rightarrow> BoundedFormatIterator \<Rightarrow> BoundedFormatIterator" where
  "put_byte v it =
    (if writtenCount it < formatLimit it then it\<lparr>outputText := outputText it @ [v], writtenCount := writtenCount it + 1\<rparr>
     else it\<lparr>formatTruncated := True, writtenCount := writtenCount it + 1\<rparr>)"

definition formatBounded :: "nat \<Rightarrow> byte list \<Rightarrow> byte list \<times> bool" where
  "formatBounded maxMessageLength formatted =
    (let it = fold put_byte formatted
        \<lparr>outputText = [], formatLimit = maxMessageLength, writtenCount = 0, formatTruncated = False\<rparr> in
     if \<not> formatTruncated it then (outputText it, False)
     else (truncateScratch (outputText it) maxMessageLength, True))"

datatype FormatPolicy = StrictBounded | FastNormal

definition formatWithPolicy :: "FormatPolicy \<Rightarrow> nat \<Rightarrow> byte list \<Rightarrow> byte list \<times> bool" where
  "formatWithPolicy policy maxMessageLength formatted =
    (if policy = FastNormal then truncateScratchIfNeeded formatted maxMessageLength
     else formatBounded maxMessageLength formatted)"

definition buildTruncatedMessage :: "byte list \<Rightarrow> nat \<Rightarrow> byte list" where
  "buildTruncatedMessage msg maxMessageLength =
    (if maxMessageLength = 0 then []
     else if maxMessageLength \<le> length truncation_suffix then take maxMessageLength truncation_suffix
     else take (utf8PrefixBoundary msg (maxMessageLength - length truncation_suffix)) msg @ truncation_suffix)"

definition boundedMessageView :: "nat \<Rightarrow> byte list \<Rightarrow> bool \<Rightarrow> byte list \<times> bool" where
  "boundedMessageView maxMessageLength msg alreadyTruncated =
    (if alreadyTruncated then (msg, False)
     else if length msg \<le> maxMessageLength then (msg, False)
     else (buildTruncatedMessage msg maxMessageLength, True))"

section \<open>Owned text buffers\<close>

text \<open>
  A buffer holds its text inline or, when it does not fit, in a heap string. \<open>inlineText_\<close> is an array of
  \<open>InlineCapacity\<close> bytes in \<open>InlineLogText\<close> and a slice of the message arena in \<open>DynamicLogText\<close>. A throwing
  operation returns the exception beside the state it leaves.
\<close>

record LogText =
  inlineText :: "byte list"
  inlineSize :: nat
  heapActive :: bool
  heapText :: "byte list"

type_synonym allocator = "nat \<Rightarrow> exception_kind option"

definition LogText_clear :: "bool \<Rightarrow> LogText \<Rightarrow> LogText" where
  "LogText_clear releaseHeapCapacity d =
    d\<lparr>heapText := (if heapActive d \<or> releaseHeapCapacity then [] else heapText d), inlineSize := 0, heapActive := False\<rparr>"

definition LogText_view :: "LogText \<Rightarrow> byte list" where
  "LogText_view d = (if heapActive d then heapText d else take (inlineSize d) (inlineText d))"

text \<open>The branch of \<open>assign\<close> that copies into the inline storage, and the branch that uses the heap string.\<close>

definition store_inline :: "byte list \<Rightarrow> LogText \<Rightarrow> LogText" where
  "store_inline text d =
    d\<lparr>heapText := (if heapActive d then [] else heapText d), inlineSize := length text,
      inlineText := text @ drop (length text) (inlineText d), heapActive := False\<rparr>"

definition store_heap :: "byte list \<Rightarrow> LogText \<Rightarrow> LogText" where
  "store_heap text d = d\<lparr>heapText := text, inlineSize := 0, heapActive := True\<rparr>"

definition DynamicLogText_assign :: "allocator \<Rightarrow> byte list \<Rightarrow> LogText \<Rightarrow> LogText \<times> exception_kind option" where
  "DynamicLogText_assign alloc text d =
    (if length text \<le> length (inlineText d) then (store_inline text d, None)
     else (case alloc (length text) of Some e \<Rightarrow> (d, Some e) | None \<Rightarrow> (store_heap text d, None)))"

definition DynamicLogText_assignJoined ::
    "allocator \<Rightarrow> byte list \<Rightarrow> byte list \<Rightarrow> LogText \<Rightarrow> LogText \<times> exception_kind option" where
  "DynamicLogText_assignJoined alloc first second d =
    (let first = take (completeUtf8TailBoundary first) first;
         total = length first + length second in
     if total \<le> length (inlineText d) then (store_inline (first @ second) d, None)
     else (case alloc total of
         Some e \<Rightarrow> (d\<lparr>heapText := []\<rparr>, Some e)
       | None \<Rightarrow> (store_heap (first @ second) d, None)))"

text \<open>\<open>transferFrom\<close> returns the destination, the source and the exception of a throwing \<open>assign\<close>.\<close>

definition DynamicLogText_transferFrom ::
    "allocator \<Rightarrow> LogText \<Rightarrow> LogText \<Rightarrow> LogText \<times> LogText \<times> exception_kind option" where
  "DynamicLogText_transferFrom alloc d source =
    (if heapActive source
     then (store_heap (heapText source) d, source\<lparr>heapText := [], inlineSize := 0, heapActive := False\<rparr>, None)
     else (case DynamicLogText_assign alloc (LogText_view source) d of
         (d', Some e) \<Rightarrow> (d', source, Some e)
       | (d', None) \<Rightarrow> (d', LogText_clear False source, None)))"

definition configureInlineStorage :: "byte list \<Rightarrow> LogText \<Rightarrow> LogText" where
  "configureInlineStorage storage d = LogText_clear False (d\<lparr>inlineText := storage, inlineSize := 0\<rparr>)"

definition InlineLogText_assign :: "nat \<Rightarrow> allocator \<Rightarrow> byte list \<Rightarrow> LogText \<Rightarrow> LogText \<times> exception_kind option" where
  "InlineLogText_assign InlineCapacity alloc text d =
    (if length text \<le> InlineCapacity then (store_inline text d, None)
     else (case alloc (length text) of Some e \<Rightarrow> (d, Some e) | None \<Rightarrow> (store_heap text d, None)))"

definition InlineLogText_transferFrom ::
    "nat \<Rightarrow> allocator \<Rightarrow> LogText \<Rightarrow> LogText \<Rightarrow> LogText \<times> LogText \<times> exception_kind option" where
  "InlineLogText_transferFrom InlineCapacity alloc d source =
    (if heapActive source
     then (store_heap (heapText source) d, source\<lparr>heapText := [], inlineSize := 0, heapActive := False\<rparr>, None)
     else (case InlineLogText_assign InlineCapacity alloc (LogText_view source) d of
         (d', Some e) \<Rightarrow> (d', source, Some e)
       | (d', None) \<Rightarrow> (d', LogText_clear False source, None)))"

definition InlineLogText_assignJoined ::
    "nat \<Rightarrow> allocator \<Rightarrow> byte list \<Rightarrow> byte list \<Rightarrow> LogText \<Rightarrow> LogText \<times> exception_kind option" where
  "InlineLogText_assignJoined InlineCapacity alloc first second d =
    (let first = take (completeUtf8TailBoundary first) first;
         total = length first + length second in
     if total \<le> InlineCapacity then (store_inline (first @ second) d, None)
     else (case alloc total of
         Some e \<Rightarrow> (d\<lparr>heapText := []\<rparr>, Some e)
       | None \<Rightarrow> (store_heap (first @ second) d, None)))"

text \<open>The overloads of \<open>assign\<close> for an owned string, whose storage is taken over when the text does not fit inline.\<close>

definition DynamicLogText_assign_owned :: "byte list \<Rightarrow> LogText \<Rightarrow> LogText" where
  "DynamicLogText_assign_owned text d = (if length text \<le> length (inlineText d) then store_inline text d else store_heap text d)"

definition InlineLogText_assign_owned :: "nat \<Rightarrow> byte list \<Rightarrow> LogText \<Rightarrow> LogText" where
  "InlineLogText_assign_owned InlineCapacity text d = (if length text \<le> InlineCapacity then store_inline text d else store_heap text d)"

definition kInlineSourceCapacity :: nat where
  "kInlineSourceCapacity = 64"

section \<open>Queue entries\<close>

datatype Level = Trace | Debug | Info | Warn | Error | Fatal | OtherLevel byte

type_synonym SourceId = "32 word"

record QueuedLogEntry =
  entryLevel :: Level
  usesRegisteredSource :: bool
  sourceId :: SourceId
  sourceText :: LogText
  messageText :: LogText

text \<open>A pending entry borrows its message.\<close>

record PendingLogEntry =
  pendingLevel :: Level
  pendingUsesRegisteredSource :: bool
  pendingSourceId :: SourceId
  pendingSourceText :: LogText
  pendingMessage :: "byte list"
  alreadyTruncated :: bool

definition clearLogEntry :: "bool \<Rightarrow> QueuedLogEntry \<Rightarrow> QueuedLogEntry" where
  "clearLogEntry releaseHeapCapacity entry =
    entry\<lparr>entryLevel := Info, usesRegisteredSource := False, sourceId := 0,
      sourceText := LogText_clear releaseHeapCapacity (sourceText entry),
      messageText := LogText_clear releaseHeapCapacity (messageText entry)\<rparr>"

text \<open>The entry, \<open>outTruncated\<close> and the exception of a throwing assignment.\<close>

definition assignRetainedMessage ::
    "allocator \<Rightarrow> QueuedLogEntry \<Rightarrow> byte list \<Rightarrow> nat \<Rightarrow> QueuedLogEntry \<times> bool \<times> exception_kind option" where
  "assignRetainedMessage alloc entry msg maxMessageLength =
    (if length msg \<le> maxMessageLength
     then (case DynamicLogText_assign alloc msg (messageText entry) of (t, e) \<Rightarrow> (entry\<lparr>messageText := t\<rparr>, False, e))
     else if maxMessageLength = 0
     then (entry\<lparr>messageText := LogText_clear False (messageText entry)\<rparr>, True, None)
     else if maxMessageLength \<le> length truncation_suffix
     then (case DynamicLogText_assign alloc (take maxMessageLength truncation_suffix) (messageText entry) of
         (t, e) \<Rightarrow> (entry\<lparr>messageText := t\<rparr>, True, e))
     else (case DynamicLogText_assignJoined alloc (take (maxMessageLength - length truncation_suffix) msg)
             truncation_suffix (messageText entry) of
         (t, e) \<Rightarrow> (entry\<lparr>messageText := t\<rparr>, True, e)))"

text \<open>The first part of \<open>copyPendingEntryToQueueSlot\<close> sets the header and the source, the second the message.\<close>

definition copyPendingSource :: "allocator \<Rightarrow> QueuedLogEntry \<Rightarrow> PendingLogEntry \<Rightarrow> QueuedLogEntry \<times> exception_kind option" where
  "copyPendingSource alloc destination source =
    (let dest = destination\<lparr>entryLevel := pendingLevel source, usesRegisteredSource := pendingUsesRegisteredSource source,
           sourceId := pendingSourceId source\<rparr> in
     if pendingUsesRegisteredSource source
     then (dest\<lparr>sourceText := LogText_clear False (sourceText dest)\<rparr>, None)
     else (case InlineLogText_assign kInlineSourceCapacity alloc (LogText_view (pendingSourceText source)) (sourceText dest) of
         (t, e) \<Rightarrow> (dest\<lparr>sourceText := t\<rparr>, e)))"

definition copyPendingMessage ::
    "allocator \<Rightarrow> nat \<Rightarrow> QueuedLogEntry \<Rightarrow> PendingLogEntry \<Rightarrow> QueuedLogEntry \<times> bool \<times> exception_kind option" where
  "copyPendingMessage alloc maxMessageLength dest source =
    (if alreadyTruncated source
     then (case DynamicLogText_assign alloc (pendingMessage source) (messageText dest) of
         (t, e) \<Rightarrow> (dest\<lparr>messageText := t\<rparr>, e = None, e))
     else assignRetainedMessage alloc dest (pendingMessage source) maxMessageLength)"

definition copyPendingEntryToQueueSlot ::
    "allocator \<Rightarrow> nat \<Rightarrow> QueuedLogEntry \<Rightarrow> PendingLogEntry \<Rightarrow> QueuedLogEntry \<times> bool \<times> exception_kind option" where
  "copyPendingEntryToQueueSlot alloc maxMessageLength destination source =
    (case copyPendingSource alloc destination source of
       (dest, Some e) \<Rightarrow> (dest, False, Some e)
     | (dest, None) \<Rightarrow> copyPendingMessage alloc maxMessageLength dest source)"

definition moveQueuedEntry ::
    "allocator \<Rightarrow> QueuedLogEntry \<Rightarrow> QueuedLogEntry \<Rightarrow> QueuedLogEntry \<times> QueuedLogEntry \<times> exception_kind option" where
  "moveQueuedEntry alloc destination source =
    (let dest = destination\<lparr>entryLevel := entryLevel source, usesRegisteredSource := usesRegisteredSource source, sourceId := sourceId source\<rparr>;
         (dest, source, failed) =
           (if usesRegisteredSource source
            then (dest\<lparr>sourceText := LogText_clear False (sourceText dest)\<rparr>, source, None)
            else (case InlineLogText_transferFrom kInlineSourceCapacity alloc (sourceText dest) (sourceText source) of
                (t, s, e) \<Rightarrow> (dest\<lparr>sourceText := t\<rparr>, source\<lparr>sourceText := s\<rparr>, e))) in
     case failed of
       Some e \<Rightarrow> (dest, source, Some e)
     | None \<Rightarrow> (case DynamicLogText_transferFrom alloc (messageText dest) (messageText source) of
         (t, s, e) \<Rightarrow> (dest\<lparr>messageText := t\<rparr>, source\<lparr>messageText := s\<rparr>, e)))"

section \<open>Boundaries in well-formed text\<close>

lemma length_truncation_suffix [simp]: "length truncation_suffix = 15"
  by (simp add: truncation_suffix_def)

lemma prefix_boundary_scan_eq: "prefix_boundary_scan t n = scanToLead t n"
  by (induction n) (simp_all add: isContinuationByte_def)

lemma tail_lead_stops:
  "j \<le> i \<Longrightarrow> i - j + count \<le> 3 \<Longrightarrow> (\<And>k. j < k \<Longrightarrow> k \<le> i \<Longrightarrow> isContinuationByte (t ! k)) \<Longrightarrow>
    \<not> isContinuationByte (t ! j) \<Longrightarrow> tail_lead t i count = j"
proof (induction "i - j" arbitrary: i count)
  case 0
  then show ?case by (subst tail_lead.simps) (auto simp: isContinuationByte_def)
next
  case (Suc n)
  then have "j < i" by simp
  moreover have "isContinuationByte (t ! i)" using Suc.prems(3) \<open>j < i\<close> by simp
  moreover have "tail_lead t (i - 1) (count + 1) = j"
    using Suc \<open>j < i\<close> by (intro Suc.hyps(1)) auto
  ultimately show ?case
    using Suc.prems(2) by (subst tail_lead.simps) (auto simp: isContinuationByte_def)
qed

lemma lead_byte_range:
  assumes "isScalarValue c" "utf8_encoding c = lead # conts"
  shows "(length conts = 0 \<and> unat lead < 128) \<or> (length conts = 1 \<and> 194 \<le> unat lead \<and> unat lead < 224)
    \<or> (length conts = 2 \<and> 224 \<le> unat lead \<and> unat lead < 240) \<or> (length conts = 3 \<and> 240 \<le> unat lead \<and> unat lead < 245)"
  using assms(1)
proof (cases rule: utf8_encoding_cases)
  case one
  with assms(2) show ?thesis by simp
next
  case two
  then have "2 \<le> unat c div 64" "unat c div 64 < 32" using div_le_mono [of 128 "unat c" 64] by (auto intro: less_mult_imp_div_less)
  with two assms(2) show ?thesis by auto
next
  case three
  then have "unat c div 4096 < 16" by (intro less_mult_imp_div_less) simp
  with three assms(2) show ?thesis by auto
next
  case four
  then have "unat c div 262144 < 5" by (intro less_mult_imp_div_less) simp
  with four assms(2) show ?thesis by auto
qed

lemma lead_byte_class:
  assumes "isScalarValue c" "utf8_encoding c = lead # conts"
  shows "0xC2 \<le> lead \<and> lead \<le> 0xDF \<longleftrightarrow> length conts = 1"
    and "0xE0 \<le> lead \<and> lead \<le> 0xEF \<longleftrightarrow> length conts = 2"
    and "0xF0 \<le> lead \<and> lead \<le> 0xF4 \<longleftrightarrow> length conts = 3"
    and "length conts \<le> 3"
  using lead_byte_range [OF assms] by (auto simp: unat_le_iff_nat)

lemma tail_boundary_at:
  assumes c: "isScalarValue c" and a: "0 < a" "a \<le> utf8EncodedLength c"
  shows "completeUtf8TailBoundary (pre @ take a (utf8_encoding c)) =
    (if a < utf8EncodedLength c then length pre else length pre + a)"
proof -
  let ?t = "pre @ take a (utf8_encoding c)"
  obtain lead conts where enc: "utf8_encoding c = lead # conts" "\<not> isContinuationByte lead" "list_all isContinuationByte conts"
    using utf8_encoding_shape [OF c] .
  note cls = lead_byte_class [OF c enc(1)]
  have len: "utf8EncodedLength c = Suc (length conts)" using enc(1) length_utf8_encoding [OF c] by simp
  have lt: "length ?t = length pre + a" using a len enc(1) by simp
  have first: "?t ! length pre = lead" using a(1) enc(1) by (cases a) (simp_all add: nth_append)
  have cont: "isContinuationByte (?t ! k)" if k: "length pre < k" "k \<le> length pre + a - 1" for k
  proof -
    obtain m where m: "k = length pre + Suc m" using less_imp_Suc_add [OF k(1)] by auto
    have "m < length conts" "Suc m < a" using m k a len by auto
    then show ?thesis using enc(1,3) m by (simp add: nth_append list_all_length)
  qed
  have "tail_lead ?t (length ?t - 1) 0 = length pre"
    unfolding lt using a len cls(4) enc(2) cont first by (intro tail_lead_stops) auto
  moreover have "?t \<noteq> []" using a enc(1) by (cases a) auto
  ultimately have "completeUtf8TailBoundary ?t =
    (if length conts = 1 then (if a < 2 then length pre else length pre + a)
     else if length conts = 2 then (if a < 3 then length pre else length pre + a)
     else if length conts = 3 then (if a < 4 then length pre else length pre + a) else length pre + a)"
    unfolding completeUtf8TailBoundary_def Let_def by (simp only: first lt cls(1-3) if_False diff_add_inverse)
  then show ?thesis using len cls(4) a by (simp split: if_splits)
qed

lemma cp_floor:
  assumes "list_all isScalarValue ss" "n < length (utf8_text ss)"
  obtains k where "k < length ss" "cp_offset ss k \<le> n" "n < cp_offset ss (Suc k)"
proof -
  let ?P = "\<lambda>k. n < cp_offset ss k"
  have ex: "?P (length ss)" using assms(2) by simp
  define m where "m = (LEAST k. ?P k)"
  have m: "?P m" "m \<le> length ss" unfolding m_def using ex by (rule LeastI, intro Least_le)
  then obtain k where k: "m = Suc k" by (cases m) auto
  have "\<not> ?P k" using not_less_Least [of k ?P] k unfolding m_def by simp
  with m k show ?thesis by (intro that [of k]) auto
qed

lemma prefix_boundary_floor:
  assumes ss: "list_all isScalarValue ss" and k: "k < length ss" "cp_offset ss k \<le> n" "n < cp_offset ss (Suc k)"
  shows "utf8PrefixBoundary (utf8_text ss) n = cp_offset ss k"
proof -
  have le: "cp_offset ss (Suc k) \<le> length (utf8_text ss)" by (rule cp_offset_le)
  have cont: "isContinuationByte (utf8_text ss ! m)" if m: "cp_offset ss k < m" "m \<le> n" for m
  proof (rule inside_code_point [OF ss])
    show "m < length (utf8_text ss)" using m k le by simp
    show "\<forall>i\<le>length ss. m \<noteq> cp_offset ss i"
    proof (intro allI impI notI)
      fix i assume i: "i \<le> length ss" "m = cp_offset ss i"
      have "cp_offset ss k < cp_offset ss i" "cp_offset ss i < cp_offset ss (Suc k)" using m i(2) k(3) by auto
      then have "k < i" "i < Suc k" using cp_offset_less_iff [OF ss] i(1) k(1) by (metis less_imp_le Suc_leI)+
      then show False by simp
    qed
  qed
  have "scanToLead (utf8_text ss) n = cp_offset ss k"
    using k(2) cont cp_lead(2) [OF k(1) ss] by (intro scanToLead_stops) auto
  then show ?thesis using k(3) le by (simp add: utf8PrefixBoundary_def prefix_boundary_scan_eq)
qed

lemma tail_boundary_floor:
  assumes ss: "list_all isScalarValue ss" and k: "k < length ss" "cp_offset ss k \<le> n" "n < cp_offset ss (Suc k)"
  shows "completeUtf8TailBoundary (take n (utf8_text ss)) = cp_offset ss k"
proof (cases "n = cp_offset ss k")
  case False
  note sp = cp_split [OF k(1) ss]
  have "take n (utf8_text ss) = utf8_text (take k ss) @ take (n - cp_offset ss k) (utf8_encoding (ss ! k))"
    unfolding sp(1) using k(2,3) sp(2,3) by (simp add: cp_offset_def)
  moreover have "0 < n - cp_offset ss k" "n - cp_offset ss k < utf8EncodedLength (ss ! k)"
    using False k(2,3) sp(2) by auto
  ultimately show ?thesis using tail_boundary_at [OF sp(3)] by (simp add: cp_offset_def)
next
  case True
  show ?thesis
  proof (cases k)
    case 0
    with True show ?thesis by (simp add: completeUtf8TailBoundary_def)
  next
    case (Suc j)
    then have j: "j < length ss" using k(1) by simp
    note sp = cp_split [OF j ss]
    have "take n (utf8_text ss) = utf8_text (take j ss) @ take (utf8EncodedLength (ss ! j)) (utf8_encoding (ss ! j))"
      unfolding sp(1) using True Suc sp(2,3) by (simp add: cp_offset_def)
    moreover have "0 < utf8EncodedLength (ss ! j)" by (simp add: utf8EncodedLength_def)
    ultimately show ?thesis
      using tail_boundary_at [OF sp(3), of "utf8EncodedLength (ss ! j)"] True Suc sp(2) by (simp add: cp_offset_def)
  qed
qed

section \<open>Truncation\<close>

lemma put_byte_fold:
  "fold put_byte bs \<lparr>outputText = out, formatLimit = m, writtenCount = w, formatTruncated = tr\<rparr> =
    \<lparr>outputText = out @ take (m - w) bs, formatLimit = m, writtenCount = w + length bs, formatTruncated = (tr \<or> m < w + length bs \<and> bs \<noteq> [])\<rparr>"
  by (induction bs arbitrary: out w tr) (auto simp: put_byte_def take_Cons' Suc_diff_Suc)

lemma formatBounded_eq:
  "formatBounded m t = (if length t \<le> m then (t, False) else (truncateScratch (take m t) m, True))"
  by (auto simp: formatBounded_def put_byte_fold Let_def)

lemma prefix_boundary_take:
  assumes "n < m" "m \<le> length t"
  shows "utf8PrefixBoundary (take m t) n = utf8PrefixBoundary t n"
proof -
  have "prefix_boundary_scan (take m t) n = prefix_boundary_scan t n"
    using assms(1) by (induction n) simp_all
  with assms show ?thesis by (simp add: utf8PrefixBoundary_def)
qed

lemma truncateScratch_take:
  assumes "m < length t"
  shows "truncateScratch (take m t) m = truncateScratch t m"
proof (cases "15 < m")
  case True
  let ?b = "utf8PrefixBoundary t (m - 15)"
  have "utf8PrefixBoundary (take m t) (m - 15) = ?b" using True assms by (intro prefix_boundary_take) auto
  moreover have "?b \<le> m" using scanToLead_le [of t "m - 15"] assms True by (auto simp: utf8PrefixBoundary_def prefix_boundary_scan_eq)
  ultimately show ?thesis using True by (simp add: truncateScratch_def min_absorb1)
qed (simp add: truncateScratch_def)

text \<open>The two formatting policies and the report path keep the same text, whatever the text is.\<close>

lemma policies_agree: "formatWithPolicy p m t = truncateScratchIfNeeded t m"
  by (simp add: formatWithPolicy_def formatBounded_eq truncateScratchIfNeeded_def truncateScratch_take)

lemma buildTruncatedMessage_eq: "buildTruncatedMessage t m = truncateScratch t m"
  by (simp add: buildTruncatedMessage_def truncateScratch_def appendTruncationSuffix_def)

lemma boundedMessageView_eq: "boundedMessageView m t False = truncateScratchIfNeeded t m"
  by (simp add: boundedMessageView_def truncateScratchIfNeeded_def buildTruncatedMessage_eq)

lemma valid_utf8_scalars: "list_all isScalarValue ss \<Longrightarrow> valid_utf8 (utf8_text (take k ss))"
  unfolding valid_utf8_def list_all_iff by (blast dest: in_set_takeD)

lemma truncation_suffix_ascii: "list_all (\<lambda>b. unat b < 128) truncation_suffix"
  unfolding truncation_suffix_def by simp

lemma valid_utf8_suffix: "valid_utf8 (take m truncation_suffix)" "valid_utf8 truncation_suffix"
  using truncation_suffix_ascii by (auto intro!: valid_utf8_ascii simp: list_all_iff dest!: in_set_takeD)

lemma truncateScratch_scalars:
  assumes ss: "list_all isScalarValue ss" and m: "m < length (utf8_text ss)" "15 < m"
  obtains k where "k < length ss" "truncateScratch (utf8_text ss) m = utf8_text (take k ss) @ truncation_suffix"
    "cp_offset ss k \<le> m - 15" "m - 15 < cp_offset ss (Suc k)"
    "completeUtf8TailBoundary (take (m - 15) (utf8_text ss)) = cp_offset ss k"
proof -
  obtain k where k: "k < length ss" "cp_offset ss k \<le> m - 15" "m - 15 < cp_offset ss (Suc k)"
    by (rule cp_floor [OF ss, of "m - 15"]) (use m in auto)
  show ?thesis
    using that [OF k(1) _ k(2,3) tail_boundary_floor [OF ss k]] prefix_boundary_floor [OF ss k] m k(1)
    by (simp add: truncateScratch_def appendTruncationSuffix_def take_cp_offset)
qed

section \<open>The text buffers' contract\<close>

definition log_text_ok :: "nat \<Rightarrow> LogText \<Rightarrow> bool" where
  "log_text_ok cap d \<longleftrightarrow> length (inlineText d) = cap \<and> inlineSize d \<le> cap"

lemma view_clear [simp]: "LogText_view (LogText_clear r d) = []"
  by (simp add: LogText_view_def LogText_clear_def)

lemma view_store_inline [simp]: "LogText_view (store_inline t d) = t"
  by (simp add: LogText_view_def store_inline_def)

lemma view_store_heap [simp]: "LogText_view (store_heap t d) = t"
  by (simp add: LogText_view_def store_heap_def)

lemma log_text_ok_ops [simp]:
  "log_text_ok cap d \<Longrightarrow> log_text_ok cap (LogText_clear r d)"
  "log_text_ok cap d \<Longrightarrow> log_text_ok cap (store_heap t d)"
  "log_text_ok cap d \<Longrightarrow> length t \<le> cap \<Longrightarrow> log_text_ok cap (store_inline t d)"
  "log_text_ok cap d \<Longrightarrow> log_text_ok cap (d\<lparr>heapText := t\<rparr>)"
  "log_text_ok (length s) (configureInlineStorage s d)"
  by (simp_all add: log_text_ok_def LogText_clear_def store_heap_def store_inline_def configureInlineStorage_def)

text \<open>What the queue relies on: text that fits is stored inline without allocation, other text goes to the heap.\<close>

locale text_store =
  fixes cap :: nat
    and assign :: "allocator \<Rightarrow> byte list \<Rightarrow> LogText \<Rightarrow> LogText \<times> exception_kind option"
    and transferFrom :: "allocator \<Rightarrow> LogText \<Rightarrow> LogText \<Rightarrow> LogText \<times> LogText \<times> exception_kind option"
  assumes assign_fits: "log_text_ok cap d \<Longrightarrow> length text \<le> cap \<Longrightarrow> assign alloc text d = (store_inline text d, None)"
    and assign_spills: "log_text_ok cap d \<Longrightarrow> cap < length text \<Longrightarrow> assign alloc text d =
      (case alloc (length text) of Some e \<Rightarrow> (d, Some e) | None \<Rightarrow> (store_heap text d, None))"
    and transfer_heap: "heapActive s \<Longrightarrow> transferFrom alloc d s =
      (store_heap (heapText s) d, s\<lparr>heapText := [], inlineSize := 0, heapActive := False\<rparr>, None)"
    and transfer_inline: "\<not> heapActive s \<Longrightarrow> transferFrom alloc d s =
      (case assign alloc (LogText_view s) d of
        (d', Some e) \<Rightarrow> (d', s, Some e) | (d', None) \<Rightarrow> (d', LogText_clear False s, None))"
begin

lemma assign_ok:
  assumes "log_text_ok cap d" "assign alloc text d = (d', e)"
  shows "log_text_ok cap d'"
  using assms by (cases "length text \<le> cap") (auto simp: assign_fits assign_spills not_le split: option.splits)

lemma assign_stores:
  assumes "log_text_ok cap d" "assign alloc text d = (d', None)"
  shows "LogText_view d' = text"
  using assms by (cases "length text \<le> cap") (auto simp: assign_fits assign_spills not_le split: option.splits)

lemma transfer_total:
  assumes "log_text_ok cap d" "log_text_ok cap s"
  shows "\<exists>d' s'. transferFrom alloc d s = (d', s', None) \<and> LogText_view d' = LogText_view s \<and> LogText_view s' = []
    \<and> log_text_ok cap d' \<and> log_text_ok cap s'"
proof (cases "heapActive s")
  case True
  with assms show ?thesis by (simp add: transfer_heap) (simp add: LogText_view_def log_text_ok_def)
next
  case False
  with assms(2) have "length (LogText_view s) \<le> cap" by (simp add: LogText_view_def log_text_ok_def)
  with assms False show ?thesis by (simp add: transfer_inline assign_fits)
qed

end

interpretation dyn: text_store cap DynamicLogText_assign DynamicLogText_transferFrom for cap
  by unfold_locales
    (simp_all add: DynamicLogText_assign_def DynamicLogText_transferFrom_def log_text_ok_def split: prod.splits option.splits)

interpretation inl: text_store cap "InlineLogText_assign cap" "InlineLogText_transferFrom cap" for cap
  by unfold_locales
    (simp_all add: InlineLogText_assign_def InlineLogText_transferFrom_def log_text_ok_def split: prod.splits option.splits)

text \<open>Assignment of an owned string always succeeds, and agrees with the copying overload when that one does.\<close>

lemma assign_owned_eq:
  assumes "log_text_ok cap d"
  shows "DynamicLogText_assign alloc text d = (d', None) \<Longrightarrow> DynamicLogText_assign_owned text d = d'"
    "InlineLogText_assign cap alloc text d = (d', None) \<Longrightarrow> InlineLogText_assign_owned cap text d = d'"
  by (auto simp: DynamicLogText_assign_def DynamicLogText_assign_owned_def InlineLogText_assign_def InlineLogText_assign_owned_def
      split: if_splits option.splits)

lemma assign_joined_eq:
  assumes "log_text_ok cap d"
  shows "InlineLogText_assignJoined cap alloc first second d = DynamicLogText_assignJoined alloc first second d"
  using assms by (simp add: InlineLogText_assignJoined_def DynamicLogText_assignJoined_def log_text_ok_def Let_def)

section \<open>Entries\<close>

text \<open>What an entry says, wherever its text is stored.\<close>

type_synonym log_record = "Level \<times> (SourceId + byte list) \<times> byte list"

definition record_of :: "QueuedLogEntry \<Rightarrow> log_record" where
  "record_of e = (entryLevel e, if usesRegisteredSource e then Inl (sourceId e) else Inr (LogText_view (sourceText e)),
    LogText_view (messageText e))"

definition entry_ok :: "nat \<Rightarrow> QueuedLogEntry \<Rightarrow> bool" where
  "entry_ok cap e \<longleftrightarrow> log_text_ok kInlineSourceCapacity (sourceText e) \<and> log_text_ok cap (messageText e)"

text \<open>The record a pending entry asks to be logged, its message bounded.\<close>

definition pending_record :: "nat \<Rightarrow> PendingLogEntry \<Rightarrow> log_record" where
  "pending_record maxMessageLength p = (pendingLevel p,
    if pendingUsesRegisteredSource p then Inl (pendingSourceId p) else Inr (LogText_view (pendingSourceText p)),
    if alreadyTruncated p then pendingMessage p else fst (truncateScratchIfNeeded (pendingMessage p) maxMessageLength))"

lemma clearLogEntry_ok [simp]: "entry_ok cap e \<Longrightarrow> entry_ok cap (clearLogEntry r e)"
  by (simp add: entry_ok_def clearLogEntry_def)

lemma moveQueuedEntry_total:
  assumes "entry_ok cap d" "entry_ok cap s"
  shows "\<exists>d' s'. moveQueuedEntry alloc d s = (d', s', None) \<and> record_of d' = record_of s \<and> entry_ok cap d' \<and> entry_ok cap s'"
proof -
  from assms have src: "log_text_ok kInlineSourceCapacity (sourceText d)" "log_text_ok kInlineSourceCapacity (sourceText s)"
    and msg: "log_text_ok cap (messageText d)" "log_text_ok cap (messageText s)" by (simp_all add: entry_ok_def)
  obtain t1 s1 where st: "InlineLogText_transferFrom kInlineSourceCapacity alloc (sourceText d) (sourceText s) = (t1, s1, None)"
    "LogText_view t1 = LogText_view (sourceText s)" "log_text_ok kInlineSourceCapacity t1" "log_text_ok kInlineSourceCapacity s1"
    using inl.transfer_total [OF src] by blast
  obtain t2 s2 where mt: "DynamicLogText_transferFrom alloc (messageText d) (messageText s) = (t2, s2, None)"
    "LogText_view t2 = LogText_view (messageText s)" "log_text_ok cap t2" "log_text_ok cap s2"
    using dyn.transfer_total [OF msg] by blast
  show ?thesis
    using src msg st mt
    by (cases "usesRegisteredSource s") (simp_all add: moveQueuedEntry_def record_of_def entry_ok_def)
qed

lemma assignJoined_ok:
  assumes "log_text_ok cap d" "DynamicLogText_assignJoined alloc a b d = (d', e)"
  shows "log_text_ok cap d'"
  using assms by (auto simp: DynamicLogText_assignJoined_def Let_def log_text_ok_def store_inline_def store_heap_def
      split: if_splits option.splits)

lemma assignJoined_stores:
  assumes "DynamicLogText_assignJoined alloc a b d = (d', None)"
  shows "LogText_view d' = take (completeUtf8TailBoundary a) a @ b"
  using assms by (auto simp: DynamicLogText_assignJoined_def Let_def split: if_splits option.splits)

lemma assignRetainedMessage_frame:
  assumes "assignRetainedMessage alloc e msg m = (e', tr, x)"
  shows "\<exists>t. e' = e\<lparr>messageText := t\<rparr>" and "tr \<longleftrightarrow> m < length msg"
  using assms by (auto simp: assignRetainedMessage_def split: if_splits prod.splits)

lemma assignRetainedMessage_text_ok:
  assumes "assignRetainedMessage alloc e msg m = (e', tr, x)" "log_text_ok cap (messageText e)"
  shows "log_text_ok cap (messageText e')"
  using assms(1) unfolding assignRetainedMessage_def
  by (auto split: if_splits prod.splits intro: dyn.assign_ok [OF assms(2)] assignJoined_ok [OF assms(2)] simp: assms(2))

lemma assignRetainedMessage_ok:
  assumes "assignRetainedMessage alloc e msg m = (e', tr, x)" "entry_ok cap e"
  shows "entry_ok cap e'"
  using assms assignRetainedMessage_frame(1) [OF assms(1)] assignRetainedMessage_text_ok [OF assms(1)]
  by (auto simp: entry_ok_def)

lemma assignRetainedMessage_view:
  assumes "assignRetainedMessage alloc e msg m = (e', tr, None)" "entry_ok cap e" "valid_utf8 msg"
  shows "LogText_view (messageText e') = fst (truncateScratchIfNeeded msg m)"
proof -
  have ok: "log_text_ok cap (messageText e)" using assms(2) by (simp add: entry_ok_def)
  consider (fits) "length msg \<le> m" | (zero) "m < length msg" "m = 0" | (small) "m < length msg" "0 < m" "m \<le> 15"
    | (cut) "m < length msg" "15 < m" by linarith
  then show ?thesis
  proof cases
    case fits
    with assms(1) dyn.assign_stores [OF ok] show ?thesis
      by (auto simp: assignRetainedMessage_def truncateScratchIfNeeded_def split: prod.splits)
  next
    case zero
    with assms(1) show ?thesis
      by (auto simp: assignRetainedMessage_def truncateScratchIfNeeded_def truncateScratch_def appendTruncationSuffix_def)
  next
    case small
    with assms(1) dyn.assign_stores [OF ok] show ?thesis
      by (auto simp: assignRetainedMessage_def truncateScratchIfNeeded_def truncateScratch_def appendTruncationSuffix_def
          split: prod.splits)
  next
    case cut
    from assms(3) obtain ss where ss: "list_all isScalarValue ss" "msg = utf8_text ss" by (auto simp: valid_utf8_def)
    obtain k where k: "k < length ss" "truncateScratch msg m = utf8_text (take k ss) @ truncation_suffix"
        "cp_offset ss k \<le> m - 15" "completeUtf8TailBoundary (take (m - 15) msg) = cp_offset ss k"
      by (rule truncateScratch_scalars [OF ss(1), of m]) (use cut ss(2) in auto)
    have "DynamicLogText_assignJoined alloc (take (m - 15) msg) truncation_suffix (messageText e) = (messageText e', None)"
      using assms(1) cut by (auto simp: assignRetainedMessage_def split: prod.splits)
    from assignJoined_stores [OF this] k cut take_cp_offset [of ss k] ss(2)
    show ?thesis by (simp add: truncateScratchIfNeeded_def min_absorb1)
  qed
qed

lemma copyPendingSource_ok:
  assumes "copyPendingSource alloc d p = (d', x)" "entry_ok cap d"
  shows "entry_ok cap d'"
  using assms inl.assign_ok [of kInlineSourceCapacity "sourceText d"]
  by (fastforce simp: copyPendingSource_def entry_ok_def Let_def split: if_splits prod.splits)

lemma copyPendingMessage_ok:
  assumes "copyPendingMessage alloc m d p = (d', tr, x)" "entry_ok cap d"
  shows "entry_ok cap d'"
  using assms dyn.assign_ok [of cap "messageText d"] assignRetainedMessage_ok
  by (fastforce simp: copyPendingMessage_def entry_ok_def split: if_splits prod.splits)

lemma copyPendingEntry_ok:
  assumes "copyPendingEntryToQueueSlot alloc m d p = (d', tr, x)" "entry_ok cap d"
  shows "entry_ok cap d'"
  using assms unfolding copyPendingEntryToQueueSlot_def
  by (auto split: prod.splits option.splits dest: copyPendingSource_ok copyPendingMessage_ok)

lemma copyPendingSource_stores:
  assumes "copyPendingSource alloc d p = (d', None)" "entry_ok cap d"
  shows "entryLevel d' = pendingLevel p" "usesRegisteredSource d' = pendingUsesRegisteredSource p" "sourceId d' = pendingSourceId p"
    "\<not> pendingUsesRegisteredSource p \<Longrightarrow> LogText_view (sourceText d') = LogText_view (pendingSourceText p)"
  using assms inl.assign_stores [of kInlineSourceCapacity "sourceText d"]
  by (auto simp: copyPendingSource_def entry_ok_def Let_def split: if_splits prod.splits)

lemma copyPendingMessage_stores:
  assumes "copyPendingMessage alloc m d p = (d', tr, None)" "entry_ok cap d" "valid_utf8 (pendingMessage p)"
  shows "(\<exists>t. d' = d\<lparr>messageText := t\<rparr>) \<and> LogText_view (messageText d') =
    (if alreadyTruncated p then pendingMessage p else fst (truncateScratchIfNeeded (pendingMessage p) m))"
proof (cases "alreadyTruncated p")
  case True
  with assms(1,2) dyn.assign_stores [of cap "messageText d"] show ?thesis
    by (auto simp: copyPendingMessage_def entry_ok_def split: prod.splits)
next
  case False
  with assms(1) have "assignRetainedMessage alloc d (pendingMessage p) m = (d', tr, None)"
    by (simp add: copyPendingMessage_def)
  from False assignRetainedMessage_frame(1) [OF this] assignRetainedMessage_view [OF this assms(2,3)] show ?thesis by simp
qed

lemma copyPendingEntry_stores:
  assumes "copyPendingEntryToQueueSlot alloc m d p = (d', tr, None)" "entry_ok cap d" "valid_utf8 (pendingMessage p)"
  shows "record_of d' = pending_record m p"
proof -
  obtain d1 where d1: "copyPendingSource alloc d p = (d1, None)" "copyPendingMessage alloc m d1 p = (d', tr, None)"
    using assms(1) by (auto simp: copyPendingEntryToQueueSlot_def split: prod.splits option.splits)
  from copyPendingSource_stores [OF d1(1) assms(2)]
    copyPendingMessage_stores [OF d1(2) copyPendingSource_ok [OF d1(1) assms(2)] assms(3)]
  show ?thesis by (auto simp: record_of_def pending_record_def)
qed

section \<open>Properties\<close>

text \<open>
  On well-formed text the four truncation routes agree: unbounded formatting followed by truncation, bounded
  formatting that never builds the oversized text, the synchronous report path, and the copy of the retained
  prefix and suffix into a queue slot (when its allocation succeeds).
\<close>

theorem truncation_routes_agree:
  assumes "valid_utf8 t"
  shows "formatWithPolicy FastNormal m t = formatWithPolicy StrictBounded m t \<and>
    boundedMessageView m t False = formatWithPolicy StrictBounded m t \<and>
    (entry_ok cap e \<longrightarrow> assignRetainedMessage alloc e t m = (e', tr, None) \<longrightarrow>
      (LogText_view (messageText e'), tr) = formatWithPolicy StrictBounded m t)"
proof (intro conjI impI)
  assume e: "entry_ok cap e" and a: "assignRetainedMessage alloc e t m = (e', tr, None)"
  show "(LogText_view (messageText e'), tr) = formatWithPolicy StrictBounded m t"
    unfolding policies_agree assignRetainedMessage_view [OF a e assms] assignRetainedMessage_frame(2) [OF a]
    by (simp add: truncateScratchIfNeeded_def)
qed (simp_all add: policies_agree boundedMessageView_eq)

definition sample_entry :: QueuedLogEntry where
  "sample_entry = (let t = \<lparr>inlineText = replicate 64 0, inlineSize = 0, heapActive = False, heapText = []\<rparr> in
    \<lparr>entryLevel = Info, usesRegisteredSource = False, sourceId = 0, sourceText = t, messageText = t\<rparr>)"

lemma entry_ok_sample: "entry_ok 64 sample_entry"
  by (simp add: entry_ok_def sample_entry_def Let_def log_text_ok_def kInlineSourceCapacity_def)

theorem truncation_routes_agree_witness:
  "formatWithPolicy FastNormal 18 (utf8_text (replicate 20 0xE9)) = formatWithPolicy StrictBounded 18 (utf8_text (replicate 20 0xE9)) \<and>
   (let (e', tr, x) = assignRetainedMessage (\<lambda>_. None) sample_entry (utf8_text (replicate 20 0xE9)) 18 in
     x = None \<and> (LogText_view (messageText e'), tr) = formatWithPolicy StrictBounded 18 (utf8_text (replicate 20 0xE9)))"
proof -
  let ?t = "utf8_text (replicate 20 0xE9)"
  have v: "valid_utf8 ?t" unfolding valid_utf8_def by (intro exI [of _ "replicate 20 0xE9"]) (simp add: isScalarValue_def kMaximumScalarValue_def list_all_iff)
  obtain e' tr x where a: "assignRetainedMessage (\<lambda>_. None) sample_entry ?t 18 = (e', tr, x)" by (metis surj_pair)
  have "snd (snd (assignRetainedMessage (\<lambda>_. None) sample_entry ?t 18)) = None" by code_simp
  with a have x: "x = None" by simp
  from truncation_routes_agree [OF v, of 18 64 sample_entry "\<lambda>_. None" e' tr] entry_ok_sample a x show ?thesis by simp
qed

text \<open>
  The text kept is well-formed, never longer than the limit, and complete when it fits; otherwise it is marked as
  truncated and, when the limit leaves room for more than the marker, it is the longest run of leading scalars that fits
  in front of the marker.
\<close>

theorem truncation_retains_prefix:
  assumes "list_all isScalarValue ss" "formatWithPolicy p m (utf8_text ss) = (r, tr)"
  shows "length r \<le> m \<and> valid_utf8 r \<and> tr = (m < length (utf8_text ss)) \<and> (\<not> tr \<longrightarrow> r = utf8_text ss) \<and>
    (tr \<and> m \<le> length truncation_suffix \<longrightarrow> r = take m truncation_suffix) \<and>
    (tr \<and> length truncation_suffix < m \<longrightarrow> (\<exists>k < length ss. r = utf8_text (take k ss) @ truncation_suffix \<and>
      m < length (utf8_text (take (Suc k) ss) @ truncation_suffix)))"
proof (cases "m < length (utf8_text ss)")
  case False
  with assms show ?thesis by (auto simp: policies_agree truncateScratchIfNeeded_def valid_utf8_def)
next
  case True
  with assms(2) have r: "r = truncateScratch (utf8_text ss) m" "tr" by (auto simp: policies_agree truncateScratchIfNeeded_def)
  show ?thesis
  proof (cases "15 < m")
    case False
    then have "r = take m truncation_suffix" using r by (auto simp: truncateScratch_def appendTruncationSuffix_def)
    with False True r(2) show ?thesis by (simp add: valid_utf8_suffix)
  next
    case m15: True
    obtain k where k: "k < length ss" "r = utf8_text (take k ss) @ truncation_suffix" "cp_offset ss k \<le> m - 15" "m - 15 < cp_offset ss (Suc k)"
      unfolding r by (rule truncateScratch_scalars [OF assms(1) True m15])
    have "m < cp_offset ss (Suc k) + 15" "cp_offset ss k + 15 \<le> m" using k(3,4) m15 by linarith+
    moreover have "valid_utf8 r" unfolding k(2) by (intro valid_utf8_append valid_utf8_scalars valid_utf8_suffix assms)
    ultimately show ?thesis using k(1,2) True m15 r(2) by (auto simp: cp_offset_def intro!: exI [of _ k])
  qed
qed

theorem truncation_retains_prefix_witness:
  "\<exists>r tr. formatWithPolicy StrictBounded 18 (utf8_text (replicate 20 0xE9)) = (r, tr) \<and> length r \<le> 18 \<and> valid_utf8 r \<and> tr"
proof -
  have s: "list_all isScalarValue (replicate 20 0xE9)" by (simp add: isScalarValue_def kMaximumScalarValue_def list_all_iff)
  obtain r tr where r: "formatWithPolicy StrictBounded 18 (utf8_text (replicate 20 0xE9)) = (r, tr)" by (metis surj_pair)
  have "18 < length (utf8_text (replicate 20 0xE9))" by code_simp
  with truncation_retains_prefix [OF s r] r show ?thesis by blast
qed

end
