(* ===== verification/Logger_Runtime.thy ===== *)
theory Logger_Runtime
  imports Logger_Text
begin

text \<open>
  The runtime configuration of the logger: the packed word that producers read without a lock, severity masks and
  filters, output modes and health (\<^verbatim>\<open>tools/logger/core/logger_runtime.cpp\<close>, \<^verbatim>\<open>logger_filters.cpp\<close>), and what initialisation and shutdown do to them
  (\<^verbatim>\<open>logger_state.cpp\<close>). An operation that takes \<open>logMutex\<close> is one state transformation.
\<close>

unbundle bit_operations_syntax

section \<open>Levels and output modes\<close>

text \<open>A value of an enum's underlying type that names no enumerator is \<open>OtherLevel\<close> or \<open>OtherOutput\<close>.\<close>

datatype OutputMode = Output_None | Output_Console | Output_File | Output_Both | OtherOutput byte

fun toLevelValue :: "Level \<Rightarrow> byte" where
  "toLevelValue Trace = 0"
| "toLevelValue Debug = 1"
| "toLevelValue Info = 2"
| "toLevelValue Warn = 3"
| "toLevelValue Error = 4"
| "toLevelValue Fatal = 5"
| "toLevelValue (OtherLevel v) = v"

text \<open>\<open>static_cast<LogLevel>(value)\<close> and \<open>static_cast<OutputMode>(value)\<close>.\<close>

definition levelFromValue :: "byte \<Rightarrow> Level" where
  "levelFromValue v = (if v = 0 then Trace else if v = 1 then Debug else if v = 2 then Info else if v = 3 then Warn
    else if v = 4 then Error else if v = 5 then Fatal else OtherLevel v)"

fun toOutputModeValue :: "OutputMode \<Rightarrow> byte" where
  "toOutputModeValue Output_None = 0"
| "toOutputModeValue Output_Console = 1"
| "toOutputModeValue Output_File = 2"
| "toOutputModeValue Output_Both = 3"
| "toOutputModeValue (OtherOutput v) = v"

definition outputModeOf :: "byte \<Rightarrow> OutputMode" where
  "outputModeOf v = (if v = 0 then Output_None else if v = 1 then Output_Console else if v = 2 then Output_File
    else if v = 3 then Output_Both else OtherOutput v)"

definition kLevelCount :: nat where
  "kLevelCount = 6"

definition isValidLevel :: "Level \<Rightarrow> bool" where
  "isValidLevel level \<longleftrightarrow> unat (toLevelValue level) < kLevelCount"

fun isValidOutputMode :: "OutputMode \<Rightarrow> bool" where
  "isValidOutputMode Output_None = True"
| "isValidOutputMode Output_Console = True"
| "isValidOutputMode Output_File = True"
| "isValidOutputMode Output_Both = True"
| "isValidOutputMode (OtherOutput v) = False"

definition levelBit :: "Level \<Rightarrow> byte" where
  "levelBit level = (if isValidLevel level then push_bit (unat (toLevelValue level)) 1 else 0)"

definition outputModeFromValue :: "byte \<Rightarrow> OutputMode" where
  "outputModeFromValue v = (if isValidOutputMode (outputModeOf v) then outputModeOf v else Output_None)"

definition isLowPriority :: "Level \<Rightarrow> bool" where
  "isLowPriority level \<longleftrightarrow> toLevelValue level \<le> toLevelValue Warn"

definition hasConsoleOutput :: "OutputMode \<Rightarrow> bool" where
  "hasConsoleOutput mode \<longleftrightarrow> mode = Output_Console \<or> mode = Output_Both"

definition hasFileOutput :: "OutputMode \<Rightarrow> bool" where
  "hasFileOutput mode \<longleftrightarrow> mode = Output_File \<or> mode = Output_Both"

definition outputModeAfterFileSetupFailure :: "OutputMode \<Rightarrow> bool \<Rightarrow> OutputMode" where
  "outputModeAfterFileSetupFailure requested fallbackToConsole =
    (if hasConsoleOutput requested \<or> fallbackToConsole then Output_Console else Output_None)"

section \<open>The packed runtime word\<close>

definition kAllLevelMask :: byte where
  "kAllLevelMask = 0x3F"

definition packRuntimeState :: "bool \<Rightarrow> OutputMode \<Rightarrow> Level \<Rightarrow> byte \<Rightarrow> 32 word" where
  "packRuntimeState isRunning mode minLevel levelMask =
    (if isRunning then 1 else 0)
    OR push_bit 1 (ucast (toOutputModeValue mode) AND mask 3)
    OR push_bit 4 (ucast (toLevelValue minLevel) AND mask 3)
    OR push_bit 8 (ucast levelMask AND mask 6)"

definition runtimeStateRunning :: "32 word \<Rightarrow> bool" where
  "runtimeStateRunning packed \<longleftrightarrow> packed AND 1 \<noteq> 0"

definition runtimeStateOutput :: "32 word \<Rightarrow> OutputMode" where
  "runtimeStateOutput packed = outputModeFromValue (ucast (drop_bit 1 packed AND mask 3))"

definition runtimeStateMinLevel :: "32 word \<Rightarrow> Level" where
  "runtimeStateMinLevel packed = levelFromValue (ucast (drop_bit 4 packed AND mask 3))"

definition runtimeStateLevelMask :: "32 word \<Rightarrow> byte" where
  "runtimeStateLevelMask packed = ucast (drop_bit 8 packed AND mask 6)"

text \<open>The severity gate of \<open>shouldLogRuntime(level)\<close>, a function of the packed word alone.\<close>

definition levelAccepted :: "32 word \<Rightarrow> Level \<Rightarrow> bool" where
  "levelAccepted runtimeState level =
    (if \<not> isValidLevel level then False
     else if \<not> runtimeStateRunning runtimeState then False
     else if runtimeStateOutput runtimeState = Output_None then False
     else if toLevelValue level < toLevelValue (runtimeStateMinLevel runtimeState) then False
     else levelBit level \<noteq> 0 \<and> runtimeStateLevelMask runtimeState AND levelBit level \<noteq> 0)"

fun prepareLevelMask_from :: "(Level \<times> bool) list \<Rightarrow> byte \<Rightarrow> byte \<Rightarrow> byte option" where
  "prepareLevelMask_from [] seenLevels outMask = Some outMask"
| "prepareLevelMask_from ((level, enabled) # filters) seenLevels outMask =
    (if levelBit level = 0 \<or> seenLevels AND levelBit level \<noteq> 0 then None
     else prepareLevelMask_from filters (seenLevels OR levelBit level)
       (if enabled then outMask OR levelBit level else outMask AND NOT (levelBit level)))"

definition prepareLevelMask :: "(Level \<times> bool) list \<Rightarrow> byte option" where
  "prepareLevelMask filters = prepareLevelMask_from filters 0 kAllLevelMask"

section \<open>Runtime state and health\<close>

datatype HealthState = Healthy | Degraded | Disabled

datatype FailureSource = NoFailure | ConsoleFailure | FileFailure | DebugOutputFailure | FatalPopupFailure | TimeConversionFailure

text \<open>The fields of \<open>LoggerState\<close> that configuration and health use, with the atomics producers read.\<close>

record RuntimeState =
  minLevel :: Level
  mode :: OutputMode
  enabledLevelMask :: byte
  workerRunning :: bool
  consoleColorEnabled :: bool
  debugOutputEnabled :: bool
  fatalPopupEnabled :: bool
  flushConsoleEveryWrite :: bool
  flushFileEveryBatch :: bool
  runtimeStateBits :: "32 word"
  consoleColorEnabledAtomic :: bool
  debugOutputEnabledAtomic :: bool
  fatalPopupEnabledAtomic :: bool
  flushConsoleEveryWriteAtomic :: bool
  flushFileEveryBatchAtomic :: bool
  fileOutputAvailableAtomic :: bool
  healthState :: HealthState
  lastFailureSource :: FailureSource
  lastHealthError :: ErrorCode
  lastHealthNativeCode :: int
  healthFailureCount :: "64 word"

definition publishRuntimeStateUnlocked :: "RuntimeState \<Rightarrow> RuntimeState" where
  "publishRuntimeStateUnlocked s = s\<lparr>
    runtimeStateBits := packRuntimeState (workerRunning s) (mode s) (minLevel s) (enabledLevelMask s),
    consoleColorEnabledAtomic := consoleColorEnabled s,
    debugOutputEnabledAtomic := debugOutputEnabled s,
    fatalPopupEnabledAtomic := fatalPopupEnabled s,
    flushConsoleEveryWriteAtomic := flushConsoleEveryWrite s,
    flushFileEveryBatchAtomic := flushFileEveryBatch s\<rparr>"

definition firstFailure :: "Status \<Rightarrow> Status \<Rightarrow> Status" where
  "firstFailure current candidate = (if ok current \<and> \<not> ok candidate then candidate else current)"

definition resetHealthUnlocked :: "HealthState \<Rightarrow> OutputMode \<Rightarrow> RuntimeState \<Rightarrow> RuntimeState" where
  "resetHealthUnlocked state effectiveOutput s = s\<lparr>healthState := state, mode := effectiveOutput,
    lastFailureSource := NoFailure, lastHealthError := Success, lastHealthNativeCode := 0, healthFailureCount := 0\<rparr>"

definition markHealthDisabledUnlocked :: "RuntimeState \<Rightarrow> RuntimeState" where
  "markHealthDisabledUnlocked s = s\<lparr>healthState := Disabled\<rparr>"

text \<open>The \<open>switch\<close> of \<open>recordHealthFailure\<close>.\<close>

fun disableChannel :: "FailureSource \<Rightarrow> RuntimeState \<Rightarrow> RuntimeState" where
  "disableChannel FileFailure s = s\<lparr>fileOutputAvailableAtomic := False,
     mode := (if mode s = Output_Both then Output_Console else if mode s = Output_File then Output_None else mode s)\<rparr>"
| "disableChannel ConsoleFailure s = s\<lparr>
     mode := (if mode s = Output_Both then Output_File else if mode s = Output_Console then Output_None else mode s)\<rparr>"
| "disableChannel DebugOutputFailure s = s\<lparr>debugOutputEnabled := False, debugOutputEnabledAtomic := False\<rparr>"
| "disableChannel FatalPopupFailure s = s\<lparr>fatalPopupEnabled := False, fatalPopupEnabledAtomic := False\<rparr>"
| "disableChannel NoFailure s = s"
| "disableChannel TimeConversionFailure s = s"

definition recordHealthFailure :: "FailureSource \<Rightarrow> Status \<Rightarrow> bool \<Rightarrow> RuntimeState \<Rightarrow> RuntimeState" where
  "recordHealthFailure source status disable s =
    (if ok status then s
     else
       let s = s\<lparr>lastFailureSource := source, lastHealthError := code status, lastHealthNativeCode := nativeCode status,
             healthFailureCount := healthFailureCount s + 1\<rparr>;
           s = (if disable then disableChannel source s else s);
           s = s\<lparr>healthState := (if mode s = Output_None then Disabled else Degraded)\<rparr> in
       publishRuntimeStateUnlocked s)"

definition setOutputMode :: "OutputMode \<Rightarrow> RuntimeState \<Rightarrow> RuntimeState" where
  "setOutputMode newMode s =
    publishRuntimeStateUnlocked (s\<lparr>mode := newMode,
      fileOutputAvailableAtomic := (if hasFileOutput newMode then fileOutputAvailableAtomic s else False)\<rparr>)"

definition setLevelFilter :: "Level \<Rightarrow> bool \<Rightarrow> RuntimeState \<Rightarrow> RuntimeState \<times> Status" where
  "setLevelFilter level enabled s =
    (if levelBit level = 0 then (s, statusOf InvalidArgument)
     else (publishRuntimeStateUnlocked (s\<lparr>enabledLevelMask :=
         (if enabled then enabledLevelMask s OR levelBit level else enabledLevelMask s AND NOT (levelBit level))\<rparr>), successStatus))"

definition resetLevelFilter :: "Level \<Rightarrow> RuntimeState \<Rightarrow> RuntimeState \<times> Status" where
  "resetLevelFilter level = setLevelFilter level True"

definition resetLevelFilters :: "RuntimeState \<Rightarrow> RuntimeState \<times> Status" where
  "resetLevelFilters s = (publishRuntimeStateUnlocked (s\<lparr>enabledLevelMask := kAllLevelMask\<rparr>), successStatus)"

section \<open>Initialisation and shutdown\<close>

text \<open>
  The critical sections of \<^verbatim>\<open>tools/logger/core/logger_state.cpp\<close>, each a transformation of the state: what \<open>initImpl\<close>, its \<open>fail\<close>,
  \<open>startWorkerThread\<close> and \<open>shutdownImpl\<close> do under \<open>logMutex\<close>, in the fields above. \<open>LoggerConfig\<close> holds the fields of
  \<^verbatim>\<open>Types::Config\<close> that reach them; \<open>joinable\<close> tells whether the previous worker thread has still to be joined.
\<close>

record LoggerConfig =
  configOutput :: OutputMode
  configMinLevel :: Level
  levelFilters :: "(Level \<times> bool) list"
  enableConsoleColor :: bool
  enableDebugOutput :: bool
  enableFatalPopup :: bool
  configFlushFileEveryBatch :: bool
  configFlushConsoleEveryWrite :: bool

text \<open>The members as \<open>LoggerState\<close> declares them, before any initialisation.\<close>

definition initial_runtime :: RuntimeState where
  "initial_runtime = \<lparr>minLevel = Info, mode = Output_Both, enabledLevelMask = kAllLevelMask, workerRunning = False,
    consoleColorEnabled = True, debugOutputEnabled = True, fatalPopupEnabled = True, flushConsoleEveryWrite = False, flushFileEveryBatch = False,
    runtimeStateBits = 0, consoleColorEnabledAtomic = True, debugOutputEnabledAtomic = False, fatalPopupEnabledAtomic = False,
    flushConsoleEveryWriteAtomic = False, flushFileEveryBatchAtomic = False, fileOutputAvailableAtomic = False, healthState = Disabled,
    lastFailureSource = NoFailure, lastHealthError = Success, lastHealthNativeCode = 0, healthFailureCount = 0\<rparr>"

definition beginInit :: "bool \<Rightarrow> RuntimeState \<Rightarrow> RuntimeState \<times> Status" where
  "beginInit joinable s =
    (if workerRunning s \<or> joinable then (s, statusOf AlreadyOpen) else (resetHealthUnlocked Disabled Output_None s, successStatus))"

text \<open>The checks of \<open>normalizeInitConfig\<close> on the level and output fields, with the level mask it prepares.\<close>

definition normalizeLevels :: "LoggerConfig \<Rightarrow> byte option" where
  "normalizeLevels config =
    (if \<not> isValidOutputMode (configOutput config) \<or> \<not> isValidLevel (configMinLevel config) then None
     else prepareLevelMask (levelFilters config))"

definition resetRuntimeStateUnlocked :: "LoggerConfig \<Rightarrow> byte \<Rightarrow> RuntimeState \<Rightarrow> RuntimeState" where
  "resetRuntimeStateUnlocked config levelMask s = publishRuntimeStateUnlocked (s\<lparr>
    mode := configOutput config, minLevel := configMinLevel config,
    consoleColorEnabled := enableConsoleColor config, debugOutputEnabled := enableDebugOutput config,
    fatalPopupEnabled := enableFatalPopup config, flushFileEveryBatch := configFlushFileEveryBatch config,
    flushConsoleEveryWrite := configFlushConsoleEveryWrite config,
    enabledLevelMask := levelMask, workerRunning := False, fileOutputAvailableAtomic := False\<rparr>)"

definition publishDisabledRuntimeUnlocked :: "LoggerConfig \<Rightarrow> byte \<Rightarrow> RuntimeState \<Rightarrow> RuntimeState" where
  "publishDisabledRuntimeUnlocked config levelMask s =
    publishRuntimeStateUnlocked (resetHealthUnlocked Disabled Output_None (resetRuntimeStateUnlocked config levelMask s))"

definition publishPreparedRuntimeUnlocked :: "LoggerConfig \<Rightarrow> byte \<Rightarrow> RuntimeState \<Rightarrow> RuntimeState" where
  "publishPreparedRuntimeUnlocked config levelMask s =
    publishRuntimeStateUnlocked (resetHealthUnlocked Healthy (configOutput config) (resetRuntimeStateUnlocked config levelMask s))"

text \<open>The section of \<open>fail\<close>, the handler of \<open>startWorkerThread\<close> and the last one of \<open>shutdownImpl\<close>, on these fields.\<close>

definition disableRuntime :: "bool \<Rightarrow> RuntimeState \<Rightarrow> RuntimeState" where
  "disableRuntime closesFile s = publishRuntimeStateUnlocked (markHealthDisabledUnlocked (s\<lparr>workerRunning := False, mode := Output_None,
    fileOutputAvailableAtomic := (if closesFile then False else fileOutputAvailableAtomic s)\<rparr>))"

definition disableHealth :: "RuntimeState \<Rightarrow> RuntimeState" where
  "disableHealth s = publishRuntimeStateUnlocked (markHealthDisabledUnlocked s)"

definition setWorkerRunning :: "bool \<Rightarrow> RuntimeState \<Rightarrow> RuntimeState" where
  "setWorkerRunning r s = publishRuntimeStateUnlocked (s\<lparr>workerRunning := r\<rparr>)"

text \<open>The stores to \<open>fileOutputAvailableAtomic\<close> outside \<open>logMutex\<close>, after the file is opened and after it is closed.\<close>

definition setFileOutputAvailable :: "bool \<Rightarrow> RuntimeState \<Rightarrow> RuntimeState" where
  "setFileOutputAvailable available s = s\<lparr>fileOutputAvailableAtomic := available\<rparr>"

section \<open>Packing and unpacking\<close>

lemma bit_field:
  assumes "s + w \<le> 32"
  shows "bit (push_bit s (ucast (v :: byte) AND mask w) :: 32 word) n \<longleftrightarrow> s \<le> n \<and> n < s + w \<and> bit v (n - s)"
  unfolding bit_push_bit_iff bit_and_iff bit_mask_iff bit_unsigned_iff possible_bit_word
  using assms bit_imp_le_length [of v "n - s"] by auto

lemma bit_pack:
  "bit (packRuntimeState r m l k) n \<longleftrightarrow> n = 0 \<and> r \<or> 1 \<le> n \<and> n < 4 \<and> bit (toOutputModeValue m) (n - 1)
    \<or> 4 \<le> n \<and> n < 7 \<and> bit (toLevelValue l) (n - 4) \<or> 8 \<le> n \<and> n < 14 \<and> bit k (n - 8)"
proof -
  have "bit (if r then 1 else 0 :: 32 word) n \<longleftrightarrow> n = 0 \<and> r" by (simp add: bit_1_iff)
  then show ?thesis
    unfolding packRuntimeState_def bit_or_iff
    by (simp only: bit_field [of 1 3, simplified add_One_commute] bit_field [of 4 3] bit_field [of 8 6]) simp
qed

lemma pack_running: "runtimeStateRunning (packRuntimeState r m l k) \<longleftrightarrow> r"
proof -
  have "runtimeStateRunning (packRuntimeState r m l k) \<longleftrightarrow> bit (packRuntimeState r m l k) 0"
    by (simp add: runtimeStateRunning_def and_one_eq bit_0 odd_iff_mod_2_eq_one)
  then show ?thesis by (simp add: bit_pack)
qed

lemma pack_fields:
  "drop_bit 1 (packRuntimeState r m l k) AND mask 3 = ucast (toOutputModeValue m) AND mask 3"
  "drop_bit 4 (packRuntimeState r m l k) AND mask 3 = ucast (toLevelValue l) AND mask 3"
  "drop_bit 8 (packRuntimeState r m l k) AND mask 6 = ucast k AND mask 6"
  by (rule bit_word_eqI, simp only: bit_and_iff bit_mask_iff bit_drop_bit_eq comp_def bit_pack bit_unsigned_iff, auto)+

lemma ucast_mask_small:
  assumes "unat (v :: byte) < 2 ^ n"
  shows "ucast (ucast v AND mask n :: 32 word) = v"
proof -
  have u: "unat (ucast v :: 32 word) = unat v" by (simp add: unsigned_ucast_eq take_bit_nat_eq_self less_trans [OF unat_byte_less])
  have "unat (ucast v AND mask n :: 32 word) = unat v" using assms by (simp add: unat_and_mask u)
  then have "unat (ucast (ucast v AND mask n :: 32 word) :: byte) = unat v"
    by (simp add: unsigned_ucast_eq take_bit_nat_eq_self)
  then show ?thesis by (simp add: word_unat_eq_iff)
qed

lemma pack_output: "isValidOutputMode m \<Longrightarrow> runtimeStateOutput (packRuntimeState r m l k) = m"
  unfolding runtimeStateOutput_def pack_fields
  by (cases m) (subst ucast_mask_small, simp, simp add: outputModeFromValue_def outputModeOf_def)+

lemma level_value_cases:
  assumes "isValidLevel l"
  shows "toLevelValue l \<in> {0, 1, 2, 3, 4, 5}"
proof -
  have "unat (toLevelValue l) < 6" using assms by (simp add: isValidLevel_def kLevelCount_def)
  then have "unat (toLevelValue l) \<in> {0, 1, 2, 3, 4, 5}" by auto
  then show ?thesis by (auto simp: word_unat_eq_iff)
qed

lemma toLevelValue_levelFromValue [simp]: "toLevelValue (levelFromValue v) = v"
  by (simp add: levelFromValue_def)

lemma pack_minLevel: "isValidLevel l \<Longrightarrow> toLevelValue (runtimeStateMinLevel (packRuntimeState r m l k)) = toLevelValue l"
  unfolding runtimeStateMinLevel_def pack_fields
  by (subst ucast_mask_small) (auto simp: isValidLevel_def kLevelCount_def)

lemma pack_mask: "bit (runtimeStateLevelMask (packRuntimeState r m l k)) n \<longleftrightarrow> n < 6 \<and> bit k n"
  unfolding runtimeStateLevelMask_def pack_fields by (auto simp: bit_simps)

lemma and_levelBit: "isValidLevel lv \<Longrightarrow> k AND levelBit lv \<noteq> 0 \<longleftrightarrow> bit k (unat (toLevelValue lv))"
  using level_value_cases [of lv]
  by (auto simp: levelBit_def bit_eq_iff [of "k AND _"] bit_simps)

lemma levelBit_nonzero: "levelBit lv \<noteq> 0 \<longleftrightarrow> isValidLevel lv"
  using level_value_cases [of lv] by (auto simp: levelBit_def)

lemma levelAccepted_pack:
  assumes "isValidOutputMode m" "isValidLevel l"
  shows "levelAccepted (packRuntimeState r m l k) lv \<longleftrightarrow>
    isValidLevel lv \<and> r \<and> m \<noteq> Output_None \<and> toLevelValue l \<le> toLevelValue lv \<and> bit k (unat (toLevelValue lv))"
  using assms
  by (auto simp: levelAccepted_def pack_running pack_output pack_minLevel levelBit_nonzero and_levelBit pack_mask not_less
      isValidLevel_def kLevelCount_def)

section \<open>The published configuration\<close>

text \<open>
  The critical sections of any threads in any order, which covers every order in which \<open>init\<close>, \<open>shutdown\<close>, filter changes and the
  worker's failure reports run, exceptions that leave \<open>initImpl\<close> between two sections included.
\<close>

inductive runtime_step :: "RuntimeState \<Rightarrow> RuntimeState \<Rightarrow> bool" where
  level_filter: "runtime_step s (fst (setLevelFilter lv e s))"
| reset_level_filter: "runtime_step s (fst (resetLevelFilter lv s))"
| reset_level_filters: "runtime_step s (fst (resetLevelFilters s))"
| health_failure: "runtime_step s (recordHealthFailure source status disable s)"
| init_begin: "runtime_step s (fst (beginInit joinable s))"
| init_disabled: "normalizeLevels config = Some k \<Longrightarrow> configOutput config = Output_None \<Longrightarrow> runtime_step s (publishDisabledRuntimeUnlocked config k s)"
| init_prepared: "normalizeLevels config = Some k \<Longrightarrow> configOutput config \<noteq> Output_None \<Longrightarrow> runtime_step s (publishPreparedRuntimeUnlocked config k s)"
| file_available: "runtime_step s (setFileOutputAvailable available s)"
| file_fallback: "runtime_step s (setOutputMode (outputModeAfterFileSetupFailure requested fallback) s)"
| no_output: "runtime_step s (disableHealth s)"
| worker_start: "runtime_step s (setWorkerRunning True s)"
| init_failed: "runtime_step s (disableRuntime True s)"
| shutdown_begin: "runtime_step s (setWorkerRunning False s)"
| shutdown_end: "runtime_step s (disableRuntime False s)"

text \<open>
  The lock-free copies agree with the configuration. Between the first section of \<open>initImpl\<close>, which changes the mode without
  publishing, and the next one they need not; the worker does not run then, and the running bit agrees always.
\<close>

definition published :: "RuntimeState \<Rightarrow> bool" where
  "published s \<longleftrightarrow>
    runtimeStateBits s = packRuntimeState (workerRunning s) (mode s) (minLevel s) (enabledLevelMask s) \<and>
    consoleColorEnabledAtomic s = consoleColorEnabled s \<and> debugOutputEnabledAtomic s = debugOutputEnabled s \<and>
    fatalPopupEnabledAtomic s = fatalPopupEnabled s \<and> flushConsoleEveryWriteAtomic s = flushConsoleEveryWrite s \<and>
    flushFileEveryBatchAtomic s = flushFileEveryBatch s"

definition runtime_ok :: "RuntimeState \<Rightarrow> bool" where
  "runtime_ok s \<longleftrightarrow> isValidOutputMode (mode s) \<and> isValidLevel (minLevel s) \<and>
    (runtimeStateRunning (runtimeStateBits s) \<longleftrightarrow> workerRunning s) \<and> (workerRunning s \<longrightarrow> published s)"

lemma published_publish [simp]: "published (publishRuntimeStateUnlocked s)"
  by (simp add: published_def publishRuntimeStateUnlocked_def)

lemma publish_fields [simp]:
  "mode (publishRuntimeStateUnlocked s) = mode s" "minLevel (publishRuntimeStateUnlocked s) = minLevel s"
  "enabledLevelMask (publishRuntimeStateUnlocked s) = enabledLevelMask s" "workerRunning (publishRuntimeStateUnlocked s) = workerRunning s"
  "healthState (publishRuntimeStateUnlocked s) = healthState s" "healthFailureCount (publishRuntimeStateUnlocked s) = healthFailureCount s"
  "fileOutputAvailableAtomic (publishRuntimeStateUnlocked s) = fileOutputAvailableAtomic s"
  "lastHealthError (publishRuntimeStateUnlocked s) = lastHealthError s" "lastFailureSource (publishRuntimeStateUnlocked s) = lastFailureSource s"
  by (simp_all add: publishRuntimeStateUnlocked_def)

lemma publish_running [simp]: "runtimeStateRunning (runtimeStateBits (publishRuntimeStateUnlocked s)) \<longleftrightarrow> workerRunning s"
  by (simp add: publishRuntimeStateUnlocked_def pack_running)

lemma publish_ok: "isValidOutputMode (mode s) \<Longrightarrow> isValidLevel (minLevel s) \<Longrightarrow> runtime_ok (publishRuntimeStateUnlocked s)"
  by (simp add: runtime_ok_def)

lemma runtime_ok_valid: "runtime_ok s \<Longrightarrow> isValidOutputMode (mode s)" "runtime_ok s \<Longrightarrow> isValidLevel (minLevel s)"
  by (simp_all add: runtime_ok_def)

lemma disableChannel_valid: "isValidOutputMode (mode s) \<Longrightarrow> isValidOutputMode (mode (disableChannel src s))"
  by (cases src) simp_all

lemma disableChannel_fields [simp]:
  "minLevel (disableChannel src s) = minLevel s" "enabledLevelMask (disableChannel src s) = enabledLevelMask s"
  "workerRunning (disableChannel src s) = workerRunning s" "healthFailureCount (disableChannel src s) = healthFailureCount s"
  "lastHealthError (disableChannel src s) = lastHealthError s" "lastFailureSource (disableChannel src s) = lastFailureSource s"
  by (cases src; simp)+

lemma normalizeLevels_valid: "normalizeLevels config = Some k \<Longrightarrow> isValidOutputMode (configOutput config) \<and> isValidLevel (configMinLevel config)"
  by (simp add: normalizeLevels_def split: if_splits)

lemma runtime_step_ok: "runtime_step s s' \<Longrightarrow> runtime_ok s \<Longrightarrow> runtime_ok s'"
proof (induction rule: runtime_step.induct)
  case (health_failure s source status disable)
  then show ?case by (auto simp: recordHealthFailure_def Let_def disableChannel_valid runtime_ok_valid intro!: publish_ok)
next
  case (init_begin s joinable)
  then show ?case by (simp add: beginInit_def resetHealthUnlocked_def runtime_ok_def)
next
  case (file_available s available)
  then show ?case by (simp add: setFileOutputAvailable_def runtime_ok_def published_def)
next
  case (file_fallback s requested fallback)
  then show ?case by (auto simp: setOutputMode_def outputModeAfterFileSetupFailure_def runtime_ok_valid intro!: publish_ok)
qed (auto simp: setLevelFilter_def resetLevelFilter_def resetLevelFilters_def publishDisabledRuntimeUnlocked_def
    publishPreparedRuntimeUnlocked_def resetHealthUnlocked_def resetRuntimeStateUnlocked_def disableHealth_def disableRuntime_def
    markHealthDisabledUnlocked_def setWorkerRunning_def runtime_ok_valid normalizeLevels_valid intro!: publish_ok)

lemma initial_runtime_ok: "runtime_ok initial_runtime"
  by (simp add: runtime_ok_def initial_runtime_def isValidLevel_def kLevelCount_def runtimeStateRunning_def)


section \<open>Properties\<close>




text \<open>
  A recorded sink failure removes exactly that sink from the output mode and keeps the other; health becomes Degraded
  while a sink remains and Disabled when none does, in which case no level is accepted any more; the failure is counted
  and retained.
\<close>

theorem recordHealthFailure_disables:
  assumes "runtime_ok s" "\<not> ok status"
  shows "let s' = recordHealthFailure source status True s in
    hasConsoleOutput (mode s') = (hasConsoleOutput (mode s) \<and> source \<noteq> ConsoleFailure) \<and>
    hasFileOutput (mode s') = (hasFileOutput (mode s) \<and> source \<noteq> FileFailure) \<and>
    (source = FileFailure \<longrightarrow> \<not> fileOutputAvailableAtomic s') \<and>
    healthState s' = (if hasConsoleOutput (mode s') \<or> hasFileOutput (mode s') then Degraded else Disabled) \<and>
    (healthState s' = Disabled \<longrightarrow> \<not> levelAccepted (runtimeStateBits s') lv) \<and>
    healthFailureCount s' = healthFailureCount s + 1 \<and> lastFailureSource s' = source \<and> lastHealthError s' = code status"
proof -
  let ?s = "recordHealthFailure source status True s"
  have ok': "runtime_ok ?s" by (rule runtime_step_ok [OF runtime_step.health_failure assms(1)])
  have "published ?s" using assms(2) by (simp add: recordHealthFailure_def Let_def)
  then have bits: "runtimeStateBits ?s = packRuntimeState (workerRunning ?s) (mode ?s) (minLevel ?s) (enabledLevelMask ?s)"
    by (simp add: published_def)
  have gate: "levelAccepted (runtimeStateBits ?s) lv \<Longrightarrow> mode ?s \<noteq> Output_None"
    using ok' levelAccepted_pack [of "mode ?s" "minLevel ?s"] unfolding bits by (simp add: runtime_ok_def)
  have v: "isValidOutputMode (mode s)" using assms(1) by (simp add: runtime_ok_def)
  have md: "mode ?s = mode (disableChannel source s)"
    using assms(2) by (cases source) (simp_all add: recordHealthFailure_def Let_def)
  have h: "healthState ?s = (if mode ?s = Output_None then Disabled else Degraded)"
    using assms(2) by (simp add: recordHealthFailure_def Let_def)
  have m: "hasConsoleOutput (mode ?s) = (hasConsoleOutput (mode s) \<and> source \<noteq> ConsoleFailure)"
    "hasFileOutput (mode ?s) = (hasFileOutput (mode s) \<and> source \<noteq> FileFailure)"
    unfolding md by (cases source; simp add: hasConsoleOutput_def hasFileOutput_def)+
  have none: "mode ?s = Output_None \<longleftrightarrow> \<not> (hasConsoleOutput (mode ?s) \<or> hasFileOutput (mode ?s))"
    using ok' by (cases "mode ?s") (simp_all add: runtime_ok_def hasConsoleOutput_def hasFileOutput_def)
  have rest: "source = FileFailure \<longrightarrow> \<not> fileOutputAvailableAtomic ?s" "healthFailureCount ?s = healthFailureCount s + 1"
    "lastFailureSource ?s = source" "lastHealthError ?s = code status"
    using assms(2) by (simp_all add: recordHealthFailure_def Let_def)
  show ?thesis unfolding Let_def using m h none gate rest by auto
qed

theorem recordHealthFailure_disables_witness:
  "healthState (recordHealthFailure ConsoleFailure (statusOf WriteFailed) True initial_runtime) = Degraded"
  using recordHealthFailure_disables [OF initial_runtime_ok, of "statusOf WriteFailed" ConsoleFailure]
  by (simp add: Let_def initial_runtime_def hasFileOutput_def)

end
