(* ===== verification/Sorted_Vector.thy ===== *)
theory Sorted_Vector
  imports GW_Prelude
begin

text \<open>
  Vectors kept in ascending order of a key and searched with \<open>std::lower_bound\<close>, as the logger's source registry and
  the input state and device registry keep theirs. The search is the standard halving loop; the contract
  \<open>keyed_vector\<close> is what its callers rely on.
\<close>

function partition_point_from :: "('a \<Rightarrow> bool) \<Rightarrow> 'a list \<Rightarrow> nat \<Rightarrow> nat \<Rightarrow> nat" where
  "partition_point_from P xs first count =
    (if count > 0 then
       let step = count div 2 in
       if P (xs ! (first + step)) then partition_point_from P xs (first + step + 1) (count - (step + 1))
       else partition_point_from P xs first step
     else first)"
  by pat_completeness auto
termination by (relation "measure (\<lambda>(P, xs, first, count). count)") auto

declare partition_point_from.simps [simp del]

text \<open>\<open>std::lower_bound(xs.begin(), xs.end(), k, \<dots>)\<close>, where \<open>P x\<close> says that \<open>x\<close> comes before \<open>k\<close>.\<close>

definition lower_bound_by :: "('a \<Rightarrow> bool) \<Rightarrow> 'a list \<Rightarrow> nat" where
  "lower_bound_by P xs = partition_point_from P xs 0 (length xs)"

text \<open>\<open>xs.insert(xs.begin() + i, x)\<close> and \<open>xs.erase(xs.begin() + i)\<close>.\<close>

definition insert_at :: "nat \<Rightarrow> 'a \<Rightarrow> 'a list \<Rightarrow> 'a list" where
  "insert_at i x xs = take i xs @ x # drop i xs"

definition erase_at :: "nat \<Rightarrow> 'a list \<Rightarrow> 'a list" where
  "erase_at i xs = take i xs @ drop (Suc i) xs"

abbreviation ascending :: "('a \<Rightarrow> 'k::linorder) \<Rightarrow> 'a list \<Rightarrow> bool" where
  "ascending key xs \<equiv> sorted_wrt (\<lambda>a b. key a < key b) xs"

section \<open>The search\<close>

lemma partition_point_step:
  assumes "\<And>i. i < n \<Longrightarrow> P (xs ! i)" "\<And>i. n \<le> i \<Longrightarrow> i < length xs \<Longrightarrow> \<not> P (xs ! i)"
    and "first \<le> n" "n \<le> first + count" "first + count \<le> length xs"
  shows "partition_point_from P xs first count = n"
  using assms(3-5)
proof (induction count arbitrary: first rule: less_induct)
  case (less count)
  let ?step = "count div 2"
  show ?case
  proof (cases "count = 0")
    case True
    with less.prems show ?thesis by (subst partition_point_from.simps) simp
  next
    case pos: False
    then have lt: "?step < count" by simp
    show ?thesis
    proof (cases "P (xs ! (first + ?step))")
      case True
      then have "first + ?step < n" using assms(2) less.prems lt by (meson add_strict_left_mono less_le_trans not_le)
      then have "partition_point_from P xs (first + ?step + 1) (count - (?step + 1)) = n"
        using less.prems lt by (intro less.IH) auto
      with True pos show ?thesis by (subst partition_point_from.simps) (simp add: Let_def)
    next
      case False
      then have "n \<le> first + ?step" using assms(1) by (meson not_le)
      then have "partition_point_from P xs first ?step = n" using less.prems lt by (intro less.IH) auto
      with False pos show ?thesis by (subst partition_point_from.simps) (simp add: Let_def)
    qed
  qed
qed

lemma lower_bound_append:
  assumes "\<And>y. y \<in> set ys \<Longrightarrow> P y" "\<And>z. z \<in> set zs \<Longrightarrow> \<not> P z"
  shows "lower_bound_by P (ys @ zs) = length ys"
  unfolding lower_bound_by_def
  by (rule partition_point_step) (use assms in \<open>auto simp: nth_append\<close>)

lemma ascending_split:
  assumes "ascending key xs"
  obtains ys zs where "xs = ys @ zs" "\<And>y. y \<in> set ys \<Longrightarrow> key y < k" "\<And>z. z \<in> set zs \<Longrightarrow> k \<le> key z"
proof
  let ?P = "\<lambda>x. key x < k"
  show "xs = takeWhile ?P xs @ dropWhile ?P xs" by simp
  show "key y < k" if "y \<in> set (takeWhile ?P xs)" for y using set_takeWhileD [OF that] by blast
  have asc: "ascending key (dropWhile ?P xs)" unfolding dropWhile_eq_drop using assms by (rule sorted_wrt_drop)
  show "k \<le> key z" if "z \<in> set (dropWhile ?P xs)" for z
  proof (cases "dropWhile ?P xs")
    case Nil
    with that show ?thesis by (simp only: list.set empty_iff)
  next
    case (Cons d ds)
    then have "k \<le> key d" using dropWhile_eq_Cons_conv [of ?P xs d ds] by (simp add: not_less)
    with that Cons asc show ?thesis by auto
  qed
qed

section \<open>Ascending vectors\<close>

locale keyed_vector =
  fixes key :: "'a \<Rightarrow> 'k::linorder"
    and find :: "'a list \<Rightarrow> 'k \<Rightarrow> nat"
  assumes find_lower_bound: "find xs k = lower_bound_by (\<lambda>x. key x < k) xs"
begin

lemma find_append:
  assumes "\<And>y. y \<in> set ys \<Longrightarrow> key y < k" "\<And>z. z \<in> set zs \<Longrightarrow> k \<le> key z"
  shows "find (ys @ zs) k = length ys"
  unfolding find_lower_bound using assms by (intro lower_bound_append) (auto simp: not_less)

lemma find_split:
  assumes "ascending key xs"
  obtains ys zs where "xs = ys @ zs" "find xs k = length ys" "\<And>y. y \<in> set ys \<Longrightarrow> key y < k" "\<And>z. z \<in> set zs \<Longrightarrow> k \<le> key z"
proof (rule ascending_split [OF assms, where k = k])
  fix ys zs
  assume "xs = ys @ zs" "\<And>y. y \<in> set ys \<Longrightarrow> key y < k" "\<And>z. z \<in> set zs \<Longrightarrow> k \<le> key z"
  then show thesis using that find_append [of ys k zs] by blast
qed

lemma find_le:
  assumes "ascending key xs"
  shows "find xs k \<le> length xs"
  by (rule find_split [OF assms, where k = k]) simp

text \<open>The element found is the first of the rest, or the key is absent.\<close>

lemma find_cases:
  assumes "ascending key xs"
  obtains (hit) ys z zs where "xs = ys @ z # zs" "find xs k = length ys" "key z = k"
      "\<And>y. y \<in> set ys \<Longrightarrow> key y < k" "\<And>z. z \<in> set zs \<Longrightarrow> k < key z"
    | (miss) ys zs where "xs = ys @ zs" "find xs k = length ys"
      "\<And>y. y \<in> set ys \<Longrightarrow> key y < k" "\<And>z. z \<in> set zs \<Longrightarrow> k < key z"
proof (rule find_split [OF assms, where k = k])
  fix ys zs
  assume xs: "xs = ys @ zs" "find xs k = length ys" and s: "\<And>y. y \<in> set ys \<Longrightarrow> key y < k" "\<And>z. z \<in> set zs \<Longrightarrow> k \<le> key z"
  show thesis
  proof (cases zs)
    case Nil
    then show ?thesis using miss [of ys "[]"] xs s(1) by simp
  next
    case (Cons z ws)
    have gt: "key z < key w" if "w \<in> set ws" for w using assms that unfolding xs(1) Cons by (simp add: sorted_wrt_append)
    show ?thesis
    proof (cases "key z = k")
      case True
      then show ?thesis using hit [of ys z ws] xs Cons s(1) gt by simp
    next
      case False
      then have "k < key z" using s(2) [of z] Cons by simp
      then show ?thesis using miss [of ys zs] xs Cons s(1) gt by (fastforce intro: less_trans)
    qed
  qed
qed

lemma find_hit:
  assumes "ascending key xs"
  shows "find xs k \<noteq> length xs \<and> key (xs ! find xs k) = k \<longleftrightarrow> k \<in> key ` set xs"
proof (cases rule: find_cases [OF assms, where k = k, case_names hit miss])
  case (hit ys z zs)
  then show ?thesis by simp
next
  case (miss ys zs)
  then have "k \<notin> key ` set xs" by (auto dest: order.strict_implies_not_eq)
  moreover have "key (xs ! find xs k) \<noteq> k" if "find xs k \<noteq> length xs"
    using that miss by (cases zs) auto
  ultimately show ?thesis by blast
qed

lemma find_nth:
  assumes "ascending key xs" "x \<in> set xs" "key x = k"
  shows "find xs k < length xs \<and> xs ! find xs k = x"
proof (cases rule: find_cases [OF assms(1), where k = k, case_names hit miss])
  case (hit ys z zs)
  moreover have "x = z" using hit(1,3) assms(2,3) by (auto dest: hit(4,5))
  ultimately show ?thesis by simp
next
  case (miss ys zs)
  then show ?thesis using assms(2,3) by (auto dest: order.strict_implies_not_eq)
qed

lemma insert_new:
  assumes "ascending key xs" "key x \<notin> key ` set xs"
  shows "ascending key (insert_at (find xs (key x)) x xs)"
    and "set (insert_at (find xs (key x)) x xs) = insert x (set xs)"
proof -
  have "ascending key (insert_at (find xs (key x)) x xs) \<and> set (insert_at (find xs (key x)) x xs) = insert x (set xs)"
  proof (cases rule: find_cases [OF assms(1), where k = "key x", case_names hit miss])
    case (hit ys z zs)
    then show ?thesis using assms(2) by (metis image_eqI in_set_conv_decomp)
  next
    case (miss ys zs)
    then show ?thesis using assms(1) by (auto simp: insert_at_def sorted_wrt_append)
  qed
  then show "ascending key (insert_at (find xs (key x)) x xs)" "set (insert_at (find xs (key x)) x xs) = insert x (set xs)"
    by blast+
qed

lemma erase_hit:
  assumes "ascending key xs" "k \<in> key ` set xs"
  shows "erase_at (find xs k) xs = filter (\<lambda>x. key x \<noteq> k) xs"
proof (cases rule: find_cases [OF assms(1), where k = k, case_names hit miss])
  case (hit ys z zs)
  then have "filter (\<lambda>x. key x \<noteq> k) ys = ys" "filter (\<lambda>x. key x \<noteq> k) zs = zs"
    by (auto simp: filter_id_conv dest: hit(4,5))
  with hit show ?thesis by (simp add: erase_at_def)
next
  case (miss ys zs)
  with assms(2) show ?thesis by (auto dest: order.strict_implies_not_eq)
qed

lemma update_hit:
  assumes "ascending key xs" "k \<in> key ` set xs" "key x = k"
  shows "ascending key (xs[find xs k := x])"
    and "set (xs[find xs k := x]) = insert x {y \<in> set xs. key y \<noteq> k}"
proof -
  have "ascending key (xs[find xs k := x]) \<and> set (xs[find xs k := x]) = insert x {y \<in> set xs. key y \<noteq> k}"
  proof (cases rule: find_cases [OF assms(1), where k = k, case_names hit miss])
    case (hit ys z zs)
    have asc: "ascending key (ys @ z # zs)" using assms(1) hit(1) by simp
    have "xs[find xs k := x] = ys @ x # zs" using hit(1,2) by simp
    moreover have "ascending key (ys @ x # zs)" using asc hit(3-5) assms(3) by (simp add: sorted_wrt_append)
    moreover have "set (ys @ x # zs) = insert x {y \<in> set xs. key y \<noteq> k}"
      using hit(1,3) by (auto dest: hit(4,5))
    ultimately show ?thesis by simp
  next
    case (miss ys zs)
    with assms(2) show ?thesis by (auto dest: order.strict_implies_not_eq)
  qed
  then show "ascending key (xs[find xs k := x])" "set (xs[find xs k := x]) = insert x {y \<in> set xs. key y \<noteq> k}"
    by blast+
qed

end

end
