(* ===== verification/Logger_Sources.thy ===== *)
theory Logger_Sources
  imports Logger_Runtime Sorted_Vector
begin

text \<open>
  The registered log sources of \<^verbatim>\<open>tools/logger/core/logger_filters.cpp\<close>: an ascending vector of sources with a
  direct table for dense identifier ranges. A pointer to a source is its index in the vector.
\<close>

record RegisteredSource =
  srcId :: SourceId
  srcName :: "byte list"
  srcEnabled :: bool

record SourceRegistry =
  sources :: "RegisteredSource list"
  directSourceLookup :: "nat list"
  directSourceBase :: SourceId

definition kInvalidSourceIndex :: nat where
  "kInvalidSourceIndex = size_max"

definition findSourcePosition :: "RegisteredSource list \<Rightarrow> SourceId \<Rightarrow> nat" where
  "findSourcePosition ss source = lower_bound_by (\<lambda>candidate. srcId candidate < source) ss"

text \<open>The entry of the direct table for an identifier, if the table has one.\<close>

definition directSourceIndex :: "SourceRegistry \<Rightarrow> SourceId \<Rightarrow> nat option" where
  "directSourceIndex registry source =
    (if directSourceLookup registry \<noteq> [] \<and> source \<ge> directSourceBase registry
     then let offset = unat (source - directSourceBase registry) in
       if offset < length (directSourceLookup registry)
       then let index = directSourceLookup registry ! offset in
         if index \<noteq> kInvalidSourceIndex then Some index else None
       else None
     else None)"

definition findSourceInRegistry :: "SourceRegistry \<Rightarrow> SourceId \<Rightarrow> nat option" where
  "findSourceInRegistry registry source =
    (case directSourceIndex registry source of
       Some index \<Rightarrow> Some index
     | None \<Rightarrow>
         let position = findSourcePosition (sources registry) source in
         if position \<noteq> length (sources registry) \<and> srcId (sources registry ! position) = source then Some position else None)"

text \<open>The loop that fills the direct table.\<close>

fun fillSourceLookup :: "RegisteredSource list \<Rightarrow> SourceId \<Rightarrow> nat \<Rightarrow> nat list \<Rightarrow> nat list" where
  "fillSourceLookup [] minSource index table = table"
| "fillSourceLookup (s # ss) minSource index table =
    fillSourceLookup ss minSource (Suc index) (table[unat (srcId s - minSource) := index])"

definition rebuildSourceLookup :: "SourceRegistry \<Rightarrow> SourceRegistry" where
  "rebuildSourceLookup registry =
    (let ss = sources registry; cleared = registry\<lparr>directSourceLookup := [], directSourceBase := 0\<rparr> in
     if ss = [] then cleared
     else
       let minSource = srcId (hd ss); maxSource = srcId (last ss);
           span64 = (ucast maxSource - ucast minSource + 1 :: 64 word);
           densityLimit = max 64 (of_nat (length ss) * 4 :: 64 word) in
       if span64 > densityLimit \<or> span64 > 4096 then cleared
       else cleared\<lparr>directSourceBase := minSource,
         directSourceLookup := fillSourceLookup ss minSource 0 (replicate (unat span64) kInvalidSourceIndex)\<rparr>)"

definition sourceEnabledRuntime :: "SourceRegistry option \<Rightarrow> SourceId \<Rightarrow> bool" where
  "sourceEnabledRuntime registry source =
    (case registry of None \<Rightarrow> True
     | Some r \<Rightarrow> (case findSourceInRegistry r source of None \<Rightarrow> True | Some i \<Rightarrow> srcEnabled (sources r ! i)))"

definition shouldLogRuntime :: "32 word \<Rightarrow> SourceRegistry option \<Rightarrow> Level \<Rightarrow> SourceId \<Rightarrow> bool" where
  "shouldLogRuntime bits registry level source \<longleftrightarrow> levelAccepted bits level \<and> sourceEnabledRuntime registry source"

definition checkPendingEntryAcceptedUnlocked :: "32 word \<Rightarrow> SourceRegistry option \<Rightarrow> PendingLogEntry \<Rightarrow> bool" where
  "checkPendingEntryAcceptedUnlocked runtimeState registry entry =
    (if \<not> isValidLevel (pendingLevel entry) \<or> \<not> runtimeStateRunning runtimeState \<or> runtimeStateOutput runtimeState = Output_None then False
     else if toLevelValue (pendingLevel entry) < toLevelValue (runtimeStateMinLevel runtimeState) then False
     else if levelBit (pendingLevel entry) = 0 \<or> runtimeStateLevelMask runtimeState AND levelBit (pendingLevel entry) = 0 then False
     else if pendingUsesRegisteredSource entry \<and> \<not> sourceEnabledRuntime registry (pendingSourceId entry) then False
     else True)"

text \<open>The validation loop over the definitions of \<open>prepareSources\<close>.\<close>

fun checkDefinitions :: "(SourceId \<times> byte list) list \<Rightarrow> ErrorCode + RegisteredSource list" where
  "checkDefinitions [] = Inr []"
| "checkDefinitions ((i, name) # ds) =
    (if name = [] then Inl InvalidArgument
     else if validationOutcome8 (Utf8_validate name) \<noteq> V_Valid then Inl EncodingFailed
     else (case checkDefinitions ds of Inl e \<Rightarrow> Inl e
       | Inr ss \<Rightarrow> Inr (\<lparr>srcId = i, srcName = name, srcEnabled = True\<rparr> # ss)))"

text \<open>\<open>std::adjacent_find\<close> for equal neighbours.\<close>

fun has_adjacent_equal :: "'a list \<Rightarrow> bool" where
  "has_adjacent_equal (a # b # xs) = (a = b \<or> has_adjacent_equal (b # xs))"
| "has_adjacent_equal xs = False"

fun applyFilters :: "(SourceId \<times> bool) list \<Rightarrow> RegisteredSource list \<Rightarrow> RegisteredSource list option" where
  "applyFilters [] ss = Some ss"
| "applyFilters ((source, enabled) # fs) ss =
    (let position = findSourcePosition ss source in
     if position = length ss \<or> srcId (ss ! position) \<noteq> source then None
     else applyFilters fs (ss[position := (ss ! position)\<lparr>srcEnabled := enabled\<rparr>]))"

text \<open>
  \<open>thrown\<close> is the exception that some allocation of the body throws, if one does; it is caught after the body.
  The registry is absent when there is nothing to register.
\<close>

definition prepareSources ::
    "exception_kind option \<Rightarrow> (SourceId \<times> byte list) list \<Rightarrow> (SourceId \<times> bool) list \<Rightarrow> ErrorCode + SourceRegistry option" where
  "prepareSources thrown definitions filters =
    (if definitions = [] \<and> filters = [] then Inr None
     else case thrown of
       Some bad_alloc \<Rightarrow> Inl OutOfMemory
     | Some _ \<Rightarrow> Inl Unknown
     | None \<Rightarrow>
         (case checkDefinitions definitions of
            Inl e \<Rightarrow> Inl e
          | Inr unsorted \<Rightarrow>
              let ss = sort_key srcId unsorted in
              if has_adjacent_equal (map srcId ss) then Inl InvalidArgument
              else (case applyFilters filters ss of
                  None \<Rightarrow> Inl InvalidArgument
                | Some ss' \<Rightarrow>
                    if has_adjacent_equal (sort (map fst filters)) then Inl InvalidArgument
                    else Inr (Some (rebuildSourceLookup \<lparr>sources = ss', directSourceLookup = [], directSourceBase = 0\<rparr>)))))"

definition setSourceFilter :: "SourceId \<Rightarrow> bool \<Rightarrow> SourceRegistry option \<Rightarrow> SourceRegistry option \<times> Status" where
  "setSourceFilter source enabled registry =
    (case registry of None \<Rightarrow> (registry, statusOf NotFound)
     | Some r \<Rightarrow> (case findSourceInRegistry r source of
         None \<Rightarrow> (registry, statusOf NotFound)
       | Some i \<Rightarrow> (Some (r\<lparr>sources := (sources r)[i := (sources r ! i)\<lparr>srcEnabled := enabled\<rparr>]\<rparr>), successStatus)))"

definition resetSourceFilter :: "SourceId \<Rightarrow> SourceRegistry option \<Rightarrow> SourceRegistry option \<times> Status" where
  "resetSourceFilter source = setSourceFilter source True"

definition resetSourceFilters :: "SourceRegistry option \<Rightarrow> SourceRegistry option \<times> Status" where
  "resetSourceFilters registry =
    (map_option (\<lambda>r. r\<lparr>sources := map (\<lambda>s. s\<lparr>srcEnabled := True\<rparr>) (sources r)\<rparr>) registry, successStatus)"

definition findSourceName :: "SourceRegistry option \<Rightarrow> SourceId \<Rightarrow> byte list \<times> bool" where
  "findSourceName registry source =
    (case registry of None \<Rightarrow> (map of_char ''UnknownSource'', True)
     | Some r \<Rightarrow> (case findSourceInRegistry r source of
         None \<Rightarrow> (map of_char ''UnknownSource'', True)
       | Some i \<Rightarrow> (srcName (sources r ! i), False)))"

definition resolveSourceText :: "QueuedLogEntry \<Rightarrow> SourceRegistry option \<Rightarrow> byte list \<times> bool" where
  "resolveSourceText entry registry =
    (if \<not> usesRegisteredSource entry then (LogText_view (sourceText entry), False)
     else findSourceName registry (sourceId entry))"

section \<open>Lookup\<close>

interpretation src: keyed_vector srcId findSourcePosition
  by unfold_locales (simp add: findSourcePosition_def)

definition registry_ok :: "SourceRegistry \<Rightarrow> bool" where
  "registry_ok r \<longleftrightarrow> ascending srcId (sources r) \<and>
    (\<forall>s i. directSourceIndex r s = Some i \<longrightarrow> i < length (sources r) \<and> srcId (sources r ! i) = s)"

lemma findSource_iff:
  assumes "registry_ok r"
  shows "findSourceInRegistry r s = Some i \<longleftrightarrow> i < length (sources r) \<and> srcId (sources r ! i) = s"
proof -
  let ?p = "findSourcePosition (sources r) s"
  have asc: "ascending srcId (sources r)" using assms by (simp add: registry_ok_def)
  have uniq: "i = j" if "i < length (sources r)" "j < length (sources r)" "srcId (sources r ! i) = srcId (sources r ! j)" for i j
    using asc that by (metis linorder_neqE_nat order.strict_implies_not_eq sorted_wrt_nth_less)
  show ?thesis
  proof (cases "directSourceIndex r s")
    case (Some k)
    then have "k < length (sources r) \<and> srcId (sources r ! k) = s" using assms by (simp add: registry_ok_def)
    with Some uniq show ?thesis by (auto simp: findSourceInRegistry_def)
  next
    case None
    show ?thesis
    proof (cases "?p \<noteq> length (sources r) \<and> srcId (sources r ! ?p) = s")
      case True
      then have "?p < length (sources r)" using src.find_le [OF asc, of s] by simp
      with True None uniq show ?thesis by (auto simp: findSourceInRegistry_def Let_def)
    next
      case False
      then have "s \<notin> srcId ` set (sources r)" using src.find_hit [OF asc] by blast
      then have "\<not> (i < length (sources r) \<and> srcId (sources r ! i) = s)" by (metis image_eqI nth_mem)
      moreover have "findSourceInRegistry r s = None" using False None by (simp only: findSourceInRegistry_def Let_def option.case if_False)
      ultimately show ?thesis by simp
    qed
  qed
qed

lemma findSource_None:
  assumes "registry_ok r"
  shows "findSourceInRegistry r s = None \<longleftrightarrow> s \<notin> srcId ` set (sources r)"
proof -
  have "(\<exists>i. findSourceInRegistry r s = Some i) \<longleftrightarrow> s \<in> srcId ` set (sources r)"
    unfolding findSource_iff [OF assms] by (force simp: in_set_conv_nth)
  then show ?thesis by (cases "findSourceInRegistry r s") auto
qed

section \<open>The direct table\<close>

lemma length_fillSourceLookup [simp]: "length (fillSourceLookup ss m i t) = length t"
  by (induction ss arbitrary: i t) simp_all

lemma fillSourceLookup_sound:
  "off < length t \<Longrightarrow> fillSourceLookup ss m i t ! off = t ! off \<or>
    (\<exists>j < length ss. fillSourceLookup ss m i t ! off = i + j \<and> unat (srcId (ss ! j) - m) = off)"
proof (induction ss arbitrary: i t)
  case (Cons s ss)
  let ?t = "t[unat (srcId s - m) := i]"
  have "fillSourceLookup ss m (Suc i) ?t ! off = ?t ! off \<or>
    (\<exists>j < length ss. fillSourceLookup ss m (Suc i) ?t ! off = Suc i + j \<and> unat (srcId (ss ! j) - m) = off)"
    using Cons.prems by (intro Cons.IH) simp
  then show ?case
  proof
    assume "fillSourceLookup ss m (Suc i) ?t ! off = ?t ! off"
    then show ?thesis using Cons.prems by (cases "unat (srcId s - m) = off") (auto intro!: exI [of _ 0])
  qed (auto intro!: exI [of _ "Suc _"])
qed simp

lemma word_diff_eq: "unat (a - m) = unat (b - m) \<Longrightarrow> a = (b :: 'a::len word)"
  by (metis diff_add_cancel word_unat_eq_iff)

lemma rebuild_ok:
  assumes "ascending srcId (sources r)"
  shows "registry_ok (rebuildSourceLookup r)" and "sources (rebuildSourceLookup r) = sources r"
proof -
  let ?r = "rebuildSourceLookup r"
  show src: "sources ?r = sources r" by (simp add: rebuildSourceLookup_def Let_def)
  have "i < length (sources r) \<and> srcId (sources r ! i) = s" if d: "directSourceIndex ?r s = Some i" for s i
  proof -
    have ne: "directSourceLookup ?r \<noteq> []" using d by (auto simp: directSourceIndex_def split: if_splits)
    then obtain m n where t: "directSourceLookup ?r = fillSourceLookup (sources r) m 0 (replicate n kInvalidSourceIndex)"
      "directSourceBase ?r = m"
      by (auto simp: rebuildSourceLookup_def Let_def split: if_splits)
    let ?off = "unat (s - m)"
    have off: "?off < n" "directSourceLookup ?r ! ?off = i" "i \<noteq> kInvalidSourceIndex"
      using d t by (auto simp: directSourceIndex_def Let_def split: if_splits)
    with fillSourceLookup_sound [of ?off "replicate n kInvalidSourceIndex" "sources r" m 0] t(1)
    obtain j where "j < length (sources r)" "i = j" "unat (srcId (sources r ! j) - m) = ?off" by auto
    then show ?thesis using word_diff_eq by blast
  qed
  then show "registry_ok ?r" using assms src by (simp add: registry_ok_def)
qed

text \<open>Every write of the table loop is inside the table.\<close>

lemma rebuild_in_bounds:
  assumes "ascending srcId ss" "s \<in> set ss" and "minSource = srcId (hd ss)" "maxSource = srcId (last ss)"
  shows "unat (srcId s - minSource) < unat (ucast maxSource - ucast minSource + 1 :: 64 word)"
proof -
  obtain i where i: "i < length ss" "s = ss ! i" using assms(2) by (auto simp: in_set_conv_nth)
  have mono: "srcId (ss ! a) \<le> srcId (ss ! b)" if "a \<le> b" "b < length ss" for a b
    using that assms(1) by (cases "a = b") (auto simp: sorted_wrt_iff_nth_less order_le_less)
  have lo: "minSource \<le> srcId s" "srcId s \<le> maxSource"
    using mono [of 0 i] mono [of i "length ss - 1"] i assms(3,4) by (cases "ss = []"; auto simp: hd_conv_nth last_conv_nth)+
  have u: "unat (ucast w :: 64 word) = unat (w :: SourceId)" "unat w < 4294967296" for w :: SourceId
  proof -
    show lt: "unat w < 4294967296" using unsigned_less [of w] by simp
    then have "unat w < 2 ^ 64" by (rule less_trans) simp
    then show "unat (ucast w :: 64 word) = unat w" by (simp add: unsigned_ucast_eq take_bit_nat_eq_self)
  qed
  have "unat (ucast maxSource - ucast minSource :: 64 word) = unat maxSource - unat minSource"
    using lo by (subst unat_sub) (auto simp: word_le_nat_alt u)
  then have "unat (ucast maxSource - ucast minSource + 1 :: 64 word) = unat maxSource - unat minSource + 1"
    using u(2) [of maxSource] by (subst unat_add_lem [THEN iffD1]) auto
  moreover have "unat (srcId s - minSource) = unat (srcId s) - unat minSource" using lo by (simp add: unat_sub)
  ultimately show ?thesis using lo by (simp add: word_le_nat_alt)
qed

section \<open>Preparation\<close>

lemma checkDefinitions_ok:
  "checkDefinitions ds = Inr ss \<longleftrightarrow>
    (\<forall>(i, name) \<in> set ds. name \<noteq> [] \<and> valid_utf8 name) \<and> ss = map (\<lambda>(i, name). \<lparr>srcId = i, srcName = name, srcEnabled = True\<rparr>) ds"
proof (induction ds arbitrary: ss)
  case (Cons d ds)
  show ?case
  proof (cases d)
    case (Pair i name)
    then show ?thesis using Cons.IH
      by (cases "name = []"; cases "valid_utf8 name"; cases "checkDefinitions ds") (auto simp: Utf8_validate_iff)
  qed
qed auto

lemma adjacent_sorted:
  "sorted xs \<Longrightarrow> \<not> has_adjacent_equal xs \<longleftrightarrow> sorted_wrt (<) xs"
  by (induction xs rule: has_adjacent_equal.induct) (fastforce simp: order_le_less intro: less_trans)+

lemma enable_ids: "map srcId (ss[p := (ss ! p)\<lparr>srcEnabled := b\<rparr>]) = map srcId ss"
  by (cases "p < length ss") (auto intro!: nth_equalityI simp: nth_list_update list_update_beyond not_less)

lemma enable_names: "map srcName (ss[p := (ss ! p)\<lparr>srcEnabled := b\<rparr>]) = map srcName ss"
  by (cases "p < length ss") (auto intro!: nth_equalityI simp: nth_list_update list_update_beyond not_less)

lemma applyFilters_ids:
  assumes "applyFilters fs ss = Some ss'"
  shows "map srcId ss' = map srcId ss" "map srcName ss' = map srcName ss"
  using assms
  by (induction fs ss rule: applyFilters.induct)
    (auto simp: Let_def enable_ids enable_names split: if_splits)

lemma ascending_map: "map srcId ss' = map srcId ss \<Longrightarrow> ascending srcId ss' \<longleftrightarrow> ascending srcId ss"
  using sorted_wrt_map [of "(<)" srcId ss] sorted_wrt_map [of "(<)" srcId ss'] by simp

lemma applyFilters_Some:
  "ascending srcId ss \<Longrightarrow> applyFilters fs ss \<noteq> None \<longleftrightarrow> fst ` set fs \<subseteq> srcId ` set ss"
proof (induction fs ss rule: applyFilters.induct)
  case (2 source enabled fs ss)
  let ?p = "findSourcePosition ss source"
  let ?ss = "ss[?p := (ss ! ?p)\<lparr>srcEnabled := enabled\<rparr>]"
  have hit: "\<not> (?p = length ss \<or> srcId (ss ! ?p) \<noteq> source) \<longleftrightarrow> source \<in> srcId ` set ss"
    using src.find_hit [OF 2(2), of source] by blast
  have ids: "map srcId ?ss = map srcId ss" by (rule enable_ids)
  have set: "srcId ` set ?ss = srcId ` set ss" using arg_cong [OF ids, of set] by simp
  show ?case
  proof (cases "source \<in> srcId ` set ss")
    case True
    then have p: "\<not> (?p = length ss \<or> srcId (ss ! ?p) \<noteq> source)" using hit by blast
    have "applyFilters fs ?ss \<noteq> None \<longleftrightarrow> fst ` set fs \<subseteq> srcId ` set ?ss"
      using 2(1) [OF refl p] 2(2) ascending_map [OF ids] by blast
    with p True set show ?thesis by (simp add: Let_def)
  next
    case False
    then have "?p = length ss \<or> srcId (ss ! ?p) \<noteq> source" using hit by blast
    with False show ?thesis by (simp add: Let_def)
  qed
qed simp

lemma applyFilters_enabled:
  "ascending srcId ss \<Longrightarrow> applyFilters fs ss = Some ss' \<Longrightarrow> distinct (map fst fs) \<Longrightarrow> j < length ss \<Longrightarrow>
    srcEnabled (ss' ! j) = (case map_of fs (srcId (ss ! j)) of None \<Rightarrow> srcEnabled (ss ! j) | Some b \<Rightarrow> b)"
proof (induction fs ss rule: applyFilters.induct)
  case (2 source enabled fs ss)
  let ?p = "findSourcePosition ss source"
  let ?ss = "ss[?p := (ss ! ?p)\<lparr>srcEnabled := enabled\<rparr>]"
  have p: "\<not> (?p = length ss \<or> srcId (ss ! ?p) \<noteq> source)" and rec: "applyFilters fs ?ss = Some ss'"
    using 2(3) by (auto simp: Let_def split: if_splits)
  have ids: "map srcId ?ss = map srcId ss" by (rule enable_ids)
  have idj: "srcId (?ss ! j) = srcId (ss ! j)" using arg_cong [OF ids, of "\<lambda>xs. xs ! j"] 2(5) by simp
  have lt: "?p < length ss" using p src.find_le [OF 2(2), of source] by simp
  have IH: "srcEnabled (ss' ! j) = (case map_of fs (srcId (ss ! j)) of None \<Rightarrow> srcEnabled (?ss ! j) | Some b \<Rightarrow> b)"
    using 2(1) [OF refl p _ rec] 2(2,4,5) ascending_map [OF ids] idj by simp
  have uniq: "srcId (ss ! j) = source \<Longrightarrow> j = ?p"
    using p lt 2(2,5) by (metis linorder_neqE_nat order.strict_implies_not_eq sorted_wrt_nth_less)
  have new: "map_of fs source = None" using 2(4) by (simp add: map_of_eq_None_iff)
  show ?case
  proof (cases "j = ?p")
    case True
    then show ?thesis using IH p lt new by simp
  next
    case False
    then have eq: "?ss ! j = ss ! j" by (metis nth_list_update_neq)
    show ?thesis using IH uniq False unfolding eq by auto
  qed
qed simp

lemma prepareSources_sorted:
  assumes "checkDefinitions ds = Inr us" "ss = sort_key srcId us"
  shows "\<not> has_adjacent_equal (map srcId ss) \<longleftrightarrow> distinct (map fst ds)"
    and "\<not> has_adjacent_equal (map srcId ss) \<Longrightarrow> ascending srcId ss"
    and "srcId ` set ss = fst ` set ds"
    and "x \<in> set ss \<Longrightarrow> (srcId x, srcName x) \<in> set ds \<and> srcEnabled x"
proof -
  have us: "us = map (\<lambda>(i, name). \<lparr>srcId = i, srcName = name, srcEnabled = True\<rparr>) ds"
    using assms(1) by (simp add: checkDefinitions_ok)
  then have ids: "map srcId us = map fst ds" by (auto simp: comp_def case_prod_beta)
  have sorted: "sorted (map srcId ss)" using assms(2) by simp
  then have iff: "\<not> has_adjacent_equal (map srcId ss) \<longleftrightarrow> sorted_wrt (<) (map srcId ss)" by (rule adjacent_sorted)
  also have "\<dots> \<longleftrightarrow> distinct (map srcId ss)" using sorted by (simp add: strict_sorted_iff)
  also have "\<dots> \<longleftrightarrow> distinct (map srcId us)"
    using assms(2) by (simp add: distinct_map)
  finally show "\<not> has_adjacent_equal (map srcId ss) \<longleftrightarrow> distinct (map fst ds)" by (simp only: ids)
  show "ascending srcId ss" if "\<not> has_adjacent_equal (map srcId ss)" using that iff by (simp add: sorted_wrt_map)
  show "srcId ` set ss = fst ` set ds" using assms(2) ids by (metis image_set set_sort)
  show "(srcId x, srcName x) \<in> set ds \<and> srcEnabled x" if "x \<in> set ss" using that assms(2) us by auto
qed

text \<open>What a lookup in a registry gives: the name and whether the source is enabled.\<close>

definition source_info :: "SourceRegistry \<Rightarrow> SourceId \<Rightarrow> (byte list \<times> bool) option" where
  "source_info r s = map_option (\<lambda>i. (srcName (sources r ! i), srcEnabled (sources r ! i))) (findSourceInRegistry r s)"

lemma checkPending_eq:
  "checkPendingEntryAcceptedUnlocked bits reg p \<longleftrightarrow>
    (if pendingUsesRegisteredSource p then shouldLogRuntime bits reg (pendingLevel p) (pendingSourceId p)
     else levelAccepted bits (pendingLevel p))"
  by (auto simp: checkPendingEntryAcceptedUnlocked_def shouldLogRuntime_def levelAccepted_def)

lemma adjacent_filters: "\<not> has_adjacent_equal (sort (map fst fs)) \<longleftrightarrow> distinct (map fst fs)" for fs :: "(SourceId \<times> bool) list"
  using adjacent_sorted [of "sort (map fst fs)"] by (simp add: strict_sorted_iff)

lemma prepareSources_iff:
  assumes "ds \<noteq> [] \<or> fs \<noteq> []"
  shows "(\<exists>r. prepareSources None ds fs = Inr (Some r)) \<longleftrightarrow>
      (\<forall>(i, name) \<in> set ds. name \<noteq> [] \<and> valid_utf8 name) \<and> distinct (map fst ds) \<and>
      fst ` set fs \<subseteq> fst ` set ds \<and> distinct (map fst fs)"
proof (cases "checkDefinitions ds")
  case (Inl e)
  then have "\<not> (\<forall>(i, name) \<in> set ds. name \<noteq> [] \<and> valid_utf8 name)" using checkDefinitions_ok [of ds] by auto
  moreover have "\<not> (\<exists>r. prepareSources None ds fs = Inr (Some r))" using assms Inl by (auto simp: prepareSources_def)
  ultimately show ?thesis by blast
next
  case (Inr us)
  let ?ss = "sort_key srcId us"
  note p = prepareSources_sorted [OF Inr refl]
  have d: "\<forall>(i, name) \<in> set ds. name \<noteq> [] \<and> valid_utf8 name" using Inr by (simp add: checkDefinitions_ok)
  have "(\<exists>r. prepareSources None ds fs = Inr (Some r)) \<longleftrightarrow>
    \<not> has_adjacent_equal (map srcId ?ss) \<and> applyFilters fs ?ss \<noteq> None \<and> \<not> has_adjacent_equal (sort (map fst fs))"
    using assms Inr by (auto simp: prepareSources_def Let_def split: option.splits if_splits)
  also have "\<dots> \<longleftrightarrow> distinct (map fst ds) \<and> fst ` set fs \<subseteq> fst ` set ds \<and> distinct (map fst fs)"
    using p(1-3) applyFilters_Some [of ?ss fs] adjacent_filters by metis
  finally show ?thesis using d by simp
qed

lemma prepareSources_registry:
  assumes "ds \<noteq> [] \<or> fs \<noteq> []" and r: "prepareSources None ds fs = Inr (Some r)"
  shows "registry_ok r \<and> (\<forall>s. source_info r s = (case map_of ds s of None \<Rightarrow> None
        | Some name \<Rightarrow> Some (name, case map_of fs s of None \<Rightarrow> True | Some b \<Rightarrow> b)))"
proof -
  obtain us ss' where us: "checkDefinitions ds = Inr us" and na: "\<not> has_adjacent_equal (map srcId (sort_key srcId us))"
    and ap: "applyFilters fs (sort_key srcId us) = Some ss'" and dist: "distinct (map fst fs)"
    and rr: "r = rebuildSourceLookup \<lparr>sources = ss', directSourceLookup = [], directSourceBase = 0\<rparr>"
    using r assms(1) adjacent_filters [of fs] by (auto simp: prepareSources_def Let_def split: sum.splits option.splits if_splits)
  let ?ss = "sort_key srcId us"
  note p = prepareSources_sorted [OF us refl]
  have asc: "ascending srcId ?ss" by (rule p(2) [OF na])
  have ids: "map srcId ss' = map srcId ?ss" "map srcName ss' = map srcName ?ss" using applyFilters_ids [OF ap] by blast+
  have asc': "ascending srcId ss'" using asc ascending_map [OF ids(1)] by blast
  have ok: "registry_ok r" "sources r = ss'" unfolding rr using rebuild_ok asc' by simp_all
  have dd: "distinct (map fst ds)" using p(1) na by blast
  have "source_info r s = (case map_of ds s of None \<Rightarrow> None
      | Some name \<Rightarrow> Some (name, case map_of fs s of None \<Rightarrow> True | Some b \<Rightarrow> b))" for s
  proof (cases "findSourceInRegistry r s")
    case None
    then have "s \<notin> srcId ` set ss'" using findSource_None [OF ok(1)] ok(2) by simp
    moreover have "srcId ` set ss' = fst ` set ds" using p(3) arg_cong [OF ids(1), of set] by simp
    ultimately have "map_of ds s = None" by (simp add: map_of_eq_None_iff)
    with None show ?thesis by (simp add: source_info_def)
  next
    case (Some i)
    then have i: "i < length ss'" "srcId (ss' ! i) = s" using findSource_iff [OF ok(1)] ok(2) by auto
    have len: "length ss' = length ?ss" using arg_cong [OF ids(1), of length] by simp
    have at: "srcId (?ss ! i) = s" "srcName (?ss ! i) = srcName (ss' ! i)"
      using ids i len by (metis nth_map)+
    have mem: "(s, srcName (ss' ! i)) \<in> set ds" "srcEnabled (?ss ! i)"
      using p(4) [OF nth_mem, of i] at i(1) len by simp_all
    then have "map_of ds s = Some (srcName (ss' ! i))" using dd by simp
    moreover have "srcEnabled (ss' ! i) = (case map_of fs s of None \<Rightarrow> True | Some b \<Rightarrow> b)"
      using applyFilters_enabled [OF asc ap dist, of i] i(1) len at(1) mem(2) by (cases "map_of fs s") simp_all
    ultimately show ?thesis using Some ok(2) by (simp add: source_info_def)
  qed
  with ok(1) show ?thesis by blast
qed

text \<open>Changing one filter at run time changes that source's state and nothing else.\<close>

lemma setSourceFilter_known:
  assumes "registry_ok r" "source_info r s = Some (name, b0)"
  obtains r' where "setSourceFilter s b (Some r) = (Some r', successStatus)" "registry_ok r'"
    "source_info r' = (source_info r)(s \<mapsto> (name, b))"
proof -
  obtain i where f: "findSourceInRegistry r s = Some i" and nm: "srcName (sources r ! i) = name"
    using assms(2) by (auto simp: source_info_def)
  have i: "i < length (sources r)" "srcId (sources r ! i) = s" using findSource_iff [OF assms(1)] f by auto
  let ?ss = "(sources r)[i := (sources r ! i)\<lparr>srcEnabled := b\<rparr>]"
  let ?r = "r\<lparr>sources := ?ss\<rparr>"
  have ids: "map srcId ?ss = map srcId (sources r)" by (rule enable_ids)
  have idn: "srcId (?ss ! j) = srcId (sources r ! j)" if "j < length (sources r)" for j
    using arg_cong [OF ids, of "\<lambda>xs. xs ! j"] that by simp
  have dir: "directSourceIndex ?r t = directSourceIndex r t" for t by (simp add: directSourceIndex_def Let_def)
  have ok: "registry_ok ?r"
    using assms(1) idn ascending_map [OF ids] unfolding registry_ok_def dir by auto
  have find: "findSourceInRegistry ?r t = findSourceInRegistry r t" for t
  proof -
    have "findSourceInRegistry ?r t = Some j \<longleftrightarrow> findSourceInRegistry r t = Some j" for j
      unfolding findSource_iff [OF ok] findSource_iff [OF assms(1)] using idn by auto
    then show ?thesis by (metis not_None_eq)
  qed
  have "source_info ?r = (source_info r)(s \<mapsto> (name, b))"
  proof
    fix t
    show "source_info ?r t = ((source_info r)(s \<mapsto> (name, b))) t"
    proof (cases "t = s")
      case True
      then show ?thesis using f find [of s] i nm by (simp add: source_info_def)
    next
      case False
      have "?ss ! j = sources r ! j" if "findSourceInRegistry r t = Some j" for j
        using that False i findSource_iff [OF assms(1)] by (cases "j = i") auto
      with False find [of t] show ?thesis by (cases "findSourceInRegistry r t") (simp_all add: source_info_def)
    qed
  qed
  moreover have "setSourceFilter s b (Some r) = (Some ?r, successStatus)" using f by (simp add: setSourceFilter_def)
  ultimately show ?thesis using that ok by blast
qed

lemma setSourceFilter_unknown:
  "source_info r s = None \<Longrightarrow> setSourceFilter s b (Some r) = (Some r, statusOf NotFound)"
  by (simp add: setSourceFilter_def source_info_def)

lemma sourceEnabledRuntime_info:
  "sourceEnabledRuntime (Some r) s = (case source_info r s of None \<Rightarrow> True | Some (name, b) \<Rightarrow> b)"
  by (simp add: sourceEnabledRuntime_def source_info_def split: option.splits)

section \<open>Properties\<close>

text \<open>
  Preparing sources succeeds exactly when every name is non-empty well-formed UTF-8, identifiers are distinct and the
  filters name registered sources, each at most once. Looking an identifier up in the prepared registry, through the
  direct table or the binary search, then gives its definition's name and the state of its filter (enabled without
  one), and finds nothing for other identifiers.
\<close>

theorem prepareSources_correct:
  assumes "ds \<noteq> [] \<or> fs \<noteq> []"
  shows "((\<exists>r. prepareSources None ds fs = Inr (Some r)) \<longleftrightarrow>
      (\<forall>(i, name) \<in> set ds. name \<noteq> [] \<and> valid_utf8 name) \<and> distinct (map fst ds) \<and>
      fst ` set fs \<subseteq> fst ` set ds \<and> distinct (map fst fs)) \<and>
    (\<forall>r. prepareSources None ds fs = Inr (Some r) \<longrightarrow> (\<forall>s. source_info r s = (case map_of ds s of None \<Rightarrow> None
        | Some name \<Rightarrow> Some (name, case map_of fs s of None \<Rightarrow> True | Some b \<Rightarrow> b))))"
  using prepareSources_iff [OF assms] prepareSources_registry [OF assms] by blast

theorem prepareSources_correct_witness:
  "\<exists>r. prepareSources None [(7, [0x61]), (3, [0x62])] [(3, False)] = Inr (Some r) \<and>
    source_info r 3 = Some ([0x62], False) \<and> source_info r 7 = Some ([0x61], True) \<and> source_info r 4 = None"
proof -
  let ?ds = "[(7, [0x61]), (3, [0x62])] :: (SourceId \<times> byte list) list" and ?fs = "[(3, False)] :: (SourceId \<times> bool) list"
  have ne: "?ds \<noteq> [] \<or> ?fs \<noteq> []" by simp
  have "valid_utf8 [0x61]" "valid_utf8 [0x62]" by (rule valid_utf8_ascii, simp)+
  then obtain r where r: "prepareSources None ?ds ?fs = Inr (Some r)" using prepareSources_correct [OF ne] by auto
  then have "\<forall>s. source_info r s = (case map_of ?ds s of None \<Rightarrow> None
        | Some name \<Rightarrow> Some (name, case map_of ?fs s of None \<Rightarrow> True | Some b \<Rightarrow> b))" using prepareSources_correct [OF ne] by blast
  then have "source_info r 3 = Some ([0x62], False)" "source_info r 7 = Some ([0x61], True)" "source_info r 4 = None"
    by simp_all
  with r show ?thesis by blast
qed

end
