(* ===== verification/Logger_Queue.thy ===== *)
theory Logger_Queue
  imports Logger_Sources Base_Arithmetic
begin

text \<open>
  The bounded multi-producer queue of \<^verbatim>\<open>tools/logger/core/logger_queue.cpp\<close> with its worker, as a step relation over
  the shared state. Any number of producer threads and the worker interleave; every load, store and
  read-modify-write of an atomic is a step of its own, and plain accesses to a slot happen in the step of the thread that
  owns it. The interleaving is sequentially consistent. Tickets are unbounded naturals, so the model is that of a run
  of fewer than \<open>2^64\<close> records; \<open>publishedQueueDepth\<close> keeps its width, because the worker may
  decrement it before the producer's increment.
\<close>

section \<open>State\<close>

record QueueSlot =
  sequence :: nat
  skip :: bool
  slotEntry :: QueuedLogEntry

datatype EnqueueStatus = Skipped | Queued | DroppedSoft | DroppedHard | AllocationFailure

text \<open>A call of \<open>enqueueAndWakeWorker\<close>: the pending entry and \<open>countDrops\<close>.\<close>

type_synonym enqueue_call = "PendingLogEntry \<times> bool"

text \<open>
  Where a producer thread is in \<open>enqueueAndWakeWorker\<close>: the values are the locals that later code uses.
  \<open>P_Leaving\<close> is the destructor of \<open>ProducerActivity\<close>, \<open>P_LastOut\<close> its notification, \<open>P_Waking\<close> the caller's own.
\<close>

datatype producer =
  P_Idle
| P_Entered enqueue_call
| P_Admitted enqueue_call
| P_Reserving enqueue_call nat
| P_Reserved enqueue_call nat
| P_Ticket enqueue_call nat nat
| P_Owner enqueue_call nat nat
| P_Filled enqueue_call nat nat bool bool
| P_Stored enqueue_call nat nat bool bool
| P_Counted enqueue_call nat nat bool bool bool
| P_Finishing enqueue_call EnqueueStatus nat bool bool
| P_Leaving bool
| P_LastOut bool
| P_Waking

text \<open>
  Where the worker is in \<open>loggerWorker\<close>. \<open>W_Loop\<close> is about to take \<open>logMutex\<close>. \<open>WP_\<close> phases evaluate the wait predicate and \<open>WI_\<close> phases the exit condition,
  with \<open>logMutex\<close> held, as is \<open>WP_Block\<close>, the moment before the wait releases it. \<open>W_Drain n\<close> is the head of the
  loop of \<open>drainQueueBatch\<close> with \<open>n\<close> entries in the batch; the following phases are the stores after an entry was
  moved. \<open>W_Deliver n\<close> writes the batch to the sinks.
\<close>

datatype worker =
  W_Loop
| WP_Head | WP_Running | WP_Active | WP_Depth | WP_Block
| W_Waiting
| WI_Published | WI_Depth | WI_Active | WI_Running
| W_Drain nat | W_Moved nat | W_Released nat | W_Advanced nat | W_Uncounted nat
| W_Deliver nat
| W_Finished nat
| W_Exited

record LoggerQueue =
  logRing :: "QueueSlot list"
  workerBatch :: "QueuedLogEntry list"
  softQueueSize :: nat
  hardQueueSize :: nat
  queueMaxMessageLength :: nat
  releaseMessageMemory :: bool
  enqueueTicket :: nat
  dequeueTicket :: nat
  queueDepth :: nat
  publishedQueueDepth :: "64 word"
  activeProducers :: nat
  queueRunning :: bool
  workerBusy :: bool
  statsQueued :: nat
  statsDropsSoft :: nat
  statsDropsHard :: nat
  statsAllocationFailures :: nat
  statsTruncated :: nat
  peakQueueDepth :: nat
  droppedLogs :: nat
  producers :: "nat \<Rightarrow> producer"
  worker :: worker
  accepted :: "(PendingLogEntry \<times> bool) list"
  handed :: "log_record list"

text \<open>
  The last two fields are history: the entries that took a ticket, in ticket order, each with whether it was
  replaced by a skip marker, and the records given to \<open>writeLogEntry\<close>, in order.
\<close>

section \<open>Operations\<close>

abbreviation ring_index :: "LoggerQueue \<Rightarrow> nat \<Rightarrow> nat" where
  "ring_index s ticket \<equiv> ticket mod length (logRing s)"

abbreviation slot_of :: "LoggerQueue \<Rightarrow> nat \<Rightarrow> QueueSlot" where
  "slot_of s ticket \<equiv> logRing s ! ring_index s ticket"

text \<open>
  Storage. \<open>garbage\<close> stands for the indeterminate bytes of a fresh array, \<open>alloc n\<close> for the exception an allocation of
  \<open>n\<close> bytes throws, if any, and the \<open>sizeof\<close> arguments for the sizes the compiler gives the two element types.
\<close>

definition allocateMessageArena ::
    "allocator \<Rightarrow> (nat \<Rightarrow> byte) \<Rightarrow> 64 word \<Rightarrow> 64 word \<Rightarrow> exception_kind + byte list option" where
  "allocateMessageArena alloc garbage entryCount inlineMessageCapacity =
    (if entryCount = 0 \<or> inlineMessageCapacity = 0 then Inr (Some [])
     else if wouldMultiplyOverflow entryCount inlineMessageCapacity then Inr None
     else (let n = unat (entryCount * inlineMessageCapacity) in
       case alloc n of Some e \<Rightarrow> Inl e | None \<Rightarrow> Inr (Some (map garbage [0..<n]))))"

definition empty_text :: "nat \<Rightarrow> LogText" where
  "empty_text n = \<lparr>inlineText = replicate n 0, inlineSize = 0, heapActive = False, heapText = []\<rparr>"

definition default_entry :: QueuedLogEntry where
  "default_entry = \<lparr>entryLevel = Info, usesRegisteredSource = False, sourceId = 0,
    sourceText = empty_text kInlineSourceCapacity, messageText = empty_text 0\<rparr>"

definition configured_entry :: "nat \<Rightarrow> byte list \<Rightarrow> nat \<Rightarrow> QueuedLogEntry" where
  "configured_entry capacity arena index =
    default_entry\<lparr>messageText := configureInlineStorage (take capacity (drop (index * capacity) arena)) (messageText default_entry)\<rparr>"

definition prepareQueueStorage ::
    "64 word \<Rightarrow> 64 word \<Rightarrow> allocator \<Rightarrow> (nat \<Rightarrow> byte) \<Rightarrow> 64 word \<Rightarrow> 64 word \<Rightarrow> 64 word \<Rightarrow>
      (QueueSlot list \<times> QueuedLogEntry list) option" where
  "prepareQueueStorage sizeofSlot sizeofEntry alloc garbage hardLimit workerBatchSize inlineMessageCapacity =
    (if wouldMultiplyOverflow hardLimit sizeofSlot then None
     else if alloc (unat hardLimit * unat sizeofSlot) \<noteq> None then None
     else if alloc (unat workerBatchSize * unat sizeofEntry) \<noteq> None then None
     else (case allocateMessageArena alloc garbage hardLimit inlineMessageCapacity of
         Inr (Some ringArena) \<Rightarrow>
           (case allocateMessageArena alloc garbage workerBatchSize inlineMessageCapacity of
              Inr (Some batchArena) \<Rightarrow> Some
                (map (\<lambda>index. \<lparr>sequence = index, skip = False,
                   slotEntry = configured_entry (unat inlineMessageCapacity) ringArena index\<rparr>) [0..<unat hardLimit],
                 map (configured_entry (unat inlineMessageCapacity) batchArena) [0..<unat workerBatchSize])
            | _ \<Rightarrow> None)
       | _ \<Rightarrow> None))"

text \<open>\<open>clearQueueUnlocked\<close>; the history starts again with the tickets.\<close>

definition clearQueuedText :: "bool \<Rightarrow> QueuedLogEntry \<Rightarrow> QueuedLogEntry" where
  "clearQueuedText releaseHeapCapacity entry =
    entry\<lparr>usesRegisteredSource := False, sourceId := 0,
      sourceText := LogText_clear releaseHeapCapacity (sourceText entry),
      messageText := LogText_clear releaseHeapCapacity (messageText entry)\<rparr>"

definition clearQueueUnlocked :: "LoggerQueue \<Rightarrow> LoggerQueue" where
  "clearQueueUnlocked s =
    s\<lparr>logRing := map (\<lambda>index. (logRing s ! index)
        \<lparr>slotEntry := clearQueuedText (releaseMessageMemory s) (slotEntry (logRing s ! index)), skip := False, sequence := index\<rparr>)
        [0..<length (logRing s)],
      workerBatch := map (clearQueuedText (releaseMessageMemory s)) (workerBatch s),
      enqueueTicket := 0, dequeueTicket := 0, queueDepth := 0, publishedQueueDepth := 0, accepted := [], handed := []\<rparr>"

text \<open>
  The queue fields after \<open>resetRuntimeStateUnlocked\<close> with the prepared storage, with \<open>workerRunning\<close> set and the worker
  started.
\<close>

definition startedQueue :: "QueueSlot list \<Rightarrow> QueuedLogEntry list \<Rightarrow> nat \<Rightarrow> nat \<Rightarrow> bool \<Rightarrow> LoggerQueue" where
  "startedQueue ring batch softSize messageLength release =
    \<lparr>logRing = ring, workerBatch = batch, softQueueSize = softSize, hardQueueSize = length ring,
     queueMaxMessageLength = messageLength, releaseMessageMemory = release, enqueueTicket = 0, dequeueTicket = 0,
     queueDepth = 0, publishedQueueDepth = 0, activeProducers = 0, queueRunning = True, workerBusy = False,
     statsQueued = 0, statsDropsSoft = 0, statsDropsHard = 0, statsAllocationFailures = 0, statsTruncated = 0,
     peakQueueDepth = 0, droppedLogs = 0, producers = (\<lambda>_. P_Idle), worker = W_Loop, accepted = [], handed = []\<rparr>"

text \<open>
  The \<open>try\<close> block of \<open>publishReservedQueueEntry\<close> and its handler: the slot, whether the copy failed, and
  \<open>outTruncated\<close>.
\<close>

definition fillSlot :: "allocator \<Rightarrow> nat \<Rightarrow> bool \<Rightarrow> QueueSlot \<Rightarrow> PendingLogEntry \<Rightarrow> QueueSlot \<times> bool \<times> bool" where
  "fillSlot alloc maxMessageLength release slot entry =
    (case copyPendingEntryToQueueSlot alloc maxMessageLength (slotEntry slot) entry of
       (e, tr, None) \<Rightarrow> (slot\<lparr>skip := False, slotEntry := e\<rparr>, False, tr)
     | (e, tr, Some _) \<Rightarrow> (slot\<lparr>skip := True, slotEntry := clearLogEntry release e\<rparr>, True, tr))"

text \<open>
  The slot accesses of one round of \<open>drainQueueBatch\<close>: the batch, the batch count and the slot. An exception of
  \<open>moveQueuedEntry\<close> is not caught there; it is the result \<open>None\<close>.
\<close>

definition drainSlot ::
    "allocator \<Rightarrow> bool \<Rightarrow> QueuedLogEntry list \<Rightarrow> nat \<Rightarrow> QueueSlot \<Rightarrow> (QueuedLogEntry list \<times> nat \<times> QueueSlot) option" where
  "drainSlot alloc release batch n slot =
    (if skip slot then Some (batch, n, slot\<lparr>skip := False, slotEntry := clearLogEntry release (slotEntry slot)\<rparr>)
     else (case moveQueuedEntry alloc (batch ! n) (slotEntry slot) of
         (_, _, Some _) \<Rightarrow> None
       | (d, e, None) \<Rightarrow> Some (batch[n := d], Suc n, slot\<lparr>skip := False, slotEntry := clearLogEntry release e\<rparr>)))"

text \<open>\<open>updateAtomicMax\<close>, and the counters of \<open>enqueuePendingLogEntry\<close> for each outcome.\<close>

fun recordOutcome :: "enqueue_call \<Rightarrow> EnqueueStatus \<Rightarrow> nat \<Rightarrow> bool \<Rightarrow> LoggerQueue \<Rightarrow> LoggerQueue" where
  "recordOutcome (p, countDrops) Queued previousDepth truncated s =
    s\<lparr>statsQueued := statsQueued s + 1, statsTruncated := statsTruncated s + (if truncated then 1 else 0),
      peakQueueDepth := max (peakQueueDepth s) (previousDepth + 1)\<rparr>"
| "recordOutcome (p, countDrops) DroppedSoft previousDepth truncated s =
    (if countDrops then s\<lparr>droppedLogs := droppedLogs s + 1, statsDropsSoft := statsDropsSoft s + 1\<rparr> else s)"
| "recordOutcome (p, countDrops) DroppedHard previousDepth truncated s =
    (if countDrops then s\<lparr>droppedLogs := droppedLogs s + 1, statsDropsHard := statsDropsHard s + 1\<rparr> else s)"
| "recordOutcome (p, countDrops) AllocationFailure previousDepth truncated s =
    (if countDrops then s\<lparr>statsAllocationFailures := statsAllocationFailures s + 1\<rparr> else s)"
| "recordOutcome (p, countDrops) Skipped previousDepth truncated s = s"

fun holds_mutex :: "worker \<Rightarrow> bool" where
  "holds_mutex WP_Head = True"
| "holds_mutex WP_Running = True"
| "holds_mutex WP_Active = True"
| "holds_mutex WP_Depth = True"
| "holds_mutex WP_Block = True"
| "holds_mutex WI_Published = True"
| "holds_mutex WI_Depth = True"
| "holds_mutex WI_Active = True"
| "holds_mutex WI_Running = True"
| "holds_mutex _ = False"

text \<open>\<open>logCondition.notify_all()\<close>: a waiting worker takes the mutex again and evaluates the predicate.\<close>

definition notify_all :: "LoggerQueue \<Rightarrow> LoggerQueue" where
  "notify_all s = (if worker s = W_Waiting then s\<lparr>worker := WP_Head\<rparr> else s)"

abbreviation set_producer :: "nat \<Rightarrow> producer \<Rightarrow> LoggerQueue \<Rightarrow> LoggerQueue" where
  "set_producer i p s \<equiv> s\<lparr>producers := (producers s)(i := p)\<rparr>"

abbreviation set_slot :: "nat \<Rightarrow> QueueSlot \<Rightarrow> LoggerQueue \<Rightarrow> LoggerQueue" where
  "set_slot ticket slot s \<equiv> s\<lparr>logRing := (logRing s)[ring_index s ticket := slot]\<rparr>"

definition batchLimit :: "LoggerQueue \<Rightarrow> nat" where
  "batchLimit s = (if workerBatch s = [] then length (logRing s) else length (workerBatch s))"

text \<open>One round of \<open>reserveQueueDepth\<close> on a loaded depth: \<open>Queued\<close> tries the compare-exchange.\<close>

definition reserveDecision :: "nat \<Rightarrow> nat \<Rightarrow> PendingLogEntry \<Rightarrow> nat \<Rightarrow> EnqueueStatus" where
  "reserveDecision hardSize softSize entry depth =
    (if depth \<ge> hardSize then DroppedHard
     else if depth \<ge> softSize \<and> isLowPriority (pendingLevel entry) then DroppedSoft
     else Queued)"

text \<open>Steps of producer \<open>i\<close>.\<close>

inductive producer_step :: "nat \<Rightarrow> LoggerQueue \<Rightarrow> LoggerQueue \<Rightarrow> bool" for i where
  enter: "producers s i = P_Idle \<Longrightarrow> valid_utf8 (pendingMessage (fst c)) \<Longrightarrow>
    producer_step i s (set_producer i (P_Entered c) (s\<lparr>activeProducers := activeProducers s + 1\<rparr>))"
| admit: "producers s i = P_Entered c \<Longrightarrow> queueRunning s \<Longrightarrow>
    producer_step i s (set_producer i (P_Admitted c) s)"
| refuse: "producers s i = P_Entered c \<Longrightarrow> \<not> queueRunning s \<Longrightarrow>
    producer_step i s (set_producer i (P_Leaving False) s)"
| reject: "producers s i = P_Admitted c \<Longrightarrow> \<not> checkPendingEntryAcceptedUnlocked bits registry (fst c) \<Longrightarrow>
    producer_step i s (set_producer i (P_Leaving False) s)"
| load_depth: "producers s i = P_Admitted c \<Longrightarrow> checkPendingEntryAcceptedUnlocked bits registry (fst c) \<Longrightarrow>
    producer_step i s (set_producer i (P_Reserving c (queueDepth s)) s)"
| drop: "producers s i = P_Reserving c depth \<Longrightarrow>
    reserveDecision (hardQueueSize s) (softQueueSize s) (fst c) depth = status \<Longrightarrow> status \<noteq> Queued \<Longrightarrow>
    producer_step i s (set_producer i (P_Finishing c status 0 False False) s)"
| reserve: "producers s i = P_Reserving c depth \<Longrightarrow>
    reserveDecision (hardQueueSize s) (softQueueSize s) (fst c) depth = Queued \<Longrightarrow> queueDepth s = depth \<Longrightarrow>
    producer_step i s (set_producer i (P_Reserved c depth) (s\<lparr>queueDepth := depth + 1\<rparr>))"
| reserve_again: "producers s i = P_Reserving c depth \<Longrightarrow>
    reserveDecision (hardQueueSize s) (softQueueSize s) (fst c) depth = Queued \<Longrightarrow>
    producer_step i s (set_producer i (P_Reserving c (queueDepth s)) s)"
| take_ticket: "producers s i = P_Reserved c previousDepth \<Longrightarrow>
    producer_step i s (set_producer i (P_Ticket c previousDepth (enqueueTicket s))
      (s\<lparr>enqueueTicket := enqueueTicket s + 1, accepted := accepted s @ [(fst c, False)]\<rparr>))"
| slot_free: "producers s i = P_Ticket c previousDepth ticket \<Longrightarrow> sequence (slot_of s ticket) = ticket \<Longrightarrow>
    producer_step i s (set_producer i (P_Owner c previousDepth ticket) s)"
| slot_busy: "producers s i = P_Ticket c previousDepth ticket \<Longrightarrow> sequence (slot_of s ticket) \<noteq> ticket \<Longrightarrow>
    producer_step i s s"
| fill: "producers s i = P_Owner c previousDepth ticket \<Longrightarrow>
    fillSlot alloc (queueMaxMessageLength s) (releaseMessageMemory s) (slot_of s ticket) (fst c) = (slot, failed, truncated) \<Longrightarrow>
    producer_step i s (set_producer i (P_Filled c previousDepth ticket failed truncated)
      ((set_slot ticket slot s)\<lparr>accepted := (accepted s)[ticket := (fst c, failed)]\<rparr>))"
| publish: "producers s i = P_Filled c previousDepth ticket failed truncated \<Longrightarrow>
    producer_step i s (set_producer i (P_Stored c previousDepth ticket failed truncated)
      (set_slot ticket ((slot_of s ticket)\<lparr>sequence := ticket + 1\<rparr>) s))"
| count_published: "producers s i = P_Stored c previousDepth ticket failed truncated \<Longrightarrow>
    producer_step i s (set_producer i (P_Counted c previousDepth ticket failed truncated (publishedQueueDepth s = 0))
      (s\<lparr>publishedQueueDepth := publishedQueueDepth s + 1\<rparr>))"
| decide_notify: "producers s i = P_Counted c previousDepth ticket failed truncated firstPublishedSlot \<Longrightarrow>
    producer_step i s (set_producer i
      (P_Finishing c (if failed then AllocationFailure else Queued) previousDepth truncated
        (firstPublishedSlot \<or> ticket = dequeueTicket s)) s)"
| record_outcome: "producers s i = P_Finishing c status previousDepth truncated notify \<Longrightarrow>
    producer_step i s (set_producer i (P_Leaving notify) (recordOutcome c status previousDepth truncated s))"
| leave: "producers s i = P_Leaving notify \<Longrightarrow>
    producer_step i s (set_producer i
      (if activeProducers s = 1 then P_LastOut notify else if notify then P_Waking else P_Idle)
      (s\<lparr>activeProducers := activeProducers s - 1\<rparr>))"
| last_out: "producers s i = P_LastOut notify \<Longrightarrow> \<not> holds_mutex (worker s) \<Longrightarrow>
    producer_step i s (set_producer i (if notify then P_Waking else P_Idle) (notify_all s))"
| wake: "producers s i = P_Waking \<Longrightarrow> \<not> holds_mutex (worker s) \<Longrightarrow>
    producer_step i s (set_producer i P_Idle (notify_all s))"

text \<open>\<open>queueHeadIsPublished\<close>, with the worker's own ticket.\<close>

definition queueHeadIsPublished :: "LoggerQueue \<Rightarrow> bool" where
  "queueHeadIsPublished s \<longleftrightarrow> length (logRing s) \<noteq> 0 \<and> sequence (slot_of s (dequeueTicket s)) = dequeueTicket s + 1"

text \<open>
  Steps of the worker. Writing the batch (\<open>deliver\<close>) hands each of its records to \<open>writeLogEntry\<close>, in order, and clears
  the batch entries.
\<close>

inductive worker_step :: "LoggerQueue \<Rightarrow> LoggerQueue \<Rightarrow> bool" where
  lock: "worker s = W_Loop \<Longrightarrow> worker_step s (s\<lparr>worker := WP_Head\<rparr>)"
| predicate_head: "worker s = WP_Head \<Longrightarrow>
    worker_step s (s\<lparr>worker := (if queueHeadIsPublished s then WI_Published else WP_Running)\<rparr>)"
| predicate_running: "worker s = WP_Running \<Longrightarrow>
    worker_step s (s\<lparr>worker := (if queueRunning s then WP_Block else WP_Active)\<rparr>)"
| predicate_active: "worker s = WP_Active \<Longrightarrow>
    worker_step s (s\<lparr>worker := (if activeProducers s = 0 then WP_Depth else WP_Block)\<rparr>)"
| predicate_depth: "worker s = WP_Depth \<Longrightarrow>
    worker_step s (s\<lparr>worker := (if queueDepth s = 0 then WI_Published else WP_Block)\<rparr>)"
| block: "worker s = WP_Block \<Longrightarrow> worker_step s (s\<lparr>worker := W_Waiting\<rparr>)"
| spurious_wake: "worker s = W_Waiting \<Longrightarrow> worker_step s (s\<lparr>worker := WP_Head\<rparr>)"
| exit_published: "worker s = WI_Published \<Longrightarrow>
    worker_step s (if publishedQueueDepth s = 0 then s\<lparr>worker := WI_Depth\<rparr> else s\<lparr>worker := W_Drain 0, workerBusy := True\<rparr>)"
| exit_depth: "worker s = WI_Depth \<Longrightarrow>
    worker_step s (if queueDepth s = 0 then s\<lparr>worker := WI_Active\<rparr> else s\<lparr>worker := W_Drain 0, workerBusy := True\<rparr>)"
| exit_active: "worker s = WI_Active \<Longrightarrow>
    worker_step s (if activeProducers s = 0 then s\<lparr>worker := WI_Running\<rparr> else s\<lparr>worker := W_Drain 0, workerBusy := True\<rparr>)"
| exit_running: "worker s = WI_Running \<Longrightarrow>
    worker_step s (if \<not> queueRunning s then s\<lparr>worker := W_Exited\<rparr> else s\<lparr>worker := W_Drain 0, workerBusy := True\<rparr>)"
| drain_stop: "worker s = W_Drain n \<Longrightarrow> \<not> (n < batchLimit s \<and> queueHeadIsPublished s) \<Longrightarrow>
    worker_step s (s\<lparr>worker := W_Deliver n\<rparr>)"
| drain: "worker s = W_Drain n \<Longrightarrow> n < batchLimit s \<Longrightarrow> queueHeadIsPublished s \<Longrightarrow>
    drainSlot alloc (releaseMessageMemory s) (workerBatch s) n (slot_of s (dequeueTicket s)) = Some (batch, m, slot) \<Longrightarrow>
    worker_step s ((set_slot (dequeueTicket s) slot s)\<lparr>workerBatch := batch, worker := W_Moved m\<rparr>)"
| release_slot: "worker s = W_Moved n \<Longrightarrow>
    worker_step s ((set_slot (dequeueTicket s)
      ((slot_of s (dequeueTicket s))\<lparr>sequence := dequeueTicket s + length (logRing s)\<rparr>) s)\<lparr>worker := W_Released n\<rparr>)"
| advance: "worker s = W_Released n \<Longrightarrow>
    worker_step s (s\<lparr>dequeueTicket := dequeueTicket s + 1, worker := W_Advanced n\<rparr>)"
| uncount_published: "worker s = W_Advanced n \<Longrightarrow>
    worker_step s (s\<lparr>publishedQueueDepth := publishedQueueDepth s - 1, worker := W_Uncounted n\<rparr>)"
| uncount_depth: "worker s = W_Uncounted n \<Longrightarrow>
    worker_step s (s\<lparr>queueDepth := queueDepth s - 1, worker := W_Drain n\<rparr>)"
| deliver: "worker s = W_Deliver n \<Longrightarrow>
    worker_step s (s\<lparr>handed := handed s @ map record_of (take n (workerBatch s)),
      workerBatch := map (clearLogEntry (releaseMessageMemory s)) (take n (workerBatch s)) @ drop n (workerBatch s),
      worker := W_Finished n\<rparr>)"
| finish_batch: "worker s = W_Finished n \<Longrightarrow>
    worker_step s (s\<lparr>workerBusy := False, worker := W_Loop\<rparr>)"

text \<open>The first critical section of \<open>shutdownImpl\<close>, and its notification.\<close>

inductive control_step :: "LoggerQueue \<Rightarrow> LoggerQueue \<Rightarrow> bool" where
  stop: "\<not> holds_mutex (worker s) \<Longrightarrow> control_step s (s\<lparr>queueRunning := False\<rparr>)"
| notify: "control_step s (notify_all s)"

inductive queue_step :: "LoggerQueue \<Rightarrow> LoggerQueue \<Rightarrow> bool" where
  by_producer: "producer_step i s s' \<Longrightarrow> queue_step s s'"
| by_worker: "worker_step s s' \<Longrightarrow> queue_step s s'"
| by_control: "control_step s s' \<Longrightarrow> queue_step s s'"

section \<open>Invariant\<close>

text \<open>The ticket a producer holds before its slot is published, and before it is filled.\<close>

fun ticket_of :: "producer \<Rightarrow> nat option" where
  "ticket_of (P_Ticket c d t) = Some t"
| "ticket_of (P_Owner c d t) = Some t"
| "ticket_of (P_Filled c d t f tr) = Some t"
| "ticket_of _ = None"

fun empty_ticket :: "producer \<Rightarrow> nat option" where
  "empty_ticket (P_Ticket c d t) = Some t"
| "empty_ticket (P_Owner c d t) = Some t"
| "empty_ticket _ = None"

fun reserved :: "producer \<Rightarrow> bool" where
  "reserved (P_Reserved c d) = True"
| "reserved _ = False"

text \<open>Counted in \<open>activeProducers\<close>; past the check of the running bit.\<close>

fun inside :: "producer \<Rightarrow> bool" where
  "inside P_Idle = False"
| "inside (P_LastOut n) = False"
| "inside P_Waking = False"
| "inside _ = True"

fun engaged :: "producer \<Rightarrow> bool" where
  "engaged (P_Admitted c) = True"
| "engaged (P_Reserving c d) = True"
| "engaged (P_Reserved c d) = True"
| "engaged (P_Ticket c d t) = True"
| "engaged (P_Owner c d t) = True"
| "engaged (P_Filled c d t f tr) = True"
| "engaged (P_Stored c d t f tr) = True"
| "engaged (P_Counted c d t f tr first) = True"
| "engaged _ = False"

fun call_of :: "producer \<Rightarrow> enqueue_call option" where
  "call_of (P_Entered c) = Some c"
| "call_of (P_Admitted c) = Some c"
| "call_of (P_Reserving c d) = Some c"
| "call_of (P_Reserved c d) = Some c"
| "call_of (P_Ticket c d t) = Some c"
| "call_of (P_Owner c d t) = Some c"
| "call_of (P_Filled c d t f tr) = Some c"
| "call_of _ = None"

text \<open>A producer that is bound to notify the worker while the worker's ticket is \<open>t\<close>.\<close>

fun will_notify :: "nat \<Rightarrow> producer \<Rightarrow> bool" where
  "will_notify h (P_Stored c d t f tr) = (t = h)"
| "will_notify h (P_Counted c d t f tr first) = (t = h)"
| "will_notify h (P_Finishing c st d tr n) = n"
| "will_notify h (P_Leaving n) = n"
| "will_notify h (P_LastOut n) = n"
| "will_notify h P_Waking = True"
| "will_notify h _ = False"

text \<open>How far the worker is: slots released, entries consumed, depth not given back yet and given back, entries in the batch.\<close>

definition released :: "LoggerQueue \<Rightarrow> nat" where
  "released s = (case worker s of W_Released n \<Rightarrow> Suc (dequeueTicket s) | _ \<Rightarrow> dequeueTicket s)"

definition consumed :: "LoggerQueue \<Rightarrow> nat" where
  "consumed s = (case worker s of W_Moved n \<Rightarrow> Suc (dequeueTicket s) | W_Released n \<Rightarrow> Suc (dequeueTicket s) | _ \<Rightarrow> dequeueTicket s)"

fun owed :: "worker \<Rightarrow> nat" where
  "owed (W_Advanced n) = 1"
| "owed (W_Uncounted n) = 1"
| "owed _ = 0"

definition depth_done :: "LoggerQueue \<Rightarrow> nat" where
  "depth_done s = dequeueTicket s - owed (worker s)"

fun batch_count :: "worker \<Rightarrow> nat" where
  "batch_count (W_Drain n) = n"
| "batch_count (W_Moved n) = n"
| "batch_count (W_Released n) = n"
| "batch_count (W_Advanced n) = n"
| "batch_count (W_Uncounted n) = n"
| "batch_count (W_Deliver n) = n"
| "batch_count _ = 0"

fun busy_phase :: "worker \<Rightarrow> bool" where
  "busy_phase (W_Drain n) = True"
| "busy_phase (W_Moved n) = True"
| "busy_phase (W_Released n) = True"
| "busy_phase (W_Advanced n) = True"
| "busy_phase (W_Uncounted n) = True"
| "busy_phase (W_Deliver n) = True"
| "busy_phase (W_Finished n) = True"
| "busy_phase _ = False"

definition held :: "LoggerQueue \<Rightarrow> nat \<Rightarrow> bool" where
  "held s t \<longleftrightarrow> (\<exists>i. ticket_of (producers s i) = Some t)"

definition inv_shape :: "nat \<Rightarrow> LoggerQueue \<Rightarrow> bool" where
  "inv_shape cap s \<longleftrightarrow> length (logRing s) = hardQueueSize s \<and> 0 < hardQueueSize s \<and> workerBatch s \<noteq> [] \<and>
    (\<forall>slot \<in> set (logRing s). entry_ok cap (slotEntry slot)) \<and> (\<forall>e \<in> set (workerBatch s). entry_ok cap e) \<and>
    batch_count (worker s) \<le> length (workerBatch s) \<and> finite {i. producers s i \<noteq> P_Idle} \<and>
    (\<forall>i c. call_of (producers s i) = Some c \<longrightarrow> valid_utf8 (pendingMessage (fst c))) \<and>
    (workerBusy s \<longleftrightarrow> busy_phase (worker s))"

definition inv_depth :: "LoggerQueue \<Rightarrow> bool" where
  "inv_depth s \<longleftrightarrow> queueDepth s + depth_done s = card {i. reserved (producers s i)} + enqueueTicket s \<and>
    queueDepth s \<le> hardQueueSize s \<and> owed (worker s) \<le> dequeueTicket s \<and>
    activeProducers s = card {i. inside (producers s i)}"

definition inv_tickets :: "LoggerQueue \<Rightarrow> bool" where
  "inv_tickets s \<longleftrightarrow> consumed s \<le> enqueueTicket s \<and> length (accepted s) = enqueueTicket s \<and>
    (\<forall>i t. ticket_of (producers s i) = Some t \<longrightarrow> consumed s \<le> t \<and> t < enqueueTicket s) \<and>
    (\<forall>i j t. ticket_of (producers s i) = Some t \<longrightarrow> ticket_of (producers s j) = Some t \<longrightarrow> i = j)"

definition inv_slots :: "LoggerQueue \<Rightarrow> bool" where
  "inv_slots s \<longleftrightarrow> (\<forall>t. released s \<le> t \<longrightarrow> t < released s + length (logRing s) \<longrightarrow>
    sequence (slot_of s t) = (if t < enqueueTicket s \<and> \<not> held s t then Suc t else t))"

definition inv_contents :: "LoggerQueue \<Rightarrow> bool" where
  "inv_contents s \<longleftrightarrow>
    (\<forall>t. consumed s \<le> t \<longrightarrow> t < enqueueTicket s \<longrightarrow> (\<forall>i. empty_ticket (producers s i) \<noteq> Some t) \<longrightarrow>
      skip (slot_of s t) = snd (accepted s ! t) \<and>
      (\<not> skip (slot_of s t) \<longrightarrow> record_of (slotEntry (slot_of s t)) = pending_record (queueMaxMessageLength s) (fst (accepted s ! t)))) \<and>
    (\<forall>i c t. call_of (producers s i) = Some c \<longrightarrow> ticket_of (producers s i) = Some t \<longrightarrow> fst (accepted s ! t) = fst c)"

text \<open>The records of the first \<open>n\<close> tickets that were not replaced by a skip marker, in ticket order.\<close>

definition records_upto :: "nat \<Rightarrow> LoggerQueue \<Rightarrow> log_record list" where
  "records_upto n s = map (pending_record (queueMaxMessageLength s) \<circ> fst) (filter (\<lambda>a. \<not> snd a) (take n (accepted s)))"

definition inv_order :: "LoggerQueue \<Rightarrow> bool" where
  "inv_order s \<longleftrightarrow> handed s @ map record_of (take (batch_count (worker s)) (workerBatch s)) = records_upto (consumed s) s"

definition inv_wake :: "LoggerQueue \<Rightarrow> bool" where
  "inv_wake s \<longleftrightarrow> worker s \<in> {WP_Running, WP_Active, WP_Depth, WP_Block, W_Waiting} \<longrightarrow> queueHeadIsPublished s \<longrightarrow>
    (\<exists>i. will_notify (dequeueTicket s) (producers s i))"

definition quiet :: "LoggerQueue \<Rightarrow> bool" where
  "quiet s \<longleftrightarrow> \<not> queueRunning s \<and> (\<forall>i. \<not> engaged (producers s i))"

definition inv_exit :: "LoggerQueue \<Rightarrow> bool" where
  "inv_exit s \<longleftrightarrow> (worker s \<in> {WP_Active} \<longrightarrow> \<not> queueRunning s) \<and> (worker s = WP_Depth \<longrightarrow> quiet s) \<and>
    (worker s \<in> {WI_Published, WI_Depth} \<longrightarrow> queueHeadIsPublished s \<or> quiet s \<and> queueDepth s = 0) \<and>
    (worker s \<in> {WI_Active, WI_Running, W_Exited} \<longrightarrow> quiet s \<and> queueDepth s = 0)"

definition queue_inv :: "nat \<Rightarrow> LoggerQueue \<Rightarrow> bool" where
  "queue_inv cap s \<longleftrightarrow> inv_shape cap s \<and> inv_depth s \<and> inv_tickets s \<and> inv_slots s \<and> inv_contents s \<and> inv_order s \<and>
    inv_wake s \<and> inv_exit s"

end
