(* ===== verification/Logger_Queue_Producer.thy ===== *)
theory Logger_Queue_Producer
  imports Logger_Queue
begin

text \<open>
  Every step of a producer keeps the invariant of \<open>Logger_Queue\<close>, one lemma per part of the invariant.
\<close>

lemmas queue_inv_parts = queue_inv_def inv_shape_def inv_depth_def inv_tickets_def inv_slots_def inv_contents_def

section \<open>Helpers\<close>

lemma card_update:
  assumes "finite {j. P (f j)}"
  shows "card {j. P ((f(i := p)) j)} + (if P (f i) then 1 else 0) = card {j. P (f j)} + (if P p then 1 else 0)"
proof -
  let ?A = "{j. P (f j)} - {i}"
  have "{j. P ((f(i := p)) j)} = (if P p then insert i ?A else ?A)" by auto
  then have "card {j. P ((f(i := p)) j)} = card ?A + (if P p then 1 else 0)"
    using assms by (simp only:) (simp del: insert_Diff_single add: card_insert_disjoint)
  moreover have "card ?A + (if P (f i) then 1 else 0) = card {j. P (f j)}"
    using assms card_Suc_Diff1 [of "{j. P (f j)}" i] by (cases "P (f i)") auto
  ultimately show ?thesis by simp
qed

lemma mod_window:
  assumes "a \<le> s" "s < a + n" "a \<le> t" "t < a + n" "s mod n = t mod (n :: nat)"
  shows "s = t"
proof -
  have le: "s = t" if "s \<le> t" "t < s + n" "s mod n = t mod n" for s t
  proof -
    have "n dvd t - s" using that(1,3) mod_eq_dvd_iff_nat [of s t n] by simp
    moreover have "t - s < n" using that(1,2) by simp
    ultimately have "t - s = 0" using nat_dvd_not_less [of "t - s" n] by auto
    with that(1) show ?thesis by simp
  qed
  show ?thesis
  proof (cases "s \<le> t")
    case True
    show ?thesis using assms(1,4) by (intro le [OF True _ assms(5)]) linarith
  next
    case False
    then have "t \<le> s" "s < t + n" using assms(2,3) by linarith+
    from le [OF this assms(5) [symmetric]] show ?thesis by simp
  qed
qed

lemma finite_phase:
  assumes "finite {i. producers s i \<noteq> P_Idle}" "\<not> P P_Idle"
  shows "finite {i. P (producers s i)}"
  using assms(1) by (rule rev_finite_subset) (use assms(2) in auto)

lemma fillSlot_spec:
  assumes "fillSlot alloc m r slot p = (slot', failed, tr)" "entry_ok cap (slotEntry slot)"
  shows "sequence slot' = sequence slot" "skip slot' = failed" "entry_ok cap (slotEntry slot')"
    "valid_utf8 (pendingMessage p) \<Longrightarrow> \<not> failed \<Longrightarrow> record_of (slotEntry slot') = pending_record m p"
  using assms copyPendingEntry_ok [of alloc m "slotEntry slot" p _ _ _ cap] copyPendingEntry_stores [of alloc m "slotEntry slot" p _ _ cap]
  by (auto simp: fillSlot_def split: prod.splits option.splits)

lemma drainSlot_spec:
  assumes "drainSlot alloc r batch n slot = Some (batch', m, slot')" "n < length batch"
    "\<forall>e \<in> set batch. entry_ok cap e" "entry_ok cap (slotEntry slot)"
  shows "sequence slot' = sequence slot" "length batch' = length batch" "m = (if skip slot then n else Suc n)"
    "\<forall>e \<in> set batch'. entry_ok cap e" "entry_ok cap (slotEntry slot')"
    "map record_of (take m batch') = map record_of (take n batch) @ (if skip slot then [] else [record_of (slotEntry slot)])"
proof -
  have b: "entry_ok cap (batch ! n)" using assms(2,3) by simp
  obtain d e where mv: "moveQueuedEntry alloc (batch ! n) (slotEntry slot) = (d, e, None)" "record_of d = record_of (slotEntry slot)"
    "entry_ok cap d" "entry_ok cap e"
    using moveQueuedEntry_total [OF b assms(4)] by blast
  show "sequence slot' = sequence slot" "length batch' = length batch" "m = (if skip slot then n else Suc n)"
    "entry_ok cap (slotEntry slot')"
    using assms mv by (auto simp: drainSlot_def split: if_splits)
  show "\<forall>e \<in> set batch'. entry_ok cap e"
    using assms mv by (auto simp: drainSlot_def split: if_splits dest!: set_update_subset_insert [THEN subsetD])
  show "map record_of (take m batch') = map record_of (take n batch) @ (if skip slot then [] else [record_of (slotEntry slot)])"
    using assms mv by (auto simp: drainSlot_def take_Suc_conv_app_nth split: if_splits)
qed

lemma drainSlot_total:
  assumes "n < length batch" "\<forall>e \<in> set batch. entry_ok cap e" "entry_ok cap (slotEntry slot)"
  shows "drainSlot alloc r batch n slot \<noteq> None"
proof -
  have "entry_ok cap (batch ! n)" using assms(1,2) by simp
  from moveQueuedEntry_total [OF this assms(3), of alloc] show ?thesis by (auto simp: drainSlot_def)
qed

section \<open>Producer steps\<close>

lemma recordOutcome_frame [simp]:
  "logRing (recordOutcome c st d tr s) = logRing s" "workerBatch (recordOutcome c st d tr s) = workerBatch s"
  "hardQueueSize (recordOutcome c st d tr s) = hardQueueSize s" "queueMaxMessageLength (recordOutcome c st d tr s) = queueMaxMessageLength s"
  "enqueueTicket (recordOutcome c st d tr s) = enqueueTicket s" "dequeueTicket (recordOutcome c st d tr s) = dequeueTicket s"
  "queueDepth (recordOutcome c st d tr s) = queueDepth s" "publishedQueueDepth (recordOutcome c st d tr s) = publishedQueueDepth s"
  "activeProducers (recordOutcome c st d tr s) = activeProducers s" "queueRunning (recordOutcome c st d tr s) = queueRunning s"
  "workerBusy (recordOutcome c st d tr s) = workerBusy s" "producers (recordOutcome c st d tr s) = producers s"
  "worker (recordOutcome c st d tr s) = worker s" "accepted (recordOutcome c st d tr s) = accepted s"
  "handed (recordOutcome c st d tr s) = handed s"
  by (cases c; cases st; simp)+

lemma notify_all_frame [simp]:
  "logRing (notify_all s) = logRing s" "workerBatch (notify_all s) = workerBatch s"
  "hardQueueSize (notify_all s) = hardQueueSize s" "queueMaxMessageLength (notify_all s) = queueMaxMessageLength s"
  "enqueueTicket (notify_all s) = enqueueTicket s" "dequeueTicket (notify_all s) = dequeueTicket s"
  "queueDepth (notify_all s) = queueDepth s" "publishedQueueDepth (notify_all s) = publishedQueueDepth s"
  "activeProducers (notify_all s) = activeProducers s" "queueRunning (notify_all s) = queueRunning s"
  "workerBusy (notify_all s) = workerBusy s" "producers (notify_all s) = producers s"
  "accepted (notify_all s) = accepted s" "handed (notify_all s) = handed s"
  "worker (notify_all s) = (if worker s = W_Waiting then WP_Head else worker s)"
  by (simp_all add: notify_all_def)

lemma worker_frame:
  assumes "worker s' = worker s \<or> worker s = W_Waiting \<and> worker s' = WP_Head" "dequeueTicket s' = dequeueTicket s"
  shows "released s' = released s" "consumed s' = consumed s" "depth_done s' = depth_done s"
    "batch_count (worker s') = batch_count (worker s)" "busy_phase (worker s') = busy_phase (worker s)"
    "owed (worker s') = owed (worker s)"
proof -
  consider (same) "worker s' = worker s" | (woken) "worker s = W_Waiting" "worker s' = WP_Head" using assms(1) by blast
  then have "released s' = released s \<and> consumed s' = consumed s \<and> depth_done s' = depth_done s \<and>
    batch_count (worker s') = batch_count (worker s) \<and> busy_phase (worker s') = busy_phase (worker s) \<and>
    owed (worker s') = owed (worker s)"
  proof cases
    case same
    show ?thesis unfolding released_def consumed_def depth_done_def same assms(2) by (intro conjI) (rule refl)+
  next
    case woken
    show ?thesis unfolding released_def consumed_def depth_done_def woken assms(2) by simp
  qed
  then show "released s' = released s" "consumed s' = consumed s" "depth_done s' = depth_done s"
    "batch_count (worker s') = batch_count (worker s)" "busy_phase (worker s') = busy_phase (worker s)"
    "owed (worker s') = owed (worker s)" by blast+
qed

lemma producer_worker:
  assumes "producer_step i s s'"
  shows "worker s' = worker s \<or> worker s = W_Waiting \<and> worker s' = WP_Head" "dequeueTicket s' = dequeueTicket s"
    "workerBatch s' = workerBatch s" "handed s' = handed s" "hardQueueSize s' = hardQueueSize s"
    "length (logRing s') = length (logRing s)" "workerBusy s' = workerBusy s" "queueRunning s' = queueRunning s"
    "queueMaxMessageLength s' = queueMaxMessageLength s"
  using assms by (cases; simp)+

lemma producer_local:
  assumes "producer_step i s s'"
  obtains p where "producers s' = (producers s)(i := p)"
  using assms
proof cases
  case (slot_busy c d t)
  show ?thesis by (rule that [of "producers s i"]) (simp only: slot_busy(1) fun_upd_triv)
qed (rule that; simp; fail)+

lemmas producer_frame = worker_frame [OF producer_worker(1,2)]

lemma producer_finite:
  assumes "producer_step i s s'" "finite {j. producers s j \<noteq> P_Idle}"
  shows "finite {j. producers s' j \<noteq> P_Idle}"
proof -
  obtain p where "producers s' = (producers s)(i := p)" by (rule producer_local [OF assms(1)])
  then have "{j. producers s' j \<noteq> P_Idle} \<subseteq> insert i {j. producers s j \<noteq> P_Idle}" by auto
  with assms(2) show ?thesis using finite_subset by blast
qed

lemma producer_calls:
  assumes "producer_step i s s'" "\<forall>j c. call_of (producers s j) = Some c \<longrightarrow> valid_utf8 (pendingMessage (fst c))"
  shows "\<forall>j c. call_of (producers s' j) = Some c \<longrightarrow> valid_utf8 (pendingMessage (fst c))"
  using assms(1)
proof cases
  case (enter c)
  with assms(2) show ?thesis by (cases c) auto
qed (use assms(2) [rule_format, of i] assms(2) in \<open>auto split: if_splits\<close>)

lemma producer_entries:
  assumes "producer_step i s s'" "\<forall>slot \<in> set (logRing s). entry_ok cap (slotEntry slot)" "logRing s \<noteq> []"
  shows "\<forall>slot \<in> set (logRing s'). entry_ok cap (slotEntry slot)"
proof -
  have upd: "\<forall>slot \<in> set ((logRing s)[k := x]). entry_ok cap (slotEntry slot)" if "entry_ok cap (slotEntry x)" for k x
    using assms(2) that by (auto dest!: set_update_subset_insert [THEN subsetD])
  have nth: "entry_ok cap (slotEntry (slot_of s t))" for t using assms(2,3) by simp
  from assms(1) show ?thesis
  proof cases
    case (fill c d t alloc slot f tr)
    from fillSlot_spec(3) [OF fill(3) nth] show ?thesis using fill(1) upd by simp
  next
    case (publish c d t f tr)
    then show ?thesis using upd [of "(slot_of s t)\<lparr>sequence := t + 1\<rparr>"] nth [of t] by simp
  qed (use assms(2) in \<open>simp_all only: select_convs recordOutcome_frame notify_all_frame, simp_all\<close>)
qed

lemma inv_shape_producer:
  assumes "producer_step i s s'" "queue_inv cap s"
  shows "inv_shape cap s'"
proof -
  have sh: "inv_shape cap s" using assms(2) by (simp add: queue_inv_def)
  then have ne: "logRing s \<noteq> []" by (auto simp: inv_shape_def)
  show ?thesis
    using sh producer_worker [OF assms(1)] producer_frame [OF assms(1) assms(1)] producer_finite [OF assms(1)]
      producer_calls [OF assms(1)] producer_entries [OF assms(1) _ ne, of cap]
    by (simp add: inv_shape_def)
qed

lemma inv_depth_producer:
  assumes "producer_step i s s'" "queue_inv cap s"
  shows "inv_depth s'"
proof -
  have fin: "finite {j. producers s j \<noteq> P_Idle}" and dep: "inv_depth s" using assms(2) by (simp_all add: queue_inv_def inv_shape_def)
  note finR = finite_phase [OF fin, of reserved, simplified] and finI = finite_phase [OF fin, of inside, simplified]
  have R: "card {j. reserved (((producers s)(i := p)) j)} + (if reserved (producers s i) then 1 else 0) =
      card {j. reserved (producers s j)} + (if reserved p then 1 else 0)" for p
    using finR by (rule card_update [of reserved "producers s"])
  have A: "card {j. inside (((producers s)(i := p)) j)} + (if inside (producers s i) then 1 else 0) =
      card {j. inside (producers s j)} + (if inside p then 1 else 0)" for p
    using finI by (rule card_update [of inside "producers s"])
  have Rs: "reserved p = reserved (producers s i) \<Longrightarrow>
      card {j. reserved (((producers s)(i := p)) j)} = card {j. reserved (producers s j)}" for p using R [of p] by simp
  have As: "inside p = inside (producers s i) \<Longrightarrow>
      card {j. inside (((producers s)(i := p)) j)} = card {j. inside (producers s j)}" for p using A [of p] by simp
  have w: "depth_done s' = depth_done s" "dequeueTicket s' = dequeueTicket s" "hardQueueSize s' = hardQueueSize s"
    "owed (worker s') = owed (worker s)"
    using producer_frame(3,6) [OF assms(1,1)] producer_worker [OF assms(1)] by auto
  obtain p where p: "producers s' = (producers s)(i := p)" by (rule producer_local [OF assms(1)])
  have "queueDepth s' + card {j. reserved (producers s j)} + enqueueTicket s =
      queueDepth s + card {j. reserved (producers s' j)} + enqueueTicket s' \<and> queueDepth s' \<le> hardQueueSize s"
    using assms(1)
  proof cases
    case (reserve c d)
    then have "d < hardQueueSize s" by (simp add: reserveDecision_def split: if_splits)
    with reserve R [of "P_Reserved c d"] dep show ?thesis by (simp del: fun_upd_apply add: inv_depth_def)
  next
    case (take_ticket c d)
    with R [of "P_Ticket c d (enqueueTicket s)"] dep show ?thesis by (simp del: fun_upd_apply add: inv_depth_def)
  next
    case slot_busy
    with dep show ?thesis by (simp add: inv_depth_def)
  qed (use dep in \<open>simp_all del: fun_upd_apply add: inv_depth_def Rs\<close>)
  moreover have "activeProducers s' + card {j. inside (producers s j)} = activeProducers s + card {j. inside (producers s' j)}"
    using assms(1)
  proof cases
    case (enter c)
    with A [of "P_Entered c"] show ?thesis by (simp del: fun_upd_apply)
  next
    case (leave n)
    have "0 < card {j. inside (producers s j)}" using leave(2) finI by (auto simp: card_gt_0_iff intro!: exI [of _ i])
    let ?q = "if activeProducers s = 1 then P_LastOut n else if n then P_Waking else P_Idle"
    have q: "producers s' = (producers s)(i := ?q)" "activeProducers s' = activeProducers s - 1" using leave(1) by simp_all
    have "\<not> inside ?q" by simp
    then have "Suc (card {j. inside (producers s' j)}) = card {j. inside (producers s j)}" using A [of ?q] leave(2) unfolding q by simp
    with q(2) dep show ?thesis by (simp add: inv_depth_def)
  qed (simp_all del: fun_upd_apply add: As)
  ultimately show ?thesis using dep w by (simp add: inv_depth_def)
qed

text \<open>The tickets that are held, before and after a step.\<close>

lemma held_same:
  assumes "producers s' = (producers s)(i := p)" "ticket_of p = ticket_of (producers s i)"
  shows "held s' t \<longleftrightarrow> held s t"
  using assms by (auto simp: held_def)

lemma inv_tickets_producer:
  assumes "producer_step i s s'" "queue_inv cap s"
  shows "inv_tickets s'"
proof -
  have tk: "inv_tickets s" using assms(2) by (simp add: queue_inv_def)
  have w: "consumed s' = consumed s" using producer_frame(2) [OF assms(1,1)] .
  obtain p where p: "producers s' = (producers s)(i := p)" by (rule producer_local [OF assms(1)])
  have same: ?thesis if "ticket_of (producers s' i) = None \<or> ticket_of (producers s' i) = ticket_of (producers s i)"
    "enqueueTicket s' = enqueueTicket s" "length (accepted s') = length (accepted s)"
    using tk that w p by (auto simp: inv_tickets_def) (metis+)
  from assms(1) show ?thesis
  proof cases
    case (take_ticket c d)
    have eq: "producers s' = (producers s)(i := P_Ticket c d (enqueueTicket s))" "enqueueTicket s' = Suc (enqueueTicket s)"
      "length (accepted s') = Suc (length (accepted s))" using take_ticket(1) by simp_all
    have old: "t < enqueueTicket s" if "ticket_of (producers s j) = Some t" for j t using tk that by (auto simp: inv_tickets_def)
    show ?thesis using tk unfolding inv_tickets_def w eq by (auto dest: old less_imp_neq)
  next
    case (slot_busy c d t)
    with tk show ?thesis by simp
  qed (rule same; simp)+
qed

lemma released_bounds: "depth_done s \<le> released s" "released s \<le> consumed s" "consumed s \<le> Suc (released s)" "dequeueTicket s \<le> released s"
  by (auto simp: depth_done_def released_def consumed_def split: worker.splits)

lemma ring_window:
  assumes "queue_inv cap s"
  shows "enqueueTicket s \<le> released s + length (logRing s)"
  using assms released_bounds(1) [of s] by (auto simp: queue_inv_def inv_depth_def inv_shape_def)

lemma ticket_range:
  assumes "queue_inv cap s" "ticket_of (producers s i) = Some t"
  shows "released s \<le> t" "consumed s \<le> t" "t < enqueueTicket s" "t < released s + length (logRing s)" "held s t"
  using assms ring_window [OF assms(1)] released_bounds(2) [of s]
  by (auto simp: queue_inv_def inv_tickets_def held_def intro: order.trans dest: less_le_trans)

lemma slot_update:
  assumes "released s \<le> t" "t < released s + length (logRing s)" "released s \<le> u" "u < released s + length (logRing s)"
  shows "(logRing s)[ring_index s t := x] ! ring_index s u = (if u = t then x else slot_of s u)"
proof -
  have "ring_index s u \<noteq> ring_index s t" if "u \<noteq> t" using mod_window [OF assms(3,4,1,2)] that by blast
  moreover have "0 < length (logRing s)" using assms(1,2) by linarith
  ultimately show ?thesis by (cases "u = t") (simp_all add: nth_list_update_neq)
qed

text \<open>Holding a ticket, with one producer singled out.\<close>

lemma held_split: "held s t \<longleftrightarrow> ticket_of (producers s i) = Some t \<or> (\<exists>j. j \<noteq> i \<and> ticket_of (producers s j) = Some t)"
  unfolding held_def by metis

lemma held_upd:
  "producers s' = (producers s)(i := p) \<Longrightarrow>
    held s' t \<longleftrightarrow> ticket_of p = Some t \<or> (\<exists>j. j \<noteq> i \<and> ticket_of (producers s j) = Some t)"
  unfolding held_split [of s' t i] by auto

lemma inv_slots_producer:
  assumes "producer_step i s s'" "queue_inv cap s"
  shows "inv_slots s'"
proof -
  have sl: "inv_slots s" and tk: "inv_tickets s" using assms(2) by (simp_all add: queue_inv_def)
  have w: "released s' = released s" "length (logRing s') = length (logRing s)"
    using producer_frame(1) [OF assms(1,1)] producer_worker(6) [OF assms(1)] by auto
  obtain p where p: "producers s' = (producers s)(i := p)" by (rule producer_local [OF assms(1)])
  have same: ?thesis if "ticket_of (producers s' i) = ticket_of (producers s i)" "enqueueTicket s' = enqueueTicket s"
    "\<And>t. released s \<le> t \<Longrightarrow> t < released s + length (logRing s) \<Longrightarrow> sequence (slot_of s' t) = sequence (slot_of s t)"
    using sl that w p held_same [OF p] by (simp add: inv_slots_def)
  from assms(1) show ?thesis
  proof cases
    case (take_ticket c d)
    have h: "held s' t \<longleftrightarrow> held s t \<or> t = enqueueTicket s" for t
      using take_ticket(1,2) held_upd [of s' s i "P_Ticket c d (enqueueTicket s)" t] held_split [of s t i] by auto
    show ?thesis using sl w take_ticket(1) unfolding inv_slots_def h by (auto simp: less_Suc_eq)
  next
    case (fill c d t alloc slot f tr)
    have t: "ticket_of (producers s i) = Some t" using fill(2) by simp
    have "entry_ok cap (slotEntry (slot_of s t))"
      using assms(2) by (simp add: queue_inv_def inv_shape_def)
    from fillSlot_spec(1) [OF fill(3) this] show ?thesis
      using fill(1) t slot_update [OF ticket_range(1,4) [OF assms(2) t]] by (intro same) simp_all
  next
    case (publish c d t f tr)
    have t: "ticket_of (producers s i) = Some t" using publish(2) by simp
    note r = ticket_range [OF assms(2) t]
    have h: "held s' u \<longleftrightarrow> held s u \<and> u \<noteq> t" for u
    proof -
      have "ticket_of (producers s j) \<noteq> Some t" if "j \<noteq> i" for j using tk t that by (auto simp: inv_tickets_def)
      then show ?thesis
        using publish(1) t held_upd [of s' s i "P_Stored c d t f tr" u] held_split [of s u i] by auto
    qed
    show ?thesis
      unfolding inv_slots_def
    proof (intro allI impI)
      fix u assume u: "released s' \<le> u" "u < released s' + length (logRing s')"
      have "slot_of s' u = (if u = t then (slot_of s t)\<lparr>sequence := t + 1\<rparr> else slot_of s u)"
        using slot_update [OF r(1,4)] u w publish(1) by simp
      then show "sequence (slot_of s' u) = (if u < enqueueTicket s' \<and> \<not> held s' u then Suc u else u)"
        using sl u w h r(3) publish(1) by (simp add: inv_slots_def)
    qed
  next
    case (slot_busy c d t)
    with sl show ?thesis by simp
  qed (rule same; simp)+
qed

lemma inv_contentsD:
  assumes "inv_contents s"
  shows "consumed s \<le> t \<Longrightarrow> t < enqueueTicket s \<Longrightarrow> (\<And>i. empty_ticket (producers s i) \<noteq> Some t) \<Longrightarrow>
      skip (slot_of s t) = snd (accepted s ! t)"
    "consumed s \<le> t \<Longrightarrow> t < enqueueTicket s \<Longrightarrow> (\<And>i. empty_ticket (producers s i) \<noteq> Some t) \<Longrightarrow> \<not> skip (slot_of s t) \<Longrightarrow>
      record_of (slotEntry (slot_of s t)) = pending_record (queueMaxMessageLength s) (fst (accepted s ! t))"
    "call_of (producers s i) = Some c \<Longrightarrow> ticket_of (producers s i) = Some t \<Longrightarrow> fst (accepted s ! t) = fst c"
  using assms unfolding inv_contents_def by blast+

lemma inv_contentsI:
  assumes "\<And>t. consumed s \<le> t \<Longrightarrow> t < enqueueTicket s \<Longrightarrow> (\<And>i. empty_ticket (producers s i) \<noteq> Some t) \<Longrightarrow>
      skip (slot_of s t) = snd (accepted s ! t) \<and> (\<not> skip (slot_of s t) \<longrightarrow>
        record_of (slotEntry (slot_of s t)) = pending_record (queueMaxMessageLength s) (fst (accepted s ! t)))"
    and "\<And>i c t. call_of (producers s i) = Some c \<Longrightarrow> ticket_of (producers s i) = Some t \<Longrightarrow> fst (accepted s ! t) = fst c"
  shows "inv_contents s"
  using assms unfolding inv_contents_def by blast

lemma inv_contents_same:
  assumes "queue_inv cap s" and p: "producers s' = (producers s)(i := p)"
    and w: "consumed s' = consumed s" "length (logRing s') = length (logRing s)" "queueMaxMessageLength s' = queueMaxMessageLength s"
    and e: "empty_ticket p = empty_ticket (producers s i)"
    and c: "ticket_of p = None \<or> ticket_of p = ticket_of (producers s i) \<and> call_of p = call_of (producers s i)"
    and q: "enqueueTicket s' = enqueueTicket s" "accepted s' = accepted s"
    and slots: "\<And>t. released s \<le> t \<Longrightarrow> t < released s + length (logRing s) \<Longrightarrow>
        skip (slot_of s' t) = skip (slot_of s t) \<and> slotEntry (slot_of s' t) = slotEntry (slot_of s t)"
  shows "inv_contents s'"
proof (rule inv_contentsI)
  have ct: "inv_contents s" using assms(1) by (simp add: queue_inv_def)
  note D = inv_contentsD [OF ct]
  fix j c t
  assume "call_of (producers s' j) = Some c" "ticket_of (producers s' j) = Some t"
  then show "fst (accepted s' ! t) = fst c"
    using D(3) [of j c t] D(3) [of i c t] c p q(2) by (cases "j = i") auto
next
  have ct: "inv_contents s" using assms(1) by (simp add: queue_inv_def)
  fix t
  assume t: "consumed s' \<le> t" "t < enqueueTicket s'" "\<And>j. empty_ticket (producers s' j) \<noteq> Some t"
  then have r: "released s \<le> t" "t < released s + length (logRing s)"
    using ring_window [OF assms(1)] released_bounds(2) [of s] w(1) q(1) by linarith+
  have "empty_ticket (producers s j) \<noteq> Some t" for j using t(3) [of j] e p by (cases "j = i") auto
  then show "skip (slot_of s' t) = snd (accepted s' ! t) \<and> (\<not> skip (slot_of s' t) \<longrightarrow>
        record_of (slotEntry (slot_of s' t)) = pending_record (queueMaxMessageLength s') (fst (accepted s' ! t)))"
    using inv_contentsD(1,2) [OF ct, of t] t(1,2) slots [OF r] w q by simp
qed

lemma inv_contents_producer:
  assumes "producer_step i s s'" "queue_inv cap s"
  shows "inv_contents s'"
proof -
  have ct: "inv_contents s" and tk: "inv_tickets s" and len: "length (accepted s) = enqueueTicket s"
    using assms(2) by (simp_all add: queue_inv_def inv_tickets_def)
  have utf: "\<And>c. call_of (producers s i) = Some c \<Longrightarrow> valid_utf8 (pendingMessage (fst c))"
    using assms(2) unfolding queue_inv_def inv_shape_def by blast
  note D = inv_contentsD [OF ct]
  have w: "consumed s' = consumed s" "length (logRing s') = length (logRing s)" "queueMaxMessageLength s' = queueMaxMessageLength s"
    using producer_frame(2) [OF assms(1,1)] producer_worker(6,9) [OF assms(1)] by auto
  obtain p where p: "producers s' = (producers s)(i := p)" by (rule producer_local [OF assms(1)])
  then have pi: "p = producers s' i" by simp
  note same = inv_contents_same [OF assms(2) p w, unfolded pi]
  from assms(1) show ?thesis
  proof cases
    case (take_ticket c d)
    show ?thesis
    proof (rule inv_contentsI)
      fix j c' t
      assume j: "call_of (producers s' j) = Some c'" "ticket_of (producers s' j) = Some t"
      show "fst (accepted s' ! t) = fst c'"
      proof (cases "j = i")
        case True
        then show ?thesis using j take_ticket(1) len by (simp add: nth_append)
      next
        case False
        then have "t < enqueueTicket s" using j ticket_range(3) [OF assms(2), of j t] take_ticket(1) by simp
        then show ?thesis using D(3) [of j c' t] j False take_ticket(1) len by (simp add: nth_append)
      qed
    next
      fix t
      assume t: "consumed s' \<le> t" "t < enqueueTicket s'" "\<And>j. empty_ticket (producers s' j) \<noteq> Some t"
      have ne: "t \<noteq> enqueueTicket s" using t(3) [of i] take_ticket(1) by simp
      have "empty_ticket (producers s j) \<noteq> Some t" for j using t(3) [of j] take_ticket(1,2) by (cases "j = i") auto
      then show "skip (slot_of s' t) = snd (accepted s' ! t) \<and> (\<not> skip (slot_of s' t) \<longrightarrow>
          record_of (slotEntry (slot_of s' t)) = pending_record (queueMaxMessageLength s') (fst (accepted s' ! t)))"
        using D(1,2) [of t] t(1,2) ne w(1) take_ticket(1) len by (simp add: nth_append less_Suc_eq)
    qed
  next
    case (fill c d t alloc slot f tr)
    have ti: "ticket_of (producers s i) = Some t" and ci: "call_of (producers s i) = Some c" using fill(2) by simp_all
    note r = ticket_range [OF assms(2) ti]
    have "entry_ok cap (slotEntry (slot_of s t))" using assms(2) by (simp add: queue_inv_def inv_shape_def)
    note F = fillSlot_spec [OF fill(3) this]
    show ?thesis
    proof (rule inv_contentsI)
      fix j c' u
      assume j: "call_of (producers s' j) = Some c'" "ticket_of (producers s' j) = Some u"
      show "fst (accepted s' ! u) = fst c'"
      proof (cases "j = i")
        case True
        then show ?thesis using j fill(1) len r(3) by simp
      next
        case False
        then have "u \<noteq> t" using j fill(1) tk ti by (auto simp: inv_tickets_def)
        then show ?thesis using D(3) [of j c' u] j False fill(1) by simp
      qed
    next
      fix u
      assume u: "consumed s' \<le> u" "u < enqueueTicket s'" "\<And>j. empty_ticket (producers s' j) \<noteq> Some u"
      have ur: "released s \<le> u" "u < released s + length (logRing s)"
        using u ring_window [OF assms(2)] released_bounds(2) [of s] w(1) fill(1) by simp_all
      have slot: "slot_of s' u = (if u = t then slot else slot_of s u)"
        using slot_update [OF r(1,4) ur] fill(1) by simp
      show "skip (slot_of s' u) = snd (accepted s' ! u) \<and> (\<not> skip (slot_of s' u) \<longrightarrow>
          record_of (slotEntry (slot_of s' u)) = pending_record (queueMaxMessageLength s') (fst (accepted s' ! u)))"
      proof (cases "u = t")
        case True
        then show ?thesis unfolding slot using F(2,4) utf [OF ci] w(3) fill(1) len r(3) by simp
      next
        case False
        have "empty_ticket (producers s j) \<noteq> Some u" for j using u(3) [of j] False fill(1,2) by (cases "j = i") auto
        then show ?thesis unfolding slot using D(1,2) [of u] u(1,2) False w(1,3) fill(1) by simp
      qed
    qed
  next
    case (publish c d t f tr)
    have ti: "ticket_of (producers s i) = Some t" using publish(2) by simp
    show ?thesis
      by (rule same) (use publish slot_update [OF ticket_range(1,4) [OF assms(2) ti]] in auto)
  next
    case (slot_busy c d t)
    with ct show ?thesis by simp
  qed (rule same; simp)+
qed

lemma inv_order_producer:
  assumes "producer_step i s s'" "queue_inv cap s"
  shows "inv_order s'"
proof -
  have or: "inv_order s" and le: "consumed s \<le> length (accepted s)"
    using assms(2) by (simp_all add: queue_inv_def inv_tickets_def)
  have "take (consumed s) (accepted s') = take (consumed s) (accepted s)"
    using assms(1)
  proof cases
    case (fill c d t alloc slot f tr)
    then have "consumed s \<le> t" using ticket_range(2) [OF assms(2), of i t] by simp
    then show ?thesis using fill(1) by (simp add: take_update_cancel)
  qed (use le in simp_all)
  then show ?thesis
    using or producer_frame(2,4) [OF assms(1,1)] producer_worker(3,4,9) [OF assms(1)]
    by (simp add: inv_order_def records_upto_def)
qed

lemma head_iff:
  assumes "inv_slots s" "logRing s \<noteq> []" "released s = dequeueTicket s"
  shows "queueHeadIsPublished s \<longleftrightarrow> dequeueTicket s < enqueueTicket s \<and> \<not> held s (dequeueTicket s)"
  using assms by (auto simp: queueHeadIsPublished_def inv_slots_def)

lemma ring_nonempty: "queue_inv cap s \<Longrightarrow> logRing s \<noteq> []"
  by (auto simp: queue_inv_def inv_shape_def)

lemma producer_head:
  assumes "producer_step i s s'" "queue_inv cap s" "released s = dequeueTicket s"
  shows "queueHeadIsPublished s \<Longrightarrow> queueHeadIsPublished s'"
    and "queueHeadIsPublished s' \<Longrightarrow> \<not> queueHeadIsPublished s \<Longrightarrow> \<exists>c d f tr. producers s' i = P_Stored c d (dequeueTicket s) f tr"
proof -
  have ne: "logRing s' \<noteq> []" using ring_nonempty [OF assms(2)] producer_worker(6) [OF assms(1)] by auto
  have r: "released s' = dequeueTicket s'" "dequeueTicket s' = dequeueTicket s"
    using producer_frame(1) [OF assms(1,1)] producer_worker(2) [OF assms(1)] assms(3) by auto
  have sl: "inv_slots s" using assms(2) by (simp add: queue_inv_def)
  note h = head_iff [OF sl ring_nonempty [OF assms(2)] assms(3)] head_iff [OF inv_slots_producer [OF assms(1,2)] ne r(1), unfolded r(2)]
  have step: "enqueueTicket s \<le> enqueueTicket s' \<and> (\<forall>t. held s' t \<longrightarrow> held s t \<or> enqueueTicket s \<le> t) \<and>
      (\<forall>t. held s t \<and> \<not> held s' t \<longrightarrow> (\<exists>c d f tr. producers s' i = P_Stored c d t f tr)) \<and>
      (enqueueTicket s < enqueueTicket s' \<longrightarrow> enqueueTicket s' = Suc (enqueueTicket s) \<and> held s' (enqueueTicket s))"
  proof -
    obtain p where p: "producers s' = (producers s)(i := p)" by (rule producer_local [OF assms(1)])
    note hs = held_split [of s _ i] held_upd [OF p]
    have pi: "p = producers s' i" using p by simp
    from assms(1) show ?thesis unfolding hs pi by cases auto
  qed
  show "queueHeadIsPublished s'" if "queueHeadIsPublished s" using that step unfolding h by (meson less_le_trans not_le)
  show "\<exists>c d f tr. producers s' i = P_Stored c d (dequeueTicket s) f tr" if "queueHeadIsPublished s'" "\<not> queueHeadIsPublished s"
  proof (cases "dequeueTicket s < enqueueTicket s")
    case True
    with that step show ?thesis unfolding h by blast
  next
    case False
    with that step have "enqueueTicket s' = Suc (enqueueTicket s)" "held s' (enqueueTicket s)" "dequeueTicket s = enqueueTicket s"
      unfolding h by auto
    with that(1) show ?thesis unfolding h by simp
  qed
qed

lemma inv_wake_producer:
  assumes "producer_step i s s'" "queue_inv cap s"
  shows "inv_wake s'"
  unfolding inv_wake_def
proof (intro impI)
  let ?W = "{WP_Running, WP_Active, WP_Depth, WP_Block, W_Waiting}"
  assume w': "worker s' \<in> ?W" and hd: "queueHeadIsPublished s'"
  have w: "worker s = worker s'" "worker s \<in> ?W" using producer_worker(1) [OF assms(1)] w' by auto
  have rel: "released s = dequeueTicket s" using w(2) by (auto simp: released_def)
  have deq: "dequeueTicket s' = dequeueTicket s" using producer_worker(2) [OF assms(1)] .
  show "\<exists>j. will_notify (dequeueTicket s') (producers s' j)"
  proof (cases "queueHeadIsPublished s")
    case False
    from producer_head(2) [OF assms(1,2) rel hd False] obtain c d f tr where "producers s' i = P_Stored c d (dequeueTicket s) f tr" by blast
    then show ?thesis using deq by (intro exI [of _ i]) simp
  next
    case True
    then obtain j where j: "will_notify (dequeueTicket s) (producers s j)"
      using assms(2) w(2) unfolding queue_inv_def inv_wake_def by blast
    show ?thesis
    proof (cases "j = i")
      case False
      obtain p where "producers s' = (producers s)(i := p)" by (rule producer_local [OF assms(1)])
      with False j deq show ?thesis by (intro exI [of _ j]) simp
    next
      case ji: True
      have "will_notify (dequeueTicket s) (producers s' i)"
        using assms(1)
      proof cases
        case (last_out n)
        with w w' show ?thesis by auto
      next
        case wake
        with w w' show ?thesis by auto
      qed (use j ji in auto)
      with deq show ?thesis by (intro exI [of _ i]) simp
    qed
  qed
qed

lemma quiet_producer:
  assumes "producer_step i s s'" "quiet s"
  shows "quiet s'" "queueDepth s' = queueDepth s"
proof -
  obtain p where p: "producers s' = (producers s)(i := p)" by (rule producer_local [OF assms(1)])
  have ne: "\<not> engaged (producers s i)" "\<not> queueRunning s" using assms(2) by (simp_all add: quiet_def)
  have "\<not> engaged (producers s' i)" "queueDepth s' = queueDepth s" using assms(1) ne by (cases; auto)+
  then show "quiet s'" "queueDepth s' = queueDepth s"
    using assms(2) p producer_worker(8) [OF assms(1)] by (auto simp: quiet_def)
qed

lemma inv_exit_producer:
  assumes "producer_step i s s'" "queue_inv cap s"
  shows "inv_exit s'"
proof -
  have ex: "inv_exit s" using assms(2) by (simp add: queue_inv_def)
  have w: "worker s' = worker s \<or> worker s' = WP_Head" using producer_worker(1) [OF assms(1)] by blast
  have h: "worker s \<in> {WI_Published, WI_Depth} \<Longrightarrow> queueHeadIsPublished s \<Longrightarrow> queueHeadIsPublished s'"
    using producer_head(1) [OF assms] by (auto simp: released_def)
  have q: "quiet s \<and> queueDepth s = 0 \<Longrightarrow> quiet s' \<and> queueDepth s' = 0" "quiet s \<Longrightarrow> quiet s'"
    using quiet_producer [OF assms(1)] by simp_all
  show ?thesis
  proof (cases "worker s' = WP_Head")
    case True
    then show ?thesis by (simp add: inv_exit_def)
  next
    case False
    with w have same: "worker s' = worker s" by simp
    show ?thesis using ex h q unfolding inv_exit_def same producer_worker(8) [OF assms(1)] by blast
  qed
qed

lemma queue_inv_producer:
  assumes "producer_step i s s'" "queue_inv cap s"
  shows "queue_inv cap s'"
  unfolding queue_inv_def
  using inv_shape_producer [OF assms] inv_depth_producer [OF assms] inv_tickets_producer [OF assms] inv_slots_producer [OF assms]
    inv_contents_producer [OF assms] inv_order_producer [OF assms] inv_wake_producer [OF assms] inv_exit_producer [OF assms]
  by blast

end
