(* ===== verification/Logger_Queue_Safety.thy ===== *)
theory Logger_Queue_Safety
  imports Logger_Queue_Producer
begin

text \<open>
  Every step of the worker and of shutdown keeps the queue's invariant, and the properties that follow for every
  state the queue reaches from its initial one.
\<close>

section \<open>Worker steps\<close>

lemmas progress_defs = released_def consumed_def depth_done_def

text \<open>Phases in which the worker holds no slot and owes no counter.\<close>

fun plain :: "worker \<Rightarrow> bool" where
  "plain (W_Moved n) = False"
| "plain (W_Released n) = False"
| "plain (W_Advanced n) = False"
| "plain (W_Uncounted n) = False"
| "plain _ = True"

lemma plain_progress:
  assumes "plain (worker s)"
  shows "released s = dequeueTicket s" "consumed s = dequeueTicket s" "depth_done s = dequeueTicket s"
    "owed (worker s) = 0"
  using assms by (cases "worker s"; simp add: progress_defs)+

text \<open>A step that changes no slot, ticket or producer keeps the parts of the invariant about them.\<close>

definition same_storage :: "LoggerQueue \<Rightarrow> LoggerQueue \<Rightarrow> bool" where
  "same_storage s s' \<longleftrightarrow> logRing s' = logRing s \<and> workerBatch s' = workerBatch s \<and> hardQueueSize s' = hardQueueSize s \<and>
    queueMaxMessageLength s' = queueMaxMessageLength s \<and> producers s' = producers s \<and> accepted s' = accepted s \<and>
    handed s' = handed s \<and> enqueueTicket s' = enqueueTicket s \<and> activeProducers s' = activeProducers s"

lemma storage_frame:
  assumes inv: "queue_inv cap s" and "same_storage s s'"
    and worker: "batch_count (worker s') = batch_count (worker s)" "released s' = released s" "consumed s' = consumed s"
      "workerBusy s' = busy_phase (worker s')" "owed (worker s') \<le> dequeueTicket s'"
      "queueDepth s' + depth_done s' = queueDepth s + depth_done s" "queueDepth s' \<le> queueDepth s"
    and rest: "inv_wake s'" "inv_exit s'"
  shows "queue_inv cap s'"
proof -
  have same: "logRing s' = logRing s" "workerBatch s' = workerBatch s" "hardQueueSize s' = hardQueueSize s"
    "queueMaxMessageLength s' = queueMaxMessageLength s" "producers s' = producers s" "accepted s' = accepted s"
    "handed s' = handed s" "enqueueTicket s' = enqueueTicket s" "activeProducers s' = activeProducers s"
    using assms(2) by (simp_all add: same_storage_def)
  have h: "held s' = held s" using same(5) by (simp add: held_def fun_eq_iff)
  have "inv_shape cap s'" using inv worker(4) unfolding queue_inv_def inv_shape_def same worker(1) by blast
  moreover have "inv_depth s'" using inv worker(5,6,7) unfolding queue_inv_def inv_depth_def same by simp
  moreover have "inv_tickets s'" "inv_slots s'" "inv_contents s'" "inv_order s'"
    using inv unfolding queue_inv_def inv_tickets_def inv_slots_def inv_contents_def inv_order_def records_upto_def h same worker(1-3)
    by blast+
  ultimately show ?thesis using rest by (simp add: queue_inv_def)
qed

lemma phase_step:
  assumes "queue_inv cap s" "plain (worker s)" "plain w" "batch_count w = batch_count (worker s)"
    and s': "s' = s\<lparr>worker := w, workerBusy := busy_phase w\<rparr>" and "inv_wake s'" "inv_exit s'"
  shows "queue_inv cap s'"
  by (rule storage_frame [OF assms(1) _ _ _ _ _ _ _ _ assms(6,7)])
    (use plain_progress [OF assms(2)] plain_progress [of s'] assms(3,4) s' in \<open>simp_all add: same_storage_def\<close>)

lemma engaged_inside: "engaged p \<Longrightarrow> inside p"
  by (cases p) simp_all

lemma no_active_quiet:
  assumes "queue_inv cap s" "activeProducers s = 0" "\<not> queueRunning s"
  shows "quiet s"
proof -
  have fin: "finite {i. producers s i \<noteq> P_Idle}" using assms(1) by (simp add: queue_inv_def inv_shape_def)
  have "card {i. inside (producers s i)} = 0" using assms(1,2) by (simp add: queue_inv_def inv_depth_def)
  then have "{i. inside (producers s i)} = {}" using finite_phase [OF fin, of inside] by simp
  then show ?thesis using assms(3) engaged_inside by (auto simp: quiet_def)
qed

lemma head_ticket:
  assumes "queue_inv cap s" "plain (worker s)"
  shows "queueHeadIsPublished s \<longleftrightarrow> dequeueTicket s < enqueueTicket s \<and> \<not> held s (dequeueTicket s)"
  using head_iff [of s] assms ring_nonempty [OF assms(1)] plain_progress(1) [OF assms(2)] by (simp add: queue_inv_def)

lemma head_depth:
  assumes "queue_inv cap s" "plain (worker s)" "queueHeadIsPublished s"
  shows "0 < queueDepth s"
  using head_ticket [OF assms(1,2)] assms(1,3) plain_progress(3) [OF assms(2)] by (simp add: queue_inv_def inv_depth_def)

lemma head_phase [simp]: "queueHeadIsPublished (s\<lparr>worker := w\<rparr>) = queueHeadIsPublished s"
  "queueHeadIsPublished (s\<lparr>worker := w, workerBusy := b\<rparr>) = queueHeadIsPublished s"
  by (simp_all add: queueHeadIsPublished_def)

lemma quiet_phase [simp]: "quiet (s\<lparr>worker := w\<rparr>) = quiet s" "quiet (s\<lparr>worker := w, workerBusy := b\<rparr>) = quiet s"
  by (simp_all add: quiet_def)

text \<open>Steps that only move the worker between phases of waiting, exit checks and the drain loop.\<close>

lemma busy_same: "queue_inv cap s \<Longrightarrow> workerBusy s = busy_phase (worker s)"
  by (simp add: queue_inv_def inv_shape_def)

lemma phase_step':
  assumes "queue_inv cap s" "plain (worker s)" "plain w" "batch_count w = batch_count (worker s)" "busy_phase w = busy_phase (worker s)"
    and "inv_wake (s\<lparr>worker := w\<rparr>)" "inv_exit (s\<lparr>worker := w\<rparr>)"
  shows "queue_inv cap (s\<lparr>worker := w\<rparr>)"
proof (rule phase_step [OF assms(1-4) _ assms(6,7)])
  show "s\<lparr>worker := w\<rparr> = s\<lparr>worker := w, workerBusy := busy_phase w\<rparr>" using busy_same [OF assms(1)] assms(5) by simp
qed

lemma drain_phase:
  assumes "queue_inv cap s" "plain (worker s)" "batch_count (worker s) = 0"
  shows "queue_inv cap (s\<lparr>worker := W_Drain 0, workerBusy := True\<rparr>)"
  by (rule phase_step [OF assms(1,2), where w = "W_Drain 0"]) (use assms(3) in \<open>simp_all add: inv_wake_def inv_exit_def\<close>)

lemma queue_inv_waiting:
  assumes "worker_step s s'" "queue_inv cap s" "worker s \<in> {W_Loop, WP_Head, WP_Running, WP_Active, WP_Depth, WP_Block, W_Waiting}"
  shows "queue_inv cap s'"
proof -
  have wk: "inv_wake s" and ex: "inv_exit s" using assms(2) by (simp_all add: queue_inv_def)
  note P = phase_step' [OF assms(2)]
  from assms(1) show ?thesis
  proof cases
    case lock
    then show ?thesis by (auto intro!: P simp: inv_wake_def inv_exit_def)
  next
    case predicate_head
    then show ?thesis by (auto intro!: P simp: inv_wake_def inv_exit_def)
  next
    case predicate_running
    then show ?thesis using wk by (auto intro!: P simp: inv_wake_def inv_exit_def)
  next
    case predicate_active
    have "activeProducers s = 0 \<Longrightarrow> quiet s" using no_active_quiet [OF assms(2)] ex predicate_active(2) by (simp add: inv_exit_def)
    then show ?thesis using predicate_active wk by (auto intro!: P simp: inv_wake_def inv_exit_def)
  next
    case predicate_depth
    then show ?thesis using wk ex by (auto intro!: P simp: inv_wake_def inv_exit_def)
  next
    case block
    then show ?thesis using wk by (auto intro!: P simp: inv_wake_def inv_exit_def)
  next
    case spurious_wake
    then show ?thesis by (auto intro!: P simp: inv_wake_def inv_exit_def)
  qed (use assms(3) in auto)
qed

lemma queue_inv_exiting:
  assumes "worker_step s s'" "queue_inv cap s" "worker s \<in> {WI_Published, WI_Depth, WI_Active, WI_Running}"
  shows "queue_inv cap s'"
proof -
  have ex: "inv_exit s" using assms(2) by (simp add: queue_inv_def)
  have D: "queue_inv cap (s\<lparr>worker := W_Drain 0, workerBusy := True\<rparr>)" using assms(3) by (intro drain_phase [OF assms(2)]) auto
  note P = phase_step' [OF assms(2)]
  from assms(1) show ?thesis
  proof cases
    case exit_published
    then show ?thesis using ex D by (auto intro!: P simp: inv_wake_def inv_exit_def)
  next
    case exit_depth
    then show ?thesis using ex D head_depth [OF assms(2)] by (auto intro!: P simp: inv_wake_def inv_exit_def)
  next
    case exit_active
    then show ?thesis using ex D by (auto intro!: P simp: inv_wake_def inv_exit_def)
  next
    case exit_running
    then show ?thesis using ex D by (auto intro!: P simp: inv_wake_def inv_exit_def)
  qed (use assms(3) in auto)
qed


text \<open>Steps of the drain loop.\<close>

lemma drained_slot:
  assumes "queue_inv cap s" "worker s = W_Drain n" "n < batchLimit s" "queueHeadIsPublished s"
  shows "n < length (workerBatch s)" "dequeueTicket s < enqueueTicket s" "\<not> held s (dequeueTicket s)"
    "entry_ok cap (slotEntry (slot_of s (dequeueTicket s)))" "\<forall>e \<in> set (workerBatch s). entry_ok cap e"
    "skip (slot_of s (dequeueTicket s)) = snd (accepted s ! dequeueTicket s)"
    "\<not> skip (slot_of s (dequeueTicket s)) \<Longrightarrow> record_of (slotEntry (slot_of s (dequeueTicket s))) =
      pending_record (queueMaxMessageLength s) (fst (accepted s ! dequeueTicket s))"
proof -
  have pl: "plain (worker s)" using assms(2) by simp
  show n: "n < length (workerBatch s)" using assms(1,3) by (auto simp: batchLimit_def queue_inv_def inv_shape_def)
  show t: "dequeueTicket s < enqueueTicket s" "\<not> held s (dequeueTicket s)" using head_ticket [OF assms(1) pl] assms(4) by simp_all
  show "entry_ok cap (slotEntry (slot_of s (dequeueTicket s)))" "\<forall>e \<in> set (workerBatch s). entry_ok cap e"
    using assms(1) ring_nonempty [OF assms(1)] by (auto simp: queue_inv_def inv_shape_def)
  have "empty_ticket (producers s i) \<noteq> Some (dequeueTicket s)" for i
    using t(2) by (cases "producers s i") (auto simp: held_def dest: spec [of _ i])
  moreover have "inv_contents s" using assms(1) by (simp add: queue_inv_def)
  ultimately show "skip (slot_of s (dequeueTicket s)) = snd (accepted s ! dequeueTicket s)"
    "\<not> skip (slot_of s (dequeueTicket s)) \<Longrightarrow> record_of (slotEntry (slot_of s (dequeueTicket s))) =
      pending_record (queueMaxMessageLength s) (fst (accepted s ! dequeueTicket s))"
    using inv_contentsD(1,2) [of s "dequeueTicket s"] t(1) plain_progress(2) [OF pl] by simp_all
qed

lemma records_upto_Suc:
  "n < length (accepted s) \<Longrightarrow> records_upto (Suc n) s =
    records_upto n s @ (if snd (accepted s ! n) then [] else [pending_record (queueMaxMessageLength s) (fst (accepted s ! n))])"
  by (simp add: records_upto_def take_Suc_conv_app_nth)

lemma entries_update:
  assumes "\<forall>slot \<in> set ring. entry_ok cap (slotEntry slot)" "entry_ok cap (slotEntry x)"
  shows "\<forall>slot \<in> set (ring[k := x]). entry_ok cap (slotEntry slot)"
  using assms by (auto dest!: set_update_subset_insert [THEN subsetD])

lemma queue_inv_drain:
  assumes inv: "queue_inv cap s" and d: "worker s = W_Drain n" "n < batchLimit s" "queueHeadIsPublished s"
    "drainSlot alloc (releaseMessageMemory s) (workerBatch s) n (slot_of s (dequeueTicket s)) = Some (batch, m, slot)"
    and s': "s' = (set_slot (dequeueTicket s) slot s)\<lparr>workerBatch := batch, worker := W_Moved m\<rparr>"
  shows "queue_inv cap s'"
proof -
  let ?h = "dequeueTicket s"
  note S = drained_slot [OF inv d(1-3)]
  note D = drainSlot_spec [OF d(4) S(1,5,4)]
  have p: "released s' = ?h" "consumed s' = Suc ?h" "depth_done s' = depth_done s" "owed (worker s') = owed (worker s)"
    "released s = ?h" "consumed s = ?h"
    using d(1) s' by (simp_all add: progress_defs)
  have h: "held s' = held s" using s' by (simp add: held_def fun_eq_iff)
  have ring: "slot_of s' t = (if t = ?h then slot else slot_of s t)" if "?h \<le> t" "t < ?h + length (logRing s)" for t
    using slot_update [of s ?h t slot] that p(5) ring_nonempty [OF inv] s' by simp
  have "inv_shape cap s'"
    using inv D s' S(1) entries_update [OF _ D(5)] d(1) by (auto simp: queue_inv_def inv_shape_def simp del: set_update_subsetI)
  moreover have "inv_depth s'" using inv p(3,4) unfolding queue_inv_def inv_depth_def s' by simp
  moreover have "inv_tickets s'"
  proof -
    have "Suc ?h \<le> t" if "ticket_of (producers s i) = Some t" for i t
      using ticket_range(2,5) [OF inv that] S(3) p(6) by (metis not_less_eq_eq le_antisym)
    then show ?thesis using inv S(2) p(2) s' by (simp add: queue_inv_def inv_tickets_def)
  qed
  moreover have "inv_slots s'"
    using inv p(1,5) D(1) s' ring unfolding queue_inv_def inv_slots_def h by simp
  moreover have "inv_contents s'"
  proof -
    have w: "enqueueTicket s \<le> ?h + length (logRing s)" using ring_window [OF inv] p(5) by simp
    have "inv_contents s" using inv by (simp add: queue_inv_def)
    then show ?thesis using p(2,6) s' ring w inv_contentsD [of s] by (intro inv_contentsI) simp_all
  qed
  moreover have "inv_order s'"
  proof -
    have "?h < length (accepted s)" "inv_order s" using inv S(2) by (simp_all add: queue_inv_def inv_tickets_def)
    moreover have "records_upto k s' = records_upto k s" for k using s' by (simp add: records_upto_def)
    ultimately show ?thesis
      using D(6) S(6,7) p(2,6) d(1) s' records_upto_Suc [of ?h s] by (simp add: inv_order_def)
  qed
  moreover have "inv_wake s'" "inv_exit s'" using s' by (simp_all add: inv_wake_def inv_exit_def)
  ultimately show ?thesis by (simp add: queue_inv_def)
qed


lemma queue_inv_release:
  assumes inv: "queue_inv cap s" and w: "worker s = W_Moved n"
    and s': "s' = (set_slot (dequeueTicket s)
      ((slot_of s (dequeueTicket s))\<lparr>sequence := dequeueTicket s + length (logRing s)\<rparr>) s)\<lparr>worker := W_Released n\<rparr>"
  shows "queue_inv cap s'"
proof -
  let ?h = "dequeueTicket s" and ?x = "(slot_of s (dequeueTicket s))\<lparr>sequence := dequeueTicket s + length (logRing s)\<rparr>"
  have p: "released s' = Suc ?h" "consumed s' = Suc ?h" "depth_done s' = depth_done s" "owed (worker s') = owed (worker s)"
    "batch_count (worker s') = batch_count (worker s)" "busy_phase (worker s') = busy_phase (worker s)"
    "released s = ?h" "consumed s = Suc ?h"
    using w s' by (simp_all add: progress_defs)
  have h: "held s' = held s" using s' by (simp add: held_def fun_eq_iff)
  have pos: "0 < length (logRing s)" and win: "enqueueTicket s \<le> ?h + length (logRing s)"
    using ring_nonempty [OF inv] ring_window [OF inv] p(7) by simp_all
  have ring: "slot_of s' t = slot_of s t" if "Suc ?h \<le> t" "t < ?h + length (logRing s)" for t
    using slot_update [of s ?h t ?x] that p(7) pos s' by simp
  have last: "slot_of s' (?h + length (logRing s)) = ?x" using s' pos by simp
  have "inv_shape cap s'"
    using inv s' p(5,6) entries_update [of "logRing s" cap ?x "ring_index s ?h"] pos by (simp add: queue_inv_def inv_shape_def)
  moreover have "inv_depth s'" using inv p(3,4) unfolding queue_inv_def inv_depth_def s' by simp
  moreover have "inv_tickets s'" using inv p(2,8) s' by (simp add: queue_inv_def inv_tickets_def)
  moreover have "inv_slots s'"
    unfolding inv_slots_def h
  proof (intro allI impI)
    fix t assume t: "released s' \<le> t" "t < released s' + length (logRing s')"
    have sl: "inv_slots s" using inv by (simp add: queue_inv_def)
    show "sequence (slot_of s' t) = (if t < enqueueTicket s' \<and> \<not> held s t then Suc t else t)"
    proof (cases "t < ?h + length (logRing s)")
      case True
      then show ?thesis using sl t ring [of t] p(1,7) s' by (simp add: inv_slots_def)
    next
      case False
      then have "t = ?h + length (logRing s)" using t(2) p(1) s' by simp
      then show ?thesis using last win s' by simp
    qed
  qed
  moreover have "inv_contents s'"
  proof -
    have "inv_contents s" using inv by (simp add: queue_inv_def)
    then show ?thesis using p(2,8) s' ring win inv_contentsD [of s] by (intro inv_contentsI) simp_all
  qed
  moreover have "inv_order s'" using inv p(2,5,8) s' by (simp add: queue_inv_def inv_order_def records_upto_def)
  moreover have "inv_wake s'" "inv_exit s'" using s' by (simp_all add: inv_wake_def inv_exit_def)
  ultimately show ?thesis by (simp add: queue_inv_def)
qed

text \<open>The stores that follow change no slot: only the counters and the worker's ticket.\<close>

lemma counter_step:
  assumes "queue_inv cap s" "same_storage s s'" "workerBusy s' = workerBusy s" "busy_phase (worker s)" "busy_phase (worker s')"
      "batch_count (worker s') = batch_count (worker s)" "released s' = released s" "consumed s' = consumed s"
      "owed (worker s') \<le> dequeueTicket s'" "queueDepth s' + depth_done s' = queueDepth s + depth_done s" "queueDepth s' \<le> queueDepth s"
  shows "queue_inv cap s'"
proof (rule storage_frame [OF assms(1,2,6-8) _ assms(9-11)])
  show "workerBusy s' = busy_phase (worker s')" using assms(1,3,4,5) by (simp add: busy_same)
  show "inv_wake s'" "inv_exit s'" using assms(5) by (auto simp: inv_wake_def inv_exit_def)
qed

lemma queue_inv_counters:
  assumes "worker_step s s'" "queue_inv cap s" "worker s \<in> range W_Released \<union> range W_Advanced \<union> range W_Uncounted"
  shows "queue_inv cap s'"
  using assms(1)
proof cases
  case (advance n)
  then show ?thesis by (intro counter_step [OF assms(2)]) (simp_all add: progress_defs same_storage_def)
next
  case (uncount_published n)
  have "owed (worker s) \<le> dequeueTicket s" using assms(2) by (simp add: queue_inv_def inv_depth_def)
  with uncount_published show ?thesis by (intro counter_step [OF assms(2)]) (simp_all add: progress_defs same_storage_def)
next
  case (uncount_depth n)
  have "queueDepth s + (dequeueTicket s - 1) \<ge> enqueueTicket s" "0 < dequeueTicket s" "dequeueTicket s \<le> enqueueTicket s"
    using assms(2) uncount_depth(2) by (simp_all add: queue_inv_def inv_depth_def inv_tickets_def progress_defs)
  with uncount_depth show ?thesis by (intro counter_step [OF assms(2)]) (simp_all add: progress_defs same_storage_def)
qed (use assms(3) in auto)


lemma queue_inv_deliver:
  assumes inv: "queue_inv cap s" and w: "worker s = W_Deliver n"
    and s': "s' = s\<lparr>handed := handed s @ map record_of (take n (workerBatch s)),
      workerBatch := map (clearLogEntry (releaseMessageMemory s)) (take n (workerBatch s)) @ drop n (workerBatch s),
      worker := W_Finished n\<rparr>"
  shows "queue_inv cap s'"
proof -
  have p: "released s' = released s" "consumed s' = consumed s" "depth_done s' = depth_done s" "owed (worker s') = owed (worker s)"
    "batch_count (worker s) = n" "batch_count (worker s') = 0"
    using w s' by (simp_all add: progress_defs)
  have h: "held s' = held s" using s' by (simp add: held_def fun_eq_iff)
  have "\<forall>e \<in> set (workerBatch s'). entry_ok cap e" "workerBatch s' \<noteq> []"
    using inv w s' by (auto simp: queue_inv_def inv_shape_def dest!: in_set_takeD in_set_dropD)
  then have "inv_shape cap s'" using inv w s' by (simp add: queue_inv_def inv_shape_def)
  moreover have "inv_depth s'" using inv p(3,4) unfolding queue_inv_def inv_depth_def s' by simp
  moreover have "inv_tickets s'" using inv p(2) unfolding queue_inv_def inv_tickets_def s' by simp
  moreover have "inv_slots s'" using inv p(1) h unfolding queue_inv_def inv_slots_def s' by simp
  moreover have "inv_contents s'" using inv p(2) unfolding queue_inv_def inv_contents_def s' by simp
  moreover have "inv_order s'" using inv p(2,5,6) s' by (simp add: queue_inv_def inv_order_def records_upto_def)
  moreover have "inv_wake s'" "inv_exit s'" using s' by (simp_all add: inv_wake_def inv_exit_def)
  ultimately show ?thesis by (simp add: queue_inv_def)
qed

lemma queue_inv_worker:
  assumes "worker_step s s'" "queue_inv cap s"
  shows "queue_inv cap s'"
proof -
  note steps = queue_inv_waiting [OF assms] queue_inv_exiting [OF assms] queue_inv_counters [OF assms]
  from assms(1) show ?thesis
  proof cases
    case (drain_stop n)
    then show ?thesis by (auto intro!: phase_step' [OF assms(2)] simp: inv_wake_def inv_exit_def)
  next
    case (drain n alloc batch m slot)
    from queue_inv_drain [OF assms(2) drain(2-5,1)] show ?thesis .
  next
    case (release_slot n)
    from queue_inv_release [OF assms(2) release_slot(2,1)] show ?thesis .
  next
    case (deliver n)
    from queue_inv_deliver [OF assms(2) deliver(2,1)] show ?thesis .
  next
    case (finish_batch n)
    have "s' = s\<lparr>worker := W_Loop, workerBusy := busy_phase W_Loop\<rparr>" using finish_batch(1) by simp
    then show ?thesis using finish_batch(2) by (rule_tac phase_step [OF assms(2), where w = W_Loop]) (simp_all add: inv_wake_def inv_exit_def)
  qed (use steps in auto)
qed

lemma queue_inv_control:
  assumes "control_step s s'" "queue_inv cap s"
  shows "queue_inv cap s'"
  using assms(1)
proof cases
  case stop
  have f: "worker s' = worker s" "producers s' = producers s" "dequeueTicket s' = dequeueTicket s" "queueDepth s' = queueDepth s"
    "queueHeadIsPublished s' = queueHeadIsPublished s" and q: "quiet s \<longrightarrow> quiet s'" "\<not> queueRunning s'"
    using stop(1) by (simp_all add: quiet_def queueHeadIsPublished_def)
  have "inv_wake s'" using assms(2) unfolding queue_inv_def inv_wake_def f by blast
  moreover have "inv_exit s'" using assms(2) q unfolding queue_inv_def inv_exit_def f by blast
  moreover have "owed (worker s) \<le> dequeueTicket s" using assms(2) by (simp add: queue_inv_def inv_depth_def)
  ultimately show ?thesis
    using worker_frame [of s' s] busy_same [OF assms(2)] stop(1)
    by (intro storage_frame [OF assms(2)]) (simp_all add: same_storage_def)
next
  case notify
  show ?thesis
  proof (cases "worker s = W_Waiting")
    case True
    with notify show ?thesis
      by (auto intro!: phase_step' [OF assms(2)] simp: notify_all_def inv_wake_def inv_exit_def)
  next
    case False
    with notify assms(2) show ?thesis by (simp add: notify_all_def)
  qed
qed

lemma queue_inv_step:
  assumes "queue_step s s'" "queue_inv cap s"
  shows "queue_inv cap s'"
  using assms by cases (auto intro: queue_inv_producer queue_inv_worker queue_inv_control)

lemma queue_inv_reachable:
  assumes "queue_step\<^sup>*\<^sup>* s s'" "queue_inv cap s"
  shows "queue_inv cap s'"
  using assms by (induction rule: rtranclp_induct) (auto intro: queue_inv_step)


section \<open>Reachable states\<close>

text \<open>A queue starts in a state that satisfies the invariant, on the storage \<open>prepareQueueStorage\<close> returns.\<close>

lemma arena_slice_length:
  assumes "allocateMessageArena alloc garbage n c = Inr (Some arena)" "i < unat n"
  shows "length (take (unat c) (drop (i * unat c) arena)) = unat c"
proof (cases "n = 0 \<or> c = 0")
  case True
  with assms(2) show ?thesis by auto
next
  case False
  with assms(1) have no: "\<not> wouldMultiplyOverflow n c" and len: "length arena = unat (n * c)"
    by (auto simp: allocateMessageArena_def Let_def split: if_splits option.splits)
  from no have "length arena = unat n * unat c"
    unfolding len wouldMultiplyOverflow_nat not_le by (simp add: unat_word_ariths)
  moreover have "Suc i * unat c \<le> unat n * unat c" using assms(2) by (intro mult_le_mono1) simp
  ultimately show ?thesis by simp
qed

lemma configured_entry_ok:
  assumes "allocateMessageArena alloc garbage n c = Inr (Some arena)" "i < unat n"
  shows "entry_ok (unat c) (configured_entry (unat c) arena i)"
  using arena_slice_length [OF assms] by (simp add: entry_ok_def configured_entry_def default_entry_def empty_text_def
    configureInlineStorage_def LogText_clear_def log_text_ok_def)

lemma prepareQueueStorage_ok:
  assumes "prepareQueueStorage ss se alloc garbage n b c = Some (ring, batch)"
  shows "length ring = unat n" "length batch = unat b" "\<And>i. i < unat n \<Longrightarrow> sequence (ring ! i) = i"
    "\<forall>slot \<in> set ring. entry_ok (unat c) (slotEntry slot)" "\<forall>e \<in> set batch. entry_ok (unat c) e"
  using assms configured_entry_ok [of alloc garbage _ c]
  by (auto simp: prepareQueueStorage_def split: if_splits option.splits sum.splits)

lemma fresh_queue_inv:
  assumes "\<And>i. i < length ring \<Longrightarrow> sequence (ring ! i) = i" "ring \<noteq> []" "batch \<noteq> []"
    "\<forall>slot \<in> set ring. entry_ok cap (slotEntry slot)" "\<forall>e \<in> set batch. entry_ok cap e"
  shows "queue_inv cap (startedQueue ring batch soft len release)"
  using assms
  by (simp add: startedQueue_def queue_inv_def inv_shape_def inv_depth_def inv_tickets_def inv_slots_def inv_contents_def
      inv_order_def inv_wake_def inv_exit_def held_def progress_defs records_upto_def)

text \<open>The states of a queue that was started on prepared storage: \<open>queue_run\<close>.\<close>

definition queue_run :: "LoggerQueue \<Rightarrow> bool" where
  "queue_run s \<longleftrightarrow> (\<exists>ss se alloc garbage n b c ring batch soft len release. 0 < n \<and> 0 < b \<and>
    prepareQueueStorage ss se alloc garbage n b c = Some (ring, batch) \<and>
    queue_step\<^sup>*\<^sup>* (startedQueue ring batch soft len release) s)"

lemma queue_run_inv:
  assumes "queue_run s"
  obtains cap where "queue_inv cap s"
proof -
  from assms obtain ss se alloc garbage n b c ring batch soft len release where
    r: "0 < n" "0 < b" "prepareQueueStorage ss se alloc garbage n b c = Some (ring, batch)"
      "queue_step\<^sup>*\<^sup>* (startedQueue ring batch soft len release) s"
    unfolding queue_run_def by blast
  note P = prepareQueueStorage_ok [OF r(3)]
  have "0 < unat n" "0 < unat b" using r(1,2) by (simp_all add: unat_gt_0)
  then have "ring \<noteq> []" "batch \<noteq> []" using P(1,2) by auto
  with fresh_queue_inv [of ring batch "unat c"] P
  have "queue_inv (unat c) (startedQueue ring batch soft len release)" by simp
  from queue_inv_reachable [OF r(4) this] show ?thesis by (rule that)
qed

lemma records_upto_take: "records_upto n s = take (length (records_upto n s)) (records_upto (length (accepted s)) s)"
proof -
  have "accepted s = take n (accepted s) @ drop n (accepted s)" by simp
  then have "records_upto (length (accepted s)) s =
      records_upto n s @ map (pending_record (queueMaxMessageLength s) \<circ> fst) (filter (\<lambda>a. \<not> snd a) (drop n (accepted s)))"
    unfolding records_upto_def by (metis filter_append map_append take_all order_refl)
  then show ?thesis by simp
qed

lemma idle_worker_consumed:
  assumes "queue_inv cap s" "queueDepth s = 0"
  shows "enqueueTicket s \<le> dequeueTicket s"
  using assms by (auto simp: queue_inv_def inv_depth_def depth_done_def)

lemma not_busy_plain: "\<not> busy_phase w \<Longrightarrow> plain w" "\<not> busy_phase w \<Longrightarrow> batch_count w = 0"
  by (cases w; simp)+

lemma drained_handed:
  assumes "queue_inv cap s" "queueDepth s = 0" "\<not> busy_phase (worker s)"
  shows "dequeueTicket s = enqueueTicket s" "handed s = records_upto (enqueueTicket s) s"
proof -
  note p = plain_progress [OF not_busy_plain(1) [OF assms(3)]]
  show eq: "dequeueTicket s = enqueueTicket s"
    using idle_worker_consumed [OF assms(1,2)] assms(1) p(2) by (simp add: queue_inv_def inv_tickets_def)
  show "handed s = records_upto (enqueueTicket s) s"
    using assms(1) p(2) eq not_busy_plain(2) [OF assms(3)] by (simp add: queue_inv_def inv_order_def)
qed


text \<open>A run on a queue of one slot: the worker goes to sleep, one record is logged, the worker drains and writes it.\<close>

definition demo_call :: enqueue_call where
  "demo_call = (\<lparr>pendingLevel = Fatal, pendingUsesRegisteredSource = False, pendingSourceId = 0,
    pendingSourceText = empty_text kInlineSourceCapacity, pendingMessage = [0x6F, 0x6B], alreadyTruncated = False\<rparr>, True)"

definition demo_bits :: "32 word" where
  "demo_bits = packRuntimeState True Output_Both Info kAllLevelMask"

lemma demo_accepted: "checkPendingEntryAcceptedUnlocked demo_bits None (fst demo_call)" "valid_utf8 (pendingMessage (fst demo_call))"
proof -
  show "checkPendingEntryAcceptedUnlocked demo_bits None (fst demo_call)" unfolding demo_bits_def demo_call_def by code_simp
  show "valid_utf8 (pendingMessage (fst demo_call))" unfolding demo_call_def by (simp, rule valid_utf8_ascii, simp)
qed

lemma queue_run_step: "queue_run s \<Longrightarrow> queue_step s s' \<Longrightarrow> queue_run s'"
  unfolding queue_run_def by (meson rtranclp.rtrancl_into_rtrancl)

definition demo_slot :: QueueSlot where
  "demo_slot = \<lparr>sequence = 0, skip = False, slotEntry = configured_entry 0 [] 0\<rparr>"

lemma demo_start: "queue_run (startedQueue [demo_slot] [slotEntry demo_slot] 1 100 False)"
proof -
  have "prepareQueueStorage 0 0 (\<lambda>_. None) (\<lambda>_. 0) 1 1 0 = Some ([demo_slot], [slotEntry demo_slot])"
    by (simp add: prepareQueueStorage_def allocateMessageArena_def demo_slot_def wouldMultiplyOverflow_nat)
  then show ?thesis unfolding queue_run_def
    by (intro exI [of _ "0 :: 64 word"] exI [of _ "\<lambda>_ :: nat. None"] exI [of _ "\<lambda>_ :: nat. 0 :: byte"] exI [of _ "1 :: 64 word"] exI conjI)
      auto
qed

lemma demo_slot_ok [simp]: "entry_ok 0 (slotEntry demo_slot)" "sequence demo_slot = 0"
  by (simp_all add: demo_slot_def entry_ok_def configured_entry_def default_entry_def empty_text_def configureInlineStorage_def
      LogText_clear_def log_text_ok_def)

lemma demo_run:
  shows "\<exists>s. queue_run s \<and> ticket_of (producers s 0) = Some 0"
    and "\<exists>s. queue_run s \<and> worker s = W_Waiting \<and> queueHeadIsPublished s"
    and "\<exists>s. queue_run s \<and> queueDepth s = 0 \<and> \<not> workerBusy s \<and> enqueueTicket s = 1 \<and> publishedQueueDepth s = - 1"
proof -
  obtain slot failed tr where fill: "fillSlot (\<lambda>_. None) 100 False demo_slot (fst demo_call) = (slot, failed, tr)"
    by (cases "fillSlot (\<lambda>_. None) 100 False demo_slot (fst demo_call)")
  note S = fillSlot_spec [OF fill demo_slot_ok(1)]
  let ?pub = "slot\<lparr>sequence := Suc 0\<rparr>"
  have ok: "\<forall>e \<in> set [slotEntry demo_slot]. entry_ok 0 e" "entry_ok 0 (slotEntry ?pub)" using demo_slot_ok(1) S(3) by simp_all
  obtain batch m slot' where drain: "drainSlot (\<lambda>_. None) False [slotEntry demo_slot] 0 ?pub = Some (batch, m, slot')"
    using drainSlot_total [OF _ ok, of 0 "\<lambda>_. None" False] by auto
  note r = queue_run_step [OF demo_start by_worker [OF worker_step.lock], simplified startedQueue_def, simplified]
  note r = queue_run_step [OF r by_worker [OF worker_step.predicate_head], simplified queueHeadIsPublished_def demo_slot_ok, simplified]
  note r = queue_run_step [OF r by_worker [OF worker_step.predicate_running], simplified]
  note r = queue_run_step [OF r by_worker [OF worker_step.block], simplified]
  note r = queue_run_step [OF r by_producer [OF producer_step.enter [where i = 0 and c = demo_call]], simplified, simplified demo_accepted, simplified]
  note r = queue_run_step [OF r by_producer [OF producer_step.admit [where i = 0 and c = demo_call]], simplified]
  note r = queue_run_step [OF r by_producer [OF producer_step.load_depth [where i = 0 and c = demo_call and bits = demo_bits and registry = None]], simplified, simplified demo_accepted, simplified]
  note r = queue_run_step [OF r by_producer [OF producer_step.reserve [where i = 0 and c = demo_call and depth = 0]], simplified reserveDecision_def, simplified]
  note a = queue_run_step [OF r by_producer [OF producer_step.take_ticket [where i = 0 and c = demo_call and previousDepth = 0]], simplified]
  from a show "\<exists>s. queue_run s \<and> ticket_of (producers s 0) = Some 0" by (intro exI conjI, assumption) simp
  note r = queue_run_step [OF a by_producer [OF producer_step.slot_free [where i = 0 and c = demo_call and previousDepth = 0 and ticket = 0]], simplified]
  note r = queue_run_step [OF r by_producer [OF producer_step.fill [where i = 0 and c = demo_call and previousDepth = 0 and ticket = 0 and alloc = "\<lambda>_. None" and slot = slot and failed = failed and truncated = tr]], simplified, simplified fill, simplified]
  note b = queue_run_step [OF r by_producer [OF producer_step.publish [where i = 0 and c = demo_call and previousDepth = 0 and ticket = 0 and failed = failed and truncated = tr]], simplified]
  from b show "\<exists>s. queue_run s \<and> worker s = W_Waiting \<and> queueHeadIsPublished s" by (intro exI conjI, assumption) (simp_all add: queueHeadIsPublished_def)
  note r = queue_run_step [OF b by_worker [OF worker_step.spurious_wake], simplified]
  note r = queue_run_step [OF r by_worker [OF worker_step.predicate_head], simplified queueHeadIsPublished_def batchLimit_def, simplified]
  note r = queue_run_step [OF r by_worker [OF worker_step.exit_published], simplified]
  note r = queue_run_step [OF r by_worker [OF worker_step.exit_depth], simplified]
  note r = queue_run_step [OF r by_worker [OF worker_step.drain [where n = 0 and alloc = "\<lambda>_. None" and batch = batch and m = m and slot = slot']], simplified queueHeadIsPublished_def batchLimit_def, simplified drain, simplified]
  note r = queue_run_step [OF r by_worker [OF worker_step.release_slot [where n = m]], simplified]
  note r = queue_run_step [OF r by_worker [OF worker_step.advance [where n = m]], simplified]
  note r = queue_run_step [OF r by_worker [OF worker_step.uncount_published [where n = m]], simplified]
  note r = queue_run_step [OF r by_worker [OF worker_step.uncount_depth [where n = m]], simplified]
  note r = queue_run_step [OF r by_worker [OF worker_step.drain_stop [where n = m]], simplified queueHeadIsPublished_def batchLimit_def, simplified]
  note r = queue_run_step [OF r by_worker [OF worker_step.deliver [where n = m]], simplified]
  note r = queue_run_step [OF r by_worker [OF worker_step.finish_batch [where n = m]], simplified]
  from r [OF drain] show "\<exists>s. queue_run s \<and> queueDepth s = 0 \<and> \<not> workerBusy s \<and> enqueueTicket s = 1 \<and> publishedQueueDepth s = - 1" by (intro exI conjI, assumption) simp_all
qed

section \<open>Properties\<close>

text \<open>
C2: Records leave the queue in ticket order, none is lost, duplicated or altered, and the depth stays bounded. In every
state of every interleaving, the records handed to the sinks followed by those in the worker's batch are the
first \<open>consumed\<close> accepted entries (with their message bounded), without those whose storage failed and that were
published as skip markers, in the order of their tickets; and \<open>queueDepth\<close> is at most \<open>hardQueueSize\<close>.
\<close>

theorem queue_fifo:
  assumes "queue_run s"
  shows "handed s @ map record_of (take (batch_count (worker s)) (workerBatch s)) = records_upto (consumed s) s \<and>
    dequeueTicket s \<le> consumed s \<and> consumed s \<le> length (accepted s) \<and> enqueueTicket s = length (accepted s) \<and>
    queueDepth s \<le> hardQueueSize s \<and> length (logRing s) = hardQueueSize s"
proof -
  obtain cap where "queue_inv cap s" by (rule queue_run_inv [OF assms])
  then show ?thesis using released_bounds(2,4) [of s]
    by (simp add: queue_inv_def inv_order_def inv_tickets_def inv_depth_def inv_shape_def)
qed

theorem queue_fifo_witness:
  "handed (startedQueue [demo_slot] [slotEntry demo_slot] 1 100 False) = []"
  using queue_fifo [OF demo_start] by (simp add: startedQueue_def records_upto_def)

text \<open>
C6: A slot is written by one thread at a time. When a producer holds a ticket, the slot of that ticket is free for it (its
sequence is the ticket, so \<open>waitForQueueSlot\<close> returns at once), no other producer's ticket maps to the same slot,
and the slot the worker reads, clears or releases is another one.
\<close>

theorem slot_ownership:
  assumes "queue_run s" "ticket_of (producers s i) = Some t"
  shows "sequence (slot_of s t) = t \<and>
    (\<forall>j u. ticket_of (producers s j) = Some u \<longrightarrow> ring_index s u = ring_index s t \<longrightarrow> j = i) \<and>
    ((\<exists>n. worker s = W_Moved n \<or> worker s = W_Drain n \<and> queueHeadIsPublished s) \<longrightarrow>
      ring_index s (dequeueTicket s) \<noteq> ring_index s t)"
proof -
  obtain cap where inv: "queue_inv cap s" by (rule queue_run_inv [OF assms(1)])
  note r = ticket_range [OF inv assms(2)]
  have "sequence (slot_of s t) = t" using inv r by (simp add: queue_inv_def inv_slots_def)
  moreover have "j = i" if "ticket_of (producers s j) = Some u" "ring_index s u = ring_index s t" for j u
  proof -
    note q = ticket_range [OF inv that(1)]
    have "u = t" using mod_window [OF q(1,4) r(1,4) that(2)] .
    with that(1) assms(2) inv show ?thesis by (auto simp: queue_inv_def inv_tickets_def)
  qed
  moreover have "ring_index s (dequeueTicket s) \<noteq> ring_index s t"
    if w: "worker s = W_Moved n \<or> worker s = W_Drain n \<and> queueHeadIsPublished s" for n
  proof
    have rel: "released s = dequeueTicket s" using w by (auto simp: released_def)
    have pos: "dequeueTicket s < released s + length (logRing s)" using rel ring_nonempty [OF inv] by simp
    assume "ring_index s (dequeueTicket s) = ring_index s t"
    from mod_window [OF _ pos r(1,4) this] rel have eq: "dequeueTicket s = t" by simp
    from w show False
    proof
      assume "worker s = W_Moved n"
      with r(2) eq show False by (simp add: consumed_def)
    next
      assume "worker s = W_Drain n \<and> queueHeadIsPublished s"
      with head_ticket [OF inv] r(5) eq show False by simp
    qed
  qed
  ultimately show ?thesis by blast
qed

theorem slot_ownership_witness: "\<exists>s. queue_run s \<and> ticket_of (producers s 0) = Some 0 \<and> sequence (slot_of s 0) = 0"
proof -
  obtain s where s: "queue_run s" "ticket_of (producers s 0) = Some 0" using demo_run(1) by blast
  from slot_ownership [OF s] s show ?thesis by blast
qed

text \<open>
C5: The worker never misses work and never gets stuck. If it is blocked in its wait (or has found the head unpublished and is
about to block) while the next slot is published, some producer is on its way to notify it; and in every phase
but the last it has a next step, whatever an allocation would do: moving a queued entry into the batch cannot throw.
\<close>

theorem no_lost_wakeup:
  assumes "queue_run s"
  shows "(worker s \<in> {WP_Running, WP_Active, WP_Depth, WP_Block, W_Waiting} \<longrightarrow> queueHeadIsPublished s \<longrightarrow>
      (\<exists>i. will_notify (dequeueTicket s) (producers s i))) \<and>
    (\<forall>n alloc. worker s = W_Drain n \<longrightarrow> n < batchLimit s \<longrightarrow> queueHeadIsPublished s \<longrightarrow>
      drainSlot alloc (releaseMessageMemory s) (workerBatch s) n (slot_of s (dequeueTicket s)) \<noteq> None) \<and>
    (worker s \<noteq> W_Exited \<longrightarrow> (\<exists>s'. worker_step s s'))"
proof -
  obtain cap where inv: "queue_inv cap s" by (rule queue_run_inv [OF assms])
  have "worker s \<in> {WP_Running, WP_Active, WP_Depth, WP_Block, W_Waiting} \<longrightarrow> queueHeadIsPublished s \<longrightarrow>
      (\<exists>i. will_notify (dequeueTicket s) (producers s i))"
    using inv unfolding queue_inv_def inv_wake_def by blast
  moreover have total: "drainSlot alloc (releaseMessageMemory s) (workerBatch s) n (slot_of s (dequeueTicket s)) \<noteq> None"
    if "worker s = W_Drain n" "n < batchLimit s" "queueHeadIsPublished s" for n alloc
    using drainSlot_total [OF drained_slot(1,5,4) [OF inv that]] .
  moreover have "\<exists>s'. worker_step s s'" if "worker s \<noteq> W_Exited"
  proof (cases "\<exists>n. worker s = W_Drain n \<and> n < batchLimit s \<and> queueHeadIsPublished s")
    case True
    then obtain n where n: "worker s = W_Drain n" "n < batchLimit s" "queueHeadIsPublished s" by blast
    from total [OF n, of "\<lambda>_. None"] obtain batch m slot where
      "drainSlot (\<lambda>_. None) (releaseMessageMemory s) (workerBatch s) n (slot_of s (dequeueTicket s)) = Some (batch, m, slot)" by auto
    from worker_step.drain [OF n this] show ?thesis by blast
  next
    case False
    with that show ?thesis by (cases "worker s") (blast intro: worker_step.intros)+
  qed
  ultimately show ?thesis by blast
qed

theorem no_lost_wakeup_witness:
  "\<exists>s. queue_run s \<and> worker s = W_Waiting \<and> queueHeadIsPublished s \<and> (\<exists>i. will_notify (dequeueTicket s) (producers s i))"
proof -
  obtain s where s: "queue_run s" "worker s = W_Waiting" "queueHeadIsPublished s" using demo_run(2) by blast
  from no_lost_wakeup [OF s(1)] s show ?thesis by blast
qed

text \<open>
C4: Flush and shutdown are complete. When the queue depth is zero and the worker is not busy, which is what a flush of a running logger waits for,
and when the worker thread has ended, every ticket handed out has been consumed and every accepted record whose storage
succeeded has been given to the sinks. Producers of a running logger may go on after a flush; but a worker that has ended has done so
only after the runtime stopped and with no producer left that holds a ticket it could still publish.
\<close>

theorem drained_complete:
  assumes "queue_run s" "queueDepth s = 0 \<and> \<not> workerBusy s \<or> worker s = W_Exited"
  shows "dequeueTicket s = enqueueTicket s \<and> handed s = records_upto (length (accepted s)) s \<and>
    (worker s = W_Exited \<longrightarrow> \<not> queueRunning s \<and> queueDepth s = 0 \<and> (\<forall>i. ticket_of (producers s i) = None))"
proof -
  obtain cap where inv: "queue_inv cap s" by (rule queue_run_inv [OF assms(1)])
  have ex: "worker s = W_Exited \<Longrightarrow> quiet s \<and> queueDepth s = 0" using inv by (simp add: queue_inv_def inv_exit_def)
  have "queueDepth s = 0" "\<not> busy_phase (worker s)" using assms(2) ex busy_same [OF inv] by auto
  note d = drained_handed [OF inv this]
  have none: "ticket_of p = None" if "\<not> engaged p" for p using that by (cases p) simp_all
  have "length (accepted s) = enqueueTicket s" using inv by (simp add: queue_inv_def inv_tickets_def)
  with d ex none show ?thesis by (auto simp: quiet_def)
qed

theorem drained_complete_witness:
  "\<exists>s. queue_run s \<and> enqueueTicket s = 1 \<and> dequeueTicket s = 1 \<and> handed s = records_upto (length (accepted s)) s"
proof -
  obtain s where s: "queue_run s" "queueDepth s = 0" "\<not> workerBusy s" "enqueueTicket s = 1" using demo_run(3) by blast
  from drained_complete [of s] s show ?thesis by auto
qed

text \<open>
The counter \<open>publishedQueueDepth\<close> can wrap below zero: the worker may consume a slot between the store of its sequence and
the increment that counts it. Neither the wait predicate nor the drain loop reads the counter.
\<close>

lemma published_depth_wraps: "\<exists>s. queue_run s \<and> queueDepth s = 0 \<and> \<not> workerBusy s \<and> publishedQueueDepth s = - 1"
  using demo_run(3) by blast

end
