(* ===== verification/Input_Types.thy ===== *)
theory Input_Types
  imports Sorted_Vector "HOL-Library.Log_Nat"
begin

text \<open>
  The value types of \<^verbatim>\<open>engine/input/input.h\<close>: device references, controls with the order their vectors are sorted by, and
  IEEE 754 single-precision numbers as far as the input state computes with them.
\<close>

section \<open>Single-precision numbers\<close>

text \<open>
  \<open>Fin n\<close> is the finite number \<open>n * 2^-149\<close>, a multiple of the smallest subnormal; \<open>NegZero\<close> is \<open>-0.0f\<close>. Every binary32 value
  has one representation, with \<open>n\<close> representable in the sense of \<open>representable\<close> below.
\<close>

datatype float32 = NaN | Inf bool | NegZero | Fin int

definition float_limit :: int where
  "float_limit = 2 ^ 277"

fun float_rank :: "float32 \<Rightarrow> int" where
  "float_rank (Inf negative) = (if negative then - float_limit else float_limit)"
| "float_rank NegZero = 0"
| "float_rank (Fin n) = n"
| "float_rank NaN = 0"

definition float_less :: "float32 \<Rightarrow> float32 \<Rightarrow> bool" where
  "float_less a b \<longleftrightarrow> a \<noteq> NaN \<and> b \<noteq> NaN \<and> float_rank a < float_rank b"

definition float_le :: "float32 \<Rightarrow> float32 \<Rightarrow> bool" where
  "float_le a b \<longleftrightarrow> a \<noteq> NaN \<and> b \<noteq> NaN \<and> float_rank a \<le> float_rank b"

definition float_eq :: "float32 \<Rightarrow> float32 \<Rightarrow> bool" where
  "float_eq a b \<longleftrightarrow> a \<noteq> NaN \<and> b \<noteq> NaN \<and> (a = b \<or> {a, b} \<subseteq> {NegZero, Fin 0})"

text \<open>Rounding of an exact sum to 24 significant bits, to nearest with ties to even.\<close>

definition round_magnitude :: "nat \<Rightarrow> nat" where
  "round_magnitude m =
    (let u = 2 ^ (floorlog 2 m - 24); q = m div u; r = m mod u in
     (if 2 * r > u \<or> 2 * r = u \<and> odd q then q + 1 else q) * u)"

definition round_float :: "int \<Rightarrow> float32" where
  "round_float n =
    (let v = int (round_magnitude (nat \<bar>n\<bar>)) in
     if v \<ge> float_limit then Inf (n < 0) else Fin (if n < 0 then - v else v))"

fun float_add :: "float32 \<Rightarrow> float32 \<Rightarrow> float32" where
  "float_add NaN b = NaN"
| "float_add a NaN = NaN"
| "float_add (Inf x) (Inf y) = (if x = y then Inf x else NaN)"
| "float_add (Inf x) b = Inf x"
| "float_add a (Inf y) = Inf y"
| "float_add NegZero NegZero = NegZero"
| "float_add a b = (let n = float_rank a + float_rank b in if n = 0 then Fin 0 else round_float n)"

fun float_neg :: "float32 \<Rightarrow> float32" where
  "float_neg NaN = NaN"
| "float_neg (Inf x) = Inf (\<not> x)"
| "float_neg NegZero = Fin 0"
| "float_neg (Fin n) = (if n = 0 then NegZero else Fin (- n))"

definition float_sub :: "float32 \<Rightarrow> float32 \<Rightarrow> float32" where
  "float_sub a b = float_add a (float_neg b)"

definition float_one :: float32 where
  "float_one = Fin (2 ^ 149)"

abbreviation float_zero :: float32 where
  "float_zero \<equiv> Fin 0"

definition representable :: "int \<Rightarrow> bool" where
  "representable n \<longleftrightarrow> (\<exists>m e. n = m * 2 ^ e \<and> \<bar>m\<bar> < 2 ^ 24) \<and> \<bar>n\<bar> < float_limit"

lemma float_eq_zero: "float_eq v (Fin 0) \<longleftrightarrow> v = Fin 0 \<or> v = NegZero"
  by (auto simp: float_eq_def)

lemma float_eq_refl: "float_eq v v \<longleftrightarrow> v \<noteq> NaN"
  by (simp add: float_eq_def)

text \<open>Rounding leaves representable numbers alone, so sums that are representable are exact.\<close>

lemma round_magnitude_exact:
  assumes "m = c * 2 ^ e" "c < 2 ^ 24"
  shows "round_magnitude m = m"
proof -
  let ?k = "floorlog 2 m - 24"
  have "?k \<le> e"
  proof (cases "?k = 0 \<or> m = 0")
    case True
    then show ?thesis by (auto simp: floorlog_def)
  next
    case False
    then have "2 ^ (?k + 23) \<le> c * 2 ^ e" using floorlog_bounds [of m 2] assms(1) by auto
    also have "\<dots> < 2 ^ 24 * 2 ^ e" using assms(2) by simp
    finally have "(2::nat) ^ (?k + 23) < 2 ^ (24 + e)" by (simp add: power_add)
    then show ?thesis using power_less_imp_less_exp [of "2::nat" "?k + 23" "24 + e"] by simp
  qed
  then have "2 ^ ?k dvd m" using assms(1) by (simp add: le_imp_power_dvd)
  then show ?thesis by (auto simp: round_magnitude_def Let_def dvd_imp_mod_0)
qed

lemma round_float_exact:
  assumes "representable n"
  shows "round_float n = Fin n"
proof -
  obtain c e where ce: "n = c * 2 ^ e" "\<bar>c\<bar> < 2 ^ 24" using assms by (auto simp: representable_def)
  have "nat \<bar>n\<bar> = nat \<bar>c\<bar> * 2 ^ e" using ce(1) by (simp add: abs_mult nat_mult_distrib nat_power_eq)
  moreover have "nat \<bar>c\<bar> < 2 ^ 24" using ce(2) by (simp add: nat_less_iff)
  ultimately have "round_magnitude (nat \<bar>n\<bar>) = nat \<bar>n\<bar>" by (rule round_magnitude_exact)
  with assms show ?thesis by (simp add: round_float_def Let_def representable_def)
qed

section \<open>Devices and controls\<close>

datatype InputDeviceType = Keyboard | Mouse | Gamepad | Joystick

datatype InputDeviceBackend = BuiltIn | XInput | RawInputHID

datatype InputControlType = Button | Axis | Wheel

type_synonym DeviceIndex = "8 word"
type_synonym ControlCode = "32 word"

fun device_type_value :: "InputDeviceType \<Rightarrow> nat" where
  "device_type_value Keyboard = 0"
| "device_type_value Mouse = 1"
| "device_type_value Gamepad = 2"
| "device_type_value Joystick = 3"

fun control_type_value :: "InputControlType \<Rightarrow> nat" where
  "control_type_value Button = 0"
| "control_type_value Axis = 1"
| "control_type_value Wheel = 2"

lemma device_type_value_inj [simp]: "device_type_value a = device_type_value b \<longleftrightarrow> a = b"
  by (cases a; cases b) simp_all

lemma control_type_value_inj [simp]: "control_type_value a = control_type_value b \<longleftrightarrow> a = b"
  by (cases a; cases b) simp_all

text \<open>
  The two structs that serve as keys; \<open>operator==\<close> compares all fields and \<open>operator<\<close> is the order of their instances
  of \<open>linorder\<close>.
\<close>

datatype InputDeviceRef = InputDeviceRef (refType: InputDeviceType) (refIndex: DeviceIndex)

datatype InputControl = InputControl (deviceType: InputDeviceType) (deviceIndex: DeviceIndex)
  (controlType: InputControlType) (controlCode: ControlCode)

definition device_less :: "InputDeviceRef \<Rightarrow> InputDeviceRef \<Rightarrow> bool" where
  "device_less left right =
    (if refType left \<noteq> refType right then device_type_value (refType left) < device_type_value (refType right)
     else refIndex left < refIndex right)"

definition control_less :: "InputControl \<Rightarrow> InputControl \<Rightarrow> bool" where
  "control_less left right =
    (if deviceType left \<noteq> deviceType right then device_type_value (deviceType left) < device_type_value (deviceType right)
     else if deviceIndex left \<noteq> deviceIndex right then deviceIndex left < deviceIndex right
     else if controlType left \<noteq> controlType right then control_type_value (controlType left) < control_type_value (controlType right)
     else controlCode left < controlCode right)"

instantiation InputDeviceRef :: linorder
begin

definition less_InputDeviceRef :: "InputDeviceRef \<Rightarrow> InputDeviceRef \<Rightarrow> bool" where
  "less_InputDeviceRef = device_less"

definition less_eq_InputDeviceRef :: "InputDeviceRef \<Rightarrow> InputDeviceRef \<Rightarrow> bool" where
  "less_eq_InputDeviceRef left right \<longleftrightarrow> left < right \<or> left = right"

instance
proof
  fix x y z :: InputDeviceRef
  show "x < y \<longleftrightarrow> x \<le> y \<and> \<not> y \<le> x"
    by (cases x; cases y) (auto simp: less_eq_InputDeviceRef_def less_InputDeviceRef_def device_less_def split: if_splits)
  show "x \<le> x" by (simp add: less_eq_InputDeviceRef_def)
  show "x \<le> y \<Longrightarrow> y \<le> z \<Longrightarrow> x \<le> z"
    by (cases x; cases y; cases z) (auto simp: less_eq_InputDeviceRef_def less_InputDeviceRef_def device_less_def split: if_splits)
  show "x \<le> y \<Longrightarrow> y \<le> x \<Longrightarrow> x = y"
    by (cases x; cases y) (auto simp: less_eq_InputDeviceRef_def less_InputDeviceRef_def device_less_def split: if_splits)
  show "x \<le> y \<or> y \<le> x"
    by (cases x; cases y) (auto simp: less_eq_InputDeviceRef_def less_InputDeviceRef_def device_less_def not_less order.order_iff_strict)
qed

end

instantiation InputControl :: linorder
begin

definition less_InputControl :: "InputControl \<Rightarrow> InputControl \<Rightarrow> bool" where
  "less_InputControl = control_less"

definition less_eq_InputControl :: "InputControl \<Rightarrow> InputControl \<Rightarrow> bool" where
  "less_eq_InputControl left right \<longleftrightarrow> left < right \<or> left = right"

instance
proof
  fix x y z :: InputControl
  show "x < y \<longleftrightarrow> x \<le> y \<and> \<not> y \<le> x"
    by (cases x; cases y) (auto simp: less_eq_InputControl_def less_InputControl_def control_less_def split: if_splits)
  show "x \<le> x" by (simp add: less_eq_InputControl_def)
  show "x \<le> y \<Longrightarrow> y \<le> z \<Longrightarrow> x \<le> z"
    by (cases x; cases y; cases z) (auto simp: less_eq_InputControl_def less_InputControl_def control_less_def split: if_splits)
  show "x \<le> y \<Longrightarrow> y \<le> x \<Longrightarrow> x = y"
    by (cases x; cases y) (auto simp: less_eq_InputControl_def less_InputControl_def control_less_def split: if_splits)
  show "x \<le> y \<or> y \<le> x"
    by (cases x; cases y) (auto simp: less_eq_InputControl_def less_InputControl_def control_less_def not_less order.order_iff_strict)
qed

end

section \<open>Named controls\<close>

datatype MouseButton = LeftButton | RightButton | MiddleButton | X1Button | X2Button
datatype MouseWheel = VerticalWheel | HorizontalWheel
datatype MouseAxis = DeltaX | DeltaY
datatype GamepadButton = North | South | East | West | DpadUp | DpadDown | DpadLeft | DpadRight | LeftShoulder | RightShoulder
  | Back | Start | Guide | LeftStick | RightStick
datatype GamepadAxis = LeftX | LeftY | RightX | RightY | LeftTrigger | RightTrigger

fun mouse_button_value :: "MouseButton \<Rightarrow> ControlCode" where
  "mouse_button_value LeftButton = 0"
| "mouse_button_value RightButton = 1"
| "mouse_button_value MiddleButton = 2"
| "mouse_button_value X1Button = 3"
| "mouse_button_value X2Button = 4"

fun mouse_wheel_value :: "MouseWheel \<Rightarrow> ControlCode" where
  "mouse_wheel_value VerticalWheel = 0"
| "mouse_wheel_value HorizontalWheel = 1"

fun mouse_axis_value :: "MouseAxis \<Rightarrow> ControlCode" where
  "mouse_axis_value DeltaX = 0"
| "mouse_axis_value DeltaY = 1"

definition gamepad_buttons :: "GamepadButton list" where
  "gamepad_buttons = [North, South, East, West, DpadUp, DpadDown, DpadLeft, DpadRight, LeftShoulder, RightShoulder,
    Back, Start, Guide, LeftStick, RightStick]"

fun position :: "'a \<Rightarrow> 'a list \<Rightarrow> nat" where
  "position x [] = 0"
| "position x (y # ys) = (if x = y then 0 else Suc (position x ys))"

definition gamepad_button_value :: "GamepadButton \<Rightarrow> ControlCode" where
  "gamepad_button_value b = of_nat (position b gamepad_buttons)"

fun gamepad_axis_value :: "GamepadAxis \<Rightarrow> ControlCode" where
  "gamepad_axis_value LeftX = 0"
| "gamepad_axis_value LeftY = 1"
| "gamepad_axis_value RightX = 2"
| "gamepad_axis_value RightY = 3"
| "gamepad_axis_value LeftTrigger = 4"
| "gamepad_axis_value RightTrigger = 5"

definition makeKeyboardKey :: "ControlCode \<Rightarrow> InputControl" where
  "makeKeyboardKey code = InputControl Keyboard 0 Button code"

definition makeMouseButton :: "MouseButton \<Rightarrow> InputControl" where
  "makeMouseButton button = InputControl Mouse 0 Button (mouse_button_value button)"

definition makeMouseWheel :: "MouseWheel \<Rightarrow> InputControl" where
  "makeMouseWheel wheel = InputControl Mouse 0 Wheel (mouse_wheel_value wheel)"

definition makeMouseAxis :: "MouseAxis \<Rightarrow> InputControl" where
  "makeMouseAxis axis = InputControl Mouse 0 Axis (mouse_axis_value axis)"

definition makeGamepadButton :: "DeviceIndex \<Rightarrow> GamepadButton \<Rightarrow> InputControl" where
  "makeGamepadButton index button = InputControl Gamepad index Button (gamepad_button_value button)"

definition makeGamepadAxis :: "DeviceIndex \<Rightarrow> GamepadAxis \<Rightarrow> InputControl" where
  "makeGamepadAxis index axis = InputControl Gamepad index Axis (gamepad_axis_value axis)"

definition makeDeviceButton :: "InputDeviceRef \<Rightarrow> ControlCode \<Rightarrow> InputControl" where
  "makeDeviceButton device code = InputControl (refType device) (refIndex device) Button code"

definition makeDeviceAxis :: "InputDeviceRef \<Rightarrow> ControlCode \<Rightarrow> InputControl" where
  "makeDeviceAxis device code = InputControl (refType device) (refIndex device) Axis code"

definition control_device :: "InputControl \<Rightarrow> InputDeviceRef" where
  "control_device c = InputDeviceRef (deviceType c) (deviceIndex c)"

section \<open>Sorted control vectors\<close>

definition isButtonControl :: "InputControl \<Rightarrow> bool" where
  "isButtonControl control \<longleftrightarrow> controlType control = Button"

definition isAxisControl :: "InputControl \<Rightarrow> bool" where
  "isAxisControl control \<longleftrightarrow> controlType control = Axis"

definition isWheelControl :: "InputControl \<Rightarrow> bool" where
  "isWheelControl control \<longleftrightarrow> controlType control = Wheel"

definition findControl :: "InputControl list \<Rightarrow> InputControl \<Rightarrow> nat" where
  "findControl controls control = lower_bound_by (\<lambda>c. c < control) controls"

definition isMatchingControl :: "InputControl list \<Rightarrow> nat \<Rightarrow> InputControl \<Rightarrow> bool" where
  "isMatchingControl controls entry control \<longleftrightarrow> entry \<noteq> length controls \<and> controls ! entry = control"

definition containsControl :: "InputControl list \<Rightarrow> InputControl \<Rightarrow> bool" where
  "containsControl controls control = isMatchingControl controls (findControl controls control) control"

definition addUniqueControl :: "InputControl \<Rightarrow> InputControl list \<Rightarrow> InputControl list" where
  "addUniqueControl control controls =
    (let entry = findControl controls control in
     if \<not> isMatchingControl controls entry control then insert_at entry control controls else controls)"

definition removeControl :: "InputControl \<Rightarrow> InputControl list \<Rightarrow> InputControl list" where
  "removeControl control controls =
    (let entry = findControl controls control in
     if isMatchingControl controls entry control then erase_at entry controls else controls)"

type_synonym control_values = "(InputControl \<times> float32) list"

definition findControlValue :: "control_values \<Rightarrow> InputControl \<Rightarrow> nat" where
  "findControlValue vals control = lower_bound_by (\<lambda>entry. fst entry < control) vals"

definition isMatchingControlValue :: "control_values \<Rightarrow> nat \<Rightarrow> InputControl \<Rightarrow> bool" where
  "isMatchingControlValue vals entry control \<longleftrightarrow> entry \<noteq> length vals \<and> fst (vals ! entry) = control"

definition setControlValue :: "control_values \<Rightarrow> InputControl \<Rightarrow> float32 \<Rightarrow> control_values" where
  "setControlValue vals control v =
    (let entry = findControlValue vals control in
     if float_eq v (Fin 0) then (if isMatchingControlValue vals entry control then erase_at entry vals else vals)
     else if isMatchingControlValue vals entry control then vals[entry := (fst (vals ! entry), v)]
     else insert_at entry (control, v) vals)"

definition getControlValue :: "control_values \<Rightarrow> InputControl \<Rightarrow> float32" where
  "getControlValue vals control =
    (let entry = findControlValue vals control in
     if isMatchingControlValue vals entry control then snd (vals ! entry) else Fin 0)"

interpretation ctl: keyed_vector "\<lambda>c :: InputControl. c" findControl
  by unfold_locales (simp add: findControl_def)

interpretation cval: keyed_vector "fst :: InputControl \<times> float32 \<Rightarrow> InputControl" findControlValue
  by unfold_locales (simp add: findControlValue_def)

abbreviation sorted_controls :: "InputControl list \<Rightarrow> bool" where
  "sorted_controls cs \<equiv> ascending (\<lambda>c. c) cs"

lemma isMatchingControl_find [simp]: "sorted_controls cs \<Longrightarrow> isMatchingControl cs (findControl cs c) c \<longleftrightarrow> c \<in> set cs"
  using ctl.find_hit [of cs c] by (simp add: isMatchingControl_def)

lemma containsControl_iff [simp]: "sorted_controls cs \<Longrightarrow> containsControl cs c \<longleftrightarrow> c \<in> set cs"
  by (simp add: containsControl_def)

lemma addUniqueControl_spec:
  assumes "sorted_controls cs"
  shows "sorted_controls (addUniqueControl c cs)" "set (addUniqueControl c cs) = insert c (set cs)"
  using ctl.insert_new [OF assms, of c] assms by (auto simp: addUniqueControl_def Let_def)

lemma removeControl_spec:
  assumes "sorted_controls cs"
  shows "sorted_controls (removeControl c cs)" "set (removeControl c cs) = set cs - {c}"
  using ctl.erase_hit [OF assms, of c] assms by (auto simp: removeControl_def Let_def sorted_wrt_filter)

lemma matching_value [simp]:
  "ascending fst vals \<Longrightarrow> isMatchingControlValue vals (findControlValue vals c) c \<longleftrightarrow> c \<in> fst ` set vals"
  using cval.find_hit [of vals c] by (simp add: isMatchingControlValue_def)

lemma ascending_distinct: "ascending key xs \<Longrightarrow> distinct (map key xs)"
  by (induction xs) (auto dest: order.strict_implies_not_eq)

lemma getControlValue_map_of:
  assumes "ascending fst vals"
  shows "getControlValue vals c = (case map_of vals c of None \<Rightarrow> Fin 0 | Some v \<Rightarrow> v)"
proof (cases "map_of vals c")
  case None
  then have "c \<notin> fst ` set vals" by (simp add: map_of_eq_None_iff)
  with None show ?thesis using assms by (simp add: getControlValue_def Let_def)
next
  case (Some v)
  then have "(c, v) \<in> set vals" by (rule map_of_SomeD)
  from cval.find_nth [OF assms this, of c] have "vals ! findControlValue vals c = (c, v)" by simp
  moreover have "c \<in> fst ` set vals" using \<open>(c, v) \<in> set vals\<close> by force
  ultimately show ?thesis using Some assms by (simp add: getControlValue_def Let_def)
qed

lemma setControlValue_spec:
  assumes "ascending fst vals"
  shows "ascending fst (setControlValue vals c v)"
    and "set (setControlValue vals c v) = {e \<in> set vals. fst e \<noteq> c} \<union> (if float_eq v (Fin 0) then {} else {(c, v)})"
proof -
  let ?i = "findControlValue vals c"
  have "ascending fst (setControlValue vals c v) \<and>
    set (setControlValue vals c v) = {e \<in> set vals. fst e \<noteq> c} \<union> (if float_eq v (Fin 0) then {} else {(c, v)})"
  proof (cases "c \<in> fst ` set vals")
    case True
    then have "fst (vals ! ?i) = c" using cval.find_hit [OF assms, of c] by simp
    then show ?thesis
      using True cval.erase_hit [OF assms True] cval.update_hit [OF assms True, of "(c, v)"] assms
      by (auto simp: setControlValue_def Let_def sorted_wrt_filter)
  next
    case False
    then show ?thesis
      using cval.insert_new [OF assms, of "(c, v)"] assms by (auto simp: setControlValue_def Let_def)
  qed
  then show "ascending fst (setControlValue vals c v)"
    "set (setControlValue vals c v) = {e \<in> set vals. fst e \<noteq> c} \<union> (if float_eq v (Fin 0) then {} else {(c, v)})" by blast+
qed

lemma map_of_ascending:
  assumes "ascending fst vals"
  shows "map_of vals c = Some v \<longleftrightarrow> (c, v) \<in> set vals"
  using ascending_distinct [OF assms] by (auto intro: map_of_is_SomeI dest: map_of_SomeD)

lemma map_of_setControlValue:
  assumes "ascending fst vals"
  shows "map_of (setControlValue vals c v) = (map_of vals)(c := if float_eq v (Fin 0) then None else Some v)"
proof
  fix d
  let ?m = "map_of (setControlValue vals c v)"
  note s = setControlValue_spec [OF assms, of c v]
  have "?m d = Some w \<longleftrightarrow> ((map_of vals)(c := if float_eq v (Fin 0) then None else Some v)) d = Some w" for w
    unfolding map_of_ascending [OF s(1)] s(2) using map_of_ascending [OF assms] by (cases "d = c") auto
  then show "?m d = ((map_of vals)(c := if float_eq v (Fin 0) then None else Some v)) d" by (metis option.exhaust)
qed

lemma getControlValue_set:
  assumes "ascending fst vals"
  shows "getControlValue (setControlValue vals c v) d =
    (if d = c then (if float_eq v (Fin 0) then Fin 0 else v) else getControlValue vals d)"
  unfolding getControlValue_map_of [OF setControlValue_spec(1) [OF assms]] getControlValue_map_of [OF assms] map_of_setControlValue [OF assms]
  by simp

end
