(* ===== verification/Input_State.thy ===== *)
theory Input_State
  imports Input_Types Unicode_Text
begin

text \<open>
  The class \<open>InputState\<close> of \<^verbatim>\<open>engine/input/core/input.cpp\<close>: held buttons, frame transitions, axes, wheels, pointer, connected
  devices, activations and typed text, with the mutations the platform backends call. Vectors are searched by halving
  and kept sorted; the abstract view below is what the queries answer, and every mutation refines its effect there.
\<close>

section \<open>State\<close>

datatype InputActivationType = ButtonPressed | ButtonReleased | AxisPositive | AxisNegative | AxisChanged | WheelPositive | WheelNegative

record InputActivation =
  activationControl :: InputControl
  activationType :: InputActivationType
  activationValue :: float32
  previousValue :: float32

record InputState =
  currentButtons :: "InputControl list"
  pressedButtons :: "InputControl list"
  releasedButtons :: "InputControl list"
  axisValues :: control_values
  wheelDeltas :: control_values
  connectedDevices :: "InputDeviceRef list"
  activations :: "InputActivation list"
  textInputUtf8 :: "byte list"
  clearGeneration :: "64 word"
  pendingTextHighSurrogate :: char16
  mouseDeltaX :: int
  mouseDeltaY :: int
  mouseX :: int
  mouseY :: int
  mousePositionKnown :: bool

definition initial_input :: InputState where
  "initial_input = \<lparr>currentButtons = [], pressedButtons = [], releasedButtons = [], axisValues = [], wheelDeltas = [],
    connectedDevices = [], activations = [], textInputUtf8 = [], clearGeneration = 0, pendingTextHighSurrogate = 0,
    mouseDeltaX = 0, mouseDeltaY = 0, mouseX = 0, mouseY = 0, mousePositionKnown = False\<rparr>"

section \<open>Queries\<close>

definition isButtonDown :: "InputState \<Rightarrow> InputControl \<Rightarrow> bool" where
  "isButtonDown s control = (if \<not> isButtonControl control then False else containsControl (currentButtons s) control)"

definition wasButtonPressed :: "InputState \<Rightarrow> InputControl \<Rightarrow> bool" where
  "wasButtonPressed s control = (if \<not> isButtonControl control then False else containsControl (pressedButtons s) control)"

definition wasButtonReleased :: "InputState \<Rightarrow> InputControl \<Rightarrow> bool" where
  "wasButtonReleased s control = (if \<not> isButtonControl control then False else containsControl (releasedButtons s) control)"

definition getAxis :: "InputState \<Rightarrow> InputControl \<Rightarrow> float32" where
  "getAxis s control = (if \<not> isAxisControl control then Fin 0 else getControlValue (axisValues s) control)"

definition getWheelDelta :: "InputState \<Rightarrow> InputControl \<Rightarrow> float32" where
  "getWheelDelta s control = (if \<not> isWheelControl control then Fin 0 else getControlValue (wheelDeltas s) control)"

definition findConnectedDevice :: "InputDeviceRef list \<Rightarrow> InputDeviceRef \<Rightarrow> nat" where
  "findConnectedDevice devices target = lower_bound_by (\<lambda>d. d < target) devices"

definition isDeviceConnected :: "InputState \<Rightarrow> InputDeviceType \<Rightarrow> DeviceIndex \<Rightarrow> bool" where
  "isDeviceConnected s t index =
    (if (t = Keyboard \<or> t = Mouse) \<and> index = 0 then True
     else let target = InputDeviceRef t index; entry = findConnectedDevice (connectedDevices s) target in
       entry \<noteq> length (connectedDevices s) \<and> connectedDevices s ! entry = target)"

definition tryGetFirstActivation :: "InputState \<Rightarrow> InputActivation option" where
  "tryGetFirstActivation s = (if activations s = [] then None else Some (hd (activations s)))"

definition hasTextInput :: "InputState \<Rightarrow> bool" where
  "hasTextInput s \<longleftrightarrow> textInputUtf8 s \<noteq> []"

section \<open>Mutations\<close>

definition buttonActivation :: "InputControl \<Rightarrow> bool \<Rightarrow> InputActivation" where
  "buttonActivation control isDown =
    \<lparr>activationControl = control, activationType = (if isDown then ButtonPressed else ButtonReleased),
     activationValue = (if isDown then float_one else Fin 0), previousValue = (if isDown then Fin 0 else float_one)\<rparr>"

definition clearMousePositionInternal :: "InputState \<Rightarrow> InputState" where
  "clearMousePositionInternal s = s\<lparr>mouseX := 0, mouseY := 0, mousePositionKnown := False\<rparr>"

definition clear :: "bool \<Rightarrow> InputState \<Rightarrow> InputState" where
  "clear emitReleaseActivations s =
    (let s = s\<lparr>activations := [], pressedButtons := [], releasedButtons := []\<rparr>;
         s = (if emitReleaseActivations
              then s\<lparr>releasedButtons := foldl (\<lambda>released control. addUniqueControl control released) [] (currentButtons s),
                     activations := map (\<lambda>control. buttonActivation control False) (currentButtons s)\<rparr>
              else s) in
     clearMousePositionInternal
       (s\<lparr>currentButtons := [], axisValues := [], wheelDeltas := [], textInputUtf8 := [], pendingTextHighSurrogate := 0,
          mouseDeltaX := 0, mouseDeltaY := 0, clearGeneration := clearGeneration s + 1\<rparr>))"

definition advanceFrame :: "InputState \<Rightarrow> InputState" where
  "advanceFrame s = s\<lparr>pressedButtons := [], releasedButtons := [], wheelDeltas := [], activations := [], textInputUtf8 := [],
    mouseDeltaX := 0, mouseDeltaY := 0\<rparr>"

definition setButtonInternal :: "InputControl \<Rightarrow> bool \<Rightarrow> InputState \<Rightarrow> InputState" where
  "setButtonInternal control isDown s =
    (if \<not> isButtonControl control then s
     else let wasDown = containsControl (currentButtons s) control in
     if isDown = wasDown then s
     else let s = (if isDown
                   then s\<lparr>currentButtons := addUniqueControl control (currentButtons s),
                          pressedButtons := addUniqueControl control (pressedButtons s)\<rparr>
                   else s\<lparr>currentButtons := removeControl control (currentButtons s),
                          releasedButtons := addUniqueControl control (releasedButtons s)\<rparr>) in
       s\<lparr>activations := activations s @
         [\<lparr>activationControl = control, activationType = (if isDown then ButtonPressed else ButtonReleased),
           activationValue = (if isDown then float_one else Fin 0), previousValue = (if wasDown then float_one else Fin 0)\<rparr>]\<rparr>)"

definition axisActivation :: "float32 \<Rightarrow> float32 \<Rightarrow> InputActivationType" where
  "axisActivation previous v =
    (if float_le previous (Fin 0) \<and> float_less (Fin 0) v then AxisPositive
     else if float_le (Fin 0) previous \<and> float_less v (Fin 0) then AxisNegative
     else AxisChanged)"

definition setAxisInternal :: "InputControl \<Rightarrow> float32 \<Rightarrow> InputState \<Rightarrow> InputState" where
  "setAxisInternal control v s =
    (if \<not> isAxisControl control then s
     else let previous = getAxis s control in
     if float_eq previous v then s
     else s\<lparr>axisValues := setControlValue (axisValues s) control v,
       activations := activations s @ [\<lparr>activationControl = control, activationType = axisActivation previous v,
         activationValue = v, previousValue = previous\<rparr>]\<rparr>)"

text \<open>Signed overflow of \<open>int\<close> is undefined; \<open>None\<close> stands for it.\<close>

definition add_int :: "int \<Rightarrow> int \<Rightarrow> int option" where
  "add_int a b = (if - (2 ^ 31) \<le> a + b \<and> a + b < 2 ^ 31 then Some (a + b) else None)"

definition addMouseDeltaInternal :: "int \<Rightarrow> int \<Rightarrow> InputState \<Rightarrow> InputState option" where
  "addMouseDeltaInternal dx dy s =
    (case add_int (mouseDeltaX s) dx of None \<Rightarrow> None
     | Some x \<Rightarrow> (case add_int (mouseDeltaY s) dy of None \<Rightarrow> None
        | Some y \<Rightarrow> Some (s\<lparr>mouseDeltaX := x, mouseDeltaY := y\<rparr>)))"

definition setMousePositionInternal :: "int \<Rightarrow> int \<Rightarrow> InputState \<Rightarrow> InputState" where
  "setMousePositionInternal x y s = s\<lparr>mouseX := x, mouseY := y, mousePositionKnown := True\<rparr>"

definition addWheelDeltaInternal :: "InputControl \<Rightarrow> float32 \<Rightarrow> InputState \<Rightarrow> InputState" where
  "addWheelDeltaInternal control amount s =
    (if \<not> isWheelControl control \<or> float_eq amount (Fin 0) then s
     else let newAmount = float_add (getControlValue (wheelDeltas s) control) amount in
       s\<lparr>wheelDeltas := setControlValue (wheelDeltas s) control newAmount,
         activations := activations s @ [\<lparr>activationControl = control,
           activationType = (if float_less (Fin 0) amount then WheelPositive else WheelNegative),
           activationValue = amount, previousValue = float_sub newAmount amount\<rparr>]\<rparr>)"

definition addTextUtf8Internal :: "byte list \<Rightarrow> InputState \<Rightarrow> InputState" where
  "addTextUtf8Internal t s = s\<lparr>textInputUtf8 := textInputUtf8 s @ t\<rparr>"

definition appendUtf8Codepoint :: "byte list \<Rightarrow> char32 \<Rightarrow> byte list" where
  "appendUtf8Codepoint t codepoint =
    (let encoded = Utf8_encodeScalar codepoint;
         encoded = (if encodeOutcome8 encoded \<noteq> Encoded then Utf8_encodeScalar 0xFFFD else encoded) in
     t @ take (byteCount encoded) (encoded_bytes encoded))"

definition addTextCodepointInternal :: "char32 \<Rightarrow> InputState \<Rightarrow> InputState" where
  "addTextCodepointInternal codepoint s = s\<lparr>textInputUtf8 := appendUtf8Codepoint (textInputUtf8 s) codepoint\<rparr>"

definition setPendingTextHighSurrogateInternal :: "char16 \<Rightarrow> InputState \<Rightarrow> InputState" where
  "setPendingTextHighSurrogateInternal codeUnit s = s\<lparr>pendingTextHighSurrogate := codeUnit\<rparr>"

definition clearTextCompositionInternal :: "InputState \<Rightarrow> InputState" where
  "clearTextCompositionInternal s = s\<lparr>pendingTextHighSurrogate := 0\<rparr>"

definition setDeviceConnectedInternal :: "InputDeviceType \<Rightarrow> DeviceIndex \<Rightarrow> bool \<Rightarrow> InputState \<Rightarrow> InputState" where
  "setDeviceConnectedInternal t index isConnected s =
    (let target = InputDeviceRef t index; entry = findConnectedDevice (connectedDevices s) target;
         found = (entry \<noteq> length (connectedDevices s) \<and> connectedDevices s ! entry = target) in
     if isConnected then (if \<not> found then s\<lparr>connectedDevices := insert_at entry target (connectedDevices s)\<rparr> else s)
     else if found then s\<lparr>connectedDevices := erase_at entry (connectedDevices s)\<rparr> else s)"

text \<open>The loops of \<open>clearDeviceInternal\<close>: the buttons kept, \<open>releasedButtons\<close> and \<open>activations\<close>; and the axis values kept.\<close>

fun clearDeviceButtons ::
    "InputDeviceRef \<Rightarrow> InputControl list \<Rightarrow> InputControl list \<Rightarrow> InputActivation list \<Rightarrow>
      InputControl list \<times> InputControl list \<times> InputActivation list" where
  "clearDeviceButtons device [] released acts = ([], released, acts)"
| "clearDeviceButtons device (c # cs) released acts =
    (if deviceType c = refType device \<and> deviceIndex c = refIndex device
     then clearDeviceButtons device cs (addUniqueControl c released) (acts @ [buttonActivation c False])
     else (case clearDeviceButtons device cs released acts of (kept, r, a) \<Rightarrow> (c # kept, r, a)))"

fun clearDeviceAxes :: "InputDeviceRef \<Rightarrow> control_values \<Rightarrow> control_values" where
  "clearDeviceAxes device [] = []"
| "clearDeviceAxes device (v # vs) =
    (if deviceType (fst v) = refType device \<and> deviceIndex (fst v) = refIndex device
     then clearDeviceAxes device vs else v # clearDeviceAxes device vs)"

definition clearDeviceInternal :: "InputDeviceRef \<Rightarrow> InputState \<Rightarrow> InputState" where
  "clearDeviceInternal device s =
    (case clearDeviceButtons device (currentButtons s) (releasedButtons s) (activations s) of
       (kept, released, acts) \<Rightarrow>
         s\<lparr>currentButtons := kept, releasedButtons := released, activations := acts,
           axisValues := clearDeviceAxes device (axisValues s)\<rparr>)"

text \<open>The calls of \<open>InputStateAccess\<close> and the two public mutations, and a sequence of them.\<close>

datatype input_op =
  Op_clear bool | Op_advanceFrame | Op_setButton InputControl bool | Op_setAxis InputControl float32 | Op_addMouseDelta int int
| Op_setMousePosition int int | Op_clearMousePosition | Op_addWheelDelta InputControl float32 | Op_addTextUtf8 "byte list"
| Op_addTextCodepoint char32 | Op_setPendingTextHighSurrogate char16 | Op_clearTextComposition
| Op_setDeviceConnected InputDeviceType DeviceIndex bool | Op_clearDevice InputDeviceRef

fun input_apply :: "input_op \<Rightarrow> InputState \<Rightarrow> InputState option" where
  "input_apply (Op_clear e) s = Some (clear e s)"
| "input_apply Op_advanceFrame s = Some (advanceFrame s)"
| "input_apply (Op_setButton c d) s = Some (setButtonInternal c d s)"
| "input_apply (Op_setAxis c v) s = Some (setAxisInternal c v s)"
| "input_apply (Op_addMouseDelta x y) s = addMouseDeltaInternal x y s"
| "input_apply (Op_setMousePosition x y) s = Some (setMousePositionInternal x y s)"
| "input_apply Op_clearMousePosition s = Some (clearMousePositionInternal s)"
| "input_apply (Op_addWheelDelta c v) s = Some (addWheelDeltaInternal c v s)"
| "input_apply (Op_addTextUtf8 t) s = Some (addTextUtf8Internal t s)"
| "input_apply (Op_addTextCodepoint c) s = Some (addTextCodepointInternal c s)"
| "input_apply (Op_setPendingTextHighSurrogate u) s = Some (setPendingTextHighSurrogateInternal u s)"
| "input_apply Op_clearTextComposition s = Some (clearTextCompositionInternal s)"
| "input_apply (Op_setDeviceConnected t i c) s = Some (setDeviceConnectedInternal t i c s)"
| "input_apply (Op_clearDevice d) s = Some (clearDeviceInternal d s)"

fun input_run :: "input_op list \<Rightarrow> InputState \<Rightarrow> InputState option" where
  "input_run [] s = Some s"
| "input_run (a # as) s = (case input_apply a s of None \<Rightarrow> None | Some s' \<Rightarrow> input_run as s')"

section \<open>Abstract view\<close>

text \<open>What the queries answer: sets of buttons and devices, total functions for axes and wheels.\<close>

record input_view =
  held :: "InputControl set"
  pressed :: "InputControl set"
  released :: "InputControl set"
  axis :: "InputControl \<Rightarrow> float32"
  wheel :: "InputControl \<Rightarrow> float32"
  attached :: "InputDeviceRef set"
  typed :: "byte list"
  delta :: "int \<times> int"
  pointer :: "(int \<times> int) option"

definition view_of :: "InputState \<Rightarrow> input_view" where
  "view_of s = \<lparr>held = {c. isButtonDown s c}, pressed = {c. wasButtonPressed s c}, released = {c. wasButtonReleased s c},
    axis = getAxis s, wheel = getWheelDelta s, attached = {d. isDeviceConnected s (refType d) (refIndex d)},
    typed = textInputUtf8 s, delta = (mouseDeltaX s, mouseDeltaY s),
    pointer = (if mousePositionKnown s then Some (mouseX s, mouseY s) else None)\<rparr>"

text \<open>A value as it is stored: the two zeros are the absence of a value.\<close>

definition stored :: "float32 \<Rightarrow> float32" where
  "stored v = (if float_eq v (Fin 0) then Fin 0 else v)"

definition always_connected :: "InputDeviceRef set" where
  "always_connected = {InputDeviceRef Keyboard 0, InputDeviceRef Mouse 0}"

definition scalar_text :: "char32 \<Rightarrow> byte list" where
  "scalar_text c = utf8_encoding (if isScalarValue c then c else 0xFFFD)"

fun view_apply :: "input_op \<Rightarrow> input_view \<Rightarrow> input_view option" where
  "view_apply (Op_clear e) v = Some (v\<lparr>held := {}, pressed := {}, released := (if e then held v else {}), axis := (\<lambda>_. Fin 0),
     wheel := (\<lambda>_. Fin 0), typed := [], delta := (0, 0), pointer := None\<rparr>)"
| "view_apply Op_advanceFrame v = Some (v\<lparr>pressed := {}, released := {}, wheel := (\<lambda>_. Fin 0), typed := [], delta := (0, 0)\<rparr>)"
| "view_apply (Op_setButton c d) v = Some
    (if controlType c \<noteq> Button \<or> (c \<in> held v \<longleftrightarrow> d) then v
     else if d then v\<lparr>held := insert c (held v), pressed := insert c (pressed v)\<rparr>
     else v\<lparr>held := held v - {c}, released := insert c (released v)\<rparr>)"
| "view_apply (Op_setAxis c x) v = Some (if controlType c \<noteq> Axis then v else v\<lparr>axis := (axis v)(c := stored x)\<rparr>)"
| "view_apply (Op_addMouseDelta x y) v =
    (case add_int (fst (delta v)) x of None \<Rightarrow> None
     | Some x' \<Rightarrow> map_option (\<lambda>y'. v\<lparr>delta := (x', y')\<rparr>) (add_int (snd (delta v)) y))"
| "view_apply (Op_setMousePosition x y) v = Some (v\<lparr>pointer := Some (x, y)\<rparr>)"
| "view_apply Op_clearMousePosition v = Some (v\<lparr>pointer := None\<rparr>)"
| "view_apply (Op_addWheelDelta c x) v = Some
    (if controlType c \<noteq> Wheel \<or> float_eq x (Fin 0) then v
     else v\<lparr>wheel := (wheel v)(c := stored (float_add (wheel v c) x))\<rparr>)"
| "view_apply (Op_addTextUtf8 t) v = Some (v\<lparr>typed := typed v @ t\<rparr>)"
| "view_apply (Op_addTextCodepoint c) v = Some (v\<lparr>typed := typed v @ scalar_text c\<rparr>)"
| "view_apply (Op_setPendingTextHighSurrogate u) v = Some v"
| "view_apply Op_clearTextComposition v = Some v"
| "view_apply (Op_setDeviceConnected t i c) v = Some
    (v\<lparr>attached := (if c then insert (InputDeviceRef t i) (attached v)
                     else attached v - ({InputDeviceRef t i} - always_connected))\<rparr>)"
| "view_apply (Op_clearDevice d) v = Some
    (let mine = {c. control_device c = d} in
     v\<lparr>held := held v - mine, released := released v \<union> (held v \<inter> mine),
       axis := (\<lambda>c. if c \<in> mine then Fin 0 else axis v c)\<rparr>)"

fun view_run :: "input_op list \<Rightarrow> input_view \<Rightarrow> input_view option" where
  "view_run [] v = Some v"
| "view_run (a # as) v = (case view_apply a v of None \<Rightarrow> None | Some v' \<Rightarrow> view_run as v')"

definition initial_view :: input_view where
  "initial_view = \<lparr>held = {}, pressed = {}, released = {}, axis = (\<lambda>_. Fin 0), wheel = (\<lambda>_. Fin 0),
    attached = always_connected, typed = [], delta = (0, 0), pointer = None\<rparr>"

section \<open>Invariant\<close>

definition of_kind :: "InputActivationType \<Rightarrow> InputActivation list \<Rightarrow> InputControl set" where
  "of_kind k acts = activationControl ` {a \<in> set acts. activationType a = k}"

definition buttons_ok :: "InputControl list \<Rightarrow> bool" where
  "buttons_ok cs \<longleftrightarrow> sorted_controls cs \<and> (\<forall>c \<in> set cs. controlType c = Button)"

definition values_ok :: "InputControlType \<Rightarrow> control_values \<Rightarrow> bool" where
  "values_ok k vs \<longleftrightarrow> ascending fst vs \<and> (\<forall>(c, v) \<in> set vs. controlType c = k \<and> \<not> float_eq v (Fin 0))"

definition input_ok :: "InputState \<Rightarrow> bool" where
  "input_ok s \<longleftrightarrow> buttons_ok (currentButtons s) \<and> buttons_ok (pressedButtons s) \<and> buttons_ok (releasedButtons s) \<and>
    values_ok Axis (axisValues s) \<and> values_ok Wheel (wheelDeltas s) \<and> ascending (\<lambda>d. d) (connectedDevices s) \<and>
    set (pressedButtons s) = of_kind ButtonPressed (activations s) \<and>
    set (releasedButtons s) = of_kind ButtonReleased (activations s)"


section \<open>Each mutation refines its effect on the view\<close>

interpretation dev: keyed_vector "\<lambda>d :: InputDeviceRef. d" findConnectedDevice
  by unfold_locales (simp add: findConnectedDevice_def)

lemma buttons_okD: "buttons_ok cs \<Longrightarrow> sorted_controls cs" "buttons_ok cs \<Longrightarrow> c \<in> set cs \<Longrightarrow> controlType c = Button"
  by (simp_all add: buttons_ok_def)

lemma values_okD: "values_ok k vs \<Longrightarrow> ascending fst vs" "values_ok k vs \<Longrightarrow> (c, v) \<in> set vs \<Longrightarrow> controlType c = k \<and> \<not> float_eq v (Fin 0)"
  by (auto simp: values_ok_def)

lemma buttons_ok_add [simp]: "buttons_ok cs \<Longrightarrow> controlType c = Button \<Longrightarrow> buttons_ok (addUniqueControl c cs)"
  using addUniqueControl_spec [of cs c] by (simp add: buttons_ok_def)

lemma buttons_ok_remove [simp]: "buttons_ok cs \<Longrightarrow> buttons_ok (removeControl c cs)"
  using removeControl_spec [of cs c] by (simp add: buttons_ok_def)

lemma buttons_ok_Nil [simp]: "buttons_ok []"
  by (simp add: buttons_ok_def)

lemma values_ok_Nil [simp]: "values_ok k []"
  by (simp add: values_ok_def)

lemma values_ok_set:
  assumes "values_ok k vs" "controlType c = k"
  shows "values_ok k (setControlValue vs c v)"
  using assms setControlValue_spec [of vs c v] by (auto simp: values_ok_def split: if_splits)

lemma getControlValue_other_kind:
  assumes "values_ok k vs" "controlType c \<noteq> k"
  shows "getControlValue vs c = Fin 0"
proof -
  have "map_of vs c = None" using values_okD(2) [OF assms(1), of c] assms(2) by (metis map_of_SomeD option.exhaust)
  then show ?thesis using getControlValue_map_of [OF values_okD(1) [OF assms(1)]] by simp
qed

lemma isDeviceConnected_iff:
  assumes "ascending (\<lambda>d. d) (connectedDevices s)"
  shows "isDeviceConnected s (refType d) (refIndex d) \<longleftrightarrow> d \<in> set (connectedDevices s) \<or> d \<in> always_connected"
  using dev.find_hit [OF assms, of d] by (cases d) (auto simp: isDeviceConnected_def Let_def always_connected_def)

lemma view_of_ok:
  assumes "input_ok s"
  shows "view_of s = \<lparr>held = set (currentButtons s), pressed = set (pressedButtons s), released = set (releasedButtons s),
    axis = getControlValue (axisValues s), wheel = getControlValue (wheelDeltas s),
    attached = set (connectedDevices s) \<union> always_connected,
    typed = textInputUtf8 s, delta = (mouseDeltaX s, mouseDeltaY s),
    pointer = (if mousePositionKnown s then Some (mouseX s, mouseY s) else None)\<rparr>"
proof -
  have "getAxis s = getControlValue (axisValues s)" "getWheelDelta s = getControlValue (wheelDeltas s)"
    using assms getControlValue_other_kind [of Axis "axisValues s"] getControlValue_other_kind [of Wheel "wheelDeltas s"]
    by (auto simp: fun_eq_iff getAxis_def getWheelDelta_def isAxisControl_def isWheelControl_def input_ok_def)
  moreover have "{c. isButtonControl c \<and> containsControl cs c} = set cs" if "buttons_ok cs" for cs
    using that by (auto simp: buttons_ok_def isButtonControl_def)
  moreover have "{d. isDeviceConnected s (refType d) (refIndex d)} = set (connectedDevices s) \<union> always_connected"
    using assms isDeviceConnected_iff [of s] by (auto simp: input_ok_def)
  ultimately show ?thesis
    using assms by (simp add: view_of_def input_ok_def isButtonDown_def wasButtonPressed_def wasButtonReleased_def cong: conj_cong)
qed

text \<open>One mutation: the invariant is kept and the view changes as specified.\<close>

definition refines_op :: "input_op \<Rightarrow> InputState \<Rightarrow> bool" where
  "refines_op a s \<longleftrightarrow> (case input_apply a s of
     None \<Rightarrow> view_apply a (view_of s) = None
   | Some s' \<Rightarrow> input_ok s' \<and> view_apply a (view_of s) = Some (view_of s'))"

lemma refines_opI:
  "input_apply a s = Some s' \<Longrightarrow> input_ok s' \<Longrightarrow> view_apply a (view_of s) = Some (view_of s') \<Longrightarrow> refines_op a s"
  by (simp add: refines_op_def)

lemma of_kind_simps [simp]:
  "of_kind k [] = {}"
  "of_kind k (a # acts) = (if activationType a = k then insert (activationControl a) (of_kind k acts) else of_kind k acts)"
  "of_kind k (acts @ [a]) = (if activationType a = k then insert (activationControl a) (of_kind k acts) else of_kind k acts)"
  by (auto simp: of_kind_def)

lemma refines_simple:
  assumes "input_ok s"
  shows "refines_op Op_advanceFrame s" "refines_op (Op_setMousePosition x y) s" "refines_op Op_clearMousePosition s"
    "refines_op (Op_addTextUtf8 t) s" "refines_op (Op_setPendingTextHighSurrogate u) s" "refines_op Op_clearTextComposition s"
proof -
  have ok: "input_ok (advanceFrame s)" "input_ok (setMousePositionInternal x y s)" "input_ok (clearMousePositionInternal s)"
    "input_ok (addTextUtf8Internal t s)" "input_ok (setPendingTextHighSurrogateInternal u s)" "input_ok (clearTextCompositionInternal s)"
    using assms by (simp_all add: input_ok_def advanceFrame_def setMousePositionInternal_def clearMousePositionInternal_def
      addTextUtf8Internal_def setPendingTextHighSurrogateInternal_def clearTextCompositionInternal_def)
  have gz: "getControlValue [] = (\<lambda>_. Fin 0)" by (simp add: fun_eq_iff getControlValue_map_of)
  show "refines_op Op_advanceFrame s" "refines_op (Op_setMousePosition x y) s" "refines_op Op_clearMousePosition s"
    "refines_op (Op_addTextUtf8 t) s" "refines_op (Op_setPendingTextHighSurrogate u) s" "refines_op Op_clearTextComposition s"
    using ok by (auto intro!: refines_opI simp: view_of_ok assms)
      (simp_all add: advanceFrame_def setMousePositionInternal_def clearMousePositionInternal_def
      addTextUtf8Internal_def setPendingTextHighSurrogateInternal_def clearTextCompositionInternal_def gz)
qed

lemma refines_mouse_delta:
  assumes "input_ok s"
  shows "refines_op (Op_addMouseDelta x y) s"
proof -
  have "input_ok (s\<lparr>mouseDeltaX := a, mouseDeltaY := b\<rparr>)" for a b using assms by (simp add: input_ok_def)
  then show ?thesis using assms
    by (simp add: refines_op_def addMouseDeltaInternal_def view_of_ok split: option.split)
qed

lemma scalar_replacement: "isScalarValue 0xFFFD"
  by (simp add: isScalarValue_def kMaximumScalarValue_def)

lemma scalar_text_eq: "appendUtf8Codepoint t c = t @ scalar_text c"
proof (cases "isScalarValue c")
  case True
  then show ?thesis using encodeScalar_bytes [of c] by (simp add: appendUtf8Codepoint_def scalar_text_def Let_def Utf8_encodeScalar_def)
next
  case False
  with scalar_replacement show ?thesis using encodeScalar_bytes [of "0xFFFD"]
    by (simp add: appendUtf8Codepoint_def scalar_text_def Let_def) (simp add: Utf8_encodeScalar_def)
qed

lemma refines_codepoint:
  assumes "input_ok s"
  shows "refines_op (Op_addTextCodepoint c) s"
proof (rule refines_opI)
  show "input_apply (Op_addTextCodepoint c) s = Some (addTextCodepointInternal c s)" by simp
  show ok: "input_ok (addTextCodepointInternal c s)" using assms by (simp add: input_ok_def addTextCodepointInternal_def)
  show "view_apply (Op_addTextCodepoint c) (view_of s) = Some (view_of (addTextCodepointInternal c s))"
    unfolding view_of_ok [OF ok] view_of_ok [OF assms] by (simp add: addTextCodepointInternal_def scalar_text_eq)
qed

lemma refines_button:
  assumes "input_ok s"
  shows "refines_op (Op_setButton c d) s"
proof (rule refines_opI)
  show "input_apply (Op_setButton c d) s = Some (setButtonInternal c d s)" by simp
  have b: "sorted_controls (currentButtons s)" "sorted_controls (pressedButtons s)" "sorted_controls (releasedButtons s)"
    using assms by (simp_all add: input_ok_def buttons_ok_def)
  note sets = addUniqueControl_spec(2) [OF b(1)] addUniqueControl_spec(2) [OF b(2)] addUniqueControl_spec(2) [OF b(3)]
    removeControl_spec(2) [OF b(1)]
  show ok: "input_ok (setButtonInternal c d s)"
    using assms b sets by (simp add: setButtonInternal_def Let_def input_ok_def isButtonControl_def)
  show "view_apply (Op_setButton c d) (view_of s) = Some (view_of (setButtonInternal c d s))"
    unfolding view_of_ok [OF ok] view_of_ok [OF assms] using b sets by (auto simp: setButtonInternal_def Let_def isButtonControl_def)
qed

lemma stored_eq:
  assumes "values_ok k vs" "float_eq (getControlValue vs c) v"
  shows "stored v = getControlValue vs c"
proof (cases "map_of vs c")
  case None
  then have "getControlValue vs c = Fin 0" using getControlValue_map_of [OF values_okD(1) [OF assms(1)]] by simp
  with assms(2) show ?thesis by (auto simp: stored_def float_eq_def)
next
  case (Some w)
  then have w: "getControlValue vs c = w" "\<not> float_eq w (Fin 0)"
    using getControlValue_map_of [OF values_okD(1) [OF assms(1)]] values_okD(2) [OF assms(1), of c w] by (auto dest: map_of_SomeD)
  with assms(2) show ?thesis by (auto simp: stored_def float_eq_def)
qed

lemma getControlValue_set_fun:
  "ascending fst vs \<Longrightarrow> getControlValue (setControlValue vs c v) = (getControlValue vs)(c := stored v)"
  by (auto simp: fun_eq_iff getControlValue_set stored_def)

lemma refines_axis:
  assumes "input_ok s"
  shows "refines_op (Op_setAxis c v) s"
proof (rule refines_opI)
  show "input_apply (Op_setAxis c v) s = Some (setAxisInternal c v s)" by simp
  have vs: "values_ok Axis (axisValues s)" using assms by (simp add: input_ok_def)
  have act: "axisActivation p v \<noteq> ButtonPressed" "axisActivation p v \<noteq> ButtonReleased" for p by (simp_all add: axisActivation_def)
  show ok: "input_ok (setAxisInternal c v s)"
    using assms values_ok_set [OF vs] act by (simp add: setAxisInternal_def Let_def input_ok_def isAxisControl_def)
  show "view_apply (Op_setAxis c v) (view_of s) = Some (view_of (setAxisInternal c v s))"
    unfolding view_of_ok [OF ok] view_of_ok [OF assms]
    using stored_eq [OF vs, of c v] getControlValue_set_fun [OF values_okD(1) [OF vs]]
    by (simp add: setAxisInternal_def Let_def isAxisControl_def getAxis_def fun_eq_iff)
qed

lemma refines_wheel:
  assumes "input_ok s"
  shows "refines_op (Op_addWheelDelta c v) s"
proof (rule refines_opI)
  show "input_apply (Op_addWheelDelta c v) s = Some (addWheelDeltaInternal c v s)" by simp
  have vs: "values_ok Wheel (wheelDeltas s)" using assms by (simp add: input_ok_def)
  show ok: "input_ok (addWheelDeltaInternal c v s)"
    using assms values_ok_set [OF vs] by (simp add: addWheelDeltaInternal_def Let_def input_ok_def isWheelControl_def)
  show "view_apply (Op_addWheelDelta c v) (view_of s) = Some (view_of (addWheelDeltaInternal c v s))"
    unfolding view_of_ok [OF ok] view_of_ok [OF assms]
    using getControlValue_set_fun [OF values_okD(1) [OF vs]]
    by (simp add: addWheelDeltaInternal_def Let_def isWheelControl_def)
qed

lemma setDeviceConnected_spec:
  assumes "ascending (\<lambda>d. d) (connectedDevices s)"
  obtains ds where "setDeviceConnectedInternal t i b s = s\<lparr>connectedDevices := ds\<rparr>" "ascending (\<lambda>d. d) ds"
    "set ds = (if b then insert (InputDeviceRef t i) (set (connectedDevices s)) else set (connectedDevices s) - {InputDeviceRef t i})"
proof -
  let ?d = "InputDeviceRef t i" and ?ds = "connectedDevices s"
  let ?p = "findConnectedDevice ?ds ?d"
  have hit: "?p \<noteq> length ?ds \<and> ?ds ! ?p = ?d \<longleftrightarrow> ?d \<in> set ?ds" using dev.find_hit [OF assms, of ?d] by simp
  note step = setDeviceConnectedInternal_def [of t i b s, unfolded Let_def hit]
  consider (same) "b \<longleftrightarrow> ?d \<in> set ?ds" | (new) "b" "?d \<notin> set ?ds" | (gone) "\<not> b" "?d \<in> set ?ds" by blast
  then show ?thesis
  proof cases
    case same
    then show ?thesis using that [of ?ds] step assms by (auto simp: insert_absorb)
  next
    case new
    then show ?thesis using that [of "insert_at ?p ?d ?ds"] step dev.insert_new [OF assms, of ?d] by simp
  next
    case gone
    then show ?thesis using that [of "filter (\<lambda>x. x \<noteq> ?d) ?ds"] step dev.erase_hit [OF assms, of ?d] assms
      by (auto simp: sorted_wrt_filter)
  qed
qed

lemma refines_connected:
  assumes "input_ok s"
  shows "refines_op (Op_setDeviceConnected t i b) s"
proof (rule setDeviceConnected_spec [of s t i b])
  show "ascending (\<lambda>d. d) (connectedDevices s)" using assms by (simp add: input_ok_def)
  fix ds
  assume ds: "setDeviceConnectedInternal t i b s = s\<lparr>connectedDevices := ds\<rparr>" "ascending (\<lambda>d. d) ds"
    "set ds = (if b then insert (InputDeviceRef t i) (set (connectedDevices s)) else set (connectedDevices s) - {InputDeviceRef t i})"
  have ok: "input_ok (s\<lparr>connectedDevices := ds\<rparr>)" using assms ds(2) by (simp add: input_ok_def)
  have "view_apply (Op_setDeviceConnected t i b) (view_of s) = Some (view_of (s\<lparr>connectedDevices := ds\<rparr>))"
    unfolding view_of_ok [OF ok] view_of_ok [OF assms] using ds(3) by auto
  with ok ds(1) show ?thesis by (intro refines_opI) simp_all
qed

text \<open>\<open>clear\<close> and \<open>clearDevice\<close> release every button they remove.\<close>

lemma foldl_addUnique:
  assumes "buttons_ok r" "\<forall>c \<in> set cs. controlType c = Button"
  shows "buttons_ok (foldl (\<lambda>r c. addUniqueControl c r) r cs) \<and> set (foldl (\<lambda>r c. addUniqueControl c r) r cs) = set r \<union> set cs"
  using assms
proof (induction cs arbitrary: r)
  case (Cons c cs)
  have "set (addUniqueControl c r) = insert c (set r)" using addUniqueControl_spec(2) Cons.prems(1) by (simp add: buttons_ok_def)
  with Cons show ?case by auto
qed simp

lemma of_kind_releases: "of_kind k (map (\<lambda>c. buttonActivation c False) cs) = (if k = ButtonReleased then set cs else {})"
  by (induction cs) (auto simp: buttonActivation_def)

lemma refines_clear:
  assumes "input_ok s"
  shows "refines_op (Op_clear e) s"
proof (rule refines_opI)
  show "input_apply (Op_clear e) s = Some (clear e s)" by simp
  have cur: "\<forall>c \<in> set (currentButtons s). controlType c = Button" using assms by (simp add: input_ok_def buttons_ok_def)
  note rel = foldl_addUnique [OF buttons_ok_Nil cur]
  show ok: "input_ok (clear e s)"
    using assms rel by (simp add: clear_def Let_def input_ok_def clearMousePositionInternal_def of_kind_releases)
  have gz: "getControlValue [] = (\<lambda>_. Fin 0)" by (simp add: fun_eq_iff getControlValue_map_of)
  show "view_apply (Op_clear e) (view_of s) = Some (view_of (clear e s))"
    unfolding view_of_ok [OF ok] view_of_ok [OF assms] using rel
    by (simp add: clear_def Let_def clearMousePositionInternal_def gz)
qed

lemma clearDeviceButtons_eq:
  "clearDeviceButtons d cs r acts =
    (filter (\<lambda>c. control_device c \<noteq> d) cs,
     foldl (\<lambda>r c. addUniqueControl c r) r (filter (\<lambda>c. control_device c = d) cs),
     acts @ map (\<lambda>c. buttonActivation c False) (filter (\<lambda>c. control_device c = d) cs))"
proof (induction cs arbitrary: r acts)
  case (Cons c cs)
  have "deviceType c = refType d \<and> deviceIndex c = refIndex d \<longleftrightarrow> control_device c = d" by (cases d) (auto simp: control_device_def)
  with Cons show ?case by simp
qed simp

lemma clearDeviceAxes_eq: "clearDeviceAxes d vs = filter (\<lambda>v. control_device (fst v) \<noteq> d) vs"
proof (induction vs)
  case (Cons v vs)
  have "deviceType (fst v) = refType d \<and> deviceIndex (fst v) = refIndex d \<longleftrightarrow> control_device (fst v) = d"
    by (cases d) (auto simp: control_device_def)
  with Cons show ?case by simp
qed simp

lemma of_kind_append: "of_kind k (a @ b) = of_kind k a \<union> of_kind k b"
  by (auto simp: of_kind_def)

lemma getControlValue_filter:
  assumes "ascending fst vs"
  shows "getControlValue (filter (\<lambda>v. P (fst v)) vs) = (\<lambda>c. if P c then getControlValue vs c else Fin 0)"
proof
  fix c
  have asc: "ascending fst (filter (\<lambda>v. P (fst v)) vs)" using assms by (rule sorted_wrt_filter)
  have "map_of (filter (\<lambda>v. P (fst v)) vs) c = (if P c then map_of vs c else None)"
    by (induction vs) auto
  then show "getControlValue (filter (\<lambda>v. P (fst v)) vs) c = (if P c then getControlValue vs c else Fin 0)"
    unfolding getControlValue_map_of [OF asc] getControlValue_map_of [OF assms] by simp
qed

lemma refines_clearDevice:
  assumes "input_ok s"
  shows "refines_op (Op_clearDevice d) s"
proof (rule refines_opI)
  let ?mine = "filter (\<lambda>c. control_device c = d) (currentButtons s)"
  show "input_apply (Op_clearDevice d) s = Some (clearDeviceInternal d s)" by simp
  have cur: "\<forall>c \<in> set ?mine. controlType c = Button" and r: "buttons_ok (releasedButtons s)"
    using assms by (auto simp: input_ok_def buttons_ok_def)
  note rel = foldl_addUnique [OF r cur]
  have vs: "values_ok Axis (axisValues s)" using assms by (simp add: input_ok_def)
  have "buttons_ok (filter P (currentButtons s))" for P
    using assms by (auto simp: input_ok_def buttons_ok_def sorted_wrt_filter)
  moreover have "values_ok Axis (filter P (axisValues s))" for P
    using vs by (auto simp: values_ok_def sorted_wrt_filter)
  ultimately show ok: "input_ok (clearDeviceInternal d s)"
    using assms rel by (simp add: clearDeviceInternal_def clearDeviceButtons_eq clearDeviceAxes_eq input_ok_def of_kind_append of_kind_releases)
  show "view_apply (Op_clearDevice d) (view_of s) = Some (view_of (clearDeviceInternal d s))"
    unfolding view_of_ok [OF ok] view_of_ok [OF assms]
    using rel getControlValue_filter [OF values_okD(1) [OF vs], of "\<lambda>c. control_device c \<noteq> d"]
    by (auto simp: clearDeviceInternal_def clearDeviceButtons_eq clearDeviceAxes_eq Let_def fun_eq_iff)
qed

lemma refines_any:
  assumes "input_ok s"
  shows "refines_op a s"
  using refines_simple [OF assms] refines_mouse_delta [OF assms] refines_codepoint [OF assms] refines_button [OF assms]
    refines_axis [OF assms] refines_wheel [OF assms] refines_connected [OF assms] refines_clear [OF assms] refines_clearDevice [OF assms]
  by (cases a) simp_all

lemma input_ok_apply: "input_ok s \<Longrightarrow> input_apply a s = Some s' \<Longrightarrow> input_ok s'"
  using refines_any [of s a] by (simp add: refines_op_def)

lemma refines_run:
  assumes "input_ok s"
  shows "(case input_run as s of None \<Rightarrow> view_run as (view_of s) = None
    | Some s' \<Rightarrow> input_ok s' \<and> view_run as (view_of s) = Some (view_of s'))"
  using assms
proof (induction as arbitrary: s)
  case (Cons a as)
  show ?case
  proof (cases "input_apply a s")
    case None
    with refines_any [OF Cons.prems, of a] show ?thesis by (simp add: refines_op_def)
  next
    case (Some t)
    with refines_any [OF Cons.prems, of a] have t: "input_ok t" "view_apply a (view_of s) = Some (view_of t)"
      by (simp_all add: refines_op_def)
    from Cons.IH [OF t(1)] t(2) Some show ?thesis by (cases "input_run as t") simp_all
  qed
qed simp

lemma initial_input_ok: "input_ok initial_input"
  by (simp add: input_ok_def initial_input_def)

lemma initial_view_of: "view_of initial_input = initial_view"
  unfolding view_of_ok [OF initial_input_ok] by (simp add: initial_input_def initial_view_def fun_eq_iff getControlValue_map_of)


section \<open>The activation log of a frame\<close>

text \<open>Replaying button activations from a set of held buttons; \<open>None\<close> when one is not a change.\<close>

fun replay :: "InputActivation list \<Rightarrow> InputControl set \<Rightarrow> InputControl set option" where
  "replay [] H = Some H"
| "replay (a # as) H =
    (if activationType a = ButtonPressed
     then if activationControl a \<in> H then None else replay as (insert (activationControl a) H)
     else if activationType a = ButtonReleased
     then if activationControl a \<notin> H then None else replay as (H - {activationControl a})
     else replay as H)"

lemma replay_append: "replay (as @ bs) H = (case replay as H of None \<Rightarrow> None | Some H' \<Rightarrow> replay bs H')"
  by (induction as arbitrary: H) auto

lemma replay_releases:
  assumes "distinct cs" "set cs \<subseteq> H"
  shows "replay (map (\<lambda>c. buttonActivation c False) cs) H = Some (H - set cs)"
  using assms
proof (induction cs arbitrary: H)
  case (Cons c cs)
  then have "replay (map (\<lambda>c. buttonActivation c False) cs) (H - {c}) = Some (H - {c} - set cs)" by (intro Cons.IH) auto
  with Cons.prems show ?case by (auto simp: buttonActivation_def)
qed simp

definition frame_op :: "input_op \<Rightarrow> bool" where
  "frame_op a \<longleftrightarrow> a \<noteq> Op_advanceFrame \<and> a \<notin> range Op_clear"

lemma replay_step:
  assumes "input_ok s" "frame_op a" "input_apply a s = Some s'" "replay (activations s) H = Some (set (currentButtons s))"
  shows "replay (activations s') H = Some (set (currentButtons s'))"
proof -
  have b: "sorted_controls (currentButtons s)" using assms(1) by (simp add: input_ok_def buttons_ok_def)
  have same: ?thesis if "activations s' = activations s" "currentButtons s' = currentButtons s" using that assms(4) by simp
  have other: ?thesis if "activations s' = activations s @ [x]" "currentButtons s' = currentButtons s"
    "activationType x \<notin> {ButtonPressed, ButtonReleased}" for x using that assms(4) by (simp add: replay_append)
  show ?thesis
  proof (cases a)
    case (Op_setButton c d)
    then show ?thesis using assms(3,4) b addUniqueControl_spec(2) [OF b] removeControl_spec(2) [OF b]
      by (auto simp: setButtonInternal_def Let_def replay_append split: if_splits)
  next
    case (Op_setAxis c v)
    then show ?thesis using assms(3,4)
      by (auto simp: setAxisInternal_def Let_def replay_append axisActivation_def split: if_splits)
  next
    case (Op_addWheelDelta c v)
    then show ?thesis using assms(3,4)
      by (auto simp: addWheelDeltaInternal_def Let_def replay_append split: if_splits)
  next
    case (Op_clearDevice d)
    have "distinct (currentButtons s)" using ascending_distinct [OF b] by simp
    then have "replay (map (\<lambda>c. buttonActivation c False) (filter (\<lambda>c. control_device c = d) (currentButtons s))) (set (currentButtons s))
        = Some (set (currentButtons s) - {c \<in> set (currentButtons s). control_device c = d})"
      using replay_releases [of "filter (\<lambda>c. control_device c = d) (currentButtons s)"] by simp
    with Op_clearDevice assms(3,4) show ?thesis
      by (auto simp: clearDeviceInternal_def clearDeviceButtons_eq replay_append)
  next
    case (Op_addMouseDelta x y)
    then show ?thesis using assms(3) by (intro same) (auto simp: addMouseDeltaInternal_def split: option.splits)
  next
    case (Op_setDeviceConnected t i c)
    then show ?thesis using assms(3) by (intro same) (auto simp: setDeviceConnectedInternal_def Let_def)
  qed (use assms(2,3) same in \<open>auto simp: frame_op_def setMousePositionInternal_def clearMousePositionInternal_def addTextUtf8Internal_def
    addTextCodepointInternal_def setPendingTextHighSurrogateInternal_def clearTextCompositionInternal_def\<close>)
qed

lemma replay_run:
  assumes "input_ok s" "list_all frame_op as" "input_run as s = Some s'" "replay (activations s) H = Some (set (currentButtons s))"
  shows "replay (activations s') H = Some (set (currentButtons s'))"
  using assms
proof (induction as arbitrary: s)
  case (Cons a as)
  then obtain t where t: "input_apply a s = Some t" "input_run as t = Some s'" by (auto split: option.splits)
  show ?case using Cons.prems Cons.IH [OF input_ok_apply [OF Cons.prems(1) t(1)] _ t(2)] replay_step [OF Cons.prems(1) _ t(1)] by simp
qed simp

lemma run_ok: "input_run as s = Some s' \<Longrightarrow> input_ok s \<Longrightarrow> input_ok s'"
  using refines_run [of s as] by simp

section \<open>Properties\<close>

text \<open>
C27: The input state refines its abstract view. For every sequence of calls on a fresh input state, the answers of the button,
axis, wheel, device, text and pointer queries afterwards are those of the view on which each call is a plain update of a
set or function; the two also agree on which sequences overflow the accumulated mouse movement.
\<close>

theorem input_state_refines:
  "map_option view_of (input_run as initial_input) = view_run as initial_view"
  using refines_run [OF initial_input_ok, of as] unfolding initial_view_of by (cases "input_run as initial_input") simp_all

text \<open>
The activation log of a frame is exact for buttons. From any reachable state, after \<open>advanceFrame\<close> and any calls other than
\<open>advanceFrame\<close> and \<open>clear\<close>, every logged press or release is a change of a button that was up or down, replaying the
log from the buttons held at the start of the frame gives the buttons held now, and the pressed and released queries
answer for exactly the controls with such an activation.
\<close>

theorem frame_log_exact:
  assumes "input_run bs initial_input = Some s0" "list_all frame_op as" "input_run (Op_advanceFrame # as) s0 = Some s"
  shows "replay (activations s) {c. isButtonDown s0 c} = Some {c. isButtonDown s c} \<and>
    {c. wasButtonPressed s c} = of_kind ButtonPressed (activations s) \<and>
    {c. wasButtonReleased s c} = of_kind ButtonReleased (activations s)"
proof -
  have ok0: "input_ok s0" using run_ok [OF assms(1) initial_input_ok] .
  have okf: "input_ok (advanceFrame s0)" using ok0 by (simp add: input_ok_def advanceFrame_def)
  have ok: "input_ok s" using run_ok [OF _ okf, of as] assms(3) by simp
  have H: "{c. isButtonDown s0 c} = set (currentButtons s0)" "{c. isButtonDown s c} = set (currentButtons s)"
    "{c. wasButtonPressed s c} = set (pressedButtons s)" "{c. wasButtonReleased s c} = set (releasedButtons s)"
    using view_of_ok [OF ok0] view_of_ok [OF ok] by (simp_all add: view_of_def)
  have "replay (activations s) (set (currentButtons s0)) = Some (set (currentButtons s))"
    using replay_run [OF okf assms(2)] assms(3) by (simp add: advanceFrame_def)
  with ok H show ?thesis by (simp add: input_ok_def)
qed

theorem frame_log_exact_witness:
  "\<exists>s. input_run [Op_advanceFrame, Op_setButton (makeKeyboardKey 4) False, Op_setButton (makeKeyboardKey 5) True] 
      (setButtonInternal (makeKeyboardKey 4) True initial_input) = Some s \<and>
    replay (activations s) {makeKeyboardKey 4} = Some {makeKeyboardKey 5}"
proof -
  let ?s0 = "setButtonInternal (makeKeyboardKey 4) True initial_input"
  let ?as = "[Op_setButton (makeKeyboardKey 4) False, Op_setButton (makeKeyboardKey 5) True]"
  have r0: "input_run [Op_setButton (makeKeyboardKey 4) True] initial_input = Some ?s0" by simp
  obtain s where s: "input_run (Op_advanceFrame # ?as) ?s0 = Some s" by (simp only: input_run.simps input_apply.simps option.case)
  have fr: "list_all frame_op ?as" by (auto simp: frame_op_def)
  have v0: "view_run [Op_setButton (makeKeyboardKey 4) True] initial_view = Some (view_of ?s0)"
    using refines_run [OF initial_input_ok, of "[Op_setButton (makeKeyboardKey 4) True]"] by (simp only: r0 initial_view_of option.case)
  have held: "{c. isButtonDown x c} = held (view_of x)" for x by (simp add: view_of_def)
  from v0 have v: "view_of ?s0 = initial_view\<lparr>held := {makeKeyboardKey 4}, pressed := {makeKeyboardKey 4}\<rparr>"
    by (simp add: initial_view_def makeKeyboardKey_def)
  have "view_run (Op_advanceFrame # ?as) (view_of ?s0) = Some (view_of s)"
    using refines_run [OF run_ok [OF r0 initial_input_ok], of "Op_advanceFrame # ?as"] by (simp only: s option.case)
  from this [symmetric] have "held (view_of s) = {makeKeyboardKey 5}" unfolding v by (simp add: initial_view_def makeKeyboardKey_def)
  moreover have "held (view_of ?s0) = {makeKeyboardKey 4}" using v by simp
  ultimately have "replay (activations s) {makeKeyboardKey 4} = Some {makeKeyboardKey 5}"
    using frame_log_exact [OF r0 fr s] unfolding held by simp
  with s show ?thesis by blast
qed

lemma typed_text_raw: "textInputUtf8 (addTextUtf8Internal t s) = textInputUtf8 s @ t"
  by (simp add: addTextUtf8Internal_def)

text \<open>
C37: Typed text is well-formed UTF-8 as long as each text given to \<open>addTextUtf8\<close> is, whatever code points are typed: one
that is no Unicode scalar is entered as U+FFFD. The condition is needed, because \<open>addTextUtf8Internal\<close> appends its bytes unchecked:
\<open>typed_text_raw\<close>.
\<close>

theorem typed_text_valid:
  assumes "input_run as initial_input = Some s" "\<forall>t. Op_addTextUtf8 t \<in> set as \<longrightarrow> valid_utf8 t"
  shows "valid_utf8 (textInputUtf8 s)"
proof -
  have one: "valid_utf8 (typed v')" if "view_apply a v = Some v'" "valid_utf8 (typed v)" "\<forall>t. a = Op_addTextUtf8 t \<longrightarrow> valid_utf8 t" for a v v'
    using that valid_utf8_append valid_utf8_encoding scalar_replacement
    by (cases a) (auto simp: scalar_text_def Let_def split: if_splits option.splits)
  have "valid_utf8 (typed v')" if "view_run as v = Some v'" "valid_utf8 (typed v)" "\<forall>t. Op_addTextUtf8 t \<in> set as \<longrightarrow> valid_utf8 t" for v v'
    using that
  proof (induction as arbitrary: v)
    case (Cons a as)
    then obtain w where w: "view_apply a v = Some w" "view_run as w = Some v'" by (auto split: option.splits)
    show ?case using Cons.prems(3) Cons.IH [OF w(2)] one [OF w(1) Cons.prems(2)] by auto
  qed simp
  from this [of initial_view "view_of s"] assms refines_run [OF initial_input_ok, of as] show ?thesis
    unfolding initial_view_of by (simp add: initial_view_def) (simp add: view_of_def)
qed

theorem typed_text_valid_witness:
  "\<exists>s. input_run [Op_addTextUtf8 [0x61], Op_addTextCodepoint 0xD800] initial_input = Some s \<and> valid_utf8 (textInputUtf8 s)"
proof -
  obtain s where s: "input_run [Op_addTextUtf8 [0x61], Op_addTextCodepoint 0xD800] initial_input = Some s"
    by (simp only: input_run.simps input_apply.simps option.case)
  have "valid_utf8 [0x61]" by (rule valid_utf8_ascii) simp
  with typed_text_valid [OF s] s show ?thesis by auto
qed

end
