(* ===== verification/Input_Registry.thy ===== *)
theory Input_Registry
  imports Input_Types
begin

text \<open>
  The class \<open>InputDeviceRegistry\<close> of \<^verbatim>\<open>engine/input/core/input.cpp\<close>: canonical devices, each fed by up to three backends, in a
  vector sorted by device reference. Text is kept as character lists.
\<close>

section \<open>Device metadata\<close>

record InputControlInfo =
  infoControl :: InputControl
  controlName :: string
  minimumValue :: float32
  maximumValue :: float32
  relative :: bool

record InputDeviceInfo =
  infoDevice :: InputDeviceRef
  infoBackend :: InputDeviceBackend
  primaryBackend :: InputDeviceBackend
  infoDeviceType :: InputDeviceType
  displayName :: string
  backendName :: string
  nativeIdentity :: string
  nativeIdentityHash :: "64 word"
  hidNativeIdentity :: string
  hidNativeIdentityHash :: "64 word"
  xInputNativeIdentity :: string
  xInputNativeIdentityHash :: "64 word"
  vendorId :: "16 word"
  productId :: "16 word"
  deviceConnected :: bool
  canonical :: bool
  hasBuiltInFeed :: bool
  hasXInputFeed :: bool
  hasHidFeed :: bool
  suppressionReason :: string
  deviceControls :: "InputControlInfo list"

type_synonym InputDeviceRegistry = "InputDeviceInfo list"

definition default_info :: InputDeviceInfo where
  "default_info = \<lparr>infoDevice = InputDeviceRef Keyboard 0, infoBackend = BuiltIn, primaryBackend = BuiltIn, infoDeviceType = Keyboard,
    displayName = [], backendName = [], nativeIdentity = [], nativeIdentityHash = 0, hidNativeIdentity = [], hidNativeIdentityHash = 0,
    xInputNativeIdentity = [], xInputNativeIdentityHash = 0, vendorId = 0, productId = 0, deviceConnected = False, canonical = True,
    hasBuiltInFeed = False, hasXInputFeed = False, hasHidFeed = False, suppressionReason = [], deviceControls = []\<rparr>"

section \<open>Helpers\<close>

definition findDeviceEntry :: "InputDeviceRegistry \<Rightarrow> InputDeviceRef \<Rightarrow> nat" where
  "findDeviceEntry devices device = lower_bound_by (\<lambda>entry. infoDevice entry < device) devices"

definition isMatchingDevice :: "InputDeviceRegistry \<Rightarrow> nat \<Rightarrow> InputDeviceRef \<Rightarrow> bool" where
  "isMatchingDevice devices entry device \<longleftrightarrow> entry \<noteq> length devices \<and> infoDevice (devices ! entry) = device"

definition hasDeviceIndex :: "InputDeviceRegistry \<Rightarrow> InputDeviceType \<Rightarrow> DeviceIndex \<Rightarrow> bool" where
  "hasDeviceIndex devices t index \<longleftrightarrow> (\<exists>d \<in> set devices. refType (infoDevice d) = t \<and> refIndex (infoDevice d) = index)"

definition isSameNativeIdentity :: "InputDeviceInfo \<Rightarrow> InputDeviceInfo \<Rightarrow> bool" where
  "isSameNativeIdentity left right \<longleftrightarrow>
    nativeIdentity left \<noteq> [] \<and> nativeIdentityHash left \<noteq> 0 \<and> nativeIdentityHash left = nativeIdentityHash right"

fun hasBackendFeed :: "InputDeviceInfo \<Rightarrow> InputDeviceBackend \<Rightarrow> bool" where
  "hasBackendFeed device BuiltIn = hasBuiltInFeed device"
| "hasBackendFeed device XInput = hasXInputFeed device"
| "hasBackendFeed device RawInputHID = hasHidFeed device"

definition choosePrimaryBackend :: "InputDeviceInfo \<Rightarrow> InputDeviceBackend" where
  "choosePrimaryBackend device =
    (if hasBuiltInFeed device then BuiltIn
     else if hasXInputFeed device then XInput
     else if hasHidFeed device then RawInputHID
     else primaryBackend device)"

definition makeBackendName :: "InputDeviceInfo \<Rightarrow> string" where
  "makeBackendName device =
    (let name = (if hasBuiltInFeed device then ''BuiltIn'' else []);
         name = (if hasXInputFeed device then (if name \<noteq> [] then name @ ''+'' else name) @ ''XInput'' else name);
         name = (if hasHidFeed device then (if name \<noteq> [] then name @ ''+'' else name) @ ''RawInputHID'' else name) in
     if name = [] then ''None'' else name)"

definition refreshDeviceSummary :: "InputDeviceInfo \<Rightarrow> InputDeviceInfo" where
  "refreshDeviceSummary device =
    (let device = device\<lparr>deviceConnected := hasBuiltInFeed device \<or> hasXInputFeed device \<or> hasHidFeed device\<rparr>;
         device = device\<lparr>primaryBackend := choosePrimaryBackend device\<rparr>;
         device = device\<lparr>infoBackend := primaryBackend device\<rparr>;
         device = device\<lparr>backendName := makeBackendName device\<rparr> in
     if primaryBackend device = XInput \<and> xInputNativeIdentity device \<noteq> []
     then device\<lparr>nativeIdentity := xInputNativeIdentity device, nativeIdentityHash := xInputNativeIdentityHash device\<rparr>
     else if primaryBackend device = RawInputHID \<and> hidNativeIdentity device \<noteq> []
     then device\<lparr>nativeIdentity := hidNativeIdentity device, nativeIdentityHash := hidNativeIdentityHash device\<rparr>
     else device)"

definition attachFeed :: "InputDeviceInfo \<Rightarrow> InputDeviceInfo \<Rightarrow> InputDeviceInfo" where
  "attachFeed target source =
    (case infoBackend source of
       BuiltIn \<Rightarrow> target\<lparr>hasBuiltInFeed := deviceConnected source \<or> hasBuiltInFeed source\<rparr>
     | XInput \<Rightarrow> target\<lparr>hasXInputFeed := deviceConnected source \<or> hasXInputFeed source,
         xInputNativeIdentity := (if xInputNativeIdentity source \<noteq> [] then xInputNativeIdentity source else nativeIdentity source),
         xInputNativeIdentityHash := (if xInputNativeIdentityHash source \<noteq> 0 then xInputNativeIdentityHash source else nativeIdentityHash source)\<rparr>
     | RawInputHID \<Rightarrow> target\<lparr>hasHidFeed := deviceConnected source \<or> hasHidFeed source,
         hidNativeIdentity := (if hidNativeIdentity source \<noteq> [] then hidNativeIdentity source else nativeIdentity source),
         hidNativeIdentityHash := (if hidNativeIdentityHash source \<noteq> 0 then hidNativeIdentityHash source else nativeIdentityHash source)\<rparr>)"

definition attachBackendInfo :: "InputDeviceInfo \<Rightarrow> InputDeviceInfo \<Rightarrow> InputDeviceInfo" where
  "attachBackendInfo target source =
    (let target = target\<lparr>infoDeviceType := infoDeviceType source, canonical := canonical source\<rparr>;
         target = (if displayName source \<noteq> [] \<and> (displayName target = [] \<or> infoBackend source = RawInputHID)
                   then target\<lparr>displayName := displayName source\<rparr> else target);
         target = (if vendorId target = 0 \<or> infoBackend source = RawInputHID then target\<lparr>vendorId := vendorId source\<rparr> else target);
         target = (if productId target = 0 \<or> infoBackend source = RawInputHID then target\<lparr>productId := productId source\<rparr> else target);
         target = attachFeed target source;
         target = (if suppressionReason source \<noteq> [] then target\<lparr>suppressionReason := suppressionReason source\<rparr> else target) in
     refreshDeviceSummary target)"

text \<open>\<open>std::find_if\<close> and the update of the element found.\<close>

fun addUniqueControlInfo :: "InputControlInfo list \<Rightarrow> InputControlInfo \<Rightarrow> InputControlInfo list" where
  "addUniqueControlInfo [] control = [control]"
| "addUniqueControlInfo (c # cs) control =
    (if infoControl c = infoControl control
     then (if controlName control \<noteq> [] then control # cs else c # cs)
     else c # addUniqueControlInfo cs control)"

definition mergeControlInfo :: "InputControlInfo list \<Rightarrow> InputControlInfo list \<Rightarrow> InputControlInfo list" where
  "mergeControlInfo target source = foldl addUniqueControlInfo target source"

definition remapControls :: "InputControlInfo list \<Rightarrow> InputDeviceRef \<Rightarrow> InputDeviceRef \<Rightarrow> InputControlInfo list" where
  "remapControls infos src dst = map (\<lambda>info.
    let c = infoControl info in
    if deviceType c = refType src \<and> deviceIndex c = refIndex src
    then info\<lparr>infoControl := InputControl (refType dst) (refIndex dst) (controlType c) (controlCode c)\<rparr> else info) infos"

definition makeButtonControlInfo :: "InputControl \<Rightarrow> string \<Rightarrow> InputControlInfo" where
  "makeButtonControlInfo control name =
    \<lparr>infoControl = control, controlName = name, minimumValue = Fin 0, maximumValue = float_one, relative = False\<rparr>"

definition makeAxisControlInfo :: "InputControl \<Rightarrow> string \<Rightarrow> bool \<Rightarrow> InputControlInfo" where
  "makeAxisControlInfo control name rel =
    \<lparr>infoControl = control, controlName = name, minimumValue = (if rel then float_neg float_one else Fin 0), maximumValue = float_one,
     relative = rel\<rparr>"

definition keyboard_keys :: "(ControlCode \<times> string) list" where
  "keyboard_keys =
    [(0x04, ''A''), (0x05, ''B''), (0x06, ''C''), (0x07, ''D''), (0x08, ''E''), (0x09, ''F''), (0x0A, ''G''), (0x0B, ''H''),
     (0x0C, ''I''), (0x0D, ''J''), (0x0E, ''K''), (0x0F, ''L''), (0x10, ''M''), (0x11, ''N''), (0x12, ''O''), (0x13, ''P''),
     (0x14, ''Q''), (0x15, ''R''), (0x16, ''S''), (0x17, ''T''), (0x18, ''U''), (0x19, ''V''), (0x1A, ''W''), (0x1B, ''X''),
     (0x1C, ''Y''), (0x1D, ''Z''), (0x27, ''0''), (0x1E, ''1''), (0x1F, ''2''), (0x20, ''3''), (0x21, ''4''), (0x22, ''5''),
     (0x23, ''6''), (0x24, ''7''), (0x25, ''8''), (0x26, ''9''), (0x29, ''Escape''), (0x28, ''Enter''), (0x2C, ''Space''),
     (0x2B, ''Tab''), (0x2A, ''Backspace''), (0x50, ''Left Arrow''), (0x4F, ''Right Arrow''), (0x52, ''Up Arrow''),
     (0x51, ''Down Arrow''), (0xE0, ''Left Ctrl''), (0xE4, ''Right Ctrl''), (0xE1, ''Left Shift''), (0xE5, ''Right Shift''),
     (0xE2, ''Left Alt''), (0xE6, ''Right Alt''), (0xE3, ''Left Super''), (0xE7, ''Right Super''), (0x3A, ''F1''), (0x3B, ''F2'')]"

definition makeKeyboardControls :: "InputControlInfo list" where
  "makeKeyboardControls = map (\<lambda>(code, name). makeButtonControlInfo (makeKeyboardKey code) name) keyboard_keys"

definition makeMouseControls :: "InputControlInfo list" where
  "makeMouseControls =
    [makeButtonControlInfo (makeMouseButton LeftButton) ''Left Button'', makeButtonControlInfo (makeMouseButton RightButton) ''Right Button'',
     makeButtonControlInfo (makeMouseButton MiddleButton) ''Middle Button'', makeButtonControlInfo (makeMouseButton X1Button) ''X1 Button'',
     makeButtonControlInfo (makeMouseButton X2Button) ''X2 Button'', makeAxisControlInfo (makeMouseAxis DeltaX) ''Delta X'' True,
     makeAxisControlInfo (makeMouseAxis DeltaY) ''Delta Y'' True,
     \<lparr>infoControl = makeMouseWheel VerticalWheel, controlName = ''Vertical Wheel'', minimumValue = float_neg float_one,
      maximumValue = float_one, relative = True\<rparr>,
     \<lparr>infoControl = makeMouseWheel HorizontalWheel, controlName = ''Horizontal Wheel'', minimumValue = float_neg float_one,
      maximumValue = float_one, relative = True\<rparr>]"

section \<open>Queries\<close>

definition findDevice :: "InputDeviceRegistry \<Rightarrow> InputDeviceRef \<Rightarrow> InputDeviceInfo option" where
  "findDevice devices device =
    (let entry = findDeviceEntry devices device in if isMatchingDevice devices entry device then Some (devices ! entry) else None)"

definition findControlInfo :: "InputDeviceRegistry \<Rightarrow> InputControl \<Rightarrow> InputControlInfo option" where
  "findControlInfo devices control =
    (case findDevice devices (InputDeviceRef (deviceType control) (deviceIndex control)) of
       None \<Rightarrow> None
     | Some device \<Rightarrow> find (\<lambda>info. infoControl info = control) (deviceControls device))"

definition shouldFeedDevice :: "InputDeviceRegistry \<Rightarrow> InputDeviceRef \<Rightarrow> bool" where
  "shouldFeedDevice devices device =
    (case findDevice devices device of None \<Rightarrow> False | Some info \<Rightarrow> deviceConnected info \<and> canonical info)"

definition shouldFeedDeviceBackend :: "InputDeviceRegistry \<Rightarrow> InputDeviceRef \<Rightarrow> InputDeviceBackend \<Rightarrow> bool" where
  "shouldFeedDeviceBackend devices device backend =
    (case findDevice devices device of None \<Rightarrow> False
     | Some info \<Rightarrow> deviceConnected info \<and> canonical info \<and> hasBackendFeed info backend \<and> primaryBackend info = backend)"

definition hasConnectedNativeGamepad :: "InputDeviceRegistry \<Rightarrow> bool" where
  "hasConnectedNativeGamepad devices \<longleftrightarrow>
    (\<exists>d \<in> set devices. deviceConnected d \<and> canonical d \<and> infoDeviceType d = Gamepad \<and> hasHidFeed d)"

section \<open>Mutations\<close>

function allocate_from :: "InputDeviceRegistry \<Rightarrow> InputDeviceType \<Rightarrow> nat \<Rightarrow> DeviceIndex" where
  "allocate_from devices t candidate =
    (if candidate \<le> 255
     then if \<not> hasDeviceIndex devices t (of_nat candidate) then of_nat candidate else allocate_from devices t (candidate + 1)
     else 255)"
  by pat_completeness auto
termination by (relation "measure (\<lambda>(devices, t, candidate). 256 - candidate)") auto

declare allocate_from.simps [simp del]

definition allocateDeviceIndex :: "InputDeviceRegistry \<Rightarrow> InputDeviceType \<Rightarrow> DeviceIndex" where
  "allocateDeviceIndex devices t = allocate_from devices t 0"

fun find_index :: "('a \<Rightarrow> bool) \<Rightarrow> 'a list \<Rightarrow> nat" where
  "find_index P [] = 0"
| "find_index P (x # xs) = (if P x then 0 else Suc (find_index P xs))"

text \<open>The registry and the reference returned. \<open>std::sort\<close> by device is \<open>sort_key\<close>.\<close>

definition upsertDevice :: "InputDeviceInfo \<Rightarrow> InputDeviceRegistry \<Rightarrow> InputDeviceRegistry \<times> InputDeviceRef" where
  "upsertDevice info devices =
    (let requestedDevice = infoDevice info;
         next = (if refType (infoDevice info) \<noteq> infoDeviceType info
                 then info\<lparr>infoDevice := InputDeviceRef (infoDeviceType info) (refIndex (infoDevice info))\<rparr> else info);
         next = attachBackendInfo next info;
         next = next\<lparr>deviceControls := mergeControlInfo (deviceControls next) (deviceControls info)\<rparr>;
         i = find_index (\<lambda>candidate. isSameNativeIdentity candidate next) devices in
     if i \<noteq> length devices
     then let entry = devices ! i;
              next = next\<lparr>deviceControls := remapControls (deviceControls next) requestedDevice (infoDevice entry)\<rparr>;
              entry = attachBackendInfo entry next;
              entry = entry\<lparr>deviceControls := mergeControlInfo (deviceControls entry) (deviceControls next)\<rparr> in
          (sort_key infoDevice (devices[i := entry]), infoDevice entry)
     else let next = (if hasDeviceIndex devices (refType (infoDevice next)) (refIndex (infoDevice next))
                      then let moved = InputDeviceRef (refType (infoDevice next)) (allocateDeviceIndex devices (refType (infoDevice next))) in
                        next\<lparr>infoDevice := moved, deviceControls := remapControls (deviceControls next) requestedDevice moved\<rparr>
                      else next);
              j = findDeviceEntry devices (infoDevice next) in
          (if isMatchingDevice devices j (infoDevice next) then devices[j := next] else insert_at j next devices, infoDevice next))"

definition update_device :: "InputDeviceRef \<Rightarrow> (InputDeviceInfo \<Rightarrow> InputDeviceInfo) \<Rightarrow> InputDeviceRegistry \<Rightarrow> InputDeviceRegistry" where
  "update_device device f devices =
    (let i = findDeviceEntry devices device in
     if isMatchingDevice devices i device then devices[i := f (devices ! i)] else devices)"

definition mergeDeviceBackend ::
    "InputDeviceRef \<Rightarrow> InputDeviceInfo \<Rightarrow> InputDeviceRegistry \<Rightarrow> InputDeviceRegistry \<times> InputDeviceRef" where
  "mergeDeviceBackend device info devices =
    (let i = findDeviceEntry devices device in
     if \<not> isMatchingDevice devices i device then upsertDevice info devices
     else let entry = attachBackendInfo (devices ! i) info;
              entry = entry\<lparr>deviceControls := mergeControlInfo (deviceControls entry) (deviceControls info)\<rparr> in
          (devices[i := entry], infoDevice entry))"

definition setDeviceConnected :: "InputDeviceRef \<Rightarrow> bool \<Rightarrow> InputDeviceRegistry \<Rightarrow> InputDeviceRegistry" where
  "setDeviceConnected device isConnected = update_device device (\<lambda>entry.
    let entry = entry\<lparr>deviceConnected := isConnected\<rparr>;
        entry = (if \<not> isConnected then entry\<lparr>hasXInputFeed := False, hasHidFeed := False\<rparr> else entry) in
    refreshDeviceSummary entry)"

fun setFeed :: "InputDeviceBackend \<Rightarrow> bool \<Rightarrow> InputDeviceInfo \<Rightarrow> InputDeviceInfo" where
  "setFeed BuiltIn b entry = entry\<lparr>hasBuiltInFeed := b\<rparr>"
| "setFeed XInput b entry = entry\<lparr>hasXInputFeed := b\<rparr>"
| "setFeed RawInputHID b entry = entry\<lparr>hasHidFeed := b\<rparr>"

definition setDeviceBackendConnected ::
    "InputDeviceRef \<Rightarrow> InputDeviceBackend \<Rightarrow> bool \<Rightarrow> InputDeviceRegistry \<Rightarrow> InputDeviceRegistry" where
  "setDeviceBackendConnected device backend isConnected =
    update_device device (\<lambda>entry. refreshDeviceSummary (setFeed backend isConnected entry))"

definition setDeviceCanonical :: "InputDeviceRef \<Rightarrow> bool \<Rightarrow> InputDeviceRegistry \<Rightarrow> InputDeviceRegistry" where
  "setDeviceCanonical device b = update_device device (\<lambda>entry. entry\<lparr>canonical := b\<rparr>)"

definition replaceDeviceControls :: "InputDeviceRef \<Rightarrow> InputControlInfo list \<Rightarrow> InputDeviceRegistry \<Rightarrow> InputDeviceRegistry" where
  "replaceDeviceControls device infos = update_device device (\<lambda>entry. entry\<lparr>deviceControls := infos\<rparr>)"

definition mergeDeviceControls :: "InputDeviceRef \<Rightarrow> InputControlInfo list \<Rightarrow> InputDeviceRegistry \<Rightarrow> InputDeviceRegistry" where
  "mergeDeviceControls device infos =
    update_device device (\<lambda>entry. entry\<lparr>deviceControls := mergeControlInfo (deviceControls entry) infos\<rparr>)"

fun clearFeed :: "InputDeviceBackend \<Rightarrow> InputDeviceInfo \<Rightarrow> InputDeviceInfo" where
  "clearFeed BuiltIn device = refreshDeviceSummary device"
| "clearFeed XInput device =
    refreshDeviceSummary (device\<lparr>hasXInputFeed := False, xInputNativeIdentity := [], xInputNativeIdentityHash := 0\<rparr>)"
| "clearFeed RawInputHID device =
    refreshDeviceSummary (device\<lparr>hasHidFeed := False, hidNativeIdentity := [], hidNativeIdentityHash := 0\<rparr>)"

definition clearBackend :: "InputDeviceBackend \<Rightarrow> InputDeviceRegistry \<Rightarrow> InputDeviceRegistry" where
  "clearBackend backend devices =
    (if backend = BuiltIn then devices
     else filter (\<lambda>d. hasBuiltInFeed d \<or> hasXInputFeed d \<or> hasHidFeed d) (map (clearFeed backend) devices))"

definition builtin_keyboard :: InputDeviceInfo where
  "builtin_keyboard = default_info\<lparr>infoDevice := InputDeviceRef Keyboard 0, infoBackend := BuiltIn, primaryBackend := BuiltIn,
    infoDeviceType := Keyboard, displayName := ''Keyboard'', backendName := ''BuiltIn'', nativeIdentity := ''builtin:keyboard'',
    nativeIdentityHash := 1, deviceConnected := True, canonical := True, hasBuiltInFeed := True, deviceControls := makeKeyboardControls\<rparr>"

definition builtin_mouse :: InputDeviceInfo where
  "builtin_mouse = default_info\<lparr>infoDevice := InputDeviceRef Mouse 0, infoBackend := BuiltIn, primaryBackend := BuiltIn,
    infoDeviceType := Mouse, displayName := ''Mouse'', backendName := ''BuiltIn'', nativeIdentity := ''builtin:mouse'',
    nativeIdentityHash := 2, deviceConnected := True, canonical := True, hasBuiltInFeed := True, deviceControls := makeMouseControls\<rparr>"

definition addBuiltInDevices :: "InputDeviceRegistry \<Rightarrow> InputDeviceRegistry" where
  "addBuiltInDevices devices = fst (upsertDevice builtin_mouse (fst (upsertDevice builtin_keyboard devices)))"

text \<open>The mutations of \<open>InputDeviceRegistryAccess\<close> on a constructed registry.\<close>

inductive registry_step :: "InputDeviceRegistry \<Rightarrow> InputDeviceRegistry \<Rightarrow> bool" where
  upsert: "registry_step r (fst (upsertDevice info r))"
| merge_backend: "registry_step r (fst (mergeDeviceBackend d info r))"
| set_connected: "registry_step r (setDeviceConnected d b r)"
| set_backend: "registry_step r (setDeviceBackendConnected d k b r)"
| set_canonical: "registry_step r (setDeviceCanonical d b r)"
| replace_controls: "registry_step r (replaceDeviceControls d cs r)"
| merge_controls: "registry_step r (mergeDeviceControls d cs r)"
| clear_backend: "registry_step r (clearBackend k r)"

definition registry_reachable :: "InputDeviceRegistry \<Rightarrow> bool" where
  "registry_reachable r \<longleftrightarrow> registry_step\<^sup>*\<^sup>* (addBuiltInDevices []) r"


section \<open>The summary of a device\<close>

lemma choose_unrelated [simp]:
  "choosePrimaryBackend (d\<lparr>deviceConnected := x0\<rparr>) = choosePrimaryBackend d"
  "choosePrimaryBackend (d\<lparr>infoBackend := x1\<rparr>) = choosePrimaryBackend d"
  "choosePrimaryBackend (d\<lparr>backendName := x2\<rparr>) = choosePrimaryBackend d"
  "choosePrimaryBackend (d\<lparr>nativeIdentity := x3\<rparr>) = choosePrimaryBackend d"
  "choosePrimaryBackend (d\<lparr>nativeIdentityHash := x4\<rparr>) = choosePrimaryBackend d"
  "choosePrimaryBackend (d\<lparr>deviceControls := x5\<rparr>) = choosePrimaryBackend d"
  "choosePrimaryBackend (d\<lparr>canonical := x6\<rparr>) = choosePrimaryBackend d"
  "choosePrimaryBackend (d\<lparr>infoDevice := x7\<rparr>) = choosePrimaryBackend d"
  "choosePrimaryBackend (d\<lparr>primaryBackend := choosePrimaryBackend d\<rparr>) = choosePrimaryBackend d"
  "choosePrimaryBackend (d\<lparr>deviceConnected := a, primaryBackend := choosePrimaryBackend d\<rparr>) = choosePrimaryBackend d"
  by (simp_all add: choosePrimaryBackend_def)

lemma name_unrelated [simp]:
  "makeBackendName (d\<lparr>deviceConnected := x0\<rparr>) = makeBackendName d"
  "makeBackendName (d\<lparr>infoBackend := x1\<rparr>) = makeBackendName d"
  "makeBackendName (d\<lparr>backendName := x2\<rparr>) = makeBackendName d"
  "makeBackendName (d\<lparr>nativeIdentity := x3\<rparr>) = makeBackendName d"
  "makeBackendName (d\<lparr>nativeIdentityHash := x4\<rparr>) = makeBackendName d"
  "makeBackendName (d\<lparr>deviceControls := x5\<rparr>) = makeBackendName d"
  "makeBackendName (d\<lparr>canonical := x6\<rparr>) = makeBackendName d"
  "makeBackendName (d\<lparr>infoDevice := x7\<rparr>) = makeBackendName d"
  "makeBackendName (d\<lparr>primaryBackend := x8\<rparr>) = makeBackendName d"
  by (simp_all add: makeBackendName_def)

text \<open>The identity that follows the primary backend.\<close>

definition identity_of :: "InputDeviceInfo \<Rightarrow> InputDeviceBackend \<Rightarrow> string \<times> 64 word" where
  "identity_of d b =
    (if b = XInput \<and> xInputNativeIdentity d \<noteq> [] then (xInputNativeIdentity d, xInputNativeIdentityHash d)
     else if b = RawInputHID \<and> hidNativeIdentity d \<noteq> [] then (hidNativeIdentity d, hidNativeIdentityHash d)
     else (nativeIdentity d, nativeIdentityHash d))"

lemma refresh_eq:
  "refreshDeviceSummary d = d\<lparr>deviceConnected := hasBuiltInFeed d \<or> hasXInputFeed d \<or> hasHidFeed d,
    primaryBackend := choosePrimaryBackend d, infoBackend := choosePrimaryBackend d, backendName := makeBackendName d,
    nativeIdentity := fst (identity_of d (choosePrimaryBackend d)), nativeIdentityHash := snd (identity_of d (choosePrimaryBackend d))\<rparr>"
  by (simp add: refreshDeviceSummary_def Let_def identity_of_def)

lemma identity_unrelated [simp]:
  "identity_of (d\<lparr>deviceConnected := a, primaryBackend := b, infoBackend := c, backendName := e,
     nativeIdentity := fst (identity_of d k), nativeIdentityHash := snd (identity_of d k)\<rparr>) k = identity_of d k"
  by (auto simp: identity_of_def)

lemma identity_updates [simp]:
  "identity_of (d\<lparr>deviceControls := cs\<rparr>) k = identity_of d k" "identity_of (d\<lparr>canonical := b\<rparr>) k = identity_of d k"
  "identity_of (d\<lparr>infoDevice := x\<rparr>) k = identity_of d k" "identity_of (d\<lparr>deviceConnected := b\<rparr>) k = identity_of d k"
  by (simp_all add: identity_of_def)

lemma refresh_fields [simp]:
  "infoDevice (refreshDeviceSummary d) = infoDevice d" "deviceControls (refreshDeviceSummary d) = deviceControls d"
  "hasBuiltInFeed (refreshDeviceSummary d) = hasBuiltInFeed d" "hasXInputFeed (refreshDeviceSummary d) = hasXInputFeed d"
  "hasHidFeed (refreshDeviceSummary d) = hasHidFeed d" "canonical (refreshDeviceSummary d) = canonical d"
  "deviceConnected (refreshDeviceSummary d) \<longleftrightarrow> hasBuiltInFeed d \<or> hasXInputFeed d \<or> hasHidFeed d"
  "primaryBackend (refreshDeviceSummary d) = choosePrimaryBackend d" "infoBackend (refreshDeviceSummary d) = choosePrimaryBackend d"
  by (simp_all add: refresh_eq)

lemma refresh_idem [simp]: "refreshDeviceSummary (refreshDeviceSummary d) = refreshDeviceSummary d"
  unfolding refresh_eq [of "refreshDeviceSummary d"] by (simp add: refresh_eq)

lemma refresh_unrelated [simp]:
  "refreshDeviceSummary (d\<lparr>deviceControls := cs\<rparr>) = (refreshDeviceSummary d)\<lparr>deviceControls := cs\<rparr>"
  "refreshDeviceSummary (d\<lparr>canonical := b\<rparr>) = (refreshDeviceSummary d)\<lparr>canonical := b\<rparr>"
  "refreshDeviceSummary (d\<lparr>infoDevice := x\<rparr>) = (refreshDeviceSummary d)\<lparr>infoDevice := x\<rparr>"
  "refreshDeviceSummary (d\<lparr>deviceConnected := b\<rparr>) = refreshDeviceSummary d"
  by (simp_all add: refresh_eq)

lemma attachFeed_fields [simp]:
  "infoDevice (attachFeed d s) = infoDevice d" "deviceControls (attachFeed d s) = deviceControls d"
  by (simp_all add: attachFeed_def split: InputDeviceBackend.split)

lemma attach_fields [simp]:
  "infoDevice (attachBackendInfo d s) = infoDevice d" "deviceControls (attachBackendInfo d s) = deviceControls d"
  "refreshDeviceSummary (attachBackendInfo d s) = attachBackendInfo d s"
  by (simp_all add: attachBackendInfo_def Let_def)

lemma attach_feed [simp]:
  "hasBackendFeed (attachBackendInfo d s) (infoBackend s) \<longleftrightarrow> deviceConnected s \<or> hasBackendFeed s (infoBackend s)"
  by (cases "infoBackend s") (simp_all add: attachBackendInfo_def attachFeed_def Let_def)

lemma summary_feeds:
  assumes "refreshDeviceSummary d = d"
  shows "deviceConnected d \<longleftrightarrow> hasBackendFeed d (primaryBackend d)" "deviceConnected d \<longleftrightarrow> (\<exists>b. hasBackendFeed d b)"
proof -
  have c: "deviceConnected d \<longleftrightarrow> hasBuiltInFeed d \<or> hasXInputFeed d \<or> hasHidFeed d"
    and p: "primaryBackend d = choosePrimaryBackend d" using refresh_fields(7,8) [of d] assms by simp_all
  show "deviceConnected d \<longleftrightarrow> hasBackendFeed d (primaryBackend d)" unfolding c p
    by (cases "primaryBackend d") (auto simp: choosePrimaryBackend_def)
  show "deviceConnected d \<longleftrightarrow> (\<exists>b. hasBackendFeed d b)" unfolding c by (metis hasBackendFeed.simps InputDeviceBackend.exhaust)
qed

section \<open>Invariant\<close>

interpretation dvc: keyed_vector infoDevice findDeviceEntry
  by unfold_locales (simp add: findDeviceEntry_def)

definition registry_ok :: "InputDeviceRegistry \<Rightarrow> bool" where
  "registry_ok r \<longleftrightarrow> ascending infoDevice r \<and> (\<forall>d \<in> set r. refreshDeviceSummary d = d)"

lemma isMatchingDevice_find [simp]:
  "ascending infoDevice r \<Longrightarrow> isMatchingDevice r (findDeviceEntry r d) d \<longleftrightarrow> d \<in> infoDevice ` set r"
  using dvc.find_hit [of r d] by (simp add: isMatchingDevice_def)

lemma findDevice_iff:
  assumes "ascending infoDevice r"
  shows "findDevice r d = Some e \<longleftrightarrow> e \<in> set r \<and> infoDevice e = d"
proof
  assume "findDevice r d = Some e"
  then have "isMatchingDevice r (findDeviceEntry r d) d" "e = r ! findDeviceEntry r d"
    by (auto simp: findDevice_def Let_def split: if_splits)
  then show "e \<in> set r \<and> infoDevice e = d"
    using dvc.find_le [OF assms, of d] by (auto simp: isMatchingDevice_def)
next
  assume "e \<in> set r \<and> infoDevice e = d"
  then show "findDevice r d = Some e"
    using dvc.find_nth [OF assms, of e d] assms by (auto simp: findDevice_def Let_def)
qed

lemma findDevice_cong:
  assumes "ascending infoDevice r" "ascending infoDevice r'" "{e \<in> set r. infoDevice e = d} = {e \<in> set r'. infoDevice e = d}"
  shows "findDevice r d = findDevice r' d"
proof -
  have "findDevice r d = Some e \<longleftrightarrow> findDevice r' d = Some e" for e
    unfolding findDevice_iff [OF assms(1)] findDevice_iff [OF assms(2)] using assms(3) by blast
  then show ?thesis by (metis option.exhaust)
qed

text \<open>Replacing the element with a given reference.\<close>

lemma replace_ok:
  assumes "registry_ok r" "d \<in> infoDevice ` set r" "infoDevice e = d" "refreshDeviceSummary e = e"
  shows "registry_ok (r[findDeviceEntry r d := e])" "findDevice (r[findDeviceEntry r d := e]) d = Some e"
    "d' \<noteq> d \<Longrightarrow> findDevice (r[findDeviceEntry r d := e]) d' = findDevice r d'"
proof -
  have asc: "ascending infoDevice r" using assms(1) by (simp add: registry_ok_def)
  note u = dvc.update_hit [OF asc assms(2,3)]
  show ok: "registry_ok (r[findDeviceEntry r d := e])" using u assms(1,4) by (auto simp: registry_ok_def)
  show "findDevice (r[findDeviceEntry r d := e]) d = Some e" using findDevice_iff [OF u(1)] u(2) assms(3) by auto
  show "findDevice (r[findDeviceEntry r d := e]) d' = findDevice r d'" if "d' \<noteq> d"
    using that assms(3) u(2) by (intro findDevice_cong [OF u(1) asc]) auto
qed

lemma update_device_ok:
  assumes "registry_ok r" "\<And>e. refreshDeviceSummary e = e \<Longrightarrow> infoDevice (f e) = infoDevice e \<and> refreshDeviceSummary (f e) = f e"
  shows "registry_ok (update_device d f r)"
    "findDevice (update_device d f r) d' = (if d' = d then map_option f (findDevice r d) else findDevice r d')"
proof -
  have asc: "ascending infoDevice r" using assms(1) by (simp add: registry_ok_def)
  have "registry_ok (update_device d f r) \<and>
    findDevice (update_device d f r) d' = (if d' = d then map_option f (findDevice r d) else findDevice r d')"
  proof (cases "d \<in> infoDevice ` set r")
    case True
    let ?e = "r ! findDeviceEntry r d"
    have e: "findDevice r d = Some ?e" using True asc by (simp add: findDevice_def Let_def)
    then have m: "?e \<in> set r" "infoDevice ?e = d" using findDevice_iff [OF asc] by blast+
    then have "refreshDeviceSummary ?e = ?e" using assms(1) by (simp add: registry_ok_def)
    from assms(2) [OF this] m have f: "infoDevice (f ?e) = d" "refreshDeviceSummary (f ?e) = f ?e" by simp_all
    show ?thesis using replace_ok [OF assms(1) True f] True asc e by (simp add: update_device_def Let_def)
  next
    case False
    then have "findDevice r d = None" using asc by (simp add: findDevice_def Let_def)
    with False assms(1) asc show ?thesis by (simp add: update_device_def Let_def)
  qed
  then show "registry_ok (update_device d f r)"
    "findDevice (update_device d f r) d' = (if d' = d then map_option f (findDevice r d) else findDevice r d')" by blast+
qed

section \<open>Registration\<close>

lemma find_index_le: "find_index P xs \<le> length xs"
  by (induction xs) auto

lemma find_index_hit: "find_index P xs < length xs \<Longrightarrow> P (xs ! find_index P xs)"
  by (induction xs) (auto split: if_splits)

lemma find_index_none: "find_index P xs = length xs \<longleftrightarrow> (\<forall>x \<in> set xs. \<not> P x)"
  by (induction xs) auto

lemma allocate_from_free:
  assumes "\<exists>k. c \<le> k \<and> k \<le> 255 \<and> \<not> hasDeviceIndex r t (of_nat k)"
  shows "\<not> hasDeviceIndex r t (allocate_from r t c)"
  using assms
proof (induction r t c rule: allocate_from.induct)
  case (1 r t c)
  then obtain k where k: "c \<le> k" "k \<le> 255" "\<not> hasDeviceIndex r t (of_nat k)" by blast
  show ?case
  proof (cases "hasDeviceIndex r t (of_nat c)")
    case True
    with k have "Suc c \<le> k" by (metis Suc_leI le_neq_implies_less)
    with True k have "\<not> hasDeviceIndex r t (allocate_from r t (c + 1))" by (intro 1(1)) auto
    with True k show ?thesis by (subst allocate_from.simps) simp
  next
    case False
    with k show ?thesis by (subst allocate_from.simps) simp
  qed
qed

lemma allocate_free:
  assumes "\<not> hasDeviceIndex r t i"
  shows "\<not> hasDeviceIndex r t (allocateDeviceIndex r t)"
proof -
  have "\<not> hasDeviceIndex r t (of_nat (unat i))" using assms by simp
  moreover have "unat i \<le> 255" using unat_byte_less [of i] by linarith
  ultimately show ?thesis unfolding allocateDeviceIndex_def by (intro allocate_from_free) blast
qed

lemma hasDeviceIndex_iff: "hasDeviceIndex r (refType d) (refIndex d) \<longleftrightarrow> d \<in> infoDevice ` set r"
  unfolding hasDeviceIndex_def image_iff by (metis InputDeviceRef.collapse)

text \<open>The device as it is matched and inserted.\<close>

definition prepared :: "InputDeviceInfo \<Rightarrow> InputDeviceInfo" where
  "prepared info =
    (let ref = InputDeviceRef (infoDeviceType info) (refIndex (infoDevice info));
         nxt = attachBackendInfo (info\<lparr>infoDevice := ref\<rparr>) info in
     nxt\<lparr>deviceControls := mergeControlInfo (deviceControls nxt) (deviceControls info)\<rparr>)"

lemma prepared_eq:
  "(let nxt = (if refType (infoDevice info) \<noteq> infoDeviceType info
        then info\<lparr>infoDevice := InputDeviceRef (infoDeviceType info) (refIndex (infoDevice info))\<rparr> else info);
      nxt = attachBackendInfo nxt info in
    nxt\<lparr>deviceControls := mergeControlInfo (deviceControls nxt) (deviceControls info)\<rparr>) = prepared info"
proof -
  have "info\<lparr>infoDevice := InputDeviceRef (infoDeviceType info) (refIndex (infoDevice info))\<rparr> = info"
    if "refType (infoDevice info) = infoDeviceType info"
    using that by (metis InputDeviceRef.collapse InputDeviceInfo.surjective InputDeviceInfo.update_convs(1))
  then show ?thesis by (simp add: prepared_def Let_def)
qed

lemma prepared_fields [simp]:
  "infoDevice (prepared info) = InputDeviceRef (infoDeviceType info) (refIndex (infoDevice info))"
  "refreshDeviceSummary (prepared info) = prepared info"
  by (simp_all add: prepared_def Let_def)


text \<open>The two ways a registration ends: in a device with the same native identity, or in an inserted one.\<close>

definition merged :: "InputDeviceInfo \<Rightarrow> InputDeviceInfo \<Rightarrow> InputDeviceInfo" where
  "merged entry info =
    (let nxt = (prepared info)\<lparr>deviceControls := remapControls (deviceControls (prepared info)) (infoDevice info) (infoDevice entry)\<rparr>;
         entry = attachBackendInfo entry nxt in
     entry\<lparr>deviceControls := mergeControlInfo (deviceControls entry) (deviceControls nxt)\<rparr>)"

definition placed :: "InputDeviceRegistry \<Rightarrow> InputDeviceInfo \<Rightarrow> InputDeviceInfo" where
  "placed r info =
    (let nxt = prepared info; t = infoDeviceType info in
     if hasDeviceIndex r t (refIndex (infoDevice nxt))
     then let moved = InputDeviceRef t (allocateDeviceIndex r t) in
       nxt\<lparr>infoDevice := moved, deviceControls := remapControls (deviceControls nxt) (infoDevice info) moved\<rparr>
     else nxt)"

lemma upsertDevice_eq:
  "upsertDevice info r =
    (let i = find_index (\<lambda>c. isSameNativeIdentity c (prepared info)) r in
     if i \<noteq> length r then (sort_key infoDevice (r[i := merged (r ! i) info]), infoDevice (r ! i))
     else let j = findDeviceEntry r (infoDevice (placed r info)) in
       (if isMatchingDevice r j (infoDevice (placed r info)) then r[j := placed r info] else insert_at j (placed r info) r,
        infoDevice (placed r info)))"
  unfolding upsertDevice_def prepared_eq [unfolded Let_def] Let_def merged_def placed_def by simp

lemma merged_fields [simp]: "infoDevice (merged e info) = infoDevice e" "refreshDeviceSummary (merged e info) = merged e info"
  by (simp_all add: merged_def Let_def)

lemma placed_fields [simp]: "refreshDeviceSummary (placed r info) = placed r info" "refType (infoDevice (placed r info)) = infoDeviceType info"
  by (simp_all add: placed_def Let_def)

lemma findDevice_insert:
  assumes "registry_ok r" "infoDevice e \<notin> infoDevice ` set r" "refreshDeviceSummary e = e"
  shows "registry_ok (insert_at (findDeviceEntry r (infoDevice e)) e r)"
    "findDevice (insert_at (findDeviceEntry r (infoDevice e)) e r) d = (if d = infoDevice e then Some e else findDevice r d)"
proof -
  have asc: "ascending infoDevice r" using assms(1) by (simp add: registry_ok_def)
  note n = dvc.insert_new [OF asc assms(2)]
  show "registry_ok (insert_at (findDeviceEntry r (infoDevice e)) e r)" using n assms(1,3) by (auto simp: registry_ok_def)
  show "findDevice (insert_at (findDeviceEntry r (infoDevice e)) e r) d = (if d = infoDevice e then Some e else findDevice r d)"
  proof (cases "d = infoDevice e")
    case True
    then show ?thesis using findDevice_iff [OF n(1)] n(2) by simp
  next
    case False
    then show ?thesis using n(2) by (auto intro!: findDevice_cong [OF n(1) asc])
  qed
qed

lemma replace_nth:
  assumes "registry_ok r" "i < length r" "infoDevice e = infoDevice (r ! i)"
  shows "r[i := e] = r[findDeviceEntry r (infoDevice e) := e]" "infoDevice e \<in> infoDevice ` set r"
proof -
  have asc: "ascending infoDevice r" using assms(1) by (simp add: registry_ok_def)
  have f: "findDeviceEntry r (infoDevice e) < length r" "infoDevice (r ! findDeviceEntry r (infoDevice e)) = infoDevice e"
    using dvc.find_nth [OF asc nth_mem [OF assms(2)], of "infoDevice e"] assms(3) by simp_all
  have "distinct (map infoDevice r)" using ascending_distinct [OF asc] .
  then have "findDeviceEntry r (infoDevice e) = i"
    using f assms(2,3) nth_eq_iff_index_eq [of "map infoDevice r"] by simp
  then show "r[i := e] = r[findDeviceEntry r (infoDevice e) := e]" by simp
  show "infoDevice e \<in> infoDevice ` set r" using assms(2,3) by simp
qed

lemma sort_registry: "registry_ok r \<Longrightarrow> sort_key infoDevice r = r"
  unfolding registry_ok_def
  by (intro sort_key_id_if_sorted) (auto simp: sorted_wrt_map intro: sorted_wrt_mono_rel [rotated] less_imp_le)

lemma upsert_cases:
  assumes "registry_ok r" "upsertDevice info r = (r', d)"
  obtains (native) e where "e \<in> set r" "isSameNativeIdentity e (prepared info)" "d = infoDevice e"
      "registry_ok r'" "findDevice r' d = Some (merged e info)" "\<And>d'. d' \<noteq> d \<Longrightarrow> findDevice r' d' = findDevice r d'"
    | (new) "\<forall>e \<in> set r. \<not> isSameNativeIdentity e (prepared info)" "d = infoDevice (placed r info)"
      "registry_ok r'" "findDevice r' d = Some (placed r info)" "\<And>d'. d' \<noteq> d \<Longrightarrow> findDevice r' d' = findDevice r d'"
proof -
  let ?P = "\<lambda>c. isSameNativeIdentity c (prepared info)"
  let ?i = "find_index ?P r" and ?d = "infoDevice (placed r info)"
  have asc: "ascending infoDevice r" using assms(1) by (simp add: registry_ok_def)
  show ?thesis
  proof (cases "?i = length r")
    case False
    then have i: "?i < length r" using find_index_le [of ?P r] by simp
    let ?e = "merged (r ! ?i) info"
    have e: "infoDevice ?e = infoDevice (r ! ?i)" by simp
    note n = replace_nth [OF assms(1) i e]
    note R = replace_ok [OF assms(1) n(2) refl merged_fields(2)]
    have "sort_key infoDevice (r[?i := ?e]) = r[?i := ?e]" unfolding n(1) by (rule sort_registry [OF R(1)])
    with assms(2) False have "r' = r[?i := ?e]" "d = infoDevice ?e" by (simp_all add: upsertDevice_eq Let_def)
    then show ?thesis using native [of "r ! ?i"] i find_index_hit [of ?P r] R n(1) by simp
  next
    case True
    then have none: "\<forall>e \<in> set r. \<not> ?P e" by (simp add: find_index_none)
    have d: "d = ?d" using assms(2) True by (simp add: upsertDevice_eq Let_def)
    show ?thesis
    proof (cases "?d \<in> infoDevice ` set r")
      case mem: True
      note R = replace_ok [OF assms(1) mem refl placed_fields(1)]
      have "r' = r[findDeviceEntry r ?d := placed r info]" using assms(2) True mem asc by (auto simp: upsertDevice_eq Let_def)
      then show ?thesis using new none d R by simp
    next
      case mem: False
      note R = findDevice_insert [OF assms(1) mem placed_fields(1)]
      have "r' = insert_at (findDeviceEntry r ?d) (placed r info) r" using assms(2) True mem asc by (auto simp: upsertDevice_eq Let_def)
      then show ?thesis using new none d R by simp
    qed
  qed
qed

lemma placed_fresh:
  assumes "\<not> hasDeviceIndex r (infoDeviceType info) i"
  shows "infoDevice (placed r info) \<notin> infoDevice ` set r"
proof -
  have "\<not> hasDeviceIndex r (refType (infoDevice (placed r info))) (refIndex (infoDevice (placed r info)))"
    using allocate_free [OF assms] by (simp add: placed_def Let_def)
  then show ?thesis unfolding hasDeviceIndex_iff .
qed

lemma upsert_ok: "registry_ok r \<Longrightarrow> registry_ok (fst (upsertDevice info r))"
  using upsert_cases [of r info "fst (upsertDevice info r)" "snd (upsertDevice info r)"] by (metis prod.collapse)

lemma clearFeed_fields [simp]: "infoDevice (clearFeed b d) = infoDevice d" "refreshDeviceSummary (clearFeed b d) = clearFeed b d"
  by (cases b; simp)+

lemma clearBackend_ok: "registry_ok r \<Longrightarrow> registry_ok (clearBackend b r)"
  by (auto simp: registry_ok_def clearBackend_def sorted_wrt_map intro!: sorted_wrt_filter)

lemma setFeed_fields [simp]: "infoDevice (setFeed b c d) = infoDevice d"
  by (cases b) simp_all

lemma merge_backend_ok: "registry_ok r \<Longrightarrow> registry_ok (fst (mergeDeviceBackend d info r))"
proof -
  assume ok: "registry_ok r"
  then have asc: "ascending infoDevice r" by (simp add: registry_ok_def)
  let ?f = "\<lambda>e. (attachBackendInfo e info)\<lparr>deviceControls := mergeControlInfo (deviceControls e) (deviceControls info)\<rparr>"
  have "fst (mergeDeviceBackend d info r) = (if d \<in> infoDevice ` set r then update_device d ?f r else fst (upsertDevice info r))"
    using asc by (simp add: mergeDeviceBackend_def update_device_def Let_def)
  with ok upsert_ok update_device_ok(1) [OF ok, of ?f] show ?thesis by simp
qed

lemma registry_step_ok: "registry_step r r' \<Longrightarrow> registry_ok r \<Longrightarrow> registry_ok r'"
proof (induction rule: registry_step.cases)
  case (set_connected r d b)
  then show ?case by (auto simp: setDeviceConnected_def Let_def intro!: update_device_ok(1))
next
  case (set_backend r d k b)
  then show ?case by (auto simp: setDeviceBackendConnected_def intro!: update_device_ok(1))
next
  case (set_canonical r d b)
  then show ?case by (auto simp: setDeviceCanonical_def intro!: update_device_ok(1))
next
  case (replace_controls r d cs)
  then show ?case by (auto simp: replaceDeviceControls_def intro!: update_device_ok(1))
next
  case (merge_controls r d cs)
  then show ?case by (auto simp: mergeDeviceControls_def intro!: update_device_ok(1))
qed (auto intro: upsert_ok merge_backend_ok clearBackend_ok)

lemma builtin_ok: "registry_ok (addBuiltInDevices [])"
  unfolding addBuiltInDevices_def by (intro upsert_ok) (simp add: registry_ok_def)

lemma reachable_ok: "registry_reachable r \<Longrightarrow> registry_ok r"
  unfolding registry_reachable_def
  by (induction rule: rtranclp_induct) (auto intro: registry_step_ok builtin_ok)


section \<open>Properties\<close>

lemma attachFeed_other:
  "b \<noteq> infoBackend s \<Longrightarrow> hasBackendFeed (attachFeed d s) b = hasBackendFeed d b"
  by (cases b; cases "infoBackend s") (simp_all add: attachFeed_def)

lemma hasBackendFeed_updates [simp]:
  "hasBackendFeed (d\<lparr>deviceControls := cs\<rparr>) b = hasBackendFeed d b" "hasBackendFeed (d\<lparr>infoDevice := x\<rparr>) b = hasBackendFeed d b"
  "hasBackendFeed (d\<lparr>canonical := c\<rparr>) b = hasBackendFeed d b" "hasBackendFeed (d\<lparr>infoDeviceType := t\<rparr>) b = hasBackendFeed d b"
  "hasBackendFeed (d\<lparr>displayName := n\<rparr>) b = hasBackendFeed d b" "hasBackendFeed (d\<lparr>vendorId := v\<rparr>) b = hasBackendFeed d b"
  "hasBackendFeed (d\<lparr>productId := v\<rparr>) b = hasBackendFeed d b" "hasBackendFeed (d\<lparr>suppressionReason := n\<rparr>) b = hasBackendFeed d b"
  "hasBackendFeed (refreshDeviceSummary d) b = hasBackendFeed d b"
  by (cases b; simp)+

lemma attach_other:
  "b \<noteq> infoBackend s \<Longrightarrow> hasBackendFeed (attachBackendInfo d s) b = hasBackendFeed d b"
  by (simp add: attachBackendInfo_def Let_def attachFeed_other)

lemma prepared_single:
  assumes "deviceConnected info" "\<And>b. hasBackendFeed info b \<Longrightarrow> b = infoBackend info"
  shows "infoBackend (prepared info) = infoBackend info" "deviceConnected (prepared info)"
    "hasBackendFeed (prepared info) (infoBackend info)"
proof -
  show f: "hasBackendFeed (prepared info) (infoBackend info)" using assms(1) by (simp add: prepared_def Let_def)
  then show c: "deviceConnected (prepared info)" using summary_feeds(2) [of "prepared info"] prepared_fields(2) by blast
  have only: "hasBackendFeed (prepared info) b \<Longrightarrow> b = infoBackend info" for b
    using assms(2) [of b] attach_other [of b info] by (cases "b = infoBackend info") (auto simp: prepared_def Let_def)
  have "hasBackendFeed (prepared info) (primaryBackend (prepared info))" using summary_feeds(1) [of "prepared info"] c by simp
  moreover have "infoBackend (prepared info) = primaryBackend (prepared info)"
    using refresh_fields(8,9) [of "prepared info"] by simp
  ultimately show "infoBackend (prepared info) = infoBackend info" using only by simp
qed

lemma merged_feed:
  assumes "deviceConnected info" "\<And>b. hasBackendFeed info b \<Longrightarrow> b = infoBackend info"
  shows "hasBackendFeed (merged e info) (infoBackend info)"
proof -
  let ?n = "(prepared info)\<lparr>deviceControls := remapControls (deviceControls (prepared info)) (infoDevice info) (infoDevice e)\<rparr>"
  have "infoBackend ?n = infoBackend info" "deviceConnected ?n" using prepared_single [OF assms] by simp_all
  then show ?thesis using attach_feed [of e ?n] by (simp add: merged_def Let_def)
qed

lemma placed_feed: "deviceConnected info \<Longrightarrow> hasBackendFeed (placed r info) (infoBackend info)"
  by (simp add: placed_def prepared_def Let_def)

text \<open>
C28: Every device is fed by one backend. In every registry reached from a new one by any calls of the backends, device
references are unique and lookup finds exactly the registered device; a device should be fed if and only if some
backend should feed it, and then that backend is the only one.
\<close>

theorem single_feed:
  assumes "registry_reachable r"
  shows "distinct (map infoDevice r) \<and> (\<forall>d e. findDevice r d = Some e \<longleftrightarrow> e \<in> set r \<and> infoDevice e = d) \<and>
    (\<forall>d. shouldFeedDevice r d \<longleftrightarrow> (\<exists>b. shouldFeedDeviceBackend r d b)) \<and>
    (\<forall>d b c. shouldFeedDeviceBackend r d b \<longrightarrow> shouldFeedDeviceBackend r d c \<longrightarrow> b = c)"
proof -
  have ok: "registry_ok r" using reachable_ok [OF assms] .
  then have asc: "ascending infoDevice r" by (simp add: registry_ok_def)
  have "shouldFeedDevice r d \<longleftrightarrow> (\<exists>b. shouldFeedDeviceBackend r d b)" for d
  proof (cases "findDevice r d")
    case (Some e)
    then have "refreshDeviceSummary e = e" using ok findDevice_iff [OF asc] by (simp add: registry_ok_def)
    from summary_feeds(1) [OF this] Some show ?thesis by (auto simp: shouldFeedDevice_def shouldFeedDeviceBackend_def)
  qed (simp add: shouldFeedDevice_def shouldFeedDeviceBackend_def)
  moreover have "b = c" if "shouldFeedDeviceBackend r d b" "shouldFeedDeviceBackend r d c" for d b c
    using that by (auto simp: shouldFeedDeviceBackend_def split: option.splits)
  ultimately show ?thesis using ascending_distinct [OF asc] findDevice_iff [OF asc] by blast
qed

text \<open>
Registration reaches exactly one device. For a registry in a reachable state, \<open>upsertDevice\<close> returns the reference of a
device that is then registered and, when the information describes a connected device of a single backend, is fed by
that backend; no other device changes. If no registered device has the same native identity and some index of the
device's type is free, the returned reference was free before, so nothing is overwritten.
\<close>

theorem upsert_correct:
  assumes "registry_reachable r" "upsertDevice info r = (r', d)"
  shows "(\<exists>e. findDevice r' d = Some e \<and>
      (deviceConnected info \<and> (\<forall>b. hasBackendFeed info b \<longrightarrow> b = infoBackend info) \<longrightarrow> hasBackendFeed e (infoBackend info))) \<and>
    (\<forall>d'. d' \<noteq> d \<longrightarrow> findDevice r' d' = findDevice r d') \<and>
    ((\<forall>e \<in> set r. \<not> isSameNativeIdentity e (prepared info)) \<and> (\<exists>i. \<not> hasDeviceIndex r (infoDeviceType info) i) \<longrightarrow>
      findDevice r d = None)"
  using reachable_ok [OF assms(1)] assms(2)
proof (cases rule: upsert_cases)
  case (native e)
  then show ?thesis using merged_feed [of info e] by auto
next
  case new
  have asc: "ascending infoDevice r" using reachable_ok [OF assms(1)] by (simp add: registry_ok_def)
  have "findDevice r d = None" if "\<not> hasDeviceIndex r (infoDeviceType info) i" for i
    using placed_fresh [OF that] new(2) asc by (simp add: findDevice_def Let_def)
  then show ?thesis using new placed_feed [of info r] by auto
qed

definition sample_pad :: InputDeviceInfo where
  "sample_pad = default_info\<lparr>infoDevice := InputDeviceRef Gamepad 0, infoBackend := XInput, infoDeviceType := Gamepad, deviceConnected := True\<rparr>"

lemma new_registry_reachable: "registry_reachable (addBuiltInDevices [])"
  by (simp add: registry_reachable_def)

theorem single_feed_witness: "distinct (map infoDevice (addBuiltInDevices []))"
  using single_feed [OF new_registry_reachable] by blast

theorem upsert_correct_witness:
  "\<exists>e. findDevice (fst (upsertDevice sample_pad (addBuiltInDevices []))) (snd (upsertDevice sample_pad (addBuiltInDevices []))) = Some e \<and>
    hasBackendFeed e XInput"
proof -
  obtain r' d where u: "upsertDevice sample_pad (addBuiltInDevices []) = (r', d)" by (cases "upsertDevice sample_pad (addBuiltInDevices [])")
  have "\<forall>b. hasBackendFeed sample_pad b \<longrightarrow> b = infoBackend sample_pad" "deviceConnected sample_pad" "infoBackend sample_pad = XInput"
    by (auto simp: sample_pad_def default_info_def elim: hasBackendFeed.elims)
  with upsert_correct [OF new_registry_reachable u] u show ?thesis by auto
qed

text \<open>
With all 256 indexes of a type in use, a further device without a matching identity replaces the one at index 255. Marking a
device connected changes nothing, because the summary is computed from its feeds.
\<close>

lemma upsert_full_overwrites:
  assumes "registry_reachable r" "\<forall>i. hasDeviceIndex r (infoDeviceType info) i" "\<forall>e \<in> set r. \<not> isSameNativeIdentity e (prepared info)"
    "upsertDevice info r = (r', d)"
  shows "d = InputDeviceRef (infoDeviceType info) 255" "findDevice r d \<noteq> None" "findDevice r' d = Some (placed r info)"
proof -
  have ok: "registry_ok r" using reachable_ok [OF assms(1)] .
  have full: "allocate_from r t c = 255" if "\<forall>i. hasDeviceIndex r t i" for r t c
    using that by (induction r t c rule: allocate_from.induct) (subst allocate_from.simps, auto)
  from ok assms(4) show d: "d = InputDeviceRef (infoDeviceType info) 255" "findDevice r' d = Some (placed r info)"
    using assms(2,3) full by (cases rule: upsert_cases; auto simp: placed_def Let_def allocateDeviceIndex_def)+
  have "d \<in> infoDevice ` set r" using assms(2) hasDeviceIndex_iff [of r d] d(1) by simp
  then show "findDevice r d \<noteq> None" using ok by (simp add: findDevice_def Let_def registry_ok_def)
qed

lemma setDeviceConnected_True_noop:
  assumes "registry_reachable r"
  shows "setDeviceConnected d True r = r"
proof -
  have ok: "registry_ok r" using reachable_ok [OF assms] .
  have "i < length r \<Longrightarrow> refreshDeviceSummary (r ! i) = r ! i" for i using ok by (simp add: registry_ok_def)
  then show ?thesis using dvc.find_le [of r d] ok
    by (auto simp: setDeviceConnected_def update_device_def Let_def isMatchingDevice_def registry_ok_def)
qed

end
