(* ===== verification/Terminal_Line_Editor.thy ===== *)
theory Terminal_Line_Editor
  imports Unicode_Grapheme_Cursor Unicode_Conversion IO_Status
begin

text \<open>
  The editing half of \<^verbatim>\<open>foundation/terminal/core/line_input.cpp\<close>: the cached grapheme index, insertion of typed and pasted
  text, and what each key does to the line and the caret. Echo and the event loop are in \<open>Terminal_Line_Input\<close>. An
  exception of an allocation leaves the whole read at once; the model is that of the runs without one.
\<close>

section \<open>The cached grapheme index\<close>

record GraphemeIndex =
  indexStorage :: "nat list"
  indexCursor :: GraphemeCursor
  indexReady :: bool

definition index_invalidate :: "GraphemeIndex \<Rightarrow> GraphemeIndex" where
  "index_invalidate g = g\<lparr>indexReady := False, indexCursor := cursor_clear\<rparr>"

definition vector_resize :: "nat \<Rightarrow> nat list \<Rightarrow> nat list" where
  "vector_resize n xs = take n xs @ replicate (n - length xs) 0"

definition index_ensure :: "byte list \<Rightarrow> GraphemeIndex \<Rightarrow> Status \<times> GraphemeIndex" where
  "index_ensure text g =
    (if indexReady g then (successStatus, g)
     else case (case cursor_reset text (indexStorage g) of (indexed, cursor, storage) \<Rightarrow>
                  if indexOutcome indexed = G_DestinationTooSmall
                  then cursor_reset text (vector_resize (requiredBoundaryCount indexed) storage)
                  else (indexed, cursor, storage)) of
       (indexed, cursor, storage) \<Rightarrow>
         if indexOutcome indexed \<noteq> Indexed
         then (statusOf EncodingFailed, g\<lparr>indexStorage := storage, indexCursor := cursor_clear\<rparr>)
         else (successStatus, g\<lparr>indexStorage := storage, indexCursor := cursor, indexReady := True\<rparr>))"

definition index_seek :: "byte list \<Rightarrow> nat \<Rightarrow> GraphemeIndex \<Rightarrow> Status \<times> GraphemeIndex" where
  "index_seek text offset g =
    (case index_ensure text g of (status, g) \<Rightarrow>
       if \<not> ok status then (status, g)
       else case cursor_seek (indexCursor g) offset of (found, cursor) \<Rightarrow>
         (if boundaryOutcome found \<noteq> Found then statusOf EncodingFailed else successStatus, g\<lparr>indexCursor := cursor\<rparr>))"

text \<open>The boundary found, the status and the index.\<close>

definition index_previous :: "byte list \<Rightarrow> nat \<Rightarrow> GraphemeIndex \<Rightarrow> nat option \<times> Status \<times> GraphemeIndex" where
  "index_previous text offset g =
    (case index_seek text offset g of (status, g) \<Rightarrow>
       if \<not> ok status then (None, status, g)
       else case cursor_previous (indexCursor g) of (result, cursor) \<Rightarrow>
         let g = g\<lparr>indexCursor := cursor\<rparr> in
         if boundaryOutcome result = AtBeginning then (None, status, g)
         else if boundaryOutcome result \<noteq> Found then (None, statusOf EncodingFailed, g)
         else (Some (byteOffset result), status, g))"

definition index_next :: "byte list \<Rightarrow> nat \<Rightarrow> GraphemeIndex \<Rightarrow> nat option \<times> Status \<times> GraphemeIndex" where
  "index_next text offset g =
    (case index_seek text offset g of (status, g) \<Rightarrow>
       if \<not> ok status then (None, status, g)
       else case cursor_next (indexCursor g) of (result, cursor) \<Rightarrow>
         let g = g\<lparr>indexCursor := cursor\<rparr> in
         if boundaryOutcome result = AtEnd then (None, status, g)
         else if boundaryOutcome result \<noteq> Found then (None, statusOf EncodingFailed, g)
         else (Some (byteOffset result), status, g))"

definition retainThroughCurrent :: "GraphemeIndex \<Rightarrow> GraphemeIndex" where
  "retainThroughCurrent g = (if indexReady g then g\<lparr>indexCursor := discardAfterCurrent (indexCursor g)\<rparr> else g)"

text \<open>The status, the offset and the index.\<close>

definition normalizeCaret :: "byte list \<Rightarrow> nat \<Rightarrow> GraphemeIndex \<Rightarrow> Status \<times> nat \<times> GraphemeIndex" where
  "normalizeCaret text offset g =
    (case index_ensure text g of (status, g) \<Rightarrow>
       if \<not> ok status then (status, offset, g)
       else case cursor_seek (indexCursor g) offset of (exact, cursor) \<Rightarrow>
         if boundaryOutcome exact = Found then (successStatus, offset, g\<lparr>indexCursor := cursor\<rparr>)
         else let nxt = nextGraphemeBoundary text offset in
           if boundaryOutcome nxt = Found
           then (successStatus, byteOffset nxt, g\<lparr>indexCursor := snd (cursor_seek cursor (byteOffset nxt))\<rparr>)
           else if boundaryOutcome nxt = AtEnd
           then (successStatus, length text, g\<lparr>indexCursor := snd (cursor_seek cursor (length text))\<rparr>)
           else (statusOf EncodingFailed, offset, g\<lparr>indexCursor := cursor\<rparr>))"

section \<open>Editing\<close>

text \<open>The locals of \<open>managedTerminalLineRead\<close> that edits change: \<open>line\<close>, \<open>caret\<close>, \<open>result.wasTruncated\<close> and \<open>graphemes\<close>.\<close>

record LineEditor =
  edLine :: "byte list"
  edCaret :: nat
  edTruncated :: bool
  edIndex :: GraphemeIndex

definition insert_bytes :: "nat \<Rightarrow> byte list \<Rightarrow> byte list \<Rightarrow> byte list" where
  "insert_bytes offset bytes text = take offset text @ bytes @ drop offset text"

text \<open>The common end of both insertions: the text is inserted and a caret inside the line normalized.\<close>

definition insertAtCaret :: "byte list \<Rightarrow> LineEditor \<Rightarrow> Status \<times> LineEditor" where
  "insertAtCaret bytes e =
    (let appendedAtEnd = (edCaret e = length (edLine e));
         line = insert_bytes (edCaret e) bytes (edLine e);
         caret = edCaret e + length bytes;
         g = index_invalidate (edIndex e) in
     if appendedAtEnd then (successStatus, e\<lparr>edLine := line, edCaret := caret, edIndex := g\<rparr>)
     else case normalizeCaret line caret g of
       (status, caret, g) \<Rightarrow> (status, e\<lparr>edLine := line, edCaret := caret, edIndex := g\<rparr>))"

definition insertScalar :: "nat \<Rightarrow> char32 \<Rightarrow> LineEditor \<Rightarrow> Status \<times> LineEditor" where
  "insertScalar maxBytes scalar e =
    (let encoded = Utf8_encodeScalar scalar in
     if encodeOutcome8 encoded \<noteq> Encoded then (statusOf EncodingFailed, e)
     else if byteCount encoded > maxBytes - min maxBytes (length (edLine e)) then (successStatus, e\<lparr>edTruncated := True\<rparr>)
     else insertAtCaret (take (byteCount encoded) (encoded_bytes encoded)) e)"

text \<open>The loop of \<open>insertPaste\<close>: how many bytes are accepted, or \<open>None\<close> at malformed text.\<close>

function pasteAccepted :: "byte list \<Rightarrow> nat \<Rightarrow> nat \<Rightarrow> nat option" where
  "pasteAccepted text remaining accepted =
    (if accepted < length text then
       let decoded = decodeUtf8Scalar (drop accepted text) in
       if outcome8 decoded \<noteq> Decoded then None
       else if bytesConsumed decoded > remaining - min remaining accepted then Some accepted
       else if bytesConsumed decoded = 0 then None
       else pasteAccepted text remaining (accepted + bytesConsumed decoded)
     else Some accepted)"
  by pat_completeness auto
termination by (relation "measure (\<lambda>(text, remaining, accepted). length text - accepted)") auto

declare pasteAccepted.simps [simp del]

definition insertPaste :: "nat \<Rightarrow> byte list \<Rightarrow> LineEditor \<Rightarrow> Status \<times> LineEditor" where
  "insertPaste maxBytes text e =
    (case pasteAccepted text (maxBytes - min maxBytes (length (edLine e))) 0 of
       None \<Rightarrow> (statusOf EncodingFailed, e)
     | Some accepted \<Rightarrow>
         let e = (if accepted < length text then e\<lparr>edTruncated := True\<rparr> else e) in
         if accepted > 0 then insertAtCaret (take accepted text) e else (successStatus, e))"

section \<open>Keys\<close>

datatype NamedKey = Backspace | Tab | Enter | Escape | Insert | Delete | Home | End | PageUp | PageDown | ArrowUp | ArrowDown
  | ArrowLeft | ArrowRight | Begin | CapsLock | NumLock | ScrollLock | PrintScreen | Pause | Menu

text \<open>What the display needs after a key: nothing, one ASCII cell erased at the end, text appended at the end, or a redraw.\<close>

datatype echo_need = Echo_None | Echo_EraseCell | Echo_AppendFrom nat | Echo_Redraw

type_synonym edit_result = "Status \<times> LineEditor \<times> echo_need"

definition editBackspace :: "LineEditor \<Rightarrow> edit_result" where
  "editBackspace e =
    (case index_previous (edLine e) (edCaret e) (edIndex e) of (previous, status, g) \<Rightarrow>
       let e = e\<lparr>edIndex := g\<rparr> in
       if \<not> ok status then (status, e, Echo_None)
       else case previous of None \<Rightarrow> (successStatus, e, Echo_None)
       | Some previous \<Rightarrow>
           if edCaret e = length (edLine e)
           then let singleCellAscii = (edCaret e - previous = 1 \<and> unat (edLine e ! previous) \<ge> 0x20 \<and> unat (edLine e ! previous) < 0x7F) in
             (successStatus, e\<lparr>edLine := take previous (edLine e), edCaret := previous, edIndex := retainThroughCurrent g\<rparr>,
              if singleCellAscii then Echo_EraseCell else Echo_Redraw)
           else let line = take previous (edLine e) @ drop (edCaret e) (edLine e) in
             case normalizeCaret line previous (index_invalidate g) of
               (status, caret, g) \<Rightarrow>
                 (status, e\<lparr>edLine := line, edCaret := caret, edIndex := g\<rparr>, if ok status then Echo_Redraw else Echo_None))"

definition editDelete :: "LineEditor \<Rightarrow> edit_result" where
  "editDelete e =
    (case index_next (edLine e) (edCaret e) (edIndex e) of (nxt, status, g) \<Rightarrow>
       let e = e\<lparr>edIndex := g\<rparr> in
       if \<not> ok status then (status, e, Echo_None)
       else case nxt of None \<Rightarrow> (successStatus, e, Echo_None)
       | Some nxt \<Rightarrow>
           if nxt = length (edLine e)
           then let line = take (edCaret e) (edLine e) in
             case index_seek line (edCaret e) g of
               (status, g) \<Rightarrow>
                 (successStatus, e\<lparr>edLine := line, edIndex := (if \<not> ok status then index_invalidate g else retainThroughCurrent g)\<rparr>, Echo_Redraw)
           else let line = take (edCaret e) (edLine e) @ drop nxt (edLine e) in
             case normalizeCaret line (edCaret e) (index_invalidate g) of
               (status, caret, g) \<Rightarrow>
                 (status, e\<lparr>edLine := line, edCaret := caret, edIndex := g\<rparr>, if ok status then Echo_Redraw else Echo_None))"

definition editArrowLeft :: "LineEditor \<Rightarrow> edit_result" where
  "editArrowLeft e =
    (case index_previous (edLine e) (edCaret e) (edIndex e) of (previous, status, g) \<Rightarrow>
       let e = e\<lparr>edIndex := g\<rparr> in
       if \<not> ok status then (status, e, Echo_None)
       else case previous of None \<Rightarrow> (successStatus, e, Echo_None) | Some p \<Rightarrow> (successStatus, e\<lparr>edCaret := p\<rparr>, Echo_Redraw))"

definition editArrowRight :: "LineEditor \<Rightarrow> edit_result" where
  "editArrowRight e =
    (case index_next (edLine e) (edCaret e) (edIndex e) of (nxt, status, g) \<Rightarrow>
       let e = e\<lparr>edIndex := g\<rparr> in
       if \<not> ok status then (status, e, Echo_None)
       else case nxt of None \<Rightarrow> (successStatus, e, Echo_None) | Some n \<Rightarrow> (successStatus, e\<lparr>edCaret := n\<rparr>, Echo_Redraw))"

definition editTab :: "nat \<Rightarrow> LineEditor \<Rightarrow> edit_result" where
  "editTab maxBytes e =
    (case insertScalar maxBytes 9 e of (status, e') \<Rightarrow>
       (status, e', if \<not> ok status then Echo_None
                    else if edCaret e = length (edLine e) then Echo_AppendFrom (length (edLine e)) else Echo_Redraw))"

fun editKey :: "nat \<Rightarrow> bool \<Rightarrow> NamedKey \<Rightarrow> LineEditor \<Rightarrow> edit_result" where
  "editKey maxBytes shift Backspace e = editBackspace e"
| "editKey maxBytes shift Delete e = editDelete e"
| "editKey maxBytes shift ArrowLeft e = editArrowLeft e"
| "editKey maxBytes shift ArrowRight e = editArrowRight e"
| "editKey maxBytes shift Home e = (successStatus, e\<lparr>edCaret := 0\<rparr>, if edCaret e \<noteq> 0 then Echo_Redraw else Echo_None)"
| "editKey maxBytes shift End e =
    (successStatus, e\<lparr>edCaret := length (edLine e)\<rparr>, if edCaret e \<noteq> length (edLine e) then Echo_Redraw else Echo_None)"
| "editKey maxBytes shift Tab e = (if \<not> shift then editTab maxBytes e else (successStatus, e, Echo_None))"
| "editKey maxBytes shift _ e = (successStatus, e, Echo_None)"

section \<open>Reference editor\<close>

text \<open>
  The same edits without the cache, on the complete segmentation of the line: \<open>text_boundaries\<close> is what a pass over the
  text visits.
\<close>

definition text_boundaries :: "byte list \<Rightarrow> nat list" where
  "text_boundaries t = snd (visitGraphemeBoundaries t (\<lambda>b bs. bs @ [b]) [])"

definition boundary_before :: "byte list \<Rightarrow> nat \<Rightarrow> nat option" where
  "boundary_before t offset = (case filter (\<lambda>b. b < offset) (text_boundaries t) of [] \<Rightarrow> None | bs \<Rightarrow> Some (last bs))"

definition boundary_after :: "byte list \<Rightarrow> nat \<Rightarrow> nat option" where
  "boundary_after t offset = (case filter (\<lambda>b. offset < b) (text_boundaries t) of [] \<Rightarrow> None | b # bs \<Rightarrow> Some b)"

definition boundary_from :: "byte list \<Rightarrow> nat \<Rightarrow> nat" where
  "boundary_from t offset = (case filter (\<lambda>b. offset \<le> b) (text_boundaries t) of [] \<Rightarrow> offset | b # bs \<Rightarrow> b)"

type_synonym line_state = "byte list \<times> nat \<times> bool"

text \<open>Replacing the bytes between two offsets, with the caret after them and then on the next boundary.\<close>

definition spliced :: "nat \<Rightarrow> nat \<Rightarrow> byte list \<Rightarrow> line_state \<Rightarrow> line_state" where
  "spliced from to bytes s =
    (case s of (line, caret, truncated) \<Rightarrow>
       let line' = take from line @ bytes @ drop to line in (line', boundary_from line' (from + length bytes), truncated))"

definition ref_insert :: "nat \<Rightarrow> char32 \<Rightarrow> line_state \<Rightarrow> line_state" where
  "ref_insert maxBytes c s =
    (case s of (line, caret, truncated) \<Rightarrow>
       if length line + length (utf8_encoding c) > maxBytes then (line, caret, True)
       else spliced caret caret (utf8_encoding c) s)"

fun ref_key :: "nat \<Rightarrow> bool \<Rightarrow> NamedKey \<Rightarrow> line_state \<Rightarrow> line_state" where
  "ref_key maxBytes shift Backspace (line, caret, truncated) =
    (case boundary_before line caret of None \<Rightarrow> (line, caret, truncated) | Some p \<Rightarrow> spliced p caret [] (line, caret, truncated))"
| "ref_key maxBytes shift Delete (line, caret, truncated) =
    (case boundary_after line caret of None \<Rightarrow> (line, caret, truncated) | Some n \<Rightarrow> spliced caret n [] (line, caret, truncated))"
| "ref_key maxBytes shift ArrowLeft (line, caret, truncated) =
    (line, (case boundary_before line caret of None \<Rightarrow> caret | Some p \<Rightarrow> p), truncated)"
| "ref_key maxBytes shift ArrowRight (line, caret, truncated) =
    (line, (case boundary_after line caret of None \<Rightarrow> caret | Some n \<Rightarrow> n), truncated)"
| "ref_key maxBytes shift Home (line, caret, truncated) = (line, 0, truncated)"
| "ref_key maxBytes shift End (line, caret, truncated) = (line, length line, truncated)"
| "ref_key maxBytes shift Tab s = (if \<not> shift then ref_insert maxBytes 9 s else s)"
| "ref_key maxBytes shift _ s = s"

definition line_state_of :: "LineEditor \<Rightarrow> line_state" where
  "line_state_of e = (edLine e, edCaret e, edTruncated e)"

text \<open>The invariant: a well-formed line within the limit, the caret on a grapheme boundary, and a ready index of this line.\<close>

definition editor_inv :: "nat \<Rightarrow> char32 list \<Rightarrow> LineEditor \<Rightarrow> bool" where
  "editor_inv maxBytes ss e \<longleftrightarrow> list_all isScalarValue ss \<and> edLine e = utf8_text ss \<and> length (edLine e) \<le> maxBytes \<and>
    edCaret e \<in> set (uax29_boundaries ss) \<and> (indexReady (edIndex e) \<longrightarrow> indexes ss (indexCursor (edIndex e)))"

definition editor_ok :: "nat \<Rightarrow> LineEditor \<Rightarrow> bool" where
  "editor_ok maxBytes e \<longleftrightarrow> (\<exists>ss. editor_inv maxBytes ss e)"


section \<open>Boundaries of a text\<close>

lemma text_boundaries_text [simp]:
  assumes "list_all isScalarValue ss"
  shows "text_boundaries (utf8_text ss) = uax29_boundaries ss"
proof -
  have "fold (\<lambda>b bs. bs @ [b]) xs ys = ys @ xs" for xs ys :: "nat list" by (induction xs arbitrary: ys) simp_all
  then show ?thesis by (simp add: text_boundaries_def visitGraphemeBoundaries_text [OF assms] grapheme_boundaries_uax29)
qed

lemma sorted_le_last:
  fixes xs :: "nat list"
  assumes "sorted_wrt (<) xs" "x \<in> set xs"
  shows "x \<le> last xs"
  using assms by (induction xs) (auto simp: less_imp_le)

lemma filter_below_last:
  fixes xs :: "nat list"
  assumes "sorted_wrt (<) xs" "b \<in> set xs" "b < off" "\<forall>b' \<in> set xs. b' < off \<longrightarrow> b' \<le> b"
  shows "(case filter (\<lambda>b. b < off) xs of [] \<Rightarrow> None | bs \<Rightarrow> Some (last bs)) = Some b"
proof -
  let ?ys = "filter (\<lambda>b. b < off) xs"
  have b: "b \<in> set ?ys" using assms by simp
  then have ne: "?ys \<noteq> []" by (metis empty_iff list.set(1))
  have "last ?ys \<in> set ?ys" using ne by (rule last_in_set)
  then have "last ?ys \<le> b" using assms(4) by auto
  moreover have "b \<le> last ?ys" using b assms(1) by (intro sorted_le_last) (simp_all add: sorted_wrt_filter)
  ultimately show ?thesis using ne by (auto split: list.split)
qed

lemma filter_above_first:
  fixes xs :: "nat list"
  assumes "sorted_wrt (<) xs" "b \<in> set xs" "P b" "\<forall>b' \<in> set xs. P b' \<longrightarrow> b \<le> b'"
  shows "\<exists>ys. filter P xs = b # ys"
proof (cases "filter P xs")
  case Nil
  then show ?thesis using assms by (auto simp: filter_empty_conv)
next
  case (Cons y ys)
  have "y \<in> set (filter P xs)" using Cons by simp
  then have "b \<le> y" using assms(4) by auto
  have "sorted_wrt (<) (filter P xs)" using assms(1) by (rule sorted_wrt_filter)
  moreover have "b \<in> set (filter P xs)" using assms by simp
  ultimately have "y \<le> b" using Cons by auto
  with \<open>b \<le> y\<close> Cons show ?thesis by auto
qed

lemma uax29_bounds:
  assumes "list_all isScalarValue ss"
  shows "0 \<in> set (uax29_boundaries ss)" "length (utf8_text ss) \<in> set (uax29_boundaries ss)"
    "b \<in> set (uax29_boundaries ss) \<Longrightarrow> b \<le> length (utf8_text ss)"
  using uax29_boundaries_ends [of ss] hd_in_set [of "uax29_boundaries ss"] last_in_set [of "uax29_boundaries ss"]
    cp_offset_le [of ss] by (auto elim!: boundary_is_cp)

lemma previousGraphemeBoundary_before:
  assumes ss: "list_all isScalarValue ss" and off: "off \<in> set (uax29_boundaries ss)"
  shows "previousGraphemeBoundary (utf8_text ss) off =
    (case boundary_before (utf8_text ss) off of None \<Rightarrow> boundary 0 AtBeginning | Some b \<Rightarrow> boundary b Found)"
    and "boundary_before (utf8_text ss) off = None \<longleftrightarrow> off = 0"
    and "boundary_before (utf8_text ss) off = Some b \<Longrightarrow> b < off \<and> b \<in> set (uax29_boundaries ss)"
proof -
  obtain i where i: "i \<le> length ss" "off = cp_offset ss i" using off by (rule boundary_is_cp)
  have zero: "boundary_before (utf8_text ss) 0 = None" by (simp add: boundary_before_def)
  have some: "\<exists>b. boundary_before (utf8_text ss) off = Some b \<and> b \<in> set (uax29_boundaries ss) \<and> b < off \<and>
    previousGraphemeBoundary (utf8_text ss) off = boundary b Found" if "off \<noteq> 0"
  proof -
    from i that obtain j where j: "i = Suc j" by (cases i) simp_all
    with i have "\<exists>i < length ss. off = cp_offset ss (Suc i)" by (intro exI [of _ j]) simp
    with that previousGraphemeBoundary_query [OF ss, of off] obtain b where b: "b \<in> set (uax29_boundaries ss)" "b < off"
      "\<forall>b' \<in> set (uax29_boundaries ss). b' < off \<longrightarrow> b' \<le> b" "previousGraphemeBoundary (utf8_text ss) off = boundary b Found"
      by auto
    with filter_below_last [OF sorted_uax29_boundaries [OF ss] b(1-3)] ss show ?thesis by (auto simp: boundary_before_def)
  qed
  show "boundary_before (utf8_text ss) off = None \<longleftrightarrow> off = 0" using zero some by (cases "off = 0") auto
  show "previousGraphemeBoundary (utf8_text ss) off =
    (case boundary_before (utf8_text ss) off of None \<Rightarrow> boundary 0 AtBeginning | Some b \<Rightarrow> boundary b Found)"
    using previousGraphemeBoundary_query [OF ss, of off] zero some by (cases "off = 0") auto
  show "boundary_before (utf8_text ss) off = Some b \<Longrightarrow> b < off \<and> b \<in> set (uax29_boundaries ss)"
    using zero some by (cases "off = 0") auto
qed

lemma nextGraphemeBoundary_after:
  assumes ss: "list_all isScalarValue ss" and i: "i \<le> length ss" "off = cp_offset ss i"
  shows "nextGraphemeBoundary (utf8_text ss) off =
    (case boundary_after (utf8_text ss) off of None \<Rightarrow> boundary off AtEnd | Some b \<Rightarrow> boundary b Found)"
    and "boundary_after (utf8_text ss) off = None \<longleftrightarrow> off = length (utf8_text ss)"
    and "boundary_after (utf8_text ss) off = Some b \<Longrightarrow> off < b \<and> b \<in> set (uax29_boundaries ss)"
proof -
  let ?fin = "length (utf8_text ss)"
  have at_end: "boundary_after (utf8_text ss) ?fin = None"
    using uax29_bounds(3) [OF ss] ss
    by (auto simp: boundary_after_def filter_empty_conv leD split: list.split dest!: arg_cong [where f = set])
  have some: "\<exists>b. boundary_after (utf8_text ss) off = Some b \<and> b \<in> set (uax29_boundaries ss) \<and> off < b \<and>
    nextGraphemeBoundary (utf8_text ss) off = boundary b Found" if "off \<noteq> ?fin"
  proof -
    have "i < length ss" using i that by (cases "i = length ss") auto
    with i have "\<exists>i < length ss. off = cp_offset ss i" by blast
    with that nextGraphemeBoundary_query [OF ss, of off] obtain b where b: "b \<in> set (uax29_boundaries ss)" "off < b"
      "\<forall>b' \<in> set (uax29_boundaries ss). off < b' \<longrightarrow> b \<le> b'" "nextGraphemeBoundary (utf8_text ss) off = boundary b Found"
      by auto
    with filter_above_first [OF sorted_uax29_boundaries [OF ss], of b "\<lambda>b. off < b"] ss
    show ?thesis by (auto simp: boundary_after_def)
  qed
  show "boundary_after (utf8_text ss) off = None \<longleftrightarrow> off = ?fin" using at_end some by (cases "off = ?fin") auto
  show "nextGraphemeBoundary (utf8_text ss) off =
    (case boundary_after (utf8_text ss) off of None \<Rightarrow> boundary off AtEnd | Some b \<Rightarrow> boundary b Found)"
    using nextGraphemeBoundary_query [OF ss, of off] at_end some by (cases "off = ?fin") auto
  show "boundary_after (utf8_text ss) off = Some b \<Longrightarrow> off < b \<and> b \<in> set (uax29_boundaries ss)"
    using at_end some by (cases "off = ?fin") auto
qed

lemma boundary_from_text:
  assumes ss: "list_all isScalarValue ss" and i: "i \<le> length ss" "off = cp_offset ss i"
  shows "boundary_from (utf8_text ss) off =
    (if off \<in> set (uax29_boundaries ss) then off else the (boundary_after (utf8_text ss) off))"
    and "boundary_from (utf8_text ss) off \<in> set (uax29_boundaries ss)"
proof -
  note sorted = sorted_uax29_boundaries [OF ss]
  show eq: "boundary_from (utf8_text ss) off =
    (if off \<in> set (uax29_boundaries ss) then off else the (boundary_after (utf8_text ss) off))"
  proof (cases "off \<in> set (uax29_boundaries ss)")
    case True
    then show ?thesis using filter_above_first [OF sorted, of off "\<lambda>b. off \<le> b"] ss by (auto simp: boundary_from_def)
  next
    case False
    then have "filter (\<lambda>b. off \<le> b) (uax29_boundaries ss) = filter (\<lambda>b. off < b) (uax29_boundaries ss)"
      by (intro filter_cong) (auto simp: le_less)
    moreover have "boundary_after (utf8_text ss) off \<noteq> None"
      using False uax29_bounds(2) [OF ss] nextGraphemeBoundary_after(2) [OF ss i] by auto
    ultimately show ?thesis using False ss by (auto simp: boundary_from_def boundary_after_def split: list.splits)
  qed
  have "boundary_after (utf8_text ss) off \<noteq> None" if "off \<notin> set (uax29_boundaries ss)"
    using that uax29_bounds(2) [OF ss] nextGraphemeBoundary_after(2) [OF ss i] by auto
  then show "boundary_from (utf8_text ss) off \<in> set (uax29_boundaries ss)"
    unfolding eq using nextGraphemeBoundary_after(3) [OF ss i] by (cases "off \<in> set (uax29_boundaries ss)") auto
qed

section \<open>The index is exact\<close>

definition index_ok :: "char32 list \<Rightarrow> GraphemeIndex \<Rightarrow> bool" where
  "index_ok ss g \<longleftrightarrow> list_all isScalarValue ss \<and> (indexReady g \<longrightarrow> indexes ss (indexCursor g))"

definition index_at :: "char32 list \<Rightarrow> nat \<Rightarrow> GraphemeIndex \<Rightarrow> bool" where
  "index_at ss off g \<longleftrightarrow> indexReady g \<and> indexes ss (indexCursor g) \<and> cursor_byteOffset (indexCursor g) = off"

lemma index_ok_invalidate [simp]: "index_ok ss (index_invalidate g) \<longleftrightarrow> list_all isScalarValue ss"
  by (simp add: index_ok_def index_invalidate_def)

lemma index_at_ok: "index_at ss off g \<Longrightarrow> index_ok ss g"
  by (auto simp: index_at_def index_ok_def indexes_def)

lemma index_ensure_text:
  assumes g: "index_ok ss g"
  shows "\<exists>g'. index_ensure (utf8_text ss) g = (successStatus, g') \<and> indexReady g' \<and> indexes ss (indexCursor g')"
proof (cases "indexReady g")
  case True
  then show ?thesis using g by (simp add: index_ensure_def index_ok_def)
next
  case False
  have ss: "list_all isScalarValue ss" using g by (simp add: index_ok_def)
  have fresh: "indexes ss \<lparr>boundaries = uax29_boundaries ss, currentBoundaryIndex = 0\<rparr>"
    using ss uax29_boundaries_ends(1) [of ss] by (simp add: indexes_def)
  have "length (uax29_boundaries ss) \<le> length (vector_resize (length (uax29_boundaries ss)) st)" for st
    by (simp add: vector_resize_def)
  with False fresh show ?thesis
    by (cases "length (uax29_boundaries ss) \<le> length (indexStorage g)")
      (simp_all add: index_ensure_def reset_text [OF ss] Let_def split del: if_split)
qed

lemma index_seek_text:
  assumes g: "index_ok ss g" and off: "off \<in> set (uax29_boundaries ss)"
  shows "\<exists>g'. index_seek (utf8_text ss) off g = (successStatus, g') \<and> index_at ss off g'"
proof -
  obtain g' where g': "index_ensure (utf8_text ss) g = (successStatus, g')" "indexReady g'" "indexes ss (indexCursor g')"
    using index_ensure_text [OF g] by blast
  have "indexes ss (snd (cursor_seek (indexCursor g') off))" "cursor_byteOffset (snd (cursor_seek (indexCursor g') off)) = off"
    using cursor_seek_spec(2,3) [OF g'(3)] off by blast+
  then show ?thesis using g' off by (simp add: index_seek_def cursor_seek_spec(1) [OF g'(3)] index_at_def)
qed

lemma index_previous_text:
  assumes g: "index_ok ss g" and off: "off \<in> set (uax29_boundaries ss)"
  defines "b \<equiv> boundary_before (utf8_text ss) off"
  shows "\<exists>g'. index_previous (utf8_text ss) off g = (b, successStatus, g') \<and> index_at ss (case b of None \<Rightarrow> off | Some p \<Rightarrow> p) g'"
proof -
  obtain g' where g': "index_seek (utf8_text ss) off g = (successStatus, g')" "index_at ss off g'"
    using index_seek_text [OF g off] by blast
  have c: "indexes ss (indexCursor g')" "cursor_byteOffset (indexCursor g') = off" using g'(2) by (simp_all add: index_at_def)
  have ss: "list_all isScalarValue ss" using g by (simp add: index_ok_def)
  note q = cursor_previous_query [OF c(1), unfolded c(2)]
  have "fst (cursor_previous (indexCursor g')) = (case b of None \<Rightarrow> boundary 0 AtBeginning | Some p \<Rightarrow> boundary p Found)"
    using q(1) previousGraphemeBoundary_before(1) [OF ss off] by (simp add: b_def)
  moreover have "b = None \<longleftrightarrow> off = 0" using previousGraphemeBoundary_before(2) [OF ss off] by (simp add: b_def)
  ultimately show ?thesis using g' q(2,3)
    by (cases b; cases "cursor_previous (indexCursor g')") (auto simp: index_previous_def index_at_def)
qed

lemma index_next_text:
  assumes g: "index_ok ss g" and off: "off \<in> set (uax29_boundaries ss)"
  defines "b \<equiv> boundary_after (utf8_text ss) off"
  shows "\<exists>g'. index_next (utf8_text ss) off g = (b, successStatus, g') \<and> index_at ss (case b of None \<Rightarrow> off | Some p \<Rightarrow> p) g'"
proof -
  obtain g' where g': "index_seek (utf8_text ss) off g = (successStatus, g')" "index_at ss off g'"
    using index_seek_text [OF g off] by blast
  have c: "indexes ss (indexCursor g')" "cursor_byteOffset (indexCursor g') = off" using g'(2) by (simp_all add: index_at_def)
  have ss: "list_all isScalarValue ss" using g by (simp add: index_ok_def)
  obtain i where i: "i \<le> length ss" "off = cp_offset ss i" using off by (rule boundary_is_cp)
  note q = cursor_next_query [OF c(1), unfolded c(2)]
  have "fst (cursor_next (indexCursor g')) = (case b of None \<Rightarrow> boundary off AtEnd | Some p \<Rightarrow> boundary p Found)"
    using q(1) nextGraphemeBoundary_after(1) [OF ss i] by (simp add: b_def)
  then show ?thesis using g' q(2,3)
    by (cases b; cases "cursor_next (indexCursor g')") (auto simp: index_next_def index_at_def)
qed

lemma normalizeCaret_text:
  assumes g: "index_ok ss g" and i: "i \<le> length ss" "off = cp_offset ss i"
  defines "b \<equiv> boundary_from (utf8_text ss) off"
  shows "\<exists>g'. normalizeCaret (utf8_text ss) off g = (successStatus, b, g') \<and> index_at ss b g'"
proof -
  obtain g' where g': "index_ensure (utf8_text ss) g = (successStatus, g')" "indexReady g'" "indexes ss (indexCursor g')"
    using index_ensure_text [OF g] by blast
  have ss: "list_all isScalarValue ss" using g by (simp add: index_ok_def)
  have b: "b \<in> set (uax29_boundaries ss)" unfolding b_def by (rule boundary_from_text(2) [OF ss i])
  note seek = cursor_seek_spec [OF g'(3)]
  have at_b: "indexes ss (snd (cursor_seek (indexCursor g') b))" "cursor_byteOffset (snd (cursor_seek (indexCursor g') b)) = b"
    using seek(2,3) b by blast+
  show ?thesis
  proof (cases "off \<in> set (uax29_boundaries ss)")
    case True
    then have "b = off" by (simp add: b_def boundary_from_text(1) [OF ss i])
    with True g' at_b show ?thesis by (simp add: normalizeCaret_def seek(1) index_at_def)
  next
    case False
    then have "boundary_after (utf8_text ss) off \<noteq> None"
      using uax29_bounds(2) [OF ss] nextGraphemeBoundary_after(2) [OF ss i] by auto
    with False have "nextGraphemeBoundary (utf8_text ss) off = boundary b Found"
      using nextGraphemeBoundary_after(1) [OF ss i] by (auto simp: b_def boundary_from_text(1) [OF ss i])
    with False g' at_b show ?thesis
      by (simp add: normalizeCaret_def seek(1) index_at_def Let_def)
  qed
qed

lemma retainThroughCurrent_text:
  assumes g: "index_at ss off g" and k: "k \<le> length ss" "off = cp_offset ss k"
  shows "index_at (take k ss) off (retainThroughCurrent g)"
  using discardAfterCurrent_indexes [of ss "indexCursor g" k] assms by (simp add: index_at_def retainThroughCurrent_def)

section \<open>Splicing a text\<close>

definition splice_scalars :: "nat \<Rightarrow> nat \<Rightarrow> char32 list \<Rightarrow> char32 list \<Rightarrow> char32 list" where
  "splice_scalars i j cs ss = take i ss @ cs @ drop j ss"

lemma splice_text:
  assumes "list_all isScalarValue ss" "list_all isScalarValue cs" "i \<le> length ss"
  shows "list_all isScalarValue (splice_scalars i j cs ss)"
    "take (cp_offset ss i) (utf8_text ss) @ utf8_text cs @ drop (cp_offset ss j) (utf8_text ss) = utf8_text (splice_scalars i j cs ss)"
    "cp_offset ss i + length (utf8_text cs) = cp_offset (splice_scalars i j cs ss) (i + length cs)"
    "i + length cs \<le> length (splice_scalars i j cs ss)"
  using assms
  by (auto simp: splice_scalars_def list_all_iff take_cp_offset drop_cp_offset dest!: in_set_takeD in_set_dropD)
    (simp add: cp_offset_def)

section \<open>Insertions and keys refine the reference editor\<close>

text \<open>What an edit delivers: success, the invariant and the state of the reference editor.\<close>

definition edit_refines :: "nat \<Rightarrow> line_state \<Rightarrow> Status \<times> LineEditor \<Rightarrow> bool" where
  "edit_refines maxBytes s r \<longleftrightarrow> fst r = successStatus \<and> editor_ok maxBytes (snd r) \<and> line_state_of (snd r) = s"

lemma line_state_of_simps [simp]:
  "line_state_of (e\<lparr>edIndex := g\<rparr>) = line_state_of e"
  by (simp add: line_state_of_def)

lemma editor_ok_I:
  "list_all isScalarValue ss \<Longrightarrow> edLine e = utf8_text ss \<Longrightarrow> length (edLine e) \<le> maxBytes \<Longrightarrow>
   edCaret e \<in> set (uax29_boundaries ss) \<Longrightarrow> index_ok ss (edIndex e) \<Longrightarrow> editor_ok maxBytes e"
  unfolding editor_ok_def editor_inv_def index_ok_def by blast

lemma editor_okE:
  assumes "editor_ok maxBytes e"
  obtains ss i where "list_all isScalarValue ss" "edLine e = utf8_text ss" "length (edLine e) \<le> maxBytes"
    "edCaret e \<in> set (uax29_boundaries ss)" "i \<le> length ss" "edCaret e = cp_offset ss i" "index_ok ss (edIndex e)"
  using assms unfolding editor_ok_def editor_inv_def index_ok_def by (metis boundary_is_cp)

text \<open>An edit inside the line: the bytes between two code points are replaced and the caret normalized.\<close>

lemma normalize_refines:
  assumes ss: "list_all isScalarValue ss" "list_all isScalarValue cs" and i: "i \<le> length ss"
    and line: "line' = take (cp_offset ss i) (utf8_text ss) @ utf8_text cs @ drop (cp_offset ss j) (utf8_text ss)"
    and fits: "length line' \<le> maxBytes"
    and caret: "caret' = cp_offset ss i + length (utf8_text cs)"
  shows "\<exists>g'. normalizeCaret line' caret' (index_invalidate g) = (successStatus, boundary_from line' caret', g') \<and>
    editor_ok maxBytes (e\<lparr>edLine := line', edCaret := boundary_from line' caret', edIndex := g'\<rparr>)"
proof -
  let ?ts = "splice_scalars i j cs ss"
  note sp = splice_text [OF ss i, of j]
  have line': "line' = utf8_text ?ts" and caret': "caret' = cp_offset ?ts (i + length cs)" using line caret sp(2,3) by simp_all
  obtain g' where g': "normalizeCaret line' caret' (index_invalidate g) = (successStatus, boundary_from line' caret', g')"
    "index_at ?ts (boundary_from line' caret') g'"
    using normalizeCaret_text [of ?ts "index_invalidate g", OF _ sp(4) caret'] sp(1) unfolding line' by auto
  have "editor_ok maxBytes (e\<lparr>edLine := line', edCaret := boundary_from line' caret', edIndex := g'\<rparr>)"
    by (rule editor_ok_I [OF sp(1)])
      (use line' fits g' boundary_from_text(2) [OF sp(1,4) caret'] in \<open>simp_all add: index_at_ok\<close>)
  with g' show ?thesis by blast
qed

lemma boundary_from_end:
  assumes "list_all isScalarValue ss"
  shows "boundary_from (utf8_text ss) (length (utf8_text ss)) = length (utf8_text ss)"
  using boundary_from_text(1) [OF assms, of "length ss"] uax29_bounds(2) [OF assms] by simp

lemma insertAtCaret_refines:
  assumes e: "editor_ok maxBytes e" and cs: "list_all isScalarValue cs"
    and fits: "length (edLine e) + length (utf8_text cs) \<le> maxBytes"
  shows "edit_refines maxBytes (spliced (edCaret e) (edCaret e) (utf8_text cs) (line_state_of e)) (insertAtCaret (utf8_text cs) e)"
proof -
  obtain ss i where ss: "list_all isScalarValue ss" "edLine e = utf8_text ss" and i: "i \<le> length ss" "edCaret e = cp_offset ss i"
    using e by (rule editor_okE)
  let ?line = "take (edCaret e) (edLine e) @ utf8_text cs @ drop (edCaret e) (edLine e)"
  have len: "length ?line \<le> maxBytes" using fits by simp
  show ?thesis
  proof (cases "edCaret e = length (edLine e)")
    case True
    let ?ts = "ss @ cs"
    have ts: "list_all isScalarValue ?ts" "edLine e @ utf8_text cs = utf8_text ?ts" using ss cs by simp_all
    have "editor_ok maxBytes (e\<lparr>edLine := edLine e @ utf8_text cs, edCaret := edCaret e + length (utf8_text cs), edIndex := index_invalidate (edIndex e)\<rparr>)"
      by (rule editor_ok_I [OF ts(1)]) (use True ts fits uax29_bounds(2) [OF ts(1)] ss in simp_all)
    moreover have "boundary_from (edLine e @ utf8_text cs) (edCaret e + length (utf8_text cs)) = edCaret e + length (utf8_text cs)"
      using boundary_from_end [OF ts(1)] True by (simp add: ts(2) [symmetric] ss(2))
    ultimately show ?thesis
      using True by (simp add: insertAtCaret_def edit_refines_def spliced_def insert_bytes_def line_state_of_def Let_def)
  next
    case False
    obtain g' where "normalizeCaret ?line (edCaret e + length (utf8_text cs)) (index_invalidate (edIndex e)) =
        (successStatus, boundary_from ?line (edCaret e + length (utf8_text cs)), g')"
      "editor_ok maxBytes (e\<lparr>edLine := ?line, edCaret := boundary_from ?line (edCaret e + length (utf8_text cs)), edIndex := g'\<rparr>)"
      using normalize_refines [OF ss(1) cs i(1), of ?line i maxBytes "edCaret e + length (utf8_text cs)" "edIndex e" e] len ss(2) i(2)
      by auto
    with False show ?thesis
      by (simp add: insertAtCaret_def edit_refines_def spliced_def insert_bytes_def line_state_of_def Let_def)
  qed
qed

lemma edit_refines_truncated:
  "editor_ok maxBytes e \<Longrightarrow> edit_refines maxBytes (edLine e, edCaret e, True) (successStatus, e\<lparr>edTruncated := True\<rparr>)"
  by (simp add: edit_refines_def editor_ok_def editor_inv_def line_state_of_def)

lemma insertScalar_refines:
  assumes e: "editor_ok maxBytes e" and c: "isScalarValue c"
  shows "edit_refines maxBytes (ref_insert maxBytes c (line_state_of e)) (insertScalar maxBytes c e)"
proof -
  have enc: "encodeOutcome8 (Utf8_encodeScalar c) = Encoded" "byteCount (Utf8_encodeScalar c) = length (utf8_encoding c)"
    using c encodeScalar_bytes [OF c] by (auto simp: Utf8_encodeScalar_def utf8EncodedLength_def)
  have len: "length (edLine e) \<le> maxBytes" using e by (auto elim: editor_okE)
  have ins: "edit_refines maxBytes (spliced (edCaret e) (edCaret e) (utf8_encoding c) (line_state_of e)) (insertAtCaret (utf8_encoding c) e)"
    if "length (edLine e) + length (utf8_encoding c) \<le> maxBytes"
    using insertAtCaret_refines [OF e, of "[c]"] c that by simp
  show ?thesis
  proof (cases "length (edLine e) + length (utf8_encoding c) > maxBytes")
    case True
    then have "maxBytes - length (edLine e) < length (utf8_encoding c)" using len by linarith
    with True len enc edit_refines_truncated [OF e] show ?thesis
      by (simp add: insertScalar_def ref_insert_def line_state_of_def Let_def)
  next
    case False
    then have "\<not> maxBytes - length (edLine e) < length (utf8_encoding c)" using len by linarith
    with False ins len enc encodeScalar_bytes [OF c] show ?thesis
      by (simp add: insertScalar_def ref_insert_def line_state_of_def Let_def)
  qed
qed

lemma insertScalar_invalid:
  "\<not> isScalarValue c \<Longrightarrow> insertScalar maxBytes c e = (statusOf EncodingFailed, e)"
  by (simp add: insertScalar_def Utf8_encodeScalar_def utf8EncodedLength_def)

text \<open>The keys that move or delete, on a state that satisfies the invariant.\<close>

definition key_refines :: "nat \<Rightarrow> line_state \<Rightarrow> edit_result \<Rightarrow> bool" where
  "key_refines maxBytes s r \<longleftrightarrow> edit_refines maxBytes s (fst r, fst (snd r))"

lemma editor_ok_caret:
  assumes "editor_ok maxBytes e" "edLine e = utf8_text ss" "list_all isScalarValue ss" "index_ok ss g" "b \<in> set (uax29_boundaries ss)"
  shows "editor_ok maxBytes (e\<lparr>edCaret := b, edIndex := g\<rparr>)"
  by (rule editor_ok_I [of ss]) (use assms in \<open>auto elim: editor_okE\<close>)

lemma editBackspace_refines:
  assumes e: "editor_ok maxBytes e"
  shows "key_refines maxBytes (ref_key maxBytes shift Backspace (line_state_of e)) (editBackspace e)"
proof -
  obtain ss i where ss: "list_all isScalarValue ss" "edLine e = utf8_text ss" and len: "length (edLine e) \<le> maxBytes"
    and caret: "edCaret e \<in> set (uax29_boundaries ss)" and i: "i \<le> length ss" "edCaret e = cp_offset ss i" and g: "index_ok ss (edIndex e)"
    using e by (rule editor_okE)
  let ?b = "boundary_before (edLine e) (edCaret e)"
  obtain g' where g': "index_previous (edLine e) (edCaret e) (edIndex e) = (?b, successStatus, g')"
    "index_at ss (case ?b of None \<Rightarrow> edCaret e | Some p \<Rightarrow> p) g'"
    using index_previous_text [OF g caret] ss(2) by auto
  show ?thesis
  proof (cases ?b)
    case None
    have "editor_ok maxBytes (e\<lparr>edIndex := g'\<rparr>)"
      using editor_ok_caret [OF e ss(2,1) index_at_ok [OF g'(2)] caret] by simp
    with g' None show ?thesis by (simp add: editBackspace_def key_refines_def edit_refines_def line_state_of_def)
  next
    case (Some p)
    then have p: "p < edCaret e" "p \<in> set (uax29_boundaries ss)" using previousGraphemeBoundary_before(3) [OF ss(1) caret] ss(2) by auto
    obtain k where k: "k \<le> length ss" "p = cp_offset ss k" using p(2) by (rule boundary_is_cp)
    show ?thesis
    proof (cases "edCaret e = length (edLine e)")
      case True
      let ?ts = "take k ss"
      have ts: "list_all isScalarValue ?ts" "utf8_text ?ts = take p (edLine e)"
        using ss k by (auto simp: list_all_iff take_cp_offset dest: in_set_takeD)
      have p_len: "length (take p (edLine e)) = p" using p True by simp
      then have p_end: "length (utf8_text ?ts) = p" by (simp add: ts(2))
      have "index_at ?ts p (retainThroughCurrent g')" using g'(2) Some k by (intro retainThroughCurrent_text) simp_all
      then have "editor_ok maxBytes (e\<lparr>edLine := take p (edLine e), edCaret := p, edIndex := retainThroughCurrent g'\<rparr>)"
        using uax29_bounds(2) [OF ts(1)] len ts p_end by (intro editor_ok_I [OF ts(1)]) (simp_all add: index_at_ok)
      moreover have "boundary_from (take p (edLine e)) p = p" using boundary_from_end [OF ts(1)] ts(2) p_end by simp
      ultimately show ?thesis using g' Some True p_len
        by (simp add: editBackspace_def key_refines_def edit_refines_def spliced_def line_state_of_def Let_def)
    next
      case False
      let ?line = "take p (edLine e) @ drop (edCaret e) (edLine e)"
      have "length ?line \<le> maxBytes" using len p by simp
      then obtain g'' where "normalizeCaret ?line p (index_invalidate g') = (successStatus, boundary_from ?line p, g'')"
        "editor_ok maxBytes (e\<lparr>edLine := ?line, edCaret := boundary_from ?line p, edIndex := g''\<rparr>)"
        using normalize_refines [OF ss(1) _ k(1), of "[]" ?line i maxBytes p g' e] ss(2) i(2) k(2) by auto
      with g' Some False show ?thesis
        by (simp add: editBackspace_def key_refines_def edit_refines_def spliced_def line_state_of_def Let_def)
    qed
  qed
qed

lemma editDelete_refines:
  assumes e: "editor_ok maxBytes e"
  shows "key_refines maxBytes (ref_key maxBytes shift Delete (line_state_of e)) (editDelete e)"
proof -
  obtain ss i where ss: "list_all isScalarValue ss" "edLine e = utf8_text ss" and len: "length (edLine e) \<le> maxBytes"
    and caret: "edCaret e \<in> set (uax29_boundaries ss)" and i: "i \<le> length ss" "edCaret e = cp_offset ss i" and g: "index_ok ss (edIndex e)"
    using e by (rule editor_okE)
  let ?b = "boundary_after (edLine e) (edCaret e)"
  obtain g' where g': "index_next (edLine e) (edCaret e) (edIndex e) = (?b, successStatus, g')"
    "index_at ss (case ?b of None \<Rightarrow> edCaret e | Some p \<Rightarrow> p) g'"
    using index_next_text [OF g caret] ss(2) by auto
  show ?thesis
  proof (cases ?b)
    case None
    have "editor_ok maxBytes (e\<lparr>edIndex := g'\<rparr>)"
      using editor_ok_caret [OF e ss(2,1) index_at_ok [OF g'(2)] caret] by simp
    with g' None show ?thesis by (simp add: editDelete_def key_refines_def edit_refines_def line_state_of_def)
  next
    case (Some n)
    then have n: "edCaret e < n" "n \<in> set (uax29_boundaries ss)" using nextGraphemeBoundary_after(3) [OF ss(1) i] ss(2) by auto
    obtain k where k: "k \<le> length ss" "n = cp_offset ss k" using n(2) by (rule boundary_is_cp)
    show ?thesis
    proof (cases "n = length (edLine e)")
      case True
      let ?ts = "take i ss"
      have ts: "list_all isScalarValue ?ts" "utf8_text ?ts = take (edCaret e) (edLine e)"
        using ss i by (auto simp: list_all_iff take_cp_offset dest: in_set_takeD)
      have c_len: "length (take (edCaret e) (edLine e)) = edCaret e" using n True by simp
      then have c_end: "length (utf8_text ?ts) = edCaret e" by (simp add: ts(2))
      have "indexReady g'" using g'(2) by (simp add: index_at_def)
      then have "index_seek t (edCaret e) g' = index_seek (utf8_text ss) (edCaret e) g'" for t
        by (simp add: index_seek_def index_ensure_def)
      then obtain g'' where seek: "index_seek (take (edCaret e) (edLine e)) (edCaret e) g' = (successStatus, g'')" "index_at ss (edCaret e) g''"
        using index_seek_text [OF index_at_ok [OF g'(2)] caret] by auto
      have "index_at ?ts (edCaret e) (retainThroughCurrent g'')" using seek(2) i by (rule retainThroughCurrent_text)
      then have "editor_ok maxBytes (e\<lparr>edLine := take (edCaret e) (edLine e), edIndex := retainThroughCurrent g''\<rparr>)"
        using uax29_bounds(2) [OF ts(1)] len ts c_end by (intro editor_ok_I [OF ts(1)]) (simp_all add: index_at_ok)
      moreover have "boundary_from (take (edCaret e) (edLine e)) (edCaret e) = edCaret e" using boundary_from_end [OF ts(1)] ts(2) c_end by simp
      ultimately show ?thesis using g' Some True c_len seek(1)
        by (simp add: editDelete_def key_refines_def edit_refines_def spliced_def line_state_of_def Let_def)
    next
      case False
      let ?line = "take (edCaret e) (edLine e) @ drop n (edLine e)"
      have "length ?line \<le> maxBytes" using len n by simp
      then obtain g'' where "normalizeCaret ?line (edCaret e) (index_invalidate g') = (successStatus, boundary_from ?line (edCaret e), g'')"
        "editor_ok maxBytes (e\<lparr>edLine := ?line, edCaret := boundary_from ?line (edCaret e), edIndex := g''\<rparr>)"
        using normalize_refines [OF ss(1) _ i(1), of "[]" ?line k maxBytes "edCaret e" g' e] ss(2) i(2) k(2) by auto
      with g' Some False show ?thesis
        by (simp add: editDelete_def key_refines_def edit_refines_def spliced_def line_state_of_def Let_def)
    qed
  qed
qed

lemma editArrow_refines:
  assumes e: "editor_ok maxBytes e"
  shows "key_refines maxBytes (ref_key maxBytes shift ArrowLeft (line_state_of e)) (editArrowLeft e)"
    and "key_refines maxBytes (ref_key maxBytes shift ArrowRight (line_state_of e)) (editArrowRight e)"
proof -
  obtain ss i where ss: "list_all isScalarValue ss" "edLine e = utf8_text ss"
    and caret: "edCaret e \<in> set (uax29_boundaries ss)" and i: "i \<le> length ss" "edCaret e = cp_offset ss i" and g: "index_ok ss (edIndex e)"
    using e by (rule editor_okE)
  let ?p = "boundary_before (edLine e) (edCaret e)" and ?n = "boundary_after (edLine e) (edCaret e)"
  obtain gl where gl: "index_previous (edLine e) (edCaret e) (edIndex e) = (?p, successStatus, gl)"
    "index_at ss (case ?p of None \<Rightarrow> edCaret e | Some p \<Rightarrow> p) gl"
    using index_previous_text [OF g caret] ss(2) by auto
  obtain gr where gr: "index_next (edLine e) (edCaret e) (edIndex e) = (?n, successStatus, gr)"
    "index_at ss (case ?n of None \<Rightarrow> edCaret e | Some p \<Rightarrow> p) gr"
    using index_next_text [OF g caret] ss(2) by auto
  note ok_l = editor_ok_caret [OF e ss(2,1) index_at_ok [OF gl(2)]] and ok_r = editor_ok_caret [OF e ss(2,1) index_at_ok [OF gr(2)]]
  have p: "?p = Some p \<Longrightarrow> p \<in> set (uax29_boundaries ss)" and n: "?n = Some p \<Longrightarrow> p \<in> set (uax29_boundaries ss)" for p
    using previousGraphemeBoundary_before(3) [OF ss(1) caret] nextGraphemeBoundary_after(3) [OF ss(1) i] ss(2) by auto
  have swap: "e\<lparr>edIndex := g, edCaret := b\<rparr> = e\<lparr>edCaret := b, edIndex := g\<rparr>" for g b by simp
  show "key_refines maxBytes (ref_key maxBytes shift ArrowLeft (line_state_of e)) (editArrowLeft e)"
    using gl(1) ok_l [OF caret] ok_l [OF p]
    by (cases ?p) (simp_all add: editArrowLeft_def key_refines_def edit_refines_def line_state_of_def swap)
  show "key_refines maxBytes (ref_key maxBytes shift ArrowRight (line_state_of e)) (editArrowRight e)"
    using gr(1) ok_r [OF caret] ok_r [OF n]
    by (cases ?n) (simp_all add: editArrowRight_def key_refines_def edit_refines_def line_state_of_def swap)
qed

text \<open>A paste: the accepted bytes are the longest run of its scalars that fits; malformed text is refused where it is met.\<close>

lemma pasteAccepted_text:
  assumes "list_all isScalarValue ps" "list_all isScalarValue cs" "length (utf8_text ps) \<le> remaining"
  shows "pasteAccepted (utf8_text ps @ utf8_text cs) remaining (length (utf8_text ps)) =
    Some (length (utf8_text ps) + length (utf8_text (fitting utf8EncodedLength (remaining - length (utf8_text ps)) cs)))"
  using assms
proof (induction cs arbitrary: ps)
  case Nil
  then show ?case by (simp add: pasteAccepted.simps)
next
  case (Cons c cs)
  then have c: "isScalarValue c" and len: "length (utf8_encoding c) = utf8EncodedLength c" by simp_all
  have pos: "0 < utf8EncodedLength c" using utf8.enc_nonempty [OF c] len by (cases "utf8_encoding c") simp_all
  have ps': "list_all isScalarValue (ps @ [c])" using Cons.prems c by simp
  have unfold: "pasteAccepted (utf8_text ps @ utf8_text (c # cs)) remaining (length (utf8_text ps)) =
    (if utf8EncodedLength c > remaining - length (utf8_text ps) then Some (length (utf8_text ps))
     else pasteAccepted (utf8_text (ps @ [c]) @ utf8_text cs) remaining (length (utf8_text (ps @ [c]))))"
    using decode8_encoding [OF c, of "utf8_text cs"] Cons.prems len pos by (subst pasteAccepted.simps) (simp add: Let_def)
  show ?case
  proof (cases "utf8EncodedLength c > remaining - length (utf8_text ps)")
    case True
    then show ?thesis unfolding unfold by simp
  next
    case False
    with Cons.prems(3) have "length (utf8_text (ps @ [c])) \<le> remaining" using len by simp
    from Cons.IH [OF ps' _ this] Cons.prems False show ?thesis unfolding unfold by (simp add: len)
  qed
qed

lemma pasteAccepted_valid:
  assumes "pasteAccepted t remaining accepted = Some a" "valid_utf8 (take accepted t)" "accepted \<le> length t" "accepted \<le> remaining"
  shows "valid_utf8 (take a t) \<and> a \<le> remaining"
  using assms
proof (induction t remaining accepted rule: pasteAccepted.induct)
  case (1 t remaining accepted)
  let ?d = "decodeUtf8Scalar (drop accepted t)"
  show ?case
  proof (cases "accepted < length t \<and> bytesConsumed ?d \<le> remaining - min remaining accepted")
    case True
    then have dec: "outcome8 ?d = Decoded" "bytesConsumed ?d \<noteq> 0" and rec: "pasteAccepted t remaining (accepted + bytesConsumed ?d) = Some a"
      using 1(2) by (auto simp: pasteAccepted.simps [of t remaining accepted] Let_def split: if_splits)
    note sound = decode8_sound [OF dec(1)]
    have "take (accepted + bytesConsumed ?d) t = take accepted t @ utf8_encoding (scalar8 ?d)"
      by (metis sound(4) take_add)
    then have "valid_utf8 (take (accepted + bytesConsumed ?d) t)"
      using valid_utf8_append [OF 1(3) valid_utf8_encoding [OF sound(1)]] by simp
    moreover have "accepted + bytesConsumed ?d \<le> length t" using sound(3) 1(4) unfolding length_drop by linarith
    moreover have "accepted + bytesConsumed ?d \<le> remaining" using True 1(5) by linarith
    ultimately show ?thesis using 1(1) [of ?d] True dec rec by simp
  next
    case False
    with 1(2-) show ?thesis by (auto simp: pasteAccepted.simps [of t remaining accepted] Let_def split: if_splits)
  qed
qed

definition ref_paste :: "nat \<Rightarrow> char32 list \<Rightarrow> line_state \<Rightarrow> line_state" where
  "ref_paste maxBytes cs s =
    (case s of (line, caret, truncated) \<Rightarrow>
       let kept = fitting utf8EncodedLength (maxBytes - length line) cs in
       spliced caret caret (utf8_text kept) (line, caret, truncated \<or> kept \<noteq> cs))"

lemma editor_ok_truncated [simp]: "editor_ok maxBytes (e\<lparr>edTruncated := b\<rparr>) = editor_ok maxBytes e"
  by (simp add: editor_ok_def editor_inv_def)

lemma boundary_from_caret: "editor_ok maxBytes e \<Longrightarrow> boundary_from (edLine e) (edCaret e) = edCaret e"
  by (erule editor_okE) (simp add: boundary_from_text(1))

lemma insertPaste_refines:
  assumes e: "editor_ok maxBytes e" and cs: "list_all isScalarValue cs"
  shows "edit_refines maxBytes (ref_paste maxBytes cs (line_state_of e)) (insertPaste maxBytes (utf8_text cs) e)"
proof -
  let ?kept = "fitting utf8EncodedLength (maxBytes - length (edLine e)) cs"
  let ?e = "if length (utf8_text ?kept) < length (utf8_text cs) then e\<lparr>edTruncated := True\<rparr> else e"
  have len: "length (edLine e) \<le> maxBytes" using e by (auto elim: editor_okE)
  have kept: "list_all isScalarValue ?kept" using cs by (rule fitting_isScalarValue)
  obtain rest where rest: "cs = ?kept @ rest" using fitting_prefix [of utf8EncodedLength "maxBytes - length (edLine e)" cs] by (auto simp: prefix_def)
  have pre: "take (length (utf8_text ?kept)) (utf8_text cs) = utf8_text ?kept"
    by (subst (2) rest) simp
  have "list_all isScalarValue rest" using cs rest by (metis list_all_append)
  then have "utf8_text rest \<noteq> []" if "rest \<noteq> []" using that by (cases rest) (auto simp: utf8.enc_nonempty)
  then have short: "length (utf8_text ?kept) < length (utf8_text cs) \<longleftrightarrow> ?kept \<noteq> cs"
    by (subst (2 4) rest) (cases "rest = []", simp_all)
  have acc: "pasteAccepted (utf8_text cs) (maxBytes - length (edLine e)) 0 = Some (length (utf8_text ?kept))"
    using pasteAccepted_text [of "[]" cs "maxBytes - length (edLine e)"] cs by simp
  have e': "editor_ok maxBytes ?e" using e by simp
  have state: "edLine ?e = edLine e" "edCaret ?e = edCaret e" "line_state_of ?e = (edLine e, edCaret e, edTruncated e \<or> ?kept \<noteq> cs)"
    using short by (simp_all add: line_state_of_def)
  have fits: "length (edLine ?e) + length (utf8_text ?kept) \<le> maxBytes"
    using fitting_total [of utf8EncodedLength "maxBytes - length (edLine e)" cs] len state(1) utf8_text_length [OF kept] by simp
  show ?thesis
  proof (cases "length (utf8_text ?kept) = 0")
    case True
    then have nil: "utf8_text ?kept = []" by (simp only: length_0_conv)
    have "ref_paste maxBytes cs (line_state_of e) = (edLine e, edCaret e, edTruncated e \<or> ?kept \<noteq> cs)"
      unfolding ref_paste_def line_state_of_def spliced_def Let_def prod.case nil using boundary_from_caret [OF e] by simp
    then have "ref_paste maxBytes cs (line_state_of e) = line_state_of ?e" using state(3) by simp
    with True acc e' len show ?thesis by (simp add: insertPaste_def edit_refines_def Let_def)
  next
    case False
    have "insertPaste maxBytes (utf8_text cs) e = insertAtCaret (utf8_text ?kept) ?e"
      using False acc pre len by (simp add: insertPaste_def Let_def)
    with insertAtCaret_refines [OF e' kept fits] state show ?thesis
      by (simp add: ref_paste_def line_state_of_def Let_def)
  qed
qed

lemma editTab_refines:
  assumes "editor_ok maxBytes e"
  shows "key_refines maxBytes (ref_insert maxBytes 9 (line_state_of e)) (editTab maxBytes e)"
proof -
  have "isScalarValue 9" by (simp add: isScalarValue_def kMaximumScalarValue_def)
  from insertScalar_refines [OF assms this] show ?thesis
    by (cases "insertScalar maxBytes 9 e") (simp add: editTab_def key_refines_def)
qed

lemma key_refines_stay [simp]: "key_refines maxBytes (line_state_of e) (successStatus, e, need) \<longleftrightarrow> editor_ok maxBytes e"
  by (simp add: key_refines_def edit_refines_def)

lemma editHomeEnd_refines:
  assumes e: "editor_ok maxBytes e"
  shows "key_refines maxBytes (edLine e, 0, edTruncated e) (successStatus, e\<lparr>edCaret := 0\<rparr>, need)"
    and "key_refines maxBytes (edLine e, length (edLine e), edTruncated e) (successStatus, e\<lparr>edCaret := length (edLine e)\<rparr>, need)"
proof -
  obtain ss where ss: "list_all isScalarValue ss" "edLine e = utf8_text ss" "index_ok ss (edIndex e)" using e by (rule editor_okE)
  have "editor_ok maxBytes (e\<lparr>edCaret := b\<rparr>)" if "b \<in> set (uax29_boundaries ss)" for b
    using editor_ok_caret [OF e ss(2,1,3) that] by simp
  then show "key_refines maxBytes (edLine e, 0, edTruncated e) (successStatus, e\<lparr>edCaret := 0\<rparr>, need)"
    and "key_refines maxBytes (edLine e, length (edLine e), edTruncated e) (successStatus, e\<lparr>edCaret := length (edLine e)\<rparr>, need)"
    using uax29_bounds(1,2) [OF ss(1)] ss(2) by (auto simp: key_refines_def edit_refines_def line_state_of_def)
qed

lemma editKey_refines:
  assumes e: "editor_ok maxBytes e"
  shows "key_refines maxBytes (ref_key maxBytes shift k (line_state_of e)) (editKey maxBytes shift k e)"
proof -
  have "ref_key maxBytes shift Home (line_state_of e) = (edLine e, 0, edTruncated e)"
    "ref_key maxBytes shift End (line_state_of e) = (edLine e, length (edLine e), edTruncated e)"
    by (simp_all add: line_state_of_def)
  with e editBackspace_refines [OF e] editDelete_refines [OF e] editArrow_refines [OF e] editTab_refines [OF e] editHomeEnd_refines [OF e]
  show ?thesis by (cases k) simp_all
qed

section \<open>Whatever the input\<close>

text \<open>Failing edits leave the editor as it was, so the invariant survives every input.\<close>

lemma editor_ok_edits:
  assumes e: "editor_ok maxBytes e"
  shows "editor_ok maxBytes (snd (insertScalar maxBytes c e))"
    and "editor_ok maxBytes (snd (insertPaste maxBytes t e))"
    and "editor_ok maxBytes (fst (snd (editKey maxBytes shift k e)))"
    and "ok (fst (editKey maxBytes shift k e))"
proof -
  show "editor_ok maxBytes (snd (insertScalar maxBytes c e))"
    using e insertScalar_refines [OF e] insertScalar_invalid by (cases "isScalarValue c") (simp_all add: edit_refines_def)
  show "editor_ok maxBytes (fst (snd (editKey maxBytes shift k e)))" "ok (fst (editKey maxBytes shift k e))"
    using editKey_refines [OF e, of shift k] by (simp_all add: key_refines_def edit_refines_def)
  have len: "length (edLine e) \<le> maxBytes" using e by (auto elim: editor_okE)
  show "editor_ok maxBytes (snd (insertPaste maxBytes t e))"
  proof (cases "pasteAccepted t (maxBytes - length (edLine e)) 0")
    case None
    then show ?thesis using e len by (simp add: insertPaste_def)
  next
    case (Some a)
    let ?e = "if a < length t then e\<lparr>edTruncated := True\<rparr> else e"
    from pasteAccepted_valid [OF Some] have a: "valid_utf8 (take a t)" "a \<le> maxBytes - length (edLine e)" by simp_all
    then obtain cs where cs: "list_all isScalarValue cs" "take a t = utf8_text cs" by (auto simp: valid_utf8_def)
    have "length (take a t) \<le> a" by simp
    then have fits: "length (edLine ?e) + length (utf8_text cs) \<le> maxBytes" using a(2) len unfolding cs(2) by (auto split: if_splits)
    have "editor_ok maxBytes ?e" using e by simp
    from insertAtCaret_refines [OF this cs(1) fits] Some this e len show ?thesis
      by (simp add: insertPaste_def cs(2) edit_refines_def Let_def)
  qed
qed

datatype line_edit = Typed char32 | Pasted "char32 list" | Pressed bool NamedKey

fun apply_edit :: "nat \<Rightarrow> line_edit \<Rightarrow> LineEditor \<Rightarrow> Status \<times> LineEditor" where
  "apply_edit maxBytes (Typed c) e = insertScalar maxBytes c e"
| "apply_edit maxBytes (Pasted cs) e = insertPaste maxBytes (utf8_text cs) e"
| "apply_edit maxBytes (Pressed shift k) e = (case editKey maxBytes shift k e of (status, e, need) \<Rightarrow> (status, e))"

fun apply_edits :: "nat \<Rightarrow> line_edit list \<Rightarrow> LineEditor \<Rightarrow> Status \<times> LineEditor" where
  "apply_edits maxBytes [] e = (successStatus, e)"
| "apply_edits maxBytes (d # ds) e =
    (case apply_edit maxBytes d e of (status, e) \<Rightarrow> if ok status then apply_edits maxBytes ds e else (status, e))"

fun ref_edit :: "nat \<Rightarrow> line_edit \<Rightarrow> line_state \<Rightarrow> line_state" where
  "ref_edit maxBytes (Typed c) s = ref_insert maxBytes c s"
| "ref_edit maxBytes (Pasted cs) s = ref_paste maxBytes cs s"
| "ref_edit maxBytes (Pressed shift k) s = ref_key maxBytes shift k s"

fun edit_scalars :: "line_edit \<Rightarrow> bool" where
  "edit_scalars (Typed c) = isScalarValue c"
| "edit_scalars (Pasted cs) = list_all isScalarValue cs"
| "edit_scalars (Pressed shift k) = True"

definition emptyLine :: "nat list \<Rightarrow> LineEditor" where
  "emptyLine graphemeStorage = \<lparr>edLine = [], edCaret = 0, edTruncated = False,
     edIndex = \<lparr>indexStorage = graphemeStorage, indexCursor = cursor_clear, indexReady = False\<rparr>\<rparr>"

lemma emptyLine_ok [simp]: "editor_ok maxBytes (emptyLine storage)"
  by (rule editor_ok_I [of "[]"]) (use uax29_bounds(1) [of "[]"] in \<open>simp_all add: emptyLine_def index_ok_def\<close>)

lemma apply_edit_refines:
  assumes e: "editor_ok maxBytes e" and d: "edit_scalars d"
  shows "edit_refines maxBytes (ref_edit maxBytes d (line_state_of e)) (apply_edit maxBytes d e)"
proof (cases d)
  case (Pressed shift k)
  then show ?thesis using editKey_refines [OF e, of shift k] by (cases "editKey maxBytes shift k e") (simp add: key_refines_def)
qed (use d insertScalar_refines [OF e] insertPaste_refines [OF e] in simp_all)

text \<open>
  C7: a line edited through the cached grapheme index - whatever sequence of typed scalars, pastes and named keys, from whatever
  scratch storage - always succeeds, ends with exactly the line, caret and truncation flag of the reference editor that segments
  the whole line anew at every key, and keeps the line well-formed UTF-8 of at most \<open>maxBytes\<close> bytes with the caret on a
  grapheme-cluster boundary.
\<close>

theorem line_editor_equivalence:
  assumes "list_all edit_scalars ds" and "editor_ok maxBytes e"
  shows "\<exists>e'. apply_edits maxBytes ds e = (successStatus, e') \<and> line_state_of e' = fold (ref_edit maxBytes) ds (line_state_of e) \<and>
    editor_ok maxBytes e' \<and> valid_utf8 (edLine e') \<and> length (edLine e') \<le> maxBytes \<and>
    edCaret e' \<in> set (text_boundaries (edLine e'))"
proof -
  have "edit_refines maxBytes (fold (ref_edit maxBytes) ds (line_state_of e)) (apply_edits maxBytes ds e)"
    using assms
  proof (induction ds arbitrary: e)
    case Nil
    then show ?case by (simp add: edit_refines_def)
  next
    case (Cons d ds)
    have d: "edit_refines maxBytes (ref_edit maxBytes d (line_state_of e)) (apply_edit maxBytes d e)"
      using Cons.prems by (intro apply_edit_refines) simp_all
    show ?case
    proof (cases "apply_edit maxBytes d e")
      case (Pair st e')
      then have "st = successStatus" "editor_ok maxBytes e'" "line_state_of e' = ref_edit maxBytes d (line_state_of e)"
        using d by (simp_all add: edit_refines_def)
      then show ?thesis using Cons.IH [of e'] Cons.prems Pair by simp
    qed
  qed
  then have r: "fst (apply_edits maxBytes ds e) = successStatus" "editor_ok maxBytes (snd (apply_edits maxBytes ds e))"
    "line_state_of (snd (apply_edits maxBytes ds e)) = fold (ref_edit maxBytes) ds (line_state_of e)"
    by (simp_all add: edit_refines_def)
  from r(2) have "valid_utf8 (edLine (snd (apply_edits maxBytes ds e)))" "length (edLine (snd (apply_edits maxBytes ds e))) \<le> maxBytes"
    "edCaret (snd (apply_edits maxBytes ds e)) \<in> set (text_boundaries (edLine (snd (apply_edits maxBytes ds e))))"
    by (auto elim!: editor_okE simp: valid_utf8_def)
  with r show ?thesis by (metis prod.collapse)
qed

theorem line_editor_equivalence_witness:
  "\<exists>e'. apply_edits 16 [Typed 0x61, Pasted [0x62], Pressed False ArrowLeft, Pressed False Backspace] (emptyLine []) =
     (successStatus, e') \<and> edLine e' = [0x62] \<and> edCaret e' = 0"
proof -
  let ?ds = "[Typed 0x61, Pasted [0x62], Pressed False ArrowLeft, Pressed False Backspace]"
  have "list_all edit_scalars ?ds" by code_simp
  from line_editor_equivalence [OF this emptyLine_ok]
  obtain e' where e': "apply_edits 16 ?ds (emptyLine []) = (successStatus, e')"
    "line_state_of e' = fold (ref_edit 16) ?ds (line_state_of (emptyLine []))" by blast
  have "fold (ref_edit 16) ?ds ([], 0, False) = ([0x62], 0, False)" by code_simp
  with e' show ?thesis by (simp add: line_state_of_def emptyLine_def del: fold.simps)
qed

end
