(* ===== verification/Terminal_Line_Input.thy ===== *)
theory Terminal_Line_Input
  imports Terminal_Line_Editor Base_Arithmetic
begin

text \<open>
  The rest of \<^verbatim>\<open>foundation/terminal/core/line_input.cpp\<close>: the echo of the line being edited and the event loop of
  \<open>managedTerminalLineRead\<close>. The terminal behind it - its output, its cursor, its event source and the steady clock - is a
  \<open>TerminalOps\<close> record of functions over a state \<open>'w\<close>, about which nothing is assumed unless a theorem says so. Clock readings
  and their difference are in nanoseconds, timeouts in milliseconds, both without the overflow of a 64-bit count;
  a status whose code is \<open>Success\<close> is returned as \<open>successStatus\<close>.
\<close>

unbundle bit_operations_syntax

section \<open>Types\<close>

record Size =
  columns :: "32 word"
  rows :: "32 word"

record Position =
  column :: "32 word"
  row :: "32 word"

datatype ReadOutcome = Completed | EndOfStream | TimedOut | WouldBlock | Cancelled

datatype ConsumedLineEnding = CLE_None | CLE_Lf | CLE_CrLf | CLE_Cr

datatype LineEndingMode = Strip | Keep | NormalizeToLf

datatype KeyAction = Press | Repeat | Release

text \<open>Modifier and media keys are enumerations that no branch of the reader inspects: their underlying values.\<close>

datatype KeyValue = CharacterKey char32 | Named NamedKey | FunctionKey "16 word" | ModifierKey "8 word" | MediaKey "8 word"

type_synonym KeyModifier = "16 word"

record Key =
  key :: KeyValue
  modifiers :: KeyModifier
  keyAction :: KeyAction
  repeatCount :: "32 word"

datatype Event = KeyEvent Key | Paste "byte list" | Resize Size

record EventResult =
  eventStatus :: Status
  eventOutcome :: ReadOutcome
  event :: "Event option"

record LineOptions =
  timeout :: "int option"
  maxReturnedBytes :: "64 word"
  echo :: bool
  lineEndingMode :: LineEndingMode

record LineResult =
  lineStatus :: Status
  lineOutcome :: ReadOutcome
  lineText :: "byte list"
  consumedLineEnding :: ConsumedLineEnding
  wasTruncated :: bool

record OutputCapabilities =
  supportsCursorMovement :: bool
  supportsCursorPositionQuery :: bool
  supportsTerminalSize :: bool

record 'w TerminalOps =
  prepareOutput :: "'w \<Rightarrow> Status \<times> OutputCapabilities \<times> 'w"
  getTerminalSize :: "'w \<Rightarrow> Status \<times> Size \<times> 'w"
  queryRenderingPosition :: "'w \<Rightarrow> Status \<times> Position \<times> 'w"
  setRenderingPosition :: "Position \<Rightarrow> 'w \<Rightarrow> Status \<times> 'w"
  writeText :: "byte list \<Rightarrow> 'w \<Rightarrow> Status \<times> 'w"
  readManagedEvent :: "int option \<Rightarrow> 'w \<Rightarrow> EventResult \<times> 'w"
  steadyNow :: "'w \<Rightarrow> int"

definition hasModifier :: "KeyModifier \<Rightarrow> KeyModifier \<Rightarrow> bool" where
  "hasModifier m requested \<longleftrightarrow> m AND requested = requested"

definition Shift :: KeyModifier where "Shift = 1"

definition hasShortcutModifier :: "KeyModifier \<Rightarrow> bool" where
  "hasShortcutModifier m \<longleftrightarrow> hasModifier m 2 \<or> hasModifier m 4 \<or> hasModifier m 8 \<or> hasModifier m 16 \<or> hasModifier m 32"

section \<open>Echo\<close>

record LineEcho =
  echoSize :: Size
  origin :: Position
  renderedCells :: "64 word"
  caretCells :: "64 word"
  enabled :: bool
  active :: bool

type_synonym 'w echo_result = "Status \<times> LineEcho \<times> 'w"

definition linear_cell :: "32 word \<Rightarrow> Position \<Rightarrow> 64 word" where
  "linear_cell cols p = ucast (row p) * ucast cols + ucast (column p)"

definition positionBefore :: "Size \<Rightarrow> Position \<Rightarrow> 64 word \<Rightarrow> Position option" where
  "positionBefore sz end cells =
    (if columns sz = 0 \<or> column end \<ge> columns sz then None
     else let endLinear = linear_cell (columns sz) end in
       if cells > endLinear then None
       else let beginLinear = endLinear - cells in
         Some \<lparr>column = ucast (beginLinear mod ucast (columns sz)), row = ucast (beginLinear div ucast (columns sz))\<rparr>)"

definition cellDistance :: "Size \<Rightarrow> Position \<Rightarrow> Position \<Rightarrow> 64 word option" where
  "cellDistance sz begin end =
    (if columns sz = 0 \<or> column begin \<ge> columns sz \<or> column end \<ge> columns sz \<or> row end < row begin then None
     else let beginLinear = linear_cell (columns sz) begin; endLinear = linear_cell (columns sz) end in
       if endLinear < beginLinear then None else Some (endLinear - beginLinear))"

text \<open>An early return of a failed terminal call, with the echo as it is at that point.\<close>

definition on_ok :: "Status \<times> 'w \<Rightarrow> LineEcho \<Rightarrow> ('w \<Rightarrow> 'w echo_result) \<Rightarrow> 'w echo_result" where
  "on_ok r ec k = (case r of (status, w) \<Rightarrow> if ok status then k w else (status, ec, w))"

definition on_value :: "Status \<times> 'a \<times> 'w \<Rightarrow> LineEcho \<Rightarrow> ('a \<Rightarrow> 'w \<Rightarrow> 'w echo_result) \<Rightarrow> 'w echo_result" where
  "on_value r ec k = (case r of (status, v, w) \<Rightarrow> if ok status then k v w else (status, ec, w))"

definition echo_begin :: "'w TerminalOps \<Rightarrow> LineEcho \<Rightarrow> 'w \<Rightarrow> 'w echo_result" where
  "echo_begin ops ec w =
    (if \<not> enabled ec then (successStatus, ec, w)
     else on_value (prepareOutput ops w) ec (\<lambda>caps w.
       if \<not> supportsCursorMovement caps \<or> \<not> supportsCursorPositionQuery caps \<or> \<not> supportsTerminalSize caps
       then (statusOf Unsupported, ec, w)
       else on_value (getTerminalSize ops w) ec (\<lambda>sz w.
         let ec = ec\<lparr>echoSize := sz\<rparr> in
         on_value (queryRenderingPosition ops w) ec (\<lambda>position w.
           (successStatus, ec\<lparr>origin := position, active := True, renderedCells := 0, caretCells := 0\<rparr>, w)))))"

definition updateSize :: "Size \<Rightarrow> LineEcho \<Rightarrow> LineEcho" where
  "updateSize sz ec = (if columns sz > 0 \<and> rows sz > 0 then ec\<lparr>echoSize := sz\<rparr> else ec)"

definition echo_append :: "'w TerminalOps \<Rightarrow> byte list \<Rightarrow> LineEcho \<Rightarrow> 'w \<Rightarrow> 'w echo_result" where
  "echo_append ops appendedText ec w =
    (if \<not> enabled ec \<or> \<not> active ec \<or> appendedText = [] then (successStatus, ec, w)
     else on_ok (writeText ops appendedText w) ec (\<lambda>w.
       let simpleAscii = list_all (\<lambda>b. b \<ge> 0x20 \<and> b < 0x7F) appendedText in
       if simpleAscii \<and> \<not> wouldAddOverflow (renderedCells ec) (of_nat (length appendedText))
       then let cells = renderedCells ec + of_nat (length appendedText) in
         (successStatus, ec\<lparr>renderedCells := cells, caretCells := cells\<rparr>, w)
       else on_value (queryRenderingPosition ops w) ec (\<lambda>current w.
         case cellDistance (echoSize ec) (origin ec) current of
           None \<Rightarrow> (statusOf Unsupported, ec, w)
         | Some cells \<Rightarrow> (successStatus, ec\<lparr>renderedCells := cells, caretCells := cells\<rparr>, w))))"

definition cell_before :: "Size \<Rightarrow> Position \<Rightarrow> Position option" where
  "cell_before sz p =
    (if column p > 0 then Some (p\<lparr>column := column p - 1\<rparr>)
     else if row p > 0 then Some (p\<lparr>row := row p - 1, column := columns sz - 1\<rparr>)
     else None)"

definition eraseTrailingAsciiCell :: "'w TerminalOps \<Rightarrow> LineEcho \<Rightarrow> 'w \<Rightarrow> 'w echo_result" where
  "eraseTrailingAsciiCell ops ec w =
    (if \<not> enabled ec \<or> \<not> active ec then (successStatus, ec, w)
     else if columns (echoSize ec) = 0 then (statusOf Unsupported, ec, w)
     else on_value (queryRenderingPosition ops w) ec (\<lambda>current w.
       case positionBefore (echoSize ec) current (caretCells ec) of
         None \<Rightarrow> (statusOf Unsupported, ec, w)
       | Some currentOrigin \<Rightarrow>
           case cell_before (echoSize ec) current of
             None \<Rightarrow> (statusOf Unsupported, ec, w)
           | Some previous \<Rightarrow>
               on_ok (setRenderingPosition ops previous w) ec (\<lambda>w.
               on_ok (writeText ops [0x20] w) ec (\<lambda>w.
               case setRenderingPosition ops previous w of (status, w) \<Rightarrow>
                 (status, if ok status then ec\<lparr>origin := currentOrigin, renderedCells := renderedCells ec - 1, caretCells := caretCells ec - 1\<rparr> else ec, w)))))"

function writeSpaces :: "'w TerminalOps \<Rightarrow> nat \<Rightarrow> 'w \<Rightarrow> Status \<times> 'w" where
  "writeSpaces ops count w =
    (if count > 0 then
       let chunk = min count 64 in
       case writeText ops (replicate chunk 0x20) w of (status, w) \<Rightarrow>
         if \<not> ok status then (status, w) else writeSpaces ops (count - chunk) w
     else (successStatus, w))"
  by pat_completeness auto
termination by (relation "measure (\<lambda>(ops, count, w). count)") auto

declare writeSpaces.simps [simp del]

definition redraw :: "'w TerminalOps \<Rightarrow> byte list \<Rightarrow> nat \<Rightarrow> LineEcho \<Rightarrow> 'w \<Rightarrow> 'w echo_result" where
  "redraw ops line caretByteOffset ec w =
    (if \<not> enabled ec \<or> \<not> active ec then (successStatus, ec, w)
     else if caretByteOffset > length line \<or> columns (echoSize ec) = 0 then (statusOf InvalidArgument, ec, w)
     else on_value (queryRenderingPosition ops w) ec (\<lambda>current w.
       case positionBefore (echoSize ec) current (caretCells ec) of
         None \<Rightarrow> (statusOf Unsupported, ec, w)
       | Some rebuiltOrigin \<Rightarrow>
         let ec = ec\<lparr>origin := rebuiltOrigin\<rparr> in
         on_ok (setRenderingPosition ops (origin ec) w) ec (\<lambda>w.
         on_ok (writeText ops line w) ec (\<lambda>w.
         on_value (queryRenderingPosition ops w) ec (\<lambda>end w.
         case cellDistance (echoSize ec) (origin ec) end of
           None \<Rightarrow> (statusOf Unsupported, ec, w)
         | Some newCells \<Rightarrow>
           on_ok (if renderedCells ec > newCells then writeSpaces ops (unat (renderedCells ec - newCells)) w else (successStatus, w)) ec (\<lambda>w.
           let ec = ec\<lparr>renderedCells := newCells\<rparr> in
           on_ok (setRenderingPosition ops (origin ec) w) ec (\<lambda>w.
           if caretByteOffset > 0
           then on_ok (writeText ops (take caretByteOffset line) w) ec (\<lambda>w.
             on_value (queryRenderingPosition ops w) ec (\<lambda>caretPosition w.
             case cellDistance (echoSize ec) (origin ec) caretPosition of
               None \<Rightarrow> (statusOf Unsupported, ec, w)
             | Some cells \<Rightarrow> (successStatus, ec\<lparr>caretCells := cells\<rparr>, w)))
           else (successStatus, ec\<lparr>caretCells := 0\<rparr>, w))))))))"

definition echo_finish :: "'w TerminalOps \<Rightarrow> byte list \<Rightarrow> nat \<Rightarrow> LineEcho \<Rightarrow> 'w \<Rightarrow> 'w echo_result" where
  "echo_finish ops line caretByteOffset ec w =
    (if \<not> enabled ec \<or> \<not> active ec then (successStatus, ec, w)
     else case (if caretByteOffset \<noteq> length line then redraw ops line (length line) ec w else (successStatus, ec, w)) of
       (status, ec, w) \<Rightarrow>
         if \<not> ok status then (status, ec, w)
         else case writeText ops [0x0D, 0x0A] w of (status, w) \<Rightarrow> (status, ec, w))"

section \<open>The event loop\<close>

definition remainingReadTimeout :: "int \<Rightarrow> int \<Rightarrow> int option \<Rightarrow> int option" where
  "remainingReadTimeout now start t =
    (case t of None \<Rightarrow> None
     | Some ms \<Rightarrow>
         if ms = 0 then Some 0
         else let elapsed = (now - start) div 1000000 in if elapsed \<ge> ms then Some 0 else Some (ms - elapsed))"

definition timeoutExpired :: "int \<Rightarrow> int \<Rightarrow> int option \<Rightarrow> bool" where
  "timeoutExpired now start t \<longleftrightarrow> (case t of None \<Rightarrow> False | Some ms \<Rightarrow> ms > 0 \<and> now - start \<ge> ms * 1000000)"

definition endingText :: "LineEndingMode \<Rightarrow> byte list" where
  "endingText m = (case m of Strip \<Rightarrow> [] | Keep \<Rightarrow> [0x0D, 0x0A] | NormalizeToLf \<Rightarrow> [0x0A])"

definition lineMaxBytes :: "LineOptions \<Rightarrow> nat" where
  "lineMaxBytes opts = (if unat (maxReturnedBytes opts) > size_max then size_max else unat (maxReturnedBytes opts))"

definition lineResultOf :: "Status \<Rightarrow> ReadOutcome \<Rightarrow> LineEditor \<Rightarrow> LineResult" where
  "lineResultOf status outcome e = \<lparr>lineStatus = status, lineOutcome = outcome, lineText = edLine e,
     consumedLineEnding = CLE_None, wasTruncated = edTruncated e\<rparr>"

definition completeManagedLine :: "LineOptions \<Rightarrow> LineEditor \<Rightarrow> LineResult" where
  "completeManagedLine opts e =
    (let ending = endingText (lineEndingMode opts);
         maxBytes = lineMaxBytes opts;
         fits = length ending \<le> maxBytes - min maxBytes (length (edLine e)) in
     \<lparr>lineStatus = successStatus, lineOutcome = Completed, lineText = (if fits then edLine e @ ending else edLine e),
      consumedLineEnding = CLE_CrLf, wasTruncated = edTruncated e \<or> \<not> fits\<rparr>)"

text \<open>One turn of the loop returns a result or goes on with the edited line.\<close>

datatype 'w turn = Return LineResult 'w | Continue LineEditor LineEcho 'w

definition after_echo :: "LineEditor \<Rightarrow> 'w echo_result \<Rightarrow> 'w turn" where
  "after_echo e r = (case r of (status, ec, w) \<Rightarrow>
     if \<not> ok status then Return (lineResultOf status Completed e) w else Continue e ec w)"

definition handlePaste :: "'w TerminalOps \<Rightarrow> nat \<Rightarrow> byte list \<Rightarrow> LineEditor \<Rightarrow> LineEcho \<Rightarrow> 'w \<Rightarrow> 'w turn" where
  "handlePaste ops maxBytes bytes e ec w =
    (case insertPaste maxBytes bytes e of (status, e') \<Rightarrow>
       if \<not> ok status then Return (lineResultOf status Completed e') w
       else after_echo e' (if edCaret e = length (edLine e) then echo_append ops (drop (length (edLine e)) (edLine e')) ec w
                           else redraw ops (edLine e') (edCaret e') ec w))"

primrec insertRepeated :: "nat \<Rightarrow> nat \<Rightarrow> char32 \<Rightarrow> LineEditor \<Rightarrow> Status \<times> LineEditor" where
  "insertRepeated 0 maxBytes c e = (successStatus, e)"
| "insertRepeated (Suc n) maxBytes c e =
    (case insertScalar maxBytes c e of (status, e) \<Rightarrow> if \<not> ok status then (status, e) else insertRepeated n maxBytes c e)"

definition handleCharacter :: "'w TerminalOps \<Rightarrow> nat \<Rightarrow> nat \<Rightarrow> char32 \<Rightarrow> LineEditor \<Rightarrow> LineEcho \<Rightarrow> 'w \<Rightarrow> 'w turn" where
  "handleCharacter ops maxBytes occurrences c e ec w =
    (case insertRepeated occurrences maxBytes c e of (status, e') \<Rightarrow>
       if \<not> ok status then Return (lineResultOf status Completed e') w
       else after_echo e' (if edCaret e = length (edLine e) then echo_append ops (drop (length (edLine e)) (edLine e')) ec w
                           else redraw ops (edLine e') (edCaret e') ec w))"

text \<open>The switch of one key occurrence: the status, the echo, the terminal and \<open>redrawRequired\<close>.\<close>

definition echoKey :: "'w TerminalOps \<Rightarrow> LineEditor \<Rightarrow> echo_need \<Rightarrow> bool \<Rightarrow> LineEcho \<Rightarrow> 'w \<Rightarrow> Status \<times> LineEcho \<times> 'w \<times> bool" where
  "echoKey ops e need redrawRequired ec w =
    (case need of
       Echo_None \<Rightarrow> (successStatus, ec, w, redrawRequired)
     | Echo_Redraw \<Rightarrow> (successStatus, ec, w, True)
     | Echo_EraseCell \<Rightarrow>
         if redrawRequired then (successStatus, ec, w, True)
         else (case eraseTrailingAsciiCell ops ec w of (status, ec, w) \<Rightarrow>
           if code status = Unsupported then (successStatus, ec, w, True) else (status, ec, w, False))
     | Echo_AppendFrom n \<Rightarrow>
         if redrawRequired then (successStatus, ec, w, True)
         else (case echo_append ops (drop n (edLine e)) ec w of (status, ec, w) \<Rightarrow> (status, ec, w, False)))"

fun keyOccurrences :: "'w TerminalOps \<Rightarrow> nat \<Rightarrow> nat \<Rightarrow> bool \<Rightarrow> NamedKey \<Rightarrow> LineEditor \<Rightarrow> bool \<Rightarrow> LineEcho \<Rightarrow> 'w \<Rightarrow> 'w turn" where
  "keyOccurrences ops maxBytes 0 shift k e redrawRequired ec w =
    (if redrawRequired then after_echo e (redraw ops (edLine e) (edCaret e) ec w) else Continue e ec w)"
| "keyOccurrences ops maxBytes (Suc n) shift k e redrawRequired ec w =
    (case editKey maxBytes shift k e of (status, e, need) \<Rightarrow>
       if \<not> ok status then Return (lineResultOf status Completed e) w
       else case echoKey ops e need redrawRequired ec w of (status, ec, w, redrawRequired) \<Rightarrow>
         if \<not> ok status then Return (lineResultOf status Completed e) w
         else keyOccurrences ops maxBytes n shift k e redrawRequired ec w)"

definition handleKey :: "'w TerminalOps \<Rightarrow> LineOptions \<Rightarrow> Key \<Rightarrow> LineEditor \<Rightarrow> LineEcho \<Rightarrow> 'w \<Rightarrow> 'w turn" where
  "handleKey ops opts k e ec w =
    (if keyAction k = Release then Continue e ec w
     else let occurrences = (if keyAction k = Repeat then max (unat (repeatCount k)) 1 else 1); maxBytes = lineMaxBytes opts in
       case key k of
         CharacterKey c \<Rightarrow>
           if hasShortcutModifier (modifiers k) then Continue e ec w else handleCharacter ops maxBytes occurrences c e ec w
       | Named named \<Rightarrow>
           if named = Enter
           then (case echo_finish ops (edLine e) (edCaret e) ec w of (status, ec, w) \<Rightarrow>
             if \<not> ok status then Return (lineResultOf status Completed e) w else Return (completeManagedLine opts e) w)
           else if hasShortcutModifier (modifiers k) then Continue e ec w
           else keyOccurrences ops maxBytes occurrences (hasModifier (modifiers k) Shift) named e False ec w
       | _ \<Rightarrow> Continue e ec w)"

definition handleEvent :: "'w TerminalOps \<Rightarrow> LineOptions \<Rightarrow> Event \<Rightarrow> LineEditor \<Rightarrow> LineEcho \<Rightarrow> 'w \<Rightarrow> 'w turn" where
  "handleEvent ops opts ev e ec w =
    (case ev of
       Resize sz \<Rightarrow> after_echo e (redraw ops (edLine e) (edCaret e) (updateSize sz ec) w)
     | Paste bytes \<Rightarrow> handlePaste ops (lineMaxBytes opts) bytes e ec w
     | KeyEvent k \<Rightarrow> handleKey ops opts k e ec w)"

definition lineTurn :: "'w TerminalOps \<Rightarrow> LineOptions \<Rightarrow> int \<Rightarrow> LineEditor \<Rightarrow> LineEcho \<Rightarrow> 'w \<Rightarrow> 'w turn" where
  "lineTurn ops opts start e ec w =
    (if timeoutExpired (steadyNow ops w) start (timeout opts) then Return (lineResultOf successStatus TimedOut e) w
     else case readManagedEvent ops (remainingReadTimeout (steadyNow ops w) start (timeout opts)) w of (r, w) \<Rightarrow>
       if \<not> ok (eventStatus r) then Return (lineResultOf (eventStatus r) (eventOutcome r) e) w
       else if eventOutcome r \<noteq> Completed then Return (lineResultOf successStatus (eventOutcome r) e) w
       else case event r of
         None \<Rightarrow> Return (lineResultOf successStatus (eventOutcome r) e) w
       | Some ev \<Rightarrow> handleEvent ops opts ev e ec w)"

partial_function (option) lineLoop :: "'w TerminalOps \<Rightarrow> LineOptions \<Rightarrow> int \<Rightarrow> LineEditor \<Rightarrow> LineEcho \<Rightarrow> 'w \<Rightarrow> (LineResult \<times> 'w) option" where
  "lineLoop ops opts start e ec w =
    (case lineTurn ops opts start e ec w of
       Return r w \<Rightarrow> Some (r, w)
     | Continue e ec w \<Rightarrow> lineLoop ops opts start e ec w)"

declare lineLoop.simps [code]

definition lineEcho :: "bool \<Rightarrow> LineEcho" where
  "lineEcho b = \<lparr>echoSize = \<lparr>columns = 0, rows = 0\<rparr>, origin = \<lparr>column = 0, row = 0\<rparr>, renderedCells = 0, caretCells = 0, enabled = b, active = False\<rparr>"

definition managedTerminalLineRead :: "'w TerminalOps \<Rightarrow> LineOptions \<Rightarrow> nat list \<Rightarrow> 'w \<Rightarrow> (LineResult \<times> 'w) option" where
  "managedTerminalLineRead ops opts graphemeStorage w =
    (case echo_begin ops (lineEcho (echo opts)) w of (status, ec, w) \<Rightarrow>
       if \<not> ok status then Some (lineResultOf status Completed (emptyLine graphemeStorage), w)
       else lineLoop ops opts (steadyNow ops w) (emptyLine graphemeStorage) ec w)"

section \<open>Cells\<close>

lemma unat_linear_cell: "unat (linear_cell cols p) = unat (row p) * unat cols + unat (column p)"
proof -
  have r: "unat (row p) \<le> 2 ^ 32 - 1" "unat cols \<le> 2 ^ 32 - 1" "unat (column p) \<le> 2 ^ 32 - 1"
    using unsigned_less [of "row p", where ?'a = nat] unsigned_less [of cols, where ?'a = nat]
      unsigned_less [of "column p", where ?'a = nat] by simp_all
  then have m: "unat (row p) * unat cols \<le> (2 ^ 32 - 1) * (2 ^ 32 - 1)" by (intro mult_le_mono)
  have u: "unat (ucast x :: 64 word) = unat x" for x :: "32 word"
    using unsigned_less [of x, where ?'a = nat] by (simp add: unsigned_ucast_eq take_bit_nat_eq_self)
  have mult: "unat (ucast (row p) * ucast cols :: 64 word) = unat (row p) * unat cols"
    using m by (subst unat_mult_lem [THEN iffD1]) (simp_all add: u)
  have "unat (row p) * unat cols + unat (column p) < 2 ^ 64" using m r by simp
  then show ?thesis unfolding linear_cell_def by (subst unat_add_lem [THEN iffD1]) (simp_all add: mult u)
qed

lemma unat_ucast_32: "unat (ucast x :: 64 word) = unat x" for x :: "32 word"
  using unsigned_less [of x, where ?'a = nat] by (simp add: unsigned_ucast_eq take_bit_nat_eq_self)

lemma unat_ucast_down: "unat x < 2 ^ 32 \<Longrightarrow> unat (ucast x :: 32 word) = unat x" for x :: "64 word"
  by (simp add: unsigned_ucast_eq take_bit_nat_eq_self)

lemma linear_cell_row_column:
  assumes "column p < cols"
  shows "unat (linear_cell cols p div ucast cols) = unat (row p)" "unat (linear_cell cols p mod ucast cols) = unat (column p)"
  using assms by (simp_all add: unat_div_distrib unat_mod_distrib unat_linear_cell unat_ucast_32 word_less_nat_alt div_mult_self3)

lemma linear_cell_inverse:
  assumes "column p < cols"
  shows "ucast (linear_cell cols p mod ucast cols) = column p" "ucast (linear_cell cols p div ucast cols) = row p"
  using linear_cell_row_column [OF assms] unsigned_less [of "row p", where ?'a = nat] unsigned_less [of "column p", where ?'a = nat]
  by (simp_all add: word_unat_eq_iff unat_ucast_down)

lemma linear_cell_below:
  assumes p: "column p < cols" and w: "w \<le> linear_cell cols p"
  defines "q \<equiv> \<lparr>column = ucast (w mod ucast cols), row = ucast (w div ucast cols)\<rparr>"
  shows "linear_cell cols q = w" "column q < cols" "row q \<le> row p"
proof -
  have cols: "0 < unat cols" using p by (simp add: word_less_nat_alt)
  have mod: "unat (w mod ucast cols) = unat w mod unat cols" and div: "unat (w div ucast cols) = unat w div unat cols"
    by (simp_all add: unat_div_distrib unat_mod_distrib unat_ucast_32)
  have "unat w \<le> unat (linear_cell cols p)" using w by (simp add: word_le_nat_alt)
  then have "unat w div unat cols \<le> unat (linear_cell cols p) div unat cols" by (rule div_le_mono)
  also have "\<dots> = unat (row p)"
    using linear_cell_row_column(1) [OF p] by (simp add: unat_div_distrib unat_ucast_32)
  finally have row: "unat w div unat cols \<le> unat (row p)" .
  have "unat w mod unat cols < unat cols" using cols by simp
  then have fit: "unat w mod unat cols < 2 ^ 32" "unat w div unat cols < 2 ^ 32"
    using unsigned_less [of cols, where ?'a = nat] unsigned_less [of "row p", where ?'a = nat] row by simp_all
  have q: "unat (column q) = unat w mod unat cols" "unat (row q) = unat w div unat cols"
    using fit by (simp_all add: q_def unat_ucast_down mod div)
  show "linear_cell cols q = w" by (simp add: word_unat_eq_iff unat_linear_cell q)
  show "column q < cols" "row q \<le> row p" using q row cols by (simp_all add: word_less_nat_alt word_le_nat_alt)
qed

text \<open>
  The two cell computations of the echo are inverse to each other at every 32-bit size and position: the position \<open>n\<close> cells
  before \<open>e\<close> is \<open>p\<close> exactly when the distance from \<open>p\<close> to \<open>e\<close> is \<open>n\<close>, and neither 64-bit cell number wraps.
\<close>

theorem position_distance_inverse:
  "(positionBefore sz e n = Some p \<longleftrightarrow> cellDistance sz p e = Some n) \<and>
   unat (linear_cell (columns sz) e) = unat (row e) * unat (columns sz) + unat (column e)"
proof -
  let ?L = "linear_cell (columns sz)"
  have "cellDistance sz p e = Some n" if before: "positionBefore sz e n = Some p"
  proof -
    have c: "column e < columns sz" and n: "n \<le> ?L e"
      and p: "p = \<lparr>column = ucast ((?L e - n) mod ucast (columns sz)), row = ucast ((?L e - n) div ucast (columns sz))\<rparr>"
      using before by (auto simp: positionBefore_def Let_def not_less not_le split: if_splits)
    have le: "?L e - n \<le> ?L e" using n by (simp add: word_le_nat_alt unat_sub)
    from linear_cell_below [OF c this] have q: "?L p = ?L e - n" "column p < columns sz" "row p \<le> row e" by (simp_all add: p)
    with c le show ?thesis by (auto simp: cellDistance_def Let_def)
  qed
  moreover have "positionBefore sz e n = Some p" if distance: "cellDistance sz p e = Some n"
  proof -
    have c: "column p < columns sz" "column e < columns sz" "columns sz \<noteq> 0" and le: "?L p \<le> ?L e" and n: "n = ?L e - ?L p"
      using distance by (auto simp: cellDistance_def Let_def not_less not_le split: if_splits)
    then have "n \<le> ?L e" by (simp add: word_le_nat_alt unat_sub)
    with c n linear_cell_inverse [OF c(1)] show ?thesis by (auto simp: positionBefore_def Let_def)
  qed
  ultimately show ?thesis using unat_linear_cell by blast
qed

section \<open>What is returned\<close>

definition line_result_ok :: "LineOptions \<Rightarrow> LineResult \<Rightarrow> bool" where
  "line_result_ok opts r \<longleftrightarrow> valid_utf8 (lineText r) \<and> length (lineText r) \<le> unat (maxReturnedBytes opts) \<and>
    (consumedLineEnding r \<noteq> CLE_None \<longrightarrow> lineStatus r = successStatus \<and> lineOutcome r = Completed)"

fun turn_ok :: "LineOptions \<Rightarrow> 'w turn \<Rightarrow> bool" where
  "turn_ok opts (Return r w) = line_result_ok opts r"
| "turn_ok opts (Continue e ec w) = editor_ok (lineMaxBytes opts) e"

lemma editor_ok_line: "editor_ok maxBytes e \<Longrightarrow> valid_utf8 (edLine e) \<and> length (edLine e) \<le> maxBytes"
  by (auto elim!: editor_okE simp: valid_utf8_def)

lemma lineMaxBytes_le: "lineMaxBytes opts \<le> unat (maxReturnedBytes opts)"
  by (simp add: lineMaxBytes_def)

lemma line_result_ok_partial [simp]: "editor_ok (lineMaxBytes opts) e \<Longrightarrow> line_result_ok opts (lineResultOf status outc e)"
  using editor_ok_line [of "lineMaxBytes opts" e] lineMaxBytes_le [of opts] by (simp add: line_result_ok_def lineResultOf_def)

lemma line_result_ok_complete [simp]:
  assumes "editor_ok (lineMaxBytes opts) e"
  shows "line_result_ok opts (completeManagedLine opts e)"
proof -
  have "valid_utf8 (endingText (lineEndingMode opts))"
    by (rule valid_utf8_ascii) (simp add: endingText_def split: LineEndingMode.split)
  then show ?thesis
    using editor_ok_line [OF assms] lineMaxBytes_le [of opts] valid_utf8_append
    by (auto simp: line_result_ok_def completeManagedLine_def Let_def)
qed

lemma turn_ok_after_echo [simp]: "editor_ok (lineMaxBytes opts) e \<Longrightarrow> turn_ok opts (after_echo e r)"
  by (simp add: after_echo_def split: prod.split)

lemma insertRepeated_ok: "editor_ok maxBytes e \<Longrightarrow> editor_ok maxBytes (snd (insertRepeated n maxBytes c e))"
proof (induction n arbitrary: e)
  case (Suc n)
  then show ?case using editor_ok_edits(1) [OF Suc.prems, of c] by (cases "insertScalar maxBytes c e") simp
qed simp

lemma keyOccurrences_ok:
  "editor_ok (lineMaxBytes opts) e \<Longrightarrow> turn_ok opts (keyOccurrences ops (lineMaxBytes opts) n shift k e rq ec w)"
proof (induction n arbitrary: e rq ec w)
  case (Suc n)
  show ?case
    using Suc editor_ok_edits(3) [OF Suc.prems, of shift k]
    by (cases "editKey (lineMaxBytes opts) shift k e") (auto split: prod.split)
qed simp

lemma handleEvent_ok:
  assumes e: "editor_ok (lineMaxBytes opts) e"
  shows "turn_ok opts (handleEvent ops opts ev e ec w)"
proof (cases ev)
  case (KeyEvent k)
  have "turn_ok opts (handleCharacter ops (lineMaxBytes opts) n c e ec w)" for n c
    using e insertRepeated_ok [OF e, of n c]
    by (cases "insertRepeated n (lineMaxBytes opts) c e") (simp add: handleCharacter_def)
  then show ?thesis using e
    by (simp add: keyOccurrences_ok KeyEvent handleEvent_def handleKey_def Let_def split: KeyValue.split prod.split del: keyOccurrences.simps)
next
  case (Paste bytes)
  then show ?thesis using e editor_ok_edits(2) [OF e, of bytes]
    by (cases "insertPaste (lineMaxBytes opts) bytes e") (simp add: handleEvent_def handlePaste_def)
qed (use e in \<open>simp add: handleEvent_def\<close>)

lemma lineTurn_ok: "editor_ok (lineMaxBytes opts) e \<Longrightarrow> turn_ok opts (lineTurn ops opts start e ec w)"
  by (simp add: lineTurn_def handleEvent_ok split: prod.split option.split)

lemma lineLoop_ok:
  assumes "lineLoop ops opts start e ec w = Some y" and "editor_ok (lineMaxBytes opts) e"
  shows "line_result_ok opts (fst y)"
proof -
  have "editor_ok (lineMaxBytes opts) e \<longrightarrow> line_result_ok opts (fst y)"
  proof (rule lineLoop.raw_induct [of "\<lambda>ops opts start e ec w y. editor_ok (lineMaxBytes opts) e \<longrightarrow> line_result_ok opts (fst y)", OF _ assms(1)])
    fix lp :: "'a TerminalOps \<Rightarrow> LineOptions \<Rightarrow> int \<Rightarrow> LineEditor \<Rightarrow> LineEcho \<Rightarrow> 'a \<Rightarrow> (LineResult \<times> 'a) option"
      and ops :: "'a TerminalOps" and opts start e ec w y
    assume IH: "\<And>ops opts start e ec w y. lp ops opts start e ec w = Some y \<Longrightarrow>
        editor_ok (lineMaxBytes opts) e \<longrightarrow> line_result_ok opts (fst y)"
      and step: "(case lineTurn ops opts start e ec w of Return r w \<Rightarrow> Some (r, w) | Continue e ec w \<Rightarrow> lp ops opts start e ec w) = Some y"
    show "editor_ok (lineMaxBytes opts) e \<longrightarrow> line_result_ok opts (fst y)"
      using IH step lineTurn_ok [of opts e ops start ec w] by (cases "lineTurn ops opts start e ec w") auto
  qed
  with assms(2) show ?thesis by blast
qed

section \<open>The deadline ends the loop\<close>

text \<open>The steady clock never goes back across a terminal call, and reading an event takes time.\<close>

definition clock_advances :: "'w TerminalOps \<Rightarrow> bool" where
  "clock_advances ops \<longleftrightarrow>
    (\<forall>t w. steadyNow ops w < steadyNow ops (snd (readManagedEvent ops t w))) \<and>
    (\<forall>w. steadyNow ops w \<le> steadyNow ops (snd (snd (queryRenderingPosition ops w)))) \<and>
    (\<forall>p w. steadyNow ops w \<le> steadyNow ops (snd (setRenderingPosition ops p w))) \<and>
    (\<forall>t w. steadyNow ops w \<le> steadyNow ops (snd (writeText ops t w)))"

definition not_before :: "'w TerminalOps \<Rightarrow> int \<Rightarrow> 'w echo_result \<Rightarrow> bool" where
  "not_before ops t r \<longleftrightarrow> t \<le> steadyNow ops (snd (snd r))"

lemma not_before_plain [simp]: "not_before ops t (status, ec, w) \<longleftrightarrow> t \<le> steadyNow ops w"
  by (simp add: not_before_def)

lemma not_before_on_ok:
  assumes "t \<le> steadyNow ops (snd r)" "\<And>w. t \<le> steadyNow ops w \<Longrightarrow> not_before ops t (k w)"
  shows "not_before ops t (on_ok r ec k)"
  using assms by (cases r) (simp add: on_ok_def)

lemma not_before_on_value:
  assumes "t \<le> steadyNow ops (snd (snd r))" "\<And>v w. t \<le> steadyNow ops w \<Longrightarrow> not_before ops t (k v w)"
  shows "not_before ops t (on_value r ec k)"
  using assms by (cases r) (simp add: on_value_def)

lemma clock_calls:
  assumes "clock_advances ops" "t \<le> steadyNow ops w"
  shows "t \<le> steadyNow ops (snd (snd (queryRenderingPosition ops w)))" "t \<le> steadyNow ops (snd (setRenderingPosition ops p w))"
    "t \<le> steadyNow ops (snd (writeText ops b w))"
  using assms unfolding clock_advances_def by (meson order_trans)+

lemma writeSpaces_clock:
  "clock_advances ops \<Longrightarrow> t \<le> steadyNow ops w \<Longrightarrow> t \<le> steadyNow ops (snd (writeSpaces ops n w))"
proof (induction n arbitrary: w rule: less_induct)
  case (less n)
  note wr = clock_calls(3) [OF less.prems, of "replicate (min n 64) 0x20"]
  show ?case
  proof (cases "n = 0")
    case False
    then have "n - min n 64 < n" by simp
    with less wr False show ?thesis
      by (cases "writeText ops (replicate (min n 64) 0x20) w") (simp add: writeSpaces.simps [of ops n] Let_def)
  qed (use less.prems in \<open>simp add: writeSpaces.simps\<close>)
qed

lemma redraw_clock:
  assumes "clock_advances ops" "t \<le> steadyNow ops w"
  shows "not_before ops t (redraw ops line c ec w)"
  unfolding redraw_def Let_def using assms
  by (auto intro!: not_before_on_value not_before_on_ok clock_calls writeSpaces_clock split: option.split)

lemma echo_append_clock:
  assumes "clock_advances ops" "t \<le> steadyNow ops w"
  shows "not_before ops t (echo_append ops bytes ec w)"
  unfolding echo_append_def Let_def using assms
  by (auto intro!: not_before_on_value not_before_on_ok clock_calls split: option.split)

lemma eraseTrailingAsciiCell_clock:
  assumes "clock_advances ops" "t \<le> steadyNow ops w"
  shows "not_before ops t (eraseTrailingAsciiCell ops ec w)"
proof -
  have "not_before ops t (case setRenderingPosition ops p w of (status, w) \<Rightarrow> (status, f status, w))"
    if "t \<le> steadyNow ops w" for p w f
    using clock_calls(2) [OF assms(1) that, of p] by (cases "setRenderingPosition ops p w") simp
  then show ?thesis unfolding eraseTrailingAsciiCell_def Let_def using assms
    by (auto intro!: not_before_on_value not_before_on_ok clock_calls split: option.split)
qed

fun turn_clock :: "'w TerminalOps \<Rightarrow> int \<Rightarrow> 'w turn \<Rightarrow> bool" where
  "turn_clock ops t (Return r w) = True"
| "turn_clock ops t (Continue e ec w) = (t \<le> steadyNow ops w)"

lemma after_echo_clock: "not_before ops t r \<Longrightarrow> turn_clock ops t (after_echo e r)"
  by (cases r) (simp add: after_echo_def)

lemma echoKey_clock:
  assumes "clock_advances ops" "t \<le> steadyNow ops w" "echoKey ops e need rq ec w = (status, ec', w', rq')"
  shows "t \<le> steadyNow ops w'"
proof (cases need)
  case Echo_EraseCell
  then show ?thesis using assms(2,3) eraseTrailingAsciiCell_clock [OF assms(1,2), of ec]
    by (cases "eraseTrailingAsciiCell ops ec w") (auto simp: echoKey_def split: if_splits)
next
  case (Echo_AppendFrom n)
  then show ?thesis using assms(2,3) echo_append_clock [OF assms(1,2), of "drop n (edLine e)" ec]
    by (cases "echo_append ops (drop n (edLine e)) ec w") (auto simp: echoKey_def split: if_splits)
qed (use assms in \<open>auto simp: echoKey_def\<close>)

lemma keyOccurrences_clock:
  assumes "clock_advances ops"
  shows "t \<le> steadyNow ops w \<Longrightarrow> turn_clock ops t (keyOccurrences ops maxBytes n shift k e rq ec w)"
proof (induction n arbitrary: e rq ec w)
  case (Suc n)
  then show ?case using echoKey_clock [OF assms Suc.prems] by (auto split: prod.split)
qed (use redraw_clock [OF assms] in \<open>simp add: after_echo_clock\<close>)

lemma handleEvent_clock:
  assumes "clock_advances ops" "t \<le> steadyNow ops w"
  shows "turn_clock ops t (handleEvent ops opts ev e ec w)"
  using assms
  by (simp add: handleEvent_def handleKey_def handlePaste_def handleCharacter_def Let_def keyOccurrences_clock after_echo_clock
      redraw_clock echo_append_clock del: keyOccurrences.simps split: Event.split KeyValue.split prod.split)

lemma lineTurn_clock:
  assumes ops: "clock_advances ops" and go: "lineTurn ops opts start e ec w = Continue e' ec' w'"
  shows "\<not> timeoutExpired (steadyNow ops w) start (timeout opts)" "steadyNow ops w < steadyNow ops w'"
proof -
  let ?t = "remainingReadTimeout (steadyNow ops w) start (timeout opts)"
  show "\<not> timeoutExpired (steadyNow ops w) start (timeout opts)" using go by (auto simp: lineTurn_def)
  obtain ev where ev: "handleEvent ops opts ev e ec (snd (readManagedEvent ops ?t w)) = Continue e' ec' w'"
    using go by (auto simp: lineTurn_def split: if_splits prod.splits option.splits)
  have less: "steadyNow ops w + 1 \<le> steadyNow ops (snd (readManagedEvent ops ?t w))"
    using ops unfolding clock_advances_def by (metis zless_imp_add1_zle)
  from handleEvent_clock [OF ops this, of opts ev e ec] show "steadyNow ops w < steadyNow ops w'" by (simp add: ev)
qed

lemma lineLoop_returns:
  assumes ops: "clock_advances ops" and t: "timeout opts = Some ms" "0 < ms"
  shows "\<exists>y. lineLoop ops opts start e ec w = Some y"
proof (induction "nat (ms * 1000000 - (steadyNow ops w - start))" arbitrary: e ec w rule: less_induct)
  case less
  show ?case
  proof (cases "lineTurn ops opts start e ec w")
    case (Continue e' ec' w')
    note adv = lineTurn_clock [OF ops Continue]
    then have "steadyNow ops w - start < ms * 1000000" using t by (simp add: timeoutExpired_def)
    with adv(2) have "nat (ms * 1000000 - (steadyNow ops w' - start)) < nat (ms * 1000000 - (steadyNow ops w - start))" by linarith
    from less [OF this, of e' ec'] show ?thesis by (subst lineLoop.simps) (simp add: Continue)
  qed (subst lineLoop.simps, simp)
qed

section \<open>A line typed without echo\<close>

definition pressed_key :: "KeyValue \<Rightarrow> KeyModifier \<Rightarrow> Event" where
  "pressed_key v m = KeyEvent \<lparr>key = v, modifiers = m, keyAction = Press, repeatCount = 1\<rparr>"

fun event_of :: "line_edit \<Rightarrow> Event" where
  "event_of (Typed c) = pressed_key (CharacterKey c) 0"
| "event_of (Pasted cs) = Paste (utf8_text cs)"
| "event_of (Pressed shift k) = pressed_key (Named k) (if shift then Shift else 0)"

text \<open>Events the reader passes over: releases, function, modifier and media keys, and keys held with a shortcut modifier.\<close>

fun ignored_event :: "Event \<Rightarrow> bool" where
  "ignored_event (KeyEvent k) \<longleftrightarrow> keyAction k = Release \<or> key k \<noteq> Named Enter \<and> hasShortcutModifier (modifiers k) \<or>
     (case key k of CharacterKey c \<Rightarrow> False | Named n \<Rightarrow> False | _ \<Rightarrow> True)"
| "ignored_event (Paste bytes) = False"
| "ignored_event (Resize sz) = False"

definition delivers :: "'w TerminalOps \<Rightarrow> 'w \<Rightarrow> Event \<Rightarrow> 'w \<Rightarrow> bool" where
  "delivers ops w ev w' \<longleftrightarrow> readManagedEvent ops None w = (\<lparr>eventStatus = successStatus, eventOutcome = Completed, event = Some ev\<rparr>, w')"

inductive scripted :: "'w TerminalOps \<Rightarrow> 'w \<Rightarrow> line_edit list \<Rightarrow> 'w \<Rightarrow> bool" for ops where
  scripted_end: "scripted ops w [] w"
| scripted_edit: "delivers ops w (event_of d) w1 \<Longrightarrow> d \<notin> {Pressed False Enter, Pressed True Enter} \<Longrightarrow> scripted ops w1 ds w2 \<Longrightarrow> scripted ops w (d # ds) w2"
| scripted_ignored: "delivers ops w ev w1 \<Longrightarrow> ignored_event ev \<Longrightarrow> scripted ops w1 ds w2 \<Longrightarrow> scripted ops w ds w2"

lemma no_shortcut [simp]: "\<not> hasShortcutModifier 0" "\<not> hasShortcutModifier Shift" "hasModifier Shift Shift" "\<not> hasModifier 0 Shift"
  by (simp_all add: hasShortcutModifier_def hasModifier_def Shift_def)

lemma silent_echo [simp]:
  assumes "\<not> enabled ec"
  shows "echo_append ops b ec w = (successStatus, ec, w)" "redraw ops l c ec w = (successStatus, ec, w)"
    "eraseTrailingAsciiCell ops ec w = (successStatus, ec, w)" "echo_finish ops l c ec w = (successStatus, ec, w)"
    "echo_begin ops ec w = (successStatus, ec, w)"
  using assms by (simp_all add: echo_append_def redraw_def eraseTrailingAsciiCell_def echo_finish_def echo_begin_def)

lemma silent_echoKey: "\<not> enabled ec \<Longrightarrow> \<exists>rq'. echoKey ops e need rq ec w = (successStatus, ec, w, rq')"
  by (cases need) (auto simp: echoKey_def)

lemma lineTurn_delivered:
  assumes "delivers ops w ev w'" "timeout opts = None"
  shows "lineTurn ops opts start e ec w = handleEvent ops opts ev e ec w'"
  using assms by (simp add: lineTurn_def delivers_def timeoutExpired_def remainingReadTimeout_def)

lemma handleEvent_ignored: "ignored_event ev \<Longrightarrow> handleEvent ops opts ev e ec w = Continue e ec w"
  by (cases ev) (auto simp: handleEvent_def handleKey_def Let_def split: KeyValue.splits)

lemma handleEvent_edit:
  assumes e: "editor_ok (lineMaxBytes opts) e" and d: "edit_scalars d" "d \<notin> {Pressed False Enter, Pressed True Enter}"
    and ec: "\<not> enabled ec"
  shows "\<exists>e'. handleEvent ops opts (event_of d) e ec w = Continue e' ec w \<and> editor_ok (lineMaxBytes opts) e' \<and>
    line_state_of e' = ref_edit (lineMaxBytes opts) d (line_state_of e)"
proof -
  obtain e' where e': "apply_edit (lineMaxBytes opts) d e = (successStatus, e')" "editor_ok (lineMaxBytes opts) e'"
    "line_state_of e' = ref_edit (lineMaxBytes opts) d (line_state_of e)"
    using apply_edit_refines [OF e d(1)] by (cases "apply_edit (lineMaxBytes opts) d e") (auto simp: edit_refines_def)
  have "handleEvent ops opts (event_of d) e ec w = Continue e' ec w"
  proof (cases d)
    case (Pressed shift k)
    then have "k \<noteq> Enter" using d(2) by (cases shift) auto
    obtain need where key: "editKey (lineMaxBytes opts) shift k e = (successStatus, e', need)"
      using e'(1) Pressed by (cases "editKey (lineMaxBytes opts) shift k e") auto
    obtain rq where "echoKey ops e' need False ec w = (successStatus, ec, w, rq)" using silent_echoKey [OF ec, of ops e' need False w] by blast
    with key have "keyOccurrences ops (lineMaxBytes opts) 1 shift k e False ec w = Continue e' ec w"
      using ec by (simp add: after_echo_def)
    with \<open>k \<noteq> Enter\<close> show ?thesis using Pressed by (cases shift) (simp_all add: handleEvent_def handleKey_def pressed_key_def Let_def del: keyOccurrences.simps)
  qed (use e'(1) ec in \<open>simp_all add: handleEvent_def handleKey_def handleCharacter_def handlePaste_def pressed_key_def after_echo_def Let_def\<close>)
  with e' show ?thesis by blast
qed

lemma lineLoop_scripted:
  assumes "scripted ops w ds w1" "timeout opts = None" "list_all edit_scalars ds" "editor_ok (lineMaxBytes opts) e" "\<not> enabled ec"
  shows "\<exists>e'. lineLoop ops opts start e ec w = lineLoop ops opts start e' ec w1 \<and> editor_ok (lineMaxBytes opts) e' \<and>
    line_state_of e' = fold (ref_edit (lineMaxBytes opts)) ds (line_state_of e)"
  using assms
proof (induction arbitrary: e rule: scripted.induct)
  case (scripted_edit w d w1 ds w2)
  obtain e1 where e1: "handleEvent ops opts (event_of d) e ec w1 = Continue e1 ec w1" "editor_ok (lineMaxBytes opts) e1"
    "line_state_of e1 = ref_edit (lineMaxBytes opts) d (line_state_of e)"
    using handleEvent_edit [OF scripted_edit.prems(3) _ scripted_edit.hyps(2) scripted_edit.prems(4), of ops w1] scripted_edit.prems(2) by auto
  have "lineLoop ops opts start e ec w = lineLoop ops opts start e1 ec w1"
    by (subst lineLoop.simps) (simp add: lineTurn_delivered [OF scripted_edit.hyps(1) scripted_edit.prems(1)] e1(1))
  with scripted_edit.IH [of e1] scripted_edit.prems e1 show ?case by auto
next
  case (scripted_ignored w ev w1 ds w2)
  have "lineLoop ops opts start e ec w = lineLoop ops opts start e ec w1"
    by (subst lineLoop.simps)
      (simp add: lineTurn_delivered [OF scripted_ignored.hyps(1) scripted_ignored.prems(1)] handleEvent_ignored [OF scripted_ignored.hyps(2)])
  with scripted_ignored.IH [of e] scripted_ignored.prems show ?case by auto
qed auto

text \<open>
  C11: whatever the terminal and its events do, a managed line read that returns gives well-formed UTF-8 text of at most
  \<open>maxReturnedBytes\<close> bytes, line ending included, and reports a consumed line ending only with a successful, completed read.
\<close>

theorem managed_line_well_formed:
  assumes "managedTerminalLineRead ops opts graphemeStorage w = Some (r, w')"
  shows "valid_utf8 (lineText r) \<and> length (lineText r) \<le> unat (maxReturnedBytes opts) \<and>
    (consumedLineEnding r \<noteq> CLE_None \<longrightarrow> lineStatus r = successStatus \<and> lineOutcome r = Completed)"
proof -
  have "line_result_ok opts r"
    using assms lineLoop_ok by (fastforce simp: managedTerminalLineRead_def split: prod.splits if_splits)
  then show ?thesis by (simp add: line_result_ok_def)
qed

text \<open>A terminal of a script: its state is the clock and the events still to come; once they are used up, a read would block.\<close>

definition script_terminal :: "(int \<times> Event list) TerminalOps" where
  "script_terminal =
    \<lparr>prepareOutput = (\<lambda>w. (successStatus, \<lparr>supportsCursorMovement = True, supportsCursorPositionQuery = True, supportsTerminalSize = True\<rparr>, w)),
     getTerminalSize = (\<lambda>w. (successStatus, \<lparr>columns = 80, rows = 25\<rparr>, w)),
     queryRenderingPosition = (\<lambda>w. (successStatus, \<lparr>column = 0, row = 0\<rparr>, w)),
     setRenderingPosition = (\<lambda>p w. (successStatus, w)),
     writeText = (\<lambda>t w. (successStatus, w)),
     readManagedEvent = (\<lambda>t w. case w of
         (now, []) \<Rightarrow> (\<lparr>eventStatus = successStatus, eventOutcome = WouldBlock, event = None\<rparr>, now + 1, [])
       | (now, ev # evs) \<Rightarrow> (\<lparr>eventStatus = successStatus, eventOutcome = Completed, event = Some ev\<rparr>, now + 1, evs)),
     steadyNow = fst\<rparr>"

lemma script_delivers: "delivers script_terminal (now, ev # evs) ev (now + 1, evs)"
  by (simp add: delivers_def script_terminal_def)

lemma script_clock: "clock_advances script_terminal"
  by (auto simp: clock_advances_def script_terminal_def split: list.split)

definition keep_options :: "int option \<Rightarrow> LineOptions" where
  "keep_options t = \<lparr>timeout = t, maxReturnedBytes = 16, echo = False, lineEndingMode = Keep\<rparr>"

text \<open>
  C10: with a positive deadline and a clock that advances across event reads and never goes back, a managed line read always
  returns - whatever events, failures and cursor positions the terminal reports.
\<close>

theorem managed_line_terminates:
  assumes "clock_advances ops" and "timeout opts = Some ms" and "0 < ms"
  shows "\<exists>r w'. managedTerminalLineRead ops opts graphemeStorage w = Some (r, w')"
  using lineLoop_returns [OF assms] by (simp add: managedTerminalLineRead_def split: prod.split)

theorem managed_line_terminates_witness:
  "\<exists>r w'. managedTerminalLineRead script_terminal (keep_options (Some 5)) [] (0, [Resize \<lparr>columns = 10, rows = 10\<rparr>]) = Some (r, w')"
  by (rule managed_line_terminates [OF script_clock, of _ 5]) (simp_all add: keep_options_def)

text \<open>
  C9: without echo and deadline, when the terminal delivers typed scalars, pastes and named keys, with any ignored events in
  between, and then Enter, the read returns exactly the line of the reference editor with the line ending of the selected mode,
  which is dropped and reported as truncation when it does not fit the limit.
\<close>

theorem managed_line_edits:
  assumes script: "scripted ops w ds w1" "delivers ops w1 (pressed_key (Named Enter) m) w2"
    and ds: "list_all edit_scalars ds" and opts: "timeout opts = None" "\<not> echo opts"
    and ref: "fold (ref_edit (lineMaxBytes opts)) ds ([], 0, False) = (line, caret, truncated)"
    and fits: "fits \<longleftrightarrow> length line + length (endingText (lineEndingMode opts)) \<le> lineMaxBytes opts"
  shows "managedTerminalLineRead ops opts graphemeStorage w =
    Some (\<lparr>lineStatus = successStatus, lineOutcome = Completed,
           lineText = (if fits then line @ endingText (lineEndingMode opts) else line),
           consumedLineEnding = CLE_CrLf, wasTruncated = truncated \<or> \<not> fits\<rparr>, w2)"
proof -
  let ?ec = "lineEcho (echo opts)" and ?start = "steadyNow ops w"
  have ec: "\<not> enabled ?ec" using opts by (simp add: lineEcho_def)
  obtain e where e: "lineLoop ops opts ?start (emptyLine graphemeStorage) ?ec w = lineLoop ops opts ?start e ?ec w1"
    "editor_ok (lineMaxBytes opts) e" "line_state_of e = (line, caret, truncated)"
    using lineLoop_scripted [OF script(1) opts(1) ds emptyLine_ok ec, of ?start graphemeStorage] ref
    by (auto simp: line_state_of_def emptyLine_def)
  have state: "edLine e = line" "edTruncated e = truncated" "length line \<le> lineMaxBytes opts"
    using e(2,3) editor_ok_line [OF e(2)] by (auto simp: line_state_of_def)
  have "lineTurn ops opts ?start e ?ec w1 = Return (completeManagedLine opts e) w2"
    using ec by (simp add: lineTurn_delivered [OF script(2) opts(1)] handleEvent_def handleKey_def pressed_key_def Let_def)
  then have "lineLoop ops opts ?start e ?ec w1 = Some (completeManagedLine opts e, w2)" by (subst lineLoop.simps) simp
  then show ?thesis using e(1) ec state fits
    by (auto simp: managedTerminalLineRead_def completeManagedLine_def Let_def)
qed

theorem managed_line_edits_witness:
  "managedTerminalLineRead script_terminal (keep_options None) []
     (0, [event_of (Typed 0x61), pressed_key (CharacterKey 0x63) 2, event_of (Pasted [0x62]), event_of (Pressed False ArrowLeft),
          event_of (Pressed False Backspace), pressed_key (Named Enter) 0]) =
   Some (\<lparr>lineStatus = successStatus, lineOutcome = Completed, lineText = [0x62, 0x0D, 0x0A], consumedLineEnding = CLE_CrLf,
          wasTruncated = False\<rparr>, 6, [])"
proof -
  let ?ds = "[Typed 0x61, Pasted [0x62], Pressed False ArrowLeft, Pressed False Backspace]"
  have ignored: "ignored_event (pressed_key (CharacterKey 0x63) 2)" by code_simp
  let ?enter = "pressed_key (Named Enter) 0"
  have "scripted script_terminal (5, [?enter]) [] (5, [?enter])" by (rule scripted_end)
  note s = scripted_edit [OF _ _ this, of "(4, event_of (Pressed False Backspace) # [?enter])" "Pressed False Backspace"]
  note s = scripted_edit [OF _ _ s, of "(3, event_of (Pressed False ArrowLeft) # event_of (Pressed False Backspace) # [?enter])" "Pressed False ArrowLeft"]
  note s = scripted_edit [OF _ _ s, of "(2, event_of (Pasted [0x62]) # event_of (Pressed False ArrowLeft) # event_of (Pressed False Backspace) # [?enter])" "Pasted [0x62]"]
  note s = scripted_ignored [OF _ ignored s, of "(1, pressed_key (CharacterKey 0x63) 2 # event_of (Pasted [0x62]) # event_of (Pressed False ArrowLeft) # event_of (Pressed False Backspace) # [?enter])"]
  note s = scripted_edit [OF _ _ s, of "(0, event_of (Typed 0x61) # pressed_key (CharacterKey 0x63) 2 # event_of (Pasted [0x62]) # event_of (Pressed False ArrowLeft) # event_of (Pressed False Backspace) # [?enter])" "Typed 0x61"]
  have script: "scripted script_terminal (0, [event_of (Typed 0x61), pressed_key (CharacterKey 0x63) 2, event_of (Pasted [0x62]),
      event_of (Pressed False ArrowLeft), event_of (Pressed False Backspace), ?enter]) ?ds (5, [?enter])"
    by (rule s) (simp_all add: delivers_def script_terminal_def)
  have enter: "delivers script_terminal (5, [?enter]) ?enter (6, [])" by (simp add: delivers_def script_terminal_def)
  have max: "lineMaxBytes (keep_options None) = 16" by (simp add: lineMaxBytes_def keep_options_def size_max_def)
  have ds: "list_all edit_scalars ?ds" by code_simp
  have ref: "fold (ref_edit (lineMaxBytes (keep_options None))) ?ds ([], 0, False) = ([0x62], 0, False)" unfolding max by code_simp
  have opts: "timeout (keep_options None) = None" "\<not> echo (keep_options None)" by (simp_all add: keep_options_def)
  from managed_line_edits [OF script enter ds opts ref refl, of "[]"] show ?thesis
    by (simp add: max) (simp add: keep_options_def endingText_def)
qed

theorem managed_line_well_formed_witness:
  "managedTerminalLineRead script_terminal (keep_options None) [] (0, []) =
     Some (lineResultOf successStatus WouldBlock (emptyLine []), 1, []) \<and>
   valid_utf8 (lineText (lineResultOf successStatus WouldBlock (emptyLine [])))"
proof -
  have "managedTerminalLineRead script_terminal (keep_options None) [] (0, []) = Some (lineResultOf successStatus WouldBlock (emptyLine []), 1, [])"
    by (simp add: managedTerminalLineRead_def lineEcho_def keep_options_def)
      (subst lineLoop.simps, simp add: lineTurn_def timeoutExpired_def remainingReadTimeout_def script_terminal_def)
  from managed_line_well_formed [OF this] this show ?thesis by blast
qed

end
