(* ===== verification/Action_Values.thy ===== *)
theory Action_Values
  imports Input_State
begin

text \<open>
  The arithmetic of \<^verbatim>\<open>engine/action/internal/action_helpers.inl\<close>: deadzones, response curves, clamping and the choice between value
  candidates, on the single-precision numbers of \<open>Input_Types\<close>. Every operation is exact arithmetic followed by one rounding
  to nearest, ties to even, as without extended intermediate precision; \<open>std::pow\<close> is the argument \<open>powf\<close>.
\<close>

section \<open>Multiplication, division and square root\<close>

text \<open>The nearest multiple of the right power of two to the quotient of two naturals, to 24 significant bits.\<close>

definition round_ratio :: "nat \<Rightarrow> nat \<Rightarrow> nat" where
  "round_ratio m d =
    (let k = 2 ^ (floorlog 2 (m div d) - 24); u = k * d; q = m div u; r = m mod u in
     (if 2 * r > u \<or> 2 * r = u \<and> odd q then q + 1 else q) * k)"

definition signed_float :: "bool \<Rightarrow> nat \<Rightarrow> float32" where
  "signed_float negative v =
    (if int v \<ge> float_limit then Inf negative
     else if v = 0 then (if negative then NegZero else Fin 0)
     else Fin (if negative then - int v else int v))"

fun float_negative :: "float32 \<Rightarrow> bool" where
  "float_negative (Inf negative) = negative"
| "float_negative NegZero = True"
| "float_negative (Fin n) = (n < 0)"
| "float_negative NaN = False"

definition float_magnitude :: "float32 \<Rightarrow> nat" where
  "float_magnitude x = nat \<bar>float_rank x\<bar>"

fun float_infinite :: "float32 \<Rightarrow> bool" where
  "float_infinite (Inf negative) = True"
| "float_infinite _ = False"

definition float_mul :: "float32 \<Rightarrow> float32 \<Rightarrow> float32" where
  "float_mul a b =
    (let negative = (float_negative a \<noteq> float_negative b) in
     if a = NaN \<or> b = NaN then NaN
     else if float_infinite a \<or> float_infinite b
     then (if float_magnitude a = 0 \<or> float_magnitude b = 0 then NaN else Inf negative)
     else signed_float negative (round_ratio (float_magnitude a * float_magnitude b) (2 ^ 149)))"

definition float_div :: "float32 \<Rightarrow> float32 \<Rightarrow> float32" where
  "float_div a b =
    (let negative = (float_negative a \<noteq> float_negative b) in
     if a = NaN \<or> b = NaN \<or> float_infinite a \<and> float_infinite b \<or> float_magnitude a = 0 \<and> float_magnitude b = 0 then NaN
     else if float_infinite a \<or> float_magnitude b = 0 then Inf negative
     else if float_infinite b then signed_float negative 0
     else signed_float negative (round_ratio (float_magnitude a * 2 ^ 149) (float_magnitude b)))"

function floor_root :: "nat \<Rightarrow> nat" where
  "floor_root n = (if n = 0 then 0 else let r = 2 * floor_root (n div 4) in if (r + 1) * (r + 1) \<le> n then r + 1 else r)"
  by pat_completeness auto
termination by (relation "measure id") auto

declare floor_root.simps [simp del]

definition round_root :: "nat \<Rightarrow> nat" where
  "round_root n =
    (let s = floor_root n; u = 2 ^ (floorlog 2 s - 24); q = s div u; mid = q * u + u div 2 in
     (if mid * mid < n \<or> mid * mid = n \<and> odd q then q + 1 else q) * u)"

fun float_sqrt :: "float32 \<Rightarrow> float32" where
  "float_sqrt NaN = NaN"
| "float_sqrt (Inf negative) = (if negative then NaN else Inf False)"
| "float_sqrt NegZero = NegZero"
| "float_sqrt (Fin n) = (if n < 0 then NaN else signed_float False (round_root (nat n * 2 ^ 149)))"

definition float_of_int :: "int \<Rightarrow> float32" where
  "float_of_int n = signed_float (n < 0) (round_magnitude (nat \<bar>n\<bar> * 2 ^ 149))"

definition isFinite :: "float32 \<Rightarrow> bool" where
  "isFinite x \<longleftrightarrow> x \<noteq> NaN \<and> \<not> float_infinite x"

abbreviation float_gt :: "float32 \<Rightarrow> float32 \<Rightarrow> bool" where
  "float_gt a b \<equiv> float_less b a"

abbreviation float_ge :: "float32 \<Rightarrow> float32 \<Rightarrow> bool" where
  "float_ge a b \<equiv> float_le b a"

section \<open>Value helpers\<close>

definition absoluteValue :: "float32 \<Rightarrow> float32" where
  "absoluteValue v = (if float_less v (Fin 0) then float_neg v else v)"

definition clamp :: "float32 \<Rightarrow> float32 \<Rightarrow> float32 \<Rightarrow> float32" where
  "clamp v minimum maximum = (if float_less v minimum then minimum else if float_gt v maximum then maximum else v)"

definition shouldChooseValueCandidate :: "float32 \<Rightarrow> 64 word \<Rightarrow> float32 \<Rightarrow> 64 word \<Rightarrow> bool" where
  "shouldChooseValueCandidate currentMagnitude currentSequence candidateMagnitude candidateSequence =
    (if float_gt candidateMagnitude currentMagnitude then True
     else if float_less candidateMagnitude currentMagnitude then False
     else candidateSequence > currentSequence)"

definition sign :: "float32 \<Rightarrow> float32" where
  "sign v = (if float_less v (Fin 0) then float_neg float_one else float_one)"

definition getVectorLength :: "float32 \<Rightarrow> float32 \<Rightarrow> float32" where
  "getVectorLength x y = float_sqrt (float_add (float_mul x x) (float_mul y y))"

definition passesThreshold :: "float32 \<Rightarrow> float32 \<Rightarrow> bool" where
  "passesThreshold v threshold \<longleftrightarrow> float_gt (absoluteValue v) threshold"

definition applyDeadzone1D :: "float32 \<Rightarrow> float32 \<Rightarrow> float32 \<Rightarrow> float32" where
  "applyDeadzone1D v innerDeadzone outerDeadzone =
    (let magnitude = absoluteValue v; inner = clamp innerDeadzone (Fin 0) float_one; outer = clamp outerDeadzone inner float_one in
     if float_le magnitude inner then Fin 0
     else if float_ge magnitude outer then sign v
     else float_mul (sign v) (float_div (float_sub magnitude inner) (float_sub outer inner)))"

definition applyAxialDeadzone2D :: "float32 \<times> float32 \<Rightarrow> float32 \<Rightarrow> float32 \<Rightarrow> float32 \<times> float32" where
  "applyAxialDeadzone2D xy innerDeadzone outerDeadzone =
    (case xy of (x, y) \<Rightarrow> (applyDeadzone1D x innerDeadzone outerDeadzone, applyDeadzone1D y innerDeadzone outerDeadzone))"

definition applyRadialDeadzone2D :: "float32 \<times> float32 \<Rightarrow> float32 \<Rightarrow> float32 \<Rightarrow> float32 \<times> float32" where
  "applyRadialDeadzone2D xy innerDeadzone outerDeadzone =
    (case xy of (x, y) \<Rightarrow>
       let len = getVectorLength x y; inner = clamp innerDeadzone (Fin 0) float_one; outer = clamp outerDeadzone inner float_one in
       if float_le len inner \<or> float_eq len (Fin 0) then (Fin 0, Fin 0)
       else if float_ge len outer then (float_div x len, float_div y len)
       else let remappedLength = float_div (float_sub len inner) (float_sub outer inner); scale = float_div remappedLength len in
         (float_mul x scale, float_mul y scale))"

type_synonym pow_function = "float32 \<Rightarrow> float32 \<Rightarrow> float32"

definition applyCurve1D :: "pow_function \<Rightarrow> float32 \<Rightarrow> float32 \<Rightarrow> float32" where
  "applyCurve1D powf v curveExponent =
    (let exponent = (if float_gt curveExponent (Fin 0) then curveExponent else float_one) in
     float_mul (sign v) (powf (absoluteValue v) exponent))"

definition applyCurve2D :: "pow_function \<Rightarrow> float32 \<times> float32 \<Rightarrow> float32 \<Rightarrow> float32 \<times> float32" where
  "applyCurve2D powf xy curveExponent =
    (case xy of (x, y) \<Rightarrow>
       let len = getVectorLength x y in
       if float_eq len (Fin 0) then (x, y)
       else let exponent = (if float_gt curveExponent (Fin 0) then curveExponent else float_one);
                scale = float_div (powf len exponent) len in
         (float_mul x scale, float_mul y scale))"

definition clampVectorLength :: "float32 \<times> float32 \<Rightarrow> float32 \<Rightarrow> float32 \<times> float32" where
  "clampVectorLength xy maximumLength =
    (case xy of (x, y) \<Rightarrow>
       let len = getVectorLength x y in
       if float_le len maximumLength \<or> float_eq len (Fin 0) then (x, y)
       else let scale = float_div maximumLength len in (float_mul x scale, float_mul y scale))"

definition isMouseAxis :: "InputControl \<Rightarrow> MouseAxis \<Rightarrow> bool" where
  "isMouseAxis control a \<longleftrightarrow> deviceType control = Mouse \<and> deviceIndex control = 0 \<and> controlType control = Axis \<and>
     controlCode control = mouse_axis_value a"

definition getMouseAxisValue :: "InputState \<Rightarrow> InputControl \<Rightarrow> float32" where
  "getMouseAxisValue s control =
    (if isMouseAxis control DeltaX then float_of_int (mouseDeltaX s)
     else if isMouseAxis control DeltaY then float_of_int (mouseDeltaY s)
     else Fin 0)"

definition bindingControlValue :: "InputState \<Rightarrow> InputControl \<Rightarrow> float32" where
  "bindingControlValue s control =
    (case controlType control of
       Button \<Rightarrow> if isButtonDown s control then float_one else Fin 0
     | Axis \<Rightarrow> if deviceType control = Mouse then getMouseAxisValue s control else getAxis s control
     | Wheel \<Rightarrow> getWheelDelta s control)"

section \<open>Rounding is monotone\<close>

definition nearest :: "nat \<Rightarrow> nat \<Rightarrow> nat" where
  "nearest m u = (if 2 * (m mod u) > u \<or> 2 * (m mod u) = u \<and> odd (m div u) then m div u + 1 else m div u)"

definition unit_of :: "nat \<Rightarrow> nat" where
  "unit_of n = 2 ^ (floorlog 2 n - 24)"

lemma round_ratio_nearest: "round_ratio m d = nearest m (unit_of (m div d) * d) * unit_of (m div d)"
  by (simp add: round_ratio_def nearest_def unit_of_def Let_def)

lemma round_magnitude_ratio: "round_magnitude m = round_ratio m 1"
  by (simp add: round_magnitude_def round_ratio_def Let_def)

lemma nearest_bounds: "m div u \<le> nearest m u" "nearest m u \<le> m div u + 1"
  by (simp_all add: nearest_def)

lemma nearest_mono:
  assumes "m \<le> n" "0 < u"
  shows "nearest m u \<le> nearest n u"
proof (cases "m div u = n div u")
  case True
  then have "m mod u \<le> n mod u" using assms(1) by (metis add_le_cancel_left mult_div_mod_eq)
  with True show ?thesis by (auto simp: nearest_def)
next
  case False
  then have "m div u + 1 \<le> n div u" using div_le_mono [OF assms(1), of u] by simp
  then show ?thesis using nearest_bounds(2) [of m u] nearest_bounds(1) [of n u] by linarith
qed

lemma nearest_le:
  assumes "m \<le> c * u" "0 < u"
  shows "nearest m u \<le> c"
  using nearest_mono [OF assms] assms(2) by (simp add: nearest_def)

lemma unit_of_le:
  assumes "n \<le> 2 ^ j"
  shows "unit_of n dvd 2 ^ j"
proof (cases "floorlog 2 n \<le> 24")
  case False
  then have "0 < n" by (cases n) (simp_all add: floorlog_def)
  then have "(2 :: nat) ^ (floorlog 2 n - 1) \<le> n" using floorlog_bounds [of n 2] by simp
  then have "(2 :: nat) ^ (floorlog 2 n - 1) \<le> 2 ^ j" using assms by (rule order_trans)
  then have "floorlog 2 n - 1 \<le> j" by (rule power_le_imp_le_exp [rotated]) simp
  then show ?thesis unfolding unit_of_def by (intro le_imp_power_dvd) simp
qed (simp add: unit_of_def)

lemma unit_of_pos [simp]: "0 < unit_of n"
  by (simp add: unit_of_def)

lemma round_ratio_le:
  assumes "m \<le> 2 ^ j * d" "0 < d"
  shows "round_ratio m d \<le> 2 ^ j"
proof -
  have "m div d \<le> 2 ^ j" using div_le_mono [OF assms(1), of d] assms(2) by simp
  then obtain c where c: "2 ^ j = unit_of (m div d) * c" using unit_of_le by (auto elim!: dvdE)
  then have "nearest m (unit_of (m div d) * d) \<le> c" using assms by (intro nearest_le) (simp_all add: ac_simps)
  then show ?thesis using c by (simp add: round_ratio_nearest)
qed

lemma round_ratio_ge:
  assumes "2 ^ j * d \<le> m" "0 < d" "floorlog 2 (m div d) \<le> j + 24"
  shows "2 ^ j \<le> round_ratio m d"
proof -
  let ?u = "unit_of (m div d)"
  have "?u dvd 2 ^ j" using assms(3) unfolding unit_of_def by (intro le_imp_power_dvd) simp
  then obtain c where c: "2 ^ j = ?u * c" by (auto elim!: dvdE)
  have "c * (?u * d) \<le> m" using assms(1) c by (simp add: ac_simps)
  then have "c \<le> m div (?u * d)" using div_le_mono [of "c * (?u * d)" m "?u * d"] assms(2) by simp
  then have "c \<le> nearest m (?u * d)" using nearest_bounds(1) [of m "?u * d"] by linarith
  then show ?thesis using c by (simp add: round_ratio_nearest)
qed

lemma round_ratio_mono:
  assumes "m \<le> n" "0 < d"
  shows "round_ratio m d \<le> round_ratio n d"
proof (cases "unit_of (m div d) = unit_of (n div d)")
  case True
  then show ?thesis using nearest_mono [OF assms(1), of "unit_of (m div d) * d"] assms(2) by (simp add: round_ratio_nearest)
next
  case False
  let ?e = "floorlog 2 (m div d)" and ?f = "floorlog 2 (n div d)"
  have le: "m div d \<le> n div d" using assms(1) by (rule div_le_mono)
  then have "?e \<le> ?f" by (rule floorlog_mono)
  then have f: "?e < ?f" "24 < ?f" using False by (auto simp: unit_of_def)
  then have "0 < n div d" by (cases "n div d") (simp_all add: floorlog_def)
  then have "2 ^ (?f - 1) \<le> n div d" using floorlog_bounds [of "n div d" 2] by simp
  then have "2 ^ (?f - 1) * d \<le> n" using assms(2) by (metis div_times_less_eq_dividend mult_le_mono1 order_trans)
  then have upper: "2 ^ (?f - 1) \<le> round_ratio n d" using f assms(2) by (intro round_ratio_ge) simp_all
  have "m div d < 2 ^ ?e" using floorlog_bounds [of "m div d" 2] by (cases "m div d = 0") auto
  then have "m \<le> 2 ^ ?e * d" using assms(2) by (simp add: div_less_iff_less_mult less_imp_le)
  then have "round_ratio m d \<le> 2 ^ ?e" by (rule round_ratio_le [OF _ assms(2)])
  also have "\<dots> \<le> (2 :: nat) ^ (?f - 1)" using f by (intro power_increasing) simp_all
  finally show ?thesis using upper by simp
qed

lemma round_magnitude_mono: "m \<le> n \<Longrightarrow> round_magnitude m \<le> round_magnitude n"
  by (simp add: round_magnitude_ratio round_ratio_mono)

lemma round_magnitude_pos:
  assumes "0 < m"
  shows "0 < round_magnitude m"
proof -
  have "(2 :: nat) ^ 0 \<le> round_ratio 1 1" by (intro round_ratio_ge) (simp_all add: floorlog_def)
  then show ?thesis using round_magnitude_mono [of 1 m] assms by (simp add: round_magnitude_ratio)
qed

section \<open>Deadzones\<close>

lemma signed_float_rank:
  assumes "int v < float_limit"
  shows "float_rank (signed_float negative v) = (if negative then - int v else int v)" "signed_float negative v \<noteq> NaN"
  using assms by (auto simp: signed_float_def)

lemma float_sub_positive:
  assumes "0 \<le> float_rank y" "float_rank y < a" "a \<le> 2 ^ 149" "isFinite y"
  shows "float_sub (Fin a) y = Fin (int (round_magnitude (nat (a - float_rank y))))"
proof -
  have "round_magnitude (nat (a - float_rank y)) \<le> 2 ^ 149"
    unfolding round_magnitude_ratio using assms by (intro round_ratio_le) (simp_all add: nat_le_iff)
  then have "int (round_magnitude (nat (a - float_rank y))) < float_limit" by (simp add: float_limit_def)
  then show ?thesis using assms by (cases y) (auto simp: float_sub_def round_float_def Let_def isFinite_def)
qed

text \<open>Between the two deadzones: what the response makes of a magnitude.\<close>

definition response :: "int \<Rightarrow> int \<Rightarrow> int \<Rightarrow> nat" where
  "response i o' a = round_ratio (2 ^ 149 * round_ratio (round_magnitude (nat (a - i)) * 2 ^ 149) (round_magnitude (nat (o' - i)))) (2 ^ 149)"

lemma response_mono: "i < o' \<Longrightarrow> a \<le> b \<Longrightarrow> response i o' a \<le> response i o' b"
  unfolding response_def
  by (intro round_ratio_mono mult_le_mono order_refl round_magnitude_mono round_magnitude_pos) simp_all

lemma response_le:
  assumes "i < o'" "a \<le> o'"
  shows "response i o' a \<le> 2 ^ 149"
proof -
  have "round_magnitude (nat (a - i)) \<le> round_magnitude (nat (o' - i))" using assms by (intro round_magnitude_mono) simp
  then have "round_ratio (round_magnitude (nat (a - i)) * 2 ^ 149) (round_magnitude (nat (o' - i))) \<le> 2 ^ 149"
    using assms by (intro round_ratio_le round_magnitude_pos) simp_all
  then show ?thesis unfolding response_def by (intro round_ratio_le) simp_all
qed

definition valid_zones :: "float32 \<Rightarrow> float32 \<Rightarrow> bool" where
  "valid_zones inner outer \<longleftrightarrow> isFinite inner \<and> isFinite outer \<and> float_ge inner (Fin 0) \<and> float_ge outer inner \<and> float_le outer float_one"

lemma zone_clamps:
  assumes "valid_zones inner outer"
  shows "clamp inner (Fin 0) float_one = inner" "clamp outer inner float_one = outer"
    "0 \<le> float_rank inner" "float_rank inner \<le> float_rank outer" "float_rank outer \<le> 2 ^ 149"
  using assms by (auto simp: valid_zones_def clamp_def float_less_def float_le_def float_one_def)

lemma absoluteValue_rank: "v \<noteq> NaN \<Longrightarrow> float_rank (absoluteValue v) = \<bar>float_rank v\<bar>" "v \<noteq> NaN \<Longrightarrow> absoluteValue v \<noteq> NaN"
  by (cases v; auto simp: absoluteValue_def float_less_def float_limit_def)+

lemma sign_rank: "float_rank (sign v) = (if v \<noteq> NaN \<and> float_rank v < 0 then - (2 ^ 149) else 2 ^ 149)" "sign v \<noteq> NaN"
  by (auto simp: sign_def float_less_def float_one_def)

lemma applyDeadzone1D_rank:
  assumes z: "valid_zones inner outer" and v: "v \<noteq> NaN"
  shows "float_rank (applyDeadzone1D v inner outer) =
      (if \<bar>float_rank v\<bar> \<le> float_rank inner then 0
       else (if float_rank v < 0 then -1 else 1) *
         (if \<bar>float_rank v\<bar> \<ge> float_rank outer then 2 ^ 149 else int (response (float_rank inner) (float_rank outer) \<bar>float_rank v\<bar>)))"
    "applyDeadzone1D v inner outer \<noteq> NaN"
proof -
  let ?i = "float_rank inner" and ?o = "float_rank outer" and ?a = "\<bar>float_rank v\<bar>"
  note c = zone_clamps [OF z] and av = absoluteValue_rank [OF v]
  have nn: "inner \<noteq> NaN" "outer \<noteq> NaN" "isFinite inner" "isFinite outer" using z by (auto simp: valid_zones_def isFinite_def)
  have "float_rank (applyDeadzone1D v inner outer) =
      (if ?a \<le> ?i then 0 else (if float_rank v < 0 then -1 else 1) * (if ?a \<ge> ?o then 2 ^ 149 else int (response ?i ?o ?a))) \<and>
    applyDeadzone1D v inner outer \<noteq> NaN"
  proof (cases "?a \<le> ?i \<or> ?a \<ge> ?o")
    case True
    then show ?thesis using nn av sign_rank [of v] v by (auto simp: applyDeadzone1D_def Let_def c float_le_def)
  next
    case False
    then have a: "absoluteValue v = Fin ?a" using av c by (cases "absoluteValue v") (auto simp: float_limit_def split: if_splits)
    obtain o' where o': "outer = Fin o'" using False c nn by (cases outer) (auto simp: isFinite_def)
    let ?n = "round_magnitude (nat (?a - ?i))" and ?d = "round_magnitude (nat (?o - ?i))"
    have sub: "float_sub (absoluteValue v) inner = Fin (int ?n)" "float_sub outer inner = Fin (int ?d)"
      using float_sub_positive [of inner ?a] float_sub_positive [of inner o'] False c nn a o' by auto
    have pos: "0 < ?n" "0 < ?d" "?n \<le> ?d" using False c by (auto intro!: round_magnitude_pos round_magnitude_mono)
    have q: "round_ratio (?n * 2 ^ 149) ?d \<le> 2 ^ 149" using pos by (intro round_ratio_le) simp_all
    have r: "response ?i ?o ?a \<le> 2 ^ 149" using False c by (intro response_le) simp_all
    have quot: "float_div (Fin (int ?n)) (Fin (int ?d)) = signed_float False (round_ratio (?n * 2 ^ 149) ?d)"
      using pos by (simp add: float_div_def float_magnitude_def)
    have x: "float_magnitude (signed_float False (round_ratio (?n * 2 ^ 149) ?d)) = round_ratio (?n * 2 ^ 149) ?d"
      "\<not> float_negative (signed_float False (round_ratio (?n * 2 ^ 149) ?d))" "\<not> float_infinite (signed_float False (round_ratio (?n * 2 ^ 149) ?d))"
      "signed_float False (round_ratio (?n * 2 ^ 149) ?d) \<noteq> NaN"
      using q by (auto simp: signed_float_def float_limit_def float_magnitude_def)
    have sg: "float_magnitude (sign v) = 2 ^ 149" "float_negative (sign v) \<longleftrightarrow> float_rank v < 0" "\<not> float_infinite (sign v)" "sign v \<noteq> NaN"
      using v by (auto simp: sign_def float_less_def float_one_def float_magnitude_def nat_power_eq)
    have "applyDeadzone1D v inner outer = signed_float (float_rank v < 0) (response ?i ?o ?a)"
      using False nn av x sg unfolding response_def
      by (auto simp: applyDeadzone1D_def Let_def c float_le_def sub quot float_mul_def)
    then show ?thesis using False r signed_float_rank [of "response ?i ?o ?a" "float_rank v < 0"] by (simp add: float_limit_def)
  qed
  then show "float_rank (applyDeadzone1D v inner outer) =
      (if ?a \<le> ?i then 0 else (if float_rank v < 0 then -1 else 1) * (if ?a \<ge> ?o then 2 ^ 149 else int (response ?i ?o ?a)))"
    "applyDeadzone1D v inner outer \<noteq> NaN" by blast+
qed

section \<open>Properties of deadzones\<close>

lemma deadzone_nan: "applyDeadzone1D NaN inner outer = NaN"
  by (simp add: applyDeadzone1D_def Let_def absoluteValue_def sign_def float_less_def float_le_def float_sub_def float_div_def float_mul_def)

lemma deadzone_rank_bound:
  assumes "valid_zones inner outer" "v \<noteq> NaN"
  shows "\<bar>float_rank (applyDeadzone1D v inner outer)\<bar> \<le> 2 ^ 149"
  using applyDeadzone1D_rank(1) [OF assms] response_le [of "float_rank inner" "float_rank outer" "\<bar>float_rank v\<bar>"] zone_clamps [OF assms(1)]
  by (auto simp: abs_mult)

text \<open>The response on magnitudes, the same on both sides of zero.\<close>

definition zone_response :: "int \<Rightarrow> int \<Rightarrow> int \<Rightarrow> int" where
  "zone_response i o' a = (if a \<le> i then 0 else if a \<ge> o' then 2 ^ 149 else int (response i o' a))"

lemma zone_response_mono: "a \<le> b \<Longrightarrow> zone_response i o' a \<le> zone_response i o' b"
  using response_mono [of i o' a b] response_le [of i o' a] by (auto simp: zone_response_def)

lemma zone_response_nonneg: "0 \<le> zone_response i o' a"
  by (simp add: zone_response_def)

lemma deadzone_zone_response:
  assumes "valid_zones inner outer" "v \<noteq> NaN"
  shows "float_rank (applyDeadzone1D v inner outer) =
    (if float_rank v < 0 then - zone_response (float_rank inner) (float_rank outer) (- float_rank v)
     else zone_response (float_rank inner) (float_rank outer) (float_rank v))"
  using applyDeadzone1D_rank(1) [OF assms] by (simp add: zone_response_def)

text \<open>
  C36: with valid settings the one-dimensional deadzone gives NaN exactly for a NaN input, and nothing but NaN for it; every other
  input, infinities included, gives a number within [-1, 1] that is zero inside the inner zone and full deflection from the outer
  zone on; and the response is monotone in single precision, roundings of the subtraction, division and multiplication included: a
  larger deflection never gives a smaller response. A NaN is not filtered here, and InputState stores one as it comes.
\<close>

theorem deadzone_monotone:
  assumes z: "valid_zones inner outer"
  shows "(applyDeadzone1D v inner outer = NaN \<longleftrightarrow> v = NaN) \<and>
    (v \<noteq> NaN \<longrightarrow> float_ge (applyDeadzone1D v inner outer) (float_neg float_one) \<and> float_le (applyDeadzone1D v inner outer) float_one) \<and>
    (float_le (absoluteValue v) inner \<longrightarrow> applyDeadzone1D v inner outer = Fin 0) \<and>
    (float_gt (absoluteValue v) inner \<and> float_ge (absoluteValue v) outer \<longrightarrow> applyDeadzone1D v inner outer = sign v) \<and>
    (float_le v w \<longrightarrow> float_le (applyDeadzone1D v inner outer) (applyDeadzone1D w inner outer))"
proof (intro conjI impI iffI)
  let ?f = "\<lambda>v. applyDeadzone1D v inner outer" and ?z = "zone_response (float_rank inner) (float_rank outer)"
  note nan = applyDeadzone1D_rank(2) [OF z] and r = deadzone_zone_response [OF z]
  show "v = NaN" if "?f v = NaN" using nan that by blast
  show "?f v = NaN" if "v = NaN" unfolding that by (rule deadzone_nan)
  show "float_ge (?f v) (float_neg float_one)" "float_le (?f v) float_one" if "v \<noteq> NaN"
    using nan [OF that] deadzone_rank_bound [OF z that] by (simp_all add: float_le_def float_one_def)
  show "?f v = Fin 0" if "float_le (absoluteValue v) inner"
    using that by (simp add: applyDeadzone1D_def zone_clamps(1) [OF z])
  show "?f v = sign v" if "float_gt (absoluteValue v) inner \<and> float_ge (absoluteValue v) outer"
    using that by (auto simp: applyDeadzone1D_def Let_def zone_clamps(1,2) [OF z] float_less_def float_le_def)
  show "float_le (?f v) (?f w)" if "float_le v w"
  proof -
    have le: "float_rank v \<le> float_rank w" and v: "v \<noteq> NaN" and w: "w \<noteq> NaN" using that by (simp_all add: float_le_def)
    have "float_rank (?f v) \<le> float_rank (?f w)"
      using r [OF v] r [OF w] le zone_response_mono [OF le, of "float_rank inner" "float_rank outer"]
        zone_response_mono [of "- float_rank w" "- float_rank v" "float_rank inner" "float_rank outer"]
        zone_response_nonneg [of "float_rank inner" "float_rank outer" "- float_rank v"]
        zone_response_nonneg [of "float_rank inner" "float_rank outer" "float_rank w"]
      by auto
    then show ?thesis using nan [OF v] nan [OF w] by (simp add: float_le_def)
  qed
qed

theorem deadzone_monotone_witness:
  "applyDeadzone1D (Inf True) (Fin (2 ^ 147)) float_one = float_neg float_one \<and> applyDeadzone1D NaN (Fin (2 ^ 147)) float_one = NaN \<and>
   applyDeadzone1D (Fin 1) (Fin (2 ^ 147)) float_one = Fin 0 \<and>
   float_le (applyDeadzone1D (Fin (2 ^ 148)) (Fin (2 ^ 147)) float_one) (applyDeadzone1D (Fin (2 ^ 148 + 2 ^ 125)) (Fin (2 ^ 147)) float_one)"
proof -
  have z: "valid_zones (Fin (2 ^ 147)) float_one" by (simp add: valid_zones_def isFinite_def float_le_def float_one_def)
  show ?thesis
    using deadzone_monotone [OF z, of "Inf True" "Fin 1"] deadzone_monotone [OF z, of NaN NaN] deadzone_monotone [OF z, of "Fin 1" "Fin 1"]
      deadzone_monotone [OF z, of "Fin (2 ^ 148)" "Fin (2 ^ 148 + 2 ^ 125)"]
    by (simp add: absoluteValue_def float_less_def float_le_def float_limit_def float_one_def sign_def)
qed

end
