(* ===== verification/Action_Bindings.thy ===== *)
theory Action_Bindings
  imports Action_Values
begin

text \<open>
  Bindings of \<^verbatim>\<open>engine/action\<close>: settings, combos, gestures, their validation, the binding store of \<^verbatim>\<open>ActionMap\<close> with the fluent
  builder, and the capture of new bindings from player input (\<^verbatim>\<open>action.h\<close>, \<^verbatim>\<open>core/action.cpp\<close>, the three \<^verbatim>\<open>internal\<close> files).
  An \<open>ActionEnum\<close> value is its index.
\<close>

section \<open>Types\<close>

datatype ActionKind = ButtonKind | Axis1D | Axis2D

datatype ActionTrigger = PressedTrigger | ReleasedTrigger | DownTrigger | HoldTrigger | TapTrigger | DoubleTapTrigger | ValueTrigger

datatype ActionComponent = ScalarComponent | XComponent | YComponent

datatype ComboActivationMode = PrimaryLast | AnyOrder

datatype DeadzoneMode = NoDeadzone | Axial | Radial

datatype ActionResult = ActionSuccess | InvalidAction | InvalidControl | InvalidBinding | InvalidSettings | DuplicateBinding | ConflictingBinding

datatype RebindModifierMode = NoModifiers | KeyboardModifiersOnly | AllHeldButtons

datatype RebindCompletionMode = OnActivation | OnRelease

datatype AxisCaptureMode = FullAxis | DirectionalAxis

datatype RebindResult = RebindNone | Collecting | Captured | RebindCanceled | RebindInvalidAction | RebindInvalidControl | RebindInvalidBinding

record ActionSettings =
  settingsKind :: ActionKind
  clampValue :: bool
  normalizeDiagonal :: bool
  deadzoneMode :: DeadzoneMode
  innerDeadzone :: float32
  outerDeadzone :: float32
  sensitivity :: float32
  curveExponent :: float32
  invert :: bool
  invertX :: bool
  invertY :: bool
  activationThreshold :: float32

record ActionCombo =
  primaryControl :: InputControl
  modifiers :: "InputControl list"
  activationMode :: ComboActivationMode

record ActionGesture =
  trigger :: ActionTrigger
  holdSeconds :: float32
  doubleTapSeconds :: float32

record ActionValueMapping =
  component :: ActionComponent
  scale :: float32
  threshold :: float32

record ActionBinding =
  bindingAction :: nat
  combo :: ActionCombo
  gesture :: ActionGesture
  valueMapping :: ActionValueMapping
  bindingSettings :: ActionSettings
  hasCustomSettings :: bool

record ActionValue =
  scalarValue :: float32
  xValue :: float32
  yValue :: float32

record ActionState =
  actionDown :: bool
  actionPressed :: bool
  actionReleased :: bool
  valueActive :: bool
  actionValue :: ActionValue

record RuntimeBindingState =
  bindingActive :: bool
  holdFired :: bool
  heldSeconds :: float32
  timeSinceLastTap :: float32
  changeSequence :: "64 word"
  waitingForSecondTap :: bool

record ActionMap =
  actionKinds :: "ActionKind list"
  actionStates :: "ActionState list"
  bindings :: "ActionBinding list"
  bindingStates :: "RuntimeBindingState list"
  textSnapshot :: "byte list"
  mouseDeltaXSnapshot :: int
  mouseDeltaYSnapshot :: int
  mouseXSnapshot :: int
  mouseYSnapshot :: int
  verticalWheelSnapshot :: float32
  horizontalWheelSnapshot :: float32
  valueChangeSequence :: "64 word"
  mouseKnownSnapshot :: bool

definition half :: float32 where
  "half = Fin (2 ^ 148)"

definition default_settings :: "ActionKind \<Rightarrow> ActionSettings" where
  "default_settings kind = \<lparr>settingsKind = kind, clampValue = True, normalizeDiagonal = False, deadzoneMode = NoDeadzone,
     innerDeadzone = Fin 0, outerDeadzone = float_one, sensitivity = float_one, curveExponent = float_one,
     invert = False, invertX = False, invertY = False, activationThreshold = half\<rparr>"

definition makeButtonSettings :: ActionSettings where
  "makeButtonSettings = default_settings ButtonKind"

definition makeAxis1DSettings :: "DeadzoneMode \<Rightarrow> float32 \<Rightarrow> float32 \<Rightarrow> float32 \<Rightarrow> bool \<Rightarrow> bool \<Rightarrow> float32 \<Rightarrow> ActionSettings" where
  "makeAxis1DSettings mode inner outer sens invs clampv act =
    (default_settings Axis1D)\<lparr>clampValue := clampv, deadzoneMode := mode, innerDeadzone := inner, outerDeadzone := outer,
      sensitivity := sens, invert := invs, activationThreshold := act\<rparr>"

definition makeAxis2DSettings :: "DeadzoneMode \<Rightarrow> float32 \<Rightarrow> float32 \<Rightarrow> float32 \<Rightarrow> bool \<Rightarrow> bool \<Rightarrow> bool \<Rightarrow> bool \<Rightarrow> float32 \<Rightarrow> ActionSettings" where
  "makeAxis2DSettings mode inner outer sens invx invy clampv diagonal act =
    (default_settings Axis2D)\<lparr>clampValue := clampv, normalizeDiagonal := diagonal, deadzoneMode := mode, innerDeadzone := inner,
      outerDeadzone := outer, sensitivity := sens, invertX := invx, invertY := invy, activationThreshold := act\<rparr>"

definition makeMovementSettings :: ActionSettings where
  "makeMovementSettings = makeAxis2DSettings NoDeadzone (Fin 0) float_one float_one False False True True half"

definition makeMouseLookSettings :: "float32 \<Rightarrow> bool \<Rightarrow> bool \<Rightarrow> ActionSettings" where
  "makeMouseLookSettings sens invx invy = makeAxis2DSettings NoDeadzone (Fin 0) float_one sens invx invy False False (Fin 0)"

definition makeGamepadStickSettings :: "float32 \<Rightarrow> float32 \<Rightarrow> float32 \<Rightarrow> bool \<Rightarrow> bool \<Rightarrow> ActionSettings" where
  "makeGamepadStickSettings inner outer sens invx invy = makeAxis2DSettings Radial inner outer sens invx invy True False inner"

definition makeGamepadTriggerSettings :: "float32 \<Rightarrow> float32 \<Rightarrow> float32 \<Rightarrow> bool \<Rightarrow> ActionSettings" where
  "makeGamepadTriggerSettings inner outer sens invs = makeAxis1DSettings Axial inner outer sens invs True inner"

definition makeDefaultSettings :: "ActionKind \<Rightarrow> ActionSettings" where
  "makeDefaultSettings kind =
    (case kind of
       ButtonKind \<Rightarrow> makeButtonSettings
     | Axis1D \<Rightarrow> makeAxis1DSettings NoDeadzone (Fin 0) float_one float_one False True half
     | Axis2D \<Rightarrow> makeAxis2DSettings NoDeadzone (Fin 0) float_one float_one False False True False half)"

definition default_control :: InputControl where
  "default_control = InputControl Keyboard 0 Button 0"

definition default_binding :: ActionBinding where
  "default_binding = \<lparr>bindingAction = 0, combo = \<lparr>primaryControl = default_control, modifiers = [], activationMode = PrimaryLast\<rparr>,
     gesture = \<lparr>trigger = PressedTrigger, holdSeconds = Fin 0, doubleTapSeconds = Fin 0\<rparr>,
     valueMapping = \<lparr>component = ScalarComponent, scale = float_one, threshold = Fin 0\<rparr>,
     bindingSettings = default_settings ButtonKind, hasCustomSettings = False\<rparr>"

definition zero_value :: ActionValue where
  "zero_value = \<lparr>scalarValue = Fin 0, xValue = Fin 0, yValue = Fin 0\<rparr>"

definition default_action_state :: ActionState where
  "default_action_state = \<lparr>actionDown = False, actionPressed = False, actionReleased = False, valueActive = False, actionValue = zero_value\<rparr>"

definition default_binding_state :: RuntimeBindingState where
  "default_binding_state = \<lparr>bindingActive = False, holdFired = False, heldSeconds = Fin 0, timeSinceLastTap = Fin 0,
     changeSequence = 0, waitingForSecondTap = False\<rparr>"

section \<open>Controls and comparisons\<close>

definition isKeyboardNoneControl :: "InputControl \<Rightarrow> bool" where
  "isKeyboardNoneControl c \<longleftrightarrow> deviceType c = Keyboard \<and> deviceIndex c = 0 \<and> controlType c = Button \<and> controlCode c = 0"

definition isValidControl :: "InputControl \<Rightarrow> bool" where
  "isValidControl c \<longleftrightarrow> \<not> isKeyboardNoneControl c"

definition isKeyboardModifier :: "InputControl \<Rightarrow> bool" where
  "isKeyboardModifier c =
    (if deviceType c \<noteq> Keyboard \<or> deviceIndex c \<noteq> 0 \<or> controlType c \<noteq> Button then False
     else controlCode c \<in> {0xE0, 0xE4, 0xE1, 0xE5, 0xE2, 0xE6, 0xE3, 0xE7})"

definition isValidActionSettings :: "ActionSettings \<Rightarrow> bool" where
  "isValidActionSettings s \<longleftrightarrow>
    isFinite (innerDeadzone s) \<and> isFinite (outerDeadzone s) \<and> isFinite (sensitivity s) \<and> isFinite (curveExponent s) \<and>
    isFinite (activationThreshold s) \<and> float_ge (innerDeadzone s) (Fin 0) \<and> float_le (innerDeadzone s) float_one \<and>
    float_ge (outerDeadzone s) (innerDeadzone s) \<and> float_le (outerDeadzone s) float_one \<and> float_ge (sensitivity s) (Fin 0) \<and>
    float_gt (curveExponent s) (Fin 0) \<and> float_ge (activationThreshold s) (Fin 0)"

definition areSameActionSettings :: "ActionSettings \<Rightarrow> ActionSettings \<Rightarrow> bool" where
  "areSameActionSettings l r \<longleftrightarrow>
    settingsKind l = settingsKind r \<and> clampValue l = clampValue r \<and> normalizeDiagonal l = normalizeDiagonal r \<and>
    deadzoneMode l = deadzoneMode r \<and> float_eq (innerDeadzone l) (innerDeadzone r) \<and> float_eq (outerDeadzone l) (outerDeadzone r) \<and>
    float_eq (sensitivity l) (sensitivity r) \<and> float_eq (curveExponent l) (curveExponent r) \<and> invert l = invert r \<and>
    invertX l = invertX r \<and> invertY l = invertY r \<and> float_eq (activationThreshold l) (activationThreshold r)"

definition getBindingSettings :: "ActionBinding \<Rightarrow> ActionKind \<Rightarrow> ActionSettings" where
  "getBindingSettings b kind = (if hasCustomSettings b then bindingSettings b else makeDefaultSettings kind)"

definition isBindingCompatibleWithActionKind :: "ActionKind \<Rightarrow> ActionBinding \<Rightarrow> bool" where
  "isBindingCompatibleWithActionKind kind b =
    (case kind of
       ButtonKind \<Rightarrow> trigger (gesture b) \<noteq> ValueTrigger \<and> component (valueMapping b) = ScalarComponent
     | Axis1D \<Rightarrow> trigger (gesture b) = ValueTrigger \<and> component (valueMapping b) = ScalarComponent
     | Axis2D \<Rightarrow> trigger (gesture b) = ValueTrigger \<and> component (valueMapping b) \<noteq> ScalarComponent)"

definition shouldCaptureModifier :: "InputControl \<Rightarrow> InputControl \<Rightarrow> RebindModifierMode \<Rightarrow> InputControl list \<Rightarrow> InputControl list \<Rightarrow> bool" where
  "shouldCaptureModifier m primary mode cancelControls ignoredControls =
    (if mode = NoModifiers \<or> m = primary \<or> \<not> isButtonControl m \<or> m \<in> set cancelControls \<or> m \<in> set ignoredControls then False
     else if mode = KeyboardModifiersOnly then isKeyboardModifier m
     else True)"

fun hasDuplicateControls :: "InputControl list \<Rightarrow> bool" where
  "hasDuplicateControls [] = False"
| "hasDuplicateControls (c # cs) = (if c \<in> set cs then True else hasDuplicateControls cs)"

definition haveSameModifierSet :: "InputControl list \<Rightarrow> InputControl list \<Rightarrow> bool" where
  "haveSameModifierSet l r = (if length l \<noteq> length r then False else list_all (\<lambda>m. m \<in> set r) l)"

definition areSameCombo :: "ActionCombo \<Rightarrow> ActionCombo \<Rightarrow> bool" where
  "areSameCombo l r \<longleftrightarrow> primaryControl l = primaryControl r \<and> activationMode l = activationMode r \<and> haveSameModifierSet (modifiers l) (modifiers r)"

definition areSameGesture :: "ActionGesture \<Rightarrow> ActionGesture \<Rightarrow> bool" where
  "areSameGesture l r \<longleftrightarrow> trigger l = trigger r \<and> float_eq (holdSeconds l) (holdSeconds r) \<and> float_eq (doubleTapSeconds l) (doubleTapSeconds r)"

definition areSameValueMapping :: "ActionValueMapping \<Rightarrow> ActionValueMapping \<Rightarrow> bool" where
  "areSameValueMapping l r \<longleftrightarrow> component l = component r \<and> float_eq (scale l) (scale r) \<and> float_eq (threshold l) (threshold r)"

definition areSameBinding :: "ActionBinding \<Rightarrow> ActionBinding \<Rightarrow> bool" where
  "areSameBinding l r \<longleftrightarrow> bindingAction l = bindingAction r \<and> areSameCombo (combo l) (combo r) \<and>
     areSameGesture (gesture l) (gesture r) \<and> areSameValueMapping (valueMapping l) (valueMapping r)"

definition hasBindingConflict :: "ActionBinding \<Rightarrow> ActionBinding \<Rightarrow> bool" where
  "hasBindingConflict l r \<longleftrightarrow> bindingAction l \<noteq> bindingAction r \<and> areSameCombo (combo l) (combo r) \<and> areSameGesture (gesture l) (gesture r)"

section \<open>The binding store\<close>

definition isValidAction :: "ActionMap \<Rightarrow> nat \<Rightarrow> bool" where
  "isValidAction m a \<longleftrightarrow> a < length (actionKinds m)"

definition resize_list :: "nat \<Rightarrow> 'a \<Rightarrow> 'a list \<Rightarrow> 'a list" where
  "resize_list n d xs = take n xs @ replicate (n - length xs) d"

definition ActionMap_resize :: "nat \<Rightarrow> ActionMap \<Rightarrow> ActionMap" where
  "ActionMap_resize count m = m\<lparr>actionKinds := resize_list count ButtonKind (actionKinds m),
     actionStates := resize_list count default_action_state (actionStates m)\<rparr>"

definition newActionMap :: "nat \<Rightarrow> ActionMap" where
  "newActionMap count = ActionMap_resize count
     \<lparr>actionKinds = [], actionStates = [], bindings = [], bindingStates = [], textSnapshot = [], mouseDeltaXSnapshot = 0,
      mouseDeltaYSnapshot = 0, mouseXSnapshot = 0, mouseYSnapshot = 0, verticalWheelSnapshot = Fin 0, horizontalWheelSnapshot = Fin 0,
      valueChangeSequence = 0, mouseKnownSnapshot = False\<rparr>"

definition defineAction :: "nat \<Rightarrow> ActionKind \<Rightarrow> ActionMap \<Rightarrow> ActionResult \<times> ActionMap" where
  "defineAction a kind m =
    (if \<not> isValidAction m a then (InvalidAction, m) else (ActionSuccess, m\<lparr>actionKinds := (actionKinds m)[a := kind]\<rparr>))"

text \<open>The comparison with the stored bindings, which ends at the first duplicate.\<close>

fun compareBindings :: "ActionBinding \<Rightarrow> bool \<Rightarrow> ActionBinding list \<Rightarrow> ActionResult \<Rightarrow> ActionResult" where
  "compareBindings b ignoreSame [] result = result"
| "compareBindings b ignoreSame (e # es) result =
    (if ignoreSame \<and> bindingAction e = bindingAction b then compareBindings b ignoreSame es result
     else if areSameBinding e b then DuplicateBinding
     else compareBindings b ignoreSame es (if hasBindingConflict e b then ConflictingBinding else result))"

definition validateBinding :: "ActionMap \<Rightarrow> ActionBinding \<Rightarrow> bool \<Rightarrow> ActionResult" where
  "validateBinding m b ignoreSame =
    (if \<not> isValidAction m (bindingAction b) then InvalidAction
     else if \<not> isValidControl (primaryControl (combo b)) then InvalidControl
     else let kind = actionKinds m ! bindingAction b in
     if \<not> isBindingCompatibleWithActionKind kind b then InvalidBinding
     else if hasCustomSettings b \<and> (\<not> isValidActionSettings (bindingSettings b) \<or> settingsKind (bindingSettings b) \<noteq> kind) then InvalidSettings
     else if trigger (gesture b) \<noteq> ValueTrigger \<and> \<not> isButtonControl (primaryControl (combo b)) then InvalidControl
     else if \<not> isFinite (scale (valueMapping b)) \<or> \<not> isFinite (threshold (valueMapping b)) \<or> float_less (threshold (valueMapping b)) (Fin 0) then InvalidBinding
     else if \<not> list_all (\<lambda>c. isValidControl c \<and> isButtonControl c) (modifiers (combo b)) then InvalidControl
     else if primaryControl (combo b) \<in> set (modifiers (combo b)) \<or> hasDuplicateControls (modifiers (combo b)) then InvalidBinding
     else if trigger (gesture b) = HoldTrigger \<and> (\<not> isFinite (holdSeconds (gesture b)) \<or> float_le (holdSeconds (gesture b)) (Fin 0)) \<or>
             trigger (gesture b) = DoubleTapTrigger \<and> (\<not> isFinite (doubleTapSeconds (gesture b)) \<or> float_le (doubleTapSeconds (gesture b)) (Fin 0))
     then InvalidBinding
     else compareBindings b ignoreSame (bindings m) ActionSuccess)"

definition addBindingUnchecked :: "ActionBinding \<Rightarrow> ActionMap \<Rightarrow> ActionMap" where
  "addBindingUnchecked b m = m\<lparr>bindings := bindings m @ [b], bindingStates := bindingStates m @ [default_binding_state]\<rparr>"

definition addBinding :: "ActionBinding \<Rightarrow> ActionMap \<Rightarrow> ActionResult \<times> ActionMap" where
  "addBinding b m =
    (let result = validateBinding m b False in
     if result \<noteq> ActionSuccess \<and> result \<noteq> ConflictingBinding then (result, m) else (result, addBindingUnchecked b m))"

text \<open>The erasing loop over both vectors.\<close>

fun eraseBindings :: "nat \<Rightarrow> ActionBinding list \<Rightarrow> RuntimeBindingState list \<Rightarrow> ActionBinding list \<times> RuntimeBindingState list" where
  "eraseBindings a (b # bs) (s # ss) =
    (if bindingAction b = a then eraseBindings a bs ss
     else case eraseBindings a bs ss of (bs', ss') \<Rightarrow> (b # bs', s # ss'))"
| "eraseBindings a bs ss = (bs, ss)"

definition clearBindings :: "nat \<Rightarrow> ActionMap \<Rightarrow> ActionMap" where
  "clearBindings a m =
    (if \<not> isValidAction m a then m
     else case eraseBindings a (bindings m) (bindingStates m) of (bs, ss) \<Rightarrow> m\<lparr>bindings := bs, bindingStates := ss\<rparr>)"

definition clearAllBindings :: "ActionMap \<Rightarrow> ActionMap" where
  "clearAllBindings m = m\<lparr>bindings := [], bindingStates := []\<rparr>"

section \<open>Builder\<close>

definition bind_action :: "nat \<Rightarrow> ActionBinding" where
  "bind_action a = default_binding\<lparr>bindingAction := a\<rparr>"

definition on_control :: "InputControl \<Rightarrow> ActionBinding \<Rightarrow> ActionBinding" where
  "on_control c b = b\<lparr>combo := (combo b)\<lparr>primaryControl := c\<rparr>\<rparr>"

definition withModifier :: "InputControl \<Rightarrow> ActionBinding \<Rightarrow> ActionBinding" where
  "withModifier c b = b\<lparr>combo := (combo b)\<lparr>modifiers := modifiers (combo b) @ [c]\<rparr>\<rparr>"

definition withModifiers :: "InputControl list \<Rightarrow> ActionBinding \<Rightarrow> ActionBinding" where
  "withModifiers cs b = foldl (\<lambda>b c. withModifier c b) b cs"

definition with_mode :: "ComboActivationMode \<Rightarrow> ActionBinding \<Rightarrow> ActionBinding" where
  "with_mode mode b = b\<lparr>combo := (combo b)\<lparr>activationMode := mode\<rparr>\<rparr>"

definition withSettings :: "ActionSettings \<Rightarrow> ActionBinding \<Rightarrow> ActionBinding" where
  "withSettings s b = b\<lparr>bindingSettings := s, hasCustomSettings := True\<rparr>"

definition builder_add ::
  "ActionTrigger \<Rightarrow> ActionComponent \<Rightarrow> float32 \<Rightarrow> float32 \<Rightarrow> float32 \<Rightarrow> float32 \<Rightarrow> ActionBinding \<Rightarrow> ActionMap \<Rightarrow> ActionResult \<times> ActionMap" where
  "builder_add t c sc th hold double b m =
    addBinding (b\<lparr>gesture := \<lparr>trigger = t, holdSeconds = hold, doubleTapSeconds = double\<rparr>,
                 valueMapping := \<lparr>component = c, scale = sc, threshold = th\<rparr>\<rparr>) m"

datatype builder_end = B_pressed | B_released | B_down | B_tap | B_hold float32 | B_doubleTap float32
  | B_value ActionComponent float32 float32 | B_axis1D float32 float32 | B_axis2D ActionComponent float32 float32

fun builder_finish :: "builder_end \<Rightarrow> ActionBinding \<Rightarrow> ActionMap \<Rightarrow> ActionResult \<times> ActionMap" where
  "builder_finish B_pressed b m = builder_add PressedTrigger ScalarComponent float_one (Fin 0) (Fin 0) (Fin 0) b m"
| "builder_finish B_released b m = builder_add ReleasedTrigger ScalarComponent float_one (Fin 0) (Fin 0) (Fin 0) b m"
| "builder_finish B_down b m = builder_add DownTrigger ScalarComponent float_one (Fin 0) (Fin 0) (Fin 0) b m"
| "builder_finish B_tap b m = builder_add TapTrigger ScalarComponent float_one (Fin 0) (Fin 0) (Fin 0) b m"
| "builder_finish (B_hold seconds) b m = builder_add HoldTrigger ScalarComponent float_one (Fin 0) seconds (Fin 0) b m"
| "builder_finish (B_doubleTap seconds) b m = builder_add DoubleTapTrigger ScalarComponent float_one (Fin 0) (Fin 0) seconds b m"
| "builder_finish (B_value c sc th) b m = builder_add ValueTrigger c sc th (Fin 0) (Fin 0) b m"
| "builder_finish (B_axis1D sc th) b m = builder_add ValueTrigger ScalarComponent sc th (Fin 0) (Fin 0) b m"
| "builder_finish (B_axis2D c sc th) b m =
    (if c = ScalarComponent then (InvalidBinding, m) else builder_add ValueTrigger c sc th (Fin 0) (Fin 0) b m)"

section \<open>Rebinding\<close>

record ActionRebindOptions =
  optTrigger :: ActionTrigger
  optComponent :: ActionComponent
  optScale :: float32
  optThreshold :: float32
  optHoldSeconds :: float32
  optDoubleTapSeconds :: float32
  optActivationMode :: ComboActivationMode
  modifierMode :: RebindModifierMode
  completionMode :: RebindCompletionMode
  axisCaptureMode :: AxisCaptureMode
  deviceFilter :: InputDeviceRef
  hasDeviceFilter :: bool
  axisActivationThreshold :: float32
  axisNoiseThreshold :: float32
  optSettings :: ActionSettings
  optHasCustomSettings :: bool
  optReplaceExisting :: bool

record ActionRebindCapture =
  captureAction :: nat
  captureBindingValue :: ActionBinding
  captureActivation :: InputActivation
  captureResult :: RebindResult
  replaceExistingBindings :: bool

record ActionRebindSession =
  sessionAction :: nat
  sessionOptions :: ActionRebindOptions
  sessionControls :: "InputControl list"
  sessionPrimary :: InputControl
  sessionActivation :: InputActivation
  sessionActive :: bool
  hasPrimaryControl :: bool

definition default_activation :: InputActivation where
  "default_activation = \<lparr>activationControl = default_control, activationType = ButtonPressed, activationValue = Fin 0, previousValue = Fin 0\<rparr>"

definition empty_capture :: ActionRebindCapture where
  "empty_capture = \<lparr>captureAction = 0, captureBindingValue = default_binding, captureActivation = default_activation,
     captureResult = RebindNone, replaceExistingBindings = True\<rparr>"

definition isCaptureActivation :: "InputActivation \<Rightarrow> bool" where
  "isCaptureActivation a =
    (case activationType a of ButtonPressed \<Rightarrow> True | AxisPositive \<Rightarrow> True | AxisNegative \<Rightarrow> True | AxisChanged \<Rightarrow> True
     | WheelPositive \<Rightarrow> True | WheelNegative \<Rightarrow> True | ButtonReleased \<Rightarrow> False)"

definition isButtonPressActivation :: "InputActivation \<Rightarrow> bool" where
  "isButtonPressActivation a \<longleftrightarrow> activationType a = ButtonPressed"

definition isButtonReleaseActivation :: "InputActivation \<Rightarrow> bool" where
  "isButtonReleaseActivation a \<longleftrightarrow> activationType a = ButtonReleased"

definition isAxisActivation :: "InputActivation \<Rightarrow> bool" where
  "isAxisActivation a \<longleftrightarrow> controlType (activationControl a) = Axis \<and>
    (activationType a = AxisPositive \<or> activationType a = AxisNegative \<or> activationType a = AxisChanged)"

definition isAllowedCaptureDevice :: "InputActivation \<Rightarrow> ActionRebindOptions \<Rightarrow> bool" where
  "isAllowedCaptureDevice a opts \<longleftrightarrow> \<not> hasDeviceFilter opts \<or>
    deviceType (activationControl a) = refType (deviceFilter opts) \<and> deviceIndex (activationControl a) = refIndex (deviceFilter opts)"

definition activation_movement :: "InputActivation \<Rightarrow> float32" where
  "activation_movement a = float_sub (activationValue a) (previousValue a)"

definition passesAxisCaptureThresholds :: "InputActivation \<Rightarrow> ActionRebindOptions \<Rightarrow> bool" where
  "passesAxisCaptureThresholds a opts =
    (if \<not> isAxisActivation a then True
     else float_ge (absoluteValue (activationValue a)) (axisActivationThreshold opts) \<and>
          float_ge (absoluteValue (activation_movement a)) (axisNoiseThreshold opts))"

definition isAllowedCaptureActivation :: "InputActivation \<Rightarrow> ActionRebindOptions \<Rightarrow> bool" where
  "isAllowedCaptureActivation a opts \<longleftrightarrow> isCaptureActivation a \<and> isAllowedCaptureDevice a opts \<and> passesAxisCaptureThresholds a opts"

definition pushUniqueControl :: "InputControl \<Rightarrow> InputControl list \<Rightarrow> InputControl list" where
  "pushUniqueControl c cs = (if c \<notin> set cs then cs @ [c] else cs)"

definition capturedModifiers :: "InputControl list \<Rightarrow> InputControl \<Rightarrow> RebindModifierMode \<Rightarrow> InputControl list \<Rightarrow> InputControl list \<Rightarrow> InputControl list" where
  "capturedModifiers candidates primary mode cancelControls ignoredControls =
    foldl (\<lambda>ms c. if shouldCaptureModifier c primary mode cancelControls ignoredControls then pushUniqueControl c ms else ms) [] candidates"

definition captureScale :: "InputActivation \<Rightarrow> InputControl \<Rightarrow> ActionRebindOptions \<Rightarrow> float32" where
  "captureScale a primary opts =
    (if axisCaptureMode opts = DirectionalAxis \<and> controlType primary = Axis
     then let movement = activation_movement a;
              direction = (if float_less movement (Fin 0) \<or> float_eq movement (Fin 0) \<and> float_less (activationValue a) (Fin 0)
                           then float_neg float_one else float_one) in
       float_mul (optScale opts) direction
     else optScale opts)"

definition captured_binding ::
  "nat \<Rightarrow> InputActivation \<Rightarrow> InputControl \<Rightarrow> InputControl list \<Rightarrow> ActionRebindOptions \<Rightarrow> InputControl list \<Rightarrow> InputControl list \<Rightarrow> ActionBinding" where
  "captured_binding act a primary candidates opts cancelControls ignoredControls =
    \<lparr>bindingAction = act,
     combo = \<lparr>primaryControl = primary,
              modifiers = capturedModifiers candidates primary (modifierMode opts) cancelControls ignoredControls,
              activationMode = optActivationMode opts\<rparr>,
     gesture = \<lparr>trigger = optTrigger opts, holdSeconds = optHoldSeconds opts, doubleTapSeconds = optDoubleTapSeconds opts\<rparr>,
     valueMapping = \<lparr>component = optComponent opts, scale = captureScale a primary opts, threshold = optThreshold opts\<rparr>,
     bindingSettings = optSettings opts, hasCustomSettings = optHasCustomSettings opts\<rparr>"

definition buildRebindCapture ::
  "ActionMap \<Rightarrow> nat \<Rightarrow> InputActivation \<Rightarrow> InputControl \<Rightarrow> InputControl list \<Rightarrow> ActionRebindOptions \<Rightarrow> InputControl list \<Rightarrow> InputControl list \<Rightarrow>
   ActionRebindCapture" where
  "buildRebindCapture m act a primary candidates opts cancelControls ignoredControls =
    (let out = empty_capture\<lparr>captureAction := act, replaceExistingBindings := optReplaceExisting opts\<rparr> in
     if \<not> isValidAction m act then out\<lparr>captureResult := RebindInvalidAction\<rparr>
     else if \<not> isValidControl primary then out\<lparr>captureResult := RebindInvalidControl\<rparr>
     else let b = captured_binding act a primary candidates opts cancelControls ignoredControls;
              validationResult = validateBinding m b (optReplaceExisting opts) in
       if validationResult = InvalidAction then out\<lparr>captureResult := RebindInvalidAction\<rparr>
       else if validationResult = InvalidControl then out\<lparr>captureResult := RebindInvalidControl\<rparr>
       else if validationResult = InvalidBinding \<or> validationResult = InvalidSettings then out\<lparr>captureResult := RebindInvalidBinding\<rparr>
       else out\<lparr>captureBindingValue := b, captureActivation := a, captureResult := Captured\<rparr>)"

text \<open>The reverse scan of \<open>captureBinding\<close>, on the reversed activations, with the strongest axis movement so far.\<close>

fun scanActivations ::
  "ActionMap \<Rightarrow> nat \<Rightarrow> InputState \<Rightarrow> ActionRebindOptions \<Rightarrow> InputControl list \<Rightarrow> InputControl list \<Rightarrow> InputActivation list \<Rightarrow>
   InputActivation option \<Rightarrow> float32 \<Rightarrow> ActionRebindCapture" where
  "scanActivations m act s opts cancelControls ignoredControls [] best bestMovement =
    (case best of
       Some a \<Rightarrow> buildRebindCapture m act a (activationControl a) (currentButtons s) opts cancelControls ignoredControls
     | None \<Rightarrow> empty_capture\<lparr>captureResult := RebindNone\<rparr>)"
| "scanActivations m act s opts cancelControls ignoredControls (a # as) best bestMovement =
    (if activationControl a \<in> set cancelControls then empty_capture\<lparr>captureResult := RebindCanceled\<rparr>
     else if activationControl a \<in> set ignoredControls \<or> \<not> isAllowedCaptureActivation a opts
     then scanActivations m act s opts cancelControls ignoredControls as best bestMovement
     else if isAxisActivation a
     then let movement = absoluteValue (activation_movement a) in
       if float_gt movement bestMovement
       then scanActivations m act s opts cancelControls ignoredControls as (Some a) movement
       else scanActivations m act s opts cancelControls ignoredControls as best bestMovement
     else buildRebindCapture m act a (activationControl a) (currentButtons s) opts cancelControls ignoredControls)"

definition captureBinding :: "ActionMap \<Rightarrow> nat \<Rightarrow> InputState \<Rightarrow> ActionRebindOptions \<Rightarrow> InputControl list \<Rightarrow> InputControl list \<Rightarrow> ActionRebindCapture" where
  "captureBinding m act s opts cancelControls ignoredControls =
    (if \<not> isValidAction m act then empty_capture\<lparr>captureResult := RebindInvalidAction\<rparr>
     else scanActivations m act s opts cancelControls ignoredControls (rev (activations s)) None (float_neg float_one))"

definition applyCapturedBinding :: "ActionRebindCapture \<Rightarrow> ActionMap \<Rightarrow> ActionResult \<times> ActionMap" where
  "applyCapturedBinding c m =
    (if captureResult c \<noteq> Captured then (InvalidBinding, m)
     else let b = captureBindingValue c; result = validateBinding m b (replaceExistingBindings c) in
       if result \<noteq> ActionSuccess \<and> result \<noteq> ConflictingBinding then (result, m)
       else (result, addBindingUnchecked b (if replaceExistingBindings c then clearBindings (bindingAction b) m else m)))"

definition new_session :: "nat \<Rightarrow> ActionRebindOptions \<Rightarrow> ActionRebindSession" where
  "new_session act opts = \<lparr>sessionAction = act, sessionOptions = opts, sessionControls = [], sessionPrimary = default_control,
     sessionActivation = default_activation, sessionActive = False, hasPrimaryControl = False\<rparr>"

definition beginBindingCapture :: "ActionMap \<Rightarrow> nat \<Rightarrow> ActionRebindOptions \<Rightarrow> RebindResult \<times> ActionRebindSession" where
  "beginBindingCapture m act opts =
    (if \<not> isValidAction m act then (RebindInvalidAction, new_session act opts)
     else (Collecting, (new_session act opts)\<lparr>sessionActive := True\<rparr>))"

definition finishSession :: "ActionRebindCapture \<Rightarrow> ActionRebindSession \<Rightarrow> RebindResult \<times> ActionRebindSession \<times> ActionRebindCapture" where
  "finishSession c session = (captureResult c, session\<lparr>sessionActive := (captureResult c = Collecting)\<rparr>, c)"

fun updateSession ::
  "ActionMap \<Rightarrow> InputState \<Rightarrow> InputControl list \<Rightarrow> InputControl list \<Rightarrow> InputActivation list \<Rightarrow> ActionRebindSession \<Rightarrow>
   RebindResult \<times> ActionRebindSession \<times> ActionRebindCapture" where
  "updateSession m s cancelControls ignoredControls [] session = (Collecting, session, empty_capture)"
| "updateSession m s cancelControls ignoredControls (a # as) session =
    (let opts = sessionOptions session;
         build = buildRebindCapture m (sessionAction session) a (activationControl a) (currentButtons s) opts cancelControls ignoredControls in
     if activationControl a \<in> set cancelControls then (RebindCanceled, session\<lparr>sessionActive := False\<rparr>, empty_capture)
     else if activationControl a \<in> set ignoredControls then updateSession m s cancelControls ignoredControls as session
     else if completionMode opts = OnActivation
     then (if \<not> isAllowedCaptureActivation a opts then updateSession m s cancelControls ignoredControls as session
           else finishSession build session)
     else if isAllowedCaptureActivation a opts
     then (if \<not> isValidControl (activationControl a) then (RebindInvalidControl, session\<lparr>sessionActive := False\<rparr>, empty_capture)
           else if isButtonPressActivation a
           then updateSession m s cancelControls ignoredControls as
             (session\<lparr>sessionControls := pushUniqueControl (activationControl a) (sessionControls session),
                      sessionPrimary := activationControl a, sessionActivation := a, hasPrimaryControl := True\<rparr>)
           else finishSession build session)
     else if isButtonReleaseActivation a \<and> hasPrimaryControl session \<and> activationControl a \<in> set (sessionControls session)
     then finishSession (buildRebindCapture m (sessionAction session) (sessionActivation session) (sessionPrimary session)
            (sessionControls session) opts cancelControls ignoredControls) session
     else updateSession m s cancelControls ignoredControls as session)"

definition updateBindingCapture ::
  "ActionMap \<Rightarrow> InputState \<Rightarrow> InputControl list \<Rightarrow> InputControl list \<Rightarrow> ActionRebindSession \<Rightarrow> RebindResult \<times> ActionRebindSession \<times> ActionRebindCapture" where
  "updateBindingCapture m s cancelControls ignoredControls session =
    (if \<not> sessionActive session then (RebindNone, session, empty_capture)
     else if \<not> isValidAction m (sessionAction session) then (RebindInvalidAction, session\<lparr>sessionActive := False\<rparr>, empty_capture)
     else updateSession m s cancelControls ignoredControls (activations s) session)"

section \<open>Well-formed stores\<close>

definition binding_wf :: "ActionBinding \<Rightarrow> bool" where
  "binding_wf b \<longleftrightarrow> isValidControl (primaryControl (combo b)) \<and>
    (hasCustomSettings b \<longrightarrow> isValidActionSettings (bindingSettings b)) \<and>
    (trigger (gesture b) \<noteq> ValueTrigger \<longrightarrow> isButtonControl (primaryControl (combo b))) \<and>
    isFinite (scale (valueMapping b)) \<and> isFinite (threshold (valueMapping b)) \<and> \<not> float_less (threshold (valueMapping b)) (Fin 0) \<and>
    list_all (\<lambda>c. isValidControl c \<and> isButtonControl c) (modifiers (combo b)) \<and>
    distinct (primaryControl (combo b) # modifiers (combo b)) \<and>
    (trigger (gesture b) = HoldTrigger \<longrightarrow> isFinite (holdSeconds (gesture b)) \<and> float_gt (holdSeconds (gesture b)) (Fin 0)) \<and>
    (trigger (gesture b) = DoubleTapTrigger \<longrightarrow> isFinite (doubleTapSeconds (gesture b)) \<and> float_gt (doubleTapSeconds (gesture b)) (Fin 0))"

definition binding_fits :: "ActionMap \<Rightarrow> ActionBinding \<Rightarrow> bool" where
  "binding_fits m b \<longleftrightarrow> isValidAction m (bindingAction b) \<and> isBindingCompatibleWithActionKind (actionKinds m ! bindingAction b) b \<and>
    (hasCustomSettings b \<longrightarrow> settingsKind (bindingSettings b) = actionKinds m ! bindingAction b)"

definition store_ok :: "ActionMap \<Rightarrow> bool" where
  "store_ok m \<longleftrightarrow> length (bindingStates m) = length (bindings m) \<and> length (actionStates m) = length (actionKinds m) \<and>
    list_all binding_wf (bindings m) \<and> sorted_wrt (\<lambda>l r. \<not> areSameBinding l r) (bindings m)"

abbreviation accepted :: "ActionResult \<Rightarrow> bool" where
  "accepted r \<equiv> r = ActionSuccess \<or> r = ConflictingBinding"

lemma hasDuplicateControls_iff [simp]: "hasDuplicateControls cs \<longleftrightarrow> \<not> distinct cs"
  by (induction cs) simp_all

lemma isFinite_not_le: "isFinite x \<Longrightarrow> float_le x (Fin 0) \<longleftrightarrow> \<not> float_gt x (Fin 0)"
  by (auto simp: isFinite_def float_le_def float_less_def)

text \<open>The bindings that a new one is compared with.\<close>

definition rivals :: "ActionBinding \<Rightarrow> bool \<Rightarrow> ActionBinding list \<Rightarrow> ActionBinding set" where
  "rivals b ignoreSame es = {e \<in> set es. ignoreSame \<longrightarrow> bindingAction e \<noteq> bindingAction b}"

lemma rivals_simps [simp]:
  "rivals b i [] = {}" "rivals b i (e # es) = (if i \<and> bindingAction e = bindingAction b then {} else {e}) \<union> rivals b i es"
  by (auto simp: rivals_def)

lemma compareBindings_eq:
  "compareBindings b i es r =
    (if \<exists>e \<in> rivals b i es. areSameBinding e b then DuplicateBinding
     else if \<exists>e \<in> rivals b i es. hasBindingConflict e b then ConflictingBinding else r)"
  by (cases i; induction es arbitrary: r) auto

lemma validateBinding_accepted:
  "accepted (validateBinding m b i) \<longleftrightarrow> binding_wf b \<and> binding_fits m b \<and> (\<forall>e \<in> rivals b i (bindings m). \<not> areSameBinding e b)"
  unfolding validateBinding_def Let_def compareBindings_eq binding_wf_def binding_fits_def
  by (auto simp: isFinite_not_le)

lemma validateBinding_results:
  "validateBinding m b i \<in> {InvalidAction, InvalidControl, InvalidBinding, InvalidSettings, DuplicateBinding} \<or> accepted (validateBinding m b i)"
  by (cases "validateBinding m b i") simp_all

lemma eraseBindings_eq:
  "length ss = length bs \<Longrightarrow> eraseBindings a bs ss =
    (filter (\<lambda>b. bindingAction b \<noteq> a) bs, map snd (filter (\<lambda>(b, s). bindingAction b \<noteq> a) (zip bs ss)))"
  by (induction a bs ss rule: eraseBindings.induct) auto

lemma filter_zip_fst: "length ss = length bs \<Longrightarrow> map fst (filter (\<lambda>(b, s). P b) (zip bs ss)) = filter P bs"
  by (induction bs ss rule: list_induct2') auto

lemma zip_filtered:
  "length ss = length bs \<Longrightarrow> zip (filter P bs) (map snd (filter (\<lambda>(b, s). P b) (zip bs ss))) = filter (\<lambda>(b, s). P b) (zip bs ss)"
  by (induction bs ss rule: list_induct2') auto

lemma clearBindings_store:
  assumes m: "store_ok m" and a: "isValidAction m a"
  shows "bindings (clearBindings a m) = filter (\<lambda>b. bindingAction b \<noteq> a) (bindings m)"
    and "zip (bindings (clearBindings a m)) (bindingStates (clearBindings a m)) =
      filter (\<lambda>(b, s). bindingAction b \<noteq> a) (zip (bindings m) (bindingStates m))"
    and "actionKinds (clearBindings a m) = actionKinds m" "actionStates (clearBindings a m) = actionStates m"
    and "length (bindingStates (clearBindings a m)) = length (bindings (clearBindings a m))"
proof -
  have len: "length (bindingStates m) = length (bindings m)" using m by (simp add: store_ok_def)
  note eq = eraseBindings_eq [OF len, of a]
  show "bindings (clearBindings a m) = filter (\<lambda>b. bindingAction b \<noteq> a) (bindings m)"
    "actionKinds (clearBindings a m) = actionKinds m" "actionStates (clearBindings a m) = actionStates m"
    using a by (simp_all add: clearBindings_def eq)
  show "zip (bindings (clearBindings a m)) (bindingStates (clearBindings a m)) =
      filter (\<lambda>(b, s). bindingAction b \<noteq> a) (zip (bindings m) (bindingStates m))"
    using a zip_filtered [OF len, of "\<lambda>b. bindingAction b \<noteq> a"] by (simp add: clearBindings_def eq)
  show "length (bindingStates (clearBindings a m)) = length (bindings (clearBindings a m))"
    using a arg_cong [OF filter_zip_fst [OF len, of "\<lambda>b. bindingAction b \<noteq> a"], of length] by (simp add: clearBindings_def eq)
qed

lemma store_ok_clear: "store_ok m \<Longrightarrow> store_ok (clearBindings a m)"
  using clearBindings_store [of m a]
  by (cases "isValidAction m a")
    (auto simp: store_ok_def list_all_iff sorted_wrt_filter clearBindings_def [of a m])

lemma store_ok_add:
  assumes "store_ok m" "binding_wf b" "\<forall>e \<in> set (bindings m). \<not> areSameBinding e b"
  shows "store_ok (addBindingUnchecked b m)"
  using assms by (simp add: store_ok_def addBindingUnchecked_def sorted_wrt_append)

lemma rivals_False [simp]: "rivals b False es = set es"
  by (simp add: rivals_def)

lemma addBinding_ok: "store_ok m \<Longrightarrow> store_ok (snd (addBinding b m))"
  using validateBinding_accepted [of m b False] store_ok_add [of m b] by (auto simp: addBinding_def Let_def)

lemma applyCapturedBinding_ok:
  assumes "store_ok m"
  shows "store_ok (snd (applyCapturedBinding c m))"
proof (cases "captureResult c = Captured \<and> accepted (validateBinding m (captureBindingValue c) (replaceExistingBindings c))")
  case True
  let ?b = "captureBindingValue c"
  have fit: "binding_wf ?b" "isValidAction m (bindingAction ?b)" "\<forall>e \<in> rivals ?b (replaceExistingBindings c) (bindings m). \<not> areSameBinding e ?b"
    using True validateBinding_accepted [of m ?b "replaceExistingBindings c"] by (auto simp: binding_fits_def)
  show ?thesis
  proof (cases "replaceExistingBindings c")
    case R: True
    have "\<forall>e \<in> set (bindings (clearBindings (bindingAction ?b) m)). \<not> areSameBinding e ?b"
      using clearBindings_store(1) [OF assms fit(2)] by (auto simp: areSameBinding_def)
    then show ?thesis using True R fit(1) assms store_ok_add [OF store_ok_clear [OF assms]] by (simp add: applyCapturedBinding_def Let_def)
  next
    case False
    then show ?thesis using True fit assms store_ok_add [OF assms] by (simp add: applyCapturedBinding_def Let_def)
  qed
qed (use assms in \<open>auto simp: applyCapturedBinding_def Let_def\<close>)

lemma resize_list_length [simp]: "length (resize_list n d xs) = n"
  by (simp add: resize_list_def)

lemma store_ok_new: "store_ok (newActionMap n)"
  by (simp add: store_ok_def newActionMap_def ActionMap_resize_def)

section \<open>Captures\<close>

lemma buildRebindCapture_captured:
  assumes "captureResult (buildRebindCapture m act a primary candidates opts cc ic) = Captured"
  defines "b \<equiv> captured_binding act a primary candidates opts cc ic"
  shows "buildRebindCapture m act a primary candidates opts cc ic =
      \<lparr>captureAction = act, captureBindingValue = b, captureActivation = a, captureResult = Captured, replaceExistingBindings = optReplaceExisting opts\<rparr>"
    and "validateBinding m b (optReplaceExisting opts) = DuplicateBinding \<or> accepted (validateBinding m b (optReplaceExisting opts))"
  using assms(1) validateBinding_results [of m b "optReplaceExisting opts"]
  by (auto simp: buildRebindCapture_def Let_def b_def [symmetric] empty_capture_def split: if_splits)

lemma no_duplicate_rival: "validateBinding m b True \<noteq> DuplicateBinding"
proof
  assume "validateBinding m b True = DuplicateBinding"
  then have "\<exists>e \<in> rivals b True (bindings m). areSameBinding e b"
    by (auto simp: validateBinding_def Let_def compareBindings_eq split: if_splits)
  then show False by (auto simp: rivals_def areSameBinding_def)
qed

text \<open>What a capture of a map is: a binding for the action, of a control that was activated and is neither a cancel nor an ignored control.\<close>

definition capture_of :: "ActionMap \<Rightarrow> nat \<Rightarrow> ActionRebindOptions \<Rightarrow> InputControl list \<Rightarrow> InputControl list \<Rightarrow> InputActivation set \<Rightarrow> ActionRebindCapture \<Rightarrow> bool" where
  "capture_of m act opts cc ic acts c \<longleftrightarrow> captureActivation c \<in> acts \<and> isAllowedCaptureActivation (captureActivation c) opts \<and>
    bindingAction (captureBindingValue c) = act \<and>
    primaryControl (combo (captureBindingValue c)) = activationControl (captureActivation c) \<and>
    activationControl (captureActivation c) \<notin> set cc \<union> set ic \<and>
    replaceExistingBindings c = optReplaceExisting opts \<and>
    (let r = validateBinding m (captureBindingValue c) (optReplaceExisting opts) in r = DuplicateBinding \<or> accepted r)"

lemma capture_of_build:
  assumes "captureResult (buildRebindCapture m act a (activationControl a) candidates opts cc ic) = Captured"
    and "a \<in> acts" "isAllowedCaptureActivation a opts" "activationControl a \<notin> set cc \<union> set ic"
  shows "capture_of m act opts cc ic acts (buildRebindCapture m act a (activationControl a) candidates opts cc ic)"
  using buildRebindCapture_captured [OF assms(1)] assms(2-) by (simp add: capture_of_def captured_binding_def Let_def)

lemma scanActivations_capture:
  assumes "captureResult (scanActivations m act s opts cc ic as best mv) = Captured" "set as \<subseteq> acts"
    and "\<And>a. best = Some a \<Longrightarrow> a \<in> acts \<and> isAllowedCaptureActivation a opts \<and> activationControl a \<notin> set cc \<union> set ic"
  shows "capture_of m act opts cc ic acts (scanActivations m act s opts cc ic as best mv)"
  using assms
proof (induction as arbitrary: best mv)
  case Nil
  then show ?case by (cases best) (auto intro!: capture_of_build simp: empty_capture_def)
next
  case (Cons a as)
  show ?case
  proof (cases "activationControl a \<in> set ic \<or> \<not> isAllowedCaptureActivation a opts")
    case True
    then show ?thesis using Cons by (auto simp: empty_capture_def split: if_splits)
  next
    case False
    have "captureResult (scanActivations m act s opts cc ic as best' mv') = Captured \<Longrightarrow>
        (\<And>a. best' = Some a \<Longrightarrow> a \<in> acts \<and> isAllowedCaptureActivation a opts \<and> activationControl a \<notin> set cc \<union> set ic) \<Longrightarrow>
        capture_of m act opts cc ic acts (scanActivations m act s opts cc ic as best' mv')" for best' mv'
      using Cons by simp
    then show ?thesis using Cons.prems False by (auto simp: empty_capture_def Let_def intro!: capture_of_build split: if_splits)
  qed
qed

lemma captureBinding_capture:
  assumes "captureResult (captureBinding m act s opts cc ic) = Captured"
  shows "capture_of m act opts cc ic (set (activations s)) (captureBinding m act s opts cc ic)"
  using assms by (auto simp: captureBinding_def empty_capture_def intro!: scanActivations_capture split: if_splits)

text \<open>In a session the primary control is the last button that was collected.\<close>

definition session_ok :: "ActionRebindSession \<Rightarrow> InputControl list \<Rightarrow> InputControl list \<Rightarrow> InputActivation set \<Rightarrow> bool" where
  "session_ok session cc ic acts \<longleftrightarrow> (hasPrimaryControl session \<longrightarrow>
     sessionActivation session \<in> acts \<and> isAllowedCaptureActivation (sessionActivation session) (sessionOptions session) \<and>
     sessionPrimary session = activationControl (sessionActivation session) \<and> sessionPrimary session \<notin> set cc \<union> set ic)"

lemma updateSession_capture:
  assumes "updateSession m s cc ic as session = (r, session', c)" "set as \<subseteq> acts" "session_ok session cc ic acts"
  shows "sessionOptions session' = sessionOptions session \<and> sessionAction session' = sessionAction session \<and> session_ok session' cc ic acts \<and>
    (r = Captured \<longrightarrow> captureResult c = Captured \<and> \<not> sessionActive session' \<and>
       capture_of m (sessionAction session) (sessionOptions session) cc ic acts c)"
  using assms
proof (induction as arbitrary: session)
  case Nil
  then show ?case by auto
next
  case (Cons a as)
  let ?opts = "sessionOptions session"
  have fin: "sessionOptions session' = sessionOptions session \<and> sessionAction session' = sessionAction session \<and> session_ok session' cc ic acts \<and>
      (r = Captured \<longrightarrow> captureResult c = Captured \<and> \<not> sessionActive session' \<and> capture_of m (sessionAction session) ?opts cc ic acts c)"
    if "finishSession (buildRebindCapture m (sessionAction session) x (activationControl x) candidates ?opts cc ic) session = (r, session', c)"
      "x \<in> acts" "isAllowedCaptureActivation x ?opts" "activationControl x \<notin> set cc \<union> set ic" for x candidates
    using that capture_of_build [of m "sessionAction session" x candidates ?opts cc ic acts] Cons.prems(3)
    by (auto simp: finishSession_def session_ok_def)
  show ?case
  proof (cases "activationControl a \<in> set cc \<or> activationControl a \<in> set ic")
    case True
    then show ?thesis using Cons by (auto simp: session_ok_def Let_def split: if_splits)
  next
    case ctl: False
    show ?thesis
    proof (cases "isAllowedCaptureActivation a ?opts")
      case True
      let ?new = "session\<lparr>sessionControls := pushUniqueControl (activationControl a) (sessionControls session),
        sessionPrimary := activationControl a, sessionActivation := a, hasPrimaryControl := True\<rparr>"
      have "session_ok ?new cc ic acts" using True ctl Cons.prems(2) by (simp add: session_ok_def)
      then show ?thesis
        using Cons.prems Cons.IH [of ?new] fin [of a "currentButtons s"] True ctl
        by (auto simp: Let_def session_ok_def split: if_splits)
    next
      case False
      then show ?thesis
        using Cons.prems Cons.IH [of session] fin [of "sessionActivation session" "sessionControls session"] ctl
        by (auto simp: Let_def session_ok_def split: if_splits)
    qed
  qed
qed

section \<open>Properties\<close>

text \<open>The checks a captured activation has passed, and what applying a capture does with and without replacement.\<close>

lemma allowed_capture:
  assumes "capture_of m act opts cc ic acts c"
  shows "\<exists>a \<in> acts. primaryControl (combo (captureBindingValue c)) = activationControl a \<and> activationControl a \<notin> set cc \<union> set ic \<and>
      activationType a \<noteq> ButtonReleased \<and>
      (hasDeviceFilter opts \<longrightarrow> InputDeviceRef (deviceType (activationControl a)) (deviceIndex (activationControl a)) = deviceFilter opts) \<and>
      (controlType (activationControl a) = Axis \<and> activationType a \<in> {AxisPositive, AxisNegative, AxisChanged} \<longrightarrow>
         float_ge (absoluteValue (activationValue a)) (axisActivationThreshold opts) \<and>
         float_ge (absoluteValue (float_sub (activationValue a) (previousValue a))) (axisNoiseThreshold opts))"
  using assms
  by (intro bexI [of _ "captureActivation c"])
     (auto simp: capture_of_def isAllowedCaptureActivation_def isCaptureActivation_def isAllowedCaptureDevice_def
       passesAxisCaptureThresholds_def isAxisActivation_def activation_movement_def)

lemma captured_replaces:
  assumes m: "store_ok m" and c: "capture_of m act opts cc ic acts c" "captureResult c = Captured" and r: "optReplaceExisting opts"
  shows "accepted (fst (applyCapturedBinding c m))"
    and "filter (\<lambda>(b, s). bindingAction b = act) (zip (bindings (snd (applyCapturedBinding c m))) (bindingStates (snd (applyCapturedBinding c m)))) =
      [(captureBindingValue c, default_binding_state)]"
    and "filter (\<lambda>(b, s). bindingAction b \<noteq> act) (zip (bindings (snd (applyCapturedBinding c m))) (bindingStates (snd (applyCapturedBinding c m)))) =
      filter (\<lambda>(b, s). bindingAction b \<noteq> act) (zip (bindings m) (bindingStates m))"
proof -
  let ?b = "captureBindingValue c" and ?cleared = "clearBindings act m"
  have ok: "accepted (validateBinding m ?b True)" and act: "bindingAction ?b = act" and rep: "replaceExistingBindings c"
    using c r no_duplicate_rival by (auto simp: capture_of_def Let_def)
  then have valid: "isValidAction m act" using validateBinding_accepted [of m ?b True] by (simp add: binding_fits_def)
  note cleared = clearBindings_store [OF m valid]
  have ap: "applyCapturedBinding c m = (validateBinding m ?b True, addBindingUnchecked ?b ?cleared)"
    using ok c(2) rep act by (auto simp: applyCapturedBinding_def Let_def)
  have z: "zip (bindings (snd (applyCapturedBinding c m))) (bindingStates (snd (applyCapturedBinding c m))) =
      filter (\<lambda>(b, s). bindingAction b \<noteq> act) (zip (bindings m) (bindingStates m)) @ [(?b, default_binding_state)]"
    using cleared(2,5) by (simp add: ap addBindingUnchecked_def zip_append)
  have none: "filter (\<lambda>(b, s). bindingAction b = act) (filter (\<lambda>(b, s). bindingAction b \<noteq> act) zs) = []"
    and same: "filter (\<lambda>(b, s). bindingAction b \<noteq> act) (filter (\<lambda>(b, s). bindingAction b \<noteq> act) zs) =
      filter (\<lambda>(b, s). bindingAction b \<noteq> act) zs" for zs :: "(ActionBinding \<times> RuntimeBindingState) list"
    by (induction zs) auto
  show "accepted (fst (applyCapturedBinding c m))" using ok by (simp add: ap)
  show "filter (\<lambda>(b, s). bindingAction b = act) (zip (bindings (snd (applyCapturedBinding c m))) (bindingStates (snd (applyCapturedBinding c m)))) =
      [(captureBindingValue c, default_binding_state)]"
    "filter (\<lambda>(b, s). bindingAction b \<noteq> act) (zip (bindings (snd (applyCapturedBinding c m))) (bindingStates (snd (applyCapturedBinding c m)))) =
      filter (\<lambda>(b, s). bindingAction b \<noteq> act) (zip (bindings m) (bindingStates m))"
    using act unfolding z filter_append none same by simp_all
qed

lemma captured_appends:
  assumes m: "store_ok m" and c: "capture_of m act opts cc ic acts c" "captureResult c = Captured" and r: "\<not> optReplaceExisting opts"
  shows "accepted (fst (applyCapturedBinding c m)) \<longleftrightarrow> \<not> (\<exists>e \<in> set (bindings m). areSameBinding e (captureBindingValue c))"
    and "snd (applyCapturedBinding c m) =
      (if accepted (fst (applyCapturedBinding c m))
       then m\<lparr>bindings := bindings m @ [captureBindingValue c], bindingStates := bindingStates m @ [default_binding_state]\<rparr> else m)"
proof -
  let ?b = "captureBindingValue c"
  have v: "validateBinding m ?b False = DuplicateBinding \<or> accepted (validateBinding m ?b False)" and rep: "\<not> replaceExistingBindings c"
    using c r by (auto simp: capture_of_def Let_def)
  have "accepted (validateBinding m ?b False) \<longleftrightarrow> \<not> (\<exists>e \<in> set (bindings m). areSameBinding e ?b)"
  proof
    show "\<not> (\<exists>e \<in> set (bindings m). areSameBinding e ?b)" if "accepted (validateBinding m ?b False)"
      using that validateBinding_accepted [of m ?b False] by (auto simp: rivals_def)
    show "accepted (validateBinding m ?b False)" if "\<not> (\<exists>e \<in> set (bindings m). areSameBinding e ?b)"
      using v that by (auto simp: validateBinding_def Let_def compareBindings_eq rivals_def split: if_splits)
  qed
  then show "accepted (fst (applyCapturedBinding c m)) \<longleftrightarrow> \<not> (\<exists>e \<in> set (bindings m). areSameBinding e ?b)"
    using c(2) rep by (auto simp: applyCapturedBinding_def Let_def)
  show "snd (applyCapturedBinding c m) =
      (if accepted (fst (applyCapturedBinding c m))
       then m\<lparr>bindings := bindings m @ [?b], bindingStates := bindingStates m @ [default_binding_state]\<rparr> else m)"
    using c(2) rep by (auto simp: applyCapturedBinding_def Let_def addBindingUnchecked_def)
qed

text \<open>
  C35: a binding captured from a frame's input, at once or in a session over frames, is for the requested action and for the control
  of an activation among that input: no button release, of the filtered device if there is a filter, strong enough and moved far
  enough if it is an axis, and neither a cancel nor an ignored control. With \<open>replaceExistingBindings\<close> applying it to the map
  always succeeds, leaves it as the action's only binding with fresh gesture state, and keeps every other action's bindings with
  theirs. Without, applying it appends it behind all existing bindings and their states, or leaves the map as it was exactly when
  the same binding is already there.
\<close>

theorem rebind_replaces:
  assumes m: "store_ok m" and captured: "captureResult c = Captured"
    and from_input: "c = captureBinding m act s opts cc ic \<and> acts = set (activations s) \<or>
      (\<exists>session session'. updateBindingCapture m s cc ic session = (Captured, session', c) \<and> sessionAction session = act \<and>
         sessionOptions session = opts \<and> session_ok session cc ic acts \<and> set (activations s) \<subseteq> acts)"
  shows "(\<exists>a \<in> acts. primaryControl (combo (captureBindingValue c)) = activationControl a \<and> activationControl a \<notin> set cc \<union> set ic \<and>
      activationType a \<noteq> ButtonReleased \<and>
      (hasDeviceFilter opts \<longrightarrow> InputDeviceRef (deviceType (activationControl a)) (deviceIndex (activationControl a)) = deviceFilter opts) \<and>
      (controlType (activationControl a) = Axis \<and> activationType a \<in> {AxisPositive, AxisNegative, AxisChanged} \<longrightarrow>
         float_ge (absoluteValue (activationValue a)) (axisActivationThreshold opts) \<and>
         float_ge (absoluteValue (float_sub (activationValue a) (previousValue a))) (axisNoiseThreshold opts))) \<and>
    bindingAction (captureBindingValue c) = act \<and>
    (optReplaceExisting opts \<longrightarrow> accepted (fst (applyCapturedBinding c m)) \<and>
      filter (\<lambda>(b, s). bindingAction b = act) (zip (bindings (snd (applyCapturedBinding c m))) (bindingStates (snd (applyCapturedBinding c m)))) =
        [(captureBindingValue c, default_binding_state)] \<and>
      filter (\<lambda>(b, s). bindingAction b \<noteq> act) (zip (bindings (snd (applyCapturedBinding c m))) (bindingStates (snd (applyCapturedBinding c m)))) =
        filter (\<lambda>(b, s). bindingAction b \<noteq> act) (zip (bindings m) (bindingStates m))) \<and>
    (\<not> optReplaceExisting opts \<longrightarrow>
      (accepted (fst (applyCapturedBinding c m)) \<longleftrightarrow> \<not> (\<exists>e \<in> set (bindings m). areSameBinding e (captureBindingValue c))) \<and>
      snd (applyCapturedBinding c m) =
        (if accepted (fst (applyCapturedBinding c m))
         then m\<lparr>bindings := bindings m @ [captureBindingValue c], bindingStates := bindingStates m @ [default_binding_state]\<rparr> else m)) \<and>
    store_ok (snd (applyCapturedBinding c m))"
proof -
  have c: "capture_of m act opts cc ic acts c"
    using from_input captured captureBinding_capture [of m act s opts cc ic] updateSession_capture [of m s cc ic "activations s"]
    by (auto simp: updateBindingCapture_def split: if_splits)
  then have act: "bindingAction (captureBindingValue c) = act" by (simp add: capture_of_def)
  show ?thesis
    by (intro conjI impI allowed_capture [OF c] act captured_replaces [OF m c captured] captured_appends [OF m c captured]
        applyCapturedBinding_ok [OF m]) simp_all
qed

definition rebind_options :: ActionRebindOptions where
  "rebind_options = \<lparr>optTrigger = PressedTrigger, optComponent = ScalarComponent, optScale = float_one, optThreshold = Fin 0,
     optHoldSeconds = Fin 0, optDoubleTapSeconds = Fin 0, optActivationMode = PrimaryLast, modifierMode = KeyboardModifiersOnly,
     completionMode = OnActivation, axisCaptureMode = FullAxis, deviceFilter = InputDeviceRef Keyboard 0, hasDeviceFilter = False,
     axisActivationThreshold = half, axisNoiseThreshold = Fin 0, optSettings = default_settings ButtonKind,
     optHasCustomSettings = False, optReplaceExisting = True\<rparr>"

theorem rebind_replaces_witness:
  "primaryControl (combo (captureBindingValue (captureBinding (newActionMap 2) 1
     (setButtonInternal (makeKeyboardKey 5) True (setButtonInternal (makeKeyboardKey 0xE0) True initial_input)) rebind_options [] []))) = makeKeyboardKey 5 \<and>
   accepted (fst (applyCapturedBinding (captureBinding (newActionMap 2) 1
     (setButtonInternal (makeKeyboardKey 5) True (setButtonInternal (makeKeyboardKey 0xE0) True initial_input)) rebind_options [] []) (newActionMap 2)))"
proof -
  let ?s = "setButtonInternal (makeKeyboardKey 5) True (setButtonInternal (makeKeyboardKey 0xE0) True initial_input)"
  let ?c = "captureBinding (newActionMap 2) 1 ?s rebind_options [] []"
  have c: "captureResult ?c = Captured" "primaryControl (combo (captureBindingValue ?c)) = makeKeyboardKey 5" by code_simp+
  have r: "optReplaceExisting rebind_options" by (simp add: rebind_options_def)
  from rebind_replaces [OF store_ok_new c(1) disjI1 [OF conjI [OF refl refl]]] c(2) r show ?thesis by blast
qed

end
