(* ===== verification/Action_Evaluate.thy ===== *)
theory Action_Evaluate
  imports Action_Bindings
begin

text \<open>
  Frame evaluation of \<^verbatim>\<open>engine/action/internal/action_map.inl\<close>: the gesture of every binding, the collection of values in
  buckets per action, device and settings, the choice between buckets, and the queries.
\<close>

section \<open>Frames\<close>

definition advance_state :: "ActionState \<Rightarrow> ActionState" where
  "advance_state s = s\<lparr>actionPressed := False, actionReleased := False, actionDown := False, actionValue := zero_value\<rparr>"

definition ActionMap_advanceFrame :: "ActionMap \<Rightarrow> ActionMap" where
  "ActionMap_advanceFrame m = m\<lparr>actionStates := map advance_state (actionStates m), textSnapshot := [], mouseDeltaXSnapshot := 0,
     mouseDeltaYSnapshot := 0, verticalWheelSnapshot := Fin 0, horizontalWheelSnapshot := Fin 0\<rparr>"

definition copyInputSnapshot :: "InputState \<Rightarrow> ActionMap \<Rightarrow> ActionMap" where
  "copyInputSnapshot s m = m\<lparr>textSnapshot := textInputUtf8 s, mouseDeltaXSnapshot := mouseDeltaX s, mouseDeltaYSnapshot := mouseDeltaY s,
     mouseKnownSnapshot := mousePositionKnown s, mouseXSnapshot := mouseX s, mouseYSnapshot := mouseY s,
     verticalWheelSnapshot := getWheelDelta s (makeMouseWheel VerticalWheel),
     horizontalWheelSnapshot := getWheelDelta s (makeMouseWheel HorizontalWheel)\<rparr>"

section \<open>Gestures\<close>

definition areModifiersDown :: "InputState \<Rightarrow> ActionCombo \<Rightarrow> bool" where
  "areModifiersDown s c = list_all (isButtonDown s) (modifiers c)"

definition isComboDown :: "InputState \<Rightarrow> ActionCombo \<Rightarrow> bool" where
  "isComboDown s c \<longleftrightarrow> isButtonDown s (primaryControl c) \<and> areModifiersDown s c"

definition wasPrimaryPressed :: "InputState \<Rightarrow> ActionCombo \<Rightarrow> bool" where
  "wasPrimaryPressed s c \<longleftrightarrow> wasButtonPressed s (primaryControl c) \<and> areModifiersDown s c"

text \<open>What one binding contributes to a frame, with its state afterwards.\<close>

record GestureOutcome =
  outDown :: bool
  outPressed :: bool
  outReleased :: bool
  outContributes :: bool
  outValue :: float32
  outState :: RuntimeBindingState

definition startsThisFrame :: "InputState \<Rightarrow> ActionCombo \<Rightarrow> bool \<Rightarrow> bool" where
  "startsThisFrame s c wasActive =
    (if activationMode c = AnyOrder then isComboDown s c \<and> \<not> wasActive else wasPrimaryPressed s c)"

definition nextBindingActive :: "InputState \<Rightarrow> ActionCombo \<Rightarrow> bool \<Rightarrow> bool" where
  "nextBindingActive s c wasActive \<longleftrightarrow> isComboDown s c \<and>
    (if activationMode c = AnyOrder then True else wasActive \<or> startsThisFrame s c wasActive)"

definition stopsThisFrame :: "InputState \<Rightarrow> ActionCombo \<Rightarrow> bool \<Rightarrow> bool" where
  "stopsThisFrame s c wasActive \<longleftrightarrow> wasActive \<and> \<not> nextBindingActive s c wasActive"

definition outcome :: "bool \<Rightarrow> bool \<Rightarrow> bool \<Rightarrow> RuntimeBindingState \<Rightarrow> GestureOutcome" where
  "outcome d p r st = \<lparr>outDown = d, outPressed = p, outReleased = r, outContributes = False, outValue = float_one, outState = st\<rparr>"

definition tapStep :: "bool \<Rightarrow> bool \<Rightarrow> bool \<Rightarrow> float32 \<Rightarrow> RuntimeBindingState \<Rightarrow> GestureOutcome" where
  "tapStep nextActive stops matchingHold frameSeconds st =
    (let st = (if nextActive then st\<lparr>heldSeconds := float_add (heldSeconds st) frameSeconds\<rparr> else st);
         fires = (stops \<and> \<not> matchingHold);
         st = (if \<not> nextActive then st\<lparr>heldSeconds := Fin 0\<rparr> else st) in
     outcome fires fires False st)"

definition holdStep :: "bool \<Rightarrow> bool \<Rightarrow> bool \<Rightarrow> float32 \<Rightarrow> float32 \<Rightarrow> RuntimeBindingState \<Rightarrow> GestureOutcome" where
  "holdStep starts nextActive stops seconds frameSeconds st =
    (let st = (if starts then st\<lparr>heldSeconds := Fin 0, holdFired := False\<rparr> else st) in
     if nextActive
     then let st = st\<lparr>heldSeconds := float_add (heldSeconds st) frameSeconds\<rparr>;
              fires = (\<not> holdFired st \<and> float_ge (heldSeconds st) seconds);
              st = (if fires then st\<lparr>holdFired := True\<rparr> else st) in
       outcome (holdFired st) fires False st
     else outcome False False (stops \<and> holdFired st) (st\<lparr>heldSeconds := Fin 0\<rparr>))"

definition doubleTapStep :: "bool \<Rightarrow> bool \<Rightarrow> float32 \<Rightarrow> float32 \<Rightarrow> RuntimeBindingState \<Rightarrow> GestureOutcome" where
  "doubleTapStep modifiersDown stops seconds frameSeconds st =
    (let st = (if waitingForSecondTap st
               then let st = st\<lparr>timeSinceLastTap := float_add (timeSinceLastTap st) frameSeconds\<rparr> in
                 if \<not> modifiersDown \<or> float_gt (timeSinceLastTap st) seconds
                 then st\<lparr>waitingForSecondTap := False, timeSinceLastTap := Fin 0\<rparr> else st
               else st) in
     if stops
     then (if waitingForSecondTap st
           then outcome True True False (st\<lparr>waitingForSecondTap := False, timeSinceLastTap := Fin 0\<rparr>)
           else outcome False False False (st\<lparr>waitingForSecondTap := True, timeSinceLastTap := Fin 0\<rparr>))
     else outcome False False False st)"

definition gestureStep :: "InputState \<Rightarrow> float32 \<Rightarrow> bool \<Rightarrow> ActionBinding \<Rightarrow> RuntimeBindingState \<Rightarrow> GestureOutcome" where
  "gestureStep s frameSeconds matchingHold b st =
    (let c = combo b; wasActive = bindingActive st; starts = startsThisFrame s c wasActive; nextActive = nextBindingActive s c wasActive;
         stops = stopsThisFrame s c wasActive;
         finish = (\<lambda>out. out\<lparr>outState := (outState out)\<lparr>bindingActive := nextActive\<rparr>\<rparr>) in
     case trigger (gesture b) of
       PressedTrigger \<Rightarrow> finish (outcome starts starts False st)
     | ReleasedTrigger \<Rightarrow> finish (outcome stops False stops st)
     | DownTrigger \<Rightarrow> finish (outcome nextActive starts stops st)
     | TapTrigger \<Rightarrow> finish (tapStep nextActive stops matchingHold frameSeconds st)
     | HoldTrigger \<Rightarrow> finish (holdStep starts nextActive stops (holdSeconds (gesture b)) frameSeconds st)
     | DoubleTapTrigger \<Rightarrow> finish (doubleTapStep (areModifiersDown s c) stops (doubleTapSeconds (gesture b)) frameSeconds st)
     | ValueTrigger \<Rightarrow>
         let rawValue = bindingControlValue s (primaryControl c);
             active = (areModifiersDown s c \<and> passesThreshold rawValue (threshold (valueMapping b))) in
         if isButtonControl (primaryControl c)
         then (finish (outcome False False False st))\<lparr>outContributes := nextActive, outValue := float_one\<rparr>
         else (outcome False False False (st\<lparr>bindingActive := active\<rparr>))\<lparr>outContributes := active, outValue := rawValue\<rparr>)"

section \<open>Value buckets\<close>

record ValueBucket =
  bucketAction :: nat
  bucketDeviceType :: InputDeviceType
  bucketDeviceIndex :: DeviceIndex
  bucketSettings :: ActionSettings
  bucketValue :: ActionValue
  lastChangeSequence :: "64 word"

definition isSameValueBucket :: "ActionBinding \<Rightarrow> ActionSettings \<Rightarrow> ValueBucket \<Rightarrow> bool" where
  "isSameValueBucket b st k \<longleftrightarrow> bucketAction k = bindingAction b \<and>
    bucketDeviceType k = deviceType (primaryControl (combo b)) \<and> bucketDeviceIndex k = deviceIndex (primaryControl (combo b)) \<and>
    areSameActionSettings (bucketSettings k) st"

definition addToBucket :: "ActionBinding \<Rightarrow> float32 \<Rightarrow> 64 word \<Rightarrow> ValueBucket \<Rightarrow> ValueBucket" where
  "addToBucket b v sequence k =
    (let k = (if sequence > lastChangeSequence k then k\<lparr>lastChangeSequence := sequence\<rparr> else k);
         scaledValue = float_mul v (scale (valueMapping b)); old = bucketValue k in
     case component (valueMapping b) of
       ScalarComponent \<Rightarrow> k\<lparr>bucketValue := old\<lparr>scalarValue := float_add (scalarValue old) scaledValue\<rparr>\<rparr>
     | XComponent \<Rightarrow> k\<lparr>bucketValue := old\<lparr>xValue := float_add (xValue old) scaledValue\<rparr>\<rparr>
     | YComponent \<Rightarrow> k\<lparr>bucketValue := old\<lparr>yValue := float_add (yValue old) scaledValue\<rparr>\<rparr>)"

definition new_bucket :: "ActionBinding \<Rightarrow> ActionSettings \<Rightarrow> ValueBucket" where
  "new_bucket b st = \<lparr>bucketAction = bindingAction b, bucketDeviceType = deviceType (primaryControl (combo b)),
     bucketDeviceIndex = deviceIndex (primaryControl (combo b)), bucketSettings = st, bucketValue = zero_value, lastChangeSequence = 0\<rparr>"

text \<open>The first bucket that matches takes the value, or a new one at the end.\<close>

fun addValueToBucket :: "ActionBinding \<Rightarrow> ActionSettings \<Rightarrow> float32 \<Rightarrow> 64 word \<Rightarrow> ValueBucket list \<Rightarrow> ValueBucket list" where
  "addValueToBucket b st v sequence [] = [addToBucket b v sequence (new_bucket b st)]"
| "addValueToBucket b st v sequence (k # ks) =
    (if isSameValueBucket b st k then addToBucket b v sequence k # ks else k # addValueToBucket b st v sequence ks)"

section \<open>Evaluation\<close>

text \<open>Change order: one new number per activation that concerns a value binding, given to all of its bindings.\<close>

fun markBindings ::
  "InputControl \<Rightarrow> ActionBinding list \<Rightarrow> RuntimeBindingState list \<Rightarrow> 64 word \<Rightarrow> 64 word \<Rightarrow> RuntimeBindingState list \<times> 64 word" where
  "markBindings c (b # bs) (st # sts) activationSequence counter =
    (if trigger (gesture b) \<noteq> ValueTrigger \<or> primaryControl (combo b) \<noteq> c
     then case markBindings c bs sts activationSequence counter of (sts, counter) \<Rightarrow> (st # sts, counter)
     else let counter = (if activationSequence = 0 then counter + 1 else counter);
              activationSequence = (if activationSequence = 0 then counter else activationSequence) in
       case markBindings c bs sts activationSequence counter of
         (sts, counter) \<Rightarrow> (st\<lparr>changeSequence := activationSequence\<rparr> # sts, counter))"
| "markBindings c bs sts activationSequence counter = (sts, counter)"

definition markActivation :: "InputActivation \<Rightarrow> ActionMap \<Rightarrow> ActionMap" where
  "markActivation a m =
    (case markBindings (activationControl a) (bindings m) (bindingStates m) 0 (valueChangeSequence m) of
       (sts, counter) \<Rightarrow> m\<lparr>bindingStates := sts, valueChangeSequence := counter\<rparr>)"

definition mouseAxisChanged :: "InputState \<Rightarrow> ActionBinding \<Rightarrow> bool" where
  "mouseAxisChanged s b \<longleftrightarrow> trigger (gesture b) = ValueTrigger \<and>
    (isMouseAxis (primaryControl (combo b)) DeltaX \<and> mouseDeltaX s \<noteq> 0 \<or> isMouseAxis (primaryControl (combo b)) DeltaY \<and> mouseDeltaY s \<noteq> 0)"

fun markMouse :: "InputState \<Rightarrow> ActionBinding list \<Rightarrow> RuntimeBindingState list \<Rightarrow> 64 word \<Rightarrow> RuntimeBindingState list \<times> 64 word" where
  "markMouse s (b # bs) (st # sts) counter =
    (if mouseAxisChanged s b
     then case markMouse s bs sts (counter + 1) of (sts, counter') \<Rightarrow> (st\<lparr>changeSequence := counter + 1\<rparr> # sts, counter')
     else case markMouse s bs sts counter of (sts, counter) \<Rightarrow> (st # sts, counter))"
| "markMouse s bs sts counter = (sts, counter)"

definition markChanges :: "InputState \<Rightarrow> ActionMap \<Rightarrow> ActionMap" where
  "markChanges s m =
    (let m = foldl (\<lambda>m a. markActivation a m) m (activations s) in
     case markMouse s (bindings m) (bindingStates m) (valueChangeSequence m) of
       (sts, counter) \<Rightarrow> m\<lparr>bindingStates := sts, valueChangeSequence := counter\<rparr>)"

definition hasMatchingHoldFired :: "ActionMap \<Rightarrow> nat \<Rightarrow> bool" where
  "hasMatchingHoldFired m i =
    (if i \<ge> length (bindings m) then False
     else list_ex (\<lambda>j. j \<noteq> i \<and> trigger (gesture (bindings m ! j)) = HoldTrigger \<and>
       areSameCombo (combo (bindings m ! j)) (combo (bindings m ! i)) \<and> holdFired (bindingStates m ! j)) [0..<length (bindings m)])"

definition applyOutcome :: "GestureOutcome \<Rightarrow> ActionState \<Rightarrow> ActionState" where
  "applyOutcome out st = st\<lparr>actionPressed := actionPressed st \<or> outPressed out, actionReleased := actionReleased st \<or> outReleased out,
     actionDown := actionDown st \<or> outDown out\<rparr>"

definition evaluateBinding :: "InputState \<Rightarrow> float32 \<Rightarrow> nat \<Rightarrow> ActionMap \<times> ValueBucket list \<Rightarrow> ActionMap \<times> ValueBucket list" where
  "evaluateBinding s frameSeconds i mk =
    (case mk of (m, buckets) \<Rightarrow>
       let b = bindings m ! i; st = bindingStates m ! i; a = bindingAction b in
       if \<not> isValidAction m a then (m, buckets)
       else let out = gestureStep s frameSeconds (hasMatchingHoldFired m i) b st in
         (m\<lparr>actionStates := (actionStates m)[a := applyOutcome out (actionStates m ! a)], bindingStates := (bindingStates m)[i := outState out]\<rparr>,
          if outContributes out
          then addValueToBucket b (getBindingSettings b (actionKinds m ! a)) (outValue out) (changeSequence st) buckets
          else buckets))"

definition evaluateBindings :: "InputState \<Rightarrow> float32 \<Rightarrow> ActionMap \<Rightarrow> ActionMap \<times> ValueBucket list" where
  "evaluateBindings s frameSeconds m = fold (evaluateBinding s frameSeconds) [0..<length (bindings m)] (m, [])"

definition processAxis1D :: "pow_function \<Rightarrow> ActionSettings \<Rightarrow> float32 \<Rightarrow> float32" where
  "processAxis1D powf st v =
    (let v = (if deadzoneMode st \<noteq> NoDeadzone then applyDeadzone1D v (innerDeadzone st) (outerDeadzone st) else v);
         v = float_mul (applyCurve1D powf v (curveExponent st)) (sensitivity st);
         v = (if invert st then float_neg v else v) in
     if clampValue st then clamp v (float_neg float_one) float_one else v)"

definition processAxis2D :: "pow_function \<Rightarrow> ActionSettings \<Rightarrow> float32 \<times> float32 \<Rightarrow> float32 \<times> float32" where
  "processAxis2D powf st xy =
    (let xy = (case deadzoneMode st of
                 Axial \<Rightarrow> applyAxialDeadzone2D xy (innerDeadzone st) (outerDeadzone st)
               | Radial \<Rightarrow> applyRadialDeadzone2D xy (innerDeadzone st) (outerDeadzone st)
               | NoDeadzone \<Rightarrow> xy);
         (x, y) = applyCurve2D powf xy (curveExponent st);
         x = float_mul x (sensitivity st); y = float_mul y (sensitivity st);
         x = (if invertX st then float_neg x else x); y = (if invertY st then float_neg y else y);
         xy = (if normalizeDiagonal st then clampVectorLength (x, y) float_one else (x, y)) in
     if clampValue st then clampVectorLength xy float_one else xy)"

text \<open>The selection state: the action states, which actions have an active value, and the sequence of the selected value.\<close>

type_synonym selection = "ActionState list \<times> bool list \<times> 64 word list"

definition selectBucket :: "pow_function \<Rightarrow> ActionMap \<Rightarrow> ValueBucket \<Rightarrow> selection \<Rightarrow> selection" where
  "selectBucket powf m k sel =
    (case sel of (states, active, sequences) \<Rightarrow>
       if \<not> isValidAction m (bucketAction k) then sel
       else let a = bucketAction k; state = states ! a; st = bucketSettings k; old = actionValue state in
       case settingsKind st of
         Axis1D \<Rightarrow>
           let v = processAxis1D powf st (scalarValue (bucketValue k));
               chosen = shouldChooseValueCandidate (absoluteValue (scalarValue old)) (sequences ! a) (absoluteValue v) (lastChangeSequence k) in
           (if chosen then states[a := state\<lparr>actionValue := old\<lparr>scalarValue := v\<rparr>\<rparr>] else states,
            if float_gt (absoluteValue v) (activationThreshold st) then active[a := True] else active,
            if chosen then sequences[a := lastChangeSequence k] else sequences)
       | Axis2D \<Rightarrow>
           let (x, y) = processAxis2D powf st (xValue (bucketValue k), yValue (bucketValue k));
               chosen = shouldChooseValueCandidate (getVectorLength (xValue old) (yValue old)) (sequences ! a) (getVectorLength x y) (lastChangeSequence k) in
           (if chosen then states[a := state\<lparr>actionValue := old\<lparr>xValue := x, yValue := y\<rparr>\<rparr>] else states,
            if float_gt (getVectorLength x y) (activationThreshold st) then active[a := True] else active,
            if chosen then sequences[a := lastChangeSequence k] else sequences)
       | ButtonKind \<Rightarrow> sel)"

definition finishValue :: "ActionKind \<Rightarrow> bool \<Rightarrow> ActionState \<Rightarrow> ActionState" where
  "finishValue kind isActive st =
    (if kind = ButtonKind then st
     else st\<lparr>actionDown := actionDown st \<or> isActive, actionPressed := actionPressed st \<or> isActive \<and> \<not> valueActive st,
             actionReleased := actionReleased st \<or> \<not> isActive \<and> valueActive st, valueActive := isActive\<rparr>)"

definition selectValues :: "pow_function \<Rightarrow> ValueBucket list \<Rightarrow> ActionMap \<Rightarrow> ActionMap" where
  "selectValues powf buckets m =
    (case fold (selectBucket powf m) buckets (actionStates m, replicate (length (actionStates m)) False, replicate (length (actionStates m)) 0) of
       (states, active, sequences) \<Rightarrow>
         m\<lparr>actionStates := map (\<lambda>a. finishValue (actionKinds m ! a) (active ! a) (states ! a)) [0..<length states]\<rparr>)"

definition evaluate :: "pow_function \<Rightarrow> InputState \<Rightarrow> float32 \<Rightarrow> ActionMap \<Rightarrow> ActionMap" where
  "evaluate powf s deltaSeconds m =
    (let frameSeconds = (if float_gt deltaSeconds (Fin 0) then deltaSeconds else Fin 0) in
     case evaluateBindings s frameSeconds (markChanges s (copyInputSnapshot s m)) of (m, buckets) \<Rightarrow> selectValues powf buckets m)"

section \<open>Queries\<close>

definition isDown :: "ActionMap \<Rightarrow> nat \<Rightarrow> bool" where
  "isDown m a = (if \<not> isValidAction m a then False else actionDown (actionStates m ! a))"

definition wasPressed :: "ActionMap \<Rightarrow> nat \<Rightarrow> bool" where
  "wasPressed m a = (if \<not> isValidAction m a then False else actionPressed (actionStates m ! a))"

definition wasReleased :: "ActionMap \<Rightarrow> nat \<Rightarrow> bool" where
  "wasReleased m a = (if \<not> isValidAction m a then False else actionReleased (actionStates m ! a))"

definition getValue :: "ActionMap \<Rightarrow> nat \<Rightarrow> float32" where
  "getValue m a = (if \<not> isValidAction m a then Fin 0 else scalarValue (actionValue (actionStates m ! a)))"

definition getValueX :: "ActionMap \<Rightarrow> nat \<Rightarrow> float32" where
  "getValueX m a = (if \<not> isValidAction m a then Fin 0 else xValue (actionValue (actionStates m ! a)))"

definition getValueY :: "ActionMap \<Rightarrow> nat \<Rightarrow> float32" where
  "getValueY m a = (if \<not> isValidAction m a then Fin 0 else yValue (actionValue (actionStates m ! a)))"

definition getMouseWheelDelta :: "ActionMap \<Rightarrow> MouseWheel \<Rightarrow> float32" where
  "getMouseWheelDelta m w = (case w of VerticalWheel \<Rightarrow> verticalWheelSnapshot m | HorizontalWheel \<Rightarrow> horizontalWheelSnapshot m)"

section \<open>Change numbers do not influence gestures\<close>

abbreviation numbered :: "64 word \<Rightarrow> RuntimeBindingState \<Rightarrow> RuntimeBindingState" where
  "numbered n st \<equiv> st\<lparr>changeSequence := n\<rparr>"

definition same_gesture_state :: "RuntimeBindingState \<Rightarrow> RuntimeBindingState \<Rightarrow> bool" where
  "same_gesture_state s t \<longleftrightarrow> numbered 0 s = numbered 0 t"

lemma same_gesture_numbered [simp]: "same_gesture_state (numbered n s) t = same_gesture_state s t"
  by (simp add: same_gesture_state_def)

lemma same_gesture_refl [simp]: "same_gesture_state s s"
  by (simp add: same_gesture_state_def)

lemma same_gesture_trans: "same_gesture_state s t \<Longrightarrow> same_gesture_state t u \<Longrightarrow> same_gesture_state s u"
  by (simp add: same_gesture_state_def)

lemma same_gesture_fields:
  assumes "same_gesture_state s t"
  shows "bindingActive s = bindingActive t" "holdFired s = holdFired t" "heldSeconds s = heldSeconds t"
    "timeSinceLastTap s = timeSinceLastTap t" "waitingForSecondTap s = waitingForSecondTap t"
  using assms by (cases s; cases t; simp add: same_gesture_state_def)+

lemma outcome_simps [simp]:
  "outDown (outcome d p r st) = d" "outPressed (outcome d p r st) = p" "outReleased (outcome d p r st) = r"
  "outContributes (outcome d p r st) = False" "outState (outcome d p r st) = st"
  by (simp_all add: outcome_def)

lemma gestureStep_numbered:
  "outState (gestureStep s t h b (numbered n st)) = numbered n (outState (gestureStep s t h b st))"
  "outDown (gestureStep s t h b (numbered n st)) = outDown (gestureStep s t h b st)"
  "outPressed (gestureStep s t h b (numbered n st)) = outPressed (gestureStep s t h b st)"
  "outReleased (gestureStep s t h b (numbered n st)) = outReleased (gestureStep s t h b st)"
  by (cases "trigger (gesture b)"; simp add: gestureStep_def tapStep_def holdStep_def doubleTapStep_def Let_def)+

lemma gestureStep_same:
  assumes "same_gesture_state s t"
  shows "same_gesture_state (outState (gestureStep i f h b s)) (outState (gestureStep i f h b t))"
    "outDown (gestureStep i f h b s) = outDown (gestureStep i f h b t)"
    "outPressed (gestureStep i f h b s) = outPressed (gestureStep i f h b t)"
    "outReleased (gestureStep i f h b s) = outReleased (gestureStep i f h b t)"
  using assms gestureStep_numbered [of i f h b 0 s] gestureStep_numbered [of i f h b 0 t]
  by (simp_all add: same_gesture_state_def)

lemma markBindings_same:
  "list_all2 same_gesture_state (fst (markBindings c bs sts n k)) sts"
proof (induction c bs sts n k rule: markBindings.induct)
  case (1 c b bs st sts n k)
  then show ?case by (auto simp: Let_def list_all2_refl split: prod.splits)
qed (simp_all add: list_all2_refl)

lemma markMouse_same: "list_all2 same_gesture_state (fst (markMouse s bs sts k)) sts"
proof (induction s bs sts k rule: markMouse.induct)
  case (1 s b bs st sts k)
  then show ?case by (auto split: prod.splits)
qed (simp_all add: list_all2_refl)

definition same_store :: "ActionMap \<Rightarrow> ActionMap \<Rightarrow> bool" where
  "same_store m m' \<longleftrightarrow> bindings m' = bindings m \<and> actionKinds m' = actionKinds m \<and> actionStates m' = actionStates m \<and>
    list_all2 same_gesture_state (bindingStates m') (bindingStates m)"

lemma same_store_refl [simp]: "same_store m m"
  by (simp add: same_store_def list_all2_refl)

lemma same_store_trans: "same_store l m \<Longrightarrow> same_store m r \<Longrightarrow> same_store l r"
  unfolding same_store_def using list_all2_trans [of same_gesture_state same_gesture_state same_gesture_state]
  by (metis same_gesture_trans)

lemma same_store_markActivation: "same_store m (markActivation a m)"
  using markBindings_same [of "activationControl a" "bindings m" "bindingStates m" 0 "valueChangeSequence m"]
  by (simp add: same_store_def markActivation_def split_beta)

lemma same_store_markActivations: "same_store m (foldl (\<lambda>m a. markActivation a m) m as)"
proof (induction as arbitrary: m)
  case (Cons a as)
  show ?case using same_store_trans [OF same_store_markActivation Cons.IH] by simp
qed simp

lemma same_store_markChanges: "same_store m (markChanges s m)"
proof -
  let ?m = "foldl (\<lambda>m a. markActivation a m) m (activations s)"
  have "same_store ?m (markChanges s m)"
    using markMouse_same [of s "bindings ?m" "bindingStates ?m" "valueChangeSequence ?m"]
    by (simp add: same_store_def markChanges_def Let_def split_beta)
  with same_store_markActivations show ?thesis by (rule same_store_trans)
qed

lemma same_store_snapshot: "same_store m (copyInputSnapshot s m)"
  by (simp add: same_store_def copyInputSnapshot_def list_all2_refl)

section \<open>Evaluation is the gestures of the bindings\<close>

abbreviation evaluated :: "InputState \<Rightarrow> float32 \<Rightarrow> ActionMap \<Rightarrow> nat \<Rightarrow> ActionMap" where
  "evaluated s t m k \<equiv> fst (fold (evaluateBinding s t) [0..<k] (m, []))"

text \<open>The outcome of binding \<open>i\<close>: its gesture, given the hold flags at its turn.\<close>

definition binding_outcome :: "InputState \<Rightarrow> float32 \<Rightarrow> ActionMap \<Rightarrow> nat \<Rightarrow> GestureOutcome" where
  "binding_outcome s t m i = gestureStep s t (hasMatchingHoldFired (evaluated s t m i) i) (bindings m ! i) (bindingStates m ! i)"

lemma fold_upt_Suc: "fold f [0..<Suc k] x = f k (fold f [0..<k] x)"
  by simp

lemma evaluateBinding_store:
  "bindings (fst (evaluateBinding s t i mk)) = bindings (fst mk)" "actionKinds (fst (evaluateBinding s t i mk)) = actionKinds (fst mk)"
  "length (actionStates (fst (evaluateBinding s t i mk))) = length (actionStates (fst mk))"
  "length (bindingStates (fst (evaluateBinding s t i mk))) = length (bindingStates (fst mk))"
  by (cases mk; simp add: evaluateBinding_def Let_def)+

lemma evaluated_store:
  "bindings (evaluated s t m k) = bindings m" "actionKinds (evaluated s t m k) = actionKinds m"
  "length (actionStates (evaluated s t m k)) = length (actionStates m)" "length (bindingStates (evaluated s t m k)) = length (bindingStates m)"
  by (induction k) (simp_all add: evaluateBinding_store del: upt.simps add: fold_upt_Suc)

lemma evaluated_states:
  assumes "store_ok m" "k \<le> length (bindings m)" "i < length (bindings m)"
  shows "bindingStates (evaluated s t m k) ! i =
    (if i < k \<and> isValidAction m (bindingAction (bindings m ! i)) then outState (binding_outcome s t m i) else bindingStates m ! i)"
  using assms(2)
proof (induction k)
  case (Suc k)
  let ?mk = "fold (evaluateBinding s t) [0..<k] (m, [])"
  have len: "length (bindingStates (fst ?mk)) = length (bindings m)" using assms(1) evaluated_store(4) [of s t k m] by (simp add: store_ok_def)
  have valid: "isValidAction (fst ?mk) = isValidAction m" by (simp add: isValidAction_def evaluated_store fun_eq_iff)
  have self: "bindingStates (fst ?mk) ! k = bindingStates m ! k" if "i = k" using Suc that assms(3) by simp
  have "bindingStates (fst (evaluateBinding s t k ?mk)) =
      (if isValidAction m (bindingAction (bindings m ! k))
       then (bindingStates (fst ?mk))[k := outState (gestureStep s t (hasMatchingHoldFired (fst ?mk) k) (bindings m ! k) (bindingStates (fst ?mk) ! k))]
       else bindingStates (fst ?mk))"
    by (cases ?mk) (use valid evaluated_store(1) [of s t k m] in \<open>simp add: evaluateBinding_def Let_def\<close>)
  then show ?case using Suc assms(3) len self
    by (auto simp: binding_outcome_def fold_upt_Suc nth_list_update less_Suc_eq simp del: upt.simps)
qed simp

definition concerns :: "ActionMap \<Rightarrow> nat \<Rightarrow> nat \<Rightarrow> bool" where
  "concerns m a i \<longleftrightarrow> bindingAction (bindings m ! i) = a"

lemma evaluated_actions:
  assumes m: "store_ok m" and k: "k \<le> length (bindings m)" and a: "isValidAction m a"
  shows "actionStates (evaluated s t m k) ! a = (actionStates m ! a)\<lparr>
    actionPressed := actionPressed (actionStates m ! a) \<or> (\<exists>i < k. concerns m a i \<and> outPressed (binding_outcome s t m i)),
    actionReleased := actionReleased (actionStates m ! a) \<or> (\<exists>i < k. concerns m a i \<and> outReleased (binding_outcome s t m i)),
    actionDown := actionDown (actionStates m ! a) \<or> (\<exists>i < k. concerns m a i \<and> outDown (binding_outcome s t m i))\<rparr>"
  using k
proof (induction k)
  case 0
  then show ?case by simp
next
  case (Suc k)
  let ?mk = "fold (evaluateBinding s t) [0..<k] (m, [])" and ?b = "bindingAction (bindings m ! k)"
  have len: "length (actionStates (fst ?mk)) = length (actionKinds m)" using m evaluated_store(3) [of s t k m] by (simp add: store_ok_def)
  have valid: "isValidAction (fst ?mk) = isValidAction m" by (simp add: isValidAction_def evaluated_store fun_eq_iff)
  have self: "bindingStates (fst ?mk) ! k = bindingStates m ! k" using Suc.prems evaluated_states [OF m, of k k s t] by simp
  have step: "actionStates (fst (evaluateBinding s t k ?mk)) =
      (if isValidAction m ?b then (actionStates (fst ?mk))[?b := applyOutcome (binding_outcome s t m k) (actionStates (fst ?mk) ! ?b)]
       else actionStates (fst ?mk))"
    unfolding binding_outcome_def
    by (cases ?mk) (use valid evaluated_store(1) [of s t k m] self in \<open>simp add: evaluateBinding_def Let_def\<close>)
  show ?case
  proof (cases "?b = a")
    case True
    then have "actionStates (fst (evaluateBinding s t k ?mk)) ! a = applyOutcome (binding_outcome s t m k) (actionStates (fst ?mk) ! a)"
      using step a len by (simp add: isValidAction_def)
    moreover have "(\<exists>i < Suc k. concerns m a i \<and> P i) \<longleftrightarrow> (\<exists>i < k. concerns m a i \<and> P i) \<or> P k" for P
      using True by (auto simp: less_Suc_eq concerns_def)
    ultimately show ?thesis using Suc by (simp add: fold_upt_Suc applyOutcome_def disj_assoc del: upt.simps)
  next
    case False
    have "(\<exists>i < Suc k. concerns m a i \<and> P i) \<longleftrightarrow> (\<exists>i < k. concerns m a i \<and> P i)" for P
      using False by (auto simp: less_Suc_eq concerns_def)
    then show ?thesis using Suc False step by (simp add: fold_upt_Suc del: upt.simps)
  qed
qed

text \<open>Selecting values changes nothing but values.\<close>

definition same_edges :: "ActionState \<Rightarrow> ActionState \<Rightarrow> bool" where
  "same_edges s t \<longleftrightarrow> actionDown s = actionDown t \<and> actionPressed s = actionPressed t \<and> actionReleased s = actionReleased t \<and> valueActive s = valueActive t"

lemma same_edges_refl [simp]: "same_edges s s"
  by (simp add: same_edges_def)

lemma same_edges_trans: "same_edges s t \<Longrightarrow> same_edges t u \<Longrightarrow> same_edges s u"
  by (simp add: same_edges_def)

lemma selectBucket_edges:
  "list_all2 same_edges (fst (selectBucket powf m k sel)) (fst sel)"
  "length (fst (snd (selectBucket powf m k sel))) = length (fst (snd sel))"
proof -
  obtain states active sequences where sel: "sel = (states, active, sequences)" by (cases sel)
  have upd: "list_all2 same_edges (states[a := (states ! a)\<lparr>actionValue := v\<rparr>]) states" for a v
    unfolding list_all2_conv_all_nth
  proof (intro conjI allI impI)
    fix i
    assume "i < length (states[a := (states ! a)\<lparr>actionValue := v\<rparr>])"
    then show "same_edges (states[a := (states ! a)\<lparr>actionValue := v\<rparr>] ! i) (states ! i)"
      by (cases "i = a") (simp_all add: same_edges_def)
  qed simp
  have refl: "list_all2 same_edges states states" by (simp add: list_all2_refl)
  show "list_all2 same_edges (fst (selectBucket powf m k sel)) (fst sel)"
    using upd refl by (simp add: sel selectBucket_def Let_def split: ActionKind.split prod.split)
  show "length (fst (snd (selectBucket powf m k sel))) = length (fst (snd sel))"
    by (simp add: sel selectBucket_def Let_def split: ActionKind.split prod.split)
qed

lemma select_edges:
  "list_all2 same_edges (fst (fold (selectBucket powf m) ks sel)) (fst sel) \<and>
   length (fst (snd (fold (selectBucket powf m) ks sel))) = length (fst (snd sel))"
proof (induction ks arbitrary: sel)
  case Nil
  show ?case by (simp add: list_all2_refl)
next
  case (Cons k ks)
  have "list_all2 same_edges (fst (fold (selectBucket powf m) ks (selectBucket powf m k sel))) (fst sel)"
    using list_all2_trans [OF same_edges_trans conjunct1 [OF Cons [of "selectBucket powf m k sel"]] selectBucket_edges(1) [of powf m k sel]] .
  then show ?case using Cons [of "selectBucket powf m k sel"] selectBucket_edges(2) [of powf m k sel] by simp
qed

lemma selectValues_store:
  "bindings (selectValues powf ks m) = bindings m" "actionKinds (selectValues powf ks m) = actionKinds m"
  "bindingStates (selectValues powf ks m) = bindingStates m" "length (actionStates (selectValues powf ks m)) = length (actionStates m)"
proof -
  let ?sel = "fold (selectBucket powf m) ks (actionStates m, replicate (length (actionStates m)) False, replicate (length (actionStates m)) 0)"
  show "bindings (selectValues powf ks m) = bindings m" "actionKinds (selectValues powf ks m) = actionKinds m"
    "bindingStates (selectValues powf ks m) = bindingStates m"
    by (simp_all add: selectValues_def split_beta)
  show "length (actionStates (selectValues powf ks m)) = length (actionStates m)"
    using list_all2_lengthD [OF conjunct1 [OF select_edges [of powf m ks
      "(actionStates m, replicate (length (actionStates m)) False, replicate (length (actionStates m)) 0)"]]]
    by (simp add: selectValues_def split_beta)
qed

definition value_active :: "pow_function \<Rightarrow> ValueBucket list \<Rightarrow> ActionMap \<Rightarrow> nat \<Rightarrow> bool" where
  "value_active powf ks m a = fst (snd (fold (selectBucket powf m) ks
     (actionStates m, replicate (length (actionStates m)) False, replicate (length (actionStates m)) 0))) ! a"

lemma selectValues_edges:
  assumes "a < length (actionStates m)"
  shows "same_edges (actionStates (selectValues powf ks m) ! a) (finishValue (actionKinds m ! a) (value_active powf ks m a) (actionStates m ! a))"
proof -
  let ?sel = "fold (selectBucket powf m) ks (actionStates m, replicate (length (actionStates m)) False, replicate (length (actionStates m)) 0)"
  have all: "list_all2 same_edges (fst ?sel) (actionStates m)"
    using select_edges [of powf m ks "(actionStates m, replicate (length (actionStates m)) False, replicate (length (actionStates m)) 0)"] by simp
  then have "same_edges (fst ?sel ! a) (actionStates m ! a)" using assms by (metis list_all2_nthD2)
  moreover have "actionStates (selectValues powf ks m) ! a = finishValue (actionKinds m ! a) (value_active powf ks m a) (fst ?sel ! a)"
    using assms list_all2_lengthD [OF all] by (simp add: selectValues_def split_beta value_active_def)
  ultimately show ?thesis by (auto simp: finishValue_def same_edges_def)
qed

section \<open>Frames refine independent gestures\<close>

text \<open>
  The specification of a frame, without the evaluation loop: every binding makes its own gesture step from its own state. The only
  influence between bindings is that a tap is suppressed by a fired hold with the same combo, where a hold bound earlier has already
  made its step of this frame and one bound later has not.
\<close>

definition hold_flag :: "InputState \<Rightarrow> float32 \<Rightarrow> ActionMap \<Rightarrow> nat \<Rightarrow> nat \<Rightarrow> bool" where
  "hold_flag s t m i j = holdFired
    (if j < i \<and> isValidAction m (bindingAction (bindings m ! j)) then outState (gestureStep s t False (bindings m ! j) (bindingStates m ! j))
     else bindingStates m ! j)"

definition tap_suppressed :: "InputState \<Rightarrow> float32 \<Rightarrow> ActionMap \<Rightarrow> nat \<Rightarrow> bool" where
  "tap_suppressed s t m i \<longleftrightarrow> (\<exists>j < length (bindings m). j \<noteq> i \<and> trigger (gesture (bindings m ! j)) = HoldTrigger \<and>
     areSameCombo (combo (bindings m ! j)) (combo (bindings m ! i)) \<and> hold_flag s t m i j)"

definition binding_frame :: "InputState \<Rightarrow> float32 \<Rightarrow> ActionMap \<Rightarrow> nat \<Rightarrow> GestureOutcome" where
  "binding_frame s t m i = gestureStep s t (tap_suppressed s t m i) (bindings m ! i) (bindingStates m ! i)"

definition frame_seconds :: "float32 \<Rightarrow> float32" where
  "frame_seconds d = (if float_gt d (Fin 0) then d else Fin 0)"

lemma gestureStep_hold_independent:
  "trigger (gesture b) \<noteq> TapTrigger \<Longrightarrow> gestureStep s t h b st = gestureStep s t False b st"
  by (cases "trigger (gesture b)") (simp_all add: gestureStep_def)

lemma binding_outcome_frame:
  assumes m: "store_ok m" and i: "i < length (bindings m)"
  shows "binding_outcome s t m i = binding_frame s t m i"
proof -
  have flag: "holdFired (bindingStates (evaluated s t m i) ! j) = hold_flag s t m i j"
    if "j < length (bindings m)" "trigger (gesture (bindings m ! j)) = HoldTrigger" for j
    using that evaluated_states [OF m less_imp_le [OF i], of j s t]
      gestureStep_hold_independent [of "bindings m ! j" s t "hasMatchingHoldFired (evaluated s t m j) j"]
    by (simp add: hold_flag_def binding_outcome_def)
  have "hasMatchingHoldFired (evaluated s t m i) i = tap_suppressed s t m i"
    unfolding hasMatchingHoldFired_def tap_suppressed_def list_ex_iff evaluated_store using i flag by auto
  then show ?thesis by (simp add: binding_outcome_def binding_frame_def)
qed

lemma same_store_nth:
  "same_store m m' \<Longrightarrow> i < length (bindingStates m) \<Longrightarrow> same_gesture_state (bindingStates m' ! i) (bindingStates m ! i)"
  by (simp add: same_store_def list_all2_conv_all_nth)

lemma same_store_ok: "same_store m m' \<Longrightarrow> store_ok m' = store_ok m"
  by (auto simp: same_store_def store_ok_def dest: list_all2_lengthD)

lemma same_store_valid: "same_store m m' \<Longrightarrow> isValidAction m' = isValidAction m"
  by (simp add: same_store_def isValidAction_def fun_eq_iff)

lemma same_store_hold_flag:
  assumes "same_store m m'" "j < length (bindingStates m)"
  shows "hold_flag s t m' i j = hold_flag s t m i j"
  using same_gesture_fields(2) [OF same_store_nth [OF assms]] assms(1)
    same_gesture_fields(2) [OF gestureStep_same(1) [OF same_store_nth [OF assms], of s t False "bindings m ! j"]]
  by (auto simp: hold_flag_def same_store_valid [OF assms(1)] same_store_def)

lemma same_store_frame:
  assumes st: "same_store m m'" and ok: "store_ok m" and i: "i < length (bindings m)"
  shows "same_gesture_state (outState (binding_frame s t m' i)) (outState (binding_frame s t m i))"
    "outDown (binding_frame s t m' i) = outDown (binding_frame s t m i)"
    "outPressed (binding_frame s t m' i) = outPressed (binding_frame s t m i)"
    "outReleased (binding_frame s t m' i) = outReleased (binding_frame s t m i)"
proof -
  have len: "length (bindingStates m) = length (bindings m)" using ok by (simp add: store_ok_def)
  have bs: "bindings m' = bindings m" using st by (simp add: same_store_def)
  have "tap_suppressed s t m' i = tap_suppressed s t m i"
    using same_store_hold_flag [OF st] len by (auto simp: tap_suppressed_def bs)
  then show "same_gesture_state (outState (binding_frame s t m' i)) (outState (binding_frame s t m i))"
    "outDown (binding_frame s t m' i) = outDown (binding_frame s t m i)"
    "outPressed (binding_frame s t m' i) = outPressed (binding_frame s t m i)"
    "outReleased (binding_frame s t m' i) = outReleased (binding_frame s t m i)"
    using gestureStep_same [OF same_store_nth [OF st], of i] i len by (simp_all add: binding_frame_def bs)
qed

text \<open>The state in which the bindings are evaluated, the buckets they fill, and the state handed to the selection of values.\<close>

definition prepared :: "InputState \<Rightarrow> ActionMap \<Rightarrow> ActionMap" where
  "prepared s m = markChanges s (copyInputSnapshot s m)"

lemma same_store_prepared: "same_store m (prepared s m)"
  unfolding prepared_def by (rule same_store_trans [OF same_store_snapshot same_store_markChanges])

definition gestured :: "InputState \<Rightarrow> float32 \<Rightarrow> ActionMap \<Rightarrow> ActionMap" where
  "gestured s t m = fst (evaluateBindings s t (prepared s m))"

definition buckets_of :: "InputState \<Rightarrow> float32 \<Rightarrow> ActionMap \<Rightarrow> ValueBucket list" where
  "buckets_of s t m = snd (evaluateBindings s t (prepared s m))"

lemma evaluate_eq: "evaluate powf s d m = selectValues powf (buckets_of s (frame_seconds d) m) (gestured s (frame_seconds d) m)"
  by (simp add: evaluate_def frame_seconds_def gestured_def buckets_of_def prepared_def split_beta Let_def)

lemma gestured_store:
  "bindings (gestured s t m) = bindings m" "actionKinds (gestured s t m) = actionKinds m"
  "length (actionStates (gestured s t m)) = length (actionStates m)" "length (bindingStates (gestured s t m)) = length (bindingStates m)"
  using same_store_prepared [of m s] by (auto simp: gestured_def evaluateBindings_def evaluated_store same_store_def dest: list_all2_lengthD)

lemma gestured_states:
  assumes ok: "store_ok m" and i: "i < length (bindings m)"
  shows "same_gesture_state (bindingStates (gestured s t m) ! i)
    (if isValidAction m (bindingAction (bindings m ! i)) then outState (binding_frame s t m i) else bindingStates m ! i)"
proof -
  let ?p = "prepared s m"
  note st = same_store_prepared [of m s]
  have okp: "store_ok ?p" using ok same_store_ok [OF st] by simp
  have bs: "bindings ?p = bindings m" using st by (simp add: same_store_def)
  have len: "i < length (bindingStates m)" using ok i by (simp add: store_ok_def)
  show ?thesis
    using evaluated_states [OF okp, of "length (bindings m)" i s t] binding_outcome_frame [OF okp, of i s t] i
      same_store_frame(1) [OF st ok i, of s t] same_store_nth [OF st len]
    by (auto simp: gestured_def evaluateBindings_def bs same_store_valid [OF st])
qed

lemma gestured_actions:
  assumes ok: "store_ok m" and a: "isValidAction m a"
  shows "actionStates (gestured s t m) ! a = (actionStates m ! a)\<lparr>
    actionPressed := actionPressed (actionStates m ! a) \<or> (\<exists>i < length (bindings m). concerns m a i \<and> outPressed (binding_frame s t m i)),
    actionReleased := actionReleased (actionStates m ! a) \<or> (\<exists>i < length (bindings m). concerns m a i \<and> outReleased (binding_frame s t m i)),
    actionDown := actionDown (actionStates m ! a) \<or> (\<exists>i < length (bindings m). concerns m a i \<and> outDown (binding_frame s t m i))\<rparr>"
proof -
  let ?p = "prepared s m"
  note st = same_store_prepared [of m s]
  have okp: "store_ok ?p" using ok same_store_ok [OF st] by simp
  have eqs: "bindings ?p = bindings m" "actionStates ?p = actionStates m" "concerns ?p = concerns m"
    using st by (simp_all add: same_store_def concerns_def fun_eq_iff)
  have ex: "(\<exists>i < length (bindings m). concerns m a i \<and> f (binding_outcome s t ?p i)) \<longleftrightarrow>
      (\<exists>i < length (bindings m). concerns m a i \<and> f (binding_frame s t m i))"
    if "\<And>i. i < length (bindings m) \<Longrightarrow> f (binding_frame s t ?p i) = f (binding_frame s t m i)" for f :: "GestureOutcome \<Rightarrow> bool"
    using that binding_outcome_frame [OF okp, of _ s t] by (auto simp: eqs)
  show ?thesis
    using evaluated_actions [OF okp, of "length (bindings m)" a s t] a same_store_valid [OF st]
      ex [of outPressed] ex [of outReleased] ex [of outDown] same_store_frame [OF st ok, of _ s t]
    by (simp add: gestured_def evaluateBindings_def eqs)
qed

end
