(* ===== verification/Action_Frames.thy ===== *)
theory Action_Frames
  imports Action_Evaluate
begin

text \<open>
  Properties of \<^verbatim>\<open>ActionMap\<close> over frames, each an \<^verbatim>\<open>advanceFrame\<close> followed by an \<^verbatim>\<open>evaluate\<close>, as \<^verbatim>\<open>action.h\<close> asks for: the edges of
  an action are those of its bindings' gestures, a hold fires once and is released once, axis edges follow the selected value, and
  the store stays well-formed under every operation.
\<close>

section \<open>Queries after an evaluation\<close>

lemma evaluate_store:
  "bindings (evaluate powf s d m) = bindings m" "actionKinds (evaluate powf s d m) = actionKinds m"
  "length (actionStates (evaluate powf s d m)) = length (actionStates m)" "length (bindingStates (evaluate powf s d m)) = length (bindingStates m)"
  by (simp_all add: evaluate_eq selectValues_store gestured_store)

lemma evaluate_valid [simp]: "isValidAction (evaluate powf s d m) = isValidAction m"
  by (simp add: isValidAction_def evaluate_store fun_eq_iff)

lemma evaluate_ok [simp]: "store_ok (evaluate powf s d m) = store_ok m"
  by (simp add: store_ok_def evaluate_store)

lemma evaluate_binding_state:
  assumes "store_ok m" "i < length (bindings m)"
  shows "same_gesture_state (bindingStates (evaluate powf s d m) ! i)
    (if isValidAction m (bindingAction (bindings m ! i)) then outState (binding_frame s (frame_seconds d) m i) else bindingStates m ! i)"
  using gestured_states [OF assms] by (simp add: evaluate_eq selectValues_store)

lemma evaluate_action_state:
  assumes "store_ok m" "isValidAction m a"
  shows "same_edges (actionStates (evaluate powf s d m) ! a)
    (finishValue (actionKinds m ! a) (value_active powf (buckets_of s (frame_seconds d) m) (gestured s (frame_seconds d) m) a)
      (actionStates (gestured s (frame_seconds d) m) ! a))"
  using selectValues_edges [of a "gestured s (frame_seconds d) m" powf "buckets_of s (frame_seconds d) m"] assms
  by (simp add: evaluate_eq gestured_store isValidAction_def store_ok_def)

lemma evaluate_button:
  assumes ok: "store_ok m" and a: "isValidAction m a" and kind: "actionKinds m ! a = ButtonKind"
  shows "wasPressed (evaluate powf s d m) a \<longleftrightarrow> wasPressed m a \<or>
      (\<exists>i < length (bindings m). concerns m a i \<and> outPressed (binding_frame s (frame_seconds d) m i))"
    "wasReleased (evaluate powf s d m) a \<longleftrightarrow> wasReleased m a \<or>
      (\<exists>i < length (bindings m). concerns m a i \<and> outReleased (binding_frame s (frame_seconds d) m i))"
    "isDown (evaluate powf s d m) a \<longleftrightarrow> isDown m a \<or>
      (\<exists>i < length (bindings m). concerns m a i \<and> outDown (binding_frame s (frame_seconds d) m i))"
  using evaluate_action_state [OF ok a, of powf s d] a
  by (simp_all add: kind finishValue_def same_edges_def gestured_actions [OF ok a] wasPressed_def wasReleased_def isDown_def)

lemma advance_store:
  "bindings (ActionMap_advanceFrame m) = bindings m" "actionKinds (ActionMap_advanceFrame m) = actionKinds m"
  "bindingStates (ActionMap_advanceFrame m) = bindingStates m" "isValidAction (ActionMap_advanceFrame m) = isValidAction m"
  "concerns (ActionMap_advanceFrame m) = concerns m" "store_ok (ActionMap_advanceFrame m) = store_ok m"
  by (simp_all add: ActionMap_advanceFrame_def isValidAction_def concerns_def store_ok_def fun_eq_iff)

lemma advance_frame: "binding_frame s t (ActionMap_advanceFrame m) i = binding_frame s t m i"
  by (simp add: binding_frame_def tap_suppressed_def hold_flag_def advance_store)

lemma advance_queries:
  assumes "store_ok m"
  shows "\<not> wasPressed (ActionMap_advanceFrame m) a" "\<not> wasReleased (ActionMap_advanceFrame m) a" "\<not> isDown (ActionMap_advanceFrame m) a"
    "isValidAction m a \<Longrightarrow> valueActive (actionStates (ActionMap_advanceFrame m) ! a) = valueActive (actionStates m ! a)"
  using assms by (auto simp: wasPressed_def wasReleased_def isDown_def ActionMap_advanceFrame_def isValidAction_def store_ok_def advance_state_def)

section \<open>Sequences of frames\<close>

definition next_frame :: "pow_function \<Rightarrow> InputState \<times> float32 \<Rightarrow> ActionMap \<Rightarrow> ActionMap" where
  "next_frame powf sd m = evaluate powf (fst sd) (snd sd) (ActionMap_advanceFrame m)"

definition run_frames :: "pow_function \<Rightarrow> (InputState \<times> float32) list \<Rightarrow> ActionMap \<Rightarrow> ActionMap" where
  "run_frames powf fs m = fold (next_frame powf) fs m"

lemma run_frames_snoc: "run_frames powf (fs @ [f]) m = next_frame powf f (run_frames powf fs m)"
  by (simp add: run_frames_def)

lemma next_frame_store:
  "bindings (next_frame powf f m) = bindings m" "actionKinds (next_frame powf f m) = actionKinds m"
  "isValidAction (next_frame powf f m) = isValidAction m" "store_ok (next_frame powf f m) = store_ok m"
  by (simp_all add: next_frame_def evaluate_store advance_store)

lemma run_frames_store:
  "bindings (run_frames powf fs m) = bindings m" "actionKinds (run_frames powf fs m) = actionKinds m"
  "isValidAction (run_frames powf fs m) = isValidAction m" "store_ok (run_frames powf fs m) = store_ok m"
  by (induction fs arbitrary: m) (simp_all add: run_frames_def next_frame_store)

lemma next_frame_button:
  assumes "store_ok m" "isValidAction m a" "actionKinds m ! a = ButtonKind"
  shows "wasPressed (next_frame powf f m) a \<longleftrightarrow>
      (\<exists>i < length (bindings m). concerns m a i \<and> outPressed (binding_frame (fst f) (frame_seconds (snd f)) m i))"
    "wasReleased (next_frame powf f m) a \<longleftrightarrow>
      (\<exists>i < length (bindings m). concerns m a i \<and> outReleased (binding_frame (fst f) (frame_seconds (snd f)) m i))"
    "isDown (next_frame powf f m) a \<longleftrightarrow>
      (\<exists>i < length (bindings m). concerns m a i \<and> outDown (binding_frame (fst f) (frame_seconds (snd f)) m i))"
  using evaluate_button [of "ActionMap_advanceFrame m" a powf "fst f" "snd f"] assms advance_queries [OF assms(1), of a]
  by (simp_all add: next_frame_def advance_store advance_frame)

lemma next_frame_state:
  assumes "store_ok m" "i < length (bindings m)"
  shows "same_gesture_state (bindingStates (next_frame powf f m) ! i)
    (if isValidAction m (bindingAction (bindings m ! i)) then outState (binding_frame (fst f) (frame_seconds (snd f)) m i) else bindingStates m ! i)"
  using evaluate_binding_state [of "ActionMap_advanceFrame m" i powf "fst f" "snd f"] assms
  unfolding next_frame_def advance_store advance_frame by blast

section \<open>Holding\<close>

text \<open>A frame in which the combo is held on, and the time accumulated over frames in single precision.\<close>

definition held_on :: "ActionBinding \<Rightarrow> InputState \<Rightarrow> bool" where
  "held_on b s \<longleftrightarrow> isComboDown s (combo b) \<and> \<not> startsThisFrame s (combo b) True"

definition time_of :: "(InputState \<times> float32) list \<Rightarrow> float32" where
  "time_of fs = foldl float_add (Fin 0) (map (frame_seconds \<circ> snd) fs)"

definition hold_reached :: "ActionBinding \<Rightarrow> (InputState \<times> float32) list \<Rightarrow> nat \<Rightarrow> bool" where
  "hold_reached b fs k = float_ge (time_of (take k fs)) (holdSeconds (gesture b))"

lemma time_of_snoc: "time_of (fs @ [f]) = float_add (time_of fs) (frame_seconds (snd f))"
  by (simp add: time_of_def)

lemma hold_step_start:
  assumes "trigger (gesture b) = HoldTrigger" "startsThisFrame s (combo b) (bindingActive st)" "isComboDown s (combo b)"
  shows "bindingActive (outState (gestureStep s t h b st))" "heldSeconds (outState (gestureStep s t h b st)) = float_add (Fin 0) t"
    "holdFired (outState (gestureStep s t h b st)) = float_ge (float_add (Fin 0) t) (holdSeconds (gesture b))"
    "outPressed (gestureStep s t h b st) = float_ge (float_add (Fin 0) t) (holdSeconds (gesture b))"
    "outDown (gestureStep s t h b st) = float_ge (float_add (Fin 0) t) (holdSeconds (gesture b))" "\<not> outReleased (gestureStep s t h b st)"
  using assms by (simp_all add: gestureStep_def holdStep_def Let_def nextBindingActive_def)

lemma hold_step_on:
  assumes "trigger (gesture b) = HoldTrigger" "held_on b s" "bindingActive st"
  shows "bindingActive (outState (gestureStep s t h b st))" "heldSeconds (outState (gestureStep s t h b st)) = float_add (heldSeconds st) t"
    "holdFired (outState (gestureStep s t h b st)) \<longleftrightarrow> holdFired st \<or> float_ge (float_add (heldSeconds st) t) (holdSeconds (gesture b))"
    "outPressed (gestureStep s t h b st) \<longleftrightarrow> \<not> holdFired st \<and> float_ge (float_add (heldSeconds st) t) (holdSeconds (gesture b))"
    "outDown (gestureStep s t h b st) \<longleftrightarrow> holdFired st \<or> float_ge (float_add (heldSeconds st) t) (holdSeconds (gesture b))"
    "\<not> outReleased (gestureStep s t h b st)"
  using assms by (auto simp: gestureStep_def holdStep_def Let_def nextBindingActive_def held_on_def)

lemma hold_step_stop:
  assumes "trigger (gesture b) = HoldTrigger" "\<not> isComboDown s (combo b)" "bindingActive st"
  shows "\<not> outPressed (gestureStep s t h b st)" "\<not> outDown (gestureStep s t h b st)"
    "outReleased (gestureStep s t h b st) \<longleftrightarrow> \<not> startsThisFrame s (combo b) True \<and> holdFired st"
  using assms by (auto simp: gestureStep_def holdStep_def Let_def nextBindingActive_def stopsThisFrame_def)

text \<open>A hold binding that is the only one of a button action, and the frames from its start on.\<close>

definition only_hold :: "ActionMap \<Rightarrow> nat \<Rightarrow> nat \<Rightarrow> bool" where
  "only_hold m a i \<longleftrightarrow> store_ok m \<and> isValidAction m a \<and> actionKinds m ! a = ButtonKind \<and> i < length (bindings m) \<and>
     trigger (gesture (bindings m ! i)) = HoldTrigger \<and> filter (concerns m a) [0..<length (bindings m)] = [i]"

definition hold_frames :: "ActionMap \<Rightarrow> nat \<Rightarrow> (InputState \<times> float32) list \<Rightarrow> bool" where
  "hold_frames m i fs =
    (case fs of [] \<Rightarrow> False
     | f # gs \<Rightarrow> startsThisFrame (fst f) (combo (bindings m ! i)) (bindingActive (bindingStates m ! i)) \<and>
         isComboDown (fst f) (combo (bindings m ! i)) \<and> list_all (\<lambda>g. held_on (bindings m ! i) (fst g)) gs)"

lemma only_hold_concerns:
  assumes "only_hold m a i"
  shows "j < length (bindings m) \<and> concerns m a j \<longleftrightarrow> j = i"
proof -
  have "set (filter (concerns m a) [0..<length (bindings m)]) = set [i]" using assms by (simp only: only_hold_def)
  then show ?thesis by (auto simp: set_eq_iff)
qed

lemma only_hold_run: "only_hold m a i \<Longrightarrow> only_hold (run_frames powf fs m) a i"
  by (simp add: only_hold_def run_frames_store concerns_def [abs_def])

lemma only_hold_frame:
  assumes h: "only_hold m a i"
  shows "wasPressed (next_frame powf f m) a \<longleftrightarrow> outPressed (binding_frame (fst f) (frame_seconds (snd f)) m i)"
    "wasReleased (next_frame powf f m) a \<longleftrightarrow> outReleased (binding_frame (fst f) (frame_seconds (snd f)) m i)"
    "isDown (next_frame powf f m) a \<longleftrightarrow> outDown (binding_frame (fst f) (frame_seconds (snd f)) m i)"
    "same_gesture_state (bindingStates (next_frame powf f m) ! i) (outState (binding_frame (fst f) (frame_seconds (snd f)) m i))"
proof -
  have m: "store_ok m" "isValidAction m a" "actionKinds m ! a = ButtonKind" "i < length (bindings m)" using h by (simp_all add: only_hold_def)
  note only = only_hold_concerns [OF h]
  have ex: "(\<exists>j < length (bindings m). concerns m a j \<and> P j) \<longleftrightarrow> P i" for P using only by metis
  show "wasPressed (next_frame powf f m) a \<longleftrightarrow> outPressed (binding_frame (fst f) (frame_seconds (snd f)) m i)"
    "wasReleased (next_frame powf f m) a \<longleftrightarrow> outReleased (binding_frame (fst f) (frame_seconds (snd f)) m i)"
    "isDown (next_frame powf f m) a \<longleftrightarrow> outDown (binding_frame (fst f) (frame_seconds (snd f)) m i)"
    by (simp_all add: next_frame_button [OF m(1-3)] ex)
  have "bindingAction (bindings m ! i) = a" using only [of i] by (simp add: concerns_def)
  then show "same_gesture_state (bindingStates (next_frame powf f m) ! i) (outState (binding_frame (fst f) (frame_seconds (snd f)) m i))"
    using next_frame_state [OF m(1,4), of powf f] m(2) by simp
qed

lemma hold_not_reached_0:
  assumes "only_hold m a i"
  shows "\<not> hold_reached (bindings m ! i) fs 0"
proof -
  have "binding_wf (bindings m ! i)" using assms by (simp add: only_hold_def store_ok_def list_all_length)
  then show ?thesis using assms isFinite_not_le by (simp add: binding_wf_def only_hold_def hold_reached_def time_of_def)
qed

lemma hold_reached_snoc: "k \<le> length fs \<Longrightarrow> hold_reached b (fs @ [f]) k = hold_reached b fs k"
  by (simp add: hold_reached_def)

lemma hold_frames_snoc:
  "hold_frames m i (fs @ [f]) \<longleftrightarrow>
    (if fs = [] then startsThisFrame (fst f) (combo (bindings m ! i)) (bindingActive (bindingStates m ! i)) \<and> isComboDown (fst f) (combo (bindings m ! i))
     else hold_frames m i fs \<and> held_on (bindings m ! i) (fst f))"
  by (cases fs) (auto simp: hold_frames_def)

lemma ex_le_snoc: "(\<exists>k \<le> length (fs @ [f]). P k) \<longleftrightarrow> (\<exists>k \<le> length fs. P k) \<or> P (Suc (length fs))"
  by (auto simp: le_Suc_eq)

lemma hold_state:
  fixes powf :: pow_function
  assumes h: "only_hold m a i" and "hold_frames m i fs"
  defines "st \<equiv> bindingStates (run_frames powf fs m) ! i" and "b \<equiv> bindings m ! i"
  shows "bindingActive st \<and> heldSeconds st = time_of fs \<and> (holdFired st \<longleftrightarrow> (\<exists>k \<le> length fs. hold_reached b fs k))"
  using assms(2) unfolding st_def
proof (induction fs rule: rev_induct)
  case Nil
  then show ?case by (simp add: hold_frames_def)
next
  case (snoc f fs)
  let ?m = "run_frames powf fs m" and ?t = "frame_seconds (snd f)"
  have t: "trigger (gesture b) = HoldTrigger" using h by (simp add: only_hold_def b_def)
  note s = same_gesture_fields [OF only_hold_frame(4) [OF only_hold_run [OF h, of powf fs], of powf f]]
  have b: "bindings ?m ! i = b" by (simp add: run_frames_store b_def)
  have last: "hold_reached b (fs @ [f]) (Suc (length fs)) = float_ge (float_add (time_of fs) ?t) (holdSeconds (gesture b))"
    by (simp add: hold_reached_def time_of_snoc)
  show ?case
  proof (cases "fs = []")
    case True
    have "startsThisFrame (fst f) (combo b) (bindingActive (bindingStates m ! i))" "isComboDown (fst f) (combo b)"
      using snoc.prems True by (simp_all add: hold_frames_def b_def)
    note step = hold_step_start [OF t this]
    show ?thesis using s step last hold_not_reached_0 [OF h, of "[f]"] True
      by (auto simp: run_frames_def binding_frame_def b_def [symmetric] ex_le_snoc le_Suc_eq time_of_def)
  next
    case False
    then have prev: "bindingActive (bindingStates ?m ! i)" "heldSeconds (bindingStates ?m ! i) = time_of fs"
      "holdFired (bindingStates ?m ! i) \<longleftrightarrow> (\<exists>k \<le> length fs. hold_reached b fs k)" and on: "held_on b (fst f)"
      using snoc by (simp_all add: hold_frames_snoc b_def)
    have "(\<exists>k \<le> length fs. hold_reached b (fs @ [f]) k) \<longleftrightarrow> (\<exists>k \<le> length fs. hold_reached b fs k)"
      using hold_reached_snoc by blast
    then show ?thesis using s hold_step_on [OF t on prev(1)] prev last
      by (simp add: run_frames_snoc binding_frame_def b ex_le_snoc time_of_snoc del: length_append)
  qed
qed

section \<open>Properties over frames\<close>

text \<open>
  C33: evaluating a frame is the bindings' gestures made independently. A button action is pressed, released or down exactly when one
  of its bindings' gestures says so (or it already was before the evaluation), every binding's gesture state becomes the one its
  gesture leaves, and a binding whose action no longer exists keeps its state. The only coupling is the suppression of a tap. What one
  gesture says is \<open>gestureStep\<close> itself on both sides: the statement is about the loop, its accumulation and its order.
\<close>

theorem evaluate_refines_gestures:
  assumes ok: "store_ok m"
  shows "(isValidAction m a \<and> actionKinds m ! a = ButtonKind \<longrightarrow>
      (wasPressed (evaluate powf s d m) a \<longleftrightarrow> wasPressed m a \<or>
        (\<exists>i < length (bindings m). bindingAction (bindings m ! i) = a \<and> outPressed (binding_frame s (frame_seconds d) m i))) \<and>
      (wasReleased (evaluate powf s d m) a \<longleftrightarrow> wasReleased m a \<or>
        (\<exists>i < length (bindings m). bindingAction (bindings m ! i) = a \<and> outReleased (binding_frame s (frame_seconds d) m i))) \<and>
      (isDown (evaluate powf s d m) a \<longleftrightarrow> isDown m a \<or>
        (\<exists>i < length (bindings m). bindingAction (bindings m ! i) = a \<and> outDown (binding_frame s (frame_seconds d) m i)))) \<and>
    (i < length (bindings m) \<longrightarrow> same_gesture_state (bindingStates (evaluate powf s d m) ! i)
      (if isValidAction m (bindingAction (bindings m ! i)) then outState (binding_frame s (frame_seconds d) m i) else bindingStates m ! i))"
  using evaluate_button [OF ok, of a powf s d] evaluate_binding_state [OF ok, of i powf s d] unfolding concerns_def by blast

text \<open>Concrete maps and inputs; with the default curve exponent of one, \<open>std::pow\<close> is its first argument.\<close>

definition pow_linear :: pow_function where
  "pow_linear x y = x"

definition button_map :: "ActionGesture \<Rightarrow> ActionMap" where
  "button_map g = snd (addBinding (bind_action 1\<lparr>combo := \<lparr>primaryControl = makeKeyboardKey 5, modifiers = [], activationMode = PrimaryLast\<rparr>, gesture := g\<rparr>)
     (newActionMap 2))"

definition hold_gesture :: ActionGesture where
  "hold_gesture = \<lparr>trigger = HoldTrigger, holdSeconds = float_one, doubleTapSeconds = Fin 0\<rparr>"

definition key_down :: InputState where
  "key_down = setButtonInternal (makeKeyboardKey 5) True initial_input"

lemma button_map_ok: "store_ok (button_map g)"
  unfolding button_map_def by (rule addBinding_ok [OF store_ok_new])

theorem evaluate_refines_gestures_witness:
  "wasPressed (evaluate pow_linear key_down half (button_map \<lparr>trigger = PressedTrigger, holdSeconds = Fin 0, doubleTapSeconds = Fin 0\<rparr>)) 1"
proof -
  let ?m = "button_map \<lparr>trigger = PressedTrigger, holdSeconds = Fin 0, doubleTapSeconds = Fin 0\<rparr>"
  have "isValidAction ?m 1 \<and> actionKinds ?m ! 1 = ButtonKind" "0 < length (bindings ?m)" "bindingAction (bindings ?m ! 0) = 1"
    "outPressed (gestureStep key_down (frame_seconds half) h (bindings ?m ! 0) (bindingStates ?m ! 0)) = True" for h
    by code_simp+
  with evaluate_refines_gestures [OF button_map_ok, of _ 1 pow_linear key_down half 0] show ?thesis
    unfolding binding_frame_def by blast
qed

text \<open>The frames of a hold and the frame in which its combo is let go, with or without a new press inside that frame.\<close>

lemma hold_run:
  assumes h: "only_hold m a i" and frames: "hold_frames m i fs" and stop: "\<not> isComboDown s (combo (bindings m ! i))"
  shows "(wasPressed (run_frames powf fs m) a \<longleftrightarrow>
      hold_reached (bindings m ! i) fs (length fs) \<and> (\<forall>k < length fs. \<not> hold_reached (bindings m ! i) fs k)) \<and>
    (isDown (run_frames powf fs m) a \<longleftrightarrow> (\<exists>k \<le> length fs. hold_reached (bindings m ! i) fs k)) \<and>
    \<not> wasReleased (run_frames powf fs m) a \<and>
    \<not> wasPressed (run_frames powf (fs @ [(s, d)]) m) a \<and> \<not> isDown (run_frames powf (fs @ [(s, d)]) m) a \<and>
    (wasReleased (run_frames powf (fs @ [(s, d)]) m) a \<longleftrightarrow>
      isDown (run_frames powf fs m) a \<and> \<not> startsThisFrame s (combo (bindings m ! i)) True)"
proof -
  let ?b = "bindings m ! i"
  have t: "trigger (gesture ?b) = HoldTrigger" using h by (simp add: only_hold_def)
  have b: "bindings (run_frames powf gs m) ! i = ?b" for gs by (simp add: run_frames_store)
  obtain gs f where fs: "fs = gs @ [f]" using frames by (cases fs rule: rev_cases) (auto simp: hold_frames_def)
  have before: "(\<forall>k < length fs. \<not> hold_reached ?b fs k) \<longleftrightarrow> \<not> (\<exists>k \<le> length gs. hold_reached ?b gs k)"
    using hold_reached_snoc [of _ gs ?b f] by (auto simp: fs less_Suc_eq_le)
  have last: "hold_reached ?b fs (length fs) = float_ge (float_add (time_of gs) (frame_seconds (snd f))) (holdSeconds (gesture ?b))"
    by (simp add: hold_reached_def fs time_of_snoc)
  have reached: "(\<exists>k \<le> length fs. hold_reached ?b fs k) \<longleftrightarrow> (\<exists>k \<le> length gs. hold_reached ?b gs k) \<or> hold_reached ?b fs (length fs)"
    using before by (metis le_neq_implies_less order_refl less_imp_le)
  have on: "(wasPressed (run_frames powf fs m) a \<longleftrightarrow> hold_reached ?b fs (length fs) \<and> (\<forall>k < length fs. \<not> hold_reached ?b fs k)) \<and>
    (isDown (run_frames powf fs m) a \<longleftrightarrow> (\<exists>k \<le> length fs. hold_reached ?b fs k)) \<and> \<not> wasReleased (run_frames powf fs m) a"
  proof (cases "gs = []")
    case True
    have "startsThisFrame (fst f) (combo ?b) (bindingActive (bindingStates m ! i))" "isComboDown (fst f) (combo ?b)"
      using frames True by (simp_all add: hold_frames_def fs)
    note step = hold_step_start [OF t this]
    show ?thesis unfolding reached before last
      using only_hold_frame [OF h, of powf f] step hold_not_reached_0 [OF h, of "[]"] True
      by (simp add: fs run_frames_def binding_frame_def time_of_def)
  next
    case False
    then have gs: "hold_frames m i gs" and f: "held_on ?b (fst f)" using frames by (simp_all add: fs hold_frames_snoc)
    note prev = hold_state [OF h gs, of powf]
    show ?thesis unfolding reached before last
      using only_hold_frame [OF only_hold_run [OF h, of powf gs], of powf f] hold_step_on [OF t f conjunct1 [OF prev]] prev
      by (auto simp: fs run_frames_snoc binding_frame_def b)
  qed
  note now = hold_state [OF h frames, of powf]
  show ?thesis using on only_hold_frame [OF only_hold_run [OF h, of powf fs], of powf "(s, d)"] hold_step_stop [OF t stop conjunct1 [OF now]] now
    by (auto simp: run_frames_snoc binding_frame_def b)
qed

text \<open>
  The frame in which a fired hold is let go and its primary control was pressed and let go again takes the action from down to up
  without reporting a release, because the Hold branch clears \<open>holdFired\<close> as soon as \<open>startsThisFrame\<close> holds.
\<close>

lemma hold_restart_unreported:
  assumes "only_hold m a i" "hold_frames m i fs" "isDown (run_frames powf fs m) a"
    and "\<not> isComboDown s (combo (bindings m ! i))" "startsThisFrame s (combo (bindings m ! i)) True"
  shows "\<not> isDown (run_frames powf (fs @ [(s, d)]) m) a \<and> \<not> wasReleased (run_frames powf (fs @ [(s, d)]) m) a"
  using hold_run [OF assms(1,2,4), of powf d] assms(5) by blast

text \<open>
  C34: a hold fires once. For the only binding of a button action, a hold, and frames from its start on in which the combo stays
  held and is not pressed anew: the action is pressed in exactly the frame in which the accumulated time first reaches the
  configured seconds, is down from then on and not released. In the frame that lets the combo go without a new press inside it, the
  action is not down, not pressed, and released exactly if it was down. A new press inside that frame loses the release:
  \<open>hold_restart_unreported\<close>.
\<close>

theorem hold_fires_once:
  assumes h: "only_hold m a i" and frames: "hold_frames m i fs" and stop: "\<not> isComboDown s (combo (bindings m ! i))"
    and quiet: "\<not> startsThisFrame s (combo (bindings m ! i)) True"
  shows "(wasPressed (run_frames powf fs m) a \<longleftrightarrow>
      hold_reached (bindings m ! i) fs (length fs) \<and> (\<forall>k < length fs. \<not> hold_reached (bindings m ! i) fs k)) \<and>
    (isDown (run_frames powf fs m) a \<longleftrightarrow> (\<exists>k \<le> length fs. hold_reached (bindings m ! i) fs k)) \<and>
    \<not> wasReleased (run_frames powf fs m) a \<and>
    \<not> wasPressed (run_frames powf (fs @ [(s, d)]) m) a \<and> \<not> isDown (run_frames powf (fs @ [(s, d)]) m) a \<and>
    (wasReleased (run_frames powf (fs @ [(s, d)]) m) a \<longleftrightarrow> isDown (run_frames powf fs m) a)"
  using hold_run [OF h frames stop, of powf d] quiet by blast

lemma half_seconds:
  "frame_seconds half = half" "float_add (Fin 0) half = half" "float_add half half = float_one"
proof -
  have "representable (1 * 2 ^ k)" if "k < 277" for k
    unfolding representable_def float_limit_def using power_strict_increasing [OF that, of "2 :: int"]
    by (intro conjI) (rule exI [of _ 1], rule exI [of _ k], simp, simp)
  from this [of 148] this [of 149] have "representable (2 ^ 148)" "representable (2 ^ 149)" by simp_all
  then have "round_float (2 ^ 148) = Fin (2 ^ 148)" "round_float (2 ^ 149) = Fin (2 ^ 149)" using round_float_exact by auto
  then show "frame_seconds half = half" "float_add (Fin 0) half = half" "float_add half half = float_one"
    by (simp_all add: frame_seconds_def half_def float_less_def float_one_def)
qed

theorem hold_fires_once_witness:
  "\<not> isDown (run_frames pow_linear [(key_down, half)] (button_map hold_gesture)) 1 \<and>
   wasPressed (run_frames pow_linear [(key_down, half), (advanceFrame key_down, half)] (button_map hold_gesture)) 1 \<and>
   wasReleased (run_frames pow_linear [(key_down, half), (advanceFrame key_down, half), (initial_input, half)] (button_map hold_gesture)) 1"
proof -
  let ?m = "button_map hold_gesture" and ?f1 = "[(key_down, half)]" and ?f2 = "[(key_down, half), (advanceFrame key_down, half)]"
  have "isValidAction ?m 1" "actionKinds ?m ! 1 = ButtonKind" "0 < length (bindings ?m)" "trigger (gesture (bindings ?m ! 0)) = HoldTrigger"
    "filter (concerns ?m 1) [0..<length (bindings ?m)] = [0]" by code_simp+
  then have h: "only_hold ?m 1 0" using button_map_ok [of hold_gesture] unfolding only_hold_def by blast
  have f: "hold_frames ?m 0 ?f1" "hold_frames ?m 0 ?f2" "\<not> isComboDown initial_input (combo (bindings ?m ! 0))"
    "\<not> startsThisFrame initial_input (combo (bindings ?m ! 0)) True" by code_simp+
  have "holdSeconds (gesture (bindings ?m ! 0)) = float_one" by code_simp
  then have r: "hold_reached (bindings ?m ! 0) ?f2 2" "\<not> hold_reached (bindings ?m ! 0) ?f2 0" "\<not> hold_reached (bindings ?m ! 0) ?f2 1"
    "\<not> hold_reached (bindings ?m ! 0) ?f1 0" "\<not> hold_reached (bindings ?m ! 0) ?f1 1"
    by (simp_all add: hold_reached_def time_of_def half_seconds) (simp_all add: half_def float_one_def float_le_def)
  show ?thesis
    using hold_fires_once [OF h f(1,3,4), of pow_linear half] hold_fires_once [OF h f(2,3,4), of pow_linear half] r
    by (auto simp: le_Suc_eq less_Suc_eq numeral_2_eq_2)
qed

section \<open>Axis actions\<close>

definition bucket_active :: "pow_function \<Rightarrow> ValueBucket \<Rightarrow> bool" where
  "bucket_active powf k =
    (case settingsKind (bucketSettings k) of
       ButtonKind \<Rightarrow> False
     | Axis1D \<Rightarrow> float_gt (absoluteValue (processAxis1D powf (bucketSettings k) (scalarValue (bucketValue k)))) (activationThreshold (bucketSettings k))
     | Axis2D \<Rightarrow> float_gt (case processAxis2D powf (bucketSettings k) (xValue (bucketValue k), yValue (bucketValue k)) of (x, y) \<Rightarrow> getVectorLength x y)
         (activationThreshold (bucketSettings k)))"

lemma selectBucket_active:
  assumes "a < length (fst (snd sel))" "isValidAction m a"
  shows "fst (snd (selectBucket powf m k sel)) ! a \<longleftrightarrow> fst (snd sel) ! a \<or> bucketAction k = a \<and> bucket_active powf k"
proof -
  obtain states active sequences where sel: "sel = (states, active, sequences)" by (cases sel)
  show ?thesis
    using assms by (cases "settingsKind (bucketSettings k)"; cases "bucketAction k = a")
      (auto simp: sel selectBucket_def bucket_active_def Let_def split: prod.split)
qed

lemma value_active_iff:
  assumes "a < length (actionStates m)" "isValidAction m a"
  shows "value_active powf ks m a \<longleftrightarrow> (\<exists>k \<in> set ks. bucketAction k = a \<and> bucket_active powf k)"
proof -
  have "fst (snd (fold (selectBucket powf m) ks sel)) ! a \<longleftrightarrow> fst (snd sel) ! a \<or> (\<exists>k \<in> set ks. bucketAction k = a \<and> bucket_active powf k)"
    if "a < length (fst (snd sel))" for sel
    using that
  proof (induction ks arbitrary: sel)
    case (Cons k ks)
    then show ?case using selectBucket_active [OF Cons.prems assms(2), of powf k] selectBucket_edges(2) [of powf m k sel] by auto
  qed simp
  from this [of "(actionStates m, replicate (length (actionStates m)) False, replicate (length (actionStates m)) 0)"]
  show ?thesis using assms(1) by (simp add: value_active_def)
qed

lemma value_outcome:
  "trigger (gesture b) = ValueTrigger \<Longrightarrow>
    \<not> outPressed (gestureStep s t h b st) \<and> \<not> outReleased (gestureStep s t h b st) \<and> \<not> outDown (gestureStep s t h b st)"
  by (simp add: gestureStep_def Let_def)

text \<open>
  The edges of an axis action follow its value. When the bindings of an axis action contribute values, the action is down after a frame
  exactly if some device's processed value exceeds the activation threshold of its settings, pressed exactly when that begins to be
  so and released exactly when it ceases, so that presses and releases alternate over frames.
\<close>

theorem axis_edges:
  assumes ok: "store_ok m" and a: "isValidAction m a" and kind: "actionKinds m ! a \<noteq> ButtonKind"
    and vals: "\<forall>b \<in> set (bindings m). bindingAction b = a \<longrightarrow> trigger (gesture b) = ValueTrigger"
  shows "let m' = next_frame powf (s, d) m; was = valueActive (actionStates m ! a); active = valueActive (actionStates m' ! a) in
    (active \<longleftrightarrow> (\<exists>k \<in> set (buckets_of s (frame_seconds d) (ActionMap_advanceFrame m)). bucketAction k = a \<and> bucket_active powf k)) \<and>
    (isDown m' a \<longleftrightarrow> active) \<and> (wasPressed m' a \<longleftrightarrow> active \<and> \<not> was) \<and> (wasReleased m' a \<longleftrightarrow> \<not> active \<and> was)"
proof -
  let ?m = "ActionMap_advanceFrame m" and ?t = "frame_seconds d"
  have m: "store_ok ?m" "isValidAction ?m a" using ok a by (simp_all add: advance_store)
  have none: "\<not> (\<exists>i < length (bindings ?m). concerns ?m a i \<and> f (binding_frame s ?t ?m i))"
    if "\<And>b h st. trigger (gesture b) = ValueTrigger \<Longrightarrow> \<not> f (gestureStep s ?t h b st)" for f
    using vals that by (auto simp: advance_store concerns_def binding_frame_def all_set_conv_all_nth)
  have g: "actionStates (gestured s ?t ?m) ! a = actionStates ?m ! a"
    using gestured_actions [OF m, of s ?t] none [of outPressed] none [of outReleased] none [of outDown] value_outcome [of _ s ?t] by simp
  have len: "a < length (actionStates (gestured s ?t ?m))" "isValidAction (gestured s ?t ?m) a"
    using m by (simp_all add: gestured_store store_ok_def isValidAction_def)
  note act = value_active_iff [OF len, of powf "buckets_of s ?t ?m"]
  show ?thesis
    using evaluate_action_state [OF m, of powf s d] advance_queries [OF ok, of a] kind a
    unfolding Let_def act [symmetric]
    by (auto simp: g next_frame_def same_edges_def finishValue_def advance_store wasPressed_def wasReleased_def isDown_def)
qed

definition axis_map :: ActionMap where
  "axis_map = (snd (builder_finish (B_axis1D float_one (Fin 0)) (on_control (makeKeyboardKey 5) (bind_action 0))
     (snd (defineAction 0 Axis1D (newActionMap 1)))))\<lparr>actionStates := [default_action_state\<lparr>valueActive := True\<rparr>]\<rparr>"

theorem axis_edges_witness:
  "wasReleased (next_frame pow_linear (initial_input, half) axis_map) 0 \<and> \<not> isDown (next_frame pow_linear (initial_input, half) axis_map) 0"
proof -
  have ok: "store_ok axis_map" by code_simp
  have h: "isValidAction axis_map 0" "actionKinds axis_map ! 0 \<noteq> ButtonKind" "valueActive (actionStates axis_map ! 0)"
    "\<forall>b \<in> set (bindings axis_map). bindingAction b = 0 \<longrightarrow> trigger (gesture b) = ValueTrigger"
    "buckets_of initial_input (frame_seconds half) (ActionMap_advanceFrame axis_map) = []" by code_simp+
  show ?thesis using axis_edges [OF ok h(1,2,4), of pow_linear initial_input half] h(3,5) by (simp add: Let_def)
qed

section \<open>Every operation keeps the store\<close>

text \<open>The maps a program can reach, by any sequence of the operations that change an \<open>ActionMap\<close>.\<close>

inductive reachable_map :: "pow_function \<Rightarrow> ActionMap \<Rightarrow> bool" for powf where
  new_map: "reachable_map powf (newActionMap count)"
| resized: "reachable_map powf m \<Longrightarrow> reachable_map powf (ActionMap_resize count m)"
| defined: "reachable_map powf m \<Longrightarrow> reachable_map powf (snd (defineAction a kind m))"
| advanced: "reachable_map powf m \<Longrightarrow> reachable_map powf (ActionMap_advanceFrame m)"
| evaluated: "reachable_map powf m \<Longrightarrow> reachable_map powf (evaluate powf s d m)"
| added: "reachable_map powf m \<Longrightarrow> reachable_map powf (snd (addBinding b m))"
| built: "reachable_map powf m \<Longrightarrow> reachable_map powf (snd (builder_finish e b m))"
| rebound: "reachable_map powf m \<Longrightarrow> reachable_map powf (snd (applyCapturedBinding c m))"
| cleared: "reachable_map powf m \<Longrightarrow> reachable_map powf (clearBindings a m)"
| all_cleared: "reachable_map powf m \<Longrightarrow> reachable_map powf (clearAllBindings m)"

lemma builder_finish_ok: "store_ok m \<Longrightarrow> store_ok (snd (builder_finish e b m))"
  by (cases e) (simp_all add: builder_add_def addBinding_ok)

text \<open>
  In every map reachable by any sequence of operations - resizing, redefining actions, adding, building, rebinding and clearing
  bindings, advancing and evaluating frames - each binding has its gesture state and each action its kind and state, every stored
  binding is well-formed (valid controls, button modifiers without repetition, finite scale and thresholds, positive finite gesture
  times, valid custom settings), and no two stored bindings are the same.
\<close>

theorem reachable_store_ok:
  assumes "reachable_map powf m"
  shows "length (bindingStates m) = length (bindings m) \<and> length (actionStates m) = length (actionKinds m) \<and>
    (\<forall>b \<in> set (bindings m). binding_wf b) \<and>
    (\<forall>i j. i < j \<and> j < length (bindings m) \<longrightarrow> \<not> areSameBinding (bindings m ! i) (bindings m ! j))"
proof -
  have "store_ok m" using assms
  proof induction
    case (resized m count)
    then show ?case by (simp add: store_ok_def ActionMap_resize_def)
  next
    case (defined m a kind)
    then show ?case by (simp add: store_ok_def defineAction_def)
  next
    case (all_cleared m)
    then show ?case by (simp add: store_ok_def clearAllBindings_def)
  qed (simp_all add: store_ok_new advance_store addBinding_ok builder_finish_ok applyCapturedBinding_ok store_ok_clear)
  then show ?thesis by (simp add: store_ok_def list_all_iff sorted_wrt_iff_nth_less)
qed

theorem reachable_store_ok_witness:
  "length (bindingStates (evaluate pow_linear key_down half (button_map hold_gesture))) = length (bindings (evaluate pow_linear key_down half (button_map hold_gesture)))"
proof -
  have "reachable_map pow_linear (evaluate pow_linear key_down half (button_map hold_gesture))"
    unfolding button_map_def by (intro reachable_map.intros)
  from reachable_store_ok [OF this] show ?thesis by blast
qed

end
