(* ===== verification/Accessibility_Types.thy ===== *)
theory Accessibility_Types
  imports IO_Status Unicode_Grapheme_Cursor Sorted_Vector "HOL-Library.Log_Nat"
begin

text \<open>
  The semantic tree of \<^verbatim>\<open>engine/desktop/accessibility.h\<close>: nodes with their text, geometry, values, relations and extensions, the limits and
  the validation result. Strings and spans are lists; a \<open>double\<close> is the exact number it stands for, as a multiple of the least
  subnormal, and arithmetic on it rounds to 53 bits. An enumeration that validation checks for unnamed values has a constructor for them.
\<close>

section \<open>Double precision\<close>

datatype float64 = DNaN | DInf bool | DNegZero | DFin int

definition double_limit :: int where
  "double_limit = 2 ^ 2098"

fun double_rank :: "float64 \<Rightarrow> int" where
  "double_rank (DInf negative) = (if negative then - double_limit else double_limit)"
| "double_rank DNegZero = 0"
| "double_rank (DFin n) = n"
| "double_rank DNaN = 0"

definition double_less :: "float64 \<Rightarrow> float64 \<Rightarrow> bool" where
  "double_less a b \<longleftrightarrow> a \<noteq> DNaN \<and> b \<noteq> DNaN \<and> double_rank a < double_rank b"

definition double_le :: "float64 \<Rightarrow> float64 \<Rightarrow> bool" where
  "double_le a b \<longleftrightarrow> a \<noteq> DNaN \<and> b \<noteq> DNaN \<and> double_rank a \<le> double_rank b"

definition double_eq :: "float64 \<Rightarrow> float64 \<Rightarrow> bool" where
  "double_eq a b \<longleftrightarrow> a \<noteq> DNaN \<and> b \<noteq> DNaN \<and> double_rank a = double_rank b"

definition double_finite :: "float64 \<Rightarrow> bool" where
  "double_finite a = (case a of DNaN \<Rightarrow> False | DInf _ \<Rightarrow> False | _ \<Rightarrow> True)"

definition double_negative :: "float64 \<Rightarrow> bool" where
  "double_negative a = (case a of DInf negative \<Rightarrow> negative | DNegZero \<Rightarrow> True | DFin n \<Rightarrow> n < 0 | DNaN \<Rightarrow> False)"

text \<open>The quotient of two naturals to 53 significant bits, to nearest with ties to even.\<close>

definition double_round :: "nat \<Rightarrow> nat \<Rightarrow> nat" where
  "double_round m d =
    (let k = 2 ^ (floorlog 2 (m div d) - 53); u = k * d; q = m div u; r = m mod u in
     (if 2 * r > u \<or> 2 * r = u \<and> odd q then q + 1 else q) * k)"

definition signed_double :: "bool \<Rightarrow> nat \<Rightarrow> float64" where
  "signed_double negative v =
    (if int v \<ge> double_limit then DInf negative
     else if v = 0 then (if negative then DNegZero else DFin 0)
     else DFin (if negative then - int v else int v))"

definition double_neg :: "float64 \<Rightarrow> float64" where
  "double_neg a = (case a of DNaN \<Rightarrow> DNaN | DInf x \<Rightarrow> DInf (\<not> x) | DNegZero \<Rightarrow> DFin 0 | DFin n \<Rightarrow> if n = 0 then DNegZero else DFin (- n))"

definition double_add :: "float64 \<Rightarrow> float64 \<Rightarrow> float64" where
  "double_add a b =
    (case (a, b) of
       (DNaN, _) \<Rightarrow> DNaN | (_, DNaN) \<Rightarrow> DNaN
     | (DInf x, DInf y) \<Rightarrow> if x = y then DInf x else DNaN
     | (DInf x, _) \<Rightarrow> DInf x | (_, DInf y) \<Rightarrow> DInf y
     | (DNegZero, DNegZero) \<Rightarrow> DNegZero
     | _ \<Rightarrow> let n = double_rank a + double_rank b in if n = 0 then DFin 0 else signed_double (n < 0) (double_round (nat \<bar>n\<bar>) 1))"

definition double_sub :: "float64 \<Rightarrow> float64 \<Rightarrow> float64" where
  "double_sub a b = double_add a (double_neg b)"

definition double_mul :: "float64 \<Rightarrow> float64 \<Rightarrow> float64" where
  "double_mul a b =
    (let negative = (double_negative a \<noteq> double_negative b); zero = (\<lambda>x. double_finite x \<and> double_rank x = 0) in
     if a = DNaN \<or> b = DNaN then DNaN
     else if \<not> double_finite a \<or> \<not> double_finite b then (if zero a \<or> zero b then DNaN else DInf negative)
     else signed_double negative (double_round (nat \<bar>double_rank a\<bar> * nat \<bar>double_rank b\<bar>) (2 ^ 1074)))"

definition double_min :: "float64 \<Rightarrow> float64 \<Rightarrow> float64" where
  "double_min a b = (if double_less b a then b else a)"

definition double_max :: "float64 \<Rightarrow> float64 \<Rightarrow> float64" where
  "double_max a b = (if double_less a b then b else a)"

text \<open>\<open>std::numeric_limits<double>::max()\<close>, one and one hundred.\<close>

definition double_greatest :: float64 where
  "double_greatest = DFin ((2 ^ 53 - 1) * 2 ^ 2045)"

definition double_of_nat :: "nat \<Rightarrow> float64" where
  "double_of_nat n = DFin (int n * 2 ^ 1074)"

section \<open>Nodes\<close>

type_synonym NodeId = "64 word"
type_synonym Generation = "64 word"
type_synonym RequestId = "64 word"

datatype Role = R_Unknown | R_Application | R_Window | R_Dialog | R_Group | R_Pane | R_Section | R_Toolbar | R_MenuBar | R_Menu |
  R_MenuItem | R_CheckBox | R_RadioButton | R_Button | R_ToggleButton | R_Link | R_Image | R_StaticText | R_TextField |
  R_PasswordField | R_SearchField | R_Slider | R_ProgressBar | R_ScrollBar | R_ScrollArea | R_List | R_ListItem | R_Tree |
  R_TreeItem | R_Table | R_Row | R_Cell | R_ColumnHeader | R_RowHeader | R_Tab | R_TabList | R_TabPanel | R_ComboBox |
  R_SpinButton | R_Calendar | R_DateInput | R_TimeInput | R_Separator | R_Status | R_Alert | R_Tooltip | R_Video | R_Audio |
  R_Canvas | R_Document | R_Article | R_Navigation | R_Form | R_Landmark | R_Custom | R_Unnamed

datatype NodeActionKind = AK_Focus | AK_Invoke | AK_SetValue | AK_Increment | AK_Decrement | AK_Toggle | AK_Expand | AK_Collapse | AK_Select
  | AK_Deselect | AK_ScrollTo | AK_ScrollBy | AK_SetTextSelection | AK_Realize | AK_Unnamed

datatype Exposure = E_Normal | E_RedactValue | E_RedactText | E_RedactContent | E_Unnamed

fun action_index :: "NodeActionKind \<Rightarrow> nat" where
  "action_index AK_Focus = 0" | "action_index AK_Invoke = 1" | "action_index AK_SetValue = 2" | "action_index AK_Increment = 3"
| "action_index AK_Decrement = 4" | "action_index AK_Toggle = 5" | "action_index AK_Expand = 6" | "action_index AK_Collapse = 7"
| "action_index AK_Select = 8" | "action_index AK_Deselect = 9" | "action_index AK_ScrollTo = 10" | "action_index AK_ScrollBy = 11"
| "action_index AK_SetTextSelection = 12" | "action_index AK_Realize = 13" | "action_index AK_Unnamed = 14"

definition action_count :: nat where
  "action_count = 14"

datatype NodeState = S_Disabled | S_Focusable | S_Focused | S_Offscreen | S_Invisible | S_ReadOnly | S_Required | S_Selected |
  S_Selectable | S_Expanded | S_Expandable | S_Checked | S_Mixed | S_Pressed | S_Password | S_Multiline | S_HasPopup | S_Modal |
  S_Busy | S_Visited | S_Invalid | S_Editable | S_Sensitive

fun state_bit :: "NodeState \<Rightarrow> nat" where
  "state_bit S_Disabled = 0" | "state_bit S_Focusable = 1" | "state_bit S_Focused = 2" | "state_bit S_Offscreen = 3"
| "state_bit S_Invisible = 4" | "state_bit S_ReadOnly = 5" | "state_bit S_Required = 6" | "state_bit S_Selected = 7"
| "state_bit S_Selectable = 8" | "state_bit S_Expanded = 9" | "state_bit S_Expandable = 10" | "state_bit S_Checked = 11"
| "state_bit S_Mixed = 12" | "state_bit S_Pressed = 13" | "state_bit S_Password = 14" | "state_bit S_Multiline = 15"
| "state_bit S_HasPopup = 16" | "state_bit S_Modal = 17" | "state_bit S_Busy = 18" | "state_bit S_Visited = 19"
| "state_bit S_Invalid = 20" | "state_bit S_Editable = 21" | "state_bit S_Sensitive = 22"

definition states_contain :: "64 word \<Rightarrow> NodeState \<Rightarrow> bool" where
  "states_contain flags s \<longleftrightarrow> flags AND push_bit (state_bit s) 1 \<noteq> 0"

definition actions_contain :: "64 word \<Rightarrow> NodeActionKind \<Rightarrow> bool" where
  "actions_contain flags a \<longleftrightarrow> action_index a < action_count \<and> flags AND push_bit (action_index a) 1 \<noteq> 0"

record Rect =
  rectX :: float64
  rectY :: float64
  rectWidth :: float64
  rectHeight :: float64

record AffineTransform =
  m11 :: float64
  m12 :: float64
  m21 :: float64
  m22 :: float64
  tx :: float64
  ty :: float64

record Geometry =
  localBounds :: Rect
  toWindow :: AffineTransform
  clippingBounds :: "Rect option"
  geometryVisible :: bool
  hitTestable :: bool
  hitTestOrder :: nat

record TextRange =
  rangeBegin :: nat
  rangeEnd :: nat

datatype TextDirection = TD_Unspecified | TD_LeftToRight | TD_RightToLeft | TD_Mixed | TD_Unnamed

datatype TextAnnotationKind = TA_Language | TA_Emphasis | TA_Spelling | TA_Link | TA_Custom | TA_Unnamed

record TextAnnotation =
  annotationRange :: TextRange
  annotationKind :: TextAnnotationKind
  annotationValue :: "byte list"
  annotationTarget :: NodeId

record TextFragment =
  fragmentRange :: TextRange
  fragmentBounds :: Rect

record TextContent =
  contentUtf8 :: "byte list"
  contentDirection :: TextDirection
  contentLanguage :: "byte list"
  contentAnnotations :: "TextAnnotation list"
  contentFragments :: "TextFragment list"
  contentSelection :: "TextRange list"
  contentCaret :: "nat option"

record RangeValue =
  rangeCurrent :: float64
  rangeMinimum :: float64
  rangeMaximum :: float64
  smallChange :: float64
  largeChange :: float64

record ScrollInfo =
  horizontalScrollable :: bool
  verticalScrollable :: bool
  horizontalPercent :: float64
  verticalPercent :: float64
  horizontalViewSize :: float64
  verticalViewSize :: float64

record SelectionInfo =
  selectedNodes :: "NodeId list"
  activeNode :: NodeId
  multiSelectable :: bool
  selectionRequired :: bool

record CollectionInfo =
  rowCount :: nat
  columnCount :: nat
  rowIndex :: nat
  columnIndex :: nat
  rowSpan :: nat
  columnSpan :: nat
  positionInSet :: nat
  setSize :: nat
  itemLevel :: nat

record VirtualizationInfo =
  virtualized :: bool
  realized :: bool
  canRealize :: bool
  realizedChildCount :: nat
  totalChildCount :: nat

datatype RelationKind = RK_LabelledBy | RK_DescribedBy | RK_ControllerFor | RK_ControlledBy | RK_FlowsTo | RK_FlowsFrom | RK_Details
  | RK_ErrorMessage | RK_MemberOf | RK_RowHeaders | RK_ColumnHeaders | RK_Unnamed

fun relation_index :: "RelationKind \<Rightarrow> nat" where
  "relation_index RK_LabelledBy = 0" | "relation_index RK_DescribedBy = 1" | "relation_index RK_ControllerFor = 2"
| "relation_index RK_ControlledBy = 3" | "relation_index RK_FlowsTo = 4" | "relation_index RK_FlowsFrom = 5"
| "relation_index RK_Details = 6" | "relation_index RK_ErrorMessage = 7" | "relation_index RK_MemberOf = 8"
| "relation_index RK_RowHeaders = 9" | "relation_index RK_ColumnHeaders = 10" | "relation_index RK_Unnamed = 11"

record Relation =
  relationKind :: RelationKind
  relationTargets :: "NodeId list"

text \<open>The active payload of an extension value; the inactive fields are ignored.\<close>

datatype ExtensionValue = EV_Boolean bool | EV_Signed int | EV_Unsigned "64 word" | EV_Double float64 | EV_Utf8 "byte list"
  | EV_NodeReference NodeId | EV_List "ExtensionValue list" | EV_Unnamed

record Extension =
  namespaceName :: "byte list"
  extensionName :: "byte list"
  extensionValue :: ExtensionValue

record Node =
  nodeId :: NodeId
  nodeParent :: NodeId
  nodeRole :: Role
  nodeStates :: "64 word"
  nodeActions :: "64 word"
  nodeName :: "byte list"
  nodeDescription :: "byte list"
  nodeHelpText :: "byte list"
  nodeValue :: "byte list"
  nodeLanguage :: "byte list"
  nodeAccessKey :: "byte list"
  nodeShortcut :: "byte list"
  nodeExposure :: Exposure
  nodeChildren :: "NodeId list"
  nodeRelations :: "Relation list"
  nodeExtensions :: "Extension list"
  nodeGeometry :: "Geometry option"
  nodeRange :: "RangeValue option"
  nodeScroll :: "ScrollInfo option"
  nodeSelection :: "SelectionInfo option"
  nodeCollection :: "CollectionInfo option"
  nodeVirtualization :: "VirtualizationInfo option"
  nodeText :: "TextContent option"

abbreviation has_state :: "Node \<Rightarrow> NodeState \<Rightarrow> bool" where
  "has_state node s \<equiv> states_contain (nodeStates node) s"

record SnapshotView =
  generation :: Generation
  snapshotRoot :: NodeId
  snapshotNodes :: "Node list"

record Limits =
  maximumNodes :: nat
  maximumChildrenPerNode :: nat
  maximumRelationsPerNode :: nat
  maximumExtensionsPerNode :: nat
  maximumExtensionListItems :: nat
  maximumTextBytesPerNode :: nat
  maximumTotalTextBytes :: nat
  maximumTextAnnotationsPerNode :: nat
  maximumTextFragmentsPerNode :: nat
  maximumActionQueue :: nat
  maximumNotificationQueue :: nat
  maximumActionTextBytes :: nat
  maximumSelectionRangesPerAction :: nat
  maximumAnnouncementBytes :: nat
  maximumExtensionDepth :: nat
  maximumExtensionValuesPerNode :: nat
  maximumRelationTargetsPerNode :: nat
  maximumTextSelectionsPerNode :: nat
  maximumNativeProviders :: nat
  maximumNativeTextRanges :: nat

definition default_limits :: Limits where
  "default_limits = \<lparr>maximumNodes = 65536, maximumChildrenPerNode = 4096, maximumRelationsPerNode = 256, maximumExtensionsPerNode = 128,
     maximumExtensionListItems = 256, maximumTextBytesPerNode = 1048576, maximumTotalTextBytes = 16777216,
     maximumTextAnnotationsPerNode = 4096, maximumTextFragmentsPerNode = 4096, maximumActionQueue = 256, maximumNotificationQueue = 512,
     maximumActionTextBytes = 1048576, maximumSelectionRangesPerAction = 256, maximumAnnouncementBytes = 4096, maximumExtensionDepth = 8,
     maximumExtensionValuesPerNode = 4096, maximumRelationTargetsPerNode = 4096, maximumTextSelectionsPerNode = 256,
     maximumNativeProviders = 262144, maximumNativeTextRanges = 1024\<rparr>"

datatype ValidationIssue = I_None | I_InvalidLimits | I_ZeroGeneration | I_EmptyTree | I_InvalidRoot | I_InvalidNodeId | I_DuplicateNodeId
  | I_MissingNode | I_ParentMismatch | I_DuplicateChild | I_Cycle | I_UnreachableNode | I_InvalidRole | I_InvalidAction
  | I_InvalidRelation | I_InvalidText | I_InvalidTextRange | I_InvalidGeometry | I_InvalidValue | I_InvalidExtension
  | I_InvalidState | I_InvalidSelection | I_InvalidCollection | I_InvalidVirtualization | I_LimitExceeded

record ValidationResult =
  validationStatus :: Status
  validationIssue :: ValidationIssue
  validationNode :: NodeId
  validationIndex :: nat

definition default_node :: Node where
  "default_node = \<lparr>nodeId = 0, nodeParent = 0, nodeRole = R_Unknown, nodeStates = 0, nodeActions = 0, nodeName = [], nodeDescription = [],
     nodeHelpText = [], nodeValue = [], nodeLanguage = [], nodeAccessKey = [], nodeShortcut = [], nodeExposure = E_Normal,
     nodeChildren = [], nodeRelations = [], nodeExtensions = [], nodeGeometry = None, nodeRange = None, nodeScroll = None,
     nodeSelection = None, nodeCollection = None, nodeVirtualization = None, nodeText = None\<rparr>"

end
