(* ===== verification/Accessibility_Validation.thy ===== *)
theory Accessibility_Validation
  imports Accessibility_Types
begin

text \<open>
  \<^verbatim>\<open>engine/desktop/core/accessibility_validation.cpp\<close>: the complete validation of a submitted tree. A check takes the running state of
  the validation (text budgets, counts of incoming edges, focused nodes) and either fails with a result or passes the state on.
  The two traversals may run forever on graphs that are not trees, so their loops are partial functions; that they return is proved.
\<close>

section \<open>Checks\<close>

record ValidationState =
  totalBytes :: nat
  nodeBytes :: nat
  extensionValues :: nat
  incoming :: "nat list"
  focusedCount :: nat

type_synonym check = "ValidationState \<Rightarrow> ValidationResult + ValidationState"

definition fail :: "ValidationIssue \<Rightarrow> NodeId \<Rightarrow> nat \<Rightarrow> ValidationResult" where
  "fail issue node i = \<lparr>validationStatus = statusOf (if issue = I_LimitExceeded then SizeLimitExceeded else InvalidArgument),
     validationIssue = issue, validationNode = node, validationIndex = i\<rparr>"

definition valid_result :: ValidationResult where
  "valid_result = \<lparr>validationStatus = successStatus, validationIssue = I_None, validationNode = 0, validationIndex = 0\<rparr>"

definition require :: "bool \<Rightarrow> ValidationResult \<Rightarrow> check" where
  "require c r s = (if c then Inr s else Inl r)"

definition and_then :: "check \<Rightarrow> check \<Rightarrow> check" where
  "and_then f g s = (case f s of Inl r \<Rightarrow> Inl r | Inr s \<Rightarrow> g s)"

fun all_checks :: "check list \<Rightarrow> check" where
  "all_checks [] s = Inr s"
| "all_checks (f # fs) s = and_then f (all_checks fs) s"

definition when_some :: "'a option \<Rightarrow> ('a \<Rightarrow> check) \<Rightarrow> check" where
  "when_some v f s = (case v of None \<Rightarrow> Inr s | Some x \<Rightarrow> f x s)"

section \<open>Primitive validation and resource budgets\<close>

definition validUtf8 :: "byte list \<Rightarrow> bool" where
  "validUtf8 v \<longleftrightarrow> validationOutcome8 (Utf8_validate v) = V_Valid"

abbreviation nonnegative :: "float64 \<Rightarrow> bool" where
  "nonnegative v \<equiv> double_le (DFin 0) v"

definition validRect :: "Rect \<Rightarrow> bool" where
  "validRect r \<longleftrightarrow> double_finite (rectX r) \<and> double_finite (rectY r) \<and> double_finite (rectWidth r) \<and> double_finite (rectHeight r) \<and>
    nonnegative (rectWidth r) \<and> nonnegative (rectHeight r) \<and>
    double_finite (double_add (rectX r) (rectWidth r)) \<and> double_finite (double_add (rectY r) (rectHeight r))"

definition budget_string :: "Limits \<Rightarrow> byte list \<Rightarrow> ValidationState \<Rightarrow> ValidationIssue \<times> ValidationState" where
  "budget_string limits v s =
    (if length v > maximumTextBytesPerNode limits \<or> length v > maximumTotalTextBytes limits \<or>
        nodeBytes s + length v > maximumTextBytesPerNode limits \<or> totalBytes s + length v > maximumTotalTextBytes limits
     then (I_LimitExceeded, s)
     else if \<not> validUtf8 v then (I_InvalidText, s)
     else (I_None, s\<lparr>nodeBytes := nodeBytes s + length v, totalBytes := totalBytes s + length v\<rparr>))"

fun budget_extension :: "Limits \<Rightarrow> ExtensionValue \<Rightarrow> nat \<Rightarrow> ValidationState \<Rightarrow> ValidationIssue \<times> ValidationState"
  and budget_extensions :: "Limits \<Rightarrow> ExtensionValue list \<Rightarrow> nat \<Rightarrow> ValidationState \<Rightarrow> ValidationIssue \<times> ValidationState" where
  "budget_extension limits v depth s =
    (let s = s\<lparr>extensionValues := extensionValues s + 1\<rparr> in
     if extensionValues s > maximumExtensionValuesPerNode limits \<or> depth > maximumExtensionDepth limits then (I_LimitExceeded, s)
     else case v of
       EV_Boolean _ \<Rightarrow> (I_None, s) | EV_Signed _ \<Rightarrow> (I_None, s) | EV_Unsigned _ \<Rightarrow> (I_None, s)
     | EV_Double d \<Rightarrow> (if double_finite d then I_None else I_InvalidExtension, s)
     | EV_Utf8 t \<Rightarrow> budget_string limits t s
     | EV_NodeReference n \<Rightarrow> (if n \<noteq> 0 then I_None else I_InvalidExtension, s)
     | EV_List vs \<Rightarrow> if length vs > maximumExtensionListItems limits then (I_LimitExceeded, s) else budget_extensions limits vs (depth + 1) s
     | EV_Unnamed \<Rightarrow> (I_InvalidExtension, s))"
| "budget_extensions limits [] depth s = (I_None, s)"
| "budget_extensions limits (v # vs) depth s =
    (case budget_extension limits v depth s of (issue, s) \<Rightarrow> if issue \<noteq> I_None then (issue, s) else budget_extensions limits vs depth s)"

definition budgeted :: "(ValidationState \<Rightarrow> ValidationIssue \<times> ValidationState) \<Rightarrow> NodeId \<Rightarrow> nat \<Rightarrow> check" where
  "budgeted f node i s = (case f s of (issue, s) \<Rightarrow> if issue \<noteq> I_None then Inl (fail issue node i) else Inr s)"

definition int32_max :: nat where
  "int32_max = 2 ^ 31 - 1"

definition validLimits :: "Limits \<Rightarrow> bool" where
  "validLimits l \<longleftrightarrow>
    list_all (\<lambda>v. v \<noteq> 0 \<and> v \<le> int32_max)
      [maximumNodes l, maximumChildrenPerNode l, maximumRelationsPerNode l, maximumExtensionsPerNode l, maximumExtensionListItems l,
       maximumTextBytesPerNode l, maximumTotalTextBytes l, maximumTextAnnotationsPerNode l, maximumTextFragmentsPerNode l,
       maximumActionQueue l, maximumNotificationQueue l, maximumActionTextBytes l, maximumSelectionRangesPerAction l,
       maximumAnnouncementBytes l, maximumExtensionDepth l, maximumExtensionValuesPerNode l, maximumRelationTargetsPerNode l,
       maximumTextSelectionsPerNode l, maximumNativeProviders l, maximumNativeTextRanges l] \<and>
    maximumExtensionDepth l \<le> 32 \<and> maximumNativeProviders l \<ge> maximumNodes l"

section \<open>The identity index\<close>

text \<open>Sorting the pairs of identity and position, which are emplaced in order of position, by identity alone gives the same list.\<close>

definition node_index :: "Node list \<Rightarrow> (NodeId \<times> nat) list" where
  "node_index nodes = sort_key fst (map (\<lambda>i. (nodeId (nodes ! i), i)) [0..<length nodes])"

definition find_node :: "(NodeId \<times> nat) list \<Rightarrow> NodeId \<Rightarrow> nat" where
  "find_node index k =
    (let found = lower_bound_by (\<lambda>entry. fst entry < k) index in
     if found < length index \<and> fst (index ! found) = k then snd (index ! found) else length index)"

fun first_duplicate :: "(NodeId \<times> nat) list \<Rightarrow> (NodeId \<times> nat) option" where
  "first_duplicate (a # b # rest) = (if fst a = fst b then Some b else first_duplicate (b # rest))"
| "first_duplicate _ = None"

fun has_adjacent :: "'a list \<Rightarrow> bool" where
  "has_adjacent (a # b # rest) \<longleftrightarrow> a = b \<or> has_adjacent (b # rest)"
| "has_adjacent _ \<longleftrightarrow> False"

definition binary_search :: "'a::linorder list \<Rightarrow> 'a \<Rightarrow> bool" where
  "binary_search xs v = (let i = lower_bound_by (\<lambda>x. x < v) xs in i < length xs \<and> \<not> v < xs ! i)"

fun first_zero :: "Node list \<Rightarrow> nat \<Rightarrow> nat option" where
  "first_zero [] i = None"
| "first_zero (node # nodes) i = (if nodeId node = 0 then Some i else first_zero nodes (i + 1))"

section \<open>One node\<close>

definition check_states :: "Node \<Rightarrow> nat \<Rightarrow> check" where
  "check_states node i = all_checks
    [require (nodeRole node \<noteq> R_Unnamed) (fail I_InvalidRole (nodeId node) i),
     require (\<not> (drop_bit 23 (nodeStates node) \<noteq> 0 \<or> has_state node S_Focused \<and> \<not> has_state node S_Focusable \<or>
                 has_state node S_Mixed \<and> has_state node S_Checked)) (fail I_InvalidState (nodeId node) i),
     (\<lambda>s. if has_state node S_Focused
           then let s = s\<lparr>focusedCount := focusedCount s + 1\<rparr> in
             if focusedCount s > 1 then Inl (fail I_InvalidState (nodeId node) i) else Inr s
           else Inr s),
     require (drop_bit action_count (nodeActions node) = 0) (fail I_InvalidAction (nodeId node) i),
     require (nodeExposure node \<noteq> E_Unnamed) (fail I_InvalidValue (nodeId node) i)]"

definition node_strings :: "Node \<Rightarrow> byte list list" where
  "node_strings node = [nodeName node, nodeDescription node, nodeHelpText node, nodeValue node, nodeLanguage node, nodeAccessKey node, nodeShortcut node]"

definition check_strings :: "Limits \<Rightarrow> Node \<Rightarrow> nat \<Rightarrow> check" where
  "check_strings limits node i = all_checks
    (map (\<lambda>v. budgeted (budget_string limits v) (nodeId node) i) (node_strings node) @
     [require (0 \<notin> set (nodeLanguage node)) (fail I_InvalidText (nodeId node) i)])"

definition check_child :: "Node list \<Rightarrow> (NodeId \<Rightarrow> nat) \<Rightarrow> Node \<Rightarrow> nat \<Rightarrow> NodeId \<Rightarrow> check" where
  "check_child nodes locate node i child s =
    (let childIndex = locate child in
     if childIndex = length nodes then Inl (fail I_MissingNode (nodeId node) i)
     else if nodeParent (nodes ! childIndex) \<noteq> nodeId node then Inl (fail I_ParentMismatch child i)
     else let s = s\<lparr>incoming := (incoming s)[childIndex := incoming s ! childIndex + 1]\<rparr> in
       if incoming s ! childIndex > 1 then Inl (fail I_ParentMismatch child i) else Inr s)"

definition check_children :: "Limits \<Rightarrow> Node list \<Rightarrow> (NodeId \<Rightarrow> nat) \<Rightarrow> nat \<Rightarrow> Node \<Rightarrow> nat \<Rightarrow> check" where
  "check_children limits nodes locate rootIndex node i = all_checks
    ([require (length (nodeChildren node) \<le> maximumChildrenPerNode limits \<and> length (nodeRelations node) \<le> maximumRelationsPerNode limits \<and>
        length (nodeExtensions node) \<le> maximumExtensionsPerNode limits) (fail I_LimitExceeded (nodeId node) i),
      require (\<not> has_adjacent (sort (nodeChildren node))) (fail I_DuplicateChild (nodeId node) i)] @
     map (check_child nodes locate node i) (nodeChildren node) @
     [require (\<not> (i \<noteq> rootIndex \<and> (nodeParent node = 0 \<or> locate (nodeParent node) = length nodes))) (fail I_ParentMismatch (nodeId node) i)])"

fun check_relations :: "Limits \<Rightarrow> nat \<Rightarrow> (NodeId \<Rightarrow> nat) \<Rightarrow> NodeId \<Rightarrow> nat \<Rightarrow> Relation list \<Rightarrow> nat \<Rightarrow> 64 word \<Rightarrow> check" where
  "check_relations limits n locate node i [] targetCount kinds s = Inr s"
| "check_relations limits n locate node i (r # rs) targetCount kinds s =
    (if relationKind r = RK_Unnamed \<or> relationTargets r = [] then Inl (fail I_InvalidRelation node i)
     else let kind = push_bit (relation_index (relationKind r)) 1 in
     if kinds AND kind \<noteq> 0 then Inl (fail I_InvalidRelation node i)
     else if targetCount + length (relationTargets r) > maximumRelationTargetsPerNode limits then Inl (fail I_LimitExceeded node i)
     else if has_adjacent (sort (relationTargets r)) then Inl (fail I_InvalidRelation node i)
     else if list_ex (\<lambda>t. locate t = n) (relationTargets r) then Inl (fail I_MissingNode node i)
     else check_relations limits n locate node i rs (targetCount + length (relationTargets r)) (kinds OR kind) s)"

fun checkReferences :: "nat \<Rightarrow> (NodeId \<Rightarrow> nat) \<Rightarrow> ExtensionValue \<Rightarrow> bool" where
  "checkReferences n locate (EV_NodeReference v) \<longleftrightarrow> locate v \<noteq> n"
| "checkReferences n locate (EV_List vs) \<longleftrightarrow> list_all (checkReferences n locate) vs"
| "checkReferences n locate _ \<longleftrightarrow> True"

definition check_extension :: "Limits \<Rightarrow> nat \<Rightarrow> (NodeId \<Rightarrow> nat) \<Rightarrow> Node \<Rightarrow> nat \<Rightarrow> check" where
  "check_extension limits n locate node e =
    (let x = nodeExtensions node ! e in all_checks
      [require (namespaceName x \<noteq> [] \<and> extensionName x \<noteq> []) (fail I_InvalidExtension (nodeId node) e),
       require (\<not> list_ex (\<lambda>y. namespaceName y = namespaceName x \<and> extensionName y = extensionName x) (take e (nodeExtensions node)))
         (fail I_InvalidExtension (nodeId node) e),
       budgeted (budget_string limits (namespaceName x)) (nodeId node) e,
       budgeted (budget_string limits (extensionName x)) (nodeId node) e,
       budgeted (budget_extension limits (extensionValue x) 0) (nodeId node) e,
       require (checkReferences n locate (extensionValue x)) (fail I_MissingNode (nodeId node) e)])"

definition corners :: "Geometry \<Rightarrow> (float64 \<times> float64) list" where
  "corners g =
    (let b = localBounds g; t = toWindow g in
     concat (map (\<lambda>x. map (\<lambda>y.
       (double_add (double_add (double_mul (m11 t) x) (double_mul (m21 t) y)) (tx t),
        double_add (double_add (double_mul (m12 t) x) (double_mul (m22 t) y)) (ty t)))
       [rectY b, double_add (rectY b) (rectHeight b)]) [rectX b, double_add (rectX b) (rectWidth b)]))"

definition validGeometry :: "Geometry \<Rightarrow> bool" where
  "validGeometry g =
    (let t = toWindow g in
     if \<not> validRect (localBounds g) \<or> (case clippingBounds g of None \<Rightarrow> False | Some c \<Rightarrow> \<not> validRect c) \<or>
        \<not> list_all double_finite [m11 t, m12 t, m21 t, m22 t, tx t, ty t] then False
     else let determinant = double_sub (double_mul (m11 t) (m22 t)) (double_mul (m12 t) (m21 t)) in
     if \<not> double_finite determinant \<or> hitTestable g \<and> double_eq determinant (DFin 0) then False
     else if \<not> list_all (\<lambda>(x, y). double_finite x \<and> double_finite y) (corners g) then False
     else let left = foldl (\<lambda>a p. double_min a (fst p)) double_greatest (corners g);
              right = foldl (\<lambda>a p. double_max a (fst p)) (double_neg double_greatest) (corners g);
              upper = foldl (\<lambda>a p. double_min a (snd p)) double_greatest (corners g);
              bottom = foldl (\<lambda>a p. double_max a (snd p)) (double_neg double_greatest) (corners g) in
       double_finite (double_sub right left) \<and> double_finite (double_sub bottom upper))"

definition validRangeValue :: "RangeValue \<Rightarrow> bool" where
  "validRangeValue r \<longleftrightarrow>
    \<not> (\<not> list_all double_finite [rangeCurrent r, rangeMinimum r, rangeMaximum r, smallChange r, largeChange r] \<or>
       double_less (rangeCurrent r) (rangeMinimum r) \<or> double_less (rangeMaximum r) (rangeCurrent r) \<or>
       double_less (smallChange r) (DFin 0) \<or> double_less (largeChange r) (DFin 0))"

definition validScroll :: "ScrollInfo \<Rightarrow> bool" where
  "validScroll c = list_all (\<lambda>v. \<not> (\<not> double_finite v \<or> double_less v (DFin 0) \<or> double_less (double_of_nat 100) v))
    [horizontalPercent c, verticalPercent c, horizontalViewSize c, verticalViewSize c]"

definition check_selection :: "Limits \<Rightarrow> Node list \<Rightarrow> (NodeId \<Rightarrow> nat) \<Rightarrow> Node \<Rightarrow> nat \<Rightarrow> SelectionInfo \<Rightarrow> check" where
  "check_selection limits nodes locate node i c =
    (let selected = sort (selectedNodes c) in all_checks
      [require (\<not> (\<not> multiSelectable c \<and> length (selectedNodes c) > 1 \<or> selectionRequired c \<and> selectedNodes c = []))
         (fail I_InvalidSelection (nodeId node) i),
       require (length (selectedNodes c) \<le> maximumNodes limits) (fail I_LimitExceeded (nodeId node) i),
       require (\<not> has_adjacent selected) (fail I_InvalidSelection (nodeId node) i),
       require (\<not> (activeNode c \<noteq> 0 \<and> \<not> binary_search selected (activeNode c))) (fail I_InvalidSelection (nodeId node) i),
       require (list_all (\<lambda>k. locate k \<noteq> length nodes \<and> has_state (nodes ! locate k) S_Selected \<and> has_state (nodes ! locate k) S_Selectable) selected)
         (fail I_InvalidSelection (nodeId node) i)])"

definition validCollection :: "CollectionInfo \<Rightarrow> bool" where
  "validCollection c \<longleftrightarrow>
    list_all (\<lambda>v. v \<le> int32_max)
      [rowCount c, columnCount c, rowIndex c, columnIndex c, rowSpan c, columnSpan c, positionInSet c, setSize c, itemLevel c] \<and>
    \<not> (rowSpan c = 0 \<or> columnSpan c = 0 \<or>
       rowCount c \<noteq> 0 \<and> (rowIndex c \<ge> rowCount c \<or> rowSpan c > rowCount c - rowIndex c) \<or>
       columnCount c \<noteq> 0 \<and> (columnIndex c \<ge> columnCount c \<or> columnSpan c > columnCount c - columnIndex c) \<or>
       setSize c \<noteq> 0 \<and> positionInSet c > setSize c \<or> rowCount c > int32_max \<or> columnCount c > int32_max)"

definition validVirtualization :: "Node \<Rightarrow> VirtualizationInfo \<Rightarrow> bool" where
  "validVirtualization node v \<longleftrightarrow>
    \<not> (realizedChildCount v > totalChildCount v \<or> realizedChildCount v > length (nodeChildren node) \<or> \<not> realized v \<and> \<not> virtualized v \<or>
       canRealize v \<and> \<not> actions_contain (nodeActions node) AK_Realize)"

definition check_values :: "Limits \<Rightarrow> Node list \<Rightarrow> (NodeId \<Rightarrow> nat) \<Rightarrow> Node \<Rightarrow> nat \<Rightarrow> check" where
  "check_values limits nodes locate node i = all_checks
    [when_some (nodeGeometry node) (\<lambda>g. require (validGeometry g) (fail I_InvalidGeometry (nodeId node) i)),
     when_some (nodeRange node) (\<lambda>r. require (validRangeValue r) (fail I_InvalidValue (nodeId node) i)),
     when_some (nodeScroll node) (\<lambda>c. require (validScroll c) (fail I_InvalidValue (nodeId node) i)),
     when_some (nodeSelection node) (check_selection limits nodes locate node i),
     when_some (nodeCollection node) (\<lambda>c. require (validCollection c) (fail I_InvalidCollection (nodeId node) i)),
     when_some (nodeVirtualization node) (\<lambda>v. require (validVirtualization node v) (fail I_InvalidVirtualization (nodeId node) i))]"

definition text_boundaries :: "byte list \<Rightarrow> nat list" where
  "text_boundaries t = (case cursor_reset t (replicate (length t + 1) 0) of (r, cursor, storage) \<Rightarrow> take (requiredBoundaryCount r) storage)"

definition validRange :: "byte list \<Rightarrow> nat list \<Rightarrow> TextRange \<Rightarrow> bool" where
  "validRange t bs r \<longleftrightarrow> rangeBegin r \<le> rangeEnd r \<and> rangeEnd r \<le> length t \<and> binary_search bs (rangeBegin r) \<and> binary_search bs (rangeEnd r)"

definition check_annotation :: "Limits \<Rightarrow> nat \<Rightarrow> (NodeId \<Rightarrow> nat) \<Rightarrow> Node \<Rightarrow> nat \<Rightarrow> (TextRange \<Rightarrow> bool) \<Rightarrow> TextAnnotation \<Rightarrow> check" where
  "check_annotation limits n locate node i validR a = all_checks
    [require (validR (annotationRange a)) (fail I_InvalidTextRange (nodeId node) i),
     require (annotationKind a \<noteq> TA_Unnamed) (fail I_InvalidText (nodeId node) i),
     require (\<not> (annotationKind a = TA_Language \<and> 0 \<in> set (annotationValue a))) (fail I_InvalidText (nodeId node) i),
     require (\<not> (annotationTarget a \<noteq> 0 \<and> locate (annotationTarget a) = n)) (fail I_MissingNode (nodeId node) i),
     budgeted (budget_string limits (annotationValue a)) (nodeId node) i]"

definition check_text :: "Limits \<Rightarrow> nat \<Rightarrow> (NodeId \<Rightarrow> nat) \<Rightarrow> Node \<Rightarrow> nat \<Rightarrow> TextContent \<Rightarrow> check" where
  "check_text limits n locate node i t =
    (let validR = validRange (contentUtf8 t) (text_boundaries (contentUtf8 t)) in all_checks
      ([budgeted (budget_string limits (contentUtf8 t)) (nodeId node) i,
        budgeted (budget_string limits (contentLanguage t)) (nodeId node) i,
        require (0 \<notin> set (contentLanguage t)) (fail I_InvalidText (nodeId node) i),
        require (contentDirection t \<noteq> TD_Unnamed) (fail I_InvalidText (nodeId node) i),
        require (length (contentAnnotations t) \<le> maximumTextAnnotationsPerNode limits \<and>
            length (contentFragments t) \<le> maximumTextFragmentsPerNode limits \<and>
            length (contentSelection t) \<le> maximumTextSelectionsPerNode limits) (fail I_LimitExceeded (nodeId node) i),
        require (\<not> (length (contentSelection t) > 1 \<and> (case nodeSelection node of None \<Rightarrow> True | Some c \<Rightarrow> \<not> multiSelectable c)))
          (fail I_InvalidSelection (nodeId node) i)] @
       map (check_annotation limits n locate node i validR) (contentAnnotations t) @
       [require (list_all (\<lambda>f. validR (fragmentRange f) \<and> validRect (fragmentBounds f)) (contentFragments t))
          (fail I_InvalidTextRange (nodeId node) i),
        require (list_all validR (contentSelection t)) (fail I_InvalidTextRange (nodeId node) i),
        when_some (contentCaret t) (\<lambda>c. require (validR \<lparr>rangeBegin = c, rangeEnd = c\<rparr>) (fail I_InvalidTextRange (nodeId node) i))]))"

definition check_node :: "Limits \<Rightarrow> Node list \<Rightarrow> (NodeId \<Rightarrow> nat) \<Rightarrow> nat \<Rightarrow> nat \<Rightarrow> check" where
  "check_node limits nodes locate rootIndex i =
    (let node = nodes ! i; n = length nodes in all_checks
      ([\<lambda>s. Inr (s\<lparr>nodeBytes := 0, extensionValues := 0\<rparr>),
        check_states node i,
        check_strings limits node i,
        check_children limits nodes locate rootIndex node i,
        check_relations limits n locate (nodeId node) i (nodeRelations node) 0 0] @
       map (check_extension limits n locate node) [0..<length (nodeExtensions node)] @
       [check_values limits nodes locate node i,
        when_some (nodeText node) (check_text limits n locate node i)]))"

section \<open>The whole tree\<close>

text \<open>The breadth-first search: the first node met twice, or the order of the search.\<close>

partial_function (option) search_loop :: "(nat \<Rightarrow> nat list) \<Rightarrow> nat list \<Rightarrow> nat \<Rightarrow> bool list \<Rightarrow> (nat + nat list) option" where
  "search_loop kids work cursor visited =
    (if cursor < length work
     then let i = work ! cursor in
       if visited ! i then Some (Inl i) else search_loop kids (work @ kids i) (cursor + 1) (visited[i := True])
     else Some (Inr work))"

record Traversal =
  traversalOrder :: "nat list"
  ordinalOf :: "nat list"
  gridOf :: "nat list"

definition start_traversal :: "nat \<Rightarrow> Traversal" where
  "start_traversal n = \<lparr>traversalOrder = [], ordinalOf = replicate n 0, gridOf = replicate n n\<rparr>"

definition is_grid :: "Node \<Rightarrow> bool" where
  "is_grid node \<longleftrightarrow> nodeRole node = R_Table \<and> nodeCollection node \<noteq> None"

definition visit :: "Node list \<Rightarrow> (NodeId \<Rightarrow> nat) \<Rightarrow> nat \<Rightarrow> Traversal \<Rightarrow> Traversal" where
  "visit nodes locate i t =
    \<lparr>traversalOrder = traversalOrder t @ [i],
     ordinalOf = (ordinalOf t)[i := length (traversalOrder t)],
     gridOf = (if nodeParent (nodes ! i) \<noteq> 0
               then let p = locate (nodeParent (nodes ! i)) in (gridOf t)[i := if is_grid (nodes ! p) then p else gridOf t ! p]
               else gridOf t)\<rparr>"

text \<open>The stack has its top at the head; pushing the children in reverse order leaves the first child on top.\<close>

partial_function (option) traverse_loop :: "Node list \<Rightarrow> (NodeId \<Rightarrow> nat) \<Rightarrow> nat list \<Rightarrow> Traversal \<Rightarrow> Traversal option" where
  "traverse_loop nodes locate stack t =
    (case stack of
       [] \<Rightarrow> Some t
     | i # rest \<Rightarrow> traverse_loop nodes locate (map locate (nodeChildren (nodes ! i)) @ rest) (visit nodes locate i t))"

definition subtree_sizes :: "Node list \<Rightarrow> (NodeId \<Rightarrow> nat) \<Rightarrow> nat list \<Rightarrow> nat list" where
  "subtree_sizes nodes locate order =
    foldl (\<lambda>sizes i. if nodeParent (nodes ! i) \<noteq> 0
                      then let p = locate (nodeParent (nodes ! i)) in sizes[p := sizes ! p + sizes ! i] else sizes)
      (replicate (length nodes) 1) (rev order)"

definition fits_grid :: "CollectionInfo \<Rightarrow> CollectionInfo \<Rightarrow> bool" where
  "fits_grid item container \<longleftrightarrow>
    \<not> (rowIndex item \<ge> rowCount container \<or> rowSpan item > rowCount container - rowIndex item \<or>
       columnIndex item \<ge> columnCount container \<or> columnSpan item > columnCount container - columnIndex item)"

definition check_containment :: "Node list \<Rightarrow> (NodeId \<Rightarrow> nat) \<Rightarrow> Traversal \<Rightarrow> nat list \<Rightarrow> nat \<Rightarrow> check" where
  "check_containment nodes locate t sizes i =
    (let node = nodes ! i in all_checks
      [when_some (nodeSelection node) (\<lambda>c. require
         (list_all (\<lambda>k. let position = ordinalOf t ! locate k in \<not> (position \<le> ordinalOf t ! i \<or> position \<ge> ordinalOf t ! i + sizes ! i)) (selectedNodes c))
         (fail I_InvalidSelection (nodeId node) i)),
       when_some (nodeCollection node) (\<lambda>item. require
         (\<not> (gridOf t ! i < length nodes \<and> nodeRole node \<in> {R_Cell, R_RowHeader, R_ColumnHeader} \<and>
             \<not> fits_grid item (the (nodeCollection (nodes ! (gridOf t ! i))))))
         (fail I_InvalidCollection (nodeId node) i))])"

definition start_validation :: "nat \<Rightarrow> ValidationState" where
  "start_validation n = \<lparr>totalBytes = 0, nodeBytes = 0, extensionValues = 0, incoming = replicate n 0, focusedCount = 0\<rparr>"

definition check_incoming :: "SnapshotView \<Rightarrow> nat \<Rightarrow> check" where
  "check_incoming v rootIndex = all_checks
    ((\<lambda>s. require (incoming s ! rootIndex = 0) (fail I_Cycle (snapshotRoot v) 0) s) #
     map (\<lambda>i s. require (\<not> (i \<noteq> rootIndex \<and> incoming s ! i \<noteq> 1)) (fail I_ParentMismatch (nodeId (snapshotNodes v ! i)) i) s) [0..<length (snapshotNodes v)])"

definition check_shape :: "Node list \<Rightarrow> (NodeId \<Rightarrow> nat) \<Rightarrow> nat \<Rightarrow> ValidationState \<Rightarrow> ValidationResult option" where
  "check_shape nodes locate rootIndex s =
    (let n = length nodes in
     case search_loop (\<lambda>i. map locate (nodeChildren (nodes ! i))) [rootIndex] 0 (replicate n False) of
       None \<Rightarrow> None
     | Some (Inl i) \<Rightarrow> Some (fail I_Cycle (nodeId (nodes ! i)) i)
     | Some (Inr work) \<Rightarrow>
         if length work \<noteq> n then Some (fail I_UnreachableNode 0 0)
         else case traverse_loop nodes locate [rootIndex] (start_traversal n) of
           None \<Rightarrow> None
         | Some t \<Rightarrow>
             (case all_checks (map (check_containment nodes locate t (subtree_sizes nodes locate (traversalOrder t))) [0..<n]) s of
                Inl r \<Rightarrow> Some r | Inr _ \<Rightarrow> Some valid_result))"

definition validate :: "SnapshotView \<Rightarrow> Limits \<Rightarrow> ValidationResult option" where
  "validate v limits =
    (let nodes = snapshotNodes v; n = length nodes; index = node_index nodes; locate = find_node index; rootIndex = locate (snapshotRoot v) in
     if \<not> validLimits limits then Some (fail I_InvalidLimits 0 0)
     else if generation v = 0 then Some (fail I_ZeroGeneration 0 0)
     else if nodes = [] then Some (fail I_EmptyTree 0 0)
     else if n > maximumNodes limits then Some (fail I_LimitExceeded 0 0)
     else case first_zero nodes 0 of Some i \<Rightarrow> Some (fail I_InvalidNodeId 0 i)
     | None \<Rightarrow>
     case first_duplicate index of Some (k, i) \<Rightarrow> Some (fail I_DuplicateNodeId k i)
     | None \<Rightarrow>
     if rootIndex = n \<or> nodeParent (nodes ! rootIndex) \<noteq> 0 then Some (fail I_InvalidRoot (snapshotRoot v) 0)
     else case all_checks (map (check_node limits nodes locate rootIndex) [0..<n] @ [check_incoming v rootIndex]) (start_validation n) of
       Inl r \<Rightarrow> Some r
     | Inr s \<Rightarrow> check_shape nodes locate rootIndex s)"

end
