(* ===== verification/Accessibility_Tree.thy ===== *)
theory Accessibility_Tree
  imports Accessibility_Validation
begin

text \<open>
  The traversals of \<^verbatim>\<open>accessibility_validation.cpp\<close> on graphs in which every node has at most one parent: the breadth-first search
  returns the nodes reachable from the root, and on a tree the depth-first traversal gives every subtree an interval of ordinals.
\<close>

section \<open>Graphs with single parents\<close>

definition edge :: "nat \<Rightarrow> (nat \<Rightarrow> nat list) \<Rightarrow> nat \<Rightarrow> nat \<Rightarrow> bool" where
  "edge n kids i k \<longleftrightarrow> i < n \<and> k \<in> set (kids i)"

abbreviation below :: "nat \<Rightarrow> (nat \<Rightarrow> nat list) \<Rightarrow> nat \<Rightarrow> nat \<Rightarrow> bool" where
  "below n kids \<equiv> (edge n kids)\<^sup>*\<^sup>*"

text \<open>Edges stay among the nodes, children are distinct, no node has two parents and the root has none.\<close>

definition single_parents :: "nat \<Rightarrow> (nat \<Rightarrow> nat list) \<Rightarrow> nat \<Rightarrow> bool" where
  "single_parents n kids r \<longleftrightarrow> r < n \<and> (\<forall>i < n. distinct (kids i) \<and> r \<notin> set (kids i) \<and> (\<forall>k \<in> set (kids i). k < n)) \<and>
    (\<forall>i j k. edge n kids i k \<and> edge n kids j k \<longrightarrow> i = j)"

lemma single_parentsD:
  assumes "single_parents n kids r"
  shows "r < n" "i < n \<Longrightarrow> distinct (kids i)" "edge n kids i k \<Longrightarrow> k < n \<and> k \<noteq> r" "edge n kids i k \<Longrightarrow> edge n kids j k \<Longrightarrow> i = j"
  using assms unfolding single_parents_def edge_def by blast+

section \<open>Breadth-first search\<close>

text \<open>What holds when the search has handled the first \<open>c\<close> entries of \<open>work\<close>.\<close>

definition search_inv :: "nat \<Rightarrow> (nat \<Rightarrow> nat list) \<Rightarrow> nat \<Rightarrow> nat list \<Rightarrow> nat \<Rightarrow> bool list \<Rightarrow> bool" where
  "search_inv n kids r work c visited \<longleftrightarrow> c \<le> length work \<and> distinct work \<and> set work \<subseteq> {..<n} \<and> length visited = n \<and>
    (\<forall>i < n. visited ! i \<longleftrightarrow> i \<in> set (take c work)) \<and>
    set work = insert r (\<Union>i \<in> set (take c work). set (kids i)) \<and> r \<in> set work \<and>
    (\<forall>w \<in> set work. below n kids r w) \<and>
    (\<forall>j < c. \<forall>k \<in> set (kids (work ! j)). \<exists>p. j < p \<and> p < length work \<and> work ! p = k)"

lemma search_inv_step:
  assumes g: "single_parents n kids r" and inv: "search_inv n kids r work c visited" and c: "c < length work"
  shows "\<not> visited ! (work ! c)" "search_inv n kids r (work @ kids (work ! c)) (c + 1) (visited[work ! c := True])"
proof -
  let ?i = "work ! c"
  have i: "?i < n" "?i \<in> set work" using inv c by (auto simp: search_inv_def)
  have fresh: "?i \<notin> set (take c work)" using inv c by (auto simp: search_inv_def in_set_conv_nth nth_eq_iff_index_eq)
  then show "\<not> visited ! ?i" using inv i by (simp add: search_inv_def)
  have take: "take (c + 1) work = take c work @ [?i]" using c by (simp add: take_Suc_conv_app_nth)
  have new: "k \<notin> set work" if "k \<in> set (kids ?i)" for k
  proof
    assume "k \<in> set work"
    have k: "edge n kids ?i k" using that i by (simp add: edge_def)
    then have "k \<noteq> r" using single_parentsD(3) [OF g] by blast
    then obtain j where j: "j \<in> set (take c work)" "k \<in> set (kids j)" using inv \<open>k \<in> set work\<close> by (auto simp: search_inv_def)
    then have "edge n kids j k" using inv by (auto simp: search_inv_def edge_def dest: in_set_takeD)
    then have "j = ?i" using single_parentsD(4) [OF g] k by blast
    then show False using j fresh by simp
  qed
  have kids: "distinct (kids ?i)" "set (kids ?i) \<subseteq> {..<n}"
    using single_parentsD(2) [OF g i(1)] single_parentsD(3) [OF g] i by (auto simp: edge_def)
  have reach: "below n kids r k" if "k \<in> set (kids ?i)" for k
  proof -
    have "below n kids r ?i" using inv i(2) unfolding search_inv_def by blast
    moreover have "edge n kids ?i k" using i that by (simp add: edge_def)
    ultimately show ?thesis by (rule rtranclp.rtrancl_into_rtrancl)
  qed
  have pos: "\<exists>p. j < p \<and> p < length (work @ kids ?i) \<and> (work @ kids ?i) ! p = k"
    if j: "j < c + 1" and k: "k \<in> set (kids ((work @ kids ?i) ! j))" for j k
  proof (cases "j = c")
    case True
    then have "k \<in> set (kids ?i)" using k c by (simp add: nth_append)
    then obtain q where "q < length (kids ?i)" "kids ?i ! q = k" by (auto simp: in_set_conv_nth)
    then show ?thesis using True c by (intro exI [of _ "length work + q"]) (simp add: nth_append)
  next
    case False
    then have "j < c" "(work @ kids ?i) ! j = work ! j" using j c by (simp_all add: nth_append)
    moreover have "\<forall>j < c. \<forall>k \<in> set (kids (work ! j)). \<exists>p. j < p \<and> p < length work \<and> work ! p = k"
      using inv unfolding search_inv_def by blast
    ultimately obtain p where "j < p" "p < length work" "work ! p = k" using k by metis
    then show ?thesis by (intro exI [of _ p]) (simp add: nth_append)
  qed
  have vis: "(visited[?i := True]) ! j \<longleftrightarrow> j \<in> set (take (c + 1) (work @ kids ?i))" if "j < n" for j
    using inv that i c take by (cases "j = ?i") (auto simp: search_inv_def)
  show "search_inv n kids r (work @ kids ?i) (c + 1) (visited[?i := True])"
    unfolding search_inv_def
  proof (intro conjI)
    show "set (work @ kids ?i) = insert r (\<Union>i \<in> set (take (c + 1) (work @ kids ?i)). set (kids i))"
      using inv c take by (auto simp: search_inv_def)
    show "\<forall>w \<in> set (work @ kids ?i). below n kids r w" using inv reach by (auto simp: search_inv_def)
    show "distinct (work @ kids ?i)" using inv kids(1) new by (auto simp: search_inv_def)
    show "\<forall>j < n. (visited[?i := True]) ! j \<longleftrightarrow> j \<in> set (take (c + 1) (work @ kids ?i))" using vis by blast
    show "\<forall>j < c + 1. \<forall>k \<in> set (kids ((work @ kids ?i) ! j)). \<exists>p. j < p \<and> p < length (work @ kids ?i) \<and> (work @ kids ?i) ! p = k"
      using pos by blast
    show "set (work @ kids ?i) \<subseteq> {..<n}" using inv kids(2) unfolding search_inv_def set_append by blast
  qed (use inv c in \<open>auto simp: search_inv_def\<close>)
qed

lemma search_loop_returns:
  assumes g: "single_parents n kids r" and inv: "search_inv n kids r work c visited"
  shows "\<exists>final visited'. search_loop kids work c visited = Some (Inr final) \<and> search_inv n kids r final (length final) visited'"
  using inv
proof (induction "n - c" arbitrary: work c visited rule: less_induct)
  case less
  show ?case
  proof (cases "c < length work")
    case True
    note step = search_inv_step [OF g less.prems True]
    have "distinct work" "set work \<subseteq> {..<n}" using less.prems unfolding search_inv_def by blast+
    then have "length work \<le> n" using distinct_card [of work] card_mono [of "{..<n}" "set work"] by simp
    then have "n - (c + 1) < n - c" using True by simp
    from less.hyps [OF this step(2)] show ?thesis using True step(1) by (subst search_loop.simps) (simp add: Let_def)
  next
    case False
    then have "c = length work" using less.prems by (simp add: search_inv_def)
    then show ?thesis using less.prems by (subst search_loop.simps) auto
  qed
qed

lemma search_inv_start:
  assumes "single_parents n kids r"
  shows "search_inv n kids r [r] 0 (replicate n False)"
  using single_parentsD(1) [OF assms] by (auto simp: search_inv_def)

text \<open>The order of a complete search: the nodes reachable from the root, parents before their children.\<close>

lemma search_result:
  assumes g: "single_parents n kids r"
  obtains order where "search_loop kids [r] 0 (replicate n False) = Some (Inr order)" "distinct order" "set order \<subseteq> {..<n}"
    "set order = {k. below n kids r k}"
    "\<And>i k. i < length order \<Longrightarrow> k \<in> set (kids (order ! i)) \<Longrightarrow> \<exists>p. i < p \<and> p < length order \<and> order ! p = k"
proof -
  obtain final visited where f: "search_loop kids [r] 0 (replicate n False) = Some (Inr final)"
    and inv: "search_inv n kids r final (length final) visited"
    using search_loop_returns [OF g search_inv_start [OF g]] by blast
  have "k \<in> set final" if "below n kids r k" for k
    using that by induction (use inv in \<open>auto simp: search_inv_def edge_def\<close>)
  then have "set final = {k. below n kids r k}" using inv by (auto simp: search_inv_def)
  then show thesis using that [OF f] inv by (auto simp: search_inv_def)
qed

section \<open>Preorder\<close>

inductive preorder :: "(nat \<Rightarrow> nat list) \<Rightarrow> nat \<Rightarrow> nat list \<Rightarrow> bool" for kids where
  preorder_node: "list_all2 (preorder kids) (kids i) Ls \<Longrightarrow> preorder kids i (i # concat Ls)"

text \<open>A tree: single parents, and positions that grow along edges.\<close>

definition tree_order :: "nat \<Rightarrow> (nat \<Rightarrow> nat list) \<Rightarrow> nat \<Rightarrow> (nat \<Rightarrow> nat) \<Rightarrow> bool" where
  "tree_order n kids r pos \<longleftrightarrow> single_parents n kids r \<and> (\<forall>k < n. below n kids r k \<and> pos k < n) \<and>
    (\<forall>i k. edge n kids i k \<longrightarrow> pos i < pos k)"

lemma tree_orderD:
  assumes "tree_order n kids r pos"
  shows "single_parents n kids r" "k < n \<Longrightarrow> below n kids r k" "k < n \<Longrightarrow> pos k < n" "edge n kids i k \<Longrightarrow> pos i < pos k"
  using assms unfolding tree_order_def by blast+

lemma list_all2_exists: "(\<forall>x \<in> set xs. \<exists>y. P x y) \<Longrightarrow> \<exists>ys. list_all2 P xs ys"
  by (induction xs) (auto simp: list_all2_Cons1)

lemma preorder_exists:
  assumes t: "tree_order n kids r pos" and i: "i < n"
  shows "\<exists>L. preorder kids i L"
  using i
proof (induction "n - pos i" arbitrary: i rule: less_induct)
  case less
  have "\<exists>L. preorder kids k L" if k: "k \<in> set (kids i)" for k
  proof -
    have e: "edge n kids i k" using k less.prems by (simp add: edge_def)
    then have "k < n" "pos i < pos k" "pos k < n" using tree_orderD [OF t] single_parentsD(3) [of n kids r] by blast+
    then show ?thesis using less.hyps by simp
  qed
  then obtain Ls where "list_all2 (preorder kids) (kids i) Ls" using list_all2_exists [of "kids i" "preorder kids"] by blast
  then show ?case using preorder_node by blast
qed

lemma preorder_hd: "preorder kids i L \<Longrightarrow> \<exists>M. L = i # M"
  by (auto elim: preorder.cases)

lemma below_lt: "below n kids i k \<Longrightarrow> single_parents n kids r \<Longrightarrow> i < n \<Longrightarrow> k < n"
  by (induction rule: rtranclp_induct) (auto dest: single_parentsD(3))

lemma below_step: "i < n \<Longrightarrow> below n kids i k \<longleftrightarrow> k = i \<or> (\<exists>c \<in> set (kids i). below n kids c k)"
  unfolding edge_def [abs_def] by (metis (mono_tags, lifting) converse_rtranclpE converse_rtranclp_into_rtranclp rtranclp.rtrancl_refl)

lemma mem_concat_nth: "k \<in> set (concat Ls) \<longleftrightarrow> (\<exists>j < length Ls. k \<in> set (Ls ! j))"
  by simp (metis in_set_conv_nth)

lemma preorder_set:
  assumes "preorder kids i L" "single_parents n kids r" "i < n"
  shows "set L = {k. below n kids i k}"
  using assms
proof (induction rule: preorder.induct)
  case (preorder_node i Ls)
  have len: "length Ls = length (kids i)" using preorder_node.IH by (auto dest: list_all2_lengthD)
  have sub: "set (Ls ! j) = {k. below n kids (kids i ! j) k}" if "j < length (kids i)" for j
  proof -
    have "kids i ! j < n" using that preorder_node.prems single_parentsD(3) [of n kids r i "kids i ! j"] by (simp add: edge_def)
    then show ?thesis using preorder_node.IH preorder_node.prems(1) that by (simp add: list_all2_conv_all_nth)
  qed
  have "k \<in> set (concat Ls) \<longleftrightarrow> (\<exists>c \<in> set (kids i). below n kids c k)" for k
  proof -
    have "k \<in> set (concat Ls) \<longleftrightarrow> (\<exists>j < length (kids i). below n kids (kids i ! j) k)" unfolding mem_concat_nth len using sub by auto
    then show ?thesis by (metis in_set_conv_nth)
  qed
  then show ?case using below_step [OF preorder_node.prems(2), of kids] by auto
qed

lemma below_chain:
  assumes g: "single_parents n kids r" and "below n kids a k" "below n kids b k"
  shows "below n kids a b \<or> below n kids b a"
  using assms(2,3)
proof (induction rule: rtranclp_induct)
  case (step j k)
  show ?case
  proof (cases "b = k")
    case True
    then show ?thesis using step.hyps by (meson rtranclp.rtrancl_into_rtrancl)
  next
    case False
    then obtain j' where "below n kids b j'" "edge n kids j' k" using step.prems by (metis rtranclp.cases)
    then show ?thesis using step single_parentsD(4) [OF g] by blast
  qed
qed auto

lemma below_pos: "tree_order n kids r pos \<Longrightarrow> below n kids a b \<Longrightarrow> a = b \<or> pos a < pos b"
  by (rotate_tac, induction rule: rtranclp_induct) (auto dest: tree_orderD(4))

lemma siblings_disjoint:
  assumes t: "tree_order n kids r pos" and "c \<in> set (kids i)" "d \<in> set (kids i)" "i < n" "below n kids c k" "below n kids d k"
  shows "c = d"
proof -
  have e: "edge n kids i c" "edge n kids i d" using assms by (simp_all add: edge_def)
  have "b = a" if ab: "below n kids a b" and a: "edge n kids i a" and b: "edge n kids i b" for a b
  proof (rule ccontr)
    assume "b \<noteq> a"
    then obtain j where "below n kids a j" "edge n kids j b" using ab by (metis rtranclp.cases)
    then have "below n kids a i" using single_parentsD(4) [OF tree_orderD(1) [OF t]] b by blast
    then show False using below_pos [OF t] tree_orderD(4) [OF t a] by fastforce
  qed
  then show ?thesis using below_chain [OF tree_orderD(1) [OF t] assms(5,6)] e by blast
qed

lemma preorder_distinct:
  assumes "preorder kids i L" "tree_order n kids r pos" "i < n"
  shows "distinct L"
  using assms
proof (induction rule: preorder.induct)
  case (preorder_node i Ls)
  note t = preorder_node.prems(1) and i = preorder_node.prems(2)
  have g: "single_parents n kids r" using tree_orderD(1) [OF t] .
  have len: "length Ls = length (kids i)" using preorder_node.IH by (auto dest: list_all2_lengthD)
  have kid: "kids i ! j < n" "kids i ! j \<in> set (kids i)" if "j < length (kids i)" for j
    using that i single_parentsD(3) [OF g, of i "kids i ! j"] by (simp_all add: edge_def)
  have sub: "preorder kids (kids i ! j) (Ls ! j)" "distinct (Ls ! j)" if "j < length (kids i)" for j
    using preorder_node.IH kid [OF that] t that by (auto simp: list_all2_conv_all_nth)
  have set: "set (Ls ! j) = {k. below n kids (kids i ! j) k}" if "j < length (kids i)" for j
    using preorder_set [OF sub(1) [OF that] g] kid that by simp
  have dk: "distinct (kids i)" using single_parentsD(2) [OF g i] .
  have disj: "set (Ls ! j) \<inter> set (Ls ! l) = {}" if "j < length (kids i)" "l < length (kids i)" "j \<noteq> l" for j l
    using siblings_disjoint [OF t kid(2) [OF that(1)] kid(2) [OF that(2)] i] that dk set by (auto simp: nth_eq_iff_index_eq)
  have ne: "Ls ! j \<noteq> []" if "j < length (kids i)" for j using preorder_hd [OF sub(1) [OF that]] by auto
  have "distinct (concat Ls)"
  proof (rule distinct_concat)
    show "distinct Ls" unfolding distinct_conv_nth using disj ne len by (metis Int_absorb set_empty)
    show "distinct M" if "M \<in> set Ls" for M using that sub(2) len by (auto simp: in_set_conv_nth)
    show "set M \<inter> set N = {}" if "M \<in> set Ls" "N \<in> set Ls" "M \<noteq> N" for M N using that disj len by (metis in_set_conv_nth)
  qed
  moreover have "i \<notin> set (concat Ls)"
  proof
    assume "i \<in> set (concat Ls)"
    then obtain j where j: "j < length (kids i)" "below n kids (kids i ! j) i" using set len unfolding mem_concat_nth by auto
    then show False using below_pos [OF t j(2)] tree_orderD(4) [OF t, of i "kids i ! j"] kid(2) [OF j(1)] i by (auto simp: edge_def)
  qed
  ultimately show ?case by simp
qed

text \<open>The preorder of a subtree is an interval of the preorder of the tree.\<close>

lemma preorder_segment:
  assumes "preorder kids i L" "k \<in> set L"
  shows "\<exists>A M B. L = A @ M @ B \<and> preorder kids k M"
  using assms
proof (induction arbitrary: rule: preorder.induct)
  case (preorder_node i Ls)
  show ?case
  proof (cases "k = i")
    case True
    have "list_all2 (preorder kids) (kids i) Ls" using preorder_node.IH by (auto elim: list_all2_mono)
    then show ?thesis using True preorder.preorder_node [of kids i Ls] by (intro exI [of _ "[]"] exI [of _ "i # concat Ls"]) simp
  next
    case False
    then obtain j where j: "j < length Ls" "k \<in> set (Ls ! j)" using preorder_node.prems mem_concat_nth [of k Ls] by auto
    then obtain A M B where M: "Ls ! j = A @ M @ B" "preorder kids k M" using preorder_node.IH by (auto simp: list_all2_conv_all_nth)
    have "concat Ls = concat (take j Ls) @ Ls ! j @ concat (drop (Suc j) Ls)"
      by (metis concat.simps(2) concat_append id_take_nth_drop j(1))
    then show ?thesis using M by (intro exI [of _ "i # concat (take j Ls) @ A"] exI [of _ M] exI [of _ "B @ concat (drop (Suc j) Ls)"]) simp
  qed
qed

lemma segment_positions:
  assumes "distinct L" "L = A @ M @ B" "p < length L"
  shows "L ! p \<in> set M \<longleftrightarrow> length A \<le> p \<and> p < length A + length M"
proof -
  have "L ! p = M ! (p - length A)" if "length A \<le> p" "p < length A + length M"
    using that less_diff_conv2 [of "length A" p "length M"] by (simp add: assms(2) nth_append)
  then have "L ! p \<in> set M" if "length A \<le> p" "p < length A + length M"
    using that less_diff_conv2 [of "length A" p "length M"] by simp
  moreover have "L ! p \<in> set A" if "p < length A" using that by (simp add: assms(2) nth_append)
  moreover have "L ! p \<in> set B" if "length A + length M \<le> p"
  proof -
    have "\<not> p - length A < length M" using that by simp
    then have "L ! p = B ! (p - length A - length M)" "p - length A - length M < length B"
      using that assms(3) by (simp_all add: assms(2) nth_append)
    then show ?thesis by simp
  qed
  moreover have "set A \<inter> set M = {}" "set M \<inter> set B = {}" using assms(1,2) by auto
  ultimately show ?thesis by (meson disjoint_iff leI)
qed

section \<open>Depth-first traversal\<close>

lemma traverse_forest:
  assumes "list_all2 (\<lambda>c M. \<forall>stack t. traverse_loop nodes locate (c # stack) t = traverse_loop nodes locate stack (fold (visit nodes locate) M t)) cs Ls"
  shows "traverse_loop nodes locate (cs @ stack) t = traverse_loop nodes locate stack (fold (visit nodes locate) (concat Ls) t)"
  using assms by (induction arbitrary: t rule: list_all2_induct) simp_all

lemma traverse_preorder:
  assumes "preorder (\<lambda>i. map locate (nodeChildren (nodes ! i))) i L"
  shows "traverse_loop nodes locate (i # stack) t = traverse_loop nodes locate stack (fold (visit nodes locate) L t)"
  using assms
proof (induction arbitrary: stack t rule: preorder.induct)
  case (preorder_node i Ls)
  have "traverse_loop nodes locate (i # stack) t =
      traverse_loop nodes locate (map locate (nodeChildren (nodes ! i)) @ stack) (visit nodes locate i t)"
    by (subst traverse_loop.simps) simp
  also have "\<dots> = traverse_loop nodes locate stack (fold (visit nodes locate) (concat Ls) (visit nodes locate i t))"
    by (rule traverse_forest) (use preorder_node.IH in \<open>auto elim: list_all2_mono\<close>)
  finally show ?case by simp
qed

lemma visits_order: "traversalOrder (fold (visit nodes locate) L t) = traversalOrder t @ L"
  by (induction L arbitrary: t) (simp_all add: visit_def)

lemma visits_lengths [simp]:
  "length (ordinalOf (fold (visit nodes locate) L t)) = length (ordinalOf t)" "length (gridOf (fold (visit nodes locate) L t)) = length (gridOf t)"
  by (induction L arbitrary: t) (simp_all add: visit_def Let_def)

lemma visits_keep:
  "i \<notin> set L \<Longrightarrow> ordinalOf (fold (visit nodes locate) L t) ! i = ordinalOf t ! i \<and> gridOf (fold (visit nodes locate) L t) ! i = gridOf t ! i"
  by (induction L arbitrary: t) (auto simp: visit_def Let_def)

lemma visits_split:
  assumes "distinct L" "p < length L"
  shows "fold (visit nodes locate) L t = fold (visit nodes locate) (drop (Suc p) L) (visit nodes locate (L ! p) (fold (visit nodes locate) (take p L) t))"
  using assms id_take_nth_drop [of p L] by (metis comp_apply fold.simps(2) fold_append)

lemma visits_ordinal:
  assumes "distinct L" "p < length L" "L ! p < length (ordinalOf t)"
  shows "ordinalOf (fold (visit nodes locate) L t) ! (L ! p) = length (traversalOrder t) + p"
proof -
  have "L ! p \<notin> set (drop (Suc p) L)" using assms(1,2) by (auto simp: in_set_conv_nth nth_eq_iff_index_eq)
  then show ?thesis using assms visits_keep [of "L ! p" "drop (Suc p) L"]
    by (simp add: visits_split [OF assms(1,2)] visit_def visits_order)
qed

section \<open>Sizes of subtrees\<close>

definition size_step :: "Node list \<Rightarrow> (NodeId \<Rightarrow> nat) \<Rightarrow> nat \<Rightarrow> nat list \<Rightarrow> nat list" where
  "size_step nodes locate i sizes =
    (if nodeParent (nodes ! i) \<noteq> 0 then let p = locate (nodeParent (nodes ! i)) in sizes[p := sizes ! p + sizes ! i] else sizes)"

lemma subtree_sizes_foldr: "subtree_sizes nodes locate order = foldr (size_step nodes locate) order (replicate (length nodes) 1)"
  by (simp add: subtree_sizes_def foldr_conv_foldl size_step_def [abs_def])

text \<open>The parent links of the nodes agree with the children.\<close>

definition parent_links :: "Node list \<Rightarrow> (NodeId \<Rightarrow> nat) \<Rightarrow> (nat \<Rightarrow> nat list) \<Rightarrow> bool" where
  "parent_links nodes locate kids \<longleftrightarrow>
    (\<forall>i k. edge (length nodes) kids i k \<longrightarrow> nodeParent (nodes ! k) \<noteq> 0 \<and> locate (nodeParent (nodes ! k)) = i)"

definition sized :: "nat \<Rightarrow> (nat \<Rightarrow> nat list) \<Rightarrow> nat set \<Rightarrow> nat list \<Rightarrow> bool" where
  "sized n kids X sizes \<longleftrightarrow> (\<forall>k \<in> X. sizes ! k = card {j. below n kids k j})"

text \<open>A child \<open>c\<close> of \<open>i\<close> with its preorder, in which the sizes have been summed below \<open>c\<close>.\<close>

definition sums_below :: "Node list \<Rightarrow> (NodeId \<Rightarrow> nat) \<Rightarrow> (nat \<Rightarrow> nat list) \<Rightarrow> nat \<Rightarrow> nat list \<Rightarrow> nat list \<Rightarrow> bool" where
  "sums_below nodes locate kids n M S \<longleftrightarrow>
    (let S' = foldr (size_step nodes locate) (tl M) S in length S' = n \<and> sized n kids (set M) S' \<and> (\<forall>k. k \<notin> set M \<longrightarrow> S' ! k = S ! k))"

definition sized_subtree :: "Node list \<Rightarrow> (NodeId \<Rightarrow> nat) \<Rightarrow> (nat \<Rightarrow> nat list) \<Rightarrow> nat \<Rightarrow> nat \<Rightarrow> nat \<Rightarrow> nat list \<Rightarrow> bool" where
  "sized_subtree nodes locate kids n i c M \<longleftrightarrow>
    c \<in> set (kids i) \<and> (\<exists>N. M = c # N) \<and> length M = card {j. below n kids c j} \<and> i \<notin> set M \<and>
      (\<forall>S. length S = n \<longrightarrow> (\<forall>k \<in> set M. S ! k = 1) \<longrightarrow> sums_below nodes locate kids n M S)"

lemma sizes_forest:
  assumes links: "parent_links nodes locate kids" and n: "n = length nodes" and i: "i < n"
    and "list_all2 (sized_subtree nodes locate kids n i) cs Ls"
    and "distinct (concat Ls)" "length S = n" "\<forall>k \<in> set (concat Ls). S ! k = 1"
  shows "let S' = foldr (size_step nodes locate) (concat Ls) S in length S' = n \<and> S' ! i = S ! i + length (concat Ls) \<and>
    sized n kids (set (concat Ls)) S' \<and> (\<forall>k. k \<noteq> i \<longrightarrow> k \<notin> set (concat Ls) \<longrightarrow> S' ! k = S ! k)"
  using assms(4-7)
proof (induction rule: list_all2_induct)
  case Nil
  then show ?case by (simp add: sized_def)
next
  case (Cons c cs M Ls)
  let ?S1 = "foldr (size_step nodes locate) (concat Ls) S" and ?S2 = "foldr (size_step nodes locate) (tl M) (foldr (size_step nodes locate) (concat Ls) S)"
  note c = Cons.hyps(1) [unfolded sized_subtree_def]
  obtain N where M: "M = c # N" using c by blast
  have S1: "length ?S1 = n" "?S1 ! i = S ! i + length (concat Ls)" "sized n kids (set (concat Ls)) ?S1"
    "\<And>k. k \<noteq> i \<Longrightarrow> k \<notin> set (concat Ls) \<Longrightarrow> ?S1 ! k = S ! k"
    using Cons.IH Cons.prems by (simp_all add: Let_def)
  have iM: "i \<notin> set M" and cM: "length M = card {j. below n kids c j}" using c by blast+
  have disj: "set M \<inter> set (concat Ls) = {}" using Cons.prems(1) by auto
  have one: "\<forall>k \<in> set M. ?S1 ! k = 1" using S1(4) Cons.prems(3) iM disj by fastforce
  have S2: "length ?S2 = n" "sized n kids (set M) ?S2" "\<And>k. k \<notin> set M \<Longrightarrow> ?S2 ! k = ?S1 ! k"
    using c S1(1) one by (simp_all add: sums_below_def Let_def)
  have "c \<in> set (kids i)" using c by blast
  then have "nodeParent (nodes ! c) \<noteq> 0" "locate (nodeParent (nodes ! c)) = i" using links i by (auto simp: parent_links_def edge_def n)
  then have S3: "foldr (size_step nodes locate) (concat (M # Ls)) S = ?S2[i := ?S2 ! i + ?S2 ! c]" by (simp add: M size_step_def)
  have "?S2 ! c = length M" using S2(2) cM by (simp add: sized_def M)
  moreover have "?S2 ! i = S ! i + length (concat Ls)" using S2(3) [OF iM] S1(2) by simp
  moreover have "sized n kids (set (concat (M # Ls))) (?S2[i := x])" if "i \<notin> set (concat Ls)" for x
    using S2(2,3) S1(3) iM disj that unfolding sized_def
    by (metis Un_iff concat.simps(2) disjoint_iff nth_list_update_neq set_append)
  moreover have "i \<notin> set (concat Ls)"
    unfolding mem_concat_nth using list_all2_nthD2 [OF Cons.hyps(2)] by (auto simp: sized_subtree_def)
  ultimately show ?case using S3 S2(1,3) S1(4) i by (auto simp: Let_def)
qed

lemma sizes_preorder:
  assumes "preorder kids i L" "tree_order n kids r pos" "i < n" "parent_links nodes locate kids" "n = length nodes"
    "length S = n" "\<forall>k \<in> set L. S ! k = 1"
  shows "sums_below nodes locate kids n L S"
  using assms
proof (induction arbitrary: S rule: preorder.induct)
  case (preorder_node i Ls)
  note t = preorder_node.prems(1) and i = preorder_node.prems(2) and links = preorder_node.prems(3) and n = preorder_node.prems(4)
  have g: "single_parents n kids r" using tree_orderD(1) [OF t] .
  have pre: "preorder kids i (i # concat Ls)"
    using preorder_node.IH by (intro preorder.preorder_node) (auto elim: list_all2_mono)
  have dist: "distinct (i # concat Ls)" using preorder_distinct [OF pre t i] .
  have sets: "set (i # concat Ls) = {j. below n kids i j}" using preorder_set [OF pre g i] .
  have kid: "c < n" if "c \<in> set (kids i)" for c using that i single_parentsD(3) [OF g] by (auto simp: edge_def)
  have sub: "sized_subtree nodes locate kids n i c M"
    if "p < length (kids i)" "c = kids i ! p" "M = Ls ! p" for p c M
  proof -
    have c: "c \<in> set (kids i)" "c < n" using that kid by simp_all
    have M: "preorder kids c M" "M \<in> set Ls" using preorder_node.IH that by (auto simp: list_all2_conv_all_nth)
    have "set M = {j. below n kids c j}" "distinct M" using preorder_set [OF M(1) g c(2)] preorder_distinct [OF M(1) t c(2)] by blast+
    moreover have "length M = card {j. below n kids c j}" using calculation distinct_card [of M] by simp
    moreover have "i \<notin> set M" using dist M(2) by auto
    moreover have "\<forall>S. length S = n \<longrightarrow> (\<forall>k \<in> set M. S ! k = 1) \<longrightarrow> sums_below nodes locate kids n M S"
      using preorder_node.IH that c(2) t links n by (simp add: list_all2_conv_all_nth)
    ultimately show ?thesis unfolding sized_subtree_def using preorder_hd [OF M(1)] c(1) by blast
  qed
  have len: "length Ls = length (kids i)" using preorder_node.IH by (auto dest: list_all2_lengthD)
  have all: "list_all2 (sized_subtree nodes locate kids n i) (kids i) Ls"
    using len sub by (intro list_all2_all_nthI) simp_all
  have "card {j. below n kids i j} = length (i # concat Ls)" using distinct_card [OF dist] sets by simp
  then show ?case
    using sizes_forest [OF links n i all _ preorder_node.prems(5)] dist preorder_node.prems(6) by (auto simp: Let_def sized_def sums_below_def)
qed

section \<open>Intervals and grids\<close>

text \<open>The nearest proper ancestor that is a table with dimensions.\<close>

inductive enclosing_grid :: "Node list \<Rightarrow> (NodeId \<Rightarrow> nat) \<Rightarrow> nat \<Rightarrow> nat \<Rightarrow> bool" for nodes locate where
  grid_parent: "nodeParent (nodes ! i) \<noteq> 0 \<Longrightarrow> is_grid (nodes ! locate (nodeParent (nodes ! i))) \<Longrightarrow>
    enclosing_grid nodes locate i (locate (nodeParent (nodes ! i)))"
| grid_further: "nodeParent (nodes ! i) \<noteq> 0 \<Longrightarrow> \<not> is_grid (nodes ! locate (nodeParent (nodes ! i))) \<Longrightarrow>
    enclosing_grid nodes locate (locate (nodeParent (nodes ! i))) g \<Longrightarrow> enclosing_grid nodes locate i g"

text \<open>The nodes with their child lists form a tree, and the parent fields say so too.\<close>

definition node_tree :: "Node list \<Rightarrow> (NodeId \<Rightarrow> nat) \<Rightarrow> nat \<Rightarrow> (nat \<Rightarrow> nat) \<Rightarrow> bool" where
  "node_tree nodes locate r pos \<longleftrightarrow>
    tree_order (length nodes) (\<lambda>i. map locate (nodeChildren (nodes ! i))) r pos \<and>
    parent_links nodes locate (\<lambda>i. map locate (nodeChildren (nodes ! i))) \<and>
    (\<forall>k < length nodes. k \<noteq> r \<longrightarrow> edge (length nodes) (\<lambda>i. map locate (nodeChildren (nodes ! i))) (locate (nodeParent (nodes ! k))) k) \<and>
    nodeParent (nodes ! r) = 0"

abbreviation child_of :: "Node list \<Rightarrow> (NodeId \<Rightarrow> nat) \<Rightarrow> nat \<Rightarrow> nat \<Rightarrow> bool" where
  "child_of nodes locate \<equiv> edge (length nodes) (\<lambda>i. map locate (nodeChildren (nodes ! i)))"

abbreviation descends :: "Node list \<Rightarrow> (NodeId \<Rightarrow> nat) \<Rightarrow> nat \<Rightarrow> nat \<Rightarrow> bool" where
  "descends nodes locate \<equiv> (child_of nodes locate)\<^sup>+\<^sup>+"

lemma tree_traversal:
  assumes t: "node_tree nodes locate r pos"
  obtains L where "preorder (\<lambda>i. map locate (nodeChildren (nodes ! i))) r L" "distinct L" "set L = {..<length nodes}"
    "traverse_loop nodes locate [r] (start_traversal (length nodes)) = Some (fold (visit nodes locate) L (start_traversal (length nodes)))"
proof -
  let ?kids = "\<lambda>i. map locate (nodeChildren (nodes ! i))" and ?n = "length nodes"
  have tree: "tree_order ?n ?kids r pos" using t by (simp add: node_tree_def)
  note g = tree_orderD(1) [OF tree] and r = single_parentsD(1) [OF tree_orderD(1) [OF tree]]
  obtain L where L: "preorder ?kids r L" using preorder_exists [OF tree r] by blast
  have "set L = {..<?n}" using preorder_set [OF L g r] tree_orderD(2) [OF tree] below_lt [OF _ g r] by auto
  moreover have "traverse_loop nodes locate [r] (start_traversal ?n) = Some (fold (visit nodes locate) L (start_traversal ?n))"
    using traverse_preorder [OF L, of "[]"] by (simp add: traverse_loop.simps [of _ _ "[]"])
  ultimately show thesis using that [OF L preorder_distinct [OF L tree r]] by blast
qed

lemma proper_below:
  assumes "tree_order n kids r pos"
  shows "(edge n kids)\<^sup>+\<^sup>+ a b \<longleftrightarrow> below n kids a b \<and> b \<noteq> a"
proof -
  have "pos a < pos b" if "(edge n kids)\<^sup>+\<^sup>+ a b"
    using that by induction (auto dest: tree_orderD(4) [OF assms])
  then show ?thesis by (metis less_irrefl rtranclpD tranclp_into_rtranclp)
qed

lemma tree_intervals:
  assumes t: "node_tree nodes locate r pos"
    and L: "preorder (\<lambda>i. map locate (nodeChildren (nodes ! i))) r L" "distinct L" "set L = {..<length nodes}"
    and i: "i < length nodes" and k: "k < length nodes"
  defines "f \<equiv> fold (visit nodes locate) L (start_traversal (length nodes))"
  shows "ordinalOf f ! i < ordinalOf f ! k \<and> ordinalOf f ! k < ordinalOf f ! i + subtree_sizes nodes locate L ! i \<longleftrightarrow> descends nodes locate i k"
proof -
  let ?kids = "\<lambda>i. map locate (nodeChildren (nodes ! i))" and ?n = "length nodes"
  have tree: "tree_order ?n ?kids r pos" and links: "parent_links nodes locate ?kids" using t by (simp_all add: node_tree_def)
  note g = tree_orderD(1) [OF tree]
  obtain A M B where M: "L = A @ M @ B" "preorder ?kids i M" using preorder_segment [OF L(1), of i] L(3) i by auto
  have sM: "set M = {j. below ?n ?kids i j}" "distinct M" using preorder_set [OF M(2) g i] preorder_distinct [OF M(2) tree i] by blast+
  obtain N where N: "M = i # N" using preorder_hd [OF M(2)] by blast
  have ord: "ordinalOf f ! (L ! p) = p" if "p < length L" for p
    unfolding f_def using visits_ordinal [OF L(2) that] L(3) nth_mem [OF that] by (simp add: start_traversal_def)
  have pi: "L ! length A = i" "length A < length L" using M(1) N by (simp_all add: nth_append)
  obtain q where q: "q < length L" "L ! q = k" using L(3) k by (metis in_set_conv_nth lessThan_iff)
  have size: "subtree_sizes nodes locate L ! i = length M"
  proof -
    obtain rest where rest: "L = r # rest" using preorder_hd [OF L(1)] by blast
    have "nodeParent (nodes ! r) = 0" using t by (simp add: node_tree_def)
    then have "subtree_sizes nodes locate L = foldr (size_step nodes locate) (tl L) (replicate ?n 1)"
      by (simp add: subtree_sizes_foldr rest size_step_def)
    moreover have "sums_below nodes locate ?kids ?n L (replicate ?n 1)"
      using L(3) by (intro sizes_preorder [OF L(1) tree single_parentsD(1) [OF g] links]) auto
    ultimately have "subtree_sizes nodes locate L ! i = card {j. below ?n ?kids i j}"
      using L(3) i by (simp add: sums_below_def sized_def Let_def)
    then show ?thesis using sM distinct_card by metis
  qed
  have "k \<in> set M \<longleftrightarrow> length A \<le> q \<and> q < length A + length M" using segment_positions [OF L(2) M(1) q(1)] q(2) by simp
  moreover have "k = i \<longleftrightarrow> q = length A" using L(2) q pi nth_eq_iff_index_eq [of L q "length A"] by auto
  moreover have "descends nodes locate i k \<longleftrightarrow> k \<in> set M \<and> k \<noteq> i"
    unfolding sM(1) mem_Collect_eq by (rule proper_below [OF tree])
  ultimately show ?thesis using ord [OF q(1)] ord [OF pi(2)] q pi size by auto
qed

lemma tree_grid_step:
  assumes t: "node_tree nodes locate r pos"
    and L: "preorder (\<lambda>i. map locate (nodeChildren (nodes ! i))) r L" "distinct L" "set L = {..<length nodes}"
    and i: "i < length nodes" "nodeParent (nodes ! i) \<noteq> 0"
  defines "f \<equiv> fold (visit nodes locate) L (start_traversal (length nodes))" and "p \<equiv> locate (nodeParent (nodes ! i))"
  shows "p < length nodes" "gridOf f ! i = (if is_grid (nodes ! p) then p else gridOf f ! p)"
proof -
  let ?kids = "\<lambda>i. map locate (nodeChildren (nodes ! i))" and ?n = "length nodes"
  have tree: "tree_order ?n ?kids r pos" using t by (simp add: node_tree_def)
  have "i \<noteq> r" using t i(2) by (auto simp: node_tree_def)
  then have e: "edge ?n ?kids p i" using t i(1) by (simp add: node_tree_def p_def)
  then show p: "p < ?n" by (simp add: edge_def)
  obtain A M B where M: "L = A @ M @ B" "preorder ?kids p M" using preorder_segment [OF L(1), of p] L(3) p by auto
  have "below ?n ?kids p i" "i \<noteq> p" using e tree_orderD(4) [OF tree e] by auto
  then have iM: "i \<in> set M" "i \<noteq> p" using preorder_set [OF M(2) tree_orderD(1) [OF tree] p] by auto
  obtain q where q: "q < length L" "L ! q = i" using L(3) i(1) by (metis in_set_conv_nth lessThan_iff)
  obtain N where N: "M = p # N" using preorder_hd [OF M(2)] by blast
  have "length A \<le> q" "q \<noteq> length A" using segment_positions [OF L(2) M(1) q(1)] q(2) iM N M(1) by (auto simp: nth_append)
  then have "p \<in> set (take q L)" using M(1) N by (auto simp: take_Cons')
  then have pn: "p \<notin> set (drop q L)" using L(2) by (metis append_take_drop_id disjoint_iff distinct_append)
  have dr: "drop q L = i # drop (Suc q) L" using q by (metis Cons_nth_drop_Suc)
  let ?u = "fold (visit nodes locate) (take q L) (start_traversal ?n)"
  have f: "f = fold (visit nodes locate) (drop (Suc q) L) (visit nodes locate i ?u)"
    unfolding f_def using visits_split [OF L(2) q(1)] q(2) by simp
  have "i \<notin> set (drop (Suc q) L)" using L(2) dr by (metis append_take_drop_id distinct.simps(2) distinct_append)
  then have "gridOf f ! i = gridOf (visit nodes locate i ?u) ! i" using visits_keep unfolding f by blast
  also have "\<dots> = (if is_grid (nodes ! p) then p else gridOf ?u ! p)"
    using i by (simp add: visit_def p_def Let_def start_traversal_def)
  also have "gridOf ?u ! p = gridOf f ! p"
  proof -
    have "f = fold (visit nodes locate) (drop q L) ?u" by (simp add: f dr)
    then show ?thesis using visits_keep [OF pn, of nodes locate ?u] by simp
  qed
  finally show "gridOf f ! i = (if is_grid (nodes ! p) then p else gridOf f ! p)" .
qed

lemma tree_grid:
  assumes g: "enclosing_grid nodes locate i g" and t: "node_tree nodes locate r pos"
    and L: "preorder (\<lambda>i. map locate (nodeChildren (nodes ! i))) r L" "distinct L" "set L = {..<length nodes}" and i: "i < length nodes"
  shows "gridOf (fold (visit nodes locate) L (start_traversal (length nodes))) ! i = g \<and> g < length nodes \<and> is_grid (nodes ! g)"
  using g i
proof induction
  case (grid_parent i)
  then show ?case using tree_grid_step [OF t L grid_parent.prems grid_parent.hyps(1)] by simp
next
  case (grid_further i g)
  then show ?case using tree_grid_step [OF t L grid_further.prems grid_further.hyps(1)] by simp
qed

end
