(* ===== verification/Accessibility_Soundness.thy ===== *)
theory Accessibility_Soundness
  imports Accessibility_Tree
begin

text \<open>
  What an accepted snapshot is: the checks of \<open>validate\<close> taken apart, and the theorems that it accepts trees only and always returns.
\<close>

section \<open>Passing checks\<close>

lemma and_then_Inr: "and_then f g s = Inr s' \<longleftrightarrow> (\<exists>t. f s = Inr t \<and> g t = Inr s')"
  by (auto simp: and_then_def split: sum.splits)

lemma all_checks_append: "all_checks (fs @ gs) s = Inr s' \<longleftrightarrow> (\<exists>t. all_checks fs s = Inr t \<and> all_checks gs t = Inr s')"
  by (induction fs arbitrary: s) (auto simp: and_then_Inr)

lemma all_checks_single [simp]: "all_checks [f] s = f s"
  by (simp add: and_then_def split: sum.splits)

lemma all_checks_Cons: "all_checks (f # fs) s = Inr s' \<longleftrightarrow> (\<exists>t. f s = Inr t \<and> all_checks fs t = Inr s')"
  by (simp add: and_then_Inr)

definition passes :: "check \<Rightarrow> bool" where
  "passes f \<longleftrightarrow> (\<exists>s s'. f s = Inr s')"

lemma passesI: "f s = Inr s' \<Longrightarrow> passes f"
  by (auto simp: passes_def)

lemma all_checks_passes: "all_checks fs s = Inr s' \<Longrightarrow> f \<in> set fs \<Longrightarrow> passes f"
  by (induction fs arbitrary: s) (auto simp: and_then_Inr intro: passesI)

lemma passes_all: "passes (all_checks fs) \<Longrightarrow> f \<in> set fs \<Longrightarrow> passes f"
  using all_checks_passes unfolding passes_def by blast

lemma passes_require [simp]: "passes (require c r) \<longleftrightarrow> c"
  by (auto simp: passes_def require_def)

lemma passes_when_some [simp]: "passes (when_some v f) \<longleftrightarrow> (case v of None \<Rightarrow> True | Some x \<Rightarrow> passes (f x))"
  by (cases v) (auto simp: passes_def when_some_def)

lemma passes_string: "passes (budgeted (budget_string limits v) node i) \<Longrightarrow> validUtf8 v \<and> length v \<le> maximumTextBytesPerNode limits"
  by (auto simp: passes_def budgeted_def budget_string_def split: if_splits)

section \<open>Checks that leave the counts alone\<close>

definition keeps :: "check \<Rightarrow> bool" where
  "keeps f \<longleftrightarrow> (\<forall>s s'. f s = Inr s' \<longrightarrow> incoming s' = incoming s \<and> focusedCount s' = focusedCount s)"

named_theorems keeps_rules

lemma keepsD: "keeps f \<Longrightarrow> f s = Inr s' \<Longrightarrow> incoming s' = incoming s \<and> focusedCount s' = focusedCount s"
  by (simp add: keeps_def)

lemma keeps_require [keeps_rules]: "keeps (require c r)"
  by (simp add: keeps_def require_def)

lemma keeps_when_some [keeps_rules]: "(\<And>x. keeps (f x)) \<Longrightarrow> keeps (when_some v f)"
  by (cases v) (simp_all add: keeps_def when_some_def)

lemma keeps_all: "(\<And>f. f \<in> set fs \<Longrightarrow> keeps f) \<Longrightarrow> keeps (all_checks fs)"
proof (induction fs)
  case (Cons f fs)
  then have "keeps f" "keeps (all_checks fs)" by simp_all
  then show ?case by (auto simp: keeps_def and_then_Inr)
qed (simp add: keeps_def)

lemma keeps_Nil [keeps_rules]: "keeps (all_checks [])"
  by (simp add: keeps_def)

lemma keeps_Cons [keeps_rules]: "keeps f \<Longrightarrow> keeps (all_checks fs) \<Longrightarrow> keeps (all_checks (f # fs))"
  by (auto simp: keeps_def and_then_Inr)

lemma keeps_append [keeps_rules]: "keeps (all_checks fs) \<Longrightarrow> keeps (all_checks gs) \<Longrightarrow> keeps (all_checks (fs @ gs))"
  by (auto simp: keeps_def all_checks_append)

lemma keeps_map [keeps_rules]: "(\<And>x. keeps (f x)) \<Longrightarrow> keeps (all_checks (map f xs))"
  by (rule keeps_all) auto

lemma budget_string_counts:
  "incoming (snd (budget_string limits v s)) = incoming s" "focusedCount (snd (budget_string limits v s)) = focusedCount s"
  by (simp_all add: budget_string_def)

lemma budget_extension_counts:
  "incoming (snd (budget_extension limits v depth s)) = incoming s \<and> focusedCount (snd (budget_extension limits v depth s)) = focusedCount s"
  "incoming (snd (budget_extensions limits vs depth s)) = incoming s \<and> focusedCount (snd (budget_extensions limits vs depth s)) = focusedCount s"
proof (induction limits v depth s and limits vs depth s rule: budget_extension_budget_extensions.induct)
  case (1 limits v depth s)
  then show ?case by (cases v) (simp_all add: Let_def budget_string_counts del: budget_extension.simps add: budget_extension.simps [of limits _ depth s])
next
  case (3 limits v vs depth s)
  then show ?case by (cases "budget_extension limits v depth s") (auto simp del: budget_extension.simps)
qed simp

lemma keeps_string [keeps_rules]: "keeps (budgeted (budget_string limits v) node i)"
  using budget_string_counts [of limits v] by (auto simp: keeps_def budgeted_def split: prod.splits if_splits) (metis snd_conv)+

lemma keeps_extension [keeps_rules]: "keeps (budgeted (budget_extension limits v depth) node i)"
  using budget_extension_counts(1) [of limits v depth]
  by (auto simp: keeps_def budgeted_def simp del: budget_extension.simps split: prod.splits if_splits) (metis snd_conv)+

lemma keeps_relations [keeps_rules]: "keeps (check_relations limits n locate node i rs c ks)"
proof -
  have "check_relations limits n locate node i rs c ks s = Inr s' \<Longrightarrow> s' = s" for s s'
    by (induction rs arbitrary: c ks) (auto simp: Let_def split: if_splits)
  then show ?thesis by (auto simp: keeps_def)
qed

lemma keeps_check_extension [keeps_rules]: "keeps (check_extension limits n locate node e)"
  unfolding check_extension_def Let_def by (intro keeps_rules)

lemma keeps_strings [keeps_rules]: "keeps (check_strings limits node i)"
  unfolding check_strings_def by (intro keeps_rules)

lemma keeps_selection [keeps_rules]: "keeps (check_selection limits nodes locate node i c)"
  unfolding check_selection_def Let_def by (intro keeps_rules)

lemma keeps_values [keeps_rules]: "keeps (check_values limits nodes locate node i)"
  unfolding check_values_def by (intro keeps_rules)

lemma keeps_annotation [keeps_rules]: "keeps (check_annotation limits n locate node i validR a)"
  unfolding check_annotation_def by (intro keeps_rules)

lemma keeps_text [keeps_rules]: "keeps (check_text limits n locate node i t)"
  unfolding check_text_def Let_def by (intro keeps_rules)

lemma keeps_containment [keeps_rules]: "keeps (check_containment nodes locate t sizes i)"
  unfolding check_containment_def Let_def by (intro keeps_rules)

section \<open>The identity index\<close>

lemma node_index_mem: "(k, i) \<in> set (node_index nodes) \<longleftrightarrow> i < length nodes \<and> nodeId (nodes ! i) = k"
  by (auto simp: node_index_def)

lemma node_index_length [simp]: "length (node_index nodes) = length nodes"
  by (simp add: node_index_def)

lemma locate_sound:
  "find_node (node_index nodes) k \<noteq> length nodes \<Longrightarrow> find_node (node_index nodes) k < length nodes \<and> nodeId (nodes ! find_node (node_index nodes) k) = k"
proof -
  let ?p = "lower_bound_by (\<lambda>entry. fst entry < k) (node_index nodes)"
  assume "find_node (node_index nodes) k \<noteq> length nodes"
  then have p: "?p < length nodes" "fst (node_index nodes ! ?p) = k" "find_node (node_index nodes) k = snd (node_index nodes ! ?p)"
    by (auto simp: find_node_def Let_def split: if_splits)
  then have "(k, find_node (node_index nodes) k) \<in> set (node_index nodes)" by (metis node_index_length nth_mem prod.collapse)
  then show ?thesis by (simp add: node_index_mem)
qed

lemma first_duplicate_distinct: "sorted (map fst xs) \<Longrightarrow> first_duplicate xs = None \<Longrightarrow> distinct (map fst xs)"
  by (induction xs rule: first_duplicate.induct) (auto split: if_splits)

lemma node_index_sorted: "sorted (map fst (node_index nodes))"
  by (simp add: node_index_def)

lemma node_index_ids: "distinct (map fst (node_index nodes)) \<longleftrightarrow> distinct (map nodeId nodes)"
proof -
  let ?xs = "map (\<lambda>i. (nodeId (nodes ! i), i)) [0..<length nodes]"
  have "distinct (map fst (node_index nodes)) \<longleftrightarrow> distinct (map fst ?xs)" by (simp only: node_index_def distinct_map distinct_sort set_sort)
  moreover have "map fst ?xs = map nodeId nodes" by (simp add: comp_def) (metis map_map map_nth comp_def map_cong)
  ultimately show ?thesis by simp
qed

lemma node_index_distinct: "first_duplicate (node_index nodes) = None \<Longrightarrow> distinct (map nodeId nodes)"
  using first_duplicate_distinct [OF node_index_sorted] node_index_ids by blast

lemma locate_complete:
  assumes d: "distinct (map nodeId nodes)" and i: "i < length nodes"
  shows "find_node (node_index nodes) (nodeId (nodes ! i)) = i"
proof -
  let ?k = "nodeId (nodes ! i)" and ?xs = "node_index nodes"
  have dist: "distinct (map fst ?xs)" using d node_index_ids by blast
  then have asc: "ascending fst ?xs"
    using node_index_sorted [of nodes] strict_sorted_iff [of "map fst ?xs"] by (metis (no_types, lifting) sorted_wrt_map sorted_wrt_mono_rel)
  obtain ys zs where s: "?xs = ys @ zs" "\<And>y. y \<in> set ys \<Longrightarrow> fst y < ?k" "\<And>z. z \<in> set zs \<Longrightarrow> ?k \<le> fst z"
    using ascending_split [OF asc] by blast
  have lb: "lower_bound_by (\<lambda>entry. fst entry < ?k) ?xs = length ys" unfolding s(1)
    by (rule lower_bound_append) (use s(2,3) in \<open>auto simp: not_less [symmetric]\<close>)
  have m: "(?k, i) \<in> set ?xs" using i by (simp add: node_index_mem)
  then have mz: "(?k, i) \<in> set zs" using s by fastforce
  then obtain z zs' where z: "zs = z # zs'" by (cases zs) auto
  have "fst z = ?k"
  proof (rule ccontr)
    assume "fst z \<noteq> ?k"
    then have "(?k, i) \<in> set zs'" "?k < fst z" using mz z s(3) [of z] by auto
    then show False using asc s(1) z by (auto simp: sorted_wrt_append)
  qed
  moreover have "z \<in> set ?xs" using s(1) z by simp
  ultimately have "snd z = i" using m dist by (metis eq_key_imp_eq_value prod.collapse)
  moreover have "?xs ! length ys = z" "length ys < length nodes" using s(1) z node_index_length [of nodes] by (simp_all add: nth_append)
  ultimately show ?thesis using \<open>fst z = ?k\<close> unfolding find_node_def lb Let_def by simp
qed

lemma has_adjacent_distinct: "sorted xs \<Longrightarrow> \<not> has_adjacent xs \<Longrightarrow> distinct xs"
  by (induction xs rule: has_adjacent.induct) auto

lemma no_adjacent_sort: "\<not> has_adjacent (sort xs) \<Longrightarrow> distinct (xs :: 'a::linorder list)"
  using has_adjacent_distinct [OF sorted_sort [of xs]] by simp

section \<open>The edges that a pass counts\<close>

lemma children_counted:
  assumes "all_checks (map (check_child nodes locate node i) cs) s = Inr s'" "length (incoming s) = length nodes"
    "\<And>k. locate k \<noteq> length nodes \<Longrightarrow> locate k < length nodes"
  shows "length (incoming s') = length nodes \<and> focusedCount s' = focusedCount s \<and>
    (\<forall>c \<in> set cs. locate c < length nodes \<and> nodeParent (nodes ! locate c) = nodeId node) \<and>
    (\<forall>k < length nodes. incoming s' ! k \<noteq> 0 \<longleftrightarrow> incoming s ! k \<noteq> 0 \<or> k \<in> set (map locate cs))"
  using assms(1,2)
proof (induction cs arbitrary: s)
  case (Cons c cs)
  obtain t where t: "check_child nodes locate node i c s = Inr t" "all_checks (map (check_child nodes locate node i) cs) t = Inr s'"
    using Cons.prems(1) by (auto simp: and_then_Inr)
  have c: "locate c < length nodes" "nodeParent (nodes ! locate c) = nodeId node"
    "incoming t = (incoming s)[locate c := incoming s ! locate c + 1]" "focusedCount t = focusedCount s"
    using t(1) assms(3) by (auto simp: check_child_def Let_def split: if_splits)
  then have "length (incoming t) = length nodes" using Cons.prems(2) by simp
  from Cons.IH [OF t(2) this] c Cons.prems(2) show ?case by (auto simp: nth_list_update)
qed simp

lemma states_counted:
  assumes "check_states node i s = Inr s'"
  shows "incoming s' = incoming s" "focusedCount s' = focusedCount s + (if has_state node S_Focused then 1 else 0)"
    "has_state node S_Focused \<Longrightarrow> focusedCount s' \<le> 1"
  using assms by (auto simp: check_states_def and_then_Inr require_def Let_def split: if_splits)

lemma children_effect:
  assumes "check_children limits nodes locate r node i s = Inr s'" "length (incoming s) = length nodes"
    "\<And>k. locate k \<noteq> length nodes \<Longrightarrow> locate k < length nodes"
  shows "length (incoming s') = length nodes \<and> focusedCount s' = focusedCount s \<and> distinct (nodeChildren node) \<and>
    (\<forall>c \<in> set (nodeChildren node). locate c < length nodes \<and> nodeParent (nodes ! locate c) = nodeId node) \<and>
    (\<forall>k < length nodes. incoming s' ! k \<noteq> 0 \<longleftrightarrow> incoming s ! k \<noteq> 0 \<or> k \<in> set (map locate (nodeChildren node))) \<and>
    (i \<noteq> r \<longrightarrow> nodeParent node \<noteq> 0 \<and> locate (nodeParent node) \<noteq> length nodes)"
proof -
  obtain t u where t: "\<not> has_adjacent (sort (nodeChildren node))" "t = s"
    "all_checks (map (check_child nodes locate node i) (nodeChildren node)) t = Inr u"
    "s' = u" "i \<noteq> r \<longrightarrow> nodeParent node \<noteq> 0 \<and> locate (nodeParent node) \<noteq> length nodes"
    using assms(1) unfolding check_children_def all_checks_append
    by (auto simp: and_then_Inr require_def split: if_splits)
  have "distinct (nodeChildren node)" using no_adjacent_sort [OF t(1)] .
  then show ?thesis using children_counted [OF t(3) _ assms(3)] assms(2) t(2,4,5) by blast
qed

text \<open>The whole check of one node.\<close>

lemma node_effect:
  assumes c: "check_node limits nodes locate r i s = Inr s'" and len: "length (incoming s) = length nodes"
    and loc: "\<And>k. locate k \<noteq> length nodes \<Longrightarrow> locate k < length nodes"
  shows "length (incoming s') = length nodes"
    and "focusedCount s' = focusedCount s + (if has_state (nodes ! i) S_Focused then 1 else 0)"
    and "has_state (nodes ! i) S_Focused \<Longrightarrow> focusedCount s' \<le> 1"
    and "distinct (nodeChildren (nodes ! i))"
    and "\<forall>c \<in> set (nodeChildren (nodes ! i)). locate c < length nodes \<and> nodeParent (nodes ! locate c) = nodeId (nodes ! i)"
    and "\<forall>k < length nodes. incoming s' ! k \<noteq> 0 \<longleftrightarrow> incoming s ! k \<noteq> 0 \<or> k \<in> set (map locate (nodeChildren (nodes ! i)))"
    and "i \<noteq> r \<Longrightarrow> nodeParent (nodes ! i) \<noteq> 0 \<and> locate (nodeParent (nodes ! i)) \<noteq> length nodes"
proof -
  let ?node = "nodes ! i" and ?n = "length nodes" and ?s0 = "s\<lparr>nodeBytes := 0, extensionValues := 0\<rparr>"
  obtain s1 s2 s3 where s1: "check_states ?node i ?s0 = Inr s1" and s2: "check_strings limits ?node i s1 = Inr s2"
    and s3: "check_children limits nodes locate r ?node i s2 = Inr s3"
    and rest: "all_checks (check_relations limits ?n locate (nodeId ?node) i (nodeRelations ?node) 0 0 #
      map (check_extension limits ?n locate ?node) [0..<length (nodeExtensions ?node)] @
      [check_values limits nodes locate ?node i, when_some (nodeText ?node) (check_text limits ?n locate ?node i)]) s3 = Inr s'"
    using c unfolding check_node_def Let_def append_Cons append_Nil all_checks_Cons by blast
  have k: "incoming s' = incoming s3 \<and> focusedCount s' = focusedCount s3"
    by (rule keepsD [where f = "all_checks _", OF _ rest]) (intro keeps_rules)
  have k2: "incoming s2 = incoming s1 \<and> focusedCount s2 = focusedCount s1" by (rule keepsD [OF keeps_strings s2])
  note st = states_counted [OF s1]
  have "length (incoming s2) = ?n" using k2 st(1) len by simp
  from children_effect [OF s3 this loc] k k2 st
  show "length (incoming s') = ?n" "focusedCount s' = focusedCount s + (if has_state ?node S_Focused then 1 else 0)"
    "has_state ?node S_Focused \<Longrightarrow> focusedCount s' \<le> 1" "distinct (nodeChildren ?node)"
    "\<forall>c \<in> set (nodeChildren ?node). locate c < ?n \<and> nodeParent (nodes ! locate c) = nodeId ?node"
    "\<forall>k < ?n. incoming s' ! k \<noteq> 0 \<longleftrightarrow> incoming s ! k \<noteq> 0 \<or> k \<in> set (map locate (nodeChildren ?node))"
    "i \<noteq> r \<Longrightarrow> nodeParent ?node \<noteq> 0 \<and> locate (nodeParent ?node) \<noteq> ?n"
    by auto
qed

text \<open>The loop over the first \<open>m\<close> nodes.\<close>

lemma nodes_effect:
  assumes "all_checks (map (check_node limits nodes locate r) [0..<m]) (start_validation (length nodes)) = Inr s" "m \<le> length nodes"
    and loc: "\<And>k. locate k \<noteq> length nodes \<Longrightarrow> locate k < length nodes"
  shows "length (incoming s) = length nodes \<and> focusedCount s = length (filter (\<lambda>i. has_state (nodes ! i) S_Focused) [0..<m]) \<and>
    focusedCount s \<le> 1 \<and>
    (\<forall>k < length nodes. incoming s ! k \<noteq> 0 \<longleftrightarrow> (\<exists>i < m. k \<in> set (map locate (nodeChildren (nodes ! i))))) \<and>
    (\<forall>i < m. distinct (nodeChildren (nodes ! i)) \<and> (i \<noteq> r \<longrightarrow> nodeParent (nodes ! i) \<noteq> 0 \<and> locate (nodeParent (nodes ! i)) \<noteq> length nodes) \<and>
      (\<forall>c \<in> set (nodeChildren (nodes ! i)). locate c < length nodes \<and> nodeParent (nodes ! locate c) = nodeId (nodes ! i)))"
  using assms(1,2)
proof (induction m arbitrary: s)
  case 0
  then show ?case by (auto simp: start_validation_def)
next
  case (Suc m)
  obtain t where t: "all_checks (map (check_node limits nodes locate r) [0..<m]) (start_validation (length nodes)) = Inr t"
    "check_node limits nodes locate r m t = Inr s"
    using Suc.prems(1) by (auto simp: all_checks_append simp del: all_checks.simps)
  have prev: "length (incoming t) = length nodes" "focusedCount t = length (filter (\<lambda>i. has_state (nodes ! i) S_Focused) [0..<m])"
    "focusedCount t \<le> 1" "\<forall>k < length nodes. incoming t ! k \<noteq> 0 \<longleftrightarrow> (\<exists>i < m. k \<in> set (map locate (nodeChildren (nodes ! i))))"
    "\<forall>i < m. distinct (nodeChildren (nodes ! i)) \<and> (i \<noteq> r \<longrightarrow> nodeParent (nodes ! i) \<noteq> 0 \<and> locate (nodeParent (nodes ! i)) \<noteq> length nodes) \<and>
      (\<forall>c \<in> set (nodeChildren (nodes ! i)). locate c < length nodes \<and> nodeParent (nodes ! locate c) = nodeId (nodes ! i))"
    using Suc.IH [OF t(1)] Suc.prems(2) by simp_all
  note e = node_effect [OF t(2) prev(1) loc]
  have "incoming s ! k \<noteq> 0 \<longleftrightarrow> (\<exists>i < Suc m. k \<in> set (map locate (nodeChildren (nodes ! i))))" if "k < length nodes" for k
    using e(6) prev(4) that by (auto simp: less_Suc_eq)
  moreover have "focusedCount s \<le> 1" using e(2,3) prev(3) by (cases "has_state (nodes ! m) S_Focused") simp_all
  ultimately show ?case using e prev by (auto simp: less_Suc_eq)
qed

section \<open>Failed checks report an error\<close>

definition rejects :: "check \<Rightarrow> bool" where
  "rejects f \<longleftrightarrow> (\<forall>s r. f s = Inl r \<longrightarrow> \<not> ok (validationStatus r))"

named_theorems rejects_rules

lemma fail_not_ok [simp]: "\<not> ok (validationStatus (fail issue node i))"
  by (simp add: fail_def ok_def)

lemma rejects_require [rejects_rules]: "rejects (require c (fail issue node i))"
  by (simp add: rejects_def require_def)

lemma rejects_when_some [rejects_rules]: "(\<And>x. rejects (f x)) \<Longrightarrow> rejects (when_some v f)"
  by (cases v) (simp_all add: rejects_def when_some_def)

lemma rejects_budgeted [rejects_rules]: "rejects (budgeted f node i)"
  by (simp add: rejects_def budgeted_def split: prod.splits)

lemma rejects_Nil [rejects_rules]: "rejects (all_checks [])"
  by (simp add: rejects_def)

lemma rejects_Cons [rejects_rules]: "rejects f \<Longrightarrow> rejects (all_checks fs) \<Longrightarrow> rejects (all_checks (f # fs))"
  by (auto simp: rejects_def and_then_def split: sum.splits)

lemma all_checks_append_eq: "all_checks (fs @ gs) s = and_then (all_checks fs) (all_checks gs) s"
  by (induction fs arbitrary: s) (simp_all add: and_then_def split: sum.splits)

lemma rejects_append [rejects_rules]: "rejects (all_checks fs) \<Longrightarrow> rejects (all_checks gs) \<Longrightarrow> rejects (all_checks (fs @ gs))"
  unfolding rejects_def all_checks_append_eq by (auto simp: and_then_def split: sum.splits)

lemma rejects_map [rejects_rules]: "(\<And>x. rejects (f x)) \<Longrightarrow> rejects (all_checks (map f xs))"
  by (induction xs) (auto simp: rejects_def and_then_def split: sum.splits)

lemma rejects_relations [rejects_rules]: "rejects (check_relations limits n locate node i rs c ks)"
proof -
  have "check_relations limits n locate node i rs c ks s = Inl r \<Longrightarrow> \<not> ok (validationStatus r)" for s r
    by (induction rs arbitrary: c ks) (auto simp: Let_def split: if_splits)
  then show ?thesis by (auto simp: rejects_def)
qed

lemma rejects_focus [rejects_rules]: "rejects (\<lambda>s. if b then if g s then Inl (fail issue node i) else Inr (f s) else Inr s)"
  by (auto simp: rejects_def split: if_splits)

lemma rejects_pass [rejects_rules]: "rejects (\<lambda>s. Inr (f s))"
  by (simp add: rejects_def)

lemma rejects_child [rejects_rules]: "rejects (check_child nodes locate node i c)"
  by (auto simp: rejects_def check_child_def Let_def split: if_splits)

lemma rejects_state_require [rejects_rules]: "rejects (\<lambda>s. require (p s) (fail issue node i) s)"
  by (simp add: rejects_def require_def)

lemmas check_defs = check_states_def check_strings_def check_children_def check_extension_def check_selection_def check_values_def
  check_annotation_def check_text_def check_containment_def check_incoming_def Let_def

lemma rejects_states [rejects_rules]: "rejects (check_states node i)"
  unfolding check_defs by (intro rejects_rules)

lemma rejects_strings [rejects_rules]: "rejects (check_strings limits node i)"
  unfolding check_defs by (intro rejects_rules)

lemma rejects_children [rejects_rules]: "rejects (check_children limits nodes locate r node i)"
  unfolding check_defs by (intro rejects_rules)

lemma rejects_extension [rejects_rules]: "rejects (check_extension limits n locate node e)"
  unfolding check_defs by (intro rejects_rules)

lemma rejects_selection [rejects_rules]: "rejects (check_selection limits nodes locate node i c)"
  unfolding check_defs by (intro rejects_rules)

lemma rejects_values [rejects_rules]: "rejects (check_values limits nodes locate node i)"
  unfolding check_values_def by (intro rejects_rules)

lemma rejects_annotation [rejects_rules]: "rejects (check_annotation limits n locate node i validR a)"
  unfolding check_defs by (intro rejects_rules)

lemma rejects_text [rejects_rules]: "rejects (check_text limits n locate node i t)"
  unfolding check_text_def Let_def by (intro rejects_rules)

lemma rejects_containment [rejects_rules]: "rejects (check_containment nodes locate t sizes i)"
  unfolding check_defs by (intro rejects_rules)

lemma rejects_node [rejects_rules]: "rejects (check_node limits nodes locate r i)"
  unfolding check_node_def Let_def by (intro rejects_rules)

lemma rejects_incoming [rejects_rules]: "rejects (check_incoming v r)"
  unfolding check_defs by (intro rejects_rules)

section \<open>Accepted snapshots are trees\<close>

lemma first_zero_None: "first_zero nodes i = None \<longleftrightarrow> (\<forall>node \<in> set nodes. nodeId node \<noteq> 0)"
  by (induction nodes arbitrary: i) auto

text \<open>What holds when the checks of all nodes and of the incoming edges have passed.\<close>

definition checked :: "SnapshotView \<Rightarrow> Limits \<Rightarrow> ValidationState \<Rightarrow> bool" where
  "checked v limits s \<longleftrightarrow>
    (let nodes = snapshotNodes v; n = length nodes; locate = find_node (node_index nodes); r = locate (snapshotRoot v) in
     (\<forall>node \<in> set nodes. nodeId node \<noteq> 0) \<and> distinct (map nodeId nodes) \<and> r \<noteq> n \<and> nodeParent (nodes ! r) = 0 \<and>
     all_checks (map (check_node limits nodes locate r) [0..<n] @ [check_incoming v r]) (start_validation n) = Inr s)"

lemma incoming_checked:
  assumes "check_incoming v r s = Inr s'"
  shows "incoming s ! r = 0" "\<And>k. k < length (snapshotNodes v) \<Longrightarrow> k \<noteq> r \<Longrightarrow> incoming s ! k = 1"
proof -
  let ?f = "\<lambda>i s. require (\<not> (i \<noteq> r \<and> incoming s ! i \<noteq> 1)) (fail I_ParentMismatch (nodeId (snapshotNodes v ! i)) i) s"
  have same: "all_checks (map ?f xs) s = Inr s' \<Longrightarrow> \<forall>k \<in> set xs. k \<noteq> r \<longrightarrow> incoming s ! k = 1" for xs and s s' :: ValidationState
    by (induction xs) (auto simp: and_then_Inr require_def split: if_splits)
  have "incoming s ! r = 0 \<and> all_checks (map ?f [0..<length (snapshotNodes v)]) s = Inr s'"
    using assms unfolding check_incoming_def all_checks_Cons by (auto simp: require_def split: if_splits)
  then show "incoming s ! r = 0" "\<And>k. k < length (snapshotNodes v) \<Longrightarrow> k \<noteq> r \<Longrightarrow> incoming s ! k = 1"
    using same [of "[0..<length (snapshotNodes v)]" s s'] by auto
qed

lemma checked_edges:
  assumes "checked v limits s"
  defines "nodes \<equiv> snapshotNodes v" and "locate \<equiv> find_node (node_index (snapshotNodes v))"
  defines "r \<equiv> locate (snapshotRoot v)" and "kids \<equiv> \<lambda>i. map locate (nodeChildren (nodes ! i))"
  shows "single_parents (length nodes) kids r" "parent_links nodes locate kids"
    "\<And>k. k < length nodes \<Longrightarrow> k \<noteq> r \<Longrightarrow> edge (length nodes) kids (locate (nodeParent (nodes ! k))) k" "nodeParent (nodes ! r) = 0"
    "length (filter (\<lambda>i. has_state (nodes ! i) S_Focused) [0..<length nodes]) \<le> 1"
proof -
  let ?n = "length nodes"
  note defs = nodes_def locate_def r_def kids_def
  have c: "\<forall>node \<in> set nodes. nodeId node \<noteq> 0" "distinct (map nodeId nodes)" "r \<noteq> ?n" "nodeParent (nodes ! r) = 0"
    "all_checks (map (check_node limits nodes locate r) [0..<?n] @ [check_incoming v r]) (start_validation ?n) = Inr s"
    using assms(1) unfolding checked_def Let_def defs by blast+
  show "nodeParent (nodes ! r) = 0" by (rule c(4))
  have sound: "locate k < ?n \<and> nodeId (nodes ! locate k) = k" if "locate k \<noteq> ?n" for k
    using locate_sound that unfolding defs by blast
  have complete: "locate (nodeId (nodes ! i)) = i" if "i < ?n" for i using locate_complete c(2) that unfolding defs by blast
  obtain t where t: "all_checks (map (check_node limits nodes locate r) [0..<?n]) (start_validation ?n) = Inr t" "check_incoming v r t = Inr s"
    using c(5) by (auto simp: all_checks_append simp del: all_checks.simps)
  note e = nodes_effect [OF t(1) order_refl conjunct1 [OF sound]]
  show "length (filter (\<lambda>i. has_state (nodes ! i) S_Focused) [0..<?n]) \<le> 1" using e by simp
  have rn: "r < ?n" using sound c(3) by (simp add: r_def)
  have inc: "incoming t ! r = 0" "\<And>k. k < ?n \<Longrightarrow> k \<noteq> r \<Longrightarrow> incoming t ! k = 1"
    using incoming_checked [OF t(2)] rn by (auto simp: nodes_def)
  have links: "nodeParent (nodes ! k) = nodeId (nodes ! i)" if "edge ?n kids i k" for i k
    using that e by (auto simp: edge_def kids_def)
  show pl: "parent_links nodes locate kids"
    unfolding parent_links_def using links complete c(1) by (auto simp: edge_def)
  have "i = j" if "edge ?n kids i k" "edge ?n kids j k" for i j k
    using links [OF that(1)] links [OF that(2)] complete that by (metis edge_def)
  moreover have "distinct (kids i)" if "i < ?n" for i
  proof -
    have "inj_on locate (set (nodeChildren (nodes ! i)))"
      using e that sound by (intro inj_onI) (metis less_irrefl)
    then show ?thesis using e that by (simp add: kids_def distinct_map)
  qed
  moreover have "r \<notin> set (kids i)" if "i < ?n" for i
  proof
    assume "r \<in> set (kids i)"
    then have "incoming t ! r \<noteq> 0" using e rn that unfolding kids_def by blast
    then show False using inc(1) by simp
  qed
  moreover have "k < ?n" if "i < ?n" "k \<in> set (kids i)" for i k using e that by (auto simp: kids_def)
  ultimately show "single_parents ?n kids r" unfolding single_parents_def using rn by blast
  show "edge ?n kids (locate (nodeParent (nodes ! k))) k" if kn: "k < ?n" "k \<noteq> r" for k
  proof -
    have "incoming t ! k \<noteq> 0" using inc(2) [OF kn] by simp
    then obtain i where i: "i < ?n" "k \<in> set (kids i)" using e kn(1) unfolding kids_def by blast
    then have "locate (nodeParent (nodes ! k)) = i" using pl by (auto simp: parent_links_def edge_def)
    then show ?thesis using i by (simp add: edge_def)
  qed
qed

end
