(* ===== verification/Accessibility_Accepted.thy ===== *)
theory Accessibility_Accepted
  imports Accessibility_Soundness
begin

unbundle bit_operations_syntax

text \<open>
  What \<^verbatim>\<open>validate\<close> of \<^verbatim>\<open>accessibility_validation.cpp\<close> accepts, stated on the nodes themselves: it always returns, and the snapshots it
  accepts are trees whose parent fields, selections, focus and grids agree with that tree.
\<close>

section \<open>The shape of a checked snapshot\<close>

lemma search_tree:
  assumes g: "single_parents n kids r" and s: "search_loop kids [r] 0 (replicate n False) = Some (Inr work)" and len: "length work = n"
  shows "\<exists>pos. tree_order n kids r pos"
proof -
  obtain order where o: "search_loop kids [r] 0 (replicate n False) = Some (Inr order)" "distinct order" "set order \<subseteq> {..<n}"
    "set order = {k. below n kids r k}"
    "\<And>i k. i < length order \<Longrightarrow> k \<in> set (kids (order ! i)) \<Longrightarrow> \<exists>p. i < p \<and> p < length order \<and> order ! p = k"
    using search_result [OF g] by blast
  have w: "order = work" using o(1) s by simp
  have "card (set order) = n" using o(2) len w distinct_card by metis
  then have all: "set order = {..<n}" using o(3) card_subset_eq [of "{..<n}" "set order"] by simp
  define pos where "pos k = (THE p. p < n \<and> order ! p = k)" for k
  have pos: "pos (order ! p) = p" if "p < n" for p
    unfolding pos_def using that o(2) len w by (intro the_equality) (auto simp: nth_eq_iff_index_eq)
  have at_pos: "pos k < n \<and> order ! pos k = k" if "k < n" for k
    using pos that all len w by (metis in_set_conv_nth lessThan_iff)
  have "pos i < pos k" if "edge n kids i k" for i k
  proof -
    have "i < n" "k \<in> set (kids (order ! pos i))" using that at_pos by (auto simp: edge_def)
    then obtain p where "pos i < p" "p < n" "order ! p = k" using o(5) [of "pos i" k] at_pos len w by auto
    then show ?thesis using pos by auto
  qed
  moreover have "below n kids r k" if "k < n" for k using all o(4) that by blast
  ultimately show ?thesis unfolding tree_order_def using g at_pos by blast
qed

text \<open>The last phase on a checked snapshot: it returns, and when it accepts, the nodes form a tree that passed the containment checks.\<close>

lemma shape_checked:
  assumes c: "checked v limits s"
  defines "nodes \<equiv> snapshotNodes v" and "locate \<equiv> find_node (node_index (snapshotNodes v))"
  defines "r \<equiv> locate (snapshotRoot v)"
  obtains res where "check_shape nodes locate r s = Some res" "\<not> ok (validationStatus res)"
  | res pos L where "check_shape nodes locate r s = Some res" "node_tree nodes locate r pos"
      "preorder (\<lambda>i. map locate (nodeChildren (nodes ! i))) r L" "distinct L" "set L = {..<length nodes}"
      "\<And>i. i < length nodes \<Longrightarrow> passes (check_containment nodes locate (fold (visit nodes locate) L (start_traversal (length nodes)))
        (subtree_sizes nodes locate L) i)"
proof -
  let ?n = "length nodes" and ?kids = "\<lambda>i. map locate (nodeChildren (nodes ! i))"
  note edges = checked_edges [OF c, folded locate_def, folded r_def, folded nodes_def]
  obtain work where work: "search_loop ?kids [r] 0 (replicate ?n False) = Some (Inr work)"
    by (rule search_result [OF edges(1)])
  show thesis
  proof (cases "length work = ?n")
    case False
    then have "check_shape nodes locate r s = Some (fail I_UnreachableNode 0 0)" using work by (simp add: check_shape_def)
    then show thesis using that(1) fail_not_ok by blast
  next
    case True
    obtain pos where "tree_order ?n ?kids r pos" using search_tree [OF edges(1) work True] by blast
    then have tree: "node_tree nodes locate r pos" using edges by (simp add: node_tree_def)
    obtain L where L: "preorder ?kids r L" "distinct L" "set L = {..<?n}"
      "traverse_loop nodes locate [r] (start_traversal ?n) = Some (fold (visit nodes locate) L (start_traversal ?n))"
      using tree_traversal [OF tree] by blast
    let ?f = "fold (visit nodes locate) L (start_traversal ?n)"
    let ?c = "check_containment nodes locate ?f (subtree_sizes nodes locate L)"
    have ord: "traversalOrder ?f = L" using visits_order [of nodes locate L "start_traversal ?n"] by (simp add: start_traversal_def)
    show thesis
    proof (cases "all_checks (map ?c [0..<?n]) s")
      case (Inl res)
      then have "check_shape nodes locate r s = Some res" using work True L(4) ord by (simp add: check_shape_def)
      moreover have "rejects (all_checks (map ?c [0..<?n]))" by (intro rejects_rules)
      then have "\<not> ok (validationStatus res)" using Inl unfolding rejects_def by blast
      ultimately show thesis by (rule that(1))
    next
      case (Inr t)
      then have "check_shape nodes locate r s = Some valid_result" using work True L(4) ord by (simp add: check_shape_def)
      moreover have "passes (?c i)" if "i < ?n" for i using all_checks_passes [OF Inr] that by simp
      ultimately show thesis using that(2) [OF _ tree L(1-3)] by blast
    qed
  qed
qed

text \<open>\<open>validate\<close> fails before the shape is looked at, or hands a checked snapshot to the last phase.\<close>

lemma validate_phases:
  obtains res where "validate v limits = Some res" "\<not> ok (validationStatus res)"
  | s where "checked v limits s"
      "validate v limits = check_shape (snapshotNodes v) (find_node (node_index (snapshotNodes v))) (find_node (node_index (snapshotNodes v)) (snapshotRoot v)) s"
proof -
  let ?nodes = "snapshotNodes v" and ?locate = "find_node (node_index (snapshotNodes v))"
  let ?n = "length ?nodes" and ?r = "?locate (snapshotRoot v)"
  let ?c = "all_checks (map (check_node limits ?nodes ?locate ?r) [0..<?n] @ [check_incoming v ?r]) (start_validation ?n)"
  let ?late = "first_zero ?nodes 0 = None \<and> first_duplicate (node_index ?nodes) = None \<and> ?r \<noteq> ?n \<and> nodeParent (?nodes ! ?r) = 0 \<and>
    validLimits limits \<and> generation v \<noteq> 0 \<and> ?nodes \<noteq> [] \<and> \<not> ?n > maximumNodes limits"
  have early: "case validate v limits of None \<Rightarrow> False | Some res \<Rightarrow> \<not> ok (validationStatus res)" if "\<not> ?late"
    using that unfolding validate_def Let_def by (auto split: option.splits prod.splits)
  show thesis
  proof (cases ?late)
    case False
    then show thesis using that(1) early by (auto split: option.splits)
  next
    case True
    then have late: "validate v limits = (case ?c of Inl r \<Rightarrow> Some r | Inr s \<Rightarrow> check_shape ?nodes ?locate ?r s)"
      unfolding validate_def Let_def by simp
    show thesis
    proof (cases ?c)
      case (Inl res)
      have "rejects (all_checks (map (check_node limits ?nodes ?locate ?r) [0..<?n] @ [check_incoming v ?r]))" by (intro rejects_rules)
      then show thesis using that(1) [of res] late Inl unfolding rejects_def by simp
    next
      case (Inr s)
      have "checked v limits s" unfolding checked_def Let_def using Inr True node_index_distinct first_zero_None by blast
      then show thesis using that(2) late Inr by simp
    qed
  qed
qed

section \<open>Trees of nodes\<close>

text \<open>The child relation of a snapshot: the parent lists the child's identity.\<close>

definition child_node :: "SnapshotView \<Rightarrow> Node \<Rightarrow> Node \<Rightarrow> bool" where
  "child_node v p c \<longleftrightarrow> p \<in> set (snapshotNodes v) \<and> c \<in> set (snapshotNodes v) \<and> nodeId c \<in> set (nodeChildren p)"

text \<open>The nearest proper ancestor that is a table with dimensions.\<close>

inductive nearest_grid :: "SnapshotView \<Rightarrow> Node \<Rightarrow> Node \<Rightarrow> bool" for v where
  nearest_parent: "child_node v p c \<Longrightarrow> is_grid p \<Longrightarrow> nearest_grid v c p"
| nearest_further: "child_node v p c \<Longrightarrow> \<not> is_grid p \<Longrightarrow> nearest_grid v p g \<Longrightarrow> nearest_grid v c g"

definition snapshot_tree :: "SnapshotView \<Rightarrow> bool" where
  "snapshot_tree v \<longleftrightarrow>
    distinct (map nodeId (snapshotNodes v)) \<and> 0 \<notin> nodeId ` set (snapshotNodes v) \<and>
    (\<forall>p \<in> set (snapshotNodes v). distinct (nodeChildren p) \<and> set (nodeChildren p) \<subseteq> nodeId ` set (snapshotNodes v)) \<and>
    (\<forall>p \<in> set (snapshotNodes v). \<forall>c \<in> set (snapshotNodes v). child_node v p c \<longleftrightarrow> nodeParent c = nodeId p) \<and>
    (\<exists>r \<in> set (snapshotNodes v). nodeId r = snapshotRoot v \<and> nodeParent r = 0 \<and> (\<forall>c \<in> set (snapshotNodes v). (child_node v)\<^sup>*\<^sup>* r c)) \<and>
    (\<forall>c. \<not> (child_node v)\<^sup>+\<^sup>+ c c)"

lemma checked_index:
  assumes "checked v limits s"
  defines "nodes \<equiv> snapshotNodes v" and "locate \<equiv> find_node (node_index (snapshotNodes v))"
  shows "distinct (map nodeId nodes)" "i < length nodes \<Longrightarrow> locate (nodeId (nodes ! i)) = i" "\<forall>node \<in> set nodes. nodeId node \<noteq> 0"
    "node \<in> set nodes \<Longrightarrow> locate (nodeId node) < length nodes \<and> nodes ! locate (nodeId node) = node"
    "locate (snapshotRoot v) < length nodes" "nodeId (nodes ! locate (snapshotRoot v)) = snapshotRoot v"
proof -
  show d: "distinct (map nodeId nodes)" and "\<forall>node \<in> set nodes. nodeId node \<noteq> 0"
    using assms(1) unfolding checked_def Let_def nodes_def by blast+
  show at_index: "locate (nodeId (nodes ! i)) = i" if "i < length nodes" for i
    using locate_complete d that unfolding nodes_def locate_def by blast
  show "locate (nodeId node) < length nodes \<and> nodes ! locate (nodeId node) = node" if "node \<in> set nodes"
    using that at_index by (metis in_set_conv_nth)
  have "locate (snapshotRoot v) \<noteq> length nodes" using assms(1) unfolding checked_def Let_def nodes_def locate_def by blast
  then show "locate (snapshotRoot v) < length nodes" "nodeId (nodes ! locate (snapshotRoot v)) = snapshotRoot v"
    using locate_sound unfolding nodes_def locate_def by blast+
qed

lemma child_node_edge:
  assumes c: "checked v limits s"
  defines "nodes \<equiv> snapshotNodes v" and "locate \<equiv> find_node (node_index (snapshotNodes v))"
  assumes i: "i < length nodes" and k: "k < length nodes"
  shows "child_node v (nodes ! i) (nodes ! k) \<longleftrightarrow> child_of nodes locate i k"
proof -
  note index = checked_index [OF c, folded locate_def, folded nodes_def]
  have "nodeId (nodes ! k) \<in> set (nodeChildren (nodes ! i)) \<longleftrightarrow> k \<in> locate ` set (nodeChildren (nodes ! i))"
  proof
    assume "nodeId (nodes ! k) \<in> set (nodeChildren (nodes ! i))"
    then show "k \<in> locate ` set (nodeChildren (nodes ! i))" using index(2) [OF k] by (metis imageI)
  next
    assume "k \<in> locate ` set (nodeChildren (nodes ! i))"
    then obtain c where "c \<in> set (nodeChildren (nodes ! i))" "k = locate c" by blast
    moreover have "nodeId (nodes ! locate c) = c" using locate_sound [of nodes c] k calculation(2) by (simp add: locate_def nodes_def)
    ultimately show "nodeId (nodes ! k) \<in> set (nodeChildren (nodes ! i))" by simp
  qed
  then show ?thesis using i k by (simp add: child_node_def edge_def nodes_def)
qed

lemma child_node_indices:
  assumes c: "checked v limits s" and e: "child_node v p k"
  defines "nodes \<equiv> snapshotNodes v" and "locate \<equiv> find_node (node_index (snapshotNodes v))"
  shows "child_of nodes locate (locate (nodeId p)) (locate (nodeId k))"
proof -
  note index = checked_index [OF c, folded locate_def, folded nodes_def]
  have "p \<in> set nodes" "k \<in> set nodes" using e by (simp_all add: child_node_def nodes_def)
  then show ?thesis using child_node_edge [OF c, folded locate_def, folded nodes_def] index(4) e by metis
qed

lemma node_descends:
  assumes c: "checked v limits s"
  defines "nodes \<equiv> snapshotNodes v" and "locate \<equiv> find_node (node_index (snapshotNodes v))"
  assumes d: "descends nodes locate i k"
  shows "(child_node v)\<^sup>+\<^sup>+ (nodes ! i) (nodes ! k)"
proof -
  have one: "child_node v (nodes ! i) (nodes ! k)" if "child_of nodes locate i k" for i k
  proof -
    have "i < length nodes" using that by (simp add: edge_def)
    moreover have "k < length nodes" using checked_edges(1) [OF c] that single_parentsD(3) unfolding nodes_def locate_def by blast
    ultimately show ?thesis using child_node_edge [OF c, folded locate_def, folded nodes_def] that by blast
  qed
  show ?thesis using d by induction (blast intro: one tranclp.intros)+
qed

section \<open>Accepted snapshots\<close>

lemma accepted:
  assumes "validate v limits = Some res" "ok (validationStatus res)"
  defines "nodes \<equiv> snapshotNodes v" and "locate \<equiv> find_node (node_index (snapshotNodes v))"
  obtains s pos L where "checked v limits s" "node_tree nodes locate (locate (snapshotRoot v)) pos"
    "preorder (\<lambda>i. map locate (nodeChildren (nodes ! i))) (locate (snapshotRoot v)) L" "distinct L" "set L = {..<length nodes}"
    "\<And>i. i < length nodes \<Longrightarrow> passes (check_containment nodes locate (fold (visit nodes locate) L (start_traversal (length nodes)))
        (subtree_sizes nodes locate L) i)"
proof (rule validate_phases [of v limits])
  fix res' assume "validate v limits = Some res'" "\<not> ok (validationStatus res')"
  then show thesis using assms(1,2) by simp
next
  fix s assume c: "checked v limits s" and s: "validate v limits = check_shape (snapshotNodes v) (find_node (node_index (snapshotNodes v)))
    (find_node (node_index (snapshotNodes v)) (snapshotRoot v)) s"
  show thesis
    by (rule shape_checked [OF c]; use s assms(1,2) in \<open>fold nodes_def locate_def\<close>) (auto intro: that [OF c, unfolded nodes_def locate_def] simp: nodes_def locate_def)
qed

lemma tree_snapshot:
  assumes c: "checked v limits s" and t: "node_tree (snapshotNodes v) (find_node (node_index (snapshotNodes v))) (find_node (node_index (snapshotNodes v)) (snapshotRoot v)) pos"
  shows "snapshot_tree v"
proof -
  define nodes locate r where "nodes = snapshotNodes v" and "locate = find_node (node_index nodes)" and "r = locate (snapshotRoot v)"
  note folds = nodes_def [symmetric] locate_def [symmetric]
  note index = checked_index [OF c, unfolded folds] and edge = child_node_edge [OF c, unfolded folds]
  note tree = t [unfolded folds, folded r_def]
  have links: "parent_links nodes locate (\<lambda>i. map locate (nodeChildren (nodes ! i)))"
    "tree_order (length nodes) (\<lambda>i. map locate (nodeChildren (nodes ! i))) r pos"
    using tree by (simp_all add: node_tree_def)
  have below: "(child_node v)\<^sup>*\<^sup>* (nodes ! r) k" if k: "k \<in> set nodes" for k
  proof -
    have "below (length nodes) (\<lambda>i. map locate (nodeChildren (nodes ! i))) r (locate (nodeId k))"
      using tree_orderD(2) [OF links(2)] index(4) [OF k] by blast
    then consider "locate (nodeId k) = r" | "descends nodes locate r (locate (nodeId k))" by (metis rtranclpD)
    then show ?thesis
      using node_descends [OF c, unfolded folds, of r "locate (nodeId k)"] index(4) [OF k]
      by cases (auto dest: tranclp_into_rtranclp)
  qed
  have acyclic: "\<not> (child_node v)\<^sup>+\<^sup>+ k k" for k
  proof -
    have "pos (locate (nodeId a)) < pos (locate (nodeId b))" if "(child_node v)\<^sup>+\<^sup>+ a b" for a b
      using that
      by induction (meson child_node_indices [OF c, unfolded folds] tree_orderD(4) [OF links(2)] less_trans)+
    then show ?thesis by blast
  qed
  have kids: "set (nodeChildren p) \<subseteq> nodeId ` set nodes \<and> distinct (nodeChildren p)" if p: "p \<in> set nodes" for p
  proof -
    have i: "locate (nodeId p) < length nodes" "nodes ! locate (nodeId p) = p" using index(4) [OF p] by auto
    note g = tree_orderD(1) [OF links(2)]
    have d: "distinct (map locate (nodeChildren p))" using single_parentsD(2) [OF g i(1)] i(2) by simp
    have "k \<in> nodeId ` set nodes" if k: "k \<in> set (nodeChildren p)" for k
    proof -
      have "locate k < length nodes" using single_parentsD(3) [OF g, of "locate (nodeId p)" "locate k"] i k by (simp add: edge_def)
      then have "nodeId (nodes ! locate k) = k" using locate_sound [of nodes k] by (simp add: locate_def nodes_def)
      then show ?thesis using \<open>locate k < length nodes\<close> by (metis imageI nth_mem)
    qed
    then show ?thesis using d by (auto simp: distinct_map)
  qed
  have parent: "child_node v p k \<longleftrightarrow> nodeParent k = nodeId p" if p: "p \<in> set nodes" and k: "k \<in> set nodes" for p k
  proof
    assume "child_node v p k"
    then have "locate (nodeParent k) = locate (nodeId p) \<and> nodeParent k \<noteq> 0"
      using child_node_indices [OF c, unfolded folds] links(1) index(4) [OF k] unfolding parent_links_def by metis
    then show "nodeParent k = nodeId p"
      using index(4) [OF p] locate_sound [of nodes "nodeParent k"] by (auto simp: locate_def nodes_def)
  next
    assume eq: "nodeParent k = nodeId p"
    then have "nodeParent k \<noteq> 0" using index(3) p by simp
    then have "locate (nodeId k) \<noteq> r" using tree index(4) [OF k] by (auto simp: node_tree_def)
    then have "child_of nodes locate (locate (nodeId p)) (locate (nodeId k))"
      using tree index(4) [OF k] eq unfolding node_tree_def by metis
    then show "child_node v p k" using edge index(4) [OF k] index(4) [OF p] by metis
  qed
  have "nodeParent (nodes ! r) = 0" using tree by (simp add: node_tree_def)
  moreover have "nodes ! r \<in> set nodes" "nodeId (nodes ! r) = snapshotRoot v" using index(5,6) by (simp_all add: r_def)
  ultimately show ?thesis
    unfolding snapshot_tree_def folds using index(1,3) kids parent acyclic below by (auto simp: image_iff)
qed

lemma checked_node:
  assumes "checked v limits s" "i < length (snapshotNodes v)"
  defines "locate \<equiv> find_node (node_index (snapshotNodes v))"
  shows "passes (check_node limits (snapshotNodes v) locate (locate (snapshotRoot v)) i)"
  using assms(1,2) unfolding checked_def Let_def locate_def by (auto intro: all_checks_passes)

lemma passes_node:
  assumes "passes (check_node limits nodes locate r i)"
  shows "passes (check_values limits nodes locate (nodes ! i) i)"
    "nodeText (nodes ! i) = Some t \<Longrightarrow> passes (check_text limits (length nodes) locate (nodes ! i) i t)"
proof -
  note all = passes_all [OF assms [unfolded check_node_def Let_def]]
  show "passes (check_values limits nodes locate (nodes ! i) i)" by (rule all) simp
  have "passes (when_some (nodeText (nodes ! i)) (check_text limits (length nodes) locate (nodes ! i) i))" by (rule all) simp
  then show "passes (check_text limits (length nodes) locate (nodes ! i) i t)" if "nodeText (nodes ! i) = Some t" using that by simp
qed

lemma passes_selection:
  assumes "passes (check_values limits nodes locate node i)" "nodeSelection node = Some c"
  shows "\<not> multiSelectable c \<Longrightarrow> length (selectedNodes c) \<le> 1" "selectionRequired c \<Longrightarrow> selectedNodes c \<noteq> []" "distinct (selectedNodes c)"
    "k \<in> set (selectedNodes c) \<Longrightarrow> locate k \<noteq> length nodes \<and> has_state (nodes ! locate k) S_Selected \<and> has_state (nodes ! locate k) S_Selectable"
proof -
  have "passes (when_some (nodeSelection node) (check_selection limits nodes locate node i))"
    by (rule passes_all [OF assms(1) [unfolded check_values_def]]) simp
  then have sel: "passes (check_selection limits nodes locate node i c)" using assms(2) by simp
  note all = passes_all [OF sel [unfolded check_selection_def Let_def]]
  have "passes (require (\<not> (\<not> multiSelectable c \<and> length (selectedNodes c) > 1 \<or> selectionRequired c \<and> selectedNodes c = []))
    (fail I_InvalidSelection (nodeId node) i))" by (rule all) simp
  then show "\<not> multiSelectable c \<Longrightarrow> length (selectedNodes c) \<le> 1" "selectionRequired c \<Longrightarrow> selectedNodes c \<noteq> []" by auto
  have "passes (require (\<not> has_adjacent (sort (selectedNodes c))) (fail I_InvalidSelection (nodeId node) i))" by (rule all) simp
  then show "distinct (selectedNodes c)" using no_adjacent_sort by simp
  have "passes (require (list_all (\<lambda>k. locate k \<noteq> length nodes \<and> has_state (nodes ! locate k) S_Selected \<and> has_state (nodes ! locate k) S_Selectable)
    (sort (selectedNodes c))) (fail I_InvalidSelection (nodeId node) i))" by (rule all) simp
  then show "k \<in> set (selectedNodes c) \<Longrightarrow> locate k \<noteq> length nodes \<and> has_state (nodes ! locate k) S_Selected \<and> has_state (nodes ! locate k) S_Selectable"
    by (simp add: list_all_iff)
qed

lemma passes_containment:
  assumes "passes (check_containment nodes locate t sizes i)"
  shows "nodeSelection (nodes ! i) = Some c \<Longrightarrow> k \<in> set (selectedNodes c) \<Longrightarrow>
      ordinalOf t ! i < ordinalOf t ! locate k \<and> ordinalOf t ! locate k < ordinalOf t ! i + sizes ! i"
    "nodeCollection (nodes ! i) = Some item \<Longrightarrow> gridOf t ! i < length nodes \<Longrightarrow> nodeRole (nodes ! i) \<in> {R_Cell, R_RowHeader, R_ColumnHeader} \<Longrightarrow>
      fits_grid item (the (nodeCollection (nodes ! (gridOf t ! i))))"
  using assms
  by (cases "nodeSelection (nodes ! i)"; cases "nodeCollection (nodes ! i)";
    auto simp: passes_def check_containment_def and_then_Inr require_def when_some_def list_all_iff Let_def simp del: insert_iff split: if_splits)+

lemma selected_node:
  assumes "validate v limits = Some res" "ok (validationStatus res)" "node \<in> set (snapshotNodes v)" "nodeSelection node = Some c"
    and k: "k \<in> set (selectedNodes c)"
  shows "\<exists>item. nodeId item = k \<and> (child_node v)\<^sup>+\<^sup>+ node item \<and> has_state item S_Selected \<and> has_state item S_Selectable"
proof -
  define nodes locate where "nodes = snapshotNodes v" and "locate = find_node (node_index nodes)"
  note folds = nodes_def [symmetric] locate_def [symmetric]
  obtain s pos L where c: "checked v limits s" and t: "node_tree nodes locate (locate (snapshotRoot v)) pos"
    and L: "preorder (\<lambda>i. map locate (nodeChildren (nodes ! i))) (locate (snapshotRoot v)) L" "distinct L" "set L = {..<length nodes}"
    and p: "\<And>i. i < length nodes \<Longrightarrow> passes (check_containment nodes locate (fold (visit nodes locate) L (start_traversal (length nodes)))
        (subtree_sizes nodes locate L) i)"
    using accepted [OF assms(1,2), unfolded folds] by blast
  obtain i where i: "i < length nodes" "nodes ! i = node" using assms(3) by (auto simp: in_set_conv_nth nodes_def)
  note sel = passes_selection [OF passes_node(1) [OF checked_node [OF c, unfolded folds, OF i(1)]], unfolded i(2), OF assms(4)]
  have lk: "locate k < length nodes \<and> nodeId (nodes ! locate k) = k"
    using sel(4) [OF k] locate_sound [of nodes k] by (simp add: locate_def)
  let ?f = "fold (visit nodes locate) L (start_traversal (length nodes))"
  have "ordinalOf ?f ! i < ordinalOf ?f ! locate k \<and> ordinalOf ?f ! locate k < ordinalOf ?f ! i + subtree_sizes nodes locate L ! i"
    using passes_containment(1) [OF p [OF i(1)], unfolded i(2)] assms(4) k by blast
  then have "descends nodes locate i (locate k)" using tree_intervals [OF t L i(1)] lk by blast
  then have "(child_node v)\<^sup>+\<^sup>+ node (nodes ! locate k)" using node_descends [OF c, unfolded folds] i(2) by blast
  then show ?thesis using sel(4) [OF k] lk by blast
qed

lemma enclosing_nearest:
  assumes c: "checked v limits s" and t: "snapshot_tree v" and g: "nearest_grid v k g"
  defines "nodes \<equiv> snapshotNodes v" and "locate \<equiv> find_node (node_index (snapshotNodes v))"
  shows "enclosing_grid nodes locate (locate (nodeId k)) (locate (nodeId g))"
  using g
proof induction
  note index = checked_index [OF c, folded locate_def, folded nodes_def]
  have up: "nodeParent (nodes ! locate (nodeId k)) = nodeId p \<and> nodeId p \<noteq> 0 \<and> nodes ! locate (nodeId p) = p" if "child_node v p k" for p k
  proof -
    have "p \<in> set nodes" "k \<in> set nodes" using that by (simp_all add: child_node_def nodes_def)
    then show ?thesis using t that index(3,4) unfolding snapshot_tree_def nodes_def by metis
  qed
  {
    case (nearest_parent p k)
    then show ?case using up [OF nearest_parent(1)] grid_parent [of nodes "locate (nodeId k)" locate] by simp
  next
    case (nearest_further p k g)
    then show ?case using up [OF nearest_further(1)] grid_further [of nodes "locate (nodeId k)" locate "locate (nodeId g)"] by simp
  }
qed

lemma partition_point_stop:
  assumes "first + count < length xs \<Longrightarrow> \<not> P (xs ! (first + count))" "partition_point_from P xs first count < length xs"
  shows "\<not> P (xs ! partition_point_from P xs first count)"
  using assms
proof (induction P xs first count rule: partition_point_from.induct)
  case (1 P xs first count)
  let ?step = "count div 2"
  show ?case
  proof (cases "count = 0")
    case True
    then show ?thesis using 1(3,4) by (simp add: partition_point_from.simps)
  next
    case False
    then have half: "?step < count" by simp
    show ?thesis
    proof (cases "P (xs ! (first + ?step))")
      case True
      have "first + ?step + 1 + (count - (?step + 1)) = first + count" using half by simp
      then show ?thesis using 1(1) [OF _ refl True] 1(3,4) False True by (simp add: partition_point_from.simps [of P xs first count] Let_def)
    next
      case stay: False
      then show ?thesis using 1(2) [OF _ refl stay] 1(4) False by (simp add: partition_point_from.simps [of P xs first count] Let_def)
    qed
  qed
qed

lemma binary_search_mem: "binary_search xs v \<Longrightarrow> v \<in> set xs"
proof -
  let ?i = "lower_bound_by (\<lambda>x. x < v) xs"
  assume "binary_search xs v"
  then have i: "?i < length xs" "\<not> v < xs ! ?i" by (simp_all add: binary_search_def Let_def)
  have "\<not> xs ! ?i < v" using partition_point_stop [of 0 "length xs" xs "\<lambda>x. x < v"] i(1) by (simp add: lower_bound_by_def)
  then have "xs ! ?i = v" using i(2) by (meson not_less_iff_gr_or_eq)
  then show ?thesis using nth_mem [OF i(1)] by simp
qed

lemma text_boundaries_uax29:
  assumes "list_all isScalarValue ss"
  shows "set (text_boundaries (utf8_text ss)) \<subseteq> set (uax29_boundaries ss)"
proof -
  have "take (length bs) (take n bs @ drop (length bs) (replicate n 0)) = take n bs" for bs :: "nat list" and n
    by (cases "n \<le> length bs") (simp_all add: min_def)
  then show ?thesis by (auto simp: text_boundaries_def reset_text [OF assms] Let_def dest: in_set_takeD)
qed

lemma passes_text:
  assumes "passes (check_text limits n locate node i t)"
  defines "validR \<equiv> validRange (contentUtf8 t) (text_boundaries (contentUtf8 t))"
  shows "validUtf8 (contentUtf8 t)" "x \<in> set (contentSelection t) \<Longrightarrow> validR x"
    "a \<in> set (contentAnnotations t) \<Longrightarrow> validR (annotationRange a)" "f \<in> set (contentFragments t) \<Longrightarrow> validR (fragmentRange f)"
    "contentCaret t = Some c \<Longrightarrow> validR \<lparr>rangeBegin = c, rangeEnd = c\<rparr>"
proof -
  note all = passes_all [OF assms(1) [unfolded check_text_def Let_def, folded validR_def]]
  have "passes (budgeted (budget_string limits (contentUtf8 t)) (nodeId node) i)" by (rule all) simp
  then show "validUtf8 (contentUtf8 t)" using passes_string by blast
  have "passes (require (list_all validR (contentSelection t)) (fail I_InvalidTextRange (nodeId node) i))" by (rule all) simp
  then show "x \<in> set (contentSelection t) \<Longrightarrow> validR x" by (simp add: list_all_iff)
  have "passes (require (list_all (\<lambda>f. validR (fragmentRange f) \<and> validRect (fragmentBounds f)) (contentFragments t))
    (fail I_InvalidTextRange (nodeId node) i))" by (rule all) simp
  then show "f \<in> set (contentFragments t) \<Longrightarrow> validR (fragmentRange f)" by (simp add: list_all_iff)
  have "passes (when_some (contentCaret t) (\<lambda>c. require (validR \<lparr>rangeBegin = c, rangeEnd = c\<rparr>) (fail I_InvalidTextRange (nodeId node) i)))"
    by (rule all) simp
  then show "contentCaret t = Some c \<Longrightarrow> validR \<lparr>rangeBegin = c, rangeEnd = c\<rparr>" by simp
  assume "a \<in> set (contentAnnotations t)"
  then have "passes (check_annotation limits n locate node i validR a)" by (intro all) simp
  then have "passes (require (validR (annotationRange a)) (fail I_InvalidTextRange (nodeId node) i))"
    unfolding check_annotation_def by (rule passes_all) simp
  then show "validR (annotationRange a)" by simp
qed

section \<open>An example\<close>

text \<open>A list with two options, the second one selected, and a label with a text.\<close>

definition example_node :: "NodeId \<Rightarrow> NodeId \<Rightarrow> Role \<Rightarrow> NodeId list \<Rightarrow> Node" where
  "example_node k p r ks = default_node\<lparr>nodeId := k, nodeParent := p, nodeRole := r, nodeChildren := ks\<rparr>"

definition example_selection :: SelectionInfo where
  "example_selection = \<lparr>selectedNodes = [3], activeNode = 3, multiSelectable = False, selectionRequired = True\<rparr>"

definition example_text :: TextContent where
  "example_text = \<lparr>contentUtf8 = [], contentDirection = TD_Unspecified, contentLanguage = [], contentAnnotations = [], contentFragments = [],
     contentSelection = [\<lparr>rangeBegin = 0, rangeEnd = 0\<rparr>], contentCaret = Some 0\<rparr>"

definition example_view :: SnapshotView where
  "example_view = \<lparr>generation = 1, snapshotRoot = 1, snapshotNodes =
     [(example_node 1 0 R_List [2, 3])\<lparr>nodeSelection := Some example_selection\<rparr>,
      (example_node 2 1 R_ListItem [])\<lparr>nodeText := Some example_text\<rparr>,
      (example_node 3 1 R_ListItem [])\<lparr>nodeStates := push_bit (state_bit S_Selected) 1 OR push_bit (state_bit S_Selectable) 1,
         nodeActions := push_bit (action_index AK_Invoke) 1 OR push_bit (action_index AK_Focus) 1\<rparr>]\<rparr>"

definition example_limits :: Limits where
  "example_limits = \<lparr>maximumNodes = 8, maximumChildrenPerNode = 8, maximumRelationsPerNode = 8, maximumExtensionsPerNode = 8,
     maximumExtensionListItems = 8, maximumTextBytesPerNode = 8, maximumTotalTextBytes = 8,
     maximumTextAnnotationsPerNode = 8, maximumTextFragmentsPerNode = 8, maximumActionQueue = 8, maximumNotificationQueue = 8,
     maximumActionTextBytes = 8, maximumSelectionRangesPerAction = 8, maximumAnnouncementBytes = 8, maximumExtensionDepth = 8,
     maximumExtensionValuesPerNode = 8, maximumRelationTargetsPerNode = 8, maximumTextSelectionsPerNode = 8,
     maximumNativeProviders = 8, maximumNativeTextRanges = 8\<rparr>"

lemma example_limits_valid: "validLimits example_limits"
  by (simp add: validLimits_def example_limits_def int32_max_def)

lemma example_locate:
  "find_node (node_index (snapshotNodes example_view)) 1 = 0" "find_node (node_index (snapshotNodes example_view)) 2 = 1"
  "find_node (node_index (snapshotNodes example_view)) 3 = 2"
  by code_simp+

lemma example_texts: "validUtf8 []" "text_boundaries [] = [0]"
  by code_simp+

lemmas example_defs = example_view_def example_node_def example_selection_def example_text_def default_node_def action_count_def

lemma example_nodes:
  assumes "locate 1 = 0" "locate 2 = 1" "locate 3 = 2" "i < 3" "focusedCount s = 0" "length (incoming s) = 3" "totalBytes s = 0"
    "\<forall>k \<in> set (nodeChildren (snapshotNodes example_view ! i)). incoming s ! locate k = 0"
  shows "check_node example_limits (snapshotNodes example_view) locate 0 i s = 
    Inr (s\<lparr>nodeBytes := 0, extensionValues := 0, incoming := if i = 0 then (incoming s)[1 := 1, 2 := 1] else incoming s\<rparr>)"
proof -
  have "i = 0 \<or> i = 1 \<or> i = 2" using assms(4) by auto
  then show ?thesis using assms
    by (elim disjE) (simp_all add: check_node_def check_states_def check_strings_def check_children_def check_values_def check_text_def
      check_selection_def and_then_def require_def when_some_def budgeted_def budget_string_def check_child_def node_strings_def
      validRange_def binary_search_def lower_bound_by_def partition_point_from.simps states_contain_def example_texts example_defs example_limits_def Let_def)
qed

lemma three_times: "replicate 3 x = [x, x, x]"
  by (simp add: numeral_3_eq_3)

lemma example_shape:
  assumes "locate 1 = 0" "locate 2 = 1" "locate 3 = 2"
  shows "check_shape (snapshotNodes example_view) locate 0 s = Some valid_result"
proof -
  let ?nodes = "snapshotNodes example_view"
  let ?t = "\<lparr>traversalOrder = [0, 1, 2], ordinalOf = [0, 1, 2], gridOf = [3, 3, 3]\<rparr>"
  have "search_loop (\<lambda>i. map locate (nodeChildren (?nodes ! i))) [0] 0 (replicate 3 False) = Some (Inr [0, 1, 2])"
    by (simp add: search_loop.simps [of _ "[0]"] search_loop.simps [of _ "[0, Suc 0, 2]"] three_times assms example_defs Let_def)
  moreover have "traverse_loop ?nodes locate [0] (start_traversal 3) = Some ?t"
    by (simp add: traverse_loop.simps [of _ _ "[]"] traverse_loop.simps [of _ _ "_ # _"] visit_def start_traversal_def is_grid_def
      three_times assms example_defs Let_def)
  moreover have "subtree_sizes ?nodes locate [0, 1, 2] = [3, 1, 1]"
    by (simp add: subtree_sizes_def assms example_defs three_times Let_def)
  moreover have "check_containment ?nodes locate ?t [3, 1, 1] i = Inr" if "i \<in> {0, 1, 2}" for i
    using that assms by (auto simp: check_containment_def and_then_def require_def when_some_def example_defs Let_def)
  moreover have "[0..<3] = [0, 1, 2 :: nat]" "length ?nodes = 3" by (simp_all add: upt_rec example_view_def)
  ultimately show ?thesis by (simp add: check_shape_def Let_def and_then_def)
qed

lemma example_valid: "validate example_view example_limits = Some valid_result"
proof -
  let ?nodes = "snapshotNodes example_view" and ?locate = "find_node (node_index (snapshotNodes example_view))"
  let ?s = "\<lambda>xs. \<lparr>totalBytes = 0, nodeBytes = 0, extensionValues = 0, incoming = xs, focusedCount = 0\<rparr>"
  let ?c = "check_node example_limits ?nodes ?locate 0"
  have f: "first_zero ?nodes 0 = None" "first_duplicate (node_index ?nodes) = None" "length ?nodes = 3" "snapshotRoot example_view = 1"
    "nodeParent (?nodes ! 0) = 0" "generation example_view = 1" by code_simp+
  have kids: "nodeChildren (?nodes ! 0) = [2, 3]" "nodeChildren (?nodes ! Suc 0) = []" "nodeChildren (?nodes ! 2) = []" by code_simp+
  have "?c 0 (?s [0, 0, 0]) = Inr (?s [0, 1, 1])" "?c 1 (?s [0, 1, 1]) = Inr (?s [0, 1, 1])" "?c 2 (?s [0, 1, 1]) = Inr (?s [0, 1, 1])"
    by (simp_all add: example_nodes example_locate kids)
  moreover have "check_incoming example_view 0 (?s [0, 1, 1]) = Inr (?s [0, 1, 1])"
    by (simp add: check_incoming_def and_then_def require_def f(3) upt_rec)
  moreover have "[0..<3] = [0, 1, 2 :: nat]" by (simp add: upt_rec)
  ultimately have "all_checks (map ?c [0..<3] @ [check_incoming example_view 0]) (?s [0, 0, 0]) = Inr (?s [0, 1, 1])"
    by (simp add: and_then_def)
  moreover have "start_validation 3 = ?s [0, 0, 0]" by code_simp
  moreover have "maximumNodes example_limits = 8" "?nodes \<noteq> []" by (simp_all add: example_limits_def example_view_def)
  ultimately show ?thesis unfolding validate_def Let_def f example_locate by (simp add: example_limits_valid example_shape example_locate f)
qed

lemma valid_result_ok: "ok (validationStatus valid_result)"
  by (simp add: valid_result_def ok_def successStatus_def)

section \<open>Properties\<close>

text \<open>
  C32: Validation always returns. Both traversals could run forever on a graph with cycles, but they are reached only when every node
  but the root has one incoming edge, and then they visit each node once.
\<close>

theorem validate_returns: "\<exists>res. validate v limits = Some res"
proof (rule validate_phases [of v limits])
  fix s assume c: "checked v limits s" and s: "validate v limits = check_shape (snapshotNodes v) (find_node (node_index (snapshotNodes v)))
    (find_node (node_index (snapshotNodes v)) (snapshotRoot v)) s"
  show ?thesis unfolding s by (rule shape_checked [OF c]) blast+
qed blast

text \<open>
  C29: An accepted snapshot is a tree. The identities are distinct and not zero, every listed child is a node, a node is listed by
  another exactly when it names that node as its parent, every node is reached from the root through child lists, and no node is below
  itself.
\<close>

theorem validate_accepts_trees:
  assumes "validate v limits = Some res" "ok (validationStatus res)"
  shows "snapshot_tree v"
  using tree_snapshot accepted [OF assms] by metis

theorem validate_accepts_trees_witness: "validate example_view example_limits = Some valid_result \<and> snapshot_tree example_view"
  using validate_accepts_trees [OF example_valid valid_result_ok] example_valid by blast

text \<open>
  C30: In an accepted snapshot at most one node is focused, the nodes a container says are selected are proper descendants of it
  that carry the selected and selectable states, one at most in a container for single selection, and every cell with a position lies
  inside the nearest table around it.
\<close>

theorem accepted_containment:
  assumes "validate v limits = Some res" "ok (validationStatus res)" "node \<in> set (snapshotNodes v)"
  shows "(has_state node S_Focused \<and> node' \<in> set (snapshotNodes v) \<and> has_state node' S_Focused \<longrightarrow> node' = node) \<and>
    (\<forall>c. nodeSelection node = Some c \<longrightarrow> (multiSelectable c \<or> length (selectedNodes c) \<le> 1) \<and>
      (\<forall>k \<in> set (selectedNodes c). \<exists>item. nodeId item = k \<and> (child_node v)\<^sup>+\<^sup>+ node item \<and> has_state item S_Selected \<and> has_state item S_Selectable)) \<and>
    (\<forall>item g. nodeCollection node = Some item \<and> nodeRole node \<in> {R_Cell, R_RowHeader, R_ColumnHeader} \<and> nearest_grid v node g \<longrightarrow>
      fits_grid item (the (nodeCollection g)))"
proof (intro conjI allI impI)
  define nodes locate where "nodes = snapshotNodes v" and "locate = find_node (node_index nodes)"
  note folds = nodes_def [symmetric] locate_def [symmetric]
  obtain s pos L where c: "checked v limits s" and t: "node_tree nodes locate (locate (snapshotRoot v)) pos"
    and L: "preorder (\<lambda>i. map locate (nodeChildren (nodes ! i))) (locate (snapshotRoot v)) L" "distinct L" "set L = {..<length nodes}"
    and p: "\<And>i. i < length nodes \<Longrightarrow> passes (check_containment nodes locate (fold (visit nodes locate) L (start_traversal (length nodes)))
        (subtree_sizes nodes locate L) i)"
    using accepted [OF assms(1,2), unfolded folds] by blast
  note index = checked_index [OF c, unfolded folds]
  let ?i = "locate (nodeId node)"
  have i: "?i < length nodes" "nodes ! ?i = node" using index(4) [of node] assms(3) by (simp_all add: nodes_def)
  {
    assume f: "has_state node S_Focused \<and> node' \<in> set (snapshotNodes v) \<and> has_state node' S_Focused"
    have "length (filter (\<lambda>i. has_state (nodes ! i) S_Focused) [0..<length nodes]) \<le> 1"
      using checked_edges(5) [OF c] by (simp add: nodes_def)
    moreover have "{?i, locate (nodeId node')} \<subseteq> set (filter (\<lambda>i. has_state (nodes ! i) S_Focused) [0..<length nodes])"
      using index(4) [of node'] f i by (auto simp: nodes_def)
    ultimately have "locate (nodeId node') = ?i"
      by (cases "filter (\<lambda>i. has_state (nodes ! i) S_Focused) [0..<length nodes]") auto
    then show "node' = node" using index(4) [of node'] f i by (simp add: nodes_def)
  next
    fix c' assume sel: "nodeSelection node = Some c'"
    show "multiSelectable c' \<or> length (selectedNodes c') \<le> 1"
      using passes_selection(1) [OF passes_node(1) [OF checked_node [OF c, unfolded folds, OF i(1)]], unfolded i(2), OF sel] by blast
    show "\<forall>k \<in> set (selectedNodes c'). \<exists>item. nodeId item = k \<and> (child_node v)\<^sup>+\<^sup>+ node item \<and> has_state item S_Selected \<and> has_state item S_Selectable"
      using selected_node [OF assms sel] by blast
  next
    fix item g assume cell: "nodeCollection node = Some item \<and> nodeRole node \<in> {R_Cell, R_RowHeader, R_ColumnHeader} \<and> nearest_grid v node g"
    have "enclosing_grid nodes locate ?i (locate (nodeId g))"
      using enclosing_nearest [OF c tree_snapshot [OF c t [unfolded nodes_def locate_def]], of node g] cell by (simp add: nodes_def locate_def)
    note grid = tree_grid [OF this t L i(1)]
    have "g \<in> set nodes" using cell by (auto simp: nodes_def child_node_def elim: nearest_grid.induct [of v node g "\<lambda>k g. g \<in> set (snapshotNodes v)"])
    then have "nodes ! locate (nodeId g) = g" using index(4) by blast
    then show "fits_grid item (the (nodeCollection g))" using passes_containment(2) [OF p [OF i(1)]] cell grid i(2) by simp
  }
qed

theorem accepted_containment_witness:
  "\<exists>item. nodeId item = 3 \<and> (child_node example_view)\<^sup>+\<^sup>+ (snapshotNodes example_view ! 0) item \<and> has_state item S_Selected"
proof -
  let ?node = "snapshotNodes example_view ! 0"
  have "?node \<in> set (snapshotNodes example_view)" "nodeSelection ?node = Some example_selection" by (simp_all add: example_view_def)
  moreover have "3 \<in> set (selectedNodes example_selection)" by (simp add: example_selection_def)
  ultimately show ?thesis using accepted_containment [OF example_valid valid_result_ok, of ?node ?node] by blast
qed

text \<open>
  C31: The text of an accepted node is well-formed UTF-8, and its selections, annotations, fragments and caret begin and end on the
  grapheme cluster boundaries of that text.
\<close>

theorem accepted_text_ranges:
  assumes "validate v limits = Some res" "ok (validationStatus res)" "node \<in> set (snapshotNodes v)" "nodeText node = Some t"
  shows "\<exists>ss. list_all isScalarValue ss \<and> contentUtf8 t = utf8_text ss \<and>
    (\<forall>x \<in> set (contentSelection t) \<union> annotationRange ` set (contentAnnotations t) \<union> fragmentRange ` set (contentFragments t).
      rangeBegin x \<le> rangeEnd x \<and> rangeBegin x \<in> set (uax29_boundaries ss) \<and> rangeEnd x \<in> set (uax29_boundaries ss)) \<and>
    (\<forall>c. contentCaret t = Some c \<longrightarrow> c \<in> set (uax29_boundaries ss))"
proof -
  obtain s where c: "checked v limits s" using accepted [OF assms(1,2)] by metis
  obtain i where i: "i < length (snapshotNodes v)" "snapshotNodes v ! i = node" using assms(3) by (auto simp: in_set_conv_nth)
  note p = passes_text [OF passes_node(2) [OF checked_node [OF c i(1)], unfolded i(2), OF assms(4)]]
  obtain ss where ss: "list_all isScalarValue ss" "contentUtf8 t = utf8_text ss"
    using p(1) by (auto simp: validUtf8_def Utf8_validate_iff valid_utf8_def)
  have range: "rangeBegin x \<le> rangeEnd x \<and> rangeBegin x \<in> set (uax29_boundaries ss) \<and> rangeEnd x \<in> set (uax29_boundaries ss)"
    if "validRange (contentUtf8 t) (text_boundaries (contentUtf8 t)) x" for x
    using that text_boundaries_uax29 [OF ss(1)] binary_search_mem unfolding validRange_def ss(2) by blast
  then have "\<forall>x \<in> set (contentSelection t) \<union> annotationRange ` set (contentAnnotations t) \<union> fragmentRange ` set (contentFragments t).
      rangeBegin x \<le> rangeEnd x \<and> rangeBegin x \<in> set (uax29_boundaries ss) \<and> rangeEnd x \<in> set (uax29_boundaries ss)"
    using p(2-4) by auto
  moreover have "c \<in> set (uax29_boundaries ss)" if "contentCaret t = Some c" for c using range [OF p(5) [OF that]] by simp
  ultimately show ?thesis using ss by blast
qed

theorem accepted_text_ranges_witness:
  "\<exists>ss. contentUtf8 example_text = utf8_text ss \<and> 0 \<in> set (uax29_boundaries ss)"
proof -
  let ?node = "snapshotNodes example_view ! 1"
  have "?node \<in> set (snapshotNodes example_view)" "nodeText ?node = Some example_text" by (simp_all add: example_view_def)
  moreover have "contentCaret example_text = Some 0" by (simp add: example_text_def)
  ultimately show ?thesis using accepted_text_ranges [OF example_valid valid_result_ok, of ?node example_text] by blast
qed

end
