(* ===== verification/Accessibility_Text.thy ===== *)
theory Accessibility_Text
  imports Accessibility_Accepted Unicode_Conversion
begin

text \<open>
  The text index of a published node, \<^verbatim>\<open>indexText\<close> of \<^verbatim>\<open>engine/desktop/core/accessibility.cpp\<close>: the native strings and the byte offsets of
  scalars, grapheme clusters, words, lines and formats. Offsets are unsigned 32-bit numbers, so the casts and sums wrap.
\<close>

section \<open>The index\<close>

definition u32 :: "nat \<Rightarrow> nat" where
  "u32 n = n mod 2 ^ 32"

record AccessibilityTextCache =
  cacheName :: "char16 list"
  cacheDescription :: "char16 list"
  cacheHelp :: "char16 list"
  cacheValue :: "char16 list"
  cacheLanguage :: "char16 list"
  cacheAccessKey :: "char16 list"
  cacheShortcut :: "char16 list"
  cacheText :: "char16 list"
  cacheTextLanguage :: "char16 list"
  cacheAnnotationValues :: "char16 list list"
  cacheScalars :: "nat list"
  cacheUtf16Offsets :: "nat list"
  cacheGraphemes :: "nat list"
  cacheWords :: "nat list"
  cacheLines :: "nat list"
  cacheFormats :: "nat list"

text \<open>The string is allocated at the measured size and converted in place; a new allocation does not overlap the text.\<close>

definition utf16 :: "byte list \<Rightarrow> char16 list" where
  "utf16 t = snd (convertToUtf16 \<lparr>span_data = 0, span_elems = t\<rparr>
     \<lparr>span_data = length t, span_elems = replicate (requiredCodeUnits (measureToUtf16 t)) 0\<rparr>)"

definition isSpace :: "char32 \<Rightarrow> bool" where
  "isSpace c \<longleftrightarrow> c = 0x20 \<or> c = 0x09 \<or> c = 0x0D \<or> c = 0x0A \<or> c = 0xA0 \<or> c = 0x1680 \<or> (c \<ge> 0x2000 \<and> c \<le> 0x200A) \<or>
     c = 0x2028 \<or> c = 0x2029 \<or> c = 0x202F \<or> c = 0x205F \<or> c = 0x3000"

definition isLineBreak :: "char32 \<Rightarrow> bool" where
  "isLineBreak c \<longleftrightarrow> c = 0x0A \<or> c = 0x2028 \<or> c = 0x2029"

record TextIndex =
  indexOffset :: nat
  indexWide :: nat
  indexPreviousSpace :: bool
  indexScalars :: "nat list"
  indexUtf16 :: "nat list"
  indexWords :: "nat list"
  indexLines :: "nat list"

definition index_start :: TextIndex where
  "index_start = \<lparr>indexOffset = 0, indexWide = 0, indexPreviousSpace = False, indexScalars = [], indexUtf16 = [], indexWords = [0], indexLines = [0]\<rparr>"

definition index_step :: "byte list \<Rightarrow> nat list \<Rightarrow> TextIndex \<Rightarrow> TextIndex" where
  "index_step t graphemes x =
    (let offset = indexOffset x; decoded = Utf8_decodeScalar (substr_from t offset); c = scalar8 decoded; space = isSpace c;
         next_offset = u32 (offset + bytesConsumed decoded) in
     \<lparr>indexOffset = next_offset, indexWide = u32 (indexWide x + (if c > 0xFFFF then 2 else 1)), indexPreviousSpace = space,
      indexScalars = indexScalars x @ [offset], indexUtf16 = indexUtf16 x @ [indexWide x],
      indexWords = (if indexPreviousSpace x \<and> \<not> space \<and> binary_search graphemes offset then indexWords x @ [offset] else indexWords x),
      indexLines = (if isLineBreak c then indexLines x @ [next_offset] else indexLines x)\<rparr>)"

partial_function (option) index_loop :: "byte list \<Rightarrow> nat list \<Rightarrow> TextIndex \<Rightarrow> TextIndex option" where
  "index_loop t graphemes x = (if indexOffset x < length t then index_loop t graphemes (index_step t graphemes x) else Some x)"

definition close_offsets :: "nat \<Rightarrow> nat list \<Rightarrow> nat list" where
  "close_offsets offset xs = (if last xs \<noteq> offset then xs @ [offset] else xs)"

definition text_formats :: "TextContent \<Rightarrow> nat list" where
  "text_formats c = remdups_adj (sort ([0, u32 (length (contentUtf8 c))] @
     concat (map (\<lambda>a. [rangeBegin (annotationRange a), rangeEnd (annotationRange a)]) (contentAnnotations c))))"

definition node_cache :: "Node \<Rightarrow> AccessibilityTextCache" where
  "node_cache node = \<lparr>cacheName = utf16 (nodeName node), cacheDescription = utf16 (nodeDescription node), cacheHelp = utf16 (nodeHelpText node),
     cacheValue = utf16 (nodeValue node), cacheLanguage = utf16 (nodeLanguage node), cacheAccessKey = utf16 (nodeAccessKey node),
     cacheShortcut = utf16 (nodeShortcut node), cacheText = [], cacheTextLanguage = [], cacheAnnotationValues = [], cacheScalars = [],
     cacheUtf16Offsets = [], cacheGraphemes = [], cacheWords = [], cacheLines = [], cacheFormats = []\<rparr>"

definition indexText :: "Node \<Rightarrow> AccessibilityTextCache option" where
  "indexText node =
    (case nodeText node of
       None \<Rightarrow> Some (node_cache node)
     | Some c \<Rightarrow>
         let t = contentUtf8 c; graphemes = map u32 (text_boundaries t) in
         (case index_loop t graphemes index_start of
            None \<Rightarrow> None
          | Some x \<Rightarrow> Some ((node_cache node)\<lparr>
              cacheText := utf16 t, cacheTextLanguage := utf16 (contentLanguage c),
              cacheAnnotationValues := map (\<lambda>a. utf16 (annotationValue a)) (contentAnnotations c),
              cacheFormats := text_formats c, cacheGraphemes := graphemes,
              cacheScalars := indexScalars x @ [indexOffset x], cacheUtf16Offsets := indexUtf16 x @ [indexWide x],
              cacheWords := close_offsets (indexOffset x) (indexWords x), cacheLines := close_offsets (indexOffset x) (indexLines x)\<rparr>)))"

section \<open>Native strings\<close>

lemma utf16_valid:
  assumes "list_all isScalarValue ss" "length (utf8_text ss) \<le> size_max"
  shows "utf16 (utf8_text ss) = utf16_text ss"
proof -
  let ?t = "utf8_text ss"
  let ?src = "\<lparr>span_data = 0, span_elems = ?t\<rparr>"
  let ?dst = "\<lparr>span_data = length ?t, span_elems = replicate (requiredCodeUnits (measureToUtf16 ?t)) (0 :: char16)\<rparr>"
  have "fitting utf16EncodedLength size_max ss = ss"
    using assms(2) utf16_text_not_longer [OF assms(1)] by (simp add: fitting_all_iff utf16_text_length)
  then have r: "requiredCodeUnits (measureToUtf16 ?t) = length (utf16_text ss)"
    using measureToUtf16_decomposes [OF utf8.encodings_decompose [OF assms(1)]] by simp
  then have fit: "fitting utf16EncodedLength (length (span_elems ?dst)) ss = ss" by (simp add: fitting_all_iff utf16_text_length)
  have "\<not> memoryRangesOverlap (as_bytes 1 ?src) (as_bytes 2 ?dst)" by (simp add: memoryRangesOverlap_def as_bytes_def Let_def)
  then show ?thesis
    using convertToUtf16_decomposes [of ?src ss "[]" ?dst] utf8.encodings_decompose [OF assms(1)] fit r by (simp add: utf16_def Let_def)
qed

section \<open>The loop on well-formed text\<close>

definition word_start :: "char32 list \<Rightarrow> nat \<Rightarrow> bool" where
  "word_start ss k \<longleftrightarrow> 0 < k \<and> isSpace (ss ! (k - 1)) \<and> \<not> isSpace (ss ! k) \<and> is_boundary ss k"

definition line_start :: "char32 list \<Rightarrow> nat \<Rightarrow> bool" where
  "line_start ss k \<longleftrightarrow> k = 0 \<or> isLineBreak (ss ! (k - 1))"

text \<open>The state after the first \<open>k\<close> scalars.\<close>

definition index_at :: "char32 list \<Rightarrow> nat \<Rightarrow> TextIndex" where
  "index_at ss k = \<lparr>indexOffset = cp_offset ss k, indexWide = length (utf16_text (take k ss)), indexPreviousSpace = (0 < k \<and> isSpace (ss ! (k - 1))),
     indexScalars = map (cp_offset ss) [0..<k], indexUtf16 = map (\<lambda>j. length (utf16_text (take j ss))) [0..<k],
     indexWords = map (cp_offset ss) (0 # filter (word_start ss) [1..<k]), indexLines = map (cp_offset ss) (filter (line_start ss) [0..<Suc k])\<rparr>"

lemma binary_search_sorted:
  assumes "sorted_wrt (<) (xs :: nat list)" "v \<in> set xs"
  shows "binary_search xs v"
proof -
  obtain ys zs where xs: "xs = ys @ v # zs" using assms(2) by (meson split_list)
  have "lower_bound_by (\<lambda>x. x < v) (ys @ (v # zs)) = length ys"
    using assms(1) unfolding xs by (intro lower_bound_append) (auto simp: sorted_wrt_append)
  then show ?thesis unfolding binary_search_def xs Let_def by simp
qed

lemma search_boundary:
  assumes "list_all isScalarValue ss" "k \<le> length ss"
  shows "binary_search (uax29_boundaries ss) (cp_offset ss k) \<longleftrightarrow> is_boundary ss k"
proof
  assume "binary_search (uax29_boundaries ss) (cp_offset ss k)"
  then have "cp_offset ss k \<in> set (uax29_boundaries ss)" by (rule binary_search_mem)
  then obtain m where m: "cp_offset ss k = cp_offset ss m" "m \<le> length ss" "is_boundary ss m" by (auto simp: set_uax29_boundaries)
  then have "m = k" using cp_offset_less [OF assms(1), of m k] cp_offset_less [OF assms(1), of k m] assms(2) by (metis nat_neq_iff)
  then show "is_boundary ss k" using m by simp
next
  assume "is_boundary ss k"
  then show "binary_search (uax29_boundaries ss) (cp_offset ss k)"
    using assms sorted_uax29_boundaries [OF assms(1)] by (intro binary_search_sorted) (auto simp: set_uax29_boundaries)
qed

lemma cp_offset_within: "list_all isScalarValue ss \<Longrightarrow> k \<le> length ss \<Longrightarrow> cp_offset ss k \<le> length (utf8_text ss)"
  using cp_offset_less [of ss "length ss" k] by (cases "k = length ss") (auto simp: cp_offset_def)

lemma wide_step:
  assumes "k < length ss"
  shows "length (utf16_text (take (Suc k) ss)) = length (utf16_text (take k ss)) + (if ss ! k > 0xFFFF then 2 else 1)"
  using assms by (simp add: take_Suc_conv_app_nth utf16_text_length utf16EncodedLength_def not_less)

lemma wide_le:
  assumes "list_all isScalarValue ss"
  shows "length (utf16_text (take k ss)) \<le> length (utf8_text ss)"
proof -
  have "list_all isScalarValue (take k ss)" using assms by (auto simp: list_all_iff dest: in_set_takeD)
  moreover have "length (utf8_text ss) = length (utf8_text (take k ss)) + length (utf8_text (drop k ss))"
    using append_take_drop_id [of k ss] by (metis concat_append length_append map_append)
  ultimately show ?thesis using utf16_text_not_longer [of "take k ss"] by linarith
qed

lemma index_step_at:
  assumes v: "list_all isScalarValue ss" and k: "k < length ss" and size: "length (utf8_text ss) < 2 ^ 32"
  shows "index_step (utf8_text ss) (uax29_boundaries ss) (index_at ss k) = index_at ss (Suc k)"
proof -
  note scan = scan_step [OF v k]
  have d: "Utf8_decodeScalar (substr_from (utf8_text ss) (cp_offset ss k)) = decoded8 (ss ! k) (utf8EncodedLength (ss ! k))"
    using scan(2) by (simp add: Utf8_decodeScalar_def)
  have "cp_offset ss (Suc k) \<le> length (utf8_text ss)" using cp_offset_within [OF v, of "Suc k"] k by simp
  then have off: "u32 (cp_offset ss k + utf8EncodedLength (ss ! k)) = cp_offset ss (Suc k)" using size scan(3) by (simp add: u32_def)
  have wide: "u32 (length (utf16_text (take k ss)) + (if ss ! k > 0xFFFF then 2 else 1)) = length (utf16_text (take (Suc k) ss))"
    using wide_step [OF k] wide_le [OF v, of "Suc k"] size by (simp add: u32_def)
  have search: "binary_search (uax29_boundaries ss) (cp_offset ss k) \<longleftrightarrow> is_boundary ss k" using search_boundary [OF v] k by simp
  have words: "filter (word_start ss) [1..<Suc k] = filter (word_start ss) [1..<k] @ (if word_start ss k then [k] else [])"
    by (cases k) (simp_all add: word_start_def)
  show ?thesis
    unfolding index_step_def index_at_def Let_def TextIndex.simps d words
    using off wide search by (simp add: word_start_def line_start_def)
qed

lemma index_loop_at:
  assumes v: "list_all isScalarValue ss" and size: "length (utf8_text ss) < 2 ^ 32" and k: "k \<le> length ss"
  shows "index_loop (utf8_text ss) (uax29_boundaries ss) (index_at ss k) = Some (index_at ss (length ss))"
  using k
proof (induction "length ss - k" arbitrary: k)
  case 0
  then have "k = length ss" by simp
  moreover have "indexOffset (index_at ss (length ss)) = length (utf8_text ss)" by (simp add: index_at_def cp_offset_def)
  ultimately show ?case by (subst index_loop.simps) simp
next
  case (Suc d)
  then have k: "k < length ss" by simp
  have "indexOffset (index_at ss k) < length (utf8_text ss)" using scan_step(1) [OF v k] by (simp add: index_at_def)
  then show ?case using Suc index_step_at [OF v k size] k by (subst index_loop.simps) simp
qed

lemma close_offsets_at:
  assumes v: "list_all isScalarValue ss" and n: "n = length ss" and set: "set ks \<subseteq> {..n}" and ks: "ks \<noteq> []"
  shows "close_offsets (cp_offset ss n) (map (cp_offset ss) ks) = map (cp_offset ss) (if last ks = n then ks else ks @ [n])"
proof -
  have "last ks \<le> n" using set ks last_in_set by blast
  then have "cp_offset ss (last ks) = cp_offset ss n \<longleftrightarrow> last ks = n"
    using cp_offset_less [OF v, of n "last ks"] n by (cases "last ks = n") auto
  then show ?thesis using ks by (simp add: close_offsets_def last_map)
qed

lemma word_offsets:
  "(if last (0 # filter (word_start ss) [1..<n]) = n then 0 # filter (word_start ss) [1..<n] else (0 # filter (word_start ss) [1..<n]) @ [n])
    = filter (\<lambda>k. k = 0 \<or> k = n \<or> word_start ss k) [0..<Suc n]"
proof (cases n)
  case 0
  then show ?thesis by simp
next
  case (Suc m)
  have "last (0 # filter (word_start ss) [1..<n]) \<in> set (0 # filter (word_start ss) [1..<n])" by (rule last_in_set) simp
  moreover have "set (0 # filter (word_start ss) [1..<n]) \<subseteq> {..<n}" using Suc by (auto simp del: upt_Suc)
  ultimately have "last (0 # filter (word_start ss) [1..<n]) < n" by blast
  moreover have "filter (\<lambda>k. k = 0 \<or> k = n \<or> word_start ss k) [1..<n] = filter (word_start ss) [1..<n]"
    by (intro filter_cong) auto
  moreover have "[0..<Suc n] = 0 # [1..<n] @ [n]" using Suc by (simp add: upt_conv_Cons)
  ultimately show ?thesis by simp
qed

lemma line_offsets:
  "(if last (filter (line_start ss) [0..<Suc n]) = n then filter (line_start ss) [0..<Suc n] else filter (line_start ss) [0..<Suc n] @ [n])
    = filter (\<lambda>k. k = n \<or> line_start ss k) [0..<Suc n]"
proof (cases "line_start ss n")
  case True
  moreover have "filter (\<lambda>k. k = n \<or> line_start ss k) [0..<n] = filter (line_start ss) [0..<n]" by (intro filter_cong) auto
  ultimately show ?thesis by simp
next
  case False
  then have "0 \<in> set (filter (line_start ss) [0..<n])" by (cases n) (auto simp: line_start_def)
  then have "last (filter (line_start ss) [0..<n]) \<in> set (filter (line_start ss) [0..<n])" by (intro last_in_set) force
  then have "last (filter (line_start ss) [0..<Suc n]) < n" using False by simp
  moreover have "filter (\<lambda>k. k = n \<or> line_start ss k) [0..<n] = filter (line_start ss) [0..<n]" by (intro filter_cong) auto
  ultimately show ?thesis using False by simp
qed

section \<open>The whole index\<close>

lemma scalars_le_bytes: "list_all isScalarValue ss \<Longrightarrow> k \<le> length ss \<Longrightarrow> k \<le> cp_offset ss k"
proof (induction k)
  case (Suc k)
  then show ?case using cp_offset_less [of ss "Suc k" k] by simp
qed simp

lemma text_boundaries_valid:
  assumes "list_all isScalarValue ss"
  shows "text_boundaries (utf8_text ss) = uax29_boundaries ss"
proof -
  have "length (uax29_boundaries ss) \<le> Suc (length ss)"
    unfolding uax29_boundaries_def length_map by (rule order_trans [OF length_filter_le]) simp
  moreover have "length ss \<le> length (utf8_text ss)"
    using scalars_le_bytes [OF assms order_refl] cp_offset_within [OF assms order_refl] by linarith
  ultimately show ?thesis by (simp add: text_boundaries_def reset_text [OF assms] Let_def)
qed

lemma graphemes_valid:
  assumes "list_all isScalarValue ss" "length (utf8_text ss) < 2 ^ 32"
  shows "map u32 (text_boundaries (utf8_text ss)) = uax29_boundaries ss"
proof -
  have "b < 2 ^ 32" if b: "b \<in> set (uax29_boundaries ss)" for b
  proof -
    obtain m where "b = cp_offset ss m" "m \<le> length ss" using b by (auto simp: set_uax29_boundaries)
    then show ?thesis using cp_offset_within [OF assms(1), of m] assms(2) by linarith
  qed
  then show ?thesis unfolding text_boundaries_valid [OF assms(1)] by (intro map_idI) (simp add: u32_def)
qed

text \<open>The arrays of the index, from the scalars of the text.\<close>

definition word_boundaries :: "char32 list \<Rightarrow> nat list" where
  "word_boundaries ss = map (cp_offset ss) (filter (\<lambda>k. k = 0 \<or> k = length ss \<or> word_start ss k) [0..<Suc (length ss)])"

definition line_boundaries :: "char32 list \<Rightarrow> nat list" where
  "line_boundaries ss = map (cp_offset ss) (filter (\<lambda>k. k = length ss \<or> line_start ss k) [0..<Suc (length ss)])"

lemma index_start_at: "index_start = index_at ss 0"
  by (simp add: index_start_def index_at_def cp_offset_def line_start_def)

lemma indexText_valid:
  assumes c: "nodeText node = Some c" "contentUtf8 c = utf8_text ss" and v: "list_all isScalarValue ss" and size: "length (utf8_text ss) < 2 ^ 32"
  shows "indexText node = Some ((node_cache node)\<lparr>
      cacheText := utf16_text ss, cacheTextLanguage := utf16 (contentLanguage c),
      cacheAnnotationValues := map (\<lambda>a. utf16 (annotationValue a)) (contentAnnotations c),
      cacheFormats := text_formats c, cacheGraphemes := uax29_boundaries ss,
      cacheScalars := map (cp_offset ss) [0..<Suc (length ss)],
      cacheUtf16Offsets := map (\<lambda>k. length (utf16_text (take k ss))) [0..<Suc (length ss)],
      cacheWords := word_boundaries ss, cacheLines := line_boundaries ss\<rparr>)"
proof -
  let ?n = "length ss"
  have loop: "index_loop (utf8_text ss) (uax29_boundaries ss) index_start = Some (index_at ss ?n)"
    unfolding index_start_at [of ss] using index_loop_at [OF v size] by simp
  have words: "close_offsets (cp_offset ss ?n) (indexWords (index_at ss ?n)) = word_boundaries ss"
    unfolding index_at_def TextIndex.simps word_boundaries_def word_offsets [symmetric]
    by (rule close_offsets_at [OF v refl]) auto
  have lines: "close_offsets (cp_offset ss ?n) (indexLines (index_at ss ?n)) = line_boundaries ss"
    unfolding index_at_def TextIndex.simps line_boundaries_def line_offsets [symmetric]
    by (rule close_offsets_at [OF v refl]) (auto simp: filter_empty_conv line_start_def intro: bexI [of _ 0] simp del: upt_Suc)
  have "size_max \<ge> 2 ^ 32" by (simp add: size_max_def)
  then have "utf16 (utf8_text ss) = utf16_text ss" using utf16_valid [OF v] size by linarith
  then show ?thesis
    using loop words lines graphemes_valid [OF v size] c by (simp add: indexText_def Let_def) (simp add: index_at_def)
qed

lemma sorted_distinct_adj: "sorted (xs :: nat list) \<Longrightarrow> distinct (remdups_adj xs)"
  by (induction xs rule: remdups_adj.induct) auto

lemma adj_sort: "sorted (remdups_adj (sort xs))" "distinct (remdups_adj (sort xs))" "set (remdups_adj (sort xs)) = set xs" for xs :: "nat list"
  by (simp_all add: sorted_distinct_adj)

lemma text_formats_sorted:
  "sorted (text_formats c)" "distinct (text_formats c)"
  "set (text_formats c) = {0, u32 (length (contentUtf8 c))} \<union> (\<Union>a \<in> set (contentAnnotations c). {rangeBegin (annotationRange a), rangeEnd (annotationRange a)})"
  unfolding text_formats_def adj_sort(3) by (rule adj_sort, rule adj_sort) auto

text \<open>
  C39: The index of a published text. On well-formed text below 4 GiB the loop ends, the native string is the UTF-16 form of the text, and the
  offset arrays are exactly the scalar offsets with their UTF-16 positions, the grapheme cluster boundaries, the word starts (a grapheme boundary between white
  space and the rest) and the line starts, each closed by the end of the text.
\<close>

theorem indexText_correct:
  assumes "nodeText node = Some c" "contentUtf8 c = utf8_text ss" "list_all isScalarValue ss" "length (utf8_text ss) < 2 ^ 32"
  shows "\<exists>cache. indexText node = Some cache \<and> cacheText cache = utf16_text ss \<and>
    cacheScalars cache = map (cp_offset ss) [0..<Suc (length ss)] \<and>
    cacheUtf16Offsets cache = map (\<lambda>k. length (utf16_text (take k ss))) [0..<Suc (length ss)] \<and>
    cacheGraphemes cache = uax29_boundaries ss \<and> cacheWords cache = word_boundaries ss \<and> cacheLines cache = line_boundaries ss \<and>
    sorted (cacheFormats cache) \<and> distinct (cacheFormats cache) \<and>
    (\<forall>a \<in> set (contentAnnotations c). rangeBegin (annotationRange a) \<in> set (cacheFormats cache) \<and> rangeEnd (annotationRange a) \<in> set (cacheFormats cache))"
  unfolding indexText_valid [OF assms] using text_formats_sorted [of c] by auto

theorem indexText_correct_witness:
  "\<exists>cache. indexText (default_node\<lparr>nodeText := Some (example_text\<lparr>contentUtf8 := [0x61, 0x0A, 0x62]\<rparr>)\<rparr>) = Some cache \<and>
    cacheText cache = utf16_text [0x61, 0x0A, 0x62] \<and> cacheScalars cache = [0, 1, 2, 3] \<and> cacheLines cache = [0, 2, 3]"
proof -
  let ?ss = "[0x61, 0x0A, 0x62] :: char32 list"
  let ?c = "example_text\<lparr>contentUtf8 := [0x61, 0x0A, 0x62]\<rparr>"
  have "contentUtf8 ?c = utf8_text ?ss" "list_all isScalarValue ?ss" by code_simp+
  moreover have "length (utf8_text ?ss) = 3" by code_simp
  then have "length (utf8_text ?ss) < 2 ^ 32" by simp
  moreover have "nodeText (default_node\<lparr>nodeText := Some ?c\<rparr>) = Some ?c" by simp
  ultimately obtain cache where "indexText (default_node\<lparr>nodeText := Some ?c\<rparr>) = Some cache" "cacheText cache = utf16_text ?ss"
    "cacheScalars cache = map (cp_offset ?ss) [0..<Suc (length ?ss)]" "cacheLines cache = line_boundaries ?ss"
    using indexText_correct [of "default_node\<lparr>nodeText := Some ?c\<rparr>" ?c ?ss] by blast
  moreover have "map (cp_offset ?ss) [0..<Suc (length ?ss)] = [0, 1, 2, 3]" "line_boundaries ?ss = [0, 2, 3]" by code_simp+
  ultimately show ?thesis by auto
qed

end
