(* ===== verification/Accessibility_Snapshot.thy ===== *)
theory Accessibility_Snapshot
  imports Accessibility_Text
begin

text \<open>
  \<^verbatim>\<open>engine/desktop/core/accessibility_snapshot.cpp\<close>: owned copies of nodes, the lookup in a published snapshot, and the builder that
  collects nodes within the limits. Views are values, so an owned copy is the structural copy of its source. Each operation that may run
  out of memory has an argument that says whether and when its allocations fail.
\<close>

section \<open>Owned payload copies\<close>

definition copyString :: "byte list \<Rightarrow> byte list" where
  "copyString source = (if source = [] then [] else source)"

fun copyExtension :: "ExtensionValue \<Rightarrow> ExtensionValue" where
  "copyExtension (EV_Utf8 t) = EV_Utf8 (copyString t)"
| "copyExtension (EV_List vs) = EV_List (map copyExtension vs)"
| "copyExtension v = v"

definition ownedNode :: "Node \<Rightarrow> Node" where
  "ownedNode source = source\<lparr>
     nodeName := copyString (nodeName source), nodeDescription := copyString (nodeDescription source),
     nodeHelpText := copyString (nodeHelpText source), nodeValue := copyString (nodeValue source),
     nodeLanguage := copyString (nodeLanguage source), nodeAccessKey := copyString (nodeAccessKey source),
     nodeShortcut := copyString (nodeShortcut source), nodeChildren := nodeChildren source,
     nodeRelations := map (\<lambda>r. \<lparr>relationKind = relationKind r, relationTargets = relationTargets r\<rparr>) (nodeRelations source),
     nodeExtensions := map (\<lambda>e. \<lparr>namespaceName = copyString (namespaceName e), extensionName = copyString (extensionName e),
       extensionValue = copyExtension (extensionValue e)\<rparr>) (nodeExtensions source),
     nodeSelection := map_option (\<lambda>c. c\<lparr>selectedNodes := selectedNodes c\<rparr>) (nodeSelection source),
     nodeText := map_option (\<lambda>t. t\<lparr>contentUtf8 := copyString (contentUtf8 t), contentLanguage := copyString (contentLanguage t),
       contentAnnotations := map (\<lambda>a. a\<lparr>annotationValue := copyString (annotationValue a)\<rparr>) (contentAnnotations t),
       contentFragments := contentFragments t, contentSelection := contentSelection t\<rparr>) (nodeText source)\<rparr>"

section \<open>Published snapshots\<close>

record PublishedSnapshot =
  publishedView :: SnapshotView
  focusedNode :: NodeId
  publishedIndex :: "(NodeId \<times> nat) list"
  publishedText :: "AccessibilityTextCache list"

definition findIndex :: "PublishedSnapshot \<Rightarrow> NodeId \<Rightarrow> nat" where
  "findIndex s k =
    (let found = lower_bound_by (\<lambda>item. fst item < k) (publishedIndex s) in
     if found < length (publishedIndex s) \<and> fst (publishedIndex s ! found) = k then snd (publishedIndex s ! found)
     else length (snapshotNodes (publishedView s)))"

definition findNode :: "PublishedSnapshot \<Rightarrow> NodeId \<Rightarrow> Node option" where
  "findNode s k = (let found = findIndex s k; nodes = snapshotNodes (publishedView s) in if found < length nodes then Some (nodes ! found) else None)"

text \<open>The candidate that \<open>publish\<close> prepares before it takes the publication lock; none when a text index does not return.\<close>

definition index_texts :: "Node list \<Rightarrow> AccessibilityTextCache list option" where
  "index_texts nodes = those (map indexText nodes)"

definition publish_candidate :: "SnapshotView \<Rightarrow> PublishedSnapshot option" where
  "publish_candidate v =
    (let nodes = snapshotNodes v in
     case index_texts nodes of None \<Rightarrow> None
     | Some caches \<Rightarrow> Some \<lparr>publishedView = v\<lparr>snapshotNodes := map ownedNode nodes\<rparr>,
         focusedNode = fold (\<lambda>node f. if has_state node S_Focused then nodeId node else f) nodes 0,
         publishedIndex = node_index nodes, publishedText = caches\<rparr>)"

section \<open>Copy budgets\<close>

definition bounded_string :: "Limits \<Rightarrow> byte list \<Rightarrow> nat \<Rightarrow> nat option" where
  "bounded_string limits text' nodeBytes' =
    (if length text' > maximumTextBytesPerNode limits then None
     else let n = nodeBytes' + length text' in if n \<le> maximumTextBytesPerNode limits then Some n else None)"

fun bounded_strings :: "Limits \<Rightarrow> byte list list \<Rightarrow> nat \<Rightarrow> nat option" where
  "bounded_strings limits [] n = Some n"
| "bounded_strings limits (t # ts) n = (case bounded_string limits t n of None \<Rightarrow> None | Some n \<Rightarrow> bounded_strings limits ts n)"

fun bounded_targets :: "Limits \<Rightarrow> Relation list \<Rightarrow> nat \<Rightarrow> bool" where
  "bounded_targets limits [] targets = True"
| "bounded_targets limits (r # rs) targets =
    (let targets = targets + length (relationTargets r) in
     if targets > maximumRelationTargetsPerNode limits then False else bounded_targets limits rs targets)"

text \<open>The walk over an extension value carries the bytes of the node and the number of values seen.\<close>

fun bounded_extension :: "Limits \<Rightarrow> ExtensionValue \<Rightarrow> nat \<Rightarrow> nat \<times> nat \<Rightarrow> (nat \<times> nat) option"
  and bounded_extensions :: "Limits \<Rightarrow> ExtensionValue list \<Rightarrow> nat \<Rightarrow> nat \<times> nat \<Rightarrow> (nat \<times> nat) option" where
  "bounded_extension limits v depth (n, values) =
    (if depth > maximumExtensionDepth limits \<or> values + 1 > maximumExtensionValuesPerNode limits then None
     else case v of
       EV_Utf8 t \<Rightarrow> map_option (\<lambda>n. (n, values + 1)) (bounded_string limits t n)
     | EV_List vs \<Rightarrow> if length vs > maximumExtensionListItems limits then None else bounded_extensions limits vs (depth + 1) (n, values + 1)
     | EV_Unnamed \<Rightarrow> None
     | _ \<Rightarrow> Some (n, values + 1))"
| "bounded_extensions limits [] depth s = Some s"
| "bounded_extensions limits (v # vs) depth s =
    (case bounded_extension limits v depth s of None \<Rightarrow> None | Some s \<Rightarrow> bounded_extensions limits vs depth s)"

fun bounded_node_extensions :: "Limits \<Rightarrow> Extension list \<Rightarrow> nat \<times> nat \<Rightarrow> (nat \<times> nat) option" where
  "bounded_node_extensions limits [] s = Some s"
| "bounded_node_extensions limits (e # es) (n, values) =
    (case bounded_strings limits [namespaceName e, extensionName e] n of None \<Rightarrow> None
     | Some n \<Rightarrow> (case bounded_extension limits (extensionValue e) 0 (n, values) of None \<Rightarrow> None
       | Some s \<Rightarrow> bounded_node_extensions limits es s))"

definition bounded_text :: "Limits \<Rightarrow> TextContent option \<Rightarrow> nat \<Rightarrow> nat option" where
  "bounded_text limits t n =
    (case t of None \<Rightarrow> Some n
     | Some t \<Rightarrow>
         if length (contentAnnotations t) > maximumTextAnnotationsPerNode limits \<or> length (contentFragments t) > maximumTextFragmentsPerNode limits \<or>
            length (contentSelection t) > maximumTextSelectionsPerNode limits then None
         else bounded_strings limits ([contentUtf8 t, contentLanguage t] @ map annotationValue (contentAnnotations t)) n)"

text \<open>The new number of text bytes in the builder, or nothing when a limit is exceeded.\<close>

definition boundedNode :: "Node \<Rightarrow> Limits \<Rightarrow> nat \<Rightarrow> nat option" where
  "boundedNode node limits bytes =
    (case bounded_strings limits (node_strings node) 0 of None \<Rightarrow> None
     | Some n \<Rightarrow>
         if length (nodeChildren node) > maximumChildrenPerNode limits \<or> length (nodeRelations node) > maximumRelationsPerNode limits \<or>
            length (nodeExtensions node) > maximumExtensionsPerNode limits then None
         else if \<not> bounded_targets limits (nodeRelations node) 0 then None
         else case bounded_node_extensions limits (nodeExtensions node) (n, 0) of None \<Rightarrow> None
     | Some (n, values) \<Rightarrow>
         if (case nodeSelection node of None \<Rightarrow> False | Some c \<Rightarrow> length (selectedNodes c) > maximumNodes limits) then None
         else case bounded_text limits (nodeText node) n of None \<Rightarrow> None
     | Some n \<Rightarrow> if bytes + n \<le> maximumTotalTextBytes limits then Some (bytes + n) else None)"

section \<open>The builder\<close>

record SnapshotBuilderState =
  builderGeneration :: Generation
  builderRoot :: NodeId
  builderNodes :: "Node list"
  builderNodeIds :: "NodeId set"
  builderTextBytes :: nat

definition new_builder_state :: SnapshotBuilderState where
  "new_builder_state = \<lparr>builderGeneration = 0, builderRoot = 0, builderNodes = [], builderNodeIds = {}, builderTextBytes = 0\<rparr>"

record SnapshotBuilder =
  builderLimits :: Limits
  builderState :: "SnapshotBuilderState option"

definition newBuilder :: "Limits \<Rightarrow> SnapshotBuilder" where
  "newBuilder limits = \<lparr>builderLimits = limits, builderState = None\<rparr>"

definition builder_clear :: "SnapshotBuilder \<Rightarrow> SnapshotBuilder" where
  "builder_clear b = b\<lparr>builderState := None\<rparr>"

text \<open>Whether the allocations of a call succeed; a call that fails late has created the state already.\<close>

datatype Allocation = Allocated | NoMemory | NoMemoryLate

definition builder_state :: "SnapshotBuilder \<Rightarrow> SnapshotBuilderState" where
  "builder_state b = (case builderState b of None \<Rightarrow> new_builder_state | Some s \<Rightarrow> s)"

definition setGeneration :: "Allocation \<Rightarrow> Generation \<Rightarrow> SnapshotBuilder \<Rightarrow> Status \<times> SnapshotBuilder" where
  "setGeneration alloc g b =
    (if g = 0 then (statusOf InvalidArgument, b)
     else if builderState b = None \<and> alloc \<noteq> Allocated then (statusOf OutOfMemory, b)
     else (successStatus, b\<lparr>builderState := Some ((builder_state b)\<lparr>builderGeneration := g\<rparr>)\<rparr>))"

definition setRoot :: "Allocation \<Rightarrow> NodeId \<Rightarrow> SnapshotBuilder \<Rightarrow> Status \<times> SnapshotBuilder" where
  "setRoot alloc r b =
    (if r = 0 then (statusOf InvalidArgument, b)
     else if builderState b = None \<and> alloc \<noteq> Allocated then (statusOf OutOfMemory, b)
     else (successStatus, b\<lparr>builderState := Some ((builder_state b)\<lparr>builderRoot := r\<rparr>)\<rparr>))"

definition empty_view :: SnapshotView where
  "empty_view = \<lparr>generation = 0, snapshotRoot = 0, snapshotNodes = []\<rparr>"

definition invalid_limits :: "Limits \<Rightarrow> bool" where
  "invalid_limits limits = (case validate empty_view limits of None \<Rightarrow> False | Some r \<Rightarrow> validationIssue r = I_InvalidLimits)"

definition addNode :: "Allocation \<Rightarrow> Node \<Rightarrow> SnapshotBuilder \<Rightarrow> Status \<times> SnapshotBuilder" where
  "addNode alloc node b =
    (if invalid_limits (builderLimits b) \<or> nodeId node = 0 then (statusOf InvalidArgument, b)
     else if builderState b \<noteq> None \<and> length (builderNodes (builder_state b)) \<ge> maximumNodes (builderLimits b) then (statusOf SizeLimitExceeded, b)
     else if builderState b \<noteq> None \<and> nodeId node \<in> builderNodeIds (builder_state b) then (statusOf InvalidArgument, b)
     else case boundedNode node (builderLimits b) (builderTextBytes (builder_state b)) of
       None \<Rightarrow> (statusOf SizeLimitExceeded, b)
     | Some bytes \<Rightarrow>
         (case alloc of
            NoMemory \<Rightarrow> (statusOf OutOfMemory, b)
          | NoMemoryLate \<Rightarrow> (statusOf OutOfMemory, b\<lparr>builderState := Some (builder_state b)\<rparr>)
          | Allocated \<Rightarrow>
              (successStatus, b\<lparr>builderState := Some ((builder_state b)\<lparr>
                 builderNodeIds := insert (nodeId node) (builderNodeIds (builder_state b)),
                 builderNodes := builderNodes (builder_state b) @ [ownedNode node], builderTextBytes := bytes\<rparr>)\<rparr>)))"

definition nodeCount :: "SnapshotBuilder \<Rightarrow> nat" where
  "nodeCount b = (case builderState b of None \<Rightarrow> 0 | Some s \<Rightarrow> length (builderNodes s))"

definition builder_view :: "SnapshotBuilder \<Rightarrow> SnapshotView" where
  "builder_view b = (case builderState b of None \<Rightarrow> empty_view
     | Some s \<Rightarrow> \<lparr>generation = builderGeneration s, snapshotRoot = builderRoot s, snapshotNodes = builderNodes s\<rparr>)"

text \<open>\<open>Facade::copySnapshot\<close>: the destination changes only when every node was copied.\<close>

fun copy_nodes :: "(nat \<Rightarrow> Allocation) \<Rightarrow> Node list \<Rightarrow> nat \<Rightarrow> SnapshotBuilder \<Rightarrow> Status \<times> SnapshotBuilder" where
  "copy_nodes alloc [] i b = (successStatus, b)"
| "copy_nodes alloc (node # nodes) i b =
    (case addNode (alloc i) node b of (status, b) \<Rightarrow> if \<not> ok status then (status, b) else copy_nodes alloc nodes (i + 1) b)"

definition copySnapshot :: "(nat \<Rightarrow> Allocation) \<Rightarrow> PublishedSnapshot option \<Rightarrow> SnapshotBuilder \<Rightarrow> Status \<times> SnapshotBuilder" where
  "copySnapshot alloc reader destination =
    (case reader of None \<Rightarrow> (statusOf NotOpen, destination)
     | Some s \<Rightarrow>
         let v = publishedView s in
         case setGeneration (alloc 0) (generation v) (newBuilder (builderLimits destination)) of (status, copy) \<Rightarrow>
         if \<not> ok status then (status, destination)
         else case setRoot (alloc 1) (snapshotRoot v) copy of (status, copy) \<Rightarrow>
         if \<not> ok status then (status, destination)
         else case copy_nodes alloc (snapshotNodes v) 2 copy of (status, copy) \<Rightarrow>
         if \<not> ok status then (status, destination) else (successStatus, copy))"

section \<open>Copies\<close>

lemma copyString_id [simp]: "copyString t = t"
  by (simp add: copyString_def)

lemma copyExtension_id [simp]: "copyExtension v = v"
  by (induction v) (simp_all add: map_idI)

lemma ownedNode_id [simp]: "ownedNode node = node"
  by (simp add: ownedNode_def map_idI option.map_ident [unfolded id_def] cong: map_cong option.map_cong)

lemma invalid_limits_iff: "invalid_limits limits \<longleftrightarrow> \<not> validLimits limits"
  by (simp add: invalid_limits_def validate_def empty_view_def Let_def fail_def)

section \<open>What a node costs\<close>

fun extension_texts :: "ExtensionValue \<Rightarrow> byte list list" where
  "extension_texts (EV_Utf8 t) = [t]"
| "extension_texts (EV_List vs) = concat (map extension_texts vs)"
| "extension_texts _ = []"

text \<open>Every string of a node.\<close>

definition node_texts :: "Node \<Rightarrow> byte list list" where
  "node_texts node = node_strings node @
    concat (map (\<lambda>e. namespaceName e # extensionName e # extension_texts (extensionValue e)) (nodeExtensions node)) @
    (case nodeText node of None \<Rightarrow> [] | Some t \<Rightarrow> contentUtf8 t # contentLanguage t # map annotationValue (contentAnnotations t))"

definition node_bytes :: "Node \<Rightarrow> nat" where
  "node_bytes node = sum_list (map length (node_texts node))"

lemma bounded_string_sum: "bounded_string limits t n = Some m \<Longrightarrow> m = n + length t"
  by (auto simp: bounded_string_def Let_def split: if_splits)

lemma bounded_strings_sum: "bounded_strings limits ts n = Some m \<Longrightarrow> m = n + sum_list (map length ts)"
proof (induction ts arbitrary: n)
  case (Cons t ts)
  then obtain k where k: "bounded_string limits t n = Some k" "bounded_strings limits ts k = Some m" by (auto split: option.splits)
  show ?case using Cons.IH [OF k(2)] bounded_string_sum [OF k(1)] by simp
qed simp

lemma bounded_extension_sum:
  "bounded_extension limits v depth p = Some q \<Longrightarrow> fst q = fst p + sum_list (map length (extension_texts v))"
  "bounded_extensions limits vs depth p = Some q \<Longrightarrow> fst q = fst p + sum_list (map length (concat (map extension_texts vs)))"
proof (induction limits v depth p and limits vs depth p arbitrary: q and q rule: bounded_extension_bounded_extensions.induct)
  case (1 limits v depth n vals)
  then show ?case by (cases v) (auto dest: bounded_string_sum split: if_splits)
next
  case (3 limits v vs depth p)
  obtain p' where p: "bounded_extension limits v depth p = Some p'" "bounded_extensions limits vs depth p' = Some q"
    using 3(3) by (auto split: option.splits)
  show ?case using 3(1) [OF p(1)] 3(2) [OF p] by simp
qed simp

lemma bounded_node_extensions_sum:
  "bounded_node_extensions limits es p = Some q \<Longrightarrow>
    fst q = fst p + sum_list (map length (concat (map (\<lambda>e. namespaceName e # extensionName e # extension_texts (extensionValue e)) es)))"
proof (induction limits es p arbitrary: q rule: bounded_node_extensions.induct)
  case (2 limits e es n vals)
  obtain k p where k: "bounded_strings limits [namespaceName e, extensionName e] n = Some k"
    "bounded_extension limits (extensionValue e) 0 (k, vals) = Some p" "bounded_node_extensions limits es p = Some q"
    using 2(2) by (auto split: option.splits)
  show ?case using 2(1) [OF k] bounded_strings_sum [OF k(1)] bounded_extension_sum(1) [OF k(2)] by simp
qed simp

lemma boundedNode_bytes:
  assumes "boundedNode node limits bytes = Some b"
  shows "b = bytes + node_bytes node" "b \<le> maximumTotalTextBytes limits"
proof -
  obtain n n' vals m where n: "bounded_strings limits (node_strings node) 0 = Some n"
    "bounded_node_extensions limits (nodeExtensions node) (n, 0) = Some (n', vals)" "bounded_text limits (nodeText node) n' = Some m"
    "b = bytes + m" "b \<le> maximumTotalTextBytes limits"
    using assms by (auto simp: boundedNode_def split: option.splits if_splits)
  have "n' = n + sum_list (map length (concat (map (\<lambda>e. namespaceName e # extensionName e # extension_texts (extensionValue e)) (nodeExtensions node))))"
    using bounded_node_extensions_sum [OF n(2)] by simp
  moreover have "m = n' + sum_list (map length (case nodeText node of None \<Rightarrow> [] | Some t \<Rightarrow> contentUtf8 t # contentLanguage t # map annotationValue (contentAnnotations t)))"
    using n(3) by (cases "nodeText node")
      (auto simp: bounded_text_def simp del: bounded_strings.simps dest!: bounded_strings_sum split: if_splits)
  ultimately show "b = bytes + node_bytes node" using bounded_strings_sum [OF n(1)] n(4) by (simp add: node_bytes_def node_texts_def)
  show "b \<le> maximumTotalTextBytes limits" by (rule n(5))
qed

section \<open>Reachable builders\<close>

inductive built :: "Limits \<Rightarrow> SnapshotBuilder \<Rightarrow> bool" for limits where
  built_new: "built limits (newBuilder limits)"
| built_clear: "built limits b \<Longrightarrow> built limits (builder_clear b)"
| built_generation: "built limits b \<Longrightarrow> built limits (snd (setGeneration alloc g b))"
| built_root: "built limits b \<Longrightarrow> built limits (snd (setRoot alloc r b))"
| built_node: "built limits b \<Longrightarrow> built limits (snd (addNode alloc node b))"

definition builder_ok :: "SnapshotBuilder \<Rightarrow> bool" where
  "builder_ok b \<longleftrightarrow> (let s = builder_state b in
    distinct (map nodeId (builderNodes s)) \<and> builderNodeIds s = nodeId ` set (builderNodes s) \<and> 0 \<notin> builderNodeIds s \<and>
    (builderNodes s \<noteq> [] \<longrightarrow> length (builderNodes s) \<le> maximumNodes (builderLimits b)) \<and>
    builderTextBytes s = sum_list (map node_bytes (builderNodes s)) \<and> builderTextBytes s \<le> maximumTotalTextBytes (builderLimits b))"

lemma builder_state_Some [simp]: "builder_state (b\<lparr>builderState := Some s\<rparr>) = s"
  by (simp add: builder_state_def)

lemma addNode_cases:
  obtains status where "addNode alloc node b = (status, b)" "\<not> ok status"
  | status where "addNode alloc node b = (status, b\<lparr>builderState := Some (builder_state b)\<rparr>)" "\<not> ok status"
  | bytes where "addNode alloc node b = (successStatus, b\<lparr>builderState := Some ((builder_state b)\<lparr>
        builderNodeIds := insert (nodeId node) (builderNodeIds (builder_state b)),
        builderNodes := builderNodes (builder_state b) @ [node], builderTextBytes := bytes\<rparr>)\<rparr>)"
      "validLimits (builderLimits b)" "nodeId node \<noteq> 0" "nodeId node \<notin> builderNodeIds (builder_state b)"
      "length (builderNodes (builder_state b)) < maximumNodes (builderLimits b)"
      "boundedNode node (builderLimits b) (builderTextBytes (builder_state b)) = Some bytes" "alloc = Allocated"
proof -
  let ?l = "builderLimits b" and ?s = "builder_state b"
  let ?pass = "validLimits ?l \<and> nodeId node \<noteq> 0 \<and> \<not> (builderState b \<noteq> None \<and> length (builderNodes ?s) \<ge> maximumNodes ?l) \<and>
    \<not> (builderState b \<noteq> None \<and> nodeId node \<in> builderNodeIds ?s) \<and> boundedNode node ?l (builderTextBytes ?s) \<noteq> None"
  have early: "snd (addNode alloc node b) = b \<and> \<not> ok (fst (addNode alloc node b))" if "\<not> ?pass"
    using that by (auto simp: addNode_def invalid_limits_iff ok_def makeStatus_def split: option.splits)
  show thesis
  proof (cases ?pass)
    case False
    then show thesis using that(1) early by (metis prod.collapse)
  next
    case True
    then obtain bytes where add: "validLimits ?l" "nodeId node \<noteq> 0"
      "\<not> (builderState b \<noteq> None \<and> length (builderNodes ?s) \<ge> maximumNodes ?l)"
      "\<not> (builderState b \<noteq> None \<and> nodeId node \<in> builderNodeIds ?s)" "boundedNode node ?l (builderTextBytes ?s) = Some bytes"
      by blast
    have "maximumNodes ?l > 0" using add(1) by (simp add: validLimits_def)
    then have new: "length (builderNodes ?s) < maximumNodes ?l" "nodeId node \<notin> builderNodeIds ?s"
      using add(3,4) by (cases "builderState b"; auto simp: builder_state_def new_builder_state_def)+
    have eq: "addNode alloc node b = (case alloc of
            NoMemory \<Rightarrow> (statusOf OutOfMemory, b)
          | NoMemoryLate \<Rightarrow> (statusOf OutOfMemory, b\<lparr>builderState := Some ?s\<rparr>)
          | Allocated \<Rightarrow> (successStatus, b\<lparr>builderState := Some (?s\<lparr>
                 builderNodeIds := insert (nodeId node) (builderNodeIds ?s), builderNodes := builderNodes ?s @ [node], builderTextBytes := bytes\<rparr>)\<rparr>))"
      using add unfolding addNode_def by (cases alloc) (auto simp: invalid_limits_iff)
    show thesis
    proof (cases alloc)
      case Allocated
      show thesis by (rule that(3)) (use eq Allocated add new in simp_all)
    next
      case NoMemory
      show thesis by (rule that(1) [of "statusOf OutOfMemory"]) (use eq NoMemory in \<open>simp_all add: ok_def makeStatus_def\<close>)
    next
      case NoMemoryLate
      show thesis by (rule that(2) [of "statusOf OutOfMemory"]) (use eq NoMemoryLate in \<open>simp_all add: ok_def makeStatus_def\<close>)
    qed
  qed
qed

lemma addNode_ok:
  assumes "builder_ok b"
  shows "builder_ok (snd (addNode alloc node b))"
proof (rule addNode_cases [of alloc node b])
  fix bytes assume a: "addNode alloc node b = (successStatus, b\<lparr>builderState := Some ((builder_state b)\<lparr>
        builderNodeIds := insert (nodeId node) (builderNodeIds (builder_state b)),
        builderNodes := builderNodes (builder_state b) @ [node], builderTextBytes := bytes\<rparr>)\<rparr>)"
      "nodeId node \<noteq> 0" "nodeId node \<notin> builderNodeIds (builder_state b)"
      "length (builderNodes (builder_state b)) < maximumNodes (builderLimits b)"
      "boundedNode node (builderLimits b) (builderTextBytes (builder_state b)) = Some bytes"
  show ?thesis unfolding a(1) using assms a(2-4) boundedNode_bytes [OF a(5)] by (auto simp: builder_ok_def Let_def)
qed (use assms in \<open>auto simp: builder_ok_def Let_def\<close>)

lemma built_ok: "built limits b \<Longrightarrow> builderLimits b = limits \<and> builder_ok b"
proof (induction rule: built.induct)
  case (built_node b alloc node)
  then show ?case using addNode_ok [of b alloc node] by (cases rule: addNode_cases [of alloc node b]) auto
qed (auto simp: newBuilder_def builder_clear_def setGeneration_def setRoot_def builder_ok_def Let_def builder_state_def new_builder_state_def
  split: option.splits)

section \<open>Accepted nodes fit the builder\<close>

text \<open>A step of the validation that spends the same budgets as the builder's walk.\<close>

definition accounts :: "Limits \<Rightarrow> ValidationState \<Rightarrow> ValidationState \<Rightarrow> bool" where
  "accounts limits s t \<longleftrightarrow> totalBytes t + nodeBytes s = totalBytes s + nodeBytes t \<and>
    (totalBytes s \<le> maximumTotalTextBytes limits \<longrightarrow> totalBytes t \<le> maximumTotalTextBytes limits)"

lemma accounts_refl [simp]: "accounts limits s s"
  by (simp add: accounts_def)

lemma accounts_trans: "accounts limits s t \<Longrightarrow> accounts limits t u \<Longrightarrow> accounts limits s u"
  by (auto simp: accounts_def)

definition neutral :: "check \<Rightarrow> bool" where
  "neutral f \<longleftrightarrow> (\<forall>s t. f s = Inr t \<longrightarrow> nodeBytes t = nodeBytes s \<and> totalBytes t = totalBytes s \<and> extensionValues t = extensionValues s)"

named_theorems neutral_rules

lemma neutralD: "neutral f \<Longrightarrow> f s = Inr t \<Longrightarrow> nodeBytes t = nodeBytes s \<and> totalBytes t = totalBytes s \<and> extensionValues t = extensionValues s"
  by (simp add: neutral_def)

lemma neutral_require [neutral_rules]: "neutral (require c r)"
  by (simp add: neutral_def require_def)

lemma neutral_state_require [neutral_rules]: "neutral (\<lambda>s. require (p s) r s)"
  by (simp add: neutral_def require_def)

lemma neutral_when_some [neutral_rules]: "(\<And>x. neutral (f x)) \<Longrightarrow> neutral (when_some v f)"
  by (cases v) (simp_all add: neutral_def when_some_def)

lemma neutral_Nil [neutral_rules]: "neutral (all_checks [])"
  by (simp add: neutral_def)

lemma neutral_Cons [neutral_rules]: "neutral f \<Longrightarrow> neutral (all_checks fs) \<Longrightarrow> neutral (all_checks (f # fs))"
  unfolding neutral_def all_checks_Cons by metis

lemma neutral_append [neutral_rules]: "neutral (all_checks fs) \<Longrightarrow> neutral (all_checks gs) \<Longrightarrow> neutral (all_checks (fs @ gs))"
  unfolding neutral_def all_checks_append by metis

lemma neutral_map [neutral_rules]: "(\<And>x. neutral (f x)) \<Longrightarrow> neutral (all_checks (map f xs))"
proof (induction xs)
  case Nil
  then show ?case by (simp add: neutral_def)
next
  case (Cons x xs)
  then show ?case using neutral_Cons by (metis list.simps(9))
qed

lemma neutral_focus [neutral_rules]:
  "neutral (\<lambda>s. if b then let s = s\<lparr>focusedCount := focusedCount s + 1\<rparr> in if focusedCount s > 1 then Inl r else Inr s else Inr s)"
  by (simp add: neutral_def Let_def)

lemma neutral_child [neutral_rules]: "neutral (check_child nodes locate node i c)"
  by (auto simp: neutral_def check_child_def Let_def split: if_splits)

lemma neutral_states [neutral_rules]: "neutral (check_states node i)"
  unfolding check_states_def by (intro neutral_rules)

lemma neutral_children [neutral_rules]: "neutral (check_children limits nodes locate r node i)"
  unfolding check_children_def by (intro neutral_rules)

lemma neutral_selection [neutral_rules]: "neutral (check_selection limits nodes locate node i c)"
  unfolding check_selection_def Let_def by (intro neutral_rules)

lemma neutral_values [neutral_rules]: "neutral (check_values limits nodes locate node i)"
  unfolding check_values_def by (intro neutral_rules)

lemma relations_same: "check_relations limits n locate k i rs c ks s = Inr t \<Longrightarrow> t = s \<and> bounded_targets limits rs c"
  by (induction rs arbitrary: c ks) (auto simp: Let_def split: if_splits)

lemma budgeted_Inr: "budgeted f k i s = Inr t \<longleftrightarrow> f s = (I_None, t)"
  by (auto simp: budgeted_def split: prod.splits if_splits)

lemma string_spends:
  assumes "budget_string limits v s = (I_None, t)"
  shows "bounded_string limits v (nodeBytes s) = Some (nodeBytes t) \<and> extensionValues t = extensionValues s \<and> accounts limits s t"
  using assms by (auto simp: budget_string_def bounded_string_def accounts_def split: if_splits)

lemma strings_spend:
  assumes "all_checks (map (\<lambda>v. budgeted (budget_string limits v) k i) ts) s = Inr t"
  shows "bounded_strings limits ts (nodeBytes s) = Some (nodeBytes t) \<and> extensionValues t = extensionValues s \<and> accounts limits s t"
  using assms
proof (induction ts arbitrary: s)
  case (Cons v ts)
  obtain u where u: "budget_string limits v s = (I_None, u)" "all_checks (map (\<lambda>v. budgeted (budget_string limits v) k i) ts) u = Inr t"
    using Cons.prems unfolding list.map all_checks_Cons budgeted_Inr by blast
  show ?case using string_spends [OF u(1)] Cons.IH [OF u(2)] by (auto intro: accounts_trans)
qed simp

lemma extension_spends:
  "budget_extension limits v depth s = (I_None, t) \<Longrightarrow>
    bounded_extension limits v depth (nodeBytes s, extensionValues s) = Some (nodeBytes t, extensionValues t) \<and> accounts limits s t"
  "budget_extensions limits vs depth s = (I_None, t) \<Longrightarrow>
    bounded_extensions limits vs depth (nodeBytes s, extensionValues s) = Some (nodeBytes t, extensionValues t) \<and> accounts limits s t"
proof (induction limits v depth s and limits vs depth s arbitrary: t and t rule: budget_extension_budget_extensions.induct)
  case (1 limits v depth s)
  let ?s = "s\<lparr>extensionValues := extensionValues s + 1\<rparr>"
  have s: "accounts limits ?s t \<Longrightarrow> accounts limits s t" by (simp add: accounts_def)
  show ?case
  proof (cases v)
    case (EV_Utf8 u)
    then have "budget_string limits u ?s = (I_None, t)" using 1(2) by (simp add: Let_def split: if_splits)
    from string_spends [OF this] show ?thesis using 1(2) EV_Utf8 s by (simp add: Let_def split: if_splits)
  next
    case (EV_List vs)
    then have l: "\<not> (extensionValues ?s > maximumExtensionValuesPerNode limits \<or> depth > maximumExtensionDepth limits)"
      "\<not> length vs > maximumExtensionListItems limits" "budget_extensions limits vs (depth + 1) ?s = (I_None, t)"
      using 1(2) by (simp_all add: Let_def split: if_splits)
    from 1(1) [OF refl l(1) EV_List l(2,3)] show ?thesis using l(1,2) EV_List s by simp
  qed (use 1(2) in \<open>auto simp: Let_def accounts_def split: if_splits\<close>)
next
  case (3 limits v vs depth s)
  obtain u where u: "budget_extension limits v depth s = (I_None, u)" "budget_extensions limits vs depth u = (I_None, t)"
    using 3(3) by (auto split: prod.splits if_splits)
  show ?case using 3(1) [OF u(1)] 3(2) [OF u(1) [symmetric] _ u(2)] by (auto intro: accounts_trans)
qed simp

lemma check_extensions_spend:
  assumes "all_checks (map (check_extension limits n locate node) [e..<length (nodeExtensions node)]) s = Inr t" "e \<le> length (nodeExtensions node)"
  shows "bounded_node_extensions limits (drop e (nodeExtensions node)) (nodeBytes s, extensionValues s) = Some (nodeBytes t, extensionValues t) \<and>
    accounts limits s t"
  using assms
proof (induction "length (nodeExtensions node) - e" arbitrary: e s)
  case 0
  then show ?case by simp
next
  case (Suc d)
  then have e: "e < length (nodeExtensions node)" by simp
  let ?x = "nodeExtensions node ! e"
  have dr: "drop e (nodeExtensions node) = ?x # drop (Suc e) (nodeExtensions node)" by (rule Cons_nth_drop_Suc [OF e, symmetric])
  obtain u where u: "check_extension limits n locate node e s = Inr u"
    "all_checks (map (check_extension limits n locate node) [Suc e..<length (nodeExtensions node)]) u = Inr t"
    using Suc.prems(1) e by (auto simp: upt_conv_Cons and_then_Inr)
  obtain s1 s2 where x: "budget_string limits (namespaceName ?x) s = (I_None, s1)" "budget_string limits (extensionName ?x) s1 = (I_None, s2)"
    "budget_extension limits (extensionValue ?x) 0 s2 = (I_None, u)"
    using u(1) by (auto simp: check_extension_def and_then_Inr budgeted_Inr require_def Let_def split: if_splits)
  have "bounded_node_extensions limits (drop (Suc e) (nodeExtensions node)) (nodeBytes u, extensionValues u) = Some (nodeBytes t, extensionValues t) \<and>
      accounts limits u t"
    using Suc.hyps(1) [of "Suc e" u] Suc.hyps(2) u(2) e by simp
  then show ?case
    unfolding dr using string_spends [OF x(1)] string_spends [OF x(2)] extension_spends(1) [OF x(3)] by (auto intro: accounts_trans)
qed

lemma bounded_strings_append:
  "bounded_strings limits (xs @ ys) n = (case bounded_strings limits xs n of None \<Rightarrow> None | Some n \<Rightarrow> bounded_strings limits ys n)"
  by (induction xs arbitrary: n) (auto split: option.splits)

lemma annotations_spend:
  assumes "all_checks (map (check_annotation limits n locate node i validR) as) s = Inr t"
  shows "bounded_strings limits (map annotationValue as) (nodeBytes s) = Some (nodeBytes t) \<and> accounts limits s t"
  using assms
proof (induction as arbitrary: s)
  case (Cons a as)
  obtain u where u: "check_annotation limits n locate node i validR a s = Inr u"
    "all_checks (map (check_annotation limits n locate node i validR) as) u = Inr t"
    using Cons.prems unfolding list.map all_checks_Cons by blast
  have b: "budget_string limits (annotationValue a) s = (I_None, u)"
    using u(1) unfolding check_annotation_def all_checks_Cons by (auto simp: budgeted_Inr require_def split: if_splits)
  show ?case using string_spends [OF b] Cons.IH [OF u(2)] by (auto intro: accounts_trans)
qed simp

lemma text_spends:
  assumes "when_some (nodeText node) (check_text limits n locate node i) s = Inr t"
  shows "bounded_text limits (nodeText node) (nodeBytes s) = Some (nodeBytes t) \<and> accounts limits s t"
proof (cases "nodeText node")
  case None
  then show ?thesis using assms by (simp add: when_some_def bounded_text_def)
next
  case (Some c)
  let ?R = "validRange (contentUtf8 c) (text_boundaries (contentUtf8 c))"
  obtain s1 s2 s3 where x: "budget_string limits (contentUtf8 c) s = (I_None, s1)" "budget_string limits (contentLanguage c) s1 = (I_None, s2)"
    "length (contentAnnotations c) \<le> maximumTextAnnotationsPerNode limits" "length (contentFragments c) \<le> maximumTextFragmentsPerNode limits"
    "length (contentSelection c) \<le> maximumTextSelectionsPerNode limits"
    "all_checks (map (check_annotation limits n locate node i ?R) (contentAnnotations c)) s2 = Inr s3"
    and rest: "all_checks [require (list_all (\<lambda>f. ?R (fragmentRange f) \<and> validRect (fragmentBounds f)) (contentFragments c))
          (fail I_InvalidTextRange (nodeId node) i),
        require (list_all ?R (contentSelection c)) (fail I_InvalidTextRange (nodeId node) i),
        when_some (contentCaret c) (\<lambda>c. require (?R \<lparr>rangeBegin = c, rangeEnd = c\<rparr>) (fail I_InvalidTextRange (nodeId node) i))] s3 = Inr t"
    using assms unfolding Some when_some_def option.case check_text_def Let_def all_checks_append
    by (auto simp: and_then_Inr budgeted_Inr require_def split: if_splits)
  have "neutral (all_checks [require (list_all (\<lambda>f. ?R (fragmentRange f) \<and> validRect (fragmentBounds f)) (contentFragments c))
          (fail I_InvalidTextRange (nodeId node) i),
        require (list_all ?R (contentSelection c)) (fail I_InvalidTextRange (nodeId node) i),
        when_some (contentCaret c) (\<lambda>c. require (?R \<lparr>rangeBegin = c, rangeEnd = c\<rparr>) (fail I_InvalidTextRange (nodeId node) i))])"
    by (intro neutral_rules)
  from neutralD [OF this rest] have "nodeBytes t = nodeBytes s3" "accounts limits s3 t" by (simp_all add: accounts_def)
  then show ?thesis
    using string_spends [OF x(1)] string_spends [OF x(2)] annotations_spend [OF x(6)] x(3-5) Some
    by (auto simp: bounded_text_def intro: accounts_trans)
qed

lemma node_spends:
  assumes "check_node limits nodes locate r i s = Inr t" "length nodes \<le> maximumNodes limits" "totalBytes s \<le> maximumTotalTextBytes limits"
  shows "boundedNode (nodes ! i) limits (totalBytes s) = Some (totalBytes t)"
proof -
  let ?node = "nodes ! i" and ?n = "length nodes" and ?s = "s\<lparr>nodeBytes := 0, extensionValues := 0\<rparr>"
  obtain s1 s2 s3 s4 s5 s6 where c: "check_states ?node i ?s = Inr s1"
    "all_checks (map (\<lambda>v. budgeted (budget_string limits v) (nodeId ?node) i) (node_strings ?node)) s1 = Inr s2"
    "check_children limits nodes locate r ?node i s2 = Inr s3"
    "check_relations limits ?n locate (nodeId ?node) i (nodeRelations ?node) 0 0 s3 = Inr s4"
    "all_checks (map (check_extension limits ?n locate ?node) [0..<length (nodeExtensions ?node)]) s4 = Inr s5"
    "check_values limits nodes locate ?node i s5 = Inr s6" "when_some (nodeText ?node) (check_text limits ?n locate ?node i) s6 = Inr t"
    using assms(1) unfolding check_node_def check_strings_def Let_def append_Cons append_Nil all_checks_Cons all_checks_append
    by (auto simp: require_def split: if_splits)
  note n1 = neutralD [OF neutral_states c(1)] and n3 = neutralD [OF neutral_children c(3)] and n6 = neutralD [OF neutral_values c(6)]
  note s2 = strings_spend [OF c(2)] and s4 = relations_same [OF c(4)] and s5 = check_extensions_spend [OF c(5), simplified] and st = text_spends [OF c(7)]
  have children: "\<not> (length (nodeChildren ?node) > maximumChildrenPerNode limits \<or> length (nodeRelations ?node) > maximumRelationsPerNode limits \<or>
      length (nodeExtensions ?node) > maximumExtensionsPerNode limits)"
    using c(3) unfolding check_children_def append_Cons all_checks_Cons by (auto simp: require_def split: if_splits)
  have sel: "\<not> (case nodeSelection ?node of None \<Rightarrow> False | Some x \<Rightarrow> length (selectedNodes x) > maximumNodes limits)"
  proof (cases "nodeSelection ?node")
    case (Some x)
    have "passes (when_some (nodeSelection ?node) (check_selection limits nodes locate ?node i))"
      by (rule all_checks_passes [OF c(6) [unfolded check_values_def]]) simp
    then have "passes (check_selection limits nodes locate ?node i x)" using Some by simp
    have "passes (require (length (selectedNodes x) \<le> maximumNodes limits) (fail I_LimitExceeded (nodeId ?node) i))"
      by (rule passes_all [OF \<open>passes (check_selection limits nodes locate ?node i x)\<close> [unfolded check_selection_def Let_def]]) simp
    then show ?thesis using Some by simp
  qed simp
  have b: "bounded_strings limits (node_strings ?node) 0 = Some (nodeBytes s2)" "bounded_targets limits (nodeRelations ?node) 0"
    "bounded_node_extensions limits (nodeExtensions ?node) (nodeBytes s2, 0) = Some (nodeBytes s5, extensionValues s5)"
    "bounded_text limits (nodeText ?node) (nodeBytes s5) = Some (nodeBytes t)"
    using s2 s4 s5 st n1 n3 n6 by simp_all
  have "accounts limits ?s s1" "accounts limits s2 s3" "accounts limits s5 s6" using n1 n3 n6 by (auto simp: accounts_def)
  moreover have "accounts limits s1 s2" "accounts limits s3 s5" "accounts limits s6 t" using s2 s4 s5 st by blast+
  ultimately have "accounts limits ?s t" by (meson accounts_trans)
  then have total: "totalBytes t = totalBytes s + nodeBytes t" "totalBytes t \<le> maximumTotalTextBytes limits"
    using assms(3) by (simp_all add: accounts_def)
  show ?thesis unfolding boundedNode_def b(1) using children b(2-4) sel total by simp
qed

text \<open>Adding the nodes of an accepted snapshot to an empty builder, one after the other.\<close>

lemma copy_nodes_accepted:
  assumes "all_checks (map (check_node limits nodes locate r) [i..<length nodes]) s = Inr t" "i \<le> length nodes"
    and lim: "validLimits limits" "length nodes \<le> maximumNodes limits" "\<forall>node \<in> set nodes. nodeId node \<noteq> 0" "distinct (map nodeId nodes)"
    and b: "builderLimits b = limits" "builderNodes (builder_state b) = take i nodes" "builderNodeIds (builder_state b) = nodeId ` set (take i nodes)"
      "builderTextBytes (builder_state b) = totalBytes s" "totalBytes s \<le> maximumTotalTextBytes limits"
    and alloc: "\<forall>i. alloc i = Allocated" and some: "builderState b \<noteq> None"
  shows "\<exists>b'. copy_nodes alloc (drop i nodes) j b = (successStatus, b') \<and>
    builder_view b' = \<lparr>generation = builderGeneration (builder_state b), snapshotRoot = builderRoot (builder_state b), snapshotNodes = nodes\<rparr>"
  using assms(1,2) b some
proof (induction "length nodes - i" arbitrary: i s b j)
  case 0
  then show ?case by (auto simp: builder_view_def builder_state_def split: option.splits)
next
  case (Suc d)
  then have i: "i < length nodes" by simp
  let ?node = "nodes ! i" and ?st = "builder_state b"
  obtain u where u: "check_node limits nodes locate r i s = Inr u" "all_checks (map (check_node limits nodes locate r) [Suc i..<length nodes]) u = Inr t"
    using Suc.prems(1) i by (auto simp: upt_conv_Cons and_then_Inr)
  have bound: "boundedNode ?node limits (builderTextBytes ?st) = Some (totalBytes u)"
    using node_spends [OF u(1) lim(2) Suc.prems(7)] Suc.prems(6) by simp
  have "distinct (map nodeId (take (Suc i) nodes))" using lim(4) by (metis distinct_take take_map)
  then have "nodeId ?node \<notin> nodeId ` set (take i nodes)" using i by (simp add: take_Suc_conv_app_nth)
  then have fresh: "nodeId ?node \<notin> builderNodeIds ?st" using Suc.prems(5) by simp
  define b' where "b' = b\<lparr>builderState := Some (?st\<lparr>builderNodeIds := insert (nodeId ?node) (builderNodeIds ?st),
      builderNodes := builderNodes ?st @ [?node], builderTextBytes := totalBytes u\<rparr>)\<rparr>"
  have nz: "nodeId ?node \<noteq> 0" using lim(3) i by simp
  have len: "\<not> length (builderNodes ?st) \<ge> maximumNodes limits" using Suc.prems(4) i lim(2) by simp
  have add: "addNode (alloc j) ?node b = (successStatus, b')"
    using nz len fresh bound lim(1) Suc.prems(3) alloc by (simp add: addNode_def invalid_limits_iff b'_def)
  have tk: "take (Suc i) nodes = take i nodes @ [?node]" by (rule take_Suc_conv_app_nth [OF i])
  have "\<exists>c. copy_nodes alloc (drop (Suc i) nodes) (j + 1) b' = (successStatus, c) \<and>
      builder_view c = \<lparr>generation = builderGeneration (builder_state b'), snapshotRoot = builderRoot (builder_state b'), snapshotNodes = nodes\<rparr>"
    using Suc.hyps(2) u(2) i Suc.prems boundedNode_bytes(2) [OF bound]
    by (intro Suc.hyps(1) [where s = u]) (auto simp: b'_def tk)
  moreover have "drop i nodes = ?node # drop (Suc i) nodes" by (rule Cons_nth_drop_Suc [OF i, symmetric])
  ultimately show ?case using add by (simp add: b'_def ok_def successStatus_def)
qed

section \<open>Published snapshots of accepted trees\<close>

lemma accepted_bounds:
  assumes "validate v limits = Some res" "ok (validationStatus res)"
  shows "validLimits limits" "generation v \<noteq> 0" "length (snapshotNodes v) \<le> maximumNodes limits"
proof -
  have "case validate v limits of None \<Rightarrow> False | Some res \<Rightarrow> \<not> ok (validationStatus res)"
    if "\<not> (validLimits limits \<and> generation v \<noteq> 0 \<and> length (snapshotNodes v) \<le> maximumNodes limits)"
    using that unfolding validate_def Let_def by auto
  then show "validLimits limits" "generation v \<noteq> 0" "length (snapshotNodes v) \<le> maximumNodes limits"
    using assms by (auto split: option.splits)
qed

lemma passes_text_length: "passes (check_text limits n locate node i t) \<Longrightarrow> length (contentUtf8 t) \<le> maximumTextBytesPerNode limits"
proof -
  assume p: "passes (check_text limits n locate node i t)"
  have "passes (budgeted (budget_string limits (contentUtf8 t)) (nodeId node) i)"
    by (rule passes_all [OF p [unfolded check_text_def Let_def]]) simp
  then show ?thesis using passes_string by blast
qed

lemma accepted_text:
  assumes "validate v limits = Some res" "ok (validationStatus res)" "node \<in> set (snapshotNodes v)" "nodeText node = Some c"
  obtains ss where "contentUtf8 c = utf8_text ss" "list_all isScalarValue ss" "length (utf8_text ss) < 2 ^ 32"
proof -
  obtain s where c: "checked v limits s" using accepted [OF assms(1,2)] by metis
  obtain i where i: "i < length (snapshotNodes v)" "snapshotNodes v ! i = node" using assms(3) by (auto simp: in_set_conv_nth)
  note p = passes_node(2) [OF checked_node [OF c i(1)], unfolded i(2), OF assms(4)]
  have "maximumTextBytesPerNode limits \<le> int32_max" using accepted_bounds(1) [OF assms(1,2)] by (simp add: validLimits_def)
  then have "length (contentUtf8 c) \<le> int32_max" using passes_text_length [OF p] by linarith
  moreover have "int32_max < 2 ^ 32" by (simp add: int32_max_def)
  ultimately have "length (contentUtf8 c) < 2 ^ 32" by linarith
  then show thesis using that passes_text(1) [OF p] by (auto simp: validUtf8_def Utf8_validate_iff valid_utf8_def)
qed

lemma accepted_index:
  assumes "validate v limits = Some res" "ok (validationStatus res)" "node \<in> set (snapshotNodes v)"
  shows "indexText node \<noteq> None"
    "nodeText node = Some c \<Longrightarrow> contentUtf8 c = utf8_text ss \<Longrightarrow> list_all isScalarValue ss \<Longrightarrow> cacheGraphemes (the (indexText node)) = uax29_boundaries ss"
proof -
  show "indexText node \<noteq> None"
  proof (cases "nodeText node")
    case (Some c)
    obtain ss where "contentUtf8 c = utf8_text ss" "list_all isScalarValue ss" "length (utf8_text ss) < 2 ^ 32"
      by (rule accepted_text [OF assms Some])
    from indexText_valid [OF Some this] show ?thesis by simp
  qed (simp add: indexText_def)
  assume c: "nodeText node = Some c" "contentUtf8 c = utf8_text ss" "list_all isScalarValue ss"
  then have "length (utf8_text ss) < 2 ^ 32" using accepted_text [OF assms c(1)] by metis
  from indexText_valid [OF c this] show "cacheGraphemes (the (indexText node)) = uax29_boundaries ss" by simp
qed

lemma those_map: "\<forall>x \<in> set xs. f x \<noteq> None \<Longrightarrow> those (map f xs) = Some (map (\<lambda>x. the (f x)) xs)"
  by (induction xs) auto

lemma candidate_exists:
  assumes "validate v limits = Some res" "ok (validationStatus res)"
  obtains s where "publish_candidate v = Some s" "publishedView s = v" "publishedIndex s = node_index (snapshotNodes v)"
    "publishedText s = map (\<lambda>node. the (indexText node)) (snapshotNodes v)"
proof -
  have "index_texts (snapshotNodes v) = Some (map (\<lambda>node. the (indexText node)) (snapshotNodes v))"
    unfolding index_texts_def using accepted_index(1) [OF assms] by (intro those_map) blast
  then show thesis using that by (simp add: publish_candidate_def Let_def map_idI)
qed

text \<open>Lookup by identity in a published snapshot.\<close>

lemma findNode_correct:
  assumes "distinct (map nodeId (snapshotNodes (publishedView s)))" "publishedIndex s = node_index (snapshotNodes (publishedView s))"
  shows "findNode s k = Some node \<longleftrightarrow> node \<in> set (snapshotNodes (publishedView s)) \<and> nodeId node = k"
proof -
  let ?nodes = "snapshotNodes (publishedView s)"
  have f: "findIndex s k = find_node (node_index ?nodes) k" by (simp add: findIndex_def find_node_def assms(2) Let_def)
  show ?thesis
  proof
    assume "findNode s k = Some node"
    then have "find_node (node_index ?nodes) k < length ?nodes" "node = ?nodes ! find_node (node_index ?nodes) k"
      by (auto simp: findNode_def f Let_def split: if_splits)
    then show "node \<in> set ?nodes \<and> nodeId node = k" using locate_sound [of ?nodes k] by simp
  next
    assume "node \<in> set ?nodes \<and> nodeId node = k"
    then obtain i where "i < length ?nodes" "?nodes ! i = node" "nodeId node = k" by (auto simp: in_set_conv_nth)
    then show "findNode s k = Some node" using locate_complete [OF assms(1), of i] by (auto simp: findNode_def f Let_def)
  qed
qed

section \<open>Properties\<close>

text \<open>
  Whatever sequence of calls built it, and whatever allocations failed on the way, a builder keeps its limits, holds nodes with
  distinct identities that are not zero, no more than allowed, and counts exactly the bytes of all their strings, within the limit.
\<close>

theorem builder_invariant:
  assumes "built limits b"
  shows "builderLimits b = limits \<and> distinct (map nodeId (snapshotNodes (builder_view b))) \<and> 0 \<notin> nodeId ` set (snapshotNodes (builder_view b)) \<and>
    (snapshotNodes (builder_view b) \<noteq> [] \<longrightarrow> nodeCount b \<le> maximumNodes limits) \<and>
    builderTextBytes (builder_state b) = sum_list (map node_bytes (snapshotNodes (builder_view b))) \<and>
    builderTextBytes (builder_state b) \<le> maximumTotalTextBytes limits"
  using built_ok [OF assms]
  by (auto simp: builder_ok_def builder_view_def nodeCount_def builder_state_def new_builder_state_def empty_view_def Let_def split: option.splits)

theorem builder_invariant_witness:
  "let b = snd (addNode Allocated ((example_node 7 0 R_List [])\<lparr>nodeName := [0x61]\<rparr>) (newBuilder example_limits)) in
    builderTextBytes (builder_state b) = sum_list (map node_bytes (snapshotNodes (builder_view b))) \<and> builderTextBytes (builder_state b) \<le> 8"
  using builder_invariant [OF built_node [OF built_new, of example_limits Allocated "(example_node 7 0 R_List [])\<lparr>nodeName := [0x61]\<rparr>"]]
  by (simp add: Let_def example_limits_def)

text \<open>
  C40: A snapshot accepted for publication can always be copied back. Its candidate exists, because every text index returns, and
  copying it into a builder with the same limits succeeds whenever memory suffices and gives the published view.
\<close>

theorem copySnapshot_roundtrip:
  assumes "validate v limits = Some res" "ok (validationStatus res)" "builderLimits d = limits" "\<forall>i. alloc i = Allocated"
  shows "\<exists>s d'. publish_candidate v = Some s \<and> copySnapshot alloc (Some s) d = (successStatus, d') \<and> builder_view d' = v"
proof -
  let ?nodes = "snapshotNodes v"
  obtain s where s: "publish_candidate v = Some s" "publishedView s = v" using candidate_exists [OF assms(1,2)] by blast
  obtain st where c: "checked v limits st" using accepted [OF assms(1,2)] by metis
  note index = checked_index [OF c]
  define b0 where "b0 = snd (setRoot Allocated (snapshotRoot v) (snd (setGeneration Allocated (generation v) (newBuilder limits))))"
  have r: "snapshotRoot v \<noteq> 0" using index(3,5,6) by (metis nth_mem)
  have b0: "b0 = \<lparr>builderLimits = limits, builderState = Some (new_builder_state\<lparr>builderGeneration := generation v, builderRoot := snapshotRoot v\<rparr>)\<rparr>"
    using accepted_bounds(2) [OF assms(1,2)] r by (simp add: b0_def setRoot_def setGeneration_def newBuilder_def builder_state_def)
  obtain t where t: "all_checks (map (check_node limits ?nodes (find_node (node_index ?nodes)) (find_node (node_index ?nodes) (snapshotRoot v)))
      [0..<length ?nodes]) (start_validation (length ?nodes)) = Inr t"
    using c unfolding checked_def Let_def all_checks_append by blast
  obtain d' where d': "copy_nodes alloc (drop 0 ?nodes) 2 b0 = (successStatus, d')"
    "builder_view d' = \<lparr>generation = generation v, snapshotRoot = snapshotRoot v, snapshotNodes = ?nodes\<rparr>"
    using copy_nodes_accepted [OF t, of b0 alloc 2] index(1,3) accepted_bounds [OF assms(1,2)] assms(4)
    by (auto simp: b0 builder_state_def new_builder_state_def start_validation_def)
  have "copySnapshot alloc (Some s) d = (successStatus, d')"
    using d'(1) assms(3,4) s(2) accepted_bounds(2) [OF assms(1,2)] r b0_def
    by (simp add: copySnapshot_def Let_def setGeneration_def setRoot_def newBuilder_def ok_def successStatus_def)
  then show ?thesis using s(1) d'(2) by simp
qed

theorem copySnapshot_roundtrip_witness:
  "\<exists>s d'. publish_candidate example_view = Some s \<and>
    copySnapshot (\<lambda>_. Allocated) (Some s) (newBuilder example_limits) = (successStatus, d') \<and> builder_view d' = example_view"
  by (rule copySnapshot_roundtrip [OF example_valid valid_result_ok]) (simp_all add: newBuilder_def)

end
