(* ===== verification/Ring_Buffer.thy ===== *)
theory Ring_Buffer
  imports GW_Prelude
begin

text \<open>
  The bounded queues of \<^verbatim>\<open>engine/desktop/internal/accessibility_state.h\<close>: a vector of slots whose size never changes, the index of the
  oldest entry and the number of entries. A locale states what a client may rely on, and its lemmas follow a queue through a history of
  operations; the ring is its instance.
\<close>

section \<open>Bounded queues\<close>

locale bounded_queue =
  fixes invar :: "'q \<Rightarrow> bool"
    and contents :: "'q \<Rightarrow> 'a list"
    and full :: "'q \<Rightarrow> bool"
    and push :: "'a \<Rightarrow> 'q \<Rightarrow> 'q"
    and take_first :: "'q \<Rightarrow> 'a \<times> 'q"
    and replace_at :: "nat \<Rightarrow> 'a \<Rightarrow> 'q \<Rightarrow> 'q"
    and wipe :: "'q \<Rightarrow> 'q"
  assumes invar_push: "invar q \<Longrightarrow> \<not> full q \<Longrightarrow> invar (push x q)"
    and contents_push: "invar q \<Longrightarrow> \<not> full q \<Longrightarrow> contents (push x q) = contents q @ [x]"
    and invar_take: "invar q \<Longrightarrow> contents q \<noteq> [] \<Longrightarrow> invar (snd (take_first q))"
    and contents_take: "invar q \<Longrightarrow> contents q \<noteq> [] \<Longrightarrow> contents q = fst (take_first q) # contents (snd (take_first q))"
    and invar_replace: "invar q \<Longrightarrow> invar (replace_at i x q)"
    and contents_replace: "invar q \<Longrightarrow> i < length (contents q) \<Longrightarrow> contents (replace_at i x q) = (contents q)[i := x]"
    and invar_wipe: "invar q \<Longrightarrow> invar (wipe q)"
    and contents_wipe: "invar q \<Longrightarrow> contents (wipe q) = []"
    and full_wipe: "invar q \<Longrightarrow> \<not> full (wipe q)"
begin

lemma contents_replace_last:
  assumes "invar q" "contents q = xs @ [y]"
  shows "contents (replace_at (length (contents q) - 1) x q) = xs @ [x]"
  using assms by (simp add: contents_replace)

lemma restart:
  assumes "invar q"
  shows "invar (push x (wipe q))" "contents (push x (wipe q)) = [x]"
  using assms by (simp_all add: invar_push contents_push invar_wipe contents_wipe full_wipe)

text \<open>Pushing after making room by a wipe, the way a queue collapses under pressure.\<close>

lemma push_or_restart:
  assumes "invar q"
  shows "invar (push x (if full q then wipe q else q))"
    "contents (push x (if full q then wipe q else q)) = (if full q then [] else contents q) @ [x]"
  using assms by (auto simp: invar_push contents_push restart)

end

section \<open>The ring\<close>

record 'a ring =
  ringSlots :: "'a list"
  ringHead :: nat
  ringCount :: nat

definition ring_new :: "'a \<Rightarrow> nat \<Rightarrow> 'a ring" where
  "ring_new blank n = \<lparr>ringSlots = replicate n blank, ringHead = 0, ringCount = 0\<rparr>"

definition ring_index :: "'a ring \<Rightarrow> nat \<Rightarrow> nat" where
  "ring_index r i = (ringHead r + i) mod length (ringSlots r)"

definition ring_full :: "'a ring \<Rightarrow> bool" where
  "ring_full r \<longleftrightarrow> ringCount r = length (ringSlots r)"

definition ring_get :: "'a ring \<Rightarrow> nat \<Rightarrow> 'a" where
  "ring_get r i = ringSlots r ! ring_index r i"

definition ring_put :: "nat \<Rightarrow> 'a \<Rightarrow> 'a ring \<Rightarrow> 'a ring" where
  "ring_put i x r = r\<lparr>ringSlots := (ringSlots r)[ring_index r i := x]\<rparr>"

definition ring_push :: "'a \<Rightarrow> 'a ring \<Rightarrow> 'a ring" where
  "ring_push x r = (ring_put (ringCount r) x r)\<lparr>ringCount := ringCount r + 1\<rparr>"

definition ring_pop :: "'a \<Rightarrow> 'a ring \<Rightarrow> 'a \<times> 'a ring" where
  "ring_pop blank r =
    (ringSlots r ! ringHead r,
     \<lparr>ringSlots = (ringSlots r)[ringHead r := blank], ringHead = (ringHead r + 1) mod length (ringSlots r), ringCount = ringCount r - 1\<rparr>)"

definition ring_clear :: "'a \<Rightarrow> 'a ring \<Rightarrow> 'a ring" where
  "ring_clear blank r = \<lparr>ringSlots = map (\<lambda>_. blank) (ringSlots r), ringHead = 0, ringCount = 0\<rparr>"

section \<open>Its contents\<close>

definition ring_list :: "'a ring \<Rightarrow> 'a list" where
  "ring_list r = map (ring_get r) [0..<ringCount r]"

definition ring_ok :: "'a ring \<Rightarrow> bool" where
  "ring_ok r \<longleftrightarrow> ringHead r < length (ringSlots r) \<and> ringCount r \<le> length (ringSlots r)"

lemma ring_length [simp]: "length (ring_list r) = ringCount r"
  by (simp add: ring_list_def)

lemma ring_nth: "i < ringCount r \<Longrightarrow> ring_list r ! i = ring_get r i"
  by (simp add: ring_list_def)

lemma ring_ok_pos: "ring_ok r \<Longrightarrow> 0 < length (ringSlots r)"
  by (auto simp: ring_ok_def)

lemma ring_index_bound: "ring_ok r \<Longrightarrow> ring_index r i < length (ringSlots r)"
  using ring_ok_pos [of r] unfolding ring_index_def by (intro mod_less_divisor)

lemma ring_index_wrap:
  assumes "k < length (ringSlots r)" "ring_ok r"
  shows "ring_index r k = (if ringHead r + k < length (ringSlots r) then ringHead r + k else ringHead r + k - length (ringSlots r))"
  using assms by (auto simp: ring_index_def ring_ok_def le_mod_geq)

lemma ring_index_inj:
  assumes "ring_index r i = ring_index r j" "i < length (ringSlots r)" "j < length (ringSlots r)" "ring_ok r"
  shows "i = j"
  using assms(1) ring_index_wrap [OF assms(2,4)] ring_index_wrap [OF assms(3,4)] assms(2,3) assms(4) [unfolded ring_ok_def]
  by (simp split: if_splits)

lemma ring_put_fields [simp]:
  "length (ringSlots (ring_put i x r)) = length (ringSlots r)" "ringCount (ring_put i x r) = ringCount r" "ringHead (ring_put i x r) = ringHead r"
  "ring_index (ring_put i x r) = ring_index r"
  by (auto simp: ring_put_def ring_index_def)

lemma ring_push_fields [simp]:
  "length (ringSlots (ring_push x r)) = length (ringSlots r)" "ringCount (ring_push x r) = Suc (ringCount r)"
  "ringHead (ring_push x r) = ringHead r" "ring_get (ring_push x r) = ring_get (ring_put (ringCount r) x r)"
  by (auto simp: ring_push_def ring_get_def ring_index_def)

lemma ring_pop_fields [simp]:
  "length (ringSlots (snd (ring_pop blank r))) = length (ringSlots r)" "ringCount (snd (ring_pop blank r)) = ringCount r - 1"
  by (simp_all add: ring_pop_def)

lemma ring_put_get:
  assumes "ring_ok r" "i < length (ringSlots r)" "j < length (ringSlots r)"
  shows "ring_get (ring_put i x r) j = (if j = i then x else ring_get r j)"
proof (cases "j = i")
  case True
  then show ?thesis using ring_index_bound [OF assms(1), of i] by (simp add: ring_get_def) (simp add: ring_put_def)
next
  case False
  then have "ring_index r i \<noteq> ring_index r j" using ring_index_inj [OF _ assms(2,3,1)] by blast
  then show ?thesis using False by (simp add: ring_get_def) (simp add: ring_put_def)
qed

lemma ring_put_ok: "ring_ok r \<Longrightarrow> ring_ok (ring_put i x r)"
  by (simp add: ring_ok_def)

lemma ring_put_list:
  assumes "ring_ok r" "i < ringCount r"
  shows "ring_list (ring_put i x r) = (ring_list r)[i := x]"
proof (rule nth_equalityI)
  fix j assume "j < length (ring_list (ring_put i x r))"
  then have j: "j < ringCount r" by simp
  then have "i < length (ringSlots r)" "j < length (ringSlots r)" using assms by (simp_all add: ring_ok_def)
  then show "ring_list (ring_put i x r) ! j = (ring_list r)[i := x] ! j"
    using j assms ring_put_get [OF assms(1)] by (simp add: ring_nth nth_list_update)
qed simp

lemma ring_push_list:
  assumes "ring_ok r" "\<not> ring_full r"
  shows "ring_ok (ring_push x r)" "ring_list (ring_push x r) = ring_list r @ [x]"
proof -
  show "ring_ok (ring_push x r)" using assms by (simp add: ring_ok_def ring_full_def)
  have c: "ringCount r < length (ringSlots r)" using assms by (simp add: ring_ok_def ring_full_def)
  show "ring_list (ring_push x r) = ring_list r @ [x]"
  proof (rule nth_equalityI)
    fix j assume "j < length (ring_list (ring_push x r))"
    then have j: "j < Suc (ringCount r)" by simp
    then show "ring_list (ring_push x r) ! j = (ring_list r @ [x]) ! j"
      using ring_put_get [OF assms(1) c, of j x] c by (simp add: nth_append ring_nth)
  qed simp
qed

lemma ring_pop_list:
  assumes "ring_ok r" "ringCount r \<noteq> 0"
  shows "ring_ok (snd (ring_pop blank r))" "ring_list r = fst (ring_pop blank r) # ring_list (snd (ring_pop blank r))"
proof -
  let ?n = "length (ringSlots r)" and ?r = "snd (ring_pop blank r)"
  have n: "ringHead r < ?n" "ringCount r \<le> ?n" using assms by (simp_all add: ring_ok_def)
  have "ringHead ?r < ?n" using ring_ok_pos [OF assms(1)] by (simp add: ring_pop_def)
  then show "ring_ok ?r" using n by (simp add: ring_ok_def)
  have hd: "ring_get r 0 = fst (ring_pop blank r)" using n by (simp add: ring_get_def ring_index_def ring_pop_def)
  have idx: "ring_index ?r i = ring_index r (Suc i)" for i by (simp add: ring_index_def ring_pop_def mod_simps)
  have later: "ring_get ?r i = ring_get r (Suc i)" if i: "Suc i < ringCount r" for i
  proof -
    have "Suc i < ?n" "0 < ?n" using n i by linarith+
    then have "ring_index r (Suc i) \<noteq> ring_index r 0" using ring_index_inj [of r "Suc i" 0] assms(1) by blast
    then have "ring_index r (Suc i) \<noteq> ringHead r" using n by (simp add: ring_index_def)
    then have "ringSlots ?r ! ring_index r (Suc i) = ringSlots r ! ring_index r (Suc i)" by (simp add: ring_pop_def)
    then show ?thesis by (simp add: ring_get_def idx)
  qed
  show "ring_list r = fst (ring_pop blank r) # ring_list ?r"
  proof (rule nth_equalityI)
    fix j assume "j < length (ring_list r)"
    then show "ring_list r ! j = (fst (ring_pop blank r) # ring_list ?r) ! j"
      using hd later by (cases j) (simp_all add: ring_nth)
  qed (use assms(2) in simp)
qed

lemma ring_clear_list:
  assumes "ring_ok r"
  shows "ring_ok (ring_clear blank r)" "ring_list (ring_clear blank r) = []"
  using assms by (auto simp: ring_ok_def ring_clear_def ring_list_def)

lemma ring_new_list:
  assumes "n \<noteq> 0"
  shows "ring_ok (ring_new blank n)" "ring_list (ring_new blank n) = []"
  using assms by (auto simp: ring_ok_def ring_new_def ring_list_def)

text \<open>The ring is a bounded queue, whatever value blanks its slots.\<close>

interpretation ring: bounded_queue ring_ok ring_list ring_full ring_push "ring_pop blank" ring_put "ring_clear blank" for blank
proof unfold_locales
  fix r :: "'a ring" and x i
  show "ring_ok r \<Longrightarrow> \<not> ring_full r \<Longrightarrow> ring_ok (ring_push x r)" "ring_ok r \<Longrightarrow> \<not> ring_full r \<Longrightarrow> ring_list (ring_push x r) = ring_list r @ [x]"
    by (simp_all add: ring_push_list)
  show "ring_ok r \<Longrightarrow> ring_list r \<noteq> [] \<Longrightarrow> ring_ok (snd (ring_pop blank r))"
    "ring_ok r \<Longrightarrow> ring_list r \<noteq> [] \<Longrightarrow> ring_list r = fst (ring_pop blank r) # ring_list (snd (ring_pop blank r))"
    by (rule ring_pop_list; auto simp: ring_list_def)+
  show "ring_ok r \<Longrightarrow> ring_ok (ring_put i x r)" by (rule ring_put_ok)
  show "ring_ok r \<Longrightarrow> i < length (ring_list r) \<Longrightarrow> ring_list (ring_put i x r) = (ring_list r)[i := x]" by (simp add: ring_put_list)
  show "ring_ok r \<Longrightarrow> ring_ok (ring_clear blank r)" "ring_ok r \<Longrightarrow> ring_list (ring_clear blank r) = []" by (simp_all add: ring_clear_list)
  show "ring_ok r \<Longrightarrow> \<not> ring_full (ring_clear blank r)" by (auto simp: ring_ok_def ring_full_def ring_clear_def)
qed

end
