(* ===== verification/Accessibility_Runtime.thy ===== *)
theory Accessibility_Runtime
  imports Accessibility_Snapshot Ring_Buffer
begin

text \<open>
  The state one activation of the accessibility bridge shares between threads (\<^verbatim>\<open>AccessibilityRuntime\<close>), and the operations on its two
  bounded queues in \<^verbatim>\<open>engine/desktop/core/accessibility.cpp\<close>. The part of an operation that runs under a mutex is one definition, the part before it another,
  so that the operations can be interleaved as the code interleaves them.
\<close>

section \<open>Requests and notifications\<close>

datatype ActionAcceptance = AA_Accepted | AA_Rejected | AA_Closed | AA_Invalid | AA_Unsupported | AA_QueueFull

record ActionResult =
  acceptance :: ActionAcceptance
  resultRequestId :: RequestId
  resultGeneration :: Generation

definition declined :: "ActionAcceptance \<Rightarrow> ActionResult" where
  "declined a = \<lparr>acceptance = a, resultRequestId = 0, resultGeneration = 0\<rparr>"

datatype NotificationKind = N_TreeInvalidated | N_StructureChanged | N_PropertyChanged | N_FocusChanged | N_SelectionChanged
  | N_TextChanged | N_LiveRegionChanged

datatype PropertyKind = P_Name | P_Description | P_Value | P_State | P_Selection | P_Range | P_Scroll | P_Geometry | P_Text | P_Exposure
  | P_Metadata

datatype ScrollUnit = SU_Logical | SU_Percent | SU_Step | SU_Unnamed

datatype SelectionOperation = SO_Replace | SO_Add | SO_Remove | SO_Unnamed

record Point =
  pointX :: float64
  pointY :: float64

record ScrollRequest =
  scrollHorizontal :: float64
  scrollVertical :: float64
  scrollAbsolute :: bool
  scrollUnit :: ScrollUnit

record ActionRequest =
  requestId :: RequestId
  observedGeneration :: Generation
  requestNode :: NodeId
  requestAction :: NodeActionKind
  requestValue :: float64
  requestPoint :: Point
  requestScroll :: ScrollRequest
  requestRange :: "TextRange option"
  requestSelection :: "TextRange list"
  requestText :: "byte list"
  requestOperation :: SelectionOperation

record Notification =
  notificationKind :: NotificationKind
  notificationGeneration :: Generation
  notificationNode :: NodeId
  relatedNode :: NodeId
  notificationProperty :: PropertyKind

datatype AnnouncementPriority = AP_Low | AP_Normal | AP_High | AP_Unnamed

record AnnouncementView =
  announcementNode :: NodeId
  announcementText :: "byte list"
  announcementLanguage :: "byte list"
  announcementPriority :: AnnouncementPriority

record PendingNotification =
  pendingEvent :: Notification
  pendingBefore :: "PublishedSnapshot option"
  pendingAfter :: "PublishedSnapshot option"
  pendingAnnouncement :: "char16 list"
  pendingPriority :: AnnouncementPriority

definition blank_request :: ActionRequest where
  "blank_request = \<lparr>requestId = 0, observedGeneration = 0, requestNode = 0, requestAction = AK_Invoke, requestValue = DFin 0,
     requestPoint = \<lparr>pointX = DFin 0, pointY = DFin 0\<rparr>,
     requestScroll = \<lparr>scrollHorizontal = DFin 0, scrollVertical = DFin 0, scrollAbsolute = False, scrollUnit = SU_Logical\<rparr>,
     requestRange = None, requestSelection = [], requestText = [], requestOperation = SO_Replace\<rparr>"

definition event :: "NotificationKind \<Rightarrow> Generation \<Rightarrow> NodeId \<Rightarrow> PropertyKind \<Rightarrow> Notification" where
  "event k g n p = \<lparr>notificationKind = k, notificationGeneration = g, notificationNode = n, relatedNode = 0, notificationProperty = p\<rparr>"

definition pending :: "Notification \<Rightarrow> PublishedSnapshot option \<Rightarrow> PublishedSnapshot option \<Rightarrow> PendingNotification" where
  "pending e b a = \<lparr>pendingEvent = e, pendingBefore = b, pendingAfter = a, pendingAnnouncement = [], pendingPriority = AP_Normal\<rparr>"

definition blank_notification :: PendingNotification where
  "blank_notification = pending (event N_TreeInvalidated 0 0 P_Name) None None"

section \<open>The runtime\<close>

record AccessibilityRuntime =
  runtimeLimits :: Limits
  runtimeFeatures :: "64 word"
  live :: bool
  hostEnabled :: bool
  snapshot :: "PublishedSnapshot option"
  actions :: "ActionRequest ring"
  nextRequest :: RequestId
  rejected :: "64 word"
  notifications :: "PendingNotification ring"
  collapsed :: "64 word"
  invalidationPending :: bool

text \<open>A new activation with the features its backend reports.\<close>

definition newRuntime :: "Limits \<Rightarrow> 64 word \<Rightarrow> AccessibilityRuntime" where
  "newRuntime limits features = \<lparr>runtimeLimits = limits, runtimeFeatures = features, live = True, hostEnabled = True, snapshot = None,
     actions = ring_new blank_request (maximumActionQueue limits), nextRequest = 1, rejected = 0,
     notifications = ring_new blank_notification (maximumNotificationQueue limits), collapsed = 0, invalidationPending = False\<rparr>"

definition feature_announcements :: nat where
  "feature_announcements = 6"

definition feature_announcement_language :: nat where
  "feature_announcement_language = 18"

definition supports :: "64 word \<Rightarrow> nat \<Rightarrow> bool" where
  "supports flags i \<longleftrightarrow> i < 19 \<and> flags AND push_bit i 1 \<noteq> 0"

section \<open>Submitting an action\<close>

definition boundary_range :: "nat list \<Rightarrow> TextRange \<Rightarrow> bool" where
  "boundary_range bs r \<longleftrightarrow> rangeBegin r \<le> rangeEnd r \<and> binary_search bs (rangeBegin r) \<and> binary_search bs (rangeEnd r)"

text \<open>The checks before the lock; the snapshot that was loaded is kept for the rest.\<close>

definition checkAction :: "AccessibilityRuntime \<Rightarrow> ActionRequest \<Rightarrow> ActionResult + PublishedSnapshot" where
  "checkAction rt request =
    (if \<not> live rt then Inl (declined AA_Closed)
     else case snapshot rt of None \<Rightarrow> Inl (declined AA_Invalid)
     | Some s \<Rightarrow>
     case findNode s (requestNode request) of None \<Rightarrow> Inl (declined AA_Invalid)
     | Some node \<Rightarrow>
     if requestAction request = AK_Unnamed \<or> \<not> actions_contain (nodeActions node) (requestAction request) then Inl (declined AA_Unsupported)
     else if has_state node S_Disabled \<or> \<not> hostEnabled rt then Inl (declined AA_Rejected)
     else if \<not> list_all double_finite [requestValue request, pointX (requestPoint request), pointY (requestPoint request),
            scrollHorizontal (requestScroll request), scrollVertical (requestScroll request)] \<or>
          length (requestText request) > maximumActionTextBytes (runtimeLimits rt) \<or>
          length (requestSelection request) > maximumSelectionRangesPerAction (runtimeLimits rt) \<or> \<not> validUtf8 (requestText request)
       then Inl (declined AA_Invalid)
     else if requestAction request = AK_SetValue \<and> has_state node S_ReadOnly then Inl (declined AA_Rejected)
     else if requestAction request = AK_SetValue \<and>
          (case nodeRange node of None \<Rightarrow> False
           | Some r \<Rightarrow> double_less (requestValue request) (rangeMinimum r) \<or> double_less (rangeMaximum r) (requestValue request))
       then Inl (declined AA_Invalid)
     else if scrollUnit (requestScroll request) = SU_Unnamed \<or> requestOperation request = SO_Unnamed then Inl (declined AA_Invalid)
     else if requestAction request = AK_SetTextSelection \<or> requestRange request \<noteq> None \<or> requestSelection request \<noteq> []
       then (if nodeText node = None then Inl (declined AA_Unsupported)
             else let bs = cacheGraphemes (publishedText s ! findIndex s (nodeId node)) in
               if (case requestRange request of None \<Rightarrow> False | Some r \<Rightarrow> \<not> boundary_range bs r) \<or>
                  \<not> list_all (boundary_range bs) (requestSelection request)
               then Inl (declined AA_Invalid) else Inr s)
     else Inr s)"

definition coalescible :: "NodeActionKind \<Rightarrow> bool" where
  "coalescible a \<longleftrightarrow> a = AK_Focus \<or> a = AK_SetValue \<or> a = AK_ScrollTo \<or> a = AK_Realize"

definition same_target :: "ActionRequest \<Rightarrow> ActionRequest \<Rightarrow> bool" where
  "same_target a b \<longleftrightarrow> requestNode a = requestNode b \<and> requestAction a = requestAction b"

text \<open>Under the action mutex. Only the last entry of the queue may be replaced.\<close>

definition enqueueAction :: "ActionRequest \<Rightarrow> AccessibilityRuntime \<Rightarrow> ActionResult \<times> AccessibilityRuntime" where
  "enqueueAction request rt =
    (let result = \<lparr>acceptance = AA_Accepted, resultRequestId = requestId request, resultGeneration = observedGeneration request\<rparr>;
         q = actions rt; tail = ringCount q - 1 in
     if coalescible (requestAction request) \<and> ringCount q \<noteq> 0 \<and> same_target (ring_get q tail) request
     then (result, rt\<lparr>actions := ring_put tail request q\<rparr>)
     else if ring_full q
     then (\<lparr>acceptance = AA_QueueFull, resultRequestId = 0, resultGeneration = observedGeneration request\<rparr>, rt\<lparr>rejected := rejected rt + 1\<rparr>)
     else (result, rt\<lparr>actions := ring_push request q\<rparr>))"

definition commitAction :: "PublishedSnapshot \<Rightarrow> ActionRequest \<Rightarrow> AccessibilityRuntime \<Rightarrow> ActionResult \<times> AccessibilityRuntime" where
  "commitAction s request rt =
    (if \<not> live rt then (declined AA_Closed, rt)
     else if nextRequest rt = 0 then (declined AA_Rejected, rt)
     else let g = generation (publishedView s); observed = (if observedGeneration request = 0 then g else observedGeneration request) in
     if observed > g then (declined AA_Invalid, rt)
     else enqueueAction (request\<lparr>observedGeneration := observed, requestId := nextRequest rt\<rparr>) (rt\<lparr>nextRequest := nextRequest rt + 1\<rparr>))"

definition submitAccessibilityAction :: "ActionRequest \<Rightarrow> AccessibilityRuntime \<Rightarrow> ActionResult \<times> AccessibilityRuntime" where
  "submitAccessibilityAction request rt = (case checkAction rt request of Inl r \<Rightarrow> (r, rt) | Inr s \<Rightarrow> commitAction s request rt)"

text \<open>\<open>Facade::popAction\<close>, called on the owner thread or on another.\<close>

definition popAction :: "bool \<Rightarrow> AccessibilityRuntime \<Rightarrow> ActionRequest option \<times> AccessibilityRuntime" where
  "popAction ownerCalls rt =
    (if \<not> ownerCalls then (None, rt)
     else if \<not> live rt \<or> ringCount (actions rt) = 0 then (None, rt)
     else case ring_pop blank_request (actions rt) of (r, q) \<Rightarrow> (Some r, rt\<lparr>actions := q\<rparr>))"

definition clearActions :: "AccessibilityRuntime \<Rightarrow> AccessibilityRuntime" where
  "clearActions rt = rt\<lparr>actions := ring_clear blank_request (actions rt)\<rparr>"

section \<open>The notification queue\<close>

abbreviation is_marker :: "PendingNotification \<Rightarrow> bool" where
  "is_marker p \<equiv> notificationKind (pendingEvent p) = N_TreeInvalidated"

text \<open>The loops that refresh the pending marker stop at the first one.\<close>

fun find_marker :: "PendingNotification ring \<Rightarrow> nat list \<Rightarrow> nat option" where
  "find_marker q [] = None"
| "find_marker q (i # is) = (if is_marker (ring_get q i) then Some i else find_marker q is)"

definition refresh_marker :: "(PendingNotification \<Rightarrow> PendingNotification) \<Rightarrow> AccessibilityRuntime \<Rightarrow> AccessibilityRuntime" where
  "refresh_marker f rt =
    (let q = notifications rt in
     case find_marker q [0..<ringCount q] of None \<Rightarrow> rt | Some i \<Rightarrow> rt\<lparr>notifications := ring_put i (f (ring_get q i)) q\<rparr>)"

definition set_event_generation :: "Generation \<Rightarrow> PendingNotification \<Rightarrow> PendingNotification" where
  "set_event_generation g p = p\<lparr>pendingEvent := (pendingEvent p)\<lparr>notificationGeneration := g\<rparr>\<rparr>"

text \<open>\<open>invalidateAccessibilityHost\<close> under the notification mutex.\<close>

definition collapse_full :: "AccessibilityRuntime \<Rightarrow> AccessibilityRuntime" where
  "collapse_full rt =
    (if ring_full (notifications rt)
     then rt\<lparr>notifications := ring_clear blank_notification (notifications rt), collapsed := collapsed rt + 1\<rparr> else rt)"

definition invalidateHost :: "bool \<Rightarrow> AccessibilityRuntime \<Rightarrow> AccessibilityRuntime" where
  "invalidateHost focusGained rt =
    (if \<not> live rt then rt
     else case snapshot rt of None \<Rightarrow> rt
     | Some s \<Rightarrow>
     let g = generation (publishedView s);
         rt = (if invalidationPending rt then refresh_marker (\<lambda>p. (set_event_generation g p)\<lparr>pendingAfter := Some s\<rparr>) rt
               else let rt = (collapse_full rt)\<lparr>invalidationPending := True\<rparr> in
                 rt\<lparr>notifications := ring_push (pending (event N_TreeInvalidated g (snapshotRoot (publishedView s)) P_Name) (Some s) (Some s))
                   (notifications rt)\<rparr>) in
     if focusGained \<and> focusedNode s \<noteq> 0
     then (if ringCount (notifications rt) < length (ringSlots (notifications rt))
           then rt\<lparr>notifications := ring_push (pending (event N_FocusChanged g (focusedNode s) P_Name) (Some s) (Some s)) (notifications rt)\<rparr>
           else rt\<lparr>collapsed := collapsed rt + 1\<rparr>)
     else rt)"

section \<open>Changes between two snapshots\<close>

definition rectEqual :: "Rect \<Rightarrow> Rect \<Rightarrow> bool" where
  "rectEqual a b \<longleftrightarrow> double_eq (rectX a) (rectX b) \<and> double_eq (rectY a) (rectY b) \<and> double_eq (rectWidth a) (rectWidth b) \<and>
     double_eq (rectHeight a) (rectHeight b)"

definition optionalEqual :: "('a \<Rightarrow> 'a \<Rightarrow> bool) \<Rightarrow> 'a option \<Rightarrow> 'a option \<Rightarrow> bool" where
  "optionalEqual equal a b = (case (a, b) of (None, None) \<Rightarrow> True | (Some x, Some y) \<Rightarrow> equal x y | _ \<Rightarrow> False)"

definition transformEqual :: "AffineTransform \<Rightarrow> AffineTransform \<Rightarrow> bool" where
  "transformEqual x y \<longleftrightarrow> double_eq (m11 x) (m11 y) \<and> double_eq (m12 x) (m12 y) \<and> double_eq (m21 x) (m21 y) \<and> double_eq (m22 x) (m22 y) \<and>
     double_eq (tx x) (tx y) \<and> double_eq (ty x) (ty y)"

definition geometryEqual :: "Geometry \<Rightarrow> Geometry \<Rightarrow> bool" where
  "geometryEqual a b \<longleftrightarrow> rectEqual (localBounds a) (localBounds b) \<and> optionalEqual rectEqual (clippingBounds a) (clippingBounds b) \<and>
     transformEqual (toWindow a) (toWindow b) \<and> geometryVisible a = geometryVisible b \<and> hitTestable a = hitTestable b \<and>
     hitTestOrder a = hitTestOrder b"

definition rangeLimitsEqual :: "RangeValue \<Rightarrow> RangeValue \<Rightarrow> bool" where
  "rangeLimitsEqual a b \<longleftrightarrow> double_eq (rangeMinimum a) (rangeMinimum b) \<and> double_eq (rangeMaximum a) (rangeMaximum b) \<and>
     double_eq (smallChange a) (smallChange b) \<and> double_eq (largeChange a) (largeChange b)"

definition scrollEqual :: "ScrollInfo \<Rightarrow> ScrollInfo \<Rightarrow> bool" where
  "scrollEqual a b \<longleftrightarrow> horizontalScrollable a = horizontalScrollable b \<and> verticalScrollable a = verticalScrollable b \<and>
     double_eq (horizontalPercent a) (horizontalPercent b) \<and> double_eq (verticalPercent a) (verticalPercent b) \<and>
     double_eq (horizontalViewSize a) (horizontalViewSize b) \<and> double_eq (verticalViewSize a) (verticalViewSize b)"

definition textMetadataEqual :: "TextContent \<Rightarrow> TextContent \<Rightarrow> bool" where
  "textMetadataEqual a b \<longleftrightarrow> contentDirection a = contentDirection b \<and> contentLanguage a = contentLanguage b \<and> contentCaret a = contentCaret b \<and>
     contentAnnotations a = contentAnnotations b \<and>
     list_all2 (\<lambda>x y. fragmentRange x = fragmentRange y \<and> rectEqual (fragmentBounds x) (fragmentBounds y)) (contentFragments a) (contentFragments b)"

text \<open>One entry of the list per \<open>if\<close> of the loop body.\<close>

definition structure_changed :: "Node \<Rightarrow> Node \<Rightarrow> bool" where
  "structure_changed node old \<longleftrightarrow> nodeParent node \<noteq> nodeParent old \<or> nodeChildren node \<noteq> nodeChildren old \<or> nodeRole node \<noteq> nodeRole old"

definition value_changed :: "Node \<Rightarrow> Node \<Rightarrow> bool" where
  "value_changed node old \<longleftrightarrow> nodeValue node \<noteq> nodeValue old \<or>
    (case nodeRange node of None \<Rightarrow> False
     | Some r \<Rightarrow> (case nodeRange old of None \<Rightarrow> True | Some r' \<Rightarrow> \<not> double_eq (rangeCurrent r) (rangeCurrent r')))"

definition selection_changed :: "Node \<Rightarrow> Node \<Rightarrow> bool" where
  "selection_changed node old \<longleftrightarrow> has_state node S_Selected \<noteq> has_state old S_Selected \<or>
    \<not> optionalEqual (\<lambda>a b. activeNode a = activeNode b \<and> selectedNodes a = selectedNodes b) (nodeSelection node) (nodeSelection old)"

definition text_changed :: "Node \<Rightarrow> Node \<Rightarrow> bool" where
  "text_changed node old \<longleftrightarrow> \<not> optionalEqual (\<lambda>a b. contentUtf8 a = contentUtf8 b) (nodeText node) (nodeText old)"

definition text_selection_changed :: "Node \<Rightarrow> Node \<Rightarrow> bool" where
  "text_selection_changed node old \<longleftrightarrow>
    (case (nodeText node, nodeText old) of
       (Some a, Some b) \<Rightarrow> contentCaret a \<noteq> contentCaret b \<or> contentSelection a \<noteq> contentSelection b | _ \<Rightarrow> False)"

definition metadata_changed :: "Node \<Rightarrow> Node \<Rightarrow> bool" where
  "metadata_changed node old \<longleftrightarrow>
    nodeActions node \<noteq> nodeActions old \<or> nodeHelpText node \<noteq> nodeHelpText old \<or> nodeLanguage node \<noteq> nodeLanguage old \<or>
    nodeAccessKey node \<noteq> nodeAccessKey old \<or> nodeShortcut node \<noteq> nodeShortcut old \<or> nodeRelations node \<noteq> nodeRelations old \<or>
    \<not> optionalEqual textMetadataEqual (nodeText node) (nodeText old) \<or> nodeCollection node \<noteq> nodeCollection old \<or>
    nodeVirtualization node \<noteq> nodeVirtualization old \<or>
    \<not> optionalEqual (\<lambda>a b. multiSelectable a = multiSelectable b \<and> selectionRequired a = selectionRequired b \<and> activeNode a = activeNode b)
        (nodeSelection node) (nodeSelection old)"

definition node_changes :: "Node \<Rightarrow> Node \<Rightarrow> (NotificationKind \<times> PropertyKind) list" where
  "node_changes node old = concat (map (\<lambda>(c, e). if c then [e] else [])
    [(nodeName node \<noteq> nodeName old, (N_PropertyChanged, P_Name)),
     (nodeDescription node \<noteq> nodeDescription old, (N_PropertyChanged, P_Description)),
     (value_changed node old, (N_PropertyChanged, P_Value)),
     (\<not> optionalEqual rangeLimitsEqual (nodeRange node) (nodeRange old), (N_PropertyChanged, P_Range)),
     (\<not> optionalEqual scrollEqual (nodeScroll node) (nodeScroll old), (N_PropertyChanged, P_Scroll)),
     (nodeStates node \<noteq> nodeStates old, (N_PropertyChanged, P_State)),
     (has_state node S_Focused \<and> \<not> has_state old S_Focused, (N_FocusChanged, P_Name)),
     (selection_changed node old, (N_SelectionChanged, P_Name)),
     (text_changed node old, (N_TextChanged, P_Name)),
     (text_selection_changed node old, (N_SelectionChanged, P_Text)),
     (\<not> optionalEqual geometryEqual (nodeGeometry node) (nodeGeometry old), (N_PropertyChanged, P_Geometry)),
     (nodeExposure node \<noteq> nodeExposure old, (N_PropertyChanged, P_Exposure)),
     (metadata_changed node old, (N_PropertyChanged, P_Metadata))])"

definition structure_differs :: "PublishedSnapshot \<Rightarrow> PublishedSnapshot \<Rightarrow> bool" where
  "structure_differs before after \<longleftrightarrow>
    length (snapshotNodes (publishedView before)) \<noteq> length (snapshotNodes (publishedView after)) \<or>
    list_ex (\<lambda>node. case findNode before (nodeId node) of None \<Rightarrow> True | Some old \<Rightarrow> structure_changed node old) (snapshotNodes (publishedView after))"

definition snapshot_changes :: "PublishedSnapshot \<Rightarrow> PublishedSnapshot \<Rightarrow> (NotificationKind \<times> NodeId \<times> PropertyKind) list" where
  "snapshot_changes before after =
    concat (map (\<lambda>node. case findNode before (nodeId node) of None \<Rightarrow> []
      | Some old \<Rightarrow> map (\<lambda>(k, p). (k, nodeId node, p)) (node_changes node old)) (snapshotNodes (publishedView after))) @
    (if structure_differs before after then [(N_StructureChanged, snapshotRoot (publishedView after), P_Name)] else [])"

text \<open>\<open>queueDiff\<close> under the notification mutex.\<close>

definition invalidate_queue :: "PublishedSnapshot option \<Rightarrow> PublishedSnapshot \<Rightarrow> AccessibilityRuntime \<Rightarrow> AccessibilityRuntime" where
  "invalidate_queue before after rt = rt\<lparr>
     notifications := ring_push (pending (event N_TreeInvalidated (generation (publishedView after)) (snapshotRoot (publishedView after)) P_Name)
       before (Some after)) (ring_clear blank_notification (notifications rt)),
     invalidationPending := True, collapsed := collapsed rt + 1\<rparr>"

definition push_change :: "PublishedSnapshot option \<Rightarrow> PublishedSnapshot \<Rightarrow> NotificationKind \<times> NodeId \<times> PropertyKind \<Rightarrow>
    AccessibilityRuntime \<Rightarrow> AccessibilityRuntime" where
  "push_change before after change rt =
    (case change of (k, n, p) \<Rightarrow>
     if invalidationPending rt then rt
     else if ring_full (notifications rt) then invalidate_queue before after rt
     else rt\<lparr>notifications := ring_push (pending (event k (generation (publishedView after)) n p) before (Some after)) (notifications rt)\<rparr>)"

definition queueDiff :: "PublishedSnapshot option \<Rightarrow> PublishedSnapshot \<Rightarrow> AccessibilityRuntime \<Rightarrow> AccessibilityRuntime" where
  "queueDiff before after rt =
    (if invalidationPending rt
     then (let q = notifications rt in
           case find_marker q [0..<ringCount q] of None \<Rightarrow> rt
           | Some i \<Rightarrow> rt\<lparr>notifications := ring_put i ((set_event_generation (generation (publishedView after)) (ring_get q i))
               \<lparr>pendingBefore := None, pendingAfter := Some after\<rparr>) q, collapsed := collapsed rt + 1\<rparr>)
     else case before of
       None \<Rightarrow> (push_change before after (N_TreeInvalidated, snapshotRoot (publishedView after), P_Name) rt)\<lparr>invalidationPending := True\<rparr>
     | Some b \<Rightarrow> fold (push_change before after) (snapshot_changes b after) rt)"

section \<open>Announcements and delivery\<close>

text \<open>\<open>Facade::announce\<close> before the lock and under it.\<close>

definition checkAnnouncement :: "AnnouncementView \<Rightarrow> AccessibilityRuntime \<Rightarrow> Status + PendingNotification" where
  "checkAnnouncement a rt =
    (if \<not> live rt then Inl (statusOf NotOpen)
     else if \<not> supports (runtimeFeatures rt) feature_announcements then Inl (statusOf Unsupported)
     else if announcementPriority a = AP_Unnamed \<or>
          length (announcementText a) + length (announcementLanguage a) > maximumAnnouncementBytes (runtimeLimits rt) then Inl (statusOf InvalidArgument)
     else if \<not> validUtf8 (announcementText a) \<or> \<not> validUtf8 (announcementLanguage a) then Inl (statusOf EncodingFailed)
     else case snapshot rt of None \<Rightarrow> Inl (statusOf InvalidArgument)
     | Some s \<Rightarrow>
     let n = (if announcementNode a \<noteq> 0 then announcementNode a else snapshotRoot (publishedView s)) in
     case findNode s n of None \<Rightarrow> Inl (statusOf InvalidArgument)
     | Some node \<Rightarrow>
     if announcementLanguage a \<noteq> [] \<and> announcementLanguage a \<noteq> nodeLanguage node \<and>
        \<not> supports (runtimeFeatures rt) feature_announcement_language then Inl (statusOf Unsupported)
     else Inr \<lparr>pendingEvent = event N_LiveRegionChanged (generation (publishedView s)) n P_Name, pendingBefore = None, pendingAfter = Some s,
       pendingAnnouncement = utf16 (announcementText a), pendingPriority = announcementPriority a\<rparr>)"

definition commitAnnouncement :: "PendingNotification \<Rightarrow> AccessibilityRuntime \<Rightarrow> Status \<times> AccessibilityRuntime" where
  "commitAnnouncement p rt =
    (if \<not> live rt then (statusOf NotOpen, rt)
     else if ring_full (notifications rt) then (statusOf SizeLimitExceeded, rt)
     else (successStatus, rt\<lparr>notifications := ring_push p (notifications rt)\<rparr>))"

definition announce :: "AnnouncementView \<Rightarrow> AccessibilityRuntime \<Rightarrow> Status \<times> AccessibilityRuntime" where
  "announce a rt = (case checkAnnouncement a rt of Inl status \<Rightarrow> (status, rt) | Inr p \<Rightarrow> commitAnnouncement p rt)"

text \<open>One turn of \<open>drainAccessibilityNotifications\<close>; the notification goes to the platform after the lock is released.\<close>

definition takeNotification :: "AccessibilityRuntime \<Rightarrow> PendingNotification option \<times> AccessibilityRuntime" where
  "takeNotification rt =
    (if \<not> live rt \<or> ringCount (notifications rt) = 0 then (None, rt)
     else case ring_pop blank_notification (notifications rt) of (p, q) \<Rightarrow>
       (Some p, rt\<lparr>notifications := q, invalidationPending := (if is_marker p then False else invalidationPending rt)\<rparr>))"

fun drain_turns :: "nat \<Rightarrow> AccessibilityRuntime \<Rightarrow> PendingNotification list \<times> AccessibilityRuntime" where
  "drain_turns 0 rt = ([], rt)"
| "drain_turns (Suc k) rt =
    (case takeNotification rt of
       (None, rt) \<Rightarrow> ([], rt)
     | (Some p, rt) \<Rightarrow> (case drain_turns k rt of (ps, rt) \<Rightarrow> (p # ps, rt)))"

definition drainAccessibilityNotifications :: "bool \<Rightarrow> AccessibilityRuntime \<Rightarrow> PendingNotification list \<times> AccessibilityRuntime" where
  "drainAccessibilityNotifications ownerCalls rt =
    (if \<not> ownerCalls then ([], rt) else drain_turns (length (ringSlots (notifications rt))) rt)"

definition clearNotifications :: "AccessibilityRuntime \<Rightarrow> AccessibilityRuntime" where
  "clearNotifications rt = rt\<lparr>notifications := ring_clear blank_notification (notifications rt), invalidationPending := False\<rparr>"

section \<open>The action queue\<close>

text \<open>
  What became of the accepted requests, in the order they were accepted: a list \<open>q\<close> thins out \<open>as\<close> if every request is appended, or replaces
  the last one because it is coalescible and has the same target.
\<close>

inductive thins :: "ActionRequest list \<Rightarrow> ActionRequest list \<Rightarrow> bool" where
  thins_Nil: "thins [] []"
| thins_append: "thins as q \<Longrightarrow> thins (as @ [r]) (q @ [r])"
| thins_replace: "thins as (q @ [t]) \<Longrightarrow> coalescible (requestAction r) \<Longrightarrow> same_target t r \<Longrightarrow> thins (as @ [r]) (q @ [r])"

lemma thins_durable: "thins as q \<Longrightarrow> filter (\<lambda>r. \<not> coalescible (requestAction r)) q = filter (\<lambda>r. \<not> coalescible (requestAction r)) as"
  by (induction rule: thins.induct) (auto simp: same_target_def)

lemma thins_subseq: "thins as q \<Longrightarrow> subseq q as"
proof (induction rule: thins.induct)
  case (thins_replace as q t r)
  then have "subseq q as" by (meson subseq_order.trans list_emb_append2 subseq_rev_drop_many subseq_order.order_refl sublist_append_rightI sublist_imp_subseq)
  then show ?case by (simp add: list_emb_append_mono)
qed (simp_all add: list_emb_append_mono)

lemma thins_last: "thins as q \<Longrightarrow> as \<noteq> [] \<Longrightarrow> q \<noteq> [] \<and> last q = last as"
  by (induction rule: thins.induct) auto

text \<open>The queue on lists, the way a client sees it.\<close>

definition enqueue_spec :: "nat \<Rightarrow> ActionRequest \<Rightarrow> ActionRequest list \<Rightarrow> ActionRequest list option" where
  "enqueue_spec capacity r q =
    (if coalescible (requestAction r) \<and> q \<noteq> [] \<and> same_target (last q) r then Some (butlast q @ [r])
     else if length q = capacity then None else Some (q @ [r]))"

lemma last_ring: "ringCount r \<noteq> 0 \<Longrightarrow> last (ring_list r) = ring_get r (ringCount r - 1)"
  by (simp add: last_conv_nth ring_nth flip: length_0_conv)

lemma enqueue_refines:
  assumes ok: "ring_ok (actions rt)"
  shows "ring_ok (actions (snd (enqueueAction r rt)))"
    "ring_list (actions (snd (enqueueAction r rt))) =
      (case enqueue_spec (length (ringSlots (actions rt))) r (ring_list (actions rt)) of None \<Rightarrow> ring_list (actions rt) | Some q \<Rightarrow> q)"
    "fst (enqueueAction r rt) =
      (case enqueue_spec (length (ringSlots (actions rt))) r (ring_list (actions rt)) of
         None \<Rightarrow> \<lparr>acceptance = AA_QueueFull, resultRequestId = 0, resultGeneration = observedGeneration r\<rparr>
       | Some _ \<Rightarrow> \<lparr>acceptance = AA_Accepted, resultRequestId = requestId r, resultGeneration = observedGeneration r\<rparr>)"
    "length (ringSlots (actions (snd (enqueueAction r rt)))) = length (ringSlots (actions rt))"
proof -
  let ?q = "actions rt"
  have nonempty: "ring_list ?q \<noteq> [] \<longleftrightarrow> ringCount ?q \<noteq> 0" by (metis length_0_conv ring_length)
  have put: "ring_list (ring_put (ringCount ?q - 1) r ?q) = butlast (ring_list ?q) @ [r]" if "ringCount ?q \<noteq> 0"
    using ring.contents_replace_last [OF ok append_butlast_last_id [symmetric], of r] that nonempty by simp
  let ?result = "\<lparr>acceptance = AA_Accepted, resultRequestId = requestId r, resultGeneration = observedGeneration r\<rparr>"
  have enqueue: "enqueueAction r rt =
      (if coalescible (requestAction r) \<and> ringCount ?q \<noteq> 0 \<and> same_target (ring_get ?q (ringCount ?q - 1)) r
       then (?result, rt\<lparr>actions := ring_put (ringCount ?q - 1) r ?q\<rparr>)
       else if ring_full ?q
       then (\<lparr>acceptance = AA_QueueFull, resultRequestId = 0, resultGeneration = observedGeneration r\<rparr>, rt\<lparr>rejected := rejected rt + 1\<rparr>)
       else (?result, rt\<lparr>actions := ring_push r ?q\<rparr>))"
    by (simp add: enqueueAction_def Let_def)
  consider (replace) "coalescible (requestAction r) \<and> ringCount ?q \<noteq> 0 \<and> same_target (ring_get ?q (ringCount ?q - 1)) r"
    | (full) "\<not> (coalescible (requestAction r) \<and> ringCount ?q \<noteq> 0 \<and> same_target (ring_get ?q (ringCount ?q - 1)) r)" "ring_full ?q"
    | (room) "\<not> (coalescible (requestAction r) \<and> ringCount ?q \<noteq> 0 \<and> same_target (ring_get ?q (ringCount ?q - 1)) r)" "\<not> ring_full ?q"
    by blast
  then show "ring_ok (actions (snd (enqueueAction r rt)))"
    "ring_list (actions (snd (enqueueAction r rt))) =
      (case enqueue_spec (length (ringSlots ?q)) r (ring_list ?q) of None \<Rightarrow> ring_list ?q | Some q \<Rightarrow> q)"
    "fst (enqueueAction r rt) =
      (case enqueue_spec (length (ringSlots ?q)) r (ring_list ?q) of
         None \<Rightarrow> \<lparr>acceptance = AA_QueueFull, resultRequestId = 0, resultGeneration = observedGeneration r\<rparr>
       | Some _ \<Rightarrow> \<lparr>acceptance = AA_Accepted, resultRequestId = requestId r, resultGeneration = observedGeneration r\<rparr>)"
    "length (ringSlots (actions (snd (enqueueAction r rt)))) = length (ringSlots ?q)"
    by (cases; use ok put nonempty last_ring [of ?q] in
      \<open>auto simp: enqueue enqueue_spec_def ring_put_ok ring_push_list ring_full_def\<close>)+
qed

lemma enqueue_spec_thins:
  assumes "thins as (d @ q)" "enqueue_spec n r q = Some q'"
  shows "thins (as @ [r]) (d @ q')"
proof (cases "coalescible (requestAction r) \<and> q \<noteq> [] \<and> same_target (last q) r")
  case True
  then have "thins as ((d @ butlast q) @ [last q])" using assms(1) by simp
  then show ?thesis using thins_replace True assms(2) by (fastforce simp: enqueue_spec_def)
next
  case False
  then have "q' = q @ [r]" using assms(2) by (auto simp: enqueue_spec_def split: if_splits)
  then show ?thesis using thins_append [OF assms(1), of r] by simp
qed

lemma pop_refines:
  assumes "ring_ok (actions rt)"
  shows "ring_ok (actions (snd (popAction ownerCalls rt)))"
    "ring_list (actions rt) = (case fst (popAction ownerCalls rt) of None \<Rightarrow> [] | Some r \<Rightarrow> [r]) @ ring_list (actions (snd (popAction ownerCalls rt)))"
  using ring_pop_list [OF assms, of blank_request] assms by (auto simp: popAction_def split: prod.splits)

section \<open>The marker invariant\<close>

text \<open>Both rings are well formed, and a tree invalidation is pending exactly when one marker, and only one, is in the queue.\<close>

definition runtime_ok :: "AccessibilityRuntime \<Rightarrow> bool" where
  "runtime_ok rt \<longleftrightarrow> ring_ok (actions rt) \<and> ring_ok (notifications rt) \<and>
    length (filter is_marker (ring_list (notifications rt))) = (if invalidationPending rt then 1 else 0)"

lemma find_marker_Some: "find_marker q is = Some i \<Longrightarrow> i \<in> set is \<and> is_marker (ring_get q i)"
  by (induction "is") (auto split: if_splits)

lemma find_marker_None: "find_marker q is = None \<longleftrightarrow> (\<forall>i \<in> set is. \<not> is_marker (ring_get q i))"
  by (induction "is") (auto split: if_splits)

lemma filter_update: "i < length xs \<Longrightarrow> P x = P (xs ! i) \<Longrightarrow> length (filter P (xs[i := x])) = length (filter P xs)"
  by (simp add: length_filter_conv_card nth_list_update) (metis (mono_tags, opaque_lifting))

lemma put_marker:
  assumes "ring_ok q" "find_marker q [0..<ringCount q] = Some i" "is_marker x"
  shows "length (filter is_marker (ring_list (ring_put i x q))) = length (filter is_marker (ring_list q))"
  using find_marker_Some [OF assms(2)] assms(3) by (auto simp: ring_put_list [OF assms(1)] ring_nth intro!: filter_update)

lemma event_simps [simp]: "notificationKind (event k g n p) = k" "pendingEvent (pending e b a) = e"
  by (simp_all add: event_def pending_def)

lemma set_event_marker [simp]: "is_marker (set_event_generation g p) = is_marker p"
  by (simp add: set_event_generation_def)

lemma refresh_ok:
  assumes "runtime_ok rt" "\<And>p. is_marker (f p) = is_marker p"
  shows "runtime_ok (refresh_marker f rt)" "invalidationPending (refresh_marker f rt) = invalidationPending rt"
  using assms put_marker [of "notifications rt"] find_marker_Some [of "notifications rt" "[0..<ringCount (notifications rt)]"]
  by (auto simp: refresh_marker_def runtime_ok_def ring_put_ok Let_def split: option.split)

lemma push_ok:
  assumes "runtime_ok rt" "\<not> ring_full (notifications rt)" "\<not> is_marker p"
  shows "runtime_ok (rt\<lparr>notifications := ring_push p (notifications rt)\<rparr>)"
  using assms by (auto simp: runtime_ok_def ring_push_list)

lemma counters_ok [simp]:
  "runtime_ok (rt\<lparr>collapsed := c\<rparr>) = runtime_ok rt" "runtime_ok (rt\<lparr>rejected := k\<rparr>) = runtime_ok rt" "runtime_ok (rt\<lparr>nextRequest := n\<rparr>) = runtime_ok rt"
  "runtime_ok (rt\<lparr>snapshot := s\<rparr>) = runtime_ok rt" "runtime_ok (rt\<lparr>live := b\<rparr>) = runtime_ok rt" "runtime_ok (rt\<lparr>hostEnabled := b\<rparr>) = runtime_ok rt"
  by (simp_all add: runtime_ok_def)

lemma push_marker_ok:
  assumes "runtime_ok rt" "\<not> invalidationPending rt" "is_marker p"
  shows "runtime_ok (rt\<lparr>notifications := ring_push p (if ring_full (notifications rt) then ring_clear blank_notification (notifications rt)
    else notifications rt), invalidationPending := True\<rparr>)"
proof -
  have "ring_ok (notifications rt)" "filter is_marker (ring_list (notifications rt)) = []" using assms by (simp_all add: runtime_ok_def)
  then show ?thesis using assms ring.push_or_restart [of "notifications rt" p blank_notification] by (simp add: runtime_ok_def)
qed

lemma invalidateHost_ok: "runtime_ok rt \<Longrightarrow> runtime_ok (invalidateHost focusGained rt)"
proof -
  assume ok: "runtime_ok rt"
  define mark where "mark s = (let g = generation (publishedView s) in
    if invalidationPending rt then refresh_marker (\<lambda>p. (set_event_generation g p)\<lparr>pendingAfter := Some s\<rparr>) rt
    else let rt = (collapse_full rt)\<lparr>invalidationPending := True\<rparr> in
      rt\<lparr>notifications := ring_push (pending (event N_TreeInvalidated g (snapshotRoot (publishedView s)) P_Name) (Some s) (Some s)) (notifications rt)\<rparr>)" for s
  have marked: "runtime_ok (mark s)" for s
  proof (cases "invalidationPending rt")
    case True
    then show ?thesis using refresh_ok(1) [OF ok] by (simp add: mark_def Let_def)
  next
    case False
    let ?p = "pending (event N_TreeInvalidated (generation (publishedView s)) (snapshotRoot (publishedView s)) P_Name) (Some s) (Some s)"
    from push_marker_ok [OF ok False, of ?p] have
      "runtime_ok (rt\<lparr>notifications := ring_push ?p (if ring_full (notifications rt) then ring_clear blank_notification (notifications rt)
        else notifications rt), invalidationPending := True\<rparr>)" by simp
    then show ?thesis using False by (auto simp: mark_def Let_def collapse_full_def runtime_ok_def)
  qed
  show ?thesis
  proof (cases "snapshot rt")
    case (Some s)
    have "ringCount (notifications (mark s)) < length (ringSlots (notifications (mark s))) \<Longrightarrow> \<not> ring_full (notifications (mark s))"
      by (simp add: ring_full_def)
    then show ?thesis
      using ok marked [of s] push_ok [OF marked [of s]] by (auto simp: invalidateHost_def Some Let_def mark_def [of s, unfolded Let_def])
  qed (simp add: invalidateHost_def ok)
qed

lemma invalidate_queue_ok:
  assumes "runtime_ok rt"
  shows "runtime_ok (invalidate_queue before after rt)"
  using assms ring.restart [of "notifications rt"] by (auto simp: invalidate_queue_def runtime_ok_def)

lemma push_change_ok: "runtime_ok rt \<Longrightarrow> fst change \<noteq> N_TreeInvalidated \<Longrightarrow> runtime_ok (push_change before after change rt)"
  using invalidate_queue_ok push_ok by (auto simp: push_change_def split: prod.splits)

lemma fold_push_ok: "runtime_ok rt \<Longrightarrow> \<forall>c \<in> set cs. fst c \<noteq> N_TreeInvalidated \<Longrightarrow> runtime_ok (fold (push_change before after) cs rt)"
  by (induction cs arbitrary: rt) (auto intro: push_change_ok)

lemma node_changes_kinds: "(k, p) \<in> set (node_changes node old) \<Longrightarrow> k \<noteq> N_TreeInvalidated"
  by (auto simp: node_changes_def split: if_splits)

lemma snapshot_changes_kinds: "c \<in> set (snapshot_changes b a) \<Longrightarrow> fst c \<noteq> N_TreeInvalidated"
  using node_changes_kinds by (fastforce simp: snapshot_changes_def split: option.splits if_splits)

lemma queueDiff_ok:
  assumes ok: "runtime_ok rt"
  shows "runtime_ok (queueDiff before after rt)"
proof (cases "invalidationPending rt")
  case True
  then show ?thesis
    using ok put_marker [of "notifications rt"] find_marker_Some [of "notifications rt" "[0..<ringCount (notifications rt)]"]
    by (auto simp: queueDiff_def runtime_ok_def ring_put_ok Let_def split: option.split)
next
  case False
  show ?thesis
  proof (cases before)
    case None
    let ?p = "pending (event N_TreeInvalidated (generation (publishedView after)) (snapshotRoot (publishedView after)) P_Name) None (Some after)"
    from push_marker_ok [OF ok False, of ?p] have
      "runtime_ok (rt\<lparr>notifications := ring_push ?p (if ring_full (notifications rt) then ring_clear blank_notification (notifications rt)
        else notifications rt), invalidationPending := True\<rparr>)" by simp
    then show ?thesis using False None by (auto simp: queueDiff_def push_change_def invalidate_queue_def runtime_ok_def)
  next
    case (Some b)
    then show ?thesis using False fold_push_ok [OF ok] snapshot_changes_kinds by (simp add: queueDiff_def)
  qed
qed

lemma takeNotification_ok:
  assumes ok: "runtime_ok rt"
  shows "runtime_ok (snd (takeNotification rt))"
proof (cases "\<not> live rt \<or> ringCount (notifications rt) = 0")
  case False
  let ?p = "fst (ring_pop blank_notification (notifications rt))" and ?q = "snd (ring_pop blank_notification (notifications rt))"
  have q: "ring_ok ?q" "ring_list (notifications rt) = ?p # ring_list ?q"
    using ring_pop_list [of "notifications rt" blank_notification] ok False by (auto simp: runtime_ok_def)
  then show ?thesis using ok False by (auto simp: takeNotification_def runtime_ok_def split: prod.splits if_splits)
qed (use ok in \<open>simp add: takeNotification_def\<close>)

lemma commitAnnouncement_ok:
  assumes "runtime_ok rt" "\<not> is_marker p"
  shows "runtime_ok (snd (commitAnnouncement p rt))"
  using push_ok [OF assms(1) _ assms(2)] assms(1) by (simp add: commitAnnouncement_def)

lemma checkAnnouncement_kind: "checkAnnouncement a rt = Inr p \<Longrightarrow> \<not> is_marker p"
  by (auto simp: checkAnnouncement_def Let_def split: if_splits option.splits)

lemma enqueueAction_keeps:
  "notifications (snd (enqueueAction r rt)) = notifications rt" "invalidationPending (snd (enqueueAction r rt)) = invalidationPending rt"
  by (simp_all add: enqueueAction_def Let_def)

lemma enqueueAction_ok: "runtime_ok rt \<Longrightarrow> runtime_ok (snd (enqueueAction r rt))"
  using enqueue_refines(1) [of rt r] by (simp add: runtime_ok_def enqueueAction_keeps)

lemma commitAction_ok: "runtime_ok rt \<Longrightarrow> runtime_ok (snd (commitAction s r rt))"
  by (simp add: commitAction_def Let_def enqueueAction_ok)

lemma popAction_ok: "runtime_ok rt \<Longrightarrow> runtime_ok (snd (popAction ownerCalls rt))"
  using pop_refines(1) [of rt ownerCalls] by (auto simp: runtime_ok_def popAction_def split: prod.splits)

lemma clear_ok: "runtime_ok rt \<Longrightarrow> runtime_ok (clearActions rt)" "runtime_ok rt \<Longrightarrow> runtime_ok (clearNotifications rt)"
  by (auto simp: runtime_ok_def clearActions_def clearNotifications_def ring_clear_list)

lemma newRuntime_ok: "validLimits limits \<Longrightarrow> runtime_ok (newRuntime limits features)"
  by (auto simp: runtime_ok_def newRuntime_def ring_new_list validLimits_def)

end
