(* ===== verification/Accessibility_Bridge.thy ===== *)
theory Accessibility_Bridge
  imports Accessibility_Runtime
begin

text \<open>
  The bridge as its threads see it. \<open>publish\<close> is first a function, for the outcome of one call; then all operations of one activation
  are steps that interleave wherever the code releases a mutex: native threads submit actions, application threads publish and
  announce, the owner thread pops, drains, invalidates and closes. The checks a submission or an announcement makes before it takes
  the mutex, several atomic loads in the code, are one step here; the code repeats what matters of them under the mutex, and so does the
  committing step.
\<close>

section \<open>Publication\<close>

text \<open>The checks under the publication mutex; no status means that all pass.\<close>

definition publish_check :: "AccessibilityRuntime \<Rightarrow> Generation \<Rightarrow> PublishedSnapshot \<Rightarrow> Status option" where
  "publish_check rt previous c =
    (if \<not> live rt then Some (statusOf NotOpen)
     else if generation (publishedView c) \<le> previous then Some (statusOf InvalidArgument)
     else if (case snapshot rt of None \<Rightarrow> False | Some before \<Rightarrow> snapshotRoot (publishedView before) \<noteq> snapshotRoot (publishedView c))
       then Some (statusOf InvalidArgument)
     else None)"

text \<open>
  One call that nothing interrupts, with the status the platform returns from preparing the snapshot and whether memory suffices.
  It has no result if the validation or a text index does not return.
\<close>

definition publish :: "bool \<Rightarrow> Status \<Rightarrow> SnapshotView \<Rightarrow> AccessibilityRuntime \<Rightarrow> Generation \<Rightarrow> (Status \<times> AccessibilityRuntime \<times> Generation) option" where
  "publish allocated prepared v rt previous =
    (if \<not> live rt then Some (statusOf NotOpen, rt, previous)
     else case validate v (runtimeLimits rt) of None \<Rightarrow> None
     | Some r \<Rightarrow>
     if \<not> ok (validationStatus r) then Some (validationStatus r, rt, previous)
     else if \<not> allocated then Some (statusOf OutOfMemory, rt, previous)
     else case publish_candidate v of None \<Rightarrow> None
     | Some c \<Rightarrow>
     case publish_check rt previous c of Some status \<Rightarrow> Some (status, rt, previous)
     | None \<Rightarrow>
     if \<not> ok prepared then Some (prepared, rt, previous)
     else Some (successStatus, queueDiff (snapshot rt) c (rt\<lparr>snapshot := Some c\<rparr>), generation v))"

section \<open>The rest of the facade\<close>

text \<open>\<open>closeAccessibility\<close> without interference; \<open>disable\<close> is the facade's call of it.\<close>

definition closeAccessibility :: "AccessibilityRuntime \<Rightarrow> AccessibilityRuntime" where
  "closeAccessibility rt = (if \<not> live rt then rt else clearNotifications (clearActions (rt\<lparr>live := False, snapshot := None\<rparr>)))"

definition disable :: "bool \<Rightarrow> AccessibilityRuntime \<Rightarrow> Status \<times> AccessibilityRuntime" where
  "disable ownerCalls rt =
    (if \<not> live rt then (successStatus, rt) else if \<not> ownerCalls then (statusOf ResourceBusy, rt) else (successStatus, closeAccessibility rt))"

definition enabled :: "AccessibilityRuntime option \<Rightarrow> bool" where
  "enabled runtime = (case runtime of None \<Rightarrow> False | Some rt \<Rightarrow> live rt)"

definition enabled_features :: "AccessibilityRuntime option \<Rightarrow> 64 word" where
  "enabled_features runtime = (if enabled runtime then runtimeFeatures (the runtime) else 0)"

definition readSnapshot :: "AccessibilityRuntime option \<Rightarrow> PublishedSnapshot option" where
  "readSnapshot runtime = (if enabled runtime then snapshot (the runtime) else None)"

record SnapshotInfo =
  snapshotValid :: bool
  infoGeneration :: Generation
  infoRoot :: NodeId
  infoNodes :: nat

definition snapshotInfo :: "PublishedSnapshot option \<Rightarrow> SnapshotInfo" where
  "snapshotInfo s = (case s of None \<Rightarrow> \<lparr>snapshotValid = False, infoGeneration = 0, infoRoot = 0, infoNodes = 0\<rparr>
    | Some p \<Rightarrow> \<lparr>snapshotValid = True, infoGeneration = generation (publishedView p), infoRoot = snapshotRoot (publishedView p),
        infoNodes = u32 (length (snapshotNodes (publishedView p)))\<rparr>)"

record QueueInfo =
  actionCapacity :: nat
  actionsPending :: nat
  actionsRejected :: "64 word"
  notificationCapacity :: nat
  notificationsPending :: nat
  notificationsCollapsed :: "64 word"
  treeInvalidationPending :: bool

definition no_queues :: QueueInfo where
  "no_queues = \<lparr>actionCapacity = 0, actionsPending = 0, actionsRejected = 0, notificationCapacity = 0, notificationsPending = 0,
     notificationsCollapsed = 0, treeInvalidationPending = False\<rparr>"

definition queueInfo :: "AccessibilityRuntime option \<Rightarrow> QueueInfo" where
  "queueInfo runtime = (case runtime of None \<Rightarrow> no_queues
    | Some rt \<Rightarrow> \<lparr>actionCapacity = u32 (length (ringSlots (actions rt))), actionsPending = u32 (ringCount (actions rt)), actionsRejected = rejected rt,
        notificationCapacity = u32 (length (ringSlots (notifications rt))), notificationsPending = u32 (ringCount (notifications rt)),
        notificationsCollapsed = collapsed rt, treeInvalidationPending = invalidationPending rt\<rparr>)"

text \<open>The marker's refreshes by publications are counted in \<open>collapsed\<close>, those by host changes are not.\<close>

lemma host_refresh_uncounted: "invalidationPending rt \<Longrightarrow> collapsed (invalidateHost False rt) = collapsed rt"
  by (simp add: invalidateHost_def refresh_marker_def Let_def split: option.split)

section \<open>Interleavings\<close>

text \<open>
  Who holds the publication mutex: nobody, a publisher (checked; ready to store; stored, with the snapshot before), or the closing
  thread (snapshot cleared; actions cleared).
\<close>

datatype LockHolder = L_Free | L_Checked PublishedSnapshot | L_Ready PublishedSnapshot | L_Stored "PublishedSnapshot option" PublishedSnapshot
  | L_CloseSnapshot | L_CloseActions

text \<open>The last four fields are history: what was accepted, delivered, dropped by closing, and published.\<close>

record System =
  runtime :: AccessibilityRuntime
  lastGeneration :: Generation
  holder :: LockHolder
  closing :: bool
  closed :: bool
  submitted :: "nat \<Rightarrow> (PublishedSnapshot \<times> ActionRequest) option"
  announcing :: "nat \<Rightarrow> PendingNotification option"
  candidates :: "nat \<Rightarrow> PublishedSnapshot option"
  accepted :: "ActionRequest list"
  delivered :: "ActionRequest list"
  dropped :: "ActionRequest list"
  published :: "Generation list"

definition enabled_system :: "Limits \<Rightarrow> 64 word \<Rightarrow> Generation \<Rightarrow> System" where
  "enabled_system limits features g = \<lparr>runtime = newRuntime limits features, lastGeneration = g, holder = L_Free, closing = False, closed = False,
     submitted = (\<lambda>_. None), announcing = (\<lambda>_. None), candidates = (\<lambda>_. None), accepted = [], delivered = [], dropped = [], published = []\<rparr>"

inductive bridge_step :: "System \<Rightarrow> System \<Rightarrow> bool" where
  submit_check: "checkAction (runtime s) r = Inr p \<Longrightarrow> bridge_step s (s\<lparr>submitted := (submitted s)(t := Some (p, r))\<rparr>)"
| submit_commit: "submitted s t = Some (p, r) \<Longrightarrow> commitAction p r (runtime s) = (result, rt) \<Longrightarrow>
    bridge_step s (s\<lparr>runtime := rt, submitted := (submitted s)(t := None), accepted := accepted s @
      (if acceptance result = AA_Accepted then [r\<lparr>observedGeneration := resultGeneration result, requestId := resultRequestId result\<rparr>] else [])\<rparr>)"
| pop_action: "popAction True (runtime s) = (Some r, rt) \<Longrightarrow> bridge_step s (s\<lparr>runtime := rt, delivered := delivered s @ [r]\<rparr>)"
| announce_check: "checkAnnouncement a (runtime s) = Inr p \<Longrightarrow> bridge_step s (s\<lparr>announcing := (announcing s)(t := Some p)\<rparr>)"
| announce_commit: "announcing s t = Some p \<Longrightarrow> bridge_step s (s\<lparr>runtime := snd (commitAnnouncement p (runtime s)), announcing := (announcing s)(t := None)\<rparr>)"
| take_notification: "bridge_step s (s\<lparr>runtime := snd (takeNotification (runtime s))\<rparr>)"
| host_changed: "bridge_step s (s\<lparr>runtime := invalidateHost focusGained (runtime s)\<rparr>)"
| host_enabled: "bridge_step s (s\<lparr>runtime := (runtime s)\<lparr>hostEnabled := b\<rparr>\<rparr>)"
| publish_prepare: "live (runtime s) \<Longrightarrow> validate v (runtimeLimits (runtime s)) = Some r \<Longrightarrow> ok (validationStatus r) \<Longrightarrow> publish_candidate v = Some c \<Longrightarrow>
    bridge_step s (s\<lparr>candidates := (candidates s)(t := Some c)\<rparr>)"
| publish_refuse: "holder s = L_Free \<Longrightarrow> candidates s t = Some c \<Longrightarrow> publish_check (runtime s) (lastGeneration s) c \<noteq> None \<Longrightarrow>
    bridge_step s (s\<lparr>candidates := (candidates s)(t := None)\<rparr>)"
| publish_lock: "holder s = L_Free \<Longrightarrow> candidates s t = Some c \<Longrightarrow> publish_check (runtime s) (lastGeneration s) c = None \<Longrightarrow>
    bridge_step s (s\<lparr>candidates := (candidates s)(t := None), holder := L_Checked c\<rparr>)"
| publish_unprepared: "holder s = L_Checked c \<Longrightarrow> bridge_step s (s\<lparr>holder := L_Free\<rparr>)"
| publish_ready: "holder s = L_Checked c \<Longrightarrow> live (runtime s) \<Longrightarrow> bridge_step s (s\<lparr>holder := L_Ready c\<rparr>)"
| publish_store: "holder s = L_Ready c \<Longrightarrow>
    bridge_step s (s\<lparr>runtime := (runtime s)\<lparr>snapshot := Some c\<rparr>, lastGeneration := generation (publishedView c),
      holder := L_Stored (snapshot (runtime s)) c, published := published s @ [generation (publishedView c)]\<rparr>)"
| publish_diff: "holder s = L_Stored b c \<Longrightarrow> bridge_step s (s\<lparr>runtime := queueDiff b c (runtime s), holder := L_Free\<rparr>)"
| close_gate: "live (runtime s) \<Longrightarrow> bridge_step s (s\<lparr>runtime := (runtime s)\<lparr>live := False\<rparr>, closing := True\<rparr>)"
| close_snapshot: "closing s \<Longrightarrow> holder s = L_Free \<Longrightarrow>
    bridge_step s (s\<lparr>runtime := (runtime s)\<lparr>snapshot := None\<rparr>, closing := False, holder := L_CloseSnapshot\<rparr>)"
| close_actions: "holder s = L_CloseSnapshot \<Longrightarrow>
    bridge_step s (s\<lparr>runtime := clearActions (runtime s), dropped := ring_list (actions (runtime s)), holder := L_CloseActions\<rparr>)"
| close_notifications: "holder s = L_CloseActions \<Longrightarrow>
    bridge_step s (s\<lparr>runtime := clearNotifications (runtime s), holder := L_Free, closed := True\<rparr>)"

inductive bridge_reachable :: "Limits \<Rightarrow> Generation \<Rightarrow> System \<Rightarrow> bool" for limits g where
  bridge_start: "validLimits limits \<Longrightarrow> bridge_reachable limits g (enabled_system limits features g)"
| bridge_run: "bridge_reachable limits g s \<Longrightarrow> bridge_step s s' \<Longrightarrow> bridge_reachable limits g s'"

section \<open>What the operations leave alone\<close>

lemma collapse_keeps [simp]: "live (collapse_full rt) = live rt" "snapshot (collapse_full rt) = snapshot rt" "actions (collapse_full rt) = actions rt"
    "nextRequest (collapse_full rt) = nextRequest rt" "runtimeLimits (collapse_full rt) = runtimeLimits rt"
  by (simp_all add: collapse_full_def)

lemma refresh_keeps [simp]: "live (refresh_marker f rt) = live rt" "snapshot (refresh_marker f rt) = snapshot rt"
    "actions (refresh_marker f rt) = actions rt" "nextRequest (refresh_marker f rt) = nextRequest rt" "runtimeLimits (refresh_marker f rt) = runtimeLimits rt"
  by (auto simp: refresh_marker_def Let_def split: option.split)

lemma invalidateHost_keeps [simp]: "live (invalidateHost f rt) = live rt" "snapshot (invalidateHost f rt) = snapshot rt"
    "actions (invalidateHost f rt) = actions rt" "nextRequest (invalidateHost f rt) = nextRequest rt" "runtimeLimits (invalidateHost f rt) = runtimeLimits rt"
  by (auto simp: invalidateHost_def Let_def split: option.split)

lemma push_change_keeps: "live (push_change b a c rt) = live rt" "hostEnabled (push_change b a c rt) = hostEnabled rt" "snapshot (push_change b a c rt) = snapshot rt"
    "actions (push_change b a c rt) = actions rt" "nextRequest (push_change b a c rt) = nextRequest rt" "runtimeLimits (push_change b a c rt) = runtimeLimits rt"
  by (auto simp: push_change_def invalidate_queue_def split: prod.split)

lemma fold_push_keeps: "live (fold (push_change b a) cs rt) = live rt" "hostEnabled (fold (push_change b a) cs rt) = hostEnabled rt" "snapshot (fold (push_change b a) cs rt) = snapshot rt"
    "actions (fold (push_change b a) cs rt) = actions rt" "nextRequest (fold (push_change b a) cs rt) = nextRequest rt"
    "runtimeLimits (fold (push_change b a) cs rt) = runtimeLimits rt"
  by (induction cs arbitrary: rt) (simp_all add: push_change_keeps)

lemma queueDiff_keeps [simp]: "live (queueDiff b a rt) = live rt" "hostEnabled (queueDiff b a rt) = hostEnabled rt" "snapshot (queueDiff b a rt) = snapshot rt"
    "actions (queueDiff b a rt) = actions rt" "nextRequest (queueDiff b a rt) = nextRequest rt" "runtimeLimits (queueDiff b a rt) = runtimeLimits rt"
  by (auto simp: queueDiff_def Let_def push_change_keeps fold_push_keeps split: option.split)

lemma takeNotification_keeps [simp]: "live (snd (takeNotification rt)) = live rt" "snapshot (snd (takeNotification rt)) = snapshot rt"
    "actions (snd (takeNotification rt)) = actions rt" "nextRequest (snd (takeNotification rt)) = nextRequest rt"
    "runtimeLimits (snd (takeNotification rt)) = runtimeLimits rt"
  by (auto simp: takeNotification_def split: prod.split)

lemma commitAnnouncement_keeps [simp]: "live (snd (commitAnnouncement p rt)) = live rt" "snapshot (snd (commitAnnouncement p rt)) = snapshot rt"
    "actions (snd (commitAnnouncement p rt)) = actions rt" "nextRequest (snd (commitAnnouncement p rt)) = nextRequest rt"
    "runtimeLimits (snd (commitAnnouncement p rt)) = runtimeLimits rt"
  by (auto simp: commitAnnouncement_def)

lemma clear_keeps [simp]: "live (clearActions rt) = live rt" "snapshot (clearActions rt) = snapshot rt" "nextRequest (clearActions rt) = nextRequest rt"
    "notifications (clearActions rt) = notifications rt" "invalidationPending (clearActions rt) = invalidationPending rt"
    "live (clearNotifications rt) = live rt" "snapshot (clearNotifications rt) = snapshot rt" "nextRequest (clearNotifications rt) = nextRequest rt"
    "actions (clearNotifications rt) = actions rt"
  by (simp_all add: clearActions_def clearNotifications_def)

lemma popAction_keeps:
  assumes "popAction True rt = (Some r, rt')"
  shows "live rt' = live rt" "live rt" "snapshot rt' = snapshot rt" "nextRequest rt' = nextRequest rt" "notifications rt' = notifications rt"
    "invalidationPending rt' = invalidationPending rt" "runtimeLimits rt' = runtimeLimits rt"
  using assms by (auto simp: popAction_def split: if_splits prod.splits)

lemma commitAction_keeps:
  assumes "commitAction p r rt = (result, rt')"
  shows "live rt' = live rt" "snapshot rt' = snapshot rt" "notifications rt' = notifications rt" "invalidationPending rt' = invalidationPending rt"
    "runtimeLimits rt' = runtimeLimits rt" "\<not> live rt \<Longrightarrow> rt' = rt \<and> acceptance result = AA_Closed"
  using assms by (auto simp: commitAction_def enqueueAction_def declined_def Let_def split: if_splits)

section \<open>Invariants\<close>

lemma step_runtime_ok: "bridge_step s s' \<Longrightarrow> runtime_ok (runtime s) \<Longrightarrow> (\<forall>t p. announcing s t = Some p \<longrightarrow> \<not> is_marker p) \<Longrightarrow>
    runtime_ok (runtime s') \<and> (\<forall>t p. announcing s' t = Some p \<longrightarrow> \<not> is_marker p)"
proof (induction rule: bridge_step.induct)
  case (submit_commit s t p r result rt)
  then show ?case using commitAction_ok [of "runtime s" p r] by simp
next
  case (pop_action s r rt)
  then show ?case using popAction_ok [of "runtime s" True] by simp
next
  case (announce_commit s t p)
  then show ?case using commitAnnouncement_ok [of "runtime s" p] by auto
qed (auto simp: takeNotification_ok invalidateHost_ok queueDiff_ok clear_ok dest: checkAnnouncement_kind)

text \<open>Closing: the gate is shut before anything is cleared, and what has been cleared stays empty.\<close>

definition close_inv :: "System \<Rightarrow> bool" where
  "close_inv s \<longleftrightarrow>
    (closing s \<or> closed s \<or> holder s = L_CloseSnapshot \<or> holder s = L_CloseActions \<longrightarrow> \<not> live (runtime s)) \<and>
    (closed s \<longrightarrow> holder s = L_Free \<and> \<not> closing s) \<and> (holder s = L_CloseSnapshot \<or> holder s = L_CloseActions \<longrightarrow> \<not> closing s \<and> \<not> closed s) \<and>
    (closed s \<or> holder s = L_CloseSnapshot \<or> holder s = L_CloseActions \<longrightarrow> snapshot (runtime s) = None) \<and>
    (closed s \<or> holder s = L_CloseActions \<longrightarrow> ring_list (actions (runtime s)) = []) \<and>
    (dropped s \<noteq> [] \<longrightarrow> closed s \<or> holder s = L_CloseActions) \<and>
    (closed s \<longrightarrow> ring_list (notifications (runtime s)) = [] \<and> \<not> invalidationPending (runtime s))"

lemma publish_check_live: "publish_check rt g c = None \<Longrightarrow> live rt \<and> generation (publishedView c) > g"
  by (auto simp: publish_check_def split: if_splits)

lemma not_live:
  assumes "\<not> live rt"
  shows "invalidateHost f rt = rt" "takeNotification rt = (None, rt)" "commitAnnouncement p rt = (statusOf NotOpen, rt)"
  using assms by (simp_all add: invalidateHost_def takeNotification_def commitAnnouncement_def)

lemma clear_empty:
  assumes "runtime_ok rt"
  shows "ring_list (actions (clearActions rt)) = []" "ring_list (notifications (clearNotifications rt)) = []" "\<not> invalidationPending (clearNotifications rt)"
  using assms by (simp_all add: runtime_ok_def clearActions_def clearNotifications_def ring_clear_list)

lemma close_inv_live: "live (runtime s) \<Longrightarrow>
    close_inv s \<longleftrightarrow> \<not> closing s \<and> \<not> closed s \<and> holder s \<noteq> L_CloseSnapshot \<and> holder s \<noteq> L_CloseActions \<and> dropped s = []"
  unfolding close_inv_def by blast

lemma close_inv_same:
  assumes "close_inv s" "runtime s' = runtime s" "holder s' = holder s" "closing s' = closing s" "closed s' = closed s" "dropped s' = dropped s"
  shows "close_inv s'"
proof -
  have "close_inv s' = close_inv s" by (simp only: close_inv_def assms(2-))
  then show ?thesis using assms(1) by (rule iffD2)
qed

lemma step_close_inv: "bridge_step s s' \<Longrightarrow> close_inv s \<Longrightarrow> runtime_ok (runtime s) \<Longrightarrow> close_inv s'"
proof (induction rule: bridge_step.induct)
  case (submit_commit s t p r result rt)
  note keeps = commitAction_keeps [OF submit_commit.hyps(2)]
  show ?case
  proof (cases "live (runtime s)")
    case True
    with submit_commit.prems(1) keeps(1) show ?thesis by (simp add: close_inv_live)
  next
    case False
    with keeps(6) have "rt = runtime s" by blast
    then show ?thesis by (intro close_inv_same [OF submit_commit.prems(1)]) simp_all
  qed
next
  case (pop_action s r rt)
  then show ?case using popAction_keeps(1,2) [OF pop_action.hyps] by (simp add: close_inv_live)
next
  case (announce_commit s t p)
  show ?case
  proof (cases "live (runtime s)")
    case True
    with announce_commit.prems(1) show ?thesis by (simp add: close_inv_live)
  next
    case False
    then show ?thesis by (intro close_inv_same [OF announce_commit.prems(1)]) (simp_all add: not_live)
  qed
next
  case (take_notification s)
  show ?case
  proof (cases "live (runtime s)")
    case True
    with take_notification.prems(1) show ?thesis by (simp add: close_inv_live)
  next
    case False
    then show ?thesis by (intro close_inv_same [OF take_notification.prems(1)]) (simp_all add: not_live)
  qed
next
  case (host_changed s f)
  show ?case
  proof (cases "live (runtime s)")
    case True
    with host_changed.prems(1) show ?thesis by (simp add: close_inv_live)
  next
    case False
    then show ?thesis by (intro close_inv_same [OF host_changed.prems(1)]) (simp_all add: not_live)
  qed
next
  case (publish_lock s t c)
  have "live (runtime s)" using publish_check_live [OF publish_lock.hyps(3)] by (rule conjunct1)
  with publish_lock.prems(1) show ?case by (simp add: close_inv_live)
next
  case (close_actions s)
  have "ring_list (actions (clearActions (runtime s))) = []" using close_actions.prems(2) by (rule clear_empty(1))
  with close_actions show ?case by (simp add: close_inv_def)
next
  case (close_notifications s)
  note empty = clear_empty(2,3) [OF close_notifications.prems(2)]
  with close_notifications show ?case by (simp add: close_inv_def)
next
  case (close_gate s)
  then have "\<not> closed s" "holder s \<noteq> L_CloseSnapshot" "holder s \<noteq> L_CloseActions" "dropped s = []" by (simp_all add: close_inv_live)
  then show ?case by (simp add: close_inv_def)
qed (unfold close_inv_def, (simp (no_asm), (elim conjE, simp (no_asm_use))?, (metis LockHolder.distinct))+)

text \<open>Generations: the published ones ascend, the last one is remembered, and the snapshot in place is the last one published.\<close>

definition generation_inv :: "Generation \<Rightarrow> System \<Rightarrow> bool" where
  "generation_inv g s \<longleftrightarrow> sorted_wrt (<) (g # published s) \<and> lastGeneration s = last (g # published s) \<and>
    (\<forall>c. snapshot (runtime s) = Some c \<longrightarrow> generation (publishedView c) = lastGeneration s) \<and>
    (\<forall>c. holder s = L_Checked c \<or> holder s = L_Ready c \<longrightarrow> generation (publishedView c) > lastGeneration s)"

lemma sorted_snoc:
  fixes x :: "'a::linorder"
  assumes "sorted_wrt (<) (g # xs)" "last (g # xs) < x"
  shows "sorted_wrt (<) (g # xs @ [x])"
proof -
  obtain zs z where "g # xs = zs @ [z]" by (metis append_butlast_last_id list.distinct(1))
  moreover have "sorted_wrt (<) (zs @ [z]) \<Longrightarrow> z < x \<Longrightarrow> sorted_wrt (<) ((zs @ [z]) @ [x])" by (auto simp: sorted_wrt_append intro: less_trans)
  ultimately show ?thesis using assms by (metis append_Cons last_snoc)
qed

lemma step_generation_inv: "bridge_step s s' \<Longrightarrow> generation_inv g s \<Longrightarrow> generation_inv g s'"
proof (induction rule: bridge_step.induct)
  case (submit_commit s t p r result rt)
  then show ?case using commitAction_keeps [OF submit_commit.hyps(2)] by (auto simp: generation_inv_def)
next
  case (pop_action s r rt)
  then show ?case using popAction_keeps [OF pop_action.hyps] by (auto simp: generation_inv_def)
next
  case (publish_lock s t c)
  then show ?case using publish_check_live by (auto simp: generation_inv_def)
next
  case (publish_store s c)
  then have "sorted_wrt (<) (g # published s @ [generation (publishedView c)])"
    by (intro sorted_snoc) (auto simp: generation_inv_def)
  then show ?case by (simp add: generation_inv_def)
qed (auto simp: generation_inv_def)

lemma step_published: "bridge_step s s' \<Longrightarrow> (published s = [] \<longrightarrow> snapshot (runtime s) = None) \<Longrightarrow> published s' = [] \<longrightarrow> snapshot (runtime s') = None"
proof (induction rule: bridge_step.induct)
  case (submit_commit s t p r result rt)
  then show ?case using commitAction_keeps(2) [OF submit_commit.hyps(2)] by simp
next
  case (pop_action s r rt)
  then show ?case using popAction_keeps(3) [OF pop_action.hyps] by simp
qed simp_all

text \<open>Requests: the delivered, the queued and the dropped ones thin out the accepted ones, whose identities ascend.\<close>

definition queue_inv :: "System \<Rightarrow> bool" where
  "queue_inv s \<longleftrightarrow> thins (accepted s) (delivered s @ ring_list (actions (runtime s)) @ dropped s) \<and>
    sorted_wrt (<) (map requestId (accepted s)) \<and>
    (\<forall>r \<in> set (accepted s). requestId r \<noteq> 0 \<and> (nextRequest (runtime s) \<noteq> 0 \<longrightarrow> requestId r < nextRequest (runtime s)))"

lemma commitAction_history:
  assumes "commitAction p r rt = (result, rt')" "live rt" "ring_ok (actions rt)" "thins as (d @ ring_list (actions rt))"
    "\<forall>r \<in> set as. requestId r \<noteq> 0 \<and> (nextRequest rt \<noteq> 0 \<longrightarrow> requestId r < nextRequest rt)" "sorted_wrt (<) (map requestId as)"
  defines "as' \<equiv> as @ (if acceptance result = AA_Accepted then [r\<lparr>observedGeneration := resultGeneration result, requestId := resultRequestId result\<rparr>] else [])"
  shows "thins as' (d @ ring_list (actions rt')) \<and> sorted_wrt (<) (map requestId as') \<and>
    (\<forall>r \<in> set as'. requestId r \<noteq> 0 \<and> (nextRequest rt' \<noteq> 0 \<longrightarrow> requestId r < nextRequest rt'))"
proof (cases "nextRequest rt = 0 \<or> (let g = generation (publishedView p) in (if observedGeneration r = 0 then g else observedGeneration r) > g)")
  case True
  then have "rt' = rt" "acceptance result \<noteq> AA_Accepted" using assms(1,2) by (auto simp: commitAction_def declined_def Let_def split: if_splits)
  then show ?thesis using assms(4-6) by (simp add: as'_def)
next
  case False
  define o' where "o' = (if observedGeneration r = 0 then generation (publishedView p) else observedGeneration r)"
  define r' where "r' = r\<lparr>observedGeneration := o', requestId := nextRequest rt\<rparr>"
  define rt0 where "rt0 = rt\<lparr>nextRequest := nextRequest rt + 1\<rparr>"
  have e: "enqueueAction r' rt0 = (result, rt')" using False assms(1,2) by (simp add: commitAction_def r'_def rt0_def o'_def Let_def)
  have next': "nextRequest rt' = nextRequest rt + 1" using e by (auto simp: enqueueAction_def rt0_def Let_def split: if_splits)
  have id: "nextRequest rt \<noteq> 0" "nextRequest rt + 1 \<noteq> 0 \<Longrightarrow> nextRequest rt < nextRequest rt + 1"
    using False by (auto simp: word_less_nat_alt unatSuc add.commute)
  have "ring_ok (actions rt0)" "ring_list (actions rt0) = ring_list (actions rt)" using assms(3) by (simp_all add: rt0_def)
  note refines = enqueue_refines(2,3) [OF this(1), of r', unfolded e this(2)]
  show ?thesis
  proof (cases "enqueue_spec (length (ringSlots (actions rt0))) r' (ring_list (actions rt))")
    case None
    then have "ring_list (actions rt') = ring_list (actions rt)" "acceptance result \<noteq> AA_Accepted" using refines by simp_all
    then show ?thesis using assms(4-6) id by (auto simp: as'_def next' intro: less_trans)
  next
    case (Some q)
    then have q: "ring_list (actions rt') = q" and res: "result = \<lparr>acceptance = AA_Accepted, resultRequestId = nextRequest rt, resultGeneration = o'\<rparr>"
      using refines by (simp_all add: r'_def)
    have as': "as' = as @ [r']" by (simp add: as'_def res r'_def)
    have "thins as' (d @ q)" unfolding as' by (rule enqueue_spec_thins [OF assms(4) Some])
    moreover have "requestId r' = nextRequest rt" by (simp add: r'_def)
    ultimately show ?thesis using assms(5,6) id by (auto simp: q as' next' sorted_wrt_append intro: less_trans)
  qed
qed

lemma step_queue_inv: "bridge_step s s' \<Longrightarrow> queue_inv s \<Longrightarrow> close_inv s \<Longrightarrow> runtime_ok (runtime s) \<Longrightarrow> queue_inv s'"
proof (induction rule: bridge_step.induct)
  case (submit_commit s t p r result rt)
  show ?case
  proof (cases "live (runtime s)")
    case True
    then have "dropped s = []" using submit_commit.prems(2) by (auto simp: close_inv_def)
    then show ?thesis
      using commitAction_history [OF submit_commit.hyps(2) True, of "accepted s" "delivered s"] submit_commit.prems
      by (simp add: queue_inv_def runtime_ok_def)
  next
    case False
    then show ?thesis using submit_commit.prems commitAction_keeps(6) [OF submit_commit.hyps(2)] by (simp add: queue_inv_def)
  qed
next
  case (pop_action s r rt)
  have "ring_list (actions (runtime s)) = r # ring_list (actions rt)"
    using pop_refines(2) [of "runtime s" True] pop_action by (simp add: runtime_ok_def)
  then show ?case using pop_action.prems popAction_keeps [OF pop_action.hyps] by (simp add: queue_inv_def)
next
  case (close_actions s)
  then have "dropped s = []" by (auto simp: close_inv_def)
  then show ?case using close_actions.prems clear_empty(1) by (simp add: queue_inv_def)
qed (auto simp: queue_inv_def)

lemma reachable_inv:
  "bridge_reachable limits g s \<Longrightarrow> runtime_ok (runtime s) \<and> (\<forall>t p. announcing s t = Some p \<longrightarrow> \<not> is_marker p) \<and> close_inv s \<and> generation_inv g s \<and> queue_inv s \<and>
    (published s = [] \<longrightarrow> snapshot (runtime s) = None)"
proof (induction rule: bridge_reachable.induct)
  case (bridge_start features)
  have "ring_list (ring_new b n) = []" for b :: ActionRequest and n by (simp add: ring_list_def ring_new_def)
  then show ?case
    using newRuntime_ok [OF bridge_start]
    by (simp add: enabled_system_def close_inv_def generation_inv_def queue_inv_def newRuntime_def thins_Nil)
next
  case (bridge_run s s')
  then show ?case using step_runtime_ok step_close_inv step_generation_inv step_queue_inv step_published by blast
qed

text \<open>A closed activation: no step changes its queues, its tree or its histories.\<close>

lemma step_closed:
  assumes "bridge_step s s'" "close_inv s" "closed s" "runtime_ok (runtime s)"
  shows "closed s' \<and> accepted s' = accepted s \<and> delivered s' = delivered s \<and> published s' = published s"
  using assms
proof (induction rule: bridge_step.induct)
  case (submit_commit s t p r result rt)
  then have "\<not> live (runtime s)" by (simp add: close_inv_def)
  then show ?case using commitAction_keeps(6) [OF submit_commit.hyps(2)] submit_commit.prems(2) by simp
next
  case (pop_action s r rt)
  then show ?case using popAction_keeps(2) [OF pop_action.hyps] by (simp add: close_inv_def)
qed (auto simp: close_inv_def)

lemma steps_closed:
  assumes "bridge_step\<^sup>*\<^sup>* s s'" "bridge_reachable limits g s" "closed s"
  shows "bridge_reachable limits g s' \<and> closed s' \<and> accepted s' = accepted s \<and> delivered s' = delivered s \<and> published s' = published s"
  using assms
proof (induction rule: rtranclp_induct)
  case (step s1 s2)
  then have r: "bridge_reachable limits g s1" by blast
  then show ?case using step step_closed [OF step.hyps(2)] reachable_inv [OF r] bridge_run [OF r step.hyps(2)] by auto
qed simp

text \<open>
  C17: Closing is final. Once an activation has closed, whatever the threads still do - requests, announcements and publications that had passed
  their first checks, host events, native calls - nothing is accepted, delivered or published any more: the tree stays empty, both queues
  stay empty, no invalidation is pending and the gate stays shut.
\<close>

theorem close_is_final:
  assumes "bridge_reachable limits g s" "closed s" "bridge_step\<^sup>*\<^sup>* s s'"
  shows "\<not> live (runtime s') \<and> snapshot (runtime s') = None \<and> ring_list (actions (runtime s')) = [] \<and> ring_list (notifications (runtime s')) = [] \<and>
    \<not> invalidationPending (runtime s') \<and> accepted s' = accepted s \<and> delivered s' = delivered s \<and> published s' = published s"
  using steps_closed [OF assms(3,1,2)] reachable_inv [of limits g s'] by (simp add: close_inv_def)

text \<open>An activation that is enabled and publishes the example, and then accepts two requests that coalesce.\<close>

lemma example_activation:
  obtains s c where "bridge_reachable example_limits 0 s" "snapshot (runtime s) = Some c" "publishedView c = example_view" "published s = [1]"
    "publishedIndex c = node_index (snapshotNodes example_view)" "live (runtime s)" "hostEnabled (runtime s)" "accepted s = []" "delivered s = []"
    "dropped s = []" "actions (runtime s) = ring_new blank_request 8" "nextRequest (runtime s) = 1" "holder s = L_Free"
    "runtimeLimits (runtime s) = example_limits"
proof -
  define s0 where "s0 = enabled_system example_limits 0 0"
  obtain c where c: "publish_candidate example_view = Some c" "publishedView c = example_view" "publishedIndex c = node_index (snapshotNodes example_view)"
    using candidate_exists [OF example_valid valid_result_ok] by metis
  have g: "generation example_view = 1" by (simp add: example_view_def)
  have s0: "bridge_reachable example_limits 0 s0" unfolding s0_def by (rule bridge_start [OF example_limits_valid])
  have rt: "live (runtime s0)" "hostEnabled (runtime s0)" "runtimeLimits (runtime s0) = example_limits" "snapshot (runtime s0) = None" "lastGeneration s0 = 0"
    "holder s0 = L_Free" "published s0 = []" "accepted s0 = []" "delivered s0 = []" "dropped s0 = []" "actions (runtime s0) = ring_new blank_request 8"
    "nextRequest (runtime s0) = 1"
    by (simp_all add: s0_def enabled_system_def newRuntime_def example_limits_def)
  define s1 where "s1 = s0\<lparr>candidates := (candidates s0)(0 := Some c)\<rparr>"
  have "bridge_step s0 s1" unfolding s1_def
    by (rule publish_prepare [where v = example_view and r = valid_result]) (simp_all add: rt example_valid valid_result_ok c)
  note s1 = bridge_run [OF s0 this]
  have "publish_check (runtime s1) (lastGeneration s1) c = None" by (simp add: publish_check_def s1_def rt c g)
  then have "bridge_step s1 (s1\<lparr>candidates := (candidates s1)(0 := None), holder := L_Checked c\<rparr>)"
    by (rule publish_lock [rotated 2]) (simp_all add: s1_def rt)
  note s2 = bridge_run [OF s1 this]
  note s3 = bridge_run [OF s2 publish_ready [of _ c]]
  note s4 = bridge_run [OF s3 publish_store [of _ c]]
  note s5 = bridge_run [OF s4 publish_diff [of _ None c]]
  show thesis by (rule that [OF s5, of c]) (simp_all add: s1_def rt c g)
qed

definition example_request :: ActionRequest where
  "example_request = blank_request\<lparr>requestNode := 3, requestAction := AK_Focus\<rparr>"

lemma example_submission:
  assumes "bridge_reachable example_limits 0 s" "snapshot (runtime s) = Some c" "publishedView c = example_view"
    "publishedIndex c = node_index (snapshotNodes example_view)" "live (runtime s)" "hostEnabled (runtime s)" "runtimeLimits (runtime s) = example_limits"
    "commitAction c example_request (runtime s) = (\<lparr>acceptance = AA_Accepted, resultRequestId = n, resultGeneration = 1\<rparr>, rt)"
  shows "bridge_reachable example_limits 0 (s\<lparr>runtime := rt, submitted := (submitted s)(0 := None),
    accepted := accepted s @ [example_request\<lparr>observedGeneration := 1, requestId := n\<rparr>]\<rparr>)"
proof -
  let ?node = "snapshotNodes example_view ! 2"
  have index: "node_index (snapshotNodes example_view) = [(1, 0), (2, 1), (3, 2)]"
    "lower_bound_by (\<lambda>item. fst item < (3 :: NodeId)) [(1, 0), (2, 1), (3, 2 :: nat)] = 2" "length (snapshotNodes example_view) = 3" by code_simp+
  have f: "findNode c 3 = Some ?node"
    using index assms(3,4) by (simp add: findNode_def findIndex_def Let_def)
  have n: "nodeActions ?node = 3" "\<not> has_state ?node S_Disabled" by code_simp+
  have "checkAction (runtime s) example_request = Inr c"
    using assms(2,5-7) f n by (simp add: checkAction_def example_request_def blank_request_def double_finite_def actions_contain_def action_count_def
      example_limits_def example_texts)
  note s1 = bridge_run [OF assms(1) submit_check [OF this, of 0]]
  have "commitAction c example_request (runtime (s\<lparr>submitted := (submitted s)(0 := Some (c, example_request))\<rparr>)) =
      (\<lparr>acceptance = AA_Accepted, resultRequestId = n, resultGeneration = 1\<rparr>, rt)" using assms(8) by simp
  note s2 = bridge_run [OF s1 submit_commit [OF _ this, of 0]]
  then show ?thesis by simp
qed

text \<open>The capacity of the action queue is fixed when the activation is enabled.\<close>

lemma commitAction_capacity: "commitAction p r rt = (result, rt') \<Longrightarrow> length (ringSlots (actions rt')) = length (ringSlots (actions rt))"
  by (auto simp: commitAction_def enqueueAction_def ring_push_def ring_put_def Let_def split: if_splits)

lemma step_capacity: "bridge_step s s' \<Longrightarrow> length (ringSlots (actions (runtime s'))) = length (ringSlots (actions (runtime s)))"
proof (induction rule: bridge_step.induct)
  case (submit_commit s t p r result rt)
  then show ?case using commitAction_capacity [OF submit_commit.hyps(2)] by simp
next
  case (pop_action s r rt)
  then show ?case by (auto simp: popAction_def ring_pop_def Let_def split: if_splits)
qed (simp_all add: clearActions_def ring_clear_def)

lemma reachable_capacity: "bridge_reachable limits g s \<Longrightarrow> length (ringSlots (actions (runtime s))) = maximumActionQueue limits"
  by (induction rule: bridge_reachable.induct) (simp_all add: step_capacity enabled_system_def newRuntime_def ring_new_def)

text \<open>
  C16: The action queue loses nothing but what it may coalesce. In every reachable state of an activation the requests delivered to the application, those
  still queued and those dropped by closing are, in this order, a subsequence of the accepted ones; every accepted request of a kind that must
  not be coalesced is among them exactly once; the most recent accepted request is never lost; the accepted requests have ascending non-zero
  identities, and the queue never exceeds its capacity.
\<close>

theorem action_queue_history:
  assumes "bridge_reachable limits g s"
  defines "kept \<equiv> delivered s @ ring_list (actions (runtime s)) @ dropped s"
  shows "subseq kept (accepted s) \<and>
    filter (\<lambda>r. \<not> coalescible (requestAction r)) kept = filter (\<lambda>r. \<not> coalescible (requestAction r)) (accepted s) \<and>
    (accepted s \<noteq> [] \<longrightarrow> kept \<noteq> [] \<and> last kept = last (accepted s)) \<and>
    sorted_wrt (<) (map requestId (accepted s)) \<and> 0 \<notin> set (map requestId (accepted s)) \<and>
    length (ring_list (actions (runtime s))) \<le> maximumActionQueue limits"
proof -
  have inv: "queue_inv s" "runtime_ok (runtime s)" using reachable_inv [OF assms(1)] by blast+
  have t: "thins (accepted s) kept" using inv(1) by (simp add: queue_inv_def kept_def)
  have "ring_ok (actions (runtime s))" using inv(2) by (simp add: runtime_ok_def)
  then have "length (ring_list (actions (runtime s))) \<le> maximumActionQueue limits"
    using reachable_capacity [OF assms(1)] by (auto simp: ring_list_def ring_ok_def)
  moreover have "sorted_wrt (<) (map requestId (accepted s)) \<and> 0 \<notin> set (map requestId (accepted s))" using inv(1) by (auto simp: queue_inv_def)
  ultimately show ?thesis using thins_subseq [OF t] thins_durable [OF t] thins_last [OF t] by blast
qed

text \<open>Two focus requests on the example: the second replaces the first in the queue.\<close>

lemma example_coalesced:
  obtains s r r' where "bridge_reachable example_limits 0 s" "accepted s = [r, r']" "delivered s = []" "ring_list (actions (runtime s)) = [r']"
    "dropped s = []" "requestId r = 1" "requestId r' = 2"
proof (rule example_activation)
  fix s c
  assume s: "bridge_reachable example_limits 0 s" "snapshot (runtime s) = Some c" "publishedView c = example_view"
    "publishedIndex c = node_index (snapshotNodes example_view)" "live (runtime s)" "hostEnabled (runtime s)" "runtimeLimits (runtime s) = example_limits"
    and q: "accepted s = []" "delivered s = []" "dropped s = []" "actions (runtime s) = ring_new blank_request 8" "nextRequest (runtime s) = 1"
  define r where "r k = example_request\<lparr>observedGeneration := 1, requestId := k\<rparr>" for k
  define a where "a = ring_push (r 1) (ring_new blank_request 8)"
  define rt where "rt = (runtime s)\<lparr>nextRequest := 2, actions := a\<rparr>"
  have g: "generation example_view = 1" by (simp add: example_view_def)
  have ex: "observedGeneration example_request = 0" "requestAction example_request = AK_Focus" "same_target (r k) (r j)" "coalescible AK_Focus" for k j
    by (simp_all add: example_request_def blank_request_def same_target_def coalescible_def r_def)
  have a: "ringCount a = 1" "ring_get a 0 = r 1" "ring_list (ring_put 0 (r 2) a) = [r 2]"
    by (simp_all add: a_def ring_push_def ring_put_def ring_new_def ring_get_def ring_index_def ring_list_def)
  have c1: "commitAction c example_request (runtime s) = (\<lparr>acceptance = AA_Accepted, resultRequestId = 1, resultGeneration = 1\<rparr>, rt)"
    using s(3,5) q(4,5) g ex
    by (simp add: commitAction_def enqueueAction_def rt_def a_def r_def ring_full_def ring_new_def Let_def)
  note s1 = example_submission [OF s c1]
  have c2: "commitAction c example_request rt = (\<lparr>acceptance = AA_Accepted, resultRequestId = 2, resultGeneration = 1\<rparr>,
      rt\<lparr>nextRequest := 3, actions := ring_put 0 (r 2) a\<rparr>)"
    using s(3,5) g ex(1,2,4) ex(3) [of 1 2] by (simp add: commitAction_def enqueueAction_def rt_def a r_def Let_def)
  note s2 = example_submission [OF s1]
  show thesis by (rule that [OF s2 [of c 2 "rt\<lparr>nextRequest := 3, actions := ring_put 0 (r 2) a\<rparr>"], of "r 1" "r 2"])
    (use s q c2 a in \<open>simp_all add: rt_def r_def\<close>)
qed

theorem action_queue_history_witness:
  "\<exists>s. bridge_reachable example_limits 0 s \<and> length (accepted s) = 2 \<and> ring_list (actions (runtime s)) = [last (accepted s)] \<and>
    sorted_wrt (<) (map requestId (accepted s))"
proof (rule example_coalesced)
  fix s r r'
  assume "bridge_reachable example_limits 0 s" "accepted s = [r, r']" "ring_list (actions (runtime s)) = [r']"
  moreover from this(1) have "sorted_wrt (<) (map requestId (accepted s))" using action_queue_history by blast
  ultimately show ?thesis by (intro exI [of _ s] conjI) simp_all
qed

text \<open>
  Publication only moves forward. In every reachable state the generations published so far ascend strictly from the one the activation
  started after, and a snapshot that can be read is the last one published.
\<close>

theorem published_monotone:
  assumes "bridge_reachable limits g s"
  shows "sorted_wrt (<) (g # published s) \<and>
    (\<forall>c. snapshot (runtime s) = Some c \<longrightarrow> published s \<noteq> [] \<and> generation (publishedView c) = last (published s))"
  using reachable_inv [OF assms] by (auto simp: generation_inv_def)

theorem published_monotone_witness: "\<exists>s c. bridge_reachable example_limits 0 s \<and> snapshot (runtime s) = Some c \<and> publishedView c = example_view \<and> generation example_view = last (published s)"
proof -
  obtain s c where "bridge_reachable example_limits 0 s" "snapshot (runtime s) = Some c" "publishedView c = example_view"
    by (rule example_activation)
  moreover from this have "generation example_view = last (published s)" using published_monotone [of example_limits 0 s] by auto
  ultimately show ?thesis by blast
qed

text \<open>
  One marker stands for an overflow. In every reachable state the notification queue holds exactly one whole-tree invalidation while an
  invalidation is pending, and none otherwise, and its ring is well-formed; so a drain that reaches the marker re-enables precise notifications.
\<close>

theorem single_marker:
  assumes "bridge_reachable limits g s"
  shows "ring_ok (notifications (runtime s)) \<and>
    length (filter is_marker (ring_list (notifications (runtime s)))) = (if invalidationPending (runtime s) then 1 else 0)"
  using reachable_inv [OF assms] by (simp add: runtime_ok_def)

text \<open>Closing the example, after which a submission and an announcement that were under way change nothing.\<close>

lemma example_closed:
  obtains s where "bridge_reachable example_limits 0 s" "closed s" "published s = [1]"
proof (rule example_activation)
  fix s assume s: "bridge_reachable example_limits 0 s" "live (runtime s)" "published s = [1]" "holder s = L_Free"
  note s1 = bridge_run [OF s(1) close_gate [OF s(2)]]
  note s2 = bridge_run [OF s1 close_snapshot]
  note s3 = bridge_run [OF s2 close_actions]
  note s4 = bridge_run [OF s3 close_notifications]
  show thesis by (rule that [OF s4]) (simp_all add: s)
qed

theorem close_is_final_witness:
  "\<exists>s s'. bridge_reachable example_limits 0 s \<and> closed s \<and> s' = s\<lparr>runtime := invalidateHost True (runtime s)\<rparr> \<and> snapshot (runtime s') = None \<and> published s' = [1]"
proof (rule example_closed)
  fix s assume s: "bridge_reachable example_limits 0 s" "closed s" "published s = [1]"
  have "bridge_step\<^sup>*\<^sup>* s (s\<lparr>runtime := invalidateHost True (runtime s)\<rparr>)" using host_changed [of s True] by blast
  from close_is_final [OF s(1,2) this] s show ?thesis by (intro exI [of _ s] exI [of _ "s\<lparr>runtime := invalidateHost True (runtime s)\<rparr>"]) simp
qed

theorem single_marker_witness:
  "\<exists>s. bridge_reachable example_limits 0 s \<and> invalidationPending (runtime s) \<and> length (filter is_marker (ring_list (notifications (runtime s)))) = 1"
proof -
  define s0 where "s0 = enabled_system example_limits 0 0"
  obtain s c where s: "bridge_reachable example_limits 0 s" "snapshot (runtime s) = Some c" "live (runtime s)" by (rule example_activation)
  define s' where "s' = s\<lparr>runtime := invalidateHost False (runtime s)\<rparr>"
  have r: "bridge_reachable example_limits 0 s'" unfolding s'_def by (rule bridge_run [OF s(1) host_changed])
  have "invalidationPending (runtime s')"
  proof (cases "invalidationPending (runtime s)")
    case True
    have "invalidationPending (refresh_marker f (runtime s)) = invalidationPending (runtime s)" for f
      by (simp add: refresh_marker_def Let_def split: option.split)
    with True s show ?thesis by (simp add: s'_def invalidateHost_def Let_def)
  next
    case False
    with s show ?thesis by (simp add: s'_def invalidateHost_def Let_def)
  qed
  with r single_marker [OF r] show ?thesis by auto
qed

text \<open>
  C38: Publication is atomic. A call that nothing interrupts always returns; when it fails the runtime and the last generation are
  unchanged, and it fails when the activation is not live, the snapshot is rejected by the validation, its generation is not newer than
  the last one, its root differs from the root in place, memory runs out or the platform refuses; in all other cases it succeeds, the new tree
  is in place, and its generation is the last one.
\<close>

theorem publish_atomic:
  "\<exists>status rt' g'. publish allocated prepared v rt g = Some (status, rt', g') \<and>
    (if live rt \<and> validate v (runtimeLimits rt) \<noteq> None \<and> ok (validationStatus (the (validate v (runtimeLimits rt)))) \<and> allocated \<and> ok prepared \<and>
        g < generation v \<and> (case snapshot rt of None \<Rightarrow> True | Some b \<Rightarrow> snapshotRoot (publishedView b) = snapshotRoot v)
     then ok status \<and> g' = generation v \<and> (\<exists>c. publish_candidate v = Some c \<and> publishedView c = v \<and> snapshot rt' = Some c) \<and> actions rt' = actions rt
     else \<not> ok status \<and> rt' = rt \<and> g' = g)"
proof -
  obtain res where res: "validate v (runtimeLimits rt) = Some res"
    by (rule validate_phases [of v "runtimeLimits rt"]) (blast, use shape_checked in metis)
  show ?thesis
  proof (cases "live rt \<and> ok (validationStatus res) \<and> allocated")
    case False
    then show ?thesis using res by (auto simp: publish_def ok_def makeStatus_def)
  next
    case True
    obtain c where c: "publish_candidate v = Some c" "publishedView c = v" using candidate_exists [OF res] True by blast
    then show ?thesis using True res
      by (auto simp: publish_def publish_check_def ok_def makeStatus_def successStatus_def split: option.split)
  qed
qed

text \<open>Without interference the four closing steps are \<open>closeAccessibility\<close>.\<close>

lemma close_steps:
  assumes "live (runtime s)" "holder s = L_Free"
  shows "\<exists>s'. bridge_step\<^sup>*\<^sup>* s s' \<and> closed s' \<and> runtime s' = closeAccessibility (runtime s) \<and> dropped s' = ring_list (actions (runtime s))"
proof -
  have step: "bridge_step\<^sup>*\<^sup>* s x \<Longrightarrow> bridge_step x y \<Longrightarrow> bridge_step\<^sup>*\<^sup>* s y" for x y by (rule rtranclp.rtrancl_into_rtrancl)
  note s1 = step [OF rtranclp.rtrancl_refl close_gate [OF assms(1)]]
  note s2 = step [OF s1 close_snapshot]
  note s3 = step [OF s2 close_actions]
  note s4 = step [OF s3 close_notifications]
  show ?thesis by (rule exI, rule conjI, rule s4) (use assms in \<open>simp_all add: closeAccessibility_def clearActions_def\<close>)
qed

end
