(* ===== verification/Accessibility_Changes.thy ===== *)
theory Accessibility_Changes
  imports Accessibility_Bridge
begin

text \<open>
  Completeness of the comparison of two snapshots (\<open>queueDiff\<close>): a node that a client can tell apart from the one it replaces is
  never replaced silently. What a client sees of a node is everything but its extensions, which only readers inside the process inspect and which
  the comparison does not look at, and the sign of a zero.
\<close>

section \<open>What a client sees\<close>

definition plain_double :: "float64 \<Rightarrow> float64" where
  "plain_double d = DFin (double_rank d)"

definition plain_rect :: "Rect \<Rightarrow> Rect" where
  "plain_rect r = \<lparr>rectX = plain_double (rectX r), rectY = plain_double (rectY r), rectWidth = plain_double (rectWidth r),
     rectHeight = plain_double (rectHeight r)\<rparr>"

definition plain_transform :: "AffineTransform \<Rightarrow> AffineTransform" where
  "plain_transform t = \<lparr>m11 = plain_double (m11 t), m12 = plain_double (m12 t), m21 = plain_double (m21 t), m22 = plain_double (m22 t),
     tx = plain_double (tx t), ty = plain_double (ty t)\<rparr>"

definition plain_geometry :: "Geometry \<Rightarrow> Geometry" where
  "plain_geometry g = g\<lparr>localBounds := plain_rect (localBounds g), toWindow := plain_transform (toWindow g),
     clippingBounds := map_option plain_rect (clippingBounds g)\<rparr>"

definition plain_range :: "RangeValue \<Rightarrow> RangeValue" where
  "plain_range r = \<lparr>rangeCurrent = plain_double (rangeCurrent r), rangeMinimum = plain_double (rangeMinimum r),
     rangeMaximum = plain_double (rangeMaximum r), smallChange = plain_double (smallChange r), largeChange = plain_double (largeChange r)\<rparr>"

definition plain_scroll :: "ScrollInfo \<Rightarrow> ScrollInfo" where
  "plain_scroll s = s\<lparr>horizontalPercent := plain_double (horizontalPercent s), verticalPercent := plain_double (verticalPercent s),
     horizontalViewSize := plain_double (horizontalViewSize s), verticalViewSize := plain_double (verticalViewSize s)\<rparr>"

definition plain_text :: "TextContent \<Rightarrow> TextContent" where
  "plain_text c = c\<lparr>contentFragments := map (\<lambda>f. f\<lparr>fragmentBounds := plain_rect (fragmentBounds f)\<rparr>) (contentFragments c)\<rparr>"

definition visible_node :: "Node \<Rightarrow> Node" where
  "visible_node node = node\<lparr>nodeExtensions := [], nodeGeometry := map_option plain_geometry (nodeGeometry node),
     nodeRange := map_option plain_range (nodeRange node), nodeScroll := map_option plain_scroll (nodeScroll node),
     nodeText := map_option plain_text (nodeText node)\<rparr>"

section \<open>Equal parts\<close>

lemma equal_doubles: "double_eq a b \<Longrightarrow> plain_double a = plain_double b"
  by (simp add: double_eq_def plain_double_def)

lemma optional_map: "optionalEqual equal a b \<Longrightarrow> (\<And>x y. a = Some x \<Longrightarrow> b = Some y \<Longrightarrow> equal x y \<Longrightarrow> f x = f y) \<Longrightarrow> map_option f a = map_option f b"
  by (cases a; cases b) (simp_all add: optionalEqual_def)

lemma equal_rects: "rectEqual a b \<Longrightarrow> plain_rect a = plain_rect b"
  by (simp add: rectEqual_def plain_rect_def equal_doubles)

lemma equal_geometries: "geometryEqual a b \<Longrightarrow> plain_geometry a = plain_geometry b"
proof -
  assume e: "geometryEqual a b"
  then have "map_option plain_rect (clippingBounds a) = map_option plain_rect (clippingBounds b)"
    by (intro optional_map [of rectEqual]) (simp_all add: geometryEqual_def equal_rects)
  with e show ?thesis
    by (cases a, cases b) (simp add: geometryEqual_def transformEqual_def plain_geometry_def plain_transform_def equal_rects equal_doubles)
qed

lemma equal_ranges: "rangeLimitsEqual a b \<Longrightarrow> double_eq (rangeCurrent a) (rangeCurrent b) \<Longrightarrow> plain_range a = plain_range b"
  by (simp add: rangeLimitsEqual_def plain_range_def equal_doubles)

lemma equal_scrolls: "scrollEqual a b \<Longrightarrow> plain_scroll a = plain_scroll b"
  by (cases a, cases b) (simp add: scrollEqual_def plain_scroll_def equal_doubles)

lemma equal_fragments:
  fixes xs ys :: "TextFragment list"
  shows "list_all2 (\<lambda>x y. fragmentRange x = fragmentRange y \<and> rectEqual (fragmentBounds x) (fragmentBounds y)) xs ys \<Longrightarrow>
    map (\<lambda>f. f\<lparr>fragmentBounds := plain_rect (fragmentBounds f)\<rparr>) xs = map (\<lambda>f. f\<lparr>fragmentBounds := plain_rect (fragmentBounds f)\<rparr>) ys"
proof (induction rule: list_all2_induct)
  case (Cons x xs y ys)
  then show ?case using equal_rects [of "fragmentBounds x" "fragmentBounds y"] by (cases x, cases y) simp
qed simp

lemma equal_texts: "textMetadataEqual a b \<Longrightarrow> contentUtf8 a = contentUtf8 b \<Longrightarrow> contentSelection a = contentSelection b \<Longrightarrow> plain_text a = plain_text b"
  using equal_fragments [of "contentFragments a" "contentFragments b"] by (cases a, cases b) (simp add: textMetadataEqual_def plain_text_def)

lemma unchanged_node:
  assumes "node_changes node old = []" "\<not> structure_changed node old" "nodeId node = nodeId old"
  shows "visible_node node = visible_node old"
proof -
  have c: "nodeName node = nodeName old" "nodeDescription node = nodeDescription old" "\<not> value_changed node old"
    "optionalEqual rangeLimitsEqual (nodeRange node) (nodeRange old)" "optionalEqual scrollEqual (nodeScroll node) (nodeScroll old)"
    "nodeStates node = nodeStates old" "\<not> selection_changed node old" "\<not> text_changed node old" "\<not> text_selection_changed node old"
    "optionalEqual geometryEqual (nodeGeometry node) (nodeGeometry old)" "nodeExposure node = nodeExposure old" "\<not> metadata_changed node old"
    using assms(1) by (simp_all add: node_changes_def split: if_splits)
  have "map_option plain_range (nodeRange node) = map_option plain_range (nodeRange old)"
    using c(3,4) by (intro optional_map [of rangeLimitsEqual] equal_ranges) (auto simp: value_changed_def)
  moreover have "map_option plain_text (nodeText node) = map_option plain_text (nodeText old)"
    using c(8,9,12) by (intro optional_map [of textMetadataEqual] equal_texts)
      (auto simp: metadata_changed_def text_changed_def text_selection_changed_def optionalEqual_def)
  moreover have "map_option plain_geometry (nodeGeometry node) = map_option plain_geometry (nodeGeometry old)"
    "map_option plain_scroll (nodeScroll node) = map_option plain_scroll (nodeScroll old)"
    using c(5,10) equal_geometries equal_scrolls by (metis optional_map)+
  moreover have "nodeSelection node = nodeSelection old"
    using c(7,12) by (cases "nodeSelection node"; cases "nodeSelection old")
      (auto simp: selection_changed_def metadata_changed_def optionalEqual_def intro: SelectionInfo.equality)
  ultimately show ?thesis using c(1,2,3,6,11,12) assms(2,3)
    by (cases node, cases old) (simp add: visible_node_def value_changed_def metadata_changed_def structure_changed_def)
qed

section \<open>No silent change\<close>

lemma candidate_nodes:
  assumes "validate v limits = Some res" "ok (validationStatus res)"
  obtains s where "publish_candidate v = Some s" "publishedView s = v" "distinct (map nodeId (snapshotNodes v))"
    "\<And>k node. findNode s k = Some node \<longleftrightarrow> node \<in> set (snapshotNodes v) \<and> nodeId node = k"
proof -
  obtain s where s: "publish_candidate v = Some s" "publishedView s = v" "publishedIndex s = node_index (snapshotNodes v)"
    using candidate_exists [OF assms] by metis
  obtain st where c: "checked v limits st" using accepted [OF assms] by metis
  show thesis using that s checked_index(1) [OF c] findNode_correct [of s] by simp
qed

lemma unchanged_snapshot:
  assumes "snapshot_changes before after = []"
    "\<And>k node. findNode before k = Some node \<longleftrightarrow> node \<in> set (snapshotNodes (publishedView before)) \<and> nodeId node = k"
    "distinct (map nodeId (snapshotNodes (publishedView before)))" "distinct (map nodeId (snapshotNodes (publishedView after)))"
  shows "visible_node ` set (snapshotNodes (publishedView after)) = visible_node ` set (snapshotNodes (publishedView before))"
proof -
  let ?old = "snapshotNodes (publishedView before)" and ?new = "snapshotNodes (publishedView after)"
  have same: "\<not> structure_differs before after" and nodes: "\<And>node old. node \<in> set ?new \<Longrightarrow> findNode before (nodeId node) = Some old \<Longrightarrow> node_changes node old = []"
    using assms(1) by (auto simp: snapshot_changes_def split: if_splits)
  have "\<exists>old \<in> set ?old. visible_node node = visible_node old" if n: "node \<in> set ?new" for node
  proof -
    obtain old where old: "findNode before (nodeId node) = Some old" "\<not> structure_changed node old"
      using same n by (auto simp: structure_differs_def list_ex_iff split: option.splits)
    then show ?thesis using nodes [OF n old(1)] assms(2) unchanged_node [of node old] by auto
  qed
  then have "visible_node ` set ?new \<subseteq> visible_node ` set ?old" by auto
  moreover have "card (visible_node ` set ns) = length ns" if "distinct (map nodeId ns)" for ns
  proof -
    have "nodeId (visible_node node) = nodeId node" for node by (simp add: visible_node_def)
    then have "inj_on visible_node (set ns)" using that by (metis distinct_map inj_on_def)
    then show ?thesis using that by (simp add: card_image distinct_card distinct_map)
  qed
  moreover have "length ?old = length ?new" using same by (simp add: structure_differs_def)
  ultimately show ?thesis using assms(3,4) by (intro card_subset_eq) simp_all
qed

lemma push_change_pending:
  "\<not> invalidationPending rt \<or> ringCount (notifications rt) \<noteq> 0 \<Longrightarrow> ringCount (notifications (push_change b a c rt)) \<noteq> 0"
  by (auto simp: push_change_def invalidate_queue_def ring_push_def ring_put_def split: prod.split)

lemma fold_push_pending: "ringCount (notifications rt) \<noteq> 0 \<Longrightarrow> ringCount (notifications (fold (push_change b a) cs rt)) \<noteq> 0"
proof (induction cs arbitrary: rt)
  case (Cons c cs)
  then show ?case using push_change_pending [of rt b a c] by simp
qed simp

text \<open>
  C18: A change is never silent. When an accepted snapshot replaces another and some node that a client can see is added, removed or different in
  any part but its extensions, the comparison leaves at least one notification in the queue for the owner thread to deliver, whatever
  the queue held before.
\<close>

theorem no_silent_change:
  assumes "validate v limits = Some res" "ok (validationStatus res)" "publish_candidate v = Some before"
    "validate w limits = Some res'" "ok (validationStatus res')" "publish_candidate w = Some after"
    "visible_node ` set (snapshotNodes w) \<noteq> visible_node ` set (snapshotNodes v)" "runtime_ok rt"
  shows "ring_list (notifications (queueDiff (Some before) after rt)) \<noteq> []"
proof (cases "invalidationPending rt")
  case True
  then have "invalidationPending (queueDiff (Some before) after rt)" by (simp add: queueDiff_def Let_def split: option.split)
  then show ?thesis using queueDiff_ok [OF assms(8), of "Some before" after] by (auto simp: runtime_ok_def)
next
  case False
  obtain b where b: "publish_candidate v = Some b" "publishedView b = v" "distinct (map nodeId (snapshotNodes v))"
    "\<And>k node. findNode b k = Some node \<longleftrightarrow> node \<in> set (snapshotNodes v) \<and> nodeId node = k" by (rule candidate_nodes [OF assms(1,2)], rule that)
  obtain a where a: "publish_candidate w = Some a" "publishedView a = w" "distinct (map nodeId (snapshotNodes w))"
    by (rule candidate_nodes [OF assms(4,5)])
  have e: "b = before" "a = after" using assms(3,6) a(1) b(1) by simp_all
  have "snapshot_changes before after \<noteq> []" using unchanged_snapshot [of b a] a b assms(7) unfolding e by auto
  then obtain c cs where c: "snapshot_changes before after = c # cs" by (cases "snapshot_changes before after") auto
  have "ringCount (notifications (push_change (Some before) after c rt)) \<noteq> 0"
    using False push_change_pending by blast
  then have "ringCount (notifications (queueDiff (Some before) after rt)) \<noteq> 0" using False c fold_push_pending by (simp add: queueDiff_def)
  then show ?thesis by (metis ring_length list.size(3))
qed

text \<open>The example loses its options.\<close>

definition single_view :: SnapshotView where
  "single_view = \<lparr>generation = 2, snapshotRoot = 1, snapshotNodes = [example_node 1 0 R_List []]\<rparr>"

lemma single_valid: "validate single_view example_limits = Some valid_result"
proof -
  let ?nodes = "snapshotNodes single_view" and ?s = "\<lparr>totalBytes = 0, nodeBytes = 0, extensionValues = 0, incoming = [0], focusedCount = 0\<rparr>"
  let ?t = "\<lparr>traversalOrder = [0], ordinalOf = [0], gridOf = [1]\<rparr>"
  let ?locate = "find_node (node_index ?nodes)"
  have f: "first_zero ?nodes 0 = None" "first_duplicate (node_index ?nodes) = None" "length ?nodes = 1" "snapshotRoot single_view = 1"
    "nodeParent (?nodes ! 0) = 0" "generation single_view = 2" "?locate 1 = 0" "start_validation 1 = ?s" "nodeChildren (?nodes ! 0) = []" by code_simp+
  have node: "check_node example_limits ?nodes locate 0 0 ?s = Inr ?s" for locate
    by (simp add: check_node_def check_states_def check_strings_def check_children_def check_values_def check_text_def check_selection_def
      and_then_def require_def when_some_def budgeted_def budget_string_def check_child_def node_strings_def states_contain_def example_texts
      single_view_def example_node_def default_node_def example_limits_def Let_def)
  have incoming: "check_incoming single_view 0 ?s = Inr ?s" by (simp add: check_incoming_def and_then_def require_def f(3) upt_rec)
  have "search_loop (\<lambda>i. map ?locate (nodeChildren (?nodes ! i))) [0] 0 (replicate 1 False) = Some (Inr [0])"
    by (simp add: search_loop.simps [of _ "[0]"] f(9) Let_def)
  moreover have "traverse_loop ?nodes ?locate [0] (start_traversal 1) = Some ?t"
    by (simp add: traverse_loop.simps [of _ _ "[]"] traverse_loop.simps [of _ _ "_ # _"] visit_def start_traversal_def is_grid_def
      single_view_def example_node_def default_node_def Let_def)
  moreover have "subtree_sizes ?nodes ?locate [0] = [1]" by (simp add: subtree_sizes_def f Let_def)
  moreover have "check_containment ?nodes ?locate ?t [1] 0 = Inr"
    by (auto simp: check_containment_def and_then_def require_def when_some_def single_view_def example_node_def default_node_def Let_def)
  ultimately have "check_shape ?nodes ?locate 0 ?s = Some valid_result" by (simp add: check_shape_def f(3) Let_def and_then_def)
  moreover have "maximumNodes example_limits = 8" "?nodes \<noteq> []" by (simp_all add: example_limits_def single_view_def)
  ultimately show ?thesis using node incoming unfolding validate_def Let_def f by (simp add: example_limits_valid f and_then_def upt_rec)
qed

theorem no_silent_change_witness:
  "\<exists>before after. publish_candidate example_view = Some before \<and> publish_candidate single_view = Some after \<and>
    ring_list (notifications (queueDiff (Some before) after (newRuntime example_limits 0))) \<noteq> []"
proof -
  obtain b where b: "publish_candidate example_view = Some b" using candidate_exists [OF example_valid valid_result_ok] by metis
  obtain a where a: "publish_candidate single_view = Some a" using candidate_exists [OF single_valid valid_result_ok] by metis
  have "nodeId ` visible_node ` set (snapshotNodes single_view) = {1}" "2 \<in> nodeId ` visible_node ` set (snapshotNodes example_view)"
    by (simp_all add: visible_node_def single_view_def example_view_def example_node_def)
  moreover have "(2 :: NodeId) \<noteq> 1" by simp
  ultimately have "visible_node ` set (snapshotNodes single_view) \<noteq> visible_node ` set (snapshotNodes example_view)" by (metis singletonD)
  from no_silent_change [OF example_valid valid_result_ok b single_valid valid_result_ok a this newRuntime_ok [OF example_limits_valid]] a b
  show ?thesis by blast
qed

end
