(* ===== verification/Accessibility_Geometry.thy ===== *)
theory Accessibility_Geometry
  imports Accessibility_Bridge
begin

unbundle bit_operations_syntax

text \<open>
  The geometry of the host window, which the owner thread publishes and native clients read without a lock
  (\<^verbatim>\<open>publishGeometry\<close> and \<^verbatim>\<open>readGeometry\<close> of \<^verbatim>\<open>engine/desktop/core/accessibility.cpp\<close>). Every access is a sequentially
  consistent atomic, so an execution is an interleaving of single loads and stores; a read is one state machine per thread.
\<close>

section \<open>Shared memory\<close>

record AccessibilityHostGeometry =
  hostX :: float64
  hostY :: float64
  hostWidth :: float64
  hostHeight :: float64
  hostScaleX :: float64
  hostScaleY :: float64
  hostVisible :: bool
  hostFocused :: bool

definition default_geometry :: AccessibilityHostGeometry where
  "default_geometry = \<lparr>hostX = DFin 0, hostY = DFin 0, hostWidth = DFin 0, hostHeight = DFin 0, hostScaleX = DFin (2 ^ 1074), hostScaleY = DFin (2 ^ 1074),
     hostVisible = False, hostFocused = False\<rparr>"

text \<open>The fields in the order in which they are stored and loaded.\<close>

definition geometry_fields :: "(AccessibilityHostGeometry \<Rightarrow> AccessibilityHostGeometry \<Rightarrow> AccessibilityHostGeometry) list" where
  "geometry_fields =
    [\<lambda>from to. to\<lparr>hostX := hostX from\<rparr>, \<lambda>from to. to\<lparr>hostY := hostY from\<rparr>, \<lambda>from to. to\<lparr>hostWidth := hostWidth from\<rparr>,
     \<lambda>from to. to\<lparr>hostHeight := hostHeight from\<rparr>, \<lambda>from to. to\<lparr>hostScaleX := hostScaleX from\<rparr>, \<lambda>from to. to\<lparr>hostScaleY := hostScaleY from\<rparr>,
     \<lambda>from to. to\<lparr>hostVisible := hostVisible from\<rparr>, \<lambda>from to. to\<lparr>hostFocused := hostFocused from\<rparr>]"

definition copy_field :: "nat \<Rightarrow> AccessibilityHostGeometry \<Rightarrow> AccessibilityHostGeometry \<Rightarrow> AccessibilityHostGeometry" where
  "copy_field k from to = (geometry_fields ! k) from to"

record SharedGeometry =
  geometrySequence :: "64 word"
  geometryCells :: AccessibilityHostGeometry

definition newGeometry :: SharedGeometry where
  "newGeometry = \<lparr>geometrySequence = 0, geometryCells = default_geometry\<rparr>"

section \<open>One publication, step by step\<close>

text \<open>A publication under way carries the number of fields it has stored.\<close>

definition begin_write :: "SharedGeometry \<Rightarrow> SharedGeometry" where
  "begin_write mem = mem\<lparr>geometrySequence := geometrySequence mem + 1\<rparr>"

definition store_field :: "AccessibilityHostGeometry \<Rightarrow> nat \<Rightarrow> SharedGeometry \<Rightarrow> SharedGeometry" where
  "store_field g k mem = mem\<lparr>geometryCells := copy_field k g (geometryCells mem)\<rparr>"

definition end_write :: "SharedGeometry \<Rightarrow> SharedGeometry" where
  "end_write mem = mem\<lparr>geometrySequence := geometrySequence mem + 1\<rparr>"

definition publishGeometry :: "AccessibilityHostGeometry \<Rightarrow> SharedGeometry \<Rightarrow> SharedGeometry" where
  "publishGeometry g mem = end_write (fold (store_field g) [0..<8] (begin_write mem))"

section \<open>One read, step by step\<close>

text \<open>
  A read is before an attempt, in an attempt (with the sequence loaded first, the number of fields loaded, and the temporary that
  receives them), or it has returned. All states carry what the caller's object holds.
\<close>

datatype GeometryRead = R_Attempt nat AccessibilityHostGeometry
  | R_Loading nat "64 word" nat AccessibilityHostGeometry AccessibilityHostGeometry
  | R_Returned bool AccessibilityHostGeometry

fun read_step :: "SharedGeometry \<Rightarrow> GeometryRead \<Rightarrow> GeometryRead" where
  "read_step mem (R_Attempt a out) =
    (if a < 8
     then (if geometrySequence mem AND 1 \<noteq> 0 then R_Attempt (a + 1) out else R_Loading a (geometrySequence mem) 0 default_geometry out)
     else R_Returned False out)"
| "read_step mem (R_Loading a sequence k t out) =
    (if k < 8 then R_Loading a sequence (k + 1) (copy_field k (geometryCells mem) t) out
     else if sequence = geometrySequence mem then R_Returned True t
     else R_Attempt (a + 1) t)"
| "read_step mem (R_Returned b out) = R_Returned b out"

text \<open>A read during which nobody writes: 81 steps always suffice (\<open>read_finishes\<close> below).\<close>

definition readGeometry :: "SharedGeometry \<Rightarrow> AccessibilityHostGeometry \<Rightarrow> bool \<times> AccessibilityHostGeometry" where
  "readGeometry mem out = (case (read_step mem ^^ 81) (R_Attempt 0 out) of R_Returned b g \<Rightarrow> (b, g) | _ \<Rightarrow> (False, out))"

section \<open>The owner thread's publication\<close>

text \<open>What the publication reads of the window state; the content scale has been converted to double, which is exact.\<close>

datatype PresentationState = PS_Normal | PS_Minimized | PS_Maximized

record HostWindow =
  clientPositionX :: "32 word"
  clientPositionY :: "32 word"
  clientWidth :: "32 word"
  clientHeight :: "32 word"
  contentScaleX :: float64
  contentScaleY :: float64
  presentation :: PresentationState
  windowVisible :: bool
  windowFocused :: bool

definition double_of_int :: "int \<Rightarrow> float64" where
  "double_of_int n = DFin (n * 2 ^ 1074)"

definition host_geometry :: "HostWindow \<Rightarrow> AccessibilityHostGeometry" where
  "host_geometry w = \<lparr>hostX = double_of_int (sint (clientPositionX w)), hostY = double_of_int (sint (clientPositionY w)),
     hostWidth = double_of_int (uint (clientWidth w)), hostHeight = double_of_int (uint (clientHeight w)),
     hostScaleX = contentScaleX w, hostScaleY = contentScaleY w,
     hostVisible = (windowVisible w \<and> presentation w \<noteq> PS_Minimized), hostFocused = windowFocused w\<rparr>"

definition geometry_differs :: "AccessibilityHostGeometry \<Rightarrow> AccessibilityHostGeometry \<Rightarrow> bool" where
  "geometry_differs a b \<longleftrightarrow> \<not> double_eq (hostX a) (hostX b) \<or> \<not> double_eq (hostY a) (hostY b) \<or> \<not> double_eq (hostWidth a) (hostWidth b) \<or>
     \<not> double_eq (hostHeight a) (hostHeight b) \<or> \<not> double_eq (hostScaleX a) (hostScaleX b) \<or> \<not> double_eq (hostScaleY a) (hostScaleY b) \<or>
     hostVisible a \<noteq> hostVisible b \<or> hostFocused a \<noteq> hostFocused b"

definition publishAccessibilityGeometry :: "HostWindow \<Rightarrow> AccessibilityRuntime \<times> SharedGeometry \<Rightarrow> AccessibilityRuntime \<times> SharedGeometry" where
  "publishAccessibilityGeometry w st =
    (case st of (rt, mem) \<Rightarrow>
     if \<not> live rt then (rt, mem)
     else let g = host_geometry w in
     case readGeometry mem default_geometry of (valid, old) \<Rightarrow>
     (if \<not> valid \<or> geometry_differs old g then invalidateHost (\<not> hostFocused old \<and> hostFocused g) rt else rt, publishGeometry g mem))"

section \<open>Enabling\<close>

text \<open>
  \<open>enable\<close> with what the window answers (open, owned by the calling thread, capable), whether memory suffices, and the status and features
  the platform returns; \<open>current\<close> is the activation before.
\<close>

definition enable :: "bool \<Rightarrow> bool \<Rightarrow> bool \<Rightarrow> bool \<Rightarrow> Status \<times> 64 word \<Rightarrow> HostWindow \<Rightarrow> Limits \<Rightarrow>
    (AccessibilityRuntime \<times> SharedGeometry) option \<Rightarrow> Status \<times> (AccessibilityRuntime \<times> SharedGeometry) option" where
  "enable isOpen owned capable allocated platform w limits current =
    (if \<not> isOpen then (statusOf NotOpen, current)
     else if \<not> owned then (statusOf ResourceBusy, current)
     else if \<not> capable then (statusOf Unsupported, current)
     else if enabled (map_option fst current) then (statusOf AlreadyOpen, current)
     else if invalid_limits limits then (statusOf InvalidArgument, current)
     else if \<not> allocated then (statusOf OutOfMemory, current)
     else if \<not> ok (fst platform) then (fst platform, current)
     else (successStatus, Some (publishAccessibilityGeometry w (newRuntime limits (snd platform), newGeometry))))"

section \<open>Interleavings\<close>

text \<open>
  One writer, the owner thread, and readers on any thread. The histories are the geometries published so far, the initial one first,
  and for every read the number of publications that were complete when it began.
\<close>

record GeometrySystem =
  memory :: SharedGeometry
  writing :: "(AccessibilityHostGeometry \<times> nat) option"
  reading :: "nat \<Rightarrow> (nat \<times> GeometryRead) option"
  completed :: "AccessibilityHostGeometry list"

definition new_geometry_system :: GeometrySystem where
  "new_geometry_system = \<lparr>memory = newGeometry, writing = None, reading = (\<lambda>_. None), completed = [default_geometry]\<rparr>"

inductive geometry_step :: "GeometrySystem \<Rightarrow> GeometrySystem \<Rightarrow> bool" where
  write_begin: "writing s = None \<Longrightarrow> geometry_step s (s\<lparr>memory := begin_write (memory s), writing := Some (g, 0)\<rparr>)"
| write_store: "writing s = Some (g, k) \<Longrightarrow> k < 8 \<Longrightarrow> geometry_step s (s\<lparr>memory := store_field g k (memory s), writing := Some (g, k + 1)\<rparr>)"
| write_end: "writing s = Some (g, 8) \<Longrightarrow>
    geometry_step s (s\<lparr>memory := end_write (memory s), writing := None, completed := completed s @ [g]\<rparr>)"
| read_begin: "reading s t = None \<Longrightarrow> geometry_step s (s\<lparr>reading := (reading s)(t := Some (length (completed s) - 1, R_Attempt 0 out))\<rparr>)"
| read_load: "reading s t = Some (n, r) \<Longrightarrow> geometry_step s (s\<lparr>reading := (reading s)(t := Some (n, read_step (memory s) r))\<rparr>)"
| read_end: "reading s t = Some (n, R_Returned b g) \<Longrightarrow> geometry_step s (s\<lparr>reading := (reading s)(t := None)\<rparr>)"

inductive geometry_reachable :: "GeometrySystem \<Rightarrow> bool" where
  geometry_start: "geometry_reachable new_geometry_system"
| geometry_run: "geometry_reachable s \<Longrightarrow> geometry_step s s' \<Longrightarrow> geometry_reachable s'"

section \<open>Fields\<close>

lemma field_cases: "k < 8 \<Longrightarrow> k = 0 \<or> k = 1 \<or> k = 2 \<or> k = 3 \<or> k = 4 \<or> k = 5 \<or> k = 6 \<or> k = (7 :: nat)"
  by auto

definition same_field :: "nat \<Rightarrow> AccessibilityHostGeometry \<Rightarrow> AccessibilityHostGeometry \<Rightarrow> bool" where
  "same_field k a b \<longleftrightarrow> copy_field k a b = b"

lemma copy_field_same: "k < 8 \<Longrightarrow> same_field k a (copy_field k a b)"
  by (drule field_cases) (auto simp: same_field_def copy_field_def geometry_fields_def)

lemma copy_field_other: "k < 8 \<Longrightarrow> j < 8 \<Longrightarrow> j \<noteq> k \<Longrightarrow> same_field j a (copy_field k c b) = same_field j a b"
  by (drule field_cases, drule field_cases, cases a, cases b, cases c) (auto simp: same_field_def copy_field_def geometry_fields_def)

lemma same_fields: "(\<And>k. k < 8 \<Longrightarrow> same_field k a b) \<Longrightarrow> a = b"
proof -
  assume "\<And>k. k < 8 \<Longrightarrow> same_field k a b"
  from this [of 0] this [of 1] this [of 2] this [of 3] this [of 4] this [of 5] this [of 6] this [of 7] show "a = b"
    by (cases a, cases b) (simp add: same_field_def copy_field_def geometry_fields_def)
qed

section \<open>A read is bounded\<close>

fun read_ok :: "GeometryRead \<Rightarrow> bool" where
  "read_ok (R_Attempt a out) \<longleftrightarrow> a \<le> 8"
| "read_ok (R_Loading a s k t out) \<longleftrightarrow> a < 8 \<and> k \<le> 8"
| "read_ok (R_Returned b out) \<longleftrightarrow> True"

fun reads_left :: "GeometryRead \<Rightarrow> nat" where
  "reads_left (R_Attempt a out) = 10 * (8 - a) + 1"
| "reads_left (R_Loading a s k t out) = 10 * (8 - a) - k"
| "reads_left (R_Returned b out) = 0"

lemma read_step_ok: "read_ok r \<Longrightarrow> read_ok (read_step mem r)"
  by (cases r) auto

lemma read_step_left: "read_ok r \<Longrightarrow> reads_left (read_step mem r) \<le> reads_left r - 1"
  by (cases r) auto

lemma read_run: "read_ok r \<Longrightarrow> read_ok (fold (\<lambda>i. read_step (mem i)) is r) \<and> reads_left (fold (\<lambda>i. read_step (mem i)) is r) \<le> reads_left r - length is"
proof (induction "is" arbitrary: r)
  case (Cons i "is")
  from Cons.IH [OF read_step_ok [OF Cons.prems, of "mem i"]] read_step_left [OF Cons.prems, of "mem i"] show ?case by (simp, arith)
qed simp

lemma read_done: "read_ok r \<Longrightarrow> reads_left r = 0 \<Longrightarrow> \<exists>b g. r = R_Returned b g"
  by (cases r) auto

text \<open>
  A geometry read never waits for the owner thread: whatever the memory holds at each of its accesses, it has returned after at most 81
  steps of its own, eight attempts of ten accesses and the return.
\<close>

theorem geometry_read_bounded: "\<exists>b g. fold (\<lambda>i. read_step (mem i)) [0..<81] (R_Attempt 0 out) = R_Returned b g"
  using read_run [of "R_Attempt 0 out" mem "[0..<81]"] by (intro read_done) simp_all

section \<open>Coherence\<close>

text \<open>
  The invariant. The sequence is twice the number of completed publications, plus one while one is under way; the cells are those of the last
  completed one, overwritten by the fields stored since. A read under way that saw an even sequence belongs to a completed publication, and while
  that is still the last one and nobody writes, the fields it has loaded are those of that publication.
\<close>

definition publications :: "GeometrySystem \<Rightarrow> nat" where
  "publications s = length (completed s) - 1"

definition write_inv :: "GeometrySystem \<Rightarrow> bool" where
  "write_inv s \<longleftrightarrow> completed s \<noteq> [] \<and>
    (case writing s of
       None \<Rightarrow> geometrySequence (memory s) = of_nat (2 * publications s) \<and> geometryCells (memory s) = last (completed s)
     | Some (g, k) \<Rightarrow> geometrySequence (memory s) = of_nat (2 * publications s + 1) \<and> k \<le> 8 \<and>
         (\<forall>i < k. same_field i g (geometryCells (memory s))))"

fun read_inv :: "GeometrySystem \<Rightarrow> nat \<times> GeometryRead \<Rightarrow> bool" where
  "read_inv s (n, R_Attempt a out) \<longleftrightarrow> n \<le> publications s"
| "read_inv s (n, R_Loading a sequence k t out) \<longleftrightarrow>
    (\<exists>j. n \<le> j \<and> j \<le> publications s \<and> sequence = of_nat (2 * j) \<and> k \<le> 8 \<and>
      (j = publications s \<and> writing s = None \<longrightarrow> (\<forall>i < k. same_field i (last (completed s)) t)))"
| "read_inv s (n, R_Returned b g) \<longleftrightarrow> n \<le> publications s \<and> (b \<longrightarrow> (\<exists>j. n \<le> j \<and> j \<le> publications s \<and> g = completed s ! j))"

definition geometry_inv :: "GeometrySystem \<Rightarrow> bool" where
  "geometry_inv s \<longleftrightarrow> write_inv s \<and> (\<forall>t p. reading s t = Some p \<longrightarrow> read_inv s p)"

lemma sequence_odd: "(of_nat n :: 64 word) AND 1 \<noteq> 0 \<longleftrightarrow> odd n"
proof -
  have "(of_nat n :: 64 word) AND 1 = of_nat (n AND 1)" by (metis of_nat_and_eq of_nat_1)
  then show ?thesis by (cases "even n") (simp_all add: and_one_eq odd_iff_mod_2_eq_one)
qed

lemma even_seq: "n < 2 ^ 63 \<Longrightarrow> m < 2 ^ 63 \<Longrightarrow> (of_nat (2 * n) :: 64 word) = of_nat (2 * m) \<longleftrightarrow> n = m"
  unfolding word_of_nat_eq_iff by (simp add: take_bit_nat_eq_self)

lemma step_publications: "geometry_step s s' \<Longrightarrow> write_inv s \<Longrightarrow> publications s \<le> publications s' \<and> (\<forall>j \<le> publications s. completed s' ! j = completed s ! j)"
proof (induction rule: geometry_step.induct)
  case (write_end s g)
  then have "j < length (completed s)" if "j \<le> publications s" for j using that by (cases "completed s") (auto simp: publications_def write_inv_def)
  then show ?case by (simp add: publications_def nth_append)
qed (simp_all add: publications_def)

lemma step_write_inv:
  assumes "geometry_step s s'" "write_inv s"
  shows "write_inv s'"
  using assms
proof (induction rule: geometry_step.induct)
  case (write_store s g k)
  then show ?case by (auto simp: write_inv_def store_field_def publications_def copy_field_same copy_field_other less_Suc_eq)
next
  case (write_end s g)
  then have "geometryCells (memory s) = g" by (intro same_fields [symmetric]) (simp add: write_inv_def)
  with write_end show ?case by (auto simp: write_inv_def publications_def end_write_def neq_Nil_conv)
qed (auto simp: write_inv_def begin_write_def publications_def split: option.splits prod.splits)

text \<open>The reads that a step of the writer does not touch.\<close>

lemma read_inv_write:
  assumes "read_inv s p" "publications s \<le> publications s'" "\<forall>j \<le> publications s. completed s' ! j = completed s ! j"
    "publications s' = publications s \<Longrightarrow> writing s' = None \<Longrightarrow> writing s = None \<and> last (completed s') = last (completed s)"
  shows "read_inv s' p"
proof -
  obtain n r where p: "p = (n, r)" by (cases p)
  show ?thesis
  proof (cases r)
    case (R_Loading a sequence k t out)
    then obtain j where "n \<le> j" "j \<le> publications s" "sequence = of_nat (2 * j)" "k \<le> 8"
      "j = publications s \<Longrightarrow> writing s = None \<Longrightarrow> \<forall>i < k. same_field i (last (completed s)) t"
      using assms(1) by (auto simp: p)
    with assms(2,4) R_Loading show ?thesis by (auto simp: p intro!: exI [of _ j])
  next
    case (R_Returned b g)
    with assms(1-3) show ?thesis by (auto simp: p intro: le_trans)
  qed (use assms(1,2) p in simp)
qed

text \<open>A step of the reader itself. The bound excludes that the sequence comes round to a value that it had before.\<close>

lemma read_inv_step:
  assumes w: "write_inv s" and r: "read_inv s (n, r)" and bound: "publications s < 2 ^ 63"
  shows "read_inv s (n, read_step (memory s) r)"
proof (cases r)
  case (R_Attempt a out)
  have "geometrySequence (memory s) AND 1 = 0 \<Longrightarrow> geometrySequence (memory s) = of_nat (2 * publications s)"
    using w sequence_odd [of "2 * publications s + 1"] by (auto simp: write_inv_def split: option.splits)
  with r R_Attempt show ?thesis by auto
next
  case (R_Loading a sequence k t out)
  then obtain j where j: "n \<le> j" "j \<le> publications s" "sequence = of_nat (2 * j)" "k \<le> 8"
    and t: "j = publications s \<Longrightarrow> writing s = None \<Longrightarrow> \<forall>i < k. same_field i (last (completed s)) t"
    using r by auto
  show ?thesis
  proof (cases "k < 8")
    case True
    have "\<forall>i < k + 1. same_field i (last (completed s)) (copy_field k (geometryCells (memory s)) t)" if "j = publications s" "writing s = None"
      using t [OF that] w that True by (auto simp: write_inv_def copy_field_same copy_field_other less_Suc_eq)
    with j True show ?thesis by (auto simp: R_Loading intro!: exI [of _ j])
  next
    case False
    have "\<exists>i. n \<le> i \<and> i \<le> publications s \<and> t = completed s ! i" if s: "sequence = geometrySequence (memory s)"
    proof (cases "writing s")
      case None
      then have "j = publications s" using w s j(2,3) bound even_seq [of j "publications s"] by (simp add: write_inv_def)
      moreover from this None False j(4) have "last (completed s) = t" using t by (intro same_fields) simp
      moreover have "last (completed s) = completed s ! publications s" using w by (simp add: write_inv_def publications_def last_conv_nth)
      ultimately show ?thesis using j by metis
    next
      case (Some q)
      then have "(of_nat (2 * j) :: 64 word) = of_nat (2 * publications s + 1)" using w s j(3) by (simp add: write_inv_def split: prod.splits)
      with sequence_odd [of "2 * j"] sequence_odd [of "2 * publications s + 1"] show ?thesis by simp
    qed
    with False j show ?thesis by (auto simp: R_Loading)
  qed
qed (use r in simp)

lemma step_geometry_inv:
  assumes "geometry_step s s'" "geometry_inv s" "publications s < 2 ^ 63"
  shows "geometry_inv s'"
proof -
  have w: "write_inv s'" "write_inv s" using assms step_write_inv by (auto simp: geometry_inv_def)
  note grows = step_publications [OF assms(1) w(2)]
  have old: "read_inv s p" if "reading s t = Some p" for t p using assms(2) that by (cases p) (simp add: geometry_inv_def)
  have "read_inv s' p" if p: "reading s' t = Some p" for t p
    using assms(1)
  proof cases
    case (write_begin g)
    then have "read_inv s p" using p by (intro old [of t]) simp
    then show ?thesis by (rule read_inv_write) (use write_begin grows in \<open>auto simp: publications_def\<close>)
  next
    case (write_store g k)
    then have "read_inv s p" using p by (intro old [of t]) simp
    then show ?thesis by (rule read_inv_write) (use write_store grows in \<open>auto simp: publications_def\<close>)
  next
    case (write_end g)
    then have "read_inv s p" using p by (intro old [of t]) simp
    then show ?thesis by (rule read_inv_write) (use write_end grows w(2) in \<open>auto simp: publications_def write_inv_def neq_Nil_conv\<close>)
  next
    case (read_begin u out)
    show ?thesis
    proof (cases "t = u")
      case True
      then show ?thesis using p read_begin by (auto simp: publications_def)
    next
      case False
      then have "read_inv s p" using p read_begin by (intro old [of t]) simp
      then show ?thesis by (rule read_inv_write) (use read_begin grows in \<open>auto simp: publications_def\<close>)
    qed
  next
    case (read_load u n r)
    have "read_inv s (n, read_step (memory s) r)" using old [OF read_load(2)] w(2) assms(3) by (intro read_inv_step)
    then have "read_inv s p" using p read_load old [of t] by (cases "t = u") simp_all
    then show ?thesis by (rule read_inv_write) (use read_load grows in \<open>auto simp: publications_def\<close>)
  next
    case (read_end u n b g)
    then have "read_inv s p" using p by (intro old [of t]) (simp split: if_splits)
    then show ?thesis by (rule read_inv_write) (use read_end grows in \<open>auto simp: publications_def\<close>)
  qed
  with w(1) show ?thesis by (simp add: geometry_inv_def)
qed

lemma reachable_write_inv: "geometry_reachable s \<Longrightarrow> write_inv s"
proof (induction rule: geometry_reachable.induct)
  case geometry_start
  show ?case by (simp add: write_inv_def new_geometry_system_def newGeometry_def publications_def)
qed (rule step_write_inv)

lemma geometry_reachable_inv: "geometry_reachable s \<Longrightarrow> publications s < 2 ^ 63 \<Longrightarrow> geometry_inv s"
proof (induction rule: geometry_reachable.induct)
  case geometry_start
  show ?case by (simp add: geometry_inv_def write_inv_def new_geometry_system_def newGeometry_def publications_def)
next
  case (geometry_run s s')
  have "publications s \<le> publications s'" using step_publications reachable_write_inv geometry_run.hyps by blast
  with geometry_run show ?case by (intro step_geometry_inv [OF geometry_run.hyps(2)]) simp_all
qed

text \<open>
  C19: A geometry read is coherent. As long as fewer than 2 ^ 63 publications have completed, a read that reports success on any thread
  returns one of the geometries the owner thread has published (or the initial one) as a whole, never fields of two of them, and one that is not older than the
  last publication that was complete when the read began.
\<close>

theorem geometry_reads_coherent:
  assumes "geometry_reachable s" "publications s < 2 ^ 63" "reading s t = Some (n, R_Returned True g)"
  shows "\<exists>j. n \<le> j \<and> j \<le> publications s \<and> g = completed s ! j"
  using geometry_reachable_inv [OF assms(1,2)] assms(3) unfolding geometry_inv_def by fastforce

text \<open>A read that overlaps a publication: it sees the odd sequence, and its second attempt returns the new geometry.\<close>

lemma run_loads:
  assumes "geometry_reachable s" "reading s t = Some (n, r)"
  defines "st k \<equiv> s\<lparr>reading := (reading s)(t := Some (n, (read_step (memory s) ^^ k) r))\<rparr>"
  shows "geometry_reachable (st k)"
proof (induction k)
  case 0
  have "st 0 = s" using assms(2) by (cases s) (simp add: st_def fun_upd_idem)
  then show ?case using assms(1) by simp
next
  case (Suc k)
  have "reading (st k) t = Some (n, (read_step (memory s) ^^ k) r)" by (simp add: st_def)
  moreover have "st (Suc k) = (st k)\<lparr>reading := (reading (st k))(t := Some (n, read_step (memory (st k)) ((read_step (memory s) ^^ k) r)))\<rparr>"
    by (simp add: st_def)
  ultimately show ?case using geometry_run [OF Suc.IH read_load] by simp
qed

lemma run_stores:
  assumes "geometry_reachable s" "writing s = Some (g, 0)" "k \<le> 8"
  shows "geometry_reachable (s\<lparr>memory := fold (store_field g) [0..<k] (memory s), writing := Some (g, k)\<rparr>)"
  using assms(3)
proof (induction k)
  case 0
  then show ?case using assms(1,2) by (cases s) simp
next
  case (Suc k)
  from geometry_run [OF Suc.IH write_store, of g k] Suc.prems show ?case by simp
qed

lemma copy_fields: "fold (\<lambda>k. copy_field k g) [0..<8] h = g"
proof -
  have "same_field i g (fold (\<lambda>k. copy_field k g) [0..<k] h)" if "i < k" "k \<le> 8" for i k using that
    by (induction k) (auto simp: less_Suc_eq copy_field_same copy_field_other)
  then show ?thesis by (intro same_fields [symmetric]) simp
qed

lemma quiet_read:
  assumes "geometrySequence mem AND 1 = 0" "a < 8"
  shows "(read_step mem ^^ 10) (R_Attempt a out) = R_Returned True (geometryCells mem)"
proof -
  have loads: "(read_step mem ^^ k) (R_Loading a q 0 t out) = R_Loading a q k (fold (\<lambda>k. copy_field k (geometryCells mem)) [0..<k] t) out" if "k \<le> 8" for k q t
    using that by (induction k) simp_all
  have "(read_step mem ^^ 10) (R_Attempt a out) = read_step mem ((read_step mem ^^ 8) (read_step mem (R_Attempt a out)))"
    by (simp add: numeral_eq_Suc funpow_swap1)
  then show ?thesis using assms loads [of 8] copy_fields by simp
qed

lemma quiet_readGeometry:
  assumes "geometrySequence mem AND 1 = 0"
  shows "readGeometry mem out = (True, geometryCells mem)"
proof -
  have "(read_step mem ^^ k) (R_Returned b g) = R_Returned b g" for k b g by (induction k) simp_all
  then have "(read_step mem ^^ (71 + 10)) (R_Attempt 0 out) = R_Returned True (geometryCells mem)"
    unfolding funpow_add comp_def using quiet_read [OF assms, of 0 out] by simp
  then show ?thesis by (simp add: readGeometry_def)
qed

definition example_geometry :: AccessibilityHostGeometry where
  "example_geometry = default_geometry\<lparr>hostX := double_of_int 3, hostFocused := True\<rparr>"

theorem geometry_reads_coherent_witness:
  "\<exists>s. geometry_reachable s \<and> reading s 7 = Some (0, R_Returned True example_geometry) \<and> example_geometry = completed s ! 1"
proof -
  define s0 where "s0 = new_geometry_system\<lparr>reading := (\<lambda>_. None)(7 := Some (0, R_Attempt 0 default_geometry))\<rparr>"
  define s1 where "s1 = s0\<lparr>memory := begin_write newGeometry, writing := Some (example_geometry, 0)\<rparr>"
  define s2 where "s2 = s1\<lparr>reading := (\<lambda>_. None)(7 := Some (0, R_Attempt 1 default_geometry))\<rparr>"
  define s3 where "s3 = s2\<lparr>memory := fold (store_field example_geometry) [0..<8] (memory s2), writing := Some (example_geometry, 8)\<rparr>"
  define s4 where "s4 = s3\<lparr>memory := end_write (memory s3), writing := None, completed := [default_geometry, example_geometry]\<rparr>"
  define s5 where "s5 = s4\<lparr>reading := (reading s4)(7 := Some (0, R_Returned True example_geometry))\<rparr>"
  have stores: "geometrySequence (fold (store_field g) ks mem) = geometrySequence mem \<and>
      geometryCells (fold (store_field g) ks mem) = fold (\<lambda>k. copy_field k g) ks (geometryCells mem)" for g ks mem
    by (induction ks arbitrary: mem) (simp_all add: store_field_def)
  have r0: "geometry_reachable s0"
    using geometry_run [OF geometry_start read_begin [of _ 7 default_geometry]] by (simp add: s0_def new_geometry_system_def)
  have r1: "geometry_reachable s1"
    using geometry_run [OF r0 write_begin [of _ example_geometry]] by (simp add: s1_def s0_def new_geometry_system_def)
  have r2: "geometry_reachable s2"
    using geometry_run [OF r1 read_load [of _ 7 0 "R_Attempt 0 default_geometry"]]
    by (simp add: s2_def s1_def s0_def begin_write_def newGeometry_def)
  have r3: "geometry_reachable s3" unfolding s3_def by (rule run_stores [OF r2]) (simp_all add: s2_def s1_def)
  have r4: "geometry_reachable s4"
    using geometry_run [OF r3 write_end [of _ example_geometry]] by (simp add: s4_def s3_def s2_def s1_def s0_def new_geometry_system_def)
  have q: "geometrySequence (memory s4) AND 1 = 0" "geometryCells (memory s4) = example_geometry"
    by (simp_all add: s4_def s3_def s2_def s1_def end_write_def begin_write_def newGeometry_def stores copy_fields)
  have r5: "geometry_reachable s5"
  proof -
    have "reading s4 7 = Some (0, R_Attempt 1 default_geometry)" by (simp add: s4_def s3_def s2_def)
    note run = run_loads [OF r4 this, of 10]
    have "(read_step (memory s4) ^^ 10) (R_Attempt 1 default_geometry) = R_Returned True example_geometry" using quiet_read [OF q(1)] q(2) by simp
    then show ?thesis using run by (simp only: s5_def)
  qed
  have s5: "publications s5 = 1" "reading s5 7 = Some (0, R_Returned True example_geometry)" "completed s5 ! 0 = default_geometry"
    by (simp_all add: s5_def s4_def publications_def)
  obtain j where j: "j \<le> publications s5" "example_geometry = completed s5 ! j"
    using geometry_reads_coherent [OF r5 _ s5(2)] s5(1) by auto
  have "example_geometry \<noteq> default_geometry" by (simp add: example_geometry_def default_geometry_def)
  then have "j \<noteq> 0" using j(2) s5(3) by metis
  then have "example_geometry = completed s5 ! 1" using j s5(1) by (cases j) simp_all
  with r5 s5(2) show ?thesis by (intro exI [of _ s5] conjI)
qed

text \<open>What the owner thread publishes, it publishes once.\<close>

lemma publishGeometry_fields:
  "geometryCells (publishGeometry g mem) = g" "geometrySequence (publishGeometry g mem) = geometrySequence mem + 2"
proof -
  have "geometrySequence (fold (store_field g) ks mem) = geometrySequence mem \<and>
      geometryCells (fold (store_field g) ks mem) = fold (\<lambda>k. copy_field k g) ks (geometryCells mem)" for g ks mem
    by (induction ks arbitrary: mem) (simp_all add: store_field_def)
  then show "geometryCells (publishGeometry g mem) = g" "geometrySequence (publishGeometry g mem) = geometrySequence mem + 2"
    by (simp_all add: publishGeometry_def begin_write_def end_write_def copy_fields)
qed

lemma publishAccessibilityGeometry_quiet:
  assumes "geometrySequence mem AND 1 = 0" "live rt"
  shows "publishAccessibilityGeometry w (rt, mem) =
    (if geometry_differs (geometryCells mem) (host_geometry w)
     then invalidateHost (\<not> hostFocused (geometryCells mem) \<and> windowFocused w) rt else rt, publishGeometry (host_geometry w) mem)"
  using assms by (simp add: publishAccessibilityGeometry_def quiet_readGeometry host_geometry_def Let_def)

lemma host_geometry_same: "contentScaleX w \<noteq> DNaN \<Longrightarrow> contentScaleY w \<noteq> DNaN \<Longrightarrow> \<not> geometry_differs (host_geometry w) (host_geometry w)"
  by (simp add: geometry_differs_def host_geometry_def double_eq_def double_of_int_def)

text \<open>
  Geometry is announced when it changes. On the owner thread, where a read never overlaps a publication, publishing the geometry of a
  window stores it and invalidates the host's elements exactly when the stored one differs, with a focus event exactly when the window has gained
  the focus; publishing it again leaves the runtime, with its queues, as it is.
\<close>

theorem host_geometry_published_once:
  assumes "geometrySequence mem AND 1 = 0" "live rt" "contentScaleX w \<noteq> DNaN" "contentScaleY w \<noteq> DNaN"
    "publishAccessibilityGeometry w (rt, mem) = (rt1, mem1)"
  shows "geometryCells mem1 = host_geometry w \<and> geometrySequence mem1 = geometrySequence mem + 2 \<and>
    rt1 = (if geometry_differs (geometryCells mem) (host_geometry w)
           then invalidateHost (\<not> hostFocused (geometryCells mem) \<and> windowFocused w) rt else rt) \<and>
    publishAccessibilityGeometry w (rt1, mem1) = (rt1, publishGeometry (host_geometry w) mem1)"
proof -
  note first = publishAccessibilityGeometry_quiet [OF assms(1,2), of w, unfolded assms(5)]
  then have rt1: "live rt1" and mem1: "mem1 = publishGeometry (host_geometry w) mem" using assms(2) by (auto split: if_splits)
  have "(geometrySequence mem + 2) AND 1 = 0" using assms(1) by (simp add: and_one_eq mod_2_eq_odd)
  then have "geometrySequence mem1 AND 1 = 0" by (simp add: mem1 publishGeometry_fields)
  from publishAccessibilityGeometry_quiet [OF this rt1, of w] have "publishAccessibilityGeometry w (rt1, mem1) = (rt1, publishGeometry (host_geometry w) mem1)"
    using host_geometry_same [OF assms(3,4)] by (simp add: mem1 publishGeometry_fields)
  with first show ?thesis by (simp add: mem1 publishGeometry_fields)
qed

definition example_window :: HostWindow where
  "example_window = \<lparr>clientPositionX = 3, clientPositionY = -4, clientWidth = 640, clientHeight = 480, contentScaleX = DFin (2 ^ 1074),
     contentScaleY = DFin (2 ^ 1074), presentation = PS_Normal, windowVisible = True, windowFocused = True\<rparr>"

theorem host_geometry_published_once_witness:
  "let st = publishAccessibilityGeometry example_window (newRuntime example_limits 0, newGeometry) in
    geometryCells (snd st) = host_geometry example_window \<and> fst (publishAccessibilityGeometry example_window st) = fst st"
  using host_geometry_published_once [of newGeometry "newRuntime example_limits 0" example_window
      "fst (publishAccessibilityGeometry example_window (newRuntime example_limits 0, newGeometry))"
      "snd (publishAccessibilityGeometry example_window (newRuntime example_limits 0, newGeometry))"]
  by (simp add: newGeometry_def newRuntime_def example_window_def Let_def)

lemma publish_first_geometry: "publishAccessibilityGeometry w (newRuntime limits features, newGeometry) = (newRuntime limits features, publishGeometry (host_geometry w) newGeometry)"
  by (subst publishAccessibilityGeometry_quiet) (simp_all add: newGeometry_def newRuntime_def invalidateHost_def)

text \<open>Enabling leaves the activation before in place on every failure, and on success starts one with empty queues and the window's geometry.\<close>

lemma enable_cases: "enable isOpen owned capable allocated platform w limits current =
    (if isOpen \<and> owned \<and> capable \<and> \<not> enabled (map_option fst current) \<and> \<not> invalid_limits limits \<and> allocated \<and> ok (fst platform)
     then (successStatus, Some (newRuntime limits (snd platform), publishGeometry (host_geometry w) newGeometry))
     else (fst (enable isOpen owned capable allocated platform w limits current), current))"
  by (simp add: enable_def publish_first_geometry)

lemma enable_fails: "snd (enable isOpen owned capable allocated platform w limits current) = current \<or> ok (fst (enable isOpen owned capable allocated platform w limits current))"
  by (simp add: enable_def successStatus_def ok_def)

end
