(* ===== verification/FileSystem_Path.thy ===== *)
theory FileSystem_Path
  imports IO_Status Unicode_Text
begin

text \<open>
  Paths of \<^verbatim>\<open>foundation/filesystem\<close> (\<^verbatim>\<open>path.h\<close>, \<^verbatim>\<open>core/path.cpp\<close>). \<^verbatim>\<open>std::filesystem::path\<close> holds a native string, here of UTF-16
  code units with both slashes as separators, and its lexical operations are modelled by the standard's grammar with drive letters and network
  hosts as root names. What asks the operating system is an argument: its answer is a path or an error code.
\<close>

section \<open>The path grammar\<close>

type_synonym path = "char16 list"

definition is_separator :: "char16 \<Rightarrow> bool" where
  "is_separator c \<longleftrightarrow> c = 0x2F \<or> c = 0x5C"

definition drive_letter :: "char16 \<Rightarrow> bool" where
  "drive_letter c \<longleftrightarrow> (0x41 \<le> c \<and> c \<le> 0x5A) \<or> (0x61 \<le> c \<and> c \<le> 0x7A)"

fun root_name_length :: "path \<Rightarrow> nat" where
  "root_name_length (a # b # rest) =
    (if drive_letter a \<and> b = 0x3A then 2
     else if is_separator a \<and> is_separator b \<and> rest \<noteq> [] \<and> \<not> is_separator (hd rest) then 2 + length (takeWhile (\<lambda>c. \<not> is_separator c) rest)
     else 0)"
| "root_name_length p = 0"

definition root_name :: "path \<Rightarrow> path" where
  "root_name p = take (root_name_length p) p"

definition after_root_name :: "path \<Rightarrow> path" where
  "after_root_name p = drop (root_name_length p) p"

definition has_root_directory :: "path \<Rightarrow> bool" where
  "has_root_directory p \<longleftrightarrow> after_root_name p \<noteq> [] \<and> is_separator (hd (after_root_name p))"

definition relative_path :: "path \<Rightarrow> path" where
  "relative_path p = dropWhile is_separator (after_root_name p)"

definition root_path :: "path \<Rightarrow> path" where
  "root_path p = take (length p - length (relative_path p)) p"

text \<open>The text after the last separator of a path, and what is left without it and the separators before it.\<close>

definition last_component :: "path \<Rightarrow> path" where
  "last_component r = rev (takeWhile (\<lambda>c. \<not> is_separator c) (rev r))"

definition strip_component :: "path \<Rightarrow> path" where
  "strip_component r = rev (dropWhile is_separator (dropWhile (\<lambda>c. \<not> is_separator c) (rev r)))"

definition path_filename :: "path \<Rightarrow> path" where
  "path_filename p = last_component (relative_path p)"

definition path_parent :: "path \<Rightarrow> path" where
  "path_parent p = (if relative_path p = [] then p else root_path p @ strip_component (relative_path p))"

definition path_is_absolute :: "path \<Rightarrow> bool" where
  "path_is_absolute p \<longleftrightarrow> root_name p \<noteq> [] \<and> has_root_directory p"

text \<open>A filename without and after its last dot; a leading dot does not start an extension.\<close>

definition extension_start :: "path \<Rightarrow> nat" where
  "extension_start f = (let stem = rev (dropWhile (\<lambda>c. c \<noteq> 0x2E) (rev f)) in
     if f = [0x2E, 0x2E] \<or> length stem \<le> 1 then length f else length stem - 1)"

definition path_stem :: "path \<Rightarrow> path" where
  "path_stem p = take (extension_start (path_filename p)) (path_filename p)"

definition path_extension :: "path \<Rightarrow> path" where
  "path_extension p = drop (extension_start (path_filename p)) (path_filename p)"

definition path_replace_extension :: "path \<Rightarrow> path \<Rightarrow> path" where
  "path_replace_extension p e =
    take (length p - length (path_extension p)) p @ (if e \<noteq> [] \<and> hd e \<noteq> 0x2E then [0x2E] else []) @ e"

text \<open>\<open>operator/=\<close>.\<close>

definition path_append :: "path \<Rightarrow> path \<Rightarrow> path" where
  "path_append p q =
    (if path_is_absolute q \<or> root_name q \<noteq> [] \<and> root_name q \<noteq> root_name p then q
     else if has_root_directory q then root_name p @ after_root_name q
     else p @ (if path_filename p \<noteq> [] \<or> \<not> has_root_directory p \<and> path_is_absolute p then [0x5C] else []) @ after_root_name q)"

lemma path_components_shrink:
  assumes "dropWhile (\<lambda>c. \<not> is_separator c) r \<noteq> []"
  shows "length (dropWhile is_separator (dropWhile (\<lambda>c. \<not> is_separator c) r)) < length r"
proof -
  obtain c cs where rest: "dropWhile (\<lambda>c. \<not> is_separator c) r = c # cs" using assms by (cases "dropWhile (\<lambda>c. \<not> is_separator c) r") auto
  then have "is_separator c" using hd_dropWhile [OF assms] by simp
  moreover have "Suc (length cs) \<le> length r" using rest length_dropWhile_le [of "\<lambda>c. \<not> is_separator c" r] by simp
  moreover have "length (dropWhile is_separator cs) \<le> length cs" by (rule length_dropWhile_le)
  ultimately show ?thesis by (simp add: rest)
qed

text \<open>The components of a relative path, an empty one last when it ends in a separator; \<open>operator==\<close> compares root names, roots and components.\<close>

function path_components :: "path \<Rightarrow> path list" where
  "path_components r =
    (if r = [] then []
     else let rest = dropWhile (\<lambda>c. \<not> is_separator c) r; next_part = dropWhile is_separator rest in
     takeWhile (\<lambda>c. \<not> is_separator c) r # (if rest = [] then [] else if next_part = [] then [[]] else path_components next_part))"
  by pat_completeness auto
termination
  by (relation "measure length") (auto intro!: path_components_shrink)

declare path_components.simps [simp del]

definition path_equal :: "path \<Rightarrow> path \<Rightarrow> bool" where
  "path_equal p q \<longleftrightarrow> root_name p = root_name q \<and> has_root_directory p = has_root_directory q \<and>
     path_components (relative_path p) = path_components (relative_path q)"

section \<open>Text conversion\<close>

text \<open>The library's conversions between UTF-8 and the native encoding; nothing for an ill-formed text.\<close>

function scalars_of_utf8 :: "byte list \<Rightarrow> char32 list option" where
  "scalars_of_utf8 t =
    (if t = [] then Some []
     else let r = decodeUtf8Scalar t in
     if outcome8 r = Decoded then map_option ((#) (scalar8 r)) (scalars_of_utf8 (drop (bytesConsumed r) t)) else None)"
  by pat_completeness auto
termination
  by (relation "measure length") (auto dest: utf8.decode_split(2,3))

function scalars_of_utf16 :: "char16 list \<Rightarrow> char32 list option" where
  "scalars_of_utf16 t =
    (if t = [] then Some []
     else let r = decodeUtf16Scalar t in
     if outcome16 r = Decoded then map_option ((#) (scalar16 r)) (scalars_of_utf16 (drop (codeUnitsConsumed r) t)) else None)"
  by pat_completeness auto
termination
  by (relation "measure length") (auto dest: utf16.decode_split(2,3))

declare scalars_of_utf8.simps [simp del] scalars_of_utf16.simps [simp del]

definition native_of_utf8 :: "byte list \<Rightarrow> path option" where
  "native_of_utf8 t = map_option utf16_text (scalars_of_utf8 t)"

definition utf8_of_native :: "path \<Rightarrow> byte list option" where
  "utf8_of_native p = map_option utf8_text (scalars_of_utf16 p)"

section \<open>Results\<close>

record PathResult =
  pathStatus :: Status
  resultPath :: path

record BoolResult =
  boolStatus :: Status
  boolValue :: bool

record Utf8PathResult =
  utf8Status :: Status
  resultUtf8 :: "byte list"

definition pathFailure :: "Status \<Rightarrow> PathResult" where
  "pathFailure status = \<lparr>pathStatus = status, resultPath = []\<rparr>"

definition boolFailure :: "Status \<Rightarrow> BoolResult" where
  "boolFailure status = \<lparr>boolStatus = status, boolValue = False\<rparr>"

definition utf8Failure :: "Status \<Rightarrow> Utf8PathResult" where
  "utf8Failure status = \<lparr>utf8Status = status, resultUtf8 = []\<rparr>"

text \<open>What a call that may throw ends with: its value, \<^verbatim>\<open>std::bad_alloc\<close>, or another exception.\<close>

datatype 'a attempt = Returned 'a | ThrownBadAlloc | ThrownOther

definition attempt_or :: "ErrorCode \<Rightarrow> (Status \<Rightarrow> 'r) \<Rightarrow> ('a \<Rightarrow> 'r) \<Rightarrow> 'a attempt \<Rightarrow> 'r" where
  "attempt_or other failure success a = (case a of
     Returned x \<Rightarrow> success x | ThrownBadAlloc \<Rightarrow> failure (statusOf OutOfMemory) | ThrownOther \<Rightarrow> failure (statusOf other))"

text \<open>A value that is computed unless the call throws.\<close>

datatype throwing = NoThrow | BadAlloc | OtherThrow

definition try_value :: "throwing \<Rightarrow> 'a \<Rightarrow> 'a attempt" where
  "try_value t x = (case t of NoThrow \<Rightarrow> Returned x | BadAlloc \<Rightarrow> ThrownBadAlloc | OtherThrow \<Rightarrow> ThrownOther)"

section \<open>Errors of the standard library\<close>

datatype std_errc = E_no_such_file_or_directory | E_not_a_directory | E_permission_denied | E_operation_not_permitted | E_file_exists
  | E_filename_too_long | E_no_space_on_device | E_device_or_resource_busy | E_interrupted | E_too_many_symbolic_link_levels
  | E_directory_not_empty | E_unlisted

text \<open>An error code that is set: the condition it matches, its value, and its message if producing it does not throw.\<close>

record error_code =
  errorCondition :: std_errc
  errorValue :: int
  errorMessage :: "byte list option"

definition validUtf8Text :: "byte list \<Rightarrow> bool" where
  "validUtf8Text t \<longleftrightarrow> validationOutcome8 (Utf8_validate t) = V_Valid"

fun std_code :: "std_errc \<Rightarrow> ErrorCode \<Rightarrow> ErrorCode" where
  "std_code E_no_such_file_or_directory fallback = NotFound"
| "std_code E_not_a_directory fallback = NotDirectory"
| "std_code E_permission_denied fallback = PermissionDenied"
| "std_code E_operation_not_permitted fallback = PermissionDenied"
| "std_code E_file_exists fallback = AlreadyExists"
| "std_code E_filename_too_long fallback = PathTooLong"
| "std_code E_no_space_on_device fallback = StorageFull"
| "std_code E_device_or_resource_busy fallback = ResourceBusy"
| "std_code E_interrupted fallback = Interrupted"
| "std_code E_too_many_symbolic_link_levels fallback = Unsupported"
| "std_code E_directory_not_empty fallback = DirectoryNotEmpty"
| "std_code E_unlisted fallback = fallback"

definition statusFromStdError :: "error_code option \<Rightarrow> ErrorCode \<Rightarrow> Status" where
  "statusFromStdError ec fallback = (case ec of None \<Rightarrow> successStatus
     | Some e \<Rightarrow> (let c = std_code (errorCondition e) fallback in
         case errorMessage e of
           Some m \<Rightarrow> if validUtf8Text m then makeStatus c (errorValue e) (map (\<lambda>b. char_of (unat b)) m) else makeStatus c (errorValue e) []
         | None \<Rightarrow> makeStatus c (errorValue e) []))"

section \<open>The operations\<close>

definition path_answer :: "ErrorCode \<Rightarrow> error_code + path \<Rightarrow> PathResult" where
  "path_answer fallback answer = (case answer of
     Inl ec \<Rightarrow> pathFailure (statusFromStdError (Some ec) fallback) | Inr p \<Rightarrow> \<lparr>pathStatus = successStatus, resultPath = p\<rparr>)"

definition getCurrentDirectory :: "(error_code + path) attempt \<Rightarrow> PathResult" where
  "getCurrentDirectory = attempt_or Unknown pathFailure (path_answer StatFailed)"

definition getTemporaryDirectoryPath :: "(error_code + path) attempt \<Rightarrow> PathResult" where
  "getTemporaryDirectoryPath = attempt_or Unknown pathFailure (path_answer StatFailed)"

definition setCurrentDirectory :: "(path \<Rightarrow> error_code option attempt) \<Rightarrow> path \<Rightarrow> Status" where
  "setCurrentDirectory change p =
    (if p = [] then statusOf InvalidArgument else attempt_or Unknown id (\<lambda>ec. statusFromStdError ec OpenFailed) (change p))"

text \<open>\<open>absolutePath\<close>, \<open>canonicalPath\<close> and \<open>weaklyCanonicalPath\<close> differ in the library function they call.\<close>

definition resolvePath :: "(path \<Rightarrow> (error_code + path) attempt) \<Rightarrow> path \<Rightarrow> PathResult" where
  "resolvePath resolve p =
    (if p = [] then pathFailure (statusOf InvalidArgument) else attempt_or Unknown pathFailure (path_answer StatFailed) (resolve p))"

definition lexical_path :: "throwing \<Rightarrow> path \<Rightarrow> PathResult" where
  "lexical_path t p = attempt_or InvalidArgument pathFailure (\<lambda>q. \<lparr>pathStatus = successStatus, resultPath = q\<rparr>) (try_value t p)"

definition parentPath :: "throwing \<Rightarrow> path \<Rightarrow> PathResult" where
  "parentPath t p = lexical_path t (path_parent p)"

definition filename :: "throwing \<Rightarrow> path \<Rightarrow> PathResult" where
  "filename t p = lexical_path t (path_filename p)"

definition stem :: "throwing \<Rightarrow> path \<Rightarrow> PathResult" where
  "stem t p = lexical_path t (path_stem p)"

definition extension :: "throwing \<Rightarrow> path \<Rightarrow> PathResult" where
  "extension t p = lexical_path t (path_extension p)"

definition replaceExtension :: "throwing \<Rightarrow> path \<Rightarrow> path \<Rightarrow> PathResult" where
  "replaceExtension t p e = lexical_path t (path_replace_extension p e)"

definition joinPath :: "throwing \<Rightarrow> path \<Rightarrow> path \<Rightarrow> PathResult" where
  "joinPath t p q = lexical_path t (path_append p q)"

definition lexical_test :: "throwing \<Rightarrow> bool \<Rightarrow> BoolResult" where
  "lexical_test t b = attempt_or InvalidArgument boolFailure (\<lambda>v. \<lparr>boolStatus = successStatus, boolValue = v\<rparr>) (try_value t b)"

definition isAbsolutePath :: "throwing \<Rightarrow> path \<Rightarrow> BoolResult" where
  "isAbsolutePath t p = lexical_test t (path_is_absolute p)"

definition isRelativePath :: "throwing \<Rightarrow> path \<Rightarrow> BoolResult" where
  "isRelativePath t p = lexical_test t (\<not> path_is_absolute p)"

definition pathFromTrustedUtf8 :: "byte list \<Rightarrow> throwing \<Rightarrow> path attempt" where
  "pathFromTrustedUtf8 t throws = (case native_of_utf8 t of None \<Rightarrow> ThrownOther | Some p \<Rightarrow> try_value throws p)"

definition pathFromUtf8 :: "throwing \<Rightarrow> byte list \<Rightarrow> PathResult" where
  "pathFromUtf8 throws t =
    (if \<not> validUtf8Text t then pathFailure (statusOf EncodingFailed)
     else attempt_or EncodingFailed pathFailure (\<lambda>p. \<lparr>pathStatus = successStatus, resultPath = p\<rparr>) (pathFromTrustedUtf8 t throws))"

text \<open>The overload for \<^verbatim>\<open>char8_t\<close> copies the bytes first.\<close>

definition pathFromUtf8_u8 :: "throwing \<Rightarrow> throwing \<Rightarrow> byte list \<Rightarrow> PathResult" where
  "pathFromUtf8_u8 copy throws t = attempt_or EncodingFailed pathFailure (pathFromUtf8 throws) (try_value copy t)"

definition pathToUtf8 :: "throwing \<Rightarrow> path \<Rightarrow> Utf8PathResult" where
  "pathToUtf8 throws p =
    attempt_or EncodingFailed utf8Failure (\<lambda>t. if \<not> validUtf8Text t then utf8Failure (statusOf EncodingFailed)
        else \<lparr>utf8Status = successStatus, resultUtf8 = t\<rparr>)
      (case utf8_of_native p of None \<Rightarrow> ThrownOther | Some t \<Rightarrow> try_value throws t)"

section \<open>Decoding inverts encoding\<close>

lemma scalars_of_utf8_text: "list_all isScalarValue ss \<Longrightarrow> scalars_of_utf8 (utf8_text ss) = Some ss"
proof (induction ss)
  case Nil
  then show ?case by (simp add: scalars_of_utf8.simps)
next
  case (Cons c ss)
  then show ?case
    using utf8.decode_enc [of c "utf8_text ss"] utf8.enc_nonempty [of c]
    by (subst scalars_of_utf8.simps) (auto simp: Let_def)
qed

lemma scalars_of_utf16_text: "list_all isScalarValue ss \<Longrightarrow> scalars_of_utf16 (utf16_text ss) = Some ss"
proof (induction ss)
  case Nil
  then show ?case by (simp add: scalars_of_utf16.simps)
next
  case (Cons c ss)
  then show ?case
    using utf16.decode_enc [of c "utf16_text ss"] utf16.enc_nonempty [of c]
    by (subst scalars_of_utf16.simps) (auto simp: Let_def)
qed

lemma scalars_of_utf8_sound: "scalars_of_utf8 t = Some ss \<Longrightarrow> list_all isScalarValue ss \<and> t = utf8_text ss"
proof (induction t arbitrary: ss rule: utf8.text_induct)
  case (stop t)
  then show ?case by (subst (asm) scalars_of_utf8.simps) (auto simp: Let_def split: if_splits)
next
  case (step c t)
  have "utf8_encoding c @ t \<noteq> []" using utf8.enc_nonempty [OF step(1)] by simp
  then obtain rest where "scalars_of_utf8 t = Some rest" "ss = c # rest"
    using step(3) utf8.decode_enc [OF step(1), of t] by (subst (asm) scalars_of_utf8.simps) (auto simp: Let_def)
  then show ?case using step(1,2) by auto
qed

lemma scalars_of_utf16_sound: "scalars_of_utf16 t = Some ss \<Longrightarrow> list_all isScalarValue ss \<and> t = utf16_text ss"
proof (induction t arbitrary: ss rule: utf16.text_induct)
  case (stop t)
  then show ?case by (subst (asm) scalars_of_utf16.simps) (auto simp: Let_def split: if_splits)
next
  case (step c t)
  have "utf16_encoding c @ t \<noteq> []" using utf16.enc_nonempty [OF step(1)] by simp
  then obtain rest where "scalars_of_utf16 t = Some rest" "ss = c # rest"
    using step(3) utf16.decode_enc [OF step(1), of t] by (subst (asm) scalars_of_utf16.simps) (auto simp: Let_def)
  then show ?case using step(1,2) by auto
qed

lemma path_of_scalars:
  assumes "list_all isScalarValue ss"
  shows "pathFromUtf8 NoThrow (utf8_text ss) = \<lparr>pathStatus = successStatus, resultPath = utf16_text ss\<rparr>"
proof -
  have "valid_utf8 (utf8_text ss)" using assms by (auto simp: valid_utf8_def)
  then show ?thesis
    using scalars_of_utf8_text [OF assms]
    by (simp add: pathFromUtf8_def pathFromTrustedUtf8_def native_of_utf8_def attempt_or_def try_value_def validUtf8Text_def Utf8_validate_iff)
qed

section \<open>Properties\<close>

text \<open>
  C22: a text becomes a path exactly when it is well-formed UTF-8, and the path gives the text back; conversely a path that has a UTF-8 form is
  what that form becomes. Nothing is lost or replaced in either direction.
\<close>

theorem path_utf8_roundtrip:
  "(ok (pathStatus (pathFromUtf8 NoThrow t)) \<longleftrightarrow> valid_utf8 t) \<and>
   (valid_utf8 t \<longrightarrow> pathToUtf8 NoThrow (resultPath (pathFromUtf8 NoThrow t)) = \<lparr>utf8Status = successStatus, resultUtf8 = t\<rparr>) \<and>
   (ok (utf8Status (pathToUtf8 NoThrow p)) \<longrightarrow>
      pathFromUtf8 NoThrow (resultUtf8 (pathToUtf8 NoThrow p)) = \<lparr>pathStatus = successStatus, resultPath = p\<rparr>)"
proof (intro conjI impI)
  note from_def = pathFromUtf8_def pathFromTrustedUtf8_def native_of_utf8_def attempt_or_def try_value_def validUtf8Text_def Utf8_validate_iff
  note to_def = pathToUtf8_def utf8_of_native_def attempt_or_def try_value_def validUtf8Text_def Utf8_validate_iff
  show "ok (pathStatus (pathFromUtf8 NoThrow t)) \<longleftrightarrow> valid_utf8 t"
  proof
    assume "ok (pathStatus (pathFromUtf8 NoThrow t))"
    then show "valid_utf8 t" by (simp add: from_def pathFailure_def split: if_splits)
  next
    assume "valid_utf8 t"
    then show "ok (pathStatus (pathFromUtf8 NoThrow t))" using path_of_scalars by (auto simp: valid_utf8_def)
  qed
  assume "valid_utf8 t"
  then obtain ss where ss: "list_all isScalarValue ss" "t = utf8_text ss" by (auto simp: valid_utf8_def)
  then have "valid_utf8 (utf8_text ss)" by (auto simp: valid_utf8_def)
  then show "pathToUtf8 NoThrow (resultPath (pathFromUtf8 NoThrow t)) = \<lparr>utf8Status = successStatus, resultUtf8 = t\<rparr>"
    using path_of_scalars [OF ss(1)] ss(2) scalars_of_utf16_text [OF ss(1)] by (simp add: to_def)
next
  assume to: "ok (utf8Status (pathToUtf8 NoThrow p))"
  note to_def = pathToUtf8_def utf8_of_native_def attempt_or_def try_value_def
  obtain ss where ss: "scalars_of_utf16 p = Some ss"
    using to by (cases "scalars_of_utf16 p") (simp_all add: to_def utf8Failure_def)
  note sound = scalars_of_utf16_sound [OF ss]
  have "valid_utf8 (utf8_text ss)" using sound by (auto simp: valid_utf8_def)
  then have "pathToUtf8 NoThrow p = \<lparr>utf8Status = successStatus, resultUtf8 = utf8_text ss\<rparr>"
    by (simp add: to_def ss validUtf8Text_def Utf8_validate_iff)
  then show "pathFromUtf8 NoThrow (resultUtf8 (pathToUtf8 NoThrow p)) = \<lparr>pathStatus = successStatus, resultPath = p\<rparr>"
    using path_of_scalars sound by simp
qed

theorem path_utf8_roundtrip_witness:
  "ok (pathStatus (pathFromUtf8 NoThrow [0x43, 0x3A, 0x5C, 0xC3, 0xA9])) \<and>
   pathToUtf8 NoThrow [0x43, 0x3A, 0x5C, 0xE9] = \<lparr>utf8Status = successStatus, resultUtf8 = [0x43, 0x3A, 0x5C, 0xC3, 0xA9]\<rparr>"
proof -
  have encoded: "[0x43, 0x3A, 0x5C, 0xC3, 0xA9] = utf8_text [0x43, 0x3A, 0x5C, 0xE9]" by code_simp
  have native: "utf16_text [0x43, 0x3A, 0x5C, 0xE9] = [0x43, 0x3A, 0x5C, 0xE9]" by code_simp
  have scalars: "list_all isScalarValue [0x43, 0x3A, 0x5C, 0xE9]" by code_simp
  have valid: "valid_utf8 [0x43, 0x3A, 0x5C, 0xC3, 0xA9]" unfolding valid_utf8_def using encoded scalars by blast
  have "resultPath (pathFromUtf8 NoThrow [0x43, 0x3A, 0x5C, 0xC3, 0xA9]) = [0x43, 0x3A, 0x5C, 0xE9]"
    by (simp only: encoded path_of_scalars [OF scalars] PathResult.select_convs native)
  then show ?thesis using path_utf8_roundtrip [of "[0x43, 0x3A, 0x5C, 0xC3, 0xA9]"] valid by simp
qed

end
