(* ===== verification/FileSystem_Platform.thy ===== *)
theory FileSystem_Platform
  imports FileSystem_Path IO_Transfer
begin

text \<open>
  The types of \<^verbatim>\<open>foundation/filesystem\<close> (\<^verbatim>\<open>entry.h\<close>, \<^verbatim>\<open>file.h\<close>, \<^verbatim>\<open>directory.h\<close>), the platform interface below it
  (\<^verbatim>\<open>internal/filesystem_platform.h\<close>) as a record of functions that thread the state of the operating system, and the handle classes over it
  (\<^verbatim>\<open>core/filesystem_handles.inl\<close>). A handle object is its \<^verbatim>\<open>unique_ptr\<close> to native state, \<open>None\<close> when that is empty; its
  destructor is an operation on the operating system's state.
\<close>

section \<open>Types\<close>

datatype EntryKind = EK_RegularFile | EK_Directory | EK_Symlink | EK_Other | OtherEntryKind nat

datatype ReplaceMode = FailIfExists | ReplaceExisting | OtherReplaceMode nat

datatype SymlinkPolicy = DoNotFollow | FollowFinal | FollowAll | OtherSymlinkPolicy nat

datatype Access = ReadAccess | WriteAccess | ReadWriteAccess | OtherAccess nat

datatype OpenMode = OpenExisting | CreateNew | OpenOrCreate | TruncateExisting | CreateOrTruncate | OtherOpenMode nat

datatype InitialPosition = Beginning | EndOfFile | OtherInitialPosition nat

datatype WriterMode = W_CreateNew | W_CreateOrTruncate | W_TruncateExisting | W_OpenOrCreate | W_AppendOrCreate | W_AppendExisting
  | OtherWriterMode nat

datatype WriteMode = WM_CreateNew | WM_CreateOrTruncate | WM_TruncateExisting | OtherWriteMode nat

datatype AppendMode = AM_AppendOrCreate | AM_AppendExisting | OtherAppendMode nat

datatype LockMode = SharedLock | ExclusiveLock

datatype LockOutcome = LockAcquired | WouldBlock

datatype CopyMetadataMode = CM_None | CM_Basic | OtherCopyMetadataMode nat

text \<open>File shares are the bits of an 8-bit mask.\<close>

type_synonym Share = "8 word"

definition ShareNone :: Share where "ShareNone = 0"

definition ShareAll :: Share where "ShareAll = 7"

record EntryInfo =
  entryKind :: EntryKind
  entrySize :: nat
  hasSize :: bool
  lastWriteTime :: int
  hasLastWriteTime :: bool
  readOnly :: bool

definition defaultEntryInfo :: EntryInfo where
  "defaultEntryInfo = \<lparr>entryKind = EK_Other, entrySize = 0, hasSize = False, lastWriteTime = 0, hasLastWriteTime = False, readOnly = False\<rparr>"

record EntryInfoResult =
  infoStatus :: Status
  infoOf :: EntryInfo

record LastWriteTimeResult =
  timeStatus :: Status
  timeOf :: int

record RemoveOptions =
  removeIfMissing :: bool
  removePolicy :: SymlinkPolicy

record MoveOptions =
  moveReplace :: ReplaceMode
  movePolicy :: SymlinkPolicy
  moveCreateParents :: bool

record CreateOptions =
  succeedIfAlreadyExists :: bool
  createPolicy :: SymlinkPolicy

record ListOptions =
  includeFiles :: bool
  includeDirectories :: bool
  includeSymlinks :: bool
  includeOther :: bool
  includeHidden :: bool
  listPolicy :: SymlinkPolicy
  maxEntries :: nat

record Entry =
  entryPath :: path
  entryInfo :: EntryInfo

definition defaultEntry :: Entry where
  "defaultEntry = \<lparr>entryPath = [], entryInfo = defaultEntryInfo\<rparr>"

record ListResult =
  listStatus :: Status
  entries :: "Entry list"

record CursorNextResult =
  nextStatus :: Status
  nextEntry :: Entry
  nextHasEntry :: bool

record RemoveTreeOptions =
  treeIfMissing :: bool
  treePolicy :: SymlinkPolicy
  treeMaxEntries :: nat

record RemoveTreeResult =
  treeStatus :: Status
  removedEntries :: nat

record OpenOptions =
  openAccess :: Access
  openMode :: OpenMode
  openInitialPosition :: InitialPosition
  openShare :: Share
  openPolicy :: SymlinkPolicy
  openCreateParents :: bool
  openFlushOnClose :: FlushMode

record ReaderOpenOptions =
  readerShare :: Share
  readerPolicy :: SymlinkPolicy

record WriterOpenOptions =
  writerMode :: WriterMode
  writerShare :: Share
  writerPolicy :: SymlinkPolicy
  writerCreateParents :: bool
  writerFlushOnClose :: FlushMode

record ReadOptions =
  readOpen :: ReaderOpenOptions
  readMaxBytes :: nat
  readBufferSize :: nat

record WriteOptions =
  writeMode :: WriteMode
  writeShare :: Share
  writePolicy :: SymlinkPolicy
  writeCreateParents :: bool
  writeFlush :: FlushMode

record AppendOptions =
  appendModeOf :: AppendMode
  appendShare :: Share
  appendPolicy :: SymlinkPolicy
  appendCreateParents :: bool
  appendFlush :: FlushMode

record AtomicWriteOptions =
  atomicCreateParents :: bool
  atomicReplace :: ReplaceMode
  atomicPolicy :: SymlinkPolicy
  atomicFlush :: FlushMode
  flushParentDirectory :: bool
  temporaryNamePrefix :: "byte list"

record CopyOptions =
  copyReplace :: ReplaceMode
  copyPolicy :: SymlinkPolicy
  copyCreateParents :: bool
  copyMetadata :: CopyMetadataMode
  copyFlush :: FlushMode

section \<open>The platform\<close>

record FileState =
  nativeHandle :: "nat option"
  stateAccess :: Access
  stateFlushOnClose :: FlushMode
  activeLocks :: "nat option"
  readable :: bool
  writable :: bool
  appendMode :: bool

record FileLockState =
  lockHandle :: "nat option"
  lockCounter :: "nat option"
  lockActive :: bool
  lockExclusive :: bool

record NativeLockResult =
  nativeLockStatus :: Status
  nativeLockOutcome :: LockOutcome
  nativeLockState :: "FileLockState option"

record 'c DirectoryCursorOpenResult =
  cursorStatus :: Status
  cursorState :: "'c option"

record DirectoryCursorNextResult =
  cursorNextStatus :: Status
  cursorEntry :: Entry
  cursorHidden :: bool
  cursorHasEntry :: bool

text \<open>Where the portable code allocates; whether an exception leaves the allocation depends on the moment.\<close>

datatype alloc_site = ParentOfTarget | NewEntry | NewFrame | TemporaryName | CopyBuffer

text \<open>
  \<open>'w\<close> is the operating system's state and that of the other threads, \<open>'c\<close> the platform's directory cursor. The release functions are
  the destructors of native state. \<open>p_ticks\<close> is the steady clock and \<open>p_counter\<close> an atomic \<^verbatim>\<open>fetch_add\<close> on a counter that all
  threads share.
\<close>

record ('w, 'c) Platform =
  p_queryEntry :: "path \<Rightarrow> SymlinkPolicy \<Rightarrow> 'w \<Rightarrow> EntryInfoResult \<times> 'w"
  p_openReader :: "path \<Rightarrow> ReaderOpenOptions \<Rightarrow> 'w \<Rightarrow> Status \<times> FileState option \<times> 'w"
  p_openWriter :: "path \<Rightarrow> WriterOpenOptions \<Rightarrow> 'w \<Rightarrow> Status \<times> FileState option \<times> 'w"
  p_openFile :: "path \<Rightarrow> OpenOptions \<Rightarrow> 'w \<Rightarrow> Status \<times> FileState option \<times> 'w"
  p_readFile :: "FileState \<Rightarrow> byte list \<Rightarrow> 'w \<Rightarrow> ReadResult \<times> byte list \<times> FileState \<times> 'w"
  p_writeFile :: "FileState \<Rightarrow> byte_view \<Rightarrow> 'w \<Rightarrow> WriteResult \<times> FileState \<times> 'w"
  p_flushFile :: "FileState \<Rightarrow> FlushMode \<Rightarrow> 'w \<Rightarrow> Status \<times> FileState \<times> 'w"
  p_closeFile :: "FileState \<Rightarrow> 'w \<Rightarrow> Status \<times> FileState \<times> 'w"
  p_releaseFile :: "FileState \<Rightarrow> 'w \<Rightarrow> 'w"
  p_filePosition :: "FileState \<Rightarrow> 'w \<Rightarrow> PositionResult"
  p_fileSize :: "FileState \<Rightarrow> 'w \<Rightarrow> SizeResult"
  p_seekFile :: "FileState \<Rightarrow> int \<Rightarrow> SeekOrigin \<Rightarrow> 'w \<Rightarrow> Status \<times> FileState \<times> 'w"
  p_resizeFile :: "FileState \<Rightarrow> nat \<Rightarrow> bool \<Rightarrow> 'w \<Rightarrow> Status \<times> FileState \<times> 'w"
  p_tryLockFile :: "FileState \<Rightarrow> LockMode \<Rightarrow> 'w \<Rightarrow> NativeLockResult \<times> FileState \<times> 'w"
  p_unlockFile :: "FileLockState \<Rightarrow> 'w \<Rightarrow> Status \<times> FileLockState \<times> 'w"
  p_releaseLock :: "FileLockState \<Rightarrow> 'w \<Rightarrow> 'w"
  p_movePath :: "path \<Rightarrow> path \<Rightarrow> ReplaceMode \<Rightarrow> SymlinkPolicy \<Rightarrow> 'w \<Rightarrow> Status \<times> 'w"
  p_createDirectory :: "path \<Rightarrow> CreateOptions \<Rightarrow> 'w \<Rightarrow> Status \<times> 'w"
  p_createDirectories :: "path \<Rightarrow> CreateOptions \<Rightarrow> 'w \<Rightarrow> Status \<times> 'w"
  p_openDirectoryCursor :: "path \<Rightarrow> SymlinkPolicy \<Rightarrow> 'w \<Rightarrow> 'c DirectoryCursorOpenResult \<times> 'w"
  p_openChildDirectoryCursor :: "'c \<Rightarrow> path \<Rightarrow> SymlinkPolicy \<Rightarrow> 'w \<Rightarrow> 'c DirectoryCursorOpenResult \<times> 'w"
  p_readDirectoryCursor :: "'c \<Rightarrow> 'w \<Rightarrow> DirectoryCursorNextResult \<times> 'c \<times> 'w"
  p_releaseCursor :: "'c \<Rightarrow> 'w \<Rightarrow> 'w"
  p_setReadOnly :: "path \<Rightarrow> bool \<Rightarrow> SymlinkPolicy \<Rightarrow> 'w \<Rightarrow> Status \<times> 'w"
  p_copyBasicMetadata :: "path \<Rightarrow> path \<Rightarrow> SymlinkPolicy \<Rightarrow> 'w \<Rightarrow> Status \<times> 'w"
  p_removeFile :: "path \<Rightarrow> RemoveOptions \<Rightarrow> 'w \<Rightarrow> Status \<times> 'w"
  p_removeEmptyDirectory :: "path \<Rightarrow> RemoveOptions \<Rightarrow> 'w \<Rightarrow> Status \<times> 'w"
  p_flushDirectory :: "path \<Rightarrow> 'w \<Rightarrow> Status \<times> 'w"
  p_equivalent :: "path \<Rightarrow> path \<Rightarrow> 'w \<Rightarrow> bool option"
  p_ticks :: "'w \<Rightarrow> 64 word \<times> 'w"
  p_counter :: "'w \<Rightarrow> 64 word \<times> 'w"
  p_throws :: "alloc_site \<Rightarrow> 'w \<Rightarrow> throwing"

section \<open>Failures and validation\<close>

definition sizeFailure :: "Status \<Rightarrow> SizeResult" where
  "sizeFailure status = \<lparr>sizeStatus = status, sizeBytes = 0\<rparr>"

definition lastWriteTimeFailure :: "Status \<Rightarrow> LastWriteTimeResult" where
  "lastWriteTimeFailure status = \<lparr>timeStatus = status, timeOf = 0\<rparr>"

definition entryInfoFailure :: "Status \<Rightarrow> EntryInfoResult" where
  "entryInfoFailure status = \<lparr>infoStatus = status, infoOf = defaultEntryInfo\<rparr>"

definition listDirectoryFailure :: "Status \<Rightarrow> ListResult" where
  "listDirectoryFailure status = \<lparr>listStatus = status, entries = []\<rparr>"

definition includeDirectoryEntryKind :: "EntryKind \<Rightarrow> ListOptions \<Rightarrow> bool" where
  "includeDirectoryEntryKind kind options = (case kind of
     EK_RegularFile \<Rightarrow> includeFiles options
   | EK_Directory \<Rightarrow> includeDirectories options
   | EK_Symlink \<Rightarrow> includeSymlinks options
   | EK_Other \<Rightarrow> includeOther options
   | OtherEntryKind _ \<Rightarrow> False)"

definition removeTreeFailure :: "Status \<Rightarrow> nat \<Rightarrow> RemoveTreeResult" where
  "removeTreeFailure status removed = \<lparr>treeStatus = status, removedEntries = removed\<rparr>"

definition writeFailure :: "Status \<Rightarrow> nat \<Rightarrow> WriteResult" where
  "writeFailure status written = writeResult status written"

fun isValidReplaceMode :: "ReplaceMode \<Rightarrow> bool" where
  "isValidReplaceMode FailIfExists = True"
| "isValidReplaceMode ReplaceExisting = True"
| "isValidReplaceMode (OtherReplaceMode _) = False"

definition isValidFileShare :: "Share \<Rightarrow> bool" where
  "isValidFileShare share \<longleftrightarrow> share AND NOT ShareAll = 0"

fun isValidSymlinkPolicy :: "SymlinkPolicy \<Rightarrow> bool" where
  "isValidSymlinkPolicy DoNotFollow = True"
| "isValidSymlinkPolicy FollowFinal = True"
| "isValidSymlinkPolicy FollowAll = True"
| "isValidSymlinkPolicy (OtherSymlinkPolicy _) = False"

fun isValidFileAccess :: "Access \<Rightarrow> bool" where
  "isValidFileAccess (OtherAccess _) = False"
| "isValidFileAccess _ = True"

fun isValidFileOpenMode :: "OpenMode \<Rightarrow> bool" where
  "isValidFileOpenMode (OtherOpenMode _) = False"
| "isValidFileOpenMode _ = True"

fun isValidFileWriterMode :: "WriterMode \<Rightarrow> bool" where
  "isValidFileWriterMode (OtherWriterMode _) = False"
| "isValidFileWriterMode _ = True"

fun isValidInitialPosition :: "InitialPosition \<Rightarrow> bool" where
  "isValidInitialPosition (OtherInitialPosition _) = False"
| "isValidInitialPosition _ = True"

fun isValidCopyMetadataMode :: "CopyMetadataMode \<Rightarrow> bool" where
  "isValidCopyMetadataMode (OtherCopyMetadataMode _) = False"
| "isValidCopyMetadataMode _ = True"

definition opensForWrite :: "Access \<Rightarrow> bool" where
  "opensForWrite access \<longleftrightarrow> access = WriteAccess \<or> access = ReadWriteAccess"

fun modeRequiresWrite :: "OpenMode \<Rightarrow> bool" where
  "modeRequiresWrite OpenExisting = False"
| "modeRequiresWrite (OtherOpenMode _) = False"
| "modeRequiresWrite _ = True"

definition hasPathSeparator :: "byte list \<Rightarrow> bool" where
  "hasPathSeparator t \<longleftrightarrow> 0x2F \<in> set t \<or> 0x5C \<in> set t \<or> 0 \<in> set t"

definition validateAtomicTemporaryPrefix :: "byte list \<Rightarrow> Status" where
  "validateAtomicTemporaryPrefix prefix_text =
    (if \<not> validUtf8Text prefix_text then statusOf EncodingFailed
     else if prefix_text = [] \<or> prefix_text = [0x2E] \<or> prefix_text = [0x2E, 0x2E] \<or> hasPathSeparator prefix_text then statusOf InvalidArgument
     else successStatus)"

section \<open>Queries\<close>

definition queryEntry :: "('w, 'c) Platform \<Rightarrow> path \<Rightarrow> SymlinkPolicy \<Rightarrow> 'w \<Rightarrow> EntryInfoResult \<times> 'w" where
  "queryEntry p path policy w =
    (if path = [] then (\<lparr>infoStatus = statusOf InvalidArgument, infoOf = defaultEntryInfo\<rparr>, w)
     else if isValidSymlinkPolicy policy then p_queryEntry p path policy w
     else (\<lparr>infoStatus = statusOf InvalidArgument, infoOf = defaultEntryInfo\<rparr>, w))"

definition createDirectory :: "('w, 'c) Platform \<Rightarrow> path \<Rightarrow> CreateOptions \<Rightarrow> 'w \<Rightarrow> Status \<times> 'w" where
  "createDirectory p path options w = p_createDirectory p path options w"

definition createDirectories :: "('w, 'c) Platform \<Rightarrow> path \<Rightarrow> CreateOptions \<Rightarrow> 'w \<Rightarrow> Status \<times> 'w" where
  "createDirectories p path options w = p_createDirectories p path options w"

definition validateDirectoryExists :: "('w, 'c) Platform \<Rightarrow> path \<Rightarrow> SymlinkPolicy \<Rightarrow> 'w \<Rightarrow> Status \<times> 'w" where
  "validateDirectoryExists p path policy w = (case queryEntry p path policy w of (result, w') \<Rightarrow>
     (if \<not> ok (infoStatus result) then infoStatus result
      else if entryKind (infoOf result) \<noteq> EK_Directory then statusOf NotDirectory
      else successStatus, w'))"

definition validateParentDirectory :: "('w, 'c) Platform \<Rightarrow> path \<Rightarrow> bool \<Rightarrow> SymlinkPolicy \<Rightarrow> 'w \<Rightarrow> Status \<times> 'w" where
  "validateParentDirectory p path createMissing policy w =
    attempt_or Unknown (\<lambda>status. (status, w))
      (\<lambda>parent. if parent = [] then (successStatus, w)
         else if createMissing then createDirectories p parent \<lparr>succeedIfAlreadyExists = True, createPolicy = policy\<rparr> w
         else validateDirectoryExists p parent policy w)
      (try_value (p_throws p ParentOfTarget w) (path_parent path))"

definition finalEntryIsSymlink :: "('w, 'c) Platform \<Rightarrow> path \<Rightarrow> 'w \<Rightarrow> bool \<times> 'w" where
  "finalEntryIsSymlink p path w = (case queryEntry p path DoNotFollow w of (result, w') \<Rightarrow>
     (ok (infoStatus result) \<and> entryKind (infoOf result) = EK_Symlink, w'))"

text \<open>\<open>p_equivalent\<close> is \<^verbatim>\<open>std::filesystem::equivalent\<close>, \<open>None\<close> when it sets an error code.\<close>

definition equivalentOrSameLexically :: "('w, 'c) Platform \<Rightarrow> path \<Rightarrow> path \<Rightarrow> 'w \<Rightarrow> bool" where
  "equivalentOrSameLexically p left right w \<longleftrightarrow> path_equal left right \<or> p_equivalent p left right w = Some True"

section \<open>A platform that does nothing\<close>

text \<open>Every request fails and leaves the state as it is; concrete platforms replace what they need.\<close>

definition idle_platform :: "('w, 'c) Platform" where
  "idle_platform = \<lparr>
     p_queryEntry = \<lambda>t policy w. (\<lparr>infoStatus = statusOf NotFound, infoOf = defaultEntryInfo\<rparr>, w),
     p_openReader = \<lambda>t options w. (statusOf NotFound, None, w),
     p_openWriter = \<lambda>t options w. (statusOf NotFound, None, w),
     p_openFile = \<lambda>t options w. (statusOf NotFound, None, w),
     p_readFile = \<lambda>f dest w. (readResult (statusOf NotOpen) 0 False, dest, f, w),
     p_writeFile = \<lambda>f bytes w. (writeResult (statusOf NotOpen) 0, f, w),
     p_flushFile = \<lambda>f mode w. (statusOf NotOpen, f, w),
     p_closeFile = \<lambda>f w. (statusOf NotOpen, f, w),
     p_releaseFile = \<lambda>f w. w,
     p_filePosition = \<lambda>f w. \<lparr>positionStatus = statusOf NotOpen, position = 0\<rparr>,
     p_fileSize = \<lambda>f w. \<lparr>sizeStatus = statusOf NotOpen, sizeBytes = 0\<rparr>,
     p_seekFile = \<lambda>f offset origin w. (statusOf NotOpen, f, w),
     p_resizeFile = \<lambda>f n b w. (statusOf NotOpen, f, w),
     p_tryLockFile = \<lambda>f mode w. (\<lparr>nativeLockStatus = statusOf NotOpen, nativeLockOutcome = WouldBlock, nativeLockState = None\<rparr>, f, w),
     p_unlockFile = \<lambda>l w. (statusOf NotOpen, l, w),
     p_releaseLock = \<lambda>l w. w,
     p_movePath = \<lambda>s t mode policy w. (statusOf NotFound, w),
     p_createDirectory = \<lambda>t options w. (statusOf NotFound, w),
     p_createDirectories = \<lambda>t options w. (statusOf NotFound, w),
     p_openDirectoryCursor = \<lambda>t policy w. (\<lparr>cursorStatus = statusOf NotFound, cursorState = None\<rparr>, w),
     p_openChildDirectoryCursor = \<lambda>c t policy w. (\<lparr>cursorStatus = statusOf NotFound, cursorState = None\<rparr>, w),
     p_readDirectoryCursor = \<lambda>c w. (\<lparr>cursorNextStatus = statusOf NotOpen, cursorEntry = defaultEntry, cursorHidden = False, cursorHasEntry = False\<rparr>, c, w),
     p_releaseCursor = \<lambda>c w. w,
     p_setReadOnly = \<lambda>t b policy w. (statusOf NotFound, w),
     p_copyBasicMetadata = \<lambda>s t policy w. (statusOf NotFound, w),
     p_removeFile = \<lambda>t options w. (statusOf NotFound, w),
     p_removeEmptyDirectory = \<lambda>t options w. (statusOf NotFound, w),
     p_flushDirectory = \<lambda>t w. (statusOf NotFound, w),
     p_equivalent = \<lambda>s t w. None,
     p_ticks = \<lambda>w. (0, w),
     p_counter = \<lambda>w. (0, w),
     p_throws = \<lambda>site w. NoThrow\<rparr>"

end
