(* ===== verification/FileSystem_Handles.thy ===== *)
theory FileSystem_Handles
  imports FileSystem_Platform
begin

text \<open>
  The handle classes of \<^verbatim>\<open>core/filesystem_handles.inl\<close>: \<^verbatim>\<open>FileReader\<close>, \<^verbatim>\<open>FileWriter\<close> and \<^verbatim>\<open>File\<close> over native file state,
  \<^verbatim>\<open>FileLock\<close> and \<^verbatim>\<open>DirectoryCursor\<close>. The state of a file handle is its native state, if any, beside that of the operating
  system, so that the three classes are the readers and writers of \<open>IO_Stream\<close>.
\<close>

section \<open>File handles\<close>

type_synonym 'w handle = "FileState option \<times> 'w"

definition stateIsOpen :: "FileState option \<Rightarrow> bool" where
  "stateIsOpen state \<longleftrightarrow> (case state of None \<Rightarrow> False | Some f \<Rightarrow> nativeHandle f \<noteq> None)"

text \<open>\<^verbatim>\<open>unique_ptr::reset\<close>: the destructor of the native state that is given up.\<close>

definition resetFile :: "('w, 'c) Platform \<Rightarrow> FileState option \<Rightarrow> 'w \<Rightarrow> 'w" where
  "resetFile p state w = (case state of None \<Rightarrow> w | Some f \<Rightarrow> p_releaseFile p f w)"

text \<open>What follows the platform's open: the new state is moved in over the old one, or given up.\<close>

definition adopt_state :: "('w, 'c) Platform \<Rightarrow> FileState option \<Rightarrow> Status \<times> FileState option \<times> 'w \<Rightarrow> Status \<times> 'w handle" where
  "adopt_state p state opened = (case opened of (status, new_state, w) \<Rightarrow>
     if ok status then (status, new_state, resetFile p state w) else (status, state, resetFile p new_state w))"

definition FileReader_open :: "('w, 'c) Platform \<Rightarrow> path \<Rightarrow> ReaderOpenOptions \<Rightarrow> 'w handle \<Rightarrow> Status \<times> 'w handle" where
  "FileReader_open p path options = (\<lambda>(state, w).
     if stateIsOpen state then (statusOf AlreadyOpen, state, w)
     else if \<not> isValidFileShare (readerShare options) \<or> \<not> isValidSymlinkPolicy (readerPolicy options) then (statusOf InvalidArgument, state, w)
     else adopt_state p state (p_openReader p path options w))"

definition FileWriter_open :: "('w, 'c) Platform \<Rightarrow> path \<Rightarrow> WriterOpenOptions \<Rightarrow> 'w handle \<Rightarrow> Status \<times> 'w handle" where
  "FileWriter_open p path options = (\<lambda>(state, w).
     if stateIsOpen state then (statusOf AlreadyOpen, state, w)
     else if \<not> isValidFileWriterMode (writerMode options) \<or> \<not> isValidFileShare (writerShare options) \<or>
       \<not> isValidSymlinkPolicy (writerPolicy options) \<or> \<not> isValidFlushMode (writerFlushOnClose options)
     then (statusOf InvalidArgument, state, w)
     else case validateParentDirectory p path (writerCreateParents options) (writerPolicy options) w of (parentStatus, w1) \<Rightarrow>
       if \<not> ok parentStatus then (parentStatus, state, w1)
       else adopt_state p state (p_openWriter p path options w1))"

definition File_open :: "('w, 'c) Platform \<Rightarrow> path \<Rightarrow> OpenOptions \<Rightarrow> 'w handle \<Rightarrow> Status \<times> 'w handle" where
  "File_open p path options = (\<lambda>(state, w).
     if stateIsOpen state then (statusOf AlreadyOpen, state, w)
     else if \<not> isValidFileAccess (openAccess options) \<or> \<not> isValidFileOpenMode (openMode options) \<or>
       \<not> isValidInitialPosition (openInitialPosition options) \<or> \<not> isValidFileShare (openShare options) \<or>
       \<not> isValidSymlinkPolicy (openPolicy options) \<or> \<not> isValidFlushMode (openFlushOnClose options)
     then (statusOf InvalidArgument, state, w)
     else if modeRequiresWrite (openMode options) \<and> \<not> opensForWrite (openAccess options) then (statusOf InvalidArgument, state, w)
     else if openFlushOnClose options \<noteq> FM_None \<and> \<not> opensForWrite (openAccess options) then (statusOf InvalidArgument, state, w)
     else case validateParentDirectory p path (openCreateParents options) (openPolicy options) w of (parentStatus, w1) \<Rightarrow>
       if \<not> ok parentStatus then (parentStatus, state, w1)
       else adopt_state p state (p_openFile p path options w1))"

text \<open>The operations the three classes share.\<close>

definition file_read :: "('w, 'c) Platform \<Rightarrow> 'w handle \<Rightarrow> byte list \<Rightarrow> ReadResult \<times> byte list \<times> 'w handle" where
  "file_read p = (\<lambda>(state, w) destination.
     if \<not> stateIsOpen state then (readResult (statusOf NotOpen) 0 False, destination, state, w)
     else case p_readFile p (the state) destination w of (r, destination', f, w') \<Rightarrow> (r, destination', Some f, w'))"

definition file_write :: "('w, 'c) Platform \<Rightarrow> 'w handle \<Rightarrow> byte_view \<Rightarrow> WriteResult \<times> 'w handle" where
  "file_write p = (\<lambda>(state, w) bytes.
     if \<not> stateIsOpen state then (writeFailure (statusOf NotOpen) 0, state, w)
     else case p_writeFile p (the state) bytes w of (r, f, w') \<Rightarrow> (r, Some f, w'))"

definition file_flush :: "('w, 'c) Platform \<Rightarrow> 'w handle \<Rightarrow> FlushMode \<Rightarrow> Status \<times> 'w handle" where
  "file_flush p = (\<lambda>(state, w) mode.
     if \<not> stateIsOpen state then (statusOf NotOpen, state, w)
     else case p_flushFile p (the state) mode w of (status, f, w') \<Rightarrow> (status, Some f, w'))"

definition file_close :: "('w, 'c) Platform \<Rightarrow> 'w handle \<Rightarrow> Status \<times> 'w handle" where
  "file_close p = (\<lambda>(state, w).
     if \<not> stateIsOpen state then (successStatus, None, resetFile p state w)
     else case p_closeFile p (the state) w of (status, f, w') \<Rightarrow>
       if ok status then (status, None, resetFile p (Some f) w') else (status, Some f, w'))"

text \<open>A destructor closes and gives up what is left of the native state.\<close>

definition destroy_file :: "('w, 'c) Platform \<Rightarrow> 'w handle \<Rightarrow> 'w" where
  "destroy_file p h = (case file_close p h of (_, state, w) \<Rightarrow> resetFile p state w)"

definition file_position :: "('w, 'c) Platform \<Rightarrow> 'w handle \<Rightarrow> PositionResult" where
  "file_position p = (\<lambda>(state, w).
     if \<not> stateIsOpen state then \<lparr>positionStatus = statusOf NotOpen, position = 0\<rparr> else p_filePosition p (the state) w)"

definition file_size :: "('w, 'c) Platform \<Rightarrow> 'w handle \<Rightarrow> SizeResult" where
  "file_size p = (\<lambda>(state, w). if \<not> stateIsOpen state then sizeFailure (statusOf NotOpen) else p_fileSize p (the state) w)"

definition file_seek :: "('w, 'c) Platform \<Rightarrow> 'w handle \<Rightarrow> int \<Rightarrow> SeekOrigin \<Rightarrow> Status \<times> 'w handle" where
  "file_seek p = (\<lambda>(state, w) offset origin.
     if \<not> stateIsOpen state then (statusOf NotOpen, state, w)
     else case p_seekFile p (the state) offset origin w of (status, f, w') \<Rightarrow> (status, Some f, w'))"

definition FileReader :: "('w, 'c) Platform \<Rightarrow> 'w handle Reader" where
  "FileReader p = \<lparr>reader_isOpen = \<lambda>h. stateIsOpen (fst h), reader_canSeek = \<lambda>h. stateIsOpen (fst h), reader_read = file_read p,
     reader_close = file_close p, reader_position = file_position p, reader_size = file_size p, reader_seek = file_seek p\<rparr>"

definition FileWriter_canSeek :: "FileState option \<Rightarrow> bool" where
  "FileWriter_canSeek state \<longleftrightarrow> stateIsOpen state \<and> \<not> appendMode (the state)"

definition FileWriter :: "('w, 'c) Platform \<Rightarrow> 'w handle Writer" where
  "FileWriter p = \<lparr>writer_isOpen = \<lambda>h. stateIsOpen (fst h), writer_canSeek = \<lambda>h. FileWriter_canSeek (fst h), writer_write = file_write p,
     writer_flush = file_flush p, writer_close = file_close p, writer_position = file_position p, writer_seek = file_seek p\<rparr>"

definition File_access :: "FileState option \<Rightarrow> Access" where
  "File_access state = (if stateIsOpen state then stateAccess (the state) else ReadWriteAccess)"

definition File_resize :: "('w, 'c) Platform \<Rightarrow> 'w handle \<Rightarrow> nat \<Rightarrow> Status \<times> 'w handle" where
  "File_resize p = (\<lambda>(state, w) size_bytes.
     if \<not> stateIsOpen state then (statusOf NotOpen, state, w)
     else case p_resizeFile p (the state) size_bytes True w of (status, f, w') \<Rightarrow> (status, Some f, w'))"

definition File_resizeWithoutPositionRestore :: "('w, 'c) Platform \<Rightarrow> 'w handle \<Rightarrow> nat \<Rightarrow> Status \<times> 'w handle" where
  "File_resizeWithoutPositionRestore p = (\<lambda>(state, w) size_bytes.
     if \<not> stateIsOpen state then (statusOf NotOpen, state, w)
     else case p_resizeFile p (the state) size_bytes False w of (status, f, w') \<Rightarrow> (status, Some f, w'))"

section \<open>Locks\<close>

record FileLock =
  lockStateOf :: "FileLockState option"
  lockModeOf :: LockMode

definition newLock :: FileLock where
  "newLock = \<lparr>lockStateOf = None, lockModeOf = SharedLock\<rparr>"

record LockResult =
  lockStatus :: Status
  lockOutcome :: LockOutcome
  lockOf :: FileLock

definition lock_active :: "FileLock \<Rightarrow> bool" where
  "lock_active l \<longleftrightarrow> (case lockStateOf l of None \<Rightarrow> False | Some s \<Rightarrow> lockActive s)"

definition resetLock :: "('w, 'c) Platform \<Rightarrow> FileLockState option \<Rightarrow> 'w \<Rightarrow> 'w" where
  "resetLock p state w = (case state of None \<Rightarrow> w | Some s \<Rightarrow> p_releaseLock p s w)"

definition unlock :: "('w, 'c) Platform \<Rightarrow> FileLock \<Rightarrow> 'w \<Rightarrow> Status \<times> FileLock \<times> 'w" where
  "unlock p l w =
    (if \<not> lock_active l then (successStatus, l\<lparr>lockStateOf := None\<rparr>, resetLock p (lockStateOf l) w)
     else case p_unlockFile p (the (lockStateOf l)) w of (status, s, w') \<Rightarrow>
       if ok status then (status, l\<lparr>lockStateOf := None\<rparr>, resetLock p (Some s) w') else (status, l\<lparr>lockStateOf := Some s\<rparr>, w'))"

text \<open>A file may be locked while it is open. State that the platform hands out with a failure is given up when the result goes.\<close>

definition try_lock :: "('w, 'c) Platform \<Rightarrow> LockMode \<Rightarrow> 'w handle \<Rightarrow> LockResult \<times> 'w handle" where
  "try_lock p mode = (\<lambda>(state, w).
     if \<not> stateIsOpen state then (\<lparr>lockStatus = statusOf NotOpen, lockOutcome = WouldBlock, lockOf = newLock\<rparr>, state, w)
     else case p_tryLockFile p (the state) mode w of (r, f, w') \<Rightarrow>
       if \<not> ok (nativeLockStatus r) \<or> nativeLockOutcome r = WouldBlock
       then (\<lparr>lockStatus = nativeLockStatus r, lockOutcome = nativeLockOutcome r, lockOf = newLock\<rparr>, Some f, resetLock p (nativeLockState r) w')
       else (\<lparr>lockStatus = successStatus, lockOutcome = LockAcquired, lockOf = \<lparr>lockStateOf = nativeLockState r, lockModeOf = mode\<rparr>\<rparr>, Some f, w'))"

definition tryLockShared :: "('w, 'c) Platform \<Rightarrow> 'w handle \<Rightarrow> LockResult \<times> 'w handle" where
  "tryLockShared p = try_lock p SharedLock"

definition tryLockExclusive :: "('w, 'c) Platform \<Rightarrow> 'w handle \<Rightarrow> LockResult \<times> 'w handle" where
  "tryLockExclusive p = try_lock p ExclusiveLock"

definition destroy_lock :: "('w, 'c) Platform \<Rightarrow> FileLock \<Rightarrow> 'w \<Rightarrow> 'w" where
  "destroy_lock p l w = (case unlock p l w of (_, l', w') \<Rightarrow> resetLock p (lockStateOf l') w')"

section \<open>Directory cursors\<close>

record 'c DirectoryCursor =
  nativeCursor :: "'c option"
  cursorOptions :: ListOptions
  emittedEntries :: nat
  limitReached :: bool

definition kNoEntryLimit :: nat where "kNoEntryLimit = 2 ^ 64 - 1"

definition defaultListOptions :: ListOptions where
  "defaultListOptions = \<lparr>includeFiles = True, includeDirectories = True, includeSymlinks = True, includeOther = True, includeHidden = True,
     listPolicy = DoNotFollow, maxEntries = kNoEntryLimit\<rparr>"

definition newCursor :: "'c DirectoryCursor" where
  "newCursor = \<lparr>nativeCursor = None, cursorOptions = defaultListOptions, emittedEntries = 0, limitReached = False\<rparr>"

definition resetCursor :: "('w, 'c) Platform \<Rightarrow> 'c option \<Rightarrow> 'w \<Rightarrow> 'w" where
  "resetCursor p state w = (case state of None \<Rightarrow> w | Some c \<Rightarrow> p_releaseCursor p c w)"

definition DirectoryCursor_open :: "('w, 'c) Platform \<Rightarrow> path \<Rightarrow> ListOptions \<Rightarrow> 'c DirectoryCursor \<Rightarrow> 'w \<Rightarrow> Status \<times> 'c DirectoryCursor \<times> 'w" where
  "DirectoryCursor_open p path options c w =
    (if nativeCursor c \<noteq> None then (statusOf AlreadyOpen, c, w)
     else if path = [] \<or> \<not> isValidSymlinkPolicy (listPolicy options) then (statusOf InvalidArgument, c, w)
     else case p_openDirectoryCursor p path (listPolicy options) w of (opened, w') \<Rightarrow>
       if \<not> ok (cursorStatus opened) then (cursorStatus opened, c, resetCursor p (cursorState opened) w')
       else (successStatus, \<lparr>nativeCursor = cursorState opened, cursorOptions = options, emittedEntries = 0, limitReached = False\<rparr>, w'))"

definition DirectoryCursor_isOpen :: "'c DirectoryCursor \<Rightarrow> bool" where
  "DirectoryCursor_isOpen c \<longleftrightarrow> nativeCursor c \<noteq> None"

definition cursorFailure :: "Status \<Rightarrow> CursorNextResult" where
  "cursorFailure status = \<lparr>nextStatus = status, nextEntry = defaultEntry, nextHasEntry = False\<rparr>"

definition skips :: "ListOptions \<Rightarrow> DirectoryCursorNextResult \<Rightarrow> bool" where
  "skips options r \<longleftrightarrow> (\<not> includeHidden options \<and> cursorHidden r) \<or> \<not> includeDirectoryEntryKind (entryKind (entryInfo (cursorEntry r))) options"

text \<open>The loop goes on while the platform hands out entries that the options leave out.\<close>

partial_function (option) next_loop :: "('w, 'c) Platform \<Rightarrow> 'c DirectoryCursor \<Rightarrow> 'c \<Rightarrow> 'w \<Rightarrow> (CursorNextResult \<times> 'c DirectoryCursor \<times> 'w) option" where
  "next_loop p c native w =
    (case p_readDirectoryCursor p native w of (r, native', w') \<Rightarrow>
     let c' = c\<lparr>nativeCursor := Some native'\<rparr> in
     if \<not> ok (cursorNextStatus r) then Some (cursorFailure (cursorNextStatus r), c', w')
     else if \<not> cursorHasEntry r then Some (cursorFailure successStatus, c', w')
     else if skips (cursorOptions c) r then next_loop p c native' w'
     else if maxEntries (cursorOptions c) \<le> emittedEntries c then Some (cursorFailure (statusOf SizeLimitExceeded), c'\<lparr>limitReached := True\<rparr>, w')
     else Some (\<lparr>nextStatus = successStatus, nextEntry = cursorEntry r, nextHasEntry = True\<rparr>, c'\<lparr>emittedEntries := emittedEntries c + 1\<rparr>, w'))"

definition DirectoryCursor_next :: "('w, 'c) Platform \<Rightarrow> 'c DirectoryCursor \<Rightarrow> 'w \<Rightarrow> (CursorNextResult \<times> 'c DirectoryCursor \<times> 'w) option" where
  "DirectoryCursor_next p c w = (case nativeCursor c of
     None \<Rightarrow> Some (cursorFailure (statusOf NotOpen), c, w)
   | Some native \<Rightarrow> if limitReached c then Some (cursorFailure (statusOf SizeLimitExceeded), c, w) else next_loop p c native w)"

definition DirectoryCursor_close :: "('w, 'c) Platform \<Rightarrow> 'c DirectoryCursor \<Rightarrow> 'w \<Rightarrow> Status \<times> 'c DirectoryCursor \<times> 'w" where
  "DirectoryCursor_close p c w =
    (successStatus, c\<lparr>nativeCursor := None, emittedEntries := 0, limitReached := False\<rparr>, resetCursor p (nativeCursor c) w)"

end
