(* ===== verification/FileSystem_Operations.thy ===== *)
theory FileSystem_Operations
  imports FileSystem_Handles
begin

text \<open>
  The path-based operations of \<^verbatim>\<open>foundation/filesystem\<close>: metadata queries (\<^verbatim>\<open>core/filesystem_metadata.inl\<close>), copying, moving, removing
  and resizing (\<^verbatim>\<open>core/filesystem_mutations.inl\<close>), whole-file reads and writes (\<^verbatim>\<open>core/filesystem_whole_file.inl\<close>), and listing and
  removing directories (\<^verbatim>\<open>core/filesystem_directories.inl\<close>). The platform's functions do not throw, so the exception handlers of the
  code are reached from its own allocations only.
\<close>

section \<open>Metadata\<close>

definition exists_entry :: "('w, 'c) Platform \<Rightarrow> path \<Rightarrow> SymlinkPolicy \<Rightarrow> 'w \<Rightarrow> BoolResult \<times> 'w" where
  "exists_entry p path policy w = (case queryEntry p path policy w of (result, w') \<Rightarrow>
     (if code (infoStatus result) = NotFound then \<lparr>boolStatus = successStatus, boolValue = False\<rparr>
      else if \<not> ok (infoStatus result) then boolFailure (infoStatus result)
      else \<lparr>boolStatus = successStatus, boolValue = True\<rparr>, w'))"

definition getEntryInfo :: "('w, 'c) Platform \<Rightarrow> path \<Rightarrow> SymlinkPolicy \<Rightarrow> 'w \<Rightarrow> EntryInfoResult \<times> 'w" where
  "getEntryInfo p path policy w = (case queryEntry p path policy w of (result, w') \<Rightarrow>
     (if \<not> ok (infoStatus result) then entryInfoFailure (infoStatus result)
      else \<lparr>infoStatus = successStatus, infoOf = infoOf result\<rparr>, w'))"

text \<open>The three kind predicates differ in the kind alone.\<close>

definition is_kind :: "EntryKind \<Rightarrow> ('w, 'c) Platform \<Rightarrow> path \<Rightarrow> SymlinkPolicy \<Rightarrow> 'w \<Rightarrow> BoolResult \<times> 'w" where
  "is_kind kind p path policy w = (case queryEntry p path policy w of (result, w') \<Rightarrow>
     (if code (infoStatus result) = NotFound then \<lparr>boolStatus = successStatus, boolValue = False\<rparr>
      else if \<not> ok (infoStatus result) then boolFailure (infoStatus result)
      else \<lparr>boolStatus = successStatus, boolValue = (entryKind (infoOf result) = kind)\<rparr>, w'))"

definition isRegularFile :: "('w, 'c) Platform \<Rightarrow> path \<Rightarrow> SymlinkPolicy \<Rightarrow> 'w \<Rightarrow> BoolResult \<times> 'w" where
  "isRegularFile = is_kind EK_RegularFile"

definition isDirectory :: "('w, 'c) Platform \<Rightarrow> path \<Rightarrow> SymlinkPolicy \<Rightarrow> 'w \<Rightarrow> BoolResult \<times> 'w" where
  "isDirectory = is_kind EK_Directory"

definition isSymlink :: "('w, 'c) Platform \<Rightarrow> path \<Rightarrow> SymlinkPolicy \<Rightarrow> 'w \<Rightarrow> BoolResult \<times> 'w" where
  "isSymlink = is_kind EK_Symlink"

definition getFileSize :: "('w, 'c) Platform \<Rightarrow> path \<Rightarrow> SymlinkPolicy \<Rightarrow> 'w \<Rightarrow> SizeResult \<times> 'w" where
  "getFileSize p path policy w = (case getEntryInfo p path policy w of (info, w') \<Rightarrow>
     (if \<not> ok (infoStatus info) then sizeFailure (infoStatus info)
      else if entryKind (infoOf info) \<noteq> EK_RegularFile \<or> \<not> hasSize (infoOf info) then sizeFailure (statusOf InvalidArgument)
      else \<lparr>sizeStatus = successStatus, sizeBytes = entrySize (infoOf info)\<rparr>, w'))"

definition getLastWriteTime :: "('w, 'c) Platform \<Rightarrow> path \<Rightarrow> SymlinkPolicy \<Rightarrow> 'w \<Rightarrow> LastWriteTimeResult \<times> 'w" where
  "getLastWriteTime p path policy w = (case getEntryInfo p path policy w of (info, w') \<Rightarrow>
     (if \<not> ok (infoStatus info) then lastWriteTimeFailure (infoStatus info)
      else if \<not> hasLastWriteTime (infoOf info) then lastWriteTimeFailure (statusOf StatFailed)
      else \<lparr>timeStatus = successStatus, timeOf = lastWriteTime (infoOf info)\<rparr>, w'))"

definition isReadOnly :: "('w, 'c) Platform \<Rightarrow> path \<Rightarrow> SymlinkPolicy \<Rightarrow> 'w \<Rightarrow> BoolResult \<times> 'w" where
  "isReadOnly p path policy w = (case getEntryInfo p path policy w of (info, w') \<Rightarrow>
     (if \<not> ok (infoStatus info) then boolFailure (infoStatus info)
      else \<lparr>boolStatus = successStatus, boolValue = readOnly (infoOf info)\<rparr>, w'))"

section \<open>Mutations\<close>

definition setReadOnly :: "('w, 'c) Platform \<Rightarrow> path \<Rightarrow> bool \<Rightarrow> SymlinkPolicy \<Rightarrow> 'w \<Rightarrow> Status \<times> 'w" where
  "setReadOnly p path flag policy w = p_setReadOnly p path flag policy w"

text \<open>The check that \<open>removeFile\<close>, \<open>removeEmptyDirectory\<close> and others make before they act on an entry.\<close>

definition guarded_remove :: "('w, 'c) Platform \<Rightarrow> (path \<Rightarrow> RemoveOptions \<Rightarrow> 'w \<Rightarrow> Status \<times> 'w) \<Rightarrow> path \<Rightarrow> RemoveOptions \<Rightarrow> 'w \<Rightarrow> Status \<times> 'w" where
  "guarded_remove p remove path options w =
    (if path = [] \<or> \<not> isValidSymlinkPolicy (removePolicy options) then (statusOf InvalidArgument, w)
     else case (if removePolicy options \<noteq> DoNotFollow then finalEntryIsSymlink p path w else (False, w)) of (symlink, w') \<Rightarrow>
       if symlink then (statusOf Unsupported, w') else remove path options w')"

definition removeFile :: "('w, 'c) Platform \<Rightarrow> path \<Rightarrow> RemoveOptions \<Rightarrow> 'w \<Rightarrow> Status \<times> 'w" where
  "removeFile p = guarded_remove p (p_removeFile p)"

definition removeEmptyDirectory :: "('w, 'c) Platform \<Rightarrow> path \<Rightarrow> RemoveOptions \<Rightarrow> 'w \<Rightarrow> Status \<times> 'w" where
  "removeEmptyDirectory p = guarded_remove p (p_removeEmptyDirectory p)"

definition resizeFile :: "('w, 'c) Platform \<Rightarrow> path \<Rightarrow> nat \<Rightarrow> SymlinkPolicy \<Rightarrow> 'w \<Rightarrow> Status \<times> 'w" where
  "resizeFile p path size_bytes policy w =
    (case File_open p path \<lparr>openAccess = WriteAccess, openMode = OpenExisting, openInitialPosition = Beginning, openShare = ShareAll,
        openPolicy = policy, openCreateParents = False, openFlushOnClose = FM_None\<rparr> (None, w) of (openStatus, h) \<Rightarrow>
     if \<not> ok openStatus then (openStatus, destroy_file p h)
     else case File_resizeWithoutPositionRestore p h size_bytes of (resizeStatus, h1) \<Rightarrow>
       case file_close p h1 of (closeStatus, h2) \<Rightarrow>
       (if \<not> ok resizeStatus then resizeStatus else closeStatus, destroy_file p h2))"

definition truncateFile :: "('w, 'c) Platform \<Rightarrow> path \<Rightarrow> SymlinkPolicy \<Rightarrow> 'w \<Rightarrow> Status \<times> 'w" where
  "truncateFile p path policy w = resizeFile p path 0 policy w"

text \<open>The check of a destination by \<open>copyFile\<close> and \<open>movePath\<close>: a status when the operation must stop.\<close>

definition destination_blocked :: "ReplaceMode \<Rightarrow> EntryInfoResult \<Rightarrow> Status option" where
  "destination_blocked replaceMode destination =
    (if ok (infoStatus destination) \<and> replaceMode = FailIfExists then Some (statusOf AlreadyExists)
     else if \<not> ok (infoStatus destination) \<and> code (infoStatus destination) \<noteq> NotFound then Some (infoStatus destination)
     else None)"

definition movePath :: "('w, 'c) Platform \<Rightarrow> path \<Rightarrow> path \<Rightarrow> MoveOptions \<Rightarrow> 'w \<Rightarrow> Status \<times> 'w" where
  "movePath p from to options w =
    (if from = [] \<or> to = [] \<or> \<not> isValidReplaceMode (moveReplace options) \<or> \<not> isValidSymlinkPolicy (movePolicy options)
     then (statusOf InvalidArgument, w)
     else case (if movePolicy options \<noteq> DoNotFollow then finalEntryIsSymlink p from w else (False, w)) of (symlink, w1) \<Rightarrow>
     if symlink then (statusOf Unsupported, w1)
     else case getEntryInfo p from (movePolicy options) w1 of (source, w2) \<Rightarrow>
     if \<not> ok (infoStatus source) then (infoStatus source, w2)
     else if equivalentOrSameLexically p from to w2 then (successStatus, w2)
     else case queryEntry p to DoNotFollow w2 of (destination, w3) \<Rightarrow>
     (case destination_blocked (moveReplace options) destination of Some status \<Rightarrow> (status, w3)
      | None \<Rightarrow> (case validateParentDirectory p to (moveCreateParents options) (movePolicy options) w3 of (parentStatus, w4) \<Rightarrow>
        if \<not> ok parentStatus then (parentStatus, w4)
        else case p_movePath p from to (moveReplace options) (movePolicy options) w4 of (moveStatus, w5) \<Rightarrow>
          if \<not> ok moveStatus then (moveStatus, w5) else (successStatus, w5))))"

text \<open>
  The copy loop. It ends in a status, when the copy failed, or in the number of bytes copied; a source that delivers nothing and never ends
  keeps it running. Both handles are returned with the state of the operating system they share.
\<close>

partial_function (option) copy_loop :: "('w, 'c) Platform \<Rightarrow> FileState option \<Rightarrow> FileState option \<Rightarrow> 'w \<Rightarrow> byte list \<Rightarrow> 64 word \<Rightarrow>
    ((Status + 64 word) \<times> FileState option \<times> FileState option \<times> 'w) option" where
  "copy_loop p reader writer w buffer copiedBytes =
    (case file_read p (reader, w) buffer of (r, buffer', reader', w1) \<Rightarrow>
     if \<not> ok (readStatus r) then Some (Inl (readStatus r), reader', writer, w1)
     else if 0 < bytesRead r then
       (case writeAllBytes (FileWriter p) (writer, w1) \<lparr>view_data = 0, view_elems = take (bytesRead r) buffer'\<rparr> of (q, writer', w2) \<Rightarrow>
        if \<not> ok (writeStatus q) then Some (Inl (writeStatus q), reader', writer', w2)
        else let copiedBytes' = copiedBytes + of_nat (bytesWritten q) in
        if endOfStream r then Some (Inr copiedBytes', reader', writer', w2)
        else copy_loop p reader' writer' w2 buffer' copiedBytes')
     else if endOfStream r then Some (Inr copiedBytes, reader', writer, w1)
     else copy_loop p reader' writer w1 buffer' copiedBytes)"

text \<open>What every way out after both files are open ends with: the destructors, the writer's first.\<close>

definition destroy_both :: "('w, 'c) Platform \<Rightarrow> FileState option \<Rightarrow> FileState option \<Rightarrow> 'w \<Rightarrow> 'w" where
  "destroy_both p reader writer w = destroy_file p (reader, destroy_file p (writer, w))"

definition close_both :: "('w, 'c) Platform \<Rightarrow> FileState option \<Rightarrow> FileState option \<Rightarrow> 'w \<Rightarrow> Status \<times> Status \<times> 'w" where
  "close_both p reader writer w =
    (case file_close p (writer, w) of (writerStatus, writer', w1) \<Rightarrow>
     case file_close p (reader, w1) of (readerStatus, reader', w2) \<Rightarrow> (writerStatus, readerStatus, destroy_both p reader' writer' w2))"

definition copy_contents :: "('w, 'c) Platform \<Rightarrow> path \<Rightarrow> path \<Rightarrow> CopyOptions \<Rightarrow> EntryInfo \<Rightarrow> FileState option \<Rightarrow> FileState option \<Rightarrow> 'w \<Rightarrow> (Status \<times> 'w) option" where
  "copy_contents p from to options source reader writer w =
    (case p_throws p CopyBuffer w of
       BadAlloc \<Rightarrow> Some (statusOf OutOfMemory, destroy_both p reader writer w)
     | OtherThrow \<Rightarrow> Some (statusOf Unknown, destroy_both p reader writer w)
     | NoThrow \<Rightarrow> (case copy_loop p reader writer w (replicate kDefaultBufferSize 0) 0 of
         None \<Rightarrow> None
       | Some (Inl status, reader', writer', w1) \<Rightarrow> Some (status, snd (snd (close_both p reader' writer' w1)))
       | Some (Inr copiedBytes, reader', writer', w1) \<Rightarrow>
           if hasSize source \<and> unat copiedBytes \<noteq> entrySize source then Some (statusOf CopyFailed, snd (snd (close_both p reader' writer' w1)))
           else Some (case file_flush p (writer', w1) (copyFlush options) of (flushStatus, writer2, w2) \<Rightarrow>
             case close_both p reader' writer2 w2 of (writerCloseStatus, readerCloseStatus, w3) \<Rightarrow>
             if \<not> ok flushStatus then (flushStatus, w3)
             else if \<not> ok writerCloseStatus then (writerCloseStatus, w3)
             else if \<not> ok readerCloseStatus then (readerCloseStatus, w3)
             else if copyMetadata options = CM_Basic then p_copyBasicMetadata p from to (copyPolicy options) w3
             else (successStatus, w3))))"

definition copyFile :: "('w, 'c) Platform \<Rightarrow> path \<Rightarrow> path \<Rightarrow> CopyOptions \<Rightarrow> 'w \<Rightarrow> (Status \<times> 'w) option" where
  "copyFile p from to options w =
    (if from = [] \<or> to = [] \<or> \<not> isValidReplaceMode (copyReplace options) \<or> \<not> isValidSymlinkPolicy (copyPolicy options) \<or>
       \<not> isValidCopyMetadataMode (copyMetadata options) \<or> \<not> isValidFlushMode (copyFlush options)
     then Some (statusOf InvalidArgument, w)
     else case getEntryInfo p from (copyPolicy options) w of (source, w1) \<Rightarrow>
     if \<not> ok (infoStatus source) then Some (infoStatus source, w1)
     else if entryKind (infoOf source) \<noteq> EK_RegularFile then Some (statusOf InvalidArgument, w1)
     else if equivalentOrSameLexically p from to w1 then Some (statusOf InvalidArgument, w1)
     else case queryEntry p to DoNotFollow w1 of (destination, w2) \<Rightarrow>
     (case destination_blocked (copyReplace options) destination of Some status \<Rightarrow> Some (status, w2)
      | None \<Rightarrow> (case validateParentDirectory p to (copyCreateParents options) (copyPolicy options) w2 of (parentStatus, w3) \<Rightarrow>
        if \<not> ok parentStatus then Some (parentStatus, w3)
        else case FileReader_open p from \<lparr>readerShare = ShareAll, readerPolicy = copyPolicy options\<rparr> (None, w3) of (readerOpenStatus, reader, w4) \<Rightarrow>
        if \<not> ok readerOpenStatus then Some (readerOpenStatus, destroy_file p (reader, w4))
        else case FileWriter_open p to
            \<lparr>writerMode = (if copyReplace options = ReplaceExisting then W_CreateOrTruncate else W_CreateNew), writerShare = ShareNone,
             writerPolicy = copyPolicy options, writerCreateParents = False, writerFlushOnClose = FM_None\<rparr> (None, w4) of (writerOpenStatus, writer, w5) \<Rightarrow>
        if \<not> ok writerOpenStatus then
          (case file_close p (reader, w5) of (_, reader', w6) \<Rightarrow> Some (writerOpenStatus, destroy_both p reader' writer w6))
        else copy_contents p from to options (infoOf source) reader writer w5)))"

section \<open>Whole files\<close>

definition FS_readAllBytes :: "transfer_env \<Rightarrow> ('w, 'c) Platform \<Rightarrow> path \<Rightarrow> ReadOptions \<Rightarrow> 'w \<Rightarrow> ReadAllBytesResult \<times> 'w" where
  "FS_readAllBytes env p path options w =
    (if readBufferSize options = 0 then (bytesResult (statusOf InvalidArgument) [], w)
     else case FileReader_open p path (readOpen options) (None, w) of (openStatus, h) \<Rightarrow>
     if \<not> ok openStatus then (bytesResult openStatus [], destroy_file p h)
     else case readAllBytes env (FileReader p) h (readMaxBytes options) (readBufferSize options) of (result, h1) \<Rightarrow>
     case file_close p h1 of (closeStatus, h2) \<Rightarrow>
     (if ok (allStatus result) \<and> \<not> ok closeStatus then result\<lparr>allStatus := closeStatus\<rparr> else result, destroy_file p h2))"

definition FS_readAllText :: "transfer_env \<Rightarrow> ('w, 'c) Platform \<Rightarrow> path \<Rightarrow> ReadOptions \<Rightarrow> 'w \<Rightarrow> ReadAllTextResult \<times> 'w" where
  "FS_readAllText env p path options w =
    (if readBufferSize options = 0 then (textResult (statusOf InvalidArgument) [], w)
     else case FileReader_open p path (readOpen options) (None, w) of (openStatus, h) \<Rightarrow>
     if \<not> ok openStatus then (textResult openStatus [], destroy_file p h)
     else case readAllText env (FileReader p) h (readMaxBytes options) (readBufferSize options) of (result, h1) \<Rightarrow>
     case file_close p h1 of (closeStatus, h2) \<Rightarrow>
     (if ok (textStatus result) \<and> \<not> ok closeStatus then result\<lparr>textStatus := closeStatus\<rparr> else result, destroy_file p h2))"

text \<open>What \<open>writeAllBytes\<close> and \<open>appendBytes\<close> do once they have chosen the mode of the writer.\<close>

definition write_whole :: "('w, 'c) Platform \<Rightarrow> path \<Rightarrow> byte_view \<Rightarrow> WriterOpenOptions \<Rightarrow> FlushMode \<Rightarrow> 'w \<Rightarrow> WriteResult \<times> 'w" where
  "write_whole p path bytes writerOptions flushMode w =
    (case FileWriter_open p path writerOptions (None, w) of (openStatus, h) \<Rightarrow>
     if \<not> ok openStatus then (writeFailure openStatus 0, destroy_file p h)
     else case writeAllBytes (FileWriter p) h bytes of (result, h1) \<Rightarrow>
     if \<not> ok (writeStatus result) then (case file_close p h1 of (_, h2) \<Rightarrow> (result, destroy_file p h2))
     else case file_flush p h1 flushMode of (flushStatus, h2) \<Rightarrow>
     if \<not> ok flushStatus then (result\<lparr>writeStatus := flushStatus\<rparr>, destroy_file p h2)
     else case file_close p h2 of (closeStatus, h3) \<Rightarrow>
     (if \<not> ok closeStatus then result\<lparr>writeStatus := closeStatus\<rparr> else result, destroy_file p h3))"

fun write_mode :: "WriteMode \<Rightarrow> WriterMode option" where
  "write_mode WM_CreateNew = Some W_CreateNew"
| "write_mode WM_CreateOrTruncate = Some W_CreateOrTruncate"
| "write_mode WM_TruncateExisting = Some W_TruncateExisting"
| "write_mode (OtherWriteMode _) = None"

fun append_mode :: "AppendMode \<Rightarrow> WriterMode option" where
  "append_mode AM_AppendOrCreate = Some W_AppendOrCreate"
| "append_mode AM_AppendExisting = Some W_AppendExisting"
| "append_mode (OtherAppendMode _) = None"

definition FS_writeAllBytes :: "('w, 'c) Platform \<Rightarrow> path \<Rightarrow> byte_view \<Rightarrow> WriteOptions \<Rightarrow> 'w \<Rightarrow> WriteResult \<times> 'w" where
  "FS_writeAllBytes p path bytes options w =
    (if \<not> isValidFlushMode (writeFlush options) \<or> \<not> isValidFileShare (writeShare options) \<or> \<not> isValidSymlinkPolicy (writePolicy options)
     then (writeFailure (statusOf InvalidArgument) 0, w)
     else case write_mode (writeMode options) of None \<Rightarrow> (writeFailure (statusOf InvalidArgument) 0, w)
     | Some mode \<Rightarrow> write_whole p path bytes
         \<lparr>writerMode = mode, writerShare = writeShare options, writerPolicy = writePolicy options,
          writerCreateParents = writeCreateParents options, writerFlushOnClose = FM_None\<rparr> (writeFlush options) w)"

definition FS_appendBytes :: "('w, 'c) Platform \<Rightarrow> path \<Rightarrow> byte_view \<Rightarrow> AppendOptions \<Rightarrow> 'w \<Rightarrow> WriteResult \<times> 'w" where
  "FS_appendBytes p path bytes options w =
    (if \<not> isValidFlushMode (appendFlush options) \<or> \<not> isValidFileShare (appendShare options) \<or> \<not> isValidSymlinkPolicy (appendPolicy options)
     then (writeFailure (statusOf InvalidArgument) 0, w)
     else case append_mode (appendModeOf options) of None \<Rightarrow> (writeFailure (statusOf InvalidArgument) 0, w)
     | Some mode \<Rightarrow> write_whole p path bytes
         \<lparr>writerMode = mode, writerShare = appendShare options, writerPolicy = appendPolicy options,
          writerCreateParents = appendCreateParents options, writerFlushOnClose = FM_None\<rparr> (appendFlush options) w)"

definition FS_writeAllText :: "('w, 'c) Platform \<Rightarrow> path \<Rightarrow> byte_view \<Rightarrow> WriteOptions \<Rightarrow> 'w \<Rightarrow> WriteResult \<times> 'w" where
  "FS_writeAllText p path utf8Text options w =
    (if \<not> validUtf8Text (view_elems utf8Text) then (writeFailure (statusOf EncodingFailed) 0, w) else FS_writeAllBytes p path utf8Text options w)"

definition FS_appendText :: "('w, 'c) Platform \<Rightarrow> path \<Rightarrow> byte_view \<Rightarrow> AppendOptions \<Rightarrow> 'w \<Rightarrow> WriteResult \<times> 'w" where
  "FS_appendText p path utf8Text options w =
    (if \<not> validUtf8Text (view_elems utf8Text) then (writeFailure (statusOf EncodingFailed) 0, w) else FS_appendBytes p path utf8Text options w)"

section \<open>Atomic replacement\<close>

function decimal :: "nat \<Rightarrow> byte list" where
  "decimal n = (if n < 10 then [of_nat (0x30 + n)] else decimal (n div 10) @ [of_nat (0x30 + n mod 10)])"
  by pat_completeness auto
termination
  by (relation "measure id") auto

declare decimal.simps [simp del]

definition temporary_name :: "byte list \<Rightarrow> 64 word \<Rightarrow> 64 word \<Rightarrow> nat \<Rightarrow> byte list" where
  "temporary_name start ticks value attempt_number =
    start @ decimal (unat ticks) @ [0x5F] @ decimal (unat value) @ [0x5F] @ decimal attempt_number @ [0x2E, 0x74, 0x6D, 0x70]"

definition uniqueAtomicTemporaryPath :: "('w, 'c) Platform \<Rightarrow> path \<Rightarrow> byte list \<Rightarrow> nat \<Rightarrow> 'w \<Rightarrow> path attempt \<times> 'w" where
  "uniqueAtomicTemporaryPath p parent start attempt_number w =
    (case p_ticks p w of (ticks, w1) \<Rightarrow> case p_counter p w1 of (value, w2) \<Rightarrow>
     (case pathFromTrustedUtf8 (temporary_name start ticks value attempt_number) (p_throws p TemporaryName w2) of
        Returned name \<Rightarrow> Returned (path_append parent name)
      | ThrownBadAlloc \<Rightarrow> ThrownBadAlloc
      | ThrownOther \<Rightarrow> ThrownOther, w2))"

text \<open>
  At most 64 names are tried while the name exists already. The result is the last open's status, the temporary path and the writer, or the
  exception that building a name raised.
\<close>

function open_temporary :: "('w, 'c) Platform \<Rightarrow> path \<Rightarrow> AtomicWriteOptions \<Rightarrow> nat \<Rightarrow> Status \<Rightarrow> path \<Rightarrow> 'w handle \<Rightarrow> (Status \<times> path) attempt \<times> 'w handle" where
  "open_temporary p parent options n openStatus temporaryPath h =
    (if n < 64 \<and> code openStatus = AlreadyExists then
       (case uniqueAtomicTemporaryPath p parent (temporaryNamePrefix options) n (snd h) of
          (Returned t, w) \<Rightarrow>
            (case FileWriter_open p t \<lparr>writerMode = W_CreateNew, writerShare = ShareNone, writerPolicy = atomicPolicy options,
                writerCreateParents = False, writerFlushOnClose = FM_None\<rparr> (fst h, w) of (status, h') \<Rightarrow>
             open_temporary p parent options (Suc n) status t h')
        | (ThrownBadAlloc, w) \<Rightarrow> (ThrownBadAlloc, fst h, w)
        | (ThrownOther, w) \<Rightarrow> (ThrownOther, fst h, w))
     else (Returned (openStatus, temporaryPath), h))"
  by pat_completeness auto
termination
  by (relation "measure (\<lambda>(p, parent, options, n, openStatus, temporaryPath, h). 64 - n)") auto

declare open_temporary.simps [simp del]

definition discard_temporary :: "('w, 'c) Platform \<Rightarrow> path \<Rightarrow> 'w \<Rightarrow> 'w" where
  "discard_temporary p t w = snd (removeFile p t \<lparr>removeIfMissing = True, removePolicy = DoNotFollow\<rparr> w)"

text \<open>From the open temporary file to the end: payload, flush, close, commit, and the flush of the parent directory.\<close>

definition publish_temporary :: "('w, 'c) Platform \<Rightarrow> path \<Rightarrow> path \<Rightarrow> path \<Rightarrow> byte_view \<Rightarrow> AtomicWriteOptions \<Rightarrow> 'w handle \<Rightarrow> Status \<times> 'w" where
  "publish_temporary p path parent t bytes options h =
    (case writeAllBytes (FileWriter p) h bytes of (q, h1) \<Rightarrow>
     if \<not> ok (writeStatus q) then
       (case file_close p h1 of (_, state, w) \<Rightarrow> (writeStatus q, destroy_file p (state, discard_temporary p t w)))
     else case file_flush p h1 (atomicFlush options) of (flushStatus, h2) \<Rightarrow>
     if \<not> ok flushStatus then
       (case file_close p h2 of (_, state, w) \<Rightarrow> (flushStatus, destroy_file p (state, discard_temporary p t w)))
     else case file_close p h2 of (closeStatus, state, w) \<Rightarrow>
     if \<not> ok closeStatus then (closeStatus, destroy_file p (state, discard_temporary p t w))
     else case p_movePath p t path (atomicReplace options) (atomicPolicy options) w of (commitStatus, w1) \<Rightarrow>
     if \<not> ok commitStatus then (commitStatus, destroy_file p (state, discard_temporary p t w1))
     else if flushParentDirectory options then
       (case p_flushDirectory p parent w1 of (parentFlushStatus, w2) \<Rightarrow>
        (if \<not> ok parentFlushStatus then parentFlushStatus else successStatus, destroy_file p (state, w2)))
     else (successStatus, destroy_file p (state, w1)))"

definition atomic_parent :: "path \<Rightarrow> path" where
  "atomic_parent path = (if path_parent path = [] then [0x2E] else path_parent path)"

definition prepare_parent :: "('w, 'c) Platform \<Rightarrow> path \<Rightarrow> AtomicWriteOptions \<Rightarrow> 'w \<Rightarrow> Status \<times> 'w" where
  "prepare_parent p parent options w =
    (if atomicCreateParents options
     then createDirectories p parent \<lparr>succeedIfAlreadyExists = True, createPolicy = atomicPolicy options\<rparr> w
     else validateDirectoryExists p parent (atomicPolicy options) w)"

text \<open>The checks of the destination before anything is created; a status when the operation must stop.\<close>

definition check_destination :: "('w, 'c) Platform \<Rightarrow> path \<Rightarrow> AtomicWriteOptions \<Rightarrow> 'w \<Rightarrow> Status option \<times> 'w" where
  "check_destination p path options w =
    (case queryEntry p path (atomicPolicy options) w of (destination, w1) \<Rightarrow>
     (case destination_blocked (atomicReplace options) destination of Some status \<Rightarrow> (Some status, w1)
      | None \<Rightarrow>
        if ok (infoStatus destination) \<and> atomicPolicy options \<noteq> DoNotFollow
        then (case finalEntryIsSymlink p path w1 of (symlink, w2) \<Rightarrow> (if symlink then Some (statusOf Unsupported) else None, w2))
        else (None, w1)))"

definition writeAllBytesAtomic :: "('w, 'c) Platform \<Rightarrow> path \<Rightarrow> byte_view \<Rightarrow> AtomicWriteOptions \<Rightarrow> 'w \<Rightarrow> Status \<times> 'w" where
  "writeAllBytesAtomic p path bytes options w =
    (if path = [] \<or> \<not> isValidReplaceMode (atomicReplace options) \<or> \<not> isValidSymlinkPolicy (atomicPolicy options) \<or>
       \<not> isValidFlushMode (atomicFlush options) then (statusOf InvalidArgument, w)
     else let prefixStatus = validateAtomicTemporaryPrefix (temporaryNamePrefix options) in
     if \<not> ok prefixStatus then (prefixStatus, w)
     else attempt_or Unknown (\<lambda>status. (status, w))
       (\<lambda>parent. case prepare_parent p parent options w of (parentStatus, w1) \<Rightarrow>
          if \<not> ok parentStatus then (parentStatus, w1)
          else case check_destination p path options w1 of
            (Some status, w2) \<Rightarrow> (status, w2)
          | (None, w2) \<Rightarrow>
            (case open_temporary p parent options 0 (statusOf AlreadyExists) [] (None, w2) of
               (Returned (openStatus, t), h) \<Rightarrow>
                 if \<not> ok openStatus then (openStatus, destroy_file p h) else publish_temporary p path parent t bytes options h
             | (ThrownBadAlloc, h) \<Rightarrow> (statusOf OutOfMemory, destroy_file p h)
             | (ThrownOther, h) \<Rightarrow> (statusOf Unknown, destroy_file p h)))
       (try_value (p_throws p ParentOfTarget w) (atomic_parent path)))"

definition writeAllTextAtomic :: "('w, 'c) Platform \<Rightarrow> path \<Rightarrow> byte_view \<Rightarrow> AtomicWriteOptions \<Rightarrow> 'w \<Rightarrow> Status \<times> 'w" where
  "writeAllTextAtomic p path utf8Text options w =
    (if \<not> validUtf8Text (view_elems utf8Text) then (statusOf EncodingFailed, w) else writeAllBytesAtomic p path utf8Text options w)"

section \<open>Directories\<close>

partial_function (option) list_loop :: "('w, 'c) Platform \<Rightarrow> Entry list \<Rightarrow> 'c DirectoryCursor \<Rightarrow> 'w \<Rightarrow> (ListResult \<times> 'c DirectoryCursor \<times> 'w) option" where
  "list_loop p found c w =
    (case DirectoryCursor_next p c w of
       None \<Rightarrow> None
     | Some (r, c', w') \<Rightarrow>
         if \<not> ok (nextStatus r) then Some (\<lparr>listStatus = nextStatus r, entries = found\<rparr>, c', w')
         else if \<not> nextHasEntry r then Some (\<lparr>listStatus = successStatus, entries = found\<rparr>, c', w')
         else (case p_throws p NewEntry w' of
             BadAlloc \<Rightarrow> Some (listDirectoryFailure (statusOf OutOfMemory), c', w')
           | OtherThrow \<Rightarrow> Some (listDirectoryFailure (statusOf Unknown), c', w')
           | NoThrow \<Rightarrow> list_loop p (found @ [nextEntry r]) c' w'))"

definition listDirectory :: "('w, 'c) Platform \<Rightarrow> path \<Rightarrow> ListOptions \<Rightarrow> 'w \<Rightarrow> (ListResult \<times> 'w) option" where
  "listDirectory p path options w =
    (case DirectoryCursor_open p path options newCursor w of (openStatus, c, w1) \<Rightarrow>
     if \<not> ok openStatus then Some (listDirectoryFailure openStatus, resetCursor p (nativeCursor c) w1)
     else map_option (\<lambda>(result, c', w2). (result, resetCursor p (nativeCursor c') w2)) (list_loop p [] c w1))"

record 'c RemovalFrame =
  framePath :: path
  frameInfo :: EntryInfo
  frameCursor :: "'c option"

text \<open>The frames of the active depth levels, the deepest first.\<close>

definition release_frames :: "('w, 'c) Platform \<Rightarrow> 'c RemovalFrame list \<Rightarrow> 'w \<Rightarrow> 'w" where
  "release_frames p pending w = fold (\<lambda>f. resetCursor p (frameCursor f)) (rev pending) w"

definition open_frame :: "('w, 'c) Platform \<Rightarrow> 'c RemovalFrame \<Rightarrow> 'c RemovalFrame list \<Rightarrow> 'w \<Rightarrow> (Status + 'c) \<times> 'w" where
  "open_frame p current parents w = (case frameCursor current of
     Some c \<Rightarrow> (Inr c, w)
   | None \<Rightarrow>
      (case (if parents = [] then p_openDirectoryCursor p (framePath current) DoNotFollow w
             else p_openChildDirectoryCursor p (the (frameCursor (hd parents))) (framePath current) DoNotFollow w) of (opened, w') \<Rightarrow>
       if \<not> ok (cursorStatus opened) then (Inl (cursorStatus opened), resetCursor p (cursorState opened) w')
       else (Inr (the (cursorState opened)), w')))"

definition remove_entry :: "('w, 'c) Platform \<Rightarrow> 'c RemovalFrame \<Rightarrow> 'w \<Rightarrow> Status \<times> 'w" where
  "remove_entry p current w =
    (if entryKind (frameInfo current) = EK_Directory
     then removeEmptyDirectory p (framePath current) \<lparr>removeIfMissing = False, removePolicy = DoNotFollow\<rparr> w
     else removeFile p (framePath current) \<lparr>removeIfMissing = False, removePolicy = DoNotFollow\<rparr> w)"

text \<open>
  One iteration on the deepest frame: the directory's next child, or nothing when the entry itself is to be removed. A directory that is
  exhausted gives its cursor up.
\<close>

datatype 'c frame_step = FrameFails Status "'c RemovalFrame" | FrameChild Entry 'c | FrameEnds

definition step_frame :: "('w, 'c) Platform \<Rightarrow> 'c RemovalFrame \<Rightarrow> 'c RemovalFrame list \<Rightarrow> 'w \<Rightarrow> 'c frame_step \<times> 'w" where
  "step_frame p current parents w =
    (if entryKind (frameInfo current) \<noteq> EK_Directory then (FrameEnds, w)
     else case open_frame p current parents w of
       (Inl status, w1) \<Rightarrow> (FrameFails status current, w1)
     | (Inr c, w1) \<Rightarrow> (case p_readDirectoryCursor p c w1 of (child, c', w2) \<Rightarrow>
         if \<not> ok (cursorNextStatus child) then (FrameFails (cursorNextStatus child) (current\<lparr>frameCursor := Some c'\<rparr>), w2)
         else if cursorHasEntry child then (FrameChild (cursorEntry child) c', w2)
         else (FrameEnds, p_releaseCursor p c' w2)))"

partial_function (option) remove_loop :: "('w, 'c) Platform \<Rightarrow> nat \<Rightarrow> 'c RemovalFrame list \<Rightarrow> nat \<Rightarrow> 'w \<Rightarrow> (RemoveTreeResult \<times> 'w) option" where
  "remove_loop p limit pending removed w =
    (case pending of
       [] \<Rightarrow> Some (\<lparr>treeStatus = successStatus, removedEntries = removed\<rparr>, w)
     | current # parents \<Rightarrow>
         if limit \<le> removed then Some (removeTreeFailure (statusOf SizeLimitExceeded) removed, release_frames p pending w)
         else (case step_frame p current parents w of
           (FrameFails status current', w1) \<Rightarrow> Some (removeTreeFailure status removed, release_frames p (current' # parents) w1)
         | (FrameChild entry c, w1) \<Rightarrow>
             (case p_throws p NewFrame w1 of
                BadAlloc \<Rightarrow> Some (removeTreeFailure (statusOf OutOfMemory) 0, release_frames p (current\<lparr>frameCursor := Some c\<rparr> # parents) w1)
              | OtherThrow \<Rightarrow> Some (removeTreeFailure (statusOf Unknown) 0, release_frames p (current\<lparr>frameCursor := Some c\<rparr> # parents) w1)
              | NoThrow \<Rightarrow> remove_loop p limit (\<lparr>framePath = entryPath entry, frameInfo = entryInfo entry, frameCursor = None\<rparr> #
                  current\<lparr>frameCursor := Some c\<rparr> # parents) removed w1)
         | (FrameEnds, w1) \<Rightarrow>
             (case remove_entry p current w1 of (status, w2) \<Rightarrow>
              if \<not> ok status then Some (removeTreeFailure status removed, release_frames p (current\<lparr>frameCursor := None\<rparr> # parents) w2)
              else remove_loop p limit parents (removed + 1) w2)))"

definition removeDirectoryTree :: "('w, 'c) Platform \<Rightarrow> path \<Rightarrow> RemoveTreeOptions \<Rightarrow> 'w \<Rightarrow> (RemoveTreeResult \<times> 'w) option" where
  "removeDirectoryTree p path options w =
    (if path = [] \<or> \<not> isValidSymlinkPolicy (treePolicy options) then Some (removeTreeFailure (statusOf InvalidArgument) 0, w)
     else case queryEntry p path (treePolicy options) w of (existing, w1) \<Rightarrow>
     if \<not> ok (infoStatus existing) then
       (if code (infoStatus existing) = NotFound \<and> treeIfMissing options
        then Some (\<lparr>treeStatus = successStatus, removedEntries = 0\<rparr>, w1)
        else Some (removeTreeFailure (infoStatus existing) 0, w1))
     else if entryKind (infoOf existing) \<noteq> EK_Directory then Some (removeTreeFailure (statusOf NotDirectory) 0, w1)
     else case (if treePolicy options \<noteq> DoNotFollow then finalEntryIsSymlink p path w1 else (False, w1)) of (symlink, w2) \<Rightarrow>
     if symlink then Some (removeTreeFailure (statusOf Unsupported) 0, w2)
     else if treeMaxEntries options = 0 then Some (removeTreeFailure (statusOf SizeLimitExceeded) 0, w2)
     else (case p_throws p NewFrame w2 of
         BadAlloc \<Rightarrow> Some (removeTreeFailure (statusOf OutOfMemory) 0, w2)
       | OtherThrow \<Rightarrow> Some (removeTreeFailure (statusOf Unknown) 0, w2)
       | NoThrow \<Rightarrow> remove_loop p (treeMaxEntries options)
           [\<lparr>framePath = path, frameInfo = infoOf existing, frameCursor = None\<rparr>] 0 w2))"

end
