(* ===== verification/FileSystem_Atomic.thy ===== *)
theory FileSystem_Atomic
  imports FileSystem_Operations
begin

text \<open>
  Atomic replacement (\<^verbatim>\<open>writeAllBytesAtomic\<close>, \<^verbatim>\<open>docs/atomic_write.md\<close>): whoever looks at the destination sees the old contents or the
  whole new contents. The contract of the platform is a predicate over a view of the operating system's state, with the contents that
  each directory entry has, the entry each open handle writes to, and the contents that the destination has had so far.
\<close>

section \<open>The contract\<close>

text \<open>Operations that do not touch the destination. \<open>dest\<close> is its entry, \<open>seen w\<close> the contents it has had, oldest first.\<close>

definition keeps_destination :: "('w, 'c) Platform \<Rightarrow> (path \<Rightarrow> 'e) \<Rightarrow> ('w \<Rightarrow> byte list option list) \<Rightarrow> 'e \<Rightarrow> bool" where
  "keeps_destination p entry seen dest \<longleftrightarrow>
    (\<forall>path policy w. seen (snd (p_queryEntry p path policy w)) = seen w) \<and>
    (\<forall>path options w. seen (snd (p_createDirectories p path options w)) = seen w) \<and>
    (\<forall>path w. seen (snd (p_flushDirectory p path w)) = seen w) \<and>
    (\<forall>f w. seen (p_releaseFile p f w) = seen w) \<and>
    (\<forall>w. seen (snd (p_ticks p w)) = seen w) \<and> (\<forall>w. seen (snd (p_counter p w)) = seen w) \<and>
    (\<forall>path options w. entry path \<noteq> dest \<longrightarrow> seen (snd (p_removeFile p path options w)) = seen w)"

text \<open>
  Opening with \<open>CreateNew\<close> makes an empty file; writes append to the file of the handle; flush and close change no contents; a successful
  move gives the destination the contents of the source, a failed one leaves it alone.
\<close>

definition writes_entries :: "('w, 'c) Platform \<Rightarrow> (path \<Rightarrow> 'e) \<Rightarrow> ('w \<Rightarrow> 'e \<Rightarrow> byte list option) \<Rightarrow> ('w \<Rightarrow> nat \<Rightarrow> 'e option) \<Rightarrow>
    ('w \<Rightarrow> byte list option list) \<Rightarrow> 'e \<Rightarrow> bool" where
  "writes_entries p entry contents target seen dest \<longleftrightarrow>
    (\<forall>t options w status state w'. p_openWriter p t options w = (status, state, w') \<longrightarrow> writerMode options = W_CreateNew \<longrightarrow> entry t \<noteq> dest \<longrightarrow>
       seen w' = seen w \<and> (ok status \<longrightarrow> (\<exists>f h. state = Some f \<and> nativeHandle f = Some h \<and> target w' h = Some (entry t) \<and> contents w' (entry t) = Some []))) \<and>
    (\<forall>f h e c bytes w r f' w'. p_writeFile p f bytes w = (r, f', w') \<longrightarrow> nativeHandle f = Some h \<longrightarrow> target w h = Some e \<longrightarrow> e \<noteq> dest \<longrightarrow>
       contents w e = Some c \<longrightarrow>
       bytesWritten r \<le> length (view_elems bytes) \<and> seen w' = seen w \<and> nativeHandle f' = Some h \<and> target w' h = Some e \<and>
       contents w' e = Some (c @ take (bytesWritten r) (view_elems bytes)) \<and> (ok (writeStatus r) \<and> view_elems bytes \<noteq> [] \<longrightarrow> 0 < bytesWritten r)) \<and>
    (\<forall>f mode w. seen (snd (snd (p_flushFile p f mode w))) = seen w \<and> contents (snd (snd (p_flushFile p f mode w))) = contents w) \<and>
    (\<forall>f w. seen (snd (snd (p_closeFile p f w))) = seen w \<and> contents (snd (snd (p_closeFile p f w))) = contents w) \<and>
    (\<forall>f w. contents (p_releaseFile p f w) = contents w) \<and>
    (\<forall>t path mode policy w status w'. p_movePath p t path mode policy w = (status, w') \<longrightarrow> entry path = dest \<longrightarrow> entry t \<noteq> dest \<longrightarrow>
       seen w' = (if ok status then seen w @ [contents w (entry t)] else seen w))"

text \<open>No temporary file of the operation is the destination itself.\<close>

definition distinct_temporaries :: "(path \<Rightarrow> 'e) \<Rightarrow> path \<Rightarrow> byte list \<Rightarrow> bool" where
  "distinct_temporaries entry path start \<longleftrightarrow>
    (\<forall>ticks cnt n name. native_of_utf8 (temporary_name start ticks cnt n) = Some name \<longrightarrow>
       entry (path_append (atomic_parent path) name) \<noteq> entry path)"

section \<open>What each step keeps\<close>

lemma keeps_query: "keeps_destination p entry seen dest \<Longrightarrow> seen (snd (queryEntry p path policy w)) = seen w"
  by (auto simp: keeps_destination_def queryEntry_def)

lemma keeps_reset: "keeps_destination p entry seen dest \<Longrightarrow> seen (resetFile p state w) = seen w"
  by (auto simp: keeps_destination_def resetFile_def split: option.split)

lemma keeps_validate: "keeps_destination p entry seen dest \<Longrightarrow> seen (snd (validateDirectoryExists p path policy w)) = seen w"
  using keeps_query [of p entry seen dest path policy w] by (auto simp: validateDirectoryExists_def split: prod.split)

lemma keeps_create: "keeps_destination p entry seen dest \<Longrightarrow> seen (snd (createDirectories p path options w)) = seen w"
  by (simp add: keeps_destination_def createDirectories_def)

lemma keeps_parent: "keeps_destination p entry seen dest \<Longrightarrow> seen (snd (validateParentDirectory p path b policy w)) = seen w"
  by (auto simp: validateParentDirectory_def attempt_or_def keeps_create keeps_validate split: attempt.split)

lemma keeps_prepare: "keeps_destination p entry seen dest \<Longrightarrow> seen (snd (prepare_parent p parent options w)) = seen w"
  by (simp add: prepare_parent_def keeps_create keeps_validate)

lemma keeps_symlink: "keeps_destination p entry seen dest \<Longrightarrow> seen (snd (finalEntryIsSymlink p path w)) = seen w"
  using keeps_query [of p entry seen dest path DoNotFollow w] by (auto simp: finalEntryIsSymlink_def split: prod.split)

lemma keeps_check:
  assumes "keeps_destination p entry seen dest"
  shows "seen (snd (check_destination p path options w)) = seen w"
proof -
  obtain r w1 where q: "queryEntry p path (atomicPolicy options) w = (r, w1)" by fastforce
  obtain b w2 where s: "finalEntryIsSymlink p path w1 = (b, w2)" by fastforce
  have "seen w1 = seen w" "seen w2 = seen w1" using keeps_query [OF assms] keeps_symlink [OF assms] q s by (metis snd_conv)+
  then show ?thesis by (simp add: check_destination_def q s split: option.split)
qed

lemma keeps_discard: "keeps_destination p entry seen dest \<Longrightarrow> entry t \<noteq> dest \<Longrightarrow> seen (discard_temporary p t w) = seen w"
  by (auto simp: discard_temporary_def removeFile_def guarded_remove_def keeps_destination_def split: prod.split)

lemma keeps_close: "keeps_destination p entry seen dest \<Longrightarrow> writes_entries p entry contents target seen dest \<Longrightarrow> file_close p h = (status, state, w') \<Longrightarrow>
    seen w' = seen (snd h)"
  by (cases h) (auto simp: file_close_def keeps_reset writes_entries_def split: if_splits prod.splits, metis snd_conv, metis snd_conv)

lemma keeps_destroy: "keeps_destination p entry seen dest \<Longrightarrow> writes_entries p entry contents target seen dest \<Longrightarrow> seen (destroy_file p h) = seen (snd h)"
  by (auto simp: destroy_file_def keeps_reset split: prod.split dest: keeps_close)

lemma keeps_flush: "keeps_destination p entry seen dest \<Longrightarrow> writes_entries p entry contents target seen dest \<Longrightarrow> file_flush p h mode = (status, h') \<Longrightarrow>
    seen (snd h') = seen (snd h) \<and> contents (snd h') = contents (snd h)"
  by (cases h) (auto simp: file_flush_def writes_entries_def split: if_splits prod.splits, (metis snd_conv)+)

lemma close_contents: "writes_entries p entry contents target seen dest \<Longrightarrow> file_close p h = (status, state, w') \<Longrightarrow> contents w' = contents (snd h)"
  by (cases h) (auto simp: file_close_def resetFile_def writes_entries_def split: if_splits prod.splits option.splits, (metis snd_conv)+)

section \<open>The temporary file\<close>

text \<open>A writer is open on the file \<open>e\<close>, and the destination has had the contents \<open>past\<close>.\<close>

definition writing :: "('w \<Rightarrow> 'e \<Rightarrow> byte list option) \<Rightarrow> ('w \<Rightarrow> nat \<Rightarrow> 'e option) \<Rightarrow> ('w \<Rightarrow> byte list option list) \<Rightarrow> 'e \<Rightarrow> byte list option list \<Rightarrow> 'w handle \<Rightarrow> bool" where
  "writing contents target seen e past h \<longleftrightarrow> seen (snd h) = past \<and> contents (snd h) e \<noteq> None \<and>
     (\<exists>f n. fst h = Some f \<and> nativeHandle f = Some n \<and> target (snd h) n = Some e)"

lemma writes_open: "writes_entries p entry contents target seen dest \<Longrightarrow> p_openWriter p t options w = (status, state, w') \<Longrightarrow>
    writerMode options = W_CreateNew \<Longrightarrow> entry t \<noteq> dest \<Longrightarrow>
    seen w' = seen w \<and> (ok status \<longrightarrow> (\<exists>f h. state = Some f \<and> nativeHandle f = Some h \<and> target w' h = Some (entry t) \<and> contents w' (entry t) = Some []))"
  unfolding writes_entries_def by (elim conjE) metis

lemma writes_write: "writes_entries p entry contents target seen dest \<Longrightarrow> p_writeFile p f bytes w = (r, f', w') \<Longrightarrow>
    nativeHandle f = Some h \<Longrightarrow> target w h = Some e \<Longrightarrow> e \<noteq> dest \<Longrightarrow> contents w e = Some c \<Longrightarrow>
    bytesWritten r \<le> length (view_elems bytes) \<and> seen w' = seen w \<and> nativeHandle f' = Some h \<and> target w' h = Some e \<and>
    contents w' e = Some (c @ take (bytesWritten r) (view_elems bytes)) \<and> (ok (writeStatus r) \<and> view_elems bytes \<noteq> [] \<longrightarrow> 0 < bytesWritten r)"
  unfolding writes_entries_def by (elim conjE) metis

lemma writes_move: "writes_entries p entry contents target seen dest \<Longrightarrow> p_movePath p t path mode policy w = (status, w') \<Longrightarrow>
    entry path = dest \<Longrightarrow> entry t \<noteq> dest \<Longrightarrow> seen w' = (if ok status then seen w @ [contents w (entry t)] else seen w)"
  unfolding writes_entries_def by (elim conjE) metis

lemma file_sink:
  assumes writes: "writes_entries p entry contents target seen dest" and e: "e \<noteq> dest"
  shows "byte_sink (FileWriter p) (writing contents target seen e past) (\<lambda>_ _. True) (\<lambda>h. the (contents (snd h) e))"
proof
  fix h bytes and r :: WriteResult and h'
  assume w: "writing contents target seen e past h" and wrote: "writer_write (FileWriter p) h bytes = (r, h')"
  from w obtain f n c where f: "fst h = Some f" "nativeHandle f = Some n" "target (snd h) n = Some e" "contents (snd h) e = Some c" "seen (snd h) = past"
    unfolding writing_def by blast
  obtain q f' w' where native: "p_writeFile p f bytes (snd h) = (q, f', w')" by (rule prod_cases3)
  then have h': "r = q" "h' = (Some f', w')"
    using wrote f by (cases h; simp add: FileWriter_def file_write_def stateIsOpen_def)+
  have "bytesWritten q \<le> length (view_elems bytes) \<and> seen w' = seen (snd h) \<and> nativeHandle f' = Some n \<and> target w' n = Some e \<and>
      contents w' e = Some (c @ take (bytesWritten q) (view_elems bytes)) \<and> (ok (writeStatus q) \<and> view_elems bytes \<noteq> [] \<longrightarrow> 0 < bytesWritten q)"
    by (rule writes_write [OF writes native f(2,3) e f(4)])
  then show "bytesWritten r \<le> length (view_elems bytes) \<and>
       the (contents (snd h') e) = the (contents (snd h) e) @ take (bytesWritten r) (view_elems bytes) \<and>
       (ok (writeStatus r) \<and> view_elems bytes \<noteq> [] \<longrightarrow> 0 < bytesWritten r) \<and> writing contents target seen e past h' \<and>
       (ok (writeStatus r) \<and> bytesWritten r < length (view_elems bytes) \<longrightarrow> True)"
    using f by (simp add: h' writing_def)
qed

text \<open>Writing everything to a new file: what it holds at the end, and that the destination is left alone.\<close>

lemma write_payload:
  assumes writes: "writes_entries p entry contents target seen dest" and e: "e \<noteq> dest"
    and w: "writing contents target seen e past h" "contents (snd h) e = Some []"
    and wrote: "writeAllBytes (FileWriter p) h bytes = (q, h')"
  shows "seen (snd h') = past" "ok (writeStatus q) \<Longrightarrow> contents (snd h') e = Some (view_elems bytes)"
proof -
  note law = byte_sink.writeAllBytes_law [OF file_sink [OF writes e] w(1) TrueI wrote]
  show "seen (snd h') = past" using law(2) by (simp add: writing_def)
  assume "ok (writeStatus q)"
  then have "bytesWritten q = length (view_elems bytes)"
    using writeAllBytes_from_count [of "FileWriter p" h bytes 0] wrote by (simp add: writeAllBytes_def)
  then show "contents (snd h') e = Some (view_elems bytes)" using law w(2) by (auto simp: writing_def)
qed

lemma open_new:
  assumes keeps: "keeps_destination p entry seen dest" and writes: "writes_entries p entry contents target seen dest"
    and t: "entry t \<noteq> dest" and mode: "writerMode options = W_CreateNew"
    and opened: "FileWriter_open p t options (None, w) = (status, h)"
  shows "seen (snd h) = seen w" "ok status \<Longrightarrow> writing contents target seen (entry t) (seen w) h \<and> contents (snd h) (entry t) = Some []"
    "\<not> ok status \<Longrightarrow> fst h = None"
proof -
  obtain st w1 where parent: "validateParentDirectory p t (writerCreateParents options) (writerPolicy options) w = (st, w1)" by (rule prod.exhaust)
  have w1: "seen w1 = seen w" using keeps_parent [OF keeps] parent by (metis snd_conv)
  obtain st2 state w2 where native: "p_openWriter p t options w1 = (st2, state, w2)" by (rule prod_cases3)
  have "seen w2 = seen w1 \<and>
      (ok st2 \<longrightarrow> (\<exists>f h. state = Some f \<and> nativeHandle f = Some h \<and> target w2 h = Some (entry t) \<and> contents w2 (entry t) = Some []))"
    by (rule writes_open [OF writes native mode t])
  then have law: "seen w2 = seen w1"
      "ok st2 \<Longrightarrow> \<exists>f h. state = Some f \<and> nativeHandle f = Some h \<and> target w2 h = Some (entry t) \<and> contents w2 (entry t) = Some []"
    by simp_all
  note defs = FileWriter_open_def adopt_state_def stateIsOpen_def
  show "seen (snd h) = seen w" "\<not> ok status \<Longrightarrow> fst h = None"
    using opened parent native law(1) w1 keeps_reset [OF keeps]
    by (auto simp: defs resetFile_def split: if_splits)
  show "ok status \<Longrightarrow> writing contents target seen (entry t) (seen w) h \<and> contents (snd h) (entry t) = Some []"
    using opened parent native law w1 by (auto simp: defs resetFile_def writing_def split: if_splits)
qed

lemma open_temporary_law:
  assumes keeps: "keeps_destination p entry seen (entry path)" and writes: "writes_entries p entry contents target seen (entry path)"
    and distinct: "distinct_temporaries entry path (temporaryNamePrefix options)"
    and opened: "open_temporary p (atomic_parent path) options n status t h = (result, h')"
    and closed: "\<not> ok status \<Longrightarrow> fst h = None"
    and open_file: "ok status \<Longrightarrow> entry t \<noteq> entry path \<and> writing contents target seen (entry t) past h \<and> contents (snd h) (entry t) = Some []"
    and past: "seen (snd h) = past"
  shows "seen (snd h') = past \<and> (\<forall>st' t'. result = Returned (st', t') \<longrightarrow> ok st' \<longrightarrow>
    entry t' \<noteq> entry path \<and> writing contents target seen (entry t') past h' \<and> contents (snd h') (entry t') = Some [])"
  using opened closed open_file past
proof (induction "64 - n" arbitrary: n status t h rule: less_induct)
  case less
  show ?case
  proof (cases "n < 64 \<and> code status = AlreadyExists")
    case False
    then have "result = Returned (status, t)" "h' = h" using less(2) by (auto simp: open_temporary.simps)
    then show ?thesis using less(4,5) by simp
  next
    case True
    then have state: "fst h = None" using less(3) by (simp add: ok_def)
    obtain ticks w1 where ticks: "p_ticks p (snd h) = (ticks, w1)" by (rule prod.exhaust)
    obtain cnt w2 where counter: "p_counter p w1 = (cnt, w2)" by (rule prod.exhaust)
    have w2: "seen w2 = past" using keeps ticks counter less(5) unfolding keeps_destination_def by (metis snd_conv)
    let ?a = "pathFromTrustedUtf8 (temporary_name (temporaryNamePrefix options) ticks cnt n) (p_throws p TemporaryName w2)"
    have unique: "uniqueAtomicTemporaryPath p (atomic_parent path) (temporaryNamePrefix options) n (snd h) =
        (case ?a of Returned name \<Rightarrow> Returned (path_append (atomic_parent path) name) | ThrownBadAlloc \<Rightarrow> ThrownBadAlloc | ThrownOther \<Rightarrow> ThrownOther, w2)"
      by (simp add: uniqueAtomicTemporaryPath_def ticks counter)
    show ?thesis
    proof (cases ?a)
      case (Returned name)
      let ?t = "path_append (atomic_parent path) name"
      have t: "entry ?t \<noteq> entry path"
        using distinct Returned unfolding distinct_temporaries_def
        by (auto simp: pathFromTrustedUtf8_def try_value_def split: option.splits throwing.splits)
      let ?o = "\<lparr>writerMode = W_CreateNew, writerShare = ShareNone, writerPolicy = atomicPolicy options,
                writerCreateParents = False, writerFlushOnClose = FM_None\<rparr>"
      obtain st h1 where opened: "FileWriter_open p ?t ?o (None, w2) = (st, h1)" by (rule prod.exhaust)
      note new = open_new [OF keeps writes t _ opened, simplified]
      have "open_temporary p (atomic_parent path) options (Suc n) st ?t h1 = (result, h')"
        using less(2) True state unique Returned opened by (simp add: open_temporary.simps [of p _ options n])
      then show ?thesis by (rule less(1) [rotated]) (use True new t w2 in auto)
    next
      case ThrownBadAlloc
      then show ?thesis using less(2) True state unique w2 by (auto simp: open_temporary.simps [of p _ options n])
    next
      case ThrownOther
      then show ?thesis using less(2) True state unique w2 by (auto simp: open_temporary.simps [of p _ options n])
    qed
  qed
qed

section \<open>The commit\<close>

text \<open>Everything before the move leaves the destination alone; the move publishes the payload; after it only a failed flush of the parent is reported.\<close>

definition atomic_outcome :: "('w, 'c) Platform \<Rightarrow> ('w \<Rightarrow> byte list option list) \<Rightarrow> path \<Rightarrow> byte list \<Rightarrow> AtomicWriteOptions \<Rightarrow> byte list option list \<Rightarrow> Status \<times> 'w \<Rightarrow> bool" where
  "atomic_outcome p seen parent payload options past outcome \<longleftrightarrow>
    (if ok (fst outcome) then seen (snd outcome) = past @ [Some payload]
     else seen (snd outcome) = past \<or>
       seen (snd outcome) = past @ [Some payload] \<and> flushParentDirectory options \<and> (\<exists>w. fst (p_flushDirectory p parent w) = fst outcome))"

lemma publish_law:
  assumes keeps: "keeps_destination p entry seen (entry path)" and writes: "writes_entries p entry contents target seen (entry path)"
    and t: "entry t \<noteq> entry path" and w: "writing contents target seen (entry t) past h" "contents (snd h) (entry t) = Some []"
  shows "atomic_outcome p seen parent (view_elems bytes) options past (publish_temporary p path parent t bytes options h)"
proof -
  note destroy = keeps_destroy [OF keeps writes] and discard = keeps_discard [OF keeps t]
  obtain q h1 where wrote: "writeAllBytes (FileWriter p) h bytes = (q, h1)" by (rule prod.exhaust)
  note payload = write_payload [OF writes t w wrote]
  obtain fs h2 where flush: "file_flush p h1 (atomicFlush options) = (fs, h2)" by (rule prod.exhaust)
  note flushed = keeps_flush [OF keeps writes flush]
  obtain cs0 state0 w0 where close1: "file_close p h1 = (cs0, state0, w0)" by (rule prod_cases3)
  obtain cs state w2 where close2: "file_close p h2 = (cs, state, w2)" by (rule prod_cases3)
  note closed = keeps_close [OF keeps writes close1] keeps_close [OF keeps writes close2] close_contents [OF writes close2]
  obtain ms w3 where move: "p_movePath p t path (atomicReplace options) (atomicPolicy options) w2 = (ms, w3)" by (rule prod.exhaust)
  have moved: "seen w3 = (if ok ms then seen w2 @ [contents w2 (entry t)] else seen w2)"
    by (rule writes_move [OF writes move refl t])
  obtain ps w4 where parent: "p_flushDirectory p parent w3 = (ps, w4)" by (rule prod.exhaust)
  have w4: "seen w4 = seen w3" using keeps parent unfolding keeps_destination_def by (metis snd_conv)
  have content: "contents w2 (entry t) = Some (view_elems bytes)" if "ok (writeStatus q)" using closed flushed payload(2) that by simp
  have late: "\<exists>w. fst (p_flushDirectory p parent w) = ps" using parent by (metis fst_conv)
  have past: "seen w0 = past" "seen w2 = past" using closed flushed payload(1) by simp_all
  show ?thesis
    unfolding publish_temporary_def wrote flush close1 close2 move parent atomic_outcome_def prod.case
    using past moved w4 content late by (auto simp: destroy discard)
qed

section \<open>Properties\<close>

text \<open>
  C3: on a platform that keeps its contract, whoever looks at the destination of \<open>writeAllBytesAtomic\<close> sees its old contents or the complete new
  contents, and nothing else in between: the contents it has had after the call are those before it, or those and the whole payload. Success
  means that the payload is there; a failure leaves the destination as it was, unless it is the flush of the parent directory that failed.
\<close>

theorem atomic_replacement:
  assumes "keeps_destination p entry seen (entry path)"
    and "writes_entries p entry contents target seen (entry path)"
    and "distinct_temporaries entry path (temporaryNamePrefix options)"
  shows "atomic_outcome p seen (atomic_parent path) (view_elems bytes) options (seen w) (writeAllBytesAtomic p path bytes options w)"
proof -
  note destroy = keeps_destroy [OF assms(1,2)]
  let ?parent = "atomic_parent path"
  obtain ps w1 where prepare: "prepare_parent p ?parent options w = (ps, w1)" by (rule prod.exhaust)
  have w1: "seen w1 = seen w" using keeps_prepare [OF assms(1)] prepare by (metis snd_conv)
  obtain blocked w2 where check: "check_destination p path options w1 = (blocked, w2)" by (rule prod.exhaust)
  have w2: "seen w2 = seen w" using keeps_check [OF assms(1)] check w1 by (metis snd_conv)
  have failed: "\<not> ok st" if "blocked = Some st" for st
    using check that by (auto simp: check_destination_def destination_blocked_def split: prod.splits if_splits)
  obtain result h where opened: "open_temporary p ?parent options 0 (statusOf AlreadyExists) [] (None, w2) = (result, h)" by (rule prod.exhaust)
  have law: "seen (snd h) = seen w \<and> (\<forall>st' t'. result = Returned (st', t') \<longrightarrow> ok st' \<longrightarrow>
      entry t' \<noteq> entry path \<and> writing contents target seen (entry t') (seen w) h \<and> contents (snd h) (entry t') = Some [])"
    by (rule open_temporary_law [OF assms opened]) (simp_all add: w2)
  note unchanged = w1 w2 law destroy atomic_outcome_def
  show ?thesis
  proof (cases "p_throws p ParentOfTarget w")
    case NoThrow
    have ?thesis if "ok ps" "blocked = None" "result = Returned (st, t)" "ok st" "path \<noteq> []" "isValidReplaceMode (atomicReplace options)"
        "isValidSymlinkPolicy (atomicPolicy options)" "isValidFlushMode (atomicFlush options)"
        "ok (validateAtomicTemporaryPrefix (temporaryNamePrefix options))" for st t
    proof -
      have good: "entry t \<noteq> entry path" "writing contents target seen (entry t) (seen w) h" "contents (snd h) (entry t) = Some []"
        using law that by blast+
      show ?thesis
        using publish_law [OF assms(1,2) good, of ?parent bytes options] that NoThrow
        by (simp add: writeAllBytesAtomic_def Let_def attempt_or_def try_value_def prepare check opened)
    qed
    then show ?thesis
      using unchanged(1-3) NoThrow failed
      by (auto simp: writeAllBytesAtomic_def Let_def attempt_or_def try_value_def prepare check opened destroy atomic_outcome_def
          split: option.splits attempt.splits if_splits)
  qed (auto simp: writeAllBytesAtomic_def Let_def attempt_or_def try_value_def atomic_outcome_def)
qed

section \<open>A platform with the contract\<close>

text \<open>Files by path, two bytes per write at most; directories, locks and cursors do nothing.\<close>

record example_os =
  osFiles :: "path \<Rightarrow> byte list option"
  osHandles :: "nat \<Rightarrow> path option"
  osHistory :: "byte list option list"

definition example_destination :: path where "example_destination = [0x64]"

definition example_change :: "path \<Rightarrow> byte list option \<Rightarrow> example_os \<Rightarrow> example_os" where
  "example_change t c w = w\<lparr>osFiles := (osFiles w)(t := c), osHistory := (if t = example_destination then osHistory w @ [c] else osHistory w)\<rparr>"

definition example_file :: FileState where
  "example_file = \<lparr>nativeHandle = Some 0, stateAccess = ReadWriteAccess, stateFlushOnClose = FM_None, activeLocks = None, readable = True,
     writable = True, appendMode = False\<rparr>"

definition example_query :: "path \<Rightarrow> SymlinkPolicy \<Rightarrow> example_os \<Rightarrow> EntryInfoResult \<times> example_os" where
  "example_query t policy w =
    (if t = [0x2E] then \<lparr>infoStatus = successStatus, infoOf = defaultEntryInfo\<lparr>entryKind := EK_Directory\<rparr>\<rparr>
     else if osFiles w t \<noteq> None then \<lparr>infoStatus = successStatus, infoOf = defaultEntryInfo\<lparr>entryKind := EK_RegularFile\<rparr>\<rparr>
     else \<lparr>infoStatus = statusOf NotFound, infoOf = defaultEntryInfo\<rparr>, w)"

definition example_open :: "path \<Rightarrow> bool \<Rightarrow> example_os \<Rightarrow> Status \<times> FileState option \<times> example_os" where
  "example_open t fresh w =
    (if osFiles w t \<noteq> None \<and> fresh then (statusOf AlreadyExists, None, w)
     else (successStatus, Some example_file, (example_change t (Some []) w)\<lparr>osHandles := (osHandles w)(0 := Some t)\<rparr>))"

definition example_write :: "FileState \<Rightarrow> byte_view \<Rightarrow> example_os \<Rightarrow> WriteResult \<times> FileState \<times> example_os" where
  "example_write f bytes w =
    (let n = min 2 (length (view_elems bytes)) in
     case Option.bind (nativeHandle f) (osHandles w) of
       Some t \<Rightarrow> (writeResult successStatus n, f, example_change t (Some (the (osFiles w t) @ take n (view_elems bytes))) w)
     | None \<Rightarrow> (writeResult (statusOf WriteFailed) 0, f, w))"

definition example_move :: "path \<Rightarrow> path \<Rightarrow> ReplaceMode \<Rightarrow> SymlinkPolicy \<Rightarrow> example_os \<Rightarrow> Status \<times> example_os" where
  "example_move t d mode policy w = (successStatus, example_change d (osFiles w t) w)"

definition example_platform :: "(example_os, unit) Platform" where
  "example_platform = idle_platform\<lparr>
     p_queryEntry := example_query,
     p_openWriter := \<lambda>t options. example_open t (writerMode options = W_CreateNew),
     p_writeFile := example_write,
     p_flushFile := \<lambda>f mode w. (successStatus, f, w),
     p_closeFile := \<lambda>f w. (successStatus, f\<lparr>nativeHandle := None\<rparr>, w),
     p_movePath := example_move,
     p_createDirectories := \<lambda>t options w. (successStatus, w),
     p_removeFile := \<lambda>t options w. (successStatus, example_change t None w),
     p_flushDirectory := \<lambda>t w. (statusOf FlushFailed, w),
     p_ticks := \<lambda>w. (7, w)\<rparr>"

lemma example_changes [simp]:
  "osHandles (example_change t c w) = osHandles w"
  "t \<noteq> example_destination \<Longrightarrow> osHistory (example_change t c w) = osHistory w"
  "osHistory (example_change example_destination c w) = osHistory w @ [c]"
  "osFiles (example_change t c w) = (osFiles w)(t := c)"
  by (simp_all add: example_change_def)

lemma example_keeps: "keeps_destination example_platform (\<lambda>t. t) osHistory example_destination"
  unfolding keeps_destination_def by (auto simp: example_platform_def idle_platform_def example_query_def)

lemma example_writes: "writes_entries example_platform (\<lambda>t. t) osFiles osHandles osHistory example_destination"
  unfolding writes_entries_def
  by (auto simp: example_platform_def idle_platform_def example_open_def example_file_def example_write_def example_move_def Let_def split: if_splits)

lemma example_distinct: "distinct_temporaries (\<lambda>t. t) example_destination start"
proof -
  have "path_append [0x2E] q \<noteq> [0x64]" for q
  proof
    assume eq: "path_append [0x2E] q = [0x64]"
    have root: "root_name [0x2E] = []" "root_name [0x64] = []" by (simp_all add: root_name_def)
    show False
    proof (cases "path_is_absolute q \<or> root_name q \<noteq> [] \<and> root_name q \<noteq> root_name [0x2E]")
      case True
      then have "q = [0x64]" using eq by (simp add: path_append_def)
      then show False using True root by (simp add: path_is_absolute_def)
    next
      case False
      then have "has_root_directory q \<and> after_root_name q = [0x64]" using eq root by (auto simp: path_append_def split: if_splits)
      then show False by (auto simp: has_root_directory_def is_separator_def)
    qed
  qed
  then show ?thesis by (simp add: distinct_temporaries_def atomic_parent_def example_destination_def path_parent_def relative_path_def
        after_root_name_def root_name_def root_path_def strip_component_def is_separator_def)
qed

definition example_atomic :: AtomicWriteOptions where
  "example_atomic = \<lparr>atomicCreateParents = True, atomicReplace = ReplaceExisting, atomicPolicy = DoNotFollow, atomicFlush = Data,
     flushParentDirectory = True, temporaryNamePrefix = [0x2E, 0x74]\<rparr>"

definition example_os_state :: example_os where
  "example_os_state = \<lparr>osFiles = (\<lambda>t. if t = example_destination then Some [9] else None), osHandles = (\<lambda>n. None), osHistory = [Some [9]]\<rparr>"

text \<open>On this platform the flush of the parent directory fails, after the payload is in place.\<close>

lemma example_run: "osHistory (snd (writeAllBytesAtomic example_platform example_destination \<lparr>view_data = 0, view_elems = [1, 2, 3]\<rparr>
    example_atomic example_os_state)) = [Some [9], Some [1, 2, 3]]"
  by code_simp

theorem atomic_replacement_witness:
  "keeps_destination example_platform (\<lambda>t. t) osHistory example_destination \<and>
   writes_entries example_platform (\<lambda>t. t) osFiles osHandles osHistory example_destination \<and>
   distinct_temporaries (\<lambda>t. t) example_destination (temporaryNamePrefix example_atomic) \<and>
   atomic_outcome example_platform osHistory (atomic_parent example_destination) [1, 2, 3] example_atomic (osHistory example_os_state)
     (writeAllBytesAtomic example_platform example_destination \<lparr>view_data = 0, view_elems = [1, 2, 3]\<rparr> example_atomic example_os_state) \<and>
   osHistory (snd (writeAllBytesAtomic example_platform example_destination \<lparr>view_data = 0, view_elems = [1, 2, 3]\<rparr> example_atomic example_os_state)) =
     [Some [9], Some [1, 2, 3]]"
  using atomic_replacement [OF example_keeps example_writes example_distinct, of "\<lparr>view_data = 0, view_elems = [1, 2, 3]\<rparr>" example_atomic example_os_state]
  by (simp add: example_keeps example_writes example_distinct example_run)

section \<open>Where the temporary file lies\<close>

lemma decimal_digits: "b \<in> set (decimal n) \<Longrightarrow> 0x30 \<le> b \<and> b \<le> 0x39"
proof (induction n rule: decimal.induct)
  case (1 n)
  have digit: "(0x30 :: byte) \<le> of_nat (0x30 + k) \<and> (of_nat (0x30 + k) :: byte) \<le> 0x39" if "k < 10" for k
    using that by (simp add: word_le_nat_alt unat_of_nat del: of_nat_add)
  show ?case using 1 digit [of n] digit [of "n mod 10"] by (cases "n < 10") (auto simp: decimal.simps [of n])
qed

text \<open>A code unit below 128 stands for itself in both encodings.\<close>

lemma ascii_unit:
  assumes "list_all isScalarValue ss" "u \<in> set (utf16_text ss)" "unat u < 128"
  shows "\<exists>b \<in> set (utf8_text ss). unat b = unat u"
proof -
  obtain s where s: "s \<in> set ss" "u \<in> set (utf16_encoding s)" using assms(2) by auto
  have scalar: "isScalarValue s" using assms(1) s(1) by (simp add: list_all_iff)
  have unit: "unat u \<in> set (map unat (utf16_encoding s))" using s(2) by simp
  have "unat s = unat u"
    using unit assms(3) by (cases rule: utf16_encoding_cases [OF scalar]) simp_all
  then obtain b where "utf8_encoding s = [b]" "unat b = unat u"
    using assms(3) by (cases rule: utf8_encoding_cases [OF scalar]) (auto simp: map_unat_eq_Cons)
  then show ?thesis using s(1) by force
qed

lemma plain_name:
  assumes plain: "ok (validateAtomicTemporaryPrefix start)" "0x3A \<notin> set start"
    and native: "native_of_utf8 (temporary_name start ticks cnt n) = Some name"
  shows "name \<noteq> []" "u \<in> set name \<Longrightarrow> \<not> is_separator u \<and> u \<noteq> 0x3A"
proof -
  let ?t = "temporary_name start ticks cnt n"
  obtain ss where ss: "scalars_of_utf8 ?t = Some ss" "name = utf16_text ss" using native by (auto simp: native_of_utf8_def)
  have sound: "list_all isScalarValue ss \<and> ?t = utf8_text ss" by (rule scalars_of_utf8_sound [OF ss(1)])
  have "ss \<noteq> []" using sound by (auto simp: temporary_name_def)
  then show "name \<noteq> []" using sound ss(2) utf16.enc_nonempty by (cases ss) auto
  have special: "b \<notin> set ?t" if "b = 0x2F \<or> b = 0x5C \<or> b = 0x3A" for b
    using that plain decimal_digits [of b]
    by (auto simp: temporary_name_def validateAtomicTemporaryPrefix_def hasPathSeparator_def split: if_splits)
  assume u: "u \<in> set name"
  show "\<not> is_separator u \<and> u \<noteq> 0x3A"
  proof (rule ccontr)
    assume "\<not> ?thesis"
    then have c: "u = 0x2F \<or> u = 0x5C \<or> u = 0x3A" by (auto simp: is_separator_def)
    then have "unat u < 128" by auto
    then obtain b where b: "b \<in> set ?t" "unat b = unat u" using ascii_unit [of ss u] sound ss(2) u by metis
    have "b = 0x2F \<or> b = 0x5C \<or> b = 0x3A" using b(2) c by (auto simp: unat_eq_iff_nat)
    then show False using special b(1) by blast
  qed
qed

text \<open>
  C2: a temporary file of an atomic write whose prefix passed validation and has no colon lies in the destination's directory: its path is that
  of the directory, a separator if one is needed, and a name of one component.
\<close>

theorem temporary_beside_destination:
  assumes "ok (validateAtomicTemporaryPrefix start)" "0x3A \<notin> set start" "uniqueAtomicTemporaryPath p parent start n w = (Returned t, w')"
  shows "\<exists>name. t = parent @ (if path_filename parent \<noteq> [] then [0x5C] else []) @ name \<and> name \<noteq> [] \<and> list_all (\<lambda>u. \<not> is_separator u) name"
proof -
  obtain ticks cnt name where name: "native_of_utf8 (temporary_name start ticks cnt n) = Some name" and t: "t = path_append parent name"
    using assms(3) by (auto simp: uniqueAtomicTemporaryPath_def pathFromTrustedUtf8_def try_value_def
        split: prod.splits option.splits throwing.splits attempt.splits)
  note plain = plain_name [OF assms(1,2) name]
  have "root_name_length name = 0"
    using plain(2) by (cases name rule: root_name_length.cases) auto
  then have root: "root_name name = []" "after_root_name name = name" by (simp_all add: root_name_def after_root_name_def)
  then have "\<not> has_root_directory name" using plain(1) plain(2) [of "hd name"] by (simp add: has_root_directory_def)
  then have "t = parent @ (if path_filename parent \<noteq> [] then [0x5C] else []) @ name"
    using root by (auto simp: t path_append_def path_is_absolute_def)
  then show ?thesis using plain by (auto simp: list_all_iff)
qed

theorem temporary_beside_destination_witness:
  "\<exists>name t. fst (uniqueAtomicTemporaryPath example_platform [0x2E] [0x2E, 0x74] 0 example_os_state) = Returned t \<and>
    t = [0x2E, 0x5C] @ name \<and> name \<noteq> [] \<and> list_all (\<lambda>u. \<not> is_separator u) name"
proof -
  have "fst (uniqueAtomicTemporaryPath example_platform [0x2E] [0x2E, 0x74] 0 example_os_state) =
      Returned [0x2E, 0x5C, 0x2E, 0x74, 0x37, 0x5F, 0x30, 0x5F, 0x30, 0x2E, 0x74, 0x6D, 0x70]" by code_simp
  then obtain w where path: "uniqueAtomicTemporaryPath example_platform [0x2E] [0x2E, 0x74] 0 example_os_state =
      (Returned [0x2E, 0x5C, 0x2E, 0x74, 0x37, 0x5F, 0x30, 0x5F, 0x30, 0x2E, 0x74, 0x6D, 0x70], w)" by (metis prod.collapse)
  have "ok (validateAtomicTemporaryPrefix [0x2E, 0x74])" by code_simp
  from temporary_beside_destination [OF this _ path] show ?thesis
    by (simp add: path path_filename_def last_component_def relative_path_def after_root_name_def root_name_def is_separator_def)
qed

text \<open>With a colon it need not: the prefix of a drive passes the validation, and the temporary file is not in the directory \<^verbatim>\<open>C:\t\<close> of the destination.\<close>

lemma drive_prefix_escapes:
  "ok (validateAtomicTemporaryPrefix [0x44, 0x3A])"
  "map_option (path_append [0x43, 0x3A, 0x5C, 0x74]) (native_of_utf8 (temporary_name [0x44, 0x3A] 7 0 0)) =
    native_of_utf8 (temporary_name [0x44, 0x3A] 7 0 0)"
  by code_simp+

end
