(* ===== verification/FileSystem_Trees.thy ===== *)
theory FileSystem_Trees
  imports FileSystem_Operations
begin

text \<open>
  Listing and removing directories. A platform is described by what its cursors hand out: \<open>left c\<close> and \<open>onto w c\<close> tell what a cursor
  has not yet delivered. \<open>listDirectory\<close> on a cursor that does not fail returns the entries its options select, up to the limit.
  \<open>removeDirectoryTree\<close>, whose calls may all fail, removes the entries of the tree in postorder until it is done, the limit is
  reached or something fails. That both return is part of the statements.
\<close>

section \<open>Listing\<close>

definition lists_entries :: "('w, 'c) Platform \<Rightarrow> ('c \<Rightarrow> (Entry \<times> bool) list) \<Rightarrow> bool" where
  "lists_entries p left \<longleftrightarrow> (\<forall>c w. case p_readDirectoryCursor p c w of (r, c', w') \<Rightarrow>
     ok (cursorNextStatus r) \<and>
     (case left c of [] \<Rightarrow> \<not> cursorHasEntry r
      | (e, hidden) # rest \<Rightarrow> cursorHasEntry r \<and> cursorEntry r = e \<and> cursorHidden r = hidden \<and> left c' = rest))"

text \<open>What the options select.\<close>

definition selected :: "ListOptions \<Rightarrow> (Entry \<times> bool) list \<Rightarrow> Entry list" where
  "selected options xs = map fst (filter (\<lambda>(e, hidden). (includeHidden options \<or> \<not> hidden) \<and> includeDirectoryEntryKind (entryKind (entryInfo e)) options) xs)"

lemma selected_simps [simp]: "selected options [] = []"
  "selected options ((e, hidden) # xs) =
    (if (includeHidden options \<or> \<not> hidden) \<and> includeDirectoryEntryKind (entryKind (entryInfo e)) options then e # selected options xs else selected options xs)"
  by (simp_all add: selected_def)

text \<open>\<open>next\<close> skips what is not selected and returns the first entry that is, the end, or the limit.\<close>

lemma next_loop_law:
  assumes lists: "lists_entries p left"
  shows "\<exists>r c' w'. next_loop p c n w = Some (r, c', w') \<and> cursorOptions c' = cursorOptions c \<and>
    (case selected (cursorOptions c) (left n) of
       [] \<Rightarrow> r = cursorFailure successStatus \<and> limitReached c' = limitReached c
     | e # rest \<Rightarrow>
         if maxEntries (cursorOptions c) \<le> emittedEntries c then r = cursorFailure (statusOf SizeLimitExceeded) \<and> limitReached c'
         else r = \<lparr>nextStatus = successStatus, nextEntry = e, nextHasEntry = True\<rparr> \<and> emittedEntries c' = emittedEntries c + 1 \<and>
           limitReached c' = limitReached c \<and> (\<exists>n'. nativeCursor c' = Some n' \<and> selected (cursorOptions c) (left n') = rest))"
proof (induction "left n" arbitrary: n w)
  case Nil
  obtain r n' w' where read: "p_readDirectoryCursor p n w = (r, n', w')" by (rule prod_cases3)
  with lists have law: "ok (cursorNextStatus r)" "\<not> cursorHasEntry r"
    unfolding lists_entries_def by (metis (no_types, lifting) Nil case_prod_conv list.simps(4))+
  then show ?case using Nil [symmetric] read by (simp add: next_loop.simps)
next
  case (Cons x xs)
  obtain r n' w' where read: "p_readDirectoryCursor p n w = (r, n', w')" by (rule prod_cases3)
  obtain e hidden where x: "x = (e, hidden)" by (rule prod.exhaust)
  have law: "ok (cursorNextStatus r)" "cursorHasEntry r" "cursorEntry r = e" "cursorHidden r = hidden" "left n' = xs"
    using lists [unfolded lists_entries_def, rule_format, of n w] Cons(2) [symmetric] by (simp_all add: read x)
  show ?case
  proof (cases "skips (cursorOptions c) r")
    case True
    then have "selected (cursorOptions c) (left n) = selected (cursorOptions c) (left n')"
      using law Cons(2) [symmetric] by (auto simp: skips_def x)
    then show ?thesis using Cons(1) [OF law(5) [symmetric], of w'] True law read by (simp add: next_loop.simps [of p c n])
  next
    case False
    then have "selected (cursorOptions c) (left n) = e # selected (cursorOptions c) (left n')"
      using law Cons(2) [symmetric] by (auto simp: skips_def x)
    then show ?thesis using False law read
      by (cases "maxEntries (cursorOptions c) \<le> emittedEntries c") (simp_all add: next_loop.simps [of p c n])
  qed
qed

definition limited :: "nat \<Rightarrow> Entry list \<Rightarrow> ListResult" where
  "limited limit xs = \<lparr>listStatus = (if limit < length xs then statusOf SizeLimitExceeded else successStatus), entries = take limit xs\<rparr>"

lemma list_loop_law:
  assumes lists: "lists_entries p left" and memory: "\<And>w. p_throws p NewEntry w = NoThrow"
  shows "nativeCursor c = Some n \<Longrightarrow> \<not> limitReached c \<Longrightarrow> emittedEntries c = length found \<Longrightarrow> length found \<le> maxEntries (cursorOptions c) \<Longrightarrow>
    \<exists>c' w'. list_loop p found c w = Some (limited (maxEntries (cursorOptions c)) (found @ selected (cursorOptions c) (left n)), c', w')"
proof (induction "selected (cursorOptions c) (left n)" arbitrary: found c n w)
  case Nil
  note law = next_loop_law [OF lists, of c n w, folded Nil(1), simplified]
  then obtain c' w' where loop: "next_loop p c n w = Some (cursorFailure successStatus, c', w')" by blast
  then show ?case using Nil by (simp add: list_loop.simps [of p found c] DirectoryCursor_next_def cursorFailure_def limited_def)
next
  case (Cons e xs)
  note law = next_loop_law [OF lists, of c n w, folded Cons(2), unfolded list.case]
  then obtain r c' w' where loop: "next_loop p c n w = Some (r, c', w')" "cursorOptions c' = cursorOptions c"
      and law: "if maxEntries (cursorOptions c) \<le> emittedEntries c then r = cursorFailure (statusOf SizeLimitExceeded) \<and> limitReached c'
         else r = \<lparr>nextStatus = successStatus, nextEntry = e, nextHasEntry = True\<rparr> \<and> emittedEntries c' = emittedEntries c + 1 \<and>
           limitReached c' = limitReached c \<and> (\<exists>n'. nativeCursor c' = Some n' \<and> selected (cursorOptions c) (left n') = xs)"
    by blast
  show ?case
  proof (cases "maxEntries (cursorOptions c) \<le> emittedEntries c")
    case True
    then have "length found = maxEntries (cursorOptions c)" using Cons by simp
    then show ?thesis using True loop law Cons(3,4) Cons(2) [symmetric]
      by (simp add: list_loop.simps [of p found c] DirectoryCursor_next_def cursorFailure_def limited_def)
  next
    case False
    then obtain n' where n': "nativeCursor c' = Some n'" "selected (cursorOptions c) (left n') = xs" using law by auto
    have "\<exists>c2 w2. list_loop p (found @ [e]) c' w' =
        Some (limited (maxEntries (cursorOptions c')) ((found @ [e]) @ selected (cursorOptions c') (left n')), c2, w2)"
      by (rule Cons(1)) (use False law loop n' Cons in auto)
    then show ?thesis using False loop law Cons(3,4) Cons(2) [symmetric] n' memory
      by (simp add: list_loop.simps [of p found c] DirectoryCursor_next_def)
  qed
qed

section \<open>Removing a tree\<close>

datatype dir_tree = Tree Entry "dir_tree list"

fun postorder :: "dir_tree \<Rightarrow> path list" where
  "postorder (Tree e ts) = concat (map postorder ts) @ [entryPath e]"

fun tree_count :: "dir_tree \<Rightarrow> nat" where
  "tree_count (Tree e ts) = Suc (sum_list (map tree_count ts))"

fun subtrees :: "dir_tree \<Rightarrow> dir_tree set" where
  "subtrees (Tree e ts) = insert (Tree e ts) (\<Union>t \<in> set ts. subtrees t)"

definition below :: "dir_tree list \<Rightarrow> path set" where
  "below ts = set (concat (map postorder ts))"

lemma below_simps [simp]: "below [] = {}" "below (t # ts) = set (postorder t) \<union> below ts"
  by (simp_all add: below_def)

lemma set_postorder [simp]: "set (postorder (Tree e ts)) = insert (entryPath e) (below ts)"
  by (simp add: below_def)

lemma subtrees_self [simp]: "t \<in> subtrees t"
  by (cases t) simp

lemma subtrees_child: "Tree e ts \<in> subtrees t \<Longrightarrow> set ts \<subseteq> subtrees t"
  by (induction t arbitrary: e ts) (fastforce intro: subtrees_self)

text \<open>
  The contract for a tree whose entries the log \<open>log w\<close> of removals has not touched so far. \<open>onto w c\<close> says what an open cursor \<open>c\<close> is on:
  a directory, and the children it has not yet delivered. Every call may fail. Opening a directory nothing of which is removed, by its
  path or through a cursor on its parent, gives, when it succeeds, a new cursor on its children, in the order the tree has them; a
  successful read of a cursor delivers the next child as long as nothing of what it has left is removed; a removal that succeeds is
  logged, one that fails changes nothing, and no other call removes anything or disturbs other cursors. The root, while it is there,
  is not reported missing and no other kind.
\<close>

definition keeps_cursors :: "('w \<Rightarrow> 'c \<Rightarrow> (path \<times> dir_tree list) option) \<Rightarrow> 'c set \<Rightarrow> 'w \<Rightarrow> 'w \<Rightarrow> bool" where
  "keeps_cursors onto but w w' \<longleftrightarrow> (\<forall>d. d \<notin> but \<longrightarrow> onto w d \<noteq> None \<longrightarrow> onto w' d = onto w d)"

definition opens_children ::
  "('w \<Rightarrow> 'c \<Rightarrow> (path \<times> dir_tree list) option) \<Rightarrow> ('w \<Rightarrow> path list) \<Rightarrow> path \<Rightarrow> dir_tree list \<Rightarrow> 'w \<Rightarrow> 'c DirectoryCursorOpenResult \<times> 'w \<Rightarrow> bool" where
  "opens_children onto log path ts w = (\<lambda>(r, w'). log w' = log w \<and> keeps_cursors onto {} w w' \<and>
     (ok (cursorStatus r) \<longrightarrow> (\<exists>c. cursorState r = Some c \<and> onto w c = None \<and> onto w' c = Some (path, ts))))"

definition reads_children ::
  "('w \<Rightarrow> 'c \<Rightarrow> (path \<times> dir_tree list) option) \<Rightarrow> ('w \<Rightarrow> path list) \<Rightarrow> 'c \<Rightarrow> path \<Rightarrow> dir_tree list \<Rightarrow> 'w \<Rightarrow> DirectoryCursorNextResult \<times> 'c \<times> 'w \<Rightarrow> bool" where
  "reads_children onto log c path ts w = (\<lambda>(r, c', w'). log w' = log w \<and> keeps_cursors onto {c} w w' \<and> (c' = c \<or> onto w c' = None) \<and>
     (ok (cursorNextStatus r) \<longrightarrow>
       (case ts of [] \<Rightarrow> \<not> cursorHasEntry r
        | Tree e us # rest \<Rightarrow> cursorHasEntry r \<and> cursorEntry r = e \<and> onto w' c' = Some (path, rest))))"

definition logs_removal ::
  "('w \<Rightarrow> 'c \<Rightarrow> (path \<times> dir_tree list) option) \<Rightarrow> ('w \<Rightarrow> path list) \<Rightarrow> path \<Rightarrow> 'w \<Rightarrow> Status \<times> 'w \<Rightarrow> bool" where
  "logs_removal onto log path w = (\<lambda>(status, w'). log w' = (if ok status then log w @ [path] else log w) \<and> keeps_cursors onto {} w w')"

definition removal_options :: RemoveOptions where
  "removal_options = \<lparr>removeIfMissing = False, removePolicy = DoNotFollow\<rparr>"

definition holds_tree ::
  "('w, 'c) Platform \<Rightarrow> ('w \<Rightarrow> 'c \<Rightarrow> (path \<times> dir_tree list) option) \<Rightarrow> ('w \<Rightarrow> path list) \<Rightarrow> dir_tree \<Rightarrow> bool" where
  "holds_tree p onto log t0 \<longleftrightarrow>
    (\<forall>e ts. Tree e ts \<in> subtrees t0 \<longrightarrow> entryPath e \<noteq> [] \<and> (entryKind (entryInfo e) \<noteq> EK_Directory \<longrightarrow> ts = [])) \<and>
    (\<forall>e ts w. Tree e ts \<in> subtrees t0 \<longrightarrow> set (postorder (Tree e ts)) \<inter> set (log w) = {} \<longrightarrow>
       opens_children onto log (entryPath e) ts w (p_openDirectoryCursor p (entryPath e) DoNotFollow w) \<and>
       (\<forall>parent d us rest. Tree d us \<in> subtrees t0 \<longrightarrow> Tree e ts \<in> set us \<longrightarrow> onto w parent = Some (entryPath d, rest) \<longrightarrow>
          opens_children onto log (entryPath e) ts w (p_openChildDirectoryCursor p parent (entryPath e) DoNotFollow w))) \<and>
    (\<forall>c path ts w. onto w c = Some (path, ts) \<longrightarrow> below ts \<inter> set (log w) = {} \<longrightarrow>
       reads_children onto log c path ts w (p_readDirectoryCursor p c w)) \<and>
    (\<forall>c w. log (p_releaseCursor p c w) = log w \<and> keeps_cursors onto {c} w (p_releaseCursor p c w)) \<and>
    (\<forall>path w. logs_removal onto log path w (p_removeFile p path removal_options w) \<and>
       logs_removal onto log path w (p_removeEmptyDirectory p path removal_options w)) \<and>
    (case t0 of Tree e ts \<Rightarrow> \<forall>policy w. entryPath e \<notin> set (log w) \<longrightarrow>
       (case p_queryEntry p (entryPath e) policy w of (r, w') \<Rightarrow> log w' = log w \<and> code (infoStatus r) \<noteq> NotFound \<and>
         (ok (infoStatus r) \<longrightarrow> entryKind (infoOf r) = entryKind (entryInfo e))))"

text \<open>
  A platform on which nothing fails that can be done: memory suffices, what is still there can be opened, read and asked for, a file
  that is there can be removed, and so can a directory whose entries have all been removed.
\<close>

definition reliable ::
  "('w, 'c) Platform \<Rightarrow> ('w \<Rightarrow> 'c \<Rightarrow> (path \<times> dir_tree list) option) \<Rightarrow> ('w \<Rightarrow> path list) \<Rightarrow> dir_tree \<Rightarrow> bool" where
  "reliable p onto log t0 \<longleftrightarrow>
    (\<forall>w. p_throws p NewFrame w = NoThrow) \<and>
    (\<forall>e ts w. Tree e ts \<in> subtrees t0 \<longrightarrow> set (postorder (Tree e ts)) \<inter> set (log w) = {} \<longrightarrow> entryKind (entryInfo e) = EK_Directory \<longrightarrow>
       ok (cursorStatus (fst (p_openDirectoryCursor p (entryPath e) DoNotFollow w))) \<and>
       (\<forall>parent d us rest. Tree d us \<in> subtrees t0 \<longrightarrow> Tree e ts \<in> set us \<longrightarrow> onto w parent = Some (entryPath d, rest) \<longrightarrow>
          ok (cursorStatus (fst (p_openChildDirectoryCursor p parent (entryPath e) DoNotFollow w))))) \<and>
    (\<forall>c path ts w. onto w c = Some (path, ts) \<longrightarrow> below ts \<inter> set (log w) = {} \<longrightarrow> ok (cursorNextStatus (fst (p_readDirectoryCursor p c w)))) \<and>
    (\<forall>e ts w. Tree e ts \<in> subtrees t0 \<longrightarrow> entryPath e \<notin> set (log w) \<longrightarrow> below ts \<subseteq> set (log w) \<longrightarrow>
       ok (fst (if entryKind (entryInfo e) = EK_Directory then p_removeEmptyDirectory p (entryPath e) removal_options w
                else p_removeFile p (entryPath e) removal_options w))) \<and>
    (case t0 of Tree e ts \<Rightarrow> \<forall>policy w. entryPath e \<notin> set (log w) \<longrightarrow> ok (infoStatus (fst (p_queryEntry p (entryPath e) policy w))))"

text \<open>
  A frame for the subtree \<open>t\<close> whose remaining children are \<open>ts\<close>; \<open>X\<close> is what has been removed or will be by the frames above it, and
  the rest of the subtree is below \<open>ts\<close>. On a stack every frame is for a child of the next one, which has a cursor of its own.
\<close>

definition frame_holds ::
  "('w \<Rightarrow> 'c \<Rightarrow> (path \<times> dir_tree list) option) \<Rightarrow> 'w \<Rightarrow> dir_tree \<Rightarrow> path set \<Rightarrow> 'c RemovalFrame \<Rightarrow> dir_tree \<Rightarrow> dir_tree list \<Rightarrow> bool" where
  "frame_holds onto w t0 X f t ts \<longleftrightarrow> t \<in> subtrees t0 \<and>
     (case t of Tree e us \<Rightarrow> entryPath e = framePath f \<and> entryKind (entryInfo e) = entryKind (frameInfo f) \<and> set ts \<subseteq> set us \<and> below us \<subseteq> X \<union> below ts \<and>
       (case frameCursor f of None \<Rightarrow> us = ts | Some c \<Rightarrow> entryKind (frameInfo f) = EK_Directory \<and> onto w c = Some (framePath f, ts)))"

definition child_of :: "dir_tree \<Rightarrow> dir_tree \<Rightarrow> bool" where
  "child_of t u \<longleftrightarrow> (case u of Tree d us \<Rightarrow> t \<in> set us)"

fun stack_holds ::
  "('w \<Rightarrow> 'c \<Rightarrow> (path \<times> dir_tree list) option) \<Rightarrow> 'w \<Rightarrow> dir_tree \<Rightarrow> path set \<Rightarrow> 'c RemovalFrame list \<Rightarrow> (dir_tree \<times> dir_tree list) list \<Rightarrow> bool" where
  "stack_holds onto w t0 X [] tss \<longleftrightarrow> tss = []"
| "stack_holds onto w t0 X (f # fs) tss \<longleftrightarrow>
    (case tss of [] \<Rightarrow> False
     | (t, ts) # tss' \<Rightarrow> frame_holds onto w t0 X f t ts \<and>
         (fs \<noteq> [] \<longrightarrow> frameCursor (hd fs) \<noteq> None \<and> tss' \<noteq> [] \<and> child_of t (fst (hd tss'))) \<and>
         stack_holds onto w t0 (insert (framePath f) (X \<union> below ts)) fs tss')"

definition open_cursors :: "'c RemovalFrame list \<Rightarrow> 'c list" where
  "open_cursors fs = concat (map (\<lambda>f. case frameCursor f of None \<Rightarrow> [] | Some c \<Rightarrow> [c]) fs)"

lemma open_cursors_simps [simp]: "open_cursors [] = []"
  "open_cursors (f # fs) = (case frameCursor f of None \<Rightarrow> open_cursors fs | Some c \<Rightarrow> c # open_cursors fs)"
  by (simp_all add: open_cursors_def split: option.split)

lemma stack_live: "stack_holds onto w t0 X fs tss \<Longrightarrow> d \<in> set (open_cursors fs) \<Longrightarrow> onto w d \<noteq> None"
proof (induction fs arbitrary: X tss)
  case (Cons f fs)
  then obtain t ts tss' where tss: "frame_holds onto w t0 X f t ts" "stack_holds onto w t0 (insert (framePath f) (X \<union> below ts)) fs tss'"
    by (auto split: list.splits)
  show ?case
    by (cases t) (use tss(1) Cons.prems(2) Cons.IH [OF tss(2)] in \<open>auto simp: frame_holds_def split: option.splits\<close>)
qed simp

lemma stack_parent:
  assumes "fs \<noteq> [] \<longrightarrow> frameCursor (hd fs) \<noteq> None \<and> tss \<noteq> [] \<and> child_of t (fst (hd tss))" "stack_holds onto w t0 X fs tss"
  shows "fs = [] \<or> (\<exists>d us c rest. Tree d us \<in> subtrees t0 \<and> t \<in> set us \<and> frameCursor (hd fs) = Some c \<and> onto w c = Some (entryPath d, rest))"
proof (cases fs)
  case (Cons g gs)
  then obtain n ns tss' where tss: "tss = (n, ns) # tss'" "frame_holds onto w t0 X g n ns" using assms(2) by (auto split: list.splits)
  obtain d us where n: "n = Tree d us" by (cases n)
  obtain c where c: "frameCursor g = Some c" using assms(1) Cons by auto
  have "Tree d us \<in> subtrees t0" "onto w c = Some (entryPath d, ns)" using tss(2) by (simp_all add: frame_holds_def n c)
  moreover have "t \<in> set us" using assms(1) Cons by (simp add: child_of_def tss(1) n)
  ultimately show ?thesis using c Cons by auto
qed simp

lemma stack_kept:
  "stack_holds onto w t0 X fs tss \<Longrightarrow> (\<And>d. d \<in> set (open_cursors fs) \<Longrightarrow> onto w' d = onto w d) \<Longrightarrow> stack_holds onto w' t0 X fs tss"
proof (induction fs arbitrary: X tss)
  case (Cons f fs)
  then obtain t ts tss' where tss: "tss = (t, ts) # tss'" "frame_holds onto w t0 X f t ts"
      "fs \<noteq> [] \<longrightarrow> frameCursor (hd fs) \<noteq> None \<and> tss' \<noteq> [] \<and> child_of t (fst (hd tss'))"
      "stack_holds onto w t0 (insert (framePath f) (X \<union> below ts)) fs tss'"
    by (auto split: list.splits)
  have "frame_holds onto w' t0 X f t ts"
    using tss(2) Cons.prems(2) by (cases t) (auto simp: frame_holds_def split: option.splits)
  moreover have "stack_holds onto w' t0 (insert (framePath f) (X \<union> below ts)) fs tss'"
    by (rule Cons.IH [OF tss(4)]) (use Cons.prems(2) in \<open>auto split: option.splits\<close>)
  ultimately show ?case using tss(1,3) by simp
qed simp

text \<open>What a stack of frames still has to remove, in order.\<close>

definition stack_todo :: "'c RemovalFrame list \<Rightarrow> (dir_tree \<times> dir_tree list) list \<Rightarrow> path list" where
  "stack_todo pending tss = concat (map (\<lambda>(f, t, ts). concat (map postorder ts) @ [framePath f]) (zip pending tss))"

lemma stack_todo_simps [simp]: "stack_todo [] [] = []"
  "stack_todo (f # pending) ((t, ts) # tss) = concat (map postorder ts) @ framePath f # stack_todo pending tss"
  by (simp_all add: stack_todo_def)

lemma stack_todo_set: "set (stack_todo (f # pending) ((t, ts) # tss)) = insert (framePath f) (below ts \<union> set (stack_todo pending tss))"
  by (auto simp: below_def)

lemma tree_shape: "holds_tree p onto log t0 \<Longrightarrow> Tree e ts \<in> subtrees t0 \<Longrightarrow> entryPath e \<noteq> [] \<and> (entryKind (entryInfo e) \<noteq> EK_Directory \<longrightarrow> ts = [])"
  unfolding holds_tree_def by (elim conjE) metis

lemma tree_release: "holds_tree p onto log t0 \<Longrightarrow> log (p_releaseCursor p c w) = log w \<and> keeps_cursors onto {c} w (p_releaseCursor p c w)"
  unfolding holds_tree_def by (elim conjE) metis

lemma tree_reset: "holds_tree p onto log t0 \<Longrightarrow> log (resetCursor p c w) = log w"
  using tree_release [of p onto log t0] by (auto simp: resetCursor_def split: option.split)

lemma tree_release_frames: "holds_tree p onto log t0 \<Longrightarrow> log (release_frames p fs w) = log w"
proof -
  assume tree: "holds_tree p onto log t0"
  have "log (fold (\<lambda>f. resetCursor p (frameCursor f)) gs w) = log w" for gs w
    by (induction gs arbitrary: w) (simp_all add: tree_reset [OF tree])
  then show ?thesis by (simp add: release_frames_def)
qed

lemma tree_read:
  assumes tree: "holds_tree p onto log t0" and on: "onto w c = Some (path, ts)" and intact: "below ts \<inter> set (log w) = {}"
    and read: "p_readDirectoryCursor p c w = (r, c', w')"
  shows "log w' = log w" "reliable p onto log t0 \<Longrightarrow> ok (cursorNextStatus r)"
    "d \<noteq> c \<Longrightarrow> onto w d \<noteq> None \<Longrightarrow> d \<noteq> c' \<and> onto w' d = onto w d"
    "ok (cursorNextStatus r) \<Longrightarrow> ts = [] \<Longrightarrow> \<not> cursorHasEntry r"
    "ok (cursorNextStatus r) \<Longrightarrow> ts = Tree e us # rest \<Longrightarrow> cursorHasEntry r \<and> cursorEntry r = e \<and> onto w' c' = Some (path, rest)"
proof -
  have "reads_children onto log c path ts w (p_readDirectoryCursor p c w)"
    by (rule tree [unfolded holds_tree_def, THEN conjunct2, THEN conjunct2, THEN conjunct1, rule_format, OF on intact])
  then have "reads_children onto log c path ts w (r, c', w')" by (simp only: read)
  then show "log w' = log w" "d \<noteq> c \<Longrightarrow> onto w d \<noteq> None \<Longrightarrow> d \<noteq> c' \<and> onto w' d = onto w d"
    "ok (cursorNextStatus r) \<Longrightarrow> ts = [] \<Longrightarrow> \<not> cursorHasEntry r"
    "ok (cursorNextStatus r) \<Longrightarrow> ts = Tree e us # rest \<Longrightarrow> cursorHasEntry r \<and> cursorEntry r = e \<and> onto w' c' = Some (path, rest)"
    by (auto simp: reads_children_def keeps_cursors_def)
  show "ok (cursorNextStatus r)" if "reliable p onto log t0"
  proof -
    have "ok (cursorNextStatus (fst (p_readDirectoryCursor p c w)))"
      by (rule that [unfolded reliable_def, THEN conjunct2, THEN conjunct2, THEN conjunct1, rule_format, OF on intact])
    then show ?thesis by (simp add: read)
  qed
qed

lemma tree_open:
  assumes tree: "holds_tree p onto log t0" and t: "Tree e ts \<in> subtrees t0" and intact: "set (postorder (Tree e ts)) \<inter> set (log w) = {}"
    and parent: "atRoot \<or> (\<exists>d us rest. Tree d us \<in> subtrees t0 \<and> Tree e ts \<in> set us \<and> onto w c = Some (entryPath d, rest))"
    and opened: "(if atRoot then p_openDirectoryCursor p (entryPath e) DoNotFollow w
             else p_openChildDirectoryCursor p c (entryPath e) DoNotFollow w) = (r, w')"
  shows "opens_children onto log (entryPath e) ts w (r, w')"
    "reliable p onto log t0 \<Longrightarrow> entryKind (entryInfo e) = EK_Directory \<Longrightarrow> ok (cursorStatus r)"
proof -
  have "opens_children onto log (entryPath e) ts w (p_openDirectoryCursor p (entryPath e) DoNotFollow w) \<and>
       (\<forall>parent d us rest. Tree d us \<in> subtrees t0 \<longrightarrow> Tree e ts \<in> set us \<longrightarrow> onto w parent = Some (entryPath d, rest) \<longrightarrow>
          opens_children onto log (entryPath e) ts w (p_openChildDirectoryCursor p parent (entryPath e) DoNotFollow w))"
    by (rule tree [unfolded holds_tree_def, THEN conjunct2, THEN conjunct1, rule_format, OF t intact])
  then show "opens_children onto log (entryPath e) ts w (r, w')" using opened parent by (metis (full_types))
  show "ok (cursorStatus r)" if "reliable p onto log t0" "entryKind (entryInfo e) = EK_Directory"
  proof -
    have "ok (cursorStatus (fst (p_openDirectoryCursor p (entryPath e) DoNotFollow w))) \<and>
       (\<forall>parent d us rest. Tree d us \<in> subtrees t0 \<longrightarrow> Tree e ts \<in> set us \<longrightarrow> onto w parent = Some (entryPath d, rest) \<longrightarrow>
          ok (cursorStatus (fst (p_openChildDirectoryCursor p parent (entryPath e) DoNotFollow w))))"
      by (rule that(1) [unfolded reliable_def, THEN conjunct2, THEN conjunct1, rule_format, OF t intact that(2)])
    then show ?thesis using opened parent by (metis fst_conv)
  qed
qed

lemma remove_entry_law:
  assumes tree: "holds_tree p onto log t0" and t: "Tree e us \<in> subtrees t0" "entryPath e = framePath f" "entryKind (entryInfo e) = entryKind (frameInfo f)"
    and removed: "remove_entry p f w = (st, w')"
  shows "log w' = (if ok st then log w @ [framePath f] else log w)" "onto w d \<noteq> None \<Longrightarrow> onto w' d = onto w d"
    "reliable p onto log t0 \<Longrightarrow> framePath f \<notin> set (log w) \<Longrightarrow> below us \<subseteq> set (log w) \<Longrightarrow> ok st"
proof -
  have path: "framePath f \<noteq> []" using tree_shape [OF tree t(1)] t(2) by simp
  have run: "(if entryKind (frameInfo f) = EK_Directory then p_removeEmptyDirectory p (framePath f) removal_options w
      else p_removeFile p (framePath f) removal_options w) = (st, w')"
    using removed path by (auto simp: remove_entry_def removeFile_def removeEmptyDirectory_def guarded_remove_def removal_options_def split: if_splits)
  have "logs_removal onto log (framePath f) w (p_removeFile p (framePath f) removal_options w) \<and>
      logs_removal onto log (framePath f) w (p_removeEmptyDirectory p (framePath f) removal_options w)"
    using tree unfolding holds_tree_def by (elim conjE) metis
  then have "logs_removal onto log (framePath f) w (st, w')" using run by (metis (full_types))
  then show "log w' = (if ok st then log w @ [framePath f] else log w)" "onto w d \<noteq> None \<Longrightarrow> onto w' d = onto w d"
    by (simp_all add: logs_removal_def keeps_cursors_def)
  show "ok st" if "reliable p onto log t0" "framePath f \<notin> set (log w)" "below us \<subseteq> set (log w)"
  proof -
    have "ok (fst (if entryKind (entryInfo e) = EK_Directory then p_removeEmptyDirectory p (entryPath e) removal_options w
                else p_removeFile p (entryPath e) removal_options w))"
      by (rule that(1) [unfolded reliable_def, THEN conjunct2, THEN conjunct2, THEN conjunct2, THEN conjunct1, rule_format, OF t(1)])
        (use that t(2) in auto)
    then show ?thesis using run t(2,3) by (metis fst_conv)
  qed
qed

lemma tree_asked:
  assumes tree: "holds_tree p onto log (Tree e ts)" and there: "entryPath e \<notin> set (log w)"
    and q: "p_queryEntry p (entryPath e) policy w = (q, w')"
  shows "log w' = log w \<and> code (infoStatus q) \<noteq> NotFound \<and> (ok (infoStatus q) \<longrightarrow> entryKind (infoOf q) = entryKind (entryInfo e)) \<and>
    (reliable p onto log (Tree e ts) \<longrightarrow> ok (infoStatus q))"
proof -
  have "case p_queryEntry p (entryPath e) policy w of (r, w') \<Rightarrow> log w' = log w \<and> code (infoStatus r) \<noteq> NotFound \<and>
         (ok (infoStatus r) \<longrightarrow> entryKind (infoOf r) = entryKind (entryInfo e))"
    by (rule tree [unfolded holds_tree_def dir_tree.case, THEN conjunct2, THEN conjunct2, THEN conjunct2, THEN conjunct2, THEN conjunct2,
        rule_format, OF there])
  moreover have "ok (infoStatus (fst (p_queryEntry p (entryPath e) policy w)))" if "reliable p onto log (Tree e ts)"
    by (rule that [unfolded reliable_def dir_tree.case, THEN conjunct2, THEN conjunct2, THEN conjunct2, THEN conjunct2, rule_format, OF there])
  ultimately show ?thesis using q by simp
qed

text \<open>One iteration: with a child left it is the next frame, without one the frame ends, or a call has failed.\<close>

text \<open>Opening a frame: the cursor it has, or a new one.\<close>

lemma open_frame_law:
  assumes tree: "holds_tree p onto log t0" and frame: "frame_holds onto w t0 X f t ts" and dir: "entryKind (frameInfo f) = EK_Directory"
    and parent: "parents = [] \<or> (\<exists>d us c rest. Tree d us \<in> subtrees t0 \<and> t \<in> set us \<and> frameCursor (hd parents) = Some c \<and> onto w c = Some (entryPath d, rest))"
    and intact: "insert (framePath f) (below ts) \<inter> set (log w) = {}" and opened: "open_frame p f parents w = (o', w1)"
  shows "log w1 = log w" "case o' of Inl st \<Rightarrow> \<not> ok st \<and> \<not> reliable p onto log t0
    | Inr c \<Rightarrow> onto w1 c = Some (framePath f, ts) \<and> (\<forall>d. onto w d \<noteq> None \<and> frameCursor f \<noteq> Some d \<longrightarrow> d \<noteq> c \<and> onto w1 d = onto w d)"
proof -
  obtain e us where t: "t = Tree e us" by (cases t)
  note f = frame [unfolded frame_holds_def t dir_tree.case]
  have "log w1 = log w \<and> (case o' of Inl st \<Rightarrow> \<not> ok st \<and> \<not> reliable p onto log t0
    | Inr c \<Rightarrow> onto w1 c = Some (framePath f, ts) \<and> (\<forall>d. onto w d \<noteq> None \<and> frameCursor f \<noteq> Some d \<longrightarrow> d \<noteq> c \<and> onto w1 d = onto w d))"
  proof (cases "frameCursor f")
    case (Some c)
    then show ?thesis using f opened by (auto simp: open_frame_def)
  next
    case None
    obtain r w2 where r: "(if parents = [] then p_openDirectoryCursor p (framePath f) DoNotFollow w
         else p_openChildDirectoryCursor p (the (frameCursor (hd parents))) (framePath f) DoNotFollow w) = (r, w2)" by (rule prod.exhaust)
    have e: "Tree e us \<in> subtrees t0" "entryPath e = framePath f" "us = ts" "entryKind (entryInfo e) = EK_Directory" using f None dir by auto
    have intact': "set (postorder (Tree e us)) \<inter> set (log w) = {}" using intact e(2,3) by (simp add: below_def)
    have parent': "parents = [] \<or> (\<exists>d vs rest. Tree d vs \<in> subtrees t0 \<and> Tree e us \<in> set vs \<and>
        onto w (the (frameCursor (hd parents))) = Some (entryPath d, rest))"
      using parent unfolding t by fastforce
    note law = tree_open [OF tree e(1) intact' parent' r [folded e(2)]]
    have opens: "log w2 = log w" "keeps_cursors onto {} w w2"
        "ok (cursorStatus r) \<longrightarrow> (\<exists>c. cursorState r = Some c \<and> onto w c = None \<and> onto w2 c = Some (entryPath e, us))"
      using law(1) by (simp_all add: opens_children_def)
    show ?thesis
    proof (cases "ok (cursorStatus r)")
      case True
      then obtain c where "cursorState r = Some c" "onto w c = None" "onto w2 c = Some (framePath f, ts)" using opens(3) e(2,3) by auto
      then show ?thesis using True opened r opens(1,2) None by (auto simp: open_frame_def keeps_cursors_def)
    next
      case False
      then show ?thesis using opened r opens(1) law(2) e(4) None by (auto simp: open_frame_def tree_reset [OF tree])
    qed
  qed
  then show "log w1 = log w" "case o' of Inl st \<Rightarrow> \<not> ok st \<and> \<not> reliable p onto log t0
    | Inr c \<Rightarrow> onto w1 c = Some (framePath f, ts) \<and> (\<forall>d. onto w d \<noteq> None \<and> frameCursor f \<noteq> Some d \<longrightarrow> d \<noteq> c \<and> onto w1 d = onto w d)" by blast+
qed

definition step_outcome ::
  "('w, 'c) Platform \<Rightarrow> ('w \<Rightarrow> 'c \<Rightarrow> (path \<times> dir_tree list) option) \<Rightarrow> ('w \<Rightarrow> path list) \<Rightarrow> dir_tree \<Rightarrow> 'c RemovalFrame \<Rightarrow> dir_tree list \<Rightarrow> 'w \<Rightarrow>
   'w \<Rightarrow> 'c frame_step \<Rightarrow> bool" where
  "step_outcome p onto log t0 f ts w w1 s \<longleftrightarrow> log w1 = log w \<and>
    (case s of FrameFails st f' \<Rightarrow> \<not> ok st \<and> \<not> reliable p onto log t0
     | FrameChild e c \<Rightarrow> (\<exists>us rest. ts = Tree e us # rest \<and> onto w1 c = Some (framePath f, rest)) \<and> entryKind (frameInfo f) = EK_Directory \<and>
         (\<forall>d. onto w d \<noteq> None \<and> frameCursor f \<noteq> Some d \<longrightarrow> d \<noteq> c \<and> onto w1 d = onto w d)
     | FrameEnds \<Rightarrow> ts = [] \<and> (\<forall>d. onto w d \<noteq> None \<and> frameCursor f \<noteq> Some d \<longrightarrow> onto w1 d = onto w d))"

lemma step_frame_law:
  assumes tree: "holds_tree p onto log t0" and frame: "frame_holds onto w t0 X f t ts"
    and parent: "parents = [] \<or> (\<exists>d us c rest. Tree d us \<in> subtrees t0 \<and> t \<in> set us \<and> frameCursor (hd parents) = Some c \<and> onto w c = Some (entryPath d, rest))"
    and intact: "insert (framePath f) (below ts) \<inter> set (log w) = {}" and step: "step_frame p f parents w = (s, w1)"
  shows "step_outcome p onto log t0 f ts w w1 s"
proof (cases "entryKind (frameInfo f) = EK_Directory")
  case False
  obtain e us where t: "t = Tree e us" by (cases t)
  have "ts = []" using False frame tree_shape [OF tree, of e us] by (auto simp: frame_holds_def t split: option.splits)
  then show ?thesis using step False by (auto simp: step_frame_def step_outcome_def)
next
  case dir: True
  obtain o' w' where opened: "open_frame p f parents w = (o', w')" by (rule prod.exhaust)
  note op = open_frame_law [OF tree frame dir parent intact opened]
  show ?thesis
  proof (cases o')
    case (Inl st)
    then show ?thesis using step opened dir op by (auto simp: step_frame_def step_outcome_def)
  next
    case (Inr c)
    then have c: "onto w' c = Some (framePath f, ts)" "\<And>d. onto w d \<noteq> None \<Longrightarrow> frameCursor f \<noteq> Some d \<Longrightarrow> d \<noteq> c \<and> onto w' d = onto w d" using op(2) by auto
    obtain r c' w2 where read: "p_readDirectoryCursor p c w' = (r, c', w2)" by (rule prod_cases3)
    have "below ts \<inter> set (log w') = {}" using intact op(1) by auto
    note law = tree_read [OF tree c(1) this read]
    have others: "d \<noteq> c' \<and> onto w2 d = onto w d" if "onto w d \<noteq> None" "frameCursor f \<noteq> Some d" for d
      using c(2) [OF that] law(3) [of d] that(1) by simp
    show ?thesis
    proof (cases "ok (cursorNextStatus r)")
      case False
      then show ?thesis using step opened dir op(1) law(1,2) Inr read by (auto simp: step_frame_def step_outcome_def)
    next
      case True
      show ?thesis
      proof (cases ts)
        case Nil
        have "onto (p_releaseCursor p c' w2) d = onto w d" if "onto w d \<noteq> None" "frameCursor f \<noteq> Some d" for d
          using others [OF that] that(1) tree_release [OF tree, of c' w2] by (auto simp: keeps_cursors_def)
        then show ?thesis using Nil step opened dir op(1) law(1,4) Inr read True tree_release [OF tree, of c' w2]
          by (auto simp: step_frame_def step_outcome_def)
      next
        case (Cons u rest)
        obtain d ds where d: "u = Tree d ds" by (cases u)
        show ?thesis using step opened dir op(1) law(1) law(5) [OF True, of d ds rest] others Inr read True Cons d
          by (auto simp: step_frame_def step_outcome_def)
      qed
    qed
  qed
qed

definition stack_size :: "(dir_tree \<times> dir_tree list) list \<Rightarrow> nat" where
  "stack_size tss = sum_list (map (\<lambda>(t, ts). Suc (2 * sum_list (map tree_count ts))) tss)"

text \<open>
  What the loop reports and leaves in the log: the first entries of what was to do have been removed and nothing else, at most up to the
  limit, all of them on success; the count is right unless memory ran out.
\<close>

definition tree_outcome :: "nat \<Rightarrow> nat \<Rightarrow> path list \<Rightarrow> path list \<Rightarrow> RemoveTreeResult \<Rightarrow> path list \<Rightarrow> bool" where
  "tree_outcome limit removed todo earlier r later \<longleftrightarrow>
    (\<exists>k. k \<le> limit - removed \<and> k \<le> length todo \<and> later = earlier @ take k todo \<and>
      (removedEntries r = removed + k \<or> removedEntries r = 0 \<and> code (treeStatus r) \<in> {OutOfMemory, Unknown}) \<and>
      (ok (treeStatus r) \<longrightarrow> k = length todo))"

definition tree_result :: "nat \<Rightarrow> nat \<Rightarrow> nat \<Rightarrow> RemoveTreeResult" where
  "tree_result limit removed n =
    (if limit - removed < n then removeTreeFailure (statusOf SizeLimitExceeded) limit
     else \<lparr>treeStatus = successStatus, removedEntries = removed + n\<rparr>)"

lemma removeTreeFailure_fields [simp]: "treeStatus (removeTreeFailure st n) = st" "removedEntries (removeTreeFailure st n) = n"
  by (simp_all add: removeTreeFailure_def)

lemma outcome_stopped: "\<not> ok st \<Longrightarrow> tree_outcome limit removed todo earlier (removeTreeFailure st removed) earlier"
  unfolding tree_outcome_def by (rule exI [of _ 0]) simp

lemma outcome_exception: "code st \<in> {OutOfMemory, Unknown} \<Longrightarrow> tree_outcome limit removed todo earlier (removeTreeFailure st 0) earlier"
  unfolding tree_outcome_def by (rule exI [of _ 0]) (auto simp: ok_def)

lemma outcome_removed:
  assumes "tree_outcome limit (removed + 1) todo (earlier @ [path]) r later" "removed < limit"
  shows "tree_outcome limit removed (path # todo) earlier r later"
proof -
  from assms(1) obtain k where "k \<le> limit - (removed + 1)" "k \<le> length todo" "later = (earlier @ [path]) @ take k todo"
      "removedEntries r = (removed + 1) + k \<or> removedEntries r = 0 \<and> code (treeStatus r) \<in> {OutOfMemory, Unknown}"
      "ok (treeStatus r) \<longrightarrow> k = length todo"
    unfolding tree_outcome_def by blast
  then show ?thesis using assms(2) unfolding tree_outcome_def by (intro exI [of _ "Suc k"]) auto
qed

lemma remove_loop_law:
  assumes tree: "holds_tree p onto log t0"
  shows "stack_holds onto w t0 (set (log w)) pending tss \<Longrightarrow> distinct (open_cursors pending) \<Longrightarrow> distinct (stack_todo pending tss) \<Longrightarrow>
    set (stack_todo pending tss) \<inter> set (log w) = {} \<Longrightarrow> removed \<le> limit \<Longrightarrow>
    \<exists>r w'. remove_loop p limit pending removed w = Some (r, w') \<and> tree_outcome limit removed (stack_todo pending tss) (log w) r (log w') \<and>
      (reliable p onto log t0 \<longrightarrow> r = tree_result limit removed (length (stack_todo pending tss)))"
proof (induction "stack_size tss" arbitrary: pending tss removed w rule: less_induct)
  case less
  note release = tree_release_frames [OF tree]
  show ?case
  proof (cases pending)
    case Nil
    then show ?thesis using less(2) by (simp add: remove_loop.simps [of p limit "[]"] tree_outcome_def tree_result_def)
  next
    case pending: (Cons f parents)
    then obtain t ts tss' where tss: "tss = (t, ts) # tss'" "frame_holds onto w t0 (set (log w)) f t ts"
        "parents \<noteq> [] \<longrightarrow> frameCursor (hd parents) \<noteq> None \<and> tss' \<noteq> [] \<and> child_of t (fst (hd tss'))"
        "stack_holds onto w t0 (insert (framePath f) (set (log w) \<union> below ts)) parents tss'"
      using less(2) by (auto split: list.splits)
    obtain e us where t: "t = Tree e us" "Tree e us \<in> subtrees t0" "entryPath e = framePath f" "entryKind (entryInfo e) = entryKind (frameInfo f)"
        "set ts \<subseteq> set us" "below us \<subseteq> set (log w) \<union> below ts"
      using tss(2) by (auto simp: frame_holds_def split: dir_tree.splits)
    have apart: "onto w d \<noteq> None \<and> frameCursor f \<noteq> Some d" if "d \<in> set (open_cursors parents)" for d
      using that stack_live [OF tss(4) that] less(3) by (auto simp: pending)
    have fresh: "distinct (open_cursors parents)" using less(3) by (simp add: pending split: option.splits)
    show ?thesis
    proof (cases "limit \<le> removed")
      case True
      then show ?thesis using less(6) release
        by (simp add: pending tss(1) remove_loop.simps [of p removed "f # parents"] tree_result_def outcome_stopped)
    next
      case room: False
      obtain s w1 where step: "step_frame p f parents w = (s, w1)" by (rule prod.exhaust)
      have intact: "insert (framePath f) (below ts) \<inter> set (log w) = {}" using less(5) unfolding pending tss(1) stack_todo_set by blast
      have parent: "parents = [] \<or> (\<exists>d us c rest. Tree d us \<in> subtrees t0 \<and> t \<in> set us \<and> frameCursor (hd parents) = Some c \<and> onto w c = Some (entryPath d, rest))"
        by (rule stack_parent [OF tss(3,4)])
      note law = step_frame_law [OF tree tss(2) parent intact step, unfolded step_outcome_def]
      then have log1: "log w1 = log w" by blast
      show ?thesis
      proof (cases s)
        case (FrameFails st f')
        then show ?thesis using room step law release
          by (simp add: pending remove_loop.simps [of p limit "f # parents"] outcome_stopped)
      next
        case FrameEnds
        then have ts: "ts = []" and kept: "\<And>d. d \<in> set (open_cursors parents) \<Longrightarrow> onto w1 d = onto w d" using law apart by simp_all
        have todo: "stack_todo pending tss = framePath f # stack_todo parents tss'" by (simp add: pending tss(1) ts)
        have gone_below: "below us \<subseteq> set (log w)" using t(6) by (simp add: ts)
        obtain st w2 where removed: "remove_entry p f w1 = (st, w2)" by (rule prod.exhaust)
        note gone = remove_entry_law [OF tree t(2,3,4) removed]
        show ?thesis
        proof (cases "ok st")
          case False
          then have "\<not> reliable p onto log t0" using gone(3) log1 intact gone_below by auto
          then show ?thesis using False room step removed gone(1) log1 release FrameEnds
            by (simp add: pending remove_loop.simps [of p limit "f # parents"] outcome_stopped)
        next
          case True
          then have log: "log w2 = log w @ [framePath f]" using gone(1) log1 by simp
          have size: "stack_size tss' < stack_size tss" by (simp add: tss(1) stack_size_def)
          have "onto w2 d = onto w d" if "d \<in> set (open_cursors parents)" for d
            using gone(2) [of d] kept [OF that] apart [OF that] by simp
          then have stack: "stack_holds onto w2 t0 (set (log w2)) parents tss'" using stack_kept [OF tss(4)] by (simp add: log ts)
          have rest: "distinct (stack_todo parents tss')" "set (stack_todo parents tss') \<inter> set (log w2) = {}"
            using less(4,5) by (auto simp: todo log)
          have le: "removed + 1 \<le> limit" using room by simp
          obtain r w3 where w3: "remove_loop p limit parents (removed + 1) w2 = Some (r, w3)"
              "tree_outcome limit (removed + 1) (stack_todo parents tss') (log w2) r (log w3)"
              "reliable p onto log t0 \<longrightarrow> r = tree_result limit (removed + 1) (length (stack_todo parents tss'))"
            using less(1) [OF size stack fresh rest le] by blast
          have "remove_loop p limit pending removed w = Some (r, w3)"
            using w3(1) room step removed True FrameEnds by (simp add: pending remove_loop.simps [of p limit "f # parents"])
          moreover have "tree_outcome limit removed (stack_todo pending tss) (log w) r (log w3)"
            unfolding todo using outcome_removed [OF w3(2) [unfolded log]] room by simp
          moreover have "tree_result limit (removed + 1) (length (stack_todo parents tss')) = tree_result limit removed (length (stack_todo pending tss))"
            using room by (auto simp: tree_result_def todo)
          ultimately show ?thesis using w3(3) by auto
        qed
      next
        case (FrameChild d c)
        then obtain vs rest where ts: "ts = Tree d vs # rest" "onto w1 c = Some (framePath f, rest)" "entryKind (frameInfo f) = EK_Directory"
            and kept: "\<And>x. x \<in> set (open_cursors parents) \<Longrightarrow> x \<noteq> c \<and> onto w1 x = onto w x" using law apart by auto
        let ?new = "\<lparr>framePath = entryPath d, frameInfo = entryInfo d, frameCursor = None\<rparr>"
        let ?pending = "?new # f\<lparr>frameCursor := Some c\<rparr> # parents" and ?tss = "(Tree d vs, vs) # (t, rest) # tss'"
        have sub: "Tree d vs \<in> subtrees t0" "Tree d vs \<in> set us" "set rest \<subseteq> set us" using t(2,5) subtrees_child [OF t(2)] by (auto simp: ts(1))
        have "frame_holds onto w1 t0 (set (log w1)) ?new (Tree d vs) vs" using sub by (auto simp: frame_holds_def)
        moreover have "frame_holds onto w1 t0 (insert (entryPath d) (set (log w1) \<union> below vs)) (f\<lparr>frameCursor := Some c\<rparr>) t rest"
        proof -
          have "below us \<subseteq> insert (entryPath d) (set (log w1) \<union> below vs) \<union> below rest"
            using t(6) unfolding ts(1) below_simps set_postorder log1 by blast
          then show ?thesis using t(1-4) sub(3) ts(2,3) unfolding frame_holds_def by simp
        qed
        moreover have "stack_holds onto w1 t0 (insert (framePath f) (insert (entryPath d) (set (log w1) \<union> below vs) \<union> below rest)) parents tss'"
        proof -
          have "insert (framePath f) (insert (entryPath d) (set (log w1) \<union> below vs) \<union> below rest) = insert (framePath f) (set (log w) \<union> below ts)"
            unfolding ts(1) below_simps set_postorder log1 by blast
          moreover have "stack_holds onto w1 t0 (insert (framePath f) (set (log w) \<union> below ts)) parents tss'"
            by (rule stack_kept [OF tss(4)]) (use kept in blast)
          ultimately show ?thesis by simp
        qed
        ultimately have stack: "stack_holds onto w1 t0 (set (log w1)) ?pending ?tss" using tss(3) sub(2) by (simp add: child_of_def t(1))
        have size: "stack_size ?tss < stack_size tss" by (simp add: tss(1) ts(1) stack_size_def)
        have todo: "stack_todo pending tss = stack_todo ?pending ?tss" by (simp add: pending tss(1) ts(1))
        have cursors: "distinct (open_cursors ?pending)" using fresh kept by auto
        obtain r w2 where w2: "remove_loop p limit ?pending removed w1 = Some (r, w2)"
            "tree_outcome limit removed (stack_todo pending tss) (log w) r (log w2)"
            "reliable p onto log t0 \<longrightarrow> r = tree_result limit removed (length (stack_todo pending tss))"
          using less(1) [OF size stack cursors _ _ less(6)] less(4,5) unfolding todo log1 by blast
        note loop = remove_loop.simps [of p limit "f # parents" removed w]
        show ?thesis
        proof (cases "p_throws p NewFrame w1")
          case NoThrow
          then show ?thesis using w2 room step FrameChild by (simp add: pending loop)
        next
          case BadAlloc
          then have "\<not> reliable p onto log t0" by (auto simp: reliable_def)
          then show ?thesis using BadAlloc room step FrameChild log1 release by (simp add: pending loop outcome_exception)
        next
          case OtherThrow
          then have "\<not> reliable p onto log t0" by (auto simp: reliable_def)
          then show ?thesis using OtherThrow room step FrameChild log1 release by (simp add: pending loop outcome_exception)
        qed
      qed
    qed
  qed
qed

text \<open>An exception while a child's frame is allocated loses the count of what has been removed.\<close>

lemma exception_drops_count:
  assumes "removed < limit" "step_frame p f parents w = (FrameChild e c, w1)" "p_throws p NewFrame w1 = BadAlloc"
  shows "\<exists>w'. remove_loop p limit (f # parents) removed w = Some (removeTreeFailure (statusOf OutOfMemory) 0, w')"
  using assms by (simp add: remove_loop.simps [of p limit "f # parents"])

section \<open>Properties\<close>

text \<open>
  C23: on a platform whose cursors deliver their entries without failing, and with memory for the result, \<open>listDirectory\<close> returns, with exactly the entries that the options
  select, in the order the cursor delivers them, cut at the limit; it reports \<open>SizeLimitExceeded\<close> when there are more and success otherwise.
\<close>

theorem listDirectory_selects:
  assumes "lists_entries p left" and "\<And>w. p_throws p NewEntry w = NoThrow"
    and "path \<noteq> []" and "isValidSymlinkPolicy (listPolicy options)"
    and "p_openDirectoryCursor p path (listPolicy options) w = (\<lparr>cursorStatus = successStatus, cursorState = Some c\<rparr>, w1)"
  shows "\<exists>w'. listDirectory p path options w = Some (limited (maxEntries options) (selected options (left c)), w')"
proof -
  let ?c = "\<lparr>nativeCursor = Some c, cursorOptions = options, emittedEntries = 0, limitReached = False\<rparr>"
  obtain c' w' where "list_loop p [] ?c w1 = Some (limited (maxEntries options) (selected options (left c)), c', w')"
    using list_loop_law [OF assms(1,2), of ?c c "[]" w1] by auto
  then show ?thesis using assms(3-5) by (simp add: listDirectory_def DirectoryCursor_open_def newCursor_def)
qed

text \<open>
  C8: \<open>removeDirectoryTree\<close> of a directory that is there returns. Whatever calls of the platform fail and wherever memory runs out, the
  entries it has removed are the first ones of the tree in postorder, no entry before all entries below it and the directory itself
  last, at most as many as the limit; success means that all are removed; and the reported count is their number, unless memory ran
  out, where it may be 0. If everything that can be done succeeds, the tree is removed completely, or, when it has more entries than
  the limit, the call reports \<open>SizeLimitExceeded\<close> after as many entries as the limit.
\<close>

theorem removeDirectoryTree_postorder:
  assumes tree: "holds_tree p onto log (Tree e ts)" and dir: "entryKind (entryInfo e) = EK_Directory"
    and paths: "distinct (postorder (Tree e ts))" and intact: "set (postorder (Tree e ts)) \<inter> set (log w) = {}"
  shows "\<exists>r w'. removeDirectoryTree p (entryPath e) options w = Some (r, w') \<and>
    (\<exists>k. k \<le> treeMaxEntries options \<and> k \<le> length (postorder (Tree e ts)) \<and> log w' = log w @ take k (postorder (Tree e ts)) \<and>
      (removedEntries r = k \<or> removedEntries r = 0 \<and> code (treeStatus r) \<in> {OutOfMemory, Unknown}) \<and>
      (ok (treeStatus r) \<longrightarrow> k = length (postorder (Tree e ts)))) \<and>
    (reliable p onto log (Tree e ts) \<and> isValidSymlinkPolicy (treePolicy options) \<longrightarrow>
      r = (if treeMaxEntries options < length (postorder (Tree e ts)) then removeTreeFailure (statusOf SizeLimitExceeded) (treeMaxEntries options)
           else \<lparr>treeStatus = successStatus, removedEntries = length (postorder (Tree e ts))\<rparr>))"
proof -
  let ?todo = "postorder (Tree e ts)" and ?good = "reliable p onto log (Tree e ts)"
  have path: "entryPath e \<noteq> []" using tree_shape [OF tree, of e ts] by simp
  have there: "entryPath e \<notin> set (log w)" using intact by auto
  have asked: "log w1 = log v \<and> code (infoStatus q) \<noteq> NotFound \<and> (ok (infoStatus q) \<longrightarrow> entryKind (infoOf q) = EK_Directory) \<and> (?good \<longrightarrow> ok (infoStatus q))"
    if "queryEntry p (entryPath e) policy v = (q, w1)" "log v = log w" "isValidSymlinkPolicy policy" for policy v q w1
    using that path there dir tree_asked [OF tree, of v policy q w1] by (simp add: queryEntry_def)
  have stop: ?thesis if "removeDirectoryTree p (entryPath e) options w = Some (r, w')" "log w' = log w" "\<not> ok (treeStatus r)" "removedEntries r = 0"
      "?good \<and> isValidSymlinkPolicy (treePolicy options) \<longrightarrow>
        r = (if treeMaxEntries options < length ?todo then removeTreeFailure (statusOf SizeLimitExceeded) (treeMaxEntries options)
           else \<lparr>treeStatus = successStatus, removedEntries = length ?todo\<rparr>)" for r w'
    using that by (intro exI [of _ r] exI [of _ w'] conjI exI [of _ 0]) simp_all
  show ?thesis
  proof (cases "isValidSymlinkPolicy (treePolicy options)")
    case False
    then show ?thesis using path by (intro stop [of "removeTreeFailure (statusOf InvalidArgument) 0" w]) (simp_all add: removeDirectoryTree_def)
  next
    case valid: True
    obtain q w1 where q: "queryEntry p (entryPath e) (treePolicy options) w = (q, w1)" by (rule prod.exhaust)
    note found = asked [OF q refl valid]
    show ?thesis
    proof (cases "ok (infoStatus q)")
      case False
      then show ?thesis using path valid q found
        by (intro stop [of "removeTreeFailure (infoStatus q) 0" w1]) (simp_all add: removeDirectoryTree_def)
    next
      case known: True
      obtain l w2 where l: "(if treePolicy options \<noteq> DoNotFollow then finalEntryIsSymlink p (entryPath e) w1 else (False, w1)) = (l, w2)"
        by (rule prod.exhaust)
      have link: "\<not> l" "log w2 = log w"
      proof -
        obtain q2 v where q2: "queryEntry p (entryPath e) DoNotFollow w1 = (q2, v)" by (rule prod.exhaust)
        have "log w1 = log w" using found by blast
        note again = asked [OF q2 this, simplified]
        show "\<not> l" "log w2 = log w" using l q2 again found by (auto simp: finalEntryIsSymlink_def split: if_splits)
      qed
      note run = removeDirectoryTree_def [of p "entryPath e" options w, unfolded q prod.case l]
      show ?thesis
      proof (cases "treeMaxEntries options = 0")
        case True
        then show ?thesis using path valid known found link
          by (intro stop [of "removeTreeFailure (statusOf SizeLimitExceeded) 0" w2]) (simp_all add: run)
      next
        case limit: False
        let ?f = "\<lparr>framePath = entryPath e, frameInfo = infoOf q, frameCursor = None\<rparr>"
        have stack: "stack_holds onto w2 (Tree e ts) (set (log w2)) [?f] [(Tree e ts, ts)]"
          using known found dir by (simp add: frame_holds_def)
        have todo: "stack_todo [?f] [(Tree e ts, ts)] = ?todo" "distinct (open_cursors [?f])" by simp_all
        obtain r w3 where loop: "remove_loop p (treeMaxEntries options) [?f] 0 w2 = Some (r, w3)"
            "tree_outcome (treeMaxEntries options) 0 ?todo (log w) r (log w3)"
            "?good \<longrightarrow> r = tree_result (treeMaxEntries options) 0 (length ?todo)"
          using remove_loop_law [OF tree stack, of 0 "treeMaxEntries options", unfolded todo(1)] todo(2) paths intact link(2) by auto
        show ?thesis
        proof (cases "p_throws p NewFrame w2")
          case NoThrow
          then have "removeDirectoryTree p (entryPath e) options w = Some (r, w3)"
            using path valid known found link limit loop(1) by (simp add: run)
          then show ?thesis using loop(2,3) by (auto simp: tree_outcome_def tree_result_def)
        next
          case BadAlloc
          then have "\<not> ?good" by (auto simp: reliable_def)
          then show ?thesis using BadAlloc path valid known found link limit
            by (intro stop [of "removeTreeFailure (statusOf OutOfMemory) 0" w2]) (simp_all add: run)
        next
          case OtherThrow
          then have "\<not> ?good" by (auto simp: reliable_def)
          then show ?thesis using OtherThrow path valid known found link limit
            by (intro stop [of "removeTreeFailure (statusOf Unknown) 0" w2]) (simp_all add: run)
        qed
      qed
    qed
  qed
qed

section \<open>Platforms with the contracts\<close>

definition example_entry :: "EntryKind \<Rightarrow> path \<Rightarrow> Entry" where
  "example_entry kind t = \<lparr>entryPath = t, entryInfo = defaultEntryInfo\<lparr>entryKind := kind\<rparr>\<rparr>"

text \<open>A directory with a file and a directory, which a cursor delivers from a list.\<close>

fun example_read :: "Entry list \<Rightarrow> path list \<Rightarrow> DirectoryCursorNextResult \<times> Entry list \<times> path list" where
  "example_read [] w = (\<lparr>cursorNextStatus = successStatus, cursorEntry = defaultEntry, cursorHidden = False, cursorHasEntry = False\<rparr>, [], w)"
| "example_read (e # rest) w =
    (\<lparr>cursorNextStatus = successStatus, cursorEntry = e, cursorHidden = False, cursorHasEntry = True\<rparr>, rest, w)"

definition example_listing :: "Entry list" where
  "example_listing = [example_entry EK_RegularFile [0x61], example_entry EK_Directory [0x62]]"

definition list_platform :: "(path list, Entry list) Platform" where
  "list_platform = idle_platform\<lparr>
     p_openDirectoryCursor := \<lambda>t policy w. (\<lparr>cursorStatus = successStatus, cursorState = Some example_listing\<rparr>, w),
     p_readDirectoryCursor := example_read\<rparr>"

lemma example_lists: "lists_entries list_platform (map (\<lambda>e. (e, False)))"
proof -
  have "case example_read c w of (r, c', w') \<Rightarrow> ok (cursorNextStatus r) \<and>
     (case map (\<lambda>e. (e, False)) c of [] \<Rightarrow> \<not> cursorHasEntry r
      | (e, hidden) # rest \<Rightarrow> cursorHasEntry r \<and> cursorEntry r = e \<and> cursorHidden r = hidden \<and> map (\<lambda>e. (e, False)) c' = rest)" for c w
    by (cases c) simp_all
  then show ?thesis by (simp add: lists_entries_def list_platform_def)
qed

definition example_options :: ListOptions where
  "example_options = defaultListOptions\<lparr>includeDirectories := False\<rparr>"

theorem listDirectory_selects_witness:
  "\<exists>w'. listDirectory list_platform [0x72] example_options [] =
    Some (\<lparr>listStatus = successStatus, entries = [example_entry EK_RegularFile [0x61]]\<rparr>, w')"
  using listDirectory_selects [OF example_lists, of "[0x72]" example_options "[]" example_listing "[]"]
  by (simp add: list_platform_def idle_platform_def example_options_def defaultListOptions_def example_listing_def
      example_entry_def limited_def selected_def includeDirectoryEntryKind_def kNoEntryLimit_def)

text \<open>
  A directory with a file and a directory that has a file of its own. What has been removed is not found any more, a directory is
  removed only when its children are, a cursor is opened only on a directory that is there, and a cursor that has been released cannot
  be read. Cursors are numbers into a table.
\<close>

record tree_os =
  osRemoved :: "path list"
  osCursors :: "nat \<Rightarrow> (path \<times> dir_tree list) option"
  osNextCursor :: nat

definition example_inner :: dir_tree where
  "example_inner = Tree (example_entry EK_Directory [0x62]) [Tree (example_entry EK_RegularFile [0x63]) []]"

definition example_children :: "dir_tree list" where
  "example_children = [Tree (example_entry EK_RegularFile [0x61]) [], example_inner]"

definition example_tree :: dir_tree where
  "example_tree = Tree (example_entry EK_Directory [0x72]) example_children"

definition directory_children :: "path \<Rightarrow> dir_tree list option" where
  "directory_children t = (if t = [0x72] then Some example_children else if t = [0x62] then Some [Tree (example_entry EK_RegularFile [0x63]) []] else None)"

text \<open>The cursors that are open have numbers below the next one; any other number is free.\<close>

definition tree_onto :: "tree_os \<Rightarrow> nat \<Rightarrow> (path \<times> dir_tree list) option" where
  "tree_onto w c = (if c < osNextCursor w then osCursors w c else None)"

definition tree_open_cursor :: "path \<Rightarrow> tree_os \<Rightarrow> nat DirectoryCursorOpenResult \<times> tree_os" where
  "tree_open_cursor t w =
    (if t \<in> set (osRemoved w) then (\<lparr>cursorStatus = statusOf NotFound, cursorState = None\<rparr>, w)
     else case directory_children t of
         None \<Rightarrow> (\<lparr>cursorStatus = statusOf NotDirectory, cursorState = None\<rparr>, w)
       | Some ts \<Rightarrow> (\<lparr>cursorStatus = successStatus, cursorState = Some (osNextCursor w)\<rparr>,
           w\<lparr>osCursors := (osCursors w)(osNextCursor w := Some (t, ts)), osNextCursor := Suc (osNextCursor w)\<rparr>))"

definition tree_read_cursor :: "nat \<Rightarrow> tree_os \<Rightarrow> DirectoryCursorNextResult \<times> nat \<times> tree_os" where
  "tree_read_cursor c w =
    (case tree_onto w c of
       None \<Rightarrow> (\<lparr>cursorNextStatus = statusOf NotOpen, cursorEntry = defaultEntry, cursorHidden = False, cursorHasEntry = False\<rparr>, c, w)
     | Some (t, []) \<Rightarrow> (\<lparr>cursorNextStatus = successStatus, cursorEntry = defaultEntry, cursorHidden = False, cursorHasEntry = False\<rparr>, c, w)
     | Some (t, Tree e us # rest) \<Rightarrow>
         (\<lparr>cursorNextStatus = successStatus, cursorEntry = e, cursorHidden = False, cursorHasEntry = True\<rparr>, c,
          w\<lparr>osCursors := (osCursors w)(c := Some (t, rest))\<rparr>))"

fun tree_path :: "dir_tree \<Rightarrow> path" where
  "tree_path (Tree e ts) = entryPath e"

definition tree_remove :: "bool \<Rightarrow> path \<Rightarrow> tree_os \<Rightarrow> Status \<times> tree_os" where
  "tree_remove directory t w =
    (if t \<in> set (osRemoved w) then (statusOf NotFound, w)
     else case directory_children t of
       None \<Rightarrow> if directory then (statusOf NotDirectory, w)
         else if t = [0x61] \<or> t = [0x63] then (successStatus, w\<lparr>osRemoved := osRemoved w @ [t]\<rparr>) else (statusOf NotFound, w)
     | Some ts \<Rightarrow> if \<not> directory then (statusOf IsDirectory, w)
         else if tree_path ` set ts \<subseteq> set (osRemoved w) then (successStatus, w\<lparr>osRemoved := osRemoved w @ [t]\<rparr>) else (statusOf DirectoryNotEmpty, w))"

definition tree_platform :: "(tree_os, nat) Platform" where
  "tree_platform = idle_platform\<lparr>
     p_queryEntry := \<lambda>t policy w. (\<lparr>infoStatus = (if t \<in> set (osRemoved w) then statusOf NotFound else successStatus),
       infoOf = entryInfo (example_entry (if directory_children t = None then EK_RegularFile else EK_Directory) t)\<rparr>, w),
     p_openDirectoryCursor := \<lambda>t policy. tree_open_cursor t,
     p_openChildDirectoryCursor := \<lambda>c t policy. tree_open_cursor t,
     p_readDirectoryCursor := tree_read_cursor,
     p_releaseCursor := \<lambda>c w. w\<lparr>osCursors := (osCursors w)(c := None)\<rparr>,
     p_removeFile := \<lambda>t options. tree_remove False t,
     p_removeEmptyDirectory := \<lambda>t options. tree_remove True t\<rparr>"

lemma example_subtrees:
  "subtrees example_tree = {example_tree, example_inner, Tree (example_entry EK_RegularFile [0x61]) [], Tree (example_entry EK_RegularFile [0x63]) []}"
  by (auto simp: example_tree_def example_children_def example_inner_def)

lemmas example_defs = tree_platform_def idle_platform_def example_entry_def example_tree_def example_inner_def
  example_children_def directory_children_def

lemma tree_open_cursor_opens:
  assumes "Tree e ts \<in> subtrees example_tree"
  shows "opens_children tree_onto osRemoved (entryPath e) ts w (tree_open_cursor (entryPath e) w)"
proof -
  have "directory_children (entryPath e) = Some ts \<or> directory_children (entryPath e) = None"
    using assms unfolding example_subtrees by (auto simp: example_defs)
  moreover have "opens_children tree_onto osRemoved t ts w (tree_open_cursor t w)" if "directory_children t = Some ts" for t
  proof -
    let ?w' = "w\<lparr>osCursors := (osCursors w)(osNextCursor w := Some (t, ts)), osNextCursor := Suc (osNextCursor w)\<rparr>"
    have "tree_onto w (osNextCursor w) = None" "tree_onto ?w' (osNextCursor w) = Some (t, ts)" by (simp_all add: tree_onto_def)
    moreover have "keeps_cursors tree_onto {} w ?w'" unfolding keeps_cursors_def by (simp add: tree_onto_def)
    ultimately have "opens_children tree_onto osRemoved t ts w (\<lparr>cursorStatus = successStatus, cursorState = Some (osNextCursor w)\<rparr>, ?w')"
      by (simp add: opens_children_def)
    moreover have "opens_children tree_onto osRemoved t ts w (\<lparr>cursorStatus = statusOf NotFound, cursorState = None\<rparr>, w)"
      by (simp add: opens_children_def keeps_cursors_def)
    ultimately show ?thesis by (simp add: tree_open_cursor_def that)
  qed
  moreover have "opens_children tree_onto osRemoved t ts w (tree_open_cursor t w)" if "directory_children t = None" for t
    using that by (simp add: tree_open_cursor_def opens_children_def keeps_cursors_def)
  ultimately show ?thesis by blast
qed

lemma tree_open_cursor_ok:
  assumes "Tree e ts \<in> subtrees example_tree" "entryPath e \<notin> set (osRemoved w)" "entryKind (entryInfo e) = EK_Directory"
  shows "ok (cursorStatus (fst (tree_open_cursor (entryPath e) w)))"
  using assms unfolding example_subtrees by (auto simp: tree_open_cursor_def example_defs)

lemma tree_read_cursor_reads:
  assumes "tree_onto w c = Some (path, ts)"
  shows "reads_children tree_onto osRemoved c path ts w (tree_read_cursor c w)" "ok (cursorNextStatus (fst (tree_read_cursor c w)))"
proof -
  have here: "c < osNextCursor w" using assms by (simp add: tree_onto_def split: if_splits)
  have "reads_children tree_onto osRemoved c path ts w (tree_read_cursor c w) \<and> ok (cursorNextStatus (fst (tree_read_cursor c w)))"
  proof (cases ts)
    case Nil
    then show ?thesis using assms by (simp add: tree_read_cursor_def reads_children_def keeps_cursors_def)
  next
    case (Cons t rest)
    obtain e us where "t = Tree e us" by (cases t)
    then show ?thesis using assms here Cons by (simp add: tree_read_cursor_def reads_children_def keeps_cursors_def) (simp add: tree_onto_def)
  qed
  then show "reads_children tree_onto osRemoved c path ts w (tree_read_cursor c w)" "ok (cursorNextStatus (fst (tree_read_cursor c w)))" by blast+
qed

lemma tree_remove_logs: "logs_removal tree_onto osRemoved t w (tree_remove d t w)"
proof -
  have shape: "tree_remove d t w = (st, w) \<and> \<not> ok st \<or> tree_remove d t w = (successStatus, w\<lparr>osRemoved := osRemoved w @ [t]\<rparr>)"
    if "st = fst (tree_remove d t w)" for st
    using that by (cases "directory_children t") (auto simp: tree_remove_def)
  have "logs_removal tree_onto osRemoved t w (st, w)" if "\<not> ok st" for st
    using that by (simp add: logs_removal_def keeps_cursors_def)
  moreover have "logs_removal tree_onto osRemoved t w (successStatus, w\<lparr>osRemoved := osRemoved w @ [t]\<rparr>)"
    by (simp add: logs_removal_def keeps_cursors_def tree_onto_def)
  ultimately show ?thesis using shape [OF refl] by metis
qed

lemma example_holds: "holds_tree tree_platform tree_onto osRemoved example_tree"
  unfolding holds_tree_def
proof (intro conjI allI impI)
  fix e ts
  assume t: "Tree e ts \<in> subtrees example_tree"
  show "entryPath e \<noteq> []" "entryKind (entryInfo e) \<noteq> EK_Directory \<Longrightarrow> ts = []"
    using t unfolding example_subtrees by (auto simp: example_defs)
  show "opens_children tree_onto osRemoved (entryPath e) ts w (p_openDirectoryCursor tree_platform (entryPath e) DoNotFollow w)" for w
    using tree_open_cursor_opens [OF t] by (simp add: tree_platform_def)
  show "opens_children tree_onto osRemoved (entryPath e) ts w (p_openChildDirectoryCursor tree_platform parent (entryPath e) DoNotFollow w)" for w parent
    using tree_open_cursor_opens [OF t] by (simp add: tree_platform_def)
next
  show "reads_children tree_onto osRemoved c path ts w (p_readDirectoryCursor tree_platform c w)" if "tree_onto w c = Some (path, ts)" for c path ts w
    using tree_read_cursor_reads(1) [OF that] by (simp add: tree_platform_def)
  show "osRemoved (p_releaseCursor tree_platform c w) = osRemoved w" "keeps_cursors tree_onto {c} w (p_releaseCursor tree_platform c w)" for c w
    by (simp_all add: tree_platform_def keeps_cursors_def tree_onto_def)
  show "logs_removal tree_onto osRemoved path w (p_removeFile tree_platform path removal_options w)"
    "logs_removal tree_onto osRemoved path w (p_removeEmptyDirectory tree_platform path removal_options w)" for path w
    using tree_remove_logs by (simp_all add: tree_platform_def)
  show "case example_tree of Tree e ts \<Rightarrow> \<forall>policy w. entryPath e \<notin> set (osRemoved w) \<longrightarrow>
       (case p_queryEntry tree_platform (entryPath e) policy w of (r, w') \<Rightarrow> osRemoved w' = osRemoved w \<and> code (infoStatus r) \<noteq> NotFound \<and>
         (ok (infoStatus r) \<longrightarrow> entryKind (infoOf r) = entryKind (entryInfo e)))"
    by (simp add: example_defs)
qed

lemma example_reliable: "reliable tree_platform tree_onto osRemoved example_tree"
  unfolding reliable_def
proof (intro conjI allI impI)
  show "ok (cursorNextStatus (fst (p_readDirectoryCursor tree_platform c w)))" if "tree_onto w c = Some (path, ts)" for c path ts w
    using tree_read_cursor_reads(2) [OF that] by (simp add: tree_platform_def)
next
  fix e ts and w :: tree_os
  assume "Tree e ts \<in> subtrees example_tree" "entryPath e \<notin> set (osRemoved w)" "below ts \<subseteq> set (osRemoved w)"
  then show "ok (fst (if entryKind (entryInfo e) = EK_Directory then p_removeEmptyDirectory tree_platform (entryPath e) removal_options w
                else p_removeFile tree_platform (entryPath e) removal_options w))"
    unfolding example_subtrees by (auto simp: tree_remove_def example_defs)
next
  fix e ts and w :: tree_os
  assume t: "Tree e ts \<in> subtrees example_tree" "set (postorder (Tree e ts)) \<inter> set (osRemoved w) = {}" "entryKind (entryInfo e) = EK_Directory"
  then have "entryPath e \<notin> set (osRemoved w)" by auto
  note opened = tree_open_cursor_ok [OF t(1) this t(3)]
  show "ok (cursorStatus (fst (p_openDirectoryCursor tree_platform (entryPath e) DoNotFollow w)))"
    using opened by (simp add: tree_platform_def)
  show "ok (cursorStatus (fst (p_openChildDirectoryCursor tree_platform parent (entryPath e) DoNotFollow w)))" for parent
    using opened by (simp add: tree_platform_def)
qed (simp_all add: example_defs)

theorem removeDirectoryTree_postorder_witness:
  "\<exists>w'. removeDirectoryTree tree_platform [0x72] \<lparr>treeIfMissing = False, treePolicy = FollowAll, treeMaxEntries = 3\<rparr>
      \<lparr>osRemoved = [], osCursors = (\<lambda>c. None), osNextCursor = 0\<rparr> =
    Some (removeTreeFailure (statusOf SizeLimitExceeded) 3, w') \<and> osRemoved w' = [[0x61], [0x63], [0x62]]"
proof -
  let ?e = "example_entry EK_Directory [0x72]" and ?o = "\<lparr>treeIfMissing = False, treePolicy = FollowAll, treeMaxEntries = 3\<rparr>"
  let ?w = "\<lparr>osRemoved = [], osCursors = (\<lambda>c. None), osNextCursor = 0\<rparr>"
  have order: "postorder (Tree ?e example_children) = [[0x61], [0x63], [0x62], [0x72]]" by code_simp
  have e: "entryPath ?e = [0x72]" "entryKind (entryInfo ?e) = EK_Directory" by (simp_all add: example_entry_def)
  note run = removeDirectoryTree_postorder [OF example_holds [unfolded example_tree_def] e(2), of ?w ?o, unfolded order]
  show ?thesis using run example_reliable [unfolded example_tree_def] by (auto simp: e(1))
qed

end
