(* ===== verification/FileSystem_Contents.thy ===== *)
theory FileSystem_Contents
  imports FileSystem_Operations
begin

text \<open>
  What the whole-file operations and \<open>copyFile\<close> do to the contents of files, on a platform whose files hold what is written to them. The
  contract is over a view of the operating system's state: the contents of each directory entry, the entry and offset each read handle is
  at, and the entry each write handle appends to.
\<close>

section \<open>The contract\<close>

definition starts_from :: "WriterMode \<Rightarrow> byte list option \<Rightarrow> byte list" where
  "starts_from mode old = (if mode = W_AppendOrCreate \<or> mode = W_AppendExisting then (case old of None \<Rightarrow> [] | Some c \<Rightarrow> c) else [])"

definition opens_files :: "('w, 'c) Platform \<Rightarrow> (path \<Rightarrow> 'e) \<Rightarrow> ('w \<Rightarrow> 'e \<Rightarrow> byte list option) \<Rightarrow> ('w \<Rightarrow> nat \<Rightarrow> ('e \<times> nat) option) \<Rightarrow>
    ('w \<Rightarrow> nat \<Rightarrow> 'e option) \<Rightarrow> bool" where
  "opens_files p entry contents reading target \<longleftrightarrow>
    (\<forall>path options w status state w'. p_openReader p path options w = (status, state, w') \<longrightarrow>
       contents w' = contents w \<and> (ok status \<longrightarrow> contents w (entry path) \<noteq> None \<and>
         (\<exists>f h. state = Some f \<and> nativeHandle f = Some h \<and> reading w' h = Some (entry path, 0)))) \<and>
    (\<forall>path options w status state w'. p_openWriter p path options w = (status, state, w') \<longrightarrow> writerMode options \<noteq> W_OpenOrCreate \<longrightarrow>
       (\<forall>e. e \<noteq> entry path \<longrightarrow> contents w' e = contents w e) \<and> (\<forall>h v. reading w h = Some v \<longrightarrow> reading w' h = Some v) \<and>
       (ok status \<longrightarrow> contents w' (entry path) = Some (starts_from (writerMode options) (contents w (entry path))) \<and>
         (\<exists>f h. state = Some f \<and> nativeHandle f = Some h \<and> target w' h = Some (entry path))))"

definition moves_bytes :: "('w, 'c) Platform \<Rightarrow> ('w \<Rightarrow> 'e \<Rightarrow> byte list option) \<Rightarrow> ('w \<Rightarrow> nat \<Rightarrow> ('e \<times> nat) option) \<Rightarrow>
    ('w \<Rightarrow> nat \<Rightarrow> 'e option) \<Rightarrow> bool" where
  "moves_bytes p contents reading target \<longleftrightarrow>
    (\<forall>f h e n c dest w r dest' f' w'. p_readFile p f dest w = (r, dest', f', w') \<longrightarrow> nativeHandle f = Some h \<longrightarrow> reading w h = Some (e, n) \<longrightarrow>
       contents w e = Some c \<longrightarrow> n \<le> length c \<longrightarrow>
       contents w' = contents w \<and> target w' = target w \<and> nativeHandle f' = Some h \<and>
       (ok (readStatus r) \<longrightarrow> bytesRead r \<le> length dest \<and> n + bytesRead r \<le> length c \<and>
          dest' = take (bytesRead r) (drop n c) @ drop (bytesRead r) dest \<and> reading w' h = Some (e, n + bytesRead r) \<and>
          (endOfStream r \<longrightarrow> n + bytesRead r = length c) \<and> (dest \<noteq> [] \<and> bytesRead r = 0 \<longrightarrow> endOfStream r))) \<and>
    (\<forall>f h e c bytes w r f' w'. p_writeFile p f bytes w = (r, f', w') \<longrightarrow> nativeHandle f = Some h \<longrightarrow> target w h = Some e \<longrightarrow> contents w e = Some c \<longrightarrow>
       bytesWritten r \<le> length (view_elems bytes) \<and> nativeHandle f' = Some h \<and> target w' h = Some e \<and> reading w' = reading w \<and>
       contents w' = (contents w)(e := Some (c @ take (bytesWritten r) (view_elems bytes))) \<and>
       (ok (writeStatus r) \<and> view_elems bytes \<noteq> [] \<longrightarrow> 0 < bytesWritten r))"

definition keeps_contents :: "('w, 'c) Platform \<Rightarrow> ('w \<Rightarrow> 'e \<Rightarrow> byte list option) \<Rightarrow> ('w \<Rightarrow> nat \<Rightarrow> ('e \<times> nat) option) \<Rightarrow> bool" where
  "keeps_contents p contents reading \<longleftrightarrow>
    (\<forall>path policy w. contents (snd (p_queryEntry p path policy w)) = contents w \<and> reading (snd (p_queryEntry p path policy w)) = reading w) \<and>
    (\<forall>path options w. contents (snd (p_createDirectories p path options w)) = contents w \<and>
       reading (snd (p_createDirectories p path options w)) = reading w) \<and>
    (\<forall>s t policy w. contents (snd (p_copyBasicMetadata p s t policy w)) = contents w) \<and>
    (\<forall>f mode w. contents (snd (snd (p_flushFile p f mode w))) = contents w) \<and>
    (\<forall>f w. contents (snd (snd (p_closeFile p f w))) = contents w) \<and>
    (\<forall>f w. contents (p_releaseFile p f w) = contents w)"

section \<open>What keeps all contents\<close>

lemma same_query: "keeps_contents p contents reading \<Longrightarrow>
    contents (snd (queryEntry p path policy w)) = contents w \<and> reading (snd (queryEntry p path policy w)) = reading w"
  by (simp add: keeps_contents_def queryEntry_def)

lemma same_info: "keeps_contents p contents reading \<Longrightarrow> contents (snd (getEntryInfo p path policy w)) = contents w"
  using same_query [of p contents reading path policy w] by (auto simp: getEntryInfo_def split: prod.split)

lemma same_reset: "keeps_contents p contents reading \<Longrightarrow> contents (resetFile p state w) = contents w"
  by (auto simp: keeps_contents_def resetFile_def split: option.split)

lemma same_validate: "keeps_contents p contents reading \<Longrightarrow>
    contents (snd (validateDirectoryExists p path policy w)) = contents w \<and> reading (snd (validateDirectoryExists p path policy w)) = reading w"
  using same_query [of p contents reading path policy w] by (auto simp: validateDirectoryExists_def split: prod.split)

lemma same_create: "keeps_contents p contents reading \<Longrightarrow>
    contents (snd (createDirectories p path options w)) = contents w \<and> reading (snd (createDirectories p path options w)) = reading w"
  by (simp add: keeps_contents_def createDirectories_def)

lemma same_parent: "keeps_contents p contents reading \<Longrightarrow>
    contents (snd (validateParentDirectory p path b policy w)) = contents w \<and> reading (snd (validateParentDirectory p path b policy w)) = reading w"
  by (auto simp: validateParentDirectory_def attempt_or_def same_validate same_create split: attempt.split)

lemma same_close: "keeps_contents p contents reading \<Longrightarrow> contents (snd (snd (file_close p h))) = contents (snd h)"
  by (cases h) (auto simp: file_close_def same_reset split: prod.splits, auto simp: keeps_contents_def, (metis snd_conv)+)

lemma same_destroy: "keeps_contents p contents reading \<Longrightarrow> contents (destroy_file p h) = contents (snd h)"
  using same_close [of p contents reading h] by (auto simp: destroy_file_def same_reset split: prod.splits)

lemma same_flush: "keeps_contents p contents reading \<Longrightarrow> contents (snd (snd (file_flush p h mode))) = contents (snd h)"
  by (cases h) (auto simp: file_flush_def split: prod.splits, auto simp: keeps_contents_def, (metis snd_conv)+)

lemma same_close_both: "keeps_contents p contents reading \<Longrightarrow> contents (snd (snd (close_both p reader writer w))) = contents w"
  using same_close [of p contents reading "(writer, w)"]
  by (auto simp: close_both_def destroy_both_def same_destroy split: prod.splits) (metis same_close snd_conv)

section \<open>Open files\<close>

definition at_reader :: "('w \<Rightarrow> nat \<Rightarrow> ('e \<times> nat) option) \<Rightarrow> 'e \<Rightarrow> nat \<Rightarrow> FileState option \<Rightarrow> 'w \<Rightarrow> bool" where
  "at_reader reading e n state w \<longleftrightarrow> (\<exists>f h. state = Some f \<and> nativeHandle f = Some h \<and> reading w h = Some (e, n))"

definition at_writer :: "('w \<Rightarrow> nat \<Rightarrow> 'e option) \<Rightarrow> 'e \<Rightarrow> FileState option \<Rightarrow> 'w \<Rightarrow> bool" where
  "at_writer target e state w \<longleftrightarrow> (\<exists>f h. state = Some f \<and> nativeHandle f = Some h \<and> target w h = Some e)"

lemma reader_opens:
  assumes keeps: "keeps_contents p contents reading" and opens: "opens_files p entry contents reading target"
    and opened: "FileReader_open p path options (None, w) = (status, state, w')"
  shows "contents w' = contents w" "ok status \<Longrightarrow> contents w (entry path) \<noteq> None \<and> at_reader reading (entry path) 0 state w'"
proof -
  obtain st native w1 where native: "p_openReader p path options w = (st, native, w1)" by (rule prod_cases3)
  have "contents w1 = contents w \<and> (ok st \<longrightarrow> contents w (entry path) \<noteq> None \<and>
         (\<exists>f h. native = Some f \<and> nativeHandle f = Some h \<and> reading w1 h = Some (entry path, 0)))"
    by (rule opens [unfolded opens_files_def, THEN conjunct1, rule_format, OF native])
  then show "contents w' = contents w" "ok status \<Longrightarrow> contents w (entry path) \<noteq> None \<and> at_reader reading (entry path) 0 state w'"
    using opened native same_reset [OF keeps]
    by (auto simp: FileReader_open_def adopt_state_def stateIsOpen_def at_reader_def resetFile_def split: if_splits)
qed

lemma writer_opens:
  assumes keeps: "keeps_contents p contents reading" and opens: "opens_files p entry contents reading target"
    and opened: "FileWriter_open p path options (None, w) = (status, state, w')" and mode: "writerMode options \<noteq> W_OpenOrCreate"
  shows "e \<noteq> entry path \<Longrightarrow> contents w' e = contents w e"
    "ok status \<Longrightarrow> at_reader reading e n reader w \<Longrightarrow> at_reader reading e n reader w'"
    "ok status \<Longrightarrow> at_writer target (entry path) state w'"
    "ok status \<Longrightarrow> contents w' (entry path) = Some (starts_from (writerMode options) (contents w (entry path)))"
proof -
  obtain pst w1 where parent: "validateParentDirectory p path (writerCreateParents options) (writerPolicy options) w = (pst, w1)"
    by (rule prod.exhaust)
  then have same: "contents w1 = contents w" "reading w1 = reading w" using same_parent [OF keeps] by (metis snd_conv)+
  obtain st native w2 where native: "p_openWriter p path options w1 = (st, native, w2)" by (rule prod_cases3)
  have law: "(\<forall>e. e \<noteq> entry path \<longrightarrow> contents w2 e = contents w1 e) \<and> (\<forall>h v. reading w1 h = Some v \<longrightarrow> reading w2 h = Some v) \<and>
       (ok st \<longrightarrow> contents w2 (entry path) = Some (starts_from (writerMode options) (contents w1 (entry path))) \<and>
         (\<exists>f h. native = Some f \<and> nativeHandle f = Some h \<and> target w2 h = Some (entry path)))"
    by (rule opens [unfolded opens_files_def, THEN conjunct2, rule_format, OF native mode])
  note defs = FileWriter_open_def adopt_state_def stateIsOpen_def resetFile_def
  show "e \<noteq> entry path \<Longrightarrow> contents w' e = contents w e"
    using opened parent native same law same_reset [OF keeps, of native w2] by (auto simp: defs split: if_splits)
  show "ok status \<Longrightarrow> at_reader reading e n reader w \<Longrightarrow> at_reader reading e n reader w'"
    "ok status \<Longrightarrow> at_writer target (entry path) state w'"
    "ok status \<Longrightarrow> contents w' (entry path) = Some (starts_from (writerMode options) (contents w (entry path)))"
    using opened parent native same law by (auto simp: defs at_reader_def at_writer_def split: if_splits)
qed

text \<open>A writer on the file \<open>e\<close>, with the read handles and all other files as they were.\<close>

definition writes_to :: "('w \<Rightarrow> 'e \<Rightarrow> byte list option) \<Rightarrow> ('w \<Rightarrow> nat \<Rightarrow> ('e \<times> nat) option) \<Rightarrow> ('w \<Rightarrow> nat \<Rightarrow> 'e option) \<Rightarrow> 'e \<Rightarrow> 'w \<Rightarrow> 'w handle \<Rightarrow> bool" where
  "writes_to contents reading target e w0 h \<longleftrightarrow> at_writer target e (fst h) (snd h) \<and> contents (snd h) e \<noteq> None \<and> reading (snd h) = reading w0 \<and>
     (\<forall>e'. e' \<noteq> e \<longrightarrow> contents (snd h) e' = contents w0 e')"

lemma contents_sink:
  assumes bytes: "moves_bytes p contents reading target"
  shows "byte_sink (FileWriter p) (writes_to contents reading target e w0) (\<lambda>_ _. True) (\<lambda>h. the (contents (snd h) e))"
proof
  fix h xs and r :: WriteResult and h'
  assume w: "writes_to contents reading target e w0 h" and wrote: "writer_write (FileWriter p) h xs = (r, h')"
  then obtain f n c where f: "fst h = Some f" "nativeHandle f = Some n" "target (snd h) n = Some e" "contents (snd h) e = Some c"
    unfolding writes_to_def at_writer_def by blast
  obtain q f' w' where native: "p_writeFile p f xs (snd h) = (q, f', w')" by (rule prod_cases3)
  then have h': "r = q" "h' = (Some f', w')"
    using wrote f by (cases h; simp add: FileWriter_def file_write_def stateIsOpen_def)+
  have "bytesWritten q \<le> length (view_elems xs) \<and> nativeHandle f' = Some n \<and> target w' n = Some e \<and> reading w' = reading (snd h) \<and>
       contents w' = (contents (snd h))(e := Some (c @ take (bytesWritten q) (view_elems xs))) \<and>
       (ok (writeStatus q) \<and> view_elems xs \<noteq> [] \<longrightarrow> 0 < bytesWritten q)"
    by (rule bytes [unfolded moves_bytes_def, THEN conjunct2, rule_format, OF native f(2,3,4)])
  then show "bytesWritten r \<le> length (view_elems xs) \<and>
       the (contents (snd h') e) = the (contents (snd h) e) @ take (bytesWritten r) (view_elems xs) \<and>
       (ok (writeStatus r) \<and> view_elems xs \<noteq> [] \<longrightarrow> 0 < bytesWritten r) \<and> writes_to contents reading target e w0 h' \<and>
       (ok (writeStatus r) \<and> bytesWritten r < length (view_elems xs) \<longrightarrow> True)"
    using f w by (simp add: h' writes_to_def at_writer_def)
qed

lemma write_all:
  assumes bytes: "moves_bytes p contents reading target" and w: "writes_to contents reading target e w0 h"
    and wrote: "writeAllBytes (FileWriter p) h xs = (q, h')"
  shows "writes_to contents reading target e w0 h'"
    "contents (snd h) e = Some c \<Longrightarrow> contents (snd h') e = Some (c @ take (bytesWritten q) (view_elems xs))"
    "ok (writeStatus q) \<Longrightarrow> bytesWritten q = length (view_elems xs)"
proof -
  note law = byte_sink.writeAllBytes_law [OF contents_sink [OF bytes] w TrueI wrote]
  show "writes_to contents reading target e w0 h'" by (rule law(2))
  show "contents (snd h) e = Some c \<Longrightarrow> contents (snd h') e = Some (c @ take (bytesWritten q) (view_elems xs))"
    using law by (auto simp: writes_to_def)
  show "ok (writeStatus q) \<Longrightarrow> bytesWritten q = length (view_elems xs)"
    using writeAllBytes_from_count [of "FileWriter p" h xs 0] wrote by (simp add: writeAllBytes_def)
qed

section \<open>Whole-file writes\<close>

lemma write_whole_law:
  assumes keeps: "keeps_contents p contents reading" and opens: "opens_files p entry contents reading target"
    and bytes: "moves_bytes p contents reading target" and mode: "writerMode options \<noteq> W_OpenOrCreate"
    and wrote: "write_whole p path xs options flush w = (r, w')"
  shows "e \<noteq> entry path \<Longrightarrow> contents w' e = contents w e"
    "ok (writeStatus r) \<Longrightarrow> bytesWritten r = length (view_elems xs) \<and>
       contents w' (entry path) = Some (starts_from (writerMode options) (contents w (entry path)) @ view_elems xs)"
proof -
  obtain st state w1 where opened: "FileWriter_open p path options (None, w) = (st, state, w1)" by (rule prod_cases3)
  note law = writer_opens [OF keeps opens opened mode]
  obtain q h1 where payload: "writeAllBytes (FileWriter p) (state, w1) xs = (q, h1)" by (rule prod.exhaust)
  have "writes_to contents reading target (entry path) w1 (state, w1)" if "ok st"
    using law(3,4) that by (simp add: writes_to_def)
  note all = write_all [OF bytes this payload]
  obtain cs1 h2 where close1: "file_close p h1 = (cs1, h2)" by (rule prod.exhaust)
  obtain fs h3 where flush: "file_flush p h1 flush = (fs, h3)" by (rule prod.exhaust)
  obtain cs h4 where close: "file_close p h3 = (cs, h4)" by (rule prod.exhaust)
  have same: "contents (snd h2) = contents (snd h1)" "contents (snd h3) = contents (snd h1)" "contents (snd h4) = contents (snd h1)"
    using same_close [OF keeps, of h1] same_flush [OF keeps, of h1 flush] same_close [OF keeps, of h3] close1 flush close by simp_all
  note run = write_whole_def opened payload close1 flush close prod.case
  have final: "contents w' = (if ok st then contents (snd h1) else contents w1)"
    using wrote same unfolding run by (auto simp: same_destroy [OF keeps] split: if_splits)
  show "e \<noteq> entry path \<Longrightarrow> contents w' e = contents w e"
    using final law(1) all(1) by (auto simp: writes_to_def split: if_splits)
  show "ok (writeStatus r) \<Longrightarrow> bytesWritten r = length (view_elems xs) \<and>
       contents w' (entry path) = Some (starts_from (writerMode options) (contents w (entry path)) @ view_elems xs)"
    using wrote final law(4) all(2,3) unfolding run by (auto simp: writeFailure_def split: if_splits)
qed

section \<open>Copying\<close>

text \<open>The copy loop from offset \<open>n\<close>: it returns, and when it does so without an error the destination holds the whole source.\<close>

lemma copy_loop_law:
  assumes bytes: "moves_bytes p contents reading target" and ab: "a \<noteq> b"
  shows "at_reader reading a n reader w \<Longrightarrow> writes_to contents reading target b w (writer, w) \<Longrightarrow> contents w a = Some c \<Longrightarrow> n \<le> length c \<Longrightarrow>
    contents w b = Some (take n c) \<Longrightarrow> buffer \<noteq> [] \<Longrightarrow>
    \<exists>result reader' writer' w'. copy_loop p reader writer w buffer copied = Some (result, reader', writer', w') \<and>
      (\<forall>e. e \<noteq> b \<longrightarrow> contents w' e = contents w e) \<and> (\<forall>k. result = Inr k \<longrightarrow> contents w' b = Some c) \<and> (\<forall>st. result = Inl st \<longrightarrow> \<not> ok st)"
proof (induction "length c - n" arbitrary: n reader writer w buffer copied rule: less_induct)
  case less
  from less(2) obtain f h where f: "reader = Some f" "nativeHandle f = Some h" "reading w h = Some (a, n)" unfolding at_reader_def by blast
  obtain r d f' w1 where native: "p_readFile p f buffer w = (r, d, f', w1)" by (metis prod.exhaust)
  have law: "contents w1 = contents w \<and> target w1 = target w \<and> nativeHandle f' = Some h \<and>
       (ok (readStatus r) \<longrightarrow> bytesRead r \<le> length buffer \<and> n + bytesRead r \<le> length c \<and>
          d = take (bytesRead r) (drop n c) @ drop (bytesRead r) buffer \<and> reading w1 h = Some (a, n + bytesRead r) \<and>
          (endOfStream r \<longrightarrow> n + bytesRead r = length c) \<and> (buffer \<noteq> [] \<and> bytesRead r = 0 \<longrightarrow> endOfStream r))"
    by (rule bytes [unfolded moves_bytes_def, THEN conjunct1, rule_format, OF native f(2,3) less(4,5)])
  have read: "file_read p (reader, w) buffer = (r, d, Some f', w1)" using f native by (simp add: file_read_def stateIsOpen_def)
  note step = copy_loop.simps [of p reader writer w buffer copied, unfolded read prod.case]
  show ?case
  proof (cases "ok (readStatus r) \<and> 0 < bytesRead r")
    case False
    then show ?thesis using law less(6,7) by (auto simp: step)
  next
    case True
    let ?k = "bytesRead r"
    have piece: "take ?k d = take ?k (drop n c)" "length (take ?k (drop n c)) = ?k" using law True by auto
    obtain q writer' w2 where wrote: "writeAllBytes (FileWriter p) (writer, w1) \<lparr>view_data = 0, view_elems = take ?k d\<rparr> = (q, writer', w2)"
      by (rule prod_cases3)
    have round: "copy_loop p reader writer w buffer copied =
        (if \<not> ok (writeStatus q) then Some (Inl (writeStatus q), Some f', writer', w2)
         else if endOfStream r then Some (Inr (copied + of_nat (bytesWritten q)), Some f', writer', w2)
         else copy_loop p (Some f') writer' w2 d (copied + of_nat (bytesWritten q)))"
      using True by (simp add: step wrote Let_def)
    have start: "writes_to contents reading target b w1 (writer, w1)" using less(3) law by (simp add: writes_to_def at_writer_def)
    note all = write_all [OF bytes start wrote]
    have other: "contents w2 e = contents w e" if "e \<noteq> b" for e using all(1) law that by (simp add: writes_to_def)
    have done_b: "contents w2 b = Some (take (n + ?k) c)" if "ok (writeStatus q)"
      using all(2) [of "take n c"] all(3) [OF that] law less(6) piece by (simp add: take_add)
    show ?thesis
    proof (cases "ok (writeStatus q) \<and> \<not> endOfStream r")
      case False
      then show ?thesis using True law other done_b by (auto simp: round)
    next
      case more: True
      have next_reader: "at_reader reading a (n + ?k) (Some f') w2" using law all(1) True by (simp add: writes_to_def at_reader_def)
      have next_writer: "writes_to contents reading target b w2 (writer', w2)" using all(1) by (simp add: writes_to_def)
      have "length c - (n + ?k) < length c - n" "n + ?k \<le> length c" "d \<noteq> []" using law True less(7) by auto
      from less(1) [OF this(1) next_reader next_writer _ this(2) done_b this(3)] more other ab less(4)
      obtain result reader2 writer2 w3 where go: "copy_loop p (Some f') writer' w2 d (copied + of_nat (bytesWritten q)) = Some (result, reader2, writer2, w3)"
          "\<forall>e. e \<noteq> b \<longrightarrow> contents w3 e = contents w2 e" "\<forall>k. result = Inr k \<longrightarrow> contents w3 b = Some c"
          "\<forall>st. result = Inl st \<longrightarrow> \<not> ok st"
        by metis
      then show ?thesis using True more other by (auto simp: round)
    qed
  qed
qed

lemma copy_contents_law:
  assumes keeps: "keeps_contents p contents reading" and bytes: "moves_bytes p contents reading target" and ab: "a \<noteq> b"
    and start: "at_reader reading a 0 reader w" "writes_to contents reading target b w (writer, w)" "contents w a = Some c" "contents w b = Some []"
  shows "\<exists>status w'. copy_contents p from to options source reader writer w = Some (status, w') \<and>
    (\<forall>e. e \<noteq> b \<longrightarrow> contents w' e = contents w e) \<and> (ok status \<longrightarrow> contents w' b = Some c)"
proof -
  have buffer: "replicate kDefaultBufferSize (0 :: byte) \<noteq> []" by (simp add: kDefaultBufferSize_def)
  obtain result reader' writer' w1 where loop: "copy_loop p reader writer w (replicate kDefaultBufferSize 0) 0 = Some (result, reader', writer', w1)"
      and law: "\<forall>e. e \<noteq> b \<longrightarrow> contents w1 e = contents w e" "\<forall>k. result = Inr k \<longrightarrow> contents w1 b = Some c"
        "\<forall>st. result = Inl st \<longrightarrow> \<not> ok st"
    using copy_loop_law [OF bytes ab start(1,2,3) le0 _ buffer, of 0] start(4) unfolding take_0 by blast
  have gone: "contents (destroy_both p reader writer w) = contents w" by (simp add: destroy_both_def same_destroy [OF keeps])
  obtain fs writer2 w2 where flush: "file_flush p (writer', w1) (copyFlush options) = (fs, writer2, w2)" by (rule prod_cases3)
  have w2: "contents w2 = contents w1" using same_flush [OF keeps, of "(writer', w1)" "copyFlush options"] flush by simp
  obtain wc rc w3 where close: "close_both p reader' writer2 w2 = (wc, rc, w3)" by (rule prod_cases3)
  have w3: "contents w3 = contents w1" using same_close_both [OF keeps, of reader' writer2 w2] close w2 by simp
  obtain ms w4 where copied: "p_copyBasicMetadata p from to (copyPolicy options) w3 = (ms, w4)" by (rule prod.exhaust)
  have "contents (snd (p_copyBasicMetadata p from to (copyPolicy options) w3)) = contents w3" using keeps by (simp add: keeps_contents_def)
  then have meta: "contents w4 = contents w1" using w3 copied by simp
  have fail: "contents (snd (snd (close_both p reader' writer' w1))) = contents w1" by (rule same_close_both [OF keeps])
  show ?thesis
    using law gone fail w3 meta
    by (cases result; cases "p_throws p CopyBuffer w") (auto simp: copy_contents_def loop flush close copied)
qed

section \<open>Properties\<close>

text \<open>
  C20: on a platform whose files hold what is written to them, \<open>copyFile\<close> between two different files returns; when it reports success the
  destination holds exactly the contents of the source, and whatever it reports no other file has changed.
\<close>

theorem copyFile_copies:
  assumes keeps: "keeps_contents p contents reading" and opens: "opens_files p entry contents reading target"
    and bytes: "moves_bytes p contents reading target" and ab: "entry from_path \<noteq> entry to_path"
  shows "\<exists>status w'. copyFile p from_path to_path options w = Some (status, w') \<and>
    (\<forall>e. e \<noteq> entry to_path \<longrightarrow> contents w' e = contents w e) \<and> (ok status \<longrightarrow> contents w' (entry to_path) = contents w (entry from_path))"
proof -
  let ?a = "entry from_path" and ?b = "entry to_path"
  obtain source w1 where source: "getEntryInfo p from_path (copyPolicy options) w = (source, w1)" by (rule prod.exhaust)
  obtain destination w2 where dest: "queryEntry p to_path DoNotFollow w1 = (destination, w2)" by (rule prod.exhaust)
  obtain ps w3 where parent: "validateParentDirectory p to_path (copyCreateParents options) (copyPolicy options) w2 = (ps, w3)" by (rule prod.exhaust)
  have same: "contents w1 = contents w" "contents w2 = contents w" "contents w3 = contents w"
    using same_info [OF keeps, of from_path "copyPolicy options" w] same_query [OF keeps, of to_path DoNotFollow w1]
      same_parent [OF keeps, of to_path "copyCreateParents options" "copyPolicy options" w2] source dest parent by simp_all
  let ?ro = "\<lparr>readerShare = ShareAll, readerPolicy = copyPolicy options\<rparr>"
  obtain rs reader w4 where reader: "FileReader_open p from_path ?ro (None, w3) = (rs, reader, w4)" by (rule prod_cases3)
  note opened_reader = reader_opens [OF keeps opens reader]
  let ?wo = "\<lparr>writerMode = (if copyReplace options = ReplaceExisting then W_CreateOrTruncate else W_CreateNew), writerShare = ShareNone,
      writerPolicy = copyPolicy options, writerCreateParents = False, writerFlushOnClose = FM_None\<rparr>"
  obtain ws writer w5 where writer: "FileWriter_open p to_path ?wo (None, w4) = (ws, writer, w5)" by (rule prod_cases3)
  have mode: "writerMode ?wo \<noteq> W_OpenOrCreate" by simp
  note opened_writer = writer_opens [OF keeps opens writer mode]
  obtain cs reader' w6 where close: "file_close p (reader, w5) = (cs, reader', w6)" by (rule prod_cases3)
  have w6: "contents w6 = contents w5" using same_close [OF keeps, of "(reader, w5)"] close by simp
  have gone: "contents (destroy_both p reader' writer w6) = contents w5" "contents (destroy_file p (reader, w4)) = contents w"
    using w6 opened_reader(1) same(3) by (simp_all add: destroy_both_def same_destroy [OF keeps])
  have unblocked: "\<not> ok st" if "destination_blocked (copyReplace options) destination = Some st" for st
    using that by (auto simp: destination_blocked_def split: if_splits)
  have start: "at_reader reading ?a 0 reader w5" "writes_to contents reading target ?b w5 (writer, w5)" "contents w5 ?a = contents w ?a" "contents w ?a \<noteq> None"
      "contents w5 ?b = Some []" if "ok rs" "ok ws"
    using opened_reader opened_writer that same(3) ab by (simp_all add: writes_to_def starts_from_def split: if_splits)
  have copy: "\<exists>status w'. copy_contents p from_path to_path options (infoOf source) reader writer w5 = Some (status, w') \<and>
      (\<forall>e. e \<noteq> ?b \<longrightarrow> contents w' e = contents w5 e) \<and> (ok status \<longrightarrow> contents w' ?b = contents w ?a)" if "ok rs" "ok ws"
  proof -
    note opened = start [OF that]
    obtain c where "contents w ?a = Some c" using opened(4) by blast
    then show ?thesis using copy_contents_law [OF keeps bytes ab opened(1,2), of c] opened(3,5) by simp
  qed
  have others: "contents w5 e = contents w e" if "e \<noteq> ?b" for e using opened_writer(1) [OF that] opened_reader(1) same(3) by simp
  note run = copyFile_def [of p from_path to_path options w, unfolded source dest parent reader writer close prod.case]
  show ?thesis
  proof (cases "ok rs \<and> ok ws")
    case True
    then obtain status w' where "copy_contents p from_path to_path options (infoOf source) reader writer w5 = Some (status, w')"
        "\<forall>e. e \<noteq> ?b \<longrightarrow> contents w' e = contents w5 e" "ok status \<longrightarrow> contents w' ?b = contents w ?a"
      using copy by blast
    then show ?thesis
      using True same others unblocked
      by (auto simp: run split: option.split)
  next
    case False
    then show ?thesis
      using same others unblocked gone
      by (auto simp: run split: option.split)
  qed
qed

text \<open>A platform on which a size or a position that is reported is right; both calls may fail.\<close>

definition tells_sizes :: "('w, 'c) Platform \<Rightarrow> ('w \<Rightarrow> 'e \<Rightarrow> byte list option) \<Rightarrow> ('w \<Rightarrow> nat \<Rightarrow> ('e \<times> nat) option) \<Rightarrow> bool" where
  "tells_sizes p contents reading \<longleftrightarrow>
    (\<forall>f h e n c w. nativeHandle f = Some h \<longrightarrow> reading w h = Some (e, n) \<longrightarrow> contents w e = Some c \<longrightarrow>
      (ok (positionStatus (p_filePosition p f w)) \<longrightarrow> position (p_filePosition p f w) = n) \<and>
      (ok (sizeStatus (p_fileSize p f w)) \<longrightarrow> sizeBytes (p_fileSize p f w) = length c))"

definition reads_from :: "('w \<Rightarrow> 'e \<Rightarrow> byte list option) \<Rightarrow> ('w \<Rightarrow> nat \<Rightarrow> ('e \<times> nat) option) \<Rightarrow> 'e \<Rightarrow> byte list \<Rightarrow> 'w handle \<Rightarrow> bool" where
  "reads_from contents reading e c h \<longleftrightarrow> contents (snd h) e = Some c \<and> (\<exists>n \<le> length c. at_reader reading e n (fst h) (snd h))"

definition unread :: "('w \<Rightarrow> nat \<Rightarrow> ('e \<times> nat) option) \<Rightarrow> byte list \<Rightarrow> 'w handle \<Rightarrow> byte list" where
  "unread reading c h = drop (snd (the (reading (snd h) (the (nativeHandle (the (fst h))))))) c"

lemma file_source:
  assumes bytes: "moves_bytes p contents reading target" and sizes: "tells_sizes p contents reading"
  shows "honest_source (FileReader p) (reads_from contents reading e c) (unread reading c)"
proof
  fix h dest r dest' h'
  assume inv: "reads_from contents reading e c h" and read: "reader_read (FileReader p) h dest = (r, dest', h')" and okay: "ok (readStatus r)"
  then obtain f k n where f: "fst h = Some f" "nativeHandle f = Some k" "reading (snd h) k = Some (e, n)" "contents (snd h) e = Some c" "n \<le> length c"
    unfolding reads_from_def at_reader_def by blast
  obtain q d f' w' where native: "p_readFile p f dest (snd h) = (q, d, f', w')" by (metis prod.exhaust)
  then have h': "r = q" "dest' = d" "h' = (Some f', w')" using read f by (cases h; simp add: FileReader_def file_read_def stateIsOpen_def)+
  have "contents w' = contents (snd h) \<and> target w' = target (snd h) \<and> nativeHandle f' = Some k \<and>
       (ok (readStatus q) \<longrightarrow> bytesRead q \<le> length dest \<and> n + bytesRead q \<le> length c \<and>
          d = take (bytesRead q) (drop n c) @ drop (bytesRead q) dest \<and> reading w' k = Some (e, n + bytesRead q) \<and>
          (endOfStream q \<longrightarrow> n + bytesRead q = length c) \<and> (dest \<noteq> [] \<and> bytesRead q = 0 \<longrightarrow> endOfStream q))"
    by (rule bytes [unfolded moves_bytes_def, THEN conjunct1, rule_format, OF native f(2,3,4,5)])
  then show "bytesRead r \<le> length dest \<and> bytesRead r \<le> length (unread reading c h) \<and>
      dest' = take (bytesRead r) (unread reading c h) @ drop (bytesRead r) dest \<and>
      unread reading c h' = drop (bytesRead r) (unread reading c h) \<and> (endOfStream r \<longrightarrow> unread reading c h' = []) \<and>
      reads_from contents reading e c h'"
    using okay f by (auto simp: h' unread_def reads_from_def at_reader_def add.commute)
next
  fix h
  assume "reads_from contents reading e c h" and told: "ok (sizeStatus (reader_size (FileReader p) h))" "ok (positionStatus (reader_position (FileReader p) h))"
  then obtain f k n where f: "fst h = Some f" "nativeHandle f = Some k" "reading (snd h) k = Some (e, n)" "contents (snd h) e = Some c" "n \<le> length c"
    unfolding reads_from_def at_reader_def by blast
  have "ok (positionStatus (p_filePosition p f (snd h))) \<longrightarrow> position (p_filePosition p f (snd h)) = n"
      "ok (sizeStatus (p_fileSize p f (snd h))) \<longrightarrow> sizeBytes (p_fileSize p f (snd h)) = length c"
    using sizes f unfolding tells_sizes_def by blast+
  then show "sizeBytes (reader_size (FileReader p) h) - position (reader_position (FileReader p) h) = length (unread reading c h)"
    using f told by (cases h) (simp add: FileReader_def file_position_def file_size_def stateIsOpen_def unread_def)
qed

text \<open>
  C21: what \<open>writeAllBytes\<close> has written with success, \<open>readAllBytes\<close> either returns byte for byte or reports a failure. Every call of the
  platform may fail, sizes and positions may be unavailable, so that the file is read in blocks, and memory may run out; no failure
  makes it report success with other bytes. The reads and writes of the platform that succeed move the bytes they say they move.
\<close>

theorem whole_file_roundtrip:
  assumes keeps: "keeps_contents p contents reading" and opens: "opens_files p entry contents reading target"
    and bytes: "moves_bytes p contents reading target" and sizes: "tells_sizes p contents reading"
    and wrote: "FS_writeAllBytes p path xs woptions w = (r, w1)" "ok (writeStatus r)"
    and read: "FS_readAllBytes env p path roptions w1 = (q, w2)"
  shows "bytesWritten r = length (view_elems xs) \<and> (ok (allStatus q) \<longrightarrow> allBytes q = view_elems xs)"
proof -
  obtain mode where mode: "write_mode (writeMode woptions) = Some mode" and whole: "write_whole p path xs
         \<lparr>writerMode = mode, writerShare = writeShare woptions, writerPolicy = writePolicy woptions,
          writerCreateParents = writeCreateParents woptions, writerFlushOnClose = FM_None\<rparr> (writeFlush woptions) w = (r, w1)"
    using wrote by (auto simp: FS_writeAllBytes_def writeFailure_def split: if_splits option.splits)
  have kinds: "mode \<noteq> W_OpenOrCreate" "mode \<noteq> W_AppendOrCreate" "mode \<noteq> W_AppendExisting"
    using mode by (cases "writeMode woptions"; simp)+
  let ?c = "view_elems xs"
  have written: "bytesWritten r = length ?c" "contents w1 (entry path) = Some ?c"
    using write_whole_law(2) [OF keeps opens bytes _ whole wrote(2)] kinds by (simp_all add: starts_from_def)
  obtain st h where opened: "FileReader_open p path (readOpen roptions) (None, w1) = (st, h)" by (rule prod.exhaust)
  have open_law: "contents (snd h) = contents w1" "ok st \<Longrightarrow> reads_from contents reading (entry path) ?c h \<and> unread reading ?c h = ?c"
    using reader_opens [OF keeps opens, of path "readOpen roptions" w1 st "fst h" "snd h"] opened written(2)
    by (auto simp: reads_from_def at_reader_def unread_def)
  obtain result h1 where result: "readAllBytes env (FileReader p) h (readMaxBytes roptions) (readBufferSize roptions) = (result, h1)" by (rule prod.exhaust)
  have got: "allBytes result = ?c" if "ok st" "ok (allStatus result)"
    using honest_source.readAllBytes_honest [OF file_source [OF bytes sizes] _ result that(2), of "entry path" ?c] open_law(2) [OF that(1)] by simp
  obtain cs h2 where close: "file_close p h1 = (cs, h2)" by (rule prod.exhaust)
  show ?thesis
    using read written got by (auto simp: FS_readAllBytes_def opened result close split: if_splits)
qed

section \<open>A platform with the contract\<close>

text \<open>One reader, handle 1, and one writer, handle 2, over files by path; two bytes per call at most.\<close>

record file_os =
  fosFiles :: "path \<Rightarrow> byte list option"
  fosReader :: "(path \<times> nat) option"
  fosWriter :: "path option"

definition fos_reading :: "file_os \<Rightarrow> nat \<Rightarrow> (path \<times> nat) option" where
  "fos_reading w h = (if h = 1 then fosReader w else None)"

definition fos_target :: "file_os \<Rightarrow> nat \<Rightarrow> path option" where
  "fos_target w h = (if h = 2 then fosWriter w else None)"

definition fos_file :: "nat \<Rightarrow> FileState" where
  "fos_file h = \<lparr>nativeHandle = Some h, stateAccess = ReadWriteAccess, stateFlushOnClose = FM_None, activeLocks = None, readable = True,
     writable = True, appendMode = False\<rparr>"

definition fos_openReader :: "path \<Rightarrow> file_os \<Rightarrow> Status \<times> FileState option \<times> file_os" where
  "fos_openReader t w = (if fosFiles w t = None then (statusOf NotFound, None, w) else (successStatus, Some (fos_file 1), w\<lparr>fosReader := Some (t, 0)\<rparr>))"

definition fos_openWriter :: "path \<Rightarrow> WriterMode \<Rightarrow> file_os \<Rightarrow> Status \<times> FileState option \<times> file_os" where
  "fos_openWriter t mode w =
    (if mode = W_CreateNew \<and> fosFiles w t \<noteq> None then (statusOf AlreadyExists, None, w)
     else (successStatus, Some (fos_file 2), w\<lparr>fosFiles := (fosFiles w)(t := Some (starts_from mode (fosFiles w t))), fosWriter := Some t\<rparr>))"

definition fos_read :: "FileState \<Rightarrow> byte list \<Rightarrow> file_os \<Rightarrow> ReadResult \<times> byte list \<times> FileState \<times> file_os" where
  "fos_read f dest w = (case Option.bind (nativeHandle f) (fos_reading w) of
     None \<Rightarrow> (readResult (statusOf NotOpen) 0 False, dest, f, w)
   | Some (t, n) \<Rightarrow>
       let c = the (fosFiles w t); k = min 2 (min (length dest) (length c - n)) in
       (readResult successStatus k (n + k = length c), take k (drop n c) @ drop k dest, f, w\<lparr>fosReader := Some (t, n + k)\<rparr>))"

definition fos_write :: "FileState \<Rightarrow> byte_view \<Rightarrow> file_os \<Rightarrow> WriteResult \<times> FileState \<times> file_os" where
  "fos_write f bytes w = (case Option.bind (nativeHandle f) (fos_target w) of
     None \<Rightarrow> (writeResult (statusOf NotOpen) 0, f, w)
   | Some t \<Rightarrow>
       let k = min 2 (length (view_elems bytes)) in
       (writeResult successStatus k, f, w\<lparr>fosFiles := (fosFiles w)(t := Some (the (fosFiles w t) @ take k (view_elems bytes)))\<rparr>))"

definition file_platform :: "(file_os, unit) Platform" where
  "file_platform = idle_platform\<lparr>
     p_queryEntry := \<lambda>t policy w. (\<lparr>infoStatus = (if fosFiles w t = None then statusOf NotFound else successStatus),
        infoOf = defaultEntryInfo\<lparr>entryKind := EK_RegularFile\<rparr>\<rparr>, w),
     p_createDirectories := \<lambda>t options w. (successStatus, w),
     p_openReader := \<lambda>t options. fos_openReader t,
     p_openWriter := \<lambda>t options. fos_openWriter t (writerMode options),
     p_readFile := fos_read,
     p_writeFile := fos_write,
     p_flushFile := \<lambda>f mode w. (successStatus, f, w),
     p_closeFile := \<lambda>f w. (successStatus, f\<lparr>nativeHandle := None\<rparr>, w),
     p_filePosition := \<lambda>f w. \<lparr>positionStatus = successStatus, position = snd (the (fosReader w))\<rparr>,
     p_fileSize := \<lambda>f w. \<lparr>sizeStatus = successStatus, sizeBytes = length (the (fosFiles w (fst (the (fosReader w)))))\<rparr>\<rparr>"

lemmas file_platform_defs = file_platform_def idle_platform_def fos_openReader_def fos_openWriter_def fos_read_def fos_write_def fos_file_def
  fos_reading_def fos_target_def

lemma file_platform_laws: "keeps_contents file_platform fosFiles fos_reading" "opens_files file_platform (\<lambda>t. t) fosFiles fos_reading fos_target"
    "moves_bytes file_platform fosFiles fos_reading fos_target" "tells_sizes file_platform fosFiles fos_reading"
proof -
  show "keeps_contents file_platform fosFiles fos_reading" by (simp add: keeps_contents_def file_platform_defs)
  show "opens_files file_platform (\<lambda>t. t) fosFiles fos_reading fos_target"
    by (auto simp: opens_files_def file_platform_defs split: if_splits)
  show "tells_sizes file_platform fosFiles fos_reading" by (auto simp: tells_sizes_def file_platform_defs Let_def split: if_splits)
  show "moves_bytes file_platform fosFiles fos_reading fos_target"
    by (auto simp: moves_bytes_def file_platform_defs Let_def min_def split: if_splits)
qed

definition file_os_state :: file_os where
  "file_os_state = \<lparr>fosFiles = (\<lambda>t. if t = [0x73] then Some [4, 5, 6] else None), fosReader = None, fosWriter = None\<rparr>"

definition copy_options :: CopyOptions where
  "copy_options = \<lparr>copyReplace = FailIfExists, copyPolicy = DoNotFollow, copyCreateParents = True, copyMetadata = CM_None, copyFlush = Data\<rparr>"

theorem copyFile_copies_witness:
  "\<exists>status w'. copyFile file_platform [0x73] [0x64] copy_options file_os_state = Some (status, w') \<and>
    fosFiles w' [0x73] = Some [4, 5, 6] \<and> (ok status \<longrightarrow> fosFiles w' [0x64] = Some [4, 5, 6])"
proof -
  obtain status w' where "copyFile file_platform [0x73] [0x64] copy_options file_os_state = Some (status, w')"
      "\<forall>e. e \<noteq> [0x64] \<longrightarrow> fosFiles w' e = fosFiles file_os_state e" "ok status \<longrightarrow> fosFiles w' [0x64] = fosFiles file_os_state [0x73]"
    using copyFile_copies [OF file_platform_laws(1-3), of "[0x73]" "[0x64]" copy_options file_os_state] by auto
  then show ?thesis by (simp add: file_os_state_def)
qed

definition write_options :: WriteOptions where
  "write_options = \<lparr>writeMode = WM_CreateOrTruncate, writeShare = ShareNone, writePolicy = DoNotFollow, writeCreateParents = True, writeFlush = Data\<rparr>"

definition read_options :: ReadOptions where
  "read_options = \<lparr>readOpen = \<lparr>readerShare = ShareAll, readerPolicy = DoNotFollow\<rparr>, readMaxBytes = 100, readBufferSize = 8\<rparr>"

definition roomy_env :: transfer_env where
  "roomy_env = \<lparr>vectorMaxSize = 1000, vectorAlloc = (\<lambda>n. None), stringMaxSize = 1000, stringAlloc = (\<lambda>n. None), scratchAlloc = (\<lambda>n. None),
     scratchContents = (\<lambda>n. 0)\<rparr>"

lemma example_write_ok: "ok (writeStatus (fst (FS_writeAllBytes file_platform [0x64] \<lparr>view_data = 0, view_elems = [1, 2, 3]\<rparr> write_options file_os_state)))"
  by code_simp

lemma example_read_ok: "ok (allStatus (fst (FS_readAllBytes roomy_env file_platform [0x64] read_options
    (snd (FS_writeAllBytes file_platform [0x64] \<lparr>view_data = 0, view_elems = [1, 2, 3]\<rparr> write_options file_os_state)))))"
  by code_simp

theorem whole_file_roundtrip_witness:
  "case FS_writeAllBytes file_platform [0x64] \<lparr>view_data = 0, view_elems = [1, 2, 3]\<rparr> write_options file_os_state of (r, w1) \<Rightarrow>
     bytesWritten r = 3 \<and> (case FS_readAllBytes roomy_env file_platform [0x64] read_options w1 of (q, w2) \<Rightarrow>
       ok (allStatus q) \<and> allBytes q = [1, 2, 3])"
proof -
  obtain r w1 where wrote: "FS_writeAllBytes file_platform [0x64] \<lparr>view_data = 0, view_elems = [1, 2, 3]\<rparr> write_options file_os_state = (r, w1)"
    by (rule prod.exhaust)
  obtain q w2 where read: "FS_readAllBytes roomy_env file_platform [0x64] read_options w1 = (q, w2)" by (rule prod.exhaust)
  have read_back: "ok (allStatus q)" using example_read_ok by (simp add: wrote read)
  have "ok (writeStatus r)" using example_write_ok by (simp add: wrote)
  then show ?thesis
    using whole_file_roundtrip [OF file_platform_laws wrote _ read] read_back by (simp add: wrote read)
qed

end
