(* ===== verification/Spec2Isabelle.thy ===== *)
theory Spec2Isabelle
  imports Base_Arithmetic Unicode_Conversion Unicode_Grapheme_Cursor IO_Transfer Logger_Queue_Safety Input_State Input_Registry
    Terminal_Line_Input Action_Frames Accessibility_Changes Accessibility_Geometry FileSystem_Atomic FileSystem_Trees FileSystem_Contents
begin

text \<open>
  This library verifies the portable core of GameWIP (C++23): from the foundation libraries (\<^verbatim>\<open>src/foundation\<close>) strict Unicode
  text handling, resource-agnostic byte transfer, the filesystem library above its platform backend and the terminal's line editor; from the tools (\<^verbatim>\<open>src/tools\<close>) the logger's message
  bounding, filters, runtime state and concurrent queue; and from the engine (\<^verbatim>\<open>src/engine\<close>) the input state, the device registry, the mapping of
  input to actions and the desktop's accessibility bridge. The layers not modelled (terminal sessions, windows, platform backends) call these
  libraries and add operating-system resources.

  \<^bold>\<open>How the parts fit.\<close> \<^verbatim>\<open>base/checked_arithmetic.h\<close> gives overflow predicates. \<^verbatim>\<open>unicode\<close> has scalar codecs
  (\<^verbatim>\<open>internal/encoding.h\<close>), range operations over them (\<^verbatim>\<open>core/utf8.cpp\<close>, \<^verbatim>\<open>core/utf16.cpp\<close>), conversion between the two
  encodings (\<^verbatim>\<open>core/conversion.cpp\<close>), a generated property trie with its lookup, and extended grapheme-cluster
  segmentation on top of all of these (\<^verbatim>\<open>core/grapheme.cpp\<close>). \<^verbatim>\<open>io\<close> defines reader and writer interfaces
  (\<^verbatim>\<open>stream.h\<close>), memory streams (\<^verbatim>\<open>memory.h\<close>, \<^verbatim>\<open>core/io.cpp\<close>) and whole-stream transfers (\<^verbatim>\<open>core/transfer.cpp\<close>), which
  call the UTF-8 validator for text. \<^verbatim>\<open>filesystem\<close> converts paths to and from UTF-8 (\<^verbatim>\<open>core/path.cpp\<close>), opens files
  and directory cursors through a platform interface (\<^verbatim>\<open>internal/filesystem_platform.h\<close>), hands its files to the stream transfers as
  readers and writers, and builds on them copying, moving, atomic replacement, listing and removal of trees. The logger (\<^verbatim>\<open>tools/logger\<close>) gates a call on a packed atomic word and a source registry, bounds its message,
  and hands it through a bounded multi-producer ring to one worker thread that writes to the sinks. The input layer
  (\<^verbatim>\<open>engine/input\<close>) keeps what platform backends report: the frame's input state, and which backend feeds which device. The terminal's managed line read (\<^verbatim>\<open>terminal/core/line_input.cpp\<close>) takes key, text and paste events,
  edits a UTF-8 line with a caret on grapheme boundaries through a cached \<^verbatim>\<open>GraphemeCursor\<close>, and echoes it. The action layer
  (\<^verbatim>\<open>engine/action\<close>) reads an \<^verbatim>\<open>InputState\<close> once per frame and turns its controls, through bindings with gestures, modifiers and value
  processing, into the pressed, released, down and value queries of typed actions. The accessibility bridge
  (\<^verbatim>\<open>engine/desktop/core/accessibility.cpp\<close> and its internal headers) validates a semantic tree the game submits, indexes its text by UTF-16 and
  grapheme offsets, publishes it as an immutable snapshot to any number of native reader threads, reports the changes to
  them through a bounded notification queue, takes their action requests through a second one, and shares the window's geometry
  through a seqlock.

  \<^bold>\<open>Theories.\<close>
  \<^item> \<open>GW_Prelude\<close>: type synonyms, bit-field and list lemmas shared by all components.
  \<^item> \<open>Base_Arithmetic\<close>: \<open>wouldAddOverflow\<close>, \<open>wouldMultiplyOverflow\<close> on words of any width, exact on the numbers.
  \<^item> \<open>Unicode_Encoding\<close>: the scalar codecs on 8-, 16- and 32-bit words, operation by operation; UTF-8 decoding is shown sound
    and complete for the shortest-form encodings, and \<open>Incomplete\<close> means exactly \<open>proper prefix of an encoding\<close>.
  \<^item> \<open>Unicode_Codec\<close>: the same for UTF-16; the locale \<open>scalar_codec\<close> states what any range operation needs of a codec
    (decoding inverts encoding, decoding is sound, incompleteness is exact) and derives unique decomposition of a range
    into scalars and an undecodable tail. It is interpreted for both codecs (\<open>utf8\<close>, \<open>utf16\<close>).
  \<^item> \<open>Unicode_Text\<close>: scalar encoding with validation, range validation, code-point traversal. The locale \<open>range_validator\<close>
    extends \<open>scalar_codec\<close> by the validator's loop equation; \<open>utf8v\<close> and \<open>utf16v\<close> interpret it.
  \<^item> \<open>Unicode_Conversion\<close>: measurement and conversion. A span is an address with elements, because converters compare address
    ranges before they write; \<open>size_t\<close> overflow is checked on 64-bit words. The locales \<open>measurer\<close> and \<open>converter\<close> carry
    the loop proofs once for both directions.
  \<^item> \<open>Unicode_Tables\<close>, \<open>Unicode_Properties\<close>: the whole generated trie, in runs of equal elements, and its lookup. Lookups stay
    in bounds, and the data facts that segmentation relies on hold of every scalar.
  \<^item> \<open>Unicode_Grapheme\<close>: the streaming rule context, the ordered rules, the ASCII shortcuts, the backward search for a restart
    point, the three forward scans and the two queries. \<open>uax29_break\<close> states the rules over the whole preceding text; the
    constant-size context refines it, a guaranteed break makes the context independent of the past, and so the queries
    agree with complete segmentation.
  \<^item> \<open>Unicode_Grapheme_Cursor\<close>: \<^verbatim>\<open>GraphemeCursor\<close> over caller-owned storage, with binary search; it refines the stateless
    queries.
  \<^item> \<open>IO_Status\<close>, \<open>IO_Stream\<close>: status vocabulary, the interfaces as records of operations over an implementation state, the
    base-class defaults, and the contracts as the locales \<open>byte_source\<close>, \<open>sized_source\<close> (which extends it), \<open>honest_source\<close>, whose
    calls may fail (a \<open>sublocale\<close> makes every sized source one), and \<open>byte_sink\<close>.
  \<^item> \<open>IO_Memory\<close>: \<^verbatim>\<open>MemoryReader\<close> over a byte store in which source and destination may overlap, \<^verbatim>\<open>MemoryWriter\<close> over an
    owned vector whose storage may be its own input: inserting moved elements reads released storage. They interpret the contracts (\<open>mem\<close>, \<open>memw\<close>).
  \<^item> \<open>IO_Transfer\<close>: the whole-stream algorithms over any reader or writer. Bounds and text validity hold without any
    assumption on the reader; delivery of exactly the remaining bytes is proved in the contract locales and used through
    their interpretations; a source that may fail has delivered everything when the result reports success.
  \<^item> \<open>FileSystem_Path\<close>: the path type of the standard library on Windows, its grammar and decomposition, and the conversion to and from UTF-8,
    with the round trip.
  \<^item> \<open>FileSystem_Platform\<close>: the library's types, the platform as a record of state-passing functions that is a parameter of every
    operation, the queries and validations on it, and \<open>idle_platform\<close>, on which examples are built.
  \<^item> \<open>FileSystem_Handles\<close>: \<^verbatim>\<open>File\<close>, \<^verbatim>\<open>FileReader\<close>, \<^verbatim>\<open>FileWriter\<close>, \<^verbatim>\<open>FileLock\<close> and \<^verbatim>\<open>DirectoryCursor\<close> over a handle that is a state and the world it
    lives in. \<open>FileSystem_Operations\<close>: mutations, copying, whole-file reads and writes, atomic writes, listing and tree removal.
  \<^item> \<open>FileSystem_Atomic\<close>: the contents the destination goes through during an atomic write, whatever fails. \<open>FileSystem_Contents\<close>: what copying
    and whole-file operations do to the contents of files. \<open>FileSystem_Trees\<close>: what listing returns, and the order, bound and result of tree
    removal. Each states the contract it needs of the platform as a predicate with a concrete platform that satisfies it; every call may
    fail in them, except the cursor of a listing.
  \<^item> \<open>Sorted_Vector\<close>: vectors kept sorted by a key and searched with \<^verbatim>\<open>std::lower_bound\<close>; the locale \<open>keyed_vector\<close> proves lookup,
    insertion, update and erasure once.
  \<^item> \<open>Logger_Text\<close>: truncation on scalar boundaries, bounded formatting, inline and heap text buffers, queue entries. The
    locale \<open>text_store\<close> states what a queue needs of a buffer, in particular that moving text between buffers of one
    capacity cannot throw; \<open>dyn\<close> and \<open>inl\<close> interpret it.
  \<^item> \<open>Logger_Runtime\<close>: the packed runtime word, level filters, health, output modes and the critical sections of initialisation and
    shutdown; in every order of them the word answers as the configuration says (rule induction over \<open>runtime_step\<close>).
  \<^item> \<open>Logger_Sources\<close>: registration and lookup of sources, through a direct table or binary search.
  \<^item> \<open>Logger_Queue\<close>: the ring, any number of producers and the worker as a step relation, one step per access to an
    atomic, and the invariant; \<open>Logger_Queue_Producer\<close> and \<open>Logger_Queue_Safety\<close>: each kind of step keeps the invariant, and
    order, completeness, exclusive slot access and wake-up follow for every reachable state.
  \<^item> \<open>Input_Types\<close>: controls and device references as instances of \<open>linorder\<close> with the code's order, IEEE single-precision
    numbers as the code computes with them, and the sorted control vectors (interpretations \<open>ctl\<close> and \<open>cval\<close> of \<open>keyed_vector\<close>).
  \<^item> \<open>Input_State\<close>: \<^verbatim>\<open>InputState\<close> with every mutation and query; it refines a view of sets and functions, and the activation log
    of a frame replays to the buttons held.
  \<^item> \<open>Input_Registry\<close>: \<^verbatim>\<open>InputDeviceRegistry\<close>; each device's summary is a fixed point of its recomputation in every reachable
    registry, from which the selection of one feeding backend follows.
  \<^item> \<open>Terminal_Line_Editor\<close>: \<^verbatim>\<open>GraphemeIndex\<close>, insertion of scalars and pastes, and every editing key. A reference editor works on the
    line alone; editing through the cached index gives the same line and caret after any sequence of edits.
  \<^item> \<open>Terminal_Line_Input\<close>: the echo with its cell arithmetic, line endings, the deadline and the event loop of
    \<^verbatim>\<open>managedTerminalLineRead\<close>, over a record of terminal functions. The result is the reference editor's line, bounded and
    well-formed whatever the terminal does, and the read returns once its deadline has passed.
  \<^item> \<open>Action_Values\<close>: multiplication, division and square root in single precision and the value processing on them (deadzones, response
    curves, clamping); rounding is monotone, and so is the deadzone response.
  \<^item> \<open>Action_Bindings\<close>: settings, bindings and their validation, the binding store, the fluent builder, and rebinding from input at once or
    in a session over frames; \<open>store_ok\<close> is the store's invariant.
  \<^item> \<open>Action_Evaluate\<close>: \<^verbatim>\<open>ActionMap::evaluate\<close>: one gesture automaton per binding, value buckets and the selection between them, with the
    lemmas that take the evaluation loop apart into independent gestures (\<open>binding_frame\<close>).
  \<^item> \<open>Action_Frames\<close>: sequences of frames: the refinement, holds, axis edges, and the invariant over every operation
    (rule induction over \<open>reachable_map\<close>).
  \<^item> \<open>Ring_Buffer\<close>: the circular queue over a fixed vector that both accessibility queues use; the locale \<open>bounded_queue\<close> states the
    contract of a bounded first-in first-out queue, and \<open>ring\<close> interprets it.
  \<^item> \<open>Accessibility_Types\<close>, \<open>Accessibility_Validation\<close>: roles, states, nodes, actions and limits, and \<^verbatim>\<open>validate\<close> with every
    error it reports, in the order the code checks. \<open>Accessibility_Tree\<close>, \<open>Accessibility_Soundness\<close>: an accepted update is a tree
    that the traversal visits once each, in document order. \<open>Accessibility_Accepted\<close>: further consequences of acceptance, and concrete updates.
  \<^item> \<open>Accessibility_Text\<close>: the index of a text value by byte, UTF-16 unit, scalar and grapheme, equal to the positions computed from the text alone.
  \<^item> \<open>Accessibility_Snapshot\<close>: the byte arena and node table a validated update is copied into; reading the copy gives the update back.
  \<^item> \<open>Accessibility_Runtime\<close>: publication slots, generations, the notification and action queues, and their step relation; queue
    histories are prefixes of what was accepted, and nothing happens after a close.
  \<^item> \<open>Accessibility_Bridge\<close>: the facade's operations as compositions of runtime steps. \<open>Accessibility_Changes\<close>: the comparison of two
    snapshots and the notifications it produces; a snapshot that differs to a client is never published silently.
  \<^item> \<open>Accessibility_Geometry\<close>: the seqlock with its writer and any number of readers as interleaved steps; a read that
    returns is a value once published, and it returns within a bound after the writer rests.

  \<^bold>\<open>Conventions.\<close> Operations return the state they leave beside their result. A buffer passed by mutable span is an argument and
  part of the result. Sizes are natural numbers; where the code guards \<open>size_t\<close> arithmetic the guard is on 64-bit words.
  An enumeration that the code checks for unnamed values has an extra constructor for them. Allocation is a parameter:
  a function from the requested size to success or an exception, and container maxima are parameters too. Loops are
  total functions with termination proofs (the text or the limit shrinks); no fuel is used. The terminal's event loop may wait
  forever on an idle terminal, so \<open>lineLoop\<close> is a \<open>partial_function (option)\<close>, and that it returns is a theorem of its own; so are the
  tree traversal, the identifier search and the text index of the accessibility bridge, whose loops follow links of the submitted data, and
  the loops of the filesystem that run until the platform reports an end (\<open>copy_loop\<close>, \<open>next_loop\<close>, \<open>list_loop\<close>, \<open>remove_loop\<close>).
  Publication counters are 64-bit words; statements about them bound the number of publications by \<open>2^63\<close>. Floating-point
  numbers are exact multiples of the least subnormal with explicit rounding; \<^verbatim>\<open>std::pow\<close> is a parameter. Concurrency is interleaving of steps
  under sequential consistency; a thread that waits on a mutex or condition has no step until it may proceed.

  \<^bold>\<open>Not modelled.\<close> Win32 backends (the filesystem's among them), terminal sessions, output and styling, the logger's sinks, its
  log file and the start of its thread, assertions, the desktop shell and its windows, the native accessibility provider that serves snapshots to the operating
  system, the input backends, the window manager, the game runtime and the validation suites: they own handles,
  locks and threads or wrap the operating system. Moves, destruction and deleted constructors are checked by the C++ compiler, and
  allocation failures that leave an operation as an exception are modelled only where the code handles them; failures to copy the text
  of a status are not. In the accessibility bridge
  that leaves out the failures of \<^verbatim>\<open>validate\<close>'s scratch vectors, a notification sink that calls back into the bridge, and the
  lifetime of the views a native reader borrows.
\<close>

end
